(* ===== verification/Space_Prelude.thy ===== *)
theory Space_Prelude
  imports Main "HOL-Library.Word" "HOL-Library.AList"
begin

text \<open>
  Shared vocabulary of the development: the machine integers of the Rust code as words,
  fallible stateful operations as functions returning a \<open>Result\<close> and the next state, the
  standard library containers the code uses (\<open>HashMap\<close> as an association list, so that its
  unspecified iteration order is the order of an arbitrary list), byte files with positioned
  writes, and the slice iterator \<open>chunks\<close>.
\<close>

section \<open>Machine integers\<close>

type_synonym u8 = "8 word"
type_synonym u16 = "16 word"
type_synonym u32 = "32 word"
type_synonym u64 = "64 word"
type_synonym bytes = "u8 list"

named_theorems word_arith \<open>unat of the additions and subtractions the code performs\<close>
named_theorems op_simps \<open>unfolding of the operation combinators\<close>
named_theorems op_splits \<open>case splits of results\<close>
named_theorems file_simps \<open>positioned reads and writes on byte files\<close>

text \<open>\<open>saturating_add(1)\<close>, \<open>saturating_sub(1)\<close> and \<open>saturating_add(n)\<close> on an unsigned integer.\<close>

definition saturating_inc :: "'w::len word \<Rightarrow> 'w word" where
  "saturating_inc w = (if w = - 1 then w else w + 1)"

definition saturating_dec :: "'w::len word \<Rightarrow> 'w word" where
  "saturating_dec w = (if w = 0 then w else w - 1)"

lemma unat_plus_one [word_arith]: "w \<noteq> - 1 \<Longrightarrow> unat (w + 1) = Suc (unat w)"
  for w :: "'w::len word"
  by (metis Suc_eq_plus1 add.commute add_eq_0_iff unatSuc)

lemma unat_minus_word_one [word_arith]: "w \<noteq> 0 \<Longrightarrow> unat (w - 1) = unat w - 1"
  for w :: "'w::len word"
  by (rule unat_minus_one)

lemma unat_saturating_inc [word_arith]:
  "Suc (unat w) < 2 ^ LENGTH('w) \<Longrightarrow> unat (saturating_inc w) = Suc (unat w)"
  for w :: "'w::len word"
proof -
  assume "Suc (unat w) < 2 ^ LENGTH('w)"
  moreover have "unat (- 1 :: 'w word) = 2 ^ LENGTH('w) - 1"
    by (simp add: unsigned_minus_1_eq_mask mask_eq_exp_minus_1)
  ultimately have "w \<noteq> - 1" by auto
  then show ?thesis by (simp add: saturating_inc_def unat_plus_one)
qed

lemma saturating_inc_ge: "unat w \<le> unat (saturating_inc w)"
  for w :: "'w::len word"
  by (auto simp: saturating_inc_def unat_plus_one)

lemma saturating_inc_nonzero: "saturating_inc w \<noteq> 0"
  for w :: "'w::len word"
  by (simp add: saturating_inc_def) (metis add.commute add_eq_0_iff minus_equation_iff)

lemma unat_add_of_nat [word_arith]:
  "unat w + n < 2 ^ LENGTH('w) \<Longrightarrow> unat (w + of_nat n) = unat w + n"
  for w :: "'w::len word"
proof -
  assume *: "unat w + n < 2 ^ LENGTH('w)"
  then have "unat (of_nat n :: 'w word) = n"
    by (simp add: unat_of_nat)
  with * show ?thesis by (simp add: unat_add_lem [THEN iffD1])
qed

lemma unat_of_nat_small [word_arith]:
  "n < 2 ^ LENGTH('w) \<Longrightarrow> unat (of_nat n :: 'w::len word) = n"
  by (simp add: unat_of_nat)

section \<open>Results and operations\<close>

datatype ('a, 'e) result = Ok 'a | Err 'e

fun is_ok :: "('a, 'e) result \<Rightarrow> bool" where
  "is_ok (Ok _) = True"
| "is_ok (Err _) = False"

fun map_result_err :: "('e \<Rightarrow> 'f) \<Rightarrow> ('a, 'e) result \<Rightarrow> ('a, 'f) result" where
  "map_result_err g (Ok x) = Ok x"
| "map_result_err g (Err e) = Err (g e)"

fun bind_result :: "('a, 'e) result \<Rightarrow> ('a \<Rightarrow> ('b, 'e) result) \<Rightarrow> ('b, 'e) result" where
  "bind_result (Ok x) f = f x"
| "bind_result (Err e) f = Err e"

definition ok_or :: "'a option \<Rightarrow> 'e \<Rightarrow> ('a, 'e) result" where
  "ok_or x e = (case x of Some v \<Rightarrow> Ok v | None \<Rightarrow> Err e)"

lemma ok_or_simps [simp]: "ok_or (Some v) e = Ok v" "ok_or None e = Err e"
  by (simp_all add: ok_or_def)

lemma bind_result_Ok_iff:
  "bind_result r f = Ok y \<longleftrightarrow> (\<exists>x. r = Ok x \<and> f x = Ok y)"
  by (cases r) auto

text \<open>
  A method that mutates its receiver and returns a \<open>Result\<close>: the state is returned on the
  error path too, because the mutations made before an early return persist.
\<close>

type_synonym ('s, 'a, 'e) op = "'s \<Rightarrow> ('a, 'e) result \<times> 's"

definition return_op :: "'a \<Rightarrow> ('s, 'a, 'e) op" where
  "return_op x s = (Ok x, s)"

definition fail_op :: "'e \<Rightarrow> ('s, 'a, 'e) op" where
  "fail_op e s = (Err e, s)"

definition bind_op :: "('s, 'a, 'e) op \<Rightarrow> ('a \<Rightarrow> ('s, 'b, 'e) op) \<Rightarrow> ('s, 'b, 'e) op" where
  "bind_op m f s = (case m s of (Ok x, s') \<Rightarrow> f x s' | (Err e, s') \<Rightarrow> (Err e, s'))"

text \<open>The \<open>?\<close> operator on a result that touches no state.\<close>

definition lift_result :: "('a, 'e) result \<Rightarrow> ('s, 'a, 'e) op" where
  "lift_result r s = (r, s)"

definition map_err_op :: "('e \<Rightarrow> 'f) \<Rightarrow> ('s, 'a, 'e) op \<Rightarrow> ('s, 'a, 'f) op" where
  "map_err_op g m s = (case m s of (r, s') \<Rightarrow> (map_result_err g r, s'))"

text \<open>\<open>let _ = m;\<close>: the operation runs and its result is dropped.\<close>

definition ignore_op :: "('s, 'a, 'e) op \<Rightarrow> ('s, unit, 'f) op" where
  "ignore_op m s = (Ok (), snd (m s))"

text \<open>An operation of a component, run on the component's field of a larger state.\<close>

definition zoom :: "('s \<Rightarrow> 'c) \<Rightarrow> ('c \<Rightarrow> 's \<Rightarrow> 's) \<Rightarrow> ('c, 'a, 'e) op \<Rightarrow> ('s, 'a, 'e) op" where
  "zoom get put m s = (case m (get s) of (r, c) \<Rightarrow> (r, put c s))"

text \<open>A \<open>for\<close> loop whose body may return early with an error.\<close>

fun for_each :: "('b \<Rightarrow> ('s, unit, 'e) op) \<Rightarrow> 'b list \<Rightarrow> ('s, unit, 'e) op" where
  "for_each f [] s = (Ok (), s)"
| "for_each f (x # xs) s = (case f x s of (Ok _, s') \<Rightarrow> for_each f xs s' | (Err e, s') \<Rightarrow> (Err e, s'))"

lemmas op_defs [op_simps] = return_op_def fail_op_def bind_op_def lift_result_def map_err_op_def
  ignore_op_def zoom_def

declare result.splits [op_splits] prod.splits [op_splits] option.splits [op_splits]

lemma bind_op_Ok:
  "bind_op m f s = (Ok y, t) \<longleftrightarrow> (\<exists>x u. m s = (Ok x, u) \<and> f x u = (Ok y, t))"
  by (auto simp: bind_op_def split: op_splits)

lemma for_each_append:
  "for_each f (xs @ ys) s =
     (case for_each f xs s of (Ok _, s') \<Rightarrow> for_each f ys s' | (Err e, s') \<Rightarrow> (Err e, s'))"
  by (induction f xs s rule: for_each.induct) (auto split: op_splits)

text \<open>
  Reasoning about operations: \<open>holds P m Q R\<close> says that from a state satisfying \<open>P\<close> the operation
  ends in a state satisfying \<open>Q x\<close> when it returns \<open>Ok x\<close>, and \<open>R\<close> when it returns an error.
\<close>

definition holds :: "('s \<Rightarrow> bool) \<Rightarrow> ('s, 'a, 'e) op \<Rightarrow> ('a \<Rightarrow> 's \<Rightarrow> bool) \<Rightarrow> ('s \<Rightarrow> bool) \<Rightarrow> bool" where
  "holds P m Q R \<longleftrightarrow> (\<forall>s. P s \<longrightarrow> (case m s of (Ok x, t) \<Rightarrow> Q x t | (Err _, t) \<Rightarrow> R t))"

lemma holdsI:
  assumes "\<And>s x t. P s \<Longrightarrow> m s = (Ok x, t) \<Longrightarrow> Q x t"
    and "\<And>s e t. P s \<Longrightarrow> m s = (Err e, t) \<Longrightarrow> R t"
  shows "holds P m Q R"
  using assms by (auto simp: holds_def split: op_splits)

lemma holds_OkD: "holds P m Q R \<Longrightarrow> P s \<Longrightarrow> m s = (Ok x, t) \<Longrightarrow> Q x t"
  by (auto simp: holds_def split: op_splits)

lemma holds_ErrD: "holds P m Q R \<Longrightarrow> P s \<Longrightarrow> m s = (Err e, t) \<Longrightarrow> R t"
  by (auto simp: holds_def split: op_splits)

lemma holds_bind:
  assumes "holds P m Q R" and "\<And>x. holds (Q x) (f x) Q' R"
  shows "holds P (bind_op m f) Q' R"
  using assms by (fastforce simp: holds_def bind_op_def split: op_splits)

lemma holds_conseq:
  assumes "holds P m Q R" and "\<And>s. P' s \<Longrightarrow> P s" and "\<And>x s. Q x s \<Longrightarrow> Q' x s" and "\<And>s. R s \<Longrightarrow> R' s"
  shows "holds P' m Q' R'"
  by (rule holdsI) (use assms in \<open>blast dest: holds_OkD holds_ErrD\<close>)+

text \<open>Loop rule: the invariant speaks of the elements still to be processed.\<close>

lemma holds_for_each:
  assumes "\<And>x xs. holds (I (x # xs)) (f x) (\<lambda>_. I xs) R"
  shows "holds (I xs) (for_each f xs) (\<lambda>_. I []) R"
proof (induction xs)
  case Nil
  show ?case by (simp add: holds_def)
next
  case (Cons x xs)
  with assms [of x xs] show ?case
    by (fastforce simp: holds_def split: op_splits)
qed

section \<open>Hash maps\<close>

text \<open>
  A \<open>HashMap\<close> is an association list with distinct keys. Inserting replaces in place, and
  iteration visits the pairs in list order; theorems quantify over the list, hence over every
  iteration order.
\<close>

type_synonym ('k, 'v) hmap = "('k \<times> 'v) list"

abbreviation hm_get :: "('k, 'v) hmap \<Rightarrow> 'k \<Rightarrow> 'v option" where
  "hm_get m k \<equiv> map_of m k"

abbreviation hm_insert :: "'k \<Rightarrow> 'v \<Rightarrow> ('k, 'v) hmap \<Rightarrow> ('k, 'v) hmap" where
  "hm_insert k v m \<equiv> AList.update k v m"

abbreviation hm_remove :: "'k \<Rightarrow> ('k, 'v) hmap \<Rightarrow> ('k, 'v) hmap" where
  "hm_remove k m \<equiv> AList.delete k m"

abbreviation hm_keys :: "('k, 'v) hmap \<Rightarrow> 'k list" where
  "hm_keys m \<equiv> map fst m"

abbreviation hm_values :: "('k, 'v) hmap \<Rightarrow> 'v list" where
  "hm_values m \<equiv> map snd m"

definition hm_ok :: "('k, 'v) hmap \<Rightarrow> bool" where
  "hm_ok m \<longleftrightarrow> distinct (map fst m)"

lemma hm_ok_Nil [simp, intro]: "hm_ok []"
  by (simp add: hm_ok_def)

lemma hm_ok_insert [simp, intro]: "hm_ok m \<Longrightarrow> hm_ok (hm_insert k v m)"
  by (simp add: hm_ok_def distinct_update)

lemma hm_ok_remove [simp, intro]: "hm_ok m \<Longrightarrow> hm_ok (hm_remove k m)"
  by (simp add: hm_ok_def distinct_delete)

lemma hm_get_insert [simp]: "hm_get (hm_insert k v m) k' = (if k' = k then Some v else hm_get m k')"
  by (auto simp: update_conv')

lemma hm_get_remove [simp]: "hm_get (hm_remove k m) k' = (if k' = k then None else hm_get m k')"
  by (simp add: delete_conv')

lemma hm_get_iff: "hm_ok m \<Longrightarrow> hm_get m k = Some v \<longleftrightarrow> (k, v) \<in> set m"
  by (simp add: hm_ok_def)

lemma hm_get_None_iff: "hm_get m k = None \<longleftrightarrow> k \<notin> fst ` set m"
  by (simp add: map_of_eq_None_iff)

section \<open>Slices\<close>

text \<open>\<open>slice::chunks(n)\<close>; the code panics on \<open>n = 0\<close>, which callers rule out first.\<close>

function chunks :: "nat \<Rightarrow> 'a list \<Rightarrow> 'a list list" where
  "chunks n xs = (if n = 0 \<or> xs = [] then [] else take n xs # chunks n (drop n xs))"
  by pat_completeness auto
termination
  by (relation "measure (\<lambda>(n, xs). length xs)") auto

declare chunks.simps [simp del]

lemma chunks_Nil [simp]: "chunks n [] = []"
  by (simp add: chunks.simps)

lemma chunks_step: "0 < n \<Longrightarrow> xs \<noteq> [] \<Longrightarrow> chunks n xs = take n xs # chunks n (drop n xs)"
  by (simp add: chunks.simps [of n xs])

lemma concat_chunks: "0 < n \<Longrightarrow> concat (chunks n xs) = xs"
proof (induction n xs rule: chunks.induct)
  case (1 n xs)
  then show ?case
    by (cases "xs = []") (simp_all add: chunks_step)
qed

lemma chunks_bounds: "c \<in> set (chunks n xs) \<Longrightarrow> c \<noteq> [] \<and> length c \<le> n"
proof (induction n xs rule: chunks.induct)
  case (1 n xs)
  then show ?case
    by (auto simp: chunks.simps [of n xs] split: if_splits)
qed

lemma length_chunks: "0 < n \<Longrightarrow> length (chunks n xs) = (length xs + n - 1) div n"
proof (induction n xs rule: chunks.induct)
  case (1 n xs)
  show ?case
  proof (cases "xs = []")
    case False
    then have 2: "length (chunks n (drop n xs)) = (length (drop n xs) + n - 1) div n"
      using 1 by simp
    have "length xs + n - 1 = (length xs - 1) + n"
      using False by (cases xs) simp_all
    then have 3: "(length xs + n - 1) div n = Suc ((length xs - 1) div n)"
      using "1.prems" by (simp only: div_add_self2 Suc_eq_plus1)
    have 4: "(length xs - n + n - 1) div n = (length xs - 1) div n"
    proof (cases "n \<le> length xs")
      case True
      then show ?thesis by simp
    next
      case False
      then have "length xs - 1 < n" and "n - 1 < n"
        using "1.prems" by linarith+
      then show ?thesis using False by simp
    qed
    have "length (chunks n xs) = Suc (length (chunks n (drop n xs)))"
      using False "1.prems" by (subst chunks_step) simp_all
    then show ?thesis
      unfolding 2 3 by (simp only: length_drop 4)
  qed (use 1 in simp)
qed

section \<open>Byte files\<close>

text \<open>
  \<open>seek(Start(off))\<close> followed by \<open>write_all(d)\<close>: a gap between the end of the file and \<open>off\<close>
  reads as zeroes, and writing nothing changes nothing.
\<close>

definition write_at :: "nat \<Rightarrow> bytes \<Rightarrow> bytes \<Rightarrow> bytes" where
  "write_at off d f =
     (if d = [] then f
      else take off (f @ replicate (off - length f) 0) @ d @ drop (off + length d) f)"

text \<open>\<open>seek(Start(off))\<close> followed by \<open>read_exact\<close> of \<open>n\<close> bytes; \<open>None\<close> is the unexpected end of file.\<close>

definition read_at :: "nat \<Rightarrow> nat \<Rightarrow> bytes \<Rightarrow> bytes option" where
  "read_at off n f = (if n = 0 then Some [] else if off + n \<le> length f then Some (take n (drop off f)) else None)"

lemma length_write_at:
  "length (write_at off d f) = (if d = [] then length f else max (length f) (off + length d))"
  by (auto simp: write_at_def)

lemma length_write_at_ge [simp]: "length f \<le> length (write_at off d f)"
  by (simp add: length_write_at)

lemma read_write_same [file_simps]: "read_at off (length d) (write_at off d f) = Some d"
  by (auto simp: read_at_def write_at_def)

text \<open>A write at or after the end of a region leaves the region as it was.\<close>

lemma read_write_before [file_simps]:
  assumes "off' + n \<le> off" and "off' + n \<le> length f"
  shows "read_at off' n (write_at off d f) = read_at off' n f"
proof (cases "d = [] \<or> n = 0")
  case False
  then have d: "d \<noteq> []" "n \<noteq> 0" by auto
  have "take n (drop off' (write_at off d f)) = take n (drop off' f)"
  proof (rule nth_equalityI)
    show "length (take n (drop off' (write_at off d f))) = length (take n (drop off' f))"
      using assms by (simp add: length_write_at)
  next
    fix i assume "i < length (take n (drop off' (write_at off d f)))"
    then have "i < n" by simp
    then show "take n (drop off' (write_at off d f)) ! i = take n (drop off' f) ! i"
      using assms d by (simp add: write_at_def nth_append length_write_at)
  qed
  moreover have "off' + n \<le> length (write_at off d f)"
    using assms(2) length_write_at_ge [of f off d] by linarith
  ultimately show ?thesis using assms d by (simp add: read_at_def)
qed (auto simp: read_at_def write_at_def)

lemma read_at_zero [simp]: "read_at off 0 f = Some []"
  by (simp add: read_at_def)

lemma read_at_Some_bound: "read_at off n f = Some d \<Longrightarrow> length d = n \<and> (n = 0 \<or> off + n \<le> length f)"
  by (auto simp: read_at_def split: if_splits)

section \<open>Input and output faults\<close>

text \<open>
  Every write, sync or save of a file (and every opening that may fail) takes its outcome from the head of a plan: success, or a
  failure after some number of bytes went through. An exhausted plan means success, so the
  empty plan is a fault-free run and theorems without a hypothesis on the plan hold under
  every pattern of failures.
\<close>

datatype io_outcome = IoOk | IoFail nat

fun io_next :: "io_outcome list \<Rightarrow> io_outcome \<times> io_outcome list" where
  "io_next [] = (IoOk, [])"
| "io_next (x # xs) = (x, xs)"

text \<open>
  What \<open>std::fs::write\<close> leaves in a metadata file: nothing yet, the last value serialised, or,
  after a failure past the truncation, a torn file that no longer parses.
\<close>

datatype 'a persisted = Absent | Stored 'a | Torn

fun fs_write :: "'a \<Rightarrow> io_outcome \<Rightarrow> 'a persisted \<Rightarrow> 'a persisted" where
  "fs_write v IoOk p = Stored v"
| "fs_write v (IoFail 0) p = p"
| "fs_write v (IoFail (Suc k)) p = Torn"

end
