(* ===== verification/Common_Types.thy ===== *)
theory Common_Types
  imports Space_Prelude
begin

text \<open>
  The data types of \<open>crates/common\<close>: identifiers, capsules, segments (\<open>lib.rs\<close>), policies
  and their presets (\<open>policy.rs\<close>), deduplication statistics (\<open>traits.rs\<close>), the errors the
  storage core returns, and the record of third-party functions the code calls.
\<close>

section \<open>Identifiers\<close>

text \<open>A \<open>Uuid\<close> is its sixteen bytes; fresh ones come from outside and are arguments of the model.\<close>

type_synonym uuid = bytes

datatype segment_id = SegmentId (seg_num: u64)

datatype capsule_id = CapsuleId (as_uuid: uuid)

datatype content_hash = ContentHash (as_str: string)

text \<open>\<open>str::as_bytes\<close> of an ASCII string.\<close>

definition as_bytes :: "string \<Rightarrow> bytes" where
  "as_bytes s = map of_char s"

text \<open>\<open>u64::from_le_bytes\<close>.\<close>

definition from_le_bytes :: "bytes \<Rightarrow> u64" where
  "from_le_bytes bs = word_rcat (rev bs)"

text \<open>\<open>bytes[0..8].try_into().unwrap_or_default()\<close>: a \<open>Uuid\<close> always has its sixteen bytes.\<close>

definition shard_keys :: "capsule_id \<Rightarrow> nat \<Rightarrow> u64 list" where
  "shard_keys cid count =
     (let count = max count 1; base = from_le_bytes (take 8 (as_uuid cid))
      in map (\<lambda>idx. base + of_nat idx) [0..<count])"

section \<open>Policies\<close>

datatype crypto_profile = Classical | HybridKyber

text \<open>The level of a codec is an \<open>i32\<close>; it is only clamped and compared.\<close>

datatype compression_policy = CompressionNone | LZ4 (lz4_level: int) | Zstd (zstd_level: int)

definition default_compression :: compression_policy where
  "default_compression = LZ4 1"

datatype encryption_policy = Disabled | XtsAes256 (policy_key_version: "u32 option")

fun is_enabled :: "encryption_policy \<Rightarrow> bool" where
  "is_enabled Disabled = False"
| "is_enabled (XtsAes256 _) = True"

fun key_version_of :: "encryption_policy \<Rightarrow> u32 option" where
  "key_version_of Disabled = None"
| "key_version_of (XtsAes256 kv) = kv"

datatype merkle_algo = Blake3 | SphincsPlus

datatype layout_strategy =
    Fixed (fixed_segment_size: nat)
  | AdaptiveEntropy
  | ZnsGraph (zone_size_mib: u32) (graph_radius: u32)
  | Learned (model_path: string)
  | QuantumReady (merkle: merkle_algo)

text \<open>\<open>heat_threshold\<close> is an \<open>f32\<close> the code never reads; it is kept as its bit pattern, here that of the literal 0.7.\<close>

record layout_policy =
  strategy :: layout_strategy
  ec_profile :: "nat \<times> nat"
  heat_threshold :: u32

definition default_layout :: layout_policy where
  "default_layout = \<lparr>strategy = Fixed (4 * 1024 * 1024), ec_profile = (6, 2),
     heat_threshold = 0x3F333333\<rparr>"

text \<open>\<open>usize\<close> is 64 bits wide, so \<open>saturating_mul\<close> is bounded by \<open>2 ^ 64 - 1\<close>.\<close>

fun default_segment_size :: "layout_strategy \<Rightarrow> nat" where
  "default_segment_size (Fixed n) = n"
| "default_segment_size AdaptiveEntropy = 4 * 1024 * 1024"
| "default_segment_size (ZnsGraph mib _) = min (unat mib * (1024 * 1024)) (2 ^ 64 - 1)"
| "default_segment_size (Learned _) = 4 * 1024 * 1024"
| "default_segment_size (QuantumReady _) = 4 * 1024 * 1024"

text \<open>A \<open>Duration\<close> is its length in nanoseconds.\<close>

type_synonym duration = nat

definition from_secs :: "nat \<Rightarrow> duration" where
  "from_secs n = n * 1000000000"

definition from_millis :: "nat \<Rightarrow> duration" where
  "from_millis n = n * 1000000"

datatype sovereignty_level = LocalSovereignty | ZoneSovereignty | GlobalSovereignty

record policy =
  compression :: compression_policy
  dedupe :: bool
  compact_interval_secs :: "u64 option"
  erasure_profile :: "string option"
  encryption :: encryption_policy
  crypto_profile :: crypto_profile
  layout :: layout_policy
  rpo :: duration
  latency_target :: duration
  sovereignty :: sovereignty_level

definition default_rpo :: duration where
  "default_rpo = from_secs 60"

definition default_latency_target :: duration where
  "default_latency_target = from_millis 10"

definition default_policy :: policy where
  "default_policy = \<lparr>compression = default_compression, dedupe = True,
     compact_interval_secs = Some 3600, erasure_profile = None, encryption = Disabled,
     crypto_profile = Classical, layout = default_layout, rpo = default_rpo,
     latency_target = default_latency_target, sovereignty = LocalSovereignty\<rparr>"

definition text_optimized :: policy where
  "text_optimized = \<lparr>compression = Zstd 3, dedupe = True,
     compact_interval_secs = Some 1800, erasure_profile = None, encryption = Disabled,
     crypto_profile = Classical, layout = default_layout, rpo = default_rpo,
     latency_target = default_latency_target, sovereignty = LocalSovereignty\<rparr>"

definition precompressed :: policy where
  "precompressed = \<lparr>compression = CompressionNone, dedupe = False,
     compact_interval_secs = Some 7200, erasure_profile = None, encryption = Disabled,
     crypto_profile = Classical, layout = default_layout, rpo = default_rpo,
     latency_target = default_latency_target, sovereignty = LocalSovereignty\<rparr>"

definition edge_optimized :: policy where
  "edge_optimized = \<lparr>compression = LZ4 1, dedupe = False,
     compact_interval_secs = None, erasure_profile = None, encryption = Disabled,
     crypto_profile = Classical, layout = default_layout, rpo = from_secs 300,
     latency_target = from_millis 50, sovereignty = LocalSovereignty\<rparr>"

definition encrypted_policy :: policy where
  "encrypted_policy = \<lparr>compression = default_compression, dedupe = True,
     compact_interval_secs = Some 3600, erasure_profile = None, encryption = XtsAes256 None,
     crypto_profile = Classical, layout = default_layout, rpo = default_rpo,
     latency_target = default_latency_target, sovereignty = LocalSovereignty\<rparr>"

definition encrypted_compressed :: policy where
  "encrypted_compressed = \<lparr>compression = Zstd 3, dedupe = True,
     compact_interval_secs = Some 3600, erasure_profile = None, encryption = XtsAes256 None,
     crypto_profile = Classical, layout = default_layout, rpo = default_rpo,
     latency_target = default_latency_target, sovereignty = LocalSovereignty\<rparr>"

definition metro_sync :: policy where
  "metro_sync = \<lparr>compression = LZ4 1, dedupe = True,
     compact_interval_secs = Some 3600, erasure_profile = None, encryption = XtsAes256 None,
     crypto_profile = Classical, layout = default_layout, rpo = 0,
     latency_target = from_millis 2, sovereignty = ZoneSovereignty\<rparr>"

definition geo_replicated :: policy where
  "geo_replicated = \<lparr>compression = Zstd 3, dedupe = True,
     compact_interval_secs = Some 3600, erasure_profile = None, encryption = XtsAes256 None,
     crypto_profile = Classical, layout = default_layout, rpo = from_secs 300,
     latency_target = from_millis 100, sovereignty = GlobalSovereignty\<rparr>"

lemmas policy_presets = default_policy_def text_optimized_def precompressed_def edge_optimized_def
  encrypted_policy_def encrypted_compressed_def metro_sync_def geo_replicated_def

section \<open>Capsules and segments\<close>

definition SEGMENT_SIZE :: nat where
  "SEGMENT_SIZE = 4 * 1024 * 1024"

lemma SEGMENT_SIZE_bounds [simp]: "0 < SEGMENT_SIZE" "SEGMENT_SIZE < 2 ^ 32" "SEGMENT_SIZE \<noteq> 0"
  by (simp_all add: SEGMENT_SIZE_def)

record capsule =
  cap_id :: capsule_id
  cap_size :: u64
  cap_segments :: "segment_id list"
  cap_created_at :: u64
  cap_policy :: policy
  cap_deduped_bytes :: u64

record segment =
  seg_id :: segment_id
  seg_offset :: u64
  seg_len :: u32
  seg_compressed :: bool
  seg_compression_algo :: string
  seg_content_hash :: "content_hash option"
  seg_ref_count :: u32
  seg_deduplicated :: bool
  seg_access_count :: u32
  seg_encryption_version :: "u16 option"
  seg_key_version :: "u32 option"
  seg_tweak_nonce :: "bytes option"
  seg_integrity_tag :: "bytes option"
  seg_encrypted :: bool
  seg_pq_ciphertext :: "string option"
  seg_pq_nonce :: "bytes option"

section \<open>Deduplication statistics\<close>

text \<open>\<open>dedup_ratio\<close> is an \<open>f32\<close> computed for display by \<open>compute_ratio\<close> and is left out.\<close>

record dedup_stats =
  total_segments :: nat
  deduped_segments :: nat
  bytes_saved :: u64

definition new_stats :: dedup_stats where
  "new_stats = \<lparr>total_segments = 0, deduped_segments = 0, bytes_saved = 0\<rparr>"

definition record_segment :: "u64 \<Rightarrow> bool \<Rightarrow> dedup_stats \<Rightarrow> dedup_stats" where
  "record_segment segment_len was_deduped st =
     (let st = st\<lparr>total_segments := total_segments st + 1\<rparr>
      in if was_deduped
         then st\<lparr>deduped_segments := deduped_segments st + 1, bytes_saved := bytes_saved st + segment_len\<rparr>
         else st)"

definition add_segment_stats :: "u64 \<Rightarrow> bool \<Rightarrow> dedup_stats \<Rightarrow> dedup_stats" where
  "add_segment_stats segment_len was_deduped st = record_segment segment_len was_deduped st"

section \<open>Errors\<close>

text \<open>The payloads of the error variants that carry floating point numbers are left out.\<close>

datatype compression_error =
    EntropySkip
  | IneffectiveRatio
  | InvalidPolicy string
  | CompressionIo string
  | Codec string
  | CompressionIntegrity string

datatype encryption_error =
    KeyNotFound u32
  | InvalidKeyLength nat nat
  | KeyDerivationFailed
  | KeyRotationInProgress
  | InvalidCiphertextLength nat
  | IntegrityFailure
  | MissingIntegrityTag
  | MissingMetadata
  | CorruptedMetadata string
  | InvalidConfiguration string

text \<open>
  The errors of the storage core: \<open>anyhow\<close> messages as constructors, the typed errors of the
  compression and encryption crates, and the wrappers of \<open>PipelineError\<close>. \<open>Panic\<close> stands for a
  Rust panic (slice out of range, arithmetic overflow, \<open>unwrap\<close> of an error).
\<close>

datatype error =
    IoError
  | ParseError
  | UnexpectedEof
  | SegmentNotFound segment_id
  | RefCountZero segment_id
  | TransactionFinalized
  | PendingNotFound segment_id
  | CapsuleNotFound
  | CapsuleCollision
  | ClockError
  | VanishedDuringGc segment_id
  | KeyManagerMissing
  | MissingKeyVersion
  | ReadBeyondCapsule
  | CompressionFailed compression_error
  | EncryptionFailed encryption_error
  | PipelineCompression nat compression_error
  | PipelineRegistry string error
  | PipelineNvram string error
  | SegmentTooLarge nat
  | ExitedEarly nat nat
  | PlanBeyondData nat nat
  | NotFound
  | Rejected string
  | ViewError string
  | Panic

section \<open>Third-party functions\<close>

text \<open>
  The functions of other crates that the modelled code calls: BLAKE3 (\<open>blake3\<close>), HMAC-SHA256
  (\<open>hmac\<close>, \<open>sha2\<close>), XTS-AES-256 (\<open>xts-mode\<close>, \<open>aes\<close>), LZ4 and Zstd (\<open>lz4\<close>, \<open>zstd\<close>), lowercase
  hexadecimal (\<open>hex\<close>), and the single-precision comparison of the entropy estimate. Every
  definition that calls one of them takes this record as an argument.
\<close>

record ext =
  ext_blake3 :: "bytes \<Rightarrow> bytes"
  ext_blake3_keyed :: "bytes \<Rightarrow> bytes \<Rightarrow> bytes"
  ext_blake3_xof :: "nat \<Rightarrow> bytes \<Rightarrow> bytes"
  ext_hmac_sha256 :: "bytes \<Rightarrow> bytes \<Rightarrow> bytes"
  ext_xts_encrypt :: "bytes \<Rightarrow> bytes \<Rightarrow> bytes \<Rightarrow> bytes \<Rightarrow> bytes"
  ext_xts_decrypt :: "bytes \<Rightarrow> bytes \<Rightarrow> bytes \<Rightarrow> bytes \<Rightarrow> bytes"
  ext_lz4_encode :: "u32 \<Rightarrow> bytes \<Rightarrow> (bytes, compression_error) result"
  ext_lz4_decode :: "bytes \<Rightarrow> (bytes, compression_error) result"
  ext_zstd_encode :: "int \<Rightarrow> bytes \<Rightarrow> (bytes, compression_error) result"
  ext_zstd_decode :: "bytes \<Rightarrow> (bytes, compression_error) result"
  ext_hex :: "bytes \<Rightarrow> string"
  ext_entropy_ge_7_5 :: "nat list \<Rightarrow> nat \<Rightarrow> bool"

definition content_hash_from_bytes :: "ext \<Rightarrow> bytes \<Rightarrow> content_hash" where
  "content_hash_from_bytes E h = ContentHash (ext_hex E h)"

text \<open>Documented behaviour the theorems rely on, as named hypotheses.\<close>

text \<open>BLAKE3 has a 32-byte output.\<close>

definition blake3_len :: "ext \<Rightarrow> bool" where
  "blake3_len E \<longleftrightarrow> (\<forall>d. length (ext_blake3 E d) = 32)"

text \<open>XTS decryption inverts encryption under the same keys and tweak, and keeps the length, from one block on.\<close>

definition xts_laws :: "ext \<Rightarrow> bool" where
  "xts_laws E \<longleftrightarrow>
     (\<forall>k1 k2 t d. 16 \<le> length d \<longrightarrow>
        length (ext_xts_encrypt E k1 k2 t d) = length d \<and>
        ext_xts_decrypt E k1 k2 t (ext_xts_encrypt E k1 k2 t d) = d)"

text \<open>Hexadecimal encoding writes two characters per byte, and different bytes differently.\<close>

definition hex_laws :: "ext \<Rightarrow> bool" where
  "hex_laws E \<longleftrightarrow>
     (\<exists>dig. inj dig \<and> (\<forall>b. length (dig b) = 2) \<and> (\<forall>bs. ext_hex E bs = concat (map dig bs)))"

text \<open>The content hashes of the byte strings in \<open>A\<close> do not collide.\<close>

definition collision_free :: "ext \<Rightarrow> bytes set \<Rightarrow> bool" where
  "collision_free E A \<longleftrightarrow>
     inj_on (\<lambda>d. content_hash_from_bytes E (ext_blake3 E d)) A"

text \<open>
  A concrete instance of the third-party functions, on which the theorems with hypotheses about
  them are exercised: the hash pads or truncates to 32 bytes, the cipher flips the lowest bit of
  every byte, and the codecs abbreviate runs of one byte.
\<close>

definition sample_hash :: "bytes \<Rightarrow> bytes" where
  "sample_hash d = take 32 (of_nat (length d) # d @ replicate 32 0)"

definition sample_flip :: "bytes \<Rightarrow> bytes" where
  "sample_flip d = map (\<lambda>b. xor b 1) d"

fun sample_encode :: "u8 \<Rightarrow> bytes \<Rightarrow> (bytes, compression_error) result" where
  "sample_encode magic [] = Ok [magic]"
| "sample_encode magic (b # d) =
     (if list_all (\<lambda>x. x = b) d \<and> length d < 255 then Ok [magic, 34, b, of_nat (Suc (length d))]
      else Ok (magic # 35 # b # d))"

fun sample_decode :: "u8 \<Rightarrow> bytes \<Rightarrow> (bytes, compression_error) result" where
  "sample_decode magic d =
     (if length d = 4 \<and> d ! 0 = magic \<and> d ! 1 = 34 then Ok (replicate (unat (d ! 3)) (d ! 2))
      else if 2 \<le> length d \<and> d ! 0 = magic \<and> d ! 1 = 35 then Ok (drop 2 d)
      else if d = [magic] then Ok []
      else Err (Codec ''sample''))"

definition hex_digit :: "nat \<Rightarrow> char" where
  "hex_digit n = ''0123456789abcdef'' ! n"

definition sample_hex :: "bytes \<Rightarrow> string" where
  "sample_hex bs = concat (map (\<lambda>b. [hex_digit (unat b div 16), hex_digit (unat b mod 16)]) bs)"

definition sample_ext :: ext where
  "sample_ext = \<lparr>ext_blake3 = sample_hash, ext_blake3_keyed = (\<lambda>k d. sample_hash (k @ d)),
     ext_blake3_xof = (\<lambda>n d. take n (d @ replicate n 0)),
     ext_hmac_sha256 = (\<lambda>k d. sample_hash (k @ d)),
     ext_xts_encrypt = (\<lambda>k1 k2 t d. sample_flip d), ext_xts_decrypt = (\<lambda>k1 k2 t d. sample_flip d),
     ext_lz4_encode = (\<lambda>l d. sample_encode 4 d), ext_lz4_decode = sample_decode 4,
     ext_zstd_encode = (\<lambda>l d. sample_encode 40 d), ext_zstd_decode = sample_decode 40,
     ext_hex = sample_hex, ext_entropy_ge_7_5 = (\<lambda>freq total. list_all (\<lambda>c. c \<le> 8) freq)\<rparr>"

lemma sample_blake3_len: "blake3_len sample_ext"
  by (auto simp: blake3_len_def sample_ext_def sample_hash_def)

lemma sample_flip_flip [simp]: "sample_flip (sample_flip d) = d"
  by (induction d) (simp_all add: sample_flip_def xor.assoc)

lemma sample_xts_laws: "xts_laws sample_ext"
  using sample_flip_flip by (simp add: xts_laws_def sample_ext_def) (simp add: sample_flip_def)

lemma hex_digit_inj: "m < 16 \<Longrightarrow> n < 16 \<Longrightarrow> hex_digit m = hex_digit n \<Longrightarrow> m = n"
  unfolding hex_digit_def by (subst (asm) nth_eq_iff_index_eq) simp_all

lemma sample_hex_laws: "hex_laws sample_ext"
proof -
  let ?dig = "\<lambda>b :: u8. [hex_digit (unat b div 16), hex_digit (unat b mod 16)]"
  have "inj ?dig"
  proof (rule injI)
    fix a b :: u8 assume eq: "?dig a = ?dig b"
    have lt: "unat x div 16 < 16" for x :: u8
      using unsigned_less [of x, where 'a = nat] by simp
    have "unat a div 16 = unat b div 16" and "unat a mod 16 = unat b mod 16"
      using eq by (auto intro: hex_digit_inj [OF lt lt] hex_digit_inj)
    then have "unat a = unat b" by (metis div_mult_mod_eq)
    then show "a = b" by (rule unsigned_word_eqI)
  qed
  then show ?thesis
    unfolding hex_laws_def by (intro exI [of _ ?dig]) (simp add: sample_ext_def sample_hex_def)
qed

text \<open>Its hexadecimal digits can be read back.\<close>

definition hex_value :: "char \<Rightarrow> nat option" where
  "hex_value c = List.find (\<lambda>n. hex_digit n = c) [0..<16]"

fun sample_unhex :: "string \<Rightarrow> bytes option" where
  "sample_unhex [] = Some []"
| "sample_unhex [c] = None"
| "sample_unhex (a # b # cs) =
     (case hex_value a of
        None \<Rightarrow> None
      | Some x \<Rightarrow>
          (case hex_value b of
             None \<Rightarrow> None
           | Some y \<Rightarrow> map_option (\<lambda>bs. of_nat (16 * x + y) # bs) (sample_unhex cs)))"

lemma hex_value_digit: "n < 16 \<Longrightarrow> hex_value (hex_digit n) = Some n"
proof -
  have "list_all (\<lambda>n. hex_value (hex_digit n) = Some n) [0..<16]" by code_simp
  then show "n < 16 \<Longrightarrow> hex_value (hex_digit n) = Some n" by (simp add: list_all_iff)
qed

lemma sample_unhex_hex: "sample_unhex (sample_hex bs) = Some bs"
proof (induction bs)
  case (Cons b bs)
  have "unat b div 16 < 16" using unsigned_less [of b, where 'a = nat] by simp
  then show ?case using Cons by (simp add: sample_hex_def hex_value_digit)
qed (simp add: sample_hex_def)

end
