(* ===== verification/Nvram_Log.thy ===== *)
theory Nvram_Log
  imports Common_Types
begin

text \<open>
  The append-only segment log of \<open>crates/nvram-sim/src/lib.rs\<close>: \<open>NvramLog\<close> over a byte file
  with its persisted segment map, and \<open>NvramTransaction\<close>, which stages segments and writes them
  at commit. The clones of a log share one state, so a transaction's operations take the log
  and the transaction together. The \<open>RwLock\<close>s are not modelled: one operation runs at a time. Every write,
  sync and save of the map may fail; \<open>seek\<close> and \<open>read_exact\<close> in \<open>read\<close> fail only when the bytes lie beyond
  the end of the file.
\<close>

section \<open>The log\<close>

record nvram_log =
  nv_file :: bytes
  nv_segment_map :: "(segment_id, segment) hmap"
  nv_next_offset :: u64
  nv_saved :: "(segment_id, segment) hmap persisted"
  nv_io :: "io_outcome list"

type_synonym 'a log_op = "(nvram_log, 'a, error) op"

text \<open>\<open>open\<close>: the data file is created when missing, the map file is parsed when it exists.\<close>

definition nv_open ::
  "bytes option \<Rightarrow> (segment_id, segment) hmap persisted \<Rightarrow> io_outcome list \<Rightarrow> (nvram_log, error) result" where
  "nv_open file meta io =
     (let f = (case file of None \<Rightarrow> [] | Some f \<Rightarrow> f)
      in bind_result (case meta of Absent \<Rightarrow> Ok [] | Stored m \<Rightarrow> Ok m | Torn \<Rightarrow> Err ParseError)
           (\<lambda>m. Ok \<lparr>nv_file = f, nv_segment_map = m, nv_next_offset = of_nat (length f),
                    nv_saved = meta, nv_io = io\<rparr>))"

text \<open>\<open>seek\<close> and \<open>write_all\<close>; a failing write may have put a prefix of the data in the file.\<close>

definition file_write :: "nat \<Rightarrow> bytes \<Rightarrow> unit log_op" where
  "file_write off data lg =
     (case io_next (nv_io lg) of
        (IoOk, io) \<Rightarrow> (Ok (), lg\<lparr>nv_file := write_at off data (nv_file lg), nv_io := io\<rparr>)
      | (IoFail k, io) \<Rightarrow>
          (Err IoError, lg\<lparr>nv_file := write_at off (take k data) (nv_file lg), nv_io := io\<rparr>))"

definition file_sync :: "unit log_op" where
  "file_sync lg =
     (case io_next (nv_io lg) of
        (IoOk, io) \<Rightarrow> (Ok (), lg\<lparr>nv_io := io\<rparr>)
      | (IoFail _, io) \<Rightarrow> (Err IoError, lg\<lparr>nv_io := io\<rparr>))"

definition save_segment_map :: "unit log_op" where
  "save_segment_map lg =
     (case io_next (nv_io lg) of
        (r, io) \<Rightarrow> ((if r = IoOk then Ok () else Err IoError),
                    lg\<lparr>nv_saved := fs_write (nv_segment_map lg) r (nv_saved lg), nv_io := io\<rparr>))"

definition nv_list_segments :: "nvram_log \<Rightarrow> segment list" where
  "nv_list_segments lg = hm_values (nv_segment_map lg)"

definition nv_list_segment_ids :: "nvram_log \<Rightarrow> segment_id list" where
  "nv_list_segment_ids lg = hm_keys (nv_segment_map lg)"

text \<open>The metadata of a segment just appended; \<open>data.len() as u32\<close> truncates.\<close>

definition fresh_segment :: "segment_id \<Rightarrow> u64 \<Rightarrow> bytes \<Rightarrow> segment" where
  "fresh_segment sid off data =
     \<lparr>seg_id = sid, seg_offset = off, seg_len = of_nat (length data), seg_compressed = False,
      seg_compression_algo = ''none'', seg_content_hash = None, seg_ref_count = 1,
      seg_deduplicated = False, seg_access_count = 0, seg_encryption_version = None,
      seg_key_version = None, seg_tweak_nonce = None, seg_integrity_tag = None,
      seg_encrypted = False, seg_pq_ciphertext = None, seg_pq_nonce = None\<rparr>"

definition nv_append :: "segment_id \<Rightarrow> bytes \<Rightarrow> segment log_op" where
  "nv_append sid data lg =
     (let off = nv_next_offset lg; seg = fresh_segment sid off data
      in bind_op (file_write (unat off) data) (\<lambda>_.
         bind_op file_sync (\<lambda>_ lg.
           bind_op save_segment_map (\<lambda>_. return_op seg)
             (lg\<lparr>nv_next_offset := nv_next_offset lg + of_nat (length data),
                  nv_segment_map := hm_insert sid seg (nv_segment_map lg)\<rparr>))) lg)"

text \<open>\<open>get_mut(&seg_id)\<close> with an error when the key is missing.\<close>

definition nv_lookup :: "segment_id \<Rightarrow> segment log_op" where
  "nv_lookup sid lg = (ok_or (hm_get (nv_segment_map lg) sid) (SegmentNotFound sid), lg)"

definition nv_put :: "segment_id \<Rightarrow> segment \<Rightarrow> nvram_log \<Rightarrow> nvram_log" where
  "nv_put sid seg lg = lg\<lparr>nv_segment_map := hm_insert sid seg (nv_segment_map lg)\<rparr>"

definition nv_increment_refcount :: "segment_id \<Rightarrow> segment log_op" where
  "nv_increment_refcount sid =
     bind_op (nv_lookup sid) (\<lambda>seg lg.
       let rc = saturating_inc (seg_ref_count seg);
           seg = seg\<lparr>seg_ref_count := rc, seg_deduplicated := rc > 1,
                     seg_access_count := saturating_inc (seg_access_count seg)\<rparr>
       in bind_op save_segment_map (\<lambda>_. return_op seg) (nv_put sid seg lg))"

definition nv_decrement_refcount :: "segment_id \<Rightarrow> segment log_op" where
  "nv_decrement_refcount sid =
     bind_op (nv_lookup sid) (\<lambda>seg lg.
       if seg_ref_count seg = 0 then (Err (RefCountZero sid), lg)
       else let rc = seg_ref_count seg - 1;
                seg = seg\<lparr>seg_ref_count := rc, seg_deduplicated := rc > 1\<rparr>
            in bind_op save_segment_map (\<lambda>_. return_op seg) (nv_put sid seg lg))"

definition nv_remove_segment :: "segment_id \<Rightarrow> segment option log_op" where
  "nv_remove_segment sid lg =
     (let removed = hm_get (nv_segment_map lg) sid;
          lg = lg\<lparr>nv_segment_map := hm_remove sid (nv_segment_map lg)\<rparr>
      in if removed \<noteq> None then bind_op save_segment_map (\<lambda>_. return_op removed) lg
         else (Ok removed, lg))"

definition nv_read :: "segment_id \<Rightarrow> nvram_log \<Rightarrow> (bytes, error) result" where
  "nv_read sid lg =
     (case hm_get (nv_segment_map lg) sid of
        None \<Rightarrow> Err (SegmentNotFound sid)
      | Some seg \<Rightarrow>
          ok_or (read_at (unat (seg_offset seg)) (unat (seg_len seg)) (nv_file lg)) UnexpectedEof)"

definition nv_get_segment_metadata :: "segment_id \<Rightarrow> nvram_log \<Rightarrow> (segment, error) result" where
  "nv_get_segment_metadata sid lg = ok_or (hm_get (nv_segment_map lg) sid) (SegmentNotFound sid)"

definition nv_update_segment_metadata :: "segment_id \<Rightarrow> segment \<Rightarrow> unit log_op" where
  "nv_update_segment_metadata sid seg lg = save_segment_map (nv_put sid seg lg)"

section \<open>Transactions\<close>

record pending_segment =
  pend_segment :: segment
  pend_data :: bytes

record nvram_transaction =
  tx_pending :: "pending_segment list"
  tx_base_offset :: u64
  tx_current_offset :: u64
  tx_finalized :: bool

type_synonym 'a tx_op = "(nvram_log \<times> nvram_transaction, 'a, error) op"

definition nv_begin_transaction :: "nvram_log \<Rightarrow> nvram_transaction" where
  "nv_begin_transaction lg =
     \<lparr>tx_pending = [], tx_base_offset = nv_next_offset lg,
      tx_current_offset = nv_next_offset lg, tx_finalized = False\<rparr>"

definition ensure_active :: "unit tx_op" where
  "ensure_active s = (if tx_finalized (snd s) then (Err TransactionFinalized, s) else (Ok (), s))"

text \<open>Staging moves the log's \<open>next_offset\<close> although nothing is written yet.\<close>

definition tx_append_segment :: "segment_id \<Rightarrow> bytes \<Rightarrow> segment tx_op" where
  "tx_append_segment sid data =
     bind_op ensure_active (\<lambda>_ (lg, tx).
       let off = tx_current_offset tx; seg = fresh_segment sid off data;
           cur = off + of_nat (length data)
       in (Ok seg,
           (lg\<lparr>nv_next_offset := cur\<rparr>,
            tx\<lparr>tx_current_offset := cur,
               tx_pending := tx_pending tx @ [\<lparr>pend_segment = seg, pend_data = data\<rparr>]\<rparr>)))"

definition tx_pending_segment :: "segment_id \<Rightarrow> nvram_transaction \<Rightarrow> segment option" where
  "tx_pending_segment sid tx =
     map_option pend_segment (find (\<lambda>p. seg_id (pend_segment p) = sid) (tx_pending tx))"

text \<open>\<open>iter_mut().find(..)\<close>: the first pending entry with the identifier is changed in place.\<close>

fun update_first :: "('a \<Rightarrow> bool) \<Rightarrow> ('a \<Rightarrow> 'a) \<Rightarrow> 'a list \<Rightarrow> 'a list" where
  "update_first P f [] = []"
| "update_first P f (x # xs) = (if P x then f x # xs else x # update_first P f xs)"

definition tx_with_segment_mut :: "segment_id \<Rightarrow> (segment \<Rightarrow> segment) \<Rightarrow> unit tx_op" where
  "tx_with_segment_mut sid f =
     bind_op ensure_active (\<lambda>_ (lg, tx).
       if tx_pending_segment sid tx = None then (Err (PendingNotFound sid), (lg, tx))
       else (Ok (), (lg, tx\<lparr>tx_pending :=
               update_first (\<lambda>p. seg_id (pend_segment p) = sid)
                 (\<lambda>p. p\<lparr>pend_segment := f (pend_segment p)\<rparr>) (tx_pending tx)\<rparr>)))"

definition tx_set_segment_metadata :: "segment_id \<Rightarrow> segment \<Rightarrow> unit tx_op" where
  "tx_set_segment_metadata sid seg = tx_with_segment_mut sid (\<lambda>_. seg)"

text \<open>The writes of a commit: every pending entry at the offset its metadata carries, then one sync.\<close>

definition write_pending :: "pending_segment list \<Rightarrow> unit log_op" where
  "write_pending ps =
     bind_op (for_each (\<lambda>p. file_write (unat (seg_offset (pend_segment p))) (pend_data p)) ps)
       (\<lambda>_. file_sync)"

fun insert_pending ::
  "pending_segment list \<Rightarrow> (segment_id, segment) hmap \<Rightarrow> (segment_id, segment) hmap" where
  "insert_pending [] m = m"
| "insert_pending (p # ps) m =
     insert_pending ps (hm_insert (seg_id (pend_segment p)) (pend_segment p) m)"

definition tx_commit :: "unit tx_op" where
  "tx_commit = (\<lambda>(lg, tx).
     if tx_finalized tx then (Ok (), (lg, tx))
     else if tx_pending tx = [] then (Ok (), (lg, tx\<lparr>tx_finalized := True\<rparr>))
     else
       case write_pending (tx_pending tx) lg of
         (Err e, lg) \<Rightarrow>
           (Err e, (lg\<lparr>nv_next_offset := tx_base_offset tx\<rparr>, tx\<lparr>tx_finalized := True\<rparr>))
       | (Ok _, lg) \<Rightarrow>
           (case save_segment_map
                   (lg\<lparr>nv_next_offset := tx_current_offset tx,
                        nv_segment_map := insert_pending (tx_pending tx) (nv_segment_map lg)\<rparr>) of
              (Err e, lg) \<Rightarrow> (Err e, (lg, tx))
            | (Ok _, lg) \<Rightarrow> (Ok (), (lg, tx\<lparr>tx_pending := [], tx_finalized := True\<rparr>))))"

definition tx_rollback :: "unit tx_op" where
  "tx_rollback = (\<lambda>(lg, tx).
     if tx_finalized tx then (Ok (), (lg, tx))
     else (Ok (), (lg\<lparr>nv_next_offset := tx_base_offset tx\<rparr>,
                   tx\<lparr>tx_pending := [], tx_current_offset := tx_base_offset tx,
                      tx_finalized := True\<rparr>)))"

text \<open>\<open>Drop\<close>: a transaction that is still active is rolled back; only the log outlives it.\<close>

definition tx_drop :: "nvram_log \<times> nvram_transaction \<Rightarrow> nvram_log" where
  "tx_drop s = (if tx_finalized (snd s) then fst s else fst (snd (tx_rollback s)))"

lemmas nv_op_defs = nv_lookup_def nv_increment_refcount_def nv_decrement_refcount_def
  nv_remove_segment_def nv_update_segment_metadata_def nv_append_def file_write_def file_sync_def
  save_segment_map_def nv_put_def

section \<open>Well-formed logs\<close>

definition seg_end :: "segment \<Rightarrow> nat" where
  "seg_end seg = unat (seg_offset seg) + unat (seg_len seg)"

definition seg_bytes :: "nvram_log \<Rightarrow> segment \<Rightarrow> bytes option" where
  "seg_bytes lg seg = read_at (unat (seg_offset seg)) (unat (seg_len seg)) (nv_file lg)"

definition seg_data :: "nvram_log \<Rightarrow> segment_id \<Rightarrow> bytes option" where
  "seg_data lg sid = Option.bind (hm_get (nv_segment_map lg) sid) (seg_bytes lg)"

text \<open>
  A segment is well placed when its bytes lie inside the file and end before the offset at which
  the next segment will be written. A log is well formed when every segment of its map is filed
  under its own identifier and well placed.
\<close>

definition placed :: "nvram_log \<Rightarrow> segment \<Rightarrow> bool" where
  "placed lg seg \<longleftrightarrow> (unat (seg_len seg) = 0 \<or> seg_end seg \<le> length (nv_file lg)) \<and>
     seg_end seg \<le> unat (nv_next_offset lg)"

definition log_ok :: "nvram_log \<Rightarrow> bool" where
  "log_ok lg \<longleftrightarrow> hm_ok (nv_segment_map lg) \<and>
     (\<forall>sid seg. hm_get (nv_segment_map lg) sid = Some seg \<longrightarrow> seg_id seg = sid \<and> placed lg seg)"

text \<open>There is room for \<open>n\<close> more bytes below the 64-bit offset limit.\<close>

definition room :: "nat \<Rightarrow> nvram_log \<Rightarrow> bool" where
  "room n lg \<longleftrightarrow> unat (nv_next_offset lg) + n < 2 ^ 64"

text \<open>The regions of all well-placed segments read the same before and after.\<close>

definition keeps_regions :: "nvram_log \<Rightarrow> nvram_log \<Rightarrow> bool" where
  "keeps_regions lg lg' \<longleftrightarrow> length (nv_file lg) \<le> length (nv_file lg') \<and>
     (\<forall>seg. placed lg seg \<longrightarrow> seg_bytes lg' seg = seg_bytes lg seg)"

lemma log_okD:
  assumes "log_ok lg" "hm_get (nv_segment_map lg) sid = Some seg"
  shows "seg_id seg = sid" "placed lg seg"
  using assms by (auto simp: log_ok_def)

lemma log_ok_hm: "log_ok lg \<Longrightarrow> hm_ok (nv_segment_map lg)"
  by (simp add: log_ok_def)

lemma keeps_regions_refl [simp, intro]: "keeps_regions lg lg"
  by (simp add: keeps_regions_def)

lemma keeps_regions_file: "nv_file lg' = nv_file lg \<Longrightarrow> keeps_regions lg lg'"
  by (simp add: keeps_regions_def seg_bytes_def)

lemma keeps_regions_data:
  assumes "log_ok lg" "keeps_regions lg lg'"
    and "hm_get (nv_segment_map lg') sid = hm_get (nv_segment_map lg) sid"
  shows "seg_data lg' sid = seg_data lg sid"
  using assms log_okD
  by (cases "hm_get (nv_segment_map lg) sid") (auto simp: seg_data_def keeps_regions_def)

lemma seg_bytes_Some:
  assumes "log_ok lg" "hm_get (nv_segment_map lg) sid = Some seg"
  obtains d where "seg_bytes lg seg = Some d" "length d = unat (seg_len seg)"
proof -
  have "\<exists>d. seg_bytes lg seg = Some d \<and> length d = unat (seg_len seg)"
    using log_okD(2) [OF assms] by (auto simp: seg_bytes_def read_at_def seg_end_def placed_def)
  with that show thesis by blast
qed

lemma nv_read_eq:
  "nv_read sid lg = (case hm_get (nv_segment_map lg) sid of
      None \<Rightarrow> Err (SegmentNotFound sid) | Some seg \<Rightarrow> ok_or (seg_bytes lg seg) UnexpectedEof)"
  by (simp add: nv_read_def seg_bytes_def split: option.splits)

lemma nv_read_Ok_iff: "nv_read sid lg = Ok d \<longleftrightarrow> seg_data lg sid = Some d"
  by (auto simp: nv_read_eq seg_data_def ok_or_def split: option.splits)

text \<open>On a well-formed log a read fails only for an unknown segment.\<close>

lemma nv_read_total:
  "log_ok lg \<Longrightarrow> hm_get (nv_segment_map lg) sid = Some seg \<Longrightarrow> \<exists>d. nv_read sid lg = Ok d \<and> length d = unat (seg_len seg)"
  by (metis nv_read_eq ok_or_simps(1) option.simps(5) seg_bytes_Some)

section \<open>Effects of the file operations\<close>

lemma file_write_effect:
  assumes "file_write off d lg = (r, lg')"
  shows "nv_segment_map lg' = nv_segment_map lg" "nv_next_offset lg' = nv_next_offset lg"
    and "unat (nv_next_offset lg) \<le> off \<Longrightarrow> keeps_regions lg lg'"
    and "r = Ok () \<Longrightarrow> nv_file lg' = write_at off d (nv_file lg)"
    and "length (nv_file lg) \<le> length (nv_file lg')"
    and "nv_io lg = [] \<Longrightarrow> r = Ok () \<and> nv_io lg' = []"
    and "n + m \<le> off \<Longrightarrow> n + m \<le> length (nv_file lg) \<Longrightarrow> read_at n m (nv_file lg') = read_at n m (nv_file lg)"
  using assms
  by (auto simp: file_write_def keeps_regions_def seg_bytes_def seg_end_def placed_def file_simps
      split: prod.splits io_outcome.splits)

lemma file_sync_effect:
  assumes "file_sync lg = (r, lg')"
  shows "nv_segment_map lg' = nv_segment_map lg" "nv_next_offset lg' = nv_next_offset lg"
    and "nv_file lg' = nv_file lg" "nv_saved lg' = nv_saved lg"
    and "nv_io lg = [] \<Longrightarrow> r = Ok () \<and> nv_io lg' = []"
  using assms by (auto simp: file_sync_def split: prod.splits io_outcome.splits)

lemma save_effect:
  assumes "save_segment_map lg = (r, lg')"
  shows "nv_segment_map lg' = nv_segment_map lg" "nv_next_offset lg' = nv_next_offset lg"
    and "nv_file lg' = nv_file lg"
    and "r = Ok () \<Longrightarrow> nv_saved lg' = Stored (nv_segment_map lg)"
    and "nv_io lg = [] \<Longrightarrow> r = Ok () \<and> nv_io lg' = []"
  using assms by (auto simp: save_segment_map_def split: prod.splits if_splits)

lemma log_ok_cong:
  assumes "nv_segment_map lg' = nv_segment_map lg" "nv_next_offset lg' = nv_next_offset lg"
    and "length (nv_file lg) \<le> length (nv_file lg')" "log_ok lg"
  shows "log_ok lg'"
  using assms by (fastforce simp: log_ok_def placed_def)

lemma seg_data_cong:
  assumes "nv_segment_map lg' = nv_segment_map lg" "nv_file lg' = nv_file lg"
  shows "seg_data lg' = seg_data lg"
  by (rule ext) (simp add: assms seg_data_def seg_bytes_def [abs_def])

text \<open>
  Replacing the metadata of a present segment without moving it, as the reference count
  operations and \<open>update_segment_metadata\<close> do.
\<close>

definition same_place :: "segment \<Rightarrow> segment \<Rightarrow> bool" where
  "same_place seg seg' \<longleftrightarrow>
     seg_id seg' = seg_id seg \<and> seg_offset seg' = seg_offset seg \<and> seg_len seg' = seg_len seg"

lemma nv_put_effect:
  assumes "log_ok lg" "hm_get (nv_segment_map lg) sid = Some seg" "same_place seg seg'"
  shows "log_ok (nv_put sid seg' lg)" "seg_data (nv_put sid seg' lg) = seg_data lg"
proof -
  show "log_ok (nv_put sid seg' lg)"
    using assms by (auto simp: log_ok_def nv_put_def same_place_def seg_end_def placed_def)
  show "seg_data (nv_put sid seg' lg) = seg_data lg"
    using assms by (auto simp: fun_eq_iff seg_data_def nv_put_def same_place_def seg_bytes_def
        split: bind_splits)
qed

text \<open>What an operation that rewrites one segment's metadata in place leaves behind.\<close>

definition put_step :: "segment_id \<Rightarrow> segment \<Rightarrow> nvram_log \<Rightarrow> nvram_log \<Rightarrow> bool" where
  "put_step sid seg lg lg' \<longleftrightarrow>
     nv_segment_map lg' = hm_insert sid seg (nv_segment_map lg) \<and>
     nv_next_offset lg' = nv_next_offset lg \<and> nv_file lg' = nv_file lg"

lemma put_step_effect:
  assumes "put_step sid seg' lg lg'" "log_ok lg" "hm_get (nv_segment_map lg) sid = Some seg" "same_place seg seg'"
  shows "log_ok lg'" "seg_data lg' = seg_data lg"
proof -
  have "log_ok (nv_put sid seg' lg)" and d: "seg_data (nv_put sid seg' lg) = seg_data lg"
    by (rule nv_put_effect [OF assms(2-4)])+
  then show "log_ok lg'"
    by (rule_tac log_ok_cong [of lg' "nv_put sid seg' lg"]) (use assms(1) in \<open>simp_all add: put_step_def nv_put_def\<close>)
  have "seg_data lg' = seg_data (nv_put sid seg' lg)"
    by (rule seg_data_cong) (use assms(1) in \<open>simp_all add: put_step_def nv_put_def\<close>)
  with d show "seg_data lg' = seg_data lg" by simp
qed

lemma save_put:
  assumes "save_segment_map (nv_put sid seg lg) = (r, lg')"
  shows "put_step sid seg lg lg'" "nv_io lg = [] \<Longrightarrow> r = Ok () \<and> nv_io lg' = []"
  using save_effect [OF assms] by (auto simp: put_step_def nv_put_def)


section \<open>Operations on single segments\<close>

text \<open>Incrementing: the count saturates, nothing moves, and the map is changed even when saving fails.\<close>

lemma nv_increment_cases:
  assumes "nv_increment_refcount sid lg = (r, lg')"
  shows "hm_get (nv_segment_map lg) sid = None \<Longrightarrow> r = Err (SegmentNotFound sid) \<and> lg' = lg"
    and "hm_get (nv_segment_map lg) sid = Some seg \<Longrightarrow>
      \<exists>seg'. put_step sid seg' lg lg' \<and> (r = Ok seg' \<or> r = Err IoError) \<and>
        seg' = seg\<lparr>seg_ref_count := saturating_inc (seg_ref_count seg),
                   seg_deduplicated := saturating_inc (seg_ref_count seg) > 1,
                   seg_access_count := saturating_inc (seg_access_count seg)\<rparr> \<and>
        (nv_io lg = [] \<longrightarrow> r = Ok seg' \<and> nv_io lg' = [])"
proof -
  show "r = Err (SegmentNotFound sid) \<and> lg' = lg" if "hm_get (nv_segment_map lg) sid = None"
    using assms that by (simp add: nv_increment_refcount_def nv_lookup_def bind_op_def)
next
  assume g: "hm_get (nv_segment_map lg) sid = Some seg"
  let ?seg = "seg\<lparr>seg_ref_count := saturating_inc (seg_ref_count seg),
                   seg_deduplicated := saturating_inc (seg_ref_count seg) > 1,
                   seg_access_count := saturating_inc (seg_access_count seg)\<rparr>"
  obtain q where q: "save_segment_map (nv_put sid ?seg lg) = (q, lg')" and r: "r = (case q of Ok _ \<Rightarrow> Ok ?seg | Err e \<Rightarrow> Err e)"
    using assms g by (auto simp: nv_increment_refcount_def nv_lookup_def op_simps Let_def split: prod.splits result.splits)
  have "q = Ok () \<or> q = Err IoError"
    using q by (auto simp: save_segment_map_def split: prod.splits if_splits)
  with save_put [OF q] r show "\<exists>seg'. put_step sid seg' lg lg' \<and> (r = Ok seg' \<or> r = Err IoError) \<and> seg' = ?seg \<and>
        (nv_io lg = [] \<longrightarrow> r = Ok seg' \<and> nv_io lg' = [])"
    by auto
qed

lemma nv_decrement_cases:
  assumes "nv_decrement_refcount sid lg = (r, lg')"
  shows "hm_get (nv_segment_map lg) sid = None \<Longrightarrow> r = Err (SegmentNotFound sid) \<and> lg' = lg"
    and "hm_get (nv_segment_map lg) sid = Some seg \<Longrightarrow> seg_ref_count seg = 0 \<Longrightarrow> r = Err (RefCountZero sid) \<and> lg' = lg"
    and "hm_get (nv_segment_map lg) sid = Some seg \<Longrightarrow> seg_ref_count seg \<noteq> 0 \<Longrightarrow>
      \<exists>seg'. put_step sid seg' lg lg' \<and> (r = Ok seg' \<or> r = Err IoError) \<and>
        seg' = seg\<lparr>seg_ref_count := seg_ref_count seg - 1, seg_deduplicated := seg_ref_count seg - 1 > 1\<rparr> \<and>
        (nv_io lg = [] \<longrightarrow> r = Ok seg' \<and> nv_io lg' = [])"
proof -
  show "r = Err (SegmentNotFound sid) \<and> lg' = lg" if "hm_get (nv_segment_map lg) sid = None"
    using assms that by (simp add: nv_decrement_refcount_def nv_lookup_def bind_op_def)
  show "r = Err (RefCountZero sid) \<and> lg' = lg" if "hm_get (nv_segment_map lg) sid = Some seg" "seg_ref_count seg = 0"
    using assms that by (simp add: nv_decrement_refcount_def nv_lookup_def bind_op_def)
next
  assume g: "hm_get (nv_segment_map lg) sid = Some seg" "seg_ref_count seg \<noteq> 0"
  let ?seg = "seg\<lparr>seg_ref_count := seg_ref_count seg - 1, seg_deduplicated := seg_ref_count seg - 1 > 1\<rparr>"
  obtain q where q: "save_segment_map (nv_put sid ?seg lg) = (q, lg')" and r: "r = (case q of Ok _ \<Rightarrow> Ok ?seg | Err e \<Rightarrow> Err e)"
    using assms g by (auto simp: nv_decrement_refcount_def nv_lookup_def op_simps Let_def split: prod.splits result.splits)
  have "q = Ok () \<or> q = Err IoError"
    using q by (auto simp: save_segment_map_def split: prod.splits if_splits)
  with save_put [OF q] r show "\<exists>seg'. put_step sid seg' lg lg' \<and> (r = Ok seg' \<or> r = Err IoError) \<and> seg' = ?seg \<and>
        (nv_io lg = [] \<longrightarrow> r = Ok seg' \<and> nv_io lg' = [])"
    by auto
qed

lemma nv_remove_effect:
  assumes "nv_remove_segment sid lg = (r, lg')"
  shows "nv_segment_map lg' = hm_remove sid (nv_segment_map lg)" "nv_next_offset lg' = nv_next_offset lg"
    and "nv_file lg' = nv_file lg" "r = Ok (hm_get (nv_segment_map lg) sid) \<or> r = Err IoError"
    and "nv_io lg = [] \<Longrightarrow> r = Ok (hm_get (nv_segment_map lg) sid) \<and> nv_io lg' = []"
  using assms
  by (auto simp: nv_remove_segment_def Let_def op_simps save_segment_map_def delete_idem map_of_eq_None_iff
      split: if_splits prod.splits result.splits)

lemma nv_remove_ok:
  assumes "nv_remove_segment sid lg = (r, lg')" "log_ok lg"
  shows "log_ok lg'" "k \<noteq> sid \<Longrightarrow> seg_data lg' k = seg_data lg k" "seg_data lg' sid = None"
  using assms(2) nv_remove_effect [OF assms(1)]
  by (auto simp: log_ok_def placed_def seg_data_def seg_bytes_def [abs_def] split: if_splits)

text \<open>
  Appending either stops at the write or the sync, with nothing but bytes after the end of the
  log changed, or enters the segment in the map, after which only saving the map can fail.
\<close>

lemma nv_append_outcome:
  obtains (aborted) lg' where "nv_append sid d lg = (Err IoError, lg')"
      "nv_segment_map lg' = nv_segment_map lg" "nv_next_offset lg' = nv_next_offset lg"
      "keeps_regions lg lg'" "nv_io lg \<noteq> []"
  | (entered) r lg' where "nv_append sid d lg = (r, lg')"
      "r = Ok (fresh_segment sid (nv_next_offset lg) d) \<and> nv_saved lg' = Stored (nv_segment_map lg') \<or>
       r = Err IoError \<and> nv_io lg \<noteq> []"
      "nv_segment_map lg' = hm_insert sid (fresh_segment sid (nv_next_offset lg) d) (nv_segment_map lg)"
      "nv_next_offset lg' = nv_next_offset lg + of_nat (length d)"
      "nv_file lg' = write_at (unat (nv_next_offset lg)) d (nv_file lg)"
      "nv_io lg = [] \<longrightarrow> nv_io lg' = []"
proof -
  let ?seg = "fresh_segment sid (nv_next_offset lg) d"
  obtain r1 l1 where w: "file_write (unat (nv_next_offset lg)) d lg = (r1, l1)" by fastforce
  obtain r2 l2 where y: "file_sync l1 = (r2, l2)" by fastforce
  obtain r4 l4 where v: "save_segment_map (l2\<lparr>nv_next_offset := nv_next_offset l2 + of_nat (length d),
      nv_segment_map := hm_insert sid ?seg (nv_segment_map l2)\<rparr>) = (r4, l4)" by fastforce
  note W = file_write_effect [OF w] and Y = file_sync_effect [OF y] and V = save_effect [OF v]
  have r124: "r1 = Ok () \<or> r1 = Err IoError" "r2 = Ok () \<or> r2 = Err IoError" "r4 = Ok () \<or> r4 = Err IoError"
    using w y v by (auto simp: file_write_def file_sync_def save_segment_map_def
        split: prod.splits io_outcome.splits if_splits)
  show thesis
  proof (cases "r1 = Ok () \<and> r2 = Ok ()")
    case True
    then have "nv_append sid d lg = (case r4 of Ok _ \<Rightarrow> Ok ?seg | Err e \<Rightarrow> Err e, l4)"
      using w y v by (auto simp: nv_append_def op_simps Let_def split: prod.splits result.splits)
    then show thesis
      by (rule entered) (use True W Y V r124 in \<open>auto split: result.splits\<close>)
  next
    case False
    define l' where "l' = (if r1 = Ok () then l2 else l1)"
    have "nv_append sid d lg = (Err IoError, l')"
      using False w y r124 by (auto simp: nv_append_def op_simps Let_def l'_def split: prod.splits result.splits)
    then show thesis
    proof (rule aborted)
      have "keeps_regions lg l1" using W(3) by simp
      then show "keeps_regions lg l'" using Y(3) by (simp add: l'_def keeps_regions_def seg_bytes_def)
    qed (use False W Y r124 in \<open>auto simp: l'_def\<close>)
  qed
qed

text \<open>
  On success the segment is readable at the old end of the log; whatever happens, every other
  segment keeps its metadata and its bytes, and the log stays well formed.
\<close>

lemma nv_append_effect:
  assumes ap: "nv_append sid d lg = (r, lg')" and ok: "log_ok lg" and rm: "room (length d) lg" and len: "length d < 2 ^ 32"
  shows "log_ok lg' \<and> (\<forall>k. k \<noteq> sid \<longrightarrow> hm_get (nv_segment_map lg') k = hm_get (nv_segment_map lg) k) \<and>
    (\<forall>k. k \<noteq> sid \<longrightarrow> seg_data lg' k = seg_data lg k) \<and>
    unat (nv_next_offset lg') \<le> unat (nv_next_offset lg) + length d \<and>
    (nv_segment_map lg' = nv_segment_map lg \<and> seg_data lg' = seg_data lg \<and> r = Err IoError \<or>
     nv_segment_map lg' = hm_insert sid (fresh_segment sid (nv_next_offset lg) d) (nv_segment_map lg) \<and>
     seg_data lg' sid = Some d \<and> (r = Ok (fresh_segment sid (nv_next_offset lg) d) \<or> r = Err IoError))"
proof (cases rule: nv_append_outcome [of sid d lg])
  case (aborted l)
  then have "lg' = l" "r = Err IoError" using ap by auto
  then show ?thesis
    using aborted ok keeps_regions_data [OF ok aborted(4)] log_ok_cong [OF aborted(2,3) _ ok]
    by (auto simp: fun_eq_iff keeps_regions_def)
next
  case (entered q l)
  let ?seg = "fresh_segment sid (nv_next_offset lg) d"
  from entered(1) ap have l: "lg' = l" "r = q" by auto
  have next': "unat (nv_next_offset l) = unat (nv_next_offset lg) + length d"
    using rm entered(4) by (simp add: room_def word_arith)
  have keep: "keeps_regions lg l"
    using entered(5) by (auto simp: keeps_regions_def seg_bytes_def placed_def seg_end_def file_simps)
  have data: "seg_data l sid = Some d"
    using len by (simp add: seg_data_def entered(3,5) seg_bytes_def fresh_segment_def word_arith file_simps)
  have new: "placed l ?seg" "seg_id ?seg = sid"
    using len next' entered(5) by (auto simp: placed_def seg_end_def fresh_segment_def word_arith length_write_at)
  have old: "placed l seg" if "placed lg seg" for seg
    using that keep next' by (auto simp: placed_def keeps_regions_def)
  have "log_ok l"
    using ok new old entered(3) by (auto simp: log_ok_def)
  moreover have "seg_data l k = seg_data lg k" if "k \<noteq> sid" for k
    using keeps_regions_data [OF ok keep] that entered(3) by simp
  ultimately show ?thesis
    using l entered(2,3) data next' by auto
qed

text \<open>Without faults an append succeeds.\<close>

lemma nv_append_total:
  assumes "nv_io lg = []"
  obtains lg' where "nv_append sid d lg = (Ok (fresh_segment sid (nv_next_offset lg) d), lg')" "nv_io lg' = []"
  by (cases rule: nv_append_outcome [of sid d lg]) (use assms that in auto)

section \<open>Reopening\<close>

text \<open>
  After a successful save, opening the two files again gives a log with the same segments and
  the same bytes.
\<close>

lemma nv_open_saved:
  assumes "nv_saved lg = Stored (nv_segment_map lg)" "log_ok lg" "length (nv_file lg) < 2 ^ 64"
    "unat (nv_next_offset lg) \<le> length (nv_file lg)"
  obtains lg' where "nv_open (Some (nv_file lg)) (nv_saved lg) io = Ok lg'" "log_ok lg'"
    "seg_data lg' = seg_data lg" "nv_segment_map lg' = nv_segment_map lg"
proof
  let ?l = "\<lparr>nv_file = nv_file lg, nv_segment_map = nv_segment_map lg,
     nv_next_offset = of_nat (length (nv_file lg)), nv_saved = nv_saved lg, nv_io = io\<rparr>"
  show "nv_open (Some (nv_file lg)) (nv_saved lg) io = Ok ?l"
    by (simp add: nv_open_def assms(1) Let_def)
  show "log_ok ?l"
    using assms(2-4) by (fastforce simp: log_ok_def placed_def word_arith intro: order_trans)
  show "seg_data ?l = seg_data lg"
    by (rule seg_data_cong) simp_all
qed simp

section \<open>Atomicity of transactions\<close>

text \<open>
  Pending segments are laid out back to back from the base offset. The log of an active
  transaction is well formed up to the base offset, and the space from there to the current
  offset is reserved for the pending segments.
\<close>

fun staged :: "nat \<Rightarrow> pending_segment list \<Rightarrow> bool" where
  "staged off [] \<longleftrightarrow> True"
| "staged off (p # ps) \<longleftrightarrow> unat (seg_offset (pend_segment p)) = off \<and>
     unat (seg_len (pend_segment p)) = length (pend_data p) \<and>
     staged (off + length (pend_data p)) ps"

definition staged_size :: "pending_segment list \<Rightarrow> nat" where
  "staged_size ps = sum_list (map (\<lambda>p. length (pend_data p)) ps)"

definition tx_ok :: "nvram_log \<Rightarrow> nvram_transaction \<Rightarrow> bool" where
  "tx_ok lg tx \<longleftrightarrow> log_ok (lg\<lparr>nv_next_offset := tx_base_offset tx\<rparr>) \<and>
     \<not> tx_finalized tx \<and> staged (unat (tx_base_offset tx)) (tx_pending tx) \<and>
     unat (tx_current_offset tx) = unat (tx_base_offset tx) + staged_size (tx_pending tx) \<and>
     nv_next_offset lg = tx_current_offset tx"

definition pend_ids :: "pending_segment list \<Rightarrow> segment_id list" where
  "pend_ids ps = map (\<lambda>p. seg_id (pend_segment p)) ps"

text \<open>The abstract view of a set of pending segments: the contents they will add to the log.\<close>

definition pend_contents :: "pending_segment list \<Rightarrow> segment_id \<Rightarrow> bytes option" where
  "pend_contents ps = map_of (map (\<lambda>p. (seg_id (pend_segment p), pend_data p)) ps)"

lemma staged_append:
  "staged off (ps @ qs) \<longleftrightarrow> staged off ps \<and> staged (off + staged_size ps) qs"
  by (induction off ps rule: staged.induct) (auto simp: staged_size_def add.assoc)

lemma staged_update_first:
  assumes "\<And>p. same_place (pend_segment p) (pend_segment (f p)) \<and> pend_data (f p) = pend_data p"
  shows "staged off (update_first P f ps) = staged off ps"
    and "staged_size (update_first P f ps) = staged_size ps"
    and "pend_ids (update_first P f ps) = pend_ids ps"
    and "pend_contents (update_first P f ps) = pend_contents ps"
proof -
  show "staged off (update_first P f ps) = staged off ps"
    using assms by (induction off ps rule: staged.induct) (auto simp: same_place_def)
  show "staged_size (update_first P f ps) = staged_size ps"
    using assms by (induction P f ps rule: update_first.induct) (auto simp: staged_size_def)
  show "pend_ids (update_first P f ps) = pend_ids ps"
    using assms by (induction P f ps rule: update_first.induct) (auto simp: pend_ids_def same_place_def)
  show "pend_contents (update_first P f ps) = pend_contents ps"
    using assms by (induction P f ps rule: update_first.induct) (auto simp: pend_contents_def same_place_def)
qed

text \<open>Opening, staging and editing keep the invariant.\<close>

lemma tx_ok_begin: "log_ok lg \<Longrightarrow> tx_ok lg (nv_begin_transaction lg)"
  by (simp add: tx_ok_def nv_begin_transaction_def staged_size_def)

lemma tx_append_effect:
  assumes "tx_ok lg tx" "room (length d) lg" "length d < 2 ^ 32"
    and "tx_append_segment sid d (lg, tx) = (r, (lg', tx'))"
  shows "tx_ok lg' tx'" "r = Ok (fresh_segment sid (tx_current_offset tx) d)"
    and "nv_segment_map lg' = nv_segment_map lg" "nv_file lg' = nv_file lg" "nv_io lg' = nv_io lg"
    and "tx_pending tx' = tx_pending tx @
      [\<lparr>pend_segment = fresh_segment sid (tx_current_offset tx) d, pend_data = d\<rparr>]"
    and "tx_base_offset tx' = tx_base_offset tx"
  using assms
  by (auto simp: tx_append_segment_def ensure_active_def op_simps Let_def tx_ok_def staged_append
      staged_size_def fresh_segment_def room_def word_arith)

lemma tx_pending_segment_None: "tx_pending_segment sid tx = None \<longleftrightarrow> sid \<notin> set (pend_ids (tx_pending tx))"
  by (auto simp: tx_pending_segment_def pend_ids_def find_None_iff)

lemma tx_with_segment_effect:
  assumes "tx_ok lg tx" "\<And>seg. same_place seg (f seg)"
    and "tx_with_segment_mut sid f (lg, tx) = (r, (lg', tx'))"
  shows "tx_ok lg' tx'" "lg' = lg" "pend_ids (tx_pending tx') = pend_ids (tx_pending tx)"
    and "pend_contents (tx_pending tx') = pend_contents (tx_pending tx)"
    and "r = (if sid \<in> set (pend_ids (tx_pending tx)) then Ok () else Err (PendingNotFound sid))"
  using assms
  by (auto simp: tx_with_segment_mut_def ensure_active_def op_simps tx_ok_def tx_pending_segment_None
      staged_update_first split: if_splits)

text \<open>
  The writes of a commit: nothing below the first pending offset changes, whatever fails, and
  on success every pending entry reads back.
\<close>

lemma for_each_write_effect:
  assumes "for_each (\<lambda>p. file_write (unat (seg_offset (pend_segment p))) (pend_data p)) ps lg = (r, lg')"
    and "staged off ps"
  shows "nv_segment_map lg' = nv_segment_map lg \<and> nv_next_offset lg' = nv_next_offset lg \<and>
    length (nv_file lg) \<le> length (nv_file lg') \<and>
    (\<forall>n m. n + m \<le> off \<longrightarrow> n + m \<le> length (nv_file lg) \<longrightarrow>
       read_at n m (nv_file lg') = read_at n m (nv_file lg)) \<and>
    (r = Ok () \<longrightarrow> (\<forall>p\<in>set ps. seg_bytes lg' (pend_segment p) = Some (pend_data p))) \<and>
    (r = Ok () \<or> r = Err IoError) \<and> (nv_io lg = [] \<longrightarrow> r = Ok () \<and> nv_io lg' = [])"
  using assms
proof (induction ps arbitrary: off lg)
  case (Cons p ps)
  obtain r1 l1 where w: "file_write off (pend_data p) lg = (r1, l1)" by fastforce
  note W = file_write_effect [OF w]
  have r1: "r1 = Ok () \<or> r1 = Err IoError"
    using w by (auto simp: file_write_def split: prod.splits io_outcome.splits)
  show ?case
  proof (cases "r1 = Ok ()")
    case True
    have run: "for_each (\<lambda>p. file_write (unat (seg_offset (pend_segment p))) (pend_data p)) ps l1 = (r, lg')"
      using Cons.prems w True by simp
    note IH = Cons.IH [OF run, of "off + length (pend_data p)"]
    have st: "staged (off + length (pend_data p)) ps" using Cons.prems(2) by simp
    have "seg_bytes lg' (pend_segment p) = Some (pend_data p)"
    proof (cases "pend_data p = []")
      case False
      have "read_at off (length (pend_data p)) (nv_file lg') = read_at off (length (pend_data p)) (nv_file l1)"
        using IH [OF st] W(4) [OF True] False by (simp add: length_write_at)
      then show ?thesis
        using Cons.prems(2) W(4) [OF True] by (simp add: seg_bytes_def file_simps)
    qed (use Cons.prems(2) in \<open>simp add: seg_bytes_def\<close>)
    then show ?thesis
      using IH [OF st] W by (auto intro: order_trans)
  next
    case False
    then have "r = r1" "lg' = l1" using Cons.prems w r1 by auto
    then show ?thesis using False W r1 by auto
  qed
qed auto

lemma write_pending_effect:
  assumes "write_pending ps lg = (r, lg')" and "staged off ps"
  shows "nv_segment_map lg' = nv_segment_map lg" "nv_next_offset lg' = nv_next_offset lg"
    and "length (nv_file lg) \<le> length (nv_file lg')"
    and "n + m \<le> off \<Longrightarrow> n + m \<le> length (nv_file lg) \<Longrightarrow>
       read_at n m (nv_file lg') = read_at n m (nv_file lg)"
    and "r = Ok () \<Longrightarrow> p \<in> set ps \<Longrightarrow> seg_bytes lg' (pend_segment p) = Some (pend_data p)"
    and "nv_io lg = [] \<Longrightarrow> r = Ok () \<and> nv_io lg' = []"
proof -
  obtain r1 l1 where w: "for_each (\<lambda>p. file_write (unat (seg_offset (pend_segment p))) (pend_data p)) ps lg = (r1, l1)"
    by fastforce
  obtain r2 l2 where y: "file_sync l1 = (r2, l2)" by fastforce
  note W = for_each_write_effect [OF w assms(2)] and Y = file_sync_effect [OF y]
  have run: "r = (if r1 = Ok () then r2 else r1)" "lg' = (if r1 = Ok () then l2 else l1)"
    using assms(1) w y by (auto simp: write_pending_def bind_op_def split: result.splits)
  show "nv_segment_map lg' = nv_segment_map lg" "nv_next_offset lg' = nv_next_offset lg"
    "length (nv_file lg) \<le> length (nv_file lg')"
    using run W Y(1-3) by (auto split: result.splits)
  show "n + m \<le> off \<Longrightarrow> n + m \<le> length (nv_file lg) \<Longrightarrow>
       read_at n m (nv_file lg') = read_at n m (nv_file lg)"
    using run W Y(3) by (auto split: result.splits)
  show "r = Ok () \<Longrightarrow> p \<in> set ps \<Longrightarrow> seg_bytes lg' (pend_segment p) = Some (pend_data p)"
    using run W Y(3) by (auto simp: seg_bytes_def split: result.splits)
  show "nv_io lg = [] \<Longrightarrow> r = Ok () \<and> nv_io lg' = []"
    using run W Y(5) by (auto split: result.splits)
qed

lemma get_insert_pending_other:
  "k \<notin> set (pend_ids ps) \<Longrightarrow> hm_get (insert_pending ps m) k = hm_get m k"
  by (induction ps m rule: insert_pending.induct) (auto simp: pend_ids_def)

lemma get_insert_pending:
  "distinct (pend_ids ps) \<Longrightarrow> p \<in> set ps \<Longrightarrow>
   hm_get (insert_pending ps m) (seg_id (pend_segment p)) = Some (pend_segment p)"
proof (induction ps m rule: insert_pending.induct)
  case (2 q ps m)
  show ?case
  proof (cases "p = q")
    case True
    then have "seg_id (pend_segment p) \<notin> set (pend_ids ps)"
      using "2.prems" by (auto simp: pend_ids_def)
    then show ?thesis using True by (simp add: get_insert_pending_other)
  qed (use 2 in \<open>auto simp: pend_ids_def\<close>)
qed simp

lemma hm_ok_insert_pending: "hm_ok m \<Longrightarrow> hm_ok (insert_pending ps m)"
  by (induction ps m rule: insert_pending.induct) simp_all

text \<open>
  Commit on success adds exactly the pending contents to the log. On failure either nothing is
  added (a write or the sync failed) or everything is (saving the map failed): never a part.
\<close>

definition committed :: "nvram_log \<Rightarrow> pending_segment list \<Rightarrow> nvram_log \<Rightarrow> bool" where
  "committed lg ps lg' \<longleftrightarrow> log_ok lg' \<and> seg_data lg' = seg_data lg ++ pend_contents ps \<and>
     nv_segment_map lg' = insert_pending ps (nv_segment_map lg)"

lemma staged_bounds:
  "staged off ps \<Longrightarrow> p \<in> set ps \<Longrightarrow> seg_end (pend_segment p) \<le> off + staged_size ps \<and>
     unat (seg_len (pend_segment p)) = length (pend_data p)"
  by (induction off ps rule: staged.induct) (fastforce simp: staged_size_def seg_end_def)+

lemma pend_contents_Some:
  "distinct (pend_ids ps) \<Longrightarrow> p \<in> set ps \<Longrightarrow> pend_contents ps (seg_id (pend_segment p)) = Some (pend_data p)"
  by (force simp: pend_contents_def pend_ids_def comp_def intro!: map_of_is_SomeI)

lemma pend_contents_None: "pend_contents ps k = None \<longleftrightarrow> k \<notin> set (pend_ids ps)"
  by (simp add: pend_contents_def pend_ids_def map_of_eq_None_iff image_image)

lemma committed_after_writes:
  assumes tx: "tx_ok lg tx" and dist: "distinct (pend_ids (tx_pending tx))"
    and w: "write_pending (tx_pending tx) lg = (Ok (), l1)"
    and l: "nv_segment_map lg' = insert_pending (tx_pending tx) (nv_segment_map lg)"
      "nv_next_offset lg' = tx_current_offset tx" "nv_file lg' = nv_file l1"
  shows "committed lg (tx_pending tx) lg'"
proof -
  let ?ps = "tx_pending tx" and ?lb = "lg\<lparr>nv_next_offset := tx_base_offset tx\<rparr>"
  have st: "staged (unat (tx_base_offset tx)) ?ps" and lb: "log_ok ?lb"
    and cur: "unat (tx_current_offset tx) = unat (tx_base_offset tx) + staged_size ?ps"
    using tx by (auto simp: tx_ok_def)
  note W = write_pending_effect [OF w st]
  have rd: "seg_bytes lg' seg = seg_bytes l1 seg" for seg
    using l by (simp add: seg_bytes_def)
  have new: "seg_bytes lg' (pend_segment p) = Some (pend_data p)" if "p \<in> set ?ps" for p
    using W(5) that rd by simp
  have new_placed: "placed lg' (pend_segment p)" if "p \<in> set ?ps" for p
    using new [OF that] staged_bounds [OF st that] l cur
    by (auto simp: placed_def seg_bytes_def seg_end_def dest: read_at_Some_bound)
  have keep: "keeps_regions ?lb lg'"
    using W(3,4) rd l by (auto simp: keeps_regions_def placed_def seg_bytes_def seg_end_def)
  have old_placed: "placed lg' seg" if "placed ?lb seg" for seg
    using that keep cur l by (auto simp: placed_def keeps_regions_def)
  have data: "seg_data lg' k = (seg_data lg ++ pend_contents ?ps) k" for k
  proof (cases "k \<in> set (pend_ids ?ps)")
    case True
    then obtain p where "p \<in> set ?ps" "k = seg_id (pend_segment p)" by (auto simp: pend_ids_def)
    then show ?thesis
      using new dist by (simp add: seg_data_def l get_insert_pending pend_contents_Some map_add_def)
  next
    case False
    then have "seg_data lg' k = seg_data ?lb k"
      by (intro keeps_regions_data [OF lb keep]) (simp add: l get_insert_pending_other)
    then show ?thesis
      using False pend_contents_None [of ?ps k] by (simp add: map_add_def seg_data_def seg_bytes_def [abs_def])
  qed
  have "log_ok lg'"
    unfolding log_ok_def
  proof (intro conjI allI impI)
    show "hm_ok (nv_segment_map lg')" using lb l by (simp add: log_ok_def hm_ok_insert_pending)
    fix k seg assume g: "hm_get (nv_segment_map lg') k = Some seg"
    show "seg_id seg = k" "placed lg' seg"
      using g l lb new_placed old_placed dist
      by (cases "k \<in> set (pend_ids ?ps)";
          fastforce simp: pend_ids_def get_insert_pending get_insert_pending_other log_ok_def)+
  qed
  then show ?thesis using data l by (auto simp: committed_def)
qed

lemma tx_commit_effect:
  assumes tx: "tx_ok lg tx" and dist: "distinct (pend_ids (tx_pending tx))"
    and run: "tx_commit (lg, tx) = (r, (lg', tx'))"
  shows "committed lg (tx_pending tx) lg' \<or>
      r \<noteq> Ok () \<and> log_ok lg' \<and> seg_data lg' = seg_data lg \<and> nv_segment_map lg' = nv_segment_map lg \<and>
      tx_finalized tx'"
    and "r = Ok () \<Longrightarrow> committed lg (tx_pending tx) lg' \<and> tx_finalized tx'"
    and "nv_io lg = [] \<Longrightarrow> r = Ok () \<and> nv_io lg' = []"
proof -
  let ?ps = "tx_pending tx"
  have st: "staged (unat (tx_base_offset tx)) ?ps" and lb: "log_ok (lg\<lparr>nv_next_offset := tx_base_offset tx\<rparr>)"
    and nf: "\<not> tx_finalized tx" and nx: "nv_next_offset lg = tx_current_offset tx"
    using tx by (auto simp: tx_ok_def)
  obtain r1 l1 where w: "write_pending ?ps lg = (r1, l1)" by fastforce
  note W = write_pending_effect [OF w st]
  let ?l2 = "l1\<lparr>nv_next_offset := tx_current_offset tx,
                nv_segment_map := insert_pending ?ps (nv_segment_map l1)\<rparr>"
  obtain r3 l3 where v: "save_segment_map ?l2 = (r3, l3)" by fastforce
  note V = save_effect [OF v]
  have com3: "committed lg ?ps l3" if "r1 = Ok ()"
    by (rule committed_after_writes [OF tx dist, of l1]) (use w that V W in simp_all)
  have com0: "committed lg ?ps lg" if "?ps = []"
    using that lb nx tx by (simp add: committed_def pend_contents_def tx_ok_def staged_size_def log_ok_def placed_def)
  have fail: "log_ok (l1\<lparr>nv_next_offset := tx_base_offset tx\<rparr>)"
    "seg_data (l1\<lparr>nv_next_offset := tx_base_offset tx\<rparr>) = seg_data lg"
  proof -
    let ?lb = "lg\<lparr>nv_next_offset := tx_base_offset tx\<rparr>" and ?lf = "l1\<lparr>nv_next_offset := tx_base_offset tx\<rparr>"
    have keep: "keeps_regions ?lb ?lf"
      using W(3,4) by (auto simp: keeps_regions_def placed_def seg_bytes_def seg_end_def)
    show "log_ok ?lf" by (rule log_ok_cong [OF _ _ _ lb]) (use W in simp_all)
    show "seg_data ?lf = seg_data lg"
      using keeps_regions_data [OF lb keep] W(1) by (auto simp: fun_eq_iff seg_data_def seg_bytes_def [abs_def])
  qed
  show "committed lg ?ps lg' \<or>
      r \<noteq> Ok () \<and> log_ok lg' \<and> seg_data lg' = seg_data lg \<and> nv_segment_map lg' = nv_segment_map lg \<and>
      tx_finalized tx'"
    using run nf w v com3 com0 fail W(1) by (auto simp: tx_commit_def split: result.splits prod.splits if_splits)
  show "r = Ok () \<Longrightarrow> committed lg ?ps lg' \<and> tx_finalized tx'"
    using run nf w v com3 com0 by (auto simp: tx_commit_def split: result.splits prod.splits if_splits)
  show "nv_io lg = [] \<Longrightarrow> r = Ok () \<and> nv_io lg' = []"
    using run nf w v W(6) V(5) by (auto simp: tx_commit_def split: result.splits prod.splits if_splits)
qed

text \<open>Rolling back gives the log as it was when the transaction began.\<close>

lemma tx_rollback_effect:
  assumes "tx_ok lg tx" "tx_rollback (lg, tx) = (r, (lg', tx'))"
  shows "r = Ok ()" "log_ok lg'" "seg_data lg' = seg_data lg" "nv_segment_map lg' = nv_segment_map lg"
    and "nv_next_offset lg' = tx_base_offset tx" "nv_file lg' = nv_file lg" "tx_finalized tx'"
  using assms by (auto simp: tx_rollback_def tx_ok_def fun_eq_iff seg_data_def seg_bytes_def [abs_def])

section \<open>A whole transaction\<close>

text \<open>A client's use of a transaction: begin, append every item, commit, drop.\<close>

definition tx_stage :: "(segment_id \<times> bytes) list \<Rightarrow> unit tx_op" where
  "tx_stage = for_each (\<lambda>(sid, d). bind_op (tx_append_segment sid d) (\<lambda>_. return_op ()))"

definition tx_session :: "(segment_id \<times> bytes) list \<Rightarrow> unit log_op" where
  "tx_session items lg =
     (case bind_op (tx_stage items) (\<lambda>_. tx_commit) (lg, nv_begin_transaction lg) of
        (r, s) \<Rightarrow> (r, tx_drop s))"

definition items_size :: "(segment_id \<times> bytes) list \<Rightarrow> nat" where
  "items_size items = sum_list (map (length \<circ> snd) items)"

lemma tx_stage_effect:
  assumes "tx_ok lg tx" "room (items_size items) lg" "\<forall>(sid, d)\<in>set items. length d < 2 ^ 32"
  shows "\<exists>lg' tx'. tx_stage items (lg, tx) = (Ok (), (lg', tx')) \<and> tx_ok lg' tx' \<and>
    nv_segment_map lg' = nv_segment_map lg \<and> nv_file lg' = nv_file lg \<and> nv_io lg' = nv_io lg \<and>
    tx_base_offset tx' = tx_base_offset tx \<and>
    map (\<lambda>p. (seg_id (pend_segment p), pend_data p)) (tx_pending tx') =
      map (\<lambda>p. (seg_id (pend_segment p), pend_data p)) (tx_pending tx) @ items"
  using assms
proof (induction items arbitrary: lg tx)
  case (Cons it items)
  obtain sid d where it: "it = (sid, d)" by (cases it)
  obtain r l1 t1 where a: "tx_append_segment sid d (lg, tx) = (r, (l1, t1))"
    by (metis prod.exhaust)
  have rm: "room (length d) lg" and len: "length d < 2 ^ 32"
    using Cons.prems by (auto simp: it room_def items_size_def)
  note A = tx_append_effect [OF Cons.prems(1) rm len a]
  have cur: "unat (nv_next_offset l1) = unat (nv_next_offset lg) + length d"
    using A(1,6,7) Cons.prems(1) by (simp add: tx_ok_def staged_size_def)
  have "room (items_size items) l1"
    using Cons.prems(2) cur by (simp add: room_def items_size_def it)
  from Cons.IH [OF A(1) this] Cons.prems(3)
  obtain l2 t2 where s: "tx_stage items (l1, t1) = (Ok (), (l2, t2))" and
    S: "tx_ok l2 t2" "nv_segment_map l2 = nv_segment_map l1" "nv_file l2 = nv_file l1"
      "nv_io l2 = nv_io l1" "tx_base_offset t2 = tx_base_offset t1"
      "map (\<lambda>p. (seg_id (pend_segment p), pend_data p)) (tx_pending t2) =
        map (\<lambda>p. (seg_id (pend_segment p), pend_data p)) (tx_pending t1) @ items"
    by fastforce
  have "tx_stage (it # items) (lg, tx) = tx_stage items (l1, t1)"
    using a A(2) by (simp add: tx_stage_def it op_simps)
  then show ?case
    using s S A by (simp add: it fresh_segment_def)
qed (auto simp: tx_stage_def)

text \<open>All or nothing, whatever fails and including the drop that follows.\<close>

lemma tx_session_effect:
  assumes ok: "log_ok lg" and rm: "room (items_size items) lg"
    and len: "\<forall>(sid, d)\<in>set items. length d < 2 ^ 32" and dist: "distinct (map fst items)"
    and run: "tx_session items lg = (r, lg')"
  shows "r = Ok () \<Longrightarrow> log_ok lg' \<and> seg_data lg' = seg_data lg ++ map_of items"
    and "r \<noteq> Ok () \<Longrightarrow> seg_data lg' = seg_data lg \<and> log_ok lg' \<or>
      seg_data lg' = seg_data lg ++ map_of items"
    and "nv_io lg = [] \<Longrightarrow> r = Ok () \<and> nv_io lg' = []"
proof -
  have room0: "tx_ok lg (nv_begin_transaction lg)" by (rule tx_ok_begin [OF ok])
  from tx_stage_effect [OF room0 rm len] obtain l1 t1 where
    s: "tx_stage items (lg, nv_begin_transaction lg) = (Ok (), (l1, t1))" and
    S: "tx_ok l1 t1" "nv_segment_map l1 = nv_segment_map lg" "nv_file l1 = nv_file lg" "nv_io l1 = nv_io lg"
      "map (\<lambda>p. (seg_id (pend_segment p), pend_data p)) (tx_pending t1) = items"
    by (auto simp: nv_begin_transaction_def)
  obtain q l2 t2 where c: "tx_commit (l1, t1) = (q, (l2, t2))" by (metis prod.exhaust)
  have d: "distinct (pend_ids (tx_pending t1))"
    using dist unfolding S(5) [symmetric] by (simp add: pend_ids_def comp_def)
  have pc: "pend_contents (tx_pending t1) = map_of items" by (simp add: pend_contents_def S(5))
  have sd: "seg_data l1 = seg_data lg" using S(2,3) by (rule seg_data_cong)
  have r: "r = q" and lg': "lg' = tx_drop (l2, t2)"
    using run s c by (auto simp: tx_session_def bind_op_def)
  have drop_data: "seg_data lg' = seg_data l2" "nv_io lg' = nv_io l2"
    unfolding lg' by (auto simp: tx_drop_def tx_rollback_def fun_eq_iff seg_data_def seg_bytes_def [abs_def])
  have drop_fin: "lg' = l2" if "tx_finalized t2" using that lg' by (simp add: tx_drop_def)
  note C = tx_commit_effect [OF S(1) d c]
  show "r = Ok () \<Longrightarrow> log_ok lg' \<and> seg_data lg' = seg_data lg ++ map_of items"
    using C(2) r drop_fin by (auto simp: committed_def pc sd)
  show "r \<noteq> Ok () \<Longrightarrow> seg_data lg' = seg_data lg \<and> log_ok lg' \<or>
      seg_data lg' = seg_data lg ++ map_of items"
    using C(1) r drop_fin drop_data by (auto simp: committed_def pc sd)
  show "nv_io lg = [] \<Longrightarrow> r = Ok () \<and> nv_io lg' = []"
    using C(3) S(4) r drop_data by auto
qed

section \<open>Properties\<close>

lemma nv_read_cong: "seg_data lg' k = seg_data lg k \<Longrightarrow> log_ok lg \<Longrightarrow> log_ok lg' \<Longrightarrow> nv_read k lg' = nv_read k lg"
proof (cases "seg_data lg k")
  case None
  assume "seg_data lg' k = seg_data lg k" "log_ok lg" "log_ok lg'"
  moreover have "hm_get (nv_segment_map l) k = None" if "seg_data l k = None" "log_ok l" for l
    using that by (metis bind.bind_lunit option.exhaust option.distinct(1) seg_bytes_Some seg_data_def)
  ultimately show ?thesis using None by (simp add: nv_read_eq)
next
  case (Some d)
  assume "seg_data lg' k = seg_data lg k"
  then show ?thesis using Some by (metis nv_read_Ok_iff)
qed

text \<open>Appending to a well-formed log. Under every pattern of I/O failures the log stays well
  formed and every other segment reads as before (same bytes, or the same error); when the append
  returns \<open>Ok\<close>, the new segment reads back as the bytes appended; and without failures it does
  return \<open>Ok\<close>.\<close>

theorem nvram_append_read:
  assumes "log_ok lg" "room (length d) lg" "length d < 2 ^ 32" "nv_append sid d lg = (r, lg')"
  shows "log_ok lg' \<and> (\<forall>k. k \<noteq> sid \<longrightarrow> nv_read k lg' = nv_read k lg) \<and>
    (is_ok r \<longrightarrow> nv_read sid lg' = Ok d) \<and> (nv_io lg = [] \<longrightarrow> is_ok r)"
proof -
  note A = nv_append_effect [OF assms(4,1,2,3)]
  have "nv_read k lg' = nv_read k lg" if "k \<noteq> sid" for k
    using A that assms(1) by (intro nv_read_cong) auto
  moreover have "is_ok r \<longrightarrow> nv_read sid lg' = Ok d"
    using A by (auto simp: nv_read_Ok_iff)
  moreover have "nv_io lg = [] \<longrightarrow> is_ok r"
    using assms(4) by (metis nv_append_total Pair_inject is_ok.simps(1))
  ultimately show ?thesis using A by blast
qed

text \<open>The log that \<open>open\<close> creates when neither file exists.\<close>

definition empty_log :: "io_outcome list \<Rightarrow> nvram_log" where
  "empty_log io = \<lparr>nv_file = [], nv_segment_map = [], nv_next_offset = 0, nv_saved = Absent, nv_io = io\<rparr>"

lemma nv_open_empty: "nv_open None Absent io = Ok (empty_log io)"
  by (simp add: nv_open_def empty_log_def)

lemma empty_log_simps [simp]:
  "nv_file (empty_log io) = []" "nv_segment_map (empty_log io) = []" "nv_next_offset (empty_log io) = 0"
  "nv_saved (empty_log io) = Absent" "nv_io (empty_log io) = io" "log_ok (empty_log io)"
  by (simp_all add: empty_log_def log_ok_def)

theorem nvram_append_read_witness:
  "is_ok (fst (nv_append (SegmentId 7) [1, 2, 3] (empty_log []))) \<and>
   nv_read (SegmentId 7) (snd (nv_append (SegmentId 7) [1, 2, 3] (empty_log []))) = Ok [1, 2, 3]"
  using nvram_append_read [of "empty_log []" "[1, 2, 3]" "SegmentId 7"
      "fst (nv_append (SegmentId 7) [1, 2, 3] (empty_log []))"
      "snd (nv_append (SegmentId 7) [1, 2, 3] (empty_log []))"]
  by (simp add: room_def)

text \<open>C12: A transaction is atomic: after begin, any number of appends of distinct segments, commit
  and drop, \<open>Ok\<close> means that the log is well formed and its contents are the old contents plus
  exactly the staged ones, and an error means that the contents are either the old ones (in a
  well-formed log) or the old ones plus all the staged ones, never a part of them. Without I/O
  failures the result is \<open>Ok\<close>.\<close>

theorem nvram_transaction_atomic:
  assumes "log_ok lg" "room (items_size items) lg" "\<forall>(sid, d)\<in>set items. length d < 2 ^ 32"
    and "distinct (map fst items)" "tx_session items lg = (r, lg')"
  shows "(is_ok r \<longrightarrow> log_ok lg' \<and> seg_data lg' = seg_data lg ++ map_of items) \<and>
    (\<not> is_ok r \<longrightarrow> seg_data lg' = seg_data lg \<and> log_ok lg' \<or> seg_data lg' = seg_data lg ++ map_of items) \<and>
    (nv_io lg = [] \<longrightarrow> is_ok r)"
  using tx_session_effect [OF assms] by (cases r) auto

theorem nvram_transaction_atomic_witness:
  "seg_data (snd (tx_session [(SegmentId 1, [1, 2]), (SegmentId 2, [3])] (empty_log []))) =
     seg_data (empty_log []) ++ map_of [(SegmentId 1, [1, 2]), (SegmentId 2, [3])]"
  using nvram_transaction_atomic [of "empty_log []" "[(SegmentId 1, [1, 2]), (SegmentId 2, [3])]"
      "fst (tx_session [(SegmentId 1, [1, 2]), (SegmentId 2, [3])] (empty_log []))"
      "snd (tx_session [(SegmentId 1, [1, 2]), (SegmentId 2, [3])] (empty_log []))"]
  by (simp add: room_def items_size_def)

text \<open>Persistence: after an append that returned \<open>Ok\<close> on a well-formed log whose file reaches
  its next offset, opening the two files again succeeds and every segment reads the same.\<close>

theorem nvram_reopen:
  assumes "log_ok lg" "room (length d) lg" "length d < 2 ^ 32" "nv_append sid d lg = (Ok seg, lg')"
    and "length (nv_file lg) = unat (nv_next_offset lg)"
  shows "\<exists>lg2. nv_open (Some (nv_file lg')) (nv_saved lg') io = Ok lg2 \<and> log_ok lg2 \<and>
    nv_next_offset lg2 = nv_next_offset lg' \<and> (\<forall>k. nv_read k lg2 = nv_read k lg')"
proof (cases rule: nv_append_outcome [of sid d lg])
  case (entered q l)
  then have l: "l = lg'" "q = Ok seg" using assms(4) by auto
  have ok: "log_ok lg'" using nv_append_effect [OF assms(4,1,2,3)] by simp
  have len: "length (nv_file lg') = unat (nv_next_offset lg) + length d"
    using entered(5) assms(5) l by (simp add: length_write_at)
  then have nx: "nv_next_offset lg' = of_nat (length (nv_file lg'))"
    using entered(4) l by simp
  have len2: "length (nv_file lg') < 2 ^ 64" using len assms(2) by (simp add: room_def)
  moreover have "unat (nv_next_offset lg') \<le> length (nv_file lg')"
    unfolding nx using len2 by (simp add: word_arith)
  ultimately obtain lg2 where lg2: "nv_open (Some (nv_file lg')) (nv_saved lg') io = Ok lg2" "log_ok lg2"
    "seg_data lg2 = seg_data lg'"
    using nv_open_saved [of lg' io] ok entered(2) l by auto
  have "nv_next_offset lg2 = nv_next_offset lg'"
    using lg2(1) nx by (auto simp: nv_open_def Let_def bind_result_Ok_iff)
  with lg2 ok show ?thesis by (auto intro: nv_read_cong)
qed (use assms(4) in simp)

theorem nvram_reopen_witness:
  "\<exists>lg2. nv_open (Some (nv_file (snd (nv_append (SegmentId 7) [1, 2, 3] (empty_log [])))))
     (nv_saved (snd (nv_append (SegmentId 7) [1, 2, 3] (empty_log [])))) [] = Ok lg2 \<and>
   log_ok lg2 \<and> nv_read (SegmentId 7) lg2 = Ok [1, 2, 3]"
proof -
  have run: "nv_append (SegmentId 7) [1, 2, 3] (empty_log []) =
      (Ok (fresh_segment (SegmentId 7) 0 [1, 2, 3]), snd (nv_append (SegmentId 7) [1, 2, 3] (empty_log [])))"
    by (rule nv_append_total [of "empty_log []" "SegmentId 7" "[1, 2, 3]"]) simp_all
  have "nv_read (SegmentId 7) (snd (nv_append (SegmentId 7) [1, 2, 3] (empty_log []))) = Ok [1, 2, 3]"
    by (simp add: nv_append_def op_simps Let_def file_write_def file_sync_def save_segment_map_def
        fresh_segment_def write_at_def nv_read_def read_at_def)
  with nvram_reopen [OF _ _ _ run, of "[]"] show ?thesis
    by (auto simp: room_def)
qed

text \<open>Two transactions on the same log take the same base offset: when both append before either
  commits, both commits succeed and the first one's segment reads back the second one's byte.\<close>

theorem nvram_interleaved_transactions_overlap:
  "let tA = nv_begin_transaction (empty_log []); tB = nv_begin_transaction (empty_log []);
       (rA, l1, tA) = tx_append_segment (SegmentId 1) [a] (empty_log [], tA);
       (rB, l2, tB) = tx_append_segment (SegmentId 2) [b] (l1, tB);
       (cA, l3, tA) = tx_commit (l2, tA);
       (cB, l4, tB) = tx_commit (l3, tB)
   in cA = Ok () \<and> cB = Ok () \<and> nv_read (SegmentId 1) l3 = Ok [a] \<and> nv_read (SegmentId 1) l4 = Ok [b]"
  by (simp add: tx_append_segment_def ensure_active_def nv_begin_transaction_def op_simps Let_def
      tx_commit_def write_pending_def file_write_def file_sync_def save_segment_map_def fresh_segment_def
      write_at_def nv_read_def read_at_def)

text \<open>When a commit writes its data but saving the segment map fails, dropping the transaction
  moves the next offset back below the segments the commit entered in the map, so that the next
  append overwrites them.\<close>

theorem nvram_failed_save_then_append_overwrites:
  "let (r, l1) = tx_session [(SegmentId 1, [a])] (empty_log [IoOk, IoOk, IoFail 0]);
       (r2, l2) = nv_append (SegmentId 2) [b] l1
   in r = Err IoError \<and> is_ok r2 \<and> nv_read (SegmentId 1) l1 = Ok [a] \<and> nv_read (SegmentId 1) l2 = Ok [b]"
  by (simp add: tx_session_def tx_stage_def tx_drop_def tx_rollback_def nv_append_def
      tx_append_segment_def ensure_active_def nv_begin_transaction_def op_simps Let_def
      tx_commit_def write_pending_def file_write_def file_sync_def save_segment_map_def fresh_segment_def
      write_at_def nv_read_def read_at_def)

end
