(* ===== verification/Compression.thy ===== *)
theory Compression
  imports Common_Types
begin

text \<open>
  The compression crate (\<open>crates/compression/src/lib.rs\<close>): the entropy gate, the codecs with
  their clamped levels, the verified adaptive compression that the write pipelines call, and the
  \<open>Compressor\<close> trait of \<open>crates/common/src/traits.rs\<close> with its implementation
  \<open>Lz4ZstdCompressor\<close>. The \<open>f32\<close> ratios are for display and are left out; the one floating
  point comparison that decides something, entropy against 7.5, is the parameter
  \<open>ext_entropy_ge_7_5\<close> applied to the byte frequencies the code counts.
\<close>

section \<open>Results\<close>

datatype compression_skip_reason = EntropyReason | IneffectiveReason

record compression_result =
  cr_original_size :: nat
  cr_compressed_size :: nat
  cr_compressed :: bool
  cr_reused_original :: bool
  cr_algorithm :: string
  cr_reason :: "compression_skip_reason option"

text \<open>\<open>format!("{level}")\<close> of an integer.\<close>

fun show_nat :: "nat \<Rightarrow> string" where
  "show_nat n = (if n < 10 then [char_of (48 + n)] else show_nat (n div 10) @ [char_of (48 + n mod 10)])"

declare show_nat.simps [simp del]

definition show_int :: "int \<Rightarrow> string" where
  "show_int i = (if i < 0 then CHR ''-'' # show_nat (nat (- i)) else show_nat (nat i))"

definition constant_time_equal :: "bytes \<Rightarrow> bytes \<Rightarrow> bool" where
  "constant_time_equal a b = (if length a \<noteq> length b then False else list_all (\<lambda>(x, y). x = y) (zip a b))"

lemma constant_time_equal_iff [simp]: "constant_time_equal a b \<longleftrightarrow> a = b"
  by (auto simp: constant_time_equal_def list_all_iff list_eq_iff_zip_eq split_beta
      intro!: nth_equalityI)

section \<open>The entropy gate\<close>

text \<open>\<open>freq[byte as usize] += 1\<close> over the sample.\<close>

definition byte_freq :: "bytes \<Rightarrow> nat list" where
  "byte_freq data = foldl (\<lambda>freq byte. freq[unat byte := freq ! unat byte + 1]) (replicate 256 0) data"

definition estimate_entropy_ge_7_5 :: "ext \<Rightarrow> bytes \<Rightarrow> bool" where
  "estimate_entropy_ge_7_5 E data =
     (if data = [] then False else ext_entropy_ge_7_5 E (byte_freq data) (length data))"

definition entropy_skip_reason :: "ext \<Rightarrow> bytes \<Rightarrow> compression_skip_reason option" where
  "entropy_skip_reason E data =
     (if length data < 1024 then None
      else let sample_size = min (length data) 1024
           in if estimate_entropy_ge_7_5 E (take sample_size data) then Some EntropyReason else None)"

section \<open>Codecs\<close>

definition adjusted_level :: "int \<Rightarrow> string \<Rightarrow> int" where
  "adjusted_level level algorithm =
     (if algorithm = ''lz4'' then max 1 (min 16 level)
      else if algorithm = ''zstd'' then max (- 5) (min 22 level)
      else level)"

definition compress_lz4 :: "ext \<Rightarrow> bytes \<Rightarrow> int \<Rightarrow> (bytes, compression_error) result" where
  "compress_lz4 E data level = ext_lz4_encode E (of_int level) data"

definition decompress_lz4 :: "ext \<Rightarrow> bytes \<Rightarrow> (bytes, compression_error) result" where
  "decompress_lz4 E data = ext_lz4_decode E data"

definition compress_zstd :: "ext \<Rightarrow> bytes \<Rightarrow> int \<Rightarrow> (bytes, compression_error) result" where
  "compress_zstd E data level = ext_zstd_encode E level data"

definition decompress_zstd :: "ext \<Rightarrow> bytes \<Rightarrow> (bytes, compression_error) result" where
  "decompress_zstd E data = ext_zstd_decode E data"

text \<open>The result of an attempt records \<open>data.len()\<close> as the compressed size.\<close>

definition attempt_compress ::
  "ext \<Rightarrow> bytes \<Rightarrow> compression_policy \<Rightarrow> (bytes \<times> compression_result, compression_error) result" where
  "attempt_compress E data policy =
     (case policy of
        CompressionNone \<Rightarrow>
          Ok (data, \<lparr>cr_original_size = length data, cr_compressed_size = length data,
                     cr_compressed = False, cr_reused_original = True,
                     cr_algorithm = ''identity'', cr_reason = None\<rparr>)
      | LZ4 level \<Rightarrow>
          (let level = adjusted_level level ''lz4''
           in bind_result (compress_lz4 E data level) (\<lambda>out.
                Ok (out, \<lparr>cr_original_size = length data, cr_compressed_size = length data,
                          cr_compressed = True, cr_reused_original = False,
                          cr_algorithm = ''lz4:'' @ show_int level, cr_reason = None\<rparr>)))
      | Zstd level \<Rightarrow>
          (let level = adjusted_level level ''zstd''
           in bind_result (compress_zstd E data level) (\<lambda>out.
                Ok (out, \<lparr>cr_original_size = length data, cr_compressed_size = length data,
                          cr_compressed = True, cr_reused_original = False,
                          cr_algorithm = ''zstd:'' @ show_int level, cr_reason = None\<rparr>))))"

definition verify_integrity ::
  "ext \<Rightarrow> compression_policy \<Rightarrow> bytes \<Rightarrow> bytes \<Rightarrow> (unit, compression_error) result" where
  "verify_integrity E policy compressed original =
     (case policy of
        LZ4 _ \<Rightarrow> bind_result (decompress_lz4 E compressed) (\<lambda>d.
          if \<not> constant_time_equal d original then Err (CompressionIntegrity ''lz4'') else Ok ())
      | Zstd _ \<Rightarrow> bind_result (decompress_zstd E compressed) (\<lambda>d.
          if \<not> constant_time_equal d original then Err (CompressionIntegrity ''zstd'') else Ok ())
      | CompressionNone \<Rightarrow> Ok ())"

text \<open>The result returned with the original data when compression is skipped.\<close>

definition skipped_result :: "bytes \<Rightarrow> compression_skip_reason \<Rightarrow> compression_result" where
  "skipped_result data reason =
     \<lparr>cr_original_size = length data, cr_compressed_size = length data, cr_compressed = False,
      cr_reused_original = True, cr_algorithm = ''identity'', cr_reason = Some reason\<rparr>"

definition adaptive_compress ::
  "ext \<Rightarrow> bytes \<Rightarrow> compression_policy \<Rightarrow> (bytes \<times> compression_result, compression_error) result" where
  "adaptive_compress E data policy =
     (if policy = CompressionNone then Ok (data, skipped_result data IneffectiveReason)
      else case entropy_skip_reason E data of
        Some reason \<Rightarrow> Ok (data, skipped_result data reason)
      | None \<Rightarrow>
          bind_result (attempt_compress E data policy) (\<lambda>(compressed, result).
            if length compressed \<ge> length data
            then Ok (data, result\<lparr>cr_compressed := False, cr_compressed_size := length data,
                                  cr_reused_original := True, cr_algorithm := ''identity'',
                                  cr_reason := Some IneffectiveReason\<rparr>)
            else bind_result (verify_integrity E policy compressed data) (\<lambda>_. Ok (compressed, result))))"

definition compress_segment ::
  "ext \<Rightarrow> bytes \<Rightarrow> compression_policy \<Rightarrow> (bytes \<times> compression_result, compression_error) result" where
  "compress_segment E data policy = adaptive_compress E data policy"

section \<open>The Compressor trait\<close>

record compression_summary =
  cs_original_size :: nat
  cs_output_size :: nat
  cs_algorithm :: string
  cs_compressed :: bool
  cs_reused_input :: bool
  cs_reason :: "compression_skip_reason option"

definition new_summary :: "nat \<Rightarrow> nat \<Rightarrow> string \<Rightarrow> compression_summary" where
  "new_summary original_size output_size algorithm =
     \<lparr>cs_original_size = original_size, cs_output_size = output_size, cs_algorithm = algorithm,
      cs_compressed = (output_size < original_size), cs_reused_input = False, cs_reason = None\<rparr>"

definition lzc_compress ::
  "ext \<Rightarrow> bytes \<Rightarrow> compression_policy \<Rightarrow> (bytes \<times> compression_summary, compression_error) result" where
  "lzc_compress E data policy =
     bind_result (compress_segment E data policy) (\<lambda>(view, result).
       Ok (view, (new_summary (cr_original_size result) (cr_compressed_size result) (cr_algorithm result))
                   \<lparr>cs_compressed := cr_compressed result, cs_reused_input := cr_reused_original result,
                    cs_reason := cr_reason result\<rparr>))"

definition lzc_decompress :: "ext \<Rightarrow> bytes \<Rightarrow> string \<Rightarrow> (bytes, compression_error) result" where
  "lzc_decompress E data algorithm =
     (if algorithm = ''identity'' then Ok data
      else if take 3 algorithm = ''lz4'' then decompress_lz4 E data
      else if take 4 algorithm = ''zstd'' then decompress_zstd E data
      else Err (InvalidPolicy (''unsupported algorithm '' @ algorithm)))"

definition lzc_supports_algorithm :: "string \<Rightarrow> bool" where
  "lzc_supports_algorithm algorithm \<longleftrightarrow>
     algorithm = ''identity'' \<or> take 3 algorithm = ''lz4'' \<or> take 4 algorithm = ''zstd''"

text \<open>What a pipeline relies on: whatever was compressed can be restored from the algorithm recorded with it.\<close>

locale compressor =
  fixes compress :: "bytes \<Rightarrow> compression_policy \<Rightarrow> (bytes \<times> compression_summary, compression_error) result"
    and decompress :: "bytes \<Rightarrow> string \<Rightarrow> (bytes, compression_error) result"
    and supports :: "string \<Rightarrow> bool"
  assumes restore: "compress d p = Ok (v, s) \<Longrightarrow> decompress v (cs_algorithm s) = Ok d"
    and supported: "compress d p = Ok (v, s) \<Longrightarrow> supports (cs_algorithm s)"
    and shrinks: "compress d p = Ok (v, s) \<Longrightarrow> length v \<le> length d"
begin

lemma compress_inj: "compress d p = Ok (v, s) \<Longrightarrow> compress d' p' = Ok (v, s') \<Longrightarrow>
    cs_algorithm s = cs_algorithm s' \<Longrightarrow> d = d'"
  using restore by (metis result.inject(1))

text \<open>A list of chunks, each compressed on its own, is restored chunk by chunk.\<close>

lemma restore_all:
  assumes "list_all2 (\<lambda>d (v, a). \<exists>p s. compress d p = Ok (v, s) \<and> cs_algorithm s = a) ds vs"
  shows "map (\<lambda>(v, a). decompress v a) vs = map Ok ds"
  using assms by (induction ds vs rule: list_all2_induct) (auto dest: restore)

end

section \<open>Verified compression\<close>

text \<open>
  The outcomes of \<open>adaptive_compress\<close>: the data itself, marked uncompressed, or a strictly shorter
  output that the matching decoder was seen to turn back into the data.
\<close>

definition decode_as :: "ext \<Rightarrow> compression_policy \<Rightarrow> bytes \<Rightarrow> (bytes, compression_error) result" where
  "decode_as E policy d =
     (case policy of CompressionNone \<Rightarrow> Ok d | LZ4 _ \<Rightarrow> decompress_lz4 E d | Zstd _ \<Rightarrow> decompress_zstd E d)"

lemma adaptive_compress_cases:
  assumes "adaptive_compress E d p = Ok (v, r)"
  obtains (identity) "v = d" "\<not> cr_compressed r" "cr_algorithm r = ''identity''" "cr_reused_original r"
      "cr_compressed_size r = length d" "cr_original_size r = length d"
  | (lz4) level where "p = LZ4 level" "cr_compressed r" "ext_lz4_encode E (of_int (max 1 (min 16 level))) d = Ok v"
      "length v < length d" "ext_lz4_decode E v = Ok d" "cr_algorithm r = ''lz4:'' @ show_int (max 1 (min 16 level))"
      "cr_compressed_size r = length d" "cr_original_size r = length d" "\<not> cr_reused_original r"
  | (zstd) level where "p = Zstd level" "cr_compressed r" "ext_zstd_encode E (max (- 5) (min 22 level)) d = Ok v"
      "length v < length d" "ext_zstd_decode E v = Ok d" "cr_algorithm r = ''zstd:'' @ show_int (max (- 5) (min 22 level))"
      "cr_compressed_size r = length d" "cr_original_size r = length d" "\<not> cr_reused_original r"
  using assms that
  by (cases p)
    (auto simp: adaptive_compress_def skipped_result_def attempt_compress_def adjusted_level_def
      compress_lz4_def compress_zstd_def verify_integrity_def decompress_lz4_def decompress_zstd_def
      bind_result_Ok_iff Let_def split: option.splits if_splits)

lemma adaptive_compress_decode:
  assumes "adaptive_compress E d p = Ok (v, r)"
  shows "(if cr_compressed r then decode_as E p v else Ok v) = Ok d"
  using assms
  by (cases rule: adaptive_compress_cases) (auto simp: decode_as_def decompress_lz4_def decompress_zstd_def)

lemma lzc_compress_Ok:
  assumes "lzc_compress E d p = Ok (v, s)"
  obtains r where "adaptive_compress E d p = Ok (v, r)" "cs_algorithm s = cr_algorithm r"
    "cs_compressed s = cr_compressed r" "cs_reused_input s = cr_reused_original r"
  using assms by (auto simp: lzc_compress_def compress_segment_def new_summary_def bind_result_Ok_iff)

interpretation lzc: compressor "lzc_compress E" "lzc_decompress E" lzc_supports_algorithm for E
proof
  fix d p v s assume "lzc_compress E d p = Ok (v, s)"
  then obtain r where r: "adaptive_compress E d p = Ok (v, r)" "cs_algorithm s = cr_algorithm r"
    by (rule lzc_compress_Ok)
  from r(1) have "lzc_decompress E v (cr_algorithm r) = Ok d \<and> lzc_supports_algorithm (cr_algorithm r) \<and>
      length v \<le> length d"
    by (cases rule: adaptive_compress_cases)
      (auto simp: lzc_decompress_def lzc_supports_algorithm_def decompress_lz4_def decompress_zstd_def)
  then show "lzc_decompress E v (cs_algorithm s) = Ok d" "lzc_supports_algorithm (cs_algorithm s)"
    "length v \<le> length d"
    by (simp_all add: r(2))
qed

text \<open>An unsupported name is refused, and only that.\<close>

lemma lzc_decompress_unsupported:
  "\<not> lzc_supports_algorithm a \<Longrightarrow> lzc_decompress E d a = Err (InvalidPolicy (''unsupported algorithm '' @ a))"
  by (simp add: lzc_decompress_def lzc_supports_algorithm_def)

text \<open>The frequency table counts every byte value of the sample.\<close>

lemma byte_freq_fold:
  assumes "length fr = 256"
  shows "length (foldl (\<lambda>freq byte. freq[unat byte := freq ! unat byte + 1]) fr data) = 256"
    and "foldl (\<lambda>freq byte. freq[unat byte := freq ! unat byte + 1]) fr data ! unat (b :: u8) =
      fr ! unat b + count_list data b"
proof -
  have bound: "unat (x :: u8) < 256" for x using unsigned_less [of x, where 'a = nat] by simp
  show "length (foldl (\<lambda>freq byte. freq[unat byte := freq ! unat byte + 1]) fr data) = 256"
    using assms by (induction data arbitrary: fr) simp_all
  show "foldl (\<lambda>freq byte. freq[unat byte := freq ! unat byte + 1]) fr data ! unat b = fr ! unat b + count_list data b"
    using assms bound by (induction data arbitrary: fr) (auto simp: nth_list_update intro: unsigned_word_eqI)
qed

lemma byte_freq_count: "byte_freq data ! unat (b :: u8) = count_list data b"
  using byte_freq_fold(2) [of "replicate 256 0" data b] unsigned_less [of b, where 'a = nat] by (simp add: byte_freq_def)

section \<open>Properties\<close>

text \<open>C16: Compression is lossless for every input, policy and codec behaviour: whatever the
  compressor returns \<open>Ok\<close> with is restored by decompressing under the algorithm name recorded in
  the summary, which is a supported one, and the output is never longer than the input.\<close>

theorem compression_roundtrip:
  assumes "lzc_compress E d p = Ok (v, s)"
  shows "lzc_decompress E v (cs_algorithm s) = Ok d \<and> lzc_supports_algorithm (cs_algorithm s) \<and>
    length v \<le> length d \<and> (cs_compressed s \<longrightarrow> length v < length d)"
proof -
  from assms obtain r where "adaptive_compress E d p = Ok (v, r)" "cs_compressed s = cr_compressed r"
    by (rule lzc_compress_Ok)
  then have "cs_compressed s \<longrightarrow> length v < length d"
    by (cases rule: adaptive_compress_cases) auto
  with lzc.restore [OF assms] lzc.supported [OF assms] lzc.shrinks [OF assms] show ?thesis by simp
qed

theorem compression_roundtrip_witness:
  "lzc_compress sample_ext (replicate 40 5) (LZ4 99) =
     Ok ([4, 34, 5, 40], \<lparr>cs_original_size = 40, cs_output_size = 40, cs_algorithm = ''lz4:16'',
                         cs_compressed = True, cs_reused_input = False, cs_reason = None\<rparr>) \<and>
   lzc_decompress sample_ext [4, 34, 5, 40] ''lz4:16'' = Ok (replicate 40 5)"
proof -
  have run: "lzc_compress sample_ext (replicate 40 5) (LZ4 99) =
     Ok ([4, 34, 5, 40], \<lparr>cs_original_size = 40, cs_output_size = 40, cs_algorithm = ''lz4:16'',
                         cs_compressed = True, cs_reused_input = False, cs_reason = None\<rparr>)"
    by code_simp
  from run compression_roundtrip [OF run] show ?thesis by simp
qed

text \<open>The statistics of a compression that worked: \<open>compressed_size\<close> is the size of the input,
  not of the output, so that the reported ratio is always one.\<close>

theorem compressed_size_is_input_size:
  assumes "compress_segment E d p = Ok (v, r)"
  shows "cr_compressed_size r = cr_original_size r \<and> (cr_compressed r \<longrightarrow> length v < cr_compressed_size r)"
  using assms unfolding compress_segment_def by (cases rule: adaptive_compress_cases) auto

theorem compressed_size_is_input_size_witness:
  "\<exists>r. compress_segment sample_ext (replicate 40 5) (LZ4 1) = Ok ([4, 34, 5, 40], r) \<and>
     cr_compressed r \<and> cr_compressed_size r = cr_original_size r \<and> length [4, 34, 5, 40 :: u8] < cr_compressed_size r"
proof -
  have run: "compress_segment sample_ext (replicate 40 5) (LZ4 1) =
     Ok ([4, 34, 5, 40], \<lparr>cr_original_size = 40, cr_compressed_size = 40, cr_compressed = True,
                         cr_reused_original = False, cr_algorithm = ''lz4:1'', cr_reason = None\<rparr>)"
    by code_simp
  with compressed_size_is_input_size [OF run] show ?thesis by simp
qed

end
