(* ===== verification/Encryption.thy ===== *)
theory Encryption
  imports Common_Types
begin

text \<open>
  The encryption crate: key management (\<open>keymanager.rs\<close>), XTS-AES-256 over segments (\<open>xts.rs\<close>),
  the keyed BLAKE3 tag (\<open>mac.rs\<close>) and the per-segment metadata (\<open>policy.rs\<close>). The primitives
  (HMAC-SHA256, BLAKE3, XTS) are fields of \<open>ext\<close>; the HKDF loop around HMAC is the crate's own
  and is modelled step by step.
\<close>

unbundle bit_operations_syntax

section \<open>Byte order\<close>

definition u32_to_be_bytes :: "u32 \<Rightarrow> bytes" where
  "u32_to_be_bytes v = [ucast (drop_bit 24 v), ucast (drop_bit 16 v), ucast (drop_bit 8 v), ucast v]"

definition u32_to_le_bytes :: "u32 \<Rightarrow> bytes" where
  "u32_to_le_bytes v = rev (u32_to_be_bytes v)"

definition u16_to_le_bytes :: "u16 \<Rightarrow> bytes" where
  "u16_to_le_bytes v = [ucast v, ucast (drop_bit 8 v)]"

lemma length_to_bytes [simp]:
  "length (u32_to_be_bytes v) = 4" "length (u32_to_le_bytes v) = 4" "length (u16_to_le_bytes w) = 2"
  by (simp_all add: u32_to_be_bytes_def u32_to_le_bytes_def u16_to_le_bytes_def)

lemma byte_of_word_bit:
  "bit (ucast (drop_bit (8 * (n div 8)) v) :: u8) (n mod 8) = bit v n"
  for v :: "'w::len word"
proof -
  have "8 * (n div 8) + n mod 8 = n" by simp
  moreover have "n mod 8 < LENGTH(8)" by (simp only: len_num0 len_num1 len_bit0)
  ultimately show ?thesis by (simp only: bit_unsigned_iff bit_drop_bit_eq comp_def possible_bit_word simp_thms)
qed

lemma u32_to_be_bytes_inj [simp]: "u32_to_be_bytes v = u32_to_be_bytes w \<longleftrightarrow> v = w"
proof
  assume eq: "u32_to_be_bytes v = u32_to_be_bytes w"
  have "bit v n = bit w n" if "n < 32" for n
  proof -
    have "n div 8 < 4" using that by simp
    then have "n div 8 = 0 \<or> n div 8 = 1 \<or> n div 8 = 2 \<or> n div 8 = 3" by auto
    then have "(ucast (drop_bit (8 * (n div 8)) v) :: u8) = ucast (drop_bit (8 * (n div 8)) w)"
      using eq by (auto simp: u32_to_be_bytes_def)
    then show ?thesis by (metis byte_of_word_bit)
  qed
  then show "v = w" by (auto intro: bit_word_eqI)
qed simp

lemma u32_to_le_bytes_inj [simp]: "u32_to_le_bytes v = u32_to_le_bytes w \<longleftrightarrow> v = w"
  by (simp add: u32_to_le_bytes_def)

lemma u16_to_le_bytes_inj [simp]: "u16_to_le_bytes v = u16_to_le_bytes w \<longleftrightarrow> v = w"
proof
  assume eq: "u16_to_le_bytes v = u16_to_le_bytes w"
  have "bit v n = bit w n" if "n < 16" for n
  proof -
    have "n div 8 < 2" using that by simp
    then have "n div 8 = 0 \<or> n div 8 = 1" by auto
    then have "(ucast (drop_bit (8 * (n div 8)) v) :: u8) = ucast (drop_bit (8 * (n div 8)) w)"
      using eq by (auto simp: u16_to_le_bytes_def)
    then show ?thesis by (metis byte_of_word_bit)
  qed
  then show "v = w" by (auto intro: bit_word_eqI)
qed simp

section \<open>Keys\<close>

definition XTS_KEY_SIZE :: nat where "XTS_KEY_SIZE = 64"

definition MASTER_KEY_SIZE :: nat where "MASTER_KEY_SIZE = 32"

record xts_key_pair =
  key1 :: bytes
  key2 :: bytes

definition key_pair_from_bytes :: "bytes \<Rightarrow> xts_key_pair" where
  "key_pair_from_bytes bs = \<lparr>key1 = take 32 bs, key2 = take 32 (drop 32 bs)\<rparr>"

definition key_pair_to_bytes :: "xts_key_pair \<Rightarrow> bytes" where
  "key_pair_to_bytes kp = key1 kp @ key2 kp"

record key_manager =
  km_master_key :: bytes
  km_hkdf_salt :: bytes
  km_key_cache :: "(u32, xts_key_pair) hmap"
  km_current_version :: u32
  km_rotating :: bool

type_synonym 'a km_op = "(key_manager, 'a, encryption_error) op"

definition HKDF_INFO_CONTEXT :: bytes where
  "HKDF_INFO_CONTEXT = as_bytes ''SPACE-XTS-AES-256-KEY-V1''"

definition HKDF_SALT_DOMAIN :: bytes where
  "HKDF_SALT_DOMAIN = as_bytes ''SPACE-HKDF-SALT-V1''"

definition derive_hkdf_salt :: "ext \<Rightarrow> bytes \<Rightarrow> bytes" where
  "derive_hkdf_salt E master_key = take 32 (ext_blake3 E (HKDF_SALT_DOMAIN @ master_key))"

definition hkdf_extract :: "ext \<Rightarrow> key_manager \<Rightarrow> bytes" where
  "hkdf_extract E km = ext_hmac_sha256 E (km_hkdf_salt km) (km_master_key km)"

definition hkdf_info :: "u32 \<Rightarrow> bytes" where
  "hkdf_info version = HKDF_INFO_CONTEXT @ u32_to_be_bytes version"

text \<open>
  The \<open>while generated < XTS_KEY_SIZE\<close> loop. The block counter is a \<open>u8\<close> advanced with
  \<open>checked_add\<close>, so the loop ends whatever the length of a block.
\<close>

function hkdf_expand_loop ::
  "ext \<Rightarrow> bytes \<Rightarrow> bytes \<Rightarrow> bytes \<Rightarrow> nat \<Rightarrow> bytes \<Rightarrow> u8 \<Rightarrow> (bytes, encryption_error) result" where
  "hkdf_expand_loop E prk info okm generated previous_block counter =
     (if generated < XTS_KEY_SIZE then
        let block_array = ext_hmac_sha256 E prk (previous_block @ info @ [counter]);
            n = min (length block_array) (XTS_KEY_SIZE - generated);
            okm = take generated okm @ take n block_array @ drop (generated + n) okm
        in if counter = - 1 then Err KeyDerivationFailed
           else hkdf_expand_loop E prk info okm (generated + n) block_array (counter + 1)
      else Ok okm)"
  by pat_completeness auto
termination
proof (relation "measure (\<lambda>(E, prk, info, okm, generated, previous_block, counter). 255 - unat counter)")
  fix counter :: u8
  assume "counter \<noteq> - 1"
  then have "unat (counter + 1) = Suc (unat counter)" by (rule unat_plus_one)
  moreover have "unat (counter + 1) < 256" using unsigned_less [of "counter + 1", where 'a = nat] by simp
  ultimately show "((E, prk, info, okm, generated, block, counter + 1), (E', prk', info', okm', generated', prev, counter))
      \<in> measure (\<lambda>(E, prk, info, okm, generated, previous_block, counter). 255 - unat counter)"
    for E :: ext and prk info okm generated block E' prk' info' okm' generated' prev
    by simp
qed simp

declare hkdf_expand_loop.simps [simp del]

definition hkdf_expand :: "ext \<Rightarrow> bytes \<Rightarrow> bytes \<Rightarrow> (bytes, encryption_error) result" where
  "hkdf_expand E prk info = hkdf_expand_loop E prk info (replicate XTS_KEY_SIZE 0) 0 [] 1"

definition derive_key :: "ext \<Rightarrow> key_manager \<Rightarrow> u32 \<Rightarrow> (xts_key_pair, encryption_error) result" where
  "derive_key E km version =
     bind_result (hkdf_expand E (hkdf_extract E km) (hkdf_info version)) (\<lambda>okm. Ok (key_pair_from_bytes okm))"

text \<open>\<open>if let Ok(key) = manager.derive_key(v)\<close> then the key is cached.\<close>

definition prederive :: "ext \<Rightarrow> u32 \<Rightarrow> key_manager \<Rightarrow> key_manager" where
  "prederive E version km =
     (case derive_key E km version of
        Ok key \<Rightarrow> km\<lparr>km_key_cache := hm_insert version key (km_key_cache km)\<rparr>
      | Err _ \<Rightarrow> km)"

definition key_manager_new :: "ext \<Rightarrow> bytes \<Rightarrow> key_manager" where
  "key_manager_new E master_key =
     prederive E 1 \<lparr>km_master_key = master_key, km_hkdf_salt = derive_hkdf_salt E master_key,
                    km_key_cache = [], km_current_version = 1, km_rotating = False\<rparr>"

text \<open>The environment variable and \<open>hex::decode\<close> are arguments.\<close>

definition from_env ::
  "ext \<Rightarrow> (string \<Rightarrow> bytes option) \<Rightarrow> string option \<Rightarrow> (key_manager, encryption_error) result" where
  "from_env E hex_decode env =
     bind_result (ok_or env (InvalidConfiguration ''SPACE_MASTER_KEY environment variable not set'')) (\<lambda>hex_key.
     bind_result (ok_or (hex_decode hex_key) (InvalidConfiguration ''Invalid hex in SPACE_MASTER_KEY'')) (\<lambda>bs.
       if length bs \<noteq> MASTER_KEY_SIZE then Err (InvalidKeyLength MASTER_KEY_SIZE (length bs))
       else Ok (key_manager_new E bs)))"

definition from_tpm ::
  "ext \<Rightarrow> (bytes, encryption_error) result \<Rightarrow> (bytes option, encryption_error) result \<Rightarrow>
   (key_manager, encryption_error) result" where
  "from_tpm E read_master_key read_kdf_salt =
     bind_result read_master_key (\<lambda>master_key.
     bind_result read_kdf_salt (\<lambda>salt.
       let manager = key_manager_new E master_key
       in case salt of
            None \<Rightarrow> Ok manager
          | Some salt \<Rightarrow>
              (let manager = manager\<lparr>km_hkdf_salt := salt, km_key_cache := []\<rparr>
               in Ok (prederive E (km_current_version manager) manager))))"

definition get_key :: "ext \<Rightarrow> u32 \<Rightarrow> xts_key_pair km_op" where
  "get_key E version km =
     bind_op
       (if hm_get (km_key_cache km) version = None
        then bind_op (lift_result (derive_key E km version)) (\<lambda>key km.
               (Ok (), km\<lparr>km_key_cache := hm_insert version key (km_key_cache km)\<rparr>))
        else return_op ())
       (\<lambda>_ km. (ok_or (hm_get (km_key_cache km) version) (KeyNotFound version), km)) km"

text \<open>\<open>current_version += 1\<close> wraps in a release build.\<close>

definition rotate_key :: "ext \<Rightarrow> u32 km_op" where
  "rotate_key E km =
     (if km_rotating km then (Err KeyRotationInProgress, km)
      else let km = km\<lparr>km_rotating := True, km_current_version := km_current_version km + 1\<rparr>
           in case derive_key E km (km_current_version km) of
                Err e \<Rightarrow> (Err e, km)
              | Ok new_key \<Rightarrow>
                  (Ok (km_current_version km),
                   km\<lparr>km_key_cache := hm_insert (km_current_version km) new_key (km_key_cache km)\<rparr>))"

definition complete_rotation :: "key_manager \<Rightarrow> key_manager" where
  "complete_rotation km = km\<lparr>km_rotating := False\<rparr>"

definition available_versions :: "key_manager \<Rightarrow> u32 list" where
  "available_versions km = sort (hm_keys (km_key_cache km))"

definition clear_cache :: "key_manager \<Rightarrow> key_manager" where
  "clear_cache km = km\<lparr>km_key_cache := []\<rparr>"

section \<open>Metadata\<close>

datatype enc_policy = EncNone | EncXtsAes256 u32

fun enc_is_enabled :: "enc_policy \<Rightarrow> bool" where
  "enc_is_enabled EncNone = False"
| "enc_is_enabled (EncXtsAes256 _) = True"

fun enc_key_version :: "enc_policy \<Rightarrow> u32 option" where
  "enc_key_version EncNone = None"
| "enc_key_version (EncXtsAes256 kv) = Some kv"

fun algorithm_name :: "enc_policy \<Rightarrow> string" where
  "algorithm_name EncNone = ''none''"
| "algorithm_name (EncXtsAes256 _) = ''xts-aes-256''"

record encryption_metadata =
  em_encryption_version :: "u16 option"
  em_key_version :: "u32 option"
  em_tweak_nonce :: "bytes option"
  em_integrity_tag :: "bytes option"
  em_ciphertext_len :: "u32 option"

definition new_xts :: "u32 \<Rightarrow> bytes \<Rightarrow> u32 \<Rightarrow> encryption_metadata" where
  "new_xts key_version tweak len =
     \<lparr>em_encryption_version = Some 1, em_key_version = Some key_version, em_tweak_nonce = Some tweak,
      em_integrity_tag = None, em_ciphertext_len = Some len\<rparr>"

definition new_unencrypted :: encryption_metadata where
  "new_unencrypted = \<lparr>em_encryption_version = None, em_key_version = None, em_tweak_nonce = None,
     em_integrity_tag = None, em_ciphertext_len = None\<rparr>"

definition is_encrypted :: "encryption_metadata \<Rightarrow> bool" where
  "is_encrypted m \<longleftrightarrow> em_encryption_version m \<noteq> None"

definition set_integrity_tag :: "bytes \<Rightarrow> encryption_metadata \<Rightarrow> encryption_metadata" where
  "set_integrity_tag tag m = m\<lparr>em_integrity_tag := Some tag\<rparr>"

definition require_tweak :: "encryption_metadata \<Rightarrow> (bytes, string) result" where
  "require_tweak m = ok_or (em_tweak_nonce m) ''Missing tweak nonce''"

definition require_integrity_tag :: "encryption_metadata \<Rightarrow> (bytes, string) result" where
  "require_integrity_tag m = ok_or (em_integrity_tag m) ''Missing integrity tag''"

record encryption_stats =
  es_encrypted_segments :: nat
  es_unencrypted_segments :: nat
  es_total_ciphertext_bytes :: u64
  es_key_versions_used :: "u32 list"

definition add_encrypted :: "u32 \<Rightarrow> u64 \<Rightarrow> encryption_stats \<Rightarrow> encryption_stats" where
  "add_encrypted key_version n st =
     st\<lparr>es_encrypted_segments := es_encrypted_segments st + 1,
        es_total_ciphertext_bytes := es_total_ciphertext_bytes st + n,
        es_key_versions_used := List.insert key_version (es_key_versions_used st)\<rparr>"

definition add_unencrypted :: "encryption_stats \<Rightarrow> encryption_stats" where
  "add_unencrypted st = st\<lparr>es_unencrypted_segments := es_unencrypted_segments st + 1\<rparr>"

section \<open>XTS over segments\<close>

definition MIN_SECTOR_SIZE :: nat where "MIN_SECTOR_SIZE = 16"

definition xts_encrypt :: "ext \<Rightarrow> bytes \<Rightarrow> xts_key_pair \<Rightarrow> bytes \<Rightarrow> (bytes, encryption_error) result" where
  "xts_encrypt E plaintext kp tweak =
     (if length plaintext < MIN_SECTOR_SIZE then Err (InvalidCiphertextLength (length plaintext))
      else Ok (ext_xts_encrypt E (key1 kp) (key2 kp) tweak plaintext))"

definition xts_decrypt :: "ext \<Rightarrow> bytes \<Rightarrow> xts_key_pair \<Rightarrow> bytes \<Rightarrow> (bytes, encryption_error) result" where
  "xts_decrypt E ciphertext kp tweak =
     (if length ciphertext < MIN_SECTOR_SIZE then Err (InvalidCiphertextLength (length ciphertext))
      else Ok (ext_xts_decrypt E (key1 kp) (key2 kp) tweak ciphertext))"

definition encrypt_segment ::
  "ext \<Rightarrow> bytes \<Rightarrow> xts_key_pair \<Rightarrow> u32 \<Rightarrow> bytes \<Rightarrow> (bytes \<times> encryption_metadata, encryption_error) result" where
  "encrypt_segment E plaintext kp key_version tweak =
     bind_result (xts_encrypt E plaintext kp tweak) (\<lambda>ciphertext.
       Ok (ciphertext, new_xts key_version tweak (of_nat (length ciphertext))))"

definition decrypt_segment ::
  "ext \<Rightarrow> bytes \<Rightarrow> xts_key_pair \<Rightarrow> encryption_metadata \<Rightarrow> (bytes, encryption_error) result" where
  "decrypt_segment E ciphertext kp m =
     (if \<not> is_encrypted m then Err MissingMetadata
      else bind_result (map_result_err CorruptedMetadata (require_tweak m)) (\<lambda>tweak.
           bind_result (ok_or (em_ciphertext_len m) MissingMetadata) (\<lambda>expected_len.
             if length ciphertext \<noteq> unat expected_len then Err (InvalidCiphertextLength (length ciphertext))
             else xts_decrypt E ciphertext kp tweak)))"

definition derive_tweak_from_hash :: "bytes \<Rightarrow> bytes" where
  "derive_tweak_from_hash h =
     (let copy_len = min (length h) 16 in take copy_len h @ drop copy_len (replicate 16 0))"

section \<open>Integrity tags\<close>

definition derive_mac_key :: "ext \<Rightarrow> bytes \<Rightarrow> bytes \<Rightarrow> bytes" where
  "derive_mac_key E k1 k2 = ext_blake3 E (as_bytes ''SPACE-BLAKE3-MAC-KEY-V1'' @ k1 @ k2)"

fun opt_bytes :: "('a \<Rightarrow> bytes) \<Rightarrow> 'a option \<Rightarrow> bytes" where
  "opt_bytes f None = []"
| "opt_bytes f (Some x) = f x"

definition serialize_metadata_for_mac :: "encryption_metadata \<Rightarrow> bytes" where
  "serialize_metadata_for_mac m =
     opt_bytes u16_to_le_bytes (em_encryption_version m) @ opt_bytes u32_to_le_bytes (em_key_version m) @
     opt_bytes id (em_tweak_nonce m) @ opt_bytes u32_to_le_bytes (em_ciphertext_len m)"

definition compute_mac :: "ext \<Rightarrow> bytes \<Rightarrow> encryption_metadata \<Rightarrow> bytes \<Rightarrow> bytes \<Rightarrow> bytes" where
  "compute_mac E ciphertext m k1 k2 =
     take 16 (ext_blake3_keyed E (derive_mac_key E k1 k2) (ciphertext @ serialize_metadata_for_mac m))"

definition verify_mac ::
  "ext \<Rightarrow> bytes \<Rightarrow> encryption_metadata \<Rightarrow> bytes \<Rightarrow> bytes \<Rightarrow> (unit, encryption_error) result" where
  "verify_mac E ciphertext m k1 k2 =
     bind_result (map_result_err (\<lambda>_. MissingIntegrityTag) (require_integrity_tag m)) (\<lambda>stored_tag.
       if stored_tag = compute_mac E ciphertext (m\<lparr>em_integrity_tag := None\<rparr>) k1 k2 then Ok ()
       else Err IntegrityFailure)"

section \<open>Key derivation\<close>

text \<open>HMAC-SHA256 has a 32-byte output.\<close>

definition hmac_len :: "ext \<Rightarrow> bool" where
  "hmac_len E \<longleftrightarrow> (\<forall>k d. length (ext_hmac_sha256 E k d) = 32)"

lemma sample_hmac_len: "hmac_len sample_ext"
  by (auto simp: hmac_len_def sample_ext_def sample_hash_def)

text \<open>The expansion of RFC 5869 for a 64-byte output: two blocks, chained.\<close>

definition hkdf_spec :: "ext \<Rightarrow> bytes \<Rightarrow> bytes \<Rightarrow> bytes" where
  "hkdf_spec E prk info =
     (let t1 = ext_hmac_sha256 E prk (info @ [1]); t2 = ext_hmac_sha256 E prk (t1 @ info @ [2]) in t1 @ t2)"

lemma hkdf_expand_spec:
  assumes "hmac_len E"
  shows "hkdf_expand E prk info = Ok (hkdf_spec E prk info)"
proof -
  have len: "length (ext_hmac_sha256 E k d) = 32" for k d using assms by (simp add: hmac_len_def)
  show ?thesis
    by (simp add: hkdf_expand_def hkdf_expand_loop.simps XTS_KEY_SIZE_def len Let_def hkdf_spec_def)
qed

lemma length_hkdf_spec: "hmac_len E \<Longrightarrow> length (hkdf_spec E prk info) = 64"
  by (simp add: hkdf_spec_def Let_def hmac_len_def)

lemma derive_key_spec:
  "hmac_len E \<Longrightarrow> derive_key E km version =
     Ok (key_pair_from_bytes (hkdf_spec E (hkdf_extract E km) (hkdf_info version)))"
  by (simp add: derive_key_def hkdf_expand_spec)

lemma derive_key_cong:
  "km_master_key km' = km_master_key km \<Longrightarrow> km_hkdf_salt km' = km_hkdf_salt km \<Longrightarrow>
   derive_key E km' = derive_key E km"
  by (simp add: fun_eq_iff derive_key_def hkdf_extract_def)

section \<open>The key cache\<close>

text \<open>Every cached key is the derived one.\<close>

definition km_ok :: "ext \<Rightarrow> key_manager \<Rightarrow> bool" where
  "km_ok E km \<longleftrightarrow> (\<forall>v k. hm_get (km_key_cache km) v = Some k \<longrightarrow> derive_key E km v = Ok k)"

text \<open>The operations of a key manager, as steps.\<close>

inductive km_step :: "ext \<Rightarrow> key_manager \<Rightarrow> key_manager \<Rightarrow> bool" for E where
  step_get: "get_key E v km = (r, km') \<Longrightarrow> km_step E km km'"
| step_rotate: "rotate_key E km = (r, km') \<Longrightarrow> km_step E km km'"
| step_complete: "km_step E km (complete_rotation km)"
| step_clear: "km_step E km (clear_cache km)"

inductive_cases km_stepE: "km_step E km km'"

text \<open>What every operation keeps: the key material, the cache invariant.\<close>

definition same_keys :: "key_manager \<Rightarrow> key_manager \<Rightarrow> bool" where
  "same_keys km km' \<longleftrightarrow> km_master_key km' = km_master_key km \<and> km_hkdf_salt km' = km_hkdf_salt km"

lemma same_keys_derive: "same_keys km km' \<Longrightarrow> derive_key E km' = derive_key E km"
  unfolding same_keys_def by (rule derive_key_cong) auto

lemma same_keys_refl [simp]: "same_keys km km"
  by (simp add: same_keys_def)

lemma same_keys_trans: "same_keys a b \<Longrightarrow> same_keys b c \<Longrightarrow> same_keys a c"
  by (simp add: same_keys_def)

lemma km_ok_insert:
  "km_ok E km \<Longrightarrow> derive_key E km v = Ok k \<Longrightarrow> same_keys km km' \<Longrightarrow>
   km_key_cache km' = hm_insert v k (km_key_cache km) \<Longrightarrow> km_ok E km'"
  by (auto simp: km_ok_def same_keys_derive)

lemma km_ok_same: "km_ok E km \<Longrightarrow> same_keys km km' \<Longrightarrow> km_key_cache km' = km_key_cache km \<Longrightarrow> km_ok E km'"
  by (simp add: km_ok_def same_keys_derive)

lemma get_key_effect:
  assumes "km_ok E km" "get_key E v km = (r, km')"
  shows "r = derive_key E km v" "km_ok E km'" "same_keys km km'"
    and "km_current_version km' = km_current_version km" "km_rotating km' = km_rotating km"
proof -
  consider (cached) k where "hm_get (km_key_cache km) v = Some k"
    | (fresh) k where "hm_get (km_key_cache km) v = None" "derive_key E km v = Ok k"
    | (failed) e where "hm_get (km_key_cache km) v = None" "derive_key E km v = Err e"
    by (metis option.exhaust result.exhaust)
  then have "r = derive_key E km v \<and> km_ok E km' \<and> same_keys km km' \<and>
    km_current_version km' = km_current_version km \<and> km_rotating km' = km_rotating km"
  proof cases
    case cached
    then show ?thesis using assms by (auto simp: get_key_def op_simps km_ok_def)
  next
    case fresh
    then have km': "km' = km\<lparr>km_key_cache := hm_insert v k (km_key_cache km)\<rparr>" and "r = Ok k"
      using assms(2) by (auto simp: get_key_def op_simps)
    then show ?thesis
      using fresh assms(1) by (auto intro!: km_ok_insert [of E km v k] simp: same_keys_def)
  next
    case failed
    then show ?thesis using assms by (auto simp: get_key_def op_simps)
  qed
  then show "r = derive_key E km v" "km_ok E km'" "same_keys km km'"
    "km_current_version km' = km_current_version km" "km_rotating km' = km_rotating km" by auto
qed

lemma rotate_key_effect:
  assumes "km_ok E km" "rotate_key E km = (r, km')"
  shows "km_ok E km'" "same_keys km km'"
proof -
  let ?km = "km\<lparr>km_rotating := True, km_current_version := km_current_version km + 1\<rparr>"
  have ok: "km_ok E ?km" and same: "same_keys km ?km"
    using assms(1) km_ok_same [of E km ?km] by (simp_all add: same_keys_def)
  show "km_ok E km'" "same_keys km km'"
  proof (atomize (full), cases "derive_key E ?km (km_current_version km + 1)")
    case (Ok k)
    let ?km2 = "?km\<lparr>km_key_cache := hm_insert (km_current_version km + 1) k (km_key_cache km)\<rparr>"
    have "km' = km \<or> km' = ?km2"
      using assms(2) Ok by (auto simp: rotate_key_def Let_def split: if_splits)
    moreover have "km_ok E ?km2"
      by (rule km_ok_insert [OF ok Ok]) (simp_all add: same_keys_def)
    ultimately show "km_ok E km' \<and> same_keys km km'"
      using assms(1) by (auto simp: same_keys_def)
  next
    case (Err e)
    then have "km' = km \<or> km' = ?km"
      using assms(2) by (auto simp: rotate_key_def Let_def split: if_splits)
    then show "km_ok E km' \<and> same_keys km km'" using assms(1) ok same by auto
  qed
qed

lemma km_step_invariant:
  assumes "km_step E km km'" "km_ok E km"
  shows "km_ok E km' \<and> same_keys km km'"
  using assms(1)
proof (cases rule: km_step.cases)
  case (step_get v r)
  then show ?thesis using get_key_effect(2,3) [OF assms(2)] by blast
next
  case (step_rotate r)
  then show ?thesis using rotate_key_effect [OF assms(2)] by blast
next
  case step_complete
  then show ?thesis
    using km_ok_same [OF assms(2), of km'] by (simp add: complete_rotation_def same_keys_def)
next
  case step_clear
  then show ?thesis by (simp add: clear_cache_def km_ok_def same_keys_def)
qed

lemma km_reachable_invariant:
  assumes "(km_step E)\<^sup>*\<^sup>* km km'" "km_ok E km"
  shows "km_ok E km' \<and> same_keys km km'"
  using assms
proof (induction rule: rtranclp_induct)
  case (step a b)
  then show ?case using km_step_invariant same_keys_trans by blast
qed simp

lemma km_ok_new: "km_ok E (key_manager_new E master)"
  by (auto simp: key_manager_new_def prederive_def km_ok_def derive_key_def hkdf_extract_def split: result.splits)

section \<open>Round trips\<close>

lemma encrypt_segment_effect:
  assumes "xts_laws E" "encrypt_segment E d kp kv t = Ok (c, m)" "length d < 2 ^ 32"
  shows "length c = length d" "m = new_xts kv t (of_nat (length d))" "decrypt_segment E c kp (set_integrity_tag tag m) = Ok d"
    and "16 \<le> length d"
proof -
  have c: "16 \<le> length d" "c = ext_xts_encrypt E (key1 kp) (key2 kp) t d" "m = new_xts kv t (of_nat (length c))"
    using assms(2) by (auto simp: encrypt_segment_def xts_encrypt_def bind_result_Ok_iff MIN_SECTOR_SIZE_def split: if_splits)
  moreover have len: "length c = length d" and inv: "ext_xts_decrypt E (key1 kp) (key2 kp) t c = d"
    using assms(1) c by (auto simp: xts_laws_def)
  ultimately show "length c = length d" "m = new_xts kv t (of_nat (length d))" "16 \<le> length d" by auto
  show "decrypt_segment E c kp (set_integrity_tag tag m) = Ok d"
    using c len inv assms(3)
    by (simp add: decrypt_segment_def is_encrypted_def set_integrity_tag_def new_xts_def require_tweak_def
        xts_decrypt_def word_arith MIN_SECTOR_SIZE_def)
qed

lemma encrypt_segment_total:
  assumes "16 \<le> length d"
  obtains c m where "encrypt_segment E d kp kv t = Ok (c, m)"
  using assms by (auto simp: encrypt_segment_def xts_encrypt_def MIN_SECTOR_SIZE_def)

lemma serialize_tag [simp]: "serialize_metadata_for_mac (set_integrity_tag tag m) = serialize_metadata_for_mac m"
  "serialize_metadata_for_mac (m\<lparr>em_integrity_tag := x\<rparr>) = serialize_metadata_for_mac m"
  by (simp_all add: serialize_metadata_for_mac_def set_integrity_tag_def)

lemma verify_mac_iff:
  "verify_mac E c m k1 k2 = Ok () \<longleftrightarrow> em_integrity_tag m = Some (compute_mac E c m k1 k2)"
  by (auto simp: verify_mac_def require_integrity_tag_def compute_mac_def ok_or_def bind_result_Ok_iff
      split: option.splits)

lemma verify_own_mac: "verify_mac E c (set_integrity_tag (compute_mac E c m k1 k2) m) k1 k2 = Ok ()"
  by (simp add: verify_mac_iff compute_mac_def) (simp add: set_integrity_tag_def)

section \<open>Properties\<close>

text \<open>Key derivation terminates with the two chained blocks of the RFC 5869 expansion: for every
  key manager and version, the first AES key is the first HMAC block and the second AES key the
  second one.\<close>

theorem hkdf_equals_spec:
  assumes "hmac_len E"
  shows "\<exists>kp. derive_key E km v = Ok kp \<and> length (key1 kp) = 32 \<and> length (key2 kp) = 32 \<and>
    key_pair_to_bytes kp = hkdf_spec E (hkdf_extract E km) (hkdf_info v)"
  using derive_key_spec [OF assms] length_hkdf_spec [OF assms]
  by (auto simp: key_pair_from_bytes_def key_pair_to_bytes_def)

text \<open>C14: Keys are stable: in any state a key manager reaches from its creation by lookups, rotations,
  completions and cache clears, asking for a version returns the same result as deriving it from
  scratch at creation, so segments written under old versions stay readable.\<close>

theorem key_stable_across_rotation:
  assumes "(km_step E)\<^sup>*\<^sup>* (key_manager_new E master) km" "get_key E v km = (r, km')"
  shows "r = derive_key E (key_manager_new E master) v \<and> fst (get_key E v km') = r"
proof -
  have ok: "km_ok E km" and same: "same_keys (key_manager_new E master) km"
    using km_reachable_invariant [OF assms(1) km_ok_new] by auto
  note G = get_key_effect [OF ok assms(2)]
  have "fst (get_key E v km') = derive_key E km' v"
    using get_key_effect(1) [OF G(2)] by (metis prod.collapse)
  with G same show ?thesis by (simp add: same_keys_derive)
qed

text \<open>An encrypted segment authenticates and decrypts: tagging the metadata that \<open>encrypt_segment\<close>
  returns with \<open>compute_mac\<close> makes \<open>verify_mac\<close> accept and \<open>decrypt_segment\<close> return the plaintext; and
  encryption fails exactly on inputs shorter than one block.\<close>

theorem encrypt_mac_roundtrip:
  assumes "xts_laws E" "length d < 2 ^ 32"
  shows "(\<forall>c m. encrypt_segment E d kp kv t = Ok (c, m) \<longrightarrow>
      (let m' = set_integrity_tag (compute_mac E c m (key1 kp) (key2 kp)) m
       in verify_mac E c m' (key1 kp) (key2 kp) = Ok () \<and> decrypt_segment E c kp m' = Ok d)) \<and>
    (is_ok (encrypt_segment E d kp kv t) \<longleftrightarrow> 16 \<le> length d)"
  using encrypt_segment_effect(3) [OF assms(1) _ assms(2)]
  by (auto simp: Let_def verify_own_mac encrypt_segment_def xts_encrypt_def MIN_SECTOR_SIZE_def)

text \<open>The tag covers the ciphertext and every metadata field: changing the ciphertext, the key
  version, the tweak or the length of a fully populated record changes the bytes that are
  authenticated. (Absent fields are skipped, so this needs the fields to be present.)\<close>

theorem mac_input_injective:
  assumes "length t = 16" "length t' = 16" "c \<noteq> c' \<or> kv \<noteq> kv' \<or> t \<noteq> t' \<or> n \<noteq> n'"
  shows "c @ serialize_metadata_for_mac (new_xts kv t n) \<noteq> c' @ serialize_metadata_for_mac (new_xts kv' t' n')"
  using assms by (auto simp: serialize_metadata_for_mac_def new_xts_def)

theorem hkdf_equals_spec_witness:
  "\<exists>kp. derive_key sample_ext (key_manager_new sample_ext (replicate 32 7)) 3 = Ok kp \<and>
    length (key1 kp) = 32 \<and> length (key2 kp) = 32"
  using hkdf_equals_spec [OF sample_hmac_len, of "key_manager_new sample_ext (replicate 32 7)" 3] by blast

theorem key_stable_across_rotation_witness:
  "fst (get_key sample_ext 1 (clear_cache (snd (rotate_key sample_ext (key_manager_new sample_ext [7]))))) =
     derive_key sample_ext (key_manager_new sample_ext [7]) 1"
proof -
  let ?k0 = "key_manager_new sample_ext [7]"
  let ?k1 = "snd (rotate_key sample_ext ?k0)"
  have "km_step sample_ext ?k0 ?k1" by (rule km_step.step_rotate [OF prod.collapse [symmetric]])
  moreover have "km_step sample_ext ?k1 (clear_cache ?k1)" by (rule km_step.step_clear)
  ultimately have "(km_step sample_ext)\<^sup>*\<^sup>* ?k0 (clear_cache ?k1)" by auto
  from key_stable_across_rotation [OF this, of 1] show ?thesis
    by (metis prod.collapse)
qed

theorem encrypt_mac_roundtrip_witness:
  "is_ok (encrypt_segment sample_ext (replicate 20 3) \<lparr>key1 = [1], key2 = [2]\<rparr> 1 (replicate 16 0)) \<and>
   \<not> is_ok (encrypt_segment sample_ext (replicate 15 3) \<lparr>key1 = [1], key2 = [2]\<rparr> 1 (replicate 16 0))"
  using encrypt_mac_roundtrip [OF sample_xts_laws, of "replicate 20 3" "\<lparr>key1 = [1], key2 = [2]\<rparr>" 1 "replicate 16 0"]
    encrypt_mac_roundtrip [OF sample_xts_laws, of "replicate 15 3" "\<lparr>key1 = [1], key2 = [2]\<rparr>" 1 "replicate 16 0"]
  by simp

theorem mac_input_injective_witness:
  "[1, 2, 3] @ serialize_metadata_for_mac (new_xts 1 (replicate 16 0) 3) \<noteq>
   [1, 2, 4] @ serialize_metadata_for_mac (new_xts 1 (replicate 16 0) 3)"
  using mac_input_injective [of "replicate 16 0" "replicate 16 0" "[1, 2, 3]" "[1, 2, 4]" 1 1 3 3] by simp

end
