(* ===== verification/Registry.thy ===== *)
theory Registry
  imports Common_Types
begin

text \<open>
  The capsule registry of \<open>crates/capsule-registry/src/lib.rs\<close>: capsules, the allocator of segment
  identifiers and the content store, persisted as one JSON file by \<open>save\<close>; and the trait
  \<open>CapsuleCatalog\<close> of \<open>crates/common/src/traits.rs\<close> as a record of operations with a locale for
  what its clients rely on. The clock is an argument (\<open>None\<close> when it is set before 1970).
\<close>

section \<open>The registry\<close>

record registry_state =
  rs_capsules :: "(capsule_id, capsule) hmap"
  rs_next_segment_id :: u64
  rs_content_store :: "(content_hash, segment_id) hmap"

record registry =
  reg_capsules :: "(capsule_id, capsule) hmap"
  reg_next_segment_id :: u64
  reg_content_store :: "(content_hash, segment_id) hmap"
  reg_saved :: "registry_state persisted"
  reg_io :: "io_outcome list"

type_synonym 'a reg_op = "(registry, 'a, error) op"

definition reg_open :: "registry_state persisted \<Rightarrow> io_outcome list \<Rightarrow> (registry, error) result" where
  "reg_open meta io =
     bind_result
       (case meta of
          Absent \<Rightarrow> Ok ([], 0, [])
        | Stored st \<Rightarrow> Ok (rs_capsules st, rs_next_segment_id st, rs_content_store st)
        | Torn \<Rightarrow> Err ParseError)
       (\<lambda>(caps, next_id, content).
          Ok \<lparr>reg_capsules = caps, reg_next_segment_id = next_id, reg_content_store = content,
              reg_saved = meta, reg_io = io\<rparr>)"

definition reg_snapshot :: "registry \<Rightarrow> registry_state" where
  "reg_snapshot rg = \<lparr>rs_capsules = reg_capsules rg, rs_next_segment_id = reg_next_segment_id rg,
     rs_content_store = reg_content_store rg\<rparr>"

definition reg_save :: "unit reg_op" where
  "reg_save rg =
     (case io_next (reg_io rg) of
        (r, io) \<Rightarrow> ((if r = IoOk then Ok () else Err IoError),
                    rg\<lparr>reg_saved := fs_write (reg_snapshot rg) r (reg_saved rg), reg_io := io\<rparr>))"

definition create_capsule_with_segments ::
  "u64 option \<Rightarrow> capsule_id \<Rightarrow> u64 \<Rightarrow> segment_id list \<Rightarrow> policy \<Rightarrow> unit reg_op" where
  "create_capsule_with_segments now cid sz segs pol rg =
     (if hm_get (reg_capsules rg) cid \<noteq> None then (Err CapsuleCollision, rg)
      else case now of
        None \<Rightarrow> (Err ClockError, rg)
      | Some t \<Rightarrow>
          reg_save (rg\<lparr>reg_capsules := hm_insert cid
            \<lparr>cap_id = cid, cap_size = sz, cap_segments = segs, cap_created_at = t,
             cap_policy = pol, cap_deduped_bytes = 0\<rparr> (reg_capsules rg)\<rparr>))"

definition reg_lookup :: "capsule_id \<Rightarrow> registry \<Rightarrow> (capsule, error) result" where
  "reg_lookup cid rg = ok_or (hm_get (reg_capsules rg) cid) CapsuleNotFound"

definition alloc_segment :: "registry \<Rightarrow> segment_id \<times> registry" where
  "alloc_segment rg =
     (SegmentId (reg_next_segment_id rg), rg\<lparr>reg_next_segment_id := reg_next_segment_id rg + 1\<rparr>)"

definition add_segment :: "capsule_id \<Rightarrow> segment_id \<Rightarrow> unit reg_op" where
  "add_segment cid sid rg =
     (case hm_get (reg_capsules rg) cid of
        None \<Rightarrow> (Err CapsuleNotFound, rg)
      | Some c \<Rightarrow>
          reg_save (rg\<lparr>reg_capsules :=
            hm_insert cid (c\<lparr>cap_segments := cap_segments c @ [sid]\<rparr>) (reg_capsules rg)\<rparr>))"

definition reg_lookup_content :: "content_hash \<Rightarrow> registry \<Rightarrow> segment_id option" where
  "reg_lookup_content h rg = hm_get (reg_content_store rg) h"

definition reg_register_content :: "content_hash \<Rightarrow> segment_id \<Rightarrow> unit reg_op" where
  "reg_register_content h sid rg =
     reg_save (rg\<lparr>reg_content_store := hm_insert h sid (reg_content_store rg)\<rparr>)"

definition reg_deregister_content :: "content_hash \<Rightarrow> segment_id \<Rightarrow> bool reg_op" where
  "reg_deregister_content h sid rg =
     (case hm_get (reg_content_store rg) h of
        Some current \<Rightarrow>
          if current = sid
          then bind_op reg_save (\<lambda>_. return_op True)
                 (rg\<lparr>reg_content_store := hm_remove h (reg_content_store rg)\<rparr>)
          else (Ok False, rg)
      | None \<Rightarrow> (Ok False, rg))"

text \<open>Not saved, and nothing happens for a capsule that is not there.\<close>

definition add_deduped_bytes :: "capsule_id \<Rightarrow> u64 \<Rightarrow> registry \<Rightarrow> registry" where
  "add_deduped_bytes cid n rg =
     (case hm_get (reg_capsules rg) cid of
        Some c \<Rightarrow> rg\<lparr>reg_capsules :=
          hm_insert cid (c\<lparr>cap_deduped_bytes := cap_deduped_bytes c + n\<rparr>) (reg_capsules rg)\<rparr>
      | None \<Rightarrow> rg)"

definition list_capsules :: "registry \<Rightarrow> capsule_id list" where
  "list_capsules rg = hm_keys (reg_capsules rg)"

definition reg_delete_capsule :: "capsule_id \<Rightarrow> capsule reg_op" where
  "reg_delete_capsule cid rg =
     (case hm_get (reg_capsules rg) cid of
        None \<Rightarrow> (Err CapsuleNotFound, rg)
      | Some c \<Rightarrow>
          bind_op reg_save (\<lambda>_. return_op c) (rg\<lparr>reg_capsules := hm_remove cid (reg_capsules rg)\<rparr>))"

definition get_dedup_stats :: "registry \<Rightarrow> nat \<times> nat" where
  "get_dedup_stats rg =
     (sum_list (map (length \<circ> cap_segments) (hm_values (reg_capsules rg))), length (reg_content_store rg))"

section \<open>The catalog trait\<close>

record 's catalog_ops =
  cat_allocate_segment :: "('s, segment_id, error) op"
  cat_lookup_capsule :: "capsule_id \<Rightarrow> 's \<Rightarrow> (capsule, error) result"
  cat_create_capsule ::
    "u64 option \<Rightarrow> capsule_id \<Rightarrow> u64 \<Rightarrow> policy \<Rightarrow> segment_id list \<Rightarrow> dedup_stats \<Rightarrow> ('s, unit, error) op"
  cat_delete_capsule :: "capsule_id \<Rightarrow> ('s, capsule, error) op"
  cat_lookup_content :: "content_hash \<Rightarrow> 's \<Rightarrow> segment_id option"
  cat_register_content :: "content_hash \<Rightarrow> segment_id \<Rightarrow> ('s, unit, error) op"
  cat_deregister_content :: "content_hash \<Rightarrow> segment_id \<Rightarrow> ('s, bool, error) op"
  cat_capsules :: "'s \<Rightarrow> capsule list"
  cat_content_entries :: "'s \<Rightarrow> (content_hash \<times> segment_id) list"

text \<open>\<open>impl CapsuleCatalog for CapsuleRegistry\<close>: creating goes through the registry's own creation, then stores the policy and the bytes saved and saves again.\<close>

definition registry_create_capsule ::
  "u64 option \<Rightarrow> capsule_id \<Rightarrow> u64 \<Rightarrow> policy \<Rightarrow> segment_id list \<Rightarrow> dedup_stats \<Rightarrow> unit reg_op" where
  "registry_create_capsule now cid sz pol segs stats =
     bind_op (create_capsule_with_segments now cid sz segs pol) (\<lambda>_ rg.
       reg_save (case hm_get (reg_capsules rg) cid of
          Some c \<Rightarrow> rg\<lparr>reg_capsules := hm_insert cid
            (c\<lparr>cap_policy := pol, cap_deduped_bytes := bytes_saved stats\<rparr>) (reg_capsules rg)\<rparr>
        | None \<Rightarrow> rg))"

definition registry_catalog :: "registry catalog_ops" where
  "registry_catalog =
     \<lparr>cat_allocate_segment = (\<lambda>rg. case alloc_segment rg of (sid, rg) \<Rightarrow> (Ok sid, rg)),
      cat_lookup_capsule = reg_lookup, cat_create_capsule = registry_create_capsule,
      cat_delete_capsule = reg_delete_capsule, cat_lookup_content = reg_lookup_content,
      cat_register_content = reg_register_content, cat_deregister_content = reg_deregister_content,
      cat_capsules = (\<lambda>rg. hm_values (reg_capsules rg)), cat_content_entries = reg_content_store\<rparr>"

section \<open>What the catalog promises\<close>

text \<open>
  The laws speak of the two maps a catalog presents: capsules by identifier and segments by
  content hash. On success an operation changes exactly its own entry; on an error it may have
  changed it or not (a failing save comes after the change), but never another entry.
\<close>

locale capsule_catalog =
  fixes ops :: "'s catalog_ops" and caps :: "'s \<Rightarrow> (capsule_id, capsule) hmap"
    and content :: "'s \<Rightarrow> (content_hash, segment_id) hmap" and next_id :: "'s \<Rightarrow> u64"
  assumes allocate: "cat_allocate_segment ops s = (r, s') \<Longrightarrow>
      r = Ok (SegmentId (next_id s)) \<and> next_id s' = next_id s + 1 \<and> caps s' = caps s \<and> content s' = content s"
    and lookup: "cat_lookup_capsule ops cid s = ok_or (hm_get (caps s) cid) CapsuleNotFound"
    and create: "cat_create_capsule ops now cid sz pol segs st s = (rc, s') \<Longrightarrow>
      next_id s' = next_id s \<and> content s' = content s \<and>
      (caps s' = caps s \<and> rc \<noteq> Ok () \<or>
       (\<exists>t d. caps s' = hm_insert cid \<lparr>cap_id = cid, cap_size = sz, cap_segments = segs, cap_created_at = t,
          cap_policy = pol, cap_deduped_bytes = d\<rparr> (caps s) \<and> now = Some t \<and> (rc = Ok () \<longrightarrow> d = bytes_saved st)))"
    and delete: "cat_delete_capsule ops cid s = (rd, s') \<Longrightarrow>
      next_id s' = next_id s \<and> content s' = content s \<and>
      caps s' = hm_remove cid (caps s) \<and> (\<forall>c. rd = Ok c \<longrightarrow> hm_get (caps s) cid = Some c)"
    and lookup_content: "cat_lookup_content ops h s = hm_get (content s) h"
    and register: "cat_register_content ops h sid s = (rr, s') \<Longrightarrow>
      next_id s' = next_id s \<and> caps s' = caps s \<and> content s' = hm_insert h sid (content s)"
    and deregister: "cat_deregister_content ops h sid s = (rb, s') \<Longrightarrow>
      next_id s' = next_id s \<and> caps s' = caps s \<and>
      content s' = (if hm_get (content s) h = Some sid then hm_remove h (content s) else content s) \<and>
      (\<forall>b. rb = Ok b \<longrightarrow> b = (hm_get (content s) h = Some sid))"
    and capsules: "cat_capsules ops s = hm_values (caps s)"
    and content_entries: "cat_content_entries ops s = content s"
begin

lemma create_Ok:
  assumes "cat_create_capsule ops now cid sz pol segs st s = (Ok (), s')"
  shows "\<exists>t. cat_lookup_capsule ops cid s' = Ok \<lparr>cap_id = cid, cap_size = sz, cap_segments = segs,
      cap_created_at = t, cap_policy = pol, cap_deduped_bytes = bytes_saved st\<rparr>"
    and "k \<noteq> cid \<Longrightarrow> cat_lookup_capsule ops k s' = cat_lookup_capsule ops k s"
  using create [OF assms] by (auto simp: lookup)

lemma delete_lookup:
  assumes "cat_delete_capsule ops cid s = (r, s')"
  shows "cat_lookup_capsule ops cid s' = Err CapsuleNotFound"
    and "k \<noteq> cid \<Longrightarrow> cat_lookup_capsule ops k s' = cat_lookup_capsule ops k s"
  using delete [OF assms] by (auto simp: lookup)

text \<open>Two allocations in a row give different identifiers.\<close>

lemma allocate_twice:
  assumes "cat_allocate_segment ops s = (Ok a, s')" "cat_allocate_segment ops s' = (Ok b, s'')"
  shows "a \<noteq> b"
  using allocate [OF assms(1)] allocate [OF assms(2)] by simp

lemma register_lookup:
  assumes "cat_register_content ops h sid s = (r, s')"
  shows "cat_lookup_content ops h' s' = (if h' = h then Some sid else cat_lookup_content ops h' s)"
  using register [OF assms] by (auto simp: lookup_content)

lemma deregister_lookup:
  assumes "cat_deregister_content ops h sid s = (r, s')"
  shows "cat_lookup_content ops h s' \<noteq> Some sid"
    and "h' \<noteq> h \<Longrightarrow> cat_lookup_content ops h' s' = cat_lookup_content ops h' s"
  using deregister [OF assms] by (auto simp: lookup_content)

end

section \<open>The registry keeps the promise\<close>

lemma reg_save_effect:
  assumes "reg_save rg = (r, rg')"
  shows "reg_capsules rg' = reg_capsules rg" "reg_next_segment_id rg' = reg_next_segment_id rg"
    and "reg_content_store rg' = reg_content_store rg" "r = Ok () \<or> r = Err IoError"
    and "r = Ok () \<Longrightarrow> reg_saved rg' = Stored (reg_snapshot rg)"
    and "reg_io rg = [] \<Longrightarrow> r = Ok () \<and> reg_io rg' = []"
  using assms by (auto simp: reg_save_def split: prod.splits if_splits)

lemma create_effect:
  assumes "create_capsule_with_segments now cid sz segs pol rg = (r, rg')"
  shows "reg_next_segment_id rg' = reg_next_segment_id rg" "reg_content_store rg' = reg_content_store rg"
    and "hm_get (reg_capsules rg) cid \<noteq> None \<Longrightarrow> r = Err CapsuleCollision \<and> rg' = rg"
    and "hm_get (reg_capsules rg) cid = None \<Longrightarrow> now = None \<Longrightarrow> r = Err ClockError \<and> rg' = rg"
    and "hm_get (reg_capsules rg) cid = None \<Longrightarrow> now = Some t \<Longrightarrow>
      reg_capsules rg' = hm_insert cid \<lparr>cap_id = cid, cap_size = sz, cap_segments = segs, cap_created_at = t,
        cap_policy = pol, cap_deduped_bytes = 0\<rparr> (reg_capsules rg) \<and> (r = Ok () \<or> r = Err IoError) \<and>
      (r = Ok () \<longrightarrow> reg_saved rg' = Stored (reg_snapshot rg')) \<and> (reg_io rg = [] \<longrightarrow> r = Ok () \<and> reg_io rg' = [])"
  using assms
  by (auto simp: create_capsule_with_segments_def reg_save_def reg_snapshot_def
      split: option.splits if_splits prod.splits)

lemma registry_create_effect:
  assumes "registry_create_capsule now cid sz pol segs st rg = (r, rg')"
  shows "reg_next_segment_id rg' = reg_next_segment_id rg \<and> reg_content_store rg' = reg_content_store rg \<and>
    (reg_capsules rg' = reg_capsules rg \<and> r \<noteq> Ok () \<or>
     (\<exists>t d. reg_capsules rg' = hm_insert cid \<lparr>cap_id = cid, cap_size = sz, cap_segments = segs,
        cap_created_at = t, cap_policy = pol, cap_deduped_bytes = d\<rparr> (reg_capsules rg) \<and> now = Some t \<and>
        (r = Ok () \<longrightarrow> d = bytes_saved st)))"
proof -
  obtain r1 g1 where c: "create_capsule_with_segments now cid sz segs pol rg = (r1, g1)" by fastforce
  note C = create_effect [OF c]
  show ?thesis
  proof (cases "r1 = Ok ()")
    case False
    then have "r = r1" "rg' = g1"
      using assms c by (cases r1; auto simp: registry_create_capsule_def bind_op_def)+
    then show ?thesis using C False
      by (cases now; cases "hm_get (reg_capsules rg) cid") auto
  next
    case True
    then obtain t where t: "now = Some t" "hm_get (reg_capsules rg) cid = None"
      using C by (cases now; cases "hm_get (reg_capsules rg) cid") auto
    note caps = C(5) [OF t(2,1)]
    let ?g = "g1\<lparr>reg_capsules := hm_insert cid \<lparr>cap_id = cid, cap_size = sz, cap_segments = segs,
        cap_created_at = t, cap_policy = pol, cap_deduped_bytes = bytes_saved st\<rparr> (reg_capsules g1)\<rparr>"
    have "reg_save ?g = (r, rg')"
      using assms c True caps by (simp add: registry_create_capsule_def bind_op_def)
    note S = reg_save_effect [OF this]
    have "reg_capsules rg' = hm_insert cid \<lparr>cap_id = cid, cap_size = sz, cap_segments = segs,
        cap_created_at = t, cap_policy = pol, cap_deduped_bytes = bytes_saved st\<rparr> (reg_capsules rg)"
      using S(1) caps by simp
    then show ?thesis using S C(1,2) t by auto
  qed
qed

lemma reg_delete_effect:
  assumes "reg_delete_capsule cid rg = (r, rg')"
  shows "reg_next_segment_id rg' = reg_next_segment_id rg" "reg_content_store rg' = reg_content_store rg"
    and "reg_capsules rg' = hm_remove cid (reg_capsules rg)" "r = Ok c \<Longrightarrow> hm_get (reg_capsules rg) cid = Some c"
    and "reg_io rg = [] \<Longrightarrow> hm_get (reg_capsules rg) cid = Some c \<Longrightarrow> r = Ok c \<and> reg_io rg' = []"
  using assms
  by (auto simp: reg_delete_capsule_def op_simps reg_save_def delete_idem map_of_eq_None_iff
      split: option.splits prod.splits if_splits result.splits)

lemma reg_deregister_effect:
  assumes "reg_deregister_content h sid rg = (r, rg')"
  shows "reg_next_segment_id rg' = reg_next_segment_id rg" "reg_capsules rg' = reg_capsules rg"
    and "reg_content_store rg' = (if hm_get (reg_content_store rg) h = Some sid
           then hm_remove h (reg_content_store rg) else reg_content_store rg)"
    and "r = Ok b \<Longrightarrow> b = (hm_get (reg_content_store rg) h = Some sid)"
    and "reg_io rg = [] \<Longrightarrow> is_ok r \<and> reg_io rg' = []"
  using assms
  by (auto simp: reg_deregister_content_def op_simps reg_save_def
      split: option.splits prod.splits if_splits result.splits)

lemma reg_register_effect:
  assumes "reg_register_content h sid rg = (r, rg')"
  shows "reg_next_segment_id rg' = reg_next_segment_id rg" "reg_capsules rg' = reg_capsules rg"
    and "reg_content_store rg' = hm_insert h sid (reg_content_store rg)"
    and "reg_io rg = [] \<Longrightarrow> r = Ok () \<and> reg_io rg' = []"
  using assms by (auto simp: reg_register_content_def reg_save_def split: prod.splits if_splits)

interpretation reg: capsule_catalog registry_catalog reg_capsules reg_content_store reg_next_segment_id
proof
  fix now cid sz pol segs st and s s' :: registry and r
  assume "cat_create_capsule registry_catalog now cid sz pol segs st s = (r, s')"
  then show "reg_next_segment_id s' = reg_next_segment_id s \<and> reg_content_store s' = reg_content_store s \<and>
      (reg_capsules s' = reg_capsules s \<and> r \<noteq> Ok () \<or>
       (\<exists>t d. reg_capsules s' = hm_insert cid \<lparr>cap_id = cid, cap_size = sz, cap_segments = segs, cap_created_at = t,
          cap_policy = pol, cap_deduped_bytes = d\<rparr> (reg_capsules s) \<and> now = Some t \<and> (r = Ok () \<longrightarrow> d = bytes_saved st)))"
    by (intro registry_create_effect) (simp add: registry_catalog_def)
qed (auto simp: registry_catalog_def alloc_segment_def reg_lookup_def reg_lookup_content_def
    dest: reg_delete_effect reg_register_effect reg_deregister_effect)

end
