(* ===== verification/Store.thy ===== *)
theory Store
  imports Registry Nvram_Log Encryption
begin

text \<open>
  The state that the write pipeline and the garbage collector share: the registry and the log.
  This theory holds the invariant that ties them together (reference counts, content store,
  segment identifiers, decryptability) and one lemma per elementary change, from which the
  invariants of the collector and of the pipelines are put together.
\<close>

section \<open>State\<close>

record store =
  st_registry :: registry
  st_nvram :: nvram_log

type_synonym 'a store_op = "(store, 'a, error) op"

definition on_registry :: "'a reg_op \<Rightarrow> 'a store_op" where
  "on_registry m = zoom st_registry (\<lambda>rg st. st\<lparr>st_registry := rg\<rparr>) m"

definition on_nvram :: "'a log_op \<Rightarrow> 'a store_op" where
  "on_nvram m = zoom st_nvram (\<lambda>lg st. st\<lparr>st_nvram := lg\<rparr>) m"

lemma on_registry_eq:
  "on_registry m st = (r, st') \<longleftrightarrow> (\<exists>rg. m (st_registry st) = (r, rg) \<and> st' = st\<lparr>st_registry := rg\<rparr>)"
  by (auto simp: on_registry_def zoom_def split: prod.splits)

lemma on_nvram_eq:
  "on_nvram m st = (r, st') \<longleftrightarrow> (\<exists>lg. m (st_nvram st) = (r, lg) \<and> st' = st\<lparr>st_nvram := lg\<rparr>)"
  by (auto simp: on_nvram_def zoom_def split: prod.splits)

text \<open>\<open>hash_content\<close> of \<open>crates/dedup/src/lib.rs\<close>.\<close>

definition hash_content :: "ext \<Rightarrow> bytes \<Rightarrow> content_hash" where
  "hash_content E data = content_hash_from_bytes E (ext_blake3 E data)"

section \<open>References\<close>

text \<open>All references of the capsules, and the number of them to one segment, together with \<open>extra\<close> references an operation in progress holds.\<close>

definition capsule_refs :: "(capsule_id, capsule) hmap \<Rightarrow> segment_id list" where
  "capsule_refs caps = concat (map cap_segments (hm_values caps))"

definition refs :: "(capsule_id, capsule) hmap \<Rightarrow> segment_id list \<Rightarrow> segment_id \<Rightarrow> nat" where
  "refs caps extra sid = count_list (capsule_refs caps) sid + count_list extra sid"

definition rc_of :: "nvram_log \<Rightarrow> segment_id \<Rightarrow> nat" where
  "rc_of lg sid = (case hm_get (nv_segment_map lg) sid of None \<Rightarrow> 0 | Some seg \<Rightarrow> unat (seg_ref_count seg))"

lemma rc_of_pos: "0 < rc_of lg sid \<Longrightarrow> \<exists>seg. hm_get (nv_segment_map lg) sid = Some seg"
  by (auto simp: rc_of_def split: option.splits)

lemma insert_absent: "hm_get m k = None \<Longrightarrow> hm_insert k v m = m @ [(k, v)]"
  by (induction m) (auto split: if_splits)

lemma capsule_refs_insert:
  "hm_get caps cid = None \<Longrightarrow> capsule_refs (hm_insert cid c caps) = capsule_refs caps @ cap_segments c"
  by (simp add: capsule_refs_def insert_absent)

lemma remove_absent: "hm_get m k = None \<Longrightarrow> hm_remove k m = m"
  by (simp add: delete_idem map_of_eq_None_iff)

lemma capsule_refs_remove:
  "hm_ok caps \<Longrightarrow> hm_get caps cid = Some c \<Longrightarrow>
   count_list (capsule_refs caps) sid = count_list (capsule_refs (hm_remove cid caps)) sid + count_list (cap_segments c) sid"
proof (induction caps)
  case (Cons kc caps)
  obtain k x where kc: "kc = (k, x)" by (cases kc)
  show ?case
  proof (cases "k = cid")
    case True
    then have "hm_get caps cid = None" using Cons.prems(1) by (simp add: kc hm_ok_def map_of_eq_None_iff)
    then show ?thesis using True Cons.prems(2) by (simp add: kc capsule_refs_def remove_absent)
  next
    case False
    then show ?thesis using Cons by (simp add: kc capsule_refs_def hm_ok_def)
  qed
qed simp

lemma capsule_refs_same_segments:
  assumes "hm_ok caps" "hm_get caps cid = Some c" "cap_segments c' = cap_segments c"
  shows "count_list (capsule_refs (hm_insert cid c' caps)) sid = count_list (capsule_refs caps) sid"
  using assms
proof (induction caps)
  case (Cons kc caps)
  then show ?case by (cases kc) (auto simp: capsule_refs_def hm_ok_def)
qed simp

lemma count_list_mem: "0 < count_list xs x \<longleftrightarrow> x \<in> set xs"
  by (induction xs) auto

lemma capsule_refs_mem:
  assumes "hm_ok caps" "hm_get caps cid = Some c" "sid \<in> set (cap_segments c)"
  shows "0 < refs caps extra sid"
proof -
  have "c \<in> set (hm_values caps)" using assms(1,2) by (force simp: hm_get_iff)
  then have "sid \<in> set (capsule_refs caps)" using assms(3) by (auto simp: capsule_refs_def)
  then show ?thesis by (simp add: refs_def count_list_mem [symmetric])
qed

lemma length_capsule_refs_insert:
  "hm_get caps cid = None \<Longrightarrow>
   length (capsule_refs (hm_insert cid c caps)) = length (capsule_refs caps) + length (cap_segments c)"
  by (simp add: capsule_refs_insert)

lemma refs_le_length: "refs caps extra sid \<le> length (capsule_refs caps) + length extra"
  unfolding refs_def by (intro add_mono) (metis count_le_length)+

section \<open>Plaintexts\<close>

text \<open>The keys a pipeline can use: none, or the derivation of its key manager.\<close>

type_synonym keys = "(u32 \<Rightarrow> (xts_key_pair, encryption_error) result) option"

definition segment_enc_meta :: "segment \<Rightarrow> nat \<Rightarrow> encryption_metadata" where
  "segment_enc_meta seg n =
     \<lparr>em_encryption_version = seg_encryption_version seg, em_key_version = seg_key_version seg,
      em_tweak_nonce = seg_tweak_nonce seg, em_integrity_tag = seg_integrity_tag seg,
      em_ciphertext_len = Some (of_nat n)\<rparr>"

text \<open>The decryption of a stored segment, as a function of its metadata, its bytes and the keys.\<close>

definition seg_decrypt :: "ext \<Rightarrow> keys \<Rightarrow> segment \<Rightarrow> bytes \<Rightarrow> (bytes, error) result" where
  "seg_decrypt E kf seg raw =
     (if seg_encrypted seg then
        bind_result (ok_or kf KeyManagerMissing) (\<lambda>f.
        bind_result (ok_or (seg_key_version seg) MissingKeyVersion) (\<lambda>v.
        bind_result (map_result_err EncryptionFailed (f v)) (\<lambda>kp.
        bind_result (map_result_err EncryptionFailed
            (verify_mac E raw (segment_enc_meta seg (length raw)) (key1 kp) (key2 kp))) (\<lambda>_.
          map_result_err EncryptionFailed (decrypt_segment E raw kp (segment_enc_meta seg (length raw)))))))
      else Ok raw)"

definition seg_plain :: "ext \<Rightarrow> keys \<Rightarrow> nvram_log \<Rightarrow> segment_id \<Rightarrow> (bytes, error) result" where
  "seg_plain E kf lg sid =
     bind_result (nv_read sid lg) (\<lambda>raw.
     bind_result (nv_get_segment_metadata sid lg) (\<lambda>seg. seg_decrypt E kf seg raw))"

text \<open>Metadata changes that touch only the counters.\<close>

definition same_content :: "segment \<Rightarrow> segment \<Rightarrow> bool" where
  "same_content seg seg' \<longleftrightarrow>
     seg' = seg\<lparr>seg_ref_count := seg_ref_count seg', seg_deduplicated := seg_deduplicated seg',
                seg_access_count := seg_access_count seg'\<rparr>"

lemma same_content_simps:
  assumes "same_content seg seg'"
  shows "seg_id seg' = seg_id seg" "seg_content_hash seg' = seg_content_hash seg" "same_place seg seg'"
    and "seg_decrypt E kf seg' raw = seg_decrypt E kf seg raw" "seg_compressed seg' = seg_compressed seg"
  using assms unfolding same_content_def same_place_def seg_decrypt_def segment_enc_meta_def
  by (cases seg; cases seg'; simp)+

lemma seg_plain_cong:
  assumes "nv_read sid lg' = nv_read sid lg"
    and "hm_get (nv_segment_map lg') sid = hm_get (nv_segment_map lg) sid"
  shows "seg_plain E kf lg' sid = seg_plain E kf lg sid"
  using assms by (simp add: seg_plain_def nv_get_segment_metadata_def)

section \<open>The invariant\<close>

definition caps_ok :: "(capsule_id, capsule) hmap \<Rightarrow> bool" where
  "caps_ok caps \<longleftrightarrow> hm_ok caps \<and> (\<forall>cid c. hm_get caps cid = Some c \<longrightarrow> cap_id c = cid)"

definition ids_below :: "u64 \<Rightarrow> nvram_log \<Rightarrow> bool" where
  "ids_below n lg \<longleftrightarrow> (\<forall>sid seg. hm_get (nv_segment_map lg) sid = Some seg \<longrightarrow> unat (seg_num sid) < unat n)"

text \<open>An entry of the content store names a segment that carries the hash and whose plaintext has it.\<close>

definition content_ok :: "ext \<Rightarrow> keys \<Rightarrow> (content_hash, segment_id) hmap \<Rightarrow> nvram_log \<Rightarrow> bool" where
  "content_ok E kf content lg \<longleftrightarrow> hm_ok content \<and>
     (\<forall>h sid. hm_get content h = Some sid \<longrightarrow>
        (\<exists>seg d. hm_get (nv_segment_map lg) sid = Some seg \<and> seg_content_hash seg = Some h \<and>
           seg_plain E kf lg sid = Ok d \<and> hash_content E d = h))"

text \<open>Every reference is covered by the reference count of a present segment.\<close>

definition store_inv :: "ext \<Rightarrow> keys \<Rightarrow> segment_id list \<Rightarrow> store \<Rightarrow> bool" where
  "store_inv E kf extra st \<longleftrightarrow>
     log_ok (st_nvram st) \<and> caps_ok (reg_capsules (st_registry st)) \<and>
     ids_below (reg_next_segment_id (st_registry st)) (st_nvram st) \<and>
     content_ok E kf (reg_content_store (st_registry st)) (st_nvram st) \<and>
     (\<forall>sid. refs (reg_capsules (st_registry st)) extra sid \<le> rc_of (st_nvram st) sid)"

lemma store_invD:
  assumes "store_inv E kf extra st"
  shows "log_ok (st_nvram st)" "caps_ok (reg_capsules (st_registry st))"
    and "ids_below (reg_next_segment_id (st_registry st)) (st_nvram st)"
    and "content_ok E kf (reg_content_store (st_registry st)) (st_nvram st)"
    and "refs (reg_capsules (st_registry st)) extra sid \<le> rc_of (st_nvram st) sid"
  using assms by (auto simp: store_inv_def)

lemma content_okD:
  assumes "content_ok E kf content lg" "hm_get content h = Some sid"
  obtains seg d where "hm_get (nv_segment_map lg) sid = Some seg" "seg_content_hash seg = Some h"
    "seg_plain E kf lg sid = Ok d" "hash_content E d = h"
  using assms unfolding content_ok_def by blast

lemma store_inv_less_extra:
  assumes "store_inv E kf extra st" "\<And>sid. count_list extra' sid \<le> count_list extra sid"
  shows "store_inv E kf extra' st"
  using assms unfolding store_inv_def refs_def by (meson add_left_mono order_trans)

text \<open>The counts are exact: what a fault-free history keeps.\<close>

definition refs_exact :: "segment_id list \<Rightarrow> store \<Rightarrow> bool" where
  "refs_exact extra st \<longleftrightarrow> (\<forall>sid. refs (reg_capsules (st_registry st)) extra sid = rc_of (st_nvram st) sid)"

text \<open>The referenced segments read the same before and after.\<close>

definition plain_kept :: "ext \<Rightarrow> keys \<Rightarrow> segment_id list \<Rightarrow> store \<Rightarrow> store \<Rightarrow> bool" where
  "plain_kept E kf extra st st' \<longleftrightarrow>
     (\<forall>sid. 0 < refs (reg_capsules (st_registry st')) extra sid \<longrightarrow>
        seg_plain E kf (st_nvram st') sid = seg_plain E kf (st_nvram st) sid)"

section \<open>Elementary changes\<close>

text \<open>Counter changes keep everything but the count.\<close>

lemma counter_step:
  assumes p: "put_step sid seg' lg lg'" and ok: "log_ok lg"
    and g: "hm_get (nv_segment_map lg) sid = Some seg" and same: "same_content seg seg'"
  shows "log_ok lg'" "seg_plain E kf lg' = seg_plain E kf lg"
    and "rc_of lg' = (rc_of lg)(sid := unat (seg_ref_count seg'))"
    and "ids_below n lg' = ids_below n lg" "content_ok E kf content lg \<Longrightarrow> content_ok E kf content lg'"
proof -
  note S = same_content_simps [OF same]
  note P = put_step_effect [OF p ok g S(3)]
  have map': "hm_get (nv_segment_map lg') k = (if k = sid then Some seg' else hm_get (nv_segment_map lg) k)" for k
    using p by (simp add: put_step_def)
  show l: "log_ok lg'" by (rule P(1))
  have rd: "nv_read k lg' = nv_read k lg" for k
    using P(2) ok l by (intro nv_read_cong) simp_all
  show pl: "seg_plain E kf lg' = seg_plain E kf lg"
  proof
    fix k show "seg_plain E kf lg' k = seg_plain E kf lg k"
      using rd g S(4) by (simp add: seg_plain_def nv_get_segment_metadata_def map')
  qed
  show "rc_of lg' = (rc_of lg)(sid := unat (seg_ref_count seg'))"
    by (auto simp: rc_of_def map' split: option.splits)
  show "ids_below n lg' = ids_below n lg" using g by (auto simp: ids_below_def map')
  show "content_ok E kf content lg \<Longrightarrow> content_ok E kf content lg'"
    using g S(2) unfolding content_ok_def pl map' by (metis option.inject)
qed

lemma decrement_step:
  assumes inv: "store_inv E kf (sid # extra) st" and run: "on_nvram (nv_decrement_refcount sid) st = (r, st')"
  shows "store_inv E kf extra st'" "st_registry st' = st_registry st"
    and "seg_plain E kf (st_nvram st') = seg_plain E kf (st_nvram st)"
    and "rc_of (st_nvram st') = (rc_of (st_nvram st))(sid := rc_of (st_nvram st) sid - 1)"
    and "r = Err IoError \<or> (\<exists>seg'. r = Ok seg' \<and> hm_get (nv_segment_map (st_nvram st')) sid = Some seg')"
    and "nv_io (st_nvram st) = [] \<Longrightarrow> is_ok r \<and> nv_io (st_nvram st') = []"
proof -
  obtain lg' where n: "nv_decrement_refcount sid (st_nvram st) = (r, lg')" "st' = st\<lparr>st_nvram := lg'\<rparr>"
    using run by (auto simp: on_nvram_eq)
  have pos: "0 < rc_of (st_nvram st) sid"
    using store_invD(5) [OF inv, of sid] by (simp add: refs_def)
  then obtain seg where g: "hm_get (nv_segment_map (st_nvram st)) sid = Some seg" using rc_of_pos by blast
  then have nz: "seg_ref_count seg \<noteq> 0" using pos by (auto simp: rc_of_def)
  obtain seg' where seg': "put_step sid seg' (st_nvram st) lg'" "r = Ok seg' \<or> r = Err IoError"
    "seg' = seg\<lparr>seg_ref_count := seg_ref_count seg - 1, seg_deduplicated := seg_ref_count seg - 1 > 1\<rparr>"
    "nv_io (st_nvram st) = [] \<longrightarrow> r = Ok seg' \<and> nv_io lg' = []"
    using nv_decrement_cases(3) [OF n(1) g nz] by blast
  have same: "same_content seg seg'" by (simp add: same_content_def seg'(3))
  note C = counter_step [OF seg'(1) store_invD(1) [OF inv] g same]
  have rc: "unat (seg_ref_count seg') = rc_of (st_nvram st) sid - 1"
    using nz by (simp add: seg'(3) rc_of_def g unat_minus_one)
  show "st_registry st' = st_registry st" by (simp add: n)
  show "seg_plain E kf (st_nvram st') = seg_plain E kf (st_nvram st)" by (simp add: n C)
  show rc': "rc_of (st_nvram st') = (rc_of (st_nvram st))(sid := rc_of (st_nvram st) sid - 1)"
    by (simp add: n C(3) rc)
  have "refs (reg_capsules (st_registry st)) extra k \<le> rc_of lg' k" for k
    using store_invD(5) [OF inv, of k] pos by (auto simp: C(3) rc refs_def)
  then show "store_inv E kf extra st'"
    using store_invD [OF inv] C by (simp add: store_inv_def n)
  show "r = Err IoError \<or> (\<exists>seg'. r = Ok seg' \<and> hm_get (nv_segment_map (st_nvram st')) sid = Some seg')"
    using seg'(1,2) by (auto simp: n put_step_def)
  show "nv_io (st_nvram st) = [] \<Longrightarrow> is_ok r \<and> nv_io (st_nvram st') = []" using seg'(4) by (auto simp: n)
qed

text \<open>Incrementing covers one more reference, as long as the references fit in 32 bits.\<close>

lemma increment_step:
  assumes inv: "store_inv E kf extra st" and run: "on_nvram (nv_increment_refcount sid) st = (r, st')"
    and pres: "hm_get (nv_segment_map (st_nvram st)) sid = Some seg"
    and bound: "refs (reg_capsules (st_registry st)) extra sid + 1 < 2 ^ 32"
  shows "store_inv E kf (sid # extra) st'" "st_registry st' = st_registry st"
    and "seg_plain E kf (st_nvram st') = seg_plain E kf (st_nvram st)"
    and "rc_of (st_nvram st) sid + 1 < 2 ^ 32 \<Longrightarrow>
      rc_of (st_nvram st') = (rc_of (st_nvram st))(sid := rc_of (st_nvram st) sid + 1)"
    and "r = Err IoError \<or> (\<exists>seg'. r = Ok seg' \<and> same_content seg seg')"
    and "nv_next_offset (st_nvram st') = nv_next_offset (st_nvram st)"
    and "nv_io (st_nvram st) = [] \<Longrightarrow> is_ok r \<and> nv_io (st_nvram st') = []"
proof -
  obtain lg' where n: "nv_increment_refcount sid (st_nvram st) = (r, lg')" "st' = st\<lparr>st_nvram := lg'\<rparr>"
    using run by (auto simp: on_nvram_eq)
  obtain seg' where seg': "put_step sid seg' (st_nvram st) lg'" "r = Ok seg' \<or> r = Err IoError"
    "seg' = seg\<lparr>seg_ref_count := saturating_inc (seg_ref_count seg),
                seg_deduplicated := saturating_inc (seg_ref_count seg) > 1,
                seg_access_count := saturating_inc (seg_access_count seg)\<rparr>"
    "nv_io (st_nvram st) = [] \<longrightarrow> r = Ok seg' \<and> nv_io lg' = []"
    using nv_increment_cases(2) [OF n(1) pres] by blast
  have same: "same_content seg seg'" by (simp add: same_content_def seg'(3))
  note C = counter_step [OF seg'(1) store_invD(1) [OF inv] pres same]
  have rc: "rc_of (st_nvram st) sid = unat (seg_ref_count seg)" by (simp add: rc_of_def pres)
  have inc: "unat (saturating_inc (seg_ref_count seg)) = min (unat (seg_ref_count seg) + 1) (2 ^ 32 - 1)"
  proof (cases "Suc (unat (seg_ref_count seg)) < 2 ^ 32")
    case True
    then show ?thesis using unat_saturating_inc [of "seg_ref_count seg"] by simp
  next
    case False
    moreover have "unat (seg_ref_count seg) < 2 ^ 32" using unsigned_less [of "seg_ref_count seg", where 'a = nat] by simp
    ultimately have "2 ^ 32 - 1 \<le> unat (seg_ref_count seg)" by simp
    moreover have "unat (saturating_inc (seg_ref_count seg)) < 2 ^ 32"
      using unsigned_less [of "saturating_inc (seg_ref_count seg)", where 'a = nat] by simp
    ultimately show ?thesis using saturating_inc_ge [of "seg_ref_count seg"] by simp
  qed
  show "st_registry st' = st_registry st" by (simp add: n)
  show "seg_plain E kf (st_nvram st') = seg_plain E kf (st_nvram st)" by (simp add: n C)
  show "rc_of (st_nvram st') = (rc_of (st_nvram st))(sid := rc_of (st_nvram st) sid + 1)"
    if "rc_of (st_nvram st) sid + 1 < 2 ^ 32"
    using that by (simp add: n C(3) seg'(3) inc rc)
  have "refs (reg_capsules (st_registry st)) (sid # extra) k \<le> rc_of lg' k" for k
    using store_invD(5) [OF inv, of k] bound by (auto simp: C(3) seg'(3) inc rc refs_def)
  then show "store_inv E kf (sid # extra) st'"
    using store_invD [OF inv] C by (simp add: store_inv_def n)
  show "r = Err IoError \<or> (\<exists>seg'. r = Ok seg' \<and> same_content seg seg')"
    using seg'(2) same by auto
  show "nv_next_offset (st_nvram st') = nv_next_offset (st_nvram st)"
    using seg'(1) by (simp add: n put_step_def)
  show "nv_io (st_nvram st) = [] \<Longrightarrow> is_ok r \<and> nv_io (st_nvram st') = []" using seg'(4) by (auto simp: n)
qed

lemma deregister_step:
  assumes inv: "store_inv E kf extra st" and run: "on_registry (reg_deregister_content h sid) st = (r, st')"
  shows "store_inv E kf extra st'" "st_nvram st' = st_nvram st"
    and "reg_capsules (st_registry st') = reg_capsules (st_registry st)"
    and "reg_next_segment_id (st_registry st') = reg_next_segment_id (st_registry st)"
    and "hm_get (reg_content_store (st_registry st')) h \<noteq> Some sid"
    and "hm_get (reg_content_store (st_registry st')) h' = Some k \<Longrightarrow> hm_get (reg_content_store (st_registry st)) h' = Some k"
    and "reg_io (st_registry st) = [] \<Longrightarrow> is_ok r \<and> reg_io (st_registry st') = []"
proof -
  obtain rg' where n: "reg_deregister_content h sid (st_registry st) = (r, rg')" "st' = st\<lparr>st_registry := rg'\<rparr>"
    using run by (auto simp: on_registry_eq)
  note D = reg_deregister_effect [OF n(1)]
  show "store_inv E kf extra st'"
    using store_invD [OF inv] D(1-3) by (auto simp: store_inv_def n content_ok_def split: if_splits)
qed (use run in \<open>auto simp: on_registry_eq dest: reg_deregister_effect split: if_splits\<close>)

lemma nv_read_removed:
  assumes "nv_remove_segment sid lg = (r, lg')" "k \<noteq> sid"
  shows "nv_read k lg' = nv_read k lg"
  using nv_remove_effect [OF assms(1)] assms(2) by (simp add: nv_read_def split: option.splits)

text \<open>A segment may go when nothing refers to it, neither a capsule nor the content store.\<close>

lemma remove_step:
  assumes inv: "store_inv E kf extra st" and run: "on_nvram (nv_remove_segment sid) st = (r, st')"
    and dead: "refs (reg_capsules (st_registry st)) extra sid = 0"
    and gone: "\<And>h. hm_get (reg_content_store (st_registry st)) h \<noteq> Some sid"
  shows "store_inv E kf extra st'" "st_registry st' = st_registry st"
    and "k \<noteq> sid \<Longrightarrow> seg_plain E kf (st_nvram st') k = seg_plain E kf (st_nvram st) k"
    and "rc_of (st_nvram st') = (rc_of (st_nvram st))(sid := 0)"
    and "nv_segment_map (st_nvram st') = hm_remove sid (nv_segment_map (st_nvram st))"
    and "r = Ok (hm_get (nv_segment_map (st_nvram st)) sid) \<or> r = Err IoError"
    and "nv_io (st_nvram st) = [] \<Longrightarrow> is_ok r \<and> nv_io (st_nvram st') = []"
proof -
  obtain lg' where n: "nv_remove_segment sid (st_nvram st) = (r, lg')" "st' = st\<lparr>st_nvram := lg'\<rparr>"
    using run by (auto simp: on_nvram_eq)
  note R = nv_remove_effect [OF n(1)]
  have pl: "seg_plain E kf lg' k = seg_plain E kf (st_nvram st) k" if "k \<noteq> sid" for k
    using that R(1) nv_read_removed [OF n(1) that] by (intro seg_plain_cong) auto
  have rc: "rc_of lg' = (rc_of (st_nvram st))(sid := 0)"
    by (auto simp: rc_of_def R(1))
  have "content_ok E kf (reg_content_store (st_registry st)) lg'"
    using store_invD(4) [OF inv] gone unfolding content_ok_def by (metis R(1) hm_get_remove pl)
  moreover have "refs (reg_capsules (st_registry st)) extra k \<le> rc_of lg' k" for k
    using store_invD(5) [OF inv, of k] dead by (auto simp: rc)
  moreover have "ids_below (reg_next_segment_id (st_registry st)) lg'"
    using store_invD(3) [OF inv] by (auto simp: ids_below_def R(1) split: if_splits)
  ultimately show "store_inv E kf extra st'"
    using store_invD(1,2) [OF inv] nv_remove_ok(1) [OF n(1)] by (simp add: store_inv_def n)
  show "st_registry st' = st_registry st" "rc_of (st_nvram st') = (rc_of (st_nvram st))(sid := 0)"
    "nv_segment_map (st_nvram st') = hm_remove sid (nv_segment_map (st_nvram st))"
    "r = Ok (hm_get (nv_segment_map (st_nvram st)) sid) \<or> r = Err IoError"
    "k \<noteq> sid \<Longrightarrow> seg_plain E kf (st_nvram st') k = seg_plain E kf (st_nvram st) k"
    "nv_io (st_nvram st) = [] \<Longrightarrow> is_ok r \<and> nv_io (st_nvram st') = []"
    using R(4,5) by (auto simp: n rc R(1) pl)
qed

text \<open>A new segment: identifier, bytes, metadata, content entry.\<close>

definition next_sid :: "store \<Rightarrow> segment_id" where
  "next_sid st = SegmentId (reg_next_segment_id (st_registry st))"

definition ids_room :: "nat \<Rightarrow> store \<Rightarrow> bool" where
  "ids_room n st \<longleftrightarrow> unat (reg_next_segment_id (st_registry st)) + n < 2 ^ 64"

lemma next_sid_fresh:
  assumes "store_inv E kf extra st"
  shows "hm_get (nv_segment_map (st_nvram st)) (next_sid st) = None"
  using store_invD(3) [OF assms] by (cases "hm_get (nv_segment_map (st_nvram st)) (next_sid st)") (auto simp: ids_below_def next_sid_def)

lemma no_content_of_absent:
  assumes "store_inv E kf extra st" "hm_get (nv_segment_map (st_nvram st)) sid = None"
  shows "hm_get (reg_content_store (st_registry st)) h \<noteq> Some sid" "refs (reg_capsules (st_registry st)) extra sid = 0"
proof -
  show "hm_get (reg_content_store (st_registry st)) h \<noteq> Some sid"
    using store_invD(4) [OF assms(1)] assms(2) by (fastforce simp: content_ok_def)
  show "refs (reg_capsules (st_registry st)) extra sid = 0"
    using store_invD(5) [OF assms(1), of sid] assms(2) by (simp add: rc_of_def)
qed

lemma unat_next_id:
  "ids_room (Suc n) st \<Longrightarrow> unat (reg_next_segment_id (st_registry st) + 1) = Suc (unat (reg_next_segment_id (st_registry st)))"
  using unat_add_of_nat [of "reg_next_segment_id (st_registry st)" 1] by (simp add: ids_room_def)

lemma alloc_step:
  assumes inv: "store_inv E kf extra st" and rm: "ids_room (Suc n) st"
    and st': "st' = st\<lparr>st_registry := snd (alloc_segment (st_registry st))\<rparr>"
  shows "store_inv E kf extra st'" "ids_room n st'" "st_nvram st' = st_nvram st"
    and "unat (seg_num (next_sid st)) < unat (reg_next_segment_id (st_registry st'))"
    and "reg_capsules (st_registry st') = reg_capsules (st_registry st)"
    and "reg_content_store (st_registry st') = reg_content_store (st_registry st)"
    and "reg_io (st_registry st') = reg_io (st_registry st)"
proof -
  note U = unat_next_id [OF rm]
  have "ids_below (reg_next_segment_id (st_registry st) + 1) (st_nvram st)"
    using store_invD(3) [OF inv] U by (fastforce simp: ids_below_def)
  then show "store_inv E kf extra st'"
    using store_invD [OF inv] by (simp add: store_inv_def st' alloc_segment_def)
qed (use unat_next_id [OF rm] rm in \<open>simp_all add: st' alloc_segment_def ids_room_def next_sid_def\<close>)

lemma append_step:
  assumes inv: "store_inv E kf extra st" and run: "on_nvram (nv_append sid d) st = (r, st')"
    and fresh: "hm_get (nv_segment_map (st_nvram st)) sid = None"
    and below: "unat (seg_num sid) < unat (reg_next_segment_id (st_registry st))"
    and rm: "room (length d) (st_nvram st)" and len: "length d < 2 ^ 32"
  shows "store_inv E kf extra st'" "st_registry st' = st_registry st"
    and "k \<noteq> sid \<Longrightarrow> seg_plain E kf (st_nvram st') k = seg_plain E kf (st_nvram st) k"
    and "unat (nv_next_offset (st_nvram st')) \<le> unat (nv_next_offset (st_nvram st)) + length d"
    and "r = Ok seg \<Longrightarrow> seg = fresh_segment sid (nv_next_offset (st_nvram st)) d \<and>
      hm_get (nv_segment_map (st_nvram st')) sid = Some seg \<and> nv_read sid (st_nvram st') = Ok d \<and>
      rc_of (st_nvram st') = (rc_of (st_nvram st))(sid := 1)"
    and "nv_io (st_nvram st) = [] \<Longrightarrow> is_ok r \<and> nv_io (st_nvram st') = []"
    and "r \<noteq> Err IoError \<Longrightarrow> is_ok r"
proof -
  let ?seg = "fresh_segment sid (nv_next_offset (st_nvram st)) d"
  obtain lg' where n: "nv_append sid d (st_nvram st) = (r, lg')" "st' = st\<lparr>st_nvram := lg'\<rparr>"
    using run by (auto simp: on_nvram_eq)
  note A = nv_append_effect [OF n(1) store_invD(1) [OF inv] rm len]
  have map': "hm_get (nv_segment_map lg') k = hm_get (nv_segment_map (st_nvram st)) k" if "k \<noteq> sid" for k
    using A that by blast
  have pl: "seg_plain E kf lg' k = seg_plain E kf (st_nvram st) k" if "k \<noteq> sid" for k
    using A store_invD(1) [OF inv] that by (intro seg_plain_cong nv_read_cong) auto
  have rcs: "rc_of lg' k = rc_of (st_nvram st) k" if "k \<noteq> sid" for k
    by (simp add: rc_of_def map' [OF that])
  note N = no_content_of_absent [OF inv fresh]
  have "content_ok E kf (reg_content_store (st_registry st)) lg'"
    using store_invD(4) [OF inv] N(1) unfolding content_ok_def by (metis map' pl)
  moreover have "refs (reg_capsules (st_registry st)) extra k \<le> rc_of lg' k" for k
    using store_invD(5) [OF inv, of k] N(2) by (cases "k = sid") (simp_all add: rcs)
  moreover have "ids_below (reg_next_segment_id (st_registry st)) lg'"
    unfolding ids_below_def
  proof (intro allI impI)
    fix k x assume "hm_get (nv_segment_map lg') k = Some x"
    then show "unat (seg_num k) < unat (reg_next_segment_id (st_registry st))"
      using store_invD(3) [OF inv] below map' [of k] by (cases "k = sid") (auto simp: ids_below_def)
  qed
  ultimately show "store_inv E kf extra st'"
    using store_invD(1,2) [OF inv] A by (simp add: store_inv_def n)
  show "st_registry st' = st_registry st" "k \<noteq> sid \<Longrightarrow> seg_plain E kf (st_nvram st') k = seg_plain E kf (st_nvram st) k"
    "unat (nv_next_offset (st_nvram st')) \<le> unat (nv_next_offset (st_nvram st)) + length d"
    using A by (simp_all add: n pl)
  show "r = Ok seg \<Longrightarrow> seg = ?seg \<and>
      hm_get (nv_segment_map (st_nvram st')) sid = Some seg \<and> nv_read sid (st_nvram st') = Ok d \<and>
      rc_of (st_nvram st') = (rc_of (st_nvram st))(sid := 1)"
  proof -
    assume "r = Ok seg"
    then have s: "seg = ?seg" "hm_get (nv_segment_map lg') sid = Some ?seg" "seg_data lg' sid = Some d"
      using A by auto
    have "rc_of lg' sid = 1" by (simp add: rc_of_def s fresh_segment_def)
    then have "rc_of lg' = (rc_of (st_nvram st))(sid := 1)" using rcs by auto
    then show ?thesis using s by (simp add: n nv_read_Ok_iff)
  qed
  show "nv_io (st_nvram st) = [] \<Longrightarrow> is_ok r \<and> nv_io (st_nvram st') = []"
  proof -
    assume "nv_io (st_nvram st) = []"
    then obtain l where "nv_append sid d (st_nvram st) = (Ok ?seg, l)" "nv_io l = []"
      by (rule nv_append_total)
    then show ?thesis using n by simp
  qed
  show "r \<noteq> Err IoError \<Longrightarrow> is_ok r" using A by auto
qed

lemma update_step:
  assumes inv: "store_inv E kf extra st" and run: "on_nvram (nv_update_segment_metadata sid seg) st = (r, st')"
    and pres: "hm_get (nv_segment_map (st_nvram st)) sid = Some seg0" and place: "same_place seg0 seg"
    and gone: "\<And>h. hm_get (reg_content_store (st_registry st)) h \<noteq> Some sid"
    and cover: "refs (reg_capsules (st_registry st)) extra sid \<le> unat (seg_ref_count seg)"
  shows "store_inv E kf extra st'" "st_registry st' = st_registry st"
    and "nv_read k (st_nvram st') = nv_read k (st_nvram st)"
    and "k \<noteq> sid \<Longrightarrow> seg_plain E kf (st_nvram st') k = seg_plain E kf (st_nvram st) k"
    and "hm_get (nv_segment_map (st_nvram st')) sid = Some seg"
    and "rc_of (st_nvram st') = (rc_of (st_nvram st))(sid := unat (seg_ref_count seg))"
    and "nv_next_offset (st_nvram st') = nv_next_offset (st_nvram st)"
    and "r = Ok () \<or> r = Err IoError" "nv_io (st_nvram st) = [] \<Longrightarrow> r = Ok () \<and> nv_io (st_nvram st') = []"
proof -
  obtain lg' where n: "save_segment_map (nv_put sid seg (st_nvram st)) = (r, lg')" "st' = st\<lparr>st_nvram := lg'\<rparr>"
    using run by (auto simp: on_nvram_eq nv_update_segment_metadata_def)
  note S = save_put [OF n(1)]
  note P = put_step_effect [OF S(1) store_invD(1) [OF inv] pres place]
  have map': "hm_get (nv_segment_map lg') k = (if k = sid then Some seg else hm_get (nv_segment_map (st_nvram st)) k)" for k
    using S(1) by (simp add: put_step_def)
  have rd: "nv_read k lg' = nv_read k (st_nvram st)" for k
    using P store_invD(1) [OF inv] by (intro nv_read_cong) simp_all
  have pl: "seg_plain E kf lg' k = seg_plain E kf (st_nvram st) k" if "k \<noteq> sid" for k
    using that rd by (intro seg_plain_cong) (simp_all add: map')
  have rc: "rc_of lg' = (rc_of (st_nvram st))(sid := unat (seg_ref_count seg))"
    by (auto simp: rc_of_def map')
  have "content_ok E kf (reg_content_store (st_registry st)) lg'"
    using store_invD(4) [OF inv] gone unfolding content_ok_def by (metis map' pl)
  moreover have "refs (reg_capsules (st_registry st)) extra k \<le> rc_of lg' k" for k
    using store_invD(5) [OF inv, of k] cover by (auto simp: rc)
  moreover have "ids_below (reg_next_segment_id (st_registry st)) lg'"
    using store_invD(3) [OF inv] pres by (auto simp: ids_below_def map')
  ultimately show "store_inv E kf extra st'"
    using store_invD(2) [OF inv] P(1) by (simp add: store_inv_def n)
  show "r = Ok () \<or> r = Err IoError"
    using n(1) by (auto simp: save_segment_map_def split: prod.splits if_splits)
  show "st_registry st' = st_registry st" "nv_read k (st_nvram st') = nv_read k (st_nvram st)"
    "k \<noteq> sid \<Longrightarrow> seg_plain E kf (st_nvram st') k = seg_plain E kf (st_nvram st) k"
    "hm_get (nv_segment_map (st_nvram st')) sid = Some seg"
    "rc_of (st_nvram st') = (rc_of (st_nvram st))(sid := unat (seg_ref_count seg))"
    "nv_next_offset (st_nvram st') = nv_next_offset (st_nvram st)"
    "nv_io (st_nvram st) = [] \<Longrightarrow> r = Ok () \<and> nv_io (st_nvram st') = []"
    using S by (auto simp: n rd pl map' rc put_step_def)
qed

lemma register_step:
  assumes inv: "store_inv E kf extra st" and run: "on_registry (reg_register_content h sid) st = (r, st')"
    and seg: "hm_get (nv_segment_map (st_nvram st)) sid = Some seg" "seg_content_hash seg = Some h"
    and pl: "seg_plain E kf (st_nvram st) sid = Ok d" "hash_content E d = h"
  shows "store_inv E kf extra st'" "st_nvram st' = st_nvram st"
    and "reg_capsules (st_registry st') = reg_capsules (st_registry st)"
    and "reg_next_segment_id (st_registry st') = reg_next_segment_id (st_registry st)"
    and "reg_io (st_registry st) = [] \<Longrightarrow> r = Ok () \<and> reg_io (st_registry st') = []"
proof -
  obtain rg' where n: "reg_register_content h sid (st_registry st) = (r, rg')" "st' = st\<lparr>st_registry := rg'\<rparr>"
    using run by (auto simp: on_registry_eq)
  note R = reg_register_effect [OF n(1)]
  have "content_ok E kf (reg_content_store rg') (st_nvram st)"
    using store_invD(4) [OF inv] seg pl by (auto simp: content_ok_def R(3))
  then show "store_inv E kf extra st'"
    using store_invD [OF inv] R(1,2) by (simp add: store_inv_def n)
  show "st_nvram st' = st_nvram st" "reg_capsules (st_registry st') = reg_capsules (st_registry st)"
    "reg_next_segment_id (st_registry st') = reg_next_segment_id (st_registry st)"
    "reg_io (st_registry st) = [] \<Longrightarrow> r = Ok () \<and> reg_io (st_registry st') = []"
    using R by (auto simp: n)
qed

text \<open>Creating and deleting a capsule moves references between the capsules and the operation.\<close>

lemma create_step:
  assumes inv: "store_inv E kf segs st"
    and run: "on_registry (create_capsule_with_segments now cid sz segs pol) st = (r, st')"
  shows "store_inv E kf [] st'" "st_nvram st' = st_nvram st"
    and "k \<noteq> cid \<Longrightarrow> hm_get (reg_capsules (st_registry st')) k = hm_get (reg_capsules (st_registry st)) k"
    and "r = Ok () \<Longrightarrow> hm_get (reg_capsules (st_registry st)) cid = None \<and>
      (\<exists>t. hm_get (reg_capsules (st_registry st')) cid = Some \<lparr>cap_id = cid, cap_size = sz, cap_segments = segs,
        cap_created_at = t, cap_policy = pol, cap_deduped_bytes = 0\<rparr>)"
    and "r \<noteq> Ok () \<Longrightarrow> hm_get (reg_capsules (st_registry st')) cid = hm_get (reg_capsules (st_registry st)) cid \<or>
      r = Err IoError \<and> hm_get (reg_capsules (st_registry st)) cid = None \<and>
      (\<exists>t. hm_get (reg_capsules (st_registry st')) cid = Some \<lparr>cap_id = cid, cap_size = sz, cap_segments = segs,
        cap_created_at = t, cap_policy = pol, cap_deduped_bytes = 0\<rparr>)"
    and "r = Ok () \<Longrightarrow> refs_exact segs st \<Longrightarrow> refs_exact [] st'"
    and "reg_next_segment_id (st_registry st') = reg_next_segment_id (st_registry st)"
    and "reg_io (st_registry st) = [] \<Longrightarrow> now \<noteq> None \<Longrightarrow> hm_get (reg_capsules (st_registry st)) cid = None \<Longrightarrow>
      r = Ok () \<and> reg_io (st_registry st') = []"
proof -
  let ?caps = "reg_capsules (st_registry st)"
  obtain rg' where n: "create_capsule_with_segments now cid sz segs pol (st_registry st) = (r, rg')"
    "st' = st\<lparr>st_registry := rg'\<rparr>"
    using run by (auto simp: on_registry_eq)
  note C = create_effect [OF n(1)]
  have drop: "store_inv E kf [] st" by (rule store_inv_less_extra [OF inv]) simp
  consider (same) "rg' = st_registry st" "r \<noteq> Ok ()" "hm_get ?caps cid \<noteq> None \<or> now = None"
    | (ins) t where "now = Some t" "hm_get ?caps cid = None" "reg_capsules rg' = hm_insert cid \<lparr>cap_id = cid, cap_size = sz,
        cap_segments = segs, cap_created_at = t, cap_policy = pol, cap_deduped_bytes = 0\<rparr> ?caps"
        "r = Ok () \<or> r = Err IoError" "reg_io (st_registry st) = [] \<longrightarrow> r = Ok () \<and> reg_io rg' = []"
    using C by (cases now; cases "hm_get ?caps cid") auto
  note cases = this
  have refs': "refs (reg_capsules rg') [] k = refs ?caps segs k" if "now = Some t" "hm_get ?caps cid = None" for k t
    using C(5) [OF that(2,1)] that(2) by (simp add: refs_def capsule_refs_insert)
  show "store_inv E kf [] st'"
  proof (cases rule: cases)
    case same
    then show ?thesis using drop by (simp add: n)
  next
    case (ins t)
    have "caps_ok (reg_capsules rg')" using store_invD(2) [OF inv] by (auto simp: ins(3) caps_ok_def)
    then show ?thesis
      using store_invD [OF inv] refs' [OF ins(1,2)] C(1,2) by (simp add: store_inv_def n)
  qed
  show "st_nvram st' = st_nvram st" "reg_next_segment_id (st_registry st') = reg_next_segment_id (st_registry st)"
    using C(1) by (simp_all add: n)
  show "k \<noteq> cid \<Longrightarrow> hm_get (reg_capsules (st_registry st')) k = hm_get ?caps k"
    by (cases rule: cases) (auto simp: n)
  show "r = Ok () \<Longrightarrow> hm_get ?caps cid = None \<and>
      (\<exists>t. hm_get (reg_capsules (st_registry st')) cid = Some \<lparr>cap_id = cid, cap_size = sz, cap_segments = segs,
        cap_created_at = t, cap_policy = pol, cap_deduped_bytes = 0\<rparr>)"
    by (cases rule: cases) (auto simp: n)
  show "r \<noteq> Ok () \<Longrightarrow> hm_get (reg_capsules (st_registry st')) cid = hm_get ?caps cid \<or>
      r = Err IoError \<and> hm_get ?caps cid = None \<and>
      (\<exists>t. hm_get (reg_capsules (st_registry st')) cid = Some \<lparr>cap_id = cid, cap_size = sz, cap_segments = segs,
        cap_created_at = t, cap_policy = pol, cap_deduped_bytes = 0\<rparr>)"
    by (cases rule: cases) (auto simp: n)
  show "r = Ok () \<Longrightarrow> refs_exact segs st \<Longrightarrow> refs_exact [] st'"
    by (cases rule: cases) (auto simp: n refs_exact_def refs_def capsule_refs_insert)
  show "reg_io (st_registry st) = [] \<Longrightarrow> now \<noteq> None \<Longrightarrow> hm_get ?caps cid = None \<Longrightarrow>
      r = Ok () \<and> reg_io (st_registry st') = []"
    by (cases rule: cases) (auto simp: n)
qed

lemma delete_step:
  assumes inv: "store_inv E kf [] st" and run: "on_registry (reg_delete_capsule cid) st = (r, st')"
    and c: "hm_get (reg_capsules (st_registry st)) cid = Some c"
  shows "store_inv E kf (cap_segments c) st'" "st_nvram st' = st_nvram st" "r = Ok c \<or> r = Err IoError"
    and "hm_get (reg_capsules (st_registry st')) k = (if k = cid then None else hm_get (reg_capsules (st_registry st)) k)"
    and "refs_exact [] st \<Longrightarrow> refs_exact (cap_segments c) st'"
    and "reg_next_segment_id (st_registry st') = reg_next_segment_id (st_registry st)"
    and "reg_io (st_registry st) = [] \<Longrightarrow> r = Ok c \<and> reg_io (st_registry st') = []"
proof -
  obtain rg' where n: "reg_delete_capsule cid (st_registry st) = (r, rg')" "st' = st\<lparr>st_registry := rg'\<rparr>"
    using run by (auto simp: on_registry_eq)
  note D = reg_delete_effect [OF n(1)]
  have ok: "hm_ok (reg_capsules (st_registry st))" using store_invD(2) [OF inv] by (simp add: caps_ok_def)
  have refs': "refs (reg_capsules rg') (cap_segments c) k = refs (reg_capsules (st_registry st)) [] k" for k
    using capsule_refs_remove [OF ok c, of k] by (simp add: refs_def D(3))
  have "caps_ok (reg_capsules rg')" using store_invD(2) [OF inv] by (auto simp: caps_ok_def D(3) split: if_splits)
  then show "store_inv E kf (cap_segments c) st'"
    using store_invD [OF inv] D(1,2) refs' by (simp add: store_inv_def n)
  show "r = Ok c \<or> r = Err IoError"
    using n(1) c by (auto simp: reg_delete_capsule_def op_simps reg_save_def split: prod.splits if_splits result.splits)
  show "st_nvram st' = st_nvram st"
    "hm_get (reg_capsules (st_registry st')) k = (if k = cid then None else hm_get (reg_capsules (st_registry st)) k)"
    "refs_exact [] st \<Longrightarrow> refs_exact (cap_segments c) st'"
    "reg_next_segment_id (st_registry st') = reg_next_segment_id (st_registry st)"
    "reg_io (st_registry st) = [] \<Longrightarrow> r = Ok c \<and> reg_io (st_registry st') = []"
    using D refs' c by (auto simp: n refs_exact_def)
qed

end
