(* ===== verification/Garbage_Collector.thy ===== *)
theory Garbage_Collector
  imports Store
begin

text \<open>
  The garbage collector of \<open>crates/capsule-registry/src/gc.rs\<close>: it removes the segments whose
  reference count is zero from the log and their entries from the content store.
\<close>

definition reclaim_segment :: "segment \<Rightarrow> unit store_op" where
  "reclaim_segment seg =
     bind_op
       (case seg_content_hash seg of
          Some h \<Rightarrow> bind_op (on_registry (reg_deregister_content h (seg_id seg))) (\<lambda>_. return_op ())
        | None \<Rightarrow> return_op ())
       (\<lambda>_. bind_op (on_nvram (nv_remove_segment (seg_id seg))) (\<lambda>removed.
          if removed = None then fail_op (VanishedDuringGc (seg_id seg)) else return_op ()))"

fun sweep_loop :: "segment list \<Rightarrow> nat \<Rightarrow> nat store_op" where
  "sweep_loop [] reclaimed st = (Ok reclaimed, st)"
| "sweep_loop (seg # segs) reclaimed st =
     (if seg_ref_count seg = 0
      then bind_op (reclaim_segment seg) (\<lambda>_. sweep_loop segs (reclaimed + 1)) st
      else sweep_loop segs reclaimed st)"

definition gc_sweep :: "nat store_op" where
  "gc_sweep st = sweep_loop (nv_list_segments (st_nvram st)) 0 st"

section \<open>Reclaiming one segment\<close>

text \<open>What a reclaim leaves: the invariant, every other segment, and no trace of the segment on success.\<close>

definition reclaimed_from :: "ext \<Rightarrow> keys \<Rightarrow> segment_id \<Rightarrow> store \<Rightarrow> store \<Rightarrow> bool" where
  "reclaimed_from E kf sid st st' \<longleftrightarrow>
     store_inv E kf [] st' \<and> reg_capsules (st_registry st') = reg_capsules (st_registry st) \<and>
     reg_next_segment_id (st_registry st') = reg_next_segment_id (st_registry st) \<and>
     (\<forall>k. k \<noteq> sid \<longrightarrow> seg_plain E kf (st_nvram st') k = seg_plain E kf (st_nvram st) k \<and>
        hm_get (nv_segment_map (st_nvram st')) k = hm_get (nv_segment_map (st_nvram st)) k)"

lemma reclaim_effect:
  assumes inv: "store_inv E kf [] st" and g: "hm_get (nv_segment_map (st_nvram st)) (seg_id seg) = Some seg"
    and z: "seg_ref_count seg = 0" and run: "reclaim_segment seg st = (r, st')"
  shows "reclaimed_from E kf (seg_id seg) st st'"
    and "is_ok r \<Longrightarrow> hm_get (nv_segment_map (st_nvram st')) (seg_id seg) = None"
    and "r = Ok () \<or> r = Err IoError"
    and "nv_io (st_nvram st) = [] \<Longrightarrow> reg_io (st_registry st) = [] \<Longrightarrow>
      r = Ok () \<and> nv_io (st_nvram st') = [] \<and> reg_io (st_registry st') = []"
proof -
  let ?sid = "seg_id seg"
  have dead: "refs (reg_capsules (st_registry st)) [] ?sid = 0"
    using store_invD(5) [OF inv, of ?sid] g z by (simp add: rc_of_def)
  have only: "seg_content_hash seg = Some h" if "hm_get (reg_content_store (st_registry st)) h = Some ?sid" for h
    by (rule content_okD [OF store_invD(4) [OF inv] that]) (use g in simp)
  obtain r1 s1 where d: "(case seg_content_hash seg of
          Some h \<Rightarrow> bind_op (on_registry (reg_deregister_content h ?sid)) (\<lambda>_. return_op ())
        | None \<Rightarrow> return_op ()) st = (r1, s1)" by fastforce
  have S1: "store_inv E kf [] s1 \<and> st_nvram s1 = st_nvram st \<and>
      reg_capsules (st_registry s1) = reg_capsules (st_registry st) \<and>
      reg_next_segment_id (st_registry s1) = reg_next_segment_id (st_registry st) \<and>
      (r1 = Ok () \<or> r1 = Err IoError) \<and> (\<forall>h. hm_get (reg_content_store (st_registry s1)) h \<noteq> Some ?sid) \<and>
      (reg_io (st_registry st) = [] \<longrightarrow> r1 = Ok () \<and> reg_io (st_registry s1) = [])"
  proof (cases "seg_content_hash seg")
    case None
    then show ?thesis
      using d inv only by (auto simp: return_op_def)
  next
    case (Some h)
    obtain q where q: "on_registry (reg_deregister_content h ?sid) st = (q, s1)"
      "r1 = (case q of Ok _ \<Rightarrow> Ok () | Err e \<Rightarrow> Err e)"
      using d Some by (auto simp: bind_op_def return_op_def split: prod.splits result.splits)
    have "q = Err IoError \<or> is_ok q"
      using q(1) by (auto simp: on_registry_eq reg_deregister_content_def op_simps reg_save_def
          split: option.splits if_splits prod.splits result.splits)
    moreover note D = deregister_step [OF inv q(1)]
    moreover have "hm_get (reg_content_store (st_registry s1)) h' \<noteq> Some ?sid" for h'
      using D(5,6) only Some by fastforce
    ultimately show ?thesis
      using q(2) by (cases q) auto
  qed
  have s1: "store_inv E kf [] s1" "st_nvram s1 = st_nvram st"
    "reg_capsules (st_registry s1) = reg_capsules (st_registry st)"
    "reg_next_segment_id (st_registry s1) = reg_next_segment_id (st_registry st)"
    "r1 = Ok () \<or> r1 = Err IoError"
    "\<And>h. hm_get (reg_content_store (st_registry s1)) h \<noteq> Some ?sid"
    "reg_io (st_registry st) = [] \<Longrightarrow> r1 = Ok () \<and> reg_io (st_registry s1) = []"
    using S1 by auto
  obtain r2 s2 where v: "on_nvram (nv_remove_segment ?sid) s1 = (r2, s2)" by fastforce
  have dead1: "refs (reg_capsules (st_registry s1)) [] ?sid = 0" using dead s1(3) by simp
  note R = remove_step [OF s1(1) v dead1 s1(6)]
  have r2: "r2 = Ok (Some seg) \<or> r2 = Err IoError" using R(6) g s1(2) by simp
  have run': "(r, st') = (if r1 = Ok () then ((case r2 of Ok _ \<Rightarrow> Ok () | Err e \<Rightarrow> Err e), s2) else (Err IoError, s1))"
    using run d v r2 s1(5) by (auto simp: reclaim_segment_def bind_op_def return_op_def)
  have st': "st' = s1 \<or> st' = s2" using run' by (auto split: if_splits)
  show "reclaimed_from E kf ?sid st st'"
    using st' s1(1-4) R(1-3,5) by (auto simp: reclaimed_from_def)
  show "is_ok r \<Longrightarrow> hm_get (nv_segment_map (st_nvram st')) ?sid = None"
    using run' R(5) by (auto split: if_splits)
  show "r = Ok () \<or> r = Err IoError" using run' r2 by (auto split: if_splits)
  show "nv_io (st_nvram st) = [] \<Longrightarrow> reg_io (st_registry st) = [] \<Longrightarrow>
      r = Ok () \<and> nv_io (st_nvram st') = [] \<and> reg_io (st_registry st') = []"
    using run' s1(2,7) R(2,7) r2 by auto
qed

section \<open>The sweep\<close>

lemma reclaimed_from_trans_keep:
  assumes "reclaimed_from E kf sid st st1"
  shows "k \<noteq> sid \<Longrightarrow> hm_get (nv_segment_map (st_nvram st1)) k = hm_get (nv_segment_map (st_nvram st)) k"
    and "k \<noteq> sid \<Longrightarrow> seg_plain E kf (st_nvram st1) k = seg_plain E kf (st_nvram st) k"
  using assms by (auto simp: reclaimed_from_def)

lemma sweep_loop_effect:
  assumes "store_inv E kf [] st" "distinct (map seg_id segs)"
    and "\<forall>seg\<in>set segs. hm_get (nv_segment_map (st_nvram st)) (seg_id seg) = Some seg"
    and "sweep_loop segs n st = (r, st')"
  shows "store_inv E kf [] st' \<and> reg_capsules (st_registry st') = reg_capsules (st_registry st) \<and>
    reg_next_segment_id (st_registry st') = reg_next_segment_id (st_registry st) \<and>
    (\<forall>k. (\<forall>seg\<in>set segs. seg_ref_count seg = 0 \<longrightarrow> seg_id seg \<noteq> k) \<longrightarrow>
       seg_plain E kf (st_nvram st') k = seg_plain E kf (st_nvram st) k \<and>
       hm_get (nv_segment_map (st_nvram st')) k = hm_get (nv_segment_map (st_nvram st)) k) \<and>
    (r = Err IoError \<or> r = Ok (n + length (filter (\<lambda>seg. seg_ref_count seg = 0) segs)) \<and>
       (\<forall>seg\<in>set segs. seg_ref_count seg = 0 \<longrightarrow> hm_get (nv_segment_map (st_nvram st')) (seg_id seg) = None)) \<and>
    (nv_io (st_nvram st) = [] \<and> reg_io (st_registry st) = [] \<longrightarrow>
       is_ok r \<and> nv_io (st_nvram st') = [] \<and> reg_io (st_registry st') = [])"
  using assms
proof (induction segs n st rule: sweep_loop.induct)
  case (2 seg segs n st)
  show ?case
  proof (cases "seg_ref_count seg = 0")
    case False
    with 2 show ?thesis by auto
  next
    case True
    obtain q s1 where c: "reclaim_segment seg st = (q, s1)" by fastforce
    have g: "hm_get (nv_segment_map (st_nvram st)) (seg_id seg) = Some seg" using "2.prems"(3) by simp
    note R = reclaim_effect [OF "2.prems"(1) g True c]
    show ?thesis
    proof (cases "q = Ok ()")
      case False
      then have "r = Err IoError" "st' = s1" using "2.prems"(4) True c R(3) by (auto simp: bind_op_def)
      then show ?thesis using R False True by (auto simp: reclaimed_from_def)
    next
      case q: True
      have run: "sweep_loop segs (n + 1) s1 = (r, st')" using "2.prems"(4) True c q by (simp add: bind_op_def)
      have inv1: "store_inv E kf [] s1" using R(1) by (simp add: reclaimed_from_def)
      have other: "seg_id x \<noteq> seg_id seg" if "x \<in> set segs" for x
        using "2.prems"(2) that by (metis distinct.simps(2) image_eqI list.simps(9) list.set_map)
      have pres: "\<forall>x\<in>set segs. hm_get (nv_segment_map (st_nvram s1)) (seg_id x) = Some x"
      proof
        fix x assume x: "x \<in> set segs"
        show "hm_get (nv_segment_map (st_nvram s1)) (seg_id x) = Some x"
          using "2.prems"(3) R(1) x other [OF x] by (simp add: reclaimed_from_def)
      qed
      have IH: "store_inv E kf [] st' \<and> reg_capsules (st_registry st') = reg_capsules (st_registry s1) \<and>
          reg_next_segment_id (st_registry st') = reg_next_segment_id (st_registry s1) \<and>
          (\<forall>k. (\<forall>x\<in>set segs. seg_ref_count x = 0 \<longrightarrow> seg_id x \<noteq> k) \<longrightarrow>
             seg_plain E kf (st_nvram st') k = seg_plain E kf (st_nvram s1) k \<and>
             hm_get (nv_segment_map (st_nvram st')) k = hm_get (nv_segment_map (st_nvram s1)) k) \<and>
          (r = Err IoError \<or> r = Ok (n + 1 + length (filter (\<lambda>x. seg_ref_count x = 0) segs)) \<and>
             (\<forall>x\<in>set segs. seg_ref_count x = 0 \<longrightarrow> hm_get (nv_segment_map (st_nvram st')) (seg_id x) = None)) \<and>
          (nv_io (st_nvram s1) = [] \<and> reg_io (st_registry s1) = [] \<longrightarrow>
             is_ok r \<and> nv_io (st_nvram st') = [] \<and> reg_io (st_registry st') = [])"
        by (rule "2.IH"(1) [OF True inv1 _ pres run]) (use "2.prems"(2) in simp)
      have here: "hm_get (nv_segment_map (st_nvram st')) (seg_id seg) = None"
      proof -
        have "hm_get (nv_segment_map (st_nvram st')) (seg_id seg) = hm_get (nv_segment_map (st_nvram s1)) (seg_id seg)"
          using IH other by blast
        then show ?thesis using R(2) q by simp
      qed
      show ?thesis
        using IH R(1,4) True here by (auto simp: reclaimed_from_def)
    qed
  qed
qed auto

lemma listed_segments:
  assumes "log_ok lg"
  shows "distinct (map seg_id (nv_list_segments lg))"
    and "\<forall>seg\<in>set (nv_list_segments lg). hm_get (nv_segment_map lg) (seg_id seg) = Some seg"
proof -
  have ok: "hm_ok (nv_segment_map lg)" by (rule log_ok_hm [OF assms])
  have eq: "seg_id seg = sid" if "(sid, seg) \<in> set (nv_segment_map lg)" for sid seg
    using log_okD(1) [OF assms] that ok by (simp add: hm_get_iff)
  then have "map seg_id (nv_list_segments lg) = hm_keys (nv_segment_map lg)"
    by (auto simp: nv_list_segments_def)
  then show "distinct (map seg_id (nv_list_segments lg))" using ok by (simp add: hm_ok_def)
  show "\<forall>seg\<in>set (nv_list_segments lg). hm_get (nv_segment_map lg) (seg_id seg) = Some seg"
    using eq ok by (auto simp: nv_list_segments_def hm_get_iff)
qed

lemma dead_segments:
  assumes "log_ok lg" "hm_get (nv_segment_map lg) k = Some x" "seg_ref_count x \<noteq> 0"
  shows "\<forall>seg\<in>set (nv_list_segments lg). seg_ref_count seg = 0 \<longrightarrow> seg_id seg \<noteq> k"
  using listed_segments(2) [OF assms(1)] assms(2,3) by auto

text \<open>The sweep as a whole.\<close>

lemma gc_sweep_effect:
  assumes inv: "store_inv E kf [] st" and run: "gc_sweep st = (r, st')"
  shows "store_inv E kf [] st'" "reg_capsules (st_registry st') = reg_capsules (st_registry st)"
    and "reg_next_segment_id (st_registry st') = reg_next_segment_id (st_registry st)"
    and "0 < rc_of (st_nvram st) k \<Longrightarrow> seg_plain E kf (st_nvram st') k = seg_plain E kf (st_nvram st) k \<and>
       hm_get (nv_segment_map (st_nvram st')) k = hm_get (nv_segment_map (st_nvram st)) k"
    and "r = Err IoError \<or> r = Ok (length (filter (\<lambda>seg. seg_ref_count seg = 0) (nv_list_segments (st_nvram st))))"
    and "is_ok r \<Longrightarrow> rc_of (st_nvram st) k = 0 \<Longrightarrow> hm_get (nv_segment_map (st_nvram st')) k = None"
    and "nv_io (st_nvram st) = [] \<Longrightarrow> reg_io (st_registry st) = [] \<Longrightarrow>
       is_ok r \<and> nv_io (st_nvram st') = [] \<and> reg_io (st_registry st') = []"
proof -
  let ?segs = "nv_list_segments (st_nvram st)"
  note L = listed_segments [OF store_invD(1) [OF inv]]
  note S = sweep_loop_effect [OF inv L run [unfolded gc_sweep_def]]
  show "store_inv E kf [] st'" "reg_capsules (st_registry st') = reg_capsules (st_registry st)"
    "reg_next_segment_id (st_registry st') = reg_next_segment_id (st_registry st)"
    "r = Err IoError \<or> r = Ok (length (filter (\<lambda>seg. seg_ref_count seg = 0) ?segs))"
    "nv_io (st_nvram st) = [] \<Longrightarrow> reg_io (st_registry st) = [] \<Longrightarrow>
       is_ok r \<and> nv_io (st_nvram st') = [] \<and> reg_io (st_registry st') = []"
    using S by auto
  show "seg_plain E kf (st_nvram st') k = seg_plain E kf (st_nvram st) k \<and>
       hm_get (nv_segment_map (st_nvram st')) k = hm_get (nv_segment_map (st_nvram st)) k" if pos: "0 < rc_of (st_nvram st) k"
  proof -
    obtain x where x: "hm_get (nv_segment_map (st_nvram st)) k = Some x" "seg_ref_count x \<noteq> 0"
      using pos by (fastforce simp: rc_of_def split: option.splits)
    show ?thesis using S dead_segments [OF store_invD(1) [OF inv] x] by blast
  qed
  show "hm_get (nv_segment_map (st_nvram st')) k = None" if ok: "is_ok r" and z: "rc_of (st_nvram st) k = 0"
  proof (cases "hm_get (nv_segment_map (st_nvram st)) k")
    case None
    then have "\<forall>seg\<in>set ?segs. seg_ref_count seg = 0 \<longrightarrow> seg_id seg \<noteq> k" using L(2) by auto
    then show ?thesis using S None by auto
  next
    case (Some x)
    have "seg_id x = k" using log_okD(1) [OF store_invD(1) [OF inv] Some] .
    moreover have "x \<in> set ?segs"
      using Some by (force simp: nv_list_segments_def dest: map_of_SomeD)
    moreover have "seg_ref_count x = 0" using z Some by (simp add: rc_of_def unat_eq_0)
    ultimately show ?thesis using S ok by auto
  qed
qed

end
