(* ===== verification/Write_Pipeline.thy ===== *)
theory Write_Pipeline
  imports Garbage_Collector Compression
begin

text \<open>
  The write pipeline of \<open>crates/capsule-registry/src/pipeline.rs\<close> in its default configuration
  (synchronous writes, without the features \<open>pipeline_async\<close>, \<open>modular_pipeline\<close> and
  \<open>advanced-security\<close>): chunking, compression, hashing, encryption, deduplication, capsule
  creation, reading with authentication and decryption, range reads, deletion, reconciliation
  of reference counts and garbage collection. Logging is left out; the fresh capsule identifier
  and the clock are arguments.
\<close>

section \<open>State and errors\<close>

record write_pipeline =
  wp_store :: store
  wp_key_manager :: "key_manager option"

type_synonym 'a wp_op = "(write_pipeline, 'a, error) op"

definition on_store :: "'a store_op \<Rightarrow> 'a wp_op" where
  "on_store m = zoom wp_store (\<lambda>st p. p\<lparr>wp_store := st\<rparr>) m"

definition map_compression_error :: "nat \<Rightarrow> compression_error \<Rightarrow> error" where
  "map_compression_error segment_index err = PipelineCompression segment_index err"

definition map_registry_error :: "string \<Rightarrow> error \<Rightarrow> error" where
  "map_registry_error operation err = PipelineRegistry operation err"

definition map_nvram_error :: "string \<Rightarrow> error \<Rightarrow> error" where
  "map_nvram_error operation err = PipelineNvram operation err"

section \<open>Writing\<close>

text \<open>The key manager locked and asked for a key; the cache update persists.\<close>

definition wp_get_key :: "ext \<Rightarrow> u32 \<Rightarrow> xts_key_pair wp_op" where
  "wp_get_key E v p =
     (case wp_key_manager p of
        None \<Rightarrow> (Err KeyManagerMissing, p)
      | Some km \<Rightarrow>
          (case get_key E v km of
             (r, km) \<Rightarrow> (map_result_err EncryptionFailed r, p\<lparr>wp_key_manager := Some km\<rparr>)))"

text \<open>Step 3: the data to store and, when it was encrypted, its metadata with the integrity tag.\<close>

definition encrypt_chunk ::
  "ext \<Rightarrow> bool \<Rightarrow> bytes \<Rightarrow> content_hash \<Rightarrow> (bytes \<times> encryption_metadata option) wp_op" where
  "encrypt_chunk E encryption_enabled data h p =
     (if encryption_enabled then
        (case wp_key_manager p of
           None \<Rightarrow> (Err Panic, p)
         | Some km \<Rightarrow>
             (let key_version = km_current_version km
              in bind_op (wp_get_key E key_version) (\<lambda>key_pair.
                 let tweak = derive_tweak_from_hash (as_bytes (as_str h))
                 in bind_op (lift_result (map_result_err EncryptionFailed
                        (encrypt_segment E data key_pair key_version tweak))) (\<lambda>(ciphertext, enc_meta).
                      let mac_tag = compute_mac E ciphertext enc_meta (key1 key_pair) (key2 key_pair)
                      in return_op (ciphertext, Some (set_integrity_tag mac_tag enc_meta)))) p))
      else (Ok (data, None), p))"

definition apply_enc_meta :: "encryption_metadata option \<Rightarrow> segment \<Rightarrow> segment" where
  "apply_enc_meta m seg =
     (case m of
        None \<Rightarrow> seg
      | Some em \<Rightarrow> seg\<lparr>seg_encrypted := True, seg_encryption_version := em_encryption_version em,
                       seg_key_version := em_key_version em, seg_tweak_nonce := em_tweak_nonce em,
                       seg_integrity_tag := em_integrity_tag em\<rparr>)"

text \<open>A new segment on the deduplicating path carries its content hash and is registered.\<close>

definition write_new_dedup ::
  "content_hash \<Rightarrow> bytes \<Rightarrow> compression_result \<Rightarrow> encryption_metadata option \<Rightarrow> dedup_stats \<Rightarrow>
   (segment_id \<times> dedup_stats) store_op" where
  "write_new_dedup h final_data comp_result enc_meta stats st =
     (let new_seg_id = fst (alloc_segment (st_registry st));
          st = st\<lparr>st_registry := snd (alloc_segment (st_registry st))\<rparr>
      in bind_op (map_err_op (map_nvram_error ''append'') (on_nvram (nv_append new_seg_id final_data))) (\<lambda>segment.
           let segment = segment\<lparr>seg_compressed := cr_compressed comp_result,
                 seg_compression_algo := cr_algorithm comp_result, seg_content_hash := Some h,
                 seg_ref_count := 1, seg_deduplicated := False\<rparr>;
               segment = apply_enc_meta enc_meta segment
           in bind_op (map_err_op (map_nvram_error ''update_segment_metadata'')
                (on_nvram (nv_update_segment_metadata new_seg_id segment))) (\<lambda>_.
              bind_op (map_err_op (map_registry_error ''register_content'')
                (on_registry (reg_register_content h new_seg_id))) (\<lambda>_.
              return_op (new_seg_id, add_segment_stats (of_nat (length final_data)) False stats)))) st)"

text \<open>Without deduplication the segment has no hash and is not registered.\<close>

definition write_new_plain ::
  "bytes \<Rightarrow> compression_result \<Rightarrow> encryption_metadata option \<Rightarrow> dedup_stats \<Rightarrow>
   (segment_id \<times> dedup_stats) store_op" where
  "write_new_plain final_data comp_result enc_meta stats st =
     (let new_seg_id = fst (alloc_segment (st_registry st));
          st = st\<lparr>st_registry := snd (alloc_segment (st_registry st))\<rparr>
      in bind_op (map_err_op (map_nvram_error ''append'') (on_nvram (nv_append new_seg_id final_data))) (\<lambda>segment.
           let segment = segment\<lparr>seg_compressed := cr_compressed comp_result,
                 seg_compression_algo := cr_algorithm comp_result,
                 seg_ref_count := 1, seg_deduplicated := False\<rparr>;
               segment = apply_enc_meta enc_meta segment
           in bind_op (map_err_op (map_nvram_error ''update_segment_metadata'')
                (on_nvram (nv_update_segment_metadata new_seg_id segment))) (\<lambda>_.
              return_op (new_seg_id, add_segment_stats (of_nat (length final_data)) False stats))) st)"

text \<open>Step 4: reuse a segment with the same content hash, or write a new one.\<close>

definition store_chunk ::
  "bool \<Rightarrow> content_hash \<Rightarrow> bytes \<Rightarrow> compression_result \<Rightarrow> encryption_metadata option \<Rightarrow> dedup_stats \<Rightarrow>
   (segment_id \<times> dedup_stats) store_op" where
  "store_chunk dedupe_on h final_data comp_result enc_meta stats st =
     (if dedupe_on then
        (case reg_lookup_content h (st_registry st) of
           Some existing_seg_id \<Rightarrow>
             bind_op (map_err_op (map_nvram_error ''increment_refcount'')
                 (on_nvram (nv_increment_refcount existing_seg_id))) (\<lambda>updated.
               return_op (existing_seg_id, add_segment_stats (ucast (seg_len updated)) True stats)) st
         | None \<Rightarrow> write_new_dedup h final_data comp_result enc_meta stats st)
      else write_new_plain final_data comp_result enc_meta stats st)"

text \<open>The body of the loop over the chunks.\<close>

definition write_chunk ::
  "ext \<Rightarrow> policy \<Rightarrow> bool \<Rightarrow> nat \<Rightarrow> bytes \<Rightarrow> dedup_stats \<Rightarrow> (segment_id \<times> dedup_stats) wp_op" where
  "write_chunk E pol encryption_enabled index chunk stats =
     bind_op (lift_result (map_result_err (map_compression_error index)
         (compress_segment E chunk (compression pol)))) (\<lambda>(compressed_data, comp_result).
       let h = hash_content E compressed_data
       in bind_op (encrypt_chunk E encryption_enabled compressed_data h) (\<lambda>(final_data, enc_meta).
            on_store (store_chunk (dedupe pol) h final_data comp_result enc_meta stats)))"

fun write_loop ::
  "ext \<Rightarrow> policy \<Rightarrow> bool \<Rightarrow> (nat \<times> bytes) list \<Rightarrow> segment_id list \<Rightarrow> dedup_stats \<Rightarrow>
   (segment_id list \<times> dedup_stats) wp_op" where
  "write_loop E pol enc [] ids stats p = (Ok (ids, stats), p)"
| "write_loop E pol enc ((index, chunk) # rest) ids stats p =
     (case write_chunk E pol enc index chunk stats p of
        (Ok (sid, stats), p) \<Rightarrow> write_loop E pol enc rest (ids @ [sid]) stats p
      | (Err e, p) \<Rightarrow> (Err e, p))"

text \<open>\<open>add_deduped_bytes\<close> runs before the capsule exists.\<close>

definition write_capsule_with_policy ::
  "ext \<Rightarrow> u64 option \<Rightarrow> capsule_id \<Rightarrow> bytes \<Rightarrow> policy \<Rightarrow> capsule_id wp_op" where
  "write_capsule_with_policy E now capsule_id data pol p =
     (let encryption_enabled = is_enabled (encryption pol) \<and> wp_key_manager p \<noteq> None
      in bind_op (write_loop E pol encryption_enabled (enumerate 0 (chunks SEGMENT_SIZE data)) [] new_stats)
           (\<lambda>(segment_ids, stats) p.
              let p = (if bytes_saved stats > 0
                       then p\<lparr>wp_store := (wp_store p)\<lparr>st_registry :=
                              add_deduped_bytes capsule_id (bytes_saved stats) (st_registry (wp_store p))\<rparr>\<rparr>
                       else p)
              in bind_op (map_err_op (map_registry_error ''create_capsule_with_segments'')
                   (on_store (on_registry (create_capsule_with_segments now capsule_id
                      (of_nat (length data)) segment_ids pol)))) (\<lambda>_. return_op capsule_id) p) p)"

definition write_capsule :: "ext \<Rightarrow> u64 option \<Rightarrow> capsule_id \<Rightarrow> bytes \<Rightarrow> capsule_id wp_op" where
  "write_capsule E now capsule_id data = write_capsule_with_policy E now capsule_id data default_policy"

section \<open>Reading\<close>

text \<open>Decryption of one segment: the tag is verified over the stored bytes before decrypting.\<close>

definition read_decrypt :: "ext \<Rightarrow> segment \<Rightarrow> bytes \<Rightarrow> bytes wp_op" where
  "read_decrypt E seg raw p =
     (if seg_encrypted seg then
        bind_op (lift_result (ok_or (wp_key_manager p) KeyManagerMissing)) (\<lambda>_.
        bind_op (lift_result (ok_or (seg_key_version seg) MissingKeyVersion)) (\<lambda>key_version.
        bind_op (wp_get_key E key_version) (\<lambda>key_pair.
          let enc_meta = segment_enc_meta seg (length raw)
          in bind_op (lift_result (map_result_err EncryptionFailed
                 (verify_mac E raw enc_meta (key1 key_pair) (key2 key_pair)))) (\<lambda>_.
             lift_result (map_result_err EncryptionFailed (decrypt_segment E raw key_pair enc_meta)))))) p
      else (Ok raw, p))"

text \<open>Decompression by the capsule's policy, falling back to the bytes as they are.\<close>

definition decompress_by_policy :: "ext \<Rightarrow> compression_policy \<Rightarrow> bytes \<Rightarrow> bytes" where
  "decompress_by_policy E pol d =
     (case pol of
        CompressionNone \<Rightarrow> d
      | LZ4 _ \<Rightarrow> (case decompress_lz4 E d of Ok x \<Rightarrow> x | Err _ \<Rightarrow> d)
      | Zstd _ \<Rightarrow> (case decompress_zstd E d of Ok x \<Rightarrow> x | Err _ \<Rightarrow> d))"

fun read_loop :: "ext \<Rightarrow> compression_policy \<Rightarrow> segment_id list \<Rightarrow> bytes \<Rightarrow> bytes wp_op" where
  "read_loop E pol [] acc p = (Ok acc, p)"
| "read_loop E pol (sid # sids) acc p =
     bind_op (lift_result (nv_read sid (st_nvram (wp_store p)))) (\<lambda>raw.
     bind_op (lift_result (nv_get_segment_metadata sid (st_nvram (wp_store p)))) (\<lambda>seg.
     bind_op (read_decrypt E seg raw) (\<lambda>d.
       read_loop E pol sids (acc @ decompress_by_policy E pol d)))) p"

definition read_capsule :: "ext \<Rightarrow> capsule_id \<Rightarrow> bytes wp_op" where
  "read_capsule E cid p =
     bind_op (lift_result (reg_lookup cid (st_registry (wp_store p)))) (\<lambda>c.
       read_loop E (compression (cap_policy c)) (cap_segments c) []) p"

text \<open>\<open>offset + len\<close> is a 64-bit addition; slicing out of range or with a wrapped end panics.\<close>

definition read_range :: "ext \<Rightarrow> capsule_id \<Rightarrow> u64 \<Rightarrow> nat \<Rightarrow> bytes wp_op" where
  "read_range E cid off len p =
     bind_op (lift_result (reg_lookup cid (st_registry (wp_store p)))) (\<lambda>c.
       if off + of_nat len > cap_size c then fail_op ReadBeyondCapsule
       else bind_op (read_capsule E cid) (\<lambda>full_data.
              let start = unat off; stop = unat (off + of_nat len)
              in if start \<le> stop \<and> stop \<le> length full_data
                 then return_op (take (stop - start) (drop start full_data))
                 else fail_op Panic)) p"

section \<open>Deleting, collecting, reconciling\<close>

definition release_segment :: "segment_id \<Rightarrow> unit store_op" where
  "release_segment sid =
     bind_op (on_nvram (nv_decrement_refcount sid)) (\<lambda>segment.
       if seg_ref_count segment = 0 then
         bind_op (case seg_content_hash segment of
                    Some h \<Rightarrow> bind_op (on_registry (reg_deregister_content h sid)) (\<lambda>_. return_op ())
                  | None \<Rightarrow> return_op ())
           (\<lambda>_. bind_op (on_nvram (nv_remove_segment sid)) (\<lambda>_. return_op ()))
       else return_op ())"

definition delete_capsule :: "capsule_id \<Rightarrow> unit wp_op" where
  "delete_capsule cid =
     on_store (bind_op (on_registry (reg_delete_capsule cid)) (\<lambda>c.
       for_each release_segment (cap_segments c)))"

definition garbage_collect :: "nat wp_op" where
  "garbage_collect = on_store gc_sweep"

text \<open>\<open>counts.entry(id).and_modify(|c| *c += 1).or_insert(1)\<close>.\<close>

definition count_ref :: "(segment_id, u32) hmap \<Rightarrow> segment_id \<Rightarrow> (segment_id, u32) hmap" where
  "count_ref counts sid =
     (case hm_get counts sid of Some c \<Rightarrow> hm_insert sid (c + 1) counts | None \<Rightarrow> hm_insert sid 1 counts)"

definition count_refs :: "registry \<Rightarrow> (segment_id, u32) hmap" where
  "count_refs rg =
     foldl (\<lambda>counts cid. case reg_lookup cid rg of
         Ok c \<Rightarrow> foldl count_ref counts (cap_segments c) | Err _ \<Rightarrow> counts) [] (list_capsules rg)"

definition fix_refcount :: "(segment_id, u32) hmap \<Rightarrow> segment \<Rightarrow> unit store_op" where
  "fix_refcount counts seg =
     (let expected = (case hm_get counts (seg_id seg) of Some c \<Rightarrow> c | None \<Rightarrow> 0)
      in if seg_ref_count seg \<noteq> expected
         then on_nvram (nv_update_segment_metadata (seg_id seg)
                (seg\<lparr>seg_ref_count := expected, seg_deduplicated := expected > 1\<rparr>))
         else return_op ())"

definition reconcile_refcounts :: "unit store_op" where
  "reconcile_refcounts st =
     (let counts = count_refs (st_registry st)
      in bind_op (for_each (fix_refcount counts) (nv_list_segments (st_nvram st))) (\<lambda>_.
         bind_op gc_sweep (\<lambda>_. return_op ())) st)"

text \<open>\<open>new\<close>: the key manager comes from the environment; a failed reconciliation is only logged.\<close>

definition wp_new :: "registry \<Rightarrow> nvram_log \<Rightarrow> (key_manager, encryption_error) result \<Rightarrow> write_pipeline" where
  "wp_new rg lg km_from_env =
     \<lparr>wp_store = snd (reconcile_refcounts \<lparr>st_registry = rg, st_nvram = lg\<rparr>),
      wp_key_manager = (case km_from_env of Ok km \<Rightarrow> Some km | Err _ \<Rightarrow> None)\<rparr>"

definition with_key_manager :: "registry \<Rightarrow> nvram_log \<Rightarrow> key_manager \<Rightarrow> write_pipeline" where
  "with_key_manager rg lg km = \<lparr>wp_store = \<lparr>st_registry = rg, st_nvram = lg\<rparr>, wp_key_manager = Some km\<rparr>"

end
