(* ===== verification/Pipeline_Invariant.thy ===== *)
theory Pipeline_Invariant
  imports Write_Pipeline
begin

text \<open>
  Correctness of the write pipeline: the invariant of the shared store holds in every state the
  pipeline reaches, whatever writes, syncs and saves fail; reads are a function of the store; and each
  operation refines the abstract view of the store as a finite map from capsule identifiers to
  their contents.
\<close>

section \<open>Keys\<close>

definition wp_keys :: "ext \<Rightarrow> write_pipeline \<Rightarrow> keys" where
  "wp_keys E p = map_option (derive_key E) (wp_key_manager p)"

definition wp_km_ok :: "ext \<Rightarrow> write_pipeline \<Rightarrow> bool" where
  "wp_km_ok E p \<longleftrightarrow> (\<forall>km. wp_key_manager p = Some km \<longrightarrow> km_ok E km)"

text \<open>A step that leaves the store alone and keeps the keys.\<close>

definition only_keys :: "ext \<Rightarrow> write_pipeline \<Rightarrow> write_pipeline \<Rightarrow> bool" where
  "only_keys E p p' \<longleftrightarrow> wp_store p' = wp_store p \<and> wp_keys E p' = wp_keys E p \<and> wp_km_ok E p'"

lemma only_keys_refl: "wp_km_ok E p \<Longrightarrow> only_keys E p p"
  by (simp add: only_keys_def)

lemma only_keys_trans: "only_keys E p q \<Longrightarrow> only_keys E q s \<Longrightarrow> only_keys E p s"
  by (simp add: only_keys_def)

lemma wp_get_key_effect:
  assumes "wp_km_ok E p" "wp_get_key E v p = (r, p')"
  shows "only_keys E p p'"
    and "r = bind_result (ok_or (wp_keys E p) KeyManagerMissing) (\<lambda>f. map_result_err EncryptionFailed (f v))"
proof -
  have "only_keys E p p' \<and>
    r = bind_result (ok_or (wp_keys E p) KeyManagerMissing) (\<lambda>f. map_result_err EncryptionFailed (f v))"
  proof (cases "wp_key_manager p")
    case None
    then show ?thesis using assms by (auto simp: wp_get_key_def wp_keys_def only_keys_def)
  next
    case (Some km)
    obtain q km' where g: "get_key E v km = (q, km')" by fastforce
    have "km_ok E km" using assms(1) Some by (simp add: wp_km_ok_def)
    note G = get_key_effect [OF this g]
    have "p' = p\<lparr>wp_key_manager := Some km'\<rparr>" "r = map_result_err EncryptionFailed q"
      using assms(2) Some g by (auto simp: wp_get_key_def)
    then show ?thesis
      using Some G same_keys_derive [OF G(3)] by (auto simp: only_keys_def wp_keys_def wp_km_ok_def)
  qed
  then show "only_keys E p p'"
    "r = bind_result (ok_or (wp_keys E p) KeyManagerMissing) (\<lambda>f. map_result_err EncryptionFailed (f v))" by auto
qed

section \<open>Reading is a function of the store\<close>

fun read_pure :: "ext \<Rightarrow> keys \<Rightarrow> nvram_log \<Rightarrow> compression_policy \<Rightarrow> segment_id list \<Rightarrow> (bytes, error) result" where
  "read_pure E kf lg pol [] = Ok []"
| "read_pure E kf lg pol (sid # sids) =
     bind_result (seg_plain E kf lg sid) (\<lambda>d.
     bind_result (read_pure E kf lg pol sids) (\<lambda>rest. Ok (decompress_by_policy E pol d @ rest)))"

definition contents :: "ext \<Rightarrow> keys \<Rightarrow> store \<Rightarrow> capsule_id \<Rightarrow> (bytes, error) result" where
  "contents E kf st cid =
     bind_result (reg_lookup cid (st_registry st)) (\<lambda>c.
       read_pure E kf (st_nvram st) (compression (cap_policy c)) (cap_segments c))"

lemma read_decrypt_effect:
  assumes "wp_km_ok E p" "read_decrypt E seg raw p = (r, p')"
  shows "only_keys E p p'" "r = seg_decrypt E (wp_keys E p) seg raw"
proof -
  have "only_keys E p p' \<and> r = seg_decrypt E (wp_keys E p) seg raw"
  proof (cases "seg_encrypted seg \<and> wp_key_manager p \<noteq> None \<and> seg_key_version seg \<noteq> None")
    case False
    then show ?thesis
      using assms only_keys_refl
      by (cases "seg_encrypted seg"; cases "wp_key_manager p"; cases "seg_key_version seg")
        (auto simp: read_decrypt_def seg_decrypt_def op_simps wp_keys_def)
  next
    case True
    then obtain v km where v: "seg_key_version seg = Some v" and km: "wp_key_manager p = Some km" by auto
    obtain q p1 where g: "wp_get_key E v p = (q, p1)" by fastforce
    note G = wp_get_key_effect [OF assms(1) g]
    have p': "p' = p1" and r: "r = bind_result q (\<lambda>kp. bind_result (map_result_err EncryptionFailed
            (verify_mac E raw (segment_enc_meta seg (length raw)) (key1 kp) (key2 kp))) (\<lambda>_.
          map_result_err EncryptionFailed (decrypt_segment E raw kp (segment_enc_meta seg (length raw)))))"
      using assms(2) True v km g
      by (auto simp: read_decrypt_def op_simps Let_def split: result.splits prod.splits)
    then show ?thesis using G True v km by (simp add: seg_decrypt_def wp_keys_def)
  qed
  then show "only_keys E p p'" "r = seg_decrypt E (wp_keys E p) seg raw" by auto
qed

lemma read_loop_effect:
  assumes "wp_km_ok E p" "read_loop E pol sids acc p = (r, p')"
  shows "only_keys E p p' \<and>
    r = bind_result (read_pure E (wp_keys E p) (st_nvram (wp_store p)) pol sids) (\<lambda>d. Ok (acc @ d))"
  using assms
proof (induction sids arbitrary: acc p)
  case Nil
  then show ?case by (auto simp: only_keys_refl)
next
  case (Cons sid sids)
  let ?lg = "st_nvram (wp_store p)"
  show ?case
  proof (cases "nv_read sid ?lg")
    case (Err e)
    then have "r = Err e" "p' = p" using Cons.prems(2) by (auto simp: op_simps)
    then show ?thesis using Cons.prems(1) Err by (simp add: only_keys_refl seg_plain_def)
  next
    case (Ok raw)
    then obtain seg where g: "nv_get_segment_metadata sid ?lg = Ok seg"
      by (auto simp: nv_read_def nv_get_segment_metadata_def split: option.splits)
    obtain q p1 where d: "read_decrypt E seg raw p = (q, p1)" by fastforce
    note D = read_decrypt_effect [OF Cons.prems(1) d]
    have pl: "seg_plain E (wp_keys E p) ?lg sid = q" using Ok g D(2) by (simp add: seg_plain_def)
    show ?thesis
    proof (cases q)
      case e: (Err e)
      then have "p' = p1" "r = Err e" using Cons.prems(2) Ok g d by (auto simp: op_simps)
      then show ?thesis using D(1) pl e by simp
    next
      case x: (Ok x)
      have run: "read_loop E pol sids (acc @ decompress_by_policy E pol x) p1 = (r, p')"
        using Cons.prems(2) Ok g d x by (simp add: op_simps)
      have km: "wp_km_ok E p1" using D(1) by (simp add: only_keys_def)
      note IH = Cons.IH [OF km run]
      have same: "wp_keys E p1 = wp_keys E p" "wp_store p1 = wp_store p" using D(1) by (simp_all add: only_keys_def)
      show ?thesis
        using IH D(1) pl x same
        by (cases "read_pure E (wp_keys E p) ?lg pol sids") (auto intro: only_keys_trans)
    qed
  qed
qed

lemma read_capsule_effect:
  assumes "wp_km_ok E p" "read_capsule E cid p = (r, p')"
  shows "only_keys E p p'" "r = contents E (wp_keys E p) (wp_store p) cid"
proof -
  have "only_keys E p p' \<and> r = contents E (wp_keys E p) (wp_store p) cid"
  proof (cases "reg_lookup cid (st_registry (wp_store p))")
    case (Err e)
    then show ?thesis using assms by (auto simp: read_capsule_def op_simps contents_def only_keys_refl)
  next
    case (Ok c)
    then have "read_loop E (compression (cap_policy c)) (cap_segments c) [] p = (r, p')"
      using assms(2) by (simp add: read_capsule_def op_simps)
    from read_loop_effect [OF assms(1) this] show ?thesis
      using Ok by (cases "read_pure E (wp_keys E p) (st_nvram (wp_store p)) (compression (cap_policy c)) (cap_segments c)")
        (auto simp: contents_def)
  qed
  then show "only_keys E p p'" "r = contents E (wp_keys E p) (wp_store p) cid" by auto
qed

lemma read_pure_cong:
  assumes "\<And>sid. sid \<in> set sids \<Longrightarrow> seg_plain E kf lg' sid = seg_plain E kf lg sid"
  shows "read_pure E kf lg' pol sids = read_pure E kf lg pol sids"
  using assms by (induction sids) simp_all

text \<open>The contents of a capsule depend on its entry and on the segments it refers to.\<close>

lemma contents_cong:
  assumes "map_option (\<lambda>c. (cap_segments c, cap_policy c)) (hm_get (reg_capsules (st_registry st')) cid) =
      map_option (\<lambda>c. (cap_segments c, cap_policy c)) (hm_get (reg_capsules (st_registry st)) cid)"
    and "\<And>c sid. hm_get (reg_capsules (st_registry st)) cid = Some c \<Longrightarrow> sid \<in> set (cap_segments c) \<Longrightarrow>
      seg_plain E kf (st_nvram st') sid = seg_plain E kf (st_nvram st) sid"
  shows "contents E kf st' cid = contents E kf st cid"
proof (cases "hm_get (reg_capsules (st_registry st)) cid")
  case None
  then show ?thesis using assms(1) by (simp add: contents_def reg_lookup_def)
next
  case (Some c)
  then obtain c' where c': "hm_get (reg_capsules (st_registry st')) cid = Some c'"
    "cap_segments c' = cap_segments c" "cap_policy c' = cap_policy c"
    using assms(1) by (cases "hm_get (reg_capsules (st_registry st')) cid") auto
  have "read_pure E kf (st_nvram st') pol (cap_segments c) = read_pure E kf (st_nvram st) pol (cap_segments c)" for pol
    by (rule read_pure_cong) (rule assms(2) [OF Some])
  then show ?thesis by (simp add: contents_def reg_lookup_def Some c')
qed

section \<open>Encrypting one chunk\<close>

lemma apply_enc_meta_same [simp]:
  "seg_id (apply_enc_meta em seg) = seg_id seg" "seg_offset (apply_enc_meta em seg) = seg_offset seg"
  "seg_len (apply_enc_meta em seg) = seg_len seg" "seg_ref_count (apply_enc_meta em seg) = seg_ref_count seg"
  "seg_content_hash (apply_enc_meta em seg) = seg_content_hash seg"
  by (simp_all add: apply_enc_meta_def split: option.splits)

text \<open>What was stored decrypts, through the metadata stored with it, to what was encrypted.\<close>

definition decrypts_to :: "ext \<Rightarrow> keys \<Rightarrow> encryption_metadata option \<Rightarrow> bytes \<Rightarrow> bytes \<Rightarrow> bool" where
  "decrypts_to E kf em fd d \<longleftrightarrow>
     (\<forall>seg. \<not> seg_encrypted seg \<longrightarrow> seg_decrypt E kf (apply_enc_meta em seg) fd = Ok d)"

lemma decrypts_to_plain: "decrypts_to E kf None d d"
  by (simp add: decrypts_to_def apply_enc_meta_def seg_decrypt_def)

lemma decrypts_to_encrypted:
  assumes "xts_laws E" "encrypt_segment E d kp v t = Ok (c, m)" "length d < 2 ^ 32" "f v = Ok kp"
  shows "decrypts_to E (Some f) (Some (set_integrity_tag (compute_mac E c m (key1 kp) (key2 kp)) m)) c d"
proof -
  let ?m = "set_integrity_tag (compute_mac E c m (key1 kp) (key2 kp)) m"
  note S = encrypt_segment_effect [OF assms(1-3)]
  have meta: "segment_enc_meta (apply_enc_meta (Some ?m) seg) (length c) = ?m" for seg
    by (simp add: segment_enc_meta_def apply_enc_meta_def set_integrity_tag_def S(1,2) new_xts_def)
  have kv: "seg_key_version (apply_enc_meta (Some ?m) seg) = Some v" "seg_encrypted (apply_enc_meta (Some ?m) seg)" for seg
    by (simp_all add: apply_enc_meta_def set_integrity_tag_def S(2) new_xts_def)
  show ?thesis
    by (simp add: decrypts_to_def seg_decrypt_def kv meta verify_own_mac S(3) assms(4))
qed

lemma encrypt_chunk_effect:
  assumes km: "wp_km_ok E p" and run: "encrypt_chunk E enc d h p = (r, p')"
  shows "only_keys E p p'"
    and "xts_laws E \<Longrightarrow> length d < 2 ^ 32 \<Longrightarrow> r = Ok (fd, em) \<Longrightarrow>
      decrypts_to E (wp_keys E p) em fd d \<and> length fd = length d"
    and "\<not> enc \<Longrightarrow> r = Ok (d, None)"
    and "enc \<Longrightarrow> wp_key_manager p \<noteq> None \<Longrightarrow> hmac_len E \<Longrightarrow> 16 \<le> length d \<Longrightarrow> is_ok r"
proof -
  show "\<not> enc \<Longrightarrow> r = Ok (d, None)" using run by (simp add: encrypt_chunk_def)
  have "only_keys E p p' \<and>
    (xts_laws E \<longrightarrow> length d < 2 ^ 32 \<longrightarrow> r = Ok (fd, em) \<longrightarrow>
      decrypts_to E (wp_keys E p) em fd d \<and> length fd = length d) \<and>
    (enc \<longrightarrow> wp_key_manager p \<noteq> None \<longrightarrow> hmac_len E \<longrightarrow> 16 \<le> length d \<longrightarrow> is_ok r)"
  proof (cases "enc \<and> wp_key_manager p \<noteq> None")
    case False
    then show ?thesis
      using run only_keys_refl [OF km] by (auto simp: encrypt_chunk_def decrypts_to_plain split: if_splits option.splits)
  next
    case True
    then obtain km1 where k: "wp_key_manager p = Some km1" and e: enc by auto
    let ?v = "km_current_version km1" and ?t = "derive_tweak_from_hash (as_bytes (as_str h))"
    obtain q p1 where g: "wp_get_key E ?v p = (q, p1)" by fastforce
    note G = wp_get_key_effect [OF km g]
    have kf: "wp_keys E p = Some (derive_key E km1)" by (simp add: wp_keys_def k)
    have q: "q = map_result_err EncryptionFailed (derive_key E km1 ?v)" using G(2) kf by simp
    show ?thesis
    proof (cases "derive_key E km1 ?v")
      case (Err x)
      then have "p' = p1" "r = Err (EncryptionFailed x)"
        using run k e g q by (auto simp: encrypt_chunk_def op_simps Let_def)
      then show ?thesis using G(1) Err by (auto simp: derive_key_spec)
    next
      case kp: (Ok kp)
      show ?thesis
      proof (cases "encrypt_segment E d kp ?v ?t")
        case (Err x)
        then have "p' = p1" "r = Err (EncryptionFailed x)"
          using run k e g q kp by (auto simp: encrypt_chunk_def op_simps Let_def)
        then show ?thesis using G(1) Err by (auto simp: encrypt_segment_def xts_encrypt_def MIN_SECTOR_SIZE_def split: if_splits)
      next
        case (Ok cm)
        obtain c m where cm: "cm = (c, m)" by (cases cm)
        have r: "p' = p1" "r = Ok (c, Some (set_integrity_tag (compute_mac E c m (key1 kp) (key2 kp)) m))"
          using run k e g q kp Ok cm by (auto simp: encrypt_chunk_def op_simps Let_def)
        then show ?thesis
          using G(1) decrypts_to_encrypted [where f = "derive_key E km1", OF _ Ok [unfolded cm] _ kp] encrypt_segment_effect(1) [OF _ Ok [unfolded cm]]
          by (auto simp: kf)
      qed
    qed
  qed
  then show "only_keys E p p'"
    "xts_laws E \<Longrightarrow> length d < 2 ^ 32 \<Longrightarrow> r = Ok (fd, em) \<Longrightarrow>
      decrypts_to E (wp_keys E p) em fd d \<and> length fd = length d"
    "enc \<Longrightarrow> wp_key_manager p \<noteq> None \<Longrightarrow> hmac_len E \<Longrightarrow> 16 \<le> length d \<Longrightarrow> is_ok r" by auto
qed

section \<open>Storing one chunk\<close>

text \<open>The store grows: capsules are as before, present segments stay with the same plaintext.\<close>

definition grows :: "ext \<Rightarrow> keys \<Rightarrow> store \<Rightarrow> store \<Rightarrow> bool" where
  "grows E kf st st' \<longleftrightarrow> reg_capsules (st_registry st') = reg_capsules (st_registry st) \<and>
     (\<forall>k. hm_get (nv_segment_map (st_nvram st)) k \<noteq> None \<longrightarrow>
        hm_get (nv_segment_map (st_nvram st')) k \<noteq> None \<and>
        seg_plain E kf (st_nvram st') k = seg_plain E kf (st_nvram st) k)"

lemma grows_refl [simp]: "grows E kf st st"
  by (simp add: grows_def)

lemma grows_trans: "grows E kf a b \<Longrightarrow> grows E kf b c \<Longrightarrow> grows E kf a c"
  by (auto simp: grows_def)

definition io_free :: "store \<Rightarrow> bool" where
  "io_free st \<longleftrightarrow> nv_io (st_nvram st) = [] \<and> reg_io (st_registry st) = []"

text \<open>Room for \<open>n\<close> more segments with \<open>b\<close> more bytes.\<close>

definition capacity :: "nat \<Rightarrow> nat \<Rightarrow> store \<Rightarrow> bool" where
  "capacity n b st \<longleftrightarrow> ids_room n st \<and> room b (st_nvram st)"

lemma store_inv_cover:
  assumes "store_inv E kf extra st" "refs (reg_capsules (st_registry st)) (sid # extra) sid \<le> rc_of (st_nvram st) sid"
  shows "store_inv E kf (sid # extra) st"
proof -
  have "refs (reg_capsules (st_registry st)) (sid # extra) k \<le> rc_of (st_nvram st) k" for k
    using assms store_invD(5) [OF assms(1), of k] by (cases "k = sid") (auto simp: refs_def)
  then show ?thesis using assms(1) by (simp add: store_inv_def)
qed

text \<open>Appending a segment and storing its final metadata.\<close>

lemma new_segment_append:
  assumes inv: "store_inv E kf extra st" and cap: "capacity (Suc n) (length fd + b) st" and len: "length fd < 2 ^ 32"
    and run: "on_nvram (nv_append (next_sid st) fd) (st\<lparr>st_registry := snd (alloc_segment (st_registry st))\<rparr>) = (r, s2)"
  shows "store_inv E kf extra s2" "grows E kf st s2" "capacity n b s2" "is_ok r \<or> r = Err IoError"
    and "io_free st \<Longrightarrow> is_ok r \<and> io_free s2"
    and "reg_content_store (st_registry s2) = reg_content_store (st_registry st)"
    and "r = Ok seg0 \<Longrightarrow> seg0 = fresh_segment (next_sid st) (nv_next_offset (st_nvram st)) fd \<and>
      hm_get (nv_segment_map (st_nvram s2)) (next_sid st) = Some seg0 \<and> nv_read (next_sid st) (st_nvram s2) = Ok fd \<and>
      store_inv E kf (next_sid st # extra) s2 \<and> rc_of (st_nvram s2) = (rc_of (st_nvram st))(next_sid st := 1)"
proof -
  let ?sid = "next_sid st" and ?s1 = "st\<lparr>st_registry := snd (alloc_segment (st_registry st))\<rparr>"
  have cap': "ids_room (Suc n) st" "room (length fd + b) (st_nvram st)" using cap by (auto simp: capacity_def)
  note A = alloc_step [OF inv cap'(1) refl]
  note fresh = next_sid_fresh [OF inv]
  have fresh1: "hm_get (nv_segment_map (st_nvram ?s1)) ?sid = None" using fresh by simp
  have rm: "room (length fd) (st_nvram ?s1)" using cap'(2) by (simp add: room_def)
  note P = append_step [OF A(1) run fresh1 A(4) rm len]
  show "store_inv E kf extra s2" by (rule P(1))
  have ne: "k \<noteq> ?sid" if "hm_get (nv_segment_map (st_nvram st)) k \<noteq> None" for k using that fresh by auto
  obtain l where l: "nv_append ?sid fd (st_nvram st) = (r, l)" "s2 = ?s1\<lparr>st_nvram := l\<rparr>"
    using run by (auto simp: on_nvram_eq)
  have rm0: "room (length fd) (st_nvram st)" using rm by simp
  note L = nv_append_effect [OF l(1) store_invD(1) [OF inv] rm0 len]
  show "grows E kf st s2"
    unfolding grows_def
  proof (intro conjI allI impI)
    show "reg_capsules (st_registry s2) = reg_capsules (st_registry st)" using P(2) A(5) by simp
    fix k assume k: "hm_get (nv_segment_map (st_nvram st)) k \<noteq> None"
    show "hm_get (nv_segment_map (st_nvram s2)) k \<noteq> None" using L ne [OF k] k l(2) by auto
    show "seg_plain E kf (st_nvram s2) k = seg_plain E kf (st_nvram st) k" using P(3) [OF ne [OF k]] by simp
  qed
  show "capacity n b s2"
    using A(2) P(2,4) cap'(2) by (auto simp: capacity_def ids_room_def room_def)
  show "is_ok r \<or> r = Err IoError" using P(7) by blast
  show "io_free st \<Longrightarrow> is_ok r \<and> io_free s2" using P(2,6) A(7) by (simp add: io_free_def)
  show "reg_content_store (st_registry s2) = reg_content_store (st_registry st)" using P(2) A(6) by simp
  assume "r = Ok seg0"
  note Q = P(5) [OF this]
  have "refs (reg_capsules (st_registry s2)) (?sid # extra) ?sid \<le> rc_of (st_nvram s2) ?sid"
    using Q no_content_of_absent(2) [OF inv fresh] P(2) A(5) by (simp add: refs_def)
  then show "seg0 = fresh_segment ?sid (nv_next_offset (st_nvram st)) fd \<and>
      hm_get (nv_segment_map (st_nvram s2)) ?sid = Some seg0 \<and> nv_read ?sid (st_nvram s2) = Ok fd \<and>
      store_inv E kf (?sid # extra) s2 \<and> rc_of (st_nvram s2) = (rc_of (st_nvram st))(?sid := 1)"
    using Q store_inv_cover [OF P(1)] by simp
qed

lemma new_segment_update:
  assumes inv: "store_inv E kf extra st" and cap: "capacity (Suc n) (length fd + b) st" and len: "length fd < 2 ^ 32"
    and run: "on_nvram (nv_append (next_sid st) fd) (st\<lparr>st_registry := snd (alloc_segment (st_registry st))\<rparr>) = (Ok seg0, s2)"
    and upd: "on_nvram (nv_update_segment_metadata (next_sid st) seg) s2 = (r, s3)"
    and seg: "same_place seg0 seg" "seg_ref_count seg = 1" and dec: "seg_decrypt E kf seg fd = Ok d"
  shows "store_inv E kf (next_sid st # extra) s3" "grows E kf st s3" "capacity n b s3" "r = Ok () \<or> r = Err IoError"
    and "io_free st \<Longrightarrow> r = Ok () \<and> io_free s3"
    and "seg_plain E kf (st_nvram s3) (next_sid st) = Ok d"
    and "hm_get (nv_segment_map (st_nvram s3)) (next_sid st) = Some seg"
    and "refs_exact extra st \<Longrightarrow> refs_exact (next_sid st # extra) s3"
proof -
  let ?sid = "next_sid st"
  note A = new_segment_append [OF inv cap len run] and Q = new_segment_append(7) [OF inv cap len run refl]
  have inv2: "store_inv E kf (?sid # extra) s2" using Q by simp
  have pres: "hm_get (nv_segment_map (st_nvram s2)) ?sid = Some seg0" using Q by simp
  note fresh = next_sid_fresh [OF inv] and N = no_content_of_absent [OF inv next_sid_fresh [OF inv]]
  have gone: "hm_get (reg_content_store (st_registry s2)) h \<noteq> Some ?sid" for h
    using N(1) A(6) by simp
  have caps: "reg_capsules (st_registry s2) = reg_capsules (st_registry st)" using A(2) by (simp add: grows_def)
  have cover: "refs (reg_capsules (st_registry s2)) (?sid # extra) ?sid \<le> unat (seg_ref_count seg)"
    using N(2) seg(2) by (simp add: refs_def caps)
  note U = update_step [OF inv2 upd pres seg(1) gone cover]
  show "store_inv E kf (?sid # extra) s3" by (rule U(1))
  have ne: "k \<noteq> ?sid" if "hm_get (nv_segment_map (st_nvram st)) k \<noteq> None" for k using that fresh by auto
  have map3: "hm_get (nv_segment_map (st_nvram s3)) k = hm_get (nv_segment_map (st_nvram s2)) k" if "k \<noteq> ?sid" for k
    using upd that save_put(1) by (force simp: on_nvram_eq nv_update_segment_metadata_def put_step_def)
  show "grows E kf st s3"
    using A(2) U(2,4) map3 ne by (auto simp: grows_def)
  show "capacity n b s3" using A(3) U(2,7) by (simp add: capacity_def ids_room_def room_def)
  show "r = Ok () \<or> r = Err IoError" by (rule U(8))
  show "io_free st \<Longrightarrow> r = Ok () \<and> io_free s3" using A(5) U(2,9) by (simp add: io_free_def)
  show g3: "hm_get (nv_segment_map (st_nvram s3)) ?sid = Some seg" by (rule U(5))
  show "seg_plain E kf (st_nvram s3) ?sid = Ok d"
    using Q U(3) g3 dec by (simp add: seg_plain_def nv_get_segment_metadata_def)
  show "refs_exact extra st \<Longrightarrow> refs_exact (?sid # extra) s3"
  proof -
    assume ex: "refs_exact extra st"
    have "rc_of (st_nvram s3) k = (if k = ?sid then 1 else rc_of (st_nvram st) k)" for k
      using U(6) Q seg(2) by simp
    then show ?thesis using ex N(2) U(2) caps by (auto simp: refs_exact_def refs_def)
  qed
qed

text \<open>
  What \<open>store_chunk\<close> guarantees for a chunk with stored form \<open>fd\<close>, plaintext \<open>d\<close> and hash \<open>h\<close>:
  the identifier it returns names a segment whose plaintext has the hash \<open>h\<close> (and is \<open>d\<close> itself,
  unless an old segment with the same hash was reused).
\<close>

definition chunk_result ::
  "ext \<Rightarrow> keys \<Rightarrow> segment_id list \<Rightarrow> store \<Rightarrow> bytes \<Rightarrow> (segment_id \<times> dedup_stats, error) result \<Rightarrow> store \<Rightarrow> bool" where
  "chunk_result E kf extra st d r st' \<longleftrightarrow> grows E kf st st' \<and> store_inv E kf extra st' \<and>
     (\<forall>sid stats. r = Ok (sid, stats) \<longrightarrow>
        store_inv E kf (sid # extra) st' \<and> (refs_exact extra st \<longrightarrow> refs_exact (sid # extra) st') \<and>
        (\<exists>d'. seg_plain E kf (st_nvram st') sid = Ok d' \<and> hash_content E d' = hash_content E d \<and>
           (d' = d \<or> seg_plain E kf (st_nvram st) sid = Ok d')) \<and>
        (\<forall>k x. seg_plain E kf (st_nvram st') k = Ok x \<longrightarrow> x = d \<or> seg_plain E kf (st_nvram st) k = Ok x))"

lemma seg_plain_present: "seg_plain E kf lg k = Ok x \<Longrightarrow> hm_get (nv_segment_map lg) k \<noteq> None"
  by (auto simp: seg_plain_def nv_read_def bind_result_Ok_iff split: option.splits)

lemma grows_plain_other:
  assumes "grows E kf st st'" "seg_plain E kf (st_nvram st') k = Ok x"
    and "\<And>k. k \<noteq> sid \<Longrightarrow> hm_get (nv_segment_map (st_nvram st)) k = None \<Longrightarrow> hm_get (nv_segment_map (st_nvram st')) k = None"
    and "k \<noteq> sid"
  shows "seg_plain E kf (st_nvram st) k = Ok x"
  using assms(1,2) assms(3) [OF assms(4)] seg_plain_present [OF assms(2)] unfolding grows_def by metis

lemma write_new_map:
  assumes "on_nvram (nv_append sid fd) st1 = (r2, s2)" "k \<noteq> sid"
  shows "hm_get (nv_segment_map (st_nvram s2)) k = hm_get (nv_segment_map (st_nvram st1)) k"
proof -
  obtain l where l: "nv_append sid fd (st_nvram st1) = (r2, l)" "s2 = st1\<lparr>st_nvram := l\<rparr>"
    using assms(1) by (auto simp: on_nvram_eq)
  show ?thesis
    by (cases rule: nv_append_outcome [of sid fd "st_nvram st1"]) (use l assms(2) in auto)
qed

lemma chunk_result_err:
  assumes "store_inv E kf extra st'" "grows E kf st st'" "\<not> is_ok r"
  shows "chunk_result E kf extra st d r st'"
  using assms by (auto simp: chunk_result_def)

text \<open>Both ways of writing a new segment end like this.\<close>

lemma chunk_result_new:
  assumes inv: "store_inv E kf extra st" and cap: "capacity (Suc n) (length fd + b) st" and len: "length fd < 2 ^ 32"
    and run: "on_nvram (nv_append (next_sid st) fd) (st\<lparr>st_registry := snd (alloc_segment (st_registry st))\<rparr>) = (Ok seg0, s2)"
    and upd: "on_nvram (nv_update_segment_metadata (next_sid st) seg) s2 = (Ok (), s3)"
    and seg: "same_place seg0 seg" "seg_ref_count seg = 1" and dec: "seg_decrypt E kf seg fd = Ok d"
  shows "chunk_result E kf extra st d (Ok (next_sid st, stats)) s3"
proof -
  note U = new_segment_update [OF inv cap len run upd seg dec]
  have other: "x = d \<or> seg_plain E kf (st_nvram st) k = Ok x" if pl: "seg_plain E kf (st_nvram s3) k = Ok x" for k x
  proof (cases "k = next_sid st")
    case True
    then show ?thesis using U(6) pl by simp
  next
    case False
    have "hm_get (nv_segment_map (st_nvram s3)) j = hm_get (nv_segment_map (st_nvram st)) j" if "j \<noteq> next_sid st" for j
    proof -
      have "hm_get (nv_segment_map (st_nvram s3)) j = hm_get (nv_segment_map (st_nvram s2)) j"
        using upd that save_put(1) by (force simp: on_nvram_eq nv_update_segment_metadata_def put_step_def)
      then show ?thesis using write_new_map [OF run that] by simp
    qed
    then show ?thesis using grows_plain_other [OF U(2) pl _ False] by simp
  qed
  have "store_inv E kf extra s3" by (rule store_inv_less_extra [OF U(1)]) simp
  then show ?thesis using U(1,2,6,8) other by (auto simp: chunk_result_def)
qed

lemma write_new_plain_effect:
  assumes inv: "store_inv E kf extra st" and cap: "capacity (Suc n) (length fd + b) st" and len: "length fd < 2 ^ 32"
    and dec: "decrypts_to E kf em fd d" and run: "write_new_plain fd cr em stats st = (r, st')"
  shows "chunk_result E kf extra st d r st'" "capacity n b st'" "io_free st \<Longrightarrow> is_ok r \<and> io_free st'"
proof -
  let ?sid = "next_sid st"
  have sid: "fst (alloc_segment (st_registry st)) = ?sid" by (simp add: alloc_segment_def next_sid_def)
  obtain r2 s2 where a: "on_nvram (nv_append ?sid fd) (st\<lparr>st_registry := snd (alloc_segment (st_registry st))\<rparr>) = (r2, s2)"
    by fastforce
  note A = new_segment_append [OF inv cap len a]
  have "chunk_result E kf extra st d r st' \<and> capacity n b st' \<and> (io_free st \<longrightarrow> is_ok r \<and> io_free st')"
  proof (cases r2)
    case (Err e)
    then have "st' = s2" "\<not> is_ok r" using run a sid by (auto simp: write_new_plain_def op_simps Let_def)
    then show ?thesis using A(1-5) Err chunk_result_err by auto
  next
    case (Ok seg0)
    define seg where "seg = apply_enc_meta em (seg0\<lparr>seg_compressed := cr_compressed cr,
        seg_compression_algo := cr_algorithm cr, seg_ref_count := 1, seg_deduplicated := False\<rparr>)"
    have seg0: "seg0 = fresh_segment ?sid (nv_next_offset (st_nvram st)) fd" using A(7) Ok by simp
    have place: "same_place seg0 seg" "seg_ref_count seg = 1" by (simp_all add: seg_def same_place_def)
    have dc: "seg_decrypt E kf seg fd = Ok d"
      using dec unfolding decrypts_to_def seg_def by (simp add: seg0 fresh_segment_def)
    obtain r3 s3 where u: "on_nvram (nv_update_segment_metadata ?sid seg) s2 = (r3, s3)" by fastforce
    note U = new_segment_update [OF inv cap len a [unfolded Ok] u place dc]
    have inv3: "store_inv E kf extra s3" by (rule store_inv_less_extra [OF U(1)]) simp
    show ?thesis
    proof (cases r3)
      case e: (Err e)
      then have "st' = s3" "\<not> is_ok r"
        using run a sid Ok u by (auto simp: write_new_plain_def op_simps Let_def seg_def)
      then show ?thesis using U(2-5) inv3 e chunk_result_err by auto
    next
      case ok: (Ok x)
      then have r: "st' = s3" "r = Ok (?sid, add_segment_stats (of_nat (length fd)) False stats)"
        using run a sid Ok u by (auto simp: write_new_plain_def op_simps Let_def seg_def)
      have "chunk_result E kf extra st d r s3"
        unfolding r(2) by (rule chunk_result_new [OF inv cap len a [unfolded Ok] _ place dc]) (use u ok in simp)
      then show ?thesis using U(3,5) r by auto
    qed
  qed
  then show "chunk_result E kf extra st d r st'" "capacity n b st'" "io_free st \<Longrightarrow> is_ok r \<and> io_free st'" by auto
qed

lemma write_new_dedup_effect:
  assumes inv: "store_inv E kf extra st" and cap: "capacity (Suc n) (length fd + b) st" and len: "length fd < 2 ^ 32"
    and dec: "decrypts_to E kf em fd d" and run: "write_new_dedup (hash_content E d) fd cr em stats st = (r, st')"
  shows "chunk_result E kf extra st d r st'" "capacity n b st'" "io_free st \<Longrightarrow> is_ok r \<and> io_free st'"
proof -
  let ?sid = "next_sid st" and ?h = "hash_content E d"
  have sid: "fst (alloc_segment (st_registry st)) = ?sid" by (simp add: alloc_segment_def next_sid_def)
  obtain r2 s2 where a: "on_nvram (nv_append ?sid fd) (st\<lparr>st_registry := snd (alloc_segment (st_registry st))\<rparr>) = (r2, s2)"
    by fastforce
  note A = new_segment_append [OF inv cap len a]
  have "chunk_result E kf extra st d r st' \<and> capacity n b st' \<and> (io_free st \<longrightarrow> is_ok r \<and> io_free st')"
  proof (cases r2)
    case (Err e)
    then have "st' = s2" "\<not> is_ok r" using run a sid by (auto simp: write_new_dedup_def op_simps Let_def)
    then show ?thesis using A(1-5) Err chunk_result_err by auto
  next
    case (Ok seg0)
    define seg where "seg = apply_enc_meta em (seg0\<lparr>seg_compressed := cr_compressed cr,
        seg_compression_algo := cr_algorithm cr, seg_content_hash := Some ?h, seg_ref_count := 1,
        seg_deduplicated := False\<rparr>)"
    have seg0: "seg0 = fresh_segment ?sid (nv_next_offset (st_nvram st)) fd" using A(7) Ok by simp
    have place: "same_place seg0 seg" "seg_ref_count seg = 1" and h: "seg_content_hash seg = Some ?h"
      by (simp_all add: seg_def same_place_def)
    have dc: "seg_decrypt E kf seg fd = Ok d"
      using dec unfolding decrypts_to_def seg_def by (simp add: seg0 fresh_segment_def)
    obtain r3 s3 where u: "on_nvram (nv_update_segment_metadata ?sid seg) s2 = (r3, s3)" by fastforce
    note U = new_segment_update [OF inv cap len a [unfolded Ok] u place dc]
    have inv3: "store_inv E kf extra s3" by (rule store_inv_less_extra [OF U(1)]) simp
    show ?thesis
    proof (cases r3)
      case e: (Err e)
      then have "st' = s3" "\<not> is_ok r"
        using run a sid Ok u by (auto simp: write_new_dedup_def op_simps Let_def seg_def)
      then show ?thesis using U(2-5) inv3 e chunk_result_err by auto
    next
      case ok: (Ok x)
      obtain r4 s4 where g: "on_registry (reg_register_content ?h ?sid) s3 = (r4, s4)" by fastforce
      note R = register_step [OF inv3 g U(7) h U(6) refl] and R' = register_step [OF U(1) g U(7) h U(6) refl]
      have gr: "grows E kf st s4" using U(2) R(2,3) by (simp add: grows_def)
      have cap4: "capacity n b s4" using U(3) R(2,4) by (simp add: capacity_def ids_room_def)
      have io4: "io_free st \<Longrightarrow> r4 = Ok () \<and> io_free s4" using U(5) R(2,5) by (simp add: io_free_def)
      have new: "chunk_result E kf extra st d (Ok (?sid, stats')) s3" for stats'
        by (rule chunk_result_new [OF inv cap len a [unfolded Ok] _ place dc]) (use u ok in simp)
      show ?thesis
      proof (cases r4)
        case e: (Err e)
        then have "st' = s4" "\<not> is_ok r"
          using run a sid Ok u ok g by (auto simp: write_new_dedup_def op_simps Let_def seg_def)
        then show ?thesis using R(1) gr cap4 io4 e chunk_result_err by auto
      next
        case ok4: (Ok y)
        then have r: "st' = s4" "r = Ok (?sid, add_segment_stats (of_nat (length fd)) False stats)"
          using run a sid Ok u ok g by (auto simp: write_new_dedup_def op_simps Let_def seg_def)
        have "chunk_result E kf extra st d r s4"
          using new [of "add_segment_stats (of_nat (length fd)) False stats"] R(1-3) R'(1) r(2) gr
          by (auto simp: chunk_result_def refs_exact_def)
        then show ?thesis using r cap4 io4 by auto
      qed
    qed
  qed
  then show "chunk_result E kf extra st d r st'" "capacity n b st'" "io_free st \<Longrightarrow> is_ok r \<and> io_free st'" by auto
qed

text \<open>The room for the references of one more chunk.\<close>

definition refs_room :: "nat \<Rightarrow> segment_id list \<Rightarrow> store \<Rightarrow> bool" where
  "refs_room n extra st \<longleftrightarrow> length (capsule_refs (reg_capsules (st_registry st))) + length extra + n < 2 ^ 32"

lemma store_chunk_effect:
  assumes inv: "store_inv E kf extra st" and cap: "capacity (Suc n) (length fd + b) st" and len: "length fd < 2 ^ 32"
    and rr: "refs_room 1 extra st" and dec: "decrypts_to E kf em fd d"
    and run: "store_chunk dd (hash_content E d) fd cr em stats st = (r, st')"
  shows "chunk_result E kf extra st d r st'" "capacity n b st'" "io_free st \<Longrightarrow> is_ok r \<and> io_free st'"
proof -
  let ?h = "hash_content E d"
  have "chunk_result E kf extra st d r st' \<and> capacity n b st' \<and> (io_free st \<longrightarrow> is_ok r \<and> io_free st')"
  proof (cases "dd \<and> reg_lookup_content ?h (st_registry st) \<noteq> None")
    case False
    then show ?thesis
      using run write_new_plain_effect [OF inv cap len dec] write_new_dedup_effect [OF inv cap len dec]
      by (cases dd) (auto simp: store_chunk_def)
  next
    case True
    then obtain sid where l: "hm_get (reg_content_store (st_registry st)) ?h = Some sid"
      by (auto simp: reg_lookup_content_def)
    obtain seg d' where sd: "hm_get (nv_segment_map (st_nvram st)) sid = Some seg"
      "seg_plain E kf (st_nvram st) sid = Ok d'" "hash_content E d' = ?h"
      by (rule content_okD [OF store_invD(4) [OF inv] l]) blast
    obtain r2 s2 where i: "on_nvram (nv_increment_refcount sid) st = (r2, s2)" by fastforce
    have bound: "refs (reg_capsules (st_registry st)) extra sid + 1 < 2 ^ 32"
      using rr refs_le_length [of "reg_capsules (st_registry st)" extra sid] by (simp add: refs_room_def)
    note I = increment_step [OF inv i sd(1) bound]
    have st': "st' = s2" and rel: "is_ok r = is_ok r2" "\<And>s t. r = Ok (s, t) \<Longrightarrow> s = sid"
      using run True l i by (cases r2; auto simp: store_chunk_def reg_lookup_content_def op_simps)+
    have inv2: "store_inv E kf extra s2" by (rule store_inv_less_extra [OF I(1)]) simp
    have gr: "grows E kf st s2"
      unfolding grows_def
    proof (intro conjI allI impI)
      fix k assume k: "hm_get (nv_segment_map (st_nvram st)) k \<noteq> None"
      obtain l' where "nv_increment_refcount sid (st_nvram st) = (r2, l')" "s2 = st\<lparr>st_nvram := l'\<rparr>"
        using i by (auto simp: on_nvram_eq)
      then show "hm_get (nv_segment_map (st_nvram s2)) k \<noteq> None"
        using nv_increment_cases(2) [of sid "st_nvram st" r2 l' seg] sd(1) k by (auto simp: put_step_def)
    qed (simp_all add: I(2,3))
    have ex: "refs_exact extra st \<Longrightarrow> refs_exact (sid # extra) s2"
      using I(2,4) bound by (auto simp: refs_exact_def refs_def)
    have cap2: "capacity n b s2" using cap I(2,6) by (simp add: capacity_def ids_room_def room_def)
    have io2: "io_free st \<longrightarrow> is_ok r \<and> io_free s2" using I(2,7) rel(1) by (simp add: io_free_def)
    have "chunk_result E kf extra st d r s2"
      unfolding chunk_result_def
    proof (intro conjI allI impI)
      fix s t assume r: "r = Ok (s, t)"
      then have s: "s = sid" by (rule rel(2))
      show "store_inv E kf (s # extra) s2" using I(1) s by simp
      show "refs_exact (s # extra) s2" if "refs_exact extra st" using ex that s by simp
      show "\<exists>d'. seg_plain E kf (st_nvram s2) s = Ok d' \<and> hash_content E d' = ?h \<and>
          (d' = d \<or> seg_plain E kf (st_nvram st) s = Ok d')"
        using sd(2,3) s by (simp add: I(3))
      show "x = d \<or> seg_plain E kf (st_nvram st) k = Ok x" if "seg_plain E kf (st_nvram s2) k = Ok x" for k x
        using that by (simp add: I(3))
    qed (rule gr inv2)+
    then show ?thesis using st' cap2 io2 by simp
  qed
  then show "chunk_result E kf extra st d r st'" "capacity n b st'" "io_free st \<Longrightarrow> is_ok r \<and> io_free st'" by auto
qed

section \<open>The write loop\<close>

lemma compress_length: "compress_segment E c pol = Ok (v, res) \<Longrightarrow> length v \<le> length c"
  unfolding compress_segment_def by (cases rule: adaptive_compress_cases [of E c pol v res]) auto

lemma capacity_mono: "capacity n b st \<Longrightarrow> b' \<le> b \<Longrightarrow> capacity n b' st"
  by (auto simp: capacity_def room_def)

text \<open>The conditions under which a chunk cannot fail for a reason other than I/O.\<close>

definition chunk_ready :: "ext \<Rightarrow> policy \<Rightarrow> bool \<Rightarrow> bytes \<Rightarrow> bool" where
  "chunk_ready E pol enc c \<longleftrightarrow>
     (\<exists>v res. compress_segment E c (compression pol) = Ok (v, res) \<and> (enc \<longrightarrow> hmac_len E \<and> 16 \<le> length v))"

lemma write_chunk_effect:
  assumes km: "wp_km_ok E p" and xts: "xts_laws E"
    and inv: "store_inv E (wp_keys E p) extra (wp_store p)"
    and cap: "capacity (Suc n) (length c + b) (wp_store p)" and len: "length c < 2 ^ 32"
    and rr: "refs_room 1 extra (wp_store p)" and run: "write_chunk E pol enc i c stats p = (r, p')"
  shows "wp_km_ok E p' \<and> wp_keys E p' = wp_keys E p \<and> (wp_key_manager p = None \<longleftrightarrow> wp_key_manager p' = None) \<and>
    (\<exists>d. chunk_result E (wp_keys E p) extra (wp_store p) d r (wp_store p') \<and>
       (is_ok r \<longrightarrow> (\<exists>res. compress_segment E c (compression pol) = Ok (d, res)))) \<and>
    (is_ok r \<longrightarrow> capacity n b (wp_store p')) \<and>
    (io_free (wp_store p) \<and> chunk_ready E pol enc c \<and> (enc \<longrightarrow> wp_key_manager p \<noteq> None) \<longrightarrow>
       is_ok r \<and> io_free (wp_store p'))"
proof (cases "compress_segment E c (compression pol)")
  case (Err e)
  then have "p' = p" "\<not> is_ok r" using run by (auto simp: write_chunk_def op_simps)
  then show ?thesis using km Err chunk_result_err [OF inv grows_refl] by (auto simp: chunk_ready_def)
next
  case (Ok vr)
  obtain v res where vr: "vr = (v, res)" by (cases vr)
  have lv: "length v \<le> length c" by (rule compress_length [OF Ok [unfolded vr]])
  then have lv32: "length v < 2 ^ 32" using len by simp
  obtain q p1 where e: "encrypt_chunk E enc v (hash_content E v) p = (q, p1)" by fastforce
  note X = encrypt_chunk_effect [OF km e]
  have p1: "wp_store p1 = wp_store p" "wp_keys E p1 = wp_keys E p" "wp_km_ok E p1"
    using X(1) by (simp_all add: only_keys_def)
  have kmn: "wp_key_manager p = None \<longleftrightarrow> wp_key_manager p1 = None"
    using p1(2) by (metis option.map_disc_iff wp_keys_def)
  show ?thesis
  proof (cases q)
    case er: (Err x)
    then have "p' = p1" "\<not> is_ok r" using run Ok vr e er by (auto simp: write_chunk_def op_simps Let_def)
    then show ?thesis
      using p1 kmn chunk_result_err [OF inv grows_refl] X(3) X(4) er Ok vr by (auto simp: chunk_ready_def)
  next
    case fe: (Ok fe)
    obtain fd em where fem: "fe = (fd, em)" by (cases fe)
    have dec: "decrypts_to E (wp_keys E p) em fd v" "length fd = length v"
      using X(2) [OF xts lv32] fe fem by auto
    obtain q2 st' where s: "store_chunk (dedupe pol) (hash_content E v) fd res em stats (wp_store p) = (q2, st')"
      by fastforce
    have r: "r = q2" "p' = p1\<lparr>wp_store := st'\<rparr>"
      using run Ok vr e fe fem s p1(1) by (auto simp: write_chunk_def op_simps on_store_def Let_def)
    have cap': "capacity (Suc n) (length fd + b) (wp_store p)"
      by (rule capacity_mono [OF cap]) (use dec(2) lv in simp)
    have lfd: "length fd < 2 ^ 32" using dec(2) lv32 by simp
    note S = store_chunk_effect [OF inv cap' lfd rr dec(1) s]
    have keys': "wp_keys E p' = wp_keys E p" "wp_km_ok E p'" "wp_key_manager p' = wp_key_manager p1"
      using p1 r(2) by (simp_all add: wp_keys_def wp_km_ok_def)
    show ?thesis
      using S r keys' kmn Ok vr by auto
  qed
qed

text \<open>The plaintexts that a log holds under some keys.\<close>

definition stored_plain :: "ext \<Rightarrow> keys \<Rightarrow> nvram_log \<Rightarrow> bytes set" where
  "stored_plain E kf lg = {x. \<exists>k. seg_plain E kf lg k = Ok x}"

text \<open>The compressed forms of the chunks of some data.\<close>

definition chunk_views :: "ext \<Rightarrow> policy \<Rightarrow> bytes list \<Rightarrow> bytes set" where
  "chunk_views E pol cs = {v. \<exists>c\<in>set cs. \<exists>res. compress_segment E c (compression pol) = Ok (v, res)}"

text \<open>The segments written for a list of chunks hold the chunks' compressed forms.\<close>

definition holds_chunks :: "ext \<Rightarrow> keys \<Rightarrow> policy \<Rightarrow> nvram_log \<Rightarrow> bytes list \<Rightarrow> segment_id list \<Rightarrow> bool" where
  "holds_chunks E kf pol lg cs sids \<longleftrightarrow>
     list_all2 (\<lambda>c sid. \<exists>v res. compress_segment E c (compression pol) = Ok (v, res) \<and> seg_plain E kf lg sid = Ok v) cs sids"

lemma write_loop_effect:
  assumes "wp_km_ok E p" "xts_laws E" "store_inv E (wp_keys E p) ids (wp_store p)"
    and "capacity (length items) (sum_list (map (length \<circ> snd) items)) (wp_store p)"
    and "\<forall>(i, c)\<in>set items. length c < 2 ^ 32" "refs_room (length items) ids (wp_store p)"
    and "write_loop E pol enc items ids stats p = (r, p')"
  shows "wp_km_ok E p' \<and> wp_keys E p' = wp_keys E p \<and>
    grows E (wp_keys E p) (wp_store p) (wp_store p') \<and>
    store_inv E (wp_keys E p) [] (wp_store p') \<and>
    (\<forall>ids' stats'. r = Ok (ids', stats') \<longrightarrow> store_inv E (wp_keys E p) ids' (wp_store p') \<and>
       (refs_exact ids (wp_store p) \<longrightarrow> refs_exact ids' (wp_store p')) \<and>
       (\<exists>new. ids' = ids @ new \<and> length new = length items \<and>
          (collision_free E (stored_plain E (wp_keys E p) (st_nvram (wp_store p)) \<union> chunk_views E pol (map snd items)) \<longrightarrow>
             holds_chunks E (wp_keys E p) pol (st_nvram (wp_store p')) (map snd items) new))) \<and>
    (io_free (wp_store p) \<and> (\<forall>(i, c)\<in>set items. chunk_ready E pol enc c) \<and> (enc \<longrightarrow> wp_key_manager p \<noteq> None) \<longrightarrow>
       is_ok r \<and> io_free (wp_store p'))"
  using assms
proof (induction items arbitrary: ids stats p)
  case Nil
  have "store_inv E (wp_keys E p) [] (wp_store p)" by (rule store_inv_less_extra [OF Nil.prems(3)]) simp
  then show ?case using Nil.prems by (auto simp: holds_chunks_def)
next
  case (Cons it items)
  obtain i c where it: "it = (i, c)" by (cases it)
  let ?kf = "wp_keys E p" and ?b = "sum_list (map (length \<circ> snd) items)"
  obtain q p1 where w: "write_chunk E pol enc i c stats p = (q, p1)" by fastforce
  have cap: "capacity (Suc (length items)) (length c + ?b) (wp_store p)" using Cons.prems(4) by (simp add: it comp_def)
  have len: "length c < 2 ^ 32" and rr: "refs_room 1 ids (wp_store p)"
    using Cons.prems(5,6) by (auto simp: it refs_room_def)
  note W = write_chunk_effect [OF Cons.prems(1,2,3) cap len rr w]
  obtain d where cr: "chunk_result E ?kf ids (wp_store p) d q (wp_store p1)"
    and dv: "is_ok q \<longrightarrow> (\<exists>res. compress_segment E c (compression pol) = Ok (d, res))" using W by auto
  show ?case
  proof (cases q)
    case (Err e)
    then have p': "p' = p1" "r = Err e" using Cons.prems(7) w by (auto simp: it)
    have "store_inv E ?kf [] (wp_store p1)"
      by (rule store_inv_less_extra [of E ?kf ids]) (use cr in \<open>simp_all add: chunk_result_def\<close>)
    then show ?thesis using W cr p' Err by (auto simp: chunk_result_def it)
  next
    case (Ok st)
    obtain sid stats1 where st: "st = (sid, stats1)" by (cases st)
    have run: "write_loop E pol enc items (ids @ [sid]) stats1 p1 = (r, p')"
      using Cons.prems(7) w Ok by (simp add: it st)
    have R: "store_inv E ?kf (sid # ids) (wp_store p1)" "grows E ?kf (wp_store p) (wp_store p1)"
      "refs_exact ids (wp_store p) \<longrightarrow> refs_exact (sid # ids) (wp_store p1)"
      using cr Ok st by (auto simp: chunk_result_def)
    have keys: "wp_keys E p1 = ?kf" "wp_km_ok E p1" using W by auto
    have inv1: "store_inv E (wp_keys E p1) (ids @ [sid]) (wp_store p1)"
      unfolding keys by (rule store_inv_less_extra [OF R(1)]) simp
    have ex1: "refs_exact ids (wp_store p) \<longrightarrow> refs_exact (ids @ [sid]) (wp_store p1)"
    proof -
      have "refs caps (ids @ [sid]) k = refs caps (sid # ids) k" for caps k by (simp add: refs_def)
      then show ?thesis using R(3) by (simp only: refs_exact_def)
    qed
    have cap1: "capacity (length items) ?b (wp_store p1)" using W Ok by simp
    have rr1: "refs_room (length items) (ids @ [sid]) (wp_store p1)"
      using Cons.prems(6) R(2) by (simp add: refs_room_def grows_def)
    have len1: "\<forall>(i, c)\<in>set items. length c < 2 ^ 32" using Cons.prems(5) by simp
    note IH = Cons.IH [OF keys(2) Cons.prems(2) inv1 cap1 len1 rr1 run, unfolded keys]
    obtain res where cmp: "compress_segment E c (compression pol) = Ok (d, res)" using dv Ok by auto
    let ?A = "stored_plain E ?kf (st_nvram (wp_store p)) \<union> chunk_views E pol (map snd (it # items))"
    have sub: "stored_plain E ?kf (st_nvram (wp_store p1)) \<union> chunk_views E pol (map snd items) \<subseteq> ?A"
      using cr Ok st cmp by (auto simp: chunk_result_def stored_plain_def chunk_views_def it)
    have here: "seg_plain E ?kf (st_nvram (wp_store p1)) sid = Ok d" if "collision_free E ?A"
    proof -
      obtain d' where d': "seg_plain E ?kf (st_nvram (wp_store p1)) sid = Ok d'" "hash_content E d' = hash_content E d"
        "d' = d \<or> seg_plain E ?kf (st_nvram (wp_store p)) sid = Ok d'"
        using cr Ok st by (auto simp: chunk_result_def)
      have "d \<in> ?A" "d' \<in> ?A" using d'(3) cmp by (auto simp: stored_plain_def chunk_views_def it)
      with that d'(2) have "d' = d" by (auto simp: collision_free_def hash_content_def inj_on_def)
      with d'(1) show ?thesis by simp
    qed
    have fin: "holds_chunks E ?kf pol (st_nvram (wp_store p')) (map snd (it # items)) (sid # new)"
      if "collision_free E ?A" "holds_chunks E ?kf pol (st_nvram (wp_store p')) (map snd items) new" for new
    proof -
      have "seg_plain E ?kf (st_nvram (wp_store p')) sid = seg_plain E ?kf (st_nvram (wp_store p1)) sid"
        using IH seg_plain_present [OF here [OF that(1)]] by (auto simp: grows_def)
      then show ?thesis using that here cmp by (auto simp: holds_chunks_def it)
    qed
    have cf: "collision_free E ?A \<Longrightarrow>
        collision_free E (stored_plain E ?kf (st_nvram (wp_store p1)) \<union> chunk_views E pol (map snd items))"
      unfolding collision_free_def by (rule inj_on_subset [OF _ sub])
    have gr: "grows E ?kf (wp_store p) (wp_store p')" using grows_trans [OF R(2)] IH by blast
    have ioimp: "io_free (wp_store p) \<and> (\<forall>(i, c)\<in>set (it # items). chunk_ready E pol enc c) \<and> (enc \<longrightarrow> wp_key_manager p \<noteq> None) \<longrightarrow>
       is_ok r \<and> io_free (wp_store p')"
      using IH W by (auto simp: it)
    have okimp: "store_inv E ?kf ids' (wp_store p') \<and> (refs_exact ids (wp_store p) \<longrightarrow> refs_exact ids' (wp_store p')) \<and>
       (\<exists>new. ids' = ids @ new \<and> length new = length (it # items) \<and>
          (collision_free E ?A \<longrightarrow> holds_chunks E ?kf pol (st_nvram (wp_store p')) (map snd (it # items)) new))"
      if res': "r = Ok (ids', stats')" for ids' stats'
    proof -
      obtain new where new: "ids' = (ids @ [sid]) @ new" "length new = length items"
        "collision_free E (stored_plain E ?kf (st_nvram (wp_store p1)) \<union> chunk_views E pol (map snd items)) \<longrightarrow>
           holds_chunks E ?kf pol (st_nvram (wp_store p')) (map snd items) new"
        using IH res' by blast
      have "collision_free E ?A \<longrightarrow> holds_chunks E ?kf pol (st_nvram (wp_store p')) (map snd (it # items)) (sid # new)"
        using new(3) cf fin by blast
      then show ?thesis using new(1,2) IH res' ex1 by (intro conjI exI [of _ "sid # new"]) auto
    qed
    show ?thesis using IH gr ioimp okimp by blast
  qed
qed

end
