(* ===== verification/Pipeline_Correct.thy ===== *)
theory Pipeline_Correct
  imports Pipeline_Invariant
begin

text \<open>
  What each operation of the write pipeline does to the contents of the capsules: writing,
  reading, range reads, deletion, collection and reconciliation, under every pattern of I/O
  failures, and the step relation of the whole pipeline.
\<close>

section \<open>Writing a capsule\<close>

definition wp_inv :: "ext \<Rightarrow> write_pipeline \<Rightarrow> bool" where
  "wp_inv E p \<longleftrightarrow> wp_km_ok E p \<and> store_inv E (wp_keys E p) [] (wp_store p)"

text \<open>What a reader of the pipeline sees under a capsule identifier.\<close>

abbreviation wp_contents :: "ext \<Rightarrow> write_pipeline \<Rightarrow> capsule_id \<Rightarrow> (bytes, error) result" where
  "wp_contents E p cid \<equiv> contents E (wp_keys E p) (wp_store p) cid"

text \<open>The data fits: segment identifiers, offsets and reference counts do not run out.\<close>

definition fits :: "bytes \<Rightarrow> write_pipeline \<Rightarrow> bool" where
  "fits data p \<longleftrightarrow> capacity (length (chunks SEGMENT_SIZE data)) (length data) (wp_store p) \<and>
     refs_room (length (chunks SEGMENT_SIZE data)) [] (wp_store p)"

text \<open>
  A chunk stored as it is must not look like a frame of the policy's codec, because reading
  decides by trying to decode.
\<close>

definition raw_rejected :: "ext \<Rightarrow> compression_policy \<Rightarrow> bytes \<Rightarrow> bool" where
  "raw_rejected E pol c \<longleftrightarrow> (pol \<noteq> CompressionNone \<longrightarrow>
     (\<forall>res. compress_segment E c pol = Ok (c, res) \<and> \<not> cr_compressed res \<longrightarrow> \<not> is_ok (decode_as E pol c)))"

lemma decompress_view:
  assumes "compress_segment E c pol = Ok (v, res)" "raw_rejected E pol c"
  shows "decompress_by_policy E pol v = c"
proof (cases "cr_compressed res")
  case True
  have "decode_as E pol v = Ok c"
    using adaptive_compress_decode [of E c pol v res] assms(1) True by (simp add: compress_segment_def)
  then show ?thesis by (cases pol) (auto simp: decode_as_def decompress_by_policy_def)
next
  case False
  have v: "v = c"
    using adaptive_compress_decode [of E c pol v res] assms(1) False by (simp add: compress_segment_def)
  then have "pol \<noteq> CompressionNone \<Longrightarrow> \<not> is_ok (decode_as E pol c)"
    using assms False by (auto simp: raw_rejected_def)
  with v show ?thesis
    by (cases pol) (auto simp: decode_as_def decompress_by_policy_def split: result.splits)
qed

lemma read_pure_holds_chunks:
  assumes "holds_chunks E kf pol lg cs sids" "\<forall>c\<in>set cs. raw_rejected E (compression pol) c"
  shows "read_pure E kf lg (compression pol) sids = Ok (concat cs)"
  using assms unfolding holds_chunks_def
  by (induction cs sids rule: list_all2_induct) (auto simp: decompress_view)

text \<open>A referenced segment is present.\<close>

lemma referenced_present:
  assumes "store_inv E kf extra st" "hm_get (reg_capsules (st_registry st)) cid = Some c" "sid \<in> set (cap_segments c)"
  shows "hm_get (nv_segment_map (st_nvram st)) sid \<noteq> None" "0 < rc_of (st_nvram st) sid"
proof -
  have "0 < refs (reg_capsules (st_registry st)) extra sid"
    using store_invD(2) [OF assms(1)] assms(2,3) by (auto simp: caps_ok_def intro: capsule_refs_mem)
  then show "0 < rc_of (st_nvram st) sid" using store_invD(5) [OF assms(1), of sid] by simp
  then show "hm_get (nv_segment_map (st_nvram st)) sid \<noteq> None" using rc_of_pos by fastforce
qed

lemma contents_grows:
  assumes "store_inv E kf extra st" "grows E kf st st'"
  shows "contents E kf st' cid = contents E kf st cid"
  by (rule contents_cong) (use assms referenced_present(1) [OF assms(1)] in \<open>auto simp: grows_def\<close>)

text \<open>\<open>add_deduped_bytes\<close> changes no reference and no contents.\<close>

lemma add_deduped_step:
  assumes inv: "store_inv E kf extra st"
  shows "store_inv E kf extra (st\<lparr>st_registry := add_deduped_bytes cid n (st_registry st)\<rparr>)"
    and "refs_exact extra st \<Longrightarrow> refs_exact extra (st\<lparr>st_registry := add_deduped_bytes cid n (st_registry st)\<rparr>)"
    and "contents E kf (st\<lparr>st_registry := add_deduped_bytes cid n (st_registry st)\<rparr>) k = contents E kf st k"
    and "io_free (st\<lparr>st_registry := add_deduped_bytes cid n (st_registry st)\<rparr>) = io_free st"
    and "hm_get (reg_capsules (add_deduped_bytes cid n (st_registry st))) k = None \<longleftrightarrow>
      hm_get (reg_capsules (st_registry st)) k = None"
proof -
  let ?rg = "st_registry st"
  have ok: "hm_ok (reg_capsules ?rg)" using store_invD(2) [OF inv] by (simp add: caps_ok_def)
  have rf: "refs (reg_capsules (add_deduped_bytes cid n ?rg)) extra' k = refs (reg_capsules ?rg) extra' k" for extra' k
    using ok by (auto simp: add_deduped_bytes_def refs_def capsule_refs_same_segments split: option.splits)
  have same: "reg_next_segment_id (add_deduped_bytes cid n ?rg) = reg_next_segment_id ?rg"
    "reg_content_store (add_deduped_bytes cid n ?rg) = reg_content_store ?rg"
    "reg_io (add_deduped_bytes cid n ?rg) = reg_io ?rg"
    by (simp_all add: add_deduped_bytes_def split: option.splits)
  have caps: "caps_ok (reg_capsules (add_deduped_bytes cid n ?rg))"
    using store_invD(2) [OF inv] by (auto simp: add_deduped_bytes_def caps_ok_def split: option.splits)
  show "store_inv E kf extra (st\<lparr>st_registry := add_deduped_bytes cid n ?rg\<rparr>)"
    using store_invD [OF inv] rf same caps by (simp add: store_inv_def)
  show "refs_exact extra st \<Longrightarrow> refs_exact extra (st\<lparr>st_registry := add_deduped_bytes cid n ?rg\<rparr>)"
    by (simp add: refs_exact_def rf)
  show "contents E kf (st\<lparr>st_registry := add_deduped_bytes cid n ?rg\<rparr>) k = contents E kf st k"
  proof (cases "hm_get (reg_capsules ?rg) cid")
    case (Some c)
    show ?thesis by (rule contents_cong) (simp_all add: add_deduped_bytes_def Some)
  qed (simp add: add_deduped_bytes_def)
  show "io_free (st\<lparr>st_registry := add_deduped_bytes cid n ?rg\<rparr>) = io_free st" by (simp add: io_free_def same)
  show "hm_get (reg_capsules (add_deduped_bytes cid n ?rg)) k = None \<longleftrightarrow> hm_get (reg_capsules ?rg) k = None"
    by (auto simp: add_deduped_bytes_def split: option.splits)
qed

lemma enumerate_items:
  "map snd (enumerate n xs) = xs" "length (enumerate n xs) = length xs"
  "sum_list (map (length \<circ> snd) (enumerate n xs)) = sum_list (map length xs)"
  by (induction xs arbitrary: n) simp_all

lemma chunks_total: "sum_list (map length (chunks SEGMENT_SIZE data)) = length data"
proof -
  have "sum_list (map length (chunks SEGMENT_SIZE data)) = length (concat (chunks SEGMENT_SIZE data))"
    by (simp add: length_concat)
  then show ?thesis by (simp add: concat_chunks)
qed

lemma snd_enumerate: "(i, c) \<in> set (enumerate n xs) \<Longrightarrow> c \<in> set xs"
  by (auto simp: in_set_enumerate_eq)

text \<open>The run of a write: the loop fails, or the capsule is created in the store it leaves.\<close>

lemma write_capsule_cases:
  assumes "write_capsule_with_policy E now cid data pol p = (r, p')"
  obtains (loop_failed) e where
      "write_loop E pol (is_enabled (encryption pol) \<and> wp_key_manager p \<noteq> None)
         (enumerate 0 (chunks SEGMENT_SIZE data)) [] new_stats p = (Err e, p')" "r = Err e"
  | (created) ids stats p1 st2 q st3 where
      "write_loop E pol (is_enabled (encryption pol) \<and> wp_key_manager p \<noteq> None)
         (enumerate 0 (chunks SEGMENT_SIZE data)) [] new_stats p = (Ok (ids, stats), p1)"
      "st2 = wp_store p1 \<or> st2 = (wp_store p1)\<lparr>st_registry := add_deduped_bytes cid (bytes_saved stats) (st_registry (wp_store p1))\<rparr>"
      "on_registry (create_capsule_with_segments now cid (of_nat (length data)) ids pol) st2 = (q, st3)"
      "p' = p1\<lparr>wp_store := st3\<rparr>"
      "r = (case q of Ok _ \<Rightarrow> Ok cid | Err e \<Rightarrow> Err (map_registry_error ''create_capsule_with_segments'' e))"
proof -
  obtain q1 p1 where l: "write_loop E pol (is_enabled (encryption pol) \<and> wp_key_manager p \<noteq> None)
      (enumerate 0 (chunks SEGMENT_SIZE data)) [] new_stats p = (q1, p1)" by fastforce
  show thesis
  proof (cases q1)
    case (Err e)
    show thesis
      by (rule loop_failed [of e]) (use assms l Err in \<open>auto simp: write_capsule_with_policy_def bind_op_def Let_def\<close>)
  next
    case (Ok y)
    obtain ids stats where y: "y = (ids, stats)" by (cases y)
    define st2 where "st2 = (if bytes_saved stats > 0
        then (wp_store p1)\<lparr>st_registry := add_deduped_bytes cid (bytes_saved stats) (st_registry (wp_store p1))\<rparr>
        else wp_store p1)"
    obtain q st3 where c: "on_registry (create_capsule_with_segments now cid (of_nat (length data)) ids pol) st2 = (q, st3)"
      by fastforce
    show thesis
    proof (rule created [of ids stats p1 st2 q st3])
      show "p' = p1\<lparr>wp_store := st3\<rparr>"
        "r = (case q of Ok _ \<Rightarrow> Ok cid | Err e \<Rightarrow> Err (map_registry_error ''create_capsule_with_segments'' e))"
        using assms l Ok y c
        by (cases q; auto simp: write_capsule_with_policy_def Let_def op_simps on_store_def st2_def split: if_splits)+
    qed (use l Ok y c st2_def in auto)
  qed
qed

text \<open>The hypotheses under which a read returns what was written.\<close>

definition readable :: "ext \<Rightarrow> policy \<Rightarrow> bytes \<Rightarrow> write_pipeline \<Rightarrow> bool" where
  "readable E pol data p \<longleftrightarrow>
     collision_free E (stored_plain E (wp_keys E p) (st_nvram (wp_store p)) \<union> chunk_views E pol (chunks SEGMENT_SIZE data)) \<and>
     (\<forall>c\<in>set (chunks SEGMENT_SIZE data). raw_rejected E (compression pol) c)"

text \<open>The hypotheses under which a write cannot fail.\<close>

definition writable :: "ext \<Rightarrow> u64 option \<Rightarrow> capsule_id \<Rightarrow> policy \<Rightarrow> bytes \<Rightarrow> write_pipeline \<Rightarrow> bool" where
  "writable E now cid pol data p \<longleftrightarrow> io_free (wp_store p) \<and> now \<noteq> None \<and>
     hm_get (reg_capsules (st_registry (wp_store p))) cid = None \<and>
     (\<forall>c\<in>set (chunks SEGMENT_SIZE data).
        chunk_ready E pol (is_enabled (encryption pol) \<and> wp_key_manager p \<noteq> None) c)"

definition has_capsule :: "write_pipeline \<Rightarrow> capsule_id \<Rightarrow> bool" where
  "has_capsule p cid \<longleftrightarrow> hm_get (reg_capsules (st_registry (wp_store p))) cid \<noteq> None"

lemma write_loop_facts:
  assumes inv: "wp_inv E p" and xts: "xts_laws E" and fit: "fits data p"
    and run: "write_loop E pol (is_enabled (encryption pol) \<and> wp_key_manager p \<noteq> None)
      (enumerate 0 (chunks SEGMENT_SIZE data)) [] new_stats p = (q, p1)"
  shows "wp_inv E p1" "wp_keys E p1 = wp_keys E p" "grows E (wp_keys E p) (wp_store p) (wp_store p1)"
    and "q = Ok (ids, stats) \<Longrightarrow> store_inv E (wp_keys E p) ids (wp_store p1) \<and>
      (refs_exact [] (wp_store p) \<longrightarrow> refs_exact ids (wp_store p1)) \<and>
      (readable E pol data p \<longrightarrow>
         read_pure E (wp_keys E p) (st_nvram (wp_store p1)) (compression pol) ids = Ok data)"
    and "writable E now cid pol data p \<Longrightarrow> is_ok q \<and> io_free (wp_store p1)"
proof -
  let ?cs = "chunks SEGMENT_SIZE data" and ?kf = "wp_keys E p"
  let ?items = "enumerate 0 ?cs" and ?enc = "is_enabled (encryption pol) \<and> wp_key_manager p \<noteq> None"
  have km: "wp_km_ok E p" and si: "store_inv E ?kf [] (wp_store p)" using inv by (auto simp: wp_inv_def)
  have cap: "capacity (length ?items) (sum_list (map (length \<circ> snd) ?items)) (wp_store p)"
    using fit by (simp only: fits_def enumerate_items chunks_total)
  have rr: "refs_room (length ?items) [] (wp_store p)" using fit by (simp add: fits_def)
  have len: "\<forall>(i, c)\<in>set ?items. length c < 2 ^ 32"
  proof clarify
    fix i c assume "(i, c) \<in> set ?items"
    then have "c \<in> set ?cs" by (rule snd_enumerate)
    then show "length c < 2 ^ 32" using chunks_bounds [of c SEGMENT_SIZE data] SEGMENT_SIZE_bounds(2) by linarith
  qed
  note L = write_loop_effect [OF km xts si cap len rr run, unfolded enumerate_items]
  show keys: "wp_keys E p1 = ?kf" and "grows E ?kf (wp_store p) (wp_store p1)" using L by auto
  show "wp_inv E p1" using L keys by (simp add: wp_inv_def)
  show "writable E now cid pol data p \<Longrightarrow> is_ok q \<and> io_free (wp_store p1)"
    using L snd_enumerate by (fastforce simp: writable_def)
  assume q: "q = Ok (ids, stats)"
  obtain new where new: "ids = [] @ new" "collision_free E (stored_plain E ?kf (st_nvram (wp_store p)) \<union> chunk_views E pol ?cs) \<longrightarrow>
      holds_chunks E ?kf pol (st_nvram (wp_store p1)) ?cs new"
    using L q by blast
  have "read_pure E ?kf (st_nvram (wp_store p1)) (compression pol) ids = Ok data" if "readable E pol data p"
    using read_pure_holds_chunks [of E ?kf pol "st_nvram (wp_store p1)" ?cs ids] that new
    by (simp add: readable_def concat_chunks)
  then show "store_inv E ?kf ids (wp_store p1) \<and> (refs_exact [] (wp_store p) \<longrightarrow> refs_exact ids (wp_store p1)) \<and>
      (readable E pol data p \<longrightarrow> read_pure E ?kf (st_nvram (wp_store p1)) (compression pol) ids = Ok data)"
    using L q by blast
qed

text \<open>The state after a write.\<close>

definition write_outcome ::
  "ext \<Rightarrow> u64 option \<Rightarrow> capsule_id \<Rightarrow> policy \<Rightarrow> bytes \<Rightarrow> write_pipeline \<Rightarrow> (capsule_id, error) result \<Rightarrow> write_pipeline \<Rightarrow> bool" where
  "write_outcome E now cid pol data p r p' \<longleftrightarrow>
     wp_inv E p' \<and> wp_keys E p' = wp_keys E p \<and>
     (\<forall>k. k \<noteq> cid \<longrightarrow> wp_contents E p' k = wp_contents E p k) \<and>
     (is_ok r \<longrightarrow> r = Ok cid \<and> \<not> has_capsule p cid \<and> (refs_exact [] (wp_store p) \<longrightarrow> refs_exact [] (wp_store p')) \<and>
        (readable E pol data p \<longrightarrow> wp_contents E p' cid = Ok data) \<and>
        (\<exists>c. hm_get (reg_capsules (st_registry (wp_store p'))) cid = Some c \<and>
           cap_size c = of_nat (length data) \<and> cap_policy c = pol \<and> cap_deduped_bytes c = 0)) \<and>
     (\<not> is_ok r \<longrightarrow> wp_contents E p' cid = wp_contents E p cid \<or>
        \<not> has_capsule p cid \<and> (readable E pol data p \<longrightarrow> wp_contents E p' cid = Ok data)) \<and>
     (writable E now cid pol data p \<longrightarrow> is_ok r \<and> io_free (wp_store p'))"

lemma write_capsule_effect:
  assumes inv: "wp_inv E p" and xts: "xts_laws E" and fit: "fits data p"
    and run: "write_capsule_with_policy E now cid data pol p = (r, p')"
  shows "write_outcome E now cid pol data p r p'"
  using run
proof (cases rule: write_capsule_cases)
  case (loop_failed e')
  note F = write_loop_facts [OF inv xts fit loop_failed(1)]
  have "wp_contents E p' k = wp_contents E p k" for k
    using contents_grows [of E "wp_keys E p" "[]" "wp_store p" "wp_store p'"] inv F(2,3) by (simp add: wp_inv_def)
  then show ?thesis using F(1,2) F(5) [of now cid] loop_failed(2) by (auto simp: write_outcome_def)
next
  case (created ids stats p1 st2 q st3)
  let ?kf = "wp_keys E p"
  note F = write_loop_facts [OF inv xts fit created(1)] and L = write_loop_facts(4) [OF inv xts fit created(1) refl]
  have si: "store_inv E ?kf [] (wp_store p)" and km1: "wp_km_ok E p1"
    using inv F(1) by (auto simp: wp_inv_def)
  have st2: "store_inv E ?kf ids st2" "refs_exact ids (wp_store p1) \<Longrightarrow> refs_exact ids st2"
    "contents E ?kf st2 k = contents E ?kf (wp_store p1) k" "io_free st2 = io_free (wp_store p1)"
    "hm_get (reg_capsules (st_registry st2)) k = None \<longleftrightarrow> hm_get (reg_capsules (st_registry (wp_store p1))) k = None"
    "st_nvram st2 = st_nvram (wp_store p1)" for k
    using created(2) add_deduped_step [of E ?kf ids "wp_store p1" cid "bytes_saved stats"] L by auto
  have cont2: "contents E ?kf st2 k = wp_contents E p k" for k
    using st2(3) contents_grows [OF si F(3)] by simp
  have fresh2: "hm_get (reg_capsules (st_registry st2)) cid = None \<longleftrightarrow> \<not> has_capsule p cid"
    using st2(5) F(3) by (simp add: has_capsule_def grows_def)
  note C = create_step [OF st2(1) created(3)]
  have keys': "wp_keys E p' = ?kf" and store': "wp_store p' = st3" and km': "wp_km_ok E p'"
    using F(2) km1 created(4) by (simp_all add: wp_keys_def wp_km_ok_def)
  have other: "wp_contents E p' k = wp_contents E p k" if "k \<noteq> cid" for k
  proof -
    have "contents E ?kf st3 k = contents E ?kf st2 k"
      by (rule contents_cong) (simp_all add: C(2) C(3) [OF that])
    then show ?thesis using cont2 by (simp add: keys' store')
  qed
  have new: "readable E pol data p \<longrightarrow> wp_contents E p' cid = Ok data"
    if c: "hm_get (reg_capsules (st_registry st3)) cid = Some \<lparr>cap_id = cid, cap_size = sz, cap_segments = ids,
        cap_created_at = t, cap_policy = pol, cap_deduped_bytes = 0\<rparr>" for t sz
    using L C(2) st2(6) by (simp add: keys' store' contents_def reg_lookup_def c)
  have err: "wp_contents E p' cid = wp_contents E p cid \<or>
        \<not> has_capsule p cid \<and> (readable E pol data p \<longrightarrow> wp_contents E p' cid = Ok data)" if "q \<noteq> Ok ()"
  proof (cases "hm_get (reg_capsules (st_registry st3)) cid = hm_get (reg_capsules (st_registry st2)) cid")
    case True
    have "contents E ?kf st3 cid = contents E ?kf st2 cid"
      by (rule contents_cong) (simp_all add: C(2) True)
    then show ?thesis using cont2 by (simp add: keys' store')
  next
    case False
    then show ?thesis using C(5) [OF that] new fresh2 by auto
  qed
  have okr: "is_ok r \<longleftrightarrow> q = Ok ()" "q = Ok () \<Longrightarrow> r = Ok cid" using created(5) by (cases q; simp)+
  have wr: "writable E now cid pol data p \<longrightarrow> is_ok r \<and> io_free (wp_store p')"
  proof
    assume w: "writable E now cid pol data p"
    then have "io_free st2" using F(5) st2(4) by auto
    then have "q = Ok () \<and> reg_io (st_registry st3) = []"
      using C(8) w fresh2 by (simp add: writable_def io_free_def has_capsule_def)
    then show "is_ok r \<and> io_free (wp_store p')"
      using okr store' C(2) \<open>io_free st2\<close> by (simp add: io_free_def)
  qed
  have okc: "r = Ok cid \<and> \<not> has_capsule p cid \<and> (refs_exact [] (wp_store p) \<longrightarrow> refs_exact [] (wp_store p')) \<and>
        (readable E pol data p \<longrightarrow> wp_contents E p' cid = Ok data) \<and>
        (\<exists>c. hm_get (reg_capsules (st_registry (wp_store p'))) cid = Some c \<and>
           cap_size c = of_nat (length data) \<and> cap_policy c = pol \<and> cap_deduped_bytes c = 0)" if "is_ok r"
    using C(4,6) okr that new fresh2 L st2(2) store' by auto
  show ?thesis
    unfolding write_outcome_def
    using C(1) km' keys' store' other okc err okr wr by (simp add: wp_inv_def)
qed

section \<open>Deleting a capsule\<close>

definition release_outcome ::
  "ext \<Rightarrow> keys \<Rightarrow> segment_id list \<Rightarrow> segment_id list \<Rightarrow> store \<Rightarrow> (unit, error) result \<Rightarrow> store \<Rightarrow> bool" where
  "release_outcome E kf before after st r st' \<longleftrightarrow> store_inv E kf after st' \<and>
     reg_capsules (st_registry st') = reg_capsules (st_registry st) \<and>
     (\<forall>k. 0 < refs (reg_capsules (st_registry st)) after k \<longrightarrow>
        seg_plain E kf (st_nvram st') k = seg_plain E kf (st_nvram st) k) \<and>
     (is_ok r \<longrightarrow> refs_exact before st \<longrightarrow> refs_exact after st') \<and>
     (io_free st \<longrightarrow> is_ok r \<and> io_free st')"

lemma release_segment_effect:
  assumes inv: "store_inv E kf (sid # extra) st" and run: "release_segment sid st = (r, st')"
  shows "release_outcome E kf (sid # extra) extra st r st'"
proof -
  obtain r1 s1 where d: "on_nvram (nv_decrement_refcount sid) st = (r1, s1)" by fastforce
  note D = decrement_step [OF inv d]
  have ex1: "refs_exact (sid # extra) st \<Longrightarrow> refs_exact extra s1"
    unfolding refs_exact_def D(2,4) by (auto simp: refs_def split: if_splits)
  have io1: "io_free st \<Longrightarrow> is_ok r1 \<and> io_free s1" using D(2,6) by (simp add: io_free_def)
  from D(5) consider (failed) "r1 = Err IoError" | (ok) seg where "r1 = Ok seg"
      "hm_get (nv_segment_map (st_nvram s1)) sid = Some seg" by blast
  then show ?thesis
  proof cases
    case failed
    then have "st' = s1" "\<not> is_ok r" using run d by (auto simp: release_segment_def bind_op_def)
    then show ?thesis using D(1-3) io1 failed by (auto simp: release_outcome_def)
  next
    case (ok seg)
    show ?thesis
    proof (cases "seg_ref_count seg = 0")
      case False
      then have "st' = s1" "r = Ok ()" using run d ok by (auto simp: release_segment_def op_simps)
      then show ?thesis using D(1-3) io1 ex1 by (auto simp: release_outcome_def)
    next
      case True
      have rc0: "rc_of (st_nvram s1) sid = 0" using ok(2) True by (simp add: rc_of_def)
      have dead: "refs (reg_capsules (st_registry s1)) extra sid = 0"
        using store_invD(5) [OF D(1), of sid] rc0 by simp
      have only: "seg_content_hash seg = Some h" if "hm_get (reg_content_store (st_registry s1)) h = Some sid" for h
        by (rule content_okD [OF store_invD(4) [OF D(1)] that]) (use ok(2) in simp)
      obtain r2 s2 where g: "(case seg_content_hash seg of
           Some h \<Rightarrow> bind_op (on_registry (reg_deregister_content h sid)) (\<lambda>_. return_op ())
         | None \<Rightarrow> return_op ()) s1 = (r2, s2)" by fastforce
      have G: "store_inv E kf extra s2 \<and> st_nvram s2 = st_nvram s1 \<and>
        reg_capsules (st_registry s2) = reg_capsules (st_registry s1) \<and>
        (\<forall>h. hm_get (reg_content_store (st_registry s2)) h \<noteq> Some sid) \<and>
        (io_free s1 \<longrightarrow> is_ok r2 \<and> io_free s2)"
      proof (cases "seg_content_hash seg")
        case None
        then show ?thesis using g D(1) only by (auto simp: return_op_def)
      next
        case (Some h)
        obtain q where q: "on_registry (reg_deregister_content h sid) s1 = (q, s2)" "is_ok r2 = is_ok q"
          using g Some by (auto simp: bind_op_def return_op_def split: prod.splits result.splits)
        note R = deregister_step [OF D(1) q(1)]
        have "hm_get (reg_content_store (st_registry s2)) h' \<noteq> Some sid" for h'
          using R(5,6) only Some by fastforce
        then show ?thesis using R(1-3,7) q(2) by (auto simp: io_free_def)
      qed
      have dead2: "refs (reg_capsules (st_registry s2)) extra sid = 0" using dead G by simp
      obtain r3 s3 where m: "on_nvram (nv_remove_segment sid) s2 = (r3, s3)" by fastforce
      have G1: "store_inv E kf extra s2" and G2: "\<And>h. hm_get (reg_content_store (st_registry s2)) h \<noteq> Some sid"
        using G by auto
      note M = remove_step [OF G1 m dead2 G2]
      have fin: "st' = (if is_ok r2 then s3 else s2)" "is_ok r = (is_ok r2 \<and> is_ok r3)"
        using run d ok True g m by (cases r2; cases r3; auto simp: release_segment_def op_simps)+
      have ex3: "refs_exact (sid # extra) st \<Longrightarrow> refs_exact extra s3"
        using ex1 G M(2,4) dead by (auto simp: refs_exact_def)
      have caps: "reg_capsules (st_registry st') = reg_capsules (st_registry st)" "store_inv E kf extra st'"
        using fin(1) G M(1,2) D(2) by (auto split: if_splits)
      have pl: "seg_plain E kf (st_nvram st') k = seg_plain E kf (st_nvram st) k"
        if "0 < refs (reg_capsules (st_registry st)) extra k" for k
      proof -
        have "k \<noteq> sid" using that dead D(2) by auto
        then show ?thesis using fin(1) G M(3) D(3) by (auto split: if_splits)
      qed
      have io: "io_free st \<longrightarrow> is_ok r \<and> io_free st'"
        using io1 G M(2,7) fin by (auto simp: io_free_def)
      show ?thesis
        unfolding release_outcome_def using caps pl io ex3 fin by auto
    qed
  qed
qed

lemma release_all_effect:
  assumes "store_inv E kf sids st" "for_each release_segment sids st = (r, st')"
  shows "release_outcome E kf sids [] st r st'"
  using assms
proof (induction sids arbitrary: st)
  case Nil
  then show ?case by (auto simp: release_outcome_def)
next
  case (Cons sid sids)
  obtain r1 s1 where c: "release_segment sid st = (r1, s1)" by fastforce
  note R = release_segment_effect [OF Cons.prems(1) c]
  have more: "0 < refs caps sids k" if "0 < refs caps [] k" for caps k
    using that by (simp add: refs_def)
  have inv1: "store_inv E kf sids s1" using R by (simp add: release_outcome_def)
  show ?case
  proof (cases r1)
    case (Err e)
    then have "st' = s1" "r = Err e" using Cons.prems(2) c by auto
    moreover have "store_inv E kf [] s1" by (rule store_inv_less_extra [OF inv1]) simp
    ultimately show ?thesis using R Err more by (auto simp: release_outcome_def)
  next
    case (Ok x)
    then have run: "for_each release_segment sids s1 = (r, st')" using Cons.prems(2) c by simp
    from Cons.IH [OF inv1 run] R Ok more show ?thesis by (auto simp: release_outcome_def)
  qed
qed

definition delete_outcome ::
  "ext \<Rightarrow> capsule_id \<Rightarrow> write_pipeline \<Rightarrow> (unit, error) result \<Rightarrow> write_pipeline \<Rightarrow> bool" where
  "delete_outcome E cid p r p' \<longleftrightarrow> wp_inv E p' \<and> wp_keys E p' = wp_keys E p \<and>
     (\<forall>k. k \<noteq> cid \<longrightarrow> wp_contents E p' k = wp_contents E p k) \<and>
     (if has_capsule p cid
      then \<not> has_capsule p' cid \<and> (is_ok r \<longrightarrow> refs_exact [] (wp_store p) \<longrightarrow> refs_exact [] (wp_store p')) \<and>
           (io_free (wp_store p) \<longrightarrow> is_ok r \<and> io_free (wp_store p'))
      else r = Err CapsuleNotFound \<and> p' = p)"

lemma delete_capsule_effect:
  assumes inv: "wp_inv E p" and run: "delete_capsule cid p = (r, p')"
  shows "delete_outcome E cid p r p'"
proof (cases "hm_get (reg_capsules (st_registry (wp_store p))) cid")
  case None
  then have "r = Err CapsuleNotFound" "p' = p"
    using run by (auto simp: delete_capsule_def on_store_def on_registry_def zoom_def bind_op_def reg_delete_capsule_def)
  then show ?thesis using inv None by (simp add: delete_outcome_def has_capsule_def)
next
  case (Some c)
  let ?kf = "wp_keys E p"
  have si: "store_inv E ?kf [] (wp_store p)" and km: "wp_km_ok E p" using inv by (auto simp: wp_inv_def)
  obtain r1 s1 where d: "on_registry (reg_delete_capsule cid) (wp_store p) = (r1, s1)" by fastforce
  note D = delete_step [OF si d Some]
  obtain r2 s2 where l: "for_each release_segment (cap_segments c) s1 = (r2, s2)" by fastforce
  have L: "release_outcome E ?kf (cap_segments c) [] s1 r2 s2" by (rule release_all_effect [OF D(1) l])
  have inv1: "store_inv E ?kf [] s1" by (rule store_inv_less_extra [OF D(1)]) simp
  define s' where "s' = (if r1 = Ok c then s2 else s1)"
  have p': "p' = p\<lparr>wp_store := s'\<rparr>" "is_ok r \<longleftrightarrow> r1 = Ok c \<and> is_ok r2"
    using run d l D(3) by (auto simp: delete_capsule_def on_store_def zoom_def bind_op_def s'_def)
  have keys': "wp_keys E p' = ?kf" "wp_km_ok E p'" using p'(1) km by (simp_all add: wp_keys_def wp_km_ok_def)
  have s': "store_inv E ?kf [] s'" "reg_capsules (st_registry s') = reg_capsules (st_registry s1)"
    "\<And>k. 0 < refs (reg_capsules (st_registry s1)) [] k \<Longrightarrow> seg_plain E ?kf (st_nvram s') k = seg_plain E ?kf (st_nvram s1) k"
    using L inv1 by (auto simp: s'_def release_outcome_def)
  have cont: "wp_contents E p' k = wp_contents E p k" if "k \<noteq> cid" for k
  proof -
    have "contents E ?kf s' k = contents E ?kf (wp_store p) k"
    proof (rule contents_cong)
      fix x sid assume x: "hm_get (reg_capsules (st_registry (wp_store p))) k = Some x" "sid \<in> set (cap_segments x)"
      then have "hm_get (reg_capsules (st_registry s1)) k = Some x" using D(4) that by simp
      then have "0 < refs (reg_capsules (st_registry s1)) [] sid"
        using store_invD(2) [OF inv1] x(2) by (auto simp: caps_ok_def intro: capsule_refs_mem)
      then show "seg_plain E ?kf (st_nvram s') sid = seg_plain E ?kf (st_nvram (wp_store p)) sid"
        using s'(3) D(2) by simp
    qed (use s'(2) D(4) that in simp)
    then show ?thesis by (simp only: keys'(1)) (simp add: p'(1))
  qed
  have gone: "\<not> has_capsule p' cid" using s'(2) D(4) by (simp add: has_capsule_def p'(1))
  have ex: "is_ok r \<longrightarrow> refs_exact [] (wp_store p) \<longrightarrow> refs_exact [] (wp_store p')"
    using p' D(5) L by (auto simp: s'_def release_outcome_def)
  have io: "io_free (wp_store p) \<longrightarrow> is_ok r \<and> io_free (wp_store p')"
    using p' D(2,7) L by (auto simp: s'_def release_outcome_def io_free_def)
  show ?thesis
    unfolding delete_outcome_def using cont gone ex io keys' s'(1) Some by (simp add: wp_inv_def p'(1) has_capsule_def)
qed

section \<open>Collecting garbage\<close>

lemma gc_contents:
  assumes inv: "store_inv E kf [] st" and run: "gc_sweep st = (r, st')"
  shows "contents E kf st' cid = contents E kf st cid"
proof (rule contents_cong)
  note G = gc_sweep_effect [OF inv run]
  fix c sid assume "hm_get (reg_capsules (st_registry st)) cid = Some c" "sid \<in> set (cap_segments c)"
  from referenced_present(2) [OF inv this] show "seg_plain E kf (st_nvram st') sid = seg_plain E kf (st_nvram st) sid"
    using G(4) by blast
qed (simp add: gc_sweep_effect(2) [OF assms])

lemma garbage_collect_effect:
  assumes inv: "wp_inv E p" and run: "garbage_collect p = (r, p')"
  shows "wp_inv E p'" "wp_keys E p' = wp_keys E p" "wp_contents E p' cid = wp_contents E p cid"
    and "reg_capsules (st_registry (wp_store p')) = reg_capsules (st_registry (wp_store p))"
    and "r = Ok n \<Longrightarrow> n = length (filter (\<lambda>seg. seg_ref_count seg = 0) (nv_list_segments (st_nvram (wp_store p))))"
    and "r = Ok n \<Longrightarrow> hm_get (nv_segment_map (st_nvram (wp_store p'))) sid =
      (if rc_of (st_nvram (wp_store p)) sid = 0 then None else hm_get (nv_segment_map (st_nvram (wp_store p))) sid)"
    and "io_free (wp_store p) \<Longrightarrow> is_ok r \<and> io_free (wp_store p')"
proof -
  obtain st' where g: "gc_sweep (wp_store p) = (r, st')" "p' = p\<lparr>wp_store := st'\<rparr>"
    using run by (auto simp: garbage_collect_def on_store_def zoom_def split: prod.splits)
  have si: "store_inv E (wp_keys E p) [] (wp_store p)" and km: "wp_km_ok E p" using inv by (auto simp: wp_inv_def)
  note G = gc_sweep_effect [OF si g(1)]
  have keys: "wp_keys E p' = wp_keys E p" by (simp add: wp_keys_def g(2))
  show "wp_keys E p' = wp_keys E p" by (rule keys)
  show "wp_inv E p'" using G(1) km keys by (simp add: wp_inv_def g(2) wp_km_ok_def)
  show "wp_contents E p' cid = wp_contents E p cid" using gc_contents [OF si g(1)] keys by (simp add: g(2))
  show "reg_capsules (st_registry (wp_store p')) = reg_capsules (st_registry (wp_store p))" using G(2) by (simp add: g(2))
  show "r = Ok n \<Longrightarrow> n = length (filter (\<lambda>seg. seg_ref_count seg = 0) (nv_list_segments (st_nvram (wp_store p))))"
    using G(5) by simp
  show "r = Ok n \<Longrightarrow> hm_get (nv_segment_map (st_nvram (wp_store p'))) sid =
      (if rc_of (st_nvram (wp_store p)) sid = 0 then None else hm_get (nv_segment_map (st_nvram (wp_store p))) sid)"
    using G(4,6) by (simp add: g(2))
  show "io_free (wp_store p) \<Longrightarrow> is_ok r \<and> io_free (wp_store p')"
    using G(7) by (simp add: io_free_def g(2))
qed

section \<open>Reconciling reference counts\<close>

text \<open>The invariant without the counts, which is what reopening the two files gives.\<close>

definition store_base :: "ext \<Rightarrow> keys \<Rightarrow> store \<Rightarrow> bool" where
  "store_base E kf st \<longleftrightarrow>
     log_ok (st_nvram st) \<and> caps_ok (reg_capsules (st_registry st)) \<and>
     ids_below (reg_next_segment_id (st_registry st)) (st_nvram st) \<and>
     content_ok E kf (reg_content_store (st_registry st)) (st_nvram st) \<and>
     (\<forall>sid. 0 < refs (reg_capsules (st_registry st)) [] sid \<longrightarrow> hm_get (nv_segment_map (st_nvram st)) sid \<noteq> None)"

definition counts_agree :: "(segment_id, u32) hmap \<Rightarrow> segment_id list \<Rightarrow> bool" where
  "counts_agree counts xs \<longleftrightarrow>
     (\<forall>sid. hm_get counts sid = (if count_list xs sid = 0 then None else Some (of_nat (count_list xs sid))))"

lemma count_ref_agree: "counts_agree counts xs \<Longrightarrow> counts_agree (count_ref counts s) (xs @ [s])"
  by (auto simp: counts_agree_def count_ref_def add.commute split: option.splits)

lemma count_ref_fold: "counts_agree counts xs \<Longrightarrow> counts_agree (foldl count_ref counts ys) (xs @ ys)"
proof (induction ys arbitrary: counts xs)
  case (Cons y ys)
  from Cons.IH [OF count_ref_agree [OF Cons.prems, of y]] show ?case by simp
qed simp

lemma count_refs_agree:
  assumes "hm_ok (reg_capsules rg)"
  shows "counts_agree (count_refs rg) (capsule_refs (reg_capsules rg))"
proof -
  have "counts_agree (foldl (\<lambda>counts cid. case reg_lookup cid rg of
         Ok c \<Rightarrow> foldl count_ref counts (cap_segments c) | Err _ \<Rightarrow> counts) counts (hm_keys l))
      (xs @ capsule_refs l)"
    if "counts_agree counts xs" "\<forall>(k, c)\<in>set l. hm_get (reg_capsules rg) k = Some c" for counts xs l
    using that
  proof (induction l arbitrary: counts xs)
    case (Cons kc l)
    obtain k c where kc: "kc = (k, c)" by (cases kc)
    have "reg_lookup k rg = Ok c" using Cons.prems(2) by (simp add: kc reg_lookup_def)
    then show ?case
      using Cons.IH [OF count_ref_fold [OF Cons.prems(1), of "cap_segments c"]] Cons.prems(2)
      by (simp add: kc capsule_refs_def)
  qed (simp add: capsule_refs_def)
  from this [of "[]" "[]" "reg_capsules rg"] show ?thesis
    using assms by (auto simp: count_refs_def list_capsules_def counts_agree_def hm_get_iff)
qed

definition fix_outcome :: "ext \<Rightarrow> keys \<Rightarrow> segment list \<Rightarrow> store \<Rightarrow> (unit, error) result \<Rightarrow> store \<Rightarrow> bool" where
  "fix_outcome E kf segs st r st' \<longleftrightarrow> store_base E kf st' \<and> st_registry st' = st_registry st \<and>
     seg_plain E kf (st_nvram st') = seg_plain E kf (st_nvram st) \<and>
     (\<forall>k. (hm_get (nv_segment_map (st_nvram st')) k = None) = (hm_get (nv_segment_map (st_nvram st)) k = None)) \<and>
     (\<forall>k. k \<notin> seg_id ` set segs \<longrightarrow>
        hm_get (nv_segment_map (st_nvram st')) k = hm_get (nv_segment_map (st_nvram st)) k) \<and>
     (is_ok r \<longrightarrow> (\<forall>seg\<in>set segs. rc_of (st_nvram st') (seg_id seg) =
        count_list (capsule_refs (reg_capsules (st_registry st))) (seg_id seg))) \<and>
     (io_free st \<longrightarrow> is_ok r \<and> io_free st')"

lemma fix_refcount_effect:
  assumes base: "store_base E kf st" and agree: "counts_agree counts (capsule_refs (reg_capsules (st_registry st)))"
    and bound: "length (capsule_refs (reg_capsules (st_registry st))) < 2 ^ 32"
    and pres: "hm_get (nv_segment_map (st_nvram st)) (seg_id seg) = Some seg"
    and run: "fix_refcount counts seg st = (r, st')"
  shows "fix_outcome E kf [seg] st r st'"
proof -
  let ?n = "count_list (capsule_refs (reg_capsules (st_registry st))) (seg_id seg)"
  define e :: u32 where "e = (case hm_get counts (seg_id seg) of Some c \<Rightarrow> c | None \<Rightarrow> 0)"
  have n: "?n < 2 ^ 32" using bound count_le_length le_less_trans by metis
  have e: "e = of_nat ?n" using agree by (auto simp: counts_agree_def e_def)
  have ue: "unat e = ?n" unfolding e by (rule unat_of_nat_small) (use n in simp)
  show ?thesis
  proof (cases "seg_ref_count seg = e")
    case True
    then have "r = Ok ()" "st' = st" using run by (simp_all add: fix_refcount_def e_def return_op_def Let_def)
    then show ?thesis using base pres ue True by (auto simp: fix_outcome_def rc_of_def)
  next
    case False
    let ?seg = "seg\<lparr>seg_ref_count := e, seg_deduplicated := e > 1\<rparr>"
    obtain lg where u: "save_segment_map (nv_put (seg_id seg) ?seg (st_nvram st)) = (r, lg)" "st' = st\<lparr>st_nvram := lg\<rparr>"
      using run False by (auto simp: fix_refcount_def e_def on_nvram_eq nv_update_segment_metadata_def Let_def)
    note S = save_put [OF u(1)]
    have same: "same_content seg ?seg" by (simp add: same_content_def)
    have lok: "log_ok (st_nvram st)" using base by (simp add: store_base_def)
    note C = counter_step [OF S(1) lok pres same]
    have map': "hm_get (nv_segment_map lg) k = (if k = seg_id seg then Some ?seg else hm_get (nv_segment_map (st_nvram st)) k)" for k
      using S(1) by (simp add: put_step_def)
    have "store_base E kf st'"
      using base C map' by (simp add: store_base_def u(2))
    then show ?thesis
      using C(2,3) map' pres ue S(2) by (auto simp: fix_outcome_def u(2) io_free_def)
  qed
qed

lemma fix_loop_effect:
  assumes "store_base E kf st" "counts_agree counts (capsule_refs (reg_capsules (st_registry st)))"
    and "length (capsule_refs (reg_capsules (st_registry st))) < 2 ^ 32" "distinct (map seg_id segs)"
    and "\<forall>seg\<in>set segs. hm_get (nv_segment_map (st_nvram st)) (seg_id seg) = Some seg"
    and "for_each (fix_refcount counts) segs st = (r, st')"
  shows "fix_outcome E kf segs st r st'"
  using assms
proof (induction segs arbitrary: st)
  case Nil
  then show ?case by (auto simp: fix_outcome_def)
next
  case (Cons seg segs)
  obtain r1 s1 where c: "fix_refcount counts seg st = (r1, s1)" by fastforce
  have F: "fix_outcome E kf [seg] st r1 s1"
    by (rule fix_refcount_effect [OF Cons.prems(1-3) _ c]) (use Cons.prems(5) in simp)
  have F': "store_base E kf s1" "st_registry s1 = st_registry st"
    "\<And>k. k \<noteq> seg_id seg \<Longrightarrow> hm_get (nv_segment_map (st_nvram s1)) k = hm_get (nv_segment_map (st_nvram st)) k"
    using F by (auto simp: fix_outcome_def)
  have other: "seg_id x \<noteq> seg_id seg" if "x \<in> set segs" for x
    using Cons.prems(4) that by (metis distinct.simps(2) image_eqI list.simps(9) list.set_map)
  show ?case
  proof (cases r1)
    case (Err e)
    then have "st' = s1" "r = Err e" using Cons.prems(6) c by auto
    then show ?thesis using F Err by (auto simp: fix_outcome_def)
  next
    case (Ok x)
    then have run: "for_each (fix_refcount counts) segs s1 = (r, st')" using Cons.prems(6) c by simp
    have IH: "fix_outcome E kf segs s1 r st'"
      by (rule Cons.IH [OF F'(1) _ _ _ _ run]) (use Cons.prems F'(2,3) other in auto)
    have keep: "hm_get (nv_segment_map (st_nvram st')) (seg_id seg) = hm_get (nv_segment_map (st_nvram s1)) (seg_id seg)"
      using IH other by (force simp: fix_outcome_def)
    have "rc_of (st_nvram st') (seg_id seg) = rc_of (st_nvram s1) (seg_id seg)" by (simp add: rc_of_def keep)
    then show ?thesis using IH F Ok F'(2) by (auto simp: fix_outcome_def)
  qed
qed

lemma reconcile_effect:
  assumes base: "store_base E kf st" and bound: "length (capsule_refs (reg_capsules (st_registry st))) < 2 ^ 32"
    and run: "reconcile_refcounts st = (r, st')"
  shows "contents E kf st' cid = contents E kf st cid"
    and "reg_capsules (st_registry st') = reg_capsules (st_registry st)"
    and "is_ok r \<Longrightarrow> store_inv E kf [] st' \<and> refs_exact [] st' \<and>
      (\<forall>sid seg. hm_get (nv_segment_map (st_nvram st')) sid = Some seg \<longrightarrow> seg_ref_count seg \<noteq> 0)"
    and "io_free st \<Longrightarrow> is_ok r \<and> io_free st'"
proof -
  let ?segs = "nv_list_segments (st_nvram st)" and ?counts = "count_refs (st_registry st)"
  have lok: "log_ok (st_nvram st)" and cok: "caps_ok (reg_capsules (st_registry st))"
    using base by (auto simp: store_base_def)
  note L = listed_segments [OF lok]
  have agree: "counts_agree ?counts (capsule_refs (reg_capsules (st_registry st)))"
    using count_refs_agree cok by (simp add: caps_ok_def)
  obtain r1 s1 where f: "for_each (fix_refcount ?counts) ?segs st = (r1, s1)" by fastforce
  note F = fix_loop_effect [OF base agree bound L f]
  have F': "store_base E kf s1" "st_registry s1 = st_registry st"
    "seg_plain E kf (st_nvram s1) = seg_plain E kf (st_nvram st)" "io_free st \<Longrightarrow> is_ok r1 \<and> io_free s1"
    using F by (auto simp: fix_outcome_def)
  have cont1: "contents E kf s1 cid = contents E kf st cid"
    by (rule contents_cong) (simp_all add: F'(2,3))
  have goal: "contents E kf st' cid = contents E kf st cid \<and>
    reg_capsules (st_registry st') = reg_capsules (st_registry st) \<and>
    (is_ok r \<longrightarrow> store_inv E kf [] st' \<and> refs_exact [] st' \<and>
      (\<forall>sid seg. hm_get (nv_segment_map (st_nvram st')) sid = Some seg \<longrightarrow> seg_ref_count seg \<noteq> 0)) \<and>
    (io_free st \<longrightarrow> is_ok r \<and> io_free st')"
  proof (cases r1)
    case (Err e)
    then have "st' = s1" "r = Err e" using run f by (auto simp: reconcile_refcounts_def bind_op_def Let_def)
    then show ?thesis using cont1 F' Err by auto
  next
    case (Ok u)
    have exact: "refs (reg_capsules (st_registry s1)) [] k = rc_of (st_nvram s1) k" for k
    proof (cases "hm_get (nv_segment_map (st_nvram st)) k")
      case None
      then have "refs (reg_capsules (st_registry st)) [] k = 0"
        using base by (auto simp: store_base_def)
      moreover have "hm_get (nv_segment_map (st_nvram s1)) k = None" using F None by (simp add: fix_outcome_def)
      ultimately show ?thesis by (simp add: rc_of_def F'(2))
    next
      case (Some x)
      then have "x \<in> set ?segs" "seg_id x = k"
        using log_okD(1) [OF lok Some] by (force simp: nv_list_segments_def dest: map_of_SomeD)+
      then show ?thesis using F Ok by (auto simp: fix_outcome_def refs_def)
    qed
    have inv1: "store_inv E kf [] s1" using F'(1) exact by (simp add: store_inv_def store_base_def)
    obtain r2 s2 where g: "gc_sweep s1 = (r2, s2)" by fastforce
    note G = gc_sweep_effect [OF inv1 g]
    have st': "st' = s2" "is_ok r = is_ok r2"
      using run f Ok g by (cases r2; auto simp: reconcile_refcounts_def op_simps Let_def)+
    have map2: "hm_get (nv_segment_map (st_nvram s2)) k =
        (if rc_of (st_nvram s1) k = 0 then None else hm_get (nv_segment_map (st_nvram s1)) k)" if "is_ok r2" for k
      using G(4,6) that by (cases "rc_of (st_nvram s1) k = 0") auto
    have "refs (reg_capsules (st_registry s2)) [] k = rc_of (st_nvram s2) k" if "is_ok r2" for k
      using exact [of k] map2 [OF that, of k] G(2) by (auto simp: rc_of_def split: option.splits if_splits)
    moreover have "seg_ref_count seg \<noteq> 0"
      if ok: "is_ok r2" and s: "hm_get (nv_segment_map (st_nvram s2)) sid = Some seg" for sid seg
    proof -
      have "hm_get (nv_segment_map (st_nvram s1)) sid = Some seg" "rc_of (st_nvram s1) sid \<noteq> 0"
        using map2 [OF ok, of sid] s by (auto split: if_splits)
      then show ?thesis by (auto simp: rc_of_def)
    qed
    ultimately have "is_ok r \<longrightarrow> refs_exact [] st' \<and>
      (\<forall>sid seg. hm_get (nv_segment_map (st_nvram st')) sid = Some seg \<longrightarrow> seg_ref_count seg \<noteq> 0)"
      unfolding refs_exact_def st' by blast
    moreover have "io_free st \<longrightarrow> is_ok r \<and> io_free st'" using F'(4) G(7) st' by (auto simp: io_free_def)
    ultimately show ?thesis
      using gc_contents [OF inv1 g] cont1 G(1,2) F'(2) st'(1) by simp
  qed
  then show "contents E kf st' cid = contents E kf st cid" "reg_capsules (st_registry st') = reg_capsules (st_registry st)"
    "is_ok r \<Longrightarrow> store_inv E kf [] st' \<and> refs_exact [] st' \<and>
      (\<forall>sid seg. hm_get (nv_segment_map (st_nvram st')) sid = Some seg \<longrightarrow> seg_ref_count seg \<noteq> 0)"
    "io_free st \<Longrightarrow> is_ok r \<and> io_free st'" by auto
qed

section \<open>Range reads\<close>

lemma read_range_effect:
  assumes "wp_km_ok E p" "read_range E cid off len p = (r, p')"
    and "hm_get (reg_capsules (st_registry (wp_store p))) cid = Some c" "wp_contents E p cid = Ok data"
    and "cap_size c = of_nat (length data)" "length data < 2 ^ 64" "len < 2 ^ 64"
  shows "only_keys E p p'"
    and "unat off + len \<le> length data \<Longrightarrow> r = Ok (take len (drop (unat off) data))"
    and "length data < unat off + len \<Longrightarrow> unat off + len < 2 ^ 64 \<Longrightarrow> r = Err ReadBeyondCapsule"
    and "2 ^ 64 \<le> unat off + len \<Longrightarrow> r = Err ReadBeyondCapsule \<or> r = Err Panic"
proof -
  obtain q p1 where rd: "read_capsule E cid p = (q, p1)" by fastforce
  note R = read_capsule_effect [OF assms(1) rd]
  have q: "q = Ok data" using R(2) assms(4) by simp
  let ?stop = "off + of_nat len"
  have run: "r = (if ?stop > cap_size c then Err ReadBeyondCapsule
      else if unat off \<le> unat ?stop \<and> unat ?stop \<le> length data
           then Ok (take (unat ?stop - unat off) (drop (unat off) data)) else Err Panic)"
    "p' = (if ?stop > cap_size c then p else p1)"
    using assms(2,3) rd q by (auto simp: read_range_def reg_lookup_def op_simps Let_def split: if_splits)
  show "only_keys E p p'" using run R(1) only_keys_refl [OF assms(1)] by (auto split: if_splits)
  have sz: "unat (cap_size c) = length data" using assms(5,6) by (simp add: word_arith)
  have stop: "unat ?stop = unat off + len" if "unat off + len < 2 ^ 64"
    using that by (simp add: unat_add_of_nat)
  show "r = Ok (take len (drop (unat off) data))" if "unat off + len \<le> length data"
    using that run stop sz assms(6) by (auto simp: word_less_nat_alt split: if_splits)
  show "r = Err ReadBeyondCapsule" if "length data < unat off + len" "unat off + len < 2 ^ 64"
    using that run stop sz by (auto simp: word_less_nat_alt split: if_splits)
  show "r = Err ReadBeyondCapsule \<or> r = Err Panic" if "2 ^ 64 \<le> unat off + len"
  proof -
    have "unat ?stop < unat off"
    proof -
      have lo: "unat (of_nat len :: u64) = len" using assms(7) by (simp add: unat_of_nat_small)
      have "unat ?stop = (unat off + len) mod 2 ^ 64" by (simp add: unat_word_ariths lo)
      also have "\<dots> = unat off + len - 2 ^ 64"
        using that unsigned_less [of off, where 'a = nat] assms(7) by (simp add: mod_if)
      also have "\<dots> < unat off" using assms(7) that by linarith
      finally show ?thesis .
    qed
    then show ?thesis using run by (auto split: if_splits)
  qed
qed

end
