(* ===== verification/Pipeline_Properties.thy ===== *)
theory Pipeline_Properties
  imports Pipeline_Correct
begin

text \<open>
  The properties of the write pipeline, each over the operations of \<open>Write_Pipeline\<close>, with a
  concrete pipeline on which their hypotheses are met. The first group holds under every
  pattern of I/O failures.
\<close>

section \<open>A concrete pipeline\<close>

definition empty_registry :: registry where
  "empty_registry = \<lparr>reg_capsules = [], reg_next_segment_id = 0, reg_content_store = [],
     reg_saved = Absent, reg_io = []\<rparr>"

lemma reg_open_empty: "reg_open Absent [] = Ok empty_registry"
  by (simp add: reg_open_def empty_registry_def)

definition sample_pipeline :: "key_manager option \<Rightarrow> write_pipeline" where
  "sample_pipeline km = \<lparr>wp_store = \<lparr>st_registry = empty_registry, st_nvram = empty_log []\<rparr>, wp_key_manager = km\<rparr>"

definition sample_keys :: "key_manager option" where
  "sample_keys = Some (key_manager_new sample_ext (replicate 32 7))"

lemma empty_store_inv: "store_inv E kf [] \<lparr>st_registry = empty_registry, st_nvram = empty_log io\<rparr>"
  by (simp add: store_inv_def empty_registry_def caps_ok_def ids_below_def content_ok_def refs_def
      capsule_refs_def rc_of_def)

lemma sample_inv: "wp_inv sample_ext (sample_pipeline None)" "wp_inv sample_ext (sample_pipeline sample_keys)"
  by (simp_all add: wp_inv_def sample_pipeline_def sample_keys_def empty_store_inv wp_km_ok_def km_ok_new)

lemma sample_exact: "refs_exact [] (wp_store (sample_pipeline km))"
  by (simp add: refs_exact_def sample_pipeline_def empty_registry_def refs_def capsule_refs_def rc_of_def)

lemma sample_no_plain: "stored_plain E kf (st_nvram (wp_store (sample_pipeline km))) = {}"
  by (simp add: stored_plain_def sample_pipeline_def seg_plain_def nv_read_def)

lemma one_chunk: "data \<noteq> [] \<Longrightarrow> length data \<le> SEGMENT_SIZE \<Longrightarrow> chunks SEGMENT_SIZE data = [data]"
  by (simp add: chunks_step)

lemma sample_fits: "data \<noteq> [] \<Longrightarrow> length data \<le> SEGMENT_SIZE \<Longrightarrow> fits data (sample_pipeline km)"
  by (simp add: fits_def one_chunk)
    (simp add: capacity_def ids_room_def room_def refs_room_def sample_pipeline_def
      empty_registry_def capsule_refs_def SEGMENT_SIZE_def)

text \<open>Twenty bytes the codec cannot shorten, and a policy that encrypts.\<close>

definition sample_data :: bytes where
  "sample_data = [1, 2, 3, 4, 5, 6, 7, 8, 9, 10, 11, 12, 13, 14, 15, 16, 17, 18, 19, 20]"

lemma sample_data_facts:
  "sample_data \<noteq> []" "length sample_data = 20" "length sample_data \<le> SEGMENT_SIZE"
  by (simp_all add: sample_data_def SEGMENT_SIZE_def)

lemma sample_data_fits: "fits sample_data (sample_pipeline km)"
  by (rule sample_fits) (rule sample_data_facts)+

lemma sample_compress:
  "compress_segment sample_ext sample_data (LZ4 1) = Ok (sample_data, \<lparr>cr_original_size = 20, cr_compressed_size = 20,
     cr_compressed = False, cr_reused_original = True, cr_algorithm = ''identity'',
     cr_reason = Some IneffectiveReason\<rparr>)"
  by code_simp

lemma sample_compression: "compression metro_sync = LZ4 1" "compression default_policy = LZ4 1"
  by (simp_all add: policy_presets default_compression_def)

lemma sample_readable:
  assumes "compression pol = LZ4 1"
  shows "readable sample_ext pol sample_data (sample_pipeline km)"
proof -
  have "chunk_views sample_ext pol [sample_data] = {sample_data}"
    by (simp add: chunk_views_def assms sample_compress)
  moreover have "\<not> is_ok (decode_as sample_ext (LZ4 1) sample_data)" by code_simp
  ultimately show ?thesis
    using sample_data_facts
    by (simp add: readable_def one_chunk sample_no_plain collision_free_def raw_rejected_def assms)
qed

lemma sample_writable:
  assumes "compression pol = LZ4 1"
  shows "writable sample_ext (Some 0) cid pol sample_data (sample_pipeline km)"
  using sample_data_facts
  by (simp add: writable_def io_free_def sample_pipeline_def empty_registry_def one_chunk chunk_ready_def
      assms sample_compress sample_hmac_len)

section \<open>Writing and reading\<close>

lemma wp_inv_km: "wp_inv E p \<Longrightarrow> wp_km_ok E p"
  by (simp add: wp_inv_def)

lemma fst_read: "wp_km_ok E p \<Longrightarrow> fst (read_capsule E cid p) = wp_contents E p cid"
  by (metis prod.collapse read_capsule_effect(2))

lemma fst_read_missing: "\<not> has_capsule p cid \<Longrightarrow> wp_contents E p cid = Err CapsuleNotFound"
  by (simp add: contents_def has_capsule_def reg_lookup_def)

text \<open>C1: Reading returns what was written. In any state satisfying the pipeline's invariant, if a write
  of \<open>data\<close> under a policy returns \<open>Ok\<close> (with or without deduplication, compression, encryption, and
  whatever system calls failed on the way), then reading the new capsule returns \<open>data\<close>. The
  hypotheses on third-party code are that XTS decryption inverts encryption, that BLAKE3 does not
  collide on the plaintexts stored or written, and that the decoder rejects the chunks that were
  stored uncompressed.\<close>

theorem write_read_roundtrip:
  assumes "wp_inv E p" "xts_laws E" "fits data p" "readable E pol data p"
    and "write_capsule_with_policy E now cid data pol p = (Ok x, p')"
  shows "x = cid \<and> fst (read_capsule E cid p') = Ok data"
proof -
  have "write_outcome E now cid pol data p (Ok x) p'"
    by (rule write_capsule_effect [OF assms(1-3,5)])
  then have "wp_inv E p'" "x = cid" "wp_contents E p' cid = Ok data"
    using assms(4) unfolding write_outcome_def is_ok.simps by blast+
  then show ?thesis using fst_read [OF wp_inv_km] by simp
qed

text \<open>A write, successful or not, never changes what any other capsule reads as, keeps the invariant
  (every reference counted, every content-store entry pointing at a decryptable segment with
  that hash), and when it fails the capsule it was writing is either as before or complete.\<close>

theorem write_preserves_others:
  assumes "wp_inv E p" "xts_laws E" "fits data p" "write_capsule_with_policy E now cid data pol p = (r, p')"
  shows "wp_inv E p' \<and> (\<forall>k. k \<noteq> cid \<longrightarrow> fst (read_capsule E k p') = fst (read_capsule E k p)) \<and>
    (\<not> is_ok r \<longrightarrow> readable E pol data p \<longrightarrow>
       fst (read_capsule E cid p') = fst (read_capsule E cid p) \<or> fst (read_capsule E cid p') = Ok data)"
proof -
  have "write_outcome E now cid pol data p r p'" by (rule write_capsule_effect [OF assms])
  then show ?thesis
    using fst_read wp_inv_km assms(1) by (auto simp: write_outcome_def)
qed

text \<open>C13: A write succeeds: without I/O failures, with the clock set, an unused identifier, room for the segments
  (identifiers, offsets and reference counts do not run out), and every chunk compressible without a codec
  error, the write returns \<open>Ok\<close>; when it will be encrypted, that is, when the policy encrypts and there is a
  key manager, the compressed form of every chunk must moreover have at least sixteen bytes. The theorem
  \<open>short_encrypted_write_fails\<close> shows that this last condition is needed.\<close>

theorem write_succeeds:
  assumes "wp_inv E p" "xts_laws E" "fits data p" "writable E now cid pol data p"
  shows "fst (write_capsule_with_policy E now cid data pol p) = Ok cid"
proof -
  obtain r p' where run: "write_capsule_with_policy E now cid data pol p = (r, p')" by fastforce
  have "write_outcome E now cid pol data p r p'" by (rule write_capsule_effect [OF assms(1-3) run])
  then show ?thesis using assms(4) run by (auto simp: write_outcome_def)
qed

theorem write_succeeds_witness:
  "fst (write_capsule_with_policy sample_ext (Some 0) (CapsuleId [1]) sample_data metro_sync (sample_pipeline sample_keys)) =
     Ok (CapsuleId [1])"
  by (rule write_succeeds [OF sample_inv(2) sample_xts_laws sample_data_fits sample_writable [OF sample_compression(1)]])

lemma sample_write:
  obtains p' where "write_capsule_with_policy sample_ext (Some 0) (CapsuleId [1]) sample_data metro_sync
      (sample_pipeline sample_keys) = (Ok (CapsuleId [1]), p')" "wp_inv sample_ext p'" "refs_exact [] (wp_store p')"
    "has_capsule p' (CapsuleId [1])"
proof -
  let ?p = "sample_pipeline sample_keys"
  obtain r p' where run: "write_capsule_with_policy sample_ext (Some 0) (CapsuleId [1]) sample_data metro_sync ?p = (r, p')"
    by fastforce
  have o: "write_outcome sample_ext (Some 0) (CapsuleId [1]) metro_sync sample_data ?p r p'"
    by (rule write_capsule_effect [OF sample_inv(2) sample_xts_laws sample_data_fits run])
  have "writable sample_ext (Some 0) (CapsuleId [1]) metro_sync sample_data ?p"
    by (rule sample_writable) (rule sample_compression)
  then have "is_ok r" using o by (simp add: write_outcome_def)
  with o run show thesis
    by (intro that [of p']) (auto simp: write_outcome_def sample_exact has_capsule_def)
qed

theorem write_read_roundtrip_witness:
  "\<exists>p'. write_capsule_with_policy sample_ext (Some 0) (CapsuleId [1]) sample_data metro_sync
      (sample_pipeline sample_keys) = (Ok (CapsuleId [1]), p') \<and>
    fst (read_capsule sample_ext (CapsuleId [1]) p') = Ok sample_data"
proof -
  obtain p' where p': "write_capsule_with_policy sample_ext (Some 0) (CapsuleId [1]) sample_data metro_sync
      (sample_pipeline sample_keys) = (Ok (CapsuleId [1]), p')" by (rule sample_write)
  from p' write_read_roundtrip [OF sample_inv(2) sample_xts_laws sample_data_fits sample_readable p'] show ?thesis
    by (simp add: sample_compression)
qed

theorem write_preserves_others_witness:
  "wp_inv sample_ext (snd (write_capsule_with_policy sample_ext None (CapsuleId [1]) sample_data default_policy (sample_pipeline None)))"
proof -
  show ?thesis
    using write_preserves_others [OF sample_inv(1) sample_xts_laws sample_data_fits prod.collapse [symmetric]] by blast
qed

section \<open>Histories\<close>

text \<open>
  The operations of a pipeline as steps, labelled with the capsule a write or a deletion is
  about; the results, the clock and the pattern of failures are arbitrary.
\<close>

inductive wp_step :: "ext \<Rightarrow> capsule_id option \<Rightarrow> write_pipeline \<Rightarrow> write_pipeline \<Rightarrow> bool" for E where
  ws_write: "fits data p \<Longrightarrow> write_capsule_with_policy E now cid data pol p = (r, p') \<Longrightarrow> wp_step E (Some cid) p p'"
| ws_delete: "delete_capsule cid p = (r, p') \<Longrightarrow> wp_step E (Some cid) p p'"
| ws_read: "read_capsule E cid p = (r, p') \<Longrightarrow> wp_step E None p p'"
| ws_range: "read_range E cid off len p = (r, p') \<Longrightarrow> wp_step E None p p'"
| ws_collect: "garbage_collect p = (r, p') \<Longrightarrow> wp_step E None p p'"

inductive_cases wp_stepE: "wp_step E lab p p'"

inductive wp_run :: "ext \<Rightarrow> capsule_id option list \<Rightarrow> write_pipeline \<Rightarrow> write_pipeline \<Rightarrow> bool" for E where
  run_nil: "wp_run E [] p p"
| run_step: "wp_step E lab p p' \<Longrightarrow> wp_run E labs p' p'' \<Longrightarrow> wp_run E (lab # labs) p p''"

lemma read_range_keys:
  assumes "wp_km_ok E p" "read_range E cid off len p = (r, p')"
  shows "only_keys E p p'"
proof -
  obtain q p1 where rd: "read_capsule E cid p = (q, p1)" by fastforce
  have "p' = p \<or> p' = p1"
    using assms(2) rd by (cases "reg_lookup cid (st_registry (wp_store p))"; cases q)
      (auto simp: read_range_def op_simps Let_def split: if_splits)
  then show ?thesis using read_capsule_effect(1) [OF assms(1) rd] only_keys_refl [OF assms(1)] by auto
qed

lemma only_keys_inv: "only_keys E p p' \<Longrightarrow> wp_inv E p \<Longrightarrow> wp_inv E p' \<and> wp_keys E p' = wp_keys E p \<and> wp_store p' = wp_store p"
  by (simp add: only_keys_def wp_inv_def)

text \<open>One step keeps the invariant, the keys and the contents of every capsule it is not about.\<close>

lemma wp_step_effect:
  assumes "wp_step E lab p p'" "wp_inv E p" "xts_laws E"
  shows "wp_inv E p' \<and> wp_keys E p' = wp_keys E p \<and> (\<forall>k. lab \<noteq> Some k \<longrightarrow> wp_contents E p' k = wp_contents E p k)"
  using assms(1)
proof (cases rule: wp_step.cases)
  case (ws_write data now cid pol r)
  then have "write_outcome E now cid pol data p r p'" using assms(2,3) by (intro write_capsule_effect)
  then have "wp_inv E p'" "wp_keys E p' = wp_keys E p" "\<forall>k. k \<noteq> cid \<longrightarrow> wp_contents E p' k = wp_contents E p k"
    unfolding write_outcome_def by blast+
  then show ?thesis using ws_write(1) by auto
next
  case (ws_delete cid r)
  have "delete_outcome E cid p r p'" by (rule delete_capsule_effect [OF assms(2) ws_delete(2)])
  then have "wp_inv E p'" "wp_keys E p' = wp_keys E p" "\<forall>k. k \<noteq> cid \<longrightarrow> wp_contents E p' k = wp_contents E p k"
    unfolding delete_outcome_def by blast+
  then show ?thesis using ws_delete(1) by auto
next
  case (ws_read cid r)
  from read_capsule_effect(1) [OF wp_inv_km [OF assms(2)] ws_read(2)] show ?thesis
    using only_keys_inv assms(2) by fastforce
next
  case (ws_range cid off len r)
  from read_range_keys [OF wp_inv_km [OF assms(2)] ws_range(2)] show ?thesis
    using only_keys_inv assms(2) by fastforce
next
  case (ws_collect r)
  note G = garbage_collect_effect [OF assms(2) ws_collect(2)]
  show ?thesis using G(1-3) by blast
qed

lemma wp_run_effect:
  assumes "wp_run E labs p p'" "wp_inv E p" "xts_laws E"
  shows "wp_inv E p' \<and> wp_keys E p' = wp_keys E p \<and>
    (\<forall>k. Some k \<notin> set labs \<longrightarrow> wp_contents E p' k = wp_contents E p k)"
  using assms
proof (induction rule: wp_run.induct)
  case (run_step lab p p' labs p'')
  note S = wp_step_effect [OF run_step.hyps(1) run_step.prems]
  then have "wp_inv E p'' \<and> wp_keys E p'' = wp_keys E p' \<and>
      (\<forall>k. Some k \<notin> set labs \<longrightarrow> wp_contents E p'' k = wp_contents E p' k)"
    using run_step.IH run_step.prems(2) by blast
  then show ?case using S by auto
qed auto

text \<open>C2: Isolation over whole histories: after any sequence of writes, deletions, reads, range reads and
  garbage collections, each of which may fail anywhere, the invariant holds and every capsule that
  the sequence neither wrote nor deleted reads as it did before.\<close>

theorem history_isolation:
  assumes "wp_run E labs p p'" "wp_inv E p" "xts_laws E" "Some k \<notin> set labs"
  shows "wp_inv E p' \<and> fst (read_capsule E k p') = fst (read_capsule E k p)"
  using wp_run_effect [OF assms(1-3)] assms(2,4) fst_read wp_inv_km by metis

theorem history_isolation_witness:
  "\<exists>p1 p2. write_capsule_with_policy sample_ext (Some 0) (CapsuleId [1]) sample_data metro_sync
      (sample_pipeline sample_keys) = (Ok (CapsuleId [1]), p1) \<and>
    p2 = snd (garbage_collect (snd (delete_capsule (CapsuleId [2]) p1))) \<and>
    fst (read_capsule sample_ext (CapsuleId [1]) p2) = fst (read_capsule sample_ext (CapsuleId [1]) p1)"
proof -
  obtain p1 where p1: "write_capsule_with_policy sample_ext (Some 0) (CapsuleId [1]) sample_data metro_sync
      (sample_pipeline sample_keys) = (Ok (CapsuleId [1]), p1)" "wp_inv sample_ext p1" by (rule sample_write)
  let ?q = "snd (delete_capsule (CapsuleId [2]) p1)"
  let ?p2 = "snd (garbage_collect ?q)"
  have "wp_run sample_ext [Some (CapsuleId [2]), None] p1 ?p2"
    by (intro run_step [of sample_ext _ p1 ?q] run_step [of sample_ext _ ?q ?p2] run_nil
        ws_delete [OF prod.collapse [symmetric]] ws_collect [OF prod.collapse [symmetric]])
  from history_isolation [OF this p1(2) sample_xts_laws, of "CapsuleId [1]"] p1(1) show ?thesis by auto
qed

section \<open>Deleting and collecting\<close>

text \<open>C4: Deletion: an unknown capsule is refused and nothing changes; otherwise the capsule is gone
  afterwards, even if a system call failed on the way, every other capsule reads as before although
  segments may have been shared with it, and without failures the deletion returns \<open>Ok\<close>.\<close>

theorem delete_isolates:
  assumes "wp_inv E p" "delete_capsule cid p = (r, p')"
  shows "(if has_capsule p cid
      then fst (read_capsule E cid p') = Err CapsuleNotFound \<and> (io_free (wp_store p) \<longrightarrow> is_ok r)
      else r = Err CapsuleNotFound \<and> p' = p) \<and>
    wp_inv E p' \<and> (\<forall>k. k \<noteq> cid \<longrightarrow> fst (read_capsule E k p') = fst (read_capsule E k p))"
proof -
  have d: "delete_outcome E cid p r p'" by (rule delete_capsule_effect [OF assms])
  then have i: "wp_inv E p'" unfolding delete_outcome_def by blast
  have "fst (read_capsule E cid p') = Err CapsuleNotFound" if "\<not> has_capsule p' cid"
    using that fst_read_missing fst_read [OF wp_inv_km [OF i]] by simp
  then show ?thesis
    using d i fst_read [OF wp_inv_km [OF i]] fst_read [OF wp_inv_km [OF assms(1)]]
    unfolding delete_outcome_def by auto
qed

theorem delete_isolates_witness:
  "\<exists>p1. write_capsule_with_policy sample_ext (Some 0) (CapsuleId [1]) sample_data metro_sync
      (sample_pipeline sample_keys) = (Ok (CapsuleId [1]), p1) \<and>
    fst (read_capsule sample_ext (CapsuleId [1]) (snd (delete_capsule (CapsuleId [1]) p1))) = Err CapsuleNotFound"
proof -
  obtain p1 where p1: "write_capsule_with_policy sample_ext (Some 0) (CapsuleId [1]) sample_data metro_sync
      (sample_pipeline sample_keys) = (Ok (CapsuleId [1]), p1)" "wp_inv sample_ext p1"
      "has_capsule p1 (CapsuleId [1])" by (rule sample_write)
  from delete_isolates [OF p1(2) prod.collapse [symmetric], of "CapsuleId [1]"] p1(1,3) show ?thesis by auto
qed

text \<open>Reference counts stay exact through successful operations: if every segment's count equals the
  number of references to it from all capsules, then it does so again after a write or a deletion
  that returned \<open>Ok\<close>.\<close>

theorem counts_exact_on_success:
  assumes "wp_inv E p" "xts_laws E" "refs_exact [] (wp_store p)" "fits data p"
    and "write_capsule_with_policy E now cid data pol p = (Ok x, p1)" "delete_capsule cid' p1 = (Ok (), p2)"
  shows "refs_exact [] (wp_store p1) \<and> refs_exact [] (wp_store p2)"
proof -
  have w: "write_outcome E now cid pol data p (Ok x) p1" by (rule write_capsule_effect [OF assms(1,2,4,5)])
  then have i1: "wp_inv E p1" "refs_exact [] (wp_store p1)" using assms(3) by (auto simp: write_outcome_def)
  have "delete_outcome E cid' p1 (Ok ()) p2" by (rule delete_capsule_effect [OF i1(1) assms(6)])
  then show ?thesis using i1(2) by (auto simp: delete_outcome_def split: if_splits)
qed

theorem counts_exact_on_success_witness:
  "\<exists>p1 p2. write_capsule_with_policy sample_ext (Some 0) (CapsuleId [1]) sample_data metro_sync
      (sample_pipeline sample_keys) = (Ok (CapsuleId [1]), p1) \<and> delete_capsule (CapsuleId [1]) p1 = (Ok (), p2) \<and>
    refs_exact [] (wp_store p2)"
proof -
  obtain r1 p1 where p1: "write_capsule_with_policy sample_ext (Some 0) (CapsuleId [1]) sample_data metro_sync
      (sample_pipeline sample_keys) = (r1, p1)" by fastforce
  have w: "write_outcome sample_ext (Some 0) (CapsuleId [1]) metro_sync sample_data (sample_pipeline sample_keys) r1 p1"
    by (rule write_capsule_effect [OF sample_inv(2) sample_xts_laws sample_data_fits p1])
  then have i1: "is_ok r1" "wp_inv sample_ext p1" "io_free (wp_store p1)"
    using sample_writable [OF sample_compression(1), of "CapsuleId [1]" sample_keys] by (auto simp: write_outcome_def)
  then have r1: "r1 = Ok (CapsuleId [1])" "has_capsule p1 (CapsuleId [1])"
    using w by (auto simp: write_outcome_def has_capsule_def)
  obtain r2 p2 where p2: "delete_capsule (CapsuleId [1]) p1 = (r2, p2)" by fastforce
  have "delete_outcome sample_ext (CapsuleId [1]) p1 r2 p2" by (rule delete_capsule_effect [OF i1(2) p2])
  then have "r2 = Ok ()" using i1(3) r1(2) by (cases r2) (auto simp: delete_outcome_def)
  with counts_exact_on_success [OF sample_inv(2) sample_xts_laws sample_exact sample_data_fits p1 [unfolded r1(1)], of "CapsuleId [1]" p2]
  show ?thesis using p1 p2 r1 by auto
qed

text \<open>C5: Garbage collection removes exactly the segments whose reference count is zero and returns their
  number, leaving every other segment's metadata and every capsule's contents alone; without I/O
  failures it returns \<open>Ok\<close>.\<close>

theorem gc_removes_exactly_unreferenced:
  assumes "wp_inv E p" "garbage_collect p = (r, p')"
  shows "(\<forall>n. r = Ok n \<longrightarrow>
      n = length (filter (\<lambda>seg. seg_ref_count seg = 0) (nv_list_segments (st_nvram (wp_store p)))) \<and>
      (\<forall>sid. hm_get (nv_segment_map (st_nvram (wp_store p'))) sid =
        (case hm_get (nv_segment_map (st_nvram (wp_store p))) sid of
           Some seg \<Rightarrow> if seg_ref_count seg = 0 then None else Some seg | None \<Rightarrow> None))) \<and>
    wp_inv E p' \<and> (\<forall>k. fst (read_capsule E k p') = fst (read_capsule E k p)) \<and>
    (io_free (wp_store p) \<longrightarrow> is_ok r)"
proof -
  note G = garbage_collect_effect [OF assms]
  have "hm_get (nv_segment_map (st_nvram (wp_store p'))) sid =
        (case hm_get (nv_segment_map (st_nvram (wp_store p))) sid of
           Some seg \<Rightarrow> if seg_ref_count seg = 0 then None else Some seg | None \<Rightarrow> None)" if "r = Ok n" for n sid
    using G(6) [OF that, of sid]
    by (cases "hm_get (nv_segment_map (st_nvram (wp_store p))) sid") (simp_all add: rc_of_def unat_eq_0)
  moreover have "fst (read_capsule E k p') = fst (read_capsule E k p)" for k
    using G(3) fst_read [OF wp_inv_km [OF G(1)]] fst_read [OF wp_inv_km [OF assms(1)]] by metis
  ultimately show ?thesis using G(1,5,7) by blast
qed

definition leaked_pipeline :: write_pipeline where
  "leaked_pipeline =
     \<lparr>wp_store = \<lparr>st_registry = empty_registry\<lparr>reg_next_segment_id := 1\<rparr>,
        st_nvram = (empty_log [])\<lparr>nv_file := [9], nv_next_offset := 1,
          nv_segment_map := [(SegmentId 0, (fresh_segment (SegmentId 0) 0 [9])\<lparr>seg_ref_count := 0\<rparr>)]\<rparr>\<rparr>,
      wp_key_manager = None\<rparr>"

theorem gc_removes_exactly_unreferenced_witness:
  "is_ok (fst (garbage_collect leaked_pipeline)) \<and>
   hm_get (nv_segment_map (st_nvram (wp_store (snd (garbage_collect leaked_pipeline))))) (SegmentId 0) = None"
proof -
  have inv: "wp_inv sample_ext leaked_pipeline"
    by (simp add: wp_inv_def leaked_pipeline_def wp_km_ok_def store_inv_def empty_registry_def caps_ok_def
        ids_below_def content_ok_def refs_def capsule_refs_def rc_of_def log_ok_def placed_def seg_end_def
        fresh_segment_def hm_ok_def)
  have io: "io_free (wp_store leaked_pipeline)" by (simp add: io_free_def leaked_pipeline_def empty_registry_def)
  obtain r p' where run: "garbage_collect leaked_pipeline = (r, p')" by fastforce
  from gc_removes_exactly_unreferenced [OF inv run] io obtain n where "r = Ok n" by (cases r) auto
  with gc_removes_exactly_unreferenced [OF inv run] run show ?thesis
    by (auto simp: leaked_pipeline_def)
qed

text \<open>C6: Reconciliation at startup: from any registry and log that are individually sound and in which
  every referenced segment exists, whatever the reference counts say, a successful reconciliation
  makes every count equal the number of references, removes the unreferenced segments, establishes
  the pipeline's invariant and changes no capsule's contents.\<close>

theorem reconcile_restores:
  assumes "store_base E kf st" "length (capsule_refs (reg_capsules (st_registry st))) < 2 ^ 32"
    and "reconcile_refcounts st = (Ok (), st')"
  shows "store_inv E kf [] st' \<and> refs_exact [] st' \<and>
    (\<forall>sid seg. hm_get (nv_segment_map (st_nvram st')) sid = Some seg \<longrightarrow> seg_ref_count seg \<noteq> 0) \<and>
    (\<forall>k. contents E kf st' k = contents E kf st k)"
  using reconcile_effect(1,3) [OF assms] by auto

theorem reconcile_restores_witness:
  "reconcile_refcounts (wp_store leaked_pipeline) =
     (Ok (), snd (reconcile_refcounts (wp_store leaked_pipeline))) \<and>
   hm_get (nv_segment_map (st_nvram (snd (reconcile_refcounts (wp_store leaked_pipeline))))) (SegmentId 0) = None"
proof -
  let ?st = "wp_store leaked_pipeline"
  have base: "store_base sample_ext None ?st"
    by (simp add: leaked_pipeline_def store_base_def empty_registry_def caps_ok_def
        ids_below_def content_ok_def refs_def capsule_refs_def log_ok_def placed_def seg_end_def
        fresh_segment_def hm_ok_def)
  have bound: "length (capsule_refs (reg_capsules (st_registry ?st))) < 2 ^ 32"
    by (simp add: leaked_pipeline_def empty_registry_def capsule_refs_def)
  obtain r st' where run: "reconcile_refcounts ?st = (r, st')" by fastforce
  have "io_free ?st" by (simp add: io_free_def leaked_pipeline_def empty_registry_def)
  then have r: "r = Ok ()" using reconcile_effect(4) [OF base bound run] by (cases r) auto
  have inv: "store_inv sample_ext None [] st'" "refs_exact [] st'"
    "\<forall>sid seg. hm_get (nv_segment_map (st_nvram st')) sid = Some seg \<longrightarrow> seg_ref_count seg \<noteq> 0"
    using reconcile_restores [OF base bound run [unfolded r]] by auto
  have "reg_capsules (st_registry st') = []"
    using reconcile_effect(2) [OF base bound run] by (simp add: leaked_pipeline_def empty_registry_def)
  then have "rc_of (st_nvram st') (SegmentId 0) = 0"
    using inv(2) by (simp add: refs_exact_def refs_def capsule_refs_def)
  then have "hm_get (nv_segment_map (st_nvram st')) (SegmentId 0) = None"
    using inv(3) by (cases "hm_get (nv_segment_map (st_nvram st')) (SegmentId 0)") (auto simp: rc_of_def unat_eq_0)
  with run r show ?thesis by simp
qed

section \<open>Range reads\<close>

text \<open>C15: A range read of a capsule that holds \<open>data\<close> returns exactly the slice when the range lies inside
  the data, an error when it ends beyond it, and when \<open>offset + len\<close> exceeds 64 bits an error or a
  panic, never bytes.\<close>

theorem read_range_slice:
  assumes "wp_inv E p" "hm_get (reg_capsules (st_registry (wp_store p))) cid = Some c"
    and "fst (read_capsule E cid p) = Ok data" "cap_size c = of_nat (length data)"
    and "length data < 2 ^ 64" "len < 2 ^ 64"
  shows "fst (read_range E cid off len p) \<in>
     (if unat off + len \<le> length data then {Ok (take len (drop (unat off) data))}
      else if unat off + len < 2 ^ 64 then {Err ReadBeyondCapsule} else {Err ReadBeyondCapsule, Err Panic})"
proof -
  have d: "wp_contents E p cid = Ok data" using assms(3) fst_read [OF wp_inv_km [OF assms(1)]] by simp
  obtain r p' where run: "read_range E cid off len p = (r, p')" by fastforce
  from read_range_effect [OF wp_inv_km [OF assms(1)] run assms(2) d assms(4-6)] run show ?thesis
    by (auto split: if_splits)
qed

theorem read_range_slice_witness:
  "\<exists>p1. write_capsule_with_policy sample_ext (Some 0) (CapsuleId [1]) sample_data metro_sync
      (sample_pipeline sample_keys) = (Ok (CapsuleId [1]), p1) \<and>
    fst (read_range sample_ext (CapsuleId [1]) 2 3 p1) = Ok [3, 4, 5]"
proof -
  obtain p1 where run: "write_capsule_with_policy sample_ext (Some 0) (CapsuleId [1]) sample_data metro_sync
      (sample_pipeline sample_keys) = (Ok (CapsuleId [1]), p1)" by (rule sample_write)
  have w: "write_outcome sample_ext (Some 0) (CapsuleId [1]) metro_sync sample_data (sample_pipeline sample_keys)
      (Ok (CapsuleId [1])) p1"
    by (rule write_capsule_effect [OF sample_inv(2) sample_xts_laws sample_data_fits run])
  then obtain c where c: "hm_get (reg_capsules (st_registry (wp_store p1))) (CapsuleId [1]) = Some c"
    "cap_size c = of_nat (length sample_data)" by (auto simp: write_outcome_def)
  have inv: "wp_inv sample_ext p1" using w by (simp add: write_outcome_def)
  have "wp_contents sample_ext p1 (CapsuleId [1]) = Ok sample_data"
    using w sample_readable [OF sample_compression(1)] unfolding write_outcome_def is_ok.simps by blast
  then have "fst (read_capsule sample_ext (CapsuleId [1]) p1) = Ok sample_data"
    using fst_read [OF wp_inv_km [OF inv]] by simp
  from read_range_slice [OF inv c(1) this c(2), of 3 2] run show ?thesis
    by (simp add: sample_data_def)
qed

section \<open>Deduplication\<close>

text \<open>Entries of the content store are never displaced by a write.\<close>

lemma store_chunk_content:
  assumes "store_chunk True h fd cr em stats st = (Ok (sid, stats'), st')"
  shows "hm_get (reg_content_store (st_registry st')) h = Some sid"
    and "hm_get (reg_content_store (st_registry st)) h' = Some k \<Longrightarrow> hm_get (reg_content_store (st_registry st')) h' = Some k"
proof -
  have "hm_get (reg_content_store (st_registry st')) h = Some sid \<and>
    (\<forall>h' k. hm_get (reg_content_store (st_registry st)) h' = Some k \<longrightarrow> hm_get (reg_content_store (st_registry st')) h' = Some k)"
  proof (cases "hm_get (reg_content_store (st_registry st)) h")
    case (Some k)
    then show ?thesis
      using assms by (auto simp: store_chunk_def reg_lookup_content_def op_simps on_nvram_def split: op_splits)
  next
    case None
    obtain q2 s2 where a: "on_nvram (nv_append (fst (alloc_segment (st_registry st))) fd)
        (st\<lparr>st_registry := snd (alloc_segment (st_registry st))\<rparr>) = (q2, s2)" by fastforce
    have run: "write_new_dedup h fd cr em stats st = (Ok (sid, stats'), st')"
      using assms None by (simp add: store_chunk_def reg_lookup_content_def)
    let ?sid = "fst (alloc_segment (st_registry st))"
    obtain seg0 where q2: "q2 = Ok seg0" using run a by (cases q2) (auto simp: write_new_dedup_def Let_def op_simps)
    define seg where "seg = apply_enc_meta em (seg0\<lparr>seg_compressed := cr_compressed cr,
        seg_compression_algo := cr_algorithm cr, seg_content_hash := Some h, seg_ref_count := 1,
        seg_deduplicated := False\<rparr>)"
    obtain q3 s3 where u3: "on_nvram (nv_update_segment_metadata ?sid seg) s2 = (q3, s3)" by fastforce
    have q3: "q3 = Ok ()" using run a q2 u3 by (cases q3) (auto simp: write_new_dedup_def Let_def op_simps seg_def)
    obtain q4 s4 where u4: "on_registry (reg_register_content h ?sid) s3 = (q4, s4)" by fastforce
    have "q4 = Ok ()" "s4 = st'" "sid = ?sid"
      using run a q2 u3 q3 u4 by (cases q4; auto simp: write_new_dedup_def Let_def op_simps seg_def)+
    with u3 q3 u4 have u: "on_nvram (nv_update_segment_metadata ?sid seg) s2 = (Ok (), s3)"
      "on_registry (reg_register_content h ?sid) s3 = (Ok (), st')" "sid = ?sid" by auto
    then obtain rg where rg: "reg_register_content h sid (st_registry s3) = (Ok (), rg)" "st' = s3\<lparr>st_registry := rg\<rparr>"
      by (auto simp: on_registry_eq)
    have s3: "reg_content_store (st_registry s3) = reg_content_store (st_registry st)"
      using u(1) a by (auto simp: on_nvram_eq alloc_segment_def)
    show ?thesis using reg_register_effect(3) [OF rg(1)] rg(2) s3 None by auto
  qed
  then show "hm_get (reg_content_store (st_registry st')) h = Some sid"
    "hm_get (reg_content_store (st_registry st)) h' = Some k \<Longrightarrow> hm_get (reg_content_store (st_registry st')) h' = Some k"
    by auto
qed

abbreviation wp_content :: "write_pipeline \<Rightarrow> (content_hash, segment_id) hmap" where
  "wp_content p \<equiv> reg_content_store (st_registry (wp_store p))"

abbreviation wp_log :: "write_pipeline \<Rightarrow> nvram_log" where
  "wp_log p \<equiv> st_nvram (wp_store p)"

lemma encrypt_chunk_store: "encrypt_chunk E enc d h p = (r, p') \<Longrightarrow> wp_store p' = wp_store p"
  by (auto simp: encrypt_chunk_def wp_get_key_def op_simps Let_def split: if_splits option.splits prod.splits result.splits)

lemma write_chunk_Ok:
  assumes "write_chunk E pol enc i c stats p = (Ok y, p')"
  obtains v res fd em where "compress_segment E c (compression pol) = Ok (v, res)"
    "store_chunk (dedupe pol) (hash_content E v) fd res em stats (wp_store p) = (Ok y, wp_store p')"
proof -
  obtain v res where c: "compress_segment E c (compression pol) = Ok (v, res)"
    using assms by (cases "compress_segment E c (compression pol)") (auto simp: write_chunk_def op_simps)
  obtain q p1 where e: "encrypt_chunk E enc v (hash_content E v) p = (q, p1)" by fastforce
  obtain fd em where q: "q = Ok (fd, em)"
    using assms c e by (cases q) (auto simp: write_chunk_def op_simps Let_def)
  obtain q2 st2 where s: "store_chunk (dedupe pol) (hash_content E v) fd res em stats (wp_store p) = (q2, st2)" by fastforce
  have "q2 = Ok y" "wp_store p' = st2"
    using assms c e q s encrypt_chunk_store [OF e] by (auto simp: write_chunk_def op_simps Let_def on_store_def)
  with c s show thesis by (intro that) auto
qed

text \<open>The content store knows the compressed form of a chunk, under this segment.\<close>

definition known :: "ext \<Rightarrow> compression_policy \<Rightarrow> (content_hash, segment_id) hmap \<Rightarrow> nat \<times> bytes \<Rightarrow> segment_id \<Rightarrow> bool" where
  "known E pol content it sid \<longleftrightarrow>
     (\<exists>v res. compress_segment E (snd it) pol = Ok (v, res) \<and> hm_get content (hash_content E v) = Some sid)"

lemma write_loop_known:
  assumes "dedupe pol" "write_loop E pol enc items ids stats p = (Ok (ids', stats'), p')"
  shows "\<exists>new. ids' = ids @ new \<and> list_all2 (known E (compression pol) (wp_content p')) items new \<and>
    (\<forall>h k. hm_get (wp_content p) h = Some k \<longrightarrow> hm_get (wp_content p') h = Some k)"
  using assms(2)
proof (induction items arbitrary: ids stats p)
  case (Cons it items)
  obtain i c where it: "it = (i, c)" by (cases it)
  obtain sid st1 p1 where w: "write_chunk E pol enc i c stats p = (Ok (sid, st1), p1)"
    and run: "write_loop E pol enc items (ids @ [sid]) st1 p1 = (Ok (ids', stats'), p')"
    using Cons.prems by (auto simp: it split: prod.splits result.splits)
  obtain v res fd em where v: "compress_segment E c (compression pol) = Ok (v, res)"
    and s: "store_chunk True (hash_content E v) fd res em stats (wp_store p) = (Ok (sid, st1), wp_store p1)"
    by (rule write_chunk_Ok [OF w]) (use assms(1) in simp)
  note S = store_chunk_content [OF s]
  obtain new where new: "ids' = (ids @ [sid]) @ new" "list_all2 (known E (compression pol) (wp_content p')) items new"
    "\<forall>h k. hm_get (wp_content p1) h = Some k \<longrightarrow> hm_get (wp_content p') h = Some k"
    using Cons.IH [OF run] by blast
  have "known E (compression pol) (wp_content p') it sid"
    using v S(1) new(3) by (auto simp: known_def it)
  then show ?case using new S(2) by (intro exI [of _ "sid # new"]) auto
qed simp

text \<open>A log whose counters alone changed.\<close>

definition only_counters :: "nvram_log \<Rightarrow> nvram_log \<Rightarrow> bool" where
  "only_counters lg lg' \<longleftrightarrow> nv_file lg' = nv_file lg \<and> nv_next_offset lg' = nv_next_offset lg \<and>
     (\<forall>k. (hm_get (nv_segment_map lg') k = None) = (hm_get (nv_segment_map lg) k = None))"

lemma write_loop_hits:
  assumes "dedupe pol" "list_all2 (known E (compression pol) (wp_content p)) items new"
    and "write_loop E pol enc items ids stats p = (Ok (ids', stats'), p')"
  shows "ids' = ids @ new \<and> only_counters (wp_log p) (wp_log p') \<and> wp_content p' = wp_content p"
  using assms(2,3)
proof (induction items arbitrary: new ids stats p)
  case (Cons it items)
  obtain i c where it: "it = (i, c)" by (cases it)
  obtain sid new' where new: "new = sid # new'" "known E (compression pol) (wp_content p) it sid"
    "list_all2 (known E (compression pol) (wp_content p)) items new'"
    using Cons.prems(1) by (cases new) auto
  obtain sid' st1 p1 where w: "write_chunk E pol enc i c stats p = (Ok (sid', st1), p1)"
    and run: "write_loop E pol enc items (ids @ [sid']) st1 p1 = (Ok (ids', stats'), p')"
    using Cons.prems(2) by (auto simp: it split: prod.splits result.splits)
  obtain v res fd em where v: "compress_segment E c (compression pol) = Ok (v, res)"
    and s: "store_chunk True (hash_content E v) fd res em stats (wp_store p) = (Ok (sid', st1), wp_store p1)"
    by (rule write_chunk_Ok [OF w]) (use assms(1) in simp)
  have l: "hm_get (wp_content p) (hash_content E v) = Some sid"
    using new(2) v by (auto simp: known_def it)
  obtain q s2 where inc: "on_nvram (nv_increment_refcount sid) (wp_store p) = (q, s2)" by fastforce
  have q: "is_ok q" "sid' = sid" "wp_store p1 = s2"
    using s l inc by (cases q; auto simp: store_chunk_def reg_lookup_content_def op_simps)+
  obtain lg where lg: "nv_increment_refcount sid (wp_log p) = (q, lg)" "s2 = (wp_store p)\<lparr>st_nvram := lg\<rparr>"
    using inc by (auto simp: on_nvram_eq)
  obtain seg where seg: "hm_get (nv_segment_map (wp_log p)) sid = Some seg"
    using nv_increment_cases(1) [OF lg(1)] q(1) by fastforce
  have c1: "only_counters (wp_log p) (wp_log p1)" "wp_content p1 = wp_content p"
    using nv_increment_cases(2) [OF lg(1) seg] q(3) lg(2) seg by (auto simp: only_counters_def put_step_def)
  have "ids' = (ids @ [sid]) @ new' \<and> only_counters (wp_log p1) (wp_log p') \<and> wp_content p' = wp_content p1"
    by (rule Cons.IH) (use new(3) c1(2) run q(2) in simp_all)
  then show ?case using c1 new(1) by (auto simp: only_counters_def)
qed (auto simp: only_counters_def)

lemma write_ok_run:
  assumes "write_capsule_with_policy E now cid data pol p = (Ok x, p')"
  obtains ids stats p1 c where
    "write_loop E pol (is_enabled (encryption pol) \<and> wp_key_manager p \<noteq> None)
       (enumerate 0 (chunks SEGMENT_SIZE data)) [] new_stats p = (Ok (ids, stats), p1)"
    "wp_log p' = wp_log p1" "wp_content p' = wp_content p1"
    "hm_get (reg_capsules (st_registry (wp_store p'))) cid = Some c" "cap_segments c = ids"
  using assms
proof (cases rule: write_capsule_cases)
  case (created ids stats p1 st2 q st3)
  then obtain u where q: "q = Ok u" by (cases q) auto
  obtain rg where rg: "create_capsule_with_segments now cid (of_nat (length data)) ids pol (st_registry st2) = (q, rg)"
    "st3 = st2\<lparr>st_registry := rg\<rparr>"
    using created(3) by (auto simp: on_registry_eq)
  have st2: "st_nvram st2 = wp_log p1" "reg_content_store (st_registry st2) = wp_content p1"
    using created(2) by (auto simp: add_deduped_bytes_def split: option.splits)
  note C = create_effect [OF rg(1)]
  obtain c where c: "hm_get (reg_capsules rg) cid = Some c" "cap_segments c = ids"
    using C(3-5) q by (cases now; cases "hm_get (reg_capsules (st_registry st2)) cid") auto
  show thesis
    by (rule that [OF created(1)]) (use created(4) rg(2) st2 C(2) c in auto)
qed simp

text \<open>Deduplication: writing the same data again under deduplicating policies with the same
  compression (whatever their encryption) appends nothing to the log and creates no segment; the
  new capsule consists of exactly the segments of the first one.\<close>

theorem dedup_shares_segments:
  assumes "dedupe pol" "dedupe pol'" "compression pol' = compression pol"
    and "write_capsule_with_policy E now cid data pol p = (Ok x, p1)"
    and "write_capsule_with_policy E now' cid' data pol' p1 = (Ok y, p2)"
  shows "nv_file (wp_log p2) = nv_file (wp_log p1) \<and> nv_next_offset (wp_log p2) = nv_next_offset (wp_log p1) \<and>
    (\<forall>k. (hm_get (nv_segment_map (wp_log p2)) k = None) = (hm_get (nv_segment_map (wp_log p1)) k = None)) \<and>
    map_option cap_segments (hm_get (reg_capsules (st_registry (wp_store p2))) cid') =
    map_option cap_segments (hm_get (reg_capsules (st_registry (wp_store p1))) cid)"
proof -
  let ?items = "enumerate 0 (chunks SEGMENT_SIZE data)"
  obtain ids st1 q1 c1 where A: "write_loop E pol (is_enabled (encryption pol) \<and> wp_key_manager p \<noteq> None)
      ?items [] new_stats p = (Ok (ids, st1), q1)"
    "wp_content p1 = wp_content q1" "hm_get (reg_capsules (st_registry (wp_store p1))) cid = Some c1" "cap_segments c1 = ids"
    by (rule write_ok_run [OF assms(4)])
  obtain ids' st2 q2 c2 where B: "write_loop E pol' (is_enabled (encryption pol') \<and> wp_key_manager p1 \<noteq> None)
      ?items [] new_stats p1 = (Ok (ids', st2), q2)" "wp_log p2 = wp_log q2"
    "hm_get (reg_capsules (st_registry (wp_store p2))) cid' = Some c2" "cap_segments c2 = ids'"
    by (rule write_ok_run [OF assms(5)])
  have "list_all2 (known E (compression pol') (wp_content p1)) ?items ids"
    using write_loop_known [OF assms(1) A(1)] A(2) assms(3) by auto
  from write_loop_hits [OF assms(2) this B(1)] show ?thesis
    using A(3,4) B(2-4) by (simp add: only_counters_def)
qed

section \<open>What the code does not do\<close>

lemma write_loop_encryption:
  "write_loop E (pol\<lparr>encryption := e\<rparr>) enc items ids stats p = write_loop E pol enc items ids stats p"
  by (induction E pol enc items ids stats p rule: write_loop.induct)
    (auto simp: write_chunk_def split: prod.splits result.splits)

text \<open>Without a key manager a policy that asks for encryption is not refused: the write does what it
  would do with encryption disabled, and returns \<open>Ok\<close> under the same conditions. Only the policy
  recorded with the capsule differs.\<close>

theorem encryption_skipped_without_keys:
  assumes "wp_key_manager p = None" "write_capsule_with_policy E now cid data pol p = (r, p1)"
    and "write_capsule_with_policy E now cid data (pol\<lparr>encryption := Disabled\<rparr>) p = (r2, p2)"
  shows "r = r2 \<and> wp_log p1 = wp_log p2"
proof -
  have loop: "write_loop E (pol\<lparr>encryption := Disabled\<rparr>) False items ids stats p = write_loop E pol False items ids stats p"
    for items ids stats by (rule write_loop_encryption)
  have "wp_log p1 = wp_log p2 \<and> r = r2"
    using assms(2,3)
    by (auto simp: write_capsule_with_policy_def assms(1) loop bind_op_def Let_def on_store_def zoom_def on_registry_def
        map_err_op_def create_capsule_with_segments_def reg_save_def return_op_def add_deduped_bytes_def
        split: prod.splits result.splits option.splits if_splits)
  then show ?thesis by simp
qed

text \<open>The deduplication statistics never reach the registry: they are added to the capsule before it is
  created, so a capsule that was just written records no deduplicated bytes, however many of its
  segments were shared.\<close>

theorem deduped_bytes_not_recorded:
  assumes "wp_inv E p" "xts_laws E" "fits data p" "write_capsule_with_policy E now cid data pol p = (Ok x, p')"
  shows "map_option cap_deduped_bytes (hm_get (reg_capsules (st_registry (wp_store p'))) cid) = Some 0"
proof -
  have "write_outcome E now cid pol data p (Ok x) p'" by (rule write_capsule_effect [OF assms])
  then show ?thesis by (auto simp: write_outcome_def)
qed

theorem deduped_bytes_not_recorded_witness:
  "\<exists>p'. write_capsule_with_policy sample_ext (Some 0) (CapsuleId [1]) sample_data metro_sync
      (sample_pipeline sample_keys) = (Ok (CapsuleId [1]), p') \<and>
    map_option cap_deduped_bytes (hm_get (reg_capsules (st_registry (wp_store p'))) (CapsuleId [1])) = Some 0"
proof -
  obtain p' where p': "write_capsule_with_policy sample_ext (Some 0) (CapsuleId [1]) sample_data metro_sync
      (sample_pipeline sample_keys) = (Ok (CapsuleId [1]), p')" by (rule sample_write)
  from p' deduped_bytes_not_recorded [OF sample_inv(2) sample_xts_laws sample_data_fits p'] show ?thesis by auto
qed

lemma sample_chunks: "chunks SEGMENT_SIZE sample_data = [sample_data]" by (rule one_chunk) (rule sample_data_facts)+

lemma sample_dedupe: "dedupe metro_sync" "dedupe default_policy" by (simp_all add: policy_presets)

lemmas run_defs = write_capsule_with_policy_def sample_chunks sample_data_facts(1,2) write_chunk_def sample_compress sample_compression sample_pipeline_def empty_registry_def
    op_simps encrypt_chunk_def Let_def store_chunk_def on_store_def reg_lookup_content_def write_new_dedup_def alloc_segment_def nv_append_def 
   on_nvram_def on_registry_def nv_update_segment_metadata_def save_segment_map_def reg_register_content_def reg_save_def 
    create_capsule_with_segments_def sample_dedupe nv_put_def apply_enc_meta_def fs_write.simps file_write_def file_sync_def empty_log_def fresh_segment_def new_stats_def record_segment_def add_segment_stats_def add_deduped_bytes_def nv_increment_refcount_def nv_lookup_def

lemma sample_two_writes:
  "fst (write_capsule_with_policy sample_ext (Some 0) (CapsuleId [1]) sample_data metro_sync (sample_pipeline None)) = Ok (CapsuleId [1])"
  "fst (write_capsule_with_policy sample_ext (Some 0) (CapsuleId [2]) sample_data default_policy
     (snd (write_capsule_with_policy sample_ext (Some 0) (CapsuleId [1]) sample_data metro_sync (sample_pipeline None)))) = Ok (CapsuleId [2])"
  by (simp_all add: run_defs)

theorem dedup_shares_segments_witness:
  "\<exists>p1 p2. write_capsule_with_policy sample_ext (Some 0) (CapsuleId [1]) sample_data metro_sync (sample_pipeline None) =
       (Ok (CapsuleId [1]), p1) \<and>
     write_capsule_with_policy sample_ext (Some 0) (CapsuleId [2]) sample_data default_policy p1 = (Ok (CapsuleId [2]), p2) \<and>
     nv_file (st_nvram (wp_store p2)) = nv_file (st_nvram (wp_store p1))"
proof -
  let ?w1 = "write_capsule_with_policy sample_ext (Some 0) (CapsuleId [1]) sample_data metro_sync (sample_pipeline None)"
  let ?w2 = "write_capsule_with_policy sample_ext (Some 0) (CapsuleId [2]) sample_data default_policy (snd ?w1)"
  have run: "?w1 = (Ok (CapsuleId [1]), snd ?w1)" "?w2 = (Ok (CapsuleId [2]), snd ?w2)"
    using sample_two_writes by (metis prod.collapse)+
  have "compression default_policy = compression metro_sync" by (simp add: sample_compression)
  from dedup_shares_segments [OF sample_dedupe this run] run show ?thesis by blast
qed

theorem encryption_skipped_without_keys_witness:
  "is_enabled (encryption metro_sync) \<and>
   fst (write_capsule_with_policy sample_ext (Some 0) (CapsuleId [1]) sample_data (metro_sync\<lparr>encryption := Disabled\<rparr>)
     (sample_pipeline None)) = Ok (CapsuleId [1])"
proof -
  have "wp_key_manager (sample_pipeline None) = None" by (simp add: sample_pipeline_def)
  from encryption_skipped_without_keys [OF this prod.collapse [symmetric] prod.collapse [symmetric], of sample_ext "Some 0"
      "CapsuleId [1]" sample_data metro_sync] sample_two_writes(1)
  show ?thesis by (simp add: policy_presets)
qed

text \<open>Encryption requires sixteen bytes: with a key manager, a write whose only chunk compresses (or
  already is) below one cipher block under a policy that encrypts always fails, and leaves
  the registry and the log untouched; such data cannot be stored under that policy.\<close>

theorem short_encrypted_write_fails:
  assumes "wp_key_manager p = Some km" "is_enabled (encryption pol)"
    and "data \<noteq> []" "length data \<le> SEGMENT_SIZE"
    and "compress_segment E data (compression pol) = Ok (v, res)" "length v < 16"
    and "write_capsule_with_policy E now cid data pol p = (r, p')"
  shows "\<not> is_ok r \<and> wp_store p' = wp_store p"
proof -
  obtain q p1 where e: "encrypt_chunk E True v (hash_content E v) p = (q, p1)" by fastforce
  have bad: "\<not> is_ok q"
    using e assms(6) by (auto simp: encrypt_chunk_def op_simps assms(1) encrypt_segment_def xts_encrypt_def
        MIN_SECTOR_SIZE_def wp_get_key_def Let_def split: prod.splits result.splits)
  then obtain err where q: "q = Err err" by (cases q) auto
  have "r = Err err \<and> p' = p1"
    using assms(7) e q by (auto simp: write_capsule_with_policy_def one_chunk [OF assms(3,4)] assms(1,2,5)
        write_chunk_def op_simps Let_def)
  then show ?thesis using encrypt_chunk_store [OF e] by simp
qed

theorem short_encrypted_write_fails_witness:
  "\<not> is_ok (fst (write_capsule_with_policy sample_ext (Some 0) (CapsuleId [1]) [1, 2, 3] metro_sync (sample_pipeline sample_keys)))"
proof -
  let ?p = "sample_pipeline sample_keys"
  have k: "wp_key_manager ?p = Some (key_manager_new sample_ext (replicate 32 7))"
    by (simp add: sample_pipeline_def sample_keys_def)
  have e: "is_enabled (encryption metro_sync)" by (simp add: policy_presets)
  have c: "compress_segment sample_ext [1, 2, 3] (compression metro_sync) = Ok ([1, 2, 3], \<lparr>cr_original_size = 3,
      cr_compressed_size = 3, cr_compressed = False, cr_reused_original = True, cr_algorithm = ''identity'',
      cr_reason = Some IneffectiveReason\<rparr>)" unfolding sample_compression by code_simp
  from short_encrypted_write_fails [OF k e _ _ c _ prod.collapse [symmetric]] show ?thesis
    by (simp add: SEGMENT_SIZE_def)
qed

lemma write_loop_holds:
  assumes "wp_inv E p" "xts_laws E" "fits data p"
    and "write_loop E pol enc (enumerate 0 (chunks SEGMENT_SIZE data)) [] new_stats p = (Ok (ids, stats), p1)"
    and "collision_free E (stored_plain E (wp_keys E p) (st_nvram (wp_store p)) \<union> chunk_views E pol (chunks SEGMENT_SIZE data))"
  shows "holds_chunks E (wp_keys E p) pol (st_nvram (wp_store p1)) (chunks SEGMENT_SIZE data) ids"
proof -
  let ?items = "enumerate 0 (chunks SEGMENT_SIZE data)"
  have km: "wp_km_ok E p" "store_inv E (wp_keys E p) [] (wp_store p)" using assms(1) by (auto simp: wp_inv_def)
  have cap: "capacity (length ?items) (sum_list (map (length \<circ> snd) ?items)) (wp_store p)"
    using assms(3) by (simp only: fits_def enumerate_items chunks_total)
  have rr: "refs_room (length ?items) [] (wp_store p)" using assms(3) by (simp add: fits_def)
  have len: "\<forall>(i, c)\<in>set ?items. length c < 2 ^ 32"
    using snd_enumerate chunks_bounds [of _ SEGMENT_SIZE data] SEGMENT_SIZE_bounds(2) by fastforce
  from write_loop_effect [OF km(1) assms(2) km(2) cap len rr assms(4), unfolded enumerate_items] assms(5)
  show ?thesis by auto
qed

text \<open>Reading ignores the compressed flag of a segment: a chunk that was stored as it is, but that the
  decoder of the capsule's policy accepts, reads back decoded. What is returned for such a capsule
  is the decoder's output and not the data written.\<close>

theorem raw_frame_read_back_decoded:
  assumes "wp_inv E p" "xts_laws E" "fits data p" "data \<noteq> []" "length data \<le> SEGMENT_SIZE"
    and "compress_segment E data (compression pol) = Ok (data, res)" "decode_as E (compression pol) data = Ok x"
    and "collision_free E (insert data (stored_plain E (wp_keys E p) (st_nvram (wp_store p))))"
    and "write_capsule_with_policy E now cid data pol p = (Ok y, p')"
  shows "fst (read_capsule E cid p') = Ok x"
proof -
  have out: "write_outcome E now cid pol data p (Ok y) p'" by (rule write_capsule_effect [OF assms(1-3,9)])
  then have keys: "wp_keys E p' = wp_keys E p" and inv: "wp_inv E p'" by (simp_all add: write_outcome_def)
  obtain ids stats p1 c where W: "write_loop E pol (is_enabled (encryption pol) \<and> wp_key_manager p \<noteq> None)
       (enumerate 0 (chunks SEGMENT_SIZE data)) [] new_stats p = (Ok (ids, stats), p1)"
    "wp_log p' = wp_log p1" "hm_get (reg_capsules (st_registry (wp_store p'))) cid = Some c" "cap_segments c = ids"
    by (rule write_ok_run [OF assms(9)])
  have pol: "cap_policy c = pol" using out W(3) by (auto simp: write_outcome_def)
  have one: "chunks SEGMENT_SIZE data = [data]" by (rule one_chunk [OF assms(4,5)])
  have "chunk_views E pol [data] = {data}" using assms(6) by (simp add: chunk_views_def)
  then have "holds_chunks E (wp_keys E p) pol (wp_log p1) [data] ids"
    using write_loop_holds [OF assms(1-3) W(1)] assms(8) by (simp add: one)
  then obtain sid where sid: "ids = [sid]" "seg_plain E (wp_keys E p) (wp_log p1) sid = Ok data"
    using assms(6) by (auto simp: holds_chunks_def list_all2_Cons1)
  have "decompress_by_policy E (compression pol) data = x"
    using assms(7) by (cases "compression pol") (auto simp: decode_as_def decompress_by_policy_def)
  then have "wp_contents E p' cid = Ok x"
    by (simp add: contents_def reg_lookup_def W pol sid keys)
  then show ?thesis using fst_read [OF wp_inv_km [OF inv]] by simp
qed

text \<open>The witness writes an incompressible chunk of four bytes that happens to be a frame.\<close>

definition frame_data :: bytes where
  "frame_data = [4, 34, 7, 200]"

theorem raw_frame_read_back_decoded_witness:
  "\<exists>p'. write_capsule_with_policy sample_ext (Some 0) (CapsuleId [1]) frame_data default_policy (sample_pipeline None) =
      (Ok (CapsuleId [1]), p') \<and> fst (read_capsule sample_ext (CapsuleId [1]) p') = Ok (replicate 200 7)"
proof -
  let ?p = "sample_pipeline None"
  have d: "frame_data \<noteq> []" "length frame_data \<le> SEGMENT_SIZE" by (simp_all add: frame_data_def SEGMENT_SIZE_def)
  have c: "compress_segment sample_ext frame_data (compression default_policy) = Ok (frame_data, \<lparr>cr_original_size = 4,
      cr_compressed_size = 4, cr_compressed = False, cr_reused_original = True, cr_algorithm = ''identity'',
      cr_reason = Some IneffectiveReason\<rparr>)" unfolding sample_compression by code_simp
  have x: "decode_as sample_ext (compression default_policy) frame_data = Ok (replicate 200 7)"
    unfolding sample_compression by code_simp
  have f: "fits frame_data ?p" by (rule sample_fits [OF d])
  have i: "collision_free sample_ext (insert frame_data (stored_plain sample_ext (wp_keys sample_ext ?p) (st_nvram (wp_store ?p))))"
    by (simp add: sample_no_plain collision_free_def)
  obtain r p' where run: "write_capsule_with_policy sample_ext (Some 0) (CapsuleId [1]) frame_data default_policy ?p = (r, p')"
    by fastforce
  have o: "write_outcome sample_ext (Some 0) (CapsuleId [1]) default_policy frame_data ?p r p'"
    by (rule write_capsule_effect [OF sample_inv(1) sample_xts_laws f run])
  have "writable sample_ext (Some 0) (CapsuleId [1]) default_policy frame_data ?p"
    by (simp add: writable_def io_free_def sample_pipeline_def empty_registry_def one_chunk [OF d] chunk_ready_def c)
  then have "r = Ok (CapsuleId [1])" using o by (auto simp: write_outcome_def)
  with raw_frame_read_back_decoded [OF sample_inv(1) sample_xts_laws f d c x i, of "Some 0" "CapsuleId [1]"] run
  show ?thesis by blast
qed

end
