(* ===== verification/Async_Pipeline.thy ===== *)
theory Async_Pipeline
  imports Pipeline_Correct
begin

text \<open>
  The write pipeline of \<open>crates/capsule-registry/src/pipeline.rs\<close> with the feature
  \<open>pipeline_async\<close>: one task per chunk compresses and encrypts concurrently and sends its result
  over a channel; the writer puts the results back in order, stages the segments in a
  transaction, and undoes everything on an error. The order in which the tasks use the key
  manager and the order in which their messages arrive are arguments, \<open>sched\<close> and \<open>arrivals\<close>;
  timings and logging are left out, and so are the features \<open>podms\<close> and \<open>phase4\<close>.
\<close>

section \<open>Preparation\<close>

record segment_prepared =
  sp_index :: nat
  sp_content_hash :: content_hash
  sp_final_data :: bytes
  sp_comp_result :: compression_result
  sp_encryption_meta :: "encryption_metadata option"

datatype write_disposition = NewSegment | ReusedPersistent | ReusedStaged

definition prepare_encrypt ::
  "ext \<Rightarrow> policy \<Rightarrow> bytes \<Rightarrow> content_hash \<Rightarrow> (bytes \<times> encryption_metadata option) wp_op" where
  "prepare_encrypt E pol data h p =
     (if is_enabled (encryption pol) \<and> wp_key_manager p \<noteq> None then
        (case wp_key_manager p of
           None \<Rightarrow> (Err (PipelineRegistry ''key_manager'' KeyManagerMissing), p)
         | Some km \<Rightarrow>
             (let key_version = km_current_version km
              in bind_op (map_err_op (PipelineRegistry ''get_key'') (wp_get_key E key_version)) (\<lambda>key_pair.
                 let tweak = derive_tweak_from_hash (as_bytes (as_str h))
                 in bind_op (lift_result (map_result_err EncryptionFailed
                        (encrypt_segment E data key_pair key_version tweak))) (\<lambda>(ciphertext, enc_meta).
                      let mac_tag = compute_mac E ciphertext enc_meta (key1 key_pair) (key2 key_pair)
                      in return_op (ciphertext, Some (set_integrity_tag mac_tag enc_meta)))) p))
      else (Ok (data, None), p))"

definition prepare_segment :: "ext \<Rightarrow> nat \<Rightarrow> bytes \<Rightarrow> policy \<Rightarrow> segment_prepared wp_op" where
  "prepare_segment E index chunk pol =
     bind_op (lift_result (map_result_err (PipelineCompression index)
         (compress_segment E chunk (compression pol)))) (\<lambda>(compressed_data, comp_result).
       let h = hash_content E compressed_data
       in bind_op (prepare_encrypt E pol compressed_data h) (\<lambda>(final_data, encryption_meta).
            return_op \<lparr>sp_index = index, sp_content_hash = h, sp_final_data = final_data,
              sp_comp_result = comp_result, sp_encryption_meta = encryption_meta\<rparr>))"

text \<open>The spawned tasks, in the order in which they run, with what each returns.\<close>

fun run_tasks ::
  "ext \<Rightarrow> policy \<Rightarrow> bytes list \<Rightarrow> nat list \<Rightarrow> write_pipeline \<Rightarrow>
   (nat \<times> (segment_prepared, error) result) list \<times> write_pipeline" where
  "run_tasks E pol cs [] p = ([], p)"
| "run_tasks E pol cs (i # sched) p =
     (case prepare_segment E i (cs ! i) pol p of
        (r, p) \<Rightarrow> (case run_tasks E pol cs sched p of (rs, p) \<Rightarrow> ((i, r) # rs, p)))"

section \<open>Staging\<close>

text \<open>The state of the writer while it commits prepared segments in order.\<close>

record async_write =
  aw_store :: store
  aw_tx :: nvram_transaction
  aw_staged :: "(content_hash, segment_id) hmap"
  aw_increments :: "segment_id list"
  aw_registrations :: "(content_hash \<times> segment_id) list"
  aw_ids :: "segment_id list"
  aw_stats :: dedup_stats

type_synonym 'a aw_op = "(async_write, 'a, error) op"

definition on_aw_store :: "'a store_op \<Rightarrow> 'a aw_op" where
  "on_aw_store m = zoom aw_store (\<lambda>st a. a\<lparr>aw_store := st\<rparr>) m"

definition on_aw_tx :: "'a tx_op \<Rightarrow> 'a aw_op" where
  "on_aw_tx m = zoom (\<lambda>a. (st_nvram (aw_store a), aw_tx a))
     (\<lambda>(lg, tx) a. a\<lparr>aw_store := (aw_store a)\<lparr>st_nvram := lg\<rparr>, aw_tx := tx\<rparr>) m"

definition add_reference :: "segment \<Rightarrow> segment" where
  "add_reference seg =
     (let rc = saturating_inc (seg_ref_count seg)
      in seg\<lparr>seg_ref_count := rc, seg_deduplicated := rc > 1\<rparr>)"

definition stage_new ::
  "policy \<Rightarrow> segment_prepared \<Rightarrow> (segment_id \<times> write_disposition \<times> u64 \<times> content_hash option) aw_op" where
  "stage_new pol prep a =
     (let seg_id = fst (alloc_segment (st_registry (aw_store a)));
          a = a\<lparr>aw_store := (aw_store a)\<lparr>st_registry := snd (alloc_segment (st_registry (aw_store a)))\<rparr>\<rparr>;
          data_len = of_nat (length (sp_final_data prep))
      in bind_op (on_aw_tx (tx_append_segment seg_id (sp_final_data prep))) (\<lambda>segment a.
           let segment = segment\<lparr>seg_compressed := cr_compressed (sp_comp_result prep),
                 seg_compression_algo := cr_algorithm (sp_comp_result prep),
                 seg_ref_count := 1, seg_deduplicated := False\<rparr>;
               segment = segment\<lparr>seg_content_hash := (if dedupe pol then Some (sp_content_hash prep) else None)\<rparr>;
               a = (if dedupe pol then a\<lparr>aw_staged := hm_insert (sp_content_hash prep) seg_id (aw_staged a)\<rparr> else a);
               registered_hash = (if dedupe pol then Some (sp_content_hash prep) else None);
               segment = apply_enc_meta (sp_encryption_meta prep) segment
           in bind_op (on_aw_tx (tx_set_segment_metadata seg_id segment)) (\<lambda>_.
                return_op (seg_id, NewSegment, data_len, registered_hash)) a) a)"

definition commit_segment ::
  "policy \<Rightarrow> segment_prepared \<Rightarrow> (segment_id \<times> write_disposition \<times> u64 \<times> content_hash option) aw_op" where
  "commit_segment pol prep a =
     (case (if dedupe pol then hm_get (aw_staged a) (sp_content_hash prep) else None) of
        Some staged_seg_id \<Rightarrow>
          bind_op (lift_result (ok_or (tx_pending_segment staged_seg_id (aw_tx a)) (PendingNotFound staged_seg_id)))
            (\<lambda>pending_segment.
              bind_op (on_aw_tx (tx_with_segment_mut staged_seg_id add_reference)) (\<lambda>_.
                return_op (staged_seg_id, ReusedStaged, ucast (seg_len pending_segment), None))) a
      | None \<Rightarrow>
          (case (if dedupe pol then reg_lookup_content (sp_content_hash prep) (st_registry (aw_store a)) else None) of
             Some existing_seg_id \<Rightarrow>
               bind_op (on_aw_store (on_nvram (nv_increment_refcount existing_seg_id))) (\<lambda>segment.
                 return_op (existing_seg_id, ReusedPersistent, ucast (seg_len segment), None)) a
           | None \<Rightarrow> stage_new pol prep a))"

text \<open>One prepared segment whose turn has come.\<close>

definition take_prepared :: "policy \<Rightarrow> segment_prepared \<Rightarrow> unit aw_op" where
  "take_prepared pol prep =
     bind_op (commit_segment pol prep) (\<lambda>(seg_id, disposition, bytes_tracked, registered_hash) a.
       let a = (case disposition of
                  NewSegment \<Rightarrow>
                    a\<lparr>aw_registrations := aw_registrations a @
                        (case registered_hash of Some h \<Rightarrow> [(h, seg_id)] | None \<Rightarrow> []),
                      aw_stats := add_segment_stats bytes_tracked False (aw_stats a)\<rparr>
                | ReusedPersistent \<Rightarrow>
                    a\<lparr>aw_increments := aw_increments a @ [seg_id],
                      aw_stats := add_segment_stats bytes_tracked True (aw_stats a)\<rparr>
                | ReusedStaged \<Rightarrow> a\<lparr>aw_stats := add_segment_stats bytes_tracked True (aw_stats a)\<rparr>)
       in (Ok (), a\<lparr>aw_ids := aw_ids a @ [seg_id]\<rparr>))"

text \<open>\<open>while next_index < total_segments\<close>: commit as long as the next segment has arrived.\<close>

function drain ::
  "policy \<Rightarrow> nat \<Rightarrow> segment_prepared option list \<Rightarrow> nat \<Rightarrow> (segment_prepared option list \<times> nat) aw_op" where
  "drain pol n_total ordered next_index a =
     (if next_index < n_total then
        (case ordered ! next_index of
           None \<Rightarrow> (Ok (ordered, next_index), a)
         | Some next_prepared \<Rightarrow>
             (case take_prepared pol next_prepared a of
                (Ok _, a) \<Rightarrow> drain pol n_total (ordered[next_index := None]) (next_index + 1) a
              | (Err e, a) \<Rightarrow> (Err e, a)))
      else (Ok (ordered, next_index), a))"
  by pat_completeness auto
termination
  by (relation "measure (\<lambda>(pol, n_total, ordered, next_index, a). n_total - next_index)") auto

declare drain.simps [simp del]

text \<open>The receiving loop: the number of segments committed, or the error that ended it.\<close>

fun receive_loop ::
  "policy \<Rightarrow> nat \<Rightarrow> segment_prepared list \<Rightarrow> segment_prepared option list \<Rightarrow> nat \<Rightarrow> nat aw_op" where
  "receive_loop pol n_total [] ordered next_index a = (Ok next_index, a)"
| "receive_loop pol n_total (prepared # rest) ordered next_index a =
     (case drain pol n_total (ordered[sp_index prepared := Some prepared]) next_index a of
        (Ok (ordered, next_index), a) \<Rightarrow> receive_loop pol n_total rest ordered next_index a
      | (Err e, a) \<Rightarrow> (Err e, a))"

section \<open>Committing and undoing\<close>

text \<open>\<open>undo?; return Err(err)\<close>: an error of the undoing replaces the error that caused it.\<close>

definition undo_with :: "error \<Rightarrow> unit store_op \<Rightarrow> 'a store_op" where
  "undo_with err m st = (case m st of (Ok _, st) \<Rightarrow> (Err err, st) | (Err e, st) \<Rightarrow> (Err e, st))"

definition decrement_all :: "segment_id list \<Rightarrow> unit store_op" where
  "decrement_all incs =
     for_each (\<lambda>sid. bind_op (on_nvram (nv_decrement_refcount sid)) (\<lambda>_. return_op ())) (rev incs)"

definition remove_pending :: "segment_id \<Rightarrow> unit store_op" where
  "remove_pending sid = bind_op (on_nvram (nv_remove_segment sid)) (\<lambda>_. return_op ())"

definition deregister_entry :: "content_hash \<times> segment_id \<Rightarrow> unit store_op" where
  "deregister_entry e = bind_op (on_registry (reg_deregister_content (fst e) (snd e))) (\<lambda>_. return_op ())"

fun register_loop ::
  "(content_hash \<times> segment_id) list \<Rightarrow> segment_id list \<Rightarrow> (content_hash \<times> segment_id) list \<Rightarrow>
   (content_hash \<times> segment_id) list \<Rightarrow> unit store_op" where
  "register_loop regs incs [] registered st = (Ok (), st)"
| "register_loop regs incs ((h, sid) # rest) registered st =
     (case on_registry (reg_register_content h sid) st of
        (Ok _, st) \<Rightarrow> register_loop regs incs rest (registered @ [(h, sid)]) st
      | (Err err, st) \<Rightarrow>
          undo_with err
            (bind_op (for_each deregister_entry registered) (\<lambda>_.
             bind_op (for_each (\<lambda>e. remove_pending (snd e)) regs) (\<lambda>_.
               decrement_all incs))) st)"

text \<open>From the committed transaction to the capsule.\<close>

definition finish_async ::
  "u64 option \<Rightarrow> capsule_id \<Rightarrow> bytes \<Rightarrow> policy \<Rightarrow> async_write \<Rightarrow> capsule_id store_op" where
  "finish_async now capsule_id data pol a =
     bind_op (register_loop (aw_registrations a) (aw_increments a) (aw_registrations a) []) (\<lambda>_ st.
       case map_err_op (map_registry_error ''create_capsule_with_segments'')
              (on_registry (create_capsule_with_segments now capsule_id (of_nat (length data)) (aw_ids a) pol)) st of
         (Err err, st) \<Rightarrow>
           undo_with err
             (bind_op (for_each (\<lambda>e. bind_op (deregister_entry e) (\<lambda>_. remove_pending (snd e)))
                 (aw_registrations a)) (\<lambda>_. decrement_all (aw_increments a))) st
       | (Ok _, st) \<Rightarrow>
           (Ok capsule_id,
            (if bytes_saved (aw_stats a) > 0
             then st\<lparr>st_registry := add_deduped_bytes capsule_id (bytes_saved (aw_stats a)) (st_registry st)\<rparr>
             else st)))"

definition commit_async ::
  "u64 option \<Rightarrow> capsule_id \<Rightarrow> bytes \<Rightarrow> policy \<Rightarrow> async_write \<Rightarrow> (capsule_id, error) result \<times> store" where
  "commit_async now capsule_id data pol a =
     (case on_aw_tx tx_commit a of
        (Err err, a) \<Rightarrow>
          (case undo_with err (decrement_all (aw_increments a)) (aw_store a) of
             (r, st) \<Rightarrow> (r, st\<lparr>st_nvram := tx_drop (st_nvram st, aw_tx a)\<rparr>))
      | (Ok _, a) \<Rightarrow> finish_async now capsule_id data pol a (aw_store a))"

definition abort_async :: "error \<Rightarrow> async_write \<Rightarrow> (capsule_id, error) result \<times> store" where
  "abort_async err a =
     (case on_aw_tx tx_rollback a of
        (Err e, a) \<Rightarrow> (Err e, aw_store a)
      | (Ok _, a) \<Rightarrow> undo_with err (decrement_all (aw_increments a)) (aw_store a))"

section \<open>The asynchronous write\<close>

definition new_async :: "store \<Rightarrow> async_write" where
  "new_async st = \<lparr>aw_store = st, aw_tx = nv_begin_transaction (st_nvram st), aw_staged = [],
     aw_increments = [], aw_registrations = [], aw_ids = [], aw_stats = new_stats\<rparr>"

definition messages ::
  "(nat \<times> (segment_prepared, error) result) list \<Rightarrow> nat list \<Rightarrow> segment_prepared list" where
  "messages rs arrivals =
     concat (map (\<lambda>i. case map_of rs i of Some (Ok prep) \<Rightarrow> [prep] | _ \<Rightarrow> []) arrivals)"

definition task_errors :: "(nat \<times> (segment_prepared, error) result) list \<Rightarrow> nat \<Rightarrow> error list" where
  "task_errors rs n = concat (map (\<lambda>i. case map_of rs i of Some (Err e) \<Rightarrow> [e] | _ \<Rightarrow> []) [0..<n])"

definition commit_error :: "(nat, error) result \<Rightarrow> error list \<Rightarrow> nat \<Rightarrow> error option" where
  "commit_error q errs n_total =
     (case q of
        Err e \<Rightarrow> Some e
      | Ok next_index \<Rightarrow>
          (case errs of
             e # _ \<Rightarrow> Some e
           | [] \<Rightarrow> if next_index \<noteq> n_total then Some (ExitedEarly next_index n_total) else None))"

text \<open>
  \<open>memory_limit\<close> is \<open>PipelineConfig::memory_limit_per_task\<close>; when a chunk exceeds it, the tasks
  spawned before still run, and the transaction is dropped.
\<close>

definition write_capsule_async ::
  "ext \<Rightarrow> u64 option \<Rightarrow> capsule_id \<Rightarrow> bytes \<Rightarrow> policy \<Rightarrow> nat \<Rightarrow> nat list \<Rightarrow> nat list \<Rightarrow> capsule_id wp_op" where
  "write_capsule_async E now capsule_id data pol memory_limit sched arrivals p =
     (let cs = chunks SEGMENT_SIZE data;
          n_total = length cs;
          small = length (takeWhile (\<lambda>c. length c \<le> memory_limit) cs)
      in if n_total = 0 then
           bind_op (map_err_op (map_registry_error ''create_capsule_with_segments'')
             (on_store (on_registry (create_capsule_with_segments now capsule_id 0 [] pol))))
             (\<lambda>_. return_op capsule_id) p
         else if small < n_total then
           (let p = snd (run_tasks E pol cs (filter (\<lambda>i. i < small) sched) p);
                lg = st_nvram (wp_store p)
            in (Err (SegmentTooLarge small),
                p\<lparr>wp_store := (wp_store p)\<lparr>st_nvram := tx_drop (lg, nv_begin_transaction lg)\<rparr>\<rparr>))
         else
           (case run_tasks E pol cs sched p of
              (rs, p) \<Rightarrow>
                (case receive_loop pol n_total (messages rs arrivals) (replicate n_total None) 0
                        (new_async (wp_store p)) of
                   (q, a) \<Rightarrow>
                     (case (case commit_error q (task_errors rs n_total) n_total of
                              Some err \<Rightarrow> abort_async err a
                            | None \<Rightarrow> commit_async now capsule_id data pol a) of
                        (r, st) \<Rightarrow> (r, p\<lparr>wp_store := st\<rparr>)))))"

end
