(* ===== verification/Async_Schedule.thy ===== *)
theory Async_Schedule
  imports Async_Pipeline
begin

text \<open>
  The asynchronous write does not depend on its schedule: the tasks may use the key manager in
  any order and their messages may arrive in any order. The receiving loop is shown to commit
  the prepared segments in index order, up to the first index that did not arrive.
\<close>

section \<open>Tasks\<close>

text \<open>What a task returns, as a function of the keys and the current version alone.\<close>

definition encrypt_result ::
  "ext \<Rightarrow> policy \<Rightarrow> keys \<Rightarrow> u32 option \<Rightarrow> bytes \<Rightarrow> content_hash \<Rightarrow> (bytes \<times> encryption_metadata option, error) result" where
  "encrypt_result E pol kf kv d h =
     (case (if is_enabled (encryption pol) then kv else None) of
        None \<Rightarrow> Ok (d, None)
      | Some v \<Rightarrow>
          bind_result (map_result_err (PipelineRegistry ''get_key'')
            (bind_result (ok_or kf KeyManagerMissing) (\<lambda>f. map_result_err EncryptionFailed (f v)))) (\<lambda>kp.
          bind_result (map_result_err EncryptionFailed
            (encrypt_segment E d kp v (derive_tweak_from_hash (as_bytes (as_str h))))) (\<lambda>(ct, em).
              Ok (ct, Some (set_integrity_tag (compute_mac E ct em (key1 kp) (key2 kp)) em)))))"

definition prepare_result ::
  "ext \<Rightarrow> policy \<Rightarrow> keys \<Rightarrow> u32 option \<Rightarrow> nat \<Rightarrow> bytes \<Rightarrow> (segment_prepared, error) result" where
  "prepare_result E pol kf kv i c =
     bind_result (map_result_err (PipelineCompression i) (compress_segment E c (compression pol))) (\<lambda>(d, cr).
     bind_result (encrypt_result E pol kf kv d (hash_content E d)) (\<lambda>(fd, em).
       Ok \<lparr>sp_index = i, sp_content_hash = hash_content E d, sp_final_data = fd, sp_comp_result = cr,
           sp_encryption_meta = em\<rparr>))"

definition wp_version :: "write_pipeline \<Rightarrow> u32 option" where
  "wp_version p = map_option km_current_version (wp_key_manager p)"

lemma prepare_result_index: "prepare_result E pol kf kv i c = Ok prep \<Longrightarrow> sp_index prep = i"
  by (auto simp: prepare_result_def bind_result_Ok_iff)

text \<open>The pipeline is the same but for cached keys.\<close>

definition cached :: "ext \<Rightarrow> write_pipeline \<Rightarrow> write_pipeline \<Rightarrow> bool" where
  "cached E p q \<longleftrightarrow> only_keys E p q \<and> wp_version q = wp_version p"

lemma cached_refl: "wp_km_ok E p \<Longrightarrow> cached E p p"
  by (simp add: cached_def only_keys_refl)

lemma cached_trans: "cached E p q \<Longrightarrow> cached E q s \<Longrightarrow> cached E p s"
  using only_keys_trans by (auto simp: cached_def)

lemma cachedD:
  assumes "cached E p q"
  shows "wp_km_ok E q" "wp_keys E q = wp_keys E p" "wp_version q = wp_version p" "wp_store q = wp_store p"
  using assms by (auto simp: cached_def only_keys_def)

lemma wp_get_key_cached:
  assumes "wp_km_ok E p" "wp_get_key E v p = (r, p')"
  shows "cached E p p'"
    and "r = bind_result (ok_or (wp_keys E p) KeyManagerMissing) (\<lambda>f. map_result_err EncryptionFailed (f v))"
proof -
  have "wp_version p' = wp_version p"
    using assms(2) by (auto simp: wp_get_key_def wp_version_def get_key_def op_simps split: op_splits if_splits)
  then show "cached E p p'" using wp_get_key_effect(1) [OF assms] by (simp add: cached_def)
qed (rule wp_get_key_effect(2) [OF assms])

lemma prepare_encrypt_effect:
  assumes km: "wp_km_ok E p" and run: "prepare_encrypt E pol d h p = (r, p')"
  shows "cached E p p' \<and> r = encrypt_result E pol (wp_keys E p) (wp_version p) d h"
proof (cases "is_enabled (encryption pol) \<and> wp_key_manager p \<noteq> None")
  case False
  then show ?thesis
    using run cached_refl [OF km]
    by (cases "is_enabled (encryption pol)") (auto simp: prepare_encrypt_def encrypt_result_def wp_version_def)
next
  case True
  then obtain kmr where k: "wp_key_manager p = Some kmr" by auto
  obtain q p1 where g: "wp_get_key E (km_current_version kmr) p = (q, p1)" by fastforce
  note G = wp_get_key_cached [OF km g]
  have p': "p' = p1" and r: "r = bind_result (map_result_err (PipelineRegistry ''get_key'') q) (\<lambda>kp.
      bind_result (map_result_err EncryptionFailed
        (encrypt_segment E d kp (km_current_version kmr) (derive_tweak_from_hash (as_bytes (as_str h))))) (\<lambda>(ct, em).
          Ok (ct, Some (set_integrity_tag (compute_mac E ct em (key1 kp) (key2 kp)) em))))"
    using run True k g by (auto simp: prepare_encrypt_def op_simps Let_def split: result.splits prod.splits)
  show ?thesis using G p' True k by (simp add: r encrypt_result_def wp_version_def)
qed

lemma prepare_segment_effect:
  assumes km: "wp_km_ok E p" and run: "prepare_segment E i c pol p = (r, p')"
  shows "cached E p p' \<and> r = prepare_result E pol (wp_keys E p) (wp_version p) i c"
proof (cases "compress_segment E c (compression pol)")
  case (Err e)
  then show ?thesis using run cached_refl [OF km] by (auto simp: prepare_segment_def op_simps prepare_result_def)
next
  case (Ok v)
  obtain d cr where v: "v = (d, cr)" by fastforce
  obtain q p1 where e: "prepare_encrypt E pol d (hash_content E d) p = (q, p1)" by fastforce
  have E: "cached E p p1" "encrypt_result E pol (wp_keys E p) (wp_version p) d (hash_content E d) = q"
    using prepare_encrypt_effect [OF km e] by auto
  show ?thesis
    using E(1) run Ok v e
    by (cases q) (auto simp: prepare_segment_def op_simps Let_def prepare_result_def E(2))
qed

lemma run_tasks_effect:
  assumes "wp_km_ok E p" "run_tasks E pol cs sched p = (rs, p')"
  shows "cached E p p' \<and>
    rs = map (\<lambda>i. (i, prepare_result E pol (wp_keys E p) (wp_version p) i (cs ! i))) sched"
  using assms
proof (induction sched arbitrary: p rs)
  case Nil
  then show ?case by (auto simp: cached_refl)
next
  case (Cons i sched)
  obtain r p1 where s: "prepare_segment E i (cs ! i) pol p = (r, p1)" by fastforce
  note S = prepare_segment_effect [OF Cons.prems(1) s]
  obtain rs' where t: "run_tasks E pol cs sched p1 = (rs', p')"
    using Cons.prems(2) s by (auto split: prod.splits)
  have "wp_km_ok E p1" using S cachedD(1) by blast
  from Cons.IH [OF this t] S show ?case
    using Cons.prems(2) s t cachedD(2,3) [of E p p1] cached_trans by auto
qed

section \<open>The receiving loop\<close>

text \<open>The first index below \<open>n\<close> that has not arrived.\<close>

definition mex :: "nat set \<Rightarrow> nat \<Rightarrow> nat" where
  "mex D n = length (takeWhile (\<lambda>i. i \<in> D) [0..<n])"

lemma mex_facts:
  shows "mex D n \<le> n" "i < mex D n \<Longrightarrow> i \<in> D" "mex D n < n \<Longrightarrow> mex D n \<notin> D"
proof -
  let ?w = "takeWhile (\<lambda>i. i \<in> D) [0..<n]"
  show le: "mex D n \<le> n" using length_takeWhile_le [of "\<lambda>i. i \<in> D" "[0..<n]"] by (simp add: mex_def)
  show "i < mex D n \<Longrightarrow> i \<in> D"
    using nth_mem [of i ?w] takeWhile_nth [of i "\<lambda>i. i \<in> D" "[0..<n]"] le set_takeWhileD [of i "\<lambda>i. i \<in> D" "[0..<n]"]
    by (simp add: mex_def)
  show "mex D n < n \<Longrightarrow> mex D n \<notin> D"
    using nth_length_takeWhile [of "\<lambda>i. i \<in> D" "[0..<n]"] by (simp add: mex_def)
qed

lemma mex_unique:
  assumes "k \<le> n" "\<And>i. i < k \<Longrightarrow> i \<in> D" "k < n \<Longrightarrow> k \<notin> D"
  shows "mex D n = k"
  by (metis assms linorder_neqE_nat mex_facts order_less_le_trans)

lemma mex_mono: "D \<subseteq> D' \<Longrightarrow> mex D n \<le> mex D' n"
  by (metis linorder_not_le mex_facts order_less_le_trans subsetD)

lemma mex_empty [simp]: "mex {} n = 0"
  by (rule mex_unique) auto

lemma mex_full: "mex {..<n} n = n"
  by (rule mex_unique) auto

text \<open>The slots of the results that have arrived and are not yet committed.\<close>

definition slots :: "(nat \<Rightarrow> segment_prepared) \<Rightarrow> nat set \<Rightarrow> nat \<Rightarrow> nat \<Rightarrow> segment_prepared option list" where
  "slots f D nxt n = map (\<lambda>i. if i \<in> D \<and> nxt \<le> i then Some (f i) else None) [0..<n]"

lemma slots_facts:
  "slots f {} nxt n = replicate n None"
  "i < n \<Longrightarrow> slots f D nxt n ! i = (if i \<in> D \<and> nxt \<le> i then Some (f i) else None)"
  by (simp_all add: slots_def map_replicate_const)

lemma slots_arrive: "i < n \<Longrightarrow> nxt \<le> i \<Longrightarrow> (slots f D nxt n)[i := Some (f i)] = slots f (insert i D) nxt n"
  by (rule nth_equalityI) (auto simp: slots_def nth_list_update)

lemma slots_take: "(slots f D nxt n)[nxt := None] = slots f D (nxt + 1) n"
  by (cases "nxt < n"; rule nth_equalityI) (auto simp: slots_def nth_list_update)

lemma drain_eq:
  assumes "nxt \<le> mex D n"
  shows "drain pol n (slots f D nxt n) nxt a =
    (case for_each (take_prepared pol) (map f [nxt..<mex D n]) a of
       (Ok _, a') \<Rightarrow> (Ok (slots f D (mex D n) n, mex D n), a') | (Err e, a') \<Rightarrow> (Err e, a'))"
  using assms
proof (induction "n - nxt" arbitrary: nxt a)
  case 0
  then have "nxt = n" "mex D n = n" using mex_facts(1) [of D n] by auto
  then show ?case by (simp add: drain.simps)
next
  case (Suc k)
  show ?case
  proof (cases "nxt = mex D n")
    case True
    have "nxt < n" using Suc.hyps(2) by simp
    moreover have "nxt \<notin> D" using mex_facts(3) [of D n] calculation True by simp
    ultimately show ?thesis using True by (simp add: drain.simps slots_facts)
  next
    case False
    then have lt: "nxt < mex D n" using Suc.prems by simp
    then have D: "nxt \<in> D" "nxt < n" using mex_facts(1,2) by (blast, metis order_less_le_trans mex_facts(1))
    have up: "[nxt..<mex D n] = nxt # [nxt + 1..<mex D n]" using lt by (simp add: upt_conv_Cons)
    obtain r a1 where t: "take_prepared pol (f nxt) a = (r, a1)" by fastforce
    show ?thesis
    proof (cases r)
      case (Ok u)
      have "drain pol n (slots f D (nxt + 1) n) (nxt + 1) a1 =
        (case for_each (take_prepared pol) (map f [nxt + 1..<mex D n]) a1 of
           (Ok _, a') \<Rightarrow> (Ok (slots f D (mex D n) n, mex D n), a') | (Err e, a') \<Rightarrow> (Err e, a'))"
        by (rule Suc.hyps(1)) (use Suc.hyps(2) lt in auto)
      then show ?thesis
        using D t Ok by (subst drain.simps) (simp add: slots_facts slots_take [unfolded Suc_eq_plus1 [symmetric]] up)
    qed (use D t in \<open>subst drain.simps, simp add: slots_facts up\<close>)
  qed
qed

lemma receive_loop_eq:
  assumes "distinct A" "set A \<inter> D = {}" "set A \<subseteq> {..<n}" "\<forall>i\<in>set A. sp_index (f i) = i"
  shows "receive_loop pol n (map f A) (slots f D (mex D n) n) (mex D n) a =
    (case for_each (take_prepared pol) (map f [mex D n..<mex (D \<union> set A) n]) a of
       (Ok _, a') \<Rightarrow> (Ok (mex (D \<union> set A) n), a') | (Err e, a') \<Rightarrow> (Err e, a'))"
  using assms
proof (induction A arbitrary: D a)
  case (Cons i A)
  define m m1 m2 where "m = mex D n" and "m1 = mex (insert i D) n" and "m2 = mex (D \<union> set (i # A)) n"
  have i: "i < n" "i \<notin> D" "sp_index (f i) = i" using Cons.prems by auto
  have ge: "m \<le> i" using i(2) mex_facts(2) [of i D n] unfolding m_def by (meson linorder_not_le)
  have ord: "m \<le> m1" "m1 \<le> m2" unfolding m_def m1_def m2_def by (rule mex_mono; auto)+
  have split: "[m..<m2] = [m..<m1] @ [m1..<m2]" using upt_add_eq_append [of m m1 "m2 - m1"] ord by simp
  note d = drain_eq [OF ord(1) [unfolded m1_def], of pol f a, folded m1_def]
  obtain r a1 where fe: "for_each (take_prepared pol) (map f [m..<m1]) a = (r, a1)" by fastforce
  have un: "insert i D \<union> set A = D \<union> set (i # A)" by simp
  have IH: "receive_loop pol n (map f A) (slots f (insert i D) m1 n) m1 a1 =
    (case for_each (take_prepared pol) (map f [m1..<m2]) a1 of
       (Ok _, a') \<Rightarrow> (Ok m2, a') | (Err e, a') \<Rightarrow> (Err e, a'))"
    unfolding m1_def m2_def using Cons.IH [of "insert i D" a1, unfolded un] Cons.prems by simp
  have "receive_loop pol n (map f (i # A)) (slots f D m n) m a =
    (case for_each (take_prepared pol) (map f [m..<m2]) a of
       (Ok _, a') \<Rightarrow> (Ok m2, a') | (Err e, a') \<Rightarrow> (Err e, a'))"
    using d fe IH by (cases r) (simp_all add: i(3) slots_arrive [OF i(1) ge] split for_each_append)
  then show ?case by (simp only: m_def m2_def)
qed simp

text \<open>Arrival order does not matter: the loop commits the first indices in order.\<close>

lemma receive_any_order:
  assumes "distinct A" "set A \<subseteq> {..<n}" "\<forall>i\<in>set A. sp_index (f i) = i"
  shows "receive_loop pol n (map f A) (replicate n None) 0 a =
    (case for_each (take_prepared pol) (map f [0..<mex (set A) n]) a of
       (Ok _, a') \<Rightarrow> (Ok (mex (set A) n), a') | (Err e, a') \<Rightarrow> (Err e, a'))"
  using receive_loop_eq [OF assms(1) _ assms(2,3), of "{}" pol a, unfolded mex_empty slots_facts(1) Un_empty_left] by simp

section \<open>The write in a normal form\<close>

definition prepared_of :: "(nat \<Rightarrow> (segment_prepared, error) result) \<Rightarrow> nat \<Rightarrow> segment_prepared" where
  "prepared_of R i = (case R i of Ok prep \<Rightarrow> prep)"

definition ordered_commit ::
  "policy \<Rightarrow> (nat \<Rightarrow> (segment_prepared, error) result) \<Rightarrow> nat \<Rightarrow> nat aw_op" where
  "ordered_commit pol R n a =
     (let m = mex {i. i < n \<and> is_ok (R i)} n
      in case for_each (take_prepared pol) (map (prepared_of R) [0..<m]) a of
           (Ok _, a') \<Rightarrow> (Ok m, a') | (Err e, a') \<Rightarrow> (Err e, a'))"

definition ordered_errors :: "(nat \<Rightarrow> (segment_prepared, error) result) \<Rightarrow> nat \<Rightarrow> error list" where
  "ordered_errors R n = concat (map (\<lambda>i. case R i of Err e \<Rightarrow> [e] | Ok _ \<Rightarrow> []) [0..<n])"

definition end_async ::
  "u64 option \<Rightarrow> capsule_id \<Rightarrow> bytes \<Rightarrow> policy \<Rightarrow> error option \<Rightarrow> async_write \<Rightarrow> (capsule_id, error) result \<times> store" where
  "end_async now cid data pol err a =
     (case err of Some e \<Rightarrow> abort_async e a | None \<Rightarrow> commit_async now cid data pol a)"

definition ordered_write ::
  "u64 option \<Rightarrow> capsule_id \<Rightarrow> bytes \<Rightarrow> policy \<Rightarrow> (nat \<Rightarrow> (segment_prepared, error) result) \<Rightarrow> nat \<Rightarrow> capsule_id store_op" where
  "ordered_write now cid data pol R n st =
     (case ordered_commit pol R n (new_async st) of
        (q, a) \<Rightarrow> end_async now cid data pol (commit_error q (ordered_errors R n) n) a)"

text \<open>The indices of the chunks, in any order.\<close>

definition order_of :: "nat \<Rightarrow> nat list \<Rightarrow> bool" where
  "order_of n xs \<longleftrightarrow> distinct xs \<and> set xs = {..<n}"

lemma map_of_tasks: "i \<in> set sched \<Longrightarrow> map_of (map (\<lambda>i. (i, R i)) sched) i = Some (R i)"
  by (induction sched) auto

lemma messages_eq:
  assumes "set arrivals \<subseteq> set sched"
  shows "messages (map (\<lambda>i. (i, R i)) sched) arrivals = map (prepared_of R) (filter (\<lambda>i. is_ok (R i)) arrivals)"
proof -
  have "messages (map (\<lambda>i. (i, R i)) sched) xs = map (prepared_of R) (filter (\<lambda>i. is_ok (R i)) xs)"
    if "set xs \<subseteq> set sched" for xs
    using that by (induction xs) (auto simp: messages_def map_of_tasks prepared_of_def split: result.splits)
  then show ?thesis using assms by blast
qed

lemma task_errors_eq:
  assumes "{..<n} \<subseteq> set sched"
  shows "task_errors (map (\<lambda>i. (i, R i)) sched) n = ordered_errors R n"
proof -
  have "(case map_of (map (\<lambda>i. (i, R i)) sched) i of Some (Err e) \<Rightarrow> [e] | _ \<Rightarrow> []) =
      (case R i of Err e \<Rightarrow> [e] | Ok _ \<Rightarrow> [])" if "i < n" for i
    using map_of_tasks [of i sched R] assms that by (cases "R i") auto
  then show ?thesis
    unfolding task_errors_def ordered_errors_def by (intro arg_cong [where f = concat] map_cong) auto
qed

text \<open>Every schedule does what writing the chunks one after the other does.\<close>

lemma write_capsule_async_ordered:
  assumes km: "wp_km_ok E p" and ne: "data \<noteq> []"
    and small: "\<forall>c\<in>set (chunks SEGMENT_SIZE data). length c \<le> memory_limit"
    and ord: "order_of (length (chunks SEGMENT_SIZE data)) sched" "order_of (length (chunks SEGMENT_SIZE data)) arrivals"
  defines "cs \<equiv> chunks SEGMENT_SIZE data"
  shows "\<exists>p1. cached E p p1 \<and> write_capsule_async E now cid data pol memory_limit sched arrivals p =
    (case ordered_write now cid data pol (\<lambda>i. prepare_result E pol (wp_keys E p) (wp_version p) i (cs ! i))
        (length cs) (wp_store p) of (r, st) \<Rightarrow> (r, p1\<lparr>wp_store := st\<rparr>))"
proof -
  let ?R = "\<lambda>i. prepare_result E pol (wp_keys E p) (wp_version p) i (cs ! i)" and ?n = "length cs"
  obtain rs p1 where t: "run_tasks E pol cs sched p = (rs, p1)" by fastforce
  note T = run_tasks_effect [OF km t]
  then have rs: "rs = map (\<lambda>i. (i, ?R i)) sched" and c: "cached E p p1" by auto
  have sets: "set arrivals = {..<?n}" "set sched = {..<?n}" "distinct arrivals"
    using ord by (simp_all add: order_of_def cs_def)
  have msgs: "messages rs arrivals = map (prepared_of ?R) (filter (\<lambda>i. is_ok (?R i)) arrivals)"
    unfolding rs by (rule messages_eq) (simp add: sets)
  have errs: "task_errors rs ?n = ordered_errors ?R ?n"
    unfolding rs by (rule task_errors_eq) (simp add: sets)
  have A: "set (filter (\<lambda>i. is_ok (?R i)) arrivals) = {i. i < ?n \<and> is_ok (?R i)}" using sets by auto
  have idx: "\<forall>i\<in>set (filter (\<lambda>i. is_ok (?R i)) arrivals). sp_index (prepared_of ?R i) = i"
  proof clarsimp
    fix i assume "is_ok (?R i)"
    then obtain prep where "?R i = Ok prep" by (cases "?R i") auto
    then show "sp_index (prepared_of ?R i) = i" using prepare_result_index by (simp add: prepared_of_def)
  qed
  have loop: "receive_loop pol ?n (messages rs arrivals) (replicate ?n None) 0 a = ordered_commit pol ?R ?n a" for a
    unfolding msgs ordered_commit_def Let_def A [symmetric]
    by (rule receive_any_order) (use sets A idx in auto)
  have "length (takeWhile (\<lambda>c. length c \<le> memory_limit) cs) = ?n"
    using small by (simp add: cs_def takeWhile_eq_all_conv [THEN iffD2])
  moreover have "?n \<noteq> 0" using ne chunks_step [of SEGMENT_SIZE data] SEGMENT_SIZE_bounds(1) by (simp add: cs_def)
  moreover have "wp_store p1 = wp_store p" using cachedD(4) [OF c] .
  ultimately have "write_capsule_async E now cid data pol memory_limit sched arrivals p =
    (case ordered_write now cid data pol ?R ?n (wp_store p) of (r, st) \<Rightarrow> (r, p1\<lparr>wp_store := st\<rparr>))"
    by (simp add: write_capsule_async_def cs_def [symmetric] Let_def t loop errs ordered_write_def end_async_def split: prod.split)
  with c show ?thesis by blast
qed

end
