(* ===== verification/Async_Refinement.thy ===== *)
theory Async_Refinement
  imports Async_Schedule
begin

text \<open>
  The asynchronous write refines the synchronous one. A simulation relation ties the writer's
  staged transaction to the log that the synchronous write has already extended; every prepared
  segment keeps it, and committing turns it into equality of the two stores up to access
  counters and the statistics of the new capsule.
\<close>

section \<open>Evaluation without failures\<close>

lemma save_map_io: "nv_io lg = [] \<Longrightarrow> save_segment_map lg = (Ok (), lg\<lparr>nv_saved := Stored (nv_segment_map lg)\<rparr>)"
  by (simp add: save_segment_map_def)

lemma reg_save_io: "reg_io rg = [] \<Longrightarrow> reg_save rg = (Ok (), rg\<lparr>reg_saved := Stored (reg_snapshot rg)\<rparr>)"
  by (simp add: reg_save_def)

lemma file_io:
  "nv_io lg = [] \<Longrightarrow> file_write off d lg = (Ok (), lg\<lparr>nv_file := write_at off d (nv_file lg)\<rparr>)"
  "nv_io lg = [] \<Longrightarrow> file_sync lg = (Ok (), lg)"
  by (simp_all add: file_write_def file_sync_def)

lemmas io_free_run = save_map_io reg_save_io file_io

section \<open>Pending segments\<close>

definition pend_get :: "pending_segment list \<Rightarrow> segment_id \<Rightarrow> segment option" where
  "pend_get ps k = map_option pend_segment (find (\<lambda>p. seg_id (pend_segment p) = k) ps)"

lemma tx_pending_segment_get: "tx_pending_segment k tx = pend_get (tx_pending tx) k"
  by (simp add: tx_pending_segment_def pend_get_def)

lemma pend_get_Cons:
  "pend_get (p # ps) k = (if seg_id (pend_segment p) = k then Some (pend_segment p) else pend_get ps k)"
  by (simp add: pend_get_def)

lemma pend_get_None_iff: "pend_get ps k = None \<longleftrightarrow> k \<notin> set (pend_ids ps)"
  by (auto simp: pend_get_def pend_ids_def find_None_iff)

lemma pend_get_append: "pend_get (ps @ qs) k = (case pend_get ps k of Some s \<Rightarrow> Some s | None \<Rightarrow> pend_get qs k)"
  by (induction ps) (simp_all add: pend_get_Cons pend_get_def)

lemma pend_get_Nil [simp]: "pend_get [] k = None"
  by (simp add: pend_get_def)

lemma get_insert_pending_find:
  "distinct (pend_ids ps) \<Longrightarrow>
   hm_get (insert_pending ps m) k = (case pend_get ps k of Some s \<Rightarrow> Some s | None \<Rightarrow> hm_get m k)"
proof (induction ps m rule: insert_pending.induct)
  case (2 p ps m)
  then have "pend_get ps (seg_id (pend_segment p)) = None" by (simp add: pend_get_None_iff pend_ids_def)
  with 2 show ?case by (auto simp: pend_get_Cons pend_ids_def split: option.splits)
qed simp

text \<open>What the map will hold under a key once the pending segments are inserted.\<close>

definition pend_view :: "pending_segment list \<Rightarrow> (segment_id, segment) hmap \<Rightarrow> segment_id \<Rightarrow> segment option" where
  "pend_view ps m k = (case pend_get ps k of Some s \<Rightarrow> Some s | None \<Rightarrow> hm_get m k)"

lemma pend_view_append:
  "pend_get ps (seg_id (pend_segment p)) = None \<Longrightarrow>
   pend_view (ps @ [p]) m k = (if k = seg_id (pend_segment p) then Some (pend_segment p) else pend_view ps m k)"
  by (auto simp: pend_view_def pend_get_append pend_get_Cons split: option.splits)

lemma pend_view_insert:
  "pend_get ps sid = None \<Longrightarrow>
   pend_view ps (hm_insert sid s m) k = (if k = sid then Some s else pend_view ps m k)"
  by (auto simp: pend_view_def split: option.splits)

definition change_pending :: "segment_id \<Rightarrow> (segment \<Rightarrow> segment) \<Rightarrow> pending_segment list \<Rightarrow> pending_segment list" where
  "change_pending sid f ps =
     update_first (\<lambda>p. seg_id (pend_segment p) = sid) (\<lambda>p. p\<lparr>pend_segment := f (pend_segment p)\<rparr>) ps"

text \<open>A change of one pending segment that keeps its identifier and its offset.\<close>

definition keeps_slot :: "segment_id \<Rightarrow> (segment \<Rightarrow> segment) \<Rightarrow> pending_segment list \<Rightarrow> bool" where
  "keeps_slot sid f ps \<longleftrightarrow> (\<forall>p\<in>set ps. seg_id (pend_segment p) = sid \<longrightarrow>
     seg_id (f (pend_segment p)) = sid \<and> seg_offset (f (pend_segment p)) = seg_offset (pend_segment p))"

definition flush :: "pending_segment list \<Rightarrow> bytes \<Rightarrow> bytes" where
  "flush ps f = foldl (\<lambda>f p. write_at (unat (seg_offset (pend_segment p))) (pend_data p) f) f ps"

lemma flush_simps:
  "flush [] f = f"
  "flush (p # ps) f = flush ps (write_at (unat (seg_offset (pend_segment p))) (pend_data p) f)"
  "flush (ps @ [p]) f = write_at (unat (seg_offset (pend_segment p))) (pend_data p) (flush ps f)"
  by (simp_all add: flush_def)

lemma change_pending_effect:
  assumes "keeps_slot sid f ps"
  shows "pend_ids (change_pending sid f ps) = pend_ids ps"
    and "pend_get (change_pending sid f ps) k = (if k = sid then map_option f (pend_get ps sid) else pend_get ps k)"
    and "flush (change_pending sid f ps) x = flush ps x"
proof -
  have "pend_ids (change_pending sid f ps) = pend_ids ps \<and>
    pend_get (change_pending sid f ps) k = (if k = sid then map_option f (pend_get ps sid) else pend_get ps k) \<and>
    flush (change_pending sid f ps) x = flush ps x" for x
    using assms
    by (induction ps arbitrary: x)
      (auto simp: change_pending_def keeps_slot_def pend_ids_def pend_get_Cons flush_simps)
  then show "pend_ids (change_pending sid f ps) = pend_ids ps"
    "pend_get (change_pending sid f ps) k = (if k = sid then map_option f (pend_get ps sid) else pend_get ps k)"
    "flush (change_pending sid f ps) x = flush ps x" by auto
qed

lemma write_pending_io:
  "nv_io lg = [] \<Longrightarrow> write_pending ps lg = (Ok (), lg\<lparr>nv_file := flush ps (nv_file lg)\<rparr>)"
proof -
  have "for_each (\<lambda>p. file_write (unat (seg_offset (pend_segment p))) (pend_data p)) ps lg =
      (Ok (), lg\<lparr>nv_file := flush ps (nv_file lg)\<rparr>)" if "nv_io lg = []" for lg
    using that by (induction ps arbitrary: lg) (simp_all add: flush_simps io_free_run)
  then show "nv_io lg = [] \<Longrightarrow> ?thesis" by (simp add: write_pending_def op_simps io_free_run)
qed

section \<open>The simulation relation\<close>

text \<open>Equal but for the access counter, which the two writes advance differently.\<close>

definition alike :: "segment \<Rightarrow> segment \<Rightarrow> bool" where
  "alike s s' \<longleftrightarrow> s\<lparr>seg_access_count := 0\<rparr> = s'\<lparr>seg_access_count := 0\<rparr>"

lemma alike_simps:
  assumes "alike s s'"
  shows "seg_len s = seg_len s'" "seg_ref_count s = seg_ref_count s'" "seg_offset s = seg_offset s'"
    "seg_id s = seg_id s'" "seg_content_hash s = seg_content_hash s'" "seg_compressed s = seg_compressed s'"
    "seg_decrypt E kf s raw = seg_decrypt E kf s' raw"
  using assms by (cases s; cases s'; simp add: alike_def seg_decrypt_def segment_enc_meta_def)+

lemma alike_refl [simp]: "alike s s"
  by (simp add: alike_def)

lemma alike_count:
  "alike s s' \<Longrightarrow> alike (s\<lparr>seg_ref_count := n, seg_deduplicated := b, seg_access_count := m\<rparr>)
     (s'\<lparr>seg_ref_count := n, seg_deduplicated := b, seg_access_count := m'\<rparr>)"
  "alike s s' \<Longrightarrow> alike (s\<lparr>seg_ref_count := n, seg_deduplicated := b, seg_access_count := m\<rparr>)
     (s'\<lparr>seg_ref_count := n, seg_deduplicated := b\<rparr>)"
  by (cases s; cases s'; simp add: alike_def)+

text \<open>The log with a transaction's pending segments against the log that already holds them.\<close>

definition log_sim :: "pending_segment list \<Rightarrow> nvram_log \<Rightarrow> nvram_log \<Rightarrow> bool" where
  "log_sim ps lg ls \<longleftrightarrow>
     nv_next_offset ls = nv_next_offset lg \<and> nv_file ls = flush ps (nv_file lg) \<and>
     (\<forall>k. rel_option alike (hm_get (nv_segment_map ls) k)
        (pend_view ps (nv_segment_map lg) k)) \<and>
     distinct (pend_ids ps) \<and> (\<forall>k\<in>set (pend_ids ps). hm_get (nv_segment_map lg) k = None) \<and>
     nv_io lg = [] \<and> nv_io ls = []"

text \<open>The registry, with the hashes staged but not registered yet.\<close>

definition reg_sim :: "(content_hash, segment_id) hmap \<Rightarrow> registry \<Rightarrow> registry \<Rightarrow> bool" where
  "reg_sim stg rg rs \<longleftrightarrow>
     reg_next_segment_id rs = reg_next_segment_id rg \<and> reg_capsules rs = reg_capsules rg \<and>
     (\<forall>h. hm_get (reg_content_store rs) h =
        (case hm_get stg h of Some s \<Rightarrow> Some s | None \<Rightarrow> hm_get (reg_content_store rg) h)) \<and>
     hm_ok stg \<and> reg_io rg = [] \<and> reg_io rs = []"

definition staged_rel :: "async_write \<Rightarrow> segment_id list \<Rightarrow> dedup_stats \<Rightarrow> store \<Rightarrow> bool" where
  "staged_rel a ids stats st \<longleftrightarrow>
     \<not> tx_finalized (aw_tx a) \<and> tx_current_offset (aw_tx a) = nv_next_offset (st_nvram (aw_store a)) \<and>
     log_sim (tx_pending (aw_tx a)) (st_nvram (aw_store a)) (st_nvram st) \<and>
     reg_sim (aw_staged a) (st_registry (aw_store a)) (st_registry st) \<and>
     ids_below (reg_next_segment_id (st_registry st)) (st_nvram st) \<and>
     snd ` set (aw_staged a) \<subseteq> set (pend_ids (tx_pending (aw_tx a))) \<and>
     (\<forall>h s. hm_get (reg_content_store (st_registry (aw_store a))) h = Some s \<longrightarrow>
        hm_get (nv_segment_map (st_nvram (aw_store a))) s \<noteq> None) \<and>
     aw_registrations a = aw_staged a \<and> aw_ids a = ids \<and> aw_stats a = stats"

lemma log_simD:
  assumes "log_sim ps lg ls"
  shows "nv_next_offset ls = nv_next_offset lg" "nv_file ls = flush ps (nv_file lg)"
    "rel_option alike (hm_get (nv_segment_map ls) k)
      (pend_view ps (nv_segment_map lg) k)"
    "distinct (pend_ids ps)" "k \<in> set (pend_ids ps) \<Longrightarrow> hm_get (nv_segment_map lg) k = None"
    "nv_io lg = []" "nv_io ls = []"
  using assms by (auto simp: log_sim_def)

text \<open>The three things that happen to the logs.\<close>

lemma log_sim_append:
  assumes sim: "log_sim ps lg ls" and fresh: "hm_get (nv_segment_map ls) sid = None"
    and seg: "seg_id seg = sid" "seg_offset seg = nv_next_offset lg"
    and that: "\<And>k. k \<noteq> sid \<Longrightarrow> hm_get m k = hm_get (nv_segment_map ls) k"
  shows "log_sim (ps @ [\<lparr>pend_segment = seg, pend_data = d\<rparr>]) (lg\<lparr>nv_next_offset := nv_next_offset lg + of_nat (length d)\<rparr>)
    (ls\<lparr>nv_file := write_at (unat (nv_next_offset ls)) d (nv_file ls),
        nv_next_offset := nv_next_offset ls + of_nat (length d),
        nv_segment_map := hm_insert sid seg m, nv_saved := sv\<rparr>)"
proof -
  note D = log_simD [OF sim]
  have none: "pend_get ps sid = None" "hm_get (nv_segment_map lg) sid = None"
    using D(3) [of sid] fresh by (auto simp: pend_view_def split: option.splits)
  have "pend_ids (ps @ [\<lparr>pend_segment = seg, pend_data = d\<rparr>]) = pend_ids ps @ [sid]"
    by (simp add: pend_ids_def seg)
  then show ?thesis
    using D none pend_get_None_iff [of ps sid] that
    by (auto simp: log_sim_def flush_simps seg pend_view_append)
qed

lemma log_sim_pending:
  assumes sim: "log_sim ps lg ls" and p: "pend_get ps sid = Some s" and l: "hm_get (nv_segment_map ls) sid = Some s'"
    and f: "keeps_slot sid f ps" "alike s'' (f s)"
  shows "log_sim (change_pending sid f ps) lg (ls\<lparr>nv_segment_map := hm_insert sid s'' (nv_segment_map ls), nv_saved := sv\<rparr>)"
proof -
  have "pend_view (change_pending sid f ps) m k = (if k = sid then Some (f s) else pend_view ps m k)" for m k
    by (simp add: pend_view_def change_pending_effect [OF f(1)] p)
  then show ?thesis
    using log_simD [OF sim] f(2) by (auto simp: log_sim_def change_pending_effect [OF f(1)])
qed

lemma log_sim_persistent:
  assumes sim: "log_sim ps lg ls" and p: "hm_get (nv_segment_map lg) sid = Some s"
    and f: "alike s'' s'"
  shows "log_sim ps (lg\<lparr>nv_segment_map := hm_insert sid s' (nv_segment_map lg), nv_saved := sv'\<rparr>)
    (ls\<lparr>nv_segment_map := hm_insert sid s'' (nv_segment_map ls), nv_saved := sv\<rparr>)"
proof -
  note D = log_simD [OF sim]
  have n: "pend_get ps sid = None" "sid \<notin> set (pend_ids ps)" using D(5) [of sid] p pend_get_None_iff by fastforce+
  show ?thesis using D n f by (auto simp: log_sim_def pend_view_insert)
qed

section \<open>One segment\<close>

lemma store_updates:
  "st\<lparr>st_nvram := lg\<rparr>\<lparr>st_nvram := lg'\<rparr> = st\<lparr>st_nvram := lg'\<rparr>"
  "st\<lparr>st_registry := rg\<rparr>\<lparr>st_registry := rg'\<rparr> = st\<lparr>st_registry := rg'\<rparr>"
  by simp_all

lemma nv_increment_io:
  assumes "nv_io lg = []" "hm_get (nv_segment_map lg) sid = Some seg"
  defines "seg' \<equiv> seg\<lparr>seg_ref_count := saturating_inc (seg_ref_count seg),
    seg_deduplicated := saturating_inc (seg_ref_count seg) > 1, seg_access_count := saturating_inc (seg_access_count seg)\<rparr>"
  shows "nv_increment_refcount sid lg = (Ok seg',
    lg\<lparr>nv_segment_map := hm_insert sid seg' (nv_segment_map lg), nv_saved := Stored (hm_insert sid seg' (nv_segment_map lg))\<rparr>)"
  using assms by (simp add: nv_increment_refcount_def nv_lookup_def op_simps Let_def nv_put_def io_free_run)

text \<open>A hit on a segment staged by this write.\<close>

lemma step_staged:
  assumes rel: "staged_rel a ids stats st" and hit: "dedupe pol" "hm_get (aw_staged a) (sp_content_hash prep) = Some sid"
  shows "\<exists>a' stats' st'. take_prepared pol prep a = (Ok (), a') \<and>
    store_chunk (dedupe pol) (sp_content_hash prep) fd cr em stats st = (Ok (sid, stats'), st') \<and>
    staged_rel a' (ids @ [sid]) stats' st' \<and>
    reg_next_segment_id (st_registry st') = reg_next_segment_id (st_registry st)"
proof -
  let ?ps = "tx_pending (aw_tx a)"
  have sim: "log_sim ?ps (st_nvram (aw_store a)) (st_nvram st)" and rsim: "reg_sim (aw_staged a) (st_registry (aw_store a)) (st_registry st)"
    and act: "\<not> tx_finalized (aw_tx a)" and sub: "snd ` set (aw_staged a) \<subseteq> set (pend_ids ?ps)"
    using rel by (auto simp: staged_rel_def)
  have "sid \<in> set (pend_ids ?ps)" using sub map_of_SomeD [OF hit(2)] by force
  then obtain seg where seg: "pend_get ?ps sid = Some seg" using pend_get_None_iff [of ?ps sid] by auto
  then obtain segS where segS: "hm_get (nv_segment_map (st_nvram st)) sid = Some segS" "alike segS seg"
    using log_simD(3) [OF sim, of sid] by (auto simp: option_rel_Some2 pend_view_def)
  note inc = nv_increment_io [OF log_simD(7) [OF sim] segS(1)]
  have cont: "reg_lookup_content (sp_content_hash prep) (st_registry st) = Some sid"
    using rsim hit by (simp add: reg_sim_def reg_lookup_content_def)
  have slot: "keeps_slot sid add_reference ?ps" by (simp add: keeps_slot_def add_reference_def Let_def)
  have al: "alike (segS\<lparr>seg_ref_count := saturating_inc (seg_ref_count segS),
      seg_deduplicated := saturating_inc (seg_ref_count segS) > 1, seg_access_count := saturating_inc (seg_access_count segS)\<rparr>)
      (add_reference seg)"
    using alike_count(2) [OF segS(2)] alike_simps(2) [OF segS(2)] by (simp add: add_reference_def Let_def)
  have step: "take_prepared pol prep a = (Ok (), a\<lparr>aw_tx := (aw_tx a)\<lparr>tx_pending := change_pending sid add_reference ?ps\<rparr>,
      aw_stats := add_segment_stats (ucast (seg_len seg)) True (aw_stats a), aw_ids := aw_ids a @ [sid]\<rparr>)"
    using act seg hit
    by (simp add: take_prepared_def commit_segment_def op_simps on_aw_tx_def tx_with_segment_mut_def ensure_active_def
        tx_pending_segment_get change_pending_def Let_def)
  show ?thesis
    unfolding step
    using rel hit(1) cont inc log_sim_pending [OF sim seg segS(1) slot al]
    by (auto simp: store_chunk_def op_simps on_nvram_def staged_rel_def change_pending_effect [OF slot] alike_simps(1) [OF segS(2)]
        ids_below_def segS(1))
qed

text \<open>A hit on a segment that was in the log before.\<close>

lemma step_persistent:
  assumes rel: "staged_rel a ids stats st" and hit: "dedupe pol" "hm_get (aw_staged a) (sp_content_hash prep) = None"
    "hm_get (reg_content_store (st_registry (aw_store a))) (sp_content_hash prep) = Some sid"
  shows "\<exists>a' stats' st'. take_prepared pol prep a = (Ok (), a') \<and>
    store_chunk (dedupe pol) (sp_content_hash prep) fd cr em stats st = (Ok (sid, stats'), st') \<and>
    staged_rel a' (ids @ [sid]) stats' st' \<and>
    reg_next_segment_id (st_registry st') = reg_next_segment_id (st_registry st)"
proof -
  let ?ps = "tx_pending (aw_tx a)" and ?lg = "st_nvram (aw_store a)"
  have sim: "log_sim ?ps ?lg (st_nvram st)" and rsim: "reg_sim (aw_staged a) (st_registry (aw_store a)) (st_registry st)"
    using rel by (auto simp: staged_rel_def)
  obtain seg where seg: "hm_get (nv_segment_map ?lg) sid = Some seg" using rel hit(3) by (fastforce simp: staged_rel_def)
  then have "pend_get ?ps sid = None" using log_simD(5) [OF sim, of sid] pend_get_None_iff by fastforce
  then obtain segS where segS: "hm_get (nv_segment_map (st_nvram st)) sid = Some segS" "alike segS seg"
    using log_simD(3) [OF sim, of sid] seg by (auto simp: option_rel_Some2 pend_view_def)
  note inc = nv_increment_io [OF log_simD(7) [OF sim] segS(1)] nv_increment_io [OF log_simD(6) [OF sim] seg]
  have cont: "reg_lookup_content (sp_content_hash prep) (st_registry st) = Some sid"
    "reg_lookup_content (sp_content_hash prep) (st_registry (aw_store a)) = Some sid"
    using rsim hit by (simp_all add: reg_sim_def reg_lookup_content_def)
  let ?up = "\<lambda>s. s\<lparr>seg_ref_count := saturating_inc (seg_ref_count s),
      seg_deduplicated := saturating_inc (seg_ref_count s) > 1, seg_access_count := saturating_inc (seg_access_count s)\<rparr>"
  have al: "alike (?up segS) (?up seg)"
    using alike_count(1) [OF segS(2)] alike_simps(2) [OF segS(2)] by simp
  have step: "take_prepared pol prep a = (Ok (), a\<lparr>aw_store := (aw_store a)\<lparr>st_nvram :=
        ?lg\<lparr>nv_segment_map := hm_insert sid (?up seg) (nv_segment_map ?lg),
            nv_saved := Stored (hm_insert sid (?up seg) (nv_segment_map ?lg))\<rparr>\<rparr>,
      aw_increments := aw_increments a @ [sid],
      aw_stats := add_segment_stats (ucast (seg_len seg)) True (aw_stats a), aw_ids := aw_ids a @ [sid]\<rparr>)"
    using hit cont inc(2)
    by (simp add: take_prepared_def commit_segment_def op_simps on_aw_store_def on_nvram_def Let_def)
  show ?thesis
    unfolding step
    using rel hit(1) cont inc(1) log_sim_persistent [OF sim seg al]
    by (auto simp: store_chunk_def op_simps on_nvram_def staged_rel_def alike_simps(1) [OF segS(2)] ids_below_def segS(1))
qed

text \<open>A new segment, as both writes store it in the end.\<close>

definition final_segment ::
  "bool \<Rightarrow> segment_prepared \<Rightarrow> segment_id \<Rightarrow> u64 \<Rightarrow> segment" where
  "final_segment dd prep sid off =
     apply_enc_meta (sp_encryption_meta prep) ((fresh_segment sid off (sp_final_data prep))
       \<lparr>seg_compressed := cr_compressed (sp_comp_result prep), seg_compression_algo := cr_algorithm (sp_comp_result prep),
        seg_ref_count := 1, seg_deduplicated := False,
        seg_content_hash := (if dd then Some (sp_content_hash prep) else None)\<rparr>)"

lemma final_segment_slot:
  "seg_id (final_segment dd prep sid off) = sid" "seg_offset (final_segment dd prep sid off) = off"
  by (auto simp: final_segment_def apply_enc_meta_def fresh_segment_def split: option.splits)

lemma store_new_io:
  assumes "io_free st" "dedupe pol \<Longrightarrow> reg_lookup_content (sp_content_hash prep) (st_registry st) = None"
  shows "\<exists>seg0 st'. store_chunk (dedupe pol) (sp_content_hash prep) (sp_final_data prep) (sp_comp_result prep)
      (sp_encryption_meta prep) stats st =
    (Ok (next_sid st, add_segment_stats (of_nat (length (sp_final_data prep))) False stats), st') \<and>
    st_nvram st' = (st_nvram st)\<lparr>nv_file := write_at (unat (nv_next_offset (st_nvram st))) (sp_final_data prep) (nv_file (st_nvram st)),
      nv_next_offset := nv_next_offset (st_nvram st) + of_nat (length (sp_final_data prep)),
      nv_segment_map := hm_insert (next_sid st) (final_segment (dedupe pol) prep (next_sid st) (nv_next_offset (st_nvram st)))
        (hm_insert (next_sid st) seg0 (nv_segment_map (st_nvram st))),
      nv_saved := nv_saved (st_nvram st')\<rparr> \<and>
    reg_capsules (st_registry st') = reg_capsules (st_registry st) \<and>
    reg_next_segment_id (st_registry st') = reg_next_segment_id (st_registry st) + 1 \<and>
    reg_content_store (st_registry st') = (if dedupe pol
      then hm_insert (sp_content_hash prep) (next_sid st) (reg_content_store (st_registry st)) else reg_content_store (st_registry st)) \<and>
    reg_io (st_registry st') = []"
  using assms
  by (cases "dedupe pol"; cases "sp_encryption_meta prep")
    (auto simp: store_chunk_def write_new_dedup_def write_new_plain_def op_simps Let_def on_nvram_def on_registry_def
      alloc_segment_def nv_append_def nv_update_segment_metadata_def nv_put_def io_free_def io_free_run
      reg_register_content_def next_sid_def final_segment_def apply_enc_meta_def fresh_segment_def)

lemma update_first_last:
  "pend_get ps sid = None \<Longrightarrow> seg_id (pend_segment p) = sid \<Longrightarrow>
   update_first (\<lambda>p. seg_id (pend_segment p) = sid) f (ps @ [p]) = ps @ [f p]"
  by (induction ps) (auto simp: pend_get_Cons split: if_splits)

lemma step_new:
  assumes rel: "staged_rel a ids stats st" and room: "ids_room 1 st"
    and miss: "dedupe pol \<Longrightarrow> hm_get (aw_staged a) (sp_content_hash prep) = None \<and>
      hm_get (reg_content_store (st_registry (aw_store a))) (sp_content_hash prep) = None"
  shows "\<exists>a' stats' st'. take_prepared pol prep a = (Ok (), a') \<and>
    store_chunk (dedupe pol) (sp_content_hash prep) (sp_final_data prep) (sp_comp_result prep) (sp_encryption_meta prep) stats st =
      (Ok (next_sid st, stats'), st') \<and>
    staged_rel a' (ids @ [next_sid st]) stats' st' \<and>
    reg_next_segment_id (st_registry st') = reg_next_segment_id (st_registry st) + 1"
proof -
  let ?ps = "tx_pending (aw_tx a)" and ?lg = "st_nvram (aw_store a)" and ?sid = "next_sid st" and ?d = "sp_final_data prep"
  let ?seg = "final_segment (dedupe pol) prep ?sid (nv_next_offset ?lg)"
  have sim: "log_sim ?ps ?lg (st_nvram st)" and rsim: "reg_sim (aw_staged a) (st_registry (aw_store a)) (st_registry st)"
    and act: "\<not> tx_finalized (aw_tx a)" "tx_current_offset (aw_tx a) = nv_next_offset ?lg"
    and below: "ids_below (reg_next_segment_id (st_registry st)) (st_nvram st)"
    using rel by (auto simp: staged_rel_def)
  have io: "io_free st" using sim rsim by (simp add: log_sim_def reg_sim_def io_free_def)
  have fresh: "hm_get (nv_segment_map (st_nvram st)) ?sid = None" 
    using below by (cases "hm_get (nv_segment_map (st_nvram st)) ?sid") (auto simp: ids_below_def next_sid_def)
  have off: "nv_next_offset (st_nvram st) = nv_next_offset ?lg" by (rule log_simD(1) [OF sim])
  have "reg_lookup_content (sp_content_hash prep) (st_registry st) = None" if "dedupe pol"
    using miss [OF that] rsim by (simp add: reg_sim_def reg_lookup_content_def)
  from store_new_io [where stats = stats, OF io this] obtain seg0 st' where S:
    "store_chunk (dedupe pol) (sp_content_hash prep) ?d (sp_comp_result prep) (sp_encryption_meta prep) stats st =
      (Ok (?sid, add_segment_stats (of_nat (length ?d)) False stats), st')"
    "st_nvram st' = (st_nvram st)\<lparr>nv_file := write_at (unat (nv_next_offset (st_nvram st))) ?d (nv_file (st_nvram st)),
      nv_next_offset := nv_next_offset (st_nvram st) + of_nat (length ?d),
      nv_segment_map := hm_insert ?sid ?seg (hm_insert ?sid seg0 (nv_segment_map (st_nvram st))),
      nv_saved := nv_saved (st_nvram st')\<rparr>"
    "reg_capsules (st_registry st') = reg_capsules (st_registry st)"
    "reg_next_segment_id (st_registry st') = reg_next_segment_id (st_registry st) + 1"
    "reg_content_store (st_registry st') = (if dedupe pol
      then hm_insert (sp_content_hash prep) ?sid (reg_content_store (st_registry st)) else reg_content_store (st_registry st))"
    "reg_io (st_registry st') = []"
    unfolding off by blast
  let ?ps' = "?ps @ [\<lparr>pend_segment = ?seg, pend_data = ?d\<rparr>]"
  have sid: "SegmentId (reg_next_segment_id (st_registry (aw_store a))) = ?sid" using rsim by (simp add: reg_sim_def next_sid_def)
  have none: "pend_get ?ps ?sid = None"
    using log_simD(3) [OF sim, of ?sid] fresh by (auto simp: pend_view_def split: option.splits)
  let ?h = "sp_content_hash prep"
  let ?a' = "a\<lparr>aw_staged := (if dedupe pol then hm_insert ?h ?sid (aw_staged a) else aw_staged a),
      aw_store := (aw_store a)\<lparr>st_registry := (st_registry (aw_store a))\<lparr>reg_next_segment_id :=
        reg_next_segment_id (st_registry (aw_store a)) + 1\<rparr>, st_nvram := ?lg\<lparr>nv_next_offset := nv_next_offset ?lg + of_nat (length ?d)\<rparr>\<rparr>,
      aw_tx := (aw_tx a)\<lparr>tx_current_offset := nv_next_offset ?lg + of_nat (length ?d), tx_pending := ?ps'\<rparr>,
      aw_registrations := aw_registrations a @ (if dedupe pol then [(?h, ?sid)] else []),
      aw_stats := add_segment_stats (of_nat (length ?d)) False (aw_stats a), aw_ids := aw_ids a @ [?sid]\<rparr>"
  have c: "commit_segment pol prep a = stage_new pol prep a"
    using miss by (auto simp: commit_segment_def reg_lookup_content_def)
  have f: "seg_id (fresh_segment sid off d) = sid" for sid off d by (simp add: fresh_segment_def)
  have step: "take_prepared pol prep a = (Ok (), ?a')"
    using act
    by (cases "dedupe pol") (simp_all add: take_prepared_def c f stage_new_def op_simps Let_def on_aw_tx_def tx_append_segment_def ensure_active_def
        tx_set_segment_metadata_def tx_with_segment_mut_def alloc_segment_def sid tx_pending_segment_get pend_get_append
        none pend_get_Cons update_first_last final_segment_def)
  have lsim: "log_sim ?ps' (?lg\<lparr>nv_next_offset := nv_next_offset ?lg + of_nat (length ?d)\<rparr>) (st_nvram st')"
    by (subst S(2)) (rule log_sim_append [OF sim fresh]; simp add: final_segment_slot)
  have rs': "reg_sim (aw_staged ?a') (st_registry (aw_store ?a')) (st_registry st')"
    using rsim miss S(3-6) by (auto simp: reg_sim_def split: option.splits)
  have "unat (reg_next_segment_id (st_registry st) + 1) = Suc (unat (reg_next_segment_id (st_registry st)))"
    using room unat_add_of_nat [of "reg_next_segment_id (st_registry st)" 1] by (simp add: ids_room_def)
  then have below': "ids_below (reg_next_segment_id (st_registry st')) (st_nvram st')"
    using below by (subst S(2)) (auto simp: ids_below_def S(4) next_sid_def less_Suc_eq)
  have regs: "aw_registrations ?a' = aw_staged ?a'"
    using rel miss by (auto simp: staged_rel_def insert_absent)
  have ids': "pend_ids ?ps' = pend_ids ?ps @ [?sid]" by (simp add: pend_ids_def final_segment_slot)
  have sub: "snd ` set (aw_staged ?a') \<subseteq> set (pend_ids ?ps')"
    using rel miss unfolding ids' by (auto simp: staged_rel_def insert_absent)
  have "staged_rel ?a' (ids @ [?sid]) (add_segment_stats (of_nat (length ?d)) False stats) st'"
    using rel lsim rs' below' regs sub by (simp add: staged_rel_def)
  with step S(1,4) show ?thesis by blast
qed

section \<open>The loop\<close>

lemma encrypt_chunk_result:
  assumes km: "wp_km_ok E p"
    and run: "encrypt_chunk E (is_enabled (encryption pol) \<and> wp_key_manager p \<noteq> None) d h p = (q, p')"
  shows "cached E p p'" "q = Ok v \<longleftrightarrow> encrypt_result E pol (wp_keys E p) (wp_version p) d h = Ok v"
proof -
  have "cached E p p' \<and> (\<forall>v. q = Ok v \<longleftrightarrow> encrypt_result E pol (wp_keys E p) (wp_version p) d h = Ok v)"
  proof (cases "is_enabled (encryption pol) \<and> wp_key_manager p \<noteq> None")
    case False
    then show ?thesis
      using run cached_refl [OF km]
      by (cases "is_enabled (encryption pol)") (auto simp: encrypt_chunk_def encrypt_result_def wp_version_def)
  next
    case True
    then obtain kmr where k: "wp_key_manager p = Some kmr" by auto
    obtain q1 p1 where g: "wp_get_key E (km_current_version kmr) p = (q1, p1)" by fastforce
    note G = wp_get_key_cached [OF km g]
    have p': "p' = p1" and q: "q = bind_result q1 (\<lambda>kp.
        bind_result (map_result_err EncryptionFailed
          (encrypt_segment E d kp (km_current_version kmr) (derive_tweak_from_hash (as_bytes (as_str h))))) (\<lambda>(ct, em).
            Ok (ct, Some (set_integrity_tag (compute_mac E ct em (key1 kp) (key2 kp)) em))))"
      using run True k g by (auto simp: encrypt_chunk_def op_simps Let_def split: result.splits prod.splits)
    have "encrypt_result E pol (wp_keys E p) (wp_version p) d h =
        bind_result (map_result_err (PipelineRegistry ''get_key'') q1) (\<lambda>kp.
        bind_result (map_result_err EncryptionFailed
          (encrypt_segment E d kp (km_current_version kmr) (derive_tweak_from_hash (as_bytes (as_str h))))) (\<lambda>(ct, em).
            Ok (ct, Some (set_integrity_tag (compute_mac E ct em (key1 kp) (key2 kp)) em))))"
      using True k by (simp add: G(2) encrypt_result_def wp_version_def)
    then show ?thesis using G(1) p' by (cases q1) (simp_all add: q)
  qed
  then show "cached E p p'" "q = Ok v \<longleftrightarrow> encrypt_result E pol (wp_keys E p) (wp_version p) d h = Ok v" by blast+
qed

text \<open>The body of the synchronous loop: prepare as a task would, then store.\<close>

lemma write_chunk_prepared:
  assumes km: "wp_km_ok E p"
    and run: "write_chunk E pol (is_enabled (encryption pol) \<and> wp_key_manager p \<noteq> None) i c stats p = (q, p')"
  shows "\<exists>p1. cached E p p1 \<and>
    (case prepare_result E pol (wp_keys E p) (wp_version p) i c of
       Err _ \<Rightarrow> \<not> is_ok q
     | Ok prep \<Rightarrow> (q, p') = on_store (store_chunk (dedupe pol) (sp_content_hash prep) (sp_final_data prep)
         (sp_comp_result prep) (sp_encryption_meta prep) stats) p1)"
proof (cases "compress_segment E c (compression pol)")
  case (Err e)
  then show ?thesis
    using run cached_refl [OF km] by (intro exI [of _ p]) (auto simp: write_chunk_def op_simps prepare_result_def)
next
  case (Ok v)
  obtain d cr where v: "v = (d, cr)" by fastforce
  obtain q1 p1 where e: "encrypt_chunk E (is_enabled (encryption pol) \<and> wp_key_manager p \<noteq> None) d (hash_content E d) p = (q1, p1)"
    by fastforce
  note R = encrypt_chunk_result [OF km e]
  show ?thesis
  proof (cases "encrypt_result E pol (wp_keys E p) (wp_version p) d (hash_content E d)")
    case (Ok w)
    then have "q1 = Ok w" using R(2) by blast
    then show ?thesis
      using run \<open>compress_segment E c (compression pol) = Ok v\<close> v e R(1) Ok
      by (intro exI [of _ p1]) (cases w, auto simp: write_chunk_def op_simps Let_def prepare_result_def)
  next
    case (Err x)
    then have "\<not> is_ok q1" using R(2) by (cases q1) auto
    then show ?thesis
      using run \<open>compress_segment E c (compression pol) = Ok v\<close> v e R(1) Err
      by (intro exI [of _ p1]) (cases q1, auto simp: write_chunk_def op_simps Let_def prepare_result_def)
  qed
qed

lemma on_store_keys:
  assumes "on_store m p = (r, p')"
  shows "wp_keys E p' = wp_keys E p" "wp_version p' = wp_version p" "wp_km_ok E p' = wp_km_ok E p"
    "wp_key_manager p' = wp_key_manager p"
  using assms by (auto simp: on_store_def zoom_def wp_keys_def wp_version_def wp_km_ok_def split: prod.splits)

lemma cached_manager: "cached E p q \<Longrightarrow> (wp_key_manager q = None) = (wp_key_manager p = None)"
  using cachedD(3) [of E p q] by (auto simp: wp_version_def)

lemma write_chunk_keys:
  assumes "wp_km_ok E p" "write_chunk E pol (is_enabled (encryption pol) \<and> wp_key_manager p \<noteq> None) i c stats p = (Ok y, p')"
  shows "wp_km_ok E p'" "wp_keys E p' = wp_keys E p" "wp_version p' = wp_version p"
    "(wp_key_manager p' = None) = (wp_key_manager p = None)" "is_ok (prepare_result E pol (wp_keys E p) (wp_version p) i c)"
proof -
  obtain p1 where c: "cached E p p1" and r: "case prepare_result E pol (wp_keys E p) (wp_version p) i c of
       Err _ \<Rightarrow> \<not> is_ok (Ok y :: (segment_id \<times> dedup_stats, error) result)
     | Ok prep \<Rightarrow> (Ok y, p') = on_store (store_chunk (dedupe pol) (sp_content_hash prep) (sp_final_data prep)
         (sp_comp_result prep) (sp_encryption_meta prep) stats) p1"
    using write_chunk_prepared [OF assms] by blast
  then obtain prep where p: "prepare_result E pol (wp_keys E p) (wp_version p) i c = Ok prep"
    by (cases "prepare_result E pol (wp_keys E p) (wp_version p) i c") auto
  then have "on_store (store_chunk (dedupe pol) (sp_content_hash prep) (sp_final_data prep)
         (sp_comp_result prep) (sp_encryption_meta prep) stats) p1 = (Ok y, p')" using r by simp
  note K = on_store_keys [OF this]
  show "wp_km_ok E p'" "wp_keys E p' = wp_keys E p" "wp_version p' = wp_version p"
    "(wp_key_manager p' = None) = (wp_key_manager p = None)"
    using K cachedD [OF c] cached_manager [OF c] by auto
  show "is_ok (prepare_result E pol (wp_keys E p) (wp_version p) i c)" using p by simp
qed

text \<open>A synchronous write that gets through its loop has prepared every chunk.\<close>

lemma write_loop_all_prepared:
  assumes "wp_km_ok E p"
    and "write_loop E pol (is_enabled (encryption pol) \<and> wp_key_manager p \<noteq> None) items ids stats p = (Ok y, p')"
  shows "\<forall>(i, c)\<in>set items. is_ok (prepare_result E pol (wp_keys E p) (wp_version p) i c)"
  using assms
proof (induction items arbitrary: ids stats p)
  case (Cons it items)
  obtain i c where it: "it = (i, c)" by fastforce
  obtain sid st1 p1 where w: "write_chunk E pol (is_enabled (encryption pol) \<and> wp_key_manager p \<noteq> None) i c stats p = (Ok (sid, st1), p1)"
    and run: "write_loop E pol (is_enabled (encryption pol) \<and> wp_key_manager p \<noteq> None) items (ids @ [sid]) st1 p1 = (Ok y, p')"
    using Cons.prems(2) by (auto simp: it split: prod.splits result.splits)
  note K = write_chunk_keys [OF Cons.prems(1) w]
  show ?case
    using Cons.IH [OF K(1), of "ids @ [sid]" st1] run K by (auto simp: it)
qed simp

lemma step_sim:
  assumes "staged_rel a ids stats st" "ids_room 1 st"
  shows "\<exists>a' sid stats' st'. take_prepared pol prep a = (Ok (), a') \<and>
    store_chunk (dedupe pol) (sp_content_hash prep) (sp_final_data prep) (sp_comp_result prep) (sp_encryption_meta prep) stats st =
      (Ok (sid, stats'), st') \<and>
    staged_rel a' (ids @ [sid]) stats' st' \<and>
    unat (reg_next_segment_id (st_registry st')) \<le> Suc (unat (reg_next_segment_id (st_registry st)))"
proof -
  have *: "unat (reg_next_segment_id (st_registry st) + 1) = Suc (unat (reg_next_segment_id (st_registry st)))"
    using assms(2) unat_add_of_nat [of "reg_next_segment_id (st_registry st)" 1] by (simp add: ids_room_def)
  consider (staged) sid where "dedupe pol" "hm_get (aw_staged a) (sp_content_hash prep) = Some sid"
    | (persistent) sid where "dedupe pol" "hm_get (aw_staged a) (sp_content_hash prep) = None"
        "hm_get (reg_content_store (st_registry (aw_store a))) (sp_content_hash prep) = Some sid"
    | (new) "dedupe pol \<Longrightarrow> hm_get (aw_staged a) (sp_content_hash prep) = None \<and>
        hm_get (reg_content_store (st_registry (aw_store a))) (sp_content_hash prep) = None"
    by fastforce
  then show ?thesis
  proof cases
    case staged
    from step_staged [OF assms(1) this] show ?thesis by fastforce
  next
    case persistent
    from step_persistent [OF assms(1) this] show ?thesis by fastforce
  next
    case new
    from step_new [OF assms new] * show ?thesis by fastforce
  qed
qed

lemma loop_sim:
  assumes "staged_rel a ids stats (wp_store p)" "wp_km_ok E p" "ids_room (length items) (wp_store p)"
    and "\<forall>(i, c)\<in>set items. is_ok (prepare_result E pol (wp_keys E p) (wp_version p) i c)"
  shows "\<exists>a' ids' stats' p'.
    for_each (take_prepared pol) (map (\<lambda>(i, c). prepared_of (\<lambda>i. prepare_result E pol (wp_keys E p) (wp_version p) i c) i) items) a = (Ok (), a') \<and>
    write_loop E pol (is_enabled (encryption pol) \<and> wp_key_manager p \<noteq> None) items ids stats p = (Ok (ids', stats'), p') \<and>
    staged_rel a' ids' stats' (wp_store p')"
  using assms
proof (induction items arbitrary: a ids stats p)
  case (Cons it items)
  obtain i c where it: "it = (i, c)" by fastforce
  obtain prep where prep: "prepare_result E pol (wp_keys E p) (wp_version p) i c = Ok prep"
    using Cons.prems(4) by (cases "prepare_result E pol (wp_keys E p) (wp_version p) i c") (auto simp: it)
  obtain q p' where w: "write_chunk E pol (is_enabled (encryption pol) \<and> wp_key_manager p \<noteq> None) i c stats p = (q, p')" by fastforce
  obtain p1 where p1: "cached E p p1" "(q, p') = on_store (store_chunk (dedupe pol) (sp_content_hash prep) (sp_final_data prep)
         (sp_comp_result prep) (sp_encryption_meta prep) stats) p1"
    using write_chunk_prepared [OF Cons.prems(2) w] prep by auto
  have st: "wp_store p1 = wp_store p" by (rule cachedD(4) [OF p1(1)])
  have room: "ids_room 1 (wp_store p)" using Cons.prems(3) by (simp add: ids_room_def)
  obtain a1 sid st1 s1 where S: "take_prepared pol prep a = (Ok (), a1)"
    "store_chunk (dedupe pol) (sp_content_hash prep) (sp_final_data prep) (sp_comp_result prep) (sp_encryption_meta prep) stats (wp_store p) =
      (Ok (sid, st1), s1)" "staged_rel a1 (ids @ [sid]) st1 s1"
    "unat (reg_next_segment_id (st_registry s1)) \<le> Suc (unat (reg_next_segment_id (st_registry (wp_store p))))"
    using step_sim [OF Cons.prems(1) room] by blast
  have q: "q = Ok (sid, st1)" "wp_store p' = s1" using p1(2) S(2) st by (auto simp: on_store_def zoom_def)
  note K = write_chunk_keys [OF Cons.prems(2) w [unfolded q]]
  have "ids_room (length items) (wp_store p')" using Cons.prems(3) S(4) q(2) by (simp add: ids_room_def)
  moreover have "\<forall>(i, c)\<in>set items. is_ok (prepare_result E pol (wp_keys E p') (wp_version p') i c)"
    using Cons.prems(4) K(2,3) by simp
  ultimately obtain a' ids' stats' p2 where IH:
    "for_each (take_prepared pol) (map (\<lambda>(i, c). prepared_of (\<lambda>i. prepare_result E pol (wp_keys E p') (wp_version p') i c) i) items) a1 = (Ok (), a')"
    "write_loop E pol (is_enabled (encryption pol) \<and> wp_key_manager p' \<noteq> None) items (ids @ [sid]) st1 p' = (Ok (ids', stats'), p2)"
    "staged_rel a' ids' stats' (wp_store p2)"
    using Cons.IH [of a1 "ids @ [sid]" st1 p'] S(3) K(1) q(2) by auto
  show ?case
    using IH S(1) w q K(2,3,4) by (intro exI [of _ a'] exI [of _ ids'] exI [of _ stats'] exI [of _ p2])
      (simp add: it prepared_of_def prep)
qed simp

section \<open>Committing\<close>

text \<open>Stores that hold the same segments and content entries.\<close>

definition stores_agree :: "store \<Rightarrow> store \<Rightarrow> bool" where
  "stores_agree sa ss \<longleftrightarrow>
     nv_file (st_nvram sa) = nv_file (st_nvram ss) \<and> nv_next_offset (st_nvram sa) = nv_next_offset (st_nvram ss) \<and>
     (\<forall>k. rel_option alike (hm_get (nv_segment_map (st_nvram ss)) k) (hm_get (nv_segment_map (st_nvram sa)) k)) \<and>
     reg_next_segment_id (st_registry sa) = reg_next_segment_id (st_registry ss) \<and>
     (\<forall>h. hm_get (reg_content_store (st_registry sa)) h = hm_get (reg_content_store (st_registry ss)) h)"

lemma staged_rel_begin:
  assumes inv: "store_inv E kf [] st" and io: "io_free st"
  shows "staged_rel (new_async st) [] new_stats st"
proof -
  note I = store_invD [OF inv]
  have "hm_get (nv_segment_map (st_nvram st)) s \<noteq> None" if "hm_get (reg_content_store (st_registry st)) h = Some s" for h s
    using content_okD [OF I(4) that] by (metis option.distinct(1))
  moreover have "rel_option alike x x" for x by (cases x) simp_all
  ultimately show ?thesis
    using I(3) io by (auto simp: staged_rel_def new_async_def nv_begin_transaction_def log_sim_def reg_sim_def
        io_free_def pend_ids_def pend_view_def flush_simps)
qed

lemma register_loop_io:
  assumes "reg_io (st_registry st) = []"
  shows "\<exists>st'. register_loop regs incs rest dn st = (Ok (), st') \<and> st_nvram st' = st_nvram st \<and>
    reg_capsules (st_registry st') = reg_capsules (st_registry st) \<and>
    reg_next_segment_id (st_registry st') = reg_next_segment_id (st_registry st) \<and> reg_io (st_registry st') = [] \<and>
    (hm_ok rest \<longrightarrow> (\<forall>h. hm_get (reg_content_store (st_registry st')) h =
       (case hm_get rest h of Some s \<Rightarrow> Some s | None \<Rightarrow> hm_get (reg_content_store (st_registry st)) h)))"
  using assms
proof (induction rest arbitrary: st dn)
  case (Cons e rest)
  obtain h sid where e: "e = (h, sid)" by fastforce
  let ?s1 = "st\<lparr>st_registry := (st_registry st)\<lparr>reg_content_store := hm_insert h sid (reg_content_store (st_registry st)),
    reg_saved := Stored (reg_snapshot ((st_registry st)\<lparr>reg_content_store := hm_insert h sid (reg_content_store (st_registry st))\<rparr>))\<rparr>\<rparr>"
  have r: "on_registry (reg_register_content h sid) st = (Ok (), ?s1)"
    using Cons.prems by (simp add: on_registry_def zoom_def reg_register_content_def io_free_run)
  obtain st' where st': "register_loop regs incs rest (dn @ [(h, sid)]) ?s1 = (Ok (), st')" "st_nvram st' = st_nvram ?s1"
    "reg_capsules (st_registry st') = reg_capsules (st_registry ?s1)"
    "reg_next_segment_id (st_registry st') = reg_next_segment_id (st_registry ?s1)" "reg_io (st_registry st') = []"
    "hm_ok rest \<longrightarrow> (\<forall>h. hm_get (reg_content_store (st_registry st')) h =
       (case hm_get rest h of Some s \<Rightarrow> Some s | None \<Rightarrow> hm_get (reg_content_store (st_registry ?s1)) h))"
    using Cons.IH [of ?s1 "dn @ [(h, sid)]"] Cons.prems by auto
  have "hm_get rest h = None" if "hm_ok (e # rest)" using that by (simp add: e hm_ok_def map_of_eq_None_iff)
  then have "hm_ok (e # rest) \<longrightarrow> (\<forall>h'. hm_get (reg_content_store (st_registry st')) h' =
       (case hm_get (e # rest) h' of Some s \<Rightarrow> Some s | None \<Rightarrow> hm_get (reg_content_store (st_registry st)) h'))"
    using st'(6) by (auto simp: e hm_ok_def split: option.splits)
  then show ?case using r st'(1-5) by (intro exI [of _ st']) (simp add: e)
qed simp

lemma tx_commit_io:
  assumes rel: "staged_rel a ids stats st"
  obtains a' where "on_aw_tx tx_commit a = (Ok (), a')" "aw_registrations a' = aw_staged a" "aw_ids a' = ids" "aw_stats a' = stats"
    "st_registry (aw_store a') = st_registry (aw_store a)" "nv_io (st_nvram (aw_store a')) = []"
    "nv_file (st_nvram (aw_store a')) = nv_file (st_nvram st)" "nv_next_offset (st_nvram (aw_store a')) = nv_next_offset (st_nvram st)"
    "\<forall>k. rel_option alike (hm_get (nv_segment_map (st_nvram st)) k) (hm_get (nv_segment_map (st_nvram (aw_store a'))) k)"
proof -
  let ?ps = "tx_pending (aw_tx a)" and ?lg = "st_nvram (aw_store a)"
  have sim: "log_sim ?ps ?lg (st_nvram st)" using rel by (simp add: staged_rel_def)
  note D = log_simD [OF sim]
  have view: "pend_view ?ps m k = hm_get (insert_pending ?ps m) k" for m k
    by (simp add: get_insert_pending_find [OF D(4)] pend_view_def)
  show thesis
  proof (cases "?ps = []")
    case True
    show thesis
      by (rule that [of "a\<lparr>aw_tx := (aw_tx a)\<lparr>tx_finalized := True\<rparr>\<rparr>"])
        (use rel D True D(3) [unfolded view] in \<open>auto simp: on_aw_tx_def zoom_def tx_commit_def staged_rel_def flush_simps\<close>)
  next
    case False
    let ?l1 = "?lg\<lparr>nv_file := flush ?ps (nv_file ?lg), nv_next_offset := tx_current_offset (aw_tx a),
        nv_segment_map := insert_pending ?ps (nv_segment_map ?lg), nv_saved := Stored (insert_pending ?ps (nv_segment_map ?lg))\<rparr>"
    let ?a = "a\<lparr>aw_store := (aw_store a)\<lparr>st_nvram := ?l1\<rparr>, aw_tx := (aw_tx a)\<lparr>tx_pending := [], tx_finalized := True\<rparr>\<rparr>"
    have run: "on_aw_tx tx_commit a = (Ok (), ?a)"
      using rel False write_pending_io [OF D(6)] D(6)
      by (auto simp: on_aw_tx_def zoom_def tx_commit_def staged_rel_def io_free_run)
    show thesis
      by (rule that [of ?a]) (use rel D run D(3) [unfolded view] in \<open>auto simp: staged_rel_def\<close>)
  qed
qed

text \<open>Creating the capsule depends on the capsules and the clock alone.\<close>

lemma create_io:
  assumes "reg_io (st_registry st) = []"
  shows "\<exists>q st'. on_registry (create_capsule_with_segments now cid sz segs pol) st = (q, st') \<and> st_nvram st' = st_nvram st \<and>
    reg_content_store (st_registry st') = reg_content_store (st_registry st) \<and>
    reg_next_segment_id (st_registry st') = reg_next_segment_id (st_registry st) \<and>
    q = (if hm_get (reg_capsules (st_registry st)) cid \<noteq> None then Err CapsuleCollision
         else case now of None \<Rightarrow> Err ClockError | Some _ \<Rightarrow> Ok ()) \<and>
    (is_ok q \<longrightarrow> reg_capsules (st_registry st') = hm_insert cid \<lparr>cap_id = cid, cap_size = sz, cap_segments = segs,
       cap_created_at = the now, cap_policy = pol, cap_deduped_bytes = 0\<rparr> (reg_capsules (st_registry st)))"
  using assms
  by (auto simp: create_capsule_with_segments_def on_registry_def zoom_def io_free_run split: option.splits)

text \<open>The same capsules but for the bytes counted as deduplicated.\<close>

definition capsules_agree :: "store \<Rightarrow> store \<Rightarrow> bool" where
  "capsules_agree sa ss \<longleftrightarrow>
     (\<forall>k. map_option (\<lambda>c. c\<lparr>cap_deduped_bytes := 0\<rparr>) (hm_get (reg_capsules (st_registry sa)) k) =
          map_option (\<lambda>c. c\<lparr>cap_deduped_bytes := 0\<rparr>) (hm_get (reg_capsules (st_registry ss)) k))"

lemma undo_with_err: "\<not> is_ok (fst (undo_with e m st))"
  by (auto simp: undo_with_def split: prod.splits result.splits)

lemma add_deduped_agree:
  "st_nvram (st\<lparr>st_registry := add_deduped_bytes cid n (st_registry st)\<rparr>) = st_nvram st"
  "reg_content_store (add_deduped_bytes cid n rg) = reg_content_store rg"
  "reg_next_segment_id (add_deduped_bytes cid n rg) = reg_next_segment_id rg"
  "map_option (\<lambda>c. c\<lparr>cap_deduped_bytes := 0\<rparr>) (hm_get (reg_capsules (add_deduped_bytes cid n rg)) k) =
   map_option (\<lambda>c. c\<lparr>cap_deduped_bytes := 0\<rparr>) (hm_get (reg_capsules rg) k)"
  by (auto simp: add_deduped_bytes_def split: option.splits)

lemma finish_sim:
  assumes rel: "staged_rel a ids stats st" and fin: "commit_async now cid data pol a = (r, sa)"
    and sync: "on_registry (create_capsule_with_segments now cid (of_nat (length data)) ids pol) st = (q, ss)"
  shows "is_ok r \<longleftrightarrow> is_ok q" "is_ok r \<Longrightarrow> r = Ok cid \<and> stores_agree sa ss \<and> capsules_agree sa ss"
proof -
  obtain a' where A: "on_aw_tx tx_commit a = (Ok (), a')" "aw_registrations a' = aw_staged a" "aw_ids a' = ids" "aw_stats a' = stats"
    "st_registry (aw_store a') = st_registry (aw_store a)" "nv_io (st_nvram (aw_store a')) = []"
    "nv_file (st_nvram (aw_store a')) = nv_file (st_nvram st)" "nv_next_offset (st_nvram (aw_store a')) = nv_next_offset (st_nvram st)"
    "\<forall>k. rel_option alike (hm_get (nv_segment_map (st_nvram st)) k) (hm_get (nv_segment_map (st_nvram (aw_store a'))) k)"
    by (rule tx_commit_io [OF rel])
  have rsim: "reg_sim (aw_staged a) (st_registry (aw_store a)) (st_registry st)" using rel by (simp add: staged_rel_def)
  have io: "reg_io (st_registry (aw_store a')) = []" "reg_io (st_registry st) = []" using rsim A(5) by (simp_all add: reg_sim_def)
  obtain s1 where R: "register_loop (aw_registrations a') (aw_increments a') (aw_registrations a') [] (aw_store a') = (Ok (), s1)"
    "st_nvram s1 = st_nvram (aw_store a')" "reg_capsules (st_registry s1) = reg_capsules (st_registry (aw_store a'))"
    "reg_next_segment_id (st_registry s1) = reg_next_segment_id (st_registry (aw_store a'))" "reg_io (st_registry s1) = []"
    "hm_ok (aw_registrations a') \<longrightarrow> (\<forall>h. hm_get (reg_content_store (st_registry s1)) h =
       (case hm_get (aw_registrations a') h of Some s \<Rightarrow> Some s | None \<Rightarrow> hm_get (reg_content_store (st_registry (aw_store a'))) h))"
    using register_loop_io [OF io(1)] by blast
  have caps: "reg_capsules (st_registry s1) = reg_capsules (st_registry st)" using R(3) A(5) rsim by (simp add: reg_sim_def)
  have agree: "stores_agree s1 st"
    using R(2,4,6) A rsim by (auto simp: stores_agree_def reg_sim_def split: option.splits)
  obtain q1 s2 where C: "on_registry (create_capsule_with_segments now cid (of_nat (length data)) ids pol) s1 = (q1, s2)"
    "st_nvram s2 = st_nvram s1" "reg_content_store (st_registry s2) = reg_content_store (st_registry s1)"
    "reg_next_segment_id (st_registry s2) = reg_next_segment_id (st_registry s1)"
    "q1 = (if hm_get (reg_capsules (st_registry s1)) cid \<noteq> None then Err CapsuleCollision
         else case now of None \<Rightarrow> Err ClockError | Some _ \<Rightarrow> Ok ())"
    "is_ok q1 \<longrightarrow> reg_capsules (st_registry s2) = hm_insert cid \<lparr>cap_id = cid, cap_size = of_nat (length data), cap_segments = ids,
       cap_created_at = the now, cap_policy = pol, cap_deduped_bytes = 0\<rparr> (reg_capsules (st_registry s1))"
    using create_io [OF R(5)] by blast
  obtain q2 s3 where S: "on_registry (create_capsule_with_segments now cid (of_nat (length data)) ids pol) st = (q2, s3)"
    "st_nvram s3 = st_nvram st" "reg_content_store (st_registry s3) = reg_content_store (st_registry st)"
    "reg_next_segment_id (st_registry s3) = reg_next_segment_id (st_registry st)"
    "q2 = (if hm_get (reg_capsules (st_registry st)) cid \<noteq> None then Err CapsuleCollision
         else case now of None \<Rightarrow> Err ClockError | Some _ \<Rightarrow> Ok ())"
    "is_ok q2 \<longrightarrow> reg_capsules (st_registry s3) = hm_insert cid \<lparr>cap_id = cid, cap_size = of_nat (length data), cap_segments = ids,
       cap_created_at = the now, cap_policy = pol, cap_deduped_bytes = 0\<rparr> (reg_capsules (st_registry st))"
    using create_io [OF io(2)] by blast
  have qq: "q2 = q" "s3 = ss" "q1 = q" using S(1) sync C(5) S(5) caps by simp_all
  have fin': "finish_async now cid data pol a' (aw_store a') = (r, sa)" using fin A(1) by (simp add: commit_async_def)
  show ok: "is_ok r \<longleftrightarrow> is_ok q"
  proof (cases q)
    case (Err e)
    then have run: "finish_async now cid data pol a' (aw_store a') =
      undo_with (map_registry_error ''create_capsule_with_segments'' e)
        (bind_op (for_each (\<lambda>e. bind_op (deregister_entry e) (\<lambda>_. remove_pending (snd e)))
           (aw_registrations a')) (\<lambda>_. decrement_all (aw_increments a'))) s2"
      using R(1) C(1) A(3) qq by (simp add: finish_async_def op_simps)
    have "\<not> is_ok (fst (finish_async now cid data pol a' (aw_store a')))" unfolding run by (rule undo_with_err)
    then show ?thesis using fin' Err by simp
  next
    case (Ok u)
    then show ?thesis using fin' R(1) C(1) A(3) qq by (auto simp: finish_async_def op_simps)
  qed
  show "r = Ok cid \<and> stores_agree sa ss \<and> capsules_agree sa ss" if good: "is_ok r"
  proof -
    obtain u where "q = Ok u" using ok good by (cases q) auto
    then have r: "r = Ok cid" and sa: "sa = (if bytes_saved stats > 0
             then s2\<lparr>st_registry := add_deduped_bytes cid (bytes_saved stats) (st_registry s2)\<rparr> else s2)"
      using fin' R(1) C(1) A(3) qq unfolding A(4) [symmetric] by (auto simp: finish_async_def op_simps)
    have "stores_agree s2 s3"
      unfolding stores_agree_def C(2-4) S(2-4) by (rule agree [unfolded stores_agree_def])
    then have "stores_agree sa ss" unfolding sa qq(2) [symmetric] by (simp add: stores_agree_def add_deduped_agree)
    moreover have "reg_capsules (st_registry s2) = reg_capsules (st_registry s3)"
      using C(6) S(6) caps qq \<open>q = Ok u\<close> by simp
    then have "capsules_agree sa ss" unfolding sa qq(2) [symmetric] by (simp add: capsules_agree_def add_deduped_agree)
    ultimately show ?thesis using r by simp
  qed
qed

section \<open>The whole write\<close>

lemma seg_plain_agree:
  assumes "stores_agree sa ss"
  shows "seg_plain E kf (st_nvram sa) k = seg_plain E kf (st_nvram ss) k"
proof -
  have "rel_option alike (hm_get (nv_segment_map (st_nvram ss)) k) (hm_get (nv_segment_map (st_nvram sa)) k)"
    and f: "nv_file (st_nvram sa) = nv_file (st_nvram ss)" using assms by (simp_all add: stores_agree_def)
  then show ?thesis
    by (cases "hm_get (nv_segment_map (st_nvram sa)) k"; cases "hm_get (nv_segment_map (st_nvram ss)) k")
      (auto simp: seg_plain_def nv_read_def nv_get_segment_metadata_def alike_simps)
qed

lemma contents_agree:
  assumes "stores_agree sa ss" "capsules_agree sa ss"
  shows "contents E kf sa k = contents E kf ss k"
proof -
  have c: "map_option (\<lambda>c. c\<lparr>cap_deduped_bytes := 0\<rparr>) (hm_get (reg_capsules (st_registry sa)) k) =
      map_option (\<lambda>c. c\<lparr>cap_deduped_bytes := 0\<rparr>) (hm_get (reg_capsules (st_registry ss)) k)"
    using assms(2) by (simp add: capsules_agree_def)
  have same: "cap_segments c = cap_segments c'" "cap_policy c = cap_policy c'"
    if "c\<lparr>cap_deduped_bytes := 0\<rparr> = c'\<lparr>cap_deduped_bytes := 0\<rparr>" for c c' :: capsule
    using that by (cases c; cases c'; simp)+
  have rp: "read_pure E kf (st_nvram sa) p s = read_pure E kf (st_nvram ss) p s" for p s
    by (rule read_pure_cong) (rule seg_plain_agree [OF assms(1)])
  show ?thesis
  proof (cases "hm_get (reg_capsules (st_registry sa)) k")
    case None
    then show ?thesis using c by (simp add: contents_def reg_lookup_def)
  next
    case (Some ca)
    then obtain cs where cs: "hm_get (reg_capsules (st_registry ss)) k = Some cs"
      "ca\<lparr>cap_deduped_bytes := 0\<rparr> = cs\<lparr>cap_deduped_bytes := 0\<rparr>"
      using c by (cases "hm_get (reg_capsules (st_registry ss)) k") auto
    then show ?thesis using Some same [OF cs(2)] by (simp add: contents_def reg_lookup_def rp)
  qed
qed

lemma map_enumerate: "map (\<lambda>(i, c). g i c) (enumerate 0 cs) = map (\<lambda>i. g i (cs ! i)) [0..<length cs]"
  by (rule nth_equalityI) (simp_all add: nth_enumerate_eq)

lemma commit_error_errors: "errs \<noteq> [] \<Longrightarrow> commit_error q errs n \<noteq> None"
  by (cases errs; cases q) (simp_all add: commit_error_def)

lemma abort_is_error: "\<not> is_ok (fst (abort_async e a))"
  using undo_with_err by (auto simp: abort_async_def split: prod.splits result.splits)

lemma ordered_errors_nonempty: "i < n \<Longrightarrow> \<not> is_ok (R i) \<Longrightarrow> ordered_errors R n \<noteq> []"
  by (cases "R i") (auto simp: ordered_errors_def intro!: bexI [of _ i])

lemma ordered_errors_empty: "(\<And>i. i < n \<Longrightarrow> is_ok (R i)) \<Longrightarrow> ordered_errors R n = []"
proof -
  assume ok: "\<And>i. i < n \<Longrightarrow> is_ok (R i)"
  have "(case R i of Err e \<Rightarrow> [e] | Ok _ \<Rightarrow> []) = []" if "i \<in> set [0..<n]" for i
    using ok [of i] that by (cases "R i") auto
  then show ?thesis by (simp add: ordered_errors_def)
qed

lemma ordered_write_sim:
  assumes inv: "wp_inv E p" and io: "io_free (wp_store p)" and fit: "fits data p"
    and async: "ordered_write now cid data pol (\<lambda>i. prepare_result E pol (wp_keys E p) (wp_version p) i (chunks SEGMENT_SIZE data ! i))
       (length (chunks SEGMENT_SIZE data)) (wp_store p) = (r, sa)"
    and sync: "write_capsule_with_policy E now cid data pol p = (r', ps)"
  shows "(is_ok r \<longleftrightarrow> is_ok r') \<and> (is_ok r \<longrightarrow> r = Ok cid \<and> r' = Ok cid \<and>
    stores_agree sa (wp_store ps) \<and> capsules_agree sa (wp_store ps))"
proof -
  let ?cs = "chunks SEGMENT_SIZE data" and ?n = "length (chunks SEGMENT_SIZE data)"
  let ?R = "\<lambda>i. prepare_result E pol (wp_keys E p) (wp_version p) i (?cs ! i)"
  let ?enc = "is_enabled (encryption pol) \<and> wp_key_manager p \<noteq> None"
  have km: "wp_km_ok E p" and si: "store_inv E (wp_keys E p) [] (wp_store p)" using inv by (auto simp: wp_inv_def)
  show ?thesis
  proof (cases "\<forall>i<?n. is_ok (?R i)")
    case False
    then obtain i where i: "i < ?n" "\<not> is_ok (?R i)" by blast
    obtain q a where oc: "ordered_commit pol ?R ?n (new_async (wp_store p)) = (q, a)" by fastforce
    obtain e where "commit_error q (ordered_errors ?R ?n) ?n = Some e"
      using commit_error_errors [OF ordered_errors_nonempty [of i ?n ?R]] i by blast
    then have "\<not> is_ok r"
      using async oc abort_is_error [of e a] by (simp add: ordered_write_def end_async_def)
    moreover have "\<not> is_ok r'"
    proof
      assume ok: "is_ok r'"
      obtain x where "r' = Ok x" using ok by (cases r') auto
      then obtain ids stats p1 where "write_loop E pol ?enc (enumerate 0 ?cs) [] new_stats p = (Ok (ids, stats), p1)"
        by (cases rule: write_capsule_cases [OF sync]) auto
      from write_loop_all_prepared [OF km this] have "is_ok (prepare_result E pol (wp_keys E p) (wp_version p) i (?cs ! i))"
        using i(1) by (auto simp: in_set_enumerate_eq)
      then show False using i(2) by simp
    qed
    ultimately show ?thesis by simp
  next
    case True
    have mex: "mex {i. i < ?n \<and> is_ok (?R i)} ?n = ?n" by (rule mex_unique) (use True in auto)
    have room: "ids_room (length (enumerate 0 ?cs)) (wp_store p)" using fit by (simp add: fits_def capacity_def)
    have ok: "\<forall>(i, c)\<in>set (enumerate 0 ?cs). is_ok (prepare_result E pol (wp_keys E p) (wp_version p) i c)"
      using True by (auto simp: in_set_enumerate_eq)
    have tasks: "map (\<lambda>(i, c). prepared_of (\<lambda>i. prepare_result E pol (wp_keys E p) (wp_version p) i c) i) (enumerate 0 ?cs) =
      map (prepared_of ?R) [0..<?n]"
      by (simp add: map_enumerate prepared_of_def)
    obtain a ids stats p1 where L:
      "for_each (take_prepared pol) (map (prepared_of ?R) [0..<?n]) (new_async (wp_store p)) = (Ok (), a)"
      "write_loop E pol ?enc (enumerate 0 ?cs) [] new_stats p = (Ok (ids, stats), p1)"
      "staged_rel a ids stats (wp_store p1)"
      using loop_sim [OF staged_rel_begin [OF si io] km room ok] unfolding tasks by blast
    have "ordered_commit pol ?R ?n (new_async (wp_store p)) = (Ok ?n, a)"
      by (simp add: ordered_commit_def mex L(1))
    then have fin: "commit_async now cid data pol a = (r, sa)"
      using async ordered_errors_empty [of ?n ?R] True by (simp add: ordered_write_def end_async_def commit_error_def)
    obtain q st2 ss where S: "st2 = wp_store p1 \<or> st2 = (wp_store p1)\<lparr>st_registry :=
          add_deduped_bytes cid (bytes_saved stats) (st_registry (wp_store p1))\<rparr>"
      "on_registry (create_capsule_with_segments now cid (of_nat (length data)) ids pol) st2 = (q, ss)"
      "wp_store ps = ss" "r' = (case q of Ok _ \<Rightarrow> Ok cid | Err e \<Rightarrow> Err (map_registry_error ''create_capsule_with_segments'' e))"
      by (cases rule: write_capsule_cases [OF sync]) (use L(2) in auto)
    obtain q0 ss0 where S0: "on_registry (create_capsule_with_segments now cid (of_nat (length data)) ids pol) (wp_store p1) = (q0, ss0)"
      by fastforce
    have q: "is_ok q = is_ok q0 \<and> (is_ok q \<longrightarrow> ss = ss0)"
    proof (cases "hm_get (reg_capsules (st_registry (wp_store p1))) cid")
      case None
      then have "st2 = wp_store p1" using S(1) by (auto simp: add_deduped_bytes_def)
      then show ?thesis using S(2) S0 by simp
    next
      case (Some c)
      then have "hm_get (reg_capsules (st_registry st2)) cid \<noteq> None" using S(1) by (auto simp: add_deduped_bytes_def)
      then have "q = Err CapsuleCollision" "q0 = Err CapsuleCollision"
        using S(2) S0 Some by (auto simp: on_registry_eq create_capsule_with_segments_def)
      then show ?thesis by simp
    qed
    have "is_ok r' = is_ok q" "is_ok q \<Longrightarrow> r' = Ok cid" using S(4) by (cases q; simp)+
    then show ?thesis using finish_sim [OF L(3) fin S0] q S(3) by auto
  qed
qed

end
