(* ===== verification/Async_Properties.thy ===== *)
theory Async_Properties
  imports Async_Refinement Pipeline_Properties
begin

text \<open>
  The properties of the asynchronous write: it does not depend on its schedule, it implements the
  sequential write, and what it leaves behind when the last save fails.
\<close>

section \<open>Independence of the schedule\<close>

text \<open>The asynchronous write does not depend on its schedule: whatever the order in which the tasks run
  and in which their results arrive, the result and the final registry and log are the same.\<close>

theorem async_schedule_independent:
  assumes "wp_km_ok E p" "\<forall>c\<in>set (chunks SEGMENT_SIZE data). length c \<le> memory_limit"
    and "order_of (length (chunks SEGMENT_SIZE data)) sched" "order_of (length (chunks SEGMENT_SIZE data)) arrivals"
    and "order_of (length (chunks SEGMENT_SIZE data)) sched'" "order_of (length (chunks SEGMENT_SIZE data)) arrivals'"
    and "write_capsule_async E now cid data pol memory_limit sched arrivals p = (r, q)"
    and "write_capsule_async E now cid data pol memory_limit sched' arrivals' p = (r', q')"
  shows "r = r' \<and> wp_store q = wp_store q' \<and> wp_keys E q = wp_keys E q'"
proof (cases "data = []")
  case True
  then show ?thesis using assms(7,8) by (simp add: write_capsule_async_def)
next
  case False
  have keys: "wp_keys E (x\<lparr>wp_store := st\<rparr>) = wp_keys E x" for x st by (simp add: wp_keys_def)
  obtain p1 where p1: "cached E p p1" "write_capsule_async E now cid data pol memory_limit sched arrivals p =
      (case ordered_write now cid data pol (\<lambda>i. prepare_result E pol (wp_keys E p) (wp_version p) i (chunks SEGMENT_SIZE data ! i))
        (length (chunks SEGMENT_SIZE data)) (wp_store p) of (r, st) \<Rightarrow> (r, p1\<lparr>wp_store := st\<rparr>))"
    using write_capsule_async_ordered [OF assms(1) False assms(2,3,4)] by blast
  obtain p2 where p2: "cached E p p2" "write_capsule_async E now cid data pol memory_limit sched' arrivals' p =
      (case ordered_write now cid data pol (\<lambda>i. prepare_result E pol (wp_keys E p) (wp_version p) i (chunks SEGMENT_SIZE data ! i))
        (length (chunks SEGMENT_SIZE data)) (wp_store p) of (r, st) \<Rightarrow> (r, p2\<lparr>wp_store := st\<rparr>))"
    using write_capsule_async_ordered [OF assms(1) False assms(2,5,6)] by blast
  show ?thesis
    using assms(7,8) p1(2) p2(2) cachedD(2) [OF p1(1)] cachedD(2) [OF p2(1)]
    by (auto simp: keys split: prod.splits)
qed

text \<open>Two chunks, prepared and delivered in order and in reverse.\<close>

lemma two_chunks: "length (chunks SEGMENT_SIZE (replicate (2 * SEGMENT_SIZE) (0::8 word))) = 2"
  by (simp add: length_chunks SEGMENT_SIZE_def)

lemma small_chunks:
  assumes "SEGMENT_SIZE \<le> limit" shows "\<forall>c\<in>set (chunks SEGMENT_SIZE data). length c \<le> limit"
  using chunks_bounds [of _ SEGMENT_SIZE data] assms by (meson order_trans)

theorem async_schedule_independent_witness:
  "fst (write_capsule_async sample_ext (Some 0) (CapsuleId [1]) (replicate (2 * SEGMENT_SIZE) 0) metro_sync SEGMENT_SIZE
      [0, 1] [0, 1] (sample_pipeline sample_keys)) =
   fst (write_capsule_async sample_ext (Some 0) (CapsuleId [1]) (replicate (2 * SEGMENT_SIZE) 0) metro_sync SEGMENT_SIZE
      [1, 0] [1, 0] (sample_pipeline sample_keys))"
proof -
  let ?d = "replicate (2 * SEGMENT_SIZE) (0 :: 8 word)"
  have o: "order_of (length (chunks SEGMENT_SIZE ?d)) [0, 1]" "order_of (length (chunks SEGMENT_SIZE ?d)) [1, 0]"
    unfolding two_chunks by (auto simp: order_of_def lessThan_def numeral_2_eq_2 less_Suc_eq)
  show ?thesis
    using async_schedule_independent [OF wp_inv_km [OF sample_inv(2)] small_chunks [OF order_refl] o(1,1,2,2)
        prod.collapse [symmetric] prod.collapse [symmetric]] by blast
qed

section \<open>Refinement of the sequential write\<close>

lemma empty_write_same:
  "write_capsule_async E now cid [] pol limit sched arrivals p = write_capsule_with_policy E now cid [] pol p"
  by (simp add: write_capsule_async_def write_capsule_with_policy_def op_simps new_stats_def)

lemma stores_agree_refl: "stores_agree st st"
proof -
  have "rel_option alike x x" for x by (cases x) simp_all
  then show ?thesis by (simp add: stores_agree_def)
qed

lemma async_refines_sequential:
  assumes "wp_inv E p" "xts_laws E" "io_free (wp_store p)" "fits data p" "SEGMENT_SIZE \<le> limit"
    and "order_of (length (chunks SEGMENT_SIZE data)) sched" "order_of (length (chunks SEGMENT_SIZE data)) arrivals"
    and "write_capsule_async E now cid data pol limit sched arrivals p = (r, pa)"
    and "write_capsule_with_policy E now cid data pol p = (r', ps)"
  shows "(is_ok r \<longleftrightarrow> is_ok r') \<and>
    (is_ok r \<longrightarrow> r = r' \<and> stores_agree (wp_store pa) (wp_store ps) \<and> capsules_agree (wp_store pa) (wp_store ps) \<and>
       (\<forall>k. fst (read_capsule E k pa) = fst (read_capsule E k ps)))"
proof (cases "data = []")
  case True
  then show ?thesis
    using assms(8,9) by (auto simp: empty_write_same stores_agree_refl capsules_agree_def)
next
  case False
  note km = wp_inv_km [OF assms(1)]
  let ?W = "ordered_write now cid data pol
        (\<lambda>i. prepare_result E pol (wp_keys E p) (wp_version p) i (chunks SEGMENT_SIZE data ! i))
        (length (chunks SEGMENT_SIZE data)) (wp_store p)"
  obtain r0 sa where w: "?W = (r0, sa)" by fastforce
  obtain p1 where p1: "cached E p p1" "write_capsule_async E now cid data pol limit sched arrivals p =
      (case ?W of (r, st) \<Rightarrow> (r, p1\<lparr>wp_store := st\<rparr>))"
    using write_capsule_async_ordered [OF km False small_chunks [OF assms(5)] assms(6,7), of now cid pol] by (elim exE conjE) rule
  then have a: "cached E p p1" "?W = (r0, sa)" "r = r0" "pa = p1\<lparr>wp_store := sa\<rparr>"
    using w assms(8) by simp_all
  note S = ordered_write_sim [OF assms(1,3,4) a(2) assms(9)]
  have "write_outcome E now cid pol data p r' ps" by (rule write_capsule_effect [OF assms(1,2,4,9)])
  then have sync: "wp_km_ok E ps" "wp_keys E ps = wp_keys E p" by (simp_all add: write_outcome_def wp_inv_def)
  have async: "wp_km_ok E pa" "wp_keys E pa = wp_keys E p"
    using cachedD [OF a(1)] by (simp_all add: a(4) wp_km_ok_def wp_keys_def)
  show ?thesis
  proof (cases "is_ok r")
    case True
    then have agree: "stores_agree (wp_store pa) (wp_store ps)" "capsules_agree (wp_store pa) (wp_store ps)"
      using S a(3,4) by simp_all
    have "fst (read_capsule E k pa) = fst (read_capsule E k ps)" for k
      using fst_read [OF async(1)] fst_read [OF sync(1)] contents_agree [OF agree] async(2) sync(2) by simp
    then show ?thesis using S a(3) True agree by auto
  qed (use S a(3) in simp)
qed

text \<open>C11: The asynchronous write implements the sequential one. With no I/O failure, for any order in which the
  tasks run and any order in which their messages arrive, the write with one task per chunk succeeds
  exactly when the sequential write does, and then the store has the same log, the same content
  store and the same capsules up to the count of deduplicated bytes, and every capsule reads the
  same in the two resulting pipelines.\<close>

theorem async_implements_sequential:
  assumes "wp_inv E p" "xts_laws E" "io_free (wp_store p)" "fits data p" "SEGMENT_SIZE \<le> limit"
    and "order_of (length (chunks SEGMENT_SIZE data)) sched" "order_of (length (chunks SEGMENT_SIZE data)) arrivals"
    and "write_capsule_async E now cid data pol limit sched arrivals p = (r, pa)"
    and "write_capsule_with_policy E now cid data pol p = (r', ps)"
  shows "(is_ok r \<longleftrightarrow> is_ok r') \<and>
    (is_ok r \<longrightarrow> r = r' \<and> stores_agree (wp_store pa) (wp_store ps) \<and> capsules_agree (wp_store pa) (wp_store ps) \<and>
       (\<forall>k. fst (read_capsule E k pa) = fst (read_capsule E k ps)))"
  by (rule async_refines_sequential [OF assms])

theorem async_implements_sequential_witness:
  "\<exists>pa. write_capsule_async sample_ext (Some 0) (CapsuleId [1]) sample_data metro_sync SEGMENT_SIZE [0] [0]
     (sample_pipeline None) = (Ok (CapsuleId [1]), pa)"
proof -
  have o: "order_of (length (chunks SEGMENT_SIZE sample_data)) [0]"
    by (auto simp: sample_chunks order_of_def)
  have io: "io_free (wp_store (sample_pipeline None))"
    by (simp add: io_free_def sample_pipeline_def empty_registry_def)
  obtain r pa r' ps where w:
    "write_capsule_async sample_ext (Some 0) (CapsuleId [1]) sample_data metro_sync SEGMENT_SIZE [0] [0] (sample_pipeline None) = (r, pa)"
    "write_capsule_with_policy sample_ext (Some 0) (CapsuleId [1]) sample_data metro_sync (sample_pipeline None) = (r', ps)"
    by fastforce
  have "r' = Ok (CapsuleId [1])" using w(2) sample_two_writes(1) by simp
  then show ?thesis
    using async_implements_sequential [OF sample_inv(1) sample_xts_laws io sample_data_fits order_refl o o w] w(1) by simp
qed

section \<open>A failed save after the capsule is in the registry\<close>

text \<open>The registry's first save succeeds (the content entry) and the second fails (the capsule).\<close>

definition failing_pipeline :: write_pipeline where
  "failing_pipeline = \<lparr>wp_store = \<lparr>st_registry = empty_registry\<lparr>reg_io := [IoOk, IoFail 0]\<rparr>,
     st_nvram = empty_log []\<rparr>, wp_key_manager = None\<rparr>"

lemma failing_inv: "wp_inv sample_ext failing_pipeline"
  by (simp add: wp_inv_def failing_pipeline_def wp_km_ok_def store_inv_def empty_registry_def caps_ok_def
      ids_below_def content_ok_def refs_def capsule_refs_def rc_of_def)

lemmas async_run_defs = write_capsule_async_def messages_def task_errors_def prepare_segment_def prepare_encrypt_def
  commit_error_def new_async_def nv_begin_transaction_def drain.simps take_prepared_def commit_segment_def stage_new_def
  on_aw_tx_def on_aw_store_def tx_append_segment_def tx_pending_segment_def tx_with_segment_mut_def
  tx_set_segment_metadata_def tx_commit_def commit_async_def finish_async_def undo_with_def decrement_all_def
  remove_pending_def deregister_entry_def reg_deregister_content_def nv_remove_segment_def abort_async_def
  has_capsule_def read_capsule_def reg_lookup_def ensure_active_def
  write_pending_def nv_read_def

text \<open>An asynchronous write that fails can leave a capsule whose segments are gone: when the save in
  \<open>create_capsule_with_segments\<close> fails, the capsule is already in the registry's memory, and undoing
  the write removes its segments but not the capsule. It is listed and cannot be read.\<close>

theorem async_failed_save_leaves_capsule:
  "case write_capsule_async sample_ext (Some 0) (CapsuleId [1]) sample_data metro_sync SEGMENT_SIZE [0] [0] failing_pipeline of
     (r, p) \<Rightarrow> r = Err (map_registry_error ''create_capsule_with_segments'' IoError) \<and> has_capsule p (CapsuleId [1]) \<and>
       nv_segment_map (st_nvram (wp_store p)) = [] \<and> \<not> is_ok (fst (read_capsule sample_ext (CapsuleId [1]) p))"
  using sample_data_facts(3) by (simp add: failing_pipeline_def run_defs async_run_defs)

end
