(* ===== verification/Storage_Backends.thy ===== *)
theory Storage_Backends
  imports Nvram_Log
begin

text \<open>
  The storage backends of \<open>crates/storage\<close> behind the traits \<open>StorageBackend\<close> and
  \<open>StorageTransaction\<close> of \<open>crates/common/src/traits.rs\<close>: maps in memory, and the NVRAM log. A
  transaction holds a handle to its backend, so its operations take the backend and the
  transaction together; \<open>sto_drop\<close> is what happens to the backend when a transaction goes out of
  scope without \<open>commit\<close> or \<open>rollback\<close>.
\<close>

section \<open>The storage traits\<close>

record ('s, 't) storage_ops =
  sto_append :: "segment_id \<Rightarrow> bytes \<Rightarrow> ('s, unit, error) op"
  sto_read :: "segment_id \<Rightarrow> 's \<Rightarrow> (bytes, error) result"
  sto_metadata :: "segment_id \<Rightarrow> 's \<Rightarrow> (segment, error) result"
  sto_delete :: "segment_id \<Rightarrow> ('s, unit, error) op"
  sto_segment_ids :: "'s \<Rightarrow> (segment_id list, error) result"
  sto_begin_txn :: "'s \<Rightarrow> ('t, error) result"
  txn_append :: "segment_id \<Rightarrow> bytes \<Rightarrow> ('s \<times> 't, unit, error) op"
  txn_set_segment_metadata :: "segment_id \<Rightarrow> segment \<Rightarrow> ('s \<times> 't, unit, error) op"
  txn_delete :: "segment_id \<Rightarrow> ('s \<times> 't, unit, error) op"
  txn_commit :: "'s \<times> 't \<Rightarrow> (unit, error) result \<times> 's"
  txn_rollback :: "'s \<times> 't \<Rightarrow> (unit, error) result \<times> 's"
  sto_drop :: "'s \<times> 't \<Rightarrow> 's"

section \<open>In memory\<close>

record in_memory_backend =
  im_segments :: "(segment_id, bytes) hmap"
  im_metadata :: "(segment_id, segment) hmap"

record in_memory_transaction =
  imt_staged_segments :: "(segment_id, bytes) hmap"
  imt_staged_metadata :: "(segment_id, segment) hmap"
  imt_deleted :: "segment_id list"

definition im_new :: in_memory_backend where
  "im_new = \<lparr>im_segments = [], im_metadata = []\<rparr>"

definition imt_new :: in_memory_transaction where
  "imt_new = \<lparr>imt_staged_segments = [], imt_staged_metadata = [], imt_deleted = []\<rparr>"

definition im_append :: "segment_id \<Rightarrow> bytes \<Rightarrow> (in_memory_backend, unit, error) op" where
  "im_append sid data b = (Ok (), b\<lparr>im_segments := hm_insert sid data (im_segments b)\<rparr>)"

definition im_read :: "segment_id \<Rightarrow> in_memory_backend \<Rightarrow> (bytes, error) result" where
  "im_read sid b = ok_or (hm_get (im_segments b) sid) (SegmentNotFound sid)"

definition im_get_metadata :: "segment_id \<Rightarrow> in_memory_backend \<Rightarrow> (segment, error) result" where
  "im_get_metadata sid b = ok_or (hm_get (im_metadata b) sid) (SegmentNotFound sid)"

definition im_remove :: "segment_id \<Rightarrow> in_memory_backend \<Rightarrow> in_memory_backend" where
  "im_remove sid b = b\<lparr>im_segments := hm_remove sid (im_segments b), im_metadata := hm_remove sid (im_metadata b)\<rparr>"

definition imt_append :: "segment_id \<Rightarrow> bytes \<Rightarrow> (in_memory_backend \<times> in_memory_transaction, unit, error) op" where
  "imt_append sid data = (\<lambda>(b, t). (Ok (), (b, t\<lparr>imt_staged_segments := hm_insert sid data (imt_staged_segments t)\<rparr>)))"

definition imt_set_segment_metadata ::
  "segment_id \<Rightarrow> segment \<Rightarrow> (in_memory_backend \<times> in_memory_transaction, unit, error) op" where
  "imt_set_segment_metadata sid m =
     (\<lambda>(b, t). (Ok (), (b, t\<lparr>imt_staged_metadata := hm_insert sid m (imt_staged_metadata t)\<rparr>)))"

definition imt_delete :: "segment_id \<Rightarrow> (in_memory_backend \<times> in_memory_transaction, unit, error) op" where
  "imt_delete sid = (\<lambda>(b, t). (Ok (), (b, t\<lparr>imt_deleted := imt_deleted t @ [sid]\<rparr>)))"

definition imt_commit :: "in_memory_backend \<times> in_memory_transaction \<Rightarrow> (unit, error) result \<times> in_memory_backend" where
  "imt_commit = (\<lambda>(b, t).
     (Ok (),
      fold im_remove (imt_deleted t)
        (fold (\<lambda>(sid, m) b. b\<lparr>im_metadata := hm_insert sid m (im_metadata b)\<rparr>) (imt_staged_metadata t)
          (fold (\<lambda>(sid, data) b. b\<lparr>im_segments := hm_insert sid data (im_segments b)\<rparr>) (imt_staged_segments t) b))))"

definition in_memory_ops :: "(in_memory_backend, in_memory_transaction) storage_ops" where
  "in_memory_ops =
     \<lparr>sto_append = im_append, sto_read = im_read, sto_metadata = im_get_metadata,
      sto_delete = (\<lambda>sid b. (Ok (), im_remove sid b)),
      sto_segment_ids = (\<lambda>b. Ok (hm_keys (im_metadata b))), sto_begin_txn = (\<lambda>b. Ok imt_new),
      txn_append = imt_append, txn_set_segment_metadata = imt_set_segment_metadata, txn_delete = imt_delete,
      txn_commit = imt_commit, txn_rollback = (\<lambda>(b, t). (Ok (), b)), sto_drop = fst\<rparr>"

section \<open>The NVRAM log as a backend\<close>

record nvram_storage_transaction =
  nst_inner :: nvram_transaction
  nst_deleted :: "segment_id list"

text \<open>An operation of the log's transaction inside the wrapper.\<close>

definition on_inner :: "'a tx_op \<Rightarrow> (nvram_log \<times> nvram_storage_transaction, 'a, error) op" where
  "on_inner m = zoom (\<lambda>(lg, t). (lg, nst_inner t)) (\<lambda>(lg, tx) (_, t). (lg, t\<lparr>nst_inner := tx\<rparr>)) m"

definition nst_append :: "segment_id \<Rightarrow> bytes \<Rightarrow> (nvram_log \<times> nvram_storage_transaction, unit, error) op" where
  "nst_append sid data = bind_op (on_inner (tx_append_segment sid data)) (\<lambda>_. return_op ())"

definition nst_delete :: "segment_id \<Rightarrow> (nvram_log \<times> nvram_storage_transaction, unit, error) op" where
  "nst_delete sid = (\<lambda>(lg, t). (Ok (), (lg, t\<lparr>nst_deleted := nst_deleted t @ [sid]\<rparr>)))"

text \<open>The transaction is dropped when \<open>commit\<close> returns, early or not.\<close>

definition nst_commit :: "nvram_log \<times> nvram_storage_transaction \<Rightarrow> (unit, error) result \<times> nvram_log" where
  "nst_commit = (\<lambda>(lg, t).
     case tx_commit (lg, nst_inner t) of
       (Err e, s) \<Rightarrow> (Err e, tx_drop s)
     | (Ok _, s) \<Rightarrow>
         (case for_each (\<lambda>sid. bind_op (nv_remove_segment sid) (\<lambda>_. return_op ())) (nst_deleted t) (fst s) of
            (r, lg) \<Rightarrow> (r, tx_drop (lg, snd s))))"

definition nst_rollback :: "nvram_log \<times> nvram_storage_transaction \<Rightarrow> (unit, error) result \<times> nvram_log" where
  "nst_rollback = (\<lambda>(lg, t). case tx_rollback (lg, nst_inner t) of (r, s) \<Rightarrow> (r, tx_drop s))"

definition nvram_ops :: "(nvram_log, nvram_storage_transaction) storage_ops" where
  "nvram_ops =
     \<lparr>sto_append = (\<lambda>sid data. bind_op (nv_append sid data) (\<lambda>_. return_op ())), sto_read = nv_read,
      sto_metadata = nv_get_segment_metadata,
      sto_delete = (\<lambda>sid. bind_op (nv_remove_segment sid) (\<lambda>_. return_op ())),
      sto_segment_ids = (\<lambda>lg. Ok (nv_list_segment_ids lg)),
      sto_begin_txn = (\<lambda>lg. Ok \<lparr>nst_inner = nv_begin_transaction lg, nst_deleted = []\<rparr>),
      txn_append = nst_append, txn_set_segment_metadata = (\<lambda>sid m. on_inner (tx_set_segment_metadata sid m)),
      txn_delete = nst_delete, txn_commit = nst_commit, txn_rollback = nst_rollback,
      sto_drop = (\<lambda>(lg, t). tx_drop (lg, nst_inner t))\<rparr>"

section \<open>What every backend promises\<close>

text \<open>
  Staging shows nothing: until \<open>commit\<close>, and after \<open>rollback\<close> or a drop, every segment has the
  metadata and reads the data it had before the transaction began. Deleting a segment removes
  its metadata and leaves the others alone.
\<close>

datatype staged = StageAppend segment_id bytes | StageMetadata segment_id segment | StageDelete segment_id

fun stage :: "('s, 't) storage_ops \<Rightarrow> staged \<Rightarrow> ('s \<times> 't, unit, error) op" where
  "stage ops (StageAppend sid d) = txn_append ops sid d"
| "stage ops (StageMetadata sid m) = txn_set_segment_metadata ops sid m"
| "stage ops (StageDelete sid) = txn_delete ops sid"

locale storage_backend =
  fixes ops :: "('s, 't) storage_ops" and metas :: "'s \<Rightarrow> (segment_id, segment) hmap"
  assumes metadata: "sto_metadata ops k s = ok_or (hm_get (metas s) k) (SegmentNotFound k)"
    and segment_ids: "sto_segment_ids ops s = Ok (hm_keys (metas s))"
    and begin_Ok: "\<exists>t. sto_begin_txn ops s = Ok t"
    and staged: "stage ops x (s, t) = (r, (s', t')) \<Longrightarrow> metas s' = metas s \<and> sto_read ops k s' = sto_read ops k s"
    and rollback: "txn_rollback ops (s, t) = (r, s') \<Longrightarrow> metas s' = metas s \<and> sto_read ops k s' = sto_read ops k s"
    and drop_same: "metas (sto_drop ops (s, t)) = metas s \<and> sto_read ops k (sto_drop ops (s, t)) = sto_read ops k s"
    and deleted: "sto_delete ops j s = (r, s') \<Longrightarrow>
      (\<forall>k. hm_get (metas s') k = (if k = j then None else hm_get (metas s) k)) \<and>
      (k \<noteq> j \<longrightarrow> sto_read ops k s' = sto_read ops k s)"
begin

lemma staged_all:
  "for_each (stage ops) xs (s, t) = (r, (s', t')) \<Longrightarrow> metas s' = metas s \<and> sto_read ops k s' = sto_read ops k s"
proof (induction xs arbitrary: s t)
  case (Cons x xs)
  obtain q s1 t1 where x: "stage ops x (s, t) = (q, (s1, t1))" by (metis prod_cases3)
  then show ?case using Cons staged [OF x] by (auto split: result.splits)
qed simp

text \<open>An abandoned transaction changes nothing that can be observed, however it is abandoned.\<close>

lemma abandoned:
  assumes "for_each (stage ops) xs (s, t) = (r, (s', t'))" "s'' = snd (txn_rollback ops (s', t')) \<or> s'' = sto_drop ops (s', t')"
  shows "sto_metadata ops k s'' = sto_metadata ops k s \<and> sto_read ops k s'' = sto_read ops k s \<and>
    sto_segment_ids ops s'' = sto_segment_ids ops s"
  using assms(2) staged_all [OF assms(1)] drop_same [of s' t'] rollback [of s' t' "fst (txn_rollback ops (s', t'))" s'' k]
  by (auto simp: metadata segment_ids)

lemma delete_Err: "sto_delete ops j s = (r, s') \<Longrightarrow> sto_metadata ops j s' = Err (SegmentNotFound j)"
  using deleted by (simp add: metadata)

end

text \<open>
  A backend on which a committed transaction takes effect as a whole, and which only fails to
  find segments.
\<close>

locale storage_atomic = storage_backend +
  assumes commit_new: "sto_begin_txn ops s = Ok t \<Longrightarrow> \<exists>s' u s''.
      for_each (stage ops) [StageAppend j d, StageMetadata j m] (s, t) = (Ok (), (s', u)) \<and>
      txn_commit ops (s', u) = (Ok (), s'') \<and>
      (\<forall>k. hm_get (metas s'') k = (if k = j then Some m else hm_get (metas s) k)) \<and>
      (\<forall>k. sto_read ops k s'' = (if k = j then Ok d else sto_read ops k s))"
    and commit_metadata: "sto_begin_txn ops s = Ok t \<Longrightarrow> \<exists>s' u s''.
      stage ops (StageMetadata j m) (s, t) = (Ok (), (s', u)) \<and> txn_commit ops (s', u) = (Ok (), s'') \<and>
      (\<forall>k. hm_get (metas s'') k = (if k = j then Some m else hm_get (metas s) k)) \<and>
      (\<forall>k. sto_read ops k s'' = sto_read ops k s)"
    and commit_deletes: "sto_begin_txn ops s = Ok t \<Longrightarrow> \<exists>s' u s''.
      for_each (stage ops) (map StageDelete js) (s, t) = (Ok (), (s', u)) \<and> txn_commit ops (s', u) = (Ok (), s'') \<and>
      (\<forall>k. hm_get (metas s'') k = (if k \<in> set js then None else hm_get (metas s) k)) \<and>
      (\<forall>k. k \<notin> set js \<longrightarrow> sto_read ops k s'' = sto_read ops k s)"
    and delete_Ok: "fst (sto_delete ops j s) = Ok ()"

section \<open>The backends keep the promises\<close>

lemma fold_im_remove:
  "hm_get (im_metadata (fold im_remove js b)) k = (if k \<in> set js then None else hm_get (im_metadata b) k)"
  "hm_get (im_segments (fold im_remove js b)) k = (if k \<in> set js then None else hm_get (im_segments b) k)"
  by (induction js arbitrary: b) (auto simp: im_remove_def)

lemma imt_deletes:
  "for_each (stage in_memory_ops) (map StageDelete js) (b, t) = (Ok (), (b, t\<lparr>imt_deleted := imt_deleted t @ js\<rparr>))"
  by (induction js arbitrary: t) (simp_all add: in_memory_ops_def imt_delete_def)

lemmas in_memory_defs = in_memory_ops_def imt_append_def imt_set_segment_metadata_def imt_delete_def imt_commit_def
  im_append_def im_read_def im_get_metadata_def

interpretation im: storage_atomic in_memory_ops im_metadata
proof
  fix x s t r s' t' k
  assume "stage in_memory_ops x (s, t) = (r, (s', t'))"
  then show "im_metadata s' = im_metadata s \<and> sto_read in_memory_ops k s' = sto_read in_memory_ops k s"
    by (cases x) (auto simp: in_memory_defs)
next
  fix s t js
  assume "sto_begin_txn in_memory_ops s = Ok t"
  then show "\<exists>s' u s''. for_each (stage in_memory_ops) (map StageDelete js) (s, t) = (Ok (), (s', u)) \<and>
      txn_commit in_memory_ops (s', u) = (Ok (), s'') \<and>
      (\<forall>k. hm_get (im_metadata s'') k = (if k \<in> set js then None else hm_get (im_metadata s) k)) \<and>
      (\<forall>k. k \<notin> set js \<longrightarrow> sto_read in_memory_ops k s'' = sto_read in_memory_ops k s)"
    unfolding imt_deletes by (auto simp: in_memory_defs imt_new_def fold_im_remove)
qed (auto simp: in_memory_defs imt_new_def im_remove_def)

lemma nst_read_cong:
  "nv_segment_map lg' = nv_segment_map lg \<Longrightarrow> nv_file lg' = nv_file lg \<Longrightarrow> nv_read k lg' = nv_read k lg"
  by (simp add: nv_read_def split: option.splits)

lemma tx_drop_keeps [simp]:
  "nv_segment_map (tx_drop s) = nv_segment_map (fst s)" "nv_file (tx_drop s) = nv_file (fst s)"
  by (cases s; simp add: tx_drop_def tx_rollback_def)+

lemma nst_stage_keeps:
  assumes "stage nvram_ops x (lg, t) = (r, (lg', t'))"
  shows "nv_segment_map lg' = nv_segment_map lg \<and> nv_file lg' = nv_file lg"
  using assms
  by (cases x)
    (auto simp: nvram_ops_def nst_append_def nst_delete_def on_inner_def op_simps tx_append_segment_def ensure_active_def
      tx_set_segment_metadata_def tx_with_segment_mut_def Let_def split: if_splits)

lemma nv_remove_map_file:
  assumes "nv_remove_segment j lg = (r, lg')"
  shows "nv_segment_map lg' = hm_remove j (nv_segment_map lg)" "nv_file lg' = nv_file lg"
  using assms by (auto simp: nv_remove_segment_def op_simps save_segment_map_def Let_def split: prod.splits if_splits)

interpretation nvb: storage_backend nvram_ops nv_segment_map
proof
  fix x s t r s' t' k
  assume "stage nvram_ops x (s, t) = (r, (s', t'))"
  from nst_stage_keeps [OF this]
  show "nv_segment_map s' = nv_segment_map s \<and> sto_read nvram_ops k s' = sto_read nvram_ops k s"
    using nst_read_cong [of s' s k] by (simp add: nvram_ops_def)
next
  fix s t r s' k
  assume "txn_rollback nvram_ops (s, t) = (r, s')"
  then have "nv_segment_map s' = nv_segment_map s" "nv_file s' = nv_file s"
    by (auto simp: nvram_ops_def nst_rollback_def tx_rollback_def split: if_splits)
  then show "nv_segment_map s' = nv_segment_map s \<and> sto_read nvram_ops k s' = sto_read nvram_ops k s"
    using nst_read_cong [of s' s k] by (simp add: nvram_ops_def)
next
  fix j s r s' k
  assume "sto_delete nvram_ops j s = (r, s')"
  then obtain q where "nv_remove_segment j s = (q, s')"
    by (auto simp: nvram_ops_def op_simps split: prod.splits result.splits)
  from nv_remove_map_file [OF this]
  show "(\<forall>k. hm_get (nv_segment_map s') k = (if k = j then None else hm_get (nv_segment_map s) k)) \<and>
      (k \<noteq> j \<longrightarrow> sto_read nvram_ops k s' = sto_read nvram_ops k s)"
    by (simp add: nvram_ops_def nv_read_def split: option.splits)
next
  fix s t k
  show "nv_segment_map (sto_drop nvram_ops (s, t)) = nv_segment_map s \<and>
      sto_read nvram_ops k (sto_drop nvram_ops (s, t)) = sto_read nvram_ops k s"
    by (simp add: nvram_ops_def nv_read_def split: option.splits)
qed (simp_all add: nvram_ops_def nv_get_segment_metadata_def nv_list_segment_ids_def)

text \<open>A storage transaction that is not committed shows nothing: whatever was staged in it, and whether it
  is rolled back or dropped, with any I/O failure, every segment of the NVRAM backend keeps its
  metadata and its data, and the list of segments stays the same.\<close>

theorem nvram_backend_abandoned_transaction:
  assumes "for_each (stage nvram_ops) xs (lg, t) = (r, (lg', t'))"
    and "lg'' = snd (txn_rollback nvram_ops (lg', t')) \<or> lg'' = sto_drop nvram_ops (lg', t')"
  shows "sto_metadata nvram_ops k lg'' = sto_metadata nvram_ops k lg \<and> sto_read nvram_ops k lg'' = sto_read nvram_ops k lg \<and>
    sto_segment_ids nvram_ops lg'' = sto_segment_ids nvram_ops lg"
  by (rule nvb.abandoned [OF assms])

theorem nvram_backend_abandoned_transaction_witness:
  "\<exists>lg' t'. for_each (stage nvram_ops) [StageAppend (SegmentId 1) [7], StageDelete (SegmentId 0)]
       (empty_log [], \<lparr>nst_inner = nv_begin_transaction (empty_log []), nst_deleted = []\<rparr>) = (Ok (), (lg', t')) \<and>
     sto_segment_ids nvram_ops (sto_drop nvram_ops (lg', t')) = Ok []"
proof -
  obtain lg' t' where run: "for_each (stage nvram_ops) [StageAppend (SegmentId 1) [7], StageDelete (SegmentId 0)]
      (empty_log [], \<lparr>nst_inner = nv_begin_transaction (empty_log []), nst_deleted = []\<rparr>) = (Ok (), (lg', t'))"
    by (simp add: nvram_ops_def nst_append_def nst_delete_def on_inner_def op_simps tx_append_segment_def ensure_active_def
        nv_begin_transaction_def Let_def)
  have "sto_segment_ids nvram_ops (empty_log []) = Ok []"
    by (simp add: nvram_ops_def nv_list_segment_ids_def empty_log_def)
  with nvram_backend_abandoned_transaction [OF run] run show ?thesis by auto
qed

text \<open>
  How the modular pipeline uses the NVRAM backend: a new segment is staged with metadata whose
  offset is zero, and the metadata of a committed segment is set to change its reference count.
\<close>

lemma nvram_session_at_zero:
  assumes "sto_begin_txn nvram_ops lg = Ok t" "seg_offset m = 0" "seg_id m = j"
    and "for_each (stage nvram_ops) [StageAppend j d, StageMetadata j m] (lg, t) = (Ok (), (lg1, t1))"
    and "txn_commit nvram_ops (lg1, t1) = (Ok (), lg2)"
  shows "nv_file lg2 = write_at 0 d (nv_file lg)" "nv_segment_map lg2 = hm_insert j m (nv_segment_map lg)"
  using assms
  by (auto simp: nvram_ops_def nst_append_def on_inner_def op_simps tx_append_segment_def ensure_active_def
      tx_set_segment_metadata_def tx_with_segment_mut_def tx_pending_segment_def nv_begin_transaction_def
      fresh_segment_def nst_commit_def tx_commit_def write_pending_def file_write_def file_sync_def save_segment_map_def
      Let_def split: prod.splits result.splits if_splits io_outcome.splits)

lemma nvram_metadata_of_committed:
  assumes "sto_begin_txn nvram_ops lg = Ok t"
  shows "stage nvram_ops (StageMetadata j m) (lg, t) = (Err (PendingNotFound j), (lg, t))"
  using assms
  by (auto simp: nvram_ops_def on_inner_def op_simps ensure_active_def tx_set_segment_metadata_def
      tx_with_segment_mut_def tx_pending_segment_def nv_begin_transaction_def)

end
