(* ===== verification/Layout_Engine.thy ===== *)
theory Layout_Engine
  imports Common_Types
begin

text \<open>
  The layout engine of \<open>crates/layout-engine\<close>: the choice of an offload by the policy
  (\<open>compiler.rs\<close>) and the plan the CPU offloads build (\<open>offload/cpu.rs\<close>), in the default
  configuration without the features \<open>zns\<close>, \<open>ml\<close> and \<open>pq\<close>. The inner loop of \<open>build_plan\<close> advances by
  the segment size, which a policy may set to zero, so the loop is a partial function whose value
  \<open>None\<close> stands for not returning.
\<close>

section \<open>Plans\<close>

record segment_ref =
  sr_capsule_id :: capsule_id
  sr_offset :: u64
  sr_length :: u64
  sr_compressed_hash :: content_hash

record zone =
  zone_id :: u64
  zone_iv_seed :: u64
  zone_segments :: "segment_ref list"

record zone_plan =
  plan_zones :: "zone list"
  plan_merkle_root :: "content_hash option"

definition hash_chunk :: "ext \<Rightarrow> bytes \<Rightarrow> content_hash" where
  "hash_chunk E d = content_hash_from_bytes E (ext_blake3 E d)"

text \<open>\<open>CapsuleId::default()\<close> is a fresh random identifier, an argument here.\<close>

definition capsule_id_for :: "capsule_id \<Rightarrow> capsule_id list \<Rightarrow> capsule_id" where
  "capsule_id_for fresh capsules = (case capsules of c # _ \<Rightarrow> c | [] \<Rightarrow> fresh)"

section \<open>The fixed-size plan\<close>

text \<open>The local variables of \<open>build_plan\<close> that live across slices.\<close>

record plan_state =
  pb_zones :: "zone list"
  pb_zone_id :: u64
  pb_current :: zone
  pb_usage :: nat

definition new_zone :: "u64 \<Rightarrow> zone" where
  "new_zone n = \<lparr>zone_id = n, zone_iv_seed = n, zone_segments = []\<rparr>"

definition push_segment :: "nat \<Rightarrow> segment_ref \<Rightarrow> nat \<Rightarrow> plan_state \<Rightarrow> plan_state" where
  "push_segment segment_size segment n_take st =
     (let current = (pb_current st)\<lparr>zone_segments := zone_segments (pb_current st) @ [segment]\<rparr>;
          usage = pb_usage st + n_take
      in if usage \<ge> segment_size \<and> zone_segments current \<noteq> []
         then \<lparr>pb_zones = pb_zones st @ [current], pb_zone_id = pb_zone_id st + 1,
               pb_current = new_zone (pb_zone_id st + 1), pb_usage = 0\<rparr>
         else st\<lparr>pb_current := current, pb_usage := usage\<rparr>)"

definition segment_at :: "ext \<Rightarrow> capsule_id \<Rightarrow> nat \<Rightarrow> bytes \<Rightarrow> segment_ref" where
  "segment_at E capsule pos chunk = \<lparr>sr_capsule_id = capsule, sr_offset = of_nat pos,
     sr_length = of_nat (length chunk), sr_compressed_hash = hash_chunk E chunk\<rparr>"

text \<open>\<open>while start < slice.len()\<close>.\<close>

partial_function (option) slice_loop ::
  "ext \<Rightarrow> capsule_id \<Rightarrow> nat \<Rightarrow> bytes \<Rightarrow> nat \<Rightarrow> nat \<Rightarrow> plan_state \<Rightarrow> plan_state option" where
  "slice_loop E capsule segment_size data_slice cursor start st =
     (if start < length data_slice then
        (let n_take = min (length data_slice - start) segment_size;
             chunk = take n_take (drop start data_slice)
         in slice_loop E capsule segment_size data_slice cursor (start + n_take)
              (push_segment segment_size (segment_at E capsule (cursor + start) chunk) n_take st))
      else Some st)"

fun slices_loop :: "ext \<Rightarrow> capsule_id \<Rightarrow> nat \<Rightarrow> bytes list \<Rightarrow> nat \<Rightarrow> plan_state \<Rightarrow> plan_state option" where
  "slices_loop E capsule segment_size [] cursor st = Some st"
| "slices_loop E capsule segment_size (data_slice # slices) cursor st =
     (case slice_loop E capsule segment_size data_slice cursor 0 st of
        None \<Rightarrow> None
      | Some st \<Rightarrow> slices_loop E capsule segment_size slices (cursor + length data_slice) st)"

definition plan_start :: plan_state where
  "plan_start = \<lparr>pb_zones = [], pb_zone_id = 0, pb_current = new_zone 0, pb_usage = 0\<rparr>"

definition plan_finish :: "plan_state \<Rightarrow> zone_plan" where
  "plan_finish st =
     \<lparr>plan_zones = pb_zones st @ (if zone_segments (pb_current st) \<noteq> [] then [pb_current st] else []),
      plan_merkle_root = None\<rparr>"

definition build_plan ::
  "ext \<Rightarrow> capsule_id \<Rightarrow> layout_strategy \<Rightarrow> capsule_id list \<Rightarrow> bytes list \<Rightarrow> zone_plan option" where
  "build_plan E fresh strat capsules data_slices =
     map_option plan_finish
       (slices_loop E (capsule_id_for fresh capsules) (default_segment_size strat) data_slices 0 plan_start)"

section \<open>The offloads and their choice\<close>

datatype layout_offload = CpuFixed policy | CpuEntropy policy | CpuQuantumReady policy merkle_algo

definition layout_compile :: "policy \<Rightarrow> (layout_offload, error) result" where
  "layout_compile pol =
     (case strategy (layout pol) of
        Fixed _ \<Rightarrow> Ok (CpuFixed pol)
      | AdaptiveEntropy \<Rightarrow> Ok (CpuEntropy pol)
      | ZnsGraph _ _ \<Rightarrow> Err Panic
      | Learned _ \<Rightarrow> Err Panic
      | QuantumReady algo \<Rightarrow> Ok (CpuQuantumReady pol algo))"

text \<open>
  Updating a BLAKE3 hasher slice by slice hashes the concatenation; without the feature \<open>pq\<close>
  the other algorithm hashes the concatenation with BLAKE3 as well.
\<close>

definition compute_merkle_root :: "ext \<Rightarrow> merkle_algo \<Rightarrow> bytes list \<Rightarrow> content_hash" where
  "compute_merkle_root E algo data_slices =
     (case algo of
        Blake3 \<Rightarrow> content_hash_from_bytes E (ext_blake3 E (concat data_slices))
      | SphincsPlus \<Rightarrow> hash_chunk E (concat data_slices))"

definition cpu_fixed_synthesize :: "ext \<Rightarrow> capsule_id \<Rightarrow> policy \<Rightarrow> capsule_id list \<Rightarrow> bytes list \<Rightarrow> zone_plan option" where
  "cpu_fixed_synthesize E fresh pol capsules data_slices =
     build_plan E fresh (strategy (layout pol)) capsules data_slices"

fun offload_synthesize ::
  "ext \<Rightarrow> capsule_id \<Rightarrow> layout_offload \<Rightarrow> capsule_id list \<Rightarrow> bytes list \<Rightarrow> zone_plan option" where
  "offload_synthesize E fresh (CpuFixed pol) capsules data_slices =
     cpu_fixed_synthesize E fresh pol capsules data_slices"
| "offload_synthesize E fresh (CpuEntropy pol) capsules data_slices =
     cpu_fixed_synthesize E fresh pol capsules data_slices"
| "offload_synthesize E fresh (CpuQuantumReady pol algo) capsules data_slices =
     map_option (\<lambda>plan. plan\<lparr>plan_merkle_root := Some (compute_merkle_root E algo data_slices)\<rparr>)
       (cpu_fixed_synthesize E fresh pol capsules data_slices)"

text \<open>\<open>LayoutEngine::new\<close> and \<open>synthesize\<close>: \<open>Err Panic\<close> when no offload is compiled in, \<open>Ok None\<close> when planning does not return.\<close>

definition layout_synthesize ::
  "ext \<Rightarrow> capsule_id \<Rightarrow> policy \<Rightarrow> capsule_id list \<Rightarrow> bytes list \<Rightarrow> (zone_plan option, error) result" where
  "layout_synthesize E fresh pol capsules data_slices =
     bind_result (layout_compile pol) (\<lambda>offload. Ok (offload_synthesize E fresh offload capsules data_slices))"

section \<open>Termination\<close>

lemma slice_loop_total:
  assumes "0 < n" shows "\<exists>st'. slice_loop E c n data_slice cursor start st = Some st'"
proof (induction "length data_slice - start" arbitrary: start st rule: less_induct)
  case less
  show ?case
  proof (cases "start < length data_slice")
    case True
    then show ?thesis
      using less [of "start + min (length data_slice - start) n"] assms by (subst slice_loop.simps) (simp add: Let_def)
  qed (subst slice_loop.simps, simp)
qed

lemma slice_loop_stuck:
  assumes "slice_loop E c n data_slice cursor start st = Some st'" shows "0 < n \<or> length data_slice \<le> start"
proof (rule slice_loop.raw_induct [OF _ assms, where P = "\<lambda>E c n d cursor start st st'. 0 < n \<or> length d \<le> start"])
  fix loop and E :: ext and c n and d :: bytes and cursor start and st st' :: plan_state
  assume "\<And>E c n d cursor start st st'. loop E c n d cursor start st = Some st' \<Longrightarrow> 0 < n \<or> length d \<le> start"
    and "(if start < length d
      then let n_take = min (length d - start) n; chunk = take n_take (drop start d)
           in loop E c n d cursor (start + n_take)
               (push_segment n (segment_at E c (cursor + start) chunk) n_take st)
      else Some st) = Some st'"
  then show "0 < n \<or> length d \<le> start" by (fastforce simp: Let_def split: if_splits)
qed

lemma slices_loop_total: "0 < n \<Longrightarrow> \<exists>st'. slices_loop E c n slices cursor st = Some st'"
proof (induction slices arbitrary: cursor st)
  case (Cons data_slice slices)
  then show ?case using slice_loop_total [of n E c data_slice cursor 0 st] by auto
qed simp

lemma slices_loop_stuck: "slices_loop E c 0 slices cursor st = Some st' \<Longrightarrow> \<forall>s\<in>set slices. s = []"
  by (induction slices arbitrary: cursor st) (auto split: option.splits dest: slice_loop_stuck)

lemma slices_loop_empty: "\<forall>s\<in>set slices. s = [] \<Longrightarrow> slices_loop E c n slices cursor st = Some st"
  by (induction slices arbitrary: cursor) (simp_all add: slice_loop.simps)

lemma build_plan_total:
  assumes "0 < default_segment_size strat" shows "\<exists>plan. build_plan E fresh strat capsules slices = Some plan"
proof -
  obtain st where "slices_loop E (capsule_id_for fresh capsules) (default_segment_size strat) slices 0 plan_start = Some st"
    using slices_loop_total [OF assms] by blast
  then show ?thesis by (simp add: build_plan_def)
qed

text \<open>C10: Planning returns for every policy with a positive segment size, and for a zero segment size it
  returns exactly when there is nothing to lay out: the loop never ends on a non-empty slice.\<close>

theorem build_plan_terminates:
  "(\<exists>plan. build_plan E fresh strat capsules slices = Some plan) \<longleftrightarrow>
     0 < default_segment_size strat \<or> (\<forall>s\<in>set slices. s = [])"
proof (cases "0 < default_segment_size strat")
  case False
  then show ?thesis
    using slices_loop_empty slices_loop_stuck by (fastforce simp: build_plan_def)
qed (simp add: build_plan_total)

theorem build_plan_terminates_witness:
  "(\<exists>plan. build_plan sample_ext (CapsuleId []) (Fixed 0) [] [[], []] = Some plan) \<and>
   (\<nexists>plan. build_plan sample_ext (CapsuleId []) (Fixed 0) [] [[], [7]] = Some plan)"
  by (simp add: build_plan_terminates del: not_ex)

section \<open>What a plan covers\<close>

definition plan_refs :: "zone_plan \<Rightarrow> segment_ref list" where
  "plan_refs plan = concat (map zone_segments (plan_zones plan))"

text \<open>The references of consecutive pieces from a position on.\<close>

fun refs_from :: "ext \<Rightarrow> capsule_id \<Rightarrow> nat \<Rightarrow> bytes list \<Rightarrow> segment_ref list" where
  "refs_from E c pos [] = []"
| "refs_from E c pos (p # ps) = segment_at E c pos p # refs_from E c (pos + length p) ps"

lemma refs_from_append:
  "refs_from E c pos (ps @ qs) = refs_from E c pos ps @ refs_from E c (pos + length (concat ps)) qs"
  by (induction ps arbitrary: pos) (simp_all add: add.assoc)

lemma plan_finish_refs: "plan_refs (plan_finish st) = concat (map zone_segments (pb_zones st)) @ zone_segments (pb_current st)"
  by (simp add: plan_refs_def plan_finish_def)

lemma push_segment_refs:
  "plan_refs (plan_finish (push_segment n s k st)) = plan_refs (plan_finish st) @ [s]"
  by (simp add: plan_finish_refs push_segment_def Let_def new_zone_def)

lemma slice_loop_refs:
  assumes "0 < n" "slice_loop E c n d cursor start st = Some st'"
  shows "plan_refs (plan_finish st') = plan_refs (plan_finish st) @ refs_from E c (cursor + start) (chunks n (drop start d))"
  using assms(2)
proof (induction "length d - start" arbitrary: start st rule: less_induct)
  case less
  show ?case
  proof (cases "start < length d")
    case True
    let ?k = "min (length d - start) n"
    let ?st = "push_segment n (segment_at E c (cursor + start) (take ?k (drop start d))) ?k st"
    have run: "slice_loop E c n d cursor (start + ?k) ?st = Some st'"
      using less.prems True by (subst (asm) slice_loop.simps) (simp add: Let_def)
    have "plan_refs (plan_finish st') = plan_refs (plan_finish ?st) @ refs_from E c (cursor + (start + ?k)) (chunks n (drop (start + ?k) d))"
      by (rule less.hyps [OF _ run]) (use True assms(1) in auto)
    moreover have "chunks n (drop start d) = take ?k (drop start d) # chunks n (drop (start + ?k) d)"
      using True assms(1) by (subst chunks_step) (auto simp: min_def add.commute)
    ultimately show ?thesis using True by (simp add: push_segment_refs add.assoc min.commute)
  next
    case False
    then show ?thesis using less.prems by (subst (asm) slice_loop.simps) simp
  qed
qed

lemma slices_loop_refs:
  assumes "0 < n" "slices_loop E c n slices cursor st = Some st'"
  shows "plan_refs (plan_finish st') = plan_refs (plan_finish st) @ refs_from E c cursor (concat (map (chunks n) slices))"
  using assms(2)
proof (induction slices arbitrary: cursor st)
  case (Cons d slices)
  obtain st1 where s: "slice_loop E c n d cursor 0 st = Some st1"
    "slices_loop E c n slices (cursor + length d) st1 = Some st'"
    using Cons.prems by (auto split: option.splits)
  show ?case
    using Cons.IH [OF s(2)] slice_loop_refs [OF assms(1) s(1)] concat_chunks [OF assms(1), of d]
    by (simp add: refs_from_append)
qed simp

lemma refs_from_read:
  assumes "pos + length (concat ps) < 2 ^ 64" "length pre = pos"
  shows "map (\<lambda>s. take (unat (sr_length s)) (drop (unat (sr_offset s)) (pre @ concat ps @ post))) (refs_from E c pos ps) = ps"
  using assms
proof (induction ps arbitrary: pos pre)
  case (Cons p ps)
  have "unat (sr_length (segment_at E c pos p)) = length p" "unat (sr_offset (segment_at E c pos p)) = pos"
    using Cons.prems by (simp_all add: segment_at_def word_arith)
  then show ?case using Cons.prems Cons.IH [of "pos + length p" "pre @ p"] by (simp add: add.assoc)
qed simp

lemma refs_from_hashes:
  "map sr_compressed_hash (refs_from E c pos ps) = map (hash_chunk E) ps"
  "s \<in> set (refs_from E c pos ps) \<Longrightarrow> sr_capsule_id s = c"
  by (induction ps arbitrary: pos) (auto simp: segment_at_def)

lemma concat_concat_chunks: "0 < n \<Longrightarrow> concat (concat (map (chunks n) slices)) = concat slices"
  by (induction slices) (simp_all add: concat_chunks)

lemma build_plan_refs:
  assumes "0 < default_segment_size strat" "build_plan E fresh strat capsules slices = Some plan"
  shows "plan_refs plan = refs_from E (capsule_id_for fresh capsules) 0 (concat (map (chunks (default_segment_size strat)) slices))"
proof -
  obtain st where st: "slices_loop E (capsule_id_for fresh capsules) (default_segment_size strat) slices 0 plan_start = Some st"
    "plan = plan_finish st" using assms(2) by (auto simp: build_plan_def)
  show ?thesis
    using slices_loop_refs [OF assms(1) st(1)] st(2) by (simp add: plan_finish_refs plan_start_def new_zone_def)
qed

lemma refs_from_bounds:
  "pos + length (concat ps) < 2 ^ 64 \<Longrightarrow> s \<in> set (refs_from E c pos ps) \<Longrightarrow>
   unat (sr_offset s) + unat (sr_length s) \<le> pos + length (concat ps)"
proof (induction ps arbitrary: pos)
  case (Cons p ps)
  have "unat (sr_length (segment_at E c pos p)) = length p" "unat (sr_offset (segment_at E c pos p)) = pos"
    using Cons.prems by (simp_all add: segment_at_def word_arith)
  then show ?case using Cons.prems Cons.IH [of "pos + length p"] by (auto simp: add.assoc)
qed simp

text \<open>Pieces no longer than the segment size are not divided further.\<close>

lemma chunks_of_chunks:
  assumes "0 < n" shows "concat (map (chunks n) (chunks n d)) = chunks n d"
proof -
  have "chunks n c = [c]" if "c \<in> set (chunks n d)" for c
    using chunks_bounds [OF that] assms by (simp add: chunks_step)
  then show ?thesis by (induction "chunks n d") (simp_all add: map_idI cong: map_cong)
qed

text \<open>A plan for data already divided at the policy's segment size, as the pipeline asks for.\<close>

lemma layout_synthesize_chunks:
  assumes "layout_synthesize E fresh pol capsules (chunks n data) = Ok plan" "n = default_segment_size (strategy (layout pol))"
    and "0 < n" "length data < 2 ^ 64"
  obtains zp where "plan = Some zp"
    "map (\<lambda>s. take (unat (sr_length s)) (drop (unat (sr_offset s)) data)) (plan_refs zp) = chunks n data"
    "\<forall>s\<in>set (plan_refs zp). unat (sr_offset s) + unat (sr_length s) \<le> length data"
proof -
  let ?strat = "strategy (layout pol)"
  have n: "0 < default_segment_size ?strat" using assms(2,3) by simp
  obtain bp where bp: "build_plan E fresh ?strat capsules (chunks n data) = Some bp"
    using build_plan_total [OF n] by blast
  obtain zp where zp: "plan = Some zp" "plan_refs zp = plan_refs bp"
  proof -
    have "\<exists>zp. plan = Some zp \<and> plan_refs zp = plan_refs bp"
      using assms(1) bp
      by (cases ?strat) (simp_all add: layout_synthesize_def layout_compile_def cpu_fixed_synthesize_def plan_refs_def, auto)
    then show ?thesis using that by blast
  qed
  have refs: "plan_refs zp = refs_from E (capsule_id_for fresh capsules) 0 (chunks n data)"
    using build_plan_refs [OF n bp] chunks_of_chunks [OF assms(3), of data] by (simp add: zp assms(2) [symmetric])
  have c: "concat (chunks n data) = data" by (rule concat_chunks [OF assms(3)])
  show ?thesis
    by (rule that [OF zp(1)])
      (use refs_from_read [of 0 "chunks n data" "[]" "[]" E "capsule_id_for fresh capsules"]
        refs_from_bounds [of 0 "chunks n data" _ E "capsule_id_for fresh capsules"] c assms(4) in \<open>auto simp: refs\<close>)
qed

text \<open>C9: A plan tiles the data: its segments, zone after zone, are the fixed-size pieces of the slices in
  order, at the offsets and with the lengths where they stand in the concatenated data, with the
  hash of the piece and the capsule planned for. Nothing is left out, repeated or reordered.\<close>

theorem plan_tiles_data:
  assumes "0 < default_segment_size strat" "length (concat slices) < 2 ^ 64"
    and "build_plan E fresh strat capsules slices = Some plan"
  shows "map (\<lambda>s. take (unat (sr_length s)) (drop (unat (sr_offset s)) (concat slices))) (plan_refs plan) =
      concat (map (chunks (default_segment_size strat)) slices) \<and>
    map sr_compressed_hash (plan_refs plan) = map (hash_chunk E) (concat (map (chunks (default_segment_size strat)) slices)) \<and>
    (\<forall>s\<in>set (plan_refs plan). sr_capsule_id s = capsule_id_for fresh capsules)"
proof -
  let ?ps = "concat (map (chunks (default_segment_size strat)) slices)"
  have refs: "plan_refs plan = refs_from E (capsule_id_for fresh capsules) 0 ?ps"
    by (rule build_plan_refs [OF assms(1,3)])
  have "concat ?ps = concat slices" by (rule concat_concat_chunks [OF assms(1)])
  then show ?thesis
    using refs_from_read [of 0 ?ps "[]" "[]" E "capsule_id_for fresh capsules"] assms(2) refs_from_hashes
    by (auto simp: refs)
qed

theorem plan_tiles_data_witness:
  "\<exists>plan. build_plan sample_ext (CapsuleId []) (Fixed 2) [CapsuleId [1]] [[1, 2, 3], [4]] = Some plan \<and>
     map (\<lambda>s. take (unat (sr_length s)) (drop (unat (sr_offset s)) [1, 2, 3, 4 :: u8])) (plan_refs plan) = [[1, 2], [3], [4]]"
proof -
  have "0 < default_segment_size (Fixed 2)" by simp
  obtain plan where p: "build_plan sample_ext (CapsuleId []) (Fixed 2) [CapsuleId [1]] [[1, 2, 3], [4]] = Some plan"
    using build_plan_total [OF \<open>0 < default_segment_size (Fixed 2)\<close>] by blast
  have "chunks 2 [1, 2, 3 :: u8] = [[1, 2], [3]]" "chunks 2 [4 :: u8] = [[4]]" by (simp_all add: chunks.simps)
  then show ?thesis
    using plan_tiles_data [OF \<open>0 < default_segment_size (Fixed 2)\<close> _ p] p by simp
qed

section \<open>Zones\<close>

definition zone_bytes :: "zone \<Rightarrow> nat" where
  "zone_bytes z = sum_list (map (\<lambda>s. unat (sr_length s)) (zone_segments z))"

definition full_zone :: "nat \<Rightarrow> zone \<Rightarrow> bool" where
  "full_zone n z \<longleftrightarrow> zone_segments z \<noteq> [] \<and> n \<le> zone_bytes z \<and> zone_bytes z < 2 * n"

definition building :: "nat \<Rightarrow> plan_state \<Rightarrow> bool" where
  "building n st \<longleftrightarrow>
     map zone_id (pb_zones st) = map of_nat [0..<length (pb_zones st)] \<and>
     map zone_iv_seed (pb_zones st) = map of_nat [0..<length (pb_zones st)] \<and>
     pb_zone_id st = of_nat (length (pb_zones st)) \<and>
     zone_id (pb_current st) = pb_zone_id st \<and> zone_iv_seed (pb_current st) = pb_zone_id st \<and>
     pb_usage st = zone_bytes (pb_current st) \<and> pb_usage st < n \<and> (\<forall>z\<in>set (pb_zones st). full_zone n z)"

lemma push_building:
  assumes "building n st" "unat (sr_length s) = k" "k \<le> n" "0 < n"
  shows "building n (push_segment n s k st)"
  using assms by (auto simp: building_def push_segment_def Let_def new_zone_def full_zone_def zone_bytes_def algebra_simps)

lemma slice_loop_building:
  assumes "0 < n" "length d < 2 ^ 64" "building n st" "slice_loop E c n d cursor start st = Some st'"
  shows "building n st'"
  using assms(3,4)
proof (induction "length d - start" arbitrary: start st rule: less_induct)
  case less
  show ?case
  proof (cases "start < length d")
    case True
    let ?k = "min (length d - start) n"
    let ?s = "segment_at E c (cursor + start) (take ?k (drop start d))"
    have run: "slice_loop E c n d cursor (start + ?k) (push_segment n ?s ?k st) = Some st'"
      using less.prems True by (subst (asm) slice_loop.simps) (simp add: Let_def)
    have "unat (sr_length ?s) = ?k"
      using assms(2) by (simp add: segment_at_def) (subst unat_of_nat_small; simp)
    then have "building n (push_segment n ?s ?k st)" using less.prems(1) assms(1) by (intro push_building) simp_all
    then show ?thesis by (rule less.hyps [OF _ _ run, rotated]) (use True assms(1) in auto)
  next
    case False
    then show ?thesis using less.prems by (subst (asm) slice_loop.simps) simp
  qed
qed

lemma slices_loop_building:
  assumes "0 < n" "\<forall>d\<in>set slices. length d < 2 ^ 64" "building n st" "slices_loop E c n slices cursor st = Some st'"
  shows "building n st'"
  using assms(2-4)
proof (induction slices arbitrary: cursor st)
  case (Cons d slices)
  obtain st1 where s: "slice_loop E c n d cursor 0 st = Some st1"
    "slices_loop E c n slices (cursor + length d) st1 = Some st'"
    using Cons.prems(3) by (auto split: option.splits)
  show ?case
    by (rule Cons.IH [OF _ slice_loop_building [OF assms(1) _ Cons.prems(2) s(1)] s(2)]) (use Cons.prems(1) in auto)
qed simp

text \<open>The zones of a plan are numbered from zero, each seeded with its number, none is empty, and every
  zone but the last holds at least one and less than two segment sizes of data.\<close>

theorem plan_zones_shape:
  assumes "0 < default_segment_size strat" "\<forall>d\<in>set slices. length d < 2 ^ 64"
    and "build_plan E fresh strat capsules slices = Some plan"
  shows "map zone_id (plan_zones plan) = map of_nat [0..<length (plan_zones plan)] \<and>
    map zone_iv_seed (plan_zones plan) = map zone_id (plan_zones plan) \<and>
    (\<forall>z\<in>set (plan_zones plan). zone_segments z \<noteq> []) \<and>
    (\<forall>z\<in>set (butlast (plan_zones plan)). full_zone (default_segment_size strat) z)"
proof -
  obtain st where st: "slices_loop E (capsule_id_for fresh capsules) (default_segment_size strat) slices 0 plan_start = Some st"
    "plan = plan_finish st" using assms(3) by (auto simp: build_plan_def)
  have "building (default_segment_size strat) plan_start"
    using assms(1) by (simp add: building_def plan_start_def new_zone_def zone_bytes_def)
  then have b: "building (default_segment_size strat) st"
    by (rule slices_loop_building [OF assms(1,2) _ st(1)])
  then show ?thesis
    by (auto simp: st(2) plan_finish_def building_def full_zone_def butlast_append dest: in_set_butlastD)
qed

theorem plan_zones_shape_witness:
  "\<exists>plan. build_plan sample_ext (CapsuleId []) (Fixed 2) [CapsuleId [1]] [[1, 2, 3], [4]] = Some plan \<and>
     map zone_iv_seed (plan_zones plan) = map zone_id (plan_zones plan)"
proof -
  have n: "0 < default_segment_size (Fixed 2)" by simp
  obtain plan where p: "build_plan sample_ext (CapsuleId []) (Fixed 2) [CapsuleId [1]] [[1, 2, 3], [4]] = Some plan"
    using build_plan_total [OF n] by blast
  show ?thesis using plan_zones_shape [OF n _ p] p by simp
qed

end
