(* ===== verification/Modular_Pipeline.thy ===== *)
theory Modular_Pipeline
  imports Storage_Backends Layout_Engine Compression Encryption Store
begin

text \<open>
  The modular pipeline of \<open>crates/pipeline/src/lib.rs\<close>, composed of the traits of
  \<open>crates/common/src/traits.rs\<close>: the encryptors and keyrings, the deduper of \<open>crates/dedup\<close>, the
  default policy evaluator, the in-memory catalog, and the pipeline's operations over any storage
  backend, catalog and encryptor. The compressor and the evaluator have one implementation each
  and are called directly. The encryptor and the keyring of a pipeline share one key manager, so
  they act on one state. The fresh capsule identifier and the clock are arguments.
\<close>

section \<open>Encryptors and keyrings\<close>

record encryption_summary =
  esm_algorithm :: string
  esm_key_version :: "u32 option"
  esm_encryption_version :: "u16 option"
  esm_mac :: "bytes option"
  esm_tweak_nonce :: "bytes option"
  esm_integrity_tag :: "bytes option"

definition new_encryption_summary :: "string \<Rightarrow> encryption_summary" where
  "new_encryption_summary algorithm = \<lparr>esm_algorithm = algorithm, esm_key_version = None, esm_encryption_version = None,
     esm_mac = None, esm_tweak_nonce = None, esm_integrity_tag = None\<rparr>"

record 'k encryptor_ops =
  enc_encrypt :: "bytes \<Rightarrow> encryption_policy \<Rightarrow> segment_id \<Rightarrow> ('k, bytes \<times> encryption_summary, error) op"
  enc_decrypt :: "bytes \<Rightarrow> encryption_policy \<Rightarrow> segment_id \<Rightarrow> 'k \<Rightarrow> (bytes, error) result"
  enc_compute_mac :: "bytes \<Rightarrow> segment_id \<Rightarrow> 'k \<Rightarrow> (bytes, error) result"
  enc_verify_mac :: "bytes \<Rightarrow> bytes \<Rightarrow> segment_id \<Rightarrow> 'k \<Rightarrow> (unit, error) result"

record 'k keyring_ops =
  kr_derive_key :: "capsule_id \<Rightarrow> segment_id \<Rightarrow> ('k, bytes, error) op"
  kr_rotate_key :: "capsule_id \<Rightarrow> ('k, unit, error) op"

definition noop_encryptor :: "unit encryptor_ops" where
  "noop_encryptor =
     \<lparr>enc_encrypt = (\<lambda>data pol sid. return_op (data, new_encryption_summary ''noop'')),
      enc_decrypt = (\<lambda>data pol sid k. Ok data), enc_compute_mac = (\<lambda>data sid k. Ok []),
      enc_verify_mac = (\<lambda>data mac sid k. Ok ())\<rparr>"

definition null_keyring :: "unit keyring_ops" where
  "null_keyring = \<lparr>kr_derive_key = (\<lambda>cid sid. return_op (replicate 32 0)), kr_rotate_key = (\<lambda>cid. return_op ())\<rparr>"

definition acquire_key :: "ext \<Rightarrow> u32 option \<Rightarrow> (key_manager, u32 \<times> xts_key_pair, error) op" where
  "acquire_key E requested km =
     (let key_version = (case requested of Some v \<Rightarrow> v | None \<Rightarrow> km_current_version km)
      in bind_op (map_err_op EncryptionFailed (get_key E key_version)) (\<lambda>key_pair.
           return_op (key_version, key_pair)) km)"

definition xts_encryptor_encrypt ::
  "ext \<Rightarrow> bytes \<Rightarrow> encryption_policy \<Rightarrow> segment_id \<Rightarrow> (key_manager, bytes \<times> encryption_summary, error) op" where
  "xts_encryptor_encrypt E data pol sid =
     (if \<not> is_enabled pol then return_op (data, new_encryption_summary ''none'')
      else
        bind_op (acquire_key E (key_version_of pol)) (\<lambda>(key_version, key_pair).
          let tweak = derive_tweak_from_hash (ext_blake3 E data)
          in bind_op (lift_result (map_result_err EncryptionFailed
                 (encrypt_segment E data key_pair key_version tweak))) (\<lambda>(ciphertext, metadata).
               let metadata = set_integrity_tag (compute_mac E ciphertext metadata (key1 key_pair) (key2 key_pair)) metadata
               in return_op (ciphertext,
                    \<lparr>esm_algorithm = ''xts-aes-256'', esm_key_version = em_key_version metadata,
                     esm_encryption_version = em_encryption_version metadata, esm_mac = em_integrity_tag metadata,
                     esm_tweak_nonce = em_tweak_nonce metadata, esm_integrity_tag = em_integrity_tag metadata\<rparr>))))"

definition xts_encryptor :: "ext \<Rightarrow> key_manager encryptor_ops" where
  "xts_encryptor E =
     \<lparr>enc_encrypt = xts_encryptor_encrypt E, enc_decrypt = (\<lambda>data pol sid km. Ok data),
      enc_compute_mac = (\<lambda>data sid km. Ok (ext_blake3 E data)), enc_verify_mac = (\<lambda>data mac sid km. Ok ())\<rparr>"

definition key_manager_keyring :: "ext \<Rightarrow> key_manager keyring_ops" where
  "key_manager_keyring E =
     \<lparr>kr_derive_key = (\<lambda>cid sid km.
        bind_op (map_err_op EncryptionFailed (get_key E (km_current_version km))) (\<lambda>key_pair. return_op (key1 key_pair)) km),
      kr_rotate_key = (\<lambda>cid. bind_op (map_err_op EncryptionFailed (rotate_key E)) (\<lambda>_. return_op ()))\<rparr>"

section \<open>Deduper and evaluator\<close>

record blake3_deduper =
  bd_index :: "(content_hash, segment_id) hmap"
  bd_stats :: dedup_stats

definition new_deduper :: blake3_deduper where
  "new_deduper = \<lparr>bd_index = [], bd_stats = new_stats\<rparr>"

definition bd_check_dedup :: "content_hash \<Rightarrow> blake3_deduper \<Rightarrow> segment_id option" where
  "bd_check_dedup h d = hm_get (bd_index d) h"

definition bd_register_content :: "content_hash \<Rightarrow> segment_id \<Rightarrow> blake3_deduper \<Rightarrow> blake3_deduper" where
  "bd_register_content h sid d = d\<lparr>bd_index := hm_insert h sid (bd_index d)\<rparr>"

definition bd_update_stats :: "u64 \<Rightarrow> bool \<Rightarrow> blake3_deduper \<Rightarrow> blake3_deduper" where
  "bd_update_stats n was_deduped d = d\<lparr>bd_stats := add_segment_stats n was_deduped (bd_stats d)\<rparr>"

record replication_strategy =
  rs_synchronous :: bool
  rs_targets :: "string list"

definition evaluate_compression :: "policy \<Rightarrow> bytes \<Rightarrow> (compression_policy, error) result" where
  "evaluate_compression pol sample = Ok (compression pol)"

definition evaluate_dedup :: "policy \<Rightarrow> (bool, error) result" where
  "evaluate_dedup pol = Ok (dedupe pol)"

definition evaluate_encryption :: "policy \<Rightarrow> (encryption_policy, error) result" where
  "evaluate_encryption pol = Ok (encryption pol)"

definition evaluate_replication :: "policy \<Rightarrow> (replication_strategy, error) result" where
  "evaluate_replication pol = Ok \<lparr>rs_synchronous = False, rs_targets = []\<rparr>"

section \<open>The in-memory catalog\<close>

record in_memory_catalog =
  mc_next_segment :: u64
  mc_capsules :: "(capsule_id, capsule) hmap"
  mc_content :: "(content_hash, segment_id) hmap"

definition mc_new :: in_memory_catalog where
  "mc_new = \<lparr>mc_next_segment = 0, mc_capsules = [], mc_content = []\<rparr>"

definition mc_allocate_segment :: "(in_memory_catalog, segment_id, error) op" where
  "mc_allocate_segment c =
     (Ok (SegmentId (mc_next_segment c)), c\<lparr>mc_next_segment := mc_next_segment c + 1\<rparr>)"

definition mc_lookup_capsule :: "capsule_id \<Rightarrow> in_memory_catalog \<Rightarrow> (capsule, error) result" where
  "mc_lookup_capsule cid c = ok_or (hm_get (mc_capsules c) cid) CapsuleNotFound"

definition mc_create_capsule ::
  "u64 option \<Rightarrow> capsule_id \<Rightarrow> u64 \<Rightarrow> policy \<Rightarrow> segment_id list \<Rightarrow> dedup_stats \<Rightarrow> (in_memory_catalog, unit, error) op" where
  "mc_create_capsule now cid sz pol segments stats c =
     (case now of
        None \<Rightarrow> (Err ClockError, c)
      | Some t \<Rightarrow>
          (Ok (), c\<lparr>mc_capsules := hm_insert cid
             \<lparr>cap_id = cid, cap_size = sz, cap_segments = segments, cap_created_at = t, cap_policy = pol,
              cap_deduped_bytes = bytes_saved stats\<rparr> (mc_capsules c)\<rparr>))"

definition mc_delete_capsule :: "capsule_id \<Rightarrow> (in_memory_catalog, capsule, error) op" where
  "mc_delete_capsule cid c =
     (ok_or (hm_get (mc_capsules c) cid) CapsuleNotFound, c\<lparr>mc_capsules := hm_remove cid (mc_capsules c)\<rparr>)"

definition mc_register_content :: "content_hash \<Rightarrow> segment_id \<Rightarrow> (in_memory_catalog, unit, error) op" where
  "mc_register_content h sid c = (Ok (), c\<lparr>mc_content := hm_insert h sid (mc_content c)\<rparr>)"

definition mc_deregister_content :: "content_hash \<Rightarrow> segment_id \<Rightarrow> (in_memory_catalog, bool, error) op" where
  "mc_deregister_content h sid c =
     (case hm_get (mc_content c) h of
        Some existing \<Rightarrow>
          if existing = sid then (Ok True, c\<lparr>mc_content := hm_remove h (mc_content c)\<rparr>) else (Ok False, c)
      | None \<Rightarrow> (Ok False, c))"

definition memory_catalog :: "in_memory_catalog catalog_ops" where
  "memory_catalog =
     \<lparr>cat_allocate_segment = mc_allocate_segment, cat_lookup_capsule = mc_lookup_capsule,
      cat_create_capsule = mc_create_capsule, cat_delete_capsule = mc_delete_capsule,
      cat_lookup_content = (\<lambda>h c. hm_get (mc_content c) h), cat_register_content = mc_register_content,
      cat_deregister_content = mc_deregister_content, cat_capsules = (\<lambda>c. hm_values (mc_capsules c)),
      cat_content_entries = mc_content\<rparr>"

section \<open>The pipeline\<close>

record ('k, 's, 'r) pipeline =
  pl_deduper :: blake3_deduper
  pl_keys :: 'k
  pl_has_keyring :: bool
  pl_storage :: 's
  pl_stats :: dedup_stats
  pl_catalog :: 'r

text \<open>The implementations a pipeline is composed of.\<close>

record ('k, 's, 't, 'r) pipeline_ops =
  pi_encryptor :: "'k encryptor_ops"
  pi_keyring :: "'k keyring_ops"
  pi_storage :: "('s, 't) storage_ops"
  pi_catalog :: "'r catalog_ops"

type_synonym ('k, 's, 'r, 'a) pl_op = "(('k, 's, 'r) pipeline, 'a, error) op"

definition pipeline_new :: "'k \<Rightarrow> 's \<Rightarrow> bool \<Rightarrow> 'r \<Rightarrow> ('k, 's, 'r) pipeline" where
  "pipeline_new keys storage keyring catalog =
     \<lparr>pl_deduper = new_deduper, pl_keys = keys, pl_has_keyring = keyring, pl_storage = storage,
      pl_stats = new_stats, pl_catalog = catalog\<rparr>"

definition on_keys :: "('k, 'a, error) op \<Rightarrow> ('k, 's, 'r, 'a) pl_op" where
  "on_keys m = zoom pl_keys (\<lambda>k p. p\<lparr>pl_keys := k\<rparr>) m"

definition on_catalog :: "('r, 'a, error) op \<Rightarrow> ('k, 's, 'r, 'a) pl_op" where
  "on_catalog m = zoom pl_catalog (\<lambda>c p. p\<lparr>pl_catalog := c\<rparr>) m"

definition on_storage :: "('s, 'a, error) op \<Rightarrow> ('k, 's, 'r, 'a) pl_op" where
  "on_storage m = zoom pl_storage (\<lambda>s p. p\<lparr>pl_storage := s\<rparr>) m"

definition on_txn :: "('s \<times> 't, 'a, error) op \<Rightarrow> (('k, 's, 'r) pipeline \<times> 't, 'a, error) op" where
  "on_txn m = zoom (\<lambda>(p, t). (pl_storage p, t)) (\<lambda>(s, t) (p, _). (p\<lparr>pl_storage := s\<rparr>, t)) m"

definition beside_txn :: "('k, 's, 'r, 'a) pl_op \<Rightarrow> (('k, 's, 'r) pipeline \<times> 't, 'a, error) op" where
  "beside_txn m = zoom fst (\<lambda>p (_, t). (p, t)) m"

text \<open>A transaction from \<open>begin_txn\<close> to \<open>commit\<close>; an error in between drops it.\<close>

definition txn_session ::
  "('s, 't) storage_ops \<Rightarrow> (('k, 's, 'r) pipeline \<times> 't, 'a, error) op \<Rightarrow> ('k, 's, 'r, 'a) pl_op" where
  "txn_session ops body p =
     (case sto_begin_txn ops (pl_storage p) of
        Err e \<Rightarrow> (Err e, p)
      | Ok t \<Rightarrow>
          (case body (p, t) of
             (Err e, (p, t)) \<Rightarrow> (Err e, p\<lparr>pl_storage := sto_drop ops (pl_storage p, t)\<rparr>)
           | (Ok x, (p, t)) \<Rightarrow>
               (case txn_commit ops (pl_storage p, t) of
                  (Err e, s) \<Rightarrow> (Err e, p\<lparr>pl_storage := s\<rparr>)
                | (Ok _, s) \<Rightarrow> (Ok x, p\<lparr>pl_storage := s\<rparr>))))"

section \<open>Writing\<close>

text \<open>The three sets of statistics updated for every segment.\<close>

definition count_segment :: "compression_summary \<Rightarrow> bool \<Rightarrow> ('k, 's, 'r) pipeline \<Rightarrow> ('k, 's, 'r) pipeline" where
  "count_segment summary was_deduped p =
     p\<lparr>pl_deduper := bd_update_stats (of_nat (cs_output_size summary)) was_deduped (pl_deduper p),
       pl_stats := record_segment (of_nat (cs_output_size summary)) was_deduped (pl_stats p)\<rparr>"

text \<open>\<open>ref_count += 1\<close> wraps in a release build.\<close>

definition share_segment ::
  "('k, 's, 't, 'r) pipeline_ops \<Rightarrow> segment_id \<Rightarrow> compression_summary \<Rightarrow> ('k, 's, 'r, segment_id) pl_op" where
  "share_segment P existing summary p =
     bind_op (lift_result (sto_metadata (pi_storage P) existing (pl_storage p))) (\<lambda>metadata.
       let rc = seg_ref_count metadata + 1;
           metadata = metadata\<lparr>seg_ref_count := rc, seg_deduplicated := rc > 1\<rparr>
       in bind_op (txn_session (pi_storage P) (on_txn (txn_set_segment_metadata (pi_storage P) existing metadata)))
            (\<lambda>_ p. (Ok existing, count_segment summary True p))) p"

definition encrypt_payload ::
  "('k, 's, 't, 'r) pipeline_ops \<Rightarrow> encryption_policy \<Rightarrow> capsule_id \<Rightarrow> segment_id \<Rightarrow> bytes \<Rightarrow>
   ('k, 's, 'r, bytes \<times> encryption_summary) pl_op" where
  "encrypt_payload P enc_policy cid sid view p =
     (if is_enabled enc_policy then
        bind_op (if pl_has_keyring p
                 then bind_op (on_keys (kr_derive_key (pi_keyring P) cid sid)) (\<lambda>_. return_op ())
                 else return_op ())
          (\<lambda>_. on_keys (enc_encrypt (pi_encryptor P) view enc_policy sid)) p
      else (Ok (view, new_encryption_summary ''none''), p))"

definition new_metadata ::
  "segment_id \<Rightarrow> bytes \<Rightarrow> compression_summary \<Rightarrow> content_hash \<Rightarrow> encryption_summary \<Rightarrow> encryption_policy \<Rightarrow> segment" where
  "new_metadata sid payload summary h es enc_policy =
     \<lparr>seg_id = sid, seg_offset = 0, seg_len = of_nat (length payload), seg_compressed = cs_compressed summary,
      seg_compression_algo = cs_algorithm summary, seg_content_hash = Some h, seg_ref_count = 1,
      seg_deduplicated = False, seg_access_count = 0, seg_encryption_version = esm_encryption_version es,
      seg_key_version = esm_key_version es, seg_tweak_nonce = esm_tweak_nonce es,
      seg_integrity_tag = esm_integrity_tag es, seg_encrypted = is_enabled enc_policy,
      seg_pq_ciphertext = None, seg_pq_nonce = None\<rparr>"

definition store_segment ::
  "('k, 's, 't, 'r) pipeline_ops \<Rightarrow> encryption_policy \<Rightarrow> capsule_id \<Rightarrow> bytes \<Rightarrow> compression_summary \<Rightarrow> content_hash \<Rightarrow>
   ('k, 's, 'r, segment_id) pl_op" where
  "store_segment P enc_policy cid view summary h =
     bind_op
       (txn_session (pi_storage P)
          (bind_op (beside_txn (on_catalog (cat_allocate_segment (pi_catalog P)))) (\<lambda>sid.
           bind_op (beside_txn (encrypt_payload P enc_policy cid sid view)) (\<lambda>(payload, es).
           bind_op (on_txn (txn_append (pi_storage P) sid payload)) (\<lambda>_.
           bind_op (on_txn (txn_set_segment_metadata (pi_storage P) sid
                       (new_metadata sid payload summary h es enc_policy))) (\<lambda>_. return_op sid))))))
       (\<lambda>sid. bind_op (on_catalog (cat_register_content (pi_catalog P) h sid)) (\<lambda>_ p.
          (Ok sid, count_segment summary False (p\<lparr>pl_deduper := bd_register_content h sid (pl_deduper p)\<rparr>))))"

text \<open>One segment of the plan: a slice of the data, with an error when the plan leaves the data.\<close>

definition write_planned ::
  "ext \<Rightarrow> ('k, 's, 't, 'r) pipeline_ops \<Rightarrow> compression_policy \<Rightarrow> encryption_policy \<Rightarrow> capsule_id \<Rightarrow> bytes \<Rightarrow>
   segment_ref \<Rightarrow> dedup_stats \<Rightarrow> ('k, 's, 'r, segment_id \<times> dedup_stats) pl_op" where
  "write_planned E P comp_policy enc_policy cid data seg stats =
     (let start = unat (sr_offset seg); end_pos = min (start + unat (sr_length seg)) (2 ^ 64 - 1)
      in if end_pos > length data then fail_op (PlanBeyondData end_pos (length data))
         else
           bind_op (lift_result (map_result_err CompressionFailed
               (lzc_compress E (take (end_pos - start) (drop start data)) comp_policy))) (\<lambda>(view, summary) p.
             let h = hash_content E view
             in case cat_lookup_content (pi_catalog P) h (pl_catalog p) of
                  Some existing \<Rightarrow>
                    bind_op (share_segment P existing summary) (\<lambda>sid.
                      return_op (sid, record_segment (of_nat (cs_output_size summary)) True stats)) p
                | None \<Rightarrow>
                    bind_op (store_segment P enc_policy cid view summary h) (\<lambda>sid.
                      return_op (sid, record_segment (of_nat (cs_output_size summary)) False stats)) p))"

fun write_segments ::
  "ext \<Rightarrow> ('k, 's, 't, 'r) pipeline_ops \<Rightarrow> compression_policy \<Rightarrow> encryption_policy \<Rightarrow> capsule_id \<Rightarrow> bytes \<Rightarrow>
   segment_ref list \<Rightarrow> segment_id list \<Rightarrow> dedup_stats \<Rightarrow> ('k, 's, 'r, segment_id list \<times> dedup_stats) pl_op" where
  "write_segments E P cp ep cid data [] segment_ids stats p = (Ok (segment_ids, stats), p)"
| "write_segments E P cp ep cid data (seg # segs) segment_ids stats p =
     (case write_planned E P cp ep cid data seg stats p of
        (Err e, p) \<Rightarrow> (Err e, p)
      | (Ok (sid, stats), p) \<Rightarrow> write_segments E P cp ep cid data segs (segment_ids @ [sid]) stats p)"

text \<open>
  \<open>data.chunks(0)\<close> panics before the layout engine is asked, so that planning always returns;
  the nested loops over zones and their segments visit \<open>plan_refs\<close> in order.
\<close>

definition pipeline_write_capsule ::
  "ext \<Rightarrow> ('k, 's, 't, 'r) pipeline_ops \<Rightarrow> u64 option \<Rightarrow> capsule_id \<Rightarrow> bytes \<Rightarrow> policy \<Rightarrow> ('k, 's, 'r, capsule_id) pl_op" where
  "pipeline_write_capsule E P now capsule_id data pol =
     bind_op (lift_result (evaluate_compression pol (take 1024 data))) (\<lambda>compression_policy.
       let chunk_size = default_segment_size (strategy (layout pol))
       in if chunk_size = 0 then fail_op Panic
          else
            bind_op (lift_result (layout_synthesize E capsule_id pol [capsule_id] (chunks chunk_size data))) (\<lambda>plan.
            bind_op (lift_result (ok_or plan Panic)) (\<lambda>zone_plan.
            bind_op (lift_result (evaluate_encryption pol)) (\<lambda>enc_policy.
            bind_op (write_segments E P compression_policy enc_policy capsule_id data (plan_refs zone_plan) [] new_stats)
              (\<lambda>(segment_ids, dedup_stats).
            bind_op (on_catalog (cat_create_capsule (pi_catalog P) now capsule_id (of_nat (length data)) pol
                segment_ids dedup_stats)) (\<lambda>_. return_op capsule_id))))))"

section \<open>Reading, deleting and collecting\<close>

definition pipeline_read_segment ::
  "ext \<Rightarrow> ('k, 's, 't, 'r) pipeline_ops \<Rightarrow> encryption_policy \<Rightarrow> segment_id \<Rightarrow> ('k, 's, 'r) pipeline \<Rightarrow> (bytes, error) result" where
  "pipeline_read_segment E P enc_policy sid p =
     bind_result (sto_metadata (pi_storage P) sid (pl_storage p)) (\<lambda>metadata.
     bind_result (sto_read (pi_storage P) sid (pl_storage p)) (\<lambda>raw.
     bind_result (if seg_encrypted metadata then enc_decrypt (pi_encryptor P) raw enc_policy sid (pl_keys p) else Ok raw)
       (\<lambda>decrypted.
          if seg_compressed metadata
          then map_result_err CompressionFailed (lzc_decompress E decrypted (seg_compression_algo metadata))
          else Ok decrypted)))"

fun pipeline_read_loop ::
  "ext \<Rightarrow> ('k, 's, 't, 'r) pipeline_ops \<Rightarrow> encryption_policy \<Rightarrow> segment_id list \<Rightarrow> bytes \<Rightarrow>
   ('k, 's, 'r) pipeline \<Rightarrow> (bytes, error) result" where
  "pipeline_read_loop E P ep [] output p = Ok output"
| "pipeline_read_loop E P ep (sid # sids) output p =
     bind_result (pipeline_read_segment E P ep sid p) (\<lambda>d. pipeline_read_loop E P ep sids (output @ d) p)"

definition pipeline_read_capsule ::
  "ext \<Rightarrow> ('k, 's, 't, 'r) pipeline_ops \<Rightarrow> capsule_id \<Rightarrow> ('k, 's, 'r) pipeline \<Rightarrow> (bytes, error) result" where
  "pipeline_read_capsule E P cid p =
     bind_result (cat_lookup_capsule (pi_catalog P) cid (pl_catalog p)) (\<lambda>capsule.
       pipeline_read_loop E P (encryption (cap_policy capsule)) (cap_segments capsule) [] p)"

definition pipeline_release_segment ::
  "('k, 's, 't, 'r) pipeline_ops \<Rightarrow> segment_id \<Rightarrow> ('k, 's, 'r, unit) pl_op" where
  "pipeline_release_segment P sid p =
     bind_op (lift_result (sto_metadata (pi_storage P) sid (pl_storage p))) (\<lambda>metadata.
       if seg_ref_count metadata > 1 then
         (let rc = seg_ref_count metadata - 1;
              updated = metadata\<lparr>seg_ref_count := rc, seg_deduplicated := rc > 1\<rparr>
          in txn_session (pi_storage P) (on_txn (txn_set_segment_metadata (pi_storage P) sid updated)))
       else
         bind_op (on_storage (sto_delete (pi_storage P) sid)) (\<lambda>_.
           case seg_content_hash metadata of
             Some h \<Rightarrow> bind_op (on_catalog (cat_deregister_content (pi_catalog P) h sid)) (\<lambda>_. return_op ())
           | None \<Rightarrow> return_op ())) p"

definition pipeline_delete_capsule ::
  "('k, 's, 't, 'r) pipeline_ops \<Rightarrow> capsule_id \<Rightarrow> ('k, 's, 'r, unit) pl_op" where
  "pipeline_delete_capsule P cid p =
     bind_op (lift_result (cat_lookup_capsule (pi_catalog P) cid (pl_catalog p))) (\<lambda>capsule.
     bind_op (for_each (pipeline_release_segment P) (cap_segments capsule)) (\<lambda>_.
     bind_op (on_catalog (cat_delete_capsule (pi_catalog P) cid)) (\<lambda>_. return_op ()))) p"

text \<open>Collecting into a map from segments to hashes keeps the last hash of a segment.\<close>

definition invert_content :: "(content_hash \<times> segment_id) list \<Rightarrow> (segment_id, content_hash) hmap" where
  "invert_content entries = fold (\<lambda>(h, sid) m. hm_insert sid h m) entries []"

fun collect_loop ::
  "('k, 's, 't, 'r) pipeline_ops \<Rightarrow> segment_id set \<Rightarrow> (segment_id, content_hash) hmap \<Rightarrow> segment_id list \<Rightarrow> nat \<Rightarrow>
   (('k, 's, 'r) pipeline \<times> 't, nat, error) op" where
  "collect_loop P referenced content_map [] reclaimed s = (Ok reclaimed, s)"
| "collect_loop P referenced content_map (sid # sids) reclaimed s =
     (case sto_metadata (pi_storage P) sid (pl_storage (fst s)) of
        Err _ \<Rightarrow> collect_loop P referenced content_map sids reclaimed s
      | Ok metadata \<Rightarrow>
          if sid \<in> referenced \<and> seg_ref_count metadata > 0
          then collect_loop P referenced content_map sids reclaimed s
          else
            bind_op (on_txn (txn_delete (pi_storage P) sid)) (\<lambda>_.
            bind_op (case hm_get content_map sid of
                       Some h \<Rightarrow> beside_txn (bind_op (on_catalog (cat_deregister_content (pi_catalog P) h sid)) (\<lambda>_. return_op ()))
                     | None \<Rightarrow> return_op ())
              (\<lambda>_. collect_loop P referenced content_map sids (reclaimed + 1))) s)"

definition pipeline_garbage_collect :: "('k, 's, 't, 'r) pipeline_ops \<Rightarrow> ('k, 's, 'r, nat) pl_op" where
  "pipeline_garbage_collect P p =
     (let referenced = set (concat (map cap_segments (cat_capsules (pi_catalog P) (pl_catalog p))));
          content_map = invert_content (cat_content_entries (pi_catalog P) (pl_catalog p))
      in bind_op (lift_result (sto_segment_ids (pi_storage P) (pl_storage p))) (\<lambda>orphan_segments.
           txn_session (pi_storage P) (collect_loop P referenced content_map orphan_segments 0)) p)"

section \<open>The pipelines the crates build\<close>

definition in_memory_pipeline :: "(unit, in_memory_backend, in_memory_transaction, in_memory_catalog) pipeline_ops" where
  "in_memory_pipeline = \<lparr>pi_encryptor = noop_encryptor, pi_keyring = null_keyring, pi_storage = in_memory_ops,
     pi_catalog = memory_catalog\<rparr>"

definition nvram_pipeline :: "(unit, nvram_log, nvram_storage_transaction, in_memory_catalog) pipeline_ops" where
  "nvram_pipeline = \<lparr>pi_encryptor = noop_encryptor, pi_keyring = null_keyring, pi_storage = nvram_ops,
     pi_catalog = memory_catalog\<rparr>"

definition nvram_xts_pipeline ::
  "ext \<Rightarrow> (key_manager, nvram_log, nvram_storage_transaction, in_memory_catalog) pipeline_ops" where
  "nvram_xts_pipeline E = \<lparr>pi_encryptor = xts_encryptor E, pi_keyring = key_manager_keyring E, pi_storage = nvram_ops,
     pi_catalog = memory_catalog\<rparr>"

definition registry_plain_pipeline :: "(unit, nvram_log, nvram_storage_transaction, registry) pipeline_ops" where
  "registry_plain_pipeline = \<lparr>pi_encryptor = noop_encryptor, pi_keyring = null_keyring, pi_storage = nvram_ops,
     pi_catalog = registry_catalog\<rparr>"

definition registry_encrypted_pipeline ::
  "ext \<Rightarrow> (key_manager, nvram_log, nvram_storage_transaction, registry) pipeline_ops" where
  "registry_encrypted_pipeline E = \<lparr>pi_encryptor = xts_encryptor E, pi_keyring = key_manager_keyring E,
     pi_storage = nvram_ops, pi_catalog = registry_catalog\<rparr>"

definition pipeline_with_nvram :: "nvram_log \<Rightarrow> (unit, nvram_log, in_memory_catalog) pipeline" where
  "pipeline_with_nvram storage = pipeline_new () storage False mc_new"

definition pipeline_with_nvram_xts :: "nvram_log \<Rightarrow> key_manager \<Rightarrow> (key_manager, nvram_log, in_memory_catalog) pipeline" where
  "pipeline_with_nvram_xts storage km = pipeline_new km storage True mc_new"

text \<open>\<open>registry_pipeline_from_backend\<close>: encrypted when the environment provides a key manager.\<close>

datatype registry_pipeline_handle =
    Encrypted "(key_manager, nvram_log, registry) pipeline"
  | Plain "(unit, nvram_log, registry) pipeline"

definition registry_pipeline_from_backend ::
  "nvram_log \<Rightarrow> registry \<Rightarrow> (key_manager, encryption_error) result \<Rightarrow> registry_pipeline_handle" where
  "registry_pipeline_from_backend storage rg env =
     (case env of
        Ok km \<Rightarrow> Encrypted (pipeline_new km storage True rg)
      | Err _ \<Rightarrow> Plain (pipeline_new () storage False rg))"

fun on_handle ::
  "((key_manager, nvram_log, registry, 'a) pl_op) \<Rightarrow> ((unit, nvram_log, registry, 'a) pl_op) \<Rightarrow>
   (registry_pipeline_handle, 'a, error) op" where
  "on_handle me mp (Encrypted p) = (case me p of (r, p) \<Rightarrow> (r, Encrypted p))"
| "on_handle me mp (Plain p) = (case mp p of (r, p) \<Rightarrow> (r, Plain p))"

definition handle_write_capsule ::
  "ext \<Rightarrow> u64 option \<Rightarrow> capsule_id \<Rightarrow> bytes \<Rightarrow> policy \<Rightarrow> (registry_pipeline_handle, capsule_id, error) op" where
  "handle_write_capsule E now cid data pol =
     on_handle (pipeline_write_capsule E (registry_encrypted_pipeline E) now cid data pol)
       (pipeline_write_capsule E registry_plain_pipeline now cid data pol)"

fun handle_read_capsule :: "ext \<Rightarrow> capsule_id \<Rightarrow> registry_pipeline_handle \<Rightarrow> (bytes, error) result" where
  "handle_read_capsule E cid (Encrypted p) = pipeline_read_capsule E (registry_encrypted_pipeline E) cid p"
| "handle_read_capsule E cid (Plain p) = pipeline_read_capsule E registry_plain_pipeline cid p"

definition handle_delete_capsule :: "ext \<Rightarrow> capsule_id \<Rightarrow> (registry_pipeline_handle, unit, error) op" where
  "handle_delete_capsule E cid =
     on_handle (pipeline_delete_capsule (registry_encrypted_pipeline E) cid)
       (pipeline_delete_capsule registry_plain_pipeline cid)"

definition handle_garbage_collect :: "ext \<Rightarrow> (registry_pipeline_handle, nat, error) op" where
  "handle_garbage_collect E =
     on_handle (pipeline_garbage_collect (registry_encrypted_pipeline E)) (pipeline_garbage_collect registry_plain_pipeline)"

end
