(* ===== verification/Modular_Correct.thy ===== *)
theory Modular_Correct
  imports Modular_Pipeline
begin

text \<open>
  Correctness of the modular pipeline over any atomic storage backend, any catalog and any
  encryptor that restores what it encrypted: what a write stores is read back, the other
  capsules are left alone, deletion frees exactly the segments nothing refers to, and
  collection removes exactly the unreferenced ones. The contracts are locales; the
  pipeline over memory is their instance.
\<close>

section \<open>The providers\<close>

text \<open>Decryption gets no metadata: it can depend on the key state or on nothing.\<close>

locale encryptor =
  fixes ops :: "'k encryptor_ops"
  assumes decrypt_stateless: "enc_decrypt ops c pol sid k = enc_decrypt ops c pol' sid k'"

locale transparent_encryptor = encryptor +
  assumes restore: "enc_encrypt ops d pol sid k = (Ok (c, s), k') \<Longrightarrow> enc_decrypt ops c pol sid k' = Ok d"
begin

text \<open>Whatever policy a reader has and whatever the keys became.\<close>

lemma restored: "enc_encrypt ops d pol sid k = (Ok (c, s), k') \<Longrightarrow> enc_decrypt ops c pol'' sid k'' = Ok d"
  using restore decrypt_stateless by metis

end

interpretation noop: transparent_encryptor noop_encryptor
  by unfold_locales (auto simp: noop_encryptor_def op_simps)

interpretation xts: encryptor "xts_encryptor E" for E
  by unfold_locales (simp add: xts_encryptor_def)

interpretation mc: capsule_catalog memory_catalog mc_capsules mc_content mc_next_segment
  by unfold_locales
    (auto simp: memory_catalog_def mc_allocate_segment_def mc_lookup_capsule_def mc_create_capsule_def
      mc_delete_capsule_def mc_register_content_def mc_deregister_content_def ok_or_def split: option.splits if_splits)

text \<open>What was left uncompressed is the data itself.\<close>

lemma lzc_uncompressed: "lzc_compress E d p = Ok (v, s) \<Longrightarrow> \<not> cs_compressed s \<Longrightarrow> v = d"
  by (erule lzc_compress_Ok) (auto elim: adaptive_compress_cases)

section \<open>The invariant\<close>

text \<open>The plaintext, still compressed, that a stored segment holds.\<close>

definition stored_view ::
  "('k, 's, 't, 'r) pipeline_ops \<Rightarrow> ('k, 's, 'r) pipeline \<Rightarrow> segment_id \<Rightarrow> segment \<Rightarrow> bytes \<Rightarrow> bool" where
  "stored_view P p k m v \<longleftrightarrow>
     (\<exists>raw. sto_read (pi_storage P) k (pl_storage p) = Ok raw \<and>
        (if seg_encrypted m then \<forall>pol ks. enc_decrypt (pi_encryptor P) raw pol k ks = Ok v else raw = v))"

definition unpack :: "ext \<Rightarrow> segment \<Rightarrow> bytes \<Rightarrow> (bytes, error) result" where
  "unpack E m v =
     (if seg_compressed m then map_result_err CompressionFailed (lzc_decompress E v (seg_compression_algo m)) else Ok v)"

definition modular_inv ::
  "ext \<Rightarrow> ('k, 's, 't, 'r) pipeline_ops \<Rightarrow> ('s \<Rightarrow> (segment_id, segment) hmap) \<Rightarrow> ('r \<Rightarrow> (capsule_id, capsule) hmap) \<Rightarrow>
   ('r \<Rightarrow> (content_hash, segment_id) hmap) \<Rightarrow> ('r \<Rightarrow> u64) \<Rightarrow> segment_id list \<Rightarrow> ('k, 's, 'r) pipeline \<Rightarrow> bool" where
  "modular_inv E P metas caps content next_id extra p \<longleftrightarrow>
     hm_ok (caps (pl_catalog p)) \<and>
     (\<forall>k m. hm_get (metas (pl_storage p)) k = Some m \<longrightarrow> unat (seg_num k) < unat (next_id (pl_catalog p))) \<and>
     (\<forall>h k. hm_get (content (pl_catalog p)) h = Some k \<longrightarrow>
        (\<exists>m v. hm_get (metas (pl_storage p)) k = Some m \<and> seg_content_hash m = Some h \<and>
           stored_view P p k m v \<and> hash_content E v = h)) \<and>
     (\<forall>k. refs (caps (pl_catalog p)) extra k \<le>
        (case hm_get (metas (pl_storage p)) k of Some m \<Rightarrow> unat (seg_ref_count m) | None \<Rightarrow> 0)) \<and>
     hm_ok (content (pl_catalog p))"

text \<open>Every segment keeps its data and how to decode it.\<close>

definition segments_kept ::
  "('k, 's, 't, 'r) pipeline_ops \<Rightarrow> ('s \<Rightarrow> (segment_id, segment) hmap) \<Rightarrow> 's \<Rightarrow> 's \<Rightarrow> segment_id \<Rightarrow> bool" where
  "segments_kept P metas s s' k \<longleftrightarrow>
     (\<forall>m. hm_get (metas s) k = Some m \<longrightarrow>
        (\<exists>m'. hm_get (metas s') k = Some m' \<and> seg_encrypted m' = seg_encrypted m \<and>
           seg_compressed m' = seg_compressed m \<and> seg_compression_algo m' = seg_compression_algo m) \<and>
        sto_read (pi_storage P) k s' = sto_read (pi_storage P) k s)"

text \<open>The views of the chunks to be written, and what it takes for sharing them to be harmless.\<close>

definition views_of :: "ext \<Rightarrow> compression_policy \<Rightarrow> bytes list \<Rightarrow> bytes set" where
  "views_of E cp cs = {v. \<exists>c\<in>set cs. \<exists>s. lzc_compress E c cp = Ok (v, s)}"

definition stored_views :: "('k, 's, 't, 'r) pipeline_ops \<Rightarrow> ('s \<Rightarrow> (segment_id, segment) hmap) \<Rightarrow> ('k, 's, 'r) pipeline \<Rightarrow> bytes set" where
  "stored_views P metas p = {v. \<exists>k m. hm_get (metas (pl_storage p)) k = Some m \<and> stored_view P p k m v}"

text \<open>A stored segment whose view is that of a chunk unpacks to the chunk.\<close>

definition coherent ::
  "ext \<Rightarrow> ('k, 's, 't, 'r) pipeline_ops \<Rightarrow> ('s \<Rightarrow> (segment_id, segment) hmap) \<Rightarrow> compression_policy \<Rightarrow> bytes list \<Rightarrow>
   ('k, 's, 'r) pipeline \<Rightarrow> bool" where
  "coherent E P metas cp cs p \<longleftrightarrow>
     (\<forall>c\<in>set cs. \<forall>v s k m. lzc_compress E c cp = Ok (v, s) \<longrightarrow> hm_get (metas (pl_storage p)) k = Some m \<longrightarrow>
        stored_view P p k m v \<longrightarrow> unpack E m v = Ok c)"

definition distinct_views :: "ext \<Rightarrow> compression_policy \<Rightarrow> bytes list \<Rightarrow> bool" where
  "distinct_views E cp cs \<longleftrightarrow>
     (\<forall>c\<in>set cs. \<forall>c'\<in>set cs. \<forall>v s s'. lzc_compress E c cp = Ok (v, s) \<longrightarrow> lzc_compress E c' cp = Ok (v, s') \<longrightarrow> c = c')"

text \<open>Room for \<open>n\<close> more segments: identifiers, and reference counts of 32 bits.\<close>

definition modular_room ::
  "('s \<Rightarrow> (segment_id, segment) hmap) \<Rightarrow> ('r \<Rightarrow> u64) \<Rightarrow> nat \<Rightarrow> ('k, 's, 'r) pipeline \<Rightarrow> bool" where
  "modular_room metas next_id n p \<longleftrightarrow>
     n + 1 < 2 ^ 32 \<and> unat (next_id (pl_catalog p)) + n < 2 ^ 64 \<and>
     (\<forall>k m. hm_get (metas (pl_storage p)) k = Some m \<longrightarrow> unat (seg_ref_count m) + n < 2 ^ 32)"

lemma segments_kept_trans:
  "segments_kept P metas s s' k \<Longrightarrow> segments_kept P metas s' s'' k \<Longrightarrow> segments_kept P metas s s'' k"
  unfolding segments_kept_def by fastforce

lemma refs_snoc: "refs caps (ids @ [k]) j = refs caps (k # ids) j"
  by (simp add: refs_def)

lemma refs_insert_le:
  "count_list (capsule_refs (hm_insert cid c caps)) k \<le> count_list (capsule_refs caps) k + count_list (cap_segments c) k"
  by (induction caps) (auto simp: capsule_refs_def)

lemma stored_view_unique: "stored_view P p k m v \<Longrightarrow> stored_view P p k m v' \<Longrightarrow> v = v'"
  by (auto simp: stored_view_def split: if_splits)

lemma stored_view_cong:
  assumes "sto_read (pi_storage P) k (pl_storage p') = sto_read (pi_storage P) k (pl_storage p)" "seg_encrypted m' = seg_encrypted m"
  shows "stored_view P p' k m' v \<longleftrightarrow> stored_view P p k m v"
  using assms by (simp add: stored_view_def)

definition chunk_of :: "bytes \<Rightarrow> segment_ref \<Rightarrow> bytes" where
  "chunk_of data seg = take (unat (sr_length seg)) (drop (unat (sr_offset seg)) data)"

text \<open>The write without its evaluator calls.\<close>

lemma write_capsule_unfold:
  assumes "n = default_segment_size (strategy (layout pol))"
  shows "pipeline_write_capsule E P now cid data pol p =
    (if n = 0 then (Err Panic, p)
     else case layout_synthesize E cid pol [cid] (chunks n data) of
        Err e \<Rightarrow> (Err e, p)
      | Ok None \<Rightarrow> (Err Panic, p)
      | Ok (Some zp) \<Rightarrow>
          (case write_segments E P (compression pol) (encryption pol) cid data (plan_refs zp) [] new_stats p of
             (Err e, p1) \<Rightarrow> (Err e, p1)
           | (Ok (ids, st), p1) \<Rightarrow>
               bind_op (on_catalog (cat_create_capsule (pi_catalog P) now cid (of_nat (length data)) pol ids st))
                 (\<lambda>_. return_op cid) p1))"
proof (cases "layout_synthesize E cid pol [cid] (chunks n data)")
  case (Err e)
  then show ?thesis
    by (simp add: pipeline_write_capsule_def evaluate_compression_def Let_def assms bind_op_def lift_result_def fail_op_def)
next
  case (Ok plan)
  then show ?thesis
    by (cases plan; cases "write_segments E P (compression pol) (encryption pol) cid data (plan_refs (the plan)) [] new_stats p")
      (auto simp: pipeline_write_capsule_def evaluate_compression_def evaluate_encryption_def Let_def assms bind_op_def
        lift_result_def fail_op_def split: result.splits)
qed

lemma one_element: "distinct xs \<Longrightarrow> (\<And>x. x \<in> set xs \<Longrightarrow> x = a) \<Longrightarrow> length xs \<le> 1"
  using card_mono [of "{a}" "set xs"] by (auto simp: distinct_card)

text \<open>The inverted content store knows the last hash of every segment.\<close>

lemma invert_content_get:
  assumes "distinct (map snd (filter (\<lambda>e. snd e = k) entries))"
  shows "hm_get (invert_content entries) k = Some h \<longleftrightarrow> (h, k) \<in> set entries"
proof -
  have gen: "hm_get (fold (\<lambda>(h, sid) m. hm_insert sid h m) es m) k = Some h \<longleftrightarrow>
      (if \<exists>g. (g, k) \<in> set es then (h, k) \<in> set es else hm_get m k = Some h)"
    if "distinct (map snd (filter (\<lambda>e. snd e = k) es))" for es m
    using that
  proof (induction es arbitrary: m)
    case (Cons e es)
    obtain g s where e: "e = (g, s)" by fastforce
    show ?case
    proof (cases "s = k")
      case True
      then have "\<not> (\<exists>g. (g, k) \<in> set es)" "distinct (map snd (filter (\<lambda>e. snd e = k) es))"
        using Cons.prems by (force simp: e)+
      then show ?thesis using Cons.IH True by (auto simp: e)
    next
      case False
      then show ?thesis using Cons by (auto simp: e)
    qed
  qed simp
  show ?thesis using gen [OF assms, of "[]"] by (auto simp: invert_content_def)
qed

section \<open>Steps on the storage\<close>

locale modular =
  st: storage_atomic "pi_storage P" metas + cat: capsule_catalog "pi_catalog P" caps content next_id +
  en: transparent_encryptor "pi_encryptor P"
  for P :: "('k, 's, 't, 'r) pipeline_ops" and metas :: "'s \<Rightarrow> (segment_id, segment) hmap"
    and caps :: "'r \<Rightarrow> (capsule_id, capsule) hmap" and content :: "'r \<Rightarrow> (content_hash, segment_id) hmap"
    and next_id :: "'r \<Rightarrow> u64"
begin

abbreviation inv where "inv E \<equiv> modular_inv E P metas caps content next_id"

abbreviation meta_of where "meta_of p k \<equiv> hm_get (metas (pl_storage p)) k"

abbreviation kept where "kept p p' \<equiv> \<forall>k. segments_kept P metas (pl_storage p) (pl_storage p') k"

lemma kept_trans:
  assumes "kept p p'" "kept p' p''" shows "kept p p''"
proof
  fix k show "segments_kept P metas (pl_storage p) (pl_storage p'') k"
    by (rule segments_kept_trans [OF assms(1) [rule_format] assms(2) [rule_format]])
qed

lemma read_loop_out: "pipeline_read_loop E P pol ks out p = bind_result (pipeline_read_loop E P pol ks [] p) (\<lambda>d. Ok (out @ d))"
proof (induction ks arbitrary: out)
  case (Cons k ks)
  show ?case
  proof (cases "pipeline_read_segment E P pol k p")
    case (Ok d)
    then show ?thesis using Cons [of "out @ d"] Cons [of d]
      by (cases "pipeline_read_loop E P pol ks [] p") simp_all
  qed simp
qed simp

lemma read_loop_append:
  "pipeline_read_loop E P pol (ks @ js) out p =
     bind_result (pipeline_read_loop E P pol ks out p) (\<lambda>d. pipeline_read_loop E P pol js d p)"
proof (induction ks arbitrary: out)
  case (Cons k ks)
  then show ?case by (cases "pipeline_read_segment E P pol k p") simp_all
qed simp

lemma read_segment_eq:
  "pipeline_read_segment E P pol k p =
     bind_result (ok_or (meta_of p k) (SegmentNotFound k)) (\<lambda>m.
     bind_result (sto_read (pi_storage P) k (pl_storage p)) (\<lambda>raw.
     bind_result (if seg_encrypted m then enc_decrypt (pi_encryptor P) raw pol k (pl_keys p) else Ok raw) (unpack E m)))"
  by (simp add: pipeline_read_segment_def st.metadata unpack_def [abs_def])

lemma read_segment_view:
  "meta_of p k = Some m \<Longrightarrow> stored_view P p k m v \<Longrightarrow> pipeline_read_segment E P pol k p = unpack E m v"
  by (auto simp: read_segment_eq stored_view_def split: if_splits)

lemma read_segment_kept:
  assumes "segments_kept P metas (pl_storage p) (pl_storage p') k" "meta_of p k \<noteq> None"
  shows "pipeline_read_segment E P pol k p' = pipeline_read_segment E P pol k p"
proof -
  obtain m where m: "meta_of p k = Some m" using assms(2) by blast
  then obtain m' where m': "meta_of p' k = Some m'" "seg_encrypted m' = seg_encrypted m"
    "seg_compressed m' = seg_compressed m" "seg_compression_algo m' = seg_compression_algo m"
    and r: "sto_read (pi_storage P) k (pl_storage p') = sto_read (pi_storage P) k (pl_storage p)"
    using assms(1) by (auto simp: segments_kept_def)
  have d: "enc_decrypt (pi_encryptor P) raw pol k (pl_keys p') = enc_decrypt (pi_encryptor P) raw pol k (pl_keys p)" for raw
    by (rule en.decrypt_stateless)
  have u: "unpack E m' = unpack E m" by (rule ext) (simp add: unpack_def m')
  show ?thesis by (simp add: read_segment_eq m m'(1,2) r d u cong: if_cong)
qed

lemma read_loop_cong:
  "\<forall>k\<in>set ks. pipeline_read_segment E P pol k p' = pipeline_read_segment E P pol k p \<Longrightarrow>
   pipeline_read_loop E P pol ks out p' = pipeline_read_loop E P pol ks out p"
proof (induction ks arbitrary: out)
  case (Cons k ks)
  then show ?case by (cases "pipeline_read_segment E P pol k p") simp_all
qed simp

text \<open>Setting the metadata of a segment in a transaction of its own.\<close>

lemma set_metadata_session:
  obtains s' where
    "txn_session (pi_storage P) (on_txn (txn_set_segment_metadata (pi_storage P) j m)) p = (Ok (), p\<lparr>pl_storage := s'\<rparr>)"
    "\<forall>k. hm_get (metas s') k = (if k = j then Some m else meta_of p k)"
    "\<forall>k. sto_read (pi_storage P) k s' = sto_read (pi_storage P) k (pl_storage p)"
proof -
  obtain t where t: "sto_begin_txn (pi_storage P) (pl_storage p) = Ok t" using st.begin_Ok by blast
  obtain s1 u s' where s: "stage (pi_storage P) (StageMetadata j m) (pl_storage p, t) = (Ok (), (s1, u))"
    "txn_commit (pi_storage P) (s1, u) = (Ok (), s')"
    "\<forall>k. hm_get (metas s') k = (if k = j then Some m else meta_of p k)"
    "\<forall>k. sto_read (pi_storage P) k s' = sto_read (pi_storage P) k (pl_storage p)"
    using st.commit_metadata [OF t, of j m] by blast
  have "txn_session (pi_storage P) (on_txn (txn_set_segment_metadata (pi_storage P) j m)) p = (Ok (), p\<lparr>pl_storage := s'\<rparr>)"
    using t s(1,2) by (simp add: txn_session_def on_txn_def zoom_def)
  with s(3,4) that show ?thesis by blast
qed

lemma invD:
  assumes "inv E extra p"
  shows "hm_ok (caps (pl_catalog p))" "meta_of p k = Some m \<Longrightarrow> unat (seg_num k) < unat (next_id (pl_catalog p))"
    and "hm_get (content (pl_catalog p)) h = Some k \<Longrightarrow> \<exists>m v. meta_of p k = Some m \<and> seg_content_hash m = Some h \<and>
      stored_view P p k m v \<and> hash_content E v = h"
    and "refs (caps (pl_catalog p)) extra k \<le> (case meta_of p k of Some m \<Rightarrow> unat (seg_ref_count m) | None \<Rightarrow> 0)"
    and "hm_ok (content (pl_catalog p))"
  using assms unfolding modular_inv_def by blast+

text \<open>A segment that is referred to exists.\<close>

lemma referenced_stored:
  assumes "inv E extra p" "0 < refs (caps (pl_catalog p)) extra k" shows "meta_of p k \<noteq> None"
  using invD(4) [OF assms(1), of k] assms(2) by (auto split: option.splits)

lemma capsule_segments_stored:
  assumes "inv E extra p" "hm_get (caps (pl_catalog p)) cid = Some c" "k \<in> set (cap_segments c)"
  shows "meta_of p k \<noteq> None"
  by (rule referenced_stored [OF assms(1)]) (rule capsule_refs_mem [OF invD(1) [OF assms(1)] assms(2,3)])

lemma read_capsule_eq:
  "pipeline_read_capsule E P cid p =
     bind_result (ok_or (hm_get (caps (pl_catalog p)) cid) CapsuleNotFound) (\<lambda>c.
       pipeline_read_loop E P (encryption (cap_policy c)) (cap_segments c) [] p)"
  by (simp add: pipeline_read_capsule_def cat.lookup)

text \<open>When the segments are kept and so is a capsule's entry, the capsule reads the same.\<close>

lemma read_capsule_kept:
  assumes "inv E extra p" "\<forall>k\<in>(case hm_get (caps (pl_catalog p)) cid of Some c \<Rightarrow> set (cap_segments c) | None \<Rightarrow> {}).
      segments_kept P metas (pl_storage p) (pl_storage p') k"
    and "hm_get (caps (pl_catalog p')) cid = hm_get (caps (pl_catalog p)) cid"
  shows "pipeline_read_capsule E P cid p' = pipeline_read_capsule E P cid p"
proof (cases "hm_get (caps (pl_catalog p)) cid")
  case None
  then show ?thesis using assms(3) by (simp add: read_capsule_eq)
next
  case (Some c)
  have "\<forall>k\<in>set (cap_segments c). pipeline_read_segment E P (encryption (cap_policy c)) k p' =
      pipeline_read_segment E P (encryption (cap_policy c)) k p"
    using read_segment_kept assms(2) capsule_segments_stored [OF assms(1) Some] Some by auto
  then show ?thesis using Some assms(3) read_loop_cong by (simp add: read_capsule_eq)
qed


section \<open>Writing one segment\<close>

text \<open>What a step of the write loop keeps: the entries, the room, the coherence.\<close>

definition ready where
  "ready E cp cs V n p \<longleftrightarrow> modular_room metas next_id n p \<and> stored_views P metas p \<subseteq> V \<and> coherent E P metas cp cs p"

lemma room_weaken:
  assumes "modular_room metas next_id (Suc n) p" "meta_of p k = Some m" shows "unat (seg_ref_count m) + n < 4294967296"
proof -
  have "unat (seg_ref_count m) + Suc n < 2 ^ 32" using assms by (auto simp: modular_room_def)
  then show ?thesis by simp
qed

lemma share_effect:
  assumes inv: "inv E extra p" and e: "hm_get (content (pl_catalog p)) h = Some k" and n: "modular_room metas next_id (Suc n) p"
    and run: "share_segment P k summary p = (r, p')"
  shows "r = Ok k \<and> inv E (k # extra) p' \<and> kept p p' \<and> caps (pl_catalog p') = caps (pl_catalog p) \<and>
    modular_room metas next_id n p' \<and> stored_views P metas p' = stored_views P metas p \<and>
    (coherent E P metas cp cs p \<longrightarrow> coherent E P metas cp cs p')"
proof -
  obtain m v where m: "meta_of p k = Some m" "seg_content_hash m = Some h" "stored_view P p k m v" "hash_content E v = h"
    using invD(3) [OF inv e] by blast
  let ?m = "m\<lparr>seg_ref_count := seg_ref_count m + 1, seg_deduplicated := seg_ref_count m + 1 > 1\<rparr>"
  obtain s' where s: "txn_session (pi_storage P) (on_txn (txn_set_segment_metadata (pi_storage P) k ?m)) p = (Ok (), p\<lparr>pl_storage := s'\<rparr>)"
    "\<forall>j. hm_get (metas s') j = (if j = k then Some ?m else meta_of p j)"
    "\<forall>j. sto_read (pi_storage P) j s' = sto_read (pi_storage P) j (pl_storage p)"
    using set_metadata_session [of k ?m p] by blast
  have out: "r = Ok k" "pl_catalog p' = pl_catalog p" "pl_storage p' = s'" "pl_keys p' = pl_keys p"
    using run s(1) m(1) by (auto simp: share_segment_def op_simps st.metadata count_segment_def Let_def)
  have room: "unat (seg_ref_count m) + Suc n < 2 ^ 32" using n m(1) by (auto simp: modular_room_def)
  have rc: "unat (seg_ref_count m + 1) = Suc (unat (seg_ref_count m))"
    using unat_add_of_nat [of "seg_ref_count m" 1] room by simp
  have metas': "meta_of p' j = (if j = k then Some ?m else meta_of p j)" for j using s(2) out by simp
  have reads: "sto_read (pi_storage P) j (pl_storage p') = sto_read (pi_storage P) j (pl_storage p)" for j
    using s(3) out by simp
  have view: "stored_view P p' j m' w \<longleftrightarrow> stored_view P p j m'' w" if "seg_encrypted m' = seg_encrypted m''" for j m' m'' w
    by (rule stored_view_cong [OF reads that])
  have inv': "inv E (k # extra) p'"
    unfolding modular_inv_def
  proof (intro conjI allI impI)
    show "hm_ok (caps (pl_catalog p'))" using invD(1) [OF inv] out by simp
    show "hm_ok (content (pl_catalog p'))" using invD(5) [OF inv] out by simp
    show "unat (seg_num j) < unat (next_id (pl_catalog p'))" if "meta_of p' j = Some m'" for j m'
      using that invD(2) [OF inv] m(1) by (auto simp: s(2) out split: if_splits)
    show "\<exists>m' w. meta_of p' j = Some m' \<and> seg_content_hash m' = Some g \<and> stored_view P p' j m' w \<and> hash_content E w = g"
      if c: "hm_get (content (pl_catalog p')) g = Some j" for g j
    proof -
      obtain m' w where mw: "meta_of p j = Some m'" "seg_content_hash m' = Some g" "stored_view P p j m' w" "hash_content E w = g"
        using invD(3) [OF inv, of g j] c out by auto
      show ?thesis
      proof (cases "j = k")
        case True
        then have "m' = m" using mw(1) m(1) by simp
        then show ?thesis using mw True view [of ?m m] by (auto simp: metas')
      next
        case False
        then show ?thesis using mw view [of m' m'] by (auto simp: metas')
      qed
    qed
    show "refs (caps (pl_catalog p')) (k # extra) j \<le> (case meta_of p' j of Some m \<Rightarrow> unat (seg_ref_count m) | None \<Rightarrow> 0)" for j
      using invD(4) [OF inv, of j] m(1) by (auto simp: s(2) out rc refs_def)
  qed
  have kept: "kept p p'" using m(1) by (auto simp: segments_kept_def metas' reads)
  have views: "(\<exists>j m'. meta_of p' j = Some m' \<and> stored_view P p' j m' w) \<longleftrightarrow> (\<exists>j m'. meta_of p j = Some m' \<and> stored_view P p j m' w)" for w
  proof
    assume "\<exists>j m'. meta_of p' j = Some m' \<and> stored_view P p' j m' w"
    then obtain j m' where "meta_of p' j = Some m'" "stored_view P p' j m' w" by blast
    then have "meta_of p j = Some (if j = k then m else m')" "stored_view P p j (if j = k then m else m') w"
      using view [of ?m m] view [of m' m'] m(1) by (auto simp: metas' split: if_splits)
    then show "\<exists>j m'. meta_of p j = Some m' \<and> stored_view P p j m' w" by blast
  next
    assume "\<exists>j m'. meta_of p j = Some m' \<and> stored_view P p j m' w"
    then obtain j m' where "meta_of p j = Some m'" "stored_view P p j m' w" by blast
    then have "meta_of p' j = Some (if j = k then ?m else m')" "stored_view P p' j (if j = k then ?m else m') w"
      using view [of ?m m] view [of m' m'] m(1) by (auto simp: metas' split: if_splits)
    then show "\<exists>j m'. meta_of p' j = Some m' \<and> stored_view P p' j m' w" by blast
  qed
  have coh: "coherent E P metas cp cs p'" if co: "coherent E P metas cp cs p"
    unfolding coherent_def
  proof (intro ballI allI impI)
    fix c w s j m' assume a: "c \<in> set cs" "lzc_compress E c cp = Ok (w, s)" "meta_of p' j = Some m'" "stored_view P p' j m' w"
    show "unpack E m' w = Ok c"
    proof (cases "j = k")
      case True
      then have "unpack E m w = Ok c" using co a m(1) view [of ?m m] by (auto simp: coherent_def metas')
      then show ?thesis using a(3) True by (auto simp: metas' unpack_def)
    next
      case False
      then show ?thesis using co a view [of m' m'] by (auto simp: coherent_def metas')
    qed
  qed
  have "modular_room metas next_id n p'"
    using n room m(1) room_weaken [OF n] by (auto simp: modular_room_def s(2) out rc split: if_splits)
  then show ?thesis using out(1,2) inv' kept views coh by (auto simp: stored_views_def)
qed


lemma encrypt_payload_effect:
  assumes "encrypt_payload P ep cid sid view p = (r, p')"
  shows "\<exists>ks. p' = p\<lparr>pl_keys := ks\<rparr>"
    and "r = Ok (payload, es) \<Longrightarrow> if is_enabled ep then \<forall>pol k. enc_decrypt (pi_encryptor P) payload pol sid k = Ok view else payload = view"
proof -
  have keys: "\<exists>ks. p = p\<lparr>pl_keys := ks\<rparr>" by (rule exI [of _ "pl_keys p"]) simp
  show "\<exists>ks. p' = p\<lparr>pl_keys := ks\<rparr>"
    using assms keys by (auto simp: encrypt_payload_def op_simps on_keys_def split: if_splits result.splits prod.splits)
  assume r: "r = Ok (payload, es)"
  show "if is_enabled ep then \<forall>pol k. enc_decrypt (pi_encryptor P) payload pol sid k = Ok view else payload = view"
  proof (cases "is_enabled ep")
    case True
    then obtain k1 k2 where "enc_encrypt (pi_encryptor P) view ep sid k1 = (Ok (payload, es), k2)"
      using assms r by (auto simp: encrypt_payload_def op_simps on_keys_def split: if_splits result.splits prod.splits)
    then show ?thesis using en.restored True by simp
  next
    case False
    then show ?thesis using assms r by (simp add: encrypt_payload_def)
  qed
qed

text \<open>The session that stores a new segment: it fails before anything is staged, or it commits.\<close>

lemma store_session_effect:
  assumes run: "txn_session (pi_storage P)
      (bind_op (beside_txn (on_catalog (cat_allocate_segment (pi_catalog P)))) (\<lambda>sid.
       bind_op (beside_txn (encrypt_payload P ep cid sid view)) (\<lambda>(payload, es).
       bind_op (on_txn (txn_append (pi_storage P) sid payload)) (\<lambda>_.
       bind_op (on_txn (txn_set_segment_metadata (pi_storage P) sid (new_metadata sid payload summary h es ep)))
         (\<lambda>_. return_op sid))))) p = (r, p')"
  obtains (failed) e where "r = Err e" "kept p p'" "metas (pl_storage p') = metas (pl_storage p)"
      "\<forall>k. sto_read (pi_storage P) k (pl_storage p') = sto_read (pi_storage P) k (pl_storage p)"
      "next_id (pl_catalog p') = next_id (pl_catalog p) + 1" "caps (pl_catalog p') = caps (pl_catalog p)"
      "content (pl_catalog p') = content (pl_catalog p)"
  | (stored) payload es sid where "r = Ok sid" "sid = SegmentId (next_id (pl_catalog p))"
      "\<forall>k. meta_of p' k = (if k = sid then Some (new_metadata sid payload summary h es ep) else meta_of p k)"
      "\<forall>k. sto_read (pi_storage P) k (pl_storage p') = (if k = sid then Ok payload else sto_read (pi_storage P) k (pl_storage p))"
      "stored_view P p' sid (new_metadata sid payload summary h es ep) view"
      "next_id (pl_catalog p') = next_id (pl_catalog p) + 1" "caps (pl_catalog p') = caps (pl_catalog p)"
      "content (pl_catalog p') = content (pl_catalog p)"
proof -
  obtain t where t: "sto_begin_txn (pi_storage P) (pl_storage p) = Ok t" using st.begin_Ok by blast
  obtain a c1 where al: "cat_allocate_segment (pi_catalog P) (pl_catalog p) = (a, c1)" by fastforce
  note A = cat.allocate [OF al]
  let ?sid = "SegmentId (next_id (pl_catalog p))" and ?p1 = "p\<lparr>pl_catalog := c1\<rparr>"
  obtain q p2 where en: "encrypt_payload P ep cid ?sid view ?p1 = (q, p2)" by fastforce
  obtain ks where p2: "p2 = ?p1\<lparr>pl_keys := ks\<rparr>" using encrypt_payload_effect(1) [OF en] by blast
  show ?thesis
  proof (cases q)
    case (Err e)
    then have "r = Err e" "p' = p2\<lparr>pl_storage := sto_drop (pi_storage P) (pl_storage p, t)\<rparr>"
      using run t al A en by (simp_all add: txn_session_def bind_op_def beside_txn_def on_catalog_def zoom_def p2)
    then show ?thesis
      using failed A st.drop_same [of "pl_storage p" t] by (auto simp: p2 segments_kept_def)
  next
    case (Ok v)
    obtain payload es where v: "v = (payload, es)" by fastforce
    let ?m = "new_metadata ?sid payload summary h es ep"
    obtain s1 u s2 where c: "for_each (stage (pi_storage P)) [StageAppend ?sid payload, StageMetadata ?sid ?m] (pl_storage p, t) = (Ok (), (s1, u))"
      "txn_commit (pi_storage P) (s1, u) = (Ok (), s2)"
      "\<forall>k. hm_get (metas s2) k = (if k = ?sid then Some ?m else meta_of p k)"
      "\<forall>k. sto_read (pi_storage P) k s2 = (if k = ?sid then Ok payload else sto_read (pi_storage P) k (pl_storage p))"
      using st.commit_new [OF t, of ?sid payload ?m] by blast
    obtain s0 t0 where c0: "txn_append (pi_storage P) ?sid payload (pl_storage p, t) = (Ok (), (s0, t0))"
      "txn_set_segment_metadata (pi_storage P) ?sid ?m (s0, t0) = (Ok (), (s1, u))"
      using c(1) by (auto split: prod.splits result.splits)
    have out: "r = Ok ?sid" "p' = p2\<lparr>pl_storage := s2\<rparr>"
      using run t al A en Ok v c0 c(2)
      by (simp_all add: txn_session_def bind_op_def beside_txn_def on_catalog_def on_txn_def zoom_def return_op_def p2)
    have "stored_view P p' ?sid ?m view"
      using encrypt_payload_effect(2) [OF en, of payload es] Ok v c(4) out(2)
      by (auto simp: stored_view_def new_metadata_def)
    then show ?thesis using stored [OF out(1) refl, of payload es] c(3,4) A out(2) by (simp add: p2)
  qed
qed


lemma room_next:
  assumes "modular_room metas next_id (Suc n) p" "next_id (pl_catalog p') = next_id (pl_catalog p) + 1"
  shows "unat (next_id (pl_catalog p')) = Suc (unat (next_id (pl_catalog p)))"
  using unat_add_of_nat [of "next_id (pl_catalog p)" 1] assms by (simp add: modular_room_def)

text \<open>The invariant does not see the keys, the statistics or the deduper.\<close>

lemma inv_same_store:
  assumes "pl_storage p' = pl_storage p" "caps (pl_catalog p') = caps (pl_catalog p)"
    and "content (pl_catalog p') = content (pl_catalog p)" "next_id (pl_catalog p') = next_id (pl_catalog p)"
  shows "inv E extra p' = inv E extra p" "modular_room metas next_id n p' = modular_room metas next_id n p"
    and "stored_views P metas p' = stored_views P metas p" "coherent E P metas cp cs p' = coherent E P metas cp cs p"
  using assms by (simp_all add: modular_inv_def modular_room_def stored_views_def coherent_def stored_view_def)

lemma failed_store_effect:
  assumes inv: "inv E extra p" and n: "modular_room metas next_id (Suc n) p"
    and "metas (pl_storage p') = metas (pl_storage p)"
    and "\<forall>k. sto_read (pi_storage P) k (pl_storage p') = sto_read (pi_storage P) k (pl_storage p)"
    and "next_id (pl_catalog p') = next_id (pl_catalog p) + 1" "caps (pl_catalog p') = caps (pl_catalog p)"
    and "content (pl_catalog p') = content (pl_catalog p)"
  shows "inv E extra p'"
proof -
  have view: "stored_view P p' k m v \<longleftrightarrow> stored_view P p k m v" for k m v
    by (rule stored_view_cong) (use assms(4) in auto)
  note I = invD [OF inv] and nx = room_next [OF n assms(5)]
  show ?thesis
    unfolding modular_inv_def
  proof (intro conjI allI impI)
    show "unat (seg_num k) < unat (next_id (pl_catalog p'))" if "meta_of p' k = Some m" for k m
      using I(2) [of k m] that nx by (simp add: assms(3))
    show "\<exists>m v. meta_of p' k = Some m \<and> seg_content_hash m = Some g \<and> stored_view P p' k m v \<and> hash_content E v = g"
      if "hm_get (content (pl_catalog p')) g = Some k" for g k
      using I(3) [of g k] that by (simp add: assms(3,7) view)
  qed (use I(1,4,5) assms(3,6,7) in simp_all)
qed

text \<open>A new segment with its metadata and its content entry.\<close>

lemma new_segment_effect:
  assumes inv: "inv E extra p" and n: "modular_room metas next_id (Suc n) p"
    and m: "seg_content_hash m = Some h" "unat (seg_ref_count m) = 1" "hash_content E view = h"
    and sid: "sid = SegmentId (next_id (pl_catalog p))"
    and metas': "\<forall>k. meta_of p' k = (if k = sid then Some m else meta_of p k)"
    and reads: "\<forall>k. k \<noteq> sid \<longrightarrow> sto_read (pi_storage P) k (pl_storage p') = sto_read (pi_storage P) k (pl_storage p)"
    and sv: "stored_view P p' sid m view"
    and cat: "next_id (pl_catalog p') = next_id (pl_catalog p) + 1" "caps (pl_catalog p') = caps (pl_catalog p)"
    and content: "content (pl_catalog p') = content (pl_catalog p) \<or> content (pl_catalog p') = hm_insert h sid (content (pl_catalog p))"
  shows "inv E (sid # extra) p' \<and> inv E extra p' \<and> kept p p' \<and> modular_room metas next_id n p' \<and>
    stored_views P metas p' \<subseteq> insert view (stored_views P metas p)"
proof -
  note I = invD [OF inv] and nx = room_next [OF n cat(1)]
  have fresh: "meta_of p sid = None"
  proof (rule ccontr)
    assume "meta_of p sid \<noteq> None"
    then show False using I(2) [of sid] sid by auto
  qed
  have old: "stored_view P p' k m' v \<longleftrightarrow> stored_view P p k m' v" if "k \<noteq> sid" for k m' v
    by (rule stored_view_cong) (use reads that in auto)
  have kept: "kept p p'"
  proof
    fix k show "segments_kept P metas (pl_storage p) (pl_storage p') k"
      using fresh metas' reads by (cases "k = sid") (auto simp: segments_kept_def)
  qed
  have inv': "inv E (sid # extra) p'"
    unfolding modular_inv_def
  proof (intro conjI allI impI)
    show "hm_ok (caps (pl_catalog p'))" using I(1) by (simp add: cat)
    show "hm_ok (content (pl_catalog p'))" using I(5) content by auto
    show "unat (seg_num k) < unat (next_id (pl_catalog p'))" if "meta_of p' k = Some m'" for k m'
      using I(2) [of k m'] that nx metas' sid by (cases "k = sid") simp_all
    show "\<exists>m v. meta_of p' k = Some m \<and> seg_content_hash m = Some g \<and> stored_view P p' k m v \<and> hash_content E v = g"
      if c: "hm_get (content (pl_catalog p')) g = Some k" for g k
    proof (cases "k = sid")
      case True
      have "hm_get (content (pl_catalog p)) g \<noteq> Some sid" using I(3) [of g sid] fresh by auto
      then have "g = h" using c content True by (auto split: if_splits)
      then show ?thesis using True metas' m(1,3) sv by auto
    next
      case False
      then have "hm_get (content (pl_catalog p)) g = Some k" using c content by (auto split: if_splits)
      from I(3) [OF this] show ?thesis using False metas' old by auto
    qed
    show "refs (caps (pl_catalog p')) (sid # extra) k \<le> (case meta_of p' k of Some m \<Rightarrow> unat (seg_ref_count m) | None \<Rightarrow> 0)" for k
      using I(4) [of k] fresh m(2) metas' by (cases "k = sid") (auto simp: cat refs_def)
  qed
  then have inv0: "inv E extra p'"
    by (auto simp: modular_inv_def refs_def intro: order_trans [rotated])
  have room: "modular_room metas next_id n p'"
    using n nx m(2) metas' room_weaken [OF n] by (auto simp: modular_room_def)
  have "stored_views P metas p' \<subseteq> insert view (stored_views P metas p)"
  proof
    fix v assume "v \<in> stored_views P metas p'"
    then obtain k m' where k: "meta_of p' k = Some m'" "stored_view P p' k m' v" by (auto simp: stored_views_def)
    show "v \<in> insert view (stored_views P metas p)"
    proof (cases "k = sid")
      case True
      then have "m' = m" using k(1) metas' by simp
      then show ?thesis using stored_view_unique [OF k(2)] sv True by simp
    next
      case False
      then show ?thesis using k metas' old by (auto simp: stored_views_def)
    qed
  qed
  then show ?thesis using inv' inv0 kept room by blast
qed

text \<open>Storing a chunk: an error leaves the invariant and every stored segment, success stores it.\<close>

lemma store_effect:
  assumes inv: "inv E extra p" and n: "modular_room metas next_id (Suc n) p"
    and h: "hash_content E view = h" and run: "store_segment P ep cid view summary h p = (r, p')"
  shows "inv E extra p' \<and> kept p p' \<and> caps (pl_catalog p') = caps (pl_catalog p) \<and>
    (\<forall>k. r = Ok k \<longrightarrow> inv E (k # extra) p' \<and> modular_room metas next_id n p' \<and>
       stored_views P metas p' \<subseteq> insert view (stored_views P metas p) \<and>
       (\<exists>m. meta_of p' k = Some m \<and> stored_view P p' k m view \<and> seg_compressed m = cs_compressed summary \<and>
          seg_compression_algo m = cs_algorithm summary \<and>
          (\<forall>j. j \<noteq> k \<longrightarrow> meta_of p' j = meta_of p j \<and>
             sto_read (pi_storage P) j (pl_storage p') = sto_read (pi_storage P) j (pl_storage p))))"
proof -
  obtain q p1 where s: "txn_session (pi_storage P)
      (bind_op (beside_txn (on_catalog (cat_allocate_segment (pi_catalog P)))) (\<lambda>sid.
       bind_op (beside_txn (encrypt_payload P ep cid sid view)) (\<lambda>(payload, es).
       bind_op (on_txn (txn_append (pi_storage P) sid payload)) (\<lambda>_.
       bind_op (on_txn (txn_set_segment_metadata (pi_storage P) sid (new_metadata sid payload summary h es ep)))
         (\<lambda>_. return_op sid))))) p = (q, p1)" by fastforce
  show ?thesis
  proof (cases rule: store_session_effect [OF s])
    case (1 e)
    then have "r = Err e" "p' = p1" using run s by (simp_all add: store_segment_def bind_op_def)
    then show ?thesis using failed_store_effect [OF inv n 1(3-7)] 1(2,6) by simp
  next
    case (2 payload es sid)
    let ?m = "new_metadata sid payload summary h es ep"
    obtain rr c where reg: "cat_register_content (pi_catalog P) h sid (pl_catalog p1) = (rr, c)" by fastforce
    note R = cat.register [OF reg]
    let ?p2 = "p1\<lparr>pl_catalog := c\<rparr>"
    have out: "pl_storage p' = pl_storage p1" "pl_catalog p' = c" "pl_keys p' = pl_keys p1" "r = Ok k \<Longrightarrow> k = sid" for k
      using run s 2(1) reg
      by (auto simp: store_segment_def bind_op_def on_catalog_def zoom_def count_segment_def split: result.splits)
    have sv: "stored_view P p' sid ?m view" using 2(5) out(1) by (simp add: stored_view_def)
    have metas': "\<forall>k. meta_of p' k = (if k = sid then Some ?m else meta_of p k)" using 2(3) out(1) by simp
    have reads: "\<forall>k. k \<noteq> sid \<longrightarrow> sto_read (pi_storage P) k (pl_storage p') = sto_read (pi_storage P) k (pl_storage p)"
      using 2(4) out(1) by simp
    have "inv E (sid # extra) p' \<and> inv E extra p' \<and> kept p p' \<and> modular_room metas next_id n p' \<and>
        stored_views P metas p' \<subseteq> insert view (stored_views P metas p)"
      by (rule new_segment_effect [OF inv n _ _ h 2(2) metas' reads sv])
        (use R 2(6-8) out(2) in \<open>simp_all add: new_metadata_def\<close>)
    moreover have "caps (pl_catalog p') = caps (pl_catalog p)" using R 2(7) out(2) by simp
    moreover have "seg_compressed ?m = cs_compressed summary" "seg_compression_algo ?m = cs_algorithm summary"
      by (simp_all add: new_metadata_def)
    ultimately show ?thesis using out(4) metas' reads sv by auto
  qed
qed


section \<open>Writing a capsule\<close>

text \<open>One planned segment: on success it reads as its chunk.\<close>

lemma planned_effect:
  assumes inv: "inv E extra p" and rdy: "ready E cp cs V (Suc n) p"
    and V: "collision_free E V" "views_of E cp cs \<subseteq> V" "distinct_views E cp cs"
    and seg: "unat (sr_offset seg) + unat (sr_length seg) \<le> length data" "length data < 2 ^ 64" "chunk_of data seg \<in> set cs"
    and run: "write_planned E P cp ep cid data seg stats p = (r, p')"
  shows "inv E extra p' \<and> kept p p' \<and> caps (pl_catalog p') = caps (pl_catalog p) \<and>
    (\<forall>k st. r = Ok (k, st) \<longrightarrow> inv E (k # extra) p' \<and> ready E cp cs V n p' \<and>
       (\<forall>pol. pipeline_read_segment E P pol k p' = Ok (chunk_of data seg)))"
proof -
  let ?c = "chunk_of data seg"
  have fin: "min (unat (sr_offset seg) + unat (sr_length seg)) (2 ^ 64 - 1) = unat (sr_offset seg) + unat (sr_length seg)"
    using seg(1,2) by simp
  have plan: "write_planned E P cp ep cid data seg stats p =
      bind_op (lift_result (map_result_err CompressionFailed (lzc_compress E ?c cp))) (\<lambda>(view, summary) p.
        let h = hash_content E view
        in case cat_lookup_content (pi_catalog P) h (pl_catalog p) of
             Some existing \<Rightarrow> bind_op (share_segment P existing summary) (\<lambda>sid.
                 return_op (sid, record_segment (of_nat (cs_output_size summary)) True stats)) p
           | None \<Rightarrow> bind_op (store_segment P ep cid view summary h) (\<lambda>sid.
                 return_op (sid, record_segment (of_nat (cs_output_size summary)) False stats)) p) p"
    using seg(1) unfolding write_planned_def Let_def fin chunk_of_def by simp
  have n: "modular_room metas next_id (Suc n) p" and sv: "stored_views P metas p \<subseteq> V" and co: "coherent E P metas cp cs p"
    using rdy by (simp_all add: ready_def)
  show ?thesis
  proof (cases "lzc_compress E ?c cp")
    case (Err e)
    then have "p' = p" "\<not> is_ok r" using run plan by (auto simp: op_simps)
    then show ?thesis using inv by (auto simp: segments_kept_def)
  next
    case (Ok vs)
    obtain view summary where c: "lzc_compress E ?c cp = Ok (view, summary)" using Ok by (cases vs) auto
    have inV: "view \<in> V" using V(2) c seg(3) by (auto simp: views_of_def)
    let ?h = "hash_content E view"
    show ?thesis
    proof (cases "hm_get (content (pl_catalog p)) ?h")
      case (Some k)
      obtain m v where m: "meta_of p k = Some m" "stored_view P p k m v" "hash_content E v = ?h"
        using invD(3) [OF inv Some] by blast
      have "v = view"
        using V(1) m inV sv unfolding collision_free_def hash_content_def by (auto simp: stored_views_def inj_on_def)
      obtain q p1 where sh: "share_segment P k summary p = (q, p1)" by fastforce
      note S = share_effect [OF inv Some n sh, of cp cs]
      have out: "p' = p1" "r = Ok (k', st) \<Longrightarrow> k' = k" for k' st
        using run plan c Some sh S by (auto simp: op_simps cat.lookup_content Let_def)
      obtain m' where m': "meta_of p1 k = Some m'" "seg_encrypted m' = seg_encrypted m"
        "sto_read (pi_storage P) k (pl_storage p1) = sto_read (pi_storage P) k (pl_storage p)"
        using S m(1) unfolding segments_kept_def by blast
      have "coherent E P metas cp cs p1" using S co by blast
      moreover have "stored_view P p1 k m' view"
        using stored_view_cong [OF m'(3,2)] m(2) \<open>v = view\<close> by simp
      ultimately have "unpack E m' view = Ok ?c" using c m'(1) seg(3) by (auto simp: coherent_def)
      then have "pipeline_read_segment E P pol k p1 = Ok ?c" for pol
        using read_segment_view [OF m'(1) \<open>stored_view P p1 k m' view\<close>] by simp
      moreover have "inv E extra p1"
        using S by (auto simp: modular_inv_def refs_def intro: order_trans [rotated])
      ultimately show ?thesis using S sv co out by (auto simp: ready_def)
    next
      case None
      obtain q p1 where ss: "store_segment P ep cid view summary ?h p = (q, p1)" by fastforce
      note S = store_effect [OF inv n refl ss]
      have out: "p' = p1" "r = Ok (k, st) \<Longrightarrow> q = Ok k" for k st
        using run plan c None ss by (auto simp: op_simps cat.lookup_content Let_def split: result.splits)
      have good: "ready E cp cs V n p1 \<and> (\<forall>pol. pipeline_read_segment E P pol k p1 = Ok ?c)" if q: "q = Ok k" for k
      proof -
        obtain m where m: "meta_of p1 k = Some m" "stored_view P p1 k m view" "seg_compressed m = cs_compressed summary"
          "seg_compression_algo m = cs_algorithm summary" "\<forall>j. j \<noteq> k \<longrightarrow> meta_of p1 j = meta_of p j \<and>
             sto_read (pi_storage P) j (pl_storage p1) = sto_read (pi_storage P) j (pl_storage p)"
          using S q by blast
        have unp: "unpack E m view = Ok ?c"
          using lzc.restore [OF c] lzc_uncompressed [OF c] by (auto simp: unpack_def m(3,4))
        have "coherent E P metas cp cs p1"
          unfolding coherent_def
        proof (intro ballI allI impI)
          fix c' w s j m' assume a: "c' \<in> set cs" "lzc_compress E c' cp = Ok (w, s)" "meta_of p1 j = Some m'" "stored_view P p1 j m' w"
          show "unpack E m' w = Ok c'"
          proof (cases "j = k")
            case True
            then have w: "w = view" "m' = m" using a(3,4) m(1,2) stored_view_unique by auto
            then have "c' = ?c" using V(3) a(1,2) seg(3) c unfolding distinct_views_def by blast
            then show ?thesis using unp w by simp
          next
            case False
            then have "meta_of p j = Some m'" "stored_view P p j m' w"
              using m(5) a(3,4) stored_view_cong [of P j p1 p m' m'] by auto
            then show ?thesis using co a(1,2) by (auto simp: coherent_def)
          qed
        qed
        then have "ready E cp cs V n p1" using S q sv inV by (auto simp: ready_def)
        then show ?thesis using read_segment_view [OF m(1,2)] unp by simp
      qed
      then show ?thesis using S out by auto
    qed
  qed
qed


lemma write_segments_effect:
  assumes "inv E ids p" "ready E cp cs V (length segs) p"
    and V: "collision_free E V" "views_of E cp cs \<subseteq> V" "distinct_views E cp cs"
    and segs: "\<forall>s\<in>set segs. unat (sr_offset s) + unat (sr_length s) \<le> length data \<and> chunk_of data s \<in> set cs"
    and len: "length data < 2 ^ 64"
    and "\<forall>pol. pipeline_read_loop E P pol ids [] p = Ok out"
    and "write_segments E P cp ep cid data segs ids stats p = (r, p')"
  shows "inv E [] p' \<and> kept p p' \<and> caps (pl_catalog p') = caps (pl_catalog p) \<and>
    (\<forall>ids' st. r = Ok (ids', st) \<longrightarrow> inv E ids' p' \<and>
       (\<forall>pol. pipeline_read_loop E P pol ids' [] p' = Ok (out @ concat (map (chunk_of data) segs))))"
  using assms(1,2,6,8,9)
proof (induction segs arbitrary: ids stats p out)
  case Nil
  have "inv E [] p" using Nil.prems(1) by (auto simp: modular_inv_def refs_def intro: order_trans [rotated])
  then show ?case using Nil.prems by (auto simp: segments_kept_def)
next
  case (Cons seg segs)
  obtain q p1 where w: "write_planned E P cp ep cid data seg stats p = (q, p1)" by fastforce
  have rdy: "ready E cp cs V (Suc (length segs)) p" using Cons.prems(2) by simp
  note W = planned_effect [OF Cons.prems(1) rdy V _ len _ w]
  have seg: "unat (sr_offset seg) + unat (sr_length seg) \<le> length data" "chunk_of data seg \<in> set cs"
    using Cons.prems(3) by simp_all
  note W = W [OF seg]
  show ?case
  proof (cases q)
    case (Err e)
    then have "p' = p1" "\<not> is_ok r" using Cons.prems(5) w by auto
    moreover have "inv E [] p1" using W by (auto simp: modular_inv_def refs_def intro: order_trans [rotated])
    ultimately show ?thesis using W by auto
  next
    case (Ok ks)
    obtain k st where ks: "ks = (k, st)" by fastforce
    have run: "write_segments E P cp ep cid data segs (ids @ [k]) st p1 = (r, p')"
      using Cons.prems(5) w Ok ks by simp
    have i1: "inv E (k # ids) p1" and r1: "ready E cp cs V (length segs) p1"
      and rd: "pipeline_read_segment E P pol k p1 = Ok (chunk_of data seg)" for pol
      using W Ok ks by blast+
    have i2: "inv E (ids @ [k]) p1" using i1 unfolding modular_inv_def refs_snoc .
    have same: "pipeline_read_segment E P pol j p1 = pipeline_read_segment E P pol j p" if "j \<in> set ids" for j pol
    proof (rule read_segment_kept)
      show "segments_kept P metas (pl_storage p) (pl_storage p1) j" using W by blast
      show "meta_of p j \<noteq> None"
        by (rule referenced_stored [OF Cons.prems(1)]) (use that in \<open>simp add: refs_def count_list_mem [symmetric]\<close>)
    qed
    have ext: "pipeline_read_loop E P pol (ids @ [k]) [] p1 = Ok (out @ chunk_of data seg)" for pol
    proof -
      have "pipeline_read_loop E P pol ids [] p1 = Ok out"
        using read_loop_cong [of ids E pol p1 p "[]"] same Cons.prems(4) by simp
      then show ?thesis using rd by (simp add: read_loop_append)
    qed
    note IH = Cons.IH [OF i2 r1 _ _ run, of "out @ chunk_of data seg"]
    show ?thesis
      using IH ext Cons.prems(3) W kept_trans [of p p1 p'] by auto
  qed
qed

text \<open>The capsule's entry in the catalog, put there or not.\<close>

lemma created_effect:
  assumes inv: "inv E ids p"
    and c: "next_id c = next_id (pl_catalog p)" "content c = content (pl_catalog p)"
    and caps: "caps c = caps (pl_catalog p) \<or> (\<exists>cap. cap_segments cap = ids \<and> caps c = hm_insert cid cap (caps (pl_catalog p)))"
  shows "inv E [] (p\<lparr>pl_catalog := c\<rparr>)"
proof -
  have "refs (caps c) [] k \<le> refs (caps (pl_catalog p)) ids k" for k
    using caps refs_insert_le by (auto simp: refs_def)
  then have "refs (caps c) [] k \<le> (case meta_of p k of Some m \<Rightarrow> unat (seg_ref_count m) | None \<Rightarrow> 0)" for k
    using invD(4) [OF inv] order_trans by blast
  moreover have "hm_ok (caps c)" using invD(1) [OF inv] caps by auto
  ultimately show ?thesis using inv by (simp add: modular_inv_def c stored_view_def)
qed

lemma write_effect:
  assumes inv: "inv E [] p" and len: "length data < 2 ^ 64"
    and n: "n = default_segment_size (strategy (layout pol))"
    and room: "modular_room metas next_id (length (chunks n data)) p"
    and cf: "collision_free E (stored_views P metas p \<union> views_of E (compression pol) (chunks n data))"
    and dv: "distinct_views E (compression pol) (chunks n data)"
    and co: "coherent E P metas (compression pol) (chunks n data) p"
    and run: "pipeline_write_capsule E P now cid data pol p = (r, p')"
  shows "inv E [] p' \<and> (\<forall>k. k \<noteq> cid \<longrightarrow> pipeline_read_capsule E P k p' = pipeline_read_capsule E P k p) \<and>
    (\<forall>x. r = Ok x \<longrightarrow> x = cid \<and> pipeline_read_capsule E P cid p' = Ok data)"
proof (cases "n = 0 \<or> \<not> is_ok (layout_synthesize E cid pol [cid] (chunks n data))")
  case True
  then have "p' = p" "\<not> is_ok r"
    using run write_capsule_unfold [OF n, of E P now cid data p]
    by (cases "layout_synthesize E cid pol [cid] (chunks n data)"; auto split: if_splits)+
  then show ?thesis using inv by auto
next
  case False
  let ?cs = "chunks n data" and ?V = "stored_views P metas p \<union> views_of E (compression pol) (chunks n data)"
  have n0: "0 < n" using False by simp
  obtain plan where pl: "layout_synthesize E cid pol [cid] ?cs = Ok plan"
    using False by (cases "layout_synthesize E cid pol [cid] ?cs") auto
  obtain zp where zp: "plan = Some zp"
    "map (\<lambda>s. take (unat (sr_length s)) (drop (unat (sr_offset s)) data)) (plan_refs zp) = ?cs"
    "\<forall>s\<in>set (plan_refs zp). unat (sr_offset s) + unat (sr_length s) \<le> length data"
    by (rule layout_synthesize_chunks [OF pl n n0 len])
  have cs: "map (chunk_of data) (plan_refs zp) = ?cs" using zp(2) by (simp add: chunk_of_def [abs_def])
  obtain q p1 where w: "write_segments E P (compression pol) (encryption pol) cid data (plan_refs zp) [] new_stats p = (q, p1)"
    by fastforce
  have "length (plan_refs zp) = length ?cs" using cs by (metis length_map)
  then have rdy: "ready E (compression pol) ?cs ?V (length (plan_refs zp)) p" using room co by (simp add: ready_def)
  have segs: "\<forall>s\<in>set (plan_refs zp). unat (sr_offset s) + unat (sr_length s) \<le> length data \<and> chunk_of data s \<in> set ?cs"
    using zp(3) cs by (metis image_eqI list.set_map)
  have rd0: "\<forall>pol. pipeline_read_loop E P pol [] [] p = Ok []" by simp
  note W0 = write_segments_effect [OF inv rdy cf Un_upper2 dv segs len rd0 w]
  have "concat (map (chunk_of data) (plan_refs zp)) = data" using concat_chunks [OF n0, of data] by (simp add: cs)
  then have W: "kept p p1" "caps (pl_catalog p1) = caps (pl_catalog p)" "inv E [] p1"
    "q = Ok (ids, st) \<Longrightarrow> inv E ids p1" "q = Ok (ids, st) \<Longrightarrow> pipeline_read_loop E P pol' ids [] p1 = Ok data" for ids st pol'
    using W0 by simp_all
  note unfold = write_capsule_unfold [OF n, of E P now cid data p]
  show ?thesis
  proof (cases q)
    case (Err e)
    then have "p' = p1" "r = Err e" using run n0 pl zp(1) w by (simp_all add: unfold)
    then show ?thesis using W read_capsule_kept [OF inv] by auto
  next
    case (Ok res)
    obtain ids st where res: "res = (ids, st)" by fastforce
    obtain rc c where cr: "cat_create_capsule (pi_catalog P) now cid (of_nat (length data)) pol ids st (pl_catalog p1) = (rc, c)"
      by fastforce
    have out: "p' = p1\<lparr>pl_catalog := c\<rparr>" "r = (case rc of Ok _ \<Rightarrow> Ok cid | Err e \<Rightarrow> Err e)"
      using run n0 pl zp(1) w Ok res cr by (cases rc; simp add: unfold op_simps on_catalog_def)+
    note C = cat.create [OF cr] and i = W(4) [of ids st] and rd = W(5) [of ids st]
    have i1: "inv E ids p1" using i Ok res by simp
    have entry: "caps c = caps (pl_catalog p1) \<or> (\<exists>cap. cap_segments cap = ids \<and> caps c = hm_insert cid cap (caps (pl_catalog p1)))"
      using C by (elim conjE disjE exE) (simp, metis capsule.select_convs(3))
    have inv': "inv E [] p'"
      unfolding out(1) by (rule created_effect [OF i1 _ _ entry]) (use C in simp_all)
    have other: "pipeline_read_capsule E P k p' = pipeline_read_capsule E P k p" if "k \<noteq> cid" for k
    proof (rule read_capsule_kept [OF inv])
      show "hm_get (caps (pl_catalog p')) k = hm_get (caps (pl_catalog p)) k" using C that W(2) out(1) by auto
    qed (use W(1) out(1) in auto)
    have "pipeline_read_capsule E P cid p' = Ok data" if created: "rc = Ok ()"
    proof -
      obtain cap where cap: "hm_get (caps (pl_catalog p')) cid = Some cap" "cap_segments cap = ids"
        using C created out(1) by auto
      have "pipeline_read_loop E P (encryption (cap_policy cap)) ids [] p' =
          pipeline_read_loop E P (encryption (cap_policy cap)) ids [] p1"
        by (rule read_loop_cong) (simp add: out(1) pipeline_read_segment_def cong: if_cong)
      then show ?thesis using cap rd Ok res by (simp add: read_capsule_eq)
    qed
    then show ?thesis using inv' other out(2) by (cases rc) auto
  qed
qed

section \<open>Deleting a capsule\<close>

abbreviation invg where "invg g E \<equiv> modular_inv E P metas (\<lambda>c. g (caps c)) content next_id"

lemma invgD:
  assumes "invg g E extra p"
  shows "hm_ok (g (caps (pl_catalog p)))" "meta_of p k = Some m \<Longrightarrow> unat (seg_num k) < unat (next_id (pl_catalog p))"
    and "hm_get (content (pl_catalog p)) h = Some k \<Longrightarrow> \<exists>m v. meta_of p k = Some m \<and> seg_content_hash m = Some h \<and>
      stored_view P p k m v \<and> hash_content E v = h"
    and "refs (g (caps (pl_catalog p))) extra k \<le> (case meta_of p k of Some m \<Rightarrow> unat (seg_ref_count m) | None \<Rightarrow> 0)"
    and "hm_ok (content (pl_catalog p))"
  using assms unfolding modular_inv_def by blast+

text \<open>One reference given up: the segment is kept with a lower count, or it is gone with its content entry.\<close>

lemma release_effect:
  assumes inv: "invg g E (k # extra) p" and run: "pipeline_release_segment P k p = (r, p')"
  shows "caps (pl_catalog p') = caps (pl_catalog p) \<and> (is_ok r \<longrightarrow> invg g E extra p') \<and>
    (\<forall>j. j \<noteq> k \<or> 0 < refs (g (caps (pl_catalog p))) extra k \<longrightarrow> segments_kept P metas (pl_storage p) (pl_storage p') j)"
proof -
  note I = invgD [OF inv]
  obtain m where m: "meta_of p k = Some m" "refs (g (caps (pl_catalog p))) (k # extra) k \<le> unat (seg_ref_count m)"
    using I(4) [of k] by (cases "meta_of p k") (auto simp: refs_def)
  have rc: "Suc (refs (g (caps (pl_catalog p))) extra k) \<le> unat (seg_ref_count m)" using m(2) by (simp add: refs_def)
  have others: "refs (g (caps (pl_catalog p))) extra j \<le> (case meta_of p j of Some m \<Rightarrow> unat (seg_ref_count m) | None \<Rightarrow> 0)" for j
    using I(4) [of j] by (cases "k = j") (auto simp: refs_def)
  show ?thesis
  proof (cases "seg_ref_count m > 1")
    case True
    let ?m = "m\<lparr>seg_ref_count := seg_ref_count m - 1, seg_deduplicated := seg_ref_count m - 1 > 1\<rparr>"
    obtain s' where s: "txn_session (pi_storage P) (on_txn (txn_set_segment_metadata (pi_storage P) k ?m)) p = (Ok (), p\<lparr>pl_storage := s'\<rparr>)"
      "\<forall>j. hm_get (metas s') j = (if j = k then Some ?m else meta_of p j)"
      "\<forall>j. sto_read (pi_storage P) j s' = sto_read (pi_storage P) j (pl_storage p)"
      using set_metadata_session [of k ?m p] by blast
    have out: "r = Ok ()" "p' = p\<lparr>pl_storage := s'\<rparr>"
      using run True m(1) s(1) by (auto simp: pipeline_release_segment_def op_simps st.metadata Let_def)
    have dec: "unat (seg_ref_count m - 1) = unat (seg_ref_count m) - 1" using True by (intro unat_minus_word_one) auto
    have view: "stored_view P p' j m' v \<longleftrightarrow> stored_view P p j m'' v" if "seg_encrypted m' = seg_encrypted m''" for j m' m'' v
      by (rule stored_view_cong [OF _ that]) (simp add: out s(3))
    have "invg g E extra p'"
      unfolding modular_inv_def
    proof (intro conjI allI impI)
      show "unat (seg_num j) < unat (next_id (pl_catalog p'))" if "meta_of p' j = Some m'" for j m'
        using that I(2) m(1) by (auto simp: s(2) out split: if_splits)
      show "\<exists>m' w. meta_of p' j = Some m' \<and> seg_content_hash m' = Some hh \<and> stored_view P p' j m' w \<and> hash_content E w = hh"
        if c: "hm_get (content (pl_catalog p')) hh = Some j" for hh j
      proof -
        obtain m' w where mw: "meta_of p j = Some m'" "seg_content_hash m' = Some hh" "stored_view P p j m' w" "hash_content E w = hh"
          using I(3) [of hh j] c out by auto
        show ?thesis
          using mw m(1) view [of ?m m] view [of m' m'] by (cases "j = k") (auto simp: s(2) out)
      qed
      show "refs (g (caps (pl_catalog p'))) extra j \<le> (case meta_of p' j of Some m \<Rightarrow> unat (seg_ref_count m) | None \<Rightarrow> 0)" for j
        using others [of j] rc by (auto simp: s(2) out dec)
    qed (use I(1,5) in \<open>simp_all add: out\<close>)
    then show ?thesis using m(1) s(2,3) by (auto simp: out segments_kept_def)
  next
    case False
    have one: "seg_ref_count m = 1"
    proof -
      have "unat (seg_ref_count m) \<le> 1" using False by (simp add: word_less_nat_alt)
      then have "unat (seg_ref_count m) = unat (1 :: u32)" using rc by simp
      then show ?thesis by (rule unsigned_word_eqI)
    qed
    then have zero: "refs (g (caps (pl_catalog p))) extra k = 0" using rc by simp
    obtain rd s' where del: "sto_delete (pi_storage P) k (pl_storage p) = (rd, s')" by fastforce
    have rd: "rd = Ok ()" using st.delete_Ok [of k "pl_storage p"] del by simp
    have D: "hm_get (metas s') j = (if j = k then None else meta_of p j)"
      "j \<noteq> k \<Longrightarrow> sto_read (pi_storage P) j s' = sto_read (pi_storage P) j (pl_storage p)" for j
      using st.deleted [OF del] by blast+
    have view: "stored_view P q j m' v \<longleftrightarrow> stored_view P p j m' v" if "j \<noteq> k" "pl_storage q = s'" for j m' v q
      by (rule stored_view_cong) (use that D(2) in auto)
    have kept: "segments_kept P metas (pl_storage p) s' j" if "j \<noteq> k" for j
      using that D by (simp add: segments_kept_def)
    have inv': "invg g E extra q"
      if q: "pl_storage q = s'" "caps (pl_catalog q) = caps (pl_catalog p)" "next_id (pl_catalog q) = next_id (pl_catalog p)"
        and ct: "\<forall>h. hm_get (content (pl_catalog q)) h =
          (if hm_get (content (pl_catalog p)) h = Some k then None else hm_get (content (pl_catalog p)) h)"
        and okc: "hm_ok (content (pl_catalog q))" for q
      unfolding modular_inv_def
    proof (intro conjI allI impI)
      show "hm_ok (g (caps (pl_catalog q)))" using I(1) q by simp
      show "hm_ok (content (pl_catalog q))" by (rule okc)
      show "unat (seg_num j) < unat (next_id (pl_catalog q))" if "hm_get (metas (pl_storage q)) j = Some m'" for j m'
        using that I(2) by (auto simp: D q split: if_splits)
      show "\<exists>m' w. hm_get (metas (pl_storage q)) j = Some m' \<and> seg_content_hash m' = Some hh \<and> stored_view P q j m' w \<and> hash_content E w = hh"
        if "hm_get (content (pl_catalog q)) hh = Some j" for hh j
      proof -
        have "hm_get (content (pl_catalog p)) hh = Some j" "j \<noteq> k" using that ct by (auto split: if_splits)
        then show ?thesis using I(3) [of hh j] view [OF _ q(1)] by (auto simp: D q)
      qed
      show "refs (g (caps (pl_catalog q))) extra j \<le> (case hm_get (metas (pl_storage q)) j of Some m \<Rightarrow> unat (seg_ref_count m) | None \<Rightarrow> 0)" for j
        using others [of j] zero by (auto simp: D q)
    qed
    have entry: "seg_content_hash m = Some h" if "hm_get (content (pl_catalog p)) h = Some k" for h
      using I(3) [of h k] m(1) that by auto
    show ?thesis
    proof (cases "seg_content_hash m")
      case None
      then have out: "r = Ok ()" "p' = p\<lparr>pl_storage := s'\<rparr>"
        using run False m(1) del rd by (auto simp: pipeline_release_segment_def op_simps st.metadata on_storage_def)
      have "invg g E extra p'" by (rule inv') (use entry None I(5) in \<open>auto simp: out dest: entry\<close>)
      then show ?thesis using kept zero by (simp add: out)
    next
      case (Some h)
      obtain rb c where dr: "cat_deregister_content (pi_catalog P) h k (pl_catalog p) = (rb, c)" by fastforce
      note R = cat.deregister [OF dr]
      have out: "p' = p\<lparr>pl_storage := s', pl_catalog := c\<rparr>"
        using run False m(1) del rd Some dr
        by (auto simp: pipeline_release_segment_def op_simps st.metadata on_storage_def on_catalog_def split: result.splits)
      have only: "hm_get (content (pl_catalog p)) j \<noteq> Some k" if "j \<noteq> h" for j
        using entry [of j] Some that by auto
      have "\<forall>j. hm_get (content c) j =
          (if hm_get (content (pl_catalog p)) j = Some k then None else hm_get (content (pl_catalog p)) j)"
      proof
        fix j show "hm_get (content c) j =
            (if hm_get (content (pl_catalog p)) j = Some k then None else hm_get (content (pl_catalog p)) j)"
          using R only [of j] by (cases "j = h") auto
      qed
      then have "invg g E extra p'" by (intro inv') (use R I(5) in \<open>auto simp: out\<close>)
      then show ?thesis using kept zero R by (simp add: out)
    qed
  qed
qed

lemma release_capsule_effect:
  assumes "invg g E ks p" "for_each (pipeline_release_segment P) ks p = (r, p')"
  shows "caps (pl_catalog p') = caps (pl_catalog p) \<and> (is_ok r \<longrightarrow> invg g E [] p') \<and>
    (\<forall>j. 0 < refs (g (caps (pl_catalog p))) [] j \<longrightarrow> segments_kept P metas (pl_storage p) (pl_storage p') j)"
  using assms
proof (induction ks arbitrary: p)
  case (Cons k ks)
  obtain q p1 where w: "pipeline_release_segment P k p = (q, p1)" by fastforce
  note R = release_effect [OF Cons.prems(1) w]
  have ref: "0 < refs (g (caps (pl_catalog p))) ks j" if "0 < refs (g (caps (pl_catalog p))) [] j" for j
    using that by (simp add: refs_def)
  show ?case
  proof (cases q)
    case (Ok u)
    then have run: "for_each (pipeline_release_segment P) ks p1 = (r, p')" using Cons.prems(2) w by simp
    have "invg g E ks p1" using R Ok by simp
    note IH = Cons.IH [OF this run]
    have "segments_kept P metas (pl_storage p) (pl_storage p') j" if "0 < refs (g (caps (pl_catalog p))) [] j" for j
      by (rule segments_kept_trans [of P metas _ "pl_storage p1"]) (use R IH that ref [OF that] in auto)
    then show ?thesis using R IH by auto
  next
    case (Err e)
    then have out: "p' = p1" "r = Err e" using Cons.prems(2) w by auto
    have "segments_kept P metas (pl_storage p) (pl_storage p1) j" if "0 < refs (g (caps (pl_catalog p))) [] j" for j
      using R ref [OF that] by auto
    then show ?thesis using R out by auto
  qed
qed (auto simp: segments_kept_def)

lemma delete_effect:
  assumes inv: "inv E [] p" and run: "pipeline_delete_capsule P cid p = (r, p')"
  shows "(\<forall>k. k \<noteq> cid \<longrightarrow> pipeline_read_capsule E P k p' = pipeline_read_capsule E P k p) \<and>
    (hm_get (caps (pl_catalog p)) cid = None \<longrightarrow> r = Err CapsuleNotFound \<and> p' = p) \<and>
    (is_ok r \<longrightarrow> inv E [] p' \<and> pipeline_read_capsule E P cid p' = Err CapsuleNotFound)"
proof (cases "hm_get (caps (pl_catalog p)) cid")
  case None
  then have "r = Err CapsuleNotFound \<and> p' = p"
    using run by (simp add: pipeline_delete_capsule_def cat.lookup op_simps)
  then show ?thesis by simp
next
  case (Some c)
  note I = invD [OF inv]
  have start: "invg (hm_remove cid) E (cap_segments c) p"
  proof -
    have "refs (hm_remove cid (caps (pl_catalog p))) (cap_segments c) k = refs (caps (pl_catalog p)) [] k" for k
      using capsule_refs_remove [OF I(1) Some, of k] by (simp add: refs_def)
    then show ?thesis using inv I(1) unfolding modular_inv_def by simp
  qed
  obtain q p1 where w: "for_each (pipeline_release_segment P) (cap_segments c) p = (q, p1)" by fastforce
  have W: "caps (pl_catalog p1) = caps (pl_catalog p)"
    "is_ok q \<longrightarrow> invg (hm_remove cid) E [] p1"
    "0 < refs (hm_remove cid (caps (pl_catalog p))) [] j \<Longrightarrow> segments_kept P metas (pl_storage p) (pl_storage p1) j" for j
    using release_capsule_effect [OF start w] by blast+
  have other: "pipeline_read_capsule E P k p2 = pipeline_read_capsule E P k p"
    if k: "k \<noteq> cid" and "pl_storage p2 = pl_storage p1" "hm_get (caps (pl_catalog p2)) k = hm_get (caps (pl_catalog p)) k" for k p2
  proof (rule read_capsule_kept [OF inv])
    show "\<forall>j\<in>(case hm_get (caps (pl_catalog p)) k of Some c \<Rightarrow> set (cap_segments c) | None \<Rightarrow> {}).
        segments_kept P metas (pl_storage p) (pl_storage p2) j"
    proof
      fix j assume j: "j \<in> (case hm_get (caps (pl_catalog p)) k of Some c \<Rightarrow> set (cap_segments c) | None \<Rightarrow> {})"
      then obtain c' where c': "hm_get (caps (pl_catalog p)) k = Some c'" "j \<in> set (cap_segments c')"
        by (auto split: option.splits)
      have "0 < refs (hm_remove cid (caps (pl_catalog p))) [] j"
        by (rule capsule_refs_mem [OF _ _ c'(2), where cid = k]) (use I(1) c'(1) k in simp_all)
      then show "segments_kept P metas (pl_storage p) (pl_storage p2) j" using W(3) that(2) by simp
    qed
  qed (use that in simp)
  have same: "hm_get (caps (pl_catalog p1)) k = hm_get (caps (pl_catalog p)) k" if "k \<noteq> cid" for k
    using W(1) by simp
  show ?thesis
  proof (cases q)
    case (Err e)
    then have "p' = p1" "r = Err e" using run Some w by (simp_all add: pipeline_delete_capsule_def cat.lookup op_simps)
    then show ?thesis using other same Some by simp
  next
    case (Ok u)
    obtain rd c' where d: "cat_delete_capsule (pi_catalog P) cid (pl_catalog p1) = (rd, c')" by fastforce
    note D = cat.delete [OF d]
    have out: "p' = p1\<lparr>pl_catalog := c'\<rparr>"
      using run Some w Ok d by (auto simp: pipeline_delete_capsule_def cat.lookup op_simps on_catalog_def split: result.splits)
    have "inv E [] p'"
      using W(2) Ok D by (simp add: modular_inv_def out stored_view_def)
    moreover have "pipeline_read_capsule E P cid p' = Err CapsuleNotFound"
      using D by (simp add: read_capsule_eq out)
    moreover have "pipeline_read_capsule E P k p' = pipeline_read_capsule E P k p" if "k \<noteq> cid" for k
      by (rule other [OF that]) (use same [OF that] that D in \<open>simp_all add: out\<close>)
    ultimately show ?thesis using Some by simp
  qed
qed


section \<open>Garbage collection\<close>

text \<open>Which segments the collection removes.\<close>

definition unreferenced where
  "unreferenced p k \<longleftrightarrow> (\<exists>m. meta_of p k = Some m \<and>
     \<not> (k \<in> set (capsule_refs (caps (pl_catalog p))) \<and> seg_ref_count m > 0))"

lemma stage_delete_next:
  assumes "sto_begin_txn (pi_storage P) s0 = Ok t0" "for_each (stage (pi_storage P)) (map StageDelete js) (s0, t0) = (Ok (), (s, t))"
  obtains s' t' where "txn_delete (pi_storage P) k (s, t) = (Ok (), (s', t'))"
    "for_each (stage (pi_storage P)) (map StageDelete (js @ [k])) (s0, t0) = (Ok (), (s', t'))"
proof -
  obtain s' t' where a: "for_each (stage (pi_storage P)) (map StageDelete (js @ [k])) (s0, t0) = (Ok (), (s', t'))"
    using st.commit_deletes [OF assms(1), of "js @ [k]"] by blast
  then have "txn_delete (pi_storage P) k (s, t) = (Ok (), (s', t'))"
    using assms(2) by (auto simp: for_each_append split: result.splits prod.splits)
  then show ?thesis using a that by blast
qed

text \<open>A deregistration beside the transaction only touches the catalog's content.\<close>

lemma catalog_deregister_step:
  assumes "beside_txn (bind_op (on_catalog (cat_deregister_content (pi_catalog P) h k)) (\<lambda>_. return_op ())) (p, t) = (q, (p', t'))"
  shows "t' = t \<and> pl_storage p' = pl_storage p \<and> pl_keys p' = pl_keys p \<and> next_id (pl_catalog p') = next_id (pl_catalog p) \<and>
    caps (pl_catalog p') = caps (pl_catalog p) \<and>
    content (pl_catalog p') = (if hm_get (content (pl_catalog p)) h = Some k then hm_remove h (content (pl_catalog p))
      else content (pl_catalog p))"
proof -
  obtain rb c where d: "cat_deregister_content (pi_catalog P) h k (pl_catalog p) = (rb, c)" by fastforce
  have "t' = t" "p' = p\<lparr>pl_catalog := c\<rparr>"
    using assms d by (auto simp: beside_txn_def on_catalog_def op_simps split: result.splits)
  then show ?thesis using cat.deregister [OF d] by simp
qed

lemma collect_effect:
  assumes "sto_begin_txn (pi_storage P) s0 = Ok t0" "for_each (stage (pi_storage P)) (map StageDelete js) (s0, t0) = (Ok (), (pl_storage p, t))"
    and "metas (pl_storage p) = metas s0" "referenced = set (capsule_refs (caps (pl_catalog p)))"
    and "\<forall>h k. hm_get cm k = Some h \<longleftrightarrow> hm_get c0 h = Some k"
    and "\<forall>h. hm_get (content (pl_catalog p)) h = (case hm_get c0 h of Some k \<Rightarrow> if k \<in> set js then None else Some k | None \<Rightarrow> None)"
    and "hm_ok (content (pl_catalog p))" "collect_loop P referenced cm sids n (p, t) = (r, (p', t'))"
  shows "pl_keys p' = pl_keys p \<and> caps (pl_catalog p') = caps (pl_catalog p) \<and> next_id (pl_catalog p') = next_id (pl_catalog p) \<and>
    hm_ok (content (pl_catalog p')) \<and>
    (\<exists>js'. for_each (stage (pi_storage P)) (map StageDelete (js @ js')) (s0, t0) = (Ok (), (pl_storage p', t')) \<and>
       (\<forall>x. r = Ok x \<longrightarrow> x = n + length js' \<and> js' = filter (unreferenced p) sids \<and>
          (\<forall>h. hm_get (content (pl_catalog p')) h =
             (case hm_get c0 h of Some k \<Rightarrow> if k \<in> set (js @ js') then None else Some k | None \<Rightarrow> None))))"
  using assms(2-8)
proof (induction sids arbitrary: js p t n)
  case Nil
  then show ?case by (auto intro!: exI [of _ "[]"] split: option.splits)
next
  case (Cons k sids)
  show ?case
  proof (cases "unreferenced p k")
    case False
    have "collect_loop P referenced cm sids n (p, t) = (r, (p', t'))"
      using Cons.prems(7) False Cons.prems(3)
      by (cases "meta_of p k") (auto simp: st.metadata unreferenced_def split: if_splits)
    from Cons.IH [OF Cons.prems(1-6) this] show ?thesis using False by simp
  next
    case True
    obtain m where m: "meta_of p k = Some m" "\<not> (k \<in> referenced \<and> seg_ref_count m > 0)"
      using True Cons.prems(3) by (auto simp: unreferenced_def)
    obtain s1 t1 where d: "txn_delete (pi_storage P) k (pl_storage p, t) = (Ok (), (s1, t1))"
      "for_each (stage (pi_storage P)) (map StageDelete (js @ [k])) (s0, t0) = (Ok (), (s1, t1))"
      by (rule stage_delete_next [OF assms(1) Cons.prems(1)])
    have m1: "metas s1 = metas s0" using st.staged_all [OF d(2)] by simp
    let ?p1 = "p\<lparr>pl_storage := s1\<rparr>"
    let ?dereg = "case hm_get cm k of
        Some h \<Rightarrow> beside_txn (bind_op (on_catalog (cat_deregister_content (pi_catalog P) h k)) (\<lambda>_. return_op ()))
      | None \<Rightarrow> return_op ()"
    obtain q p2 t2 where w: "?dereg (?p1, t1) = (q, (p2, t2))" by (metis prod_cases3)
    have step: "t2 = t1 \<and> pl_storage p2 = s1 \<and> pl_keys p2 = pl_keys p \<and> next_id (pl_catalog p2) = next_id (pl_catalog p) \<and>
        caps (pl_catalog p2) = caps (pl_catalog p) \<and> hm_ok (content (pl_catalog p2)) \<and>
        (\<forall>h. hm_get (content (pl_catalog p2)) h =
           (case hm_get c0 h of Some j \<Rightarrow> if j \<in> set (js @ [k]) then None else Some j | None \<Rightarrow> None))"
    proof (cases "hm_get cm k")
      case None
      then have "p2 = ?p1" "t2 = t1" using w by (simp_all add: return_op_def)
      moreover have "hm_get c0 h \<noteq> Some k" for h using None Cons.prems(4) by (metis option.distinct(1))
      ultimately show ?thesis using Cons.prems(5,6) by (auto split: option.splits)
    next
      case (Some h)
      note D = catalog_deregister_step [of h k ?p1 t1 q p2 t2]
      have "beside_txn (bind_op (on_catalog (cat_deregister_content (pi_catalog P) h k)) (\<lambda>_. return_op ())) (?p1, t1) = (q, (p2, t2))"
        using w Some by simp
      note D = D [OF this]
      have only: "hm_get c0 j = Some k \<longleftrightarrow> j = h" for j using Some Cons.prems(4) by (metis option.inject)
      have "hm_get (content (pl_catalog p2)) j =
          (case hm_get c0 j of Some i \<Rightarrow> if i \<in> set (js @ [k]) then None else Some i | None \<Rightarrow> None)" for j
        using D Cons.prems(5) only [of j] only [of h] by (cases "j = h") (auto split: option.splits if_splits)
      then show ?thesis using D Cons.prems(6) by auto
    qed
    have run: "collect_loop P referenced cm (k # sids) n (p, t) =
        (case q of Err e \<Rightarrow> (Err e, (p2, t2)) | Ok _ \<Rightarrow> collect_loop P referenced cm sids (n + 1) (p2, t2))"
      using m d(1) w by (auto simp: st.metadata bind_op_def on_txn_def zoom_def split: result.splits)
    show ?thesis
    proof (cases q)
      case (Err e)
      then have "r = Err e" "p' = p2" "t' = t2" using run Cons.prems(7) by simp_all
      then show ?thesis using step d(2) by (auto intro!: exI [of _ "[k]"])
    next
      case (Ok u)
      then have run2: "collect_loop P referenced cm sids (n + 1) (p2, t2) = (r, (p', t'))" using run Cons.prems(7) by simp
      have pre: "for_each (stage (pi_storage P)) (map StageDelete (js @ [k])) (s0, t0) = (Ok (), (pl_storage p2, t2))"
        "metas (pl_storage p2) = metas s0" "referenced = set (capsule_refs (caps (pl_catalog p2)))"
        using step d(2) m1 Cons.prems(3) by simp_all
      have unref: "unreferenced p2 = unreferenced p"
        using step m1 Cons.prems(2) by (simp add: unreferenced_def [abs_def])
      have c2: "\<forall>h. hm_get (content (pl_catalog p2)) h =
           (case hm_get c0 h of Some j \<Rightarrow> if j \<in> set (js @ [k]) then None else Some j | None \<Rightarrow> None)"
        and ok2: "hm_ok (content (pl_catalog p2))" using step by blast+
      from Cons.IH [OF pre Cons.prems(4) c2 ok2 run2] obtain js' where J:
        "for_each (stage (pi_storage P)) (map StageDelete ((js @ [k]) @ js')) (s0, t0) = (Ok (), (pl_storage p', t'))"
        "\<forall>x. r = Ok x \<longrightarrow> x = n + 1 + length js' \<and> js' = filter (unreferenced p) sids \<and>
          (\<forall>h. hm_get (content (pl_catalog p')) h =
             (case hm_get c0 h of Some j \<Rightarrow> if j \<in> set ((js @ [k]) @ js') then None else Some j | None \<Rightarrow> None))"
        "pl_keys p' = pl_keys p2" "caps (pl_catalog p') = caps (pl_catalog p2)" "next_id (pl_catalog p') = next_id (pl_catalog p2)"
        "hm_ok (content (pl_catalog p'))"
        unfolding unref by blast
      have eq: "(js @ [k]) @ js' = js @ (k # js')" by simp
      show ?thesis using J [unfolded eq] step True by (intro conjI exI [of _ "k # js'"]) (simp_all, auto)
    qed
  qed
qed


text \<open>Under the invariant a segment has one content entry at most, so the inverted map is exact.\<close>

lemma invert_exact:
  assumes inv: "inv E [] p"
  shows "hm_get (invert_content (content (pl_catalog p))) k = Some h \<longleftrightarrow> hm_get (content (pl_catalog p)) h = Some k"
proof -
  note I = invD [OF inv]
  let ?es = "filter (\<lambda>e. snd e = k) (content (pl_catalog p))"
  have "e = (the (seg_content_hash (the (meta_of p k))), k)" if "e \<in> set ?es" for e
  proof -
    have "fst e = the (seg_content_hash (the (meta_of p k)))" "snd e = k"
      using that I(5) I(3) [of "fst e" k] by (auto simp: hm_get_iff)
    then show ?thesis by (cases e) simp
  qed
  moreover have "distinct ?es" using I(5) by (simp add: hm_ok_def distinct_map)
  ultimately have "length ?es \<le> 1" by (rule one_element [rotated])
  then have "distinct (map snd ?es)" by (cases ?es) auto
  from invert_content_get [OF this, of h] show ?thesis using I(5) by (simp add: hm_get_iff)
qed

lemma gc_effect:
  assumes inv: "inv E [] p" and run: "pipeline_garbage_collect P p = (r, p')"
  shows "(\<forall>cid. pipeline_read_capsule E P cid p' = pipeline_read_capsule E P cid p) \<and>
    (\<forall>n. r = Ok n \<longrightarrow> inv E [] p' \<and>
       n = length (filter (\<lambda>k. refs (caps (pl_catalog p)) [] k = 0) (hm_keys (metas (pl_storage p)))) \<and>
       (\<forall>k. meta_of p' k = (if refs (caps (pl_catalog p)) [] k = 0 then None else meta_of p k)))"
proof -
  note I = invD [OF inv]
  obtain t where t: "sto_begin_txn (pi_storage P) (pl_storage p) = Ok t" using st.begin_Ok by blast
  let ?ref = "set (capsule_refs (caps (pl_catalog p)))" and ?cm = "invert_content (content (pl_catalog p))"
  obtain q p1 t1 where w: "collect_loop P ?ref ?cm (hm_keys (metas (pl_storage p))) 0 (p, t) = (q, (p1, t1))" by (metis prod_cases3)
  have c0: "\<forall>h k. hm_get ?cm k = Some h \<longleftrightarrow> hm_get (content (pl_catalog p)) h = Some k" using invert_exact [OF inv] by blast
  have same: "\<forall>h. hm_get (content (pl_catalog p)) h =
      (case hm_get (content (pl_catalog p)) h of Some k \<Rightarrow> if k \<in> set [] then None else Some k | None \<Rightarrow> None)"
    by (auto split: option.splits)
  have empty: "for_each (stage (pi_storage P)) (map StageDelete []) (pl_storage p, t) = (Ok (), (pl_storage p, t))" by simp
  from collect_effect [OF t empty refl refl c0 same I(5) w] obtain js where
    C: "pl_keys p1 = pl_keys p" "caps (pl_catalog p1) = caps (pl_catalog p)" "next_id (pl_catalog p1) = next_id (pl_catalog p)"
      "hm_ok (content (pl_catalog p1))"
      "for_each (stage (pi_storage P)) (map StageDelete js) (pl_storage p, t) = (Ok (), (pl_storage p1, t1))"
      "\<forall>x. q = Ok x \<longrightarrow> x = length js \<and> js = filter (unreferenced p) (hm_keys (metas (pl_storage p))) \<and>
          (\<forall>h. hm_get (content (pl_catalog p1)) h =
             (case hm_get (content (pl_catalog p)) h of Some k \<Rightarrow> if k \<in> set js then None else Some k | None \<Rightarrow> None))"
    by (simp only: append_Nil add_0) blast
  have unref: "unreferenced p k \<longleftrightarrow> meta_of p k \<noteq> None \<and> refs (caps (pl_catalog p)) [] k = 0" for k
  proof -
    have "k \<in> ?ref \<longleftrightarrow> 0 < refs (caps (pl_catalog p)) [] k" by (simp add: refs_def count_list_mem [symmetric])
    moreover have "seg_ref_count m > 0" if "0 < refs (caps (pl_catalog p)) [] k" "meta_of p k = Some m" for m
      using I(4) [of k] that by (auto simp: word_less_nat_alt)
    ultimately show ?thesis by (auto simp: unreferenced_def)
  qed
  have gc: "pipeline_garbage_collect P p = txn_session (pi_storage P) (collect_loop P ?ref ?cm (hm_keys (metas (pl_storage p))) 0) p"
    by (simp add: pipeline_garbage_collect_def cat.capsules cat.content_entries st.segment_ids op_simps capsule_refs_def)
  show ?thesis
  proof (cases q)
    case (Err e)
    then have out: "r = Err e" "p' = p1\<lparr>pl_storage := sto_drop (pi_storage P) (pl_storage p1, t1)\<rparr>"
      using run t w by (simp_all add: gc txn_session_def)
    have "pipeline_read_capsule E P cid p' = pipeline_read_capsule E P cid p" for cid
    proof (rule read_capsule_kept [OF inv])
      show "\<forall>k\<in>(case hm_get (caps (pl_catalog p)) cid of Some c \<Rightarrow> set (cap_segments c) | None \<Rightarrow> {}).
          segments_kept P metas (pl_storage p) (pl_storage p') k"
        using st.staged_all [OF C(5)] st.drop_same [of "pl_storage p1" t1] by (simp add: out segments_kept_def)
    qed (use C(2) in \<open>simp add: out\<close>)
    then show ?thesis using out by simp
  next
    case (Ok n)
    have js: "n = length js" "js = filter (unreferenced p) (hm_keys (metas (pl_storage p)))"
      and ct: "hm_get (content (pl_catalog p1)) h =
          (case hm_get (content (pl_catalog p)) h of Some k \<Rightarrow> if k \<in> set js then None else Some k | None \<Rightarrow> None)" for h
      using C(6) Ok by blast+
    obtain s2 where s2: "txn_commit (pi_storage P) (pl_storage p1, t1) = (Ok (), s2)"
      "\<forall>k. hm_get (metas s2) k = (if k \<in> set js then None else meta_of p k)"
      "\<forall>k. k \<notin> set js \<longrightarrow> sto_read (pi_storage P) k s2 = sto_read (pi_storage P) k (pl_storage p)"
      using st.commit_deletes [OF t, of js] C(5) by auto
    have out: "r = Ok n" "p' = p1\<lparr>pl_storage := s2\<rparr>"
      using run t w Ok s2(1) by (simp_all add: gc txn_session_def)
    have mem: "k \<in> set js \<longleftrightarrow> meta_of p k \<noteq> None \<and> refs (caps (pl_catalog p)) [] k = 0" for k
      by (auto simp: js(2) unref map_of_eq_None_iff)
    have kept: "segments_kept P metas (pl_storage p) s2 k" if "k \<notin> set js" for k
      using that s2(2,3) by (simp add: segments_kept_def)
    have read: "pipeline_read_capsule E P cid p' = pipeline_read_capsule E P cid p" for cid
    proof (rule read_capsule_kept [OF inv])
      show "\<forall>k\<in>(case hm_get (caps (pl_catalog p)) cid of Some c \<Rightarrow> set (cap_segments c) | None \<Rightarrow> {}).
          segments_kept P metas (pl_storage p) (pl_storage p') k"
      proof
        fix k assume "k \<in> (case hm_get (caps (pl_catalog p)) cid of Some c \<Rightarrow> set (cap_segments c) | None \<Rightarrow> {})"
        then obtain c where "hm_get (caps (pl_catalog p)) cid = Some c" "k \<in> set (cap_segments c)" by (auto split: option.splits)
        then have "0 < refs (caps (pl_catalog p)) [] k" by (rule capsule_refs_mem [OF I(1)])
        then show "segments_kept P metas (pl_storage p) (pl_storage p') k" using kept mem by (simp add: out)
      qed
    qed (use C(2) in \<open>simp add: out\<close>)
    have view: "stored_view P p' k m v \<longleftrightarrow> stored_view P p k m v" if "k \<notin> set js" for k m v
      by (rule stored_view_cong) (use that s2(3) in \<open>simp_all add: out\<close>)
    have "inv E [] p'"
      unfolding modular_inv_def
    proof (intro conjI allI impI)
      show "unat (seg_num k) < unat (next_id (pl_catalog p'))" if "meta_of p' k = Some m" for k m
        using that I(2) C(3) s2(2) by (auto simp: out split: if_splits)
      show "\<exists>m v. meta_of p' k = Some m \<and> seg_content_hash m = Some h \<and> stored_view P p' k m v \<and> hash_content E v = h"
        if "hm_get (content (pl_catalog p')) h = Some k" for h k
      proof -
        have "hm_get (content (pl_catalog p)) h = Some k" "k \<notin> set js"
          using that ct [of h] by (auto simp: out split: option.splits if_splits)
        then show ?thesis using I(3) [of h k] view s2(2) by (auto simp: out)
      qed
      show "refs (caps (pl_catalog p')) [] k \<le> (case meta_of p' k of Some m \<Rightarrow> unat (seg_ref_count m) | None \<Rightarrow> 0)" for k
        using I(4) [of k] C(2) s2(2) mem [of k] by (auto simp: out)
    qed (use I(1) C(2,4) in \<open>simp_all add: out\<close>)
    moreover have "meta_of p' k = (if refs (caps (pl_catalog p)) [] k = 0 then None else meta_of p k)" for k
      using s2(2) mem [of k] by (auto simp: out)
    moreover have "js = filter (\<lambda>k. refs (caps (pl_catalog p)) [] k = 0) (hm_keys (metas (pl_storage p)))"
      unfolding js(2) by (rule filter_cong) (auto simp: unref map_of_eq_None_iff)
    ultimately show ?thesis using read js(1) out(1) by simp
  qed
qed

end

end
