(* ===== verification/Modular_Properties.thy ===== *)
theory Modular_Properties
  imports Modular_Correct
begin

text \<open>
  The properties of the modular pipeline over memory, and what its composition with the NVRAM
  backend and the XTS encryptor does.
\<close>

section \<open>The pipeline over memory\<close>

interpretation mp: modular in_memory_pipeline im_metadata mc_capsules mc_content mc_next_segment
  by (intro modular.intro) (simp_all add: in_memory_pipeline_def im.storage_atomic_axioms mc.capsule_catalog_axioms
      noop.transparent_encryptor_axioms)

type_synonym memory_pipeline = "(unit, in_memory_backend, in_memory_catalog) pipeline"

definition memory_inv :: "ext \<Rightarrow> memory_pipeline \<Rightarrow> bool" where
  "memory_inv E = modular_inv E in_memory_pipeline im_metadata mc_capsules mc_content mc_next_segment []"

definition memory_new :: memory_pipeline where
  "memory_new = pipeline_new () im_new False mc_new"

lemma memory_new_inv: "memory_inv E memory_new"
  by (simp add: memory_inv_def modular_inv_def memory_new_def pipeline_new_def im_new_def mc_new_def refs_def capsule_refs_def)

text \<open>What a write asks of the data and of what is already stored.\<close>

definition memory_writable :: "ext \<Rightarrow> policy \<Rightarrow> bytes \<Rightarrow> memory_pipeline \<Rightarrow> bool" where
  "memory_writable E pol data p \<longleftrightarrow>
     (let cs = chunks (default_segment_size (strategy (layout pol))) data
      in length data < 2 ^ 64 \<and> modular_room im_metadata mc_next_segment (length cs) p \<and>
         collision_free E (stored_views in_memory_pipeline im_metadata p \<union> views_of E (compression pol) cs) \<and>
         distinct_views E (compression pol) cs \<and> coherent E in_memory_pipeline im_metadata (compression pol) cs p)"

text \<open>C7: The modular pipeline reads back what it wrote: over memory, in any state satisfying the invariant,
  when a write returns \<open>Ok\<close> the new capsule reads as the data. The data is divided by the layout
  plan, compressed chunk by chunk and shared by content. BLAKE3 must not collide on the views
  stored or written, and two chunks (or a chunk and a stored segment) with the same compressed
  bytes must stand for the same data.\<close>

theorem modular_write_read:
  assumes "memory_inv E p" "memory_writable E pol data p"
    and "pipeline_write_capsule E in_memory_pipeline now cid data pol p = (Ok x, p')"
  shows "x = cid \<and> pipeline_read_capsule E in_memory_pipeline cid p' = Ok data"
  using mp.write_effect [OF _ _ refl _ _ _ _ assms(3)] assms(1,2)
  by (simp add: memory_inv_def memory_writable_def Let_def)

text \<open>A modular write, whether it succeeds or fails, keeps the invariant (every content entry points at a
  stored segment holding that content, every reference is counted) and changes no other capsule.\<close>

theorem modular_write_isolates:
  assumes "memory_inv E p" "memory_writable E pol data p"
    and "pipeline_write_capsule E in_memory_pipeline now cid data pol p = (r, p')"
  shows "memory_inv E p' \<and>
    (\<forall>k. k \<noteq> cid \<longrightarrow> pipeline_read_capsule E in_memory_pipeline k p' = pipeline_read_capsule E in_memory_pipeline k p)"
  using mp.write_effect [OF _ _ refl _ _ _ _ assms(3)] assms(1,2)
  by (simp add: memory_inv_def memory_writable_def Let_def)

text \<open>C8: Modular deletion: an unknown capsule is refused without change; otherwise, when it returns \<open>Ok\<close>, the
  invariant holds, the capsule is gone, and in every case every other capsule reads as before,
  although segments are shared between capsules.\<close>

theorem modular_delete_isolates:
  assumes "memory_inv E p" "pipeline_delete_capsule in_memory_pipeline cid p = (r, p')"
  shows "(\<forall>k. k \<noteq> cid \<longrightarrow> pipeline_read_capsule E in_memory_pipeline k p' = pipeline_read_capsule E in_memory_pipeline k p) \<and>
    (hm_get (mc_capsules (pl_catalog p)) cid = None \<longrightarrow> r = Err CapsuleNotFound \<and> p' = p) \<and>
    (is_ok r \<longrightarrow> memory_inv E p' \<and> pipeline_read_capsule E in_memory_pipeline cid p' = Err CapsuleNotFound)"
  using mp.delete_effect [OF _ assms(2)] assms(1) by (simp add: memory_inv_def)

text \<open>Modular garbage collection removes exactly the segments no capsule refers to, returns their number,
  keeps the invariant and leaves what every capsule reads as unchanged.\<close>

theorem modular_gc_exact:
  assumes "memory_inv E p" "pipeline_garbage_collect in_memory_pipeline p = (r, p')"
  shows "(\<forall>cid. pipeline_read_capsule E in_memory_pipeline cid p' = pipeline_read_capsule E in_memory_pipeline cid p) \<and>
    (\<forall>n. r = Ok n \<longrightarrow> memory_inv E p' \<and>
       n = length (filter (\<lambda>k. refs (mc_capsules (pl_catalog p)) [] k = 0) (hm_keys (im_metadata (pl_storage p)))) \<and>
       (\<forall>k. hm_get (im_metadata (pl_storage p')) k =
          (if refs (mc_capsules (pl_catalog p)) [] k = 0 then None else hm_get (im_metadata (pl_storage p)) k)))"
  using mp.gc_effect [OF _ assms(2)] assms(1) by (simp add: memory_inv_def)

section \<open>A concrete pipeline\<close>

definition small_policy :: policy where
  "small_policy = precompressed\<lparr>layout := default_layout\<lparr>strategy := Fixed 4\<rparr>\<rparr>"

definition small_data :: bytes where
  "small_data = [1, 2, 3, 4, 5]"

lemma small_facts:
  "default_segment_size (strategy (layout small_policy)) = 4" "compression small_policy = CompressionNone"
  "encryption small_policy = Disabled" "chunks 4 small_data = [[1, 2, 3, 4], [5]]"
  by (simp_all add: small_policy_def precompressed_def default_layout_def small_data_def chunks.simps)

lemma small_strategy: "strategy (layout small_policy) = Fixed 4"
  by (simp add: small_policy_def)

lemma none_compress: "lzc_compress E d CompressionNone = Ok (v, s) \<longleftrightarrow> v = d \<and> s =
   \<lparr>cs_original_size = length d, cs_output_size = length d, cs_algorithm = ''identity'', cs_compressed = False,
    cs_reused_input = True, cs_reason = Some IneffectiveReason\<rparr>"
  by (auto simp: lzc_compress_def compress_segment_def adaptive_compress_def skipped_result_def new_summary_def)

lemma lzc_none: "lzc_compress E d CompressionNone = Ok (d,
   \<lparr>cs_original_size = length d, cs_output_size = length d, cs_algorithm = ''identity'', cs_compressed = False,
    cs_reused_input = True, cs_reason = Some IneffectiveReason\<rparr>)"
  by (simp add: none_compress)

lemma small_hashes: "content_hash_from_bytes sample_ext (ext_blake3 sample_ext [1, 2, 3, 4]) \<noteq>
    content_hash_from_bytes sample_ext (ext_blake3 sample_ext [5])"
  by code_simp

lemma small_views: "views_of sample_ext CompressionNone [[1, 2, 3, 4], [5]] = {[1, 2, 3, 4], [5]}"
  by (auto simp: views_of_def none_compress)

lemma small_collision_free: "collision_free sample_ext {[1, 2, 3, 4], [5]}"
  using small_hashes by (auto simp: collision_free_def inj_on_def)

lemma small_writable: "memory_writable sample_ext small_policy small_data memory_new"
proof -
  have s: "stored_views in_memory_pipeline im_metadata memory_new = {}"
    by (simp add: stored_views_def memory_new_def pipeline_new_def im_new_def)
  show ?thesis using small_collision_free
    by (simp add: memory_writable_def small_facts small_views s distinct_views_def coherent_def none_compress)
      (simp add: memory_new_def pipeline_new_def im_new_def mc_new_def modular_room_def small_data_def)
qed

lemma layout_fixed_refs:
  assumes "strategy (layout pol) = Fixed n" "0 < n"
  shows "\<exists>zp. layout_synthesize E fresh pol capsules (chunks n data) = Ok (Some zp) \<and>
    plan_refs zp = refs_from E (capsule_id_for fresh capsules) 0 (chunks n data)"
proof -
  have n: "0 < default_segment_size (Fixed n)" using assms(2) by simp
  obtain zp where zp: "build_plan E fresh (Fixed n) capsules (chunks n data) = Some zp" using build_plan_total [OF n] by blast
  have "plan_refs zp = refs_from E (capsule_id_for fresh capsules) 0 (chunks n data)"
    using build_plan_refs [OF n zp] chunks_of_chunks [OF assms(2), of data] by simp
  then show ?thesis using zp assms(1) by (simp add: layout_synthesize_def layout_compile_def cpu_fixed_synthesize_def)
qed

text \<open>A write whose policy has a fixed segment size, over the references of its chunks.\<close>

lemma write_fixed:
  assumes "strategy (layout pol) = Fixed n" "0 < n"
  shows "pipeline_write_capsule E P now cid data pol p =
    (case write_segments E P (compression pol) (encryption pol) cid data (refs_from E cid 0 (chunks n data)) [] new_stats p of
       (Err e, p1) \<Rightarrow> (Err e, p1)
     | (Ok (ids, st), p1) \<Rightarrow>
         bind_op (on_catalog (cat_create_capsule (pi_catalog P) now cid (of_nat (length data)) pol ids st)) (\<lambda>_. return_op cid) p1)"
proof -
  obtain zp where "layout_synthesize E cid pol [cid] (chunks n data) = Ok (Some zp)" "plan_refs zp = refs_from E cid 0 (chunks n data)"
    using layout_fixed_refs [OF assms, of E cid "[cid]" data] by (auto simp: capsule_id_for_def)
  then show ?thesis using assms by (simp add: write_capsule_unfold [of n])
qed

lemma pipeline_parts:
  "pi_storage in_memory_pipeline = in_memory_ops" "pi_catalog in_memory_pipeline = memory_catalog"
  "pi_storage nvram_pipeline = nvram_ops" "pi_catalog nvram_pipeline = memory_catalog"
  "pi_storage (nvram_xts_pipeline E) = nvram_ops" "pi_catalog (nvram_xts_pipeline E) = memory_catalog"
  "pi_encryptor in_memory_pipeline = noop_encryptor" "pi_encryptor nvram_pipeline = noop_encryptor"
  "pi_encryptor (nvram_xts_pipeline E) = xts_encryptor E" "pi_keyring (nvram_xts_pipeline E) = key_manager_keyring E"
  by (simp_all add: in_memory_pipeline_def nvram_pipeline_def nvram_xts_pipeline_def)

lemma memory_catalog_parts:
  "cat_allocate_segment memory_catalog = mc_allocate_segment" "cat_create_capsule memory_catalog = mc_create_capsule"
  "cat_lookup_content memory_catalog h c = hm_get (mc_content c) h" "cat_register_content memory_catalog = mc_register_content"
  "cat_lookup_capsule memory_catalog = mc_lookup_capsule"
  by (simp_all add: memory_catalog_def)

lemma in_memory_parts:
  "sto_begin_txn in_memory_ops b = Ok imt_new" "txn_append in_memory_ops = imt_append"
  "txn_set_segment_metadata in_memory_ops = imt_set_segment_metadata" "txn_commit in_memory_ops = imt_commit"
  "sto_metadata in_memory_ops = im_get_metadata" "sto_read in_memory_ops = im_read"
  by (simp_all add: in_memory_ops_def)

lemma nvram_parts:
  "sto_begin_txn nvram_ops lg = Ok \<lparr>nst_inner = nv_begin_transaction lg, nst_deleted = []\<rparr>" "txn_append nvram_ops = nst_append"
  "txn_set_segment_metadata nvram_ops sid m = on_inner (tx_set_segment_metadata sid m)" "txn_commit nvram_ops = nst_commit"
  "sto_metadata nvram_ops = nv_get_segment_metadata" "sto_read nvram_ops = nv_read"
  "sto_drop nvram_ops (lg, t) = tx_drop (lg, nst_inner t)"
  by (simp_all add: nvram_ops_def)

lemmas modular_run_defs = write_fixed segment_at_def write_planned_def op_simps lzc_none Let_def hash_content_def
  share_segment_def store_segment_def txn_session_def on_txn_def beside_txn_def on_catalog_def on_keys_def on_storage_def
  encrypt_payload_def new_metadata_def new_encryption_summary_def count_segment_def pipeline_new_def new_deduper_def
  pipeline_parts memory_catalog_parts mc_new_def mc_allocate_segment_def mc_register_content_def mc_create_capsule_def
  small_facts small_strategy

lemmas memory_run_defs = in_memory_parts imt_append_def imt_set_segment_metadata_def imt_commit_def im_new_def imt_new_def
  im_get_metadata_def im_read_def

lemma small_write:
  "fst (pipeline_write_capsule sample_ext in_memory_pipeline (Some 0) (CapsuleId [1]) small_data small_policy memory_new) =
     Ok (CapsuleId [1])"
  using small_hashes
  by (simp add: modular_run_defs memory_run_defs memory_new_def) (simp add: small_data_def modular_run_defs memory_run_defs)

theorem modular_write_read_witness:
  "\<exists>p'. pipeline_write_capsule sample_ext in_memory_pipeline (Some 0) (CapsuleId [1]) small_data small_policy memory_new =
      (Ok (CapsuleId [1]), p') \<and> pipeline_read_capsule sample_ext in_memory_pipeline (CapsuleId [1]) p' = Ok small_data"
proof -
  obtain r p' where run: "pipeline_write_capsule sample_ext in_memory_pipeline (Some 0) (CapsuleId [1]) small_data small_policy memory_new = (r, p')"
    by fastforce
  then have r: "r = Ok (CapsuleId [1])" using small_write by simp
  from modular_write_read [OF memory_new_inv small_writable run [unfolded r]] run r show ?thesis by blast
qed

lemma small_written:
  "memory_inv sample_ext (snd (pipeline_write_capsule sample_ext in_memory_pipeline (Some 0) (CapsuleId [1]) small_data small_policy memory_new))"
  using mp.write_effect [OF _ _ refl _ _ _ _ prod.collapse [symmetric]] memory_new_inv small_writable
  by (simp add: memory_inv_def memory_writable_def Let_def)

theorem modular_write_isolates_witness:
  "memory_inv sample_ext (snd (pipeline_write_capsule sample_ext in_memory_pipeline (Some 0) (CapsuleId [1]) small_data small_policy memory_new))"
  by (rule modular_write_isolates [OF memory_new_inv small_writable prod.collapse [symmetric], THEN conjunct1])

text \<open>The same data written twice: the second capsule shares both segments of the first.\<close>

definition small_once :: memory_pipeline where
  "small_once = snd (pipeline_write_capsule sample_ext in_memory_pipeline (Some 0) (CapsuleId [1]) small_data small_policy memory_new)"

definition small_twice :: memory_pipeline where
  "small_twice = snd (pipeline_write_capsule sample_ext in_memory_pipeline (Some 0) (CapsuleId [2]) small_data small_policy small_once)"

lemma small_takes: "take 4 small_data = [1, 2, 3, 4]" "drop 4 small_data = [5]" "length small_data = 5"
  by (simp_all add: small_data_def)

lemmas read_run_defs = pipeline_read_capsule_def pipeline_read_segment_def mc_lookup_capsule_def

lemmas delete_run_defs = pipeline_delete_capsule_def pipeline_release_segment_def mc_lookup_capsule_def mc_deregister_content_def
  mc_delete_capsule_def memory_catalog_def

lemmas small_run_defs = small_twice_def small_once_def modular_run_defs memory_run_defs memory_new_def small_takes

lemma small_twice_runs:
  "fst (pipeline_write_capsule sample_ext in_memory_pipeline (Some 0) (CapsuleId [2]) small_data small_policy small_once) = Ok (CapsuleId [2])"
  "pipeline_read_capsule sample_ext in_memory_pipeline (CapsuleId [2]) small_twice = Ok small_data"
  "fst (pipeline_delete_capsule in_memory_pipeline (CapsuleId [1]) small_twice) = Ok ()"
  using small_hashes by (simp_all add: small_run_defs read_run_defs delete_run_defs) (simp add: small_data_def)

lemma small_again: "memory_writable sample_ext small_policy small_data small_once"
proof -
  have s: "stored_views in_memory_pipeline im_metadata small_once \<union> {[1, 2, 3, 4], [5]} = {[1, 2, 3, 4], [5]}"
    using small_hashes by (auto simp: stored_views_def stored_view_def small_run_defs split: if_splits)
  have co: "coherent sample_ext in_memory_pipeline im_metadata CompressionNone [[1, 2, 3, 4], [5]] small_once"
    using small_hashes by (auto simp: coherent_def unpack_def stored_view_def small_run_defs none_compress split: if_splits)
  have ro: "modular_room im_metadata mc_next_segment (Suc (Suc 0)) small_once"
    using small_hashes by (simp add: modular_room_def small_run_defs)
  show ?thesis using s co ro small_collision_free
    by (simp add: memory_writable_def small_facts small_views distinct_views_def none_compress small_takes)
qed

lemma small_twice_inv: "memory_inv sample_ext small_twice"
  using mp.write_effect [OF _ _ refl _ _ _ _ prod.collapse [symmetric]] small_written small_again
  by (simp add: memory_inv_def memory_writable_def Let_def small_twice_def small_once_def)

theorem modular_delete_isolates_witness:
  "\<exists>p'. pipeline_delete_capsule in_memory_pipeline (CapsuleId [1]) small_twice = (Ok (), p') \<and> memory_inv sample_ext p' \<and>
     pipeline_read_capsule sample_ext in_memory_pipeline (CapsuleId [1]) p' = Err CapsuleNotFound \<and>
     pipeline_read_capsule sample_ext in_memory_pipeline (CapsuleId [2]) p' = Ok small_data"
proof -
  obtain p' where run: "pipeline_delete_capsule in_memory_pipeline (CapsuleId [1]) small_twice = (Ok (), p')"
    using small_twice_runs(3) by (metis prod.collapse)
  from modular_delete_isolates [OF small_twice_inv run] small_twice_runs(2) run show ?thesis by simp
qed

theorem modular_gc_exact_witness:
  "\<forall>cid. pipeline_read_capsule sample_ext in_memory_pipeline cid (snd (pipeline_garbage_collect in_memory_pipeline memory_new)) =
     pipeline_read_capsule sample_ext in_memory_pipeline cid memory_new"
  by (rule modular_gc_exact [OF memory_new_inv prod.collapse [symmetric], THEN conjunct1])

section \<open>Sharing across compression settings\<close>

definition run_data :: bytes where
  "run_data = replicate 40 5"

definition run_policy :: policy where
  "run_policy = default_policy\<lparr>layout := default_layout\<lparr>strategy := Fixed 64\<rparr>\<rparr>"

definition frame :: bytes where
  "frame = [4, 34, 5, 40]"

lemma run_compress: "lzc_compress sample_ext run_data (LZ4 1) = Ok (frame,
   \<lparr>cs_original_size = 40, cs_output_size = 40, cs_algorithm = ''lz4:1'', cs_compressed = True, cs_reused_input = False, cs_reason = None\<rparr>)"
  by code_simp

lemma run_decompress: "lzc_decompress sample_ext frame ''lz4:1'' = Ok run_data"
  by code_simp

lemma run_facts: "strategy (layout run_policy) = Fixed 64" "compression run_policy = LZ4 1" "encryption run_policy = Disabled"
  "chunks 64 run_data = [run_data]" "length run_data = 40" "chunks 4 frame = [frame]" "length frame = 4" "take 4 frame = frame"
  "take 40 run_data = run_data"
  by (simp_all add: run_policy_def default_policy_def default_compression_def run_data_def frame_def chunks.simps)

text \<open>The modular pipeline shares segments by the hash of the compressed bytes alone: data equal to the
  compressed form of something already stored is shared with it, and reads back as the other,
  decompressed, data. Here four bytes written without compression read back as forty.\<close>

theorem modular_dedup_confuses_frames:
  "case pipeline_write_capsule sample_ext in_memory_pipeline (Some 0) (CapsuleId [1]) run_data run_policy memory_new of
     (r1, p1) \<Rightarrow> (case pipeline_write_capsule sample_ext in_memory_pipeline (Some 0) (CapsuleId [2]) frame small_policy p1 of
       (r2, p2) \<Rightarrow> r1 = Ok (CapsuleId [1]) \<and> r2 = Ok (CapsuleId [2]) \<and>
         pipeline_read_capsule sample_ext in_memory_pipeline (CapsuleId [2]) p2 = Ok run_data \<and> run_data \<noteq> frame)"
proof -
  have "run_data \<noteq> frame" by code_simp
  then show ?thesis
    by (simp add: modular_run_defs memory_run_defs memory_new_def run_facts run_compress run_decompress read_run_defs)
qed

section \<open>Over the NVRAM backend\<close>

lemma nvram_set_metadata_session:
  assumes "pi_storage P = nvram_ops"
  shows "txn_session (pi_storage P) (on_txn (txn_set_segment_metadata (pi_storage P) k m)) p =
    (Err (PendingNotFound k), p\<lparr>pl_storage := tx_drop (pl_storage p, nv_begin_transaction (pl_storage p))\<rparr>)"
  using nvram_metadata_of_committed [of "pl_storage p" "\<lparr>nst_inner = nv_begin_transaction (pl_storage p), nst_deleted = []\<rparr>" k m]
  by (simp add: assms txn_session_def on_txn_def zoom_def nvram_parts)

lemmas nvram_run_defs = nvram_parts nst_append_def on_inner_def tx_append_segment_def ensure_active_def
  tx_set_segment_metadata_def tx_with_segment_mut_def tx_pending_segment_def nv_begin_transaction_def
  fresh_segment_def nst_commit_def tx_commit_def write_pending_def file_write_def file_sync_def save_segment_map_def
  nv_get_segment_metadata_def nv_read_def tx_drop_def pipeline_with_nvram_def pipeline_with_nvram_xts_def empty_log_def fs_write.simps

text \<open>Over the NVRAM backend the modular pipeline overwrites what it stored: the metadata of a new segment
  has offset zero, and the log's transaction writes where the metadata says. After the first
  capsule was written, writing a second one destroys it.\<close>

theorem modular_nvram_overwrites:
  "case pipeline_write_capsule sample_ext nvram_pipeline (Some 0) (CapsuleId [1]) [1, 2, 3, 4] small_policy
       (pipeline_with_nvram (empty_log [])) of
     (r1, p1) \<Rightarrow> (case pipeline_write_capsule sample_ext nvram_pipeline (Some 0) (CapsuleId [2]) [9, 9] small_policy p1 of
       (r2, p2) \<Rightarrow> r1 = Ok (CapsuleId [1]) \<and> r2 = Ok (CapsuleId [2]) \<and>
         pipeline_read_capsule sample_ext nvram_pipeline (CapsuleId [1]) p1 = Ok [1, 2, 3, 4] \<and>
         pipeline_read_capsule sample_ext nvram_pipeline (CapsuleId [1]) p2 = Ok [9, 9, 3, 4])"
proof -
  have c: "chunks 4 [1, 2, 3, 4 :: u8] = [[1, 2, 3, 4]]" "chunks 4 [9, 9 :: u8] = [[9, 9]]" by (simp_all add: chunks.simps)
  have "content_hash_from_bytes sample_ext (ext_blake3 sample_ext [1, 2, 3, 4]) \<noteq>
      content_hash_from_bytes sample_ext (ext_blake3 sample_ext [9, 9])" by code_simp
  then show ?thesis
    by (simp add: modular_run_defs nvram_run_defs c read_run_defs write_at_def read_at_def)
qed

text \<open>Over the NVRAM backend sharing never works: raising or lowering the reference count of a stored
  segment goes through a transaction that only knows segments staged in it, so writing content
  that is already stored, and deleting a capsule whose segments are shared, always fail.\<close>

theorem modular_nvram_sharing_fails:
  assumes "pi_storage P = nvram_ops"
  shows "\<not> is_ok (fst (share_segment P k summary p)) \<and>
    (\<forall>m. hm_get (nv_segment_map (pl_storage p)) k = Some m \<longrightarrow> seg_ref_count m > 1 \<longrightarrow>
       fst (pipeline_release_segment P k p) = Err (PendingNotFound k))"
proof -
  note session = nvram_set_metadata_session [OF assms]
  have meta: "sto_metadata (pi_storage P) k (pl_storage p) = nv_get_segment_metadata k (pl_storage p)"
    by (simp add: assms nvram_parts)
  show ?thesis
    by (auto simp: share_segment_def pipeline_release_segment_def op_simps meta session Let_def nv_get_segment_metadata_def
        ok_or_def split: option.splits)
qed

theorem modular_nvram_sharing_fails_witness:
  "\<forall>s. \<not> is_ok (fst (share_segment nvram_pipeline (SegmentId 0) s (pipeline_with_nvram (empty_log []))))"
  by (rule allI) (rule modular_nvram_sharing_fails [OF pipeline_parts(3), THEN conjunct1])

section \<open>With the XTS encryptor\<close>

definition secret :: bytes where
  "secret = replicate 20 7"

definition secret_policy :: policy where
  "secret_policy = precompressed\<lparr>layout := default_layout\<lparr>strategy := Fixed 64\<rparr>, encryption := XtsAes256 None\<rparr>"

lemma secret_facts: "strategy (layout secret_policy) = Fixed 64" "compression secret_policy = CompressionNone"
  "encryption secret_policy = XtsAes256 None" "chunks 64 secret = [secret]" "length secret = 20" "take 20 secret = secret"
  by (simp_all add: secret_policy_def precompressed_def secret_def chunks.simps)

lemma sample_key: "km_ok sample_ext km \<Longrightarrow> \<exists>kp km'. get_key sample_ext v km = (Ok kp, km') \<and> km_ok sample_ext km' \<and>
    km_current_version km' = km_current_version km"
  by (cases "get_key sample_ext v km") (auto dest: get_key_effect simp: derive_key_spec [OF sample_hmac_len])

lemma secret_encrypted: "ext_xts_encrypt sample_ext k1 k2 t secret = sample_flip secret" "length (sample_flip secret) = 20"
  by (simp_all add: sample_ext_def sample_flip_def secret_def)

text \<open>Encrypted capsules of the modular pipeline cannot be read: the XTS encryptor's \<open>decrypt\<close> returns the
  ciphertext, so a capsule written under an encrypting policy reads back, without an error, as
  something else than the data.\<close>

theorem modular_xts_reads_ciphertext:
  "\<exists>p. pipeline_write_capsule sample_ext (nvram_xts_pipeline sample_ext) (Some 0) (CapsuleId [1]) secret secret_policy
        (pipeline_with_nvram_xts (empty_log []) (key_manager_new sample_ext (replicate 32 7))) = (Ok (CapsuleId [1]), p) \<and>
     pipeline_read_capsule sample_ext (nvram_xts_pipeline sample_ext) (CapsuleId [1]) p = Ok (sample_flip secret) \<and>
     sample_flip secret \<noteq> secret"
proof -
  let ?km = "key_manager_new sample_ext (replicate 32 7)"
  obtain k1 km1 where k1: "get_key sample_ext (km_current_version ?km) ?km = (Ok k1, km1)" "km_ok sample_ext km1"
    "km_current_version km1 = km_current_version ?km"
    using sample_key [OF km_ok_new] by blast
  obtain k2 km2 where k2: "get_key sample_ext (km_current_version ?km) km1 = (Ok k2, km2)"
    using sample_key [OF k1(2)] by blast
  have "sample_flip secret \<noteq> secret" "sample_flip secret \<noteq> []" by code_simp+
  then show ?thesis
    by (simp add: modular_run_defs nvram_run_defs secret_facts read_run_defs write_at_def read_at_def
        key_manager_keyring_def xts_encryptor_def xts_encryptor_encrypt_def acquire_key_def k1 k2 encrypt_segment_def xts_encrypt_def
        MIN_SECTOR_SIZE_def secret_encrypted new_xts_def set_integrity_tag_def)
qed

end
