(* ===== verification/Capsule_Service.thy ===== *)
theory Capsule_Service
  imports Pipeline_Correct
begin

text \<open>
  What the protocol views rely on: a store of capsules that can be put under a fresh identifier,
  read, read in part and discarded. The contract is a locale, the lemmas about tables of names
  that refer to capsules are proved in it, and it is interpreted on the write pipeline.
\<close>

section \<open>The contract\<close>

locale capsule_service =
  fixes inv :: "'s \<Rightarrow> bool"
    and data_of :: "'s \<Rightarrow> capsule_id \<Rightarrow> bytes option"
    and ready :: "bytes \<Rightarrow> 's \<Rightarrow> bool"
    and put :: "u64 option \<Rightarrow> capsule_id \<Rightarrow> bytes \<Rightarrow> ('s, capsule_id, error) op"
    and get :: "capsule_id \<Rightarrow> ('s, bytes, error) op"
    and get_range :: "capsule_id \<Rightarrow> u64 \<Rightarrow> nat \<Rightarrow> ('s, bytes, error) op"
    and discard :: "capsule_id \<Rightarrow> ('s, unit, error) op"
  assumes put_law: "inv s \<Longrightarrow> ready d s \<Longrightarrow> put now c d s = (r, s') \<Longrightarrow>
      inv s' \<and> (\<forall>k. k \<noteq> c \<or> data_of s c \<noteq> None \<longrightarrow> data_of s' k = data_of s k) \<and>
      (\<forall>x. r = Ok x \<longrightarrow> x = c \<and> data_of s c = None \<and> data_of s' c = Some d)"
    and get_law: "inv s \<Longrightarrow> get c s = (q, s') \<Longrightarrow>
      inv s' \<and> data_of s' = data_of s \<and> (\<forall>d. ready d s' = ready d s) \<and>
      (case data_of s c of Some d \<Rightarrow> q = Ok d | None \<Rightarrow> \<not> is_ok q)"
    and range_law: "inv s \<Longrightarrow> get_range c off len s = (q, s') \<Longrightarrow>
      inv s' \<and> data_of s' = data_of s \<and>
      (\<forall>d. data_of s c = Some d \<longrightarrow> length d < 2 ^ 64 \<longrightarrow> len < 2 ^ 64 \<longrightarrow>
         (if unat off + len \<le> length d then q = Ok (take len (drop (unat off) d)) else \<not> is_ok q))"
    and discard_law: "inv s \<Longrightarrow> discard c s = (u, s') \<Longrightarrow>
      inv s' \<and> data_of s' = (data_of s)(c := None)"

text \<open>A table of names: every name refers to a readable capsule of its own.\<close>

definition names_live :: "(capsule_id \<Rightarrow> bytes option) \<Rightarrow> ('n \<rightharpoonup> capsule_id) \<Rightarrow> bool" where
  "names_live ct tbl \<longleftrightarrow> (\<forall>n c. tbl n = Some c \<longrightarrow> ct c \<noteq> None) \<and> (\<forall>n m c. tbl n = Some c \<longrightarrow> tbl m = Some c \<longrightarrow> n = m)"

text \<open>The data behind the names, which is what a user of a view sees.\<close>

definition named_data :: "(capsule_id \<Rightarrow> bytes option) \<Rightarrow> ('n \<rightharpoonup> capsule_id) \<Rightarrow> 'n \<rightharpoonup> bytes" where
  "named_data ct tbl n = Option.bind (tbl n) ct"

lemma names_live_empty [simp]: "names_live ct Map.empty"
  by (simp add: names_live_def)

lemma names_liveD: "names_live ct tbl \<Longrightarrow> tbl n = Some c \<Longrightarrow> ct c \<noteq> None"
  "names_live ct tbl \<Longrightarrow> tbl n = Some c \<Longrightarrow> tbl m = Some c \<Longrightarrow> n = m"
  unfolding names_live_def by blast+

lemma names_live_bind:
  assumes "names_live ct tbl" "\<And>n c. tbl n = Some c \<Longrightarrow> ct' c = ct c" "ct new = None" "ct' new \<noteq> None"
  shows "names_live ct' (tbl(n \<mapsto> new))"
  using assms by (auto simp: names_live_def)

lemma names_live_extend:
  assumes "names_live ct tbl" "\<And>n. tbl n \<noteq> Some new" "ct new \<noteq> None"
  shows "names_live ct (tbl(n \<mapsto> new))"
  unfolding names_live_def
proof (intro conjI allI impI)
  show "ct c \<noteq> None" if "(tbl(n \<mapsto> new)) m = Some c" for m c
    using that assms(3) names_liveD(1) [OF assms(1), of m c] by (auto split: if_splits)
  show "m = m'" if "(tbl(n \<mapsto> new)) m = Some c" "(tbl(n \<mapsto> new)) m' = Some c" for m m' c
    using that assms(2) [of m] assms(2) [of m'] names_liveD(2) [OF assms(1), of m c m'] by (auto split: if_splits)
qed

lemma names_live_restrict:
  assumes "names_live ct tbl" "\<And>n c. n \<noteq> m \<Longrightarrow> tbl n = Some c \<Longrightarrow> ct' c = ct c"
  shows "names_live ct' (tbl(m := None))"
  using assms by (auto simp: names_live_def)

lemma names_live_cong:
  assumes "names_live ct tbl" "\<And>n c. tbl n = Some c \<Longrightarrow> ct' c = ct c"
  shows "names_live ct' tbl" "named_data ct' tbl = named_data ct tbl"
proof -
  show "names_live ct' tbl" using assms by (auto simp: names_live_def)
  show "named_data ct' tbl = named_data ct tbl"
    using assms(2) by (auto simp: named_data_def fun_eq_iff bind_eq_None_conv split: bind_split)
qed

lemma named_data_update [simp]:
  "named_data ct (tbl(n := x)) = (named_data ct tbl)(n := Option.bind x ct)"
  by (auto simp: named_data_def)

context capsule_service
begin

text \<open>Whatever comes of a put, the capsules that were readable stay as they were.\<close>

lemma put_keeps:
  assumes "inv s" "ready d s" "put now c d s = (r, s')" "data_of s k \<noteq> None"
  shows "data_of s' k = data_of s k"
  using put_law [OF assms(1-3)] assms(4) by (cases "k = c") simp_all

lemma put_names:
  assumes "inv s" "ready d s" "put now c d s = (r, s')" "names_live (data_of s) tbl"
  shows "inv s'" "names_live (data_of s') tbl" "named_data (data_of s') tbl = named_data (data_of s) tbl"
    and "r = Ok x \<Longrightarrow> x = c \<and> names_live (data_of s') (tbl(n \<mapsto> c)) \<and> (\<forall>m. tbl m \<noteq> Some c) \<and>
      named_data (data_of s') (tbl(n \<mapsto> c)) = (named_data (data_of s) tbl)(n \<mapsto> d)"
proof -
  note P = put_law [OF assms(1-3)]
  have same: "data_of s' k = data_of s k" if "tbl m = Some k" for m k
    using put_keeps [OF assms(1-3)] names_liveD(1) [OF assms(4) that] by blast
  show "inv s'" using P by blast
  show live: "names_live (data_of s') tbl" "named_data (data_of s') tbl = named_data (data_of s) tbl"
    using names_live_cong [OF assms(4)] same by blast+
  assume "r = Ok x"
  then have x: "x = c" "data_of s c = None" "data_of s' c = Some d" using P by blast+
  then have "names_live (data_of s') (tbl(n \<mapsto> c))"
    by (intro names_live_bind [OF assms(4)] same) simp_all
  moreover have "\<forall>m. tbl m \<noteq> Some c" using names_liveD(1) [OF assms(4)] x(2) by blast
  ultimately show "x = c \<and> names_live (data_of s') (tbl(n \<mapsto> c)) \<and> (\<forall>m. tbl m \<noteq> Some c) \<and>
      named_data (data_of s') (tbl(n \<mapsto> c)) = (named_data (data_of s) tbl)(n \<mapsto> d)"
    using x live(2) by simp
qed

text \<open>Discarding a capsule that no name refers to changes nothing behind the names.\<close>

lemma discard_unnamed:
  assumes "inv s" "discard c s = (r, s')" "names_live (data_of s) tbl" "\<And>m. tbl m \<noteq> Some c"
  shows "inv s'" "names_live (data_of s') tbl" "named_data (data_of s') tbl = named_data (data_of s) tbl"
proof -
  note D = discard_law [OF assms(1,2)]
  have same: "data_of s' k = data_of s k" if "tbl m = Some k" for m k
    using D assms(4) [of m] that by (cases "k = c") simp_all
  show "inv s'" using D by blast
  show "names_live (data_of s') tbl" "named_data (data_of s') tbl = named_data (data_of s) tbl"
    using names_live_cong [OF assms(3)] same by blast+
qed

text \<open>Once a name has been bound to another capsule, no name refers to the old one.\<close>

lemma rebound_unnamed:
  assumes "names_live (data_of s) tbl" "tbl n = Some old" "old \<noteq> new"
  shows "(tbl(n \<mapsto> new)) m \<noteq> Some old" "(tbl(n := None)) m \<noteq> Some old"
  using names_liveD(2) [OF assms(1,2)] assms(3) by auto

end

section \<open>The write pipeline keeps the contract\<close>

definition wp_data :: "ext \<Rightarrow> write_pipeline \<Rightarrow> capsule_id \<Rightarrow> bytes option" where
  "wp_data E p c = (case wp_contents E p c of Ok d \<Rightarrow> Some d | Err _ \<Rightarrow> None)"

lemma wp_data_simps: "wp_contents E p c = Ok d \<Longrightarrow> wp_data E p c = Some d" "wp_contents E p c = Err e \<Longrightarrow> wp_data E p c = None"
  by (simp_all add: wp_data_def)

lemma wp_data_has: "wp_data E p c \<noteq> None \<Longrightarrow> has_capsule p c"
  by (cases "hm_get (reg_capsules (st_registry (wp_store p))) c")
    (simp_all add: wp_data_def contents_def reg_lookup_def has_capsule_def)

lemma wp_data_cong: "wp_contents E p' k = wp_contents E p k \<Longrightarrow> wp_data E p' k = wp_data E p k"
  by (simp add: wp_data_def)

text \<open>The recorded size of a readable capsule is the length of its data.\<close>

definition sizes_ok :: "ext \<Rightarrow> write_pipeline \<Rightarrow> bool" where
  "sizes_ok E p \<longleftrightarrow> (\<forall>cid c d. hm_get (reg_capsules (st_registry (wp_store p))) cid = Some c \<longrightarrow>
     wp_contents E p cid = Ok d \<longrightarrow> cap_size c = of_nat (length d))"

definition service_inv :: "ext \<Rightarrow> write_pipeline \<Rightarrow> bool" where
  "service_inv E p \<longleftrightarrow> wp_inv E p \<and> xts_laws E \<and> sizes_ok E p"

definition service_ready :: "ext \<Rightarrow> bytes \<Rightarrow> write_pipeline \<Rightarrow> bool" where
  "service_ready E d p \<longleftrightarrow> fits d p \<and> readable E default_policy d p"

lemma sizes_ok_same:
  assumes "sizes_ok E p" "\<And>k. k \<noteq> cid \<Longrightarrow> wp_contents E p' k = wp_contents E p k"
    and "\<And>k. k \<noteq> cid \<Longrightarrow> hm_get (reg_capsules (st_registry (wp_store p'))) k = hm_get (reg_capsules (st_registry (wp_store p))) k"
    and "\<And>c d. hm_get (reg_capsules (st_registry (wp_store p'))) cid = Some c \<Longrightarrow> wp_contents E p' cid = Ok d \<Longrightarrow>
      cap_size c = of_nat (length d)"
  shows "sizes_ok E p'"
  using assms unfolding sizes_ok_def by metis

text \<open>What a write does to the capsule records: only the one being written can change, and it keeps its size if it existed.\<close>

lemma write_records:
  assumes "wp_inv E p" "xts_laws E" "fits data p" and run: "write_capsule_with_policy E now cid data pol p = (r, p')"
  shows "k \<noteq> cid \<Longrightarrow> hm_get (reg_capsules (st_registry (wp_store p'))) k = hm_get (reg_capsules (st_registry (wp_store p))) k"
    and "hm_get (reg_capsules (st_registry (wp_store p'))) cid = Some c \<Longrightarrow>
      (\<exists>c0. hm_get (reg_capsules (st_registry (wp_store p))) cid = Some c0 \<and> cap_size c = cap_size c0) \<or>
      \<not> has_capsule p cid \<and> cap_size c = of_nat (length data)"
proof -
  let ?caps = "\<lambda>p. reg_capsules (st_registry (wp_store p))"
  have "(\<forall>k. k \<noteq> cid \<longrightarrow> hm_get (?caps p') k = hm_get (?caps p) k) \<and>
    (\<forall>c. hm_get (?caps p') cid = Some c \<longrightarrow> (\<exists>c0. hm_get (?caps p) cid = Some c0 \<and> cap_size c = cap_size c0) \<or>
      \<not> has_capsule p cid \<and> cap_size c = of_nat (length data))"
    using run
  proof (cases rule: write_capsule_cases)
    case (loop_failed e)
    from write_loop_facts(3) [OF assms(1-3) loop_failed(1)] show ?thesis by (auto simp: grows_def)
  next
    case (created ids stats p1 st2 q st3)
    have 1: "?caps p1 = ?caps p" using write_loop_facts(3) [OF assms(1-3) created(1)] by (simp add: grows_def)
    have 2: "k \<noteq> cid \<Longrightarrow> hm_get (reg_capsules (st_registry st2)) k = hm_get (?caps p) k"
      "map_option cap_size (hm_get (reg_capsules (st_registry st2)) cid) = map_option cap_size (hm_get (?caps p) cid)" for k
      using created(2) 1 by (auto simp: add_deduped_bytes_def split: option.splits)
    obtain rg where 3: "create_capsule_with_segments now cid (of_nat (length data)) ids pol (st_registry st2) = (q, rg)"
      "?caps p' = reg_capsules rg"
      using created(3,4) by (auto simp: on_registry_def zoom_def split: prod.splits)
    note C = create_effect [OF 3(1)]
    have z: "hm_get (?caps p) cid = None \<longleftrightarrow> hm_get (reg_capsules (st_registry st2)) cid = None"
      using 2(2) by (metis map_option_is_None)
    show ?thesis
    proof (cases "hm_get (reg_capsules (st_registry st2)) cid")
      case None
      then show ?thesis
        using C(4,5) 2 3(2) z by (cases now) (auto simp: has_capsule_def)
    next
      case (Some x)
      then have "?caps p' = reg_capsules (st_registry st2)" using C(3) 3(2) by simp
      moreover have "\<exists>c0. hm_get (?caps p) cid = Some c0 \<and> cap_size x = cap_size c0"
        using 2(2) Some by (cases "hm_get (?caps p) cid") auto
      ultimately show ?thesis using 2(1) Some by auto
    qed
  qed
  then show "k \<noteq> cid \<Longrightarrow> hm_get (?caps p') k = hm_get (?caps p) k"
    "hm_get (?caps p') cid = Some c \<Longrightarrow>
      (\<exists>c0. hm_get (?caps p) cid = Some c0 \<and> cap_size c = cap_size c0) \<or>
      \<not> has_capsule p cid \<and> cap_size c = of_nat (length data)" by blast+
qed

lemma delete_records:
  assumes "wp_inv E p" and run: "delete_capsule cid p = (r, p')" and "k \<noteq> cid"
  shows "hm_get (reg_capsules (st_registry (wp_store p'))) k = hm_get (reg_capsules (st_registry (wp_store p))) k"
proof (cases "hm_get (reg_capsules (st_registry (wp_store p))) cid")
  case None
  then have "p' = p"
    using run by (auto simp: delete_capsule_def on_store_def on_registry_def zoom_def bind_op_def reg_delete_capsule_def)
  then show ?thesis by simp
next
  case (Some c)
  have si: "store_inv E (wp_keys E p) [] (wp_store p)" using assms(1) by (auto simp: wp_inv_def)
  obtain r1 s1 where d: "on_registry (reg_delete_capsule cid) (wp_store p) = (r1, s1)" by fastforce
  note D = delete_step [OF si d Some]
  obtain r2 s2 where l: "for_each release_segment (cap_segments c) s1 = (r2, s2)" by fastforce
  have "reg_capsules (st_registry s2) = reg_capsules (st_registry s1)"
    using release_all_effect [OF D(1) l] by (simp add: release_outcome_def)
  then show ?thesis
    using run d l D(3) D(4) assms(3) by (auto simp: delete_capsule_def on_store_def zoom_def bind_op_def)
qed

lemma put_service:
  assumes "service_inv E p" "service_ready E d p" "write_capsule E now cid d p = (r, p')"
  shows "service_inv E p' \<and> (\<forall>k. k \<noteq> cid \<or> wp_data E p cid \<noteq> None \<longrightarrow> wp_data E p' k = wp_data E p k) \<and>
    (\<forall>x. r = Ok x \<longrightarrow> x = cid \<and> wp_data E p cid = None \<and> wp_data E p' cid = Some d)"
proof -
  have a: "wp_inv E p" "xts_laws E" "sizes_ok E p" "fits d p" "readable E default_policy d p"
    using assms(1,2) by (auto simp: service_inv_def service_ready_def)
  note run = assms(3) [unfolded write_capsule_def]
  have W: "write_outcome E now cid default_policy d p r p'" by (rule write_capsule_effect [OF a(1,2,4) run])
  note R = write_records [OF a(1,2,4) run]
  have keep: "wp_contents E p' k = wp_contents E p k" if "k \<noteq> cid \<or> has_capsule p cid" for k
    using W that by (cases r) (auto simp: write_outcome_def)
  have new: "wp_contents E p' cid = wp_contents E p cid \<or> wp_contents E p' cid = Ok d"
    using W a(5) by (cases r) (auto simp: write_outcome_def)
  have sz: "sizes_ok E p'"
  proof (rule sizes_ok_same [OF a(3)])
    show "wp_contents E p' k = wp_contents E p k" if "k \<noteq> cid" for k using keep that by blast
    show "hm_get (reg_capsules (st_registry (wp_store p'))) k = hm_get (reg_capsules (st_registry (wp_store p))) k"
      if "k \<noteq> cid" for k by (rule R(1) [OF that])
    fix c x assume c: "hm_get (reg_capsules (st_registry (wp_store p'))) cid = Some c" "wp_contents E p' cid = Ok x"
    show "cap_size c = of_nat (length x)"
    proof (cases "has_capsule p cid")
      case True
      then obtain c0 where "hm_get (reg_capsules (st_registry (wp_store p))) cid = Some c0" "cap_size c = cap_size c0"
        using R(2) [OF c(1)] by blast
      moreover have "wp_contents E p cid = Ok x" using keep True c(2) by simp
      ultimately show ?thesis using a(3) by (simp add: sizes_ok_def)
    next
      case False
      then have "\<not> is_ok (wp_contents E p cid)" by (simp add: contents_def reg_lookup_def has_capsule_def)
      then have "x = d" using new c(2) by (cases "wp_contents E p cid") auto
      moreover have "cap_size c = of_nat (length d)" using R(2) [OF c(1)] False by (auto simp: has_capsule_def)
      ultimately show ?thesis by simp
    qed
  qed
  have "service_inv E p'" using W a(2) sz by (auto simp: service_inv_def write_outcome_def)
  moreover have "wp_data E p' k = wp_data E p k" if "k \<noteq> cid \<or> wp_data E p cid \<noteq> None" for k
    by (rule wp_data_cong [OF keep]) (use that wp_data_has in blast)
  moreover have "x = cid \<and> wp_data E p cid = None \<and> wp_data E p' cid = Some d" if "r = Ok x" for x
  proof -
    have "x = cid" "\<not> has_capsule p cid" "wp_contents E p' cid = Ok d"
      using W a(5) that by (auto simp: write_outcome_def)
    then show ?thesis using wp_data_has [of E p cid] by (cases "wp_data E p cid") (auto simp: wp_data_simps)
  qed
  ultimately show ?thesis by blast
qed

lemma only_keys_service:
  assumes "only_keys E p p'" "service_inv E p"
  shows "service_inv E p'" "wp_data E p' = wp_data E p" "service_ready E d p' = service_ready E d p"
proof -
  have k: "wp_km_ok E p'" "wp_keys E p' = wp_keys E p" "wp_store p' = wp_store p"
    using assms by (auto simp: only_keys_def)
  show "service_inv E p'" using assms(2) k by (simp add: service_inv_def wp_inv_def sizes_ok_def)
  show "wp_data E p' = wp_data E p" using k by (simp add: wp_data_def fun_eq_iff)
  show "service_ready E d p' = service_ready E d p" using k by (simp add: service_ready_def fits_def readable_def)
qed

lemma get_service:
  assumes "service_inv E p" "read_capsule E cid p = (r, p')"
  shows "service_inv E p' \<and> wp_data E p' = wp_data E p \<and> (\<forall>d. service_ready E d p' = service_ready E d p) \<and>
    (case wp_data E p cid of Some d \<Rightarrow> r = Ok d | None \<Rightarrow> \<not> is_ok r)"
proof -
  have "wp_km_ok E p" using assms(1) by (simp add: service_inv_def wp_inv_def)
  note R = read_capsule_effect [OF this assms(2)]
  have "case wp_data E p cid of Some d \<Rightarrow> r = Ok d | None \<Rightarrow> \<not> is_ok r"
    using R(2) by (cases "wp_contents E p cid") (simp_all add: wp_data_def)
  then show ?thesis using only_keys_service [OF R(1) assms(1)] by blast
qed

lemma read_range_only_keys:
  assumes "wp_km_ok E p" "read_range E cid off len p = (r, p')"
  shows "only_keys E p p'"
proof -
  obtain q p1 where rd: "read_capsule E cid p = (q, p1)" by fastforce
  have "p' = p \<or> p' = p1"
    using assms(2) rd by (cases "reg_lookup cid (st_registry (wp_store p))"; cases q)
      (auto simp: read_range_def op_simps Let_def split: if_splits)
  then show ?thesis using read_capsule_effect(1) [OF assms(1) rd] only_keys_refl [OF assms(1)] by auto
qed

lemma range_service:
  assumes "service_inv E p" "read_range E cid off len p = (r, p')"
  shows "service_inv E p' \<and> wp_data E p' = wp_data E p \<and>
    (\<forall>d. wp_data E p cid = Some d \<longrightarrow> length d < 2 ^ 64 \<longrightarrow> len < 2 ^ 64 \<longrightarrow>
       (if unat off + len \<le> length d then r = Ok (take len (drop (unat off) d)) else \<not> is_ok r))"
proof -
  have km: "wp_km_ok E p" using assms(1) by (simp add: service_inv_def wp_inv_def)
  note K = only_keys_service [OF read_range_only_keys [OF km assms(2)] assms(1)]
  have "if unat off + len \<le> length d then r = Ok (take len (drop (unat off) d)) else \<not> is_ok r"
    if d: "wp_data E p cid = Some d" "length d < 2 ^ 64" "len < 2 ^ 64" for d
  proof -
    have ct: "wp_contents E p cid = Ok d" using d(1) by (simp add: wp_data_def split: result.splits)
    obtain c where c: "hm_get (reg_capsules (st_registry (wp_store p))) cid = Some c"
      using wp_data_has [of E p cid] d(1) by (auto simp: has_capsule_def)
    have "cap_size c = of_nat (length d)" using assms(1) c ct by (simp add: service_inv_def sizes_ok_def)
    note R = read_range_effect [OF km assms(2) c ct this d(2,3)]
    show ?thesis
    proof (cases "unat off + len \<le> length d")
      case False
      then show ?thesis using R(3,4) by (cases "unat off + len < 2 ^ 64") auto
    qed (use R(2) in simp)
  qed
  then show ?thesis using K(1,2) by blast
qed

lemma discard_service:
  assumes "service_inv E p" "delete_capsule cid p = (r, p')"
  shows "service_inv E p' \<and> wp_data E p' = (wp_data E p)(cid := None)"
proof -
  have a: "wp_inv E p" "xts_laws E" "sizes_ok E p" using assms(1) by (auto simp: service_inv_def)
  have D: "delete_outcome E cid p r p'" by (rule delete_capsule_effect [OF a(1) assms(2)])
  have keep: "wp_contents E p' k = wp_contents E p k" if "k \<noteq> cid" for k
    using D that unfolding delete_outcome_def by blast
  have gone: "\<not> is_ok (wp_contents E p' cid)"
    using D by (auto simp: delete_outcome_def contents_def reg_lookup_def has_capsule_def split: if_splits)
  have "sizes_ok E p'"
    by (rule sizes_ok_same [OF a(3) keep delete_records [OF a(1) assms(2)]]) (use gone in auto)
  then have "service_inv E p'" using D a(2) by (auto simp: service_inv_def delete_outcome_def)
  moreover have "wp_data E p' k = ((wp_data E p)(cid := None)) k" for k
    using wp_data_cong [OF keep, of k] gone by (cases "wp_contents E p' cid") (auto simp: wp_data_simps)
  ultimately show ?thesis by (simp add: fun_eq_iff)
qed

interpretation wps: capsule_service "service_inv E" "wp_data E" "service_ready E" "write_capsule E" "read_capsule E"
  "read_range E" delete_capsule for E
proof unfold_locales
  show "service_inv E s \<Longrightarrow> service_ready E d s \<Longrightarrow> write_capsule E now c d s = (r, s') \<Longrightarrow>
      service_inv E s' \<and> (\<forall>k. k \<noteq> c \<or> wp_data E s c \<noteq> None \<longrightarrow> wp_data E s' k = wp_data E s k) \<and>
      (\<forall>x. r = Ok x \<longrightarrow> x = c \<and> wp_data E s c = None \<and> wp_data E s' c = Some d)" for s d now c r s'
    by (rule put_service)
  show "service_inv E s \<Longrightarrow> read_capsule E c s = (r, s') \<Longrightarrow>
      service_inv E s' \<and> wp_data E s' = wp_data E s \<and> (\<forall>d. service_ready E d s' = service_ready E d s) \<and>
      (case wp_data E s c of Some d \<Rightarrow> r = Ok d | None \<Rightarrow> \<not> is_ok r)" for s c r s'
    by (rule get_service)
  show "service_inv E s \<Longrightarrow> read_range E c off len s = (r, s') \<Longrightarrow>
      service_inv E s' \<and> wp_data E s' = wp_data E s \<and>
      (\<forall>d. wp_data E s c = Some d \<longrightarrow> length d < 2 ^ 64 \<longrightarrow> len < 2 ^ 64 \<longrightarrow>
         (if unat off + len \<le> length d then r = Ok (take len (drop (unat off) d)) else \<not> is_ok r))" for s c off len r s'
    by (rule range_service)
  show "service_inv E s \<Longrightarrow> delete_capsule c s = (r, s') \<Longrightarrow>
      service_inv E s' \<and> wp_data E s' = (wp_data E s)(c := None)" for s c r s'
    by (rule discard_service)
qed

end
