(* ===== verification/View_Common.thy ===== *)
theory View_Common
  imports Capsule_Service "HOL-Library.Char_ord" "HOL-Library.List_Lexorder"
begin

text \<open>
  What the protocol views share: the clock with its default, sorted iteration over a \<open>BTreeMap\<close>
  keyed by strings, and the JSON file a view keeps its names in. The view's file has its own plan
  of I/O outcomes. Strings are lists of bytes, as UTF-8 has them, so the order on strings is the
  code's; a failing \<open>bail!\<close> is the error \<open>ViewError\<close>.
\<close>

definition unix_timestamp :: "u64 option \<Rightarrow> u64" where
  "unix_timestamp now = (case now of Some t \<Rightarrow> t | None \<Rightarrow> 0)"

definition btree_entries :: "(string, 'v) hmap \<Rightarrow> (string \<times> 'v) list" where
  "btree_entries m = sort_key fst m"

lemma set_btree_entries [simp]: "set (btree_entries m) = set m"
  by (simp add: btree_entries_def)

lemma sorted_btree_entries: "sorted (map fst (btree_entries m))"
  by (simp add: btree_entries_def)

text \<open>Reading the file when a view is opened: no file is an empty map, a torn file does not parse.\<close>

definition load_json :: "(string, 'v) hmap persisted \<Rightarrow> io_outcome list \<Rightarrow> ((string, 'v) hmap, error) result" where
  "load_json file io =
     (case file of
        Absent \<Rightarrow> Ok []
      | Stored m \<Rightarrow> if fst (io_next io) = IoOk then Ok m else Err IoError
      | Torn \<Rightarrow> if fst (io_next io) = IoOk then Err ParseError else Err IoError)"

text \<open>\<open>persist\<close>: without a path there is nothing to do.\<close>

definition save_json ::
  "(string, 'v) hmap \<Rightarrow> ((string, 'v) hmap persisted option \<times> io_outcome list, unit, error) op" where
  "save_json m = (\<lambda>(file, io).
     case file of
       None \<Rightarrow> (Ok (), (file, io))
     | Some f \<Rightarrow>
         (case io_next io of
            (out, io) \<Rightarrow> ((if out = IoOk then Ok () else Err IoError), (Some (fs_write m out f), io))))"

lemma save_json_effect:
  assumes "save_json m (file, io) = (r, (file', io'))"
  shows "r = Ok () \<Longrightarrow> file' = None \<or> file' = Some (Stored m)"
    and "file' = Some (Stored m') \<Longrightarrow> m' = m \<or> file = Some (Stored m')"
    and "r = Ok () \<or> r = Err IoError" "io = [] \<Longrightarrow> r = Ok ()"
proof -
  obtain out rest where o: "io_next io = (out, rest)" by fastforce
  have e: "file = None \<and> file' = None \<and> r = Ok () \<or>
    (\<exists>f. file = Some f \<and> file' = Some (fs_write m out f) \<and> r = (if out = IoOk then Ok () else Err IoError))"
    using assms o by (auto simp: save_json_def split: option.splits)
  show "r = Ok () \<Longrightarrow> file' = None \<or> file' = Some (Stored m)"
    using e by (auto split: if_splits)
  show "r = Ok () \<or> r = Err IoError" using e by (auto split: if_splits)
  show "r = Ok ()" if "io = []" using e o that by auto
  show "m' = m \<or> file = Some (Stored m')" if file': "file' = Some (Stored m')"
  proof (cases "file")
    case (Some f)
    then have "fs_write m out f = Stored m'" using e file' by auto
    then show ?thesis using Some by (cases "(m, out, f)" rule: fs_write.cases) auto
  qed (use e file' in auto)
qed

end
