(* ===== verification/View_Sample.thy ===== *)
theory View_Sample
  imports View_Common Pipeline_Properties
begin

text \<open>
  A concrete pipeline that holds one capsule with the bytes \<open>[1, 2]\<close>, on which the hypotheses of
  the properties of the views are met.
\<close>

section \<open>A pipeline with one capsule\<close>

definition volume_pipeline :: write_pipeline where
  "volume_pipeline =
     \<lparr>wp_store = \<lparr>st_registry = empty_registry\<lparr>reg_next_segment_id := 1, reg_capsules :=
          [(CapsuleId [1], \<lparr>cap_id = CapsuleId [1], cap_size = 2, cap_segments = [SegmentId 0], cap_created_at = 0,
              cap_policy = default_policy, cap_deduped_bytes = 0\<rparr>)]\<rparr>,
        st_nvram = (empty_log [])\<lparr>nv_file := [1, 2], nv_next_offset := 2,
          nv_segment_map := [(SegmentId 0, (fresh_segment (SegmentId 0) 0 [1, 2])\<lparr>seg_ref_count := 1\<rparr>)]\<rparr>\<rparr>,
      wp_key_manager = None\<rparr>"

lemma volume_plain:
  "seg_plain sample_ext kf (st_nvram (wp_store volume_pipeline)) sid = (if sid = SegmentId 0 then Ok [1, 2] else Err (SegmentNotFound sid))"
  by (simp add: seg_plain_def nv_read_def volume_pipeline_def fresh_segment_def read_at_def nv_get_segment_metadata_def
      seg_decrypt_def)

lemma volume_contents:
  "contents sample_ext kf (wp_store volume_pipeline) cid = (if cid = CapsuleId [1] then Ok [1, 2] else Err CapsuleNotFound)"
proof (cases "cid = CapsuleId [1]")
  case True
  have "decompress_by_policy sample_ext (LZ4 1) [1, 2] = [1, 2]" by code_simp
  then have "read_pure sample_ext kf (st_nvram (wp_store volume_pipeline)) (LZ4 1) [SegmentId 0] = Ok [1, 2]"
    by (simp add: volume_plain)
  then show ?thesis
    using True by (simp add: contents_def reg_lookup_def) (simp add: volume_pipeline_def sample_compression)
qed (simp add: contents_def reg_lookup_def volume_pipeline_def empty_registry_def)

lemma volume_read: "read_capsule sample_ext (CapsuleId [1]) volume_pipeline = (Ok [1, 2], volume_pipeline)"
proof -
  have "decompress_by_policy sample_ext (LZ4 1) [1, 2] = [1, 2]" by code_simp
  then show ?thesis
    by (simp add: read_capsule_def op_simps reg_lookup_def volume_pipeline_def sample_compression nv_read_def read_at_def
        fresh_segment_def read_decrypt_def nv_get_segment_metadata_def on_store_def on_nvram_def)
qed

lemma volume_service: "service_inv sample_ext volume_pipeline"
proof -
  have "wp_inv sample_ext volume_pipeline"
    by (simp add: wp_inv_def volume_pipeline_def wp_km_ok_def store_inv_def empty_registry_def caps_ok_def
        ids_below_def content_ok_def refs_def capsule_refs_def rc_of_def log_ok_def placed_def seg_end_def
        fresh_segment_def hm_ok_def)
  moreover have "sizes_ok sample_ext volume_pipeline"
    by (simp add: sizes_ok_def volume_contents) (simp add: volume_pipeline_def)
  ultimately show ?thesis by (simp add: service_inv_def sample_xts_laws)
qed

lemma volume_data: "wp_data sample_ext volume_pipeline cid = (if cid = CapsuleId [1] then Some [1, 2] else None)"
  by (simp add: wp_data_def volume_contents)

lemma volume_chunk: "chunks SEGMENT_SIZE [1, 9 :: u8] = [[1, 9]]"
  by (rule one_chunk) (simp_all add: SEGMENT_SIZE_def)

lemma volume_compress: "compress_segment sample_ext [1, 9] (LZ4 1) = Ok ([1, 9], \<lparr>cr_original_size = 2, cr_compressed_size = 2,
     cr_compressed = False, cr_reused_original = True, cr_algorithm = ''identity'', cr_reason = Some IneffectiveReason\<rparr>)"
  by code_simp

lemma volume_ready: "service_ready sample_ext [1, 9] volume_pipeline"
proof -
  note c = volume_chunk and z = volume_compress
  have "stored_plain sample_ext kf (st_nvram (wp_store volume_pipeline)) = {[1, 2]}" for kf
    by (auto simp: stored_plain_def volume_plain split: if_splits)
  moreover have "chunk_views sample_ext default_policy [[1, 9]] = {[1, 9]}"
    by (simp add: chunk_views_def sample_compression z)
  moreover have "collision_free sample_ext {[1, 2], [1, 9]}"
    unfolding collision_free_def inj_on_def by code_simp
  moreover have "\<not> is_ok (decode_as sample_ext (LZ4 1) [1, 9])" by code_simp
  ultimately have "readable sample_ext default_policy [1, 9] volume_pipeline"
    by (simp add: readable_def c raw_rejected_def sample_compression insert_commute)
  moreover have "fits [1, 9] volume_pipeline"
    by (simp add: fits_def c)
      (simp add: capacity_def ids_room_def room_def refs_room_def volume_pipeline_def empty_registry_def capsule_refs_def SEGMENT_SIZE_def)
  ultimately show ?thesis by (simp add: service_ready_def)
qed

lemma volume_write: "\<exists>p. write_capsule sample_ext (Some 0) (CapsuleId [2]) [1, 9] volume_pipeline = (Ok (CapsuleId [2]), p)"
  by (simp add: write_capsule_def) (simp add: run_defs volume_chunk volume_compress volume_pipeline_def)

end
