(* ===== verification/Block_View.thy ===== *)
theory Block_View
  imports View_Common
begin

text \<open>
  The block view of \<open>crates/protocol-block\<close>: logical volumes backed by one capsule each, rewritten
  as a whole by every write. Every operation is composed of the pieces between two lock
  acquisitions or pipeline calls, so that the same pieces also serve as the steps of concurrent
  clients. \<open>clk\<close> is the clock the pipeline reads, \<open>now\<close> the one the view reads; the identifiers of
  new capsules are arguments. On the 64-bit target \<open>usize\<close> has the width of \<open>u64\<close>, so the check
  against \<open>usize::MAX\<close> never fails.
\<close>

section \<open>State\<close>

record block_volume =
  vol_name :: string
  vol_size :: u64
  vol_block_size :: u64
  vol_capsule_id :: capsule_id
  vol_created_at :: u64
  vol_updated_at :: u64
  vol_version :: u64

record block_view =
  bv_pipeline :: write_pipeline
  bv_volumes :: "(string, block_volume) hmap"
  bv_metadata :: "(string, block_volume) hmap persisted option"
  bv_io :: "io_outcome list"

type_synonym 'a bv_op = "(block_view, 'a, error) op"

definition DEFAULT_BLOCK_SIZE :: u64 where
  "DEFAULT_BLOCK_SIZE = 4096"

definition bv_new :: "registry \<Rightarrow> nvram_log \<Rightarrow> (key_manager, encryption_error) result \<Rightarrow> block_view" where
  "bv_new rg lg env = \<lparr>bv_pipeline = wp_new rg lg env, bv_volumes = [], bv_metadata = None, bv_io = []\<rparr>"

definition bv_open ::
  "registry \<Rightarrow> nvram_log \<Rightarrow> (key_manager, encryption_error) result \<Rightarrow>
   (string, block_volume) hmap persisted \<Rightarrow> io_outcome list \<Rightarrow> (block_view, error) result" where
  "bv_open rg lg env file io =
     bind_result (load_json file io) (\<lambda>volumes.
       Ok \<lparr>bv_pipeline = wp_new rg lg env, bv_volumes = volumes, bv_metadata = Some file,
           bv_io = (if file = Absent then io else snd (io_next io))\<rparr>)"

definition on_bv_pipeline :: "'a wp_op \<Rightarrow> 'a bv_op" where
  "on_bv_pipeline m = zoom bv_pipeline (\<lambda>p v. v\<lparr>bv_pipeline := p\<rparr>) m"

definition bv_persist :: "unit bv_op" where
  "bv_persist v = zoom (\<lambda>v. (bv_metadata v, bv_io v)) (\<lambda>(f, io) v. v\<lparr>bv_metadata := f, bv_io := io\<rparr>)
     (save_json (bv_volumes v)) v"

section \<open>Creating volumes\<close>

definition volume_char :: "char \<Rightarrow> bool" where
  "volume_char c = (let n = (of_char c :: nat)
     in 48 \<le> n \<and> n \<le> 57 \<or> 65 \<le> n \<and> n \<le> 90 \<or> 97 \<le> n \<and> n \<le> 122 \<or> c = CHR ''-'' \<or> c = CHR ''_'' \<or> c = CHR ''.'')"

definition validate_volume_name :: "string \<Rightarrow> (unit, error) result" where
  "validate_volume_name name =
     (if name = [] then Err (ViewError ''Volume name cannot be empty'')
      else if \<not> list_all volume_char name then Err (ViewError ''Volume name must be alphanumeric'')
      else Ok ())"

definition create_checks :: "string \<Rightarrow> u64 \<Rightarrow> u64 \<Rightarrow> block_view \<Rightarrow> (unit, error) result" where
  "create_checks name sz bs v =
     bind_result (validate_volume_name name) (\<lambda>_.
       if sz = 0 then Err (ViewError ''Volume size must be > 0'')
       else if bs = 0 then Err (ViewError ''Block size must be > 0'')
       else if sz mod bs \<noteq> 0 then Err (ViewError ''Volume size must be a multiple of block size'')
       else if hm_get (bv_volumes v) name \<noteq> None then Err (ViewError ''Volume already exists'')
       else Ok ())"

text \<open>The part under the write lock: \<open>None\<close> when another client created the volume in between.\<close>

definition create_insert ::
  "u64 \<Rightarrow> capsule_id \<Rightarrow> string \<Rightarrow> u64 \<Rightarrow> u64 \<Rightarrow> block_view \<Rightarrow> block_volume option \<times> block_view" where
  "create_insert now cid name sz bs v =
     (let volume = \<lparr>vol_name = name, vol_size = sz, vol_block_size = bs, vol_capsule_id = cid,
                    vol_created_at = now, vol_updated_at = now, vol_version = 1\<rparr>
      in if hm_get (bv_volumes v) name \<noteq> None then (None, v)
         else (Some volume, v\<lparr>bv_volumes := hm_insert name volume (bv_volumes v)\<rparr>))"

definition create_volume_with_block_size ::
  "ext \<Rightarrow> u64 option \<Rightarrow> capsule_id \<Rightarrow> u64 option \<Rightarrow> string \<Rightarrow> u64 \<Rightarrow> u64 \<Rightarrow> block_volume bv_op" where
  "create_volume_with_block_size E clk cid now name sz bs v =
     bind_op (lift_result (create_checks name sz bs v)) (\<lambda>_.
     bind_op (on_bv_pipeline (write_capsule E clk cid (replicate (unat sz) 0))) (\<lambda>capsule_id v.
       case create_insert (unix_timestamp now) capsule_id name sz bs v of
         (None, v) \<Rightarrow>
           bind_op (ignore_op (on_bv_pipeline (delete_capsule capsule_id))) (\<lambda>_.
             fail_op (ViewError ''Volume already exists'')) v
       | (Some volume, v) \<Rightarrow> bind_op bv_persist (\<lambda>_. return_op volume) v)) v"

definition create_volume ::
  "ext \<Rightarrow> u64 option \<Rightarrow> capsule_id \<Rightarrow> u64 option \<Rightarrow> string \<Rightarrow> u64 \<Rightarrow> block_volume bv_op" where
  "create_volume E clk cid now name sz = create_volume_with_block_size E clk cid now name sz DEFAULT_BLOCK_SIZE"

section \<open>Looking up and deleting\<close>

definition bv_volume :: "string \<Rightarrow> block_view \<Rightarrow> (block_volume, error) result" where
  "bv_volume name v = ok_or (hm_get (bv_volumes v) name) (ViewError ''Volume not found'')"

definition list_volumes :: "block_view \<Rightarrow> block_volume list" where
  "list_volumes v = map snd (btree_entries (bv_volumes v))"

text \<open>The part under the write lock: the capsule of the volume removed.\<close>

definition volume_remove :: "string \<Rightarrow> capsule_id bv_op" where
  "volume_remove name v =
     bind_op (lift_result (bv_volume name v)) (\<lambda>volume v.
       (Ok (vol_capsule_id volume), v\<lparr>bv_volumes := hm_remove name (bv_volumes v)\<rparr>)) v"

definition delete_volume :: "string \<Rightarrow> unit bv_op" where
  "delete_volume name =
     bind_op (volume_remove name) (\<lambda>capsule_id.
     bind_op bv_persist (\<lambda>_. ignore_op (on_bv_pipeline (delete_capsule capsule_id))))"

section \<open>Reading and writing\<close>

text \<open>\<open>offset + len as u64\<close> wraps in a release build.\<close>

definition bv_read :: "ext \<Rightarrow> string \<Rightarrow> u64 \<Rightarrow> nat \<Rightarrow> bytes bv_op" where
  "bv_read E name off len v =
     bind_op (lift_result (bv_volume name v)) (\<lambda>volume.
       if off + of_nat len > vol_size volume then fail_op (ViewError ''Read beyond end of volume'')
       else on_bv_pipeline (read_range E (vol_capsule_id volume) off len)) v"

text \<open>The capsule and version the write starts from.\<close>

definition write_snapshot :: "string \<Rightarrow> u64 \<Rightarrow> bytes \<Rightarrow> block_view \<Rightarrow> (capsule_id \<times> u64, error) result" where
  "write_snapshot name off data v =
     bind_result (bv_volume name v) (\<lambda>volume.
       if off + of_nat (length data) > vol_size volume then Err (ViewError ''Write beyond end of volume'')
       else Ok (vol_capsule_id volume, vol_version volume))"

text \<open>\<open>buffer[start..end].copy_from_slice(data)\<close>: a range outside the buffer, or one whose end has wrapped, panics.\<close>

definition splice :: "u64 \<Rightarrow> bytes \<Rightarrow> bytes \<Rightarrow> (bytes, error) result" where
  "splice off data buffer =
     (let start = unat off; stop = unat (off + of_nat (length data))
      in if start \<le> stop \<and> stop \<le> length buffer then Ok (take start buffer @ data @ drop stop buffer) else Err Panic)"

text \<open>The part under the write lock: the volume is swapped to the new capsule unless it changed in between.\<close>

datatype swap_result = Swapped | Vanished | Conflict

definition write_swap ::
  "u64 \<Rightarrow> string \<Rightarrow> capsule_id \<Rightarrow> u64 \<Rightarrow> capsule_id \<Rightarrow> block_view \<Rightarrow> swap_result \<times> block_view" where
  "write_swap now name cid version new_capsule v =
     (case hm_get (bv_volumes v) name of
        None \<Rightarrow> (Vanished, v)
      | Some volume \<Rightarrow>
          if vol_version volume \<noteq> version \<or> vol_capsule_id volume \<noteq> cid then (Conflict, v)
          else (Swapped, v\<lparr>bv_volumes := hm_insert name
                 (volume\<lparr>vol_capsule_id := new_capsule, vol_updated_at := now,
                         vol_version := saturating_inc (vol_version volume)\<rparr>) (bv_volumes v)\<rparr>))"

definition bv_write ::
  "ext \<Rightarrow> u64 option \<Rightarrow> capsule_id \<Rightarrow> u64 option \<Rightarrow> string \<Rightarrow> u64 \<Rightarrow> bytes \<Rightarrow> unit bv_op" where
  "bv_write E clk fresh now name off data v =
     (if data = [] then (Ok (), v)
      else
        bind_op (lift_result (write_snapshot name off data v)) (\<lambda>(capsule_id, version).
        bind_op (on_bv_pipeline (read_capsule E capsule_id)) (\<lambda>buffer.
        bind_op (lift_result (splice off data buffer)) (\<lambda>buffer.
        bind_op (on_bv_pipeline (write_capsule E clk fresh buffer)) (\<lambda>new_capsule v.
          case write_swap (unix_timestamp now) name capsule_id version new_capsule v of
            (Vanished, v) \<Rightarrow> (Err (ViewError ''Volume not found''), v)
          | (Conflict, v) \<Rightarrow>
              bind_op (ignore_op (on_bv_pipeline (delete_capsule new_capsule))) (\<lambda>_.
                fail_op (ViewError ''Volume modified concurrently'')) v
          | (Swapped, v) \<Rightarrow>
              bind_op bv_persist (\<lambda>_. ignore_op (on_bv_pipeline (delete_capsule capsule_id))) v)))) v)"

end
