(* ===== verification/Block_Correct.thy ===== *)
theory Block_Correct
  imports Block_View Pipeline_Properties
begin

text \<open>
  The block view under concurrent clients. A client is a task that moves through the pieces of an
  operation; steps of different tasks interleave freely and every write and save may fail. The
  abstract view of the state is the map from volume names to their bytes. Every step either leaves
  it alone or performs the whole effect of one operation on it, so concurrent writes are atomic,
  and the metadata file always names readable capsules.
\<close>

section \<open>Tasks\<close>

datatype bv_task =
    Creating string u64 u64
  | Created string u64 u64 capsule_id
  | Writing string u64 bytes capsule_id u64
  | Buffered string u64 bytes capsule_id u64 bytes
  | Copied string u64 bytes capsule_id u64 capsule_id
  | Saving "capsule_id option"
  | Discarding capsule_id

text \<open>The view, the capsule identifiers handed out so far, and the tasks in flight.\<close>

record bv_state =
  bs_view :: block_view
  bs_used :: "capsule_id set"
  bs_tasks :: "nat \<rightharpoonup> bv_task"

datatype bv_label = Silent | CreateLabel string nat | WriteLabel string nat bytes | DropLabel string

text \<open>The effect of a completed operation on the volumes, as a user sees it.\<close>

definition overwrite :: "nat \<Rightarrow> bytes \<Rightarrow> bytes \<Rightarrow> bytes" where
  "overwrite off data d = take off d @ data @ drop (off + length data) d"

fun apply_label :: "bv_label \<Rightarrow> (string \<rightharpoonup> bytes) \<Rightarrow> string \<rightharpoonup> bytes" where
  "apply_label Silent m = m"
| "apply_label (CreateLabel name n) m = m(name \<mapsto> replicate n 0)"
| "apply_label (WriteLabel name off data) m = m(name := map_option (overwrite off data) (m name))"
| "apply_label (DropLabel name) m = m(name := None)"

abbreviation with_task :: "bv_state \<Rightarrow> block_view \<Rightarrow> nat \<Rightarrow> bv_task option \<Rightarrow> bv_state" where
  "with_task s v t task \<equiv> s\<lparr>bs_view := v, bs_tasks := (bs_tasks s)(t := task)\<rparr>"

text \<open>
  A put draws an identifier that was never used (identifiers are random UUIDs); the data put must
  fit and be readable. A task whose call fails ends; a failed save ends without the discard.
\<close>

inductive bv_step :: "ext \<Rightarrow> bv_label \<Rightarrow> bv_state \<Rightarrow> bv_state \<Rightarrow> bool" for E where
  st_create: "bs_tasks s t = None \<Longrightarrow> create_checks name sz bs (bs_view s) = Ok () \<Longrightarrow>
    bv_step E Silent s (with_task s (bs_view s) t (Some (Creating name sz bs)))"
| st_create_put: "bs_tasks s t = Some (Creating name sz bs) \<Longrightarrow> cid \<notin> bs_used s \<Longrightarrow>
    service_ready E (replicate (unat sz) 0) (bv_pipeline (bs_view s)) \<Longrightarrow>
    on_bv_pipeline (write_capsule E clk cid (replicate (unat sz) 0)) (bs_view s) = (r, v) \<Longrightarrow>
    bv_step E Silent s ((with_task s v t (if is_ok r then Some (Created name sz bs cid) else None))\<lparr>bs_used := insert cid (bs_used s)\<rparr>)"
| st_create_done: "bs_tasks s t = Some (Created name sz bs cid) \<Longrightarrow>
    create_insert now cid name sz bs (bs_view s) = (Some volume, v) \<Longrightarrow>
    bv_step E (CreateLabel name (unat sz)) s (with_task s v t (Some (Saving None)))"
| st_create_lost: "bs_tasks s t = Some (Created name sz bs cid) \<Longrightarrow>
    create_insert now cid name sz bs (bs_view s) = (None, v) \<Longrightarrow>
    bv_step E Silent s (with_task s v t (Some (Discarding cid)))"
| st_write: "bs_tasks s t = None \<Longrightarrow> data \<noteq> [] \<Longrightarrow> length data < 2 ^ 64 \<Longrightarrow>
    write_snapshot name off data (bs_view s) = Ok (cid, version) \<Longrightarrow>
    bv_step E Silent s (with_task s (bs_view s) t (Some (Writing name off data cid version)))"
| st_write_read: "bs_tasks s t = Some (Writing name off data cid version) \<Longrightarrow>
    on_bv_pipeline (read_capsule E cid) (bs_view s) = (r, v) \<Longrightarrow>
    bv_step E Silent s (with_task s v t
      (case r of Ok buffer \<Rightarrow> Some (Buffered name off data cid version buffer) | Err _ \<Rightarrow> None))"
| st_write_panic: "bs_tasks s t = Some (Buffered name off data cid version buffer) \<Longrightarrow> splice off data buffer = Err e \<Longrightarrow>
    bv_step E Silent s (with_task s (bs_view s) t None)"
| st_write_put: "bs_tasks s t = Some (Buffered name off data cid version buffer) \<Longrightarrow>
    splice off data buffer = Ok b \<Longrightarrow> fresh \<notin> bs_used s \<Longrightarrow> service_ready E b (bv_pipeline (bs_view s)) \<Longrightarrow>
    on_bv_pipeline (write_capsule E clk fresh b) (bs_view s) = (r, v) \<Longrightarrow>
    bv_step E Silent s ((with_task s v t
      (if is_ok r then Some (Copied name off data cid version fresh) else None))\<lparr>bs_used := insert fresh (bs_used s)\<rparr>)"
| st_write_done: "bs_tasks s t = Some (Copied name off data cid version fresh) \<Longrightarrow>
    write_swap now name cid version fresh (bs_view s) = (Swapped, v) \<Longrightarrow>
    bv_step E (WriteLabel name (unat off) data) s (with_task s v t (Some (Saving (Some cid))))"
| st_write_conflict: "bs_tasks s t = Some (Copied name off data cid version fresh) \<Longrightarrow>
    write_swap now name cid version fresh (bs_view s) = (Conflict, v) \<Longrightarrow>
    bv_step E Silent s (with_task s v t (Some (Discarding fresh)))"
| st_write_vanished: "bs_tasks s t = Some (Copied name off data cid version fresh) \<Longrightarrow>
    write_swap now name cid version fresh (bs_view s) = (Vanished, v) \<Longrightarrow>
    bv_step E Silent s (with_task s v t None)"
| st_remove: "bs_tasks s t = None \<Longrightarrow> volume_remove name (bs_view s) = (Ok cid, v) \<Longrightarrow>
    bv_step E (DropLabel name) s (with_task s v t (Some (Saving (Some cid))))"
| st_save: "bs_tasks s t = Some (Saving old) \<Longrightarrow> bv_persist (bs_view s) = (r, v) \<Longrightarrow>
    bv_step E Silent s (with_task s v t (if is_ok r then map_option Discarding old else None))"
| st_discard: "bs_tasks s t = Some (Discarding cid) \<Longrightarrow> on_bv_pipeline (delete_capsule cid) (bs_view s) = (r, v) \<Longrightarrow>
    bv_step E Silent s (with_task s v t None)"
| st_read: "bv_read E name off len (bs_view s) = (r, v) \<Longrightarrow> bv_step E Silent s (s\<lparr>bs_view := v\<rparr>)"

inductive bv_run :: "ext \<Rightarrow> bv_label list \<Rightarrow> bv_state \<Rightarrow> bv_state \<Rightarrow> bool" for E where
  br_nil: "bv_run E [] s s"
| br_step: "bv_step E lab s s' \<Longrightarrow> bv_run E labs s' s'' \<Longrightarrow> bv_run E (lab # labs) s s''"

inductive_cases bv_runE: "bv_run E labs s s'"

section \<open>The invariant\<close>

definition vol_caps :: "(string, block_volume) hmap \<Rightarrow> string \<rightharpoonup> capsule_id" where
  "vol_caps m n = map_option vol_capsule_id (hm_get m n)"

abbreviation bv_data :: "ext \<Rightarrow> block_view \<Rightarrow> capsule_id \<Rightarrow> bytes option" where
  "bv_data E v \<equiv> wp_data E (bv_pipeline v)"

text \<open>What a user sees: the bytes of every volume.\<close>

definition volumes_of :: "ext \<Rightarrow> block_view \<Rightarrow> string \<rightharpoonup> bytes" where
  "volumes_of E v = named_data (bv_data E v) (vol_caps (bv_volumes v))"

definition vol_sized :: "(capsule_id \<Rightarrow> bytes option) \<Rightarrow> block_volume \<Rightarrow> bool" where
  "vol_sized ct vol \<longleftrightarrow> (\<exists>d. ct (vol_capsule_id vol) = Some d \<and> length d = unat (vol_size vol))"

definition vols_ok :: "(capsule_id \<Rightarrow> bytes option) \<Rightarrow> (string, block_volume) hmap \<Rightarrow> bool" where
  "vols_ok ct m \<longleftrightarrow> names_live ct (vol_caps m) \<and> (\<forall>n vol. hm_get m n = Some vol \<longrightarrow> vol_sized ct vol)"

definition file_ok :: "(capsule_id \<Rightarrow> bytes option) \<Rightarrow> (string, block_volume) hmap persisted option \<Rightarrow> bool" where
  "file_ok ct f \<longleftrightarrow> (\<forall>m n vol. f = Some (Stored m) \<longrightarrow> hm_get m n = Some vol \<longrightarrow> vol_sized ct vol)"

definition file_names :: "(string, block_volume) hmap persisted option \<Rightarrow> capsule_id set" where
  "file_names f = (case f of Some (Stored m) \<Rightarrow> ran (vol_caps m) | _ \<Rightarrow> {})"

text \<open>The capsule a task alone is responsible for, and the one it may discard next.\<close>

fun owned :: "bv_task \<Rightarrow> capsule_id option" where
  "owned (Created name sz bs cid) = Some cid"
| "owned (Copied name off data cid version fresh) = Some fresh"
| "owned (Saving old) = old"
| "owned (Discarding cid) = Some cid"
| "owned _ = None"

fun saved_over :: "bv_task \<Rightarrow> bool" where
  "saved_over (Saving old) = False"
| "saved_over _ = True"

text \<open>Data that a capsule had, if it is still there.\<close>

definition was :: "(capsule_id \<Rightarrow> bytes option) \<Rightarrow> capsule_id set \<Rightarrow> capsule_id \<Rightarrow> bytes \<Rightarrow> bool" where
  "was ct used c d \<longleftrightarrow> c \<in> used \<and> (ct c = None \<or> ct c = Some d)"

fun task_ok :: "(capsule_id \<Rightarrow> bytes option) \<Rightarrow> capsule_id set \<Rightarrow> bv_task \<Rightarrow> bool" where
  "task_ok ct used (Created name sz bs cid) \<longleftrightarrow> ct cid = Some (replicate (unat sz) 0)"
| "task_ok ct used (Writing name off data cid version) \<longleftrightarrow> cid \<in> used \<and> length data < 2 ^ 64"
| "task_ok ct used (Buffered name off data cid version buffer) \<longleftrightarrow> was ct used cid buffer \<and> length data < 2 ^ 64"
| "task_ok ct used (Copied name off data cid version fresh) \<longleftrightarrow> length data < 2 ^ 64 \<and>
     (\<exists>buffer b. was ct used cid buffer \<and> splice off data buffer = Ok b \<and> ct fresh = Some b)"
| "task_ok ct used _ \<longleftrightarrow> True"

definition bv_ok ::
  "(capsule_id \<Rightarrow> bytes option) \<Rightarrow> (string, block_volume) hmap \<Rightarrow> (string, block_volume) hmap persisted option \<Rightarrow>
   capsule_id set \<Rightarrow> (nat \<rightharpoonup> bv_task) \<Rightarrow> bool" where
  "bv_ok ct vols meta used tasks \<longleftrightarrow>
     vols_ok ct vols \<and> file_ok ct meta \<and> ran (vol_caps vols) \<union> file_names meta \<subseteq> used \<and>
     (\<forall>t task. tasks t = Some task \<longrightarrow> task_ok ct used task \<and>
        (\<forall>c. owned task = Some c \<longrightarrow> c \<in> used \<and> c \<notin> ran (vol_caps vols) \<and> (saved_over task \<longrightarrow> c \<notin> file_names meta))) \<and>
     (\<forall>t t' task task' c. tasks t = Some task \<longrightarrow> tasks t' = Some task' \<longrightarrow>
        owned task = Some c \<longrightarrow> owned task' = Some c \<longrightarrow> t = t')"

definition bv_good :: "ext \<Rightarrow> bv_state \<Rightarrow> bool" where
  "bv_good E s \<longleftrightarrow> service_inv E (bv_pipeline (bs_view s)) \<and>
     bv_ok (bv_data E (bs_view s)) (bv_volumes (bs_view s)) (bv_metadata (bs_view s)) (bs_used s) (bs_tasks s)"

lemma bv_okD:
  assumes "bv_ok ct vols meta used tasks"
  shows "vols_ok ct vols" "file_ok ct meta" "ran (vol_caps vols) \<subseteq> used" "file_names meta \<subseteq> used"
    and "tasks t = Some task \<Longrightarrow> task_ok ct used task"
    and "tasks t = Some task \<Longrightarrow> owned task = Some c \<Longrightarrow> c \<in> used \<and> c \<notin> ran (vol_caps vols) \<and> (saved_over task \<longrightarrow> c \<notin> file_names meta)"
    and "tasks t = Some task \<Longrightarrow> tasks t' = Some task' \<Longrightarrow> owned task = Some c \<Longrightarrow> owned task' = Some c \<Longrightarrow> t = t'"
  using assms unfolding bv_ok_def by blast+

lemma bv_okI:
  assumes "vols_ok ct vols" "file_ok ct meta" "ran (vol_caps vols) \<subseteq> used" "file_names meta \<subseteq> used"
    and "\<And>t task. tasks t = Some task \<Longrightarrow> task_ok ct used task"
    and "\<And>t task c. tasks t = Some task \<Longrightarrow> owned task = Some c \<Longrightarrow>
      c \<in> used \<and> c \<notin> ran (vol_caps vols) \<and> (saved_over task \<longrightarrow> c \<notin> file_names meta)"
    and "\<And>t t' task task' c. tasks t = Some task \<Longrightarrow> tasks t' = Some task' \<Longrightarrow> owned task = Some c \<Longrightarrow>
      owned task' = Some c \<Longrightarrow> t = t'"
  shows "bv_ok ct vols meta used tasks"
  using assms unfolding bv_ok_def by blast

lemma vol_caps_eq: "vol_caps m n = Some c \<longleftrightarrow> (\<exists>vol. hm_get m n = Some vol \<and> vol_capsule_id vol = c)"
  by (auto simp: vol_caps_def)

lemma ran_vol_caps: "hm_get m n = Some vol \<Longrightarrow> vol_capsule_id vol \<in> ran (vol_caps m)"
  by (auto simp: ran_def vol_caps_eq)

lemma vol_caps_insert [simp]: "vol_caps (hm_insert n vol m) = (vol_caps m)(n \<mapsto> vol_capsule_id vol)"
  and vol_caps_remove [simp]: "vol_caps (hm_remove n m) = (vol_caps m)(n := None)"
  by (auto simp: vol_caps_def fun_eq_iff)

lemma vol_sized_cong: "ct' (vol_capsule_id vol) = ct (vol_capsule_id vol) \<Longrightarrow> vol_sized ct' vol = vol_sized ct vol"
  by (simp add: vol_sized_def)

lemma file_names_mem: "f = Some (Stored m) \<Longrightarrow> hm_get m n = Some vol \<Longrightarrow> vol_capsule_id vol \<in> file_names f"
  by (simp add: file_names_def ran_vol_caps)

text \<open>Volumes and file only depend on the capsules they name.\<close>

lemma vols_ok_cong:
  assumes "vols_ok ct m" "\<And>c. c \<in> ran (vol_caps m) \<Longrightarrow> ct' c = ct c"
  shows "vols_ok ct' m" "named_data ct' (vol_caps m) = named_data ct (vol_caps m)"
proof -
  have l: "names_live ct (vol_caps m)" and z: "\<And>n vol. hm_get m n = Some vol \<Longrightarrow> vol_sized ct vol"
    using assms(1) by (auto simp: vols_ok_def)
  note N = names_live_cong [OF l, of ct'] and r = ranI [of "vol_caps m"]
  show "named_data ct' (vol_caps m) = named_data ct (vol_caps m)" by (rule N(2)) (use assms(2) r in blast)
  have "names_live ct' (vol_caps m)" by (rule N(1)) (use assms(2) r in blast)
  moreover have "vol_sized ct' vol" if "hm_get m n = Some vol" for n vol
    using z [OF that] vol_sized_cong [of ct' vol ct] assms(2) [OF ran_vol_caps [OF that]] by simp
  ultimately show "vols_ok ct' m" by (simp add: vols_ok_def)
qed

lemma file_ok_cong:
  assumes "file_ok ct f" "\<And>c. c \<in> file_names f \<Longrightarrow> ct' c = ct c"
  shows "file_ok ct' f"
  unfolding file_ok_def
proof (intro allI impI)
  fix m n vol assume f: "f = Some (Stored m)" "hm_get m n = Some vol"
  then have "vol_sized ct vol" using assms(1) by (auto simp: file_ok_def)
  then show "vol_sized ct' vol" using vol_sized_cong [of ct' vol ct] assms(2) [OF file_names_mem [OF f]] by simp
qed

lemma task_ok_cong:
  assumes "task_ok ct used task" "\<And>c. c \<in> used \<Longrightarrow> ct' c = ct c" "used \<subseteq> used'" "\<And>c. owned task = Some c \<Longrightarrow> c \<in> used"
  shows "task_ok ct' used' task"
  using assms by (cases task) (auto simp: was_def subset_iff)

lemma task_ok_discard:
  assumes "task_ok ct used task" "owned task \<noteq> Some c"
  shows "task_ok (ct(c := None)) used task"
  using assms by (cases task) (auto simp: was_def)

section \<open>The parts of a step\<close>

text \<open>A put under a fresh identifier.\<close>

lemma bv_ok_put:
  assumes ok: "bv_ok ct vols meta used tasks" and c: "c \<notin> used" and ct: "\<And>k. k \<noteq> c \<Longrightarrow> ct' k = ct k"
  shows "bv_ok ct' vols meta (insert c used) tasks" "named_data ct' (vol_caps vols) = named_data ct (vol_caps vols)"
proof -
  note O = bv_okD [OF ok]
  have same: "ct' k = ct k" if "k \<in> used" for k using ct [of k] c that by auto
  have "task_ok ct' (insert c used) task" if "tasks t = Some task" for t task
    by (rule task_ok_cong [OF O(5) [OF that] same]) (use O(6) [OF that] in auto)
  moreover have "vols_ok ct' vols" by (rule vols_ok_cong [OF O(1)]) (use O(3) same in blast)
  moreover have "file_ok ct' meta" by (rule file_ok_cong [OF O(2)]) (use O(4) same in blast)
  ultimately show "bv_ok ct' vols meta (insert c used) tasks"
    using O(3,4,6,7) unfolding bv_ok_def by blast
  show "named_data ct' (vol_caps vols) = named_data ct (vol_caps vols)"
    by (rule vols_ok_cong [OF O(1)]) (use O(3) same in blast)
qed

text \<open>A task moves on, or ends.\<close>

lemma bv_ok_task:
  assumes "bv_ok ct vols meta used tasks" "task_ok ct used task"
    and "\<And>c. owned task = Some c \<Longrightarrow> c \<in> used \<and> c \<notin> ran (vol_caps vols) \<and> (saved_over task \<longrightarrow> c \<notin> file_names meta) \<and>
      (\<forall>t' task'. t' \<noteq> t \<longrightarrow> tasks t' = Some task' \<longrightarrow> owned task' \<noteq> Some c)"
  shows "bv_ok ct vols meta used (tasks(t \<mapsto> task))"
  using bv_okD [OF assms(1)] assms(2,3) unfolding bv_ok_def by (simp add: all_conj_distrib) blast

lemma bv_ok_end:
  assumes "bv_ok ct vols meta used tasks"
  shows "bv_ok ct vols meta used (tasks(t := None))"
  using bv_okD [OF assms] unfolding bv_ok_def by (simp add: all_conj_distrib)

text \<open>The capsule of a task that is already its own stays its own.\<close>

lemma bv_ok_same_owner:
  assumes "bv_ok ct vols meta used tasks" "tasks t = Some old" "task_ok ct used task"
    and "\<And>c. owned task = Some c \<Longrightarrow> owned old = Some c \<and> (saved_over task \<longrightarrow> saved_over old)"
  shows "bv_ok ct vols meta used (tasks(t \<mapsto> task))"
proof (rule bv_ok_task [OF assms(1,3)])
  fix c assume "owned task = Some c"
  then have c: "owned old = Some c" "saved_over task \<longrightarrow> saved_over old" using assms(4) by auto
  show "c \<in> used \<and> c \<notin> ran (vol_caps vols) \<and> (saved_over task \<longrightarrow> c \<notin> file_names meta) \<and>
      (\<forall>t' task'. t' \<noteq> t \<longrightarrow> tasks t' = Some task' \<longrightarrow> owned task' \<noteq> Some c)"
    using bv_okD(6,7) [OF assms(1,2)] c by blast
qed

text \<open>The capsule of a finished task is discarded.\<close>

lemma bv_ok_discard:
  assumes ok: "bv_ok ct vols meta used tasks" and t: "tasks t = Some task" "owned task = Some c" "saved_over task"
  shows "bv_ok (ct(c := None)) vols meta used (tasks(t := None))"
    and "named_data (ct(c := None)) (vol_caps vols) = named_data ct (vol_caps vols)"
proof -
  note O = bv_okD [OF ok]
  have c: "c \<notin> ran (vol_caps vols)" "c \<notin> file_names meta" using O(6) [OF t(1,2)] t(3) by auto
  have "task_ok (ct(c := None)) used task'" if "tasks t' = Some task'" "t' \<noteq> t" for t' task'
    by (rule task_ok_discard [OF O(5) [OF that(1)]]) (use O(7) [OF t(1) that(1) t(2)] that(2) in auto)
  moreover have "vols_ok (ct(c := None)) vols" by (rule vols_ok_cong [OF O(1)]) (use c in auto)
  moreover have "file_ok (ct(c := None)) meta" by (rule file_ok_cong [OF O(2)]) (use c in auto)
  ultimately show "bv_ok (ct(c := None)) vols meta used (tasks(t := None))"
    using O(3,4,6,7) unfolding bv_ok_def by (simp add: all_conj_distrib)
  show "named_data (ct(c := None)) (vol_caps vols) = named_data ct (vol_caps vols)"
    by (rule vols_ok_cong [OF O(1)]) (use c in auto)
qed

text \<open>The file becomes a copy of the volumes, is left alone, or is torn.\<close>

lemma bv_ok_save:
  assumes ok: "bv_ok ct vols meta used tasks" and meta': "\<And>m. meta' = Some (Stored m) \<Longrightarrow> m = vols \<or> meta = Some (Stored m)"
  shows "bv_ok ct vols meta' used tasks"
proof -
  note O = bv_okD [OF ok]
  have f: "file_names meta' \<subseteq> ran (vol_caps vols) \<union> file_names meta"
    using meta' by (auto simp: file_names_def split: option.splits persisted.splits)
  have "file_ok ct meta'"
    using O(1,2) meta' unfolding file_ok_def vols_ok_def by blast
  then show ?thesis using O(1,3,4,5,6,7) f unfolding bv_ok_def by blast
qed

text \<open>A volume is bound to the capsule of a task, which becomes responsible for the capsule it replaces.\<close>

lemma bv_ok_bind:
  assumes ok: "bv_ok ct vols meta used tasks" and t: "tasks t = Some task" "owned task = Some (vol_capsule_id vol)" "saved_over task"
    and z: "vol_sized ct vol"
  shows "bv_ok ct (hm_insert n vol vols) meta used (tasks(t \<mapsto> Saving (vol_caps vols n)))"
proof -
  let ?c = "vol_capsule_id vol"
  note O = bv_okD [OF ok]
  have c: "?c \<in> used" "?c \<notin> ran (vol_caps vols)" using O(6) [OF t(1,2)] t(3) by auto
  have live: "names_live ct (vol_caps vols)" using O(1) by (simp add: vols_ok_def)
  have "names_live ct ((vol_caps vols)(n \<mapsto> ?c))"
    using live c(2) z by (auto simp: names_live_def vol_sized_def ran_def)
  then have 1: "vols_ok ct (hm_insert n vol vols)" using O(1) z by (auto simp: vols_ok_def)
  have r: "ran (vol_caps (hm_insert n vol vols)) \<subseteq> insert ?c (ran (vol_caps vols))"
    by (auto simp: ran_def)
  have old: "k \<in> ran (vol_caps vols)" "k \<notin> ran (vol_caps (hm_insert n vol vols))" if "vol_caps vols n = Some k" for k
    using that live c(2) by (auto simp: ran_def names_live_def)
  have "owned task' \<noteq> Some k" if "tasks t' = Some task'" "vol_caps vols n = Some k" for t' task' k
    using O(6) [OF that(1)] old(1) [OF that(2)] by blast
  note 3 = this
  have 4: "bv_ok ct (hm_insert n vol vols) meta used (tasks(t := None))"
  proof (rule bv_okI [OF 1 O(2) _ O(4)])
    show "ran (vol_caps (hm_insert n vol vols)) \<subseteq> used" using r c(1) O(3) by blast
    fix t' task' assume "(tasks(t := None)) t' = Some task'"
    then have t': "tasks t' = Some task'" "t' \<noteq> t" by (auto split: if_splits)
    show "task_ok ct used task'" by (rule O(5) [OF t'(1)])
    fix k assume k: "owned task' = Some k"
    then have "k \<noteq> ?c" using O(7) [OF t(1) t'(1) t(2)] t'(2) by auto
    then show "k \<in> used \<and> k \<notin> ran (vol_caps (hm_insert n vol vols)) \<and> (saved_over task' \<longrightarrow> k \<notin> file_names meta)"
      using O(6) [OF t'(1) k] r by blast
  next
    fix t1 t2 a b k
    assume "(tasks(t := None)) t1 = Some a" "(tasks(t := None)) t2 = Some b" "owned a = Some k" "owned b = Some k"
    then show "t1 = t2" using O(7) by (auto split: if_splits)
  qed
  have "bv_ok ct (hm_insert n vol vols) meta used ((tasks(t := None))(t \<mapsto> Saving (vol_caps vols n)))"
    by (rule bv_ok_task [OF 4]) (use old O(3) 3 in auto)
  then show ?thesis by simp
qed

lemma bv_ok_remove:
  assumes ok: "bv_ok ct vols meta used tasks" and t: "tasks t = None"
  shows "bv_ok ct (hm_remove n vols) meta used (tasks(t \<mapsto> Saving (vol_caps vols n)))"
proof -
  note O = bv_okD [OF ok]
  have live: "names_live ct (vol_caps vols)" using O(1) by (simp add: vols_ok_def)
  have 1: "vols_ok ct (hm_remove n vols)"
    using O(1) names_live_restrict [OF live, of n ct] by (auto simp: vols_ok_def)
  have r: "ran (vol_caps (hm_remove n vols)) \<subseteq> ran (vol_caps vols)" by (auto simp: ran_def)
  have old: "k \<in> ran (vol_caps vols)" "k \<notin> ran (vol_caps (hm_remove n vols))" if "vol_caps vols n = Some k" for k
    using that live by (auto simp: ran_def names_live_def)
  have 3: "owned task' \<noteq> Some k" if "tasks t' = Some task'" "vol_caps vols n = Some k" for t' task' k
    using O(6) [OF that(1)] old(1) [OF that(2)] by blast
  have 4: "bv_ok ct (hm_remove n vols) meta used tasks"
    using 1 O(2-7) r unfolding bv_ok_def by blast
  show ?thesis by (rule bv_ok_task [OF 4]) (use old O(3) 3 in auto)
qed

section \<open>Every step\<close>

lemma on_bv_pipelineD:
  assumes "on_bv_pipeline m v = (r, v')"
  obtains p where "m (bv_pipeline v) = (r, p)" "v' = v\<lparr>bv_pipeline := p\<rparr>"
  using assms by (auto simp: on_bv_pipeline_def zoom_def split: prod.splits)

lemma splice_overwrite:
  assumes "splice off data d = Ok b" "length data < 2 ^ 64"
  shows "b = overwrite (unat off) data d" "length b = length d" "unat off + length data \<le> length d"
proof -
  have le: "unat off \<le> unat (off + of_nat (length data))" "unat (off + of_nat (length data)) \<le> length d"
    and b: "b = take (unat off) d @ data @ drop (unat (off + of_nat (length data))) d"
    using assms(1) by (auto simp: splice_def Let_def split: if_splits)
  have "unat off + length data < 2 ^ 64"
  proof (rule ccontr)
    assume n: "\<not> unat off + length data < 2 ^ 64"
    have lt: "unat off < 2 ^ 64" using unsigned_less [of off] by simp
    have "unat (off + of_nat (length data)) = (unat off + length data) mod 2 ^ 64"
      using assms(2) by (simp add: unat_word_ariths unat_of_nat)
    moreover have "(unat off + length data) mod 2 ^ 64 = unat off + length data - 2 ^ 64"
      using n assms(2) lt by (subst mod_if, subst mod_if) auto
    ultimately show False using le(1) n assms(2) by linarith
  qed
  then have u: "unat (off + of_nat (length data)) = unat off + length data" by (simp add: word_arith)
  show "b = overwrite (unat off) data d" using b by (simp add: overwrite_def u)
  show "unat off + length data \<le> length d" using le(2) by (simp add: u)
  then show "length b = length d" using b by (simp add: u)
qed

lemma bv_read_only:
  assumes "service_inv E (bv_pipeline v)" "bv_read E name off len v = (r, v')"
  shows "service_inv E (bv_pipeline v')" "bv_data E v' = bv_data E v" "bv_volumes v' = bv_volumes v" "bv_metadata v' = bv_metadata v"
proof -
  have "v' = v \<or> (\<exists>c p q. read_range E c off len (bv_pipeline v) = (q, p) \<and> v' = v\<lparr>bv_pipeline := p\<rparr>)"
    using assms(2) by (auto simp: bv_read_def bv_volume_def ok_or_def op_simps on_bv_pipeline_def split: op_splits if_splits)
  then show "service_inv E (bv_pipeline v')" "bv_data E v' = bv_data E v" "bv_volumes v' = bv_volumes v" "bv_metadata v' = bv_metadata v"
    using wps.range_law [OF assms(1)] assms(1) by auto
qed

text \<open>A range inside the volume is read, any other is refused.\<close>

lemma bv_read_slice:
  assumes inv: "service_inv E (bv_pipeline v)" and vols: "vols_ok (bv_data E v) (bv_volumes v)"
    and len: "len < 2 ^ 64" and run: "bv_read E name off len v = (r, v')"
  shows "case volumes_of E v name of
      Some d \<Rightarrow> if unat off + len \<le> length d then r = Ok (take len (drop (unat off) d)) else \<not> is_ok r
    | None \<Rightarrow> \<not> is_ok r"
    and "volumes_of E v' = volumes_of E v"
proof -
  show same: "volumes_of E v' = volumes_of E v" using bv_read_only [OF inv run] by (simp add: volumes_of_def)
  show "case volumes_of E v name of
      Some d \<Rightarrow> if unat off + len \<le> length d then r = Ok (take len (drop (unat off) d)) else \<not> is_ok r
    | None \<Rightarrow> \<not> is_ok r"
  proof (cases "hm_get (bv_volumes v) name")
    case None
    then have "volumes_of E v name = None" by (simp add: volumes_of_def named_data_def vol_caps_def)
    then show ?thesis using run None by (auto simp: bv_read_def bv_volume_def op_simps)
  next
    case (Some vol)
    then obtain d where d: "bv_data E v (vol_capsule_id vol) = Some d" "length d = unat (vol_size vol)"
      using vols by (auto simp: vols_ok_def vol_sized_def)
    have look: "volumes_of E v name = Some d" using Some d by (simp add: volumes_of_def named_data_def vol_caps_def)
    have l: "length d < 2 ^ 64" using d(2) unsigned_less [of "vol_size vol"] by simp
    obtain q p where q: "read_range E (vol_capsule_id vol) off len (bv_pipeline v) = (q, p)" by fastforce
    have R: "if unat off + len \<le> length d then q = Ok (take len (drop (unat off) d)) else \<not> is_ok q"
      using wps.range_law [OF inv q] d(1) l len by blast
    have r: "r = (if off + of_nat len > vol_size vol then Err (ViewError ''Read beyond end of volume'') else q)"
      using run Some q by (auto simp: bv_read_def bv_volume_def op_simps on_bv_pipeline_def)
    have "\<not> off + of_nat len > vol_size vol" if "unat off + len \<le> length d"
    proof -
      have "unat (off + of_nat len) = unat off + len" using that l by (simp add: word_arith)
      then show ?thesis using that d(2) by (simp add: word_less_nat_alt)
    qed
    then show ?thesis using R r look by (auto split: if_splits)
  qed
qed

text \<open>The four kinds of step: a put, a step of one task, a discard and a change of the volumes or the file.\<close>

lemma put_step:
  assumes good: "bv_good E s" and c: "c \<notin> bs_used s" and rd: "service_ready E d (bv_pipeline (bs_view s))"
    and run: "on_bv_pipeline (write_capsule E clk c d) (bs_view s) = (r, v)"
  shows "service_inv E (bv_pipeline v)" "volumes_of E v = volumes_of E (bs_view s)"
    and "bv_ok (bv_data E v) (bv_volumes v) (bv_metadata v) (insert c (bs_used s)) (bs_tasks s)"
    and "is_ok r \<Longrightarrow> bv_data E v c = Some d" "k \<noteq> c \<Longrightarrow> bv_data E v k = bv_data E (bs_view s) k"
proof -
  have g: "service_inv E (bv_pipeline (bs_view s))"
    "bv_ok (bv_data E (bs_view s)) (bv_volumes (bs_view s)) (bv_metadata (bs_view s)) (bs_used s) (bs_tasks s)"
    using good by (auto simp: bv_good_def)
  obtain p where p: "write_capsule E clk c d (bv_pipeline (bs_view s)) = (r, p)" "v = (bs_view s)\<lparr>bv_pipeline := p\<rparr>"
    using run by (rule on_bv_pipelineD)
  note P = wps.put_law [OF g(1) rd p(1)]
  have ct: "\<And>k. k \<noteq> c \<Longrightarrow> wp_data E p k = wp_data E (bv_pipeline (bs_view s)) k" using P by blast
  note B = bv_ok_put [OF g(2) c ct]
  show "service_inv E (bv_pipeline v)" using P p(2) by simp
  show "volumes_of E v = volumes_of E (bs_view s)" using B(2) by (simp add: volumes_of_def p(2))
  show "bv_ok (bv_data E v) (bv_volumes v) (bv_metadata v) (insert c (bs_used s)) (bs_tasks s)"
    using B(1) by (simp add: p(2))
  show "is_ok r \<Longrightarrow> bv_data E v c = Some d" using P p(2) by (cases r) auto
  show "k \<noteq> c \<Longrightarrow> bv_data E v k = bv_data E (bs_view s) k" using ct by (simp add: p(2))
qed

lemma own_put_step:
  assumes good: "bv_good E s" and c: "c \<notin> bs_used s" and rd: "service_ready E d (bv_pipeline (bs_view s))"
    and run: "on_bv_pipeline (write_capsule E clk c d) (bs_view s) = (r, v)"
    and task: "owned task = Some c" "is_ok r \<Longrightarrow> task_ok (bv_data E v) (insert c (bs_used s)) task"
  shows "bv_good E ((with_task s v t (if is_ok r then Some task else None))\<lparr>bs_used := insert c (bs_used s)\<rparr>)"
    and "volumes_of E v = volumes_of E (bs_view s)"
proof -
  note P = put_step [OF good c rd run]
  have old: "bv_ok (bv_data E (bs_view s)) (bv_volumes (bs_view s)) (bv_metadata (bs_view s)) (bs_used s) (bs_tasks s)"
    using good by (simp add: bv_good_def)
  note O = bv_okD [OF old]
  have same: "bv_volumes v = bv_volumes (bs_view s)" "bv_metadata v = bv_metadata (bs_view s)"
    using run by (auto elim: on_bv_pipelineD)
  have "bv_ok (bv_data E v) (bv_volumes v) (bv_metadata v) (insert c (bs_used s)) ((bs_tasks s)(t \<mapsto> task))" if "is_ok r"
  proof (rule bv_ok_task [OF P(3) task(2) [OF that]])
    fix k assume "owned task = Some k"
    then have "k = c" using task(1) by simp
    then show "k \<in> insert c (bs_used s) \<and> k \<notin> ran (vol_caps (bv_volumes v)) \<and>
        (saved_over task \<longrightarrow> k \<notin> file_names (bv_metadata v)) \<and>
        (\<forall>t' task'. t' \<noteq> t \<longrightarrow> bs_tasks s t' = Some task' \<longrightarrow> owned task' \<noteq> Some k)"
      unfolding same \<open>k = c\<close> using c O(3,4) O(6) by blast
  qed
  then show "bv_good E ((with_task s v t (if is_ok r then Some task else None))\<lparr>bs_used := insert c (bs_used s)\<rparr>)"
    using P(1) bv_ok_end [OF P(3)] by (simp add: bv_good_def)
  show "volumes_of E v = volumes_of E (bs_view s)" by (rule P(2))
qed

lemma discard_step:
  assumes good: "bv_good E s" and t: "bs_tasks s t = Some (Discarding c)"
    and run: "on_bv_pipeline (delete_capsule c) (bs_view s) = (r, v)"
  shows "bv_good E (with_task s v t None)" "volumes_of E v = volumes_of E (bs_view s)"
proof -
  obtain p where p: "delete_capsule c (bv_pipeline (bs_view s)) = (r, p)" "v = (bs_view s)\<lparr>bv_pipeline := p\<rparr>"
    using run by (rule on_bv_pipelineD)
  have g: "service_inv E (bv_pipeline (bs_view s))"
    "bv_ok (bv_data E (bs_view s)) (bv_volumes (bs_view s)) (bv_metadata (bs_view s)) (bs_used s) (bs_tasks s)"
    using good by (auto simp: bv_good_def)
  note D = wps.discard_law [OF g(1) p(1)]
  note B = bv_ok_discard [OF g(2) t, of c]
  show "bv_good E (with_task s v t None)" using D B(1) by (simp add: bv_good_def p(2))
  show "volumes_of E v = volumes_of E (bs_view s)" using D B(2) by (simp add: volumes_of_def p(2))
qed

lemma save_step:
  assumes good: "bv_good E s" and t: "bs_tasks s t = Some (Saving old)" and run: "bv_persist (bs_view s) = (r, v)"
  shows "bv_good E (with_task s v t (if is_ok r then map_option Discarding old else None))"
    and "volumes_of E v = volumes_of E (bs_view s)"
proof -
  obtain f io where f: "save_json (bv_volumes (bs_view s)) (bv_metadata (bs_view s), bv_io (bs_view s)) = (r, (f, io))"
    "v = (bs_view s)\<lparr>bv_metadata := f, bv_io := io\<rparr>"
    using run by (auto simp: bv_persist_def zoom_def split: prod.splits)
  note S = save_json_effect [OF f(1)]
  have g: "service_inv E (bv_pipeline (bs_view s))"
    "bv_ok (bv_data E (bs_view s)) (bv_volumes (bs_view s)) (bv_metadata (bs_view s)) (bs_used s) (bs_tasks s)"
    using good by (auto simp: bv_good_def)
  have sv: "bv_ok (bv_data E (bs_view s)) (bv_volumes (bs_view s)) f (bs_used s) (bs_tasks s)"
    by (rule bv_ok_save [OF g(2)]) (use S(2) in blast)
  have "bv_ok (bv_data E (bs_view s)) (bv_volumes (bs_view s)) f (bs_used s)
      ((bs_tasks s)(t := if is_ok r then map_option Discarding old else None))"
  proof (cases "is_ok r \<and> old \<noteq> None")
    case True
    then obtain c where c: "old = Some c" by auto
    have r: "r = Ok ()" using True by (cases r) auto
    have c': "c \<notin> ran (vol_caps (bv_volumes (bs_view s)))" using bv_okD(6) [OF g(2) t] c by simp
    then have "c \<notin> file_names f" using S(1) [OF r] by (auto simp: file_names_def)
    then show ?thesis
      using True c c' bv_ok_task [OF sv, of "Discarding c" t] bv_okD(6,7) [OF g(2) t] by auto
  qed (use bv_ok_end [OF sv] in auto)
  then show "bv_good E (with_task s v t (if is_ok r then map_option Discarding old else None))"
    using g(1) by (simp add: bv_good_def f(2))
  show "volumes_of E v = volumes_of E (bs_view s)" by (simp add: volumes_of_def f(2))
qed

text \<open>A step that only moves a task: what it reads of the view stays.\<close>

lemma moved_step:
  assumes "bv_good E s" "bs_tasks s t = Some old" "task_ok (bv_data E (bs_view s)) (bs_used s) task"
    and "\<And>c. owned task = Some c \<Longrightarrow> owned old = Some c \<and> (saved_over task \<longrightarrow> saved_over old)"
  shows "bv_good E (with_task s (bs_view s) t (Some task))"
  using assms bv_ok_same_owner [of "bv_data E (bs_view s)" _ _ _ _ t old task] by (simp add: bv_good_def)

lemma begun_step:
  assumes "bv_good E s" "task_ok (bv_data E (bs_view s)) (bs_used s) task" "owned task = None"
  shows "bv_good E (with_task s (bs_view s) t (Some task))"
  using assms by (auto simp: bv_good_def intro!: bv_ok_task)

lemma ended_step:
  assumes "bv_good E s"
  shows "bv_good E (with_task s (bs_view s) t None)"
  using assms bv_ok_end [of "bv_data E (bs_view s)"] by (simp add: bv_good_def)

lemma create_done_step:
  assumes good: "bv_good E s" and t: "bs_tasks s t = Some (Created name sz bs cid)"
    and run: "create_insert now cid name sz bs (bs_view s) = (Some volume, v)"
  shows "bv_good E (with_task s v t (Some (Saving None)))"
    and "volumes_of E v = (volumes_of E (bs_view s))(name \<mapsto> replicate (unat sz) 0)"
proof -
  have g: "service_inv E (bv_pipeline (bs_view s))"
    "bv_ok (bv_data E (bs_view s)) (bv_volumes (bs_view s)) (bv_metadata (bs_view s)) (bs_used s) (bs_tasks s)"
    using good by (auto simp: bv_good_def)
  have none: "hm_get (bv_volumes (bs_view s)) name = None" and vol: "vol_capsule_id volume = cid" "vol_size volume = sz"
    and v: "v = (bs_view s)\<lparr>bv_volumes := hm_insert name volume (bv_volumes (bs_view s))\<rparr>"
    using run by (auto simp: create_insert_def Let_def split: if_splits)
  have d: "bv_data E (bs_view s) cid = Some (replicate (unat sz) 0)" using bv_okD(5) [OF g(2) t] by simp
  have "vol_caps (bv_volumes (bs_view s)) name = None" by (simp add: vol_caps_def none)
  then show "bv_good E (with_task s v t (Some (Saving None)))"
    using bv_ok_bind [OF g(2) t, of volume name] g(1) d vol by (simp add: bv_good_def v vol_sized_def)
  show "volumes_of E v = (volumes_of E (bs_view s))(name \<mapsto> replicate (unat sz) 0)"
    using d vol by (simp add: volumes_of_def v)
qed

text \<open>The check of capsule and version makes the copied data that of the volume as it now is.\<close>

lemma write_done_step:
  assumes good: "bv_good E s" and t: "bs_tasks s t = Some (Copied name off data cid version fresh)"
    and run: "write_swap now name cid version fresh (bs_view s) = (Swapped, v)"
  shows "bv_good E (with_task s v t (Some (Saving (Some cid))))"
    and "volumes_of E v = (volumes_of E (bs_view s))(name := map_option (overwrite (unat off) data) (volumes_of E (bs_view s) name))"
proof -
  let ?ct = "bv_data E (bs_view s)" and ?m = "bv_volumes (bs_view s)"
  have g: "service_inv E (bv_pipeline (bs_view s))"
    "bv_ok ?ct ?m (bv_metadata (bs_view s)) (bs_used s) (bs_tasks s)"
    using good by (auto simp: bv_good_def)
  obtain vol where vol: "hm_get ?m name = Some vol" "vol_capsule_id vol = cid"
    and v: "v = (bs_view s)\<lparr>bv_volumes := hm_insert name (vol\<lparr>vol_capsule_id := fresh, vol_updated_at := now,
        vol_version := saturating_inc (vol_version vol)\<rparr>) ?m\<rparr>"
    using run by (auto simp: write_swap_def split: option.splits if_splits)
  obtain buffer b where b: "was ?ct (bs_used s) cid buffer" "splice off data buffer = Ok b" "?ct fresh = Some b" "length data < 2 ^ 64"
    using bv_okD(5) [OF g(2) t] by auto
  have "vol_sized ?ct vol" using bv_okD(1) [OF g(2)] vol by (auto simp: vols_ok_def)
  then have buf: "?ct cid = Some buffer" "length buffer = unat (vol_size vol)"
    using b(1) vol(2) by (auto simp: was_def vol_sized_def)
  note W = splice_overwrite [OF b(2,4)]
  have "vol_caps ?m name = Some cid" by (simp add: vol_caps_def vol)
  then show "bv_good E (with_task s v t (Some (Saving (Some cid))))"
    using bv_ok_bind [OF g(2) t, of "vol\<lparr>vol_capsule_id := fresh, vol_updated_at := now,
        vol_version := saturating_inc (vol_version vol)\<rparr>" name] g(1) b(3) W(2) buf(2)
    by (simp add: bv_good_def v vol_sized_def)
  show "volumes_of E v = (volumes_of E (bs_view s))(name := map_option (overwrite (unat off) data) (volumes_of E (bs_view s) name))"
    using b(3) W(1) buf(1) vol by (simp add: volumes_of_def v named_data_def vol_caps_def)
qed

lemma volume_remove_step:
  assumes good: "bv_good E s" and t: "bs_tasks s t = None" and run: "volume_remove name (bs_view s) = (Ok cid, v)"
  shows "bv_good E (with_task s v t (Some (Saving (Some cid))))" "volumes_of E v = (volumes_of E (bs_view s))(name := None)"
proof -
  have g: "service_inv E (bv_pipeline (bs_view s))"
    "bv_ok (bv_data E (bs_view s)) (bv_volumes (bs_view s)) (bv_metadata (bs_view s)) (bs_used s) (bs_tasks s)"
    using good by (auto simp: bv_good_def)
  obtain vol where vol: "hm_get (bv_volumes (bs_view s)) name = Some vol" "vol_capsule_id vol = cid"
    and v: "v = (bs_view s)\<lparr>bv_volumes := hm_remove name (bv_volumes (bs_view s))\<rparr>"
    using run by (auto simp: volume_remove_def bv_volume_def ok_or_def op_simps split: option.splits)
  have "vol_caps (bv_volumes (bs_view s)) name = Some cid" by (simp add: vol_caps_def vol)
  then show "bv_good E (with_task s v t (Some (Saving (Some cid))))"
    using bv_ok_remove [OF g(2) t, of name] g(1) by (simp add: bv_good_def v)
  show "volumes_of E v = (volumes_of E (bs_view s))(name := None)" by (simp add: volumes_of_def v)
qed

lemma write_read_step:
  assumes good: "bv_good E s" and t: "bs_tasks s t = Some (Writing name off data cid version)"
    and run: "on_bv_pipeline (read_capsule E cid) (bs_view s) = (r, v)"
  shows "bv_good E (with_task s v t (case r of Ok buffer \<Rightarrow> Some (Buffered name off data cid version buffer) | Err _ \<Rightarrow> None))"
    and "volumes_of E v = volumes_of E (bs_view s)"
proof -
  have g: "service_inv E (bv_pipeline (bs_view s))"
    "bv_ok (bv_data E (bs_view s)) (bv_volumes (bs_view s)) (bv_metadata (bs_view s)) (bs_used s) (bs_tasks s)"
    using good by (auto simp: bv_good_def)
  obtain p where p: "read_capsule E cid (bv_pipeline (bs_view s)) = (r, p)" "v = (bs_view s)\<lparr>bv_pipeline := p\<rparr>"
    using run by (rule on_bv_pipelineD)
  note G = wps.get_law [OF g(1) p(1)]
  have v: "service_inv E (bv_pipeline v)" "bv_data E v = bv_data E (bs_view s)" using G p(2) by auto
  have good': "bv_good E (s\<lparr>bs_view := v\<rparr>)" using g v by (simp add: bv_good_def p(2))
  show "volumes_of E v = volumes_of E (bs_view s)" using v(2) by (simp add: volumes_of_def p(2))
  show "bv_good E (with_task s v t (case r of Ok buffer \<Rightarrow> Some (Buffered name off data cid version buffer) | Err _ \<Rightarrow> None))"
  proof (cases r)
    case (Ok buffer)
    have w: "was (bv_data E (bs_view s)) (bs_used s) cid buffer" "length data < 2 ^ 64"
      using G Ok bv_okD(5) [OF g(2) t] by (auto simp: was_def split: option.splits)
    have "bv_good E (with_task (s\<lparr>bs_view := v\<rparr>) (bs_view (s\<lparr>bs_view := v\<rparr>)) t (Some (Buffered name off data cid version buffer)))"
      by (rule moved_step [OF good']) (use t w v(2) in simp_all)
    then show ?thesis using Ok by simp
  next
    case (Err e)
    then show ?thesis using ended_step [OF good', of t] by simp
  qed
qed

lemma bv_step_effect:
  assumes "bv_step E lab s s'" "bv_good E s"
  shows "bv_good E s' \<and> volumes_of E (bs_view s') = apply_label lab (volumes_of E (bs_view s))"
  using assms(1)
proof (cases rule: bv_step.cases)
  case (st_create t name sz bs)
  then show ?thesis using begun_step [OF assms(2), of "Creating name sz bs" t] by simp
next
  case (st_create_put t name sz bs cid clk r v)
  note P = put_step [OF assms(2) st_create_put(4-6)]
  note Q = own_put_step(1) [OF assms(2) st_create_put(4-6), where task = "Created name sz bs cid" and t = t]
  show ?thesis using Q P(2,4) st_create_put(1,2) by simp
next
  case (st_create_done t name sz bs cid now volume v)
  note C = create_done_step [OF assms(2) st_create_done(3,4)]
  show ?thesis using C st_create_done(1,2) by simp
next
  case (st_create_lost t name sz bs cid now v)
  then have "v = bs_view s" by (auto simp: create_insert_def Let_def split: if_splits)
  then show ?thesis using moved_step [OF assms(2) st_create_lost(3), of "Discarding cid"] st_create_lost(1,2) by simp
next
  case (st_write t data name off cid version)
  have ok: "bv_ok (bv_data E (bs_view s)) (bv_volumes (bs_view s)) (bv_metadata (bs_view s)) (bs_used s) (bs_tasks s)"
    using assms(2) by (simp add: bv_good_def)
  have "cid \<in> ran (vol_caps (bv_volumes (bs_view s)))"
    using st_write(6) by (auto simp: write_snapshot_def bv_volume_def ok_or_def ran_vol_caps split: option.splits if_splits)
  then have "cid \<in> bs_used s" using bv_okD(3) [OF ok] by blast
  then show ?thesis using begun_step [OF assms(2), of "Writing name off data cid version" t] st_write by simp
next
  case (st_write_read t name off data cid version r v)
  note W = write_read_step [OF assms(2) st_write_read(3,4)]
  show ?thesis using W st_write_read(1,2) by simp
next
  case (st_write_panic t name off data cid version buffer e)
  then show ?thesis using ended_step [OF assms(2), of t] by simp
next
  case (st_write_put t name off data cid version buffer b fresh clk r v)
  note P = put_step [OF assms(2) st_write_put(5-7)]
  have ok: "bv_ok (bv_data E (bs_view s)) (bv_volumes (bs_view s)) (bv_metadata (bs_view s)) (bs_used s) (bs_tasks s)"
    using assms(2) by (simp add: bv_good_def)
  have "task_ok (bv_data E (bs_view s)) (bs_used s) (Buffered name off data cid version buffer)"
    by (rule bv_okD(5) [OF ok st_write_put(3)])
  then have "was (bv_data E v) (insert fresh (bs_used s)) cid buffer" "length data < 2 ^ 64"
    using P(5) [of cid] st_write_put(5) by (cases "cid = fresh"; auto simp: was_def)+
  then have "task_ok (bv_data E v) (insert fresh (bs_used s)) (Copied name off data cid version fresh)" if "is_ok r"
    using P(4) [OF that] st_write_put(4) by auto
  from own_put_step(1) [OF assms(2) st_write_put(5-7) _ this, of t] show ?thesis
    using P(2) st_write_put(1,2) by simp
next
  case (st_write_done t name off data cid version fresh now v)
  note W = write_done_step [OF assms(2) st_write_done(3,4)]
  show ?thesis using W st_write_done(1,2) by simp
next
  case (st_write_conflict t name off data cid version fresh now v)
  then have "v = bs_view s" by (auto simp: write_swap_def split: option.splits if_splits)
  then show ?thesis using moved_step [OF assms(2) st_write_conflict(3), of "Discarding fresh"] st_write_conflict(1,2) by simp
next
  case (st_write_vanished t name off data cid version fresh now v)
  then have "v = bs_view s" by (auto simp: write_swap_def split: option.splits if_splits)
  then show ?thesis using ended_step [OF assms(2), of t] st_write_vanished(1,2) by simp
next
  case (st_remove t name cid v)
  note R = volume_remove_step [OF assms(2) st_remove(3,4)]
  show ?thesis using R st_remove(1,2) by simp
next
  case (st_save t old r v)
  note S = save_step [OF assms(2) st_save(3,4)]
  show ?thesis using S st_save(1,2) by simp
next
  case (st_discard t cid r v)
  note D = discard_step [OF assms(2) st_discard(3,4)]
  show ?thesis using D st_discard(1,2) by simp
next
  case (st_read name off len r v)
  note R = bv_read_only [OF _ st_read(3)]
  show ?thesis using R assms(2) st_read(1,2) by (simp add: bv_good_def volumes_of_def)
qed

lemma bv_run_effect:
  assumes "bv_run E labs s s'" "bv_good E s"
  shows "bv_good E s' \<and> volumes_of E (bs_view s') = fold apply_label labs (volumes_of E (bs_view s))"
  using assms by (induction rule: bv_run.induct) (auto dest: bv_step_effect)

end
