(* ===== verification/Block_Properties.thy ===== *)
theory Block_Properties
  imports Block_Correct View_Sample
begin

text \<open>
  The properties of the block view: concurrent operations are atomic, the metadata file always
  names complete volumes, and the operations of a single client do what their names say.
\<close>

section \<open>Concurrent clients\<close>

text \<open>A view without volumes and without tasks in flight is a good start.\<close>

lemma bv_good_empty:
  assumes "service_inv E p" "file = None \<or> file = Some Absent"
  shows "bv_good E \<lparr>bs_view = \<lparr>bv_pipeline = p, bv_volumes = [], bv_metadata = file, bv_io = io\<rparr>, bs_used = {}, bs_tasks = Map.empty\<rparr>"
proof -
  have "vol_caps [] = Map.empty" by (simp add: vol_caps_def fun_eq_iff)
  then show ?thesis
    using assms by (auto simp: bv_good_def bv_ok_def vols_ok_def file_ok_def file_names_def)
qed



section \<open>One client\<close>

abbreviation alone :: "block_view \<Rightarrow> capsule_id set \<Rightarrow> bv_state" where
  "alone v used \<equiv> \<lparr>bs_view = v, bs_used = used, bs_tasks = Map.empty\<rparr>"

abbreviation busy :: "block_view \<Rightarrow> capsule_id set \<Rightarrow> bv_task \<Rightarrow> bv_state" where
  "busy v used task \<equiv> \<lparr>bs_view = v, bs_used = used, bs_tasks = [0 \<mapsto> task]\<rparr>"

text \<open>Saving and then discarding what was superseded.\<close>

lemma save_and_discard:
  assumes good: "bv_good E (busy v used (Saving (Some old)))"
    and run: "bind_op bv_persist (\<lambda>_. ignore_op (on_bv_pipeline (delete_capsule old))) v = (r, v')"
  shows "bv_good E (alone v' used)" "volumes_of E v' = volumes_of E v"
proof -
  obtain q v1 where p: "bv_persist v = (q, v1)" by fastforce
  note S = save_step [OF good, of 0 "Some old" q v1]
  have "bv_good E (alone v' used) \<and> volumes_of E v' = volumes_of E v"
  proof (cases q)
    case (Err e)
    then have "v' = v1" using run p by (simp add: bind_op_def)
    then show ?thesis using S p Err by simp
  next
    case (Ok x)
    obtain q2 v2 where d: "on_bv_pipeline (delete_capsule old) v1 = (q2, v2)" by fastforce
    have v': "v' = v2" using run p Ok d by (simp add: op_simps)
    have good1: "bv_good E (busy v1 used (Discarding old))" "volumes_of E v1 = volumes_of E v" using S p Ok by simp_all
    from discard_step [OF good1(1), of 0 old q2 v2] d show ?thesis using good1(2) v' by simp
  qed
  then show "bv_good E (alone v' used)" "volumes_of E v' = volumes_of E v" by auto
qed

lemma save_created:
  assumes good: "bv_good E (busy v used (Saving None))" and run: "bind_op bv_persist (\<lambda>_. return_op x) v = (r, v')"
  shows "bv_good E (alone v' used)" "volumes_of E v' = volumes_of E v"
proof -
  obtain q v1 where p: "bv_persist v = (q, v1)" by fastforce
  have "v' = v1" using run p by (auto simp: op_simps split: op_splits)
  then show "bv_good E (alone v' used)" "volumes_of E v' = volumes_of E v"
    using save_step [OF good, of 0 None q v1] p by (cases q; simp)+
qed

lemma bv_write_effect:
  assumes good: "bv_good E (alone v used)" and fresh: "fresh \<notin> used" and len: "length data < 2 ^ 64"
    and ready: "\<And>d b. volumes_of E v name = Some d \<Longrightarrow> splice off data d = Ok b \<Longrightarrow> service_ready E b (bv_pipeline v)"
    and run: "bv_write E clk fresh now name off data v = (r, v')"
  shows "(bv_good E (alone v' used) \<or> bv_good E (alone v' (insert fresh used))) \<and>
    (volumes_of E v' = volumes_of E v \<and> (r = Ok () \<longrightarrow> data = []) \<or>
     (\<exists>d. volumes_of E v name = Some d \<and> unat off + length data \<le> length d \<and>
       volumes_of E v' = (volumes_of E v)(name \<mapsto> overwrite (unat off) data d)))"
proof (cases "data = []")
  case True
  then show ?thesis using run good by (simp add: bv_write_def)
next
  case False
  show ?thesis
  proof (cases "write_snapshot name off data v")
    case (Err e)
    then show ?thesis using run good False by (auto simp: bv_write_def op_simps)
  next
    case (Ok snap)
    then obtain cid version where snap: "write_snapshot name off data v = Ok (cid, version)" by (cases snap) auto
    then obtain vol where vol: "hm_get (bv_volumes v) name = Some vol" "vol_capsule_id vol = cid" "vol_version vol = version"
      by (auto simp: write_snapshot_def bv_volume_def ok_or_def split: option.splits if_splits)
    let ?b1 = "busy v used (Writing name off data cid version)"
    have s1: "bv_step E Silent (alone v used) ?b1"
      using st_write [of "alone v used" 0 data name off cid version E] False len snap by simp
    note G1 = bv_step_effect [OF s1 good]
    obtain q v1 where rd: "on_bv_pipeline (read_capsule E cid) v = (q, v1)" by fastforce
    note R = write_read_step [of E ?b1 0 name off data cid version q v1]
    have v1: "bv_volumes v1 = bv_volumes v" using rd by (auto elim: on_bv_pipelineD)
    have inv: "service_inv E (bv_pipeline v)" using good by (simp add: bv_good_def)
    obtain p where p: "read_capsule E cid (bv_pipeline v) = (q, p)" "v1 = v\<lparr>bv_pipeline := p\<rparr>"
      using rd by (rule on_bv_pipelineD)
    note L = wps.get_law [OF inv p(1)]
    show ?thesis
    proof (cases q)
      case (Err e)
      then have "v' = v1" "r = Err e" using run False snap rd by (simp_all add: bv_write_def op_simps)
      then show ?thesis using R G1 rd Err by simp
    next
      case (Ok buffer)
      have G2: "bv_good E (busy v1 used (Buffered name off data cid version buffer))" "volumes_of E v1 = volumes_of E v"
        using R G1 rd Ok by simp_all
      have cur: "volumes_of E v name = Some buffer"
        using L Ok vol by (auto simp: volumes_of_def named_data_def vol_caps_def split: option.splits)
      show ?thesis
      proof (cases "splice off data buffer")
        case (Err e)
        then have "v' = v1" "r = Err e" using run False snap rd Ok by (simp_all add: bv_write_def op_simps)
        then show ?thesis using ended_step [OF G2(1), of 0] G2(2) by simp
      next
        case (Ok b)
        have rdy: "service_ready E b (bv_pipeline v1)" using ready [OF cur Ok] L p(2) by simp
        note O = splice_overwrite [OF Ok len]
        obtain q2 v2 where pt: "on_bv_pipeline (write_capsule E clk fresh b) v1 = (q2, v2)" by fastforce
        have s3: "bv_step E Silent (busy v1 used (Buffered name off data cid version buffer))
            \<lparr>bs_view = v2, bs_used = insert fresh used,
             bs_tasks = (if is_ok q2 then [0 \<mapsto> Copied name off data cid version fresh] else Map.empty)\<rparr>"
          using st_write_put [of "busy v1 used (Buffered name off data cid version buffer)" 0 name off data cid version buffer b fresh E clk q2 v2]
            Ok fresh rdy pt by (simp split: if_splits)
        note G3 = bv_step_effect [OF s3 G2(1)]
        show ?thesis
        proof (cases q2)
          case (Err e)
          then have "v' = v2" "r = Err e"
            using run False snap rd \<open>q = Ok buffer\<close> Ok pt by (simp_all add: bv_write_def op_simps)
          then show ?thesis using G3 G2(2) Err by simp
        next
          case (Ok nc)
          obtain p2 where p2: "write_capsule E clk fresh b (bv_pipeline v1) = (q2, p2)" "v2 = v1\<lparr>bv_pipeline := p2\<rparr>"
            using pt by (rule on_bv_pipelineD)
          have nc: "nc = fresh" using wps.put_law [OF _ rdy p2(1)] L p(2) Ok by simp
          obtain w v3 where sw: "write_swap (unix_timestamp now) name cid version fresh v2 = (w, v3)" by fastforce
          have w: "w = Swapped" using sw vol v1 p2(2) by (auto simp: write_swap_def)
          have G3': "bv_good E (busy v2 (insert fresh used) (Copied name off data cid version fresh))"
            "volumes_of E v2 = volumes_of E v" using G3 G2(2) Ok by simp_all
          note W = write_done_step [OF G3'(1), of 0 name off data cid version fresh "unix_timestamp now" v3]
          have G4: "bv_good E (busy v3 (insert fresh used) (Saving (Some cid)))"
            "volumes_of E v3 = (volumes_of E v)(name \<mapsto> overwrite (unat off) data buffer)"
            using W sw w G3'(2) cur by simp_all
          have "bind_op bv_persist (\<lambda>_. ignore_op (on_bv_pipeline (delete_capsule cid))) v3 = (r, v')"
            using run False snap rd \<open>q = Ok buffer\<close> \<open>splice off data buffer = Ok b\<close> pt Ok nc sw w
            by (simp add: bv_write_def bind_op_def lift_result_def)
          from save_and_discard [OF G4(1) this] show ?thesis using G4(2) cur O(3) by auto
        qed
      qed
    qed
  qed
qed

text \<open>A write by one client changes exactly the bytes it names: inside the volume the addressed range becomes
  the data and nothing else changes in any volume (when the write reports an error, the range has
  been written or not, as a whole); a write beyond the end, to an unknown volume or with an end that
  overflows 64 bits is refused and changes nothing.\<close>

theorem block_write_volume:
  assumes "bv_good E (alone v used)" "fresh \<notin> used" "data \<noteq> []" "length data < 2 ^ 64"
    and "\<And>d b. volumes_of E v name = Some d \<Longrightarrow> splice off data d = Ok b \<Longrightarrow> service_ready E b (bv_pipeline v)"
    and "bv_write E clk fresh now name off data v = (r, v')"
  shows "case volumes_of E v name of
      Some d \<Rightarrow>
        if unat off + length data \<le> length d
        then volumes_of E v' = (volumes_of E v)(name \<mapsto> take (unat off) d @ data @ drop (unat off + length data) d) \<or>
             \<not> is_ok r \<and> volumes_of E v' = volumes_of E v
        else \<not> is_ok r \<and> volumes_of E v' = volumes_of E v
    | None \<Rightarrow> \<not> is_ok r \<and> volumes_of E v' = volumes_of E v"
proof -
  have "volumes_of E v' = volumes_of E v \<and> \<not> is_ok r \<or>
     (\<exists>d. volumes_of E v name = Some d \<and> unat off + length data \<le> length d \<and>
       volumes_of E v' = (volumes_of E v)(name \<mapsto> overwrite (unat off) data d))"
    using bv_write_effect [OF assms(1,2,4,5,6)] assms(3) by (cases r) auto
  then show ?thesis by (auto simp: overwrite_def split: option.splits)
qed

text \<open>Reading a range of a volume returns exactly those bytes when the range lies inside the volume and is
  refused otherwise, also when its end overflows 64 bits; reading changes no volume.\<close>

theorem block_read_slice:
  assumes "bv_good E (alone v used)" "len < 2 ^ 64" "bv_read E name off len v = (r, v')"
  shows "(case volumes_of E v name of
      Some d \<Rightarrow> if unat off + len \<le> length d then r = Ok (take len (drop (unat off) d)) else \<not> is_ok r
    | None \<Rightarrow> \<not> is_ok r) \<and> volumes_of E v' = volumes_of E v"
proof -
  have "service_inv E (bv_pipeline v)" "vols_ok (bv_data E v) (bv_volumes v)"
    using assms(1) by (auto simp: bv_good_def bv_ok_def)
  from bv_read_slice [OF this assms(2,3)] show ?thesis by blast
qed

section \<open>A concrete volume\<close>

definition sample_volume :: block_volume where
  "sample_volume = \<lparr>vol_name = ''v'', vol_size = 2, vol_block_size = 1, vol_capsule_id = CapsuleId [1],
     vol_created_at = 0, vol_updated_at = 0, vol_version = 1\<rparr>"

definition sample_block_view :: "io_outcome list \<Rightarrow> block_view" where
  "sample_block_view io = \<lparr>bv_pipeline = volume_pipeline, bv_volumes = [(''v'', sample_volume)],
     bv_metadata = Some (Stored [(''v'', sample_volume)]), bv_io = io\<rparr>"

lemma sample_block_good: "bv_good sample_ext (alone (sample_block_view io) {CapsuleId [1]})"
proof -
  have m: "vol_caps [(''v'', sample_volume)] = [''v'' \<mapsto> CapsuleId [1]]"
    by (auto simp: vol_caps_def sample_volume_def)
  have "vols_ok (wp_data sample_ext volume_pipeline) [(''v'', sample_volume)]"
    by (simp add: vols_ok_def m names_live_def vol_sized_def volume_data) (simp add: sample_volume_def)
  then show ?thesis
    by (simp add: bv_good_def bv_ok_def sample_block_view_def volume_service m file_ok_def file_names_def)
      (simp add: vols_ok_def)
qed

lemma sample_volumes: "volumes_of sample_ext (sample_block_view io) = [''v'' \<mapsto> [1, 2]]"
  by (auto simp: volumes_of_def named_data_def vol_caps_def sample_block_view_def volume_data sample_volume_def)

lemmas block_run_defs = bv_write_def bv_read_def bv_volume_def write_snapshot_def splice_def write_swap_def on_bv_pipeline_def
  bv_persist_def save_json_def write_capsule_def unix_timestamp_def volume_remove_def




theorem block_read_slice_witness: "fst (bv_read sample_ext ''v'' 1 1 (sample_block_view [])) = Ok [2]"
  using block_read_slice [OF sample_block_good _ prod.collapse [symmetric], of 1 "''v''" 1 "[]"]
  by (simp add: sample_volumes)

theorem block_write_volume_witness:
  "\<exists>v'. bv_write sample_ext (Some 0) (CapsuleId [2]) (Some 0) ''v'' 1 [9] (sample_block_view []) = (Ok (), v') \<and>
     volumes_of sample_ext v' = [''v'' \<mapsto> [1, 9]]"
proof -
  let ?w = "bv_write sample_ext (Some 0) (CapsuleId [2]) (Some 0) ''v'' 1 [9] (sample_block_view [])"
  have "read_capsule sample_ext (CapsuleId [1]) volume_pipeline = (Ok [1, 2], volume_pipeline)"
    by (rule volume_read)
  then have ok: "fst ?w = Ok ()"
    by (simp add: block_run_defs zoom_def bind_op_def lift_result_def sample_block_view_def sample_volume_def)
      (simp add: run_defs volume_chunk volume_compress volume_pipeline_def bv_persist_def save_json_def on_bv_pipeline_def)
  have ready: "service_ready sample_ext b (bv_pipeline (sample_block_view []))"
    if "volumes_of sample_ext (sample_block_view []) ''v'' = Some d" "splice 1 [9] d = Ok b" for d b
  proof -
    have "b = [1, 9]" using that by (auto simp: sample_volumes splice_def)
    then show ?thesis using volume_ready by (simp add: sample_block_view_def)
  qed
  have "bv_write sample_ext (Some 0) (CapsuleId [2]) (Some 0) ''v'' 1 [9] (sample_block_view []) = (Ok (), snd ?w)"
    using ok by (metis prod.collapse)
  from block_write_volume [OF sample_block_good _ _ _ ready this] this show ?thesis
    by (intro exI [of _ "snd ?w"]) (simp add: sample_volumes)
qed

end
