(* ===== verification/Nfs_View.thy ===== *)
theory Nfs_View
  imports View_Common
begin

text \<open>
  The NFS view of \<open>crates/protocol-nfs\<close>: files and directories as a map from canonical paths to
  nodes, each file backed by one capsule. Paths are strings as on Unix, where \<open>Path::components\<close>
  splits at slashes, drops empty and \<open>.\<close> parts and reports \<open>..\<close> as the parent. \<open>clk\<close> is the clock
  of the pipeline, \<open>now\<close> that of the view.
\<close>

section \<open>Paths\<close>

datatype path_component = RootDir | ParentDir | Normal string

fun split_slash :: "string \<Rightarrow> string list" where
  "split_slash [] = [[]]"
| "split_slash (c # cs) =
     (if c = CHR ''/'' then [] # split_slash cs
      else case split_slash cs of p # ps \<Rightarrow> (c # p) # ps | [] \<Rightarrow> [[c]])"

definition component_of :: "string \<Rightarrow> path_component" where
  "component_of part = (if part = ''..'' then ParentDir else Normal part)"

definition path_components :: "string \<Rightarrow> path_component list" where
  "path_components p = (if p \<noteq> [] \<and> hd p = CHR ''/'' then [RootDir] else []) @
     map component_of (filter (\<lambda>part. part \<noteq> [] \<and> part \<noteq> ''.'') (split_slash p))"

fun join_slash :: "string list \<Rightarrow> string" where
  "join_slash [] = []"
| "join_slash [c] = c"
| "join_slash (c # cs) = c @ ''/'' @ join_slash cs"

text \<open>\<open>part.replace('\', "/")\<close>.\<close>

definition replace_backslash :: "string \<Rightarrow> string" where
  "replace_backslash part = map (\<lambda>c. if c = CHR 0x5C then CHR ''/'' else c) part"

record normalized_path =
  np_full :: string
  np_components :: "string list"

fun normalize_step :: "string list \<Rightarrow> path_component \<Rightarrow> string list" where
  "normalize_step components RootDir = []"
| "normalize_step components ParentDir = butlast components"
| "normalize_step components (Normal part) =
     (let part = replace_backslash part in if part = [] then components else components @ [part])"

definition full_path :: "string list \<Rightarrow> string" where
  "full_path components = (if components = [] then ''/'' else ''/'' @ join_slash components)"

text \<open>Relative paths are rooted, so the error \<open>Invalid path\<close> cannot occur.\<close>

definition normalize_path :: "string \<Rightarrow> normalized_path" where
  "normalize_path path =
     (let candidate = (if path = [] then ''/'' else path);
          components = foldl normalize_step [] (path_components candidate)
      in \<lparr>np_full = full_path components, np_components = components\<rparr>)"

definition np_is_root :: "normalized_path \<Rightarrow> bool" where
  "np_is_root p \<longleftrightarrow> np_components p = []"

definition np_name :: "normalized_path \<Rightarrow> string option" where
  "np_name p = (if np_components p = [] then None else Some (last (np_components p)))"

definition np_parent_path :: "normalized_path \<Rightarrow> string option" where
  "np_parent_path p =
     (if np_components p = [] then None
      else if length (np_components p) = 1 then Some ''/''
      else Some (''/'' @ join_slash (butlast (np_components p))))"

section \<open>Nodes\<close>

datatype nfs_node_kind = Directory | File capsule_id u64

record nfs_node =
  nn_name :: string
  nn_path :: string
  nn_kind :: nfs_node_kind
  nn_created_at :: u64
  nn_modified_at :: u64

definition directory_node :: "string \<Rightarrow> string \<Rightarrow> u64 \<Rightarrow> nfs_node" where
  "directory_node path name timestamp =
     \<lparr>nn_name = name, nn_path = path, nn_kind = Directory, nn_created_at = timestamp, nn_modified_at = timestamp\<rparr>"

definition file_node :: "string \<Rightarrow> string \<Rightarrow> capsule_id \<Rightarrow> u64 \<Rightarrow> u64 \<Rightarrow> nfs_node" where
  "file_node path name cid sz timestamp =
     \<lparr>nn_name = name, nn_path = path, nn_kind = File cid sz, nn_created_at = timestamp, nn_modified_at = timestamp\<rparr>"

definition node_is_directory :: "nfs_node \<Rightarrow> bool" where
  "node_is_directory node \<longleftrightarrow> nn_kind node = Directory"

datatype entry_kind = FileEntry | DirectoryEntry

record nfs_entry =
  ne_path :: string
  ne_name :: string
  ne_kind :: entry_kind
  ne_size :: u64
  ne_created_at :: u64
  ne_modified_at :: u64
  ne_capsule_id :: "capsule_id option"

definition to_entry :: "nfs_node \<Rightarrow> nfs_entry" where
  "to_entry node =
     (case nn_kind node of
        Directory \<Rightarrow> \<lparr>ne_path = nn_path node, ne_name = nn_name node, ne_kind = DirectoryEntry, ne_size = 0,
          ne_created_at = nn_created_at node, ne_modified_at = nn_modified_at node, ne_capsule_id = None\<rparr>
      | File cid sz \<Rightarrow> \<lparr>ne_path = nn_path node, ne_name = nn_name node, ne_kind = FileEntry, ne_size = sz,
          ne_created_at = nn_created_at node, ne_modified_at = nn_modified_at node, ne_capsule_id = Some cid\<rparr>)"

type_synonym nodes = "(string, nfs_node) hmap"

definition touch_node :: "string \<Rightarrow> u64 \<Rightarrow> nodes \<Rightarrow> nodes" where
  "touch_node path timestamp nodes =
     (case hm_get nodes path of
        Some node \<Rightarrow> hm_insert path (node\<lparr>nn_modified_at := timestamp\<rparr>) nodes
      | None \<Rightarrow> nodes)"

definition ensure_root_node :: "u64 \<Rightarrow> nodes \<Rightarrow> nodes" where
  "ensure_root_node timestamp nodes =
     (if hm_get nodes ''/'' \<noteq> None then touch_node ''/'' timestamp nodes
      else hm_insert ''/'' (directory_node ''/'' ''/'' timestamp) nodes)"

text \<open>The loop over the components; directories made before a conflict is met remain.\<close>

fun ensure_loop :: "u64 \<Rightarrow> string list \<Rightarrow> string list \<Rightarrow> (nodes, unit, error) op" where
  "ensure_loop timestamp current [] nodes = (Ok (), nodes)"
| "ensure_loop timestamp current (part # parts) nodes =
     (let current = current @ [part]; current_path = ''/'' @ join_slash current
      in case hm_get nodes current_path of
           Some node \<Rightarrow>
             if node_is_directory node
             then ensure_loop timestamp current parts (touch_node current_path timestamp nodes)
             else (Err (ViewError ''Path conflict with file''), nodes)
         | None \<Rightarrow>
             ensure_loop timestamp current parts
               (hm_insert current_path (directory_node current_path part timestamp) nodes))"

definition ensure_directory :: "normalized_path \<Rightarrow> u64 \<Rightarrow> (nodes, unit, error) op" where
  "ensure_directory path timestamp nodes =
     ensure_loop timestamp [] (np_components path) (ensure_root_node timestamp nodes)"

section \<open>The view\<close>

record nfs_view =
  nfs_pipeline :: write_pipeline
  nfs_nodes :: nodes
  nfs_namespace :: "nodes persisted option"
  nfs_io :: "io_outcome list"

type_synonym 'a nfs_op = "(nfs_view, 'a, error) op"

definition nfs_new :: "registry \<Rightarrow> nvram_log \<Rightarrow> (key_manager, encryption_error) result \<Rightarrow> u64 option \<Rightarrow> nfs_view" where
  "nfs_new rg lg env now = \<lparr>nfs_pipeline = wp_new rg lg env, nfs_nodes = ensure_root_node (unix_timestamp now) [],
     nfs_namespace = None, nfs_io = []\<rparr>"

definition nfs_open ::
  "registry \<Rightarrow> nvram_log \<Rightarrow> (key_manager, encryption_error) result \<Rightarrow> u64 option \<Rightarrow> nodes persisted \<Rightarrow>
   io_outcome list \<Rightarrow> (nfs_view, error) result" where
  "nfs_open rg lg env now file io =
     bind_result (load_json file io) (\<lambda>nodes.
       Ok \<lparr>nfs_pipeline = wp_new rg lg env, nfs_nodes = ensure_root_node (unix_timestamp now) nodes,
           nfs_namespace = Some file, nfs_io = (if file = Absent then io else snd (io_next io))\<rparr>)"

definition on_nfs_pipeline :: "'a wp_op \<Rightarrow> 'a nfs_op" where
  "on_nfs_pipeline m = zoom nfs_pipeline (\<lambda>p v. v\<lparr>nfs_pipeline := p\<rparr>) m"

definition on_nodes :: "(nodes, 'a, error) op \<Rightarrow> 'a nfs_op" where
  "on_nodes m = zoom nfs_nodes (\<lambda>n v. v\<lparr>nfs_nodes := n\<rparr>) m"

definition nfs_persist :: "unit nfs_op" where
  "nfs_persist v = zoom (\<lambda>v. (nfs_namespace v, nfs_io v)) (\<lambda>(f, io) v. v\<lparr>nfs_namespace := f, nfs_io := io\<rparr>)
     (save_json (nfs_nodes v)) v"

definition capsule_of_node :: "nfs_node \<Rightarrow> capsule_id option" where
  "capsule_of_node node = (case nn_kind node of File cid sz \<Rightarrow> Some cid | Directory \<Rightarrow> None)"

text \<open>\<open>let _ = self.pipeline.delete_capsule(old)\<close> when there is an old capsule.\<close>

definition drop_capsule :: "capsule_id option \<Rightarrow> unit nfs_op" where
  "drop_capsule old =
     (case old of Some cid \<Rightarrow> ignore_op (on_nfs_pipeline (delete_capsule cid)) | None \<Rightarrow> return_op ())"

text \<open>The part of \<open>write_file\<close> under the write lock: the capsule superseded, if any.\<close>

definition file_insert ::
  "normalized_path \<Rightarrow> normalized_path \<Rightarrow> capsule_id \<Rightarrow> u64 \<Rightarrow> u64 \<Rightarrow> (nodes, capsule_id option, error) op" where
  "file_insert path_info parent_info capsule_id sz now =
     bind_op (ensure_directory parent_info now) (\<lambda>_ nodes.
       let old_capsule = Option.bind (hm_get nodes (np_full path_info)) capsule_of_node
       in case np_name path_info of
            None \<Rightarrow> (Err (ViewError ''Invalid file path''), nodes)
          | Some file_name \<Rightarrow>
              (Ok old_capsule,
               touch_node (np_full parent_info) now
                 (hm_insert (np_full path_info) (file_node (np_full path_info) file_name capsule_id sz now) nodes)))"

definition write_file :: "ext \<Rightarrow> u64 option \<Rightarrow> capsule_id \<Rightarrow> u64 option \<Rightarrow> string \<Rightarrow> bytes \<Rightarrow> capsule_id nfs_op" where
  "write_file E clk fresh now path data v =
     (let path_info = normalize_path path
      in if np_is_root path_info then (Err (ViewError ''Cannot write file at root''), v)
         else
           bind_op (lift_result (ok_or (np_parent_path path_info) (ViewError ''File path must have a parent directory'')))
             (\<lambda>parent_path v.
               let parent_info = normalize_path parent_path; timestamp = unix_timestamp now
               in if (case hm_get (nfs_nodes v) (np_full path_info) of Some node \<Rightarrow> node_is_directory node | None \<Rightarrow> False)
                  then (Err (ViewError ''Cannot overwrite directory with file''), v)
                  else
                    bind_op (on_nfs_pipeline (write_capsule E clk fresh data)) (\<lambda>capsule_id.
                    bind_op (on_nodes (file_insert path_info parent_info capsule_id (of_nat (length data)) timestamp)) (\<lambda>old.
                    bind_op (drop_capsule old) (\<lambda>_.
                    bind_op nfs_persist (\<lambda>_. return_op capsule_id)))) v) v)"

definition find_node :: "string \<Rightarrow> nfs_view \<Rightarrow> (nfs_node, error) result" where
  "find_node path v = ok_or (hm_get (nfs_nodes v) (np_full (normalize_path path))) (ViewError ''No such file'')"

definition read_file :: "ext \<Rightarrow> string \<Rightarrow> bytes nfs_op" where
  "read_file E path v =
     bind_op (lift_result (find_node path v)) (\<lambda>node.
       case nn_kind node of
         File cid sz \<Rightarrow> on_nfs_pipeline (read_capsule E cid)
       | Directory \<Rightarrow> fail_op (ViewError ''Path is a directory'')) v"

definition nfs_read_range :: "ext \<Rightarrow> string \<Rightarrow> u64 \<Rightarrow> nat \<Rightarrow> bytes nfs_op" where
  "nfs_read_range E path off len v =
     bind_op (lift_result (find_node path v)) (\<lambda>node.
       case nn_kind node of
         File cid sz \<Rightarrow>
           if off + of_nat len > sz then fail_op (ViewError ''Read beyond end of file'')
           else on_nfs_pipeline (read_range E cid off len)
       | Directory \<Rightarrow> fail_op (ViewError ''Path is a directory'')) v"

definition nfs_mkdir :: "u64 option \<Rightarrow> string \<Rightarrow> unit nfs_op" where
  "nfs_mkdir now path =
     bind_op (on_nodes (ensure_directory (normalize_path path) (unix_timestamp now))) (\<lambda>_. nfs_persist)"

text \<open>\<open>str::starts_with\<close>.\<close>

definition starts_with :: "string \<Rightarrow> string \<Rightarrow> bool" where
  "starts_with s pre \<longleftrightarrow> take (length pre) s = pre"

text \<open>The part of \<open>delete\<close> under the write lock.\<close>

definition node_remove :: "normalized_path \<Rightarrow> u64 \<Rightarrow> (nodes, capsule_id option, error) op" where
  "node_remove path_info now nodes =
     bind_op (lift_result (ok_or (hm_get nodes (np_full path_info)) (ViewError ''No such path''))) (\<lambda>node nodes.
       if node_is_directory node \<and> list_ex (\<lambda>k. starts_with k (np_full path_info @ ''/'')) (hm_keys nodes)
       then (Err (ViewError ''Directory not empty''), nodes)
       else
         (let nodes = hm_remove (np_full path_info) nodes
          in (Ok (capsule_of_node node),
              (case np_parent_path path_info of Some parent_path \<Rightarrow> touch_node parent_path now nodes | None \<Rightarrow> nodes)))) nodes"

definition nfs_delete :: "u64 option \<Rightarrow> string \<Rightarrow> unit nfs_op" where
  "nfs_delete now path =
     (let path_info = normalize_path path
      in if np_is_root path_info then fail_op (ViewError ''Cannot delete root directory'')
         else
           bind_op (on_nodes (node_remove path_info (unix_timestamp now))) (\<lambda>removed_capsule.
           bind_op (drop_capsule removed_capsule) (\<lambda>_. nfs_persist)))"

definition nfs_metadata :: "string \<Rightarrow> nfs_view \<Rightarrow> (nfs_entry, error) result" where
  "nfs_metadata path v =
     bind_result (ok_or (hm_get (nfs_nodes v) (np_full (normalize_path path))) (ViewError ''No such path'')) (\<lambda>node.
       Ok (to_entry node))"

definition list_directory :: "string \<Rightarrow> nfs_view \<Rightarrow> (nfs_entry list, error) result" where
  "list_directory path v =
     (let path_info = normalize_path path
      in bind_result (ok_or (hm_get (nfs_nodes v) (np_full path_info)) (ViewError ''No such directory'')) (\<lambda>dir_node.
           if \<not> node_is_directory dir_node then Err (ViewError ''Path is not a directory'')
           else
             (let prefix = (if np_is_root path_info then ''/'' else np_full path_info @ ''/'')
              in Ok (map (\<lambda>(_, node). to_entry node)
                   (filter (\<lambda>(p, _). p \<noteq> np_full path_info \<and> starts_with p prefix \<and>
                        (let remainder = drop (length prefix) p in remainder \<noteq> [] \<and> CHR ''/'' \<notin> set remainder))
                      (btree_entries (nfs_nodes v)))))))"

end
