(* ===== verification/Nfs_Paths.thy ===== *)
theory Nfs_Paths
  imports Nfs_View "HOL-Library.Sublist"
begin

text \<open>
  Canonical paths of the NFS view: what normalisation yields for paths without backslashes, that
  canonical paths and their component lists determine each other, and what the prefix tests of
  \<open>delete\<close> and \<open>list_directory\<close> mean in terms of components.
\<close>

section \<open>Splitting and joining\<close>

lemma split_slash_nonempty [simp]: "split_slash s \<noteq> []"
  by (induction s) (auto split: list.splits)

lemma split_slash_append: "split_slash (a @ CHR ''/'' # b) = split_slash a @ split_slash b"
  by (induction a) (auto split: list.splits)

lemma split_slash_plain [simp]: "CHR ''/'' \<notin> set c \<Longrightarrow> split_slash c = [c]"
  by (induction c) auto

lemma split_slash_no_slash: "p \<in> set (split_slash s) \<Longrightarrow> CHR ''/'' \<notin> set p"
proof (induction s arbitrary: p)
  case (Cons c s)
  then show ?case by (cases "split_slash s") (auto split: if_splits)
qed simp

lemma set_split_slash: "p \<in> set (split_slash s) \<Longrightarrow> set p \<subseteq> set s"
proof (induction s arbitrary: p)
  case (Cons c s)
  then show ?case by (cases "split_slash s") (fastforce split: if_splits)+
qed simp

lemma join_slash_Cons: "cs \<noteq> [] \<Longrightarrow> join_slash (c # cs) = c @ CHR ''/'' # join_slash cs"
  by (cases cs) simp_all

lemma split_join: "cs \<noteq> [] \<Longrightarrow> (\<And>c. c \<in> set cs \<Longrightarrow> CHR ''/'' \<notin> set c) \<Longrightarrow> split_slash (join_slash cs) = cs"
proof (induction cs)
  case (Cons c cs)
  then show ?case by (cases "cs = []") (simp_all add: join_slash_Cons split_slash_append)
qed simp

lemma join_slash_append: "cs \<noteq> [] \<Longrightarrow> ds \<noteq> [] \<Longrightarrow> join_slash (cs @ ds) = join_slash cs @ CHR ''/'' # join_slash ds"
proof (induction cs)
  case (Cons c cs)
  then show ?case by (cases "cs = []") (simp_all add: join_slash_Cons)
qed simp

section \<open>Canonical paths\<close>

definition canonical_part :: "string \<Rightarrow> bool" where
  "canonical_part c \<longleftrightarrow> c \<noteq> [] \<and> c \<noteq> ''.'' \<and> c \<noteq> ''..'' \<and> CHR ''/'' \<notin> set c \<and> CHR 0x5C \<notin> set c"

definition canonical :: "string list \<Rightarrow> bool" where
  "canonical cs \<longleftrightarrow> list_all canonical_part cs"

lemma canonical_simps [simp]: "canonical []" "canonical (c # cs) \<longleftrightarrow> canonical_part c \<and> canonical cs"
  "canonical (cs @ ds) \<longleftrightarrow> canonical cs \<and> canonical ds"
  by (simp_all add: canonical_def)

lemma canonical_butlast: "canonical cs \<Longrightarrow> canonical (butlast cs)"
  by (auto simp: canonical_def list_all_iff dest: in_set_butlastD)

lemma canonical_last: "canonical cs \<Longrightarrow> cs \<noteq> [] \<Longrightarrow> canonical_part (last cs)"
  by (simp add: canonical_def list_all_iff)

lemma canonical_no_slash: "canonical cs \<Longrightarrow> c \<in> set cs \<Longrightarrow> CHR ''/'' \<notin> set c"
  by (auto simp: canonical_def list_all_iff canonical_part_def)

lemma replace_backslash_id: "CHR 0x5C \<notin> set p \<Longrightarrow> replace_backslash p = p"
  by (induction p) (auto simp: replace_backslash_def)

definition no_backslash :: "string \<Rightarrow> bool" where
  "no_backslash p \<longleftrightarrow> CHR 0x5C \<notin> set p"

lemma normalize_step_canonical:
  assumes "canonical cs" "\<And>p. pc = Normal p \<Longrightarrow> canonical_part p"
  shows "canonical (normalize_step cs pc)"
  using assms by (cases pc) (auto simp: canonical_butlast Let_def canonical_part_def replace_backslash_id)

lemma foldl_normalize_canonical:
  "canonical cs \<Longrightarrow> (\<And>p. Normal p \<in> set comps \<Longrightarrow> canonical_part p) \<Longrightarrow> canonical (foldl normalize_step cs comps)"
  by (induction comps arbitrary: cs) (simp_all add: normalize_step_canonical)

lemma normalize_canonical:
  assumes "no_backslash p"
  shows "canonical (np_components (normalize_path p))" "np_full (normalize_path p) = full_path (np_components (normalize_path p))"
proof -
  let ?c = "if p = [] then ''/'' else p"
  have "canonical_part part" if "Normal part \<in> set (path_components ?c)" for part
  proof -
    have part: "part \<in> set (split_slash ?c)" "part \<noteq> []" "part \<noteq> ''.''" "part \<noteq> ''..''"
      using that by (auto simp: path_components_def component_of_def split: if_splits)
    then show ?thesis
      using assms split_slash_no_slash [OF part(1)] set_split_slash [OF part(1)]
      by (auto simp: canonical_part_def no_backslash_def split: if_splits)
  qed
  then show "canonical (np_components (normalize_path p))"
    by (simp add: normalize_path_def Let_def foldl_normalize_canonical)
  show "np_full (normalize_path p) = full_path (np_components (normalize_path p))"
    by (simp add: normalize_path_def Let_def)
qed

text \<open>A canonical path is its own normal form.\<close>

lemma foldl_normal: "canonical cs \<Longrightarrow> canonical ds \<Longrightarrow> foldl normalize_step cs (map Normal ds) = cs @ ds"
proof (induction ds arbitrary: cs)
  case (Cons d ds)
  then have "replace_backslash d = d" "d \<noteq> []" by (auto simp: canonical_part_def replace_backslash_id)
  then show ?case using Cons by simp
qed simp

lemma normalize_full_path:
  assumes "canonical cs"
  shows "normalize_path (full_path cs) = \<lparr>np_full = full_path cs, np_components = cs\<rparr>"
proof (cases "cs = []")
  case True
  then show ?thesis by (simp add: normalize_path_def full_path_def path_components_def)
next
  case False
  have s: "split_slash (CHR ''/'' # join_slash cs) = [] # cs"
    using split_join [OF False canonical_no_slash [OF assms]] by simp
  have "filter (\<lambda>part. part \<noteq> [] \<and> part \<noteq> ''.'') cs = cs" "map component_of cs = map Normal cs"
    using assms by (auto simp: filter_id_conv canonical_def list_all_iff canonical_part_def component_of_def)
  then have "path_components (full_path cs) = RootDir # map Normal cs"
    using False s by (simp add: path_components_def full_path_def)
  moreover have "full_path cs \<noteq> []" by (simp add: full_path_def)
  moreover have "foldl normalize_step [] (RootDir # map Normal cs) = cs"
    using foldl_normal [OF canonical_simps(1) assms] by simp
  ultimately show ?thesis unfolding normalize_path_def Let_def by (simp del: foldl_Cons)
qed

lemma full_path_inj:
  assumes "canonical cs" "canonical ds" "full_path cs = full_path ds"
  shows "cs = ds"
proof -
  have "np_components (normalize_path (full_path cs)) = cs" by (subst normalize_full_path [OF assms(1)]) simp
  moreover have "np_components (normalize_path (full_path ds)) = ds" by (subst normalize_full_path [OF assms(2)]) simp
  ultimately show ?thesis using assms(3) by metis
qed

lemma np_parent:
  assumes "canonical (np_components p)" "np_components p \<noteq> []"
  shows "np_parent_path p = Some (full_path (butlast (np_components p)))"
proof (cases "length (np_components p) = 1")
  case True
  then obtain c where "np_components p = [c]" by (auto simp: length_Suc_conv)
  then show ?thesis by (simp add: np_parent_path_def full_path_def)
next
  case False
  then have "butlast (np_components p) \<noteq> []" using assms(2) by (cases "np_components p") auto
  then show ?thesis using False assms(2) by (simp add: np_parent_path_def full_path_def)
qed

section \<open>Prefixes\<close>

lemma starts_with_iff: "starts_with s pre \<longleftrightarrow> (\<exists>t. s = pre @ t)"
  unfolding starts_with_def by (metis append_eq_conv_conj append_take_drop_id)

text \<open>Everything below a directory, for \<open>delete\<close>.\<close>

lemma below_iff:
  assumes "canonical cs" "canonical ds" "cs \<noteq> []"
  shows "starts_with (full_path ds) (full_path cs @ ''/'') \<longleftrightarrow> (\<exists>es. es \<noteq> [] \<and> ds = cs @ es)"
proof
  assume "starts_with (full_path ds) (full_path cs @ ''/'')"
  then obtain t where t: "full_path ds = CHR ''/'' # join_slash cs @ CHR ''/'' # t"
    using assms(3) by (auto simp: starts_with_iff full_path_def)
  have d: "ds \<noteq> []" using t by (auto simp: full_path_def)
  then have "join_slash ds = join_slash cs @ CHR ''/'' # t" using t by (simp add: full_path_def)
  then have "split_slash (join_slash ds) = split_slash (join_slash cs) @ split_slash t" by (simp add: split_slash_append)
  then have "ds = cs @ split_slash t"
    using split_join [OF d canonical_no_slash [OF assms(2)]] split_join [OF assms(3) canonical_no_slash [OF assms(1)]] by simp
  then show "\<exists>es. es \<noteq> [] \<and> ds = cs @ es" by (intro exI [of _ "split_slash t"]) simp
next
  assume "\<exists>es. es \<noteq> [] \<and> ds = cs @ es"
  then show "starts_with (full_path ds) (full_path cs @ ''/'')"
    using assms(3) by (auto simp: starts_with_iff full_path_def join_slash_append)
qed

text \<open>The immediate children of a directory, for \<open>list_directory\<close>.\<close>

definition dir_prefix :: "string list \<Rightarrow> string" where
  "dir_prefix cs = (if cs = [] then ''/'' else full_path cs @ ''/'')"

lemma child_iff:
  assumes "canonical cs" "canonical ds"
  shows "full_path ds \<noteq> full_path cs \<and> starts_with (full_path ds) (dir_prefix cs) \<and>
      (let remainder = drop (length (dir_prefix cs)) (full_path ds) in remainder \<noteq> [] \<and> CHR ''/'' \<notin> set remainder)
    \<longleftrightarrow> (\<exists>c. ds = cs @ [c])" (is "?l \<longleftrightarrow> ?r")
proof
  assume l: ?l
  then obtain t where t: "full_path ds = dir_prefix cs @ t" "t \<noteq> []" "CHR ''/'' \<notin> set t"
    by (auto simp: starts_with_iff Let_def)
  then have d: "ds \<noteq> []" by (auto simp: full_path_def dir_prefix_def split: if_splits)
  show ?r
  proof (cases "cs = []")
    case True
    then have "join_slash ds = t" using t d by (simp add: full_path_def dir_prefix_def)
    then have "ds = [t]" using split_join [OF d canonical_no_slash [OF assms(2)]] t(3) by simp
    then show ?thesis using True by simp
  next
    case False
    then have "join_slash ds = join_slash cs @ CHR ''/'' # t" using t d by (simp add: full_path_def dir_prefix_def)
    then have "split_slash (join_slash ds) = split_slash (join_slash cs) @ [t]" using t(3) by (simp add: split_slash_append)
    then show ?thesis
      using split_join [OF d canonical_no_slash [OF assms(2)]] split_join [OF False canonical_no_slash [OF assms(1)]] by simp
  qed
next
  assume ?r
  then obtain c where c: "ds = cs @ [c]" by blast
  then have "canonical_part c" using assms(2) by simp
  then have p: "c \<noteq> []" "CHR ''/'' \<notin> set c" by (auto simp: canonical_part_def)
  have f: "full_path ds = dir_prefix cs @ c"
    using c by (cases "cs = []") (simp_all add: full_path_def dir_prefix_def join_slash_append)
  have "full_path ds \<noteq> full_path cs" using full_path_inj [OF assms(2,1)] c by auto
  then show ?l using f p by (auto simp: starts_with_iff)
qed

end
