(* ===== verification/Nfs_Correct.thy ===== *)
theory Nfs_Correct
  imports Nfs_Paths Pipeline_Properties
begin

text \<open>
  The namespace of the NFS view as a tree over component lists, what every operation does to it,
  and the file system a user sees: directories and the bytes of the files.
\<close>

section \<open>The tree\<close>

definition tree_of :: "nodes \<Rightarrow> string list \<rightharpoonup> nfs_node" where
  "tree_of nodes cs = (if canonical cs then hm_get nodes (full_path cs) else None)"

definition kind_of :: "nodes \<Rightarrow> string list \<rightharpoonup> nfs_node_kind" where
  "kind_of nodes cs = map_option nn_kind (tree_of nodes cs)"

text \<open>
  Every key is canonical, the root is a directory, the parent of every node is a directory, and
  every node knows its path and its name.
\<close>

definition node_named :: "string list \<Rightarrow> nfs_node \<Rightarrow> bool" where
  "node_named cs node \<longleftrightarrow> nn_path node = full_path cs \<and> nn_name node = (if cs = [] then ''/'' else last cs)"

definition nodes_ok :: "nodes \<Rightarrow> bool" where
  "nodes_ok nodes \<longleftrightarrow> hm_ok nodes \<and>
     (\<forall>k node. hm_get nodes k = Some node \<longrightarrow> (\<exists>cs. canonical cs \<and> k = full_path cs)) \<and>
     kind_of nodes [] = Some Directory \<and>
     (\<forall>cs. cs \<noteq> [] \<longrightarrow> kind_of nodes cs \<noteq> None \<longrightarrow> kind_of nodes (butlast cs) = Some Directory) \<and>
     (\<forall>cs node. tree_of nodes cs = Some node \<longrightarrow> node_named cs node)"

lemma nodes_okD:
  assumes "nodes_ok nodes"
  shows "hm_ok nodes" "hm_get nodes k = Some node \<Longrightarrow> \<exists>cs. canonical cs \<and> k = full_path cs"
    and "kind_of nodes [] = Some Directory"
    and "cs \<noteq> [] \<Longrightarrow> kind_of nodes cs \<noteq> None \<Longrightarrow> kind_of nodes (butlast cs) = Some Directory"
    and "tree_of nodes cs = Some node \<Longrightarrow> node_named cs node"
  using assms unfolding nodes_ok_def by blast+

lemma kind_of_canonical: "kind_of nodes cs \<noteq> None \<Longrightarrow> canonical cs"
  by (auto simp: kind_of_def tree_of_def split: if_splits)

lemma tree_of_insert: "canonical cs \<Longrightarrow> tree_of (hm_insert (full_path cs) node nodes) = (tree_of nodes)(cs \<mapsto> node)"
  by (auto simp: tree_of_def fun_eq_iff dest: full_path_inj)

lemma tree_of_remove: "canonical cs \<Longrightarrow> tree_of (hm_remove (full_path cs) nodes) = (tree_of nodes)(cs := None)"
  by (auto simp: tree_of_def fun_eq_iff dest: full_path_inj)

lemma kind_of_insert: "canonical cs \<Longrightarrow> kind_of (hm_insert (full_path cs) node nodes) = (kind_of nodes)(cs \<mapsto> nn_kind node)"
  by (auto simp: kind_of_def tree_of_insert fun_eq_iff)

lemma kind_of_remove: "canonical cs \<Longrightarrow> kind_of (hm_remove (full_path cs) nodes) = (kind_of nodes)(cs := None)"
  by (auto simp: kind_of_def tree_of_remove fun_eq_iff)

lemma hm_get_kind: "canonical cs \<Longrightarrow> map_option nn_kind (hm_get nodes (full_path cs)) = kind_of nodes cs"
  by (simp add: kind_of_def tree_of_def)

text \<open>A non-directory has nothing below it.\<close>

lemma no_child:
  assumes "nodes_ok nodes" "kind_of nodes cs \<noteq> Some Directory" "ds \<noteq> []" "butlast ds = cs"
  shows "kind_of nodes ds = None"
  using nodes_okD(4) [OF assms(1,3)] assms(2,4) by blast

lemma prefix_kind:
  assumes "nodes_ok nodes"
  shows "kind_of nodes (cs @ es) \<noteq> None \<Longrightarrow> kind_of nodes cs \<noteq> None"
proof (induction es rule: rev_induct)
  case (snoc e es)
  then have "kind_of nodes (butlast (cs @ es @ [e])) = Some Directory" by (intro nodes_okD(4) [OF assms]) simp_all
  then show ?case using snoc.IH by (simp add: butlast_append split: if_splits)
qed simp

lemma nodes_ok_put:
  assumes ok: "nodes_ok nodes" and cs: "canonical cs" "cs \<noteq> []" "kind_of nodes (butlast cs) = Some Directory"
    and node: "node_named cs node" "nn_kind node = Directory \<or> kind_of nodes cs \<noteq> Some Directory"
  shows "nodes_ok (hm_insert (full_path cs) node nodes)"
  unfolding nodes_ok_def kind_of_insert [OF cs(1)] tree_of_insert [OF cs(1)]
proof (intro conjI allI impI)
  note O = nodes_okD [OF ok]
  show "hm_ok (hm_insert (full_path cs) node nodes)" using O(1) by simp
  show "\<exists>cs. canonical cs \<and> k = full_path cs" if "hm_get (hm_insert (full_path cs) node nodes) k = Some n" for k n
    using that O(2) [of k] cs(1) by (auto split: if_splits)
  show "((kind_of nodes)(cs \<mapsto> nn_kind node)) [] = Some Directory" using O(3) cs(2) by simp
  show "((kind_of nodes)(cs \<mapsto> nn_kind node)) (butlast ds) = Some Directory"
    if ds: "ds \<noteq> []" "((kind_of nodes)(cs \<mapsto> nn_kind node)) ds \<noteq> None" for ds
  proof (cases "ds = cs")
    case True
    have "butlast cs \<noteq> cs" using cs(2) by (metis append_butlast_last_id append_self_conv not_Cons_self)
    then show ?thesis using True cs(3) by simp
  next
    case False
    then have d: "kind_of nodes ds \<noteq> None" using ds(2) by simp
    then have "kind_of nodes (butlast ds) = Some Directory" by (rule O(4) [OF ds(1)])
    then show ?thesis using node(2) by auto
  qed
  show "node_named ds n" if "((tree_of nodes)(cs \<mapsto> node)) ds = Some n" for ds n
    using that O(5) [of ds n] node(1) by (auto split: if_splits)
qed

lemma nodes_ok_remove:
  assumes ok: "nodes_ok nodes" and cs: "canonical cs" "cs \<noteq> []" "\<And>ds. ds \<noteq> [] \<Longrightarrow> butlast ds = cs \<Longrightarrow> kind_of nodes ds = None"
  shows "nodes_ok (hm_remove (full_path cs) nodes)"
  unfolding nodes_ok_def kind_of_remove [OF cs(1)] tree_of_remove [OF cs(1)]
proof (intro conjI allI impI)
  note O = nodes_okD [OF ok]
  show "hm_ok (hm_remove (full_path cs) nodes)" using O(1) by simp
  show "\<exists>cs. canonical cs \<and> k = full_path cs" if "hm_get (hm_remove (full_path cs) nodes) k = Some n" for k n
    using that O(2) [of k] by (auto split: if_splits)
  show "((kind_of nodes)(cs := None)) [] = Some Directory" using O(3) cs(2) by simp
  show "((kind_of nodes)(cs := None)) (butlast ds) = Some Directory"
    if ds: "ds \<noteq> []" "((kind_of nodes)(cs := None)) ds \<noteq> None" for ds
  proof -
    have d: "kind_of nodes ds \<noteq> None" using ds(2) by (auto split: if_splits)
    then have "butlast ds \<noteq> cs" using cs(3) [OF ds(1)] by auto
    then show ?thesis using O(4) [OF ds(1) d] by simp
  qed
  show "node_named ds n" if "((tree_of nodes)(cs := None)) ds = Some n" for ds n
    using that O(5) [of ds n] by (auto split: if_splits)
qed

lemma touch_same:
  assumes "nodes_ok nodes" "canonical cs"
  shows "nodes_ok (touch_node (full_path cs) t nodes)" "kind_of (touch_node (full_path cs) t nodes) = kind_of nodes"
proof -
  have "nodes_ok (touch_node (full_path cs) t nodes) \<and> kind_of (touch_node (full_path cs) t nodes) = kind_of nodes"
  proof (cases "hm_get nodes (full_path cs)")
    case (Some node)
    let ?n = "node\<lparr>nn_modified_at := t\<rparr>"
    have k: "kind_of nodes cs = Some (nn_kind node)" using hm_get_kind [OF assms(2), of nodes] Some by simp
    then have same: "kind_of (hm_insert (full_path cs) ?n nodes) = kind_of nodes"
      unfolding kind_of_insert [OF assms(2)] by (simp add: fun_upd_idem)
    have named: "node_named cs ?n" using nodes_okD(5) [OF assms(1), of cs node] Some assms(2)
      by (simp add: tree_of_def node_named_def)
    have "nodes_ok (hm_insert (full_path cs) ?n nodes)"
      unfolding nodes_ok_def same tree_of_insert [OF assms(2)]
    proof (intro conjI allI impI)
      note O = nodes_okD [OF assms(1)]
      show "hm_ok (hm_insert (full_path cs) ?n nodes)" using O(1) by simp
      show "\<exists>cs. canonical cs \<and> k = full_path cs" if "hm_get (hm_insert (full_path cs) ?n nodes) k = Some n" for k n
        using that O(2) [of k] assms(2) by (auto split: if_splits)
      show "kind_of nodes [] = Some Directory" by (rule O(3))
      show "kind_of nodes (butlast ds) = Some Directory" if "ds \<noteq> []" "kind_of nodes ds \<noteq> None" for ds
        by (rule O(4) [OF that])
      show "node_named ds n" if "((tree_of nodes)(cs \<mapsto> ?n)) ds = Some n" for ds n
        using that O(5) [of ds n] named by (auto split: if_splits)
    qed
    then show ?thesis using Some same by (simp add: touch_node_def)
  qed (simp add: touch_node_def assms)
  then show "nodes_ok (touch_node (full_path cs) t nodes)" "kind_of (touch_node (full_path cs) t nodes) = kind_of nodes" by auto
qed

section \<open>Making directories\<close>

definition add_dirs :: "'k \<Rightarrow> string list \<Rightarrow> (string list \<rightharpoonup> 'k) \<Rightarrow> string list \<rightharpoonup> 'k" where
  "add_dirs dir cs F ds = (if F ds = None \<and> prefix ds cs then Some dir else F ds)"

lemma add_dirs_below: "add_dirs dir (a @ b) (add_dirs dir a F) = add_dirs dir (a @ b) F"
  by (auto simp: add_dirs_def fun_eq_iff dest: prefix_order.trans)

lemma add_dirs_keeps: "F ds = Some x \<Longrightarrow> add_dirs dir cs F ds = Some x"
  by (simp add: add_dirs_def)

lemma root_same:
  assumes "nodes_ok nodes"
  shows "nodes_ok (ensure_root_node t nodes)" "kind_of (ensure_root_node t nodes) = kind_of nodes"
proof -
  have r: "full_path [] = ''/''" by (simp add: full_path_def)
  have "hm_get nodes ''/'' \<noteq> None" using nodes_okD(3) [OF assms] hm_get_kind [of "[]" nodes] r by auto
  then have "ensure_root_node t nodes = touch_node (full_path []) t nodes" by (simp add: ensure_root_node_def r)
  then show "nodes_ok (ensure_root_node t nodes)" "kind_of (ensure_root_node t nodes) = kind_of nodes"
    using touch_same [OF assms, of "[]" t] by simp_all
qed

lemma new_root: "nodes_ok (ensure_root_node t [])" "kind_of (ensure_root_node t []) = [[] \<mapsto> Directory]"
proof -
  have r: "full_path [] = ''/''" by (simp add: full_path_def)
  have e: "ensure_root_node t [] = hm_insert (full_path []) (directory_node ''/'' ''/'' t) []"
    by (simp add: ensure_root_node_def r)
  have k: "kind_of [] = Map.empty" "tree_of [] = Map.empty" by (auto simp: kind_of_def tree_of_def)
  show kind: "kind_of (ensure_root_node t []) = [[] \<mapsto> Directory]"
    unfolding e kind_of_insert [OF canonical_simps(1)] k by (simp add: directory_node_def)
  show "nodes_ok (ensure_root_node t [])"
    unfolding nodes_ok_def kind unfolding e tree_of_insert [OF canonical_simps(1)] k
    by (auto simp: directory_node_def node_named_def r hm_ok_def split: if_splits intro: exI [of _ "[]"])
qed

lemma ensure_loop_effect:
  assumes "nodes_ok nodes" "canonical (cs @ parts)" "kind_of nodes cs = Some Directory" "ensure_loop t cs parts nodes = (r, nodes')"
  shows "nodes_ok nodes' \<and> (\<exists>i. kind_of nodes' = add_dirs Directory (cs @ take i parts) (kind_of nodes) \<and>
    (is_ok r \<longrightarrow> take i parts = parts \<and> kind_of nodes' (cs @ parts) = Some Directory))"
  using assms
proof (induction parts arbitrary: cs nodes)
  case Nil
  have "add_dirs Directory cs (kind_of nodes) = kind_of nodes"
  proof
    fix ds
    have "kind_of nodes ds \<noteq> None" if "prefix ds cs"
      using prefix_kind [OF Nil.prems(1), of ds] that Nil.prems(3) by (auto simp: prefix_def)
    then show "add_dirs Directory cs (kind_of nodes) ds = kind_of nodes ds" by (auto simp: add_dirs_def)
  qed
  then show ?case using Nil by auto
next
  case (Cons part parts)
  let ?cur = "cs @ [part]"
  have can: "canonical ?cur" "canonical (?cur @ parts)" using Cons.prems(2) by auto
  have path: "CHR ''/'' # join_slash ?cur = full_path ?cur" by (simp add: full_path_def)
  have step: ?case if ok: "nodes_ok n1" "kind_of n1 = add_dirs Directory ?cur (kind_of nodes)" "kind_of n1 ?cur = Some Directory"
    and run: "ensure_loop t ?cur parts n1 = (r, nodes')" for n1
  proof -
    from Cons.IH [OF ok(1) can(2) ok(3) run] obtain i where i: "nodes_ok nodes'"
      "kind_of nodes' = add_dirs Directory (?cur @ take i parts) (kind_of n1)"
      "is_ok r \<longrightarrow> take i parts = parts \<and> kind_of nodes' (?cur @ parts) = Some Directory" by blast
    have "kind_of nodes' = add_dirs Directory (cs @ take (Suc i) (part # parts)) (kind_of nodes)"
      using i(2) unfolding ok(2) add_dirs_below by simp
    moreover have "is_ok r \<longrightarrow> take (Suc i) (part # parts) = part # parts \<and> kind_of nodes' (cs @ part # parts) = Some Directory"
      using i(3) by simp
    ultimately show ?thesis using i(1) by blast
  qed
  have below: "kind_of nodes ds \<noteq> None" if "prefix ds cs" for ds
    using prefix_kind [OF Cons.prems(1), of ds] that Cons.prems(3) by (auto simp: prefix_def)
  show ?case
  proof (cases "hm_get nodes (full_path ?cur)")
    case None
    let ?n = "directory_node (full_path ?cur) part t"
    have kn: "kind_of nodes ?cur = None" using hm_get_kind [OF can(1), of nodes] None by simp
    show ?thesis
    proof (rule step)
      show "nodes_ok (hm_insert (full_path ?cur) ?n nodes)"
        by (rule nodes_ok_put [OF Cons.prems(1) can(1)]) (use Cons.prems(3) in \<open>auto simp: directory_node_def node_named_def\<close>)
      show "kind_of (hm_insert (full_path ?cur) ?n nodes) = add_dirs Directory ?cur (kind_of nodes)"
        unfolding kind_of_insert [OF can(1)] using kn below
        by (auto simp: add_dirs_def fun_eq_iff directory_node_def)
      show "kind_of (hm_insert (full_path ?cur) ?n nodes) ?cur = Some Directory"
        unfolding kind_of_insert [OF can(1)] by (simp add: directory_node_def)
      show "ensure_loop t ?cur parts (hm_insert (full_path ?cur) ?n nodes) = (r, nodes')"
        using Cons.prems(4) None by (simp add: path Let_def)
    qed
  next
    case (Some node)
    have kn: "kind_of nodes ?cur = Some (nn_kind node)" using hm_get_kind [OF can(1), of nodes] Some by simp
    show ?thesis
    proof (cases "node_is_directory node")
      case True
      then have kd: "kind_of nodes ?cur = Some Directory" using kn by (simp add: node_is_directory_def)
      have same: "add_dirs Directory ?cur (kind_of nodes) = kind_of nodes"
        using kd below by (auto simp: add_dirs_def fun_eq_iff)
      show ?thesis
        by (rule step [of "touch_node (full_path ?cur) t nodes"])
          (use touch_same [OF Cons.prems(1) can(1)] same kd Cons.prems(4) Some True in \<open>simp_all add: path Let_def\<close>)
    next
      case False
      then have "r = Err (ViewError ''Path conflict with file'')" "nodes' = nodes"
        using Cons.prems(4) Some by (simp_all add: path Let_def)
      moreover have "add_dirs Directory cs (kind_of nodes) = kind_of nodes"
        using below by (auto simp: add_dirs_def fun_eq_iff)
      ultimately show ?thesis using Cons.prems(1) by (intro conjI exI [of _ 0]) simp_all
    qed
  qed
qed

lemma ensure_directory_effect:
  assumes "nodes_ok nodes" "canonical (np_components info)" "ensure_directory info t nodes = (r, nodes')"
  shows "nodes_ok nodes' \<and> (\<exists>i. kind_of nodes' = add_dirs Directory (take i (np_components info)) (kind_of nodes) \<and>
    (is_ok r \<longrightarrow> take i (np_components info) = np_components info \<and> kind_of nodes' (np_components info) = Some Directory))"
  using ensure_loop_effect [OF root_same(1) [OF assms(1)], of "[]" "np_components info" t t r nodes'] assms
    root_same(2) [OF assms(1), of t] nodes_okD(3) [OF assms(1)]
  by (simp add: ensure_directory_def)

section \<open>Inserting and removing nodes\<close>

fun capsule_of_kind :: "nfs_node_kind \<Rightarrow> capsule_id option" where
  "capsule_of_kind (File cid sz) = Some cid"
| "capsule_of_kind Directory = None"

lemma capsule_of_node_kind: "capsule_of_node node = capsule_of_kind (nn_kind node)"
  by (cases "nn_kind node") (simp_all add: capsule_of_node_def)

text \<open>The capsules of the files.\<close>

definition file_caps :: "(string list \<rightharpoonup> nfs_node_kind) \<Rightarrow> string list \<rightharpoonup> capsule_id" where
  "file_caps K cs = Option.bind (K cs) capsule_of_kind"

lemma hm_get_capsule: "canonical cs \<Longrightarrow> Option.bind (hm_get nodes (full_path cs)) capsule_of_node = file_caps (kind_of nodes) cs"
  by (cases "hm_get nodes (full_path cs)") (simp_all add: file_caps_def kind_of_def tree_of_def capsule_of_node_kind)

lemma file_caps_add_dirs [simp]: "file_caps (add_dirs Directory cs K) = file_caps K"
  by (auto simp: file_caps_def add_dirs_def fun_eq_iff)

lemma butlast_neq: "cs \<noteq> [] \<Longrightarrow> \<not> prefix cs (butlast cs)"
  using prefix_length_le [of cs "butlast cs"] by (cases cs) auto

lemma file_insert_effect:
  assumes ok: "nodes_ok nodes" and cs: "canonical cs" "cs \<noteq> []" and kd: "kind_of nodes cs \<noteq> Some Directory"
    and run: "file_insert \<lparr>np_full = full_path cs, np_components = cs\<rparr>
      \<lparr>np_full = full_path (butlast cs), np_components = butlast cs\<rparr> cid sz t nodes = (r, nodes')"
  shows "nodes_ok nodes' \<and>
    (case r of
       Ok old \<Rightarrow> old = file_caps (kind_of nodes) cs \<and>
         kind_of nodes' = (add_dirs Directory (butlast cs) (kind_of nodes))(cs \<mapsto> File cid sz)
     | Err _ \<Rightarrow> \<exists>i. kind_of nodes' = add_dirs Directory (take i (butlast cs)) (kind_of nodes))"
proof -
  let ?p = "\<lparr>np_full = full_path (butlast cs), np_components = butlast cs\<rparr>"
  have pc: "canonical (butlast cs)" by (rule canonical_butlast [OF cs(1)])
  obtain q n1 where e: "ensure_directory ?p t nodes = (q, n1)" by fastforce
  have "nodes_ok n1 \<and> (\<exists>i. kind_of n1 = add_dirs Directory (take i (butlast cs)) (kind_of nodes) \<and>
      (is_ok q \<longrightarrow> take i (butlast cs) = butlast cs \<and> kind_of n1 (butlast cs) = Some Directory))"
    using ensure_directory_effect [OF ok _ e] pc by simp
  then obtain i where E: "nodes_ok n1" "kind_of n1 = add_dirs Directory (take i (butlast cs)) (kind_of nodes)"
    "is_ok q \<longrightarrow> take i (butlast cs) = butlast cs \<and> kind_of n1 (butlast cs) = Some Directory" by blast
  show ?thesis
  proof (cases q)
    case (Err err)
    then have "r = Err err" "nodes' = n1" using run e by (simp_all add: file_insert_def bind_op_def)
    then show ?thesis using E by auto
  next
    case (Ok x)
    let ?node = "file_node (full_path cs) (last cs) cid sz t"
    have k1: "kind_of n1 = add_dirs Directory (butlast cs) (kind_of nodes)" "kind_of n1 (butlast cs) = Some Directory"
      using E Ok by auto
    have same: "kind_of n1 cs = kind_of nodes cs" unfolding k1(1) using butlast_neq [OF cs(2)] by (simp add: add_dirs_def)
    have r: "r = Ok (file_caps (kind_of nodes) cs)"
      "nodes' = touch_node (full_path (butlast cs)) t (hm_insert (full_path cs) ?node n1)"
      using run e Ok cs(2) hm_get_capsule [OF cs(1), of n1] same k1(1)
      by (simp_all add: file_insert_def bind_op_def np_name_def Let_def)
    have "nodes_ok (hm_insert (full_path cs) ?node n1)"
      by (rule nodes_ok_put [OF E(1) cs k1(2)]) (use same kd cs(2) in \<open>simp_all add: file_node_def node_named_def\<close>)
    from touch_same [OF this pc, of t] show ?thesis
      using r k1(1) by (simp add: kind_of_insert [OF cs(1)]) (simp add: file_node_def)
  qed
qed

lemma keys_canonical: "nodes_ok nodes \<Longrightarrow> k \<in> set (hm_keys nodes) \<Longrightarrow> \<exists>cs. canonical cs \<and> k = full_path cs \<and> kind_of nodes cs \<noteq> None"
proof -
  assume ok: "nodes_ok nodes" and k: "k \<in> set (hm_keys nodes)"
  then obtain node where g: "hm_get nodes k = Some node"
    by (metis list.set_map map_of_eq_None_iff option.exhaust)
  from nodes_okD(2) [OF ok g] obtain cs where "canonical cs" "k = full_path cs" by blast
  moreover from this have "kind_of nodes cs \<noteq> None" using g by (simp add: kind_of_def tree_of_def)
  ultimately show ?thesis by blast
qed

lemma kind_key: "kind_of nodes cs \<noteq> None \<Longrightarrow> full_path cs \<in> set (hm_keys nodes)"
  using hm_get_kind [OF kind_of_canonical, of nodes cs] by (metis list.set_map map_of_eq_None_iff option.map_disc_iff)

text \<open>\<open>delete\<close>: a directory must be empty, and then nothing but the node goes.\<close>

lemma node_remove_effect:
  assumes ok: "nodes_ok nodes" and cs: "canonical cs" "cs \<noteq> []"
    and run: "node_remove \<lparr>np_full = full_path cs, np_components = cs\<rparr> t nodes = (r, nodes')"
  shows "nodes_ok nodes'" "is_ok r \<longleftrightarrow> kind_of nodes cs \<noteq> None \<and> (\<forall>es. es \<noteq> [] \<longrightarrow> kind_of nodes (cs @ es) = None)"
    and "\<not> is_ok r \<Longrightarrow> nodes' = nodes"
    and "r = Ok old \<Longrightarrow> old = file_caps (kind_of nodes) cs \<and> kind_of nodes' = (kind_of nodes)(cs := None)"
proof -
  let ?p = "\<lparr>np_full = full_path cs, np_components = cs\<rparr>"
  have below: "list_ex (\<lambda>k. starts_with k (full_path cs @ ''/'')) (hm_keys nodes) \<longleftrightarrow> (\<exists>es. es \<noteq> [] \<and> kind_of nodes (cs @ es) \<noteq> None)"
  proof
    assume "list_ex (\<lambda>k. starts_with k (full_path cs @ ''/'')) (hm_keys nodes)"
    then obtain k where k: "k \<in> set (hm_keys nodes)" "starts_with k (full_path cs @ ''/'')" by (auto simp: list_ex_iff)
    then obtain ds where "canonical ds" "k = full_path ds" "kind_of nodes ds \<noteq> None" using keys_canonical [OF ok] by blast
    then show "\<exists>es. es \<noteq> [] \<and> kind_of nodes (cs @ es) \<noteq> None" using below_iff [OF cs(1) _ cs(2)] k(2) by blast
  next
    assume "\<exists>es. es \<noteq> [] \<and> kind_of nodes (cs @ es) \<noteq> None"
    then obtain es where es: "es \<noteq> []" "kind_of nodes (cs @ es) \<noteq> None" by blast
    then have "starts_with (full_path (cs @ es)) (full_path cs @ ''/'')"
      using below_iff [OF cs(1) kind_of_canonical [OF es(2)] cs(2)] by blast
    then show "list_ex (\<lambda>k. starts_with k (full_path cs @ ''/'')) (hm_keys nodes)"
      using kind_key [OF es(2)] unfolding list_ex_iff by blast
  qed
  have parent: "np_parent_path ?p = Some (full_path (butlast cs))" using np_parent [of ?p] cs by simp
  have result: "nodes_ok nodes' \<and> (is_ok r \<longleftrightarrow> kind_of nodes cs \<noteq> None \<and> (\<forall>es. es \<noteq> [] \<longrightarrow> kind_of nodes (cs @ es) = None)) \<and>
    (\<not> is_ok r \<longrightarrow> nodes' = nodes) \<and>
    (\<forall>old. r = Ok old \<longrightarrow> old = file_caps (kind_of nodes) cs \<and> kind_of nodes' = (kind_of nodes)(cs := None))"
  proof (cases "hm_get nodes (full_path cs)")
    case None
    then have "\<not> is_ok r" "nodes' = nodes" "kind_of nodes cs = None"
      using run hm_get_kind [OF cs(1), of nodes] by (auto simp: node_remove_def op_simps)
    then show ?thesis using ok by auto
  next
    case (Some node)
    have k: "kind_of nodes cs = Some (nn_kind node)" using hm_get_kind [OF cs(1), of nodes] Some by simp
    show ?thesis
    proof (cases "node_is_directory node \<and> (\<exists>es. es \<noteq> [] \<and> kind_of nodes (cs @ es) \<noteq> None)")
      case True
      then have "\<not> is_ok r" "nodes' = nodes" using run Some below by (auto simp: node_remove_def op_simps)
      then show ?thesis using ok True by auto
    next
      case False
      have none: "kind_of nodes (cs @ es) = None" if "es \<noteq> []" for es
      proof (cases "node_is_directory node")
        case False
        then have "kind_of nodes cs \<noteq> Some Directory" using k by (simp add: node_is_directory_def)
        then have "kind_of nodes (cs @ [hd es]) = None" by (intro no_child [OF ok]) simp_all
        then show ?thesis using prefix_kind [OF ok, of "cs @ [hd es]" "tl es"] that
          by (cases es; cases "kind_of nodes (cs @ es)") auto
      qed (use \<open>\<not> (node_is_directory node \<and> _)\<close> that in blast)
      have r: "r = Ok (file_caps (kind_of nodes) cs)"
        "nodes' = touch_node (full_path (butlast cs)) t (hm_remove (full_path cs) nodes)"
        using run Some below False parent k
        by (auto simp: node_remove_def op_simps Let_def file_caps_def capsule_of_node_kind split: if_splits)
      have "nodes_ok (hm_remove (full_path cs) nodes)"
      proof (rule nodes_ok_remove [OF ok cs])
        fix ds assume "ds \<noteq> []" "butlast ds = cs"
        then have "ds = cs @ [last ds]" by (metis append_butlast_last_id)
        then show "kind_of nodes ds = None" using none [of "[last ds]"] by simp
      qed
      from touch_same [OF this canonical_butlast [OF cs(1)], of t] show ?thesis
        using r none k by (simp add: kind_of_remove [OF cs(1)])
    qed
  qed
  then show "nodes_ok nodes'" "is_ok r \<longleftrightarrow> kind_of nodes cs \<noteq> None \<and> (\<forall>es. es \<noteq> [] \<longrightarrow> kind_of nodes (cs @ es) = None)"
    "\<not> is_ok r \<Longrightarrow> nodes' = nodes"
    "r = Ok old \<Longrightarrow> old = file_caps (kind_of nodes) cs \<and> kind_of nodes' = (kind_of nodes)(cs := None)" by blast+
qed

end
