(* ===== verification/Nfs_Operations.thy ===== *)
theory Nfs_Operations
  imports Nfs_Correct
begin

text \<open>
  What a user of the NFS view sees, a tree of directories and files with their bytes, and what
  every operation does to it, with failures anywhere.
\<close>

section \<open>The file system behind the view\<close>

datatype fs_object = Dir | Data bytes

definition fs_view :: "(capsule_id \<Rightarrow> bytes option) \<Rightarrow> (string list \<rightharpoonup> nfs_node_kind) \<Rightarrow> string list \<rightharpoonup> fs_object" where
  "fs_view ct K cs =
     (case K cs of None \<Rightarrow> None | Some Directory \<Rightarrow> Some Dir | Some (File cid sz) \<Rightarrow> map_option Data (ct cid))"

abbreviation nfs_data :: "ext \<Rightarrow> nfs_view \<Rightarrow> capsule_id \<Rightarrow> bytes option" where
  "nfs_data E v \<equiv> wp_data E (nfs_pipeline v)"

definition fs_of :: "ext \<Rightarrow> nfs_view \<Rightarrow> string list \<rightharpoonup> fs_object" where
  "fs_of E v = fs_view (nfs_data E v) (kind_of (nfs_nodes v))"

definition files_ok :: "(capsule_id \<Rightarrow> bytes option) \<Rightarrow> (string list \<rightharpoonup> nfs_node_kind) \<Rightarrow> bool" where
  "files_ok ct K \<longleftrightarrow> names_live ct (file_caps K) \<and>
     (\<forall>cs cid sz. K cs = Some (File cid sz) \<longrightarrow> (\<exists>d. ct cid = Some d \<and> sz = of_nat (length d)))"

definition nfs_good :: "ext \<Rightarrow> nfs_view \<Rightarrow> bool" where
  "nfs_good E v \<longleftrightarrow> service_inv E (nfs_pipeline v) \<and> nodes_ok (nfs_nodes v) \<and>
     files_ok (nfs_data E v) (kind_of (nfs_nodes v))"

lemma file_caps_Some: "file_caps K cs = Some cid \<longleftrightarrow> (\<exists>sz. K cs = Some (File cid sz))"
proof (cases "K cs")
  case (Some k)
  then show ?thesis by (cases k) (simp_all add: file_caps_def)
qed (simp add: file_caps_def)

lemma files_okD:
  assumes "files_ok ct K"
  shows "K cs = Some (File cid sz) \<Longrightarrow> \<exists>d. ct cid = Some d \<and> sz = of_nat (length d)"
    and "K cs = Some (File cid sz) \<Longrightarrow> K ds = Some (File cid sz') \<Longrightarrow> cs = ds"
proof -
  show "K cs = Some (File cid sz) \<Longrightarrow> \<exists>d. ct cid = Some d \<and> sz = of_nat (length d)"
    using assms by (simp add: files_ok_def)
  assume "K cs = Some (File cid sz)" "K ds = Some (File cid sz')"
  then have "file_caps K cs = Some cid" "file_caps K ds = Some cid" by (auto simp: file_caps_Some)
  then show "cs = ds" using names_liveD(2) [of ct "file_caps K" cs cid ds] assms by (simp add: files_ok_def)
qed

lemma fs_view_None: "files_ok ct K \<Longrightarrow> fs_view ct K cs = None \<longleftrightarrow> K cs = None"
  using files_okD(1) [of ct K cs] by (fastforce simp: fs_view_def split: option.splits nfs_node_kind.splits)

text \<open>Tree and data only depend on the capsules of the files.\<close>

lemma files_ok_cong:
  assumes "files_ok ct K" "\<And>cs cid. file_caps K cs = Some cid \<Longrightarrow> ct' cid = ct cid"
  shows "files_ok ct' K" "fs_view ct' K = fs_view ct K"
proof -
  have same: "ct' cid = ct cid" if "K cs = Some (File cid sz)" for cs cid sz
    using assms(2) [of cs cid] that by (simp add: file_caps_Some)
  have "names_live ct' (file_caps K)"
    using names_live_cong(1) [of ct "file_caps K" ct'] assms by (simp add: files_ok_def)
  then show "files_ok ct' K" using assms(1) same by (auto simp: files_ok_def)
  show "fs_view ct' K = fs_view ct K"
    using same by (auto simp: fs_view_def fun_eq_iff split: option.splits nfs_node_kind.splits)
qed

lemma files_ok_add_dirs:
  assumes "files_ok ct K"
  shows "files_ok ct (add_dirs Directory cs K)" "fs_view ct (add_dirs Directory cs K) = add_dirs Dir cs (fs_view ct K)"
proof -
  have f: "add_dirs Directory cs K ds = Some (File cid sz) \<longleftrightarrow> K ds = Some (File cid sz)" for ds cid sz
    by (auto simp: add_dirs_def)
  show "files_ok ct (add_dirs Directory cs K)" using assms by (simp add: files_ok_def f)
  show "fs_view ct (add_dirs Directory cs K) = add_dirs Dir cs (fs_view ct K)"
  proof
    fix ds
    show "fs_view ct (add_dirs Directory cs K) ds = add_dirs Dir cs (fs_view ct K) ds"
      using fs_view_None [OF assms, of ds] by (cases "K ds") (simp_all add: fs_view_def add_dirs_def split: nfs_node_kind.splits)
  qed
qed

lemma files_ok_bind:
  assumes ok: "files_ok ct K" and new: "\<And>cs. file_caps K cs \<noteq> Some new" "ct new = Some d"
  shows "files_ok ct (K(cs \<mapsto> File new (of_nat (length d))))"
    and "fs_view ct (K(cs \<mapsto> File new (of_nat (length d)))) = (fs_view ct K)(cs \<mapsto> Data d)"
    and "file_caps K cs = Some old \<Longrightarrow> file_caps (K(cs \<mapsto> File new (of_nat (length d)))) ds \<noteq> Some old"
proof -
  let ?K = "K(cs \<mapsto> File new (of_nat (length d)))"
  have c: "file_caps ?K = (file_caps K)(cs \<mapsto> new)" by (auto simp: file_caps_def fun_eq_iff)
  have live: "names_live ct (file_caps K)" using ok by (simp add: files_ok_def)
  have "names_live ct (file_caps ?K)" unfolding c by (rule names_live_extend [OF live new(1)]) (simp add: new(2))
  then show "files_ok ct ?K" using ok new(2) by (auto simp: files_ok_def)
  show "fs_view ct ?K = (fs_view ct K)(cs \<mapsto> Data d)" using new(2) by (auto simp: fs_view_def fun_eq_iff)
  show "file_caps ?K ds \<noteq> Some old" if "file_caps K cs = Some old"
    unfolding c using names_liveD(2) [OF live that, of ds] new(1) [of cs] that by auto
qed

lemma files_ok_unbind:
  assumes "files_ok ct K"
  shows "files_ok ct (K(cs := None))" "fs_view ct (K(cs := None)) = (fs_view ct K)(cs := None)"
    and "file_caps K cs = Some old \<Longrightarrow> file_caps (K(cs := None)) ds \<noteq> Some old"
proof -
  have c: "file_caps (K(cs := None)) = (file_caps K)(cs := None)" by (auto simp: file_caps_def fun_eq_iff)
  have live: "names_live ct (file_caps K)" using assms by (simp add: files_ok_def)
  have "names_live ct (file_caps (K(cs := None)))" unfolding c by (rule names_live_restrict [OF live refl])
  then show "files_ok ct (K(cs := None))" using assms by (auto simp: files_ok_def)
  show "fs_view ct (K(cs := None)) = (fs_view ct K)(cs := None)" by (auto simp: fs_view_def fun_eq_iff)
  show "file_caps (K(cs := None)) ds \<noteq> Some old" if "file_caps K cs = Some old"
    unfolding c using names_liveD(2) [OF live that, of ds] that by auto
qed

section \<open>The operations\<close>

lemma on_nfs_pipelineD:
  assumes "on_nfs_pipeline m v = (r, v')"
  obtains p where "m (nfs_pipeline v) = (r, p)" "v' = v\<lparr>nfs_pipeline := p\<rparr>"
  using assms by (auto simp: on_nfs_pipeline_def zoom_def split: prod.splits)

lemma nfs_persist_same:
  assumes "nfs_persist v = (r, v')"
  shows "nfs_pipeline v' = nfs_pipeline v" "nfs_nodes v' = nfs_nodes v"
  using assms by (auto simp: nfs_persist_def zoom_def split: prod.splits)

lemma drop_capsule_effect:
  assumes good: "nfs_good E v" and old: "\<And>c cs. old = Some c \<Longrightarrow> file_caps (kind_of (nfs_nodes v)) cs \<noteq> Some c"
    and run: "drop_capsule old v = (r, v')"
  shows "nfs_good E v'" "fs_of E v' = fs_of E v" "nfs_nodes v' = nfs_nodes v" "is_ok r"
    and "nfs_namespace v' = nfs_namespace v" "nfs_io v' = nfs_io v"
    and "old = Some c \<Longrightarrow> nfs_data E v' c = None"
proof -
  have g: "service_inv E (nfs_pipeline v)" "nodes_ok (nfs_nodes v)" "files_ok (nfs_data E v) (kind_of (nfs_nodes v))"
    using good by (auto simp: nfs_good_def)
  have "nfs_good E v' \<and> fs_of E v' = fs_of E v \<and> nfs_nodes v' = nfs_nodes v \<and> is_ok r \<and>
    nfs_namespace v' = nfs_namespace v \<and> nfs_io v' = nfs_io v \<and> (\<forall>c. old = Some c \<longrightarrow> nfs_data E v' c = None)"
  proof (cases old)
    case None
    then show ?thesis using run good by (auto simp: drop_capsule_def return_op_def)
  next
    case (Some c)
    obtain q p where p: "delete_capsule c (nfs_pipeline v) = (q, p)" by fastforce
    have v': "v' = v\<lparr>nfs_pipeline := p\<rparr>" "is_ok r"
      using run Some p by (auto simp: drop_capsule_def ignore_op_def on_nfs_pipeline_def zoom_def)
    note D = wps.discard_law [OF g(1) p]
    have "((nfs_data E v)(c := None)) cid = nfs_data E v cid" if "file_caps (kind_of (nfs_nodes v)) cs = Some cid" for cs cid
      using old [OF Some, of cs] that by auto
    note F = files_ok_cong [OF g(3), of "(nfs_data E v)(c := None)", OF this]
    show ?thesis using D F g(2) v' Some by (simp add: nfs_good_def fs_of_def)
  qed
  then show "nfs_good E v'" "fs_of E v' = fs_of E v" "nfs_nodes v' = nfs_nodes v" "is_ok r"
    "nfs_namespace v' = nfs_namespace v" "nfs_io v' = nfs_io v"
    "old = Some c \<Longrightarrow> nfs_data E v' c = None" by blast+
qed

lemma put_effect:
  assumes good: "nfs_good E v" and ready: "service_ready E d (nfs_pipeline v)"
    and run: "on_nfs_pipeline (write_capsule E clk c d) v = (r, v')"
  shows "nfs_good E v'" "fs_of E v' = fs_of E v" "nfs_nodes v' = nfs_nodes v"
    and "nfs_namespace v' = nfs_namespace v" "nfs_io v' = nfs_io v"
    and "r = Ok x \<Longrightarrow> x = c \<and> nfs_data E v' c = Some d \<and> (\<forall>cs. file_caps (kind_of (nfs_nodes v)) cs \<noteq> Some c)"
proof -
  have g: "service_inv E (nfs_pipeline v)" "nodes_ok (nfs_nodes v)" "files_ok (nfs_data E v) (kind_of (nfs_nodes v))"
    using good by (auto simp: nfs_good_def)
  obtain p where p: "write_capsule E clk c d (nfs_pipeline v) = (r, p)" "v' = v\<lparr>nfs_pipeline := p\<rparr>"
    using run by (rule on_nfs_pipelineD)
  note P = wps.put_law [OF g(1) ready p(1)]
  have live: "names_live (nfs_data E v) (file_caps (kind_of (nfs_nodes v)))" using g(3) by (simp add: files_ok_def)
  have "wp_data E p cid = nfs_data E v cid" if "file_caps (kind_of (nfs_nodes v)) cs = Some cid" for cs cid
    using wps.put_keeps [OF g(1) ready p(1)] names_liveD(1) [OF live that] by blast
  note F = files_ok_cong [OF g(3), of "wp_data E p", OF this]
  show "nfs_good E v'" "fs_of E v' = fs_of E v" using P F g(2) by (simp_all add: nfs_good_def fs_of_def p(2))
  show "nfs_nodes v' = nfs_nodes v" "nfs_namespace v' = nfs_namespace v" "nfs_io v' = nfs_io v" by (simp_all add: p(2))
  show "x = c \<and> nfs_data E v' c = Some d \<and> (\<forall>cs. file_caps (kind_of (nfs_nodes v)) cs \<noteq> Some c)" if "r = Ok x"
  proof -
    have "x = c" "nfs_data E v c = None" "wp_data E p c = Some d" using P that by blast+
    then show ?thesis using names_liveD(1) [OF live, of _ c] by (auto simp: p(2))
  qed
qed

text \<open>The components a path stands for, and the effects on the file system the operations should have.\<close>

abbreviation comps :: "string \<Rightarrow> string list" where
  "comps path \<equiv> np_components (normalize_path path)"

definition fs_write_file :: "string list \<Rightarrow> bytes \<Rightarrow> (string list \<rightharpoonup> fs_object) \<Rightarrow> string list \<rightharpoonup> fs_object" where
  "fs_write_file cs d F = (add_dirs Dir (butlast cs) F)(cs \<mapsto> Data d)"

lemma normalize_path_eq: "no_backslash path \<Longrightarrow> normalize_path path = \<lparr>np_full = full_path (comps path), np_components = comps path\<rparr>"
  using normalize_canonical(2) [of path] by (cases "normalize_path path") simp

lemma fs_of_kind: "nfs_good E v \<Longrightarrow> fs_of E v cs = Some Dir \<longleftrightarrow> kind_of (nfs_nodes v) cs = Some Directory"
  by (auto simp: fs_of_def fs_view_def split: option.splits nfs_node_kind.splits)

lemma fs_of_root: "nfs_good E v \<Longrightarrow> fs_of E v [] = Some Dir"
  using nodes_okD(3) by (auto simp: fs_of_kind nfs_good_def)

lemma add_no_dirs: "nfs_good E v \<Longrightarrow> add_dirs Dir [] (fs_of E v) = fs_of E v"
  by (auto simp: add_dirs_def fun_eq_iff fs_of_root)

text \<open>The two calls that follow the change of the namespace.\<close>

lemma drop_and_persist:
  assumes good: "nfs_good E v" and old: "\<And>c cs. old = Some c \<Longrightarrow> file_caps (kind_of (nfs_nodes v)) cs \<noteq> Some c"
    and run: "bind_op (drop_capsule old) (\<lambda>_. bind_op nfs_persist (\<lambda>_. return_op x)) v = (r, v')"
  shows "nfs_good E v'" "fs_of E v' = fs_of E v" "r = Ok y \<Longrightarrow> y = x"
proof -
  obtain q v1 where d: "drop_capsule old v = (q, v1)" by fastforce
  note D = drop_capsule_effect [OF good old d]
  obtain q2 v2 where p: "nfs_persist v1 = (q2, v2)" by fastforce
  have "v' = v2" "r = Ok y \<Longrightarrow> y = x" using run d p D(4) by (cases q; cases q2; auto simp: op_simps)+
  then show "nfs_good E v'" "fs_of E v' = fs_of E v" "r = Ok y \<Longrightarrow> y = x"
    using nfs_persist_same [OF p] D(1,2) by (simp_all add: nfs_good_def fs_of_def)
qed

lemma insert_good:
  assumes good: "nfs_good E v" and new: "nfs_data E v c = Some d" "\<And>cs. file_caps (kind_of (nfs_nodes v)) cs \<noteq> Some c"
    and cs: "canonical cs" "cs \<noteq> []" "kind_of (nfs_nodes v) cs \<noteq> Some Directory"
    and run: "on_nodes (file_insert \<lparr>np_full = full_path cs, np_components = cs\<rparr>
      \<lparr>np_full = full_path (butlast cs), np_components = butlast cs\<rparr> c (of_nat (length d)) t) v = (r, v')"
  shows "nfs_good E v'" "r = Ok old \<Longrightarrow> fs_of E v' = fs_write_file cs d (fs_of E v) \<and>
      (\<forall>k ds. old = Some k \<longrightarrow> file_caps (kind_of (nfs_nodes v')) ds \<noteq> Some k)"
    and "\<not> is_ok r \<Longrightarrow> \<exists>i. fs_of E v' = add_dirs Dir (take i (butlast cs)) (fs_of E v)"
proof -
  have g: "service_inv E (nfs_pipeline v)" "nodes_ok (nfs_nodes v)" "files_ok (nfs_data E v) (kind_of (nfs_nodes v))"
    using good by (auto simp: nfs_good_def)
  obtain n where n: "file_insert \<lparr>np_full = full_path cs, np_components = cs\<rparr>
      \<lparr>np_full = full_path (butlast cs), np_components = butlast cs\<rparr> c (of_nat (length d)) t (nfs_nodes v) = (r, n)"
    "v' = v\<lparr>nfs_nodes := n\<rparr>"
    using run by (auto simp: on_nodes_def zoom_def split: prod.splits)
  note I = file_insert_effect [OF g(2) cs n(1)]
  have all: "nfs_good E v' \<and> (\<forall>old. r = Ok old \<longrightarrow> fs_of E v' = fs_write_file cs d (fs_of E v) \<and>
      (\<forall>k ds. old = Some k \<longrightarrow> file_caps (kind_of (nfs_nodes v')) ds \<noteq> Some k)) \<and>
    (\<not> is_ok r \<longrightarrow> (\<exists>i. fs_of E v' = add_dirs Dir (take i (butlast cs)) (fs_of E v)))"
  proof (cases r)
    case (Err e)
    then obtain i where i: "nodes_ok n" "kind_of n = add_dirs Directory (take i (butlast cs)) (kind_of (nfs_nodes v))"
      using I by auto
    show ?thesis
      using g(1) i files_ok_add_dirs [OF g(3), of "take i (butlast cs)"] Err by (auto simp: nfs_good_def fs_of_def n(2))
  next
    case (Ok old)
    let ?K = "add_dirs Directory (butlast cs) (kind_of (nfs_nodes v))"
    have k: "nodes_ok n" "kind_of n = ?K(cs \<mapsto> File c (of_nat (length d)))" "old = file_caps ?K cs"
      using I Ok by auto
    note A = files_ok_add_dirs [OF g(3), of "butlast cs"]
    have nw: "file_caps ?K ds \<noteq> Some c" for ds using new(2) by simp
    note B = files_ok_bind [OF A(1) nw new(1), of cs]
    have "nfs_good E v'" using g(1) k(1,2) B(1) by (simp add: nfs_good_def n(2))
    moreover have "fs_of E v' = fs_write_file cs d (fs_of E v)"
      using k(2) B(2) A(2) by (simp add: fs_of_def n(2) fs_write_file_def)
    moreover have "file_caps (kind_of (nfs_nodes v')) ds \<noteq> Some k'" if "old = Some k'" for k' ds
      using B(3) [of k' ds] k(2,3) that by (simp add: n(2))
    ultimately show ?thesis using Ok by auto
  qed
  then show "nfs_good E v'" "r = Ok old \<Longrightarrow> fs_of E v' = fs_write_file cs d (fs_of E v) \<and>
      (\<forall>k ds. old = Some k \<longrightarrow> file_caps (kind_of (nfs_nodes v')) ds \<noteq> Some k)"
    "\<not> is_ok r \<Longrightarrow> \<exists>i. fs_of E v' = add_dirs Dir (take i (butlast cs)) (fs_of E v)" by blast+
qed

lemma write_file_effect:
  assumes good: "nfs_good E v" and info: "normalize_path path = \<lparr>np_full = full_path cs, np_components = cs\<rparr>"
    and can: "canonical cs" and ready: "service_ready E data (nfs_pipeline v)"
    and run: "write_file E clk fresh now path data v = (r, v')"
  shows "nfs_good E v'"
    and "r = Ok x \<Longrightarrow> cs \<noteq> [] \<and> fs_of E v cs \<noteq> Some Dir \<and>
      fs_of E v' = fs_write_file cs data (fs_of E v)"
    and "\<not> is_ok r \<Longrightarrow> (\<exists>i. fs_of E v' = add_dirs Dir (take i (butlast cs)) (fs_of E v)) \<or>
      fs_of E v cs \<noteq> Some Dir \<and> fs_of E v' = fs_write_file cs data (fs_of E v)"
proof -
  let ?t = "unix_timestamp now"
  have "nfs_good E v' \<and> (\<forall>x. r = Ok x \<longrightarrow> cs \<noteq> [] \<and> fs_of E v cs \<noteq> Some Dir \<and> fs_of E v' = fs_write_file cs data (fs_of E v)) \<and>
    (\<not> is_ok r \<longrightarrow> (\<exists>i. fs_of E v' = add_dirs Dir (take i (butlast cs)) (fs_of E v)) \<or>
      fs_of E v cs \<noteq> Some Dir \<and> fs_of E v' = fs_write_file cs data (fs_of E v))"
  proof (cases "cs = [] \<or> kind_of (nfs_nodes v) cs = Some Directory")
    case True
    have "\<not> is_ok r \<and> v' = v"
    proof (cases "cs = []")
      case False
      then have k: "kind_of (nfs_nodes v) cs = Some Directory" using True by simp
      then obtain node where n: "hm_get (nfs_nodes v) (full_path cs) = Some node" "node_is_directory node"
        using hm_get_kind [OF can, of "nfs_nodes v"] by (auto simp: node_is_directory_def)
      show ?thesis
        using run False np_parent [of "normalize_path path"] can n
        by (auto simp: write_file_def Let_def np_is_root_def info bind_op_def lift_result_def)
    qed (use run in \<open>auto simp: write_file_def Let_def np_is_root_def info\<close>)
    then show ?thesis using good add_no_dirs [OF good] by (metis is_ok.simps(1) take0)
  next
    case False
    then have cs: "cs \<noteq> []" "kind_of (nfs_nodes v) cs \<noteq> Some Directory" by auto
    have par: "np_parent_path \<lparr>np_full = full_path cs, np_components = cs\<rparr> = Some (full_path (butlast cs))"
      using np_parent [of "\<lparr>np_full = full_path cs, np_components = cs\<rparr>"] can cs(1) by simp
    have pinfo: "normalize_path (full_path (butlast cs)) = \<lparr>np_full = full_path (butlast cs), np_components = butlast cs\<rparr>"
      by (rule normalize_full_path [OF canonical_butlast [OF can]])
    have nodir: "\<not> (case hm_get (nfs_nodes v) (full_path cs) of Some node \<Rightarrow> node_is_directory node | None \<Rightarrow> False)"
      using cs(2) hm_get_kind [OF can, of "nfs_nodes v"] by (auto simp: node_is_directory_def split: option.splits)
    obtain q v1 where put: "on_nfs_pipeline (write_capsule E clk fresh data) v = (q, v1)" by fastforce
    note P = put_effect [OF good ready put]
    let ?ins = "on_nodes (file_insert \<lparr>np_full = full_path cs, np_components = cs\<rparr>
        \<lparr>np_full = full_path (butlast cs), np_components = butlast cs\<rparr> fresh (of_nat (length data)) ?t)"
    have fsd: "fs_of E v cs \<noteq> Some Dir" using cs(2) fs_of_kind [OF good] by simp
    have run': "bind_op (on_nfs_pipeline (write_capsule E clk fresh data)) (\<lambda>capsule_id.
        bind_op (on_nodes (file_insert \<lparr>np_full = full_path cs, np_components = cs\<rparr>
          \<lparr>np_full = full_path (butlast cs), np_components = butlast cs\<rparr> capsule_id (of_nat (length data)) ?t)) (\<lambda>old.
        bind_op (drop_capsule old) (\<lambda>_. bind_op nfs_persist (\<lambda>_. return_op capsule_id)))) v = (r, v')"
      using run nodir cs(1) by (simp add: write_file_def Let_def np_is_root_def info par pinfo bind_op_def [of "lift_result _"] lift_result_def)
    show ?thesis
    proof (cases q)
      case (Err e)
      then have "\<not> is_ok r" "v' = v1" using run' put by (auto simp: bind_op_def)
      then show ?thesis using P(1,2) add_no_dirs [OF good] by (metis is_ok.simps(1) take0)
    next
      case (Ok y)
      then have y: "y = fresh" "nfs_data E v1 fresh = Some data" "\<And>cs. file_caps (kind_of (nfs_nodes v1)) cs \<noteq> Some fresh"
        using P(3,6) by auto
      obtain q2 v2 where ins: "?ins v1 = (q2, v2)" by fastforce
      have k1: "kind_of (nfs_nodes v1) cs \<noteq> Some Directory" using cs(2) P(3) by simp
      note I = insert_good [OF P(1) y(2,3) can cs(1) k1 ins]
      show ?thesis
      proof (cases q2)
        case (Err e)
        then have "\<not> is_ok r" "v' = v2" using run' put Ok y(1) ins by (auto simp: bind_op_def)
        then show ?thesis using I(1,3) Err P(2) by (cases r) auto
      next
        case (Ok old)
        have fin: "bind_op (drop_capsule old) (\<lambda>_. bind_op nfs_persist (\<lambda>_. return_op fresh)) v2 = (r, v')"
          using run' put \<open>q = Ok y\<close> y(1) ins Ok by (simp add: bind_op_def)
        have o: "file_caps (kind_of (nfs_nodes v2)) cs \<noteq> Some c" if "old = Some c" for c cs
          using I(2) [OF Ok] that by blast
        note D = drop_and_persist [OF I(1) o fin]
        have "fs_of E v' = fs_write_file cs data (fs_of E v)" using D(2) I(2) [OF Ok] P(2) by simp
        then show ?thesis using D(1) cs(1) fsd by auto
      qed
    qed
  qed
  then show "nfs_good E v'"
    "r = Ok x \<Longrightarrow> cs \<noteq> [] \<and> fs_of E v cs \<noteq> Some Dir \<and> fs_of E v' = fs_write_file cs data (fs_of E v)"
    "\<not> is_ok r \<Longrightarrow> (\<exists>i. fs_of E v' = add_dirs Dir (take i (butlast cs)) (fs_of E v)) \<or>
      fs_of E v cs \<noteq> Some Dir \<and> fs_of E v' = fs_write_file cs data (fs_of E v)" by blast+
qed

lemma mkdir_effect:
  assumes good: "nfs_good E v" and path: "no_backslash path" and run: "nfs_mkdir now path v = (r, v')"
  shows "nfs_good E v' \<and> (\<exists>i. fs_of E v' = add_dirs Dir (take i (comps path)) (fs_of E v) \<and>
    (is_ok r \<longrightarrow> take i (comps path) = comps path \<and> fs_of E v' (comps path) = Some Dir))"
proof -
  have g: "service_inv E (nfs_pipeline v)" "nodes_ok (nfs_nodes v)" "files_ok (nfs_data E v) (kind_of (nfs_nodes v))"
    using good by (auto simp: nfs_good_def)
  obtain q n where e: "ensure_directory (normalize_path path) (unix_timestamp now) (nfs_nodes v) = (q, n)" by fastforce
  obtain i where N: "nodes_ok n" "kind_of n = add_dirs Directory (take i (comps path)) (kind_of (nfs_nodes v))"
    "is_ok q \<longrightarrow> take i (comps path) = comps path \<and> kind_of n (comps path) = Some Directory"
    using ensure_directory_effect [OF g(2) normalize_canonical(1) [OF path] e] by blast
  let ?v1 = "v\<lparr>nfs_nodes := n\<rparr>"
  note A = files_ok_add_dirs [OF g(3), of "take i (comps path)"]
  have v1: "nfs_good E ?v1" "fs_of E ?v1 = add_dirs Dir (take i (comps path)) (fs_of E v)"
    using g(1) N(1,2) A by (simp_all add: nfs_good_def fs_of_def)
  obtain q2 v2 where p: "nfs_persist ?v1 = (q2, v2)" by fastforce
  have v': "v' = (if is_ok q then v2 else ?v1)" "is_ok r \<longrightarrow> is_ok q"
    using run e p by (cases q; auto simp: nfs_mkdir_def on_nodes_def zoom_def bind_op_def)+
  have same: "nfs_good E v'" "fs_of E v' = fs_of E ?v1"
    using v' v1 nfs_persist_same [OF p] by (auto simp: nfs_good_def fs_of_def)
  have "fs_of E v' (comps path) = Some Dir" if "is_ok r"
    using N(3) v'(2) that same v1(1) fs_of_kind [OF v1(1), of "comps path"] by simp
  then show ?thesis using same v1(2) N(3) v'(2) by auto
qed

lemma nfs_delete_effect:
  assumes good: "nfs_good E v" and path: "no_backslash path" and run: "nfs_delete now path v = (r, v')"
  shows "nfs_good E v'"
    and "(comps path \<noteq> [] \<and> fs_of E v (comps path) \<noteq> None \<and> (\<forall>es. es \<noteq> [] \<longrightarrow> fs_of E v (comps path @ es) = None) \<and>
       fs_of E v' = (fs_of E v)(comps path := None)) \<or>
      \<not> is_ok r \<and> v' = v \<and>
      (comps path = [] \<or> fs_of E v (comps path) = None \<or> (\<exists>es. es \<noteq> [] \<and> fs_of E v (comps path @ es) \<noteq> None))"
proof -
  have g: "service_inv E (nfs_pipeline v)" "nodes_ok (nfs_nodes v)" "files_ok (nfs_data E v) (kind_of (nfs_nodes v))"
    using good by (auto simp: nfs_good_def)
  obtain cs where info: "normalize_path path = \<lparr>np_full = full_path cs, np_components = cs\<rparr>" and can: "canonical cs"
    using normalize_path_eq [OF path] normalize_canonical(1) [OF path] by blast
  have n: "fs_of E v ds = None \<longleftrightarrow> kind_of (nfs_nodes v) ds = None" for ds
    using fs_view_None [OF g(3)] by (simp add: fs_of_def)
  have "nfs_good E v' \<and> ((cs \<noteq> [] \<and> fs_of E v cs \<noteq> None \<and> (\<forall>es. es \<noteq> [] \<longrightarrow> fs_of E v (cs @ es) = None) \<and>
       fs_of E v' = (fs_of E v)(cs := None)) \<or>
      \<not> is_ok r \<and> v' = v \<and> (cs = [] \<or> fs_of E v cs = None \<or> (\<exists>es. es \<noteq> [] \<and> fs_of E v (cs @ es) \<noteq> None)))"
  proof (cases "cs = []")
    case True
    then have "\<not> is_ok r" "v' = v" using run by (auto simp: nfs_delete_def info np_is_root_def fail_op_def)
    then show ?thesis using good True by simp
  next
    case False
    obtain q m where e: "node_remove \<lparr>np_full = full_path cs, np_components = cs\<rparr> (unix_timestamp now) (nfs_nodes v) = (q, m)"
      by fastforce
    note R = node_remove_effect [OF g(2) can False e]
    let ?v1 = "v\<lparr>nfs_nodes := m\<rparr>"
    have run': "(case q of Ok old \<Rightarrow> bind_op (drop_capsule old) (\<lambda>_. nfs_persist) ?v1 | Err e \<Rightarrow> (Err e, ?v1)) = (r, v')"
      using run e False by (cases q) (simp_all add: nfs_delete_def info np_is_root_def on_nodes_def zoom_def bind_op_def)
    show ?thesis
    proof (cases q)
      case (Err err)
      then have "\<not> is_ok r" "v' = v" using run' R(3) by auto
      then show ?thesis using good R(2) Err n by auto
    next
      case (Ok old)
      have k: "old = file_caps (kind_of (nfs_nodes v)) cs" "kind_of m = (kind_of (nfs_nodes v))(cs := None)"
        using R(4) [OF Ok] by auto
      note U = files_ok_unbind [OF g(3), of cs]
      have v1: "nfs_good E ?v1" "fs_of E ?v1 = (fs_of E v)(cs := None)"
        using g(1) R(1) k(2) U(1,2) by (simp_all add: nfs_good_def fs_of_def)
      have o: "file_caps (kind_of (nfs_nodes ?v1)) ds \<noteq> Some c" if "old = Some c" for c ds
        using U(3) [of c ds] k that by simp
      have "nfs_good E v' \<and> fs_of E v' = fs_of E ?v1"
      proof -
        obtain x v2 where d: "drop_capsule old ?v1 = (x, v2)" by fastforce
        note D = drop_capsule_effect [OF v1(1) o d]
        obtain y v3 where p: "nfs_persist v2 = (y, v3)" by fastforce
        have "v' = v3" using run' Ok d p D(4) by (cases x) (auto simp: bind_op_def)
        then show ?thesis using nfs_persist_same [OF p] D(1,2) by (simp add: nfs_good_def fs_of_def)
      qed
      then show ?thesis using v1(2) R(2) Ok n False by auto
    qed
  qed
  then show "nfs_good E v'" "(comps path \<noteq> [] \<and> fs_of E v (comps path) \<noteq> None \<and> (\<forall>es. es \<noteq> [] \<longrightarrow> fs_of E v (comps path @ es) = None) \<and>
       fs_of E v' = (fs_of E v)(comps path := None)) \<or>
      \<not> is_ok r \<and> v' = v \<and>
      (comps path = [] \<or> fs_of E v (comps path) = None \<or> (\<exists>es. es \<noteq> [] \<and> fs_of E v (comps path @ es) \<noteq> None))"
    by (simp_all add: info)
qed

text \<open>Reading a file and a range of it.\<close>

lemma get_keeps:
  assumes good: "nfs_good E v" and p: "service_inv E p" "wp_data E p = nfs_data E v"
  shows "nfs_good E (v\<lparr>nfs_pipeline := p\<rparr>)" "fs_of E (v\<lparr>nfs_pipeline := p\<rparr>) = fs_of E v"
  using assms by (simp_all add: nfs_good_def fs_of_def)

lemma find_node_kind:
  assumes "no_backslash path"
  shows "find_node path v = Ok node \<Longrightarrow> kind_of (nfs_nodes v) (comps path) = Some (nn_kind node)"
    and "find_node path v = Err e \<Longrightarrow> kind_of (nfs_nodes v) (comps path) = None"
  using hm_get_kind [OF normalize_canonical(1) [OF assms], of "nfs_nodes v"] normalize_canonical(2) [OF assms]
  by (auto simp: find_node_def ok_or_def split: option.splits)

lemma read_file_effect:
  assumes good: "nfs_good E v" and path: "no_backslash path" and run: "read_file E path v = (r, v')"
  shows "nfs_good E v'" "fs_of E v' = fs_of E v"
    and "case fs_of E v (comps path) of Some (Data d) \<Rightarrow> r = Ok d | _ \<Rightarrow> \<not> is_ok r"
proof -
  have g: "service_inv E (nfs_pipeline v)" "files_ok (nfs_data E v) (kind_of (nfs_nodes v))"
    using good by (auto simp: nfs_good_def)
  have "nfs_good E v' \<and> fs_of E v' = fs_of E v \<and> (case fs_of E v (comps path) of Some (Data d) \<Rightarrow> r = Ok d | _ \<Rightarrow> \<not> is_ok r)"
  proof (cases "find_node path v")
    case (Err e)
    then show ?thesis using run good find_node_kind(2) [OF path Err]
      by (auto simp: read_file_def op_simps fs_of_def fs_view_def)
  next
    case (Ok node)
    note k = find_node_kind(1) [OF path Ok]
    show ?thesis
    proof (cases "nn_kind node")
      case Directory
      then show ?thesis using run good Ok k by (auto simp: read_file_def op_simps fs_of_def fs_view_def)
    next
      case (File cid sz)
      obtain q p where p: "read_capsule E cid (nfs_pipeline v) = (q, p)" by fastforce
      have v': "r = q" "v' = v\<lparr>nfs_pipeline := p\<rparr>"
        using run Ok File p by (simp_all add: read_file_def op_simps on_nfs_pipeline_def)
      note G = wps.get_law [OF g(1) p]
      obtain d where "nfs_data E v cid = Some d" using files_okD(1) [OF g(2), of "comps path" cid sz] k File by auto
      then show ?thesis using G get_keeps [OF good, of p] v' k File by (simp add: fs_of_def fs_view_def)
    qed
  qed
  then show "nfs_good E v'" "fs_of E v' = fs_of E v"
    "case fs_of E v (comps path) of Some (Data d) \<Rightarrow> r = Ok d | _ \<Rightarrow> \<not> is_ok r" by blast+
qed

lemma nfs_read_range_effect:
  assumes good: "nfs_good E v" and path: "no_backslash path" and run: "nfs_read_range E path off len v = (r, v')" and len: "len < 2 ^ 64"
  shows "nfs_good E v'" "fs_of E v' = fs_of E v"
    and "case fs_of E v (comps path) of
        Some (Data d) \<Rightarrow> length d < 2 ^ 64 \<longrightarrow>
          (if unat off + len \<le> length d then r = Ok (take len (drop (unat off) d)) else \<not> is_ok r)
      | _ \<Rightarrow> \<not> is_ok r"
proof -
  have g: "service_inv E (nfs_pipeline v)" "files_ok (nfs_data E v) (kind_of (nfs_nodes v))"
    using good by (auto simp: nfs_good_def)
  have "nfs_good E v' \<and> fs_of E v' = fs_of E v \<and> (case fs_of E v (comps path) of
        Some (Data d) \<Rightarrow> length d < 2 ^ 64 \<longrightarrow>
          (if unat off + len \<le> length d then r = Ok (take len (drop (unat off) d)) else \<not> is_ok r)
      | _ \<Rightarrow> \<not> is_ok r)"
  proof (cases "find_node path v")
    case (Err e)
    then show ?thesis using run good find_node_kind(2) [OF path Err]
      by (auto simp: nfs_read_range_def op_simps fs_of_def fs_view_def)
  next
    case (Ok node)
    note k = find_node_kind(1) [OF path Ok]
    show ?thesis
    proof (cases "nn_kind node")
      case Directory
      then show ?thesis using run good Ok k by (auto simp: nfs_read_range_def op_simps fs_of_def fs_view_def)
    next
      case (File cid sz)
      obtain d where d: "nfs_data E v cid = Some d" "sz = of_nat (length d)" using files_okD(1) [OF g(2), of "comps path" cid sz] k File by auto
      have look: "fs_of E v (comps path) = Some (Data d)" using k File d by (simp add: fs_of_def fs_view_def)
      show ?thesis
      proof (cases "off + of_nat len > sz")
        case True
        have "\<not> unat off + len \<le> length d" if "length d < 2 ^ 64"
        proof
          assume le: "unat off + len \<le> length d"
          then have "unat (off + of_nat len) = unat off + len" using that by (simp add: word_arith)
          then show False using True le that by (simp add: d(2) word_less_nat_alt word_arith)
        qed
        then show ?thesis using run Ok File True good look by (auto simp: nfs_read_range_def op_simps)
      next
        case False
        obtain q p where p: "read_range E cid off len (nfs_pipeline v) = (q, p)" by fastforce
        have v': "r = q" "v' = v\<lparr>nfs_pipeline := p\<rparr>"
          using run Ok File False p by (simp_all add: nfs_read_range_def op_simps on_nfs_pipeline_def)
        note G = wps.range_law [OF g(1) p]
        show ?thesis using G get_keeps [OF good, of p] v' look d(1) len by auto
      qed
    qed
  qed
  then show "nfs_good E v'" "fs_of E v' = fs_of E v" "case fs_of E v (comps path) of
        Some (Data d) \<Rightarrow> length d < 2 ^ 64 \<longrightarrow>
          (if unat off + len \<le> length d then r = Ok (take len (drop (unat off) d)) else \<not> is_ok r)
      | _ \<Rightarrow> \<not> is_ok r" by blast+
qed

section \<open>Listing\<close>

lemma listed_entries:
  assumes ok: "nodes_ok nodes" and cs: "canonical cs"
  defines "xs \<equiv> filter (\<lambda>(p, _). p \<noteq> full_path cs \<and> starts_with p (dir_prefix cs) \<and>
      (let remainder = drop (length (dir_prefix cs)) p in remainder \<noteq> [] \<and> CHR ''/'' \<notin> set remainder)) (btree_entries nodes)"
  shows "(p, node) \<in> set xs \<longleftrightarrow> (\<exists>c. p = full_path (cs @ [c]) \<and> tree_of nodes (cs @ [c]) = Some node)"
    and "(p, node) \<in> set xs \<Longrightarrow> nn_path node = p \<and> p = full_path (cs @ [nn_name node]) \<and> tree_of nodes (cs @ [nn_name node]) = Some node"
    and "sorted (map fst xs)" "distinct (map fst xs)"
proof -
  note O = nodes_okD [OF ok]
  have mem: "(p, node) \<in> set (btree_entries nodes) \<longleftrightarrow> hm_get nodes p = Some node" for p node
    using O(1) by (simp add: hm_ok_def)
  have child: "(p, node) \<in> set xs \<longleftrightarrow> (\<exists>c. p = full_path (cs @ [c]) \<and> tree_of nodes (cs @ [c]) = Some node)" for p node
  proof
    assume "(p, node) \<in> set xs"
    then have a: "hm_get nodes p = Some node" "p \<noteq> full_path cs \<and> starts_with p (dir_prefix cs) \<and>
      (let remainder = drop (length (dir_prefix cs)) p in remainder \<noteq> [] \<and> CHR ''/'' \<notin> set remainder)"
      using mem by (auto simp: xs_def)
    obtain ds where ds: "canonical ds" "p = full_path ds" using O(2) [OF a(1)] by blast
    then obtain c where "ds = cs @ [c]" using child_iff [OF cs ds(1)] a(2) by blast
    then show "\<exists>c. p = full_path (cs @ [c]) \<and> tree_of nodes (cs @ [c]) = Some node"
      using ds a(1) by (intro exI [of _ c]) (simp add: tree_of_def)
  next
    assume "\<exists>c. p = full_path (cs @ [c]) \<and> tree_of nodes (cs @ [c]) = Some node"
    then obtain c where c: "p = full_path (cs @ [c])" "tree_of nodes (cs @ [c]) = Some node" by blast
    then have ds: "canonical (cs @ [c])" "hm_get nodes p = Some node" by (auto simp: tree_of_def split: if_splits)
    have "p \<noteq> full_path cs \<and> starts_with p (dir_prefix cs) \<and>
      (let remainder = drop (length (dir_prefix cs)) p in remainder \<noteq> [] \<and> CHR ''/'' \<notin> set remainder)"
      unfolding c(1) using child_iff [OF cs ds(1)] by blast
    then show "(p, node) \<in> set xs" using ds(2) mem by (simp add: xs_def)
  qed
  then show "(p, node) \<in> set xs \<longleftrightarrow> (\<exists>c. p = full_path (cs @ [c]) \<and> tree_of nodes (cs @ [c]) = Some node)" .
  show "nn_path node = p \<and> p = full_path (cs @ [nn_name node]) \<and> tree_of nodes (cs @ [nn_name node]) = Some node" if mem: "(p, node) \<in> set xs"
  proof -
    obtain c where c: "p = full_path (cs @ [c])" "tree_of nodes (cs @ [c]) = Some node" using mem child by blast
    then have "node_named (cs @ [c]) node" using O(5) by blast
    then show ?thesis using c by (auto simp: node_named_def)
  qed
  have "distinct (map fst (btree_entries nodes))"
    using O(1) by (simp add: btree_entries_def hm_ok_def distinct_map)
  then show "distinct (map fst xs)" unfolding xs_def by (rule distinct_map_filter)
  show "sorted (map fst xs)" unfolding xs_def by (rule sorted_filter [OF sorted_btree_entries])
qed

lemma list_directory_effect:
  assumes good: "nfs_good E v" and path: "no_backslash path"
  shows "fs_of E v (comps path) \<noteq> Some Dir \<Longrightarrow> \<not> is_ok (list_directory path v)"
    and "fs_of E v (comps path) = Some Dir \<Longrightarrow> \<exists>es. list_directory path v = Ok es \<and>
      sorted (map ne_path es) \<and> distinct (map ne_name es) \<and>
      (\<forall>name. name \<in> set (map ne_name es) \<longleftrightarrow> fs_of E v (comps path @ [name]) \<noteq> None) \<and>
      (\<forall>e\<in>set es. fs_of E v (comps path @ [ne_name e]) = Some Dir \<and> ne_kind e = DirectoryEntry \<or>
        (\<exists>d. fs_of E v (comps path @ [ne_name e]) = Some (Data d) \<and> ne_kind e = FileEntry \<and> ne_size e = of_nat (length d)))"
proof -
  have g: "nodes_ok (nfs_nodes v)" "files_ok (nfs_data E v) (kind_of (nfs_nodes v))"
    using good by (auto simp: nfs_good_def)
  let ?cs = "comps path"
  have can: "canonical ?cs" and full: "np_full (normalize_path path) = full_path ?cs"
    using normalize_canonical [OF path] by auto
  note K = hm_get_kind [OF can, of "nfs_nodes v"]
  show "\<not> is_ok (list_directory path v)" if nd: "fs_of E v ?cs \<noteq> Some Dir"
  proof -
    have "kind_of (nfs_nodes v) ?cs \<noteq> Some Directory" using nd fs_of_kind [OF good] by simp
    then show ?thesis
      using K by (auto simp: list_directory_def Let_def full node_is_directory_def ok_or_def split: option.splits)
  qed
  assume dir: "fs_of E v ?cs = Some Dir"
  define xs where "xs = filter (\<lambda>(p, _). p \<noteq> full_path ?cs \<and> starts_with p (dir_prefix ?cs) \<and>
      (let remainder = drop (length (dir_prefix ?cs)) p in remainder \<noteq> [] \<and> CHR ''/'' \<notin> set remainder)) (btree_entries (nfs_nodes v))"
  define es where "es = map (\<lambda>(_, node). to_entry node) xs"
  note L = listed_entries [OF g(1) can, folded xs_def]
  obtain node where node: "hm_get (nfs_nodes v) (full_path ?cs) = Some node" "node_is_directory node"
    using dir K fs_of_kind [OF good] by (auto simp: node_is_directory_def)
  have pre: "(if np_is_root (normalize_path path) then ''/'' else full_path ?cs @ ''/'') = dir_prefix ?cs"
    by (simp add: np_is_root_def dir_prefix_def)
  have run: "list_directory path v = Ok es"
    unfolding list_directory_def Let_def full pre using node by (simp add: es_def xs_def Let_def)
  have entry: "ne_path (to_entry n) = nn_path n" "ne_name (to_entry n) = nn_name n" for n
    by (simp_all add: to_entry_def split: nfs_node_kind.splits)
  have paths: "map ne_path es = map fst xs" unfolding es_def using L(2) by (auto simp: entry)
  have names: "map fst xs = map (\<lambda>name. full_path (?cs @ [name])) (map ne_name es)"
    unfolding es_def using L(2) by (auto simp: entry)
  have dist: "distinct (map ne_name es)"
    using L(4) unfolding names by (simp only: distinct_map)
  have mem: "name \<in> set (map ne_name es) \<longleftrightarrow> fs_of E v (?cs @ [name]) \<noteq> None" for name
  proof -
    have "name \<in> set (map ne_name es) \<longleftrightarrow> (\<exists>p n. (p, n) \<in> set xs \<and> nn_name n = name)"
      by (force simp: es_def entry)
    also have "\<dots> \<longleftrightarrow> (\<exists>n. tree_of (nfs_nodes v) (?cs @ [name]) = Some n)"
    proof
      assume "\<exists>p n. (p, n) \<in> set xs \<and> nn_name n = name"
      then show "\<exists>n. tree_of (nfs_nodes v) (?cs @ [name]) = Some n" using L(2) by blast
    next
      assume "\<exists>n. tree_of (nfs_nodes v) (?cs @ [name]) = Some n"
      then obtain n where n: "tree_of (nfs_nodes v) (?cs @ [name]) = Some n" by blast
      then have "nn_name n = name" using nodes_okD(5) [OF g(1) n] by (simp add: node_named_def)
      then show "\<exists>p n. (p, n) \<in> set xs \<and> nn_name n = name" using L(1) n by blast
    qed
    also have "\<dots> \<longleftrightarrow> fs_of E v (?cs @ [name]) \<noteq> None"
      using fs_view_None [OF g(2), of "?cs @ [name]"] by (auto simp: fs_of_def kind_of_def)
    finally show ?thesis .
  qed
  have kinds: "fs_of E v (?cs @ [ne_name e]) = Some Dir \<and> ne_kind e = DirectoryEntry \<or>
        (\<exists>d. fs_of E v (?cs @ [ne_name e]) = Some (Data d) \<and> ne_kind e = FileEntry \<and> ne_size e = of_nat (length d))"
    if e: "e \<in> set es" for e
  proof -
    obtain p n where n: "(p, n) \<in> set xs" "e = to_entry n" using e by (auto simp: es_def)
    have k: "kind_of (nfs_nodes v) (?cs @ [nn_name n]) = Some (nn_kind n)" using L(2) [OF n(1)] by (simp add: kind_of_def)
    show ?thesis
    proof (cases "nn_kind n")
      case Directory
      then show ?thesis using k n(2) by (simp add: entry fs_of_def fs_view_def to_entry_def)
    next
      case (File cid sz)
      then obtain d where "nfs_data E v cid = Some d" "sz = of_nat (length d)"
        using files_okD(1) [OF g(2), of "?cs @ [nn_name n]" cid sz] k by auto
      then show ?thesis using k n(2) File by (simp add: entry fs_of_def fs_view_def to_entry_def)
    qed
  qed
  show "\<exists>es. list_directory path v = Ok es \<and> sorted (map ne_path es) \<and> distinct (map ne_name es) \<and>
      (\<forall>name. name \<in> set (map ne_name es) \<longleftrightarrow> fs_of E v (?cs @ [name]) \<noteq> None) \<and>
      (\<forall>e\<in>set es. fs_of E v (?cs @ [ne_name e]) = Some Dir \<and> ne_kind e = DirectoryEntry \<or>
        (\<exists>d. fs_of E v (?cs @ [ne_name e]) = Some (Data d) \<and> ne_kind e = FileEntry \<and> ne_size e = of_nat (length d)))"
    using run dist mem kinds L(3) paths by auto
qed

end
