(* ===== verification/Nfs_Properties.thy ===== *)
theory Nfs_Properties
  imports Nfs_Operations View_Sample
begin

text \<open>
  The properties of the NFS view: what histories of operations preserve, that files read back,
  what deletion and listing do, that paths have one normal form, and the two ways in which files
  can be lost from sight: paths with backslashes and a namespace that cannot be saved.
\<close>

section \<open>A concrete namespace\<close>

definition sample_nodes :: nodes where
  "sample_nodes =
     [(''/'', directory_node ''/'' ''/'' 0), (''/a'', directory_node ''/a'' ''a'' 0),
      (''/a/f'', file_node ''/a/f'' ''f'' (CapsuleId [1]) 2 0)]"

definition sample_nfs :: "io_outcome list \<Rightarrow> nfs_view" where
  "sample_nfs io = \<lparr>nfs_pipeline = volume_pipeline, nfs_nodes = sample_nodes,
     nfs_namespace = Some (Stored sample_nodes), nfs_io = io\<rparr>"

lemma sample_full: "full_path [] = ''/''" "full_path [''a''] = ''/a''" "full_path [''a'', ''f''] = ''/a/f''"
  by (simp_all add: full_path_def)

lemma sample_canonical: "canonical [''a'']" "canonical [''a'', ''f'']"
  by (simp_all add: canonical_part_def)

lemma sample_tree:
  "tree_of sample_nodes = [[] \<mapsto> directory_node ''/'' ''/'' 0, [''a''] \<mapsto> directory_node ''/a'' ''a'' 0,
     [''a'', ''f''] \<mapsto> file_node ''/a/f'' ''f'' (CapsuleId [1]) 2 0]"
proof
  fix cs
  have eq: "full_path cs = full_path ds \<longleftrightarrow> cs = ds" if "canonical cs" "canonical ds" for ds
    using full_path_inj [OF that] by blast
  show "tree_of sample_nodes cs = ([[] \<mapsto> directory_node ''/'' ''/'' 0, [''a''] \<mapsto> directory_node ''/a'' ''a'' 0,
     [''a'', ''f''] \<mapsto> file_node ''/a/f'' ''f'' (CapsuleId [1]) 2 0]) cs"
  proof (cases "canonical cs")
    case True
    note e = eq [OF True canonical_simps(1), unfolded sample_full] eq [OF True sample_canonical(1), unfolded sample_full]
      eq [OF True sample_canonical(2), unfolded sample_full]
    consider "cs = []" | "cs = [''a'']" | "cs = [''a'', ''f'']" | "cs \<noteq> []" "cs \<noteq> [''a'']" "cs \<noteq> [''a'', ''f'']" by blast
    then show ?thesis
      by cases (use True e in \<open>simp_all add: tree_of_def sample_nodes_def sample_full\<close>)
  next
    case False
    then have "cs \<noteq> [] \<and> cs \<noteq> [''a''] \<and> cs \<noteq> [''a'', ''f'']" using sample_canonical canonical_simps(1) by metis
    then show ?thesis using False by (simp add: tree_of_def)
  qed
qed

lemma sample_kinds: "kind_of sample_nodes = [[] \<mapsto> Directory, [''a''] \<mapsto> Directory, [''a'', ''f''] \<mapsto> File (CapsuleId [1]) 2]"
  by (auto simp: kind_of_def sample_tree fun_eq_iff directory_node_def file_node_def)

lemma sample_nodes_ok: "nodes_ok sample_nodes"
  unfolding nodes_ok_def
proof (intro conjI allI impI)
  show "hm_ok sample_nodes" by (simp add: hm_ok_def sample_nodes_def)
  show "\<exists>cs. canonical cs \<and> k = full_path cs" if "hm_get sample_nodes k = Some node" for k node
  proof -
    have "k = full_path [] \<or> k = full_path [''a''] \<or> k = full_path [''a'', ''f'']"
      using that by (auto simp: sample_nodes_def sample_full split: if_splits)
    then show ?thesis using sample_canonical canonical_simps(1) by blast
  qed
  show "kind_of sample_nodes [] = Some Directory" by (simp add: sample_kinds)
  show "kind_of sample_nodes (butlast cs) = Some Directory" if "cs \<noteq> []" "kind_of sample_nodes cs \<noteq> None" for cs
    using that by (auto simp: sample_kinds split: if_splits)
  show "node_named cs node" if "tree_of sample_nodes cs = Some node" for cs node
    using that by (auto simp: sample_tree node_named_def directory_node_def file_node_def sample_full split: if_splits)
qed

lemma sample_nfs_good: "nfs_good sample_ext (sample_nfs io)"
proof -
  have "file_caps (kind_of sample_nodes) = [[''a'', ''f''] \<mapsto> CapsuleId [1]]"
    by (auto simp: file_caps_def sample_kinds fun_eq_iff)
  then have "names_live (wp_data sample_ext volume_pipeline) (file_caps (kind_of sample_nodes))"
    by (simp add: names_live_def volume_data)
  moreover have "\<exists>d. wp_data sample_ext volume_pipeline cid = Some d \<and> sz = of_nat (length d)"
    if "kind_of sample_nodes cs = Some (File cid sz)" for cs cid sz
    using that by (auto simp: sample_kinds volume_data split: if_splits)
  ultimately have "files_ok (wp_data sample_ext volume_pipeline) (kind_of sample_nodes)" by (simp add: files_ok_def)
  then show ?thesis using volume_service sample_nodes_ok by (simp add: nfs_good_def sample_nfs_def)
qed

lemma sample_fs: "fs_of sample_ext (sample_nfs io) = [[] \<mapsto> Dir, [''a''] \<mapsto> Dir, [''a'', ''f''] \<mapsto> Data [1, 2]]"
  by (auto simp: fs_of_def fs_view_def sample_kinds sample_nfs_def volume_data fun_eq_iff)

lemma sample_paths: "no_backslash ''/a/f''" "no_backslash ''/a''" "no_backslash ''/a/./g/../f''" "no_backslash ''a/b/../c''"
  by (simp_all add: no_backslash_def)

lemma sample_comps: "comps ''/a/f'' = [''a'', ''f'']" "comps ''/a'' = [''a'']" "comps ''/a/./g/../f'' = [''a'', ''f'']"
  by (simp_all add: normalize_path_def path_components_def component_of_def replace_backslash_def Let_def)

lemma sample_nfs_ready: "service_ready sample_ext [1, 9] (nfs_pipeline (sample_nfs io))"
  using volume_ready by (simp add: sample_nfs_def)

section \<open>Histories\<close>

text \<open>
  One call of the view, labelled with its path and whether it is to write or delete the object there. A
  write is a step only with data the store has room for and can read back (\<open>service_ready\<close>), a range
  read only with a length below 2 to the power of 64; the paths are restricted by the theorem below.
\<close>

datatype nfs_call = Changes string | Keeps string

primrec call_path :: "nfs_call \<Rightarrow> string" where
  "call_path (Changes path) = path"
| "call_path (Keeps path) = path"

inductive nfs_step :: "ext \<Rightarrow> nfs_call \<Rightarrow> nfs_view \<Rightarrow> nfs_view \<Rightarrow> bool" for E where
  ns_write: "service_ready E data (nfs_pipeline v) \<Longrightarrow>
    write_file E clk fresh now path data v = (r, v') \<Longrightarrow> nfs_step E (Changes path) v v'"
| ns_delete: "nfs_delete now path v = (u, v') \<Longrightarrow> nfs_step E (Changes path) v v'"
| ns_mkdir: "nfs_mkdir now path v = (u, v') \<Longrightarrow> nfs_step E (Keeps path) v v'"
| ns_read: "read_file E path v = (q, v') \<Longrightarrow> nfs_step E (Keeps path) v v'"
| ns_range: "len < 2 ^ 64 \<Longrightarrow> nfs_read_range E path off len v = (q, v') \<Longrightarrow> nfs_step E (Keeps path) v v'"

inductive nfs_run :: "ext \<Rightarrow> nfs_call list \<Rightarrow> nfs_view \<Rightarrow> nfs_view \<Rightarrow> bool" for E where
  nr_nil: "nfs_run E [] v v"
| nr_step: "nfs_step E call v v' \<Longrightarrow> nfs_run E calls v' v'' \<Longrightarrow> nfs_run E (call # calls) v v''"

lemma fs_write_file_keeps: "F ds = Some ob \<Longrightarrow> ds \<noteq> cs \<Longrightarrow> fs_write_file cs d F ds = Some ob"
  by (simp add: fs_write_file_def add_dirs_def)

lemma write_file_path:
  assumes "nfs_good E v" "no_backslash path" "service_ready E data (nfs_pipeline v)"
    and "write_file E clk fresh now path data v = (r, v')"
  shows "nfs_good E v'"
    and "r = Ok x \<Longrightarrow> comps path \<noteq> [] \<and> fs_of E v (comps path) \<noteq> Some Dir \<and>
      fs_of E v' = fs_write_file (comps path) data (fs_of E v)"
    and "\<not> is_ok r \<Longrightarrow> (\<exists>i. fs_of E v' = add_dirs Dir (take i (butlast (comps path))) (fs_of E v)) \<or>
      fs_of E v (comps path) \<noteq> Some Dir \<and> fs_of E v' = fs_write_file (comps path) data (fs_of E v)"
  using write_file_effect [OF assms(1) normalize_path_eq [OF assms(2)] normalize_canonical(1) [OF assms(2)] assms(3,4)]
  by blast+

lemma nfs_step_effect:
  assumes "nfs_step E call v v'" "nfs_good E v" "no_backslash (call_path call)"
  shows "nfs_good E v' \<and> (\<forall>cs ob. fs_of E v cs = Some ob \<longrightarrow> (\<forall>path. call = Changes path \<longrightarrow> comps path \<noteq> cs) \<longrightarrow>
    fs_of E v' cs = Some ob)"
  using assms(1)
proof cases
  case (ns_write data clk fresh now path r)
  then have nb: "no_backslash path" using assms(3) by simp
  note W = write_file_path [OF assms(2) nb ns_write(2,3)]
  have "(\<exists>i. fs_of E v' = add_dirs Dir (take i (butlast (comps path))) (fs_of E v)) \<or>
      fs_of E v' = fs_write_file (comps path) data (fs_of E v)"
    using W(2,3) by (cases r) auto
  then show ?thesis using W(1) ns_write(1) by (auto simp: add_dirs_keeps fs_write_file_keeps)
next
  case (ns_delete now path u)
  then have nb: "no_backslash path" using assms(3) by simp
  have "fs_of E v' = (fs_of E v)(comps path := None) \<or> v' = v" using nfs_delete_effect(2) [OF assms(2) nb ns_delete(2)] by blast
  then show ?thesis using nfs_delete_effect(1) [OF assms(2) nb ns_delete(2)] ns_delete(1) by auto
next
  case (ns_mkdir now path u)
  then have nb: "no_backslash path" using assms(3) by simp
  obtain i where "fs_of E v' = add_dirs Dir (take i (comps path)) (fs_of E v)" and g: "nfs_good E v'"
    using mkdir_effect [OF assms(2) nb ns_mkdir(2)] by blast
  then show ?thesis by (simp add: add_dirs_keeps)
next
  case (ns_read path q)
  then have nb: "no_backslash path" using assms(3) by simp
  show ?thesis using read_file_effect [OF assms(2) nb ns_read(2)] by simp
next
  case (ns_range len path off q)
  then have nb: "no_backslash path" using assms(3) by simp
  show ?thesis using nfs_read_range_effect [OF assms(2) nb ns_range(3,2)] by simp
qed

text \<open>C19: Nothing is lost but what was named: after any history of writes, deletions, directory creations and
  reads, failed ones included, over paths without a backslash, the namespace is still a tree whose files all
  read back, and every file and directory at a path that was neither written nor deleted is still there
  with the same bytes. The condition on the paths is needed: by \<open>nfs_backslash_orphan\<close> below a single
  \<open>mkdir\<close> of \<open>a\b\<close> breaks the tree. Writes are of data the store has room for and can read back.\<close>

theorem nfs_history_keeps:
  assumes "nfs_good E v" "nfs_run E calls v v'" "\<forall>call\<in>set calls. no_backslash (call_path call)"
  shows "nfs_good E v' \<and> (\<forall>cs ob. fs_of E v cs = Some ob \<longrightarrow> (\<forall>path. Changes path \<in> set calls \<longrightarrow> comps path \<noteq> cs) \<longrightarrow>
    fs_of E v' cs = Some ob)"
  using assms(2,1,3)
proof induction
  case (nr_step call v v' calls v'')
  then have "no_backslash (call_path call)" by simp
  note S = nfs_step_effect [OF nr_step(1,4) this]
  have "fs_of E v' cs = Some ob"
    if "fs_of E v cs = Some ob" "\<forall>path. Changes path \<in> set (call # calls) \<longrightarrow> comps path \<noteq> cs" for cs ob
    using S that by simp
  then show ?case using S nr_step(3,5) by simp
qed simp

section \<open>Files\<close>

text \<open>C20: A file that was written reads back: after a successful \<open>write_file\<close> the tree is the old one with the
  missing parent directories and the file, and every path with the same components reads the data;
  a failed one leaves the file as it was or written as a whole. Paths have no backslash, and the data is such
  that the store has room for it and can read it back.\<close>

theorem nfs_write_read:
  assumes "nfs_good E v" "no_backslash path" "service_ready E data (nfs_pipeline v)"
    and "write_file E clk fresh now path data v = (r, v')"
  shows "(is_ok r \<longrightarrow> comps path \<noteq> [] \<and> fs_of E v' = fs_write_file (comps path) data (fs_of E v) \<and>
      (\<forall>other. no_backslash other \<longrightarrow> comps other = comps path \<longrightarrow> fst (read_file E other v') = Ok data)) \<and>
    (\<not> is_ok r \<longrightarrow> fs_of E v' (comps path) = fs_of E v (comps path) \<or>
      fs_of E v' = fs_write_file (comps path) data (fs_of E v))"
proof -
  note W = write_file_path [OF assms]
  have "fst (read_file E other v') = Ok data"
    if "is_ok r" "no_backslash other" "comps other = comps path" for other
  proof -
    obtain q w where q: "read_file E other v' = (q, w)" by fastforce
    have "fs_of E v' (comps other) = Some (Data data)" using W(2) that(1,3) by (cases r) (auto simp: fs_write_file_def)
    then show ?thesis using read_file_effect(3) [OF W(1) that(2) q] q by simp
  qed
  moreover have "fs_of E v' (comps path) = fs_of E v (comps path)"
    if "fs_of E v' = add_dirs Dir (take i (butlast (comps path))) (fs_of E v)" for i
  proof (cases "comps path = []")
    case True
    then show ?thesis using that add_no_dirs [OF assms(1)] by simp
  next
    case False
    then have "\<not> prefix (comps path) (take i (butlast (comps path)))"
      using prefix_order.trans [OF _ take_is_prefix] butlast_neq by blast
    then show ?thesis using that by (simp add: add_dirs_def)
  qed
  ultimately show ?thesis using W(2,3) by (cases r) auto
qed

text \<open>C21: Deletion removes exactly one object: \<open>delete\<close> takes effect only on a file or on an empty directory
  other than the root, removes it and nothing else, and otherwise reports an error and changes nothing.\<close>

theorem nfs_delete_exact:
  assumes "nfs_good E v" "no_backslash path" "nfs_delete now path v = (r, v')"
  shows "if comps path \<noteq> [] \<and> fs_of E v (comps path) \<noteq> None \<and> (\<forall>es. es \<noteq> [] \<longrightarrow> fs_of E v (comps path @ es) = None)
    then fs_of E v' = (fs_of E v)(comps path := None)
    else \<not> is_ok r \<and> v' = v"
  using nfs_delete_effect(2) [OF assms] by auto

text \<open>C22: Listing a directory returns its children, each exactly once, in the order of their paths, directories
  and files marked as such and files with the length of their data; anything but a directory is refused.\<close>

theorem nfs_list_exact:
  assumes "nfs_good E v" "no_backslash path"
  shows "if fs_of E v (comps path) = Some Dir
    then \<exists>es. list_directory path v = Ok es \<and> sorted (map ne_path es) \<and> distinct (map ne_name es) \<and>
      (\<forall>name. name \<in> set (map ne_name es) \<longleftrightarrow> fs_of E v (comps path @ [name]) \<noteq> None) \<and>
      (\<forall>e\<in>set es. fs_of E v (comps path @ [ne_name e]) = Some Dir \<and> ne_kind e = DirectoryEntry \<or>
        (\<exists>d. fs_of E v (comps path @ [ne_name e]) = Some (Data d) \<and> ne_kind e = FileEntry \<and> ne_size e = of_nat (length d)))
    else \<not> is_ok (list_directory path v)"
  using list_directory_effect [OF assms] by simp

section \<open>Paths\<close>

text \<open>Normalising a path is a projection onto one normal form: the result is rooted, has no empty, \<open>.\<close> or
  \<open>..\<close> component, normalises to itself, and two paths have the same canonical string exactly when
  they have the same components.\<close>

theorem normalize_path_canonical:
  assumes "no_backslash p" "no_backslash q"
  shows "canonical (np_components (normalize_path p)) \<and> normalize_path (np_full (normalize_path p)) = normalize_path p \<and>
    (np_full (normalize_path p) = np_full (normalize_path q) \<longleftrightarrow> np_components (normalize_path p) = np_components (normalize_path q))"
proof -
  note P = normalize_canonical [OF assms(1)] and Q = normalize_canonical [OF assms(2)]
  have "normalize_path (np_full (normalize_path p)) = normalize_path p"
    using normalize_full_path [OF P(1)] P(2) by (cases "normalize_path p") simp
  then show ?thesis using P Q full_path_inj [of "np_components (normalize_path p)" "np_components (normalize_path q)"] by auto
qed

section \<open>Two ways to lose a file\<close>

lemma prefix_dir: "nodes_ok nodes \<Longrightarrow> kind_of nodes (cs @ es) = Some Directory \<Longrightarrow> kind_of nodes cs = Some Directory"
proof (induction es rule: rev_induct)
  case (snoc e es)
  then have "kind_of nodes (butlast (cs @ es @ [e])) = Some Directory" by (intro nodes_okD(4) [OF snoc(2)]) simp_all
  then show ?case using snoc(1,2) by (simp add: butlast_append split: if_splits)
qed simp

text \<open>All directories on the way exist, so nothing is in conflict.\<close>

lemma ensure_loop_ok:
  "nodes_ok nodes \<Longrightarrow> canonical (cs @ parts) \<Longrightarrow> kind_of nodes (cs @ parts) = Some Directory \<Longrightarrow>
    is_ok (fst (ensure_loop t cs parts nodes))"
proof (induction parts arbitrary: cs nodes)
  case (Cons part parts)
  let ?cur = "cs @ [part]"
  have can: "canonical ?cur" "canonical (?cur @ parts)" using Cons.prems(2) by auto
  have path: "CHR ''/'' # join_slash ?cur = full_path ?cur" by (simp add: full_path_def)
  have kd: "kind_of nodes ?cur = Some Directory"
    using prefix_dir [OF Cons.prems(1), of ?cur parts] Cons.prems(3) by simp
  then obtain node where n: "hm_get nodes (full_path ?cur) = Some node" "node_is_directory node"
    using hm_get_kind [OF can(1), of nodes] by (auto simp: node_is_directory_def)
  note T = touch_same [OF Cons.prems(1) can(1), of t]
  have "is_ok (fst (ensure_loop t ?cur parts (touch_node (full_path ?cur) t nodes)))"
    by (rule Cons.IH [OF T(1) can(2)]) (use T(2) Cons.prems(3) in simp)
  then show ?case using n by (simp add: path Let_def)
qed simp

lemma file_insert_over:
  assumes "nodes_ok nodes" "canonical cs" "cs \<noteq> []" "kind_of nodes cs = Some (File old size0)"
    and run: "file_insert \<lparr>np_full = full_path cs, np_components = cs\<rparr>
      \<lparr>np_full = full_path (butlast cs), np_components = butlast cs\<rparr> cid sz t nodes = (r, nodes')"
  shows "r = Ok (Some old)"
proof -
  let ?p = "\<lparr>np_full = full_path (butlast cs), np_components = butlast cs\<rparr>"
  have "kind_of nodes (butlast cs) = Some Directory" using nodes_okD(4) [OF assms(1,3)] assms(4) by simp
  then have "is_ok (fst (ensure_directory ?p t nodes))"
    using ensure_loop_ok [OF root_same(1) [OF assms(1)], of "[]" "butlast cs" t t] root_same(2) [OF assms(1), of t]
      canonical_butlast [OF assms(2)] by (simp add: ensure_directory_def)
  then obtain u n where "ensure_directory ?p t nodes = (Ok u, n)" by (cases "ensure_directory ?p t nodes"; cases "fst (ensure_directory ?p t nodes)") auto
  then have "is_ok r" using run assms(3) by (auto simp: file_insert_def bind_op_def np_name_def Let_def)
  moreover have "kind_of nodes cs \<noteq> Some Directory" using assms(4) by simp
  from file_insert_effect [OF assms(1-3) this run] have "case r of Ok o' \<Rightarrow> o' = file_caps (kind_of nodes) cs | Err e \<Rightarrow> True"
    by (cases r) simp_all
  ultimately show ?thesis using assms(4) by (cases r) (auto simp: file_caps_Some)
qed

text \<open>C23: Overwriting a file is not safe against a failing save: \<open>write_file\<close> discards the file's old capsule before
  the namespace is saved, so when the save fails the saved namespace still names the old capsule,
  and a view that loads it cannot read the file any more: neither the old nor the new data.\<close>

theorem nfs_failed_save_loses_file:
  assumes "nfs_good E v" "no_backslash path" "fs_of E v (comps path) = Some (Data old)"
    and "service_ready E data (nfs_pipeline v)" "is_ok (fst (write_capsule E clk fresh data (nfs_pipeline v)))"
    and "nfs_namespace v = Some (Stored (nfs_nodes v))" "nfs_io v = IoFail 0 # io"
    and "write_file E clk fresh now path data v = (r, v')"
  shows "r = Err IoError \<and> nfs_namespace v' = Some (Stored (nfs_nodes v)) \<and>
    (\<forall>reopened. nfs_nodes reopened = nfs_nodes v \<longrightarrow> nfs_pipeline reopened = nfs_pipeline v' \<longrightarrow>
      \<not> is_ok (fst (read_file E path reopened)))"
proof -
  obtain cs where info: "normalize_path path = \<lparr>np_full = full_path cs, np_components = cs\<rparr>" and can: "canonical cs"
    using normalize_path_eq [OF assms(2)] normalize_canonical(1) [OF assms(2)] by blast
  have there: "fs_of E v cs = Some (Data old)" using assms(3) info by simp
  then obtain cid sz where k: "kind_of (nfs_nodes v) cs = Some (File cid sz)"
    by (auto simp: fs_of_def fs_view_def split: option.splits nfs_node_kind.splits)
  have cs: "cs \<noteq> []" using there fs_of_root [OF assms(1)] by auto
  obtain node where node: "hm_get (nfs_nodes v) (full_path cs) = Some node" "nn_kind node = File cid sz"
    using hm_get_kind [OF can, of "nfs_nodes v"] k by auto
  have par: "np_parent_path \<lparr>np_full = full_path cs, np_components = cs\<rparr> = Some (full_path (butlast cs))"
    using np_parent [of "\<lparr>np_full = full_path cs, np_components = cs\<rparr>"] can cs by simp
  note pinfo = normalize_full_path [OF canonical_butlast [OF can]]
  obtain c v1 where put: "on_nfs_pipeline (write_capsule E clk fresh data) v = (Ok c, v1)"
    using assms(5) by (cases "write_capsule E clk fresh data (nfs_pipeline v)"; cases "fst (write_capsule E clk fresh data (nfs_pipeline v))")
      (auto simp: on_nfs_pipeline_def zoom_def)
  note P = put_effect [OF assms(1,4) put]
  have c: "c = fresh" "nfs_data E v1 fresh = Some data" "\<And>cs. file_caps (kind_of (nfs_nodes v1)) cs \<noteq> Some fresh"
    using P(3,6) by auto
  let ?ins = "on_nodes (file_insert \<lparr>np_full = full_path cs, np_components = cs\<rparr>
        \<lparr>np_full = full_path (butlast cs), np_components = butlast cs\<rparr> fresh (of_nat (length data)) (unix_timestamp now))"
  obtain q v2 where ins: "?ins v1 = (q, v2)" by fastforce
  have k1: "kind_of (nfs_nodes v1) cs = Some (File cid sz)" using k P(3) by simp
  have ok1: "nodes_ok (nfs_nodes v1)" using P(1) by (simp add: nfs_good_def)
  have q: "q = Ok (Some cid)"
    using ins by (auto simp: on_nodes_def zoom_def split: prod.splits intro: file_insert_over [OF ok1 can cs k1])
  have keep2: "nfs_namespace v2 = nfs_namespace v1" "nfs_io v2 = nfs_io v1"
    using ins by (auto simp: on_nodes_def zoom_def split: prod.splits)
  have "kind_of (nfs_nodes v1) cs \<noteq> Some Directory" using k1 by simp
  note I = insert_good [OF P(1) c(2,3) can cs this ins]
  obtain d v3 where drop: "drop_capsule (Some cid) v2 = (d, v3)" by fastforce
  have o: "file_caps (kind_of (nfs_nodes v2)) ds \<noteq> Some k'" if "Some cid = Some k'" for k' ds
    using I(2) [OF q] that by blast
  note D = drop_capsule_effect [OF I(1) o drop]
  have v3: "nfs_namespace v3 = Some (Stored (nfs_nodes v))" "nfs_io v3 = IoFail 0 # io" "is_ok d" "nfs_data E v3 cid = None"
    using D(4-7) keep2 P(4,5) assms(6,7) by simp_all
  have pers: "nfs_persist v3 = (Err IoError, v3\<lparr>nfs_namespace := Some (Stored (nfs_nodes v)), nfs_io := io\<rparr>)"
    by (simp add: nfs_persist_def zoom_def save_json_def v3)
  have r: "r = Err IoError" "v' = v3\<lparr>nfs_namespace := Some (Stored (nfs_nodes v)), nfs_io := io\<rparr>"
    using assms(8) node cs put ins q drop pers c(1) v3(3)
    by (auto simp: write_file_def Let_def np_is_root_def info par pinfo bind_op_def lift_result_def node_is_directory_def
        split: result.splits)
  have "\<not> is_ok (fst (read_file E path w))" if "nfs_nodes w = nfs_nodes v" "nfs_pipeline w = nfs_pipeline v'" for w
  proof -
    have inv: "service_inv E (nfs_pipeline w)" "wp_data E (nfs_pipeline w) cid = None"
      using D(1) that(2) r(2) v3(4) by (simp_all add: nfs_good_def)
    obtain x p where x: "read_capsule E cid (nfs_pipeline w) = (x, p)" by fastforce
    have "\<not> is_ok x" using wps.get_law [OF inv(1) x] inv(2) by simp
    then show ?thesis using x node that(1)
      by (simp add: read_file_def find_node_def info op_simps on_nfs_pipeline_def zoom_def)
  qed
  then show ?thesis using r by simp
qed

text \<open>A backslash in a path breaks the tree: \<open>mkdir\<close> of \<open>a\b\<close> makes the directory \<open>/a/b\<close>, because the replaced
  component is not split again, without a directory \<open>/a\<close>; \<open>/a\<close> cannot be listed.\<close>

theorem nfs_backslash_orphan:
  assumes "nodes_ok (nfs_nodes v)" "kind_of (nfs_nodes v) [''a''] = None"
    and "nfs_mkdir now [CHR ''a'', CHR 0x5C, CHR ''b''] v = (r, v')"
  shows "kind_of (nfs_nodes v') [''a'', ''b''] = Some Directory \<and> kind_of (nfs_nodes v') [''a''] = None \<and>
    \<not> nodes_ok (nfs_nodes v') \<and> \<not> is_ok (list_directory ''/a'' v')"
proof -
  have info: "normalize_path [CHR ''a'', CHR 0x5C, CHR ''b''] = \<lparr>np_full = ''/a/b'', np_components = [''a/b'']\<rparr>"
    by (simp add: normalize_path_def path_components_def component_of_def replace_backslash_def full_path_def Let_def)
  let ?root = "ensure_root_node (unix_timestamp now) (nfs_nodes v)"
  let ?n = "directory_node ''/a/b'' ''a/b'' (unix_timestamp now)"
  note R = root_same [OF assms(1), of "unix_timestamp now"]
  have can: "canonical [''a'']" "canonical [''a'', ''b'']" by (simp_all add: canonical_part_def)
  have full: "full_path [''a''] = ''/a''" "full_path [''a'', ''b''] = ''/a/b''" by (simp_all add: full_path_def)
  have none: "kind_of ?root [''a'', ''b''] = None" using no_child [OF R(1), of "[''a'']" "[''a'', ''b'']"] R(2) assms(2) by simp
  then have "hm_get ?root ''/a/b'' = None" using hm_get_kind [OF can(2), of ?root] full by simp
  then have e: "ensure_directory (normalize_path [CHR ''a'', CHR 0x5C, CHR ''b'']) (unix_timestamp now) (nfs_nodes v) =
      (Ok (), hm_insert ''/a/b'' ?n ?root)"
    unfolding info by (simp add: ensure_directory_def Let_def)
  obtain q w where p: "nfs_persist (v\<lparr>nfs_nodes := hm_insert ''/a/b'' ?n ?root\<rparr>) = (q, w)" by fastforce
  have "v' = w" using assms(3) e p by (simp add: nfs_mkdir_def on_nodes_def zoom_def bind_op_def)
  then have n: "nfs_nodes v' = hm_insert (full_path [''a'', ''b'']) ?n ?root" using nfs_persist_same [OF p] full by simp
  have K: "kind_of (nfs_nodes v') = (kind_of ?root)([''a'', ''b''] \<mapsto> Directory)"
    unfolding n kind_of_insert [OF can(2)] by (simp add: directory_node_def)
  have a: "kind_of (nfs_nodes v') [''a''] = None" using K R(2) assms(2) by simp
  have bad: "\<not> nodes_ok (nfs_nodes v')" using nodes_okD(4) [of "nfs_nodes v'" "[''a'', ''b'']"] K a by auto
  have "normalize_path ''/a'' = \<lparr>np_full = ''/a'', np_components = [''a'']\<rparr>"
    using normalize_full_path [OF can(1)] full by simp
  moreover have "hm_get (nfs_nodes v') ''/a'' = None" using hm_get_kind [OF can(1), of "nfs_nodes v'"] a full by simp
  ultimately have "\<not> is_ok (list_directory ''/a'' v')" by (simp add: list_directory_def Let_def ok_or_def)
  then show ?thesis using K a bad by simp
qed

section \<open>Witnesses\<close>

text \<open>A write whose save fails and a deletion of a directory that is not empty: the file beside is still there.\<close>

theorem nfs_history_keeps_witness:
  "\<exists>v'. nfs_run sample_ext [Changes ''a/b/../c'', Changes ''/a''] (sample_nfs [IoFail 0]) v' \<and> nfs_good sample_ext v' \<and>
     fs_of sample_ext v' [''a'', ''f''] = Some (Data [1, 2])"
proof -
  obtain r v1 where w: "write_file sample_ext (Some 0) (CapsuleId [2]) (Some 0) ''a/b/../c'' [1, 9] (sample_nfs [IoFail 0]) = (r, v1)" by fastforce
  obtain q v' where d: "nfs_delete (Some 1) ''/a'' v1 = (q, v')" by fastforce
  have run: "nfs_run sample_ext [Changes ''a/b/../c'', Changes ''/a''] (sample_nfs [IoFail 0]) v'"
    by (rule nr_step [OF ns_write [OF sample_nfs_ready w] nr_step [OF ns_delete [OF d] nr_nil]])
  have "comps ''a/b/../c'' = [''a'', ''c'']"
    by (simp add: normalize_path_def path_components_def component_of_def replace_backslash_def Let_def)
  with nfs_history_keeps [OF sample_nfs_good run]
  have "nfs_good sample_ext v' \<and> fs_of sample_ext v' [''a'', ''f''] = Some (Data [1, 2])"
    using sample_paths by (auto simp: sample_fs sample_comps)
  then show ?thesis using run by blast
qed

theorem nfs_write_read_witness:
  "\<exists>v'. write_file sample_ext (Some 0) (CapsuleId [2]) (Some 0) ''/a/f'' [1, 9] (sample_nfs []) = (Ok (CapsuleId [2]), v') \<and>
     fst (read_file sample_ext ''/a/./g/../f'' v') = Ok [1, 9]"
proof -
  let ?w = "write_file sample_ext (Some 0) (CapsuleId [2]) (Some 0) ''/a/f'' [1, 9] (sample_nfs [])"
  obtain p where p: "write_capsule sample_ext (Some 0) (CapsuleId [2]) [1, 9] volume_pipeline = (Ok (CapsuleId [2]), p)"
    using volume_write by blast
  have info: "normalize_path ''/a/f'' = \<lparr>np_full = ''/a/f'', np_components = [''a'', ''f'']\<rparr>" "normalize_path ''/a'' = \<lparr>np_full = ''/a'', np_components = [''a'']\<rparr>"
    using normalize_full_path [OF sample_canonical(1)] normalize_full_path [OF sample_canonical(2)] sample_full by simp_all
  obtain q2 p2 where dl: "delete_capsule (CapsuleId [1]) p = (q2, p2)" by fastforce
  have "fst ?w = Ok (CapsuleId [2])"
    by (simp add: write_file_def info np_is_root_def np_parent_path_def lift_result_def bind_op_def on_nfs_pipeline_def zoom_def p
        sample_nfs_def sample_nodes_def file_insert_def ensure_directory_def ensure_root_node_def touch_node_def on_nodes_def
        directory_node_def file_node_def node_is_directory_def np_name_def capsule_of_node_def drop_capsule_def ignore_op_def dl
        nfs_persist_def save_json_def return_op_def Let_def)
  then have run: "?w = (Ok (CapsuleId [2]), snd ?w)" by (metis prod.collapse)
  have "comps ''/a/./g/../f'' = comps ''/a/f''" by (simp only: sample_comps)
  then have "fst (read_file sample_ext ''/a/./g/../f'' (snd ?w)) = Ok [1, 9]"
    using nfs_write_read [OF sample_nfs_good sample_paths(1) sample_nfs_ready run] sample_paths(3) by simp
  then show ?thesis using run by blast
qed

theorem nfs_delete_exact_witness:
  "fs_of sample_ext (snd (nfs_delete (Some 0) ''/a/f'' (sample_nfs []))) = [[] \<mapsto> Dir, [''a''] \<mapsto> Dir]"
proof -
  have none: "fs_of sample_ext (sample_nfs []) ([''a'', ''f''] @ es) = None" if "es \<noteq> []" for es
    using that by (auto simp: sample_fs)
  have gone: "([[] \<mapsto> Dir, [''a''] \<mapsto> Dir, [''a'', ''f''] \<mapsto> Data [1, 2 :: u8]])([''a'', ''f''] := None) = [[] \<mapsto> Dir, [''a''] \<mapsto> Dir]"
    by (auto simp: fun_eq_iff)
  from nfs_delete_exact [OF sample_nfs_good [of "[]"] sample_paths(1) prod.collapse [symmetric], where now = "Some 0"] none show ?thesis
    by (simp add: sample_comps sample_fs gone)
qed

theorem nfs_list_exact_witness:
  "\<exists>es. list_directory ''/a'' (sample_nfs []) = Ok es \<and> map ne_name es = [''f'']"
proof -
  have "fs_of sample_ext (sample_nfs []) (comps ''/a'') = Some Dir" by (simp add: sample_comps sample_fs)
  then obtain es where es: "list_directory ''/a'' (sample_nfs []) = Ok es" "distinct (map ne_name es)"
    "\<And>name. name \<in> set (map ne_name es) \<longleftrightarrow> fs_of sample_ext (sample_nfs []) (comps ''/a'' @ [name]) \<noteq> None"
    using nfs_list_exact [OF sample_nfs_good [of "[]"] sample_paths(2)] by auto
  have "name \<in> set (map ne_name es) \<longleftrightarrow> name = ''f''" for name
    unfolding es(3) by (simp add: sample_comps sample_fs)
  then have "set (map ne_name es) = {''f''}" by blast
  then have "length (map ne_name es) = 1" using distinct_card [OF es(2)] by simp
  then obtain x where "map ne_name es = [x]" by (metis One_nat_def length_0_conv length_Suc_conv)
  then have "map ne_name es = [''f'']" using \<open>set (map ne_name es) = {''f''}\<close> by simp
  then show ?thesis using es(1) by (intro exI [of _ es]) simp
qed

theorem normalize_path_canonical_witness: "np_full (normalize_path ''/a/./g/../f'') = np_full (normalize_path ''/a/f'')"
proof -
  have "comps ''/a/./g/../f'' = comps ''/a/f''" by (simp only: sample_comps)
  then show ?thesis using normalize_path_canonical [OF sample_paths(3,1)] by blast
qed

theorem nfs_failed_save_loses_file_witness:
  "fst (write_file sample_ext (Some 0) (CapsuleId [2]) (Some 0) ''/a/f'' [1, 9] (sample_nfs [IoFail 0])) = Err IoError \<and>
   \<not> is_ok (fst (read_file sample_ext ''/a/f''
      (sample_nfs []\<lparr>nfs_pipeline := nfs_pipeline (snd (write_file sample_ext (Some 0) (CapsuleId [2]) (Some 0) ''/a/f'' [1, 9] (sample_nfs [IoFail 0])))\<rparr>)))"
proof -
  have f: "fs_of sample_ext (sample_nfs [IoFail 0]) (comps ''/a/f'') = Some (Data [1, 2])" by (simp add: sample_comps sample_fs)
  have w: "is_ok (fst (write_capsule sample_ext (Some 0) (CapsuleId [2]) [1, 9] (nfs_pipeline (sample_nfs [IoFail 0]))))"
    using volume_write by (auto simp: sample_nfs_def)
  have n: "nfs_namespace (sample_nfs [IoFail 0]) = Some (Stored (nfs_nodes (sample_nfs [IoFail 0])))"
    "nfs_io (sample_nfs [IoFail 0]) = IoFail 0 # []" "nfs_nodes (sample_nfs []) = nfs_nodes (sample_nfs [IoFail 0])"
    by (simp_all add: sample_nfs_def)
  from nfs_failed_save_loses_file [OF sample_nfs_good sample_paths(1) f sample_nfs_ready w n(1,2) prod.collapse [symmetric], of "Some 0"] n(3)
  show ?thesis by simp
qed

theorem nfs_backslash_orphan_witness:
  "\<not> is_ok (list_directory ''/a'' (snd (nfs_mkdir (Some 0) [CHR ''a'', CHR 0x5C, CHR ''b'']
     ((sample_nfs [])\<lparr>nfs_nodes := ensure_root_node 0 []\<rparr>))))"
  using nfs_backslash_orphan [OF _ _ prod.collapse [symmetric], of "(sample_nfs [])\<lparr>nfs_nodes := ensure_root_node 0 []\<rparr>" "Some 0"]
    new_root [of 0] by simp

end
