(* ===== verification/Audit_Log.thy ===== *)
theory Audit_Log
  imports View_Common Text_Format
begin

text \<open>
  The audit log of \<open>crates/common/src/security/audit_log.rs\<close>: an append-only file of JSON lines, each
  record carrying the hash of the one before it, with an optional timestamping service, rotation of
  a full file and recovery of the last hash when a log is opened. The file is its bytes; the JSON of
  events and records (\<open>serde_json\<close>) and hexadecimal decoding (\<open>hex\<close>) are parameters. The handle is
  opened with \<open>O_APPEND\<close> and follows the file through a rename.
\<close>

section \<open>Records\<close>

datatype event =
    CapsuleCreated capsule_id u64 nat policy
  | CapsuleRead capsule_id u64
  | CapsuleDeleted capsule_id u64
  | SegmentAppended segment_id u32 "content_hash option" bool
  | DedupHit segment_id capsule_id content_hash
  | AuditHeartbeat u64 nat nat

record tsa_proof =
  tp_authority :: string
  tp_timestamp :: u64
  tp_token :: string

record audit_record =
  ar_event :: event
  ar_timestamp :: u64
  ar_prev_hash :: string
  ar_hash :: string
  ar_tsa_proof :: "tsa_proof option"

record audit_trail =
  tr_hash :: string
  tr_tsa :: "tsa_proof option"

text \<open>The third-party functions: serialisation of events and records, parsing of a line, \<open>hex::decode\<close>.\<close>

record audit_ext =
  ax_ext :: ext
  ax_event_json :: "event \<Rightarrow> bytes option"
  ax_record_json :: "audit_record \<Rightarrow> bytes option"
  ax_parse_record :: "bytes \<Rightarrow> audit_record option"
  ax_unhex :: "string \<Rightarrow> bytes option"

section \<open>Options\<close>

record audit_options =
  ao_flush_interval :: u32
  ao_max_file_bytes :: u64
  ao_tsa_batch_size :: u32
  ao_tsa_client :: bool

definition default_audit_options :: audit_options where
  "default_audit_options = \<lparr>ao_flush_interval = 1, ao_max_file_bytes = 1024 * 1024 * 1024, ao_tsa_batch_size = 100, ao_tsa_client = False\<rparr>"

definition with_flush_interval :: "u32 \<Rightarrow> audit_options \<Rightarrow> audit_options" where
  "with_flush_interval every opts = opts\<lparr>ao_flush_interval := max every 1\<rparr>"

definition with_max_file_bytes :: "u64 \<Rightarrow> audit_options \<Rightarrow> audit_options" where
  "with_max_file_bytes n opts = opts\<lparr>ao_max_file_bytes := n\<rparr>"

definition with_tsa_batch_size :: "u32 \<Rightarrow> audit_options \<Rightarrow> audit_options" where
  "with_tsa_batch_size batch opts = opts\<lparr>ao_tsa_batch_size := max batch 1\<rparr>"

definition with_tsa_client :: "audit_options \<Rightarrow> audit_options" where
  "with_tsa_client opts = opts\<lparr>ao_tsa_client := True\<rparr>"

definition env_u32 :: "string option \<Rightarrow> u32 \<Rightarrow> u32" where
  "env_u32 v dflt = (case Option.bind v parse_uint of Some n \<Rightarrow> n | None \<Rightarrow> dflt)"

text \<open>\<open>from_env\<close>, given the values of \<open>SPACE_TSA_BATCH\<close>, \<open>SPACE_AUDIT_FLUSH\<close> and \<open>SPACE_TSA_ENDPOINT\<close>.\<close>

definition options_from_env :: "string option \<Rightarrow> string option \<Rightarrow> string option \<Rightarrow> audit_options" where
  "options_from_env batch flush endpoint =
     (let opts = with_tsa_batch_size (env_u32 batch 100) (with_flush_interval (env_u32 flush 1) default_audit_options)
      in if endpoint \<noteq> None then with_tsa_client opts else opts)"

section \<open>State\<close>

text \<open>Whether the open file is still the one at the path or, after a rename, the one with the suffix \<open>.1\<close>.\<close>

datatype log_handle = OnPath | OnRotated

record audit_log =
  al_path :: "bytes option"
  al_rotated :: "bytes option"
  al_io :: "io_outcome list"
  al_handle :: log_handle
  al_last_hash :: bytes
  al_events_since_flush :: u32
  al_events_since_tsa :: u32
  al_last_tsa :: "tsa_proof option"

type_synonym 'a audit_op = "(audit_log, 'a, error) op"

definition zero_hash :: bytes where
  "zero_hash = replicate 32 0"

definition bytes_of :: "bytes option \<Rightarrow> bytes" where
  "bytes_of file = (case file of Some bs \<Rightarrow> bs | None \<Rightarrow> [])"

definition handle_bytes :: "audit_log \<Rightarrow> bytes" where
  "handle_bytes st = (case al_handle st of OnPath \<Rightarrow> bytes_of (al_path st) | OnRotated \<Rightarrow> bytes_of (al_rotated st))"

definition set_handle_bytes :: "bytes \<Rightarrow> audit_log \<Rightarrow> audit_log" where
  "set_handle_bytes bs st =
     (case al_handle st of OnPath \<Rightarrow> st\<lparr>al_path := Some bs\<rparr> | OnRotated \<Rightarrow> st\<lparr>al_rotated := Some bs\<rparr>)"

definition audit_io :: "io_outcome audit_op" where
  "audit_io st = (case io_next (al_io st) of (out, io) \<Rightarrow> (Ok out, st\<lparr>al_io := io\<rparr>))"

section \<open>Appending\<close>

definition u64_to_le_bytes :: "u64 \<Rightarrow> bytes" where
  "u64_to_le_bytes v = map (\<lambda>i. ucast (drop_bit (8 * i) v)) [0..<8]"

definition event_digest :: "audit_ext \<Rightarrow> bytes \<Rightarrow> bytes \<Rightarrow> u64 \<Rightarrow> bytes" where
  "event_digest A last_hash event_json timestamp =
     ext_blake3 (ax_ext A) (last_hash @ event_json @ u64_to_le_bytes timestamp)"

text \<open>Every \<open>tsa_batch_size\<close> events the service is asked; its answer is \<open>stamp\<close>.\<close>

definition tsa_step :: "audit_options \<Rightarrow> (string \<Rightarrow> (tsa_proof, error) result) \<Rightarrow> string \<Rightarrow> tsa_proof option audit_op" where
  "tsa_step opts stamp digest st =
     (if \<not> ao_tsa_client opts then (Ok None, st)
      else
        (let st = st\<lparr>al_events_since_tsa := al_events_since_tsa st + 1\<rparr>
         in if ao_tsa_batch_size opts \<le> al_events_since_tsa st then
              (case stamp digest of
                 Err e \<Rightarrow> (Err e, st)
               | Ok proof \<Rightarrow> (Ok (Some proof), st\<lparr>al_last_tsa := Some proof, al_events_since_tsa := 0\<rparr>))
            else (Ok None, st)))"

definition write_record :: "audit_ext \<Rightarrow> audit_record \<Rightarrow> unit audit_op" where
  "write_record A record =
     bind_op (lift_result (ok_or (ax_record_json A record) ParseError)) (\<lambda>line.
     bind_op audit_io (\<lambda>out st.
       case out of
         IoOk \<Rightarrow> (Ok (), set_handle_bytes (handle_bytes st @ line @ [10]) st)
       | IoFail k \<Rightarrow> (Err IoError, set_handle_bytes (handle_bytes st @ take k (line @ [10])) st)))"

text \<open>\<open>append\<close> up to the point where the new hash is the last one.\<close>

definition append_record ::
  "audit_ext \<Rightarrow> audit_options \<Rightarrow> u64 option \<Rightarrow> (string \<Rightarrow> (tsa_proof, error) result) \<Rightarrow> event \<Rightarrow> audit_record audit_op" where
  "append_record A opts now stamp event st =
     bind_op (lift_result (ok_or (ax_event_json A event) ParseError)) (\<lambda>event_json st.
       let timestamp = unix_timestamp now;
           next_hash = event_digest A (al_last_hash st) event_json timestamp;
           record = \<lparr>ar_event = event, ar_timestamp = timestamp, ar_prev_hash = ext_hex (ax_ext A) (al_last_hash st),
             ar_hash = ext_hex (ax_ext A) next_hash, ar_tsa_proof = None\<rparr>
       in bind_op (tsa_step opts stamp (ar_hash record)) (\<lambda>proof.
          let record = record\<lparr>ar_tsa_proof := proof\<rparr>
          in bind_op (write_record A record) (\<lambda>_ st. (Ok record, st\<lparr>al_last_hash := next_hash\<rparr>))) st) st"

text \<open>A failing rename is ignored; when the new file cannot be opened the handle stays where it was.\<close>

definition rotate_file :: "unit audit_op" where
  "rotate_file =
     bind_op audit_io (\<lambda>out.
     bind_op (\<lambda>st.
       case al_path st of
         Some bs \<Rightarrow>
           if out = IoOk
           then (Ok (), st\<lparr>al_path := None, al_rotated := Some bs, al_handle := OnRotated\<rparr>)
           else (Ok (), st)
       | None \<Rightarrow> (Ok (), st)) (\<lambda>_.
     bind_op audit_io (\<lambda>out st.
       if out = IoOk
       then (Ok (), st\<lparr>al_path := Some (bytes_of (al_path st)), al_handle := OnPath\<rparr>)
       else (Err IoError, st))))"

definition flush_and_rotate :: "audit_options \<Rightarrow> unit audit_op" where
  "flush_and_rotate opts st =
     (let st = st\<lparr>al_events_since_flush := al_events_since_flush st + 1\<rparr>;
          st = (if ao_flush_interval opts \<le> al_events_since_flush st then st\<lparr>al_events_since_flush := 0\<rparr> else st)
      in if 0 < ao_max_file_bytes opts
         then bind_op audit_io (\<lambda>out st.
                if out = IoOk \<and> unat (ao_max_file_bytes opts) \<le> length (handle_bytes st)
                then rotate_file st else (Ok (), st)) st
         else (Ok (), st))"

definition audit_append ::
  "audit_ext \<Rightarrow> audit_options \<Rightarrow> u64 option \<Rightarrow> (string \<Rightarrow> (tsa_proof, error) result) \<Rightarrow> event \<Rightarrow> audit_record audit_op" where
  "audit_append A opts now stamp event =
     bind_op (append_record A opts now stamp event) (\<lambda>record.
     bind_op (flush_and_rotate opts) (\<lambda>_. return_op record))"

definition audit_last_hash :: "audit_ext \<Rightarrow> audit_log \<Rightarrow> audit_trail" where
  "audit_last_hash A st = \<lparr>tr_hash = ext_hex (ax_ext A) (al_last_hash st), tr_tsa = al_last_tsa st\<rparr>"

section \<open>Opening\<close>

text \<open>\<open>BufRead::lines\<close>: the file split at line feeds, a carriage return before one dropped, no last empty line.\<close>

fun split_lines :: "bytes \<Rightarrow> bytes \<Rightarrow> bytes list" where
  "split_lines cur [] = (if cur = [] then [] else [cur])"
| "split_lines cur (b # bs) =
     (if b = 10 then (if cur \<noteq> [] \<and> last cur = 13 then butlast cur else cur) # split_lines [] bs
      else split_lines (cur @ [b]) bs)"

text \<open>The UTF-8 check of \<open>lines\<close>.\<close>

definition utf8_cont :: "u8 \<Rightarrow> bool" where
  "utf8_cont b \<longleftrightarrow> 0x80 \<le> b \<and> b \<le> 0xBF"

fun utf8_ok :: "bytes \<Rightarrow> bool" where
  "utf8_ok [] \<longleftrightarrow> True"
| "utf8_ok (a # bs) \<longleftrightarrow>
     (if a < 0x80 then utf8_ok bs
      else case bs of
        b # cs \<Rightarrow>
          if 0xC2 \<le> a \<and> a \<le> 0xDF then utf8_cont b \<and> utf8_ok cs
          else (case cs of
            c # ds \<Rightarrow>
              if 0xE0 \<le> a \<and> a \<le> 0xEF
              then utf8_cont b \<and> (a = 0xE0 \<longrightarrow> 0xA0 \<le> b) \<and> (a = 0xED \<longrightarrow> b \<le> 0x9F) \<and> utf8_cont c \<and> utf8_ok ds
              else (case ds of
                d # es \<Rightarrow> 0xF0 \<le> a \<and> a \<le> 0xF4 \<and> utf8_cont b \<and> (a = 0xF0 \<longrightarrow> 0x90 \<le> b) \<and> (a = 0xF4 \<longrightarrow> b \<le> 0x8F) \<and>
                  utf8_cont c \<and> utf8_cont d \<and> utf8_ok es
              | [] \<Rightarrow> False)
          | [] \<Rightarrow> False)
      | [] \<Rightarrow> False)"

text \<open>A line of white space; one with white space outside ASCII does not parse and is passed over as well.\<close>

definition blank_line :: "bytes \<Rightarrow> bool" where
  "blank_line line \<longleftrightarrow> list_all (\<lambda>b. b = 32 \<or> 9 \<le> b \<and> b \<le> 13) line"

definition hash_of_line :: "audit_ext \<Rightarrow> bytes \<Rightarrow> bytes \<Rightarrow> bytes" where
  "hash_of_line A prev line =
     (case Option.bind (ax_parse_record A line) (\<lambda>record. ax_unhex A (ar_hash record)) of
        Some hash \<Rightarrow> if length hash = 32 then hash else prev
      | None \<Rightarrow> prev)"

fun recover_loop :: "audit_ext \<Rightarrow> bytes \<Rightarrow> bytes list \<Rightarrow> (bytes, error) result" where
  "recover_loop A prev [] = Ok prev"
| "recover_loop A prev (line # lines) =
     (if \<not> utf8_ok line then Err IoError
      else if blank_line line then recover_loop A prev lines
      else recover_loop A (hash_of_line A prev line) lines)"

definition recover_last_hash :: "audit_ext \<Rightarrow> bytes audit_op" where
  "recover_last_hash A st =
     (case al_path st of
        None \<Rightarrow> (Ok zero_hash, st)
      | Some file \<Rightarrow>
          bind_op audit_io (\<lambda>out.
            if out \<noteq> IoOk then fail_op IoError
            else bind_op audit_io (\<lambda>out.
              if out \<noteq> IoOk then fail_op IoError
              else lift_result (recover_loop A zero_hash (split_lines [] file)))) st)"

text \<open>\<open>with_options\<close>, from the two files and the plan of I/O outcomes; the file at the path is created.\<close>

definition audit_open :: "audit_ext \<Rightarrow> bytes option \<Rightarrow> bytes option \<Rightarrow> io_outcome list \<Rightarrow> (audit_log, error) result" where
  "audit_open A path rotated io =
     (case io_next io of (out, io) \<Rightarrow>
        if out \<noteq> IoOk then Err IoError
        else
          (let st = \<lparr>al_path = Some (bytes_of path), al_rotated = rotated, al_io = io, al_handle = OnPath,
                 al_last_hash = zero_hash, al_events_since_flush = 0, al_events_since_tsa = 0, al_last_tsa = None\<rparr>
           in case recover_last_hash A st of
                (Ok last_hash, st) \<Rightarrow> Ok (st\<lparr>al_last_hash := last_hash\<rparr>)
              | (Err e, st) \<Rightarrow> Err e))"

end
