(* ===== verification/Audit_Properties.thy ===== *)
theory Audit_Properties
  imports Audit_Log
begin

text \<open>
  What the audit log guarantees: the records form one hash chain whatever fails, the last hash seals
  every record before it, a log that is opened again goes on where it stopped, and three ways in
  which the chain is broken or a record lost: rotation, a torn line and a silent timestamping service.
\<close>

section \<open>The chain\<close>

definition record_digest :: "audit_ext \<Rightarrow> bytes \<Rightarrow> audit_record \<Rightarrow> bytes option" where
  "record_digest A h r = map_option (\<lambda>j. event_digest A h j (ar_timestamp r)) (ax_event_json A (ar_event r))"

text \<open>What an auditor checks: every record names the hash before it and carries its own.\<close>

fun chain_from :: "audit_ext \<Rightarrow> bytes \<Rightarrow> audit_record list \<Rightarrow> bytes option" where
  "chain_from A h [] = Some h"
| "chain_from A h (r # rs) =
     (case record_digest A h r of
        None \<Rightarrow> None
      | Some d \<Rightarrow>
          if ar_prev_hash r = ext_hex (ax_ext A) h \<and> ar_hash r = ext_hex (ax_ext A) d then chain_from A d rs else None)"

lemma chain_from_append: "chain_from A h (rs @ ss) = Option.bind (chain_from A h rs) (\<lambda>k. chain_from A k ss)"
  by (induction rs arbitrary: h) (simp_all split: option.splits)

text \<open>Serialisation as \<open>serde_json\<close> and \<open>hex\<close> document it: one line per record, which parses back.\<close>

definition audit_laws :: "audit_ext \<Rightarrow> bool" where
  "audit_laws A \<longleftrightarrow> blake3_len (ax_ext A) \<and>
     (\<forall>r line. ax_record_json A r = Some line \<longrightarrow>
        ax_parse_record A line = Some r \<and> 10 \<notin> set line \<and> 13 \<notin> set line \<and> utf8_ok line \<and> \<not> blank_line line) \<and>
     (\<forall>bs. ax_unhex A (ext_hex (ax_ext A) bs) = Some bs) \<and>
     (\<forall>e e' j. ax_event_json A e = Some j \<longrightarrow> ax_event_json A e' = Some j \<longrightarrow> e = e')"

lemma audit_lawsD:
  assumes "audit_laws A"
  shows "length (event_digest A h j t) = 32" "ax_unhex A (ext_hex (ax_ext A) bs) = Some bs"
    and "ax_record_json A r = Some line \<Longrightarrow>
      ax_parse_record A line = Some r \<and> 10 \<notin> set line \<and> 13 \<notin> set line \<and> utf8_ok line \<and> \<not> blank_line line"
    and "ax_event_json A e = Some j \<Longrightarrow> ax_event_json A e' = Some j \<Longrightarrow> e = e'"
  using assms by (auto simp: audit_laws_def blake3_len_def event_digest_def)

lemma length_u64_to_le_bytes [simp]: "length (u64_to_le_bytes v) = 8"
  by (simp add: u64_to_le_bytes_def)

lemma u64_to_le_bytes_inj [simp]: "u64_to_le_bytes v = u64_to_le_bytes w \<longleftrightarrow> v = w"
proof
  assume eq: "u64_to_le_bytes v = u64_to_le_bytes w"
  have "bit v n = bit w n" if "n < 64" for n
  proof -
    have "n div 8 < 8" using that by simp
    then have "(ucast (drop_bit (8 * (n div 8)) v) :: u8) = ucast (drop_bit (8 * (n div 8)) w)"
      using eq by (auto simp: u64_to_le_bytes_def)
    then show ?thesis by (metis byte_of_word_bit)
  qed
  then show "v = w" by (auto intro: bit_word_eqI)
qed simp

section \<open>One append\<close>

lemma append_record_effect:
  assumes "append_record A opts now stamp ev st = (q, st')"
  shows "(\<exists>r j line. q = Ok r \<and> ax_event_json A ev = Some j \<and> ax_record_json A r = Some line \<and>
      ar_event r = ev \<and> ar_timestamp r = unix_timestamp now \<and> ar_prev_hash r = ext_hex (ax_ext A) (al_last_hash st) \<and>
      ar_hash r = ext_hex (ax_ext A) (al_last_hash st') \<and>
      al_last_hash st' = event_digest A (al_last_hash st) j (unix_timestamp now) \<and>
      al_handle st' = al_handle st \<and> handle_bytes st' = handle_bytes st @ line @ [10] \<and>
      (al_handle st = OnPath \<longrightarrow> al_path st' = Some (handle_bytes st @ line @ [10]) \<and> al_rotated st' = al_rotated st) \<and>
      al_io st' = snd (io_next (al_io st)) \<and> fst (io_next (al_io st)) = IoOk) \<or>
    (\<not> is_ok q \<and> al_last_hash st' = al_last_hash st \<and> al_handle st' = al_handle st \<and>
      ((al_path st' = al_path st \<and> al_rotated st' = al_rotated st \<and> al_io st' = al_io st) \<or>
       (\<exists>k frag. fst (io_next (al_io st)) = IoFail k \<and> al_io st' = snd (io_next (al_io st)) \<and> length frag \<le> k \<and>
         handle_bytes st' = handle_bytes st @ frag \<and>
         (al_handle st = OnPath \<longrightarrow> al_path st' = Some (handle_bytes st @ frag) \<and> al_rotated st' = al_rotated st))))"
proof (cases "ax_event_json A ev")
  case None
  then show ?thesis using assms by (auto simp: append_record_def bind_op_def lift_result_def)
next
  case (Some j)
  let ?d = "event_digest A (al_last_hash st) j (unix_timestamp now)"
  let ?r = "\<lambda>pf. \<lparr>ar_event = ev, ar_timestamp = unix_timestamp now, ar_prev_hash = ext_hex (ax_ext A) (al_last_hash st),
     ar_hash = ext_hex (ax_ext A) ?d, ar_tsa_proof = pf\<rparr>"
  obtain p st1 where t: "tsa_step opts stamp (ext_hex (ax_ext A) ?d) st = (p, st1)" by fastforce
  have same: "al_last_hash st1 = al_last_hash st" "al_handle st1 = al_handle st" "al_path st1 = al_path st"
    "al_rotated st1 = al_rotated st" "al_io st1 = al_io st" "handle_bytes st1 = handle_bytes st"
    using t by (auto simp: tsa_step_def Let_def handle_bytes_def split: if_splits result.splits log_handle.splits)
  show ?thesis
  proof (cases p)
    case (Err e)
    then have "q = Err e" "st' = st1" using assms Some t by (simp_all add: append_record_def bind_op_def lift_result_def Let_def)
    then show ?thesis using same by simp
  next
    case (Ok pf)
    obtain w st2 where w: "write_record A (?r pf) st1 = (w, st2)" by fastforce
    have run: "is_ok w \<Longrightarrow> q = Ok (?r pf) \<and> st' = st2\<lparr>al_last_hash := ?d\<rparr>" "\<not> is_ok w \<Longrightarrow> \<not> is_ok q \<and> st' = st2"
    proof -
      have "append_record A opts now stamp ev st =
        bind_op (write_record A (?r pf)) (\<lambda>_ st. (Ok (?r pf), st\<lparr>al_last_hash := ?d\<rparr>)) st1"
        by (simp add: append_record_def bind_op_def [of "lift_result _"] bind_op_def [of "tsa_step _ _ _"] lift_result_def Let_def Some t Ok)
      then have "bind_op (write_record A (?r pf)) (\<lambda>_ st. (Ok (?r pf), st\<lparr>al_last_hash := ?d\<rparr>)) st1 = (q, st')" using assms by simp
      then have e: "(case w of Ok x \<Rightarrow> (Ok (?r pf), st2\<lparr>al_last_hash := ?d\<rparr>) | Err e \<Rightarrow> (Err e, st2)) = (q, st')"
        by (simp only: bind_op_def w prod.case)
      show "q = Ok (?r pf) \<and> st' = st2\<lparr>al_last_hash := ?d\<rparr>" if "is_ok w" using e that by (cases w) simp_all
      show "\<not> is_ok q \<and> st' = st2" if "\<not> is_ok w" using e that by (cases w) auto
    qed
    show ?thesis
    proof (cases "ax_record_json A (?r pf)")
      case None
      then have "w = Err ParseError" "st2 = st1" using w by (simp_all add: write_record_def bind_op_def lift_result_def)
      then show ?thesis using run same by simp
    next
      case (Some line)
      obtain out io where o: "io_next (al_io st) = (out, io)" by fastforce
      have wr: "w = (if out = IoOk then Ok () else Err IoError)"
        "st2 = set_handle_bytes (handle_bytes st @ (case out of IoOk \<Rightarrow> line @ [10] | IoFail k \<Rightarrow> take k (line @ [10]))) (st1\<lparr>al_io := io\<rparr>)"
        using w Some o same
        by (auto simp: write_record_def bind_op_def lift_result_def audit_io_def handle_bytes_def split: io_outcome.splits log_handle.splits)
      show ?thesis
      proof (cases out)
        case IoOk
        then show ?thesis
          using run wr same o Some \<open>ax_event_json A ev = Some j\<close>
          by (intro disjI1 exI [of _ "?r pf"] exI [of _ j] exI [of _ line])
            (auto simp: set_handle_bytes_def handle_bytes_def bytes_of_def split: log_handle.splits)
      next
        case (IoFail k)
        then show ?thesis
          using run wr same o
          by (intro disjI2 conjI exI [of _ k] exI [of _ "take k (line @ [10])"])
            (auto simp: set_handle_bytes_def handle_bytes_def bytes_of_def split: log_handle.splits)
      qed
    qed
  qed
qed

lemma set_io_next: "set (snd (io_next xs)) \<subseteq> set xs"
  by (cases xs) auto

lemma flush_keeps:
  assumes "flush_and_rotate opts st = (u, st')"
  shows "al_last_hash st' = al_last_hash st"
    and "ao_max_file_bytes opts = 0 \<or> length (handle_bytes st) < unat (ao_max_file_bytes opts) \<Longrightarrow>
      u = Ok () \<and> al_path st' = al_path st \<and> al_rotated st' = al_rotated st \<and> al_handle st' = al_handle st \<and>
      set (al_io st') \<subseteq> set (al_io st)"
proof -
  show "al_last_hash st' = al_last_hash st"
    using assms
    by (auto simp: flush_and_rotate_def rotate_file_def Let_def bind_op_def audit_io_def split: if_splits option.splits prod.splits)
  show "u = Ok () \<and> al_path st' = al_path st \<and> al_rotated st' = al_rotated st \<and> al_handle st' = al_handle st \<and>
      set (al_io st') \<subseteq> set (al_io st)"
    if "ao_max_file_bytes opts = 0 \<or> length (handle_bytes st) < unat (ao_max_file_bytes opts)"
  proof -
    have "u = Ok () \<and> al_path st' = al_path st \<and> al_rotated st' = al_rotated st \<and> al_handle st' = al_handle st \<and>
      (al_io st' = al_io st \<or> al_io st' = snd (io_next (al_io st)))"
    proof (cases "al_handle st")
      case OnPath
      then show ?thesis using assms that
        by (auto simp: flush_and_rotate_def Let_def bind_op_def audit_io_def handle_bytes_def split: if_splits prod.splits)
    next
      case OnRotated
      then show ?thesis using assms that
        by (auto simp: flush_and_rotate_def Let_def bind_op_def audit_io_def handle_bytes_def split: if_splits prod.splits)
    qed
    then show ?thesis using set_io_next [of "al_io st"] by auto
  qed
qed

section \<open>Histories\<close>

fun recorded :: "(audit_record, error) result \<Rightarrow> audit_record list" where
  "recorded (Ok r) = [r]"
| "recorded (Err e) = []"

text \<open>A run of appends with the records that were written; the rotation after a record may fail.\<close>

inductive audit_run :: "audit_ext \<Rightarrow> audit_options \<Rightarrow> audit_record list \<Rightarrow> audit_log \<Rightarrow> audit_log \<Rightarrow> bool" for A opts where
  au_nil: "audit_run A opts [] st st"
| au_step: "append_record A opts now stamp ev st = (q, st1) \<Longrightarrow> audit_append A opts now stamp ev st = (r, st2) \<Longrightarrow>
    audit_run A opts recs st2 st3 \<Longrightarrow> audit_run A opts (recorded q @ recs) st st3"

lemma append_split:
  assumes "append_record A opts now stamp ev st = (q, st1)" "audit_append A opts now stamp ev st = (r, st2)"
  shows "\<not> is_ok q \<Longrightarrow> st2 = st1 \<and> \<not> is_ok r" "q = Ok x \<Longrightarrow> \<exists>u. flush_and_rotate opts st1 = (u, st2) \<and> (r = Ok x \<or> \<not> is_ok r)"
proof -
  show "st2 = st1 \<and> \<not> is_ok r" if "\<not> is_ok q"
    using assms that by (cases q) (auto simp: audit_append_def bind_op_def)
  show "\<exists>u. flush_and_rotate opts st1 = (u, st2) \<and> (r = Ok x \<or> \<not> is_ok r)" if "q = Ok x"
    using assms that by (auto simp: audit_append_def bind_op_def return_op_def split: prod.splits result.splits)
qed

lemma recorded_chain:
  assumes "append_record A opts now stamp ev st = (q, st')"
  shows "chain_from A (al_last_hash st) (recorded q) = Some (al_last_hash st')"
  using append_record_effect [OF assms]
proof (elim disjE exE conjE)
  fix r j line
  assume "q = Ok r" "ax_event_json A ev = Some j" "ar_event r = ev" "ar_timestamp r = unix_timestamp now"
    "ar_prev_hash r = ext_hex (ax_ext A) (al_last_hash st)" "ar_hash r = ext_hex (ax_ext A) (al_last_hash st')"
    "al_last_hash st' = event_digest A (al_last_hash st) j (unix_timestamp now)"
  then show ?thesis by (simp add: record_digest_def)
qed (cases q; simp)+

text \<open>C24: The records written form one unbroken hash chain: over any run of appends, with the timestamping
  service, the disk, the rotation and the serialisation failing at will, every record names the hash
  of the record written before it and the last hash of the log is that of the last record written.\<close>

theorem audit_chain_unbroken:
  assumes "audit_run A opts recs st st'"
  shows "chain_from A (al_last_hash st) recs = Some (al_last_hash st')"
  using assms
proof induction
  case (au_step now stamp ev st q st1 r st2 recs st3)
  have "al_last_hash st2 = al_last_hash st1"
  proof (cases q)
    case (Ok x)
    then show ?thesis using append_split(2) [OF au_step(1,2)] flush_keeps(1) by blast
  next
    case (Err e)
    then show ?thesis using append_split(1) [OF au_step(1,2)] by simp
  qed
  then show ?case using recorded_chain [OF au_step(1)] au_step.IH by (simp add: chain_from_append)
qed simp

section \<open>Tampering\<close>

text \<open>The byte strings an auditor hashes.\<close>

fun chain_inputs :: "audit_ext \<Rightarrow> bytes \<Rightarrow> audit_record list \<Rightarrow> bytes set" where
  "chain_inputs A h [] = {}"
| "chain_inputs A h (r # rs) =
     (case ax_event_json A (ar_event r) of
        None \<Rightarrow> {}
      | Some j \<Rightarrow> insert (h @ j @ u64_to_le_bytes (ar_timestamp r)) (chain_inputs A (event_digest A h j (ar_timestamp r)) rs))"

lemma chain_inputs_append:
  "chain_from A h rs = Some k \<Longrightarrow> chain_inputs A h (rs @ ss) = chain_inputs A h rs \<union> chain_inputs A k ss"
proof (induction rs arbitrary: h)
  case (Cons r rs)
  then obtain j where j: "ax_event_json A (ar_event r) = Some j"
    "chain_from A (event_digest A h j (ar_timestamp r)) rs = Some k"
    by (auto simp: record_digest_def split: option.splits if_splits)
  then show ?case using Cons.IH [OF j(2)] by simp
qed simp

text \<open>Everything in a record but the timestamping proof, which the hash does not cover.\<close>

definition sealed :: "audit_record \<Rightarrow> audit_record" where
  "sealed r = r\<lparr>ar_tsa_proof := None\<rparr>"

lemma chain_snocD:
  assumes "chain_from A h (rs @ [r]) = Some k"
  obtains g j where "chain_from A h rs = Some g" "ax_event_json A (ar_event r) = Some j"
    "k = ext_blake3 (ax_ext A) (g @ j @ u64_to_le_bytes (ar_timestamp r))"
    "g @ j @ u64_to_le_bytes (ar_timestamp r) \<in> chain_inputs A h (rs @ [r])"
    "ar_prev_hash r = ext_hex (ax_ext A) g" "ar_hash r = ext_hex (ax_ext A) k"
proof -
  obtain g where g: "chain_from A h rs = Some g" "chain_from A g [r] = Some k"
    using assms by (auto simp: chain_from_append bind_eq_Some_conv)
  then obtain j where "ax_event_json A (ar_event r) = Some j" "k = event_digest A g j (ar_timestamp r)"
    "ar_prev_hash r = ext_hex (ax_ext A) g" "ar_hash r = ext_hex (ax_ext A) k"
    by (auto simp: record_digest_def split: option.splits if_splits)
  then show ?thesis using that [of g j] g(1) chain_inputs_append [OF g(1), of "[r]"] by (simp add: event_digest_def)
qed

text \<open>C25: The last hash seals the whole log: two chains from the same start that end in the same hash are the same
  records in the same order (apart from timestamping proofs), provided the hash does not collide on
  what was hashed and never yields the start value; so changing, dropping, adding or reordering a
  record changes the last hash.\<close>

theorem audit_tamper_evident:
  assumes "audit_laws A" "length h = 32" "chain_from A h rs = Some k" "chain_from A h rs' = Some k"
    and "inj_on (ext_blake3 (ax_ext A)) (chain_inputs A h rs \<union> chain_inputs A h rs')"
    and "h \<notin> ext_blake3 (ax_ext A) ` (chain_inputs A h rs \<union> chain_inputs A h rs')"
  shows "map sealed rs = map sealed rs'"
  using assms(3-6)
proof (induction rs arbitrary: rs' k rule: rev_induct)
  case Nil
  show ?case
  proof (cases rs' rule: rev_cases)
    case (snoc ss s)
    from chain_snocD [OF Nil(2) [unfolded snoc]] obtain m where
      "k = ext_blake3 (ax_ext A) m" "m \<in> chain_inputs A h rs'" unfolding snoc by metis
    then show ?thesis using Nil(1,4) by auto
  qed simp
next
  case (snoc r rs)
  from snoc(2) obtain g j where r: "chain_from A h rs = Some g" "ax_event_json A (ar_event r) = Some j"
    "k = ext_blake3 (ax_ext A) (g @ j @ u64_to_le_bytes (ar_timestamp r))"
    "g @ j @ u64_to_le_bytes (ar_timestamp r) \<in> chain_inputs A h (rs @ [r])"
    "ar_prev_hash r = ext_hex (ax_ext A) g" "ar_hash r = ext_hex (ax_ext A) k" by (rule chain_snocD)
  show ?case
  proof (cases rs' rule: rev_cases)
    case Nil
    then show ?thesis using snoc(3,5) r(3,4) by auto
  next
    case (snoc ss s)
    note s' = \<open>rs' = ss @ [s]\<close>
    from \<open>chain_from A h rs' = Some k\<close>[unfolded s'] obtain g' j' where
      s: "chain_from A h ss = Some g'" "ax_event_json A (ar_event s) = Some j'"
      "k = ext_blake3 (ax_ext A) (g' @ j' @ u64_to_le_bytes (ar_timestamp s))"
      "g' @ j' @ u64_to_le_bytes (ar_timestamp s) \<in> chain_inputs A h (ss @ [s])"
      "ar_prev_hash s = ext_hex (ax_ext A) g'" "ar_hash s = ext_hex (ax_ext A) k" by (rule chain_snocD)
    have eq: "g @ j @ u64_to_le_bytes (ar_timestamp r) = g' @ j' @ u64_to_le_bytes (ar_timestamp s)"
      using inj_onD [OF snoc.prems(3)] r(3,4) s(3,4) s' by auto
    have len: "length x = 32" if "chain_from A h xs = Some x" for xs x
    proof (cases xs rule: rev_cases)
      case Nil
      then show ?thesis using that assms(2) by simp
    next
      case (snoc ys y)
      from chain_snocD [OF that [unfolded snoc]] obtain m where "x = ext_blake3 (ax_ext A) m" by metis
      then show ?thesis using assms(1) by (simp add: audit_laws_def blake3_len_def)
    qed
    have parts: "g = g'" "j = j'" "ar_timestamp r = ar_timestamp s"
      using eq len [OF r(1)] len [OF s(1)] by auto
    have "chain_inputs A h rs \<subseteq> chain_inputs A h (rs @ [r])" "chain_inputs A h ss \<subseteq> chain_inputs A h rs'"
      using chain_inputs_append [OF r(1)] chain_inputs_append [OF s(1)] s' by auto
    then have "map sealed rs = map sealed ss"
      using snoc.IH [OF r(1) s(1) [folded parts(1)]] snoc.prems(3,4) by (auto intro: inj_on_subset)
    moreover have "ar_event r = ar_event s" using audit_lawsD(4) [OF assms(1) r(2)] s(2) parts(2) by simp
    then have "sealed r = sealed s" using r(5,6) s(5,6) parts by (simp add: sealed_def)
    ultimately show ?thesis using s' by simp
  qed
qed

section \<open>Opening a log again\<close>

definition line_of :: "audit_ext \<Rightarrow> audit_record \<Rightarrow> bytes" where
  "line_of A r = (case ax_record_json A r of Some line \<Rightarrow> line | None \<Rightarrow> [])"

definition file_of :: "audit_ext \<Rightarrow> audit_record list \<Rightarrow> bytes" where
  "file_of A recs = concat (map (\<lambda>r. line_of A r @ [10]) recs)"

lemma file_of_simps [simp]: "file_of A [] = []" "file_of A (r # recs) = line_of A r @ 10 # file_of A recs"
  "file_of A (recs @ recs') = file_of A recs @ file_of A recs'"
  by (simp_all add: file_of_def)

text \<open>The file holds exactly the records \<open>recs\<close>, chained from the start, and the log is at their end.\<close>

definition synced :: "audit_ext \<Rightarrow> audit_record list \<Rightarrow> audit_log \<Rightarrow> bool" where
  "synced A recs st \<longleftrightarrow> al_handle st = OnPath \<and> al_path st = Some (file_of A recs) \<and>
     list_all (\<lambda>r. ax_record_json A r \<noteq> None) recs \<and> chain_from A zero_hash recs = Some (al_last_hash st)"

lemma split_lines_line:
  "10 \<notin> set line \<Longrightarrow> 13 \<notin> set (cur @ line) \<Longrightarrow> split_lines cur (line @ 10 # rest) = (cur @ line) # split_lines [] rest"
proof (induction line arbitrary: cur)
  case Nil
  then have "cur \<noteq> [] \<Longrightarrow> last cur \<noteq> 13" by (metis append_Nil2 last_in_set)
  then show ?case by auto
qed simp

lemma recover_records:
  assumes "audit_laws A" "list_all (\<lambda>r. ax_record_json A r \<noteq> None) recs" "chain_from A h recs = Some k"
  shows "recover_loop A h (split_lines [] (file_of A recs)) = Ok k"
  using assms(2,3)
proof (induction recs arbitrary: h)
  case (Cons r recs)
  then obtain line where line: "ax_record_json A r = Some line" by auto
  note L = audit_lawsD(3) [OF assms(1) line]
  obtain d where d: "record_digest A h r = Some d" "ar_hash r = ext_hex (ax_ext A) d" "chain_from A d recs = Some k"
    using Cons.prems(2) by (auto split: option.splits if_splits)
  have "length d = 32" using d(1) audit_lawsD(1) [OF assms(1)] by (auto simp: record_digest_def)
  then have "hash_of_line A h line = d" using L d(2) audit_lawsD(2) [OF assms(1)] by (simp add: hash_of_line_def)
  moreover have "split_lines [] (file_of A (r # recs)) = line # split_lines [] (file_of A recs)"
    using split_lines_line [of line "[]" "file_of A recs"] L line by (simp add: line_of_def)
  ultimately show ?case using L Cons.IH [OF _ d(3)] Cons.prems(1) by simp
qed simp

lemma open_synced:
  assumes "audit_laws A" "list_all (\<lambda>r. ax_record_json A r \<noteq> None) recs" "chain_from A zero_hash recs = Some k"
  shows "\<exists>st. audit_open A (Some (file_of A recs)) rotated [] = Ok st \<and> al_last_hash st = k \<and> synced A recs st"
proof -
  note R = recover_records [OF assms]
  show ?thesis
    using assms(2,3) R by (simp add: audit_open_def recover_last_hash_def bind_op_def audit_io_def lift_result_def bytes_of_def synced_def)
qed

lemma append_synced:
  assumes sync: "synced A old st" and io: "set (al_io st) \<subseteq> {IoOk, IoFail 0}"
    and run: "append_record A opts now stamp ev st = (q, st')"
  shows "synced A (old @ recorded q) st' \<and> set (al_io st') \<subseteq> {IoOk, IoFail 0}"
proof -
  have s: "al_handle st = OnPath" "al_path st = Some (file_of A old)" "handle_bytes st = file_of A old"
    "list_all (\<lambda>r. ax_record_json A r \<noteq> None) old" "chain_from A zero_hash old = Some (al_last_hash st)"
    using sync by (auto simp: synced_def handle_bytes_def bytes_of_def)
  have io': "set (snd (io_next (al_io st))) \<subseteq> {IoOk, IoFail 0}" using set_io_next io by blast
  have chain: "chain_from A zero_hash (old @ recorded q) = Some (al_last_hash st')"
    using s(5) recorded_chain [OF run] by (simp add: chain_from_append)
  from append_record_effect [OF run] show ?thesis
  proof (elim disjE exE conjE)
    fix r j line
    assume "q = Ok r" "ax_record_json A r = Some line" "al_handle st' = al_handle st"
      "al_handle st = OnPath \<longrightarrow> al_path st' = Some (handle_bytes st @ line @ [10]) \<and> al_rotated st' = al_rotated st"
      "al_io st' = snd (io_next (al_io st))"
    then show ?thesis using s io' chain by (simp add: synced_def line_of_def)
  next
    fix k frag
    assume a: "\<not> is_ok q" "al_handle st' = al_handle st" "al_io st' = snd (io_next (al_io st))"
      "fst (io_next (al_io st)) = IoFail k" "length frag \<le> k"
      "al_handle st = OnPath \<longrightarrow> al_path st' = Some (handle_bytes st @ frag) \<and> al_rotated st' = al_rotated st"
    have "IoFail k \<in> set (al_io st)" using a(4) by (cases "al_io st") auto
    then have "k = 0" using io by auto
    then show ?thesis using a s io' chain by (cases q) (simp_all add: synced_def)
  next
    assume "\<not> is_ok q" "al_handle st' = al_handle st" "al_path st' = al_path st" "al_io st' = al_io st"
    then show ?thesis using s io chain by (cases q) (simp_all add: synced_def)
  qed
qed

lemma run_synced:
  assumes "audit_run A opts recs st st'" "synced A old st" "set (al_io st) \<subseteq> {IoOk, IoFail 0}"
    and "ao_max_file_bytes opts = 0 \<or> length (file_of A (old @ recs)) < unat (ao_max_file_bytes opts)"
  shows "synced A (old @ recs) st'"
  using assms
proof (induction arbitrary: old)
  case (au_step now stamp ev st q st1 r st2 recs st3)
  have s1: "synced A (old @ recorded q) st1" "set (al_io st1) \<subseteq> {IoOk, IoFail 0}"
    using append_synced [OF au_step.prems(1,2) au_step(1)] by auto
  have "synced A (old @ recorded q) st2 \<and> set (al_io st2) \<subseteq> {IoOk, IoFail 0}"
  proof (cases q)
    case (Err e)
    then show ?thesis using append_split(1) [OF au_step(1,2)] s1 by simp
  next
    case (Ok x)
    then obtain u where u: "flush_and_rotate opts st1 = (u, st2)" using append_split(2) [OF au_step(1,2)] by blast
    have "handle_bytes st1 = file_of A (old @ recorded q)" using s1(1) by (simp add: synced_def handle_bytes_def bytes_of_def)
    then have "ao_max_file_bytes opts = 0 \<or> length (handle_bytes st1) < unat (ao_max_file_bytes opts)" using au_step.prems(3) by auto
    from flush_keeps [OF u] this show ?thesis using s1 by (auto simp: synced_def)
  qed
  then show ?case using au_step.IH [of "old @ recorded q"] au_step.prems(3) by simp
qed simp

text \<open>C26: A log that is opened again goes on where it stopped: as long as the file stays below the rotation limit
  and no write tears a line, after any run on a new log, with failing appends, the file holds exactly
  the records that were written, and opening it recovers the last hash.\<close>

theorem audit_reopen_continues:
  assumes "audit_laws A" "audit_open A None rotated io = Ok st" "set io \<subseteq> {IoOk, IoFail 0}"
    and "audit_run A opts recs st st'"
    and "ao_max_file_bytes opts = 0 \<or> length (file_of A recs) < unat (ao_max_file_bytes opts)"
  shows "al_path st' = Some (file_of A recs) \<and>
    (\<exists>st''. audit_open A (al_path st') (al_rotated st') [] = Ok st'' \<and> al_last_hash st'' = al_last_hash st')"
proof -
  have st: "synced A [] st" "set (al_io st) \<subseteq> {IoOk, IoFail 0}"
  proof -
    have sub: "set (snd (io_next xs)) \<subseteq> {IoOk, IoFail 0}" if "set xs \<subseteq> {IoOk, IoFail 0}" for xs
      using that set_io_next by blast
    show "synced A [] st" "set (al_io st) \<subseteq> {IoOk, IoFail 0}"
      using assms(2) sub [OF assms(3)] sub [OF sub [OF assms(3)]] sub [OF sub [OF sub [OF assms(3)]]]
      by (auto simp: audit_open_def recover_last_hash_def bind_op_def audit_io_def lift_result_def fail_op_def bytes_of_def
          synced_def zero_hash_def Let_def split: prod.splits if_splits) blast
  qed
  have s': "synced A recs st'" using run_synced [OF assms(4) st] assms(5) by simp
  then have "al_path st' = Some (file_of A recs)" "list_all (\<lambda>r. ax_record_json A r \<noteq> None) recs"
    "chain_from A zero_hash recs = Some (al_last_hash st')" by (auto simp: synced_def)
  then show ?thesis using open_synced [OF assms(1), of recs "al_last_hash st'" "al_rotated st'"] by auto
qed

section \<open>Rotation and torn lines\<close>

text \<open>C27: Rotation breaks the chain: when an append has filled the file and rotated it, the records move to the
  file \<open>.1\<close>, over the ones that an earlier rotation had moved there, and a log opened after that
  starts again from the zero hash instead of the hash of the last record.\<close>

theorem audit_rotation_restarts_chain:
  assumes "al_handle st = OnPath" "al_path st = Some old" "al_io st = []"
    and "0 < ao_max_file_bytes opts" "unat (ao_max_file_bytes opts) \<le> length old"
    and "audit_append A opts now stamp ev st = (Ok r, st')"
  shows "\<exists>line. ax_record_json A r = Some line \<and> al_rotated st' = Some (old @ line @ [10]) \<and> al_path st' = Some [] \<and>
    ar_hash r = ext_hex (ax_ext A) (al_last_hash st') \<and>
    (\<exists>st''. audit_open A (al_path st') (al_rotated st') [] = Ok st'' \<and> al_last_hash st'' = zero_hash)"
proof -
  obtain q st1 where q: "append_record A opts now stamp ev st = (q, st1)" by fastforce
  have "q = Ok r" using append_split [OF q assms(6)] by (cases q) auto
  then obtain line where l: "ax_record_json A r = Some line" "ar_hash r = ext_hex (ax_ext A) (al_last_hash st1)"
    "al_handle st1 = OnPath" "al_path st1 = Some (old @ line @ [10])" "al_io st1 = []"
    using append_record_effect [OF q] assms(1-3) by (auto simp: handle_bytes_def bytes_of_def)
  obtain u where u: "flush_and_rotate opts st1 = (u, st')" using append_split(2) [OF q assms(6)] \<open>q = Ok r\<close> by blast
  have "al_rotated st' = Some (old @ line @ [10])" "al_path st' = Some []" "al_last_hash st' = al_last_hash st1"
    using u l assms(4,5)
    by (auto simp: flush_and_rotate_def rotate_file_def Let_def bind_op_def audit_io_def handle_bytes_def bytes_of_def split: if_splits)
  moreover have "\<exists>st''. audit_open A (Some []) rot [] = Ok st'' \<and> al_last_hash st'' = zero_hash" for rot
    by (simp add: audit_open_def recover_last_hash_def bind_op_def audit_io_def lift_result_def bytes_of_def)
  ultimately show ?thesis using l by simp
qed

text \<open>A torn line takes the next record with it: after an append that failed part way, the next record is written on the
  same line, so that both are lost to whoever parses the file, although its append succeeded.\<close>

theorem audit_torn_line_swallows_record:
  assumes "audit_laws A" "synced A recs st" "al_path st1 = Some (file_of A recs @ frag)" "frag \<noteq> []" "10 \<notin> set frag"
    and "al_handle st1 = OnPath" "al_io st1 = []" "ao_max_file_bytes opts = 0"
    and "audit_append A opts now stamp ev st1 = (Ok r, st2)"
    and "\<And>line. ax_record_json A r = Some line \<Longrightarrow> 13 \<notin> set frag \<and> utf8_ok (frag @ line) \<and> ax_parse_record A (frag @ line) = None"
  shows "\<exists>st3. audit_open A (al_path st2) (al_rotated st2) [] = Ok st3 \<and> al_last_hash st3 = al_last_hash st"
proof -
  obtain q st' where q: "append_record A opts now stamp ev st1 = (q, st')" by fastforce
  have "q = Ok r" using append_split [OF q assms(9)] by (cases q) auto
  then obtain line where l: "ax_record_json A r = Some line" "al_handle st' = OnPath"
    "al_path st' = Some (file_of A recs @ frag @ line @ [10])"
    using append_record_effect [OF q] assms(3,6) by (auto simp: handle_bytes_def bytes_of_def)
  obtain u where u: "flush_and_rotate opts st' = (u, st2)" using append_split(2) [OF q assms(9)] \<open>q = Ok r\<close> by blast
  have p2: "al_path st2 = Some (file_of A recs @ frag @ line @ [10])" using flush_keeps(2) [OF u] assms(8) l(3) by simp
  note L = audit_lawsD(3) [OF assms(1) l(1)] and F = assms(10) [OF l(1)]
  have s: "list_all (\<lambda>r. ax_record_json A r \<noteq> None) recs" "chain_from A zero_hash recs = Some (al_last_hash st)"
    using assms(2) by (auto simp: synced_def)
  have split: "split_lines [] (file_of A rs @ frag @ line @ [10]) = split_lines [] (file_of A rs) @ [frag @ line]"
    if "list_all (\<lambda>r. ax_record_json A r \<noteq> None) rs" for rs
    using that
  proof (induction rs)
    case Nil
    then show ?case using split_lines_line [of "frag @ line" "[]" "[]"] L F assms(5) by simp
  next
    case (Cons r rs)
    then obtain x where "ax_record_json A r = Some x" by auto
    then show ?case
      using Cons audit_lawsD(3) [OF assms(1)] split_lines_line [of x "[]" "file_of A rs"] split_lines_line [of x "[]" "file_of A rs @ frag @ line @ [10]"]
      by (simp add: line_of_def)
  qed
  have more: "recover_loop A h (xs @ [frag @ line]) = Ok k" if "recover_loop A h xs = Ok k" for h xs k
    using that
  proof (induction xs arbitrary: h)
    case Nil
    then show ?case using F by (simp add: hash_of_line_def)
  qed (auto split: if_splits)
  have "recover_loop A zero_hash (split_lines [] (file_of A recs @ frag @ line @ [10])) = Ok (al_last_hash st)"
    unfolding split [OF s(1)] by (rule more [OF recover_records [OF assms(1) s]])
  then show ?thesis unfolding p2
    by (simp add: audit_open_def recover_last_hash_def bind_op_def audit_io_def lift_result_def bytes_of_def)
qed

section \<open>A concrete serialisation\<close>

text \<open>
  Heartbeats at time zero are written as so many \<open>A\<close>, then \<open>B\<close>, the previous hash, \<open>C\<close> and the hash;
  no other event serialises.
\<close>

definition sample_event_json :: "event \<Rightarrow> bytes option" where
  "sample_event_json e = (case e of AuditHeartbeat t c s \<Rightarrow> if t = 0 \<and> c = 0 then Some (replicate s 65) else None | _ \<Rightarrow> None)"

definition hex_chars :: string where
  "hex_chars = ''0123456789abcdef''"

definition hex_string :: "string \<Rightarrow> bool" where
  "hex_string s \<longleftrightarrow> list_all (\<lambda>c. c \<in> set hex_chars) s"

definition sample_record_json :: "audit_record \<Rightarrow> bytes option" where
  "sample_record_json r =
     (case ar_event r of
        AuditHeartbeat t c s \<Rightarrow>
          if t = 0 \<and> c = 0 \<and> ar_timestamp r = 0 \<and> ar_tsa_proof r = None \<and> hex_string (ar_prev_hash r) \<and> hex_string (ar_hash r)
          then Some (replicate s 65 @ 66 # as_bytes (ar_prev_hash r) @ 67 # as_bytes (ar_hash r)) else None
      | _ \<Rightarrow> None)"

definition sample_parse_record :: "bytes \<Rightarrow> audit_record option" where
  "sample_parse_record line =
     (let n = length (takeWhile (\<lambda>b. b = 65) line); rest = drop (Suc n) line; p = takeWhile (\<lambda>b. b \<noteq> 67) rest;
          h = drop (Suc (length p)) rest; text_of = map (\<lambda>b. char_of (unat b));
          r = \<lparr>ar_event = AuditHeartbeat 0 0 n, ar_timestamp = 0, ar_prev_hash = text_of p, ar_hash = text_of h, ar_tsa_proof = None\<rparr>
      in if sample_record_json r = Some line then Some r else None)"

definition sample_audit :: audit_ext where
  "sample_audit = \<lparr>ax_ext = sample_ext, ax_event_json = sample_event_json, ax_record_json = sample_record_json,
     ax_parse_record = sample_parse_record, ax_unhex = sample_unhex\<rparr>"

lemma text_of_bytes: "map (\<lambda>b. char_of (unat b)) (as_bytes s) = s"
proof -
  have "unat (of_char c :: u8) = of_char c" for c
  proof -
    have "(of_char c :: u8) = of_nat (of_char c)" by (rule of_nat_of_char [symmetric])
    then show ?thesis by (simp add: unat_of_nat)
  qed
  then show ?thesis by (simp add: as_bytes_def comp_def)
qed

lemma hex_string_bytes:
  assumes "hex_string s" "b \<in> set (as_bytes s)"
  shows "48 \<le> b \<and> b < 128 \<and> b \<noteq> 65 \<and> b \<noteq> 67"
proof -
  have h: "list_all (\<lambda>c. 48 \<le> (of_char c :: u8) \<and> (of_char c :: u8) < 128 \<and> (of_char c :: u8) \<noteq> 65 \<and> (of_char c :: u8) \<noteq> 67) hex_chars"
    by code_simp
  obtain c where c: "c \<in> set s" "b = of_char c" using assms(2) by (auto simp: as_bytes_def)
  have "c \<in> set hex_chars" using assms(1) c(1) by (simp add: hex_string_def list_all_iff)
  then show ?thesis using h c(2) by (simp add: list_all_iff)
qed

lemma utf8_ascii: "(\<And>b. b \<in> set bs \<Longrightarrow> b < 128) \<Longrightarrow> utf8_ok bs"
  by (induction bs) simp_all

lemma hex_string_sample: "hex_string (sample_hex bs)"
proof -
  have "hex_digit n \<in> set hex_chars" if "n < 16" for n
    using that unfolding hex_digit_def hex_chars_def by (intro nth_mem) simp
  moreover have "unat b div 16 < 16" for b :: u8 using unsigned_less [of b, where 'a = nat] by simp
  ultimately show ?thesis by (simp add: hex_string_def sample_hex_def list_all_iff)
qed

lemma sample_line:
  assumes "sample_record_json r = Some line"
  shows "sample_parse_record line = Some r" "b \<in> set line \<Longrightarrow> 48 \<le> b \<and> b < 128" "66 \<in> set line"
proof -
  obtain n where r: "ar_event r = AuditHeartbeat 0 0 n" "ar_timestamp r = 0" "ar_tsa_proof r = None" "hex_string (ar_prev_hash r)"
    "hex_string (ar_hash r)" "line = replicate n 65 @ 66 # as_bytes (ar_prev_hash r) @ 67 # as_bytes (ar_hash r)"
    using assms by (auto simp: sample_record_json_def split: event.splits if_splits)
  have n: "takeWhile (\<lambda>b. b = 65) line = replicate n 65" unfolding r(6) by (subst takeWhile_append2) auto
  have rest: "drop (Suc n) line = as_bytes (ar_prev_hash r) @ 67 # as_bytes (ar_hash r)" unfolding r(6) by simp
  have p: "takeWhile (\<lambda>b. b \<noteq> 67) (as_bytes (ar_prev_hash r) @ 67 # as_bytes (ar_hash r)) = as_bytes (ar_prev_hash r)"
    using hex_string_bytes [OF r(4)] by (subst takeWhile_append2) auto
  have h: "drop (Suc (length (as_bytes (ar_prev_hash r)))) (as_bytes (ar_prev_hash r) @ 67 # as_bytes (ar_hash r)) = as_bytes (ar_hash r)"
    by simp
  have "\<lparr>ar_event = AuditHeartbeat 0 0 n, ar_timestamp = 0, ar_prev_hash = ar_prev_hash r, ar_hash = ar_hash r, ar_tsa_proof = None\<rparr> = r"
    using r(1-3) by (cases r) simp
  then show "sample_parse_record line = Some r"
    using assms unfolding sample_parse_record_def Let_def n length_replicate rest p h text_of_bytes by simp
  show "b \<in> set line \<Longrightarrow> 48 \<le> b \<and> b < 128" unfolding r(6) using hex_string_bytes [OF r(4)] hex_string_bytes [OF r(5)] by auto
  show "66 \<in> set line" by (simp add: r(6))
qed

lemma sample_audit_laws: "audit_laws sample_audit"
  unfolding audit_laws_def
proof (intro conjI allI impI)
  show "blake3_len (ax_ext sample_audit)" by (simp add: sample_audit_def sample_blake3_len)
  show "ax_unhex sample_audit (ext_hex (ax_ext sample_audit) bs) = Some bs" for bs
    using sample_unhex_hex by (simp add: sample_audit_def sample_ext_def)
  show "e = e'" if "ax_event_json sample_audit e = Some j" "ax_event_json sample_audit e' = Some j" for e e' j
    using that by (auto simp: sample_audit_def sample_event_json_def split: event.splits if_splits)
  fix r line assume "ax_record_json sample_audit r = Some line"
  then have json: "sample_record_json r = Some line" by (simp add: sample_audit_def)
  note L = sample_line [OF json]
  show "ax_parse_record sample_audit line = Some r" using L(1) by (simp add: sample_audit_def)
  have no: "c \<notin> set line" if "c < 48" for c using L(2) [of c] that by auto
  show "10 \<notin> set line" "13 \<notin> set line" by (rule no, simp)+
  show "utf8_ok line" using L(2) by (intro utf8_ascii) auto
  show "\<not> blank_line line" using L(3) unfolding blank_line_def list_all_iff by (auto intro!: bexI [of _ "66 :: u8"])
qed

definition sample_options :: audit_options where
  "sample_options = \<lparr>ao_flush_interval = 1, ao_max_file_bytes = 0, ao_tsa_batch_size = 100, ao_tsa_client = False\<rparr>"

definition sample_log :: "io_outcome list \<Rightarrow> audit_log" where
  "sample_log io = \<lparr>al_path = Some [], al_rotated = None, al_io = io, al_handle = OnPath, al_last_hash = zero_hash,
     al_events_since_flush = 0, al_events_since_tsa = 0, al_last_tsa = None\<rparr>"

abbreviation no_stamp :: "string \<Rightarrow> (tsa_proof, error) result" where
  "no_stamp \<equiv> \<lambda>_. Err IoError"

text \<open>The record of a heartbeat after the hash \<open>h\<close>.\<close>

definition beat :: "bytes \<Rightarrow> audit_record" where
  "beat h = \<lparr>ar_event = AuditHeartbeat 0 0 0, ar_timestamp = 0, ar_prev_hash = sample_hex h,
     ar_hash = sample_hex (event_digest sample_audit h [] 0), ar_tsa_proof = None\<rparr>"

lemma beat_json: "ax_event_json sample_audit (AuditHeartbeat 0 0 0) = Some []"
  "\<exists>line. ax_record_json sample_audit (beat h) = Some line"
  by (simp_all add: sample_audit_def sample_event_json_def sample_record_json_def beat_def hex_string_sample)

lemma sample_audit_sel: "ext_hex (ax_ext sample_audit) = sample_hex"
  by (simp add: sample_audit_def sample_ext_def)

lemma beat_append:
  assumes "io_next (al_io st) = (IoOk, io)" "\<not> ao_tsa_client opts"
  shows "\<exists>st'. append_record sample_audit opts (Some 0) stamp (AuditHeartbeat 0 0 0) st = (Ok (beat (al_last_hash st)), st') \<and>
    al_last_hash st' = event_digest sample_audit (al_last_hash st) [] 0"
proof -
  obtain line where line: "ax_record_json sample_audit (beat (al_last_hash st)) = Some line" using beat_json(2) by blast
  then show ?thesis
    using assms
    by (simp add: append_record_def bind_op_def lift_result_def Let_def beat_json(1) unix_timestamp_def tsa_step_def
        write_record_def audit_io_def sample_audit_sel beat_def)
qed

lemma beat_run:
  assumes "\<not> ao_tsa_client opts" "ao_max_file_bytes opts = 0" "io_next (al_io st) = (IoOk, io)"
  shows "\<exists>st'. audit_run sample_audit opts [beat (al_last_hash st)] st st' \<and> al_last_hash st' = event_digest sample_audit (al_last_hash st) [] 0"
proof -
  obtain st1 where q: "append_record sample_audit opts (Some 0) no_stamp (AuditHeartbeat 0 0 0) st = (Ok (beat (al_last_hash st)), st1)"
    "al_last_hash st1 = event_digest sample_audit (al_last_hash st) [] 0" using beat_append [OF assms(3,1)] by blast
  obtain r st2 where r: "audit_append sample_audit opts (Some 0) no_stamp (AuditHeartbeat 0 0 0) st = (r, st2)" by fastforce
  have "al_last_hash st2 = al_last_hash st1" using append_split(2) [OF q(1) r] flush_keeps(1) by blast
  then show ?thesis using au_step [OF q(1) r au_nil] q(2) by (intro exI [of _ st2]) simp
qed

theorem audit_chain_unbroken_witness:
  "chain_from sample_audit zero_hash [beat zero_hash] = Some (event_digest sample_audit zero_hash [] 0)"
proof -
  obtain st' where "audit_run sample_audit sample_options [beat zero_hash] (sample_log [IoOk, IoFail 3]) st'"
    "al_last_hash st' = event_digest sample_audit zero_hash [] 0"
    using beat_run [of sample_options "sample_log [IoOk, IoFail 3]"] by (auto simp: sample_options_def sample_log_def)
  then show ?thesis using audit_chain_unbroken [of sample_audit sample_options "[beat zero_hash]" "sample_log [IoOk, IoFail 3]" st']
    by (simp add: sample_log_def)
qed

theorem audit_tamper_evident_witness:
  "map sealed [beat zero_hash] = map sealed [(beat zero_hash)\<lparr>ar_tsa_proof := Some \<lparr>tp_authority = ''t'', tp_timestamp = 0, tp_token = []\<rparr>\<rparr>]"
proof -
  let ?r = "beat zero_hash" and ?s = "(beat zero_hash)\<lparr>ar_tsa_proof := Some \<lparr>tp_authority = ''t'', tp_timestamp = 0, tp_token = []\<rparr>\<rparr>"
  let ?d = "event_digest sample_audit zero_hash [] 0"
  have r: "chain_from sample_audit zero_hash [?r] = Some ?d" "chain_from sample_audit zero_hash [?s] = Some ?d"
    by (simp_all add: record_digest_def beat_def beat_json(1) sample_audit_sel)
  have m: "chain_inputs sample_audit zero_hash [?r] = {zero_hash @ [] @ u64_to_le_bytes 0}"
    "chain_inputs sample_audit zero_hash [?s] = {zero_hash @ [] @ u64_to_le_bytes 0}"
    by (simp_all add: beat_def beat_json(1))
  have "zero_hash \<noteq> ext_blake3 (ax_ext sample_audit) (zero_hash @ [] @ u64_to_le_bytes 0)" by code_simp
  then have "zero_hash \<notin> ext_blake3 (ax_ext sample_audit) `
      (chain_inputs sample_audit zero_hash [?r] \<union> chain_inputs sample_audit zero_hash [?s])" unfolding m by simp
  moreover have "inj_on (ext_blake3 (ax_ext sample_audit))
      (chain_inputs sample_audit zero_hash [?r] \<union> chain_inputs sample_audit zero_hash [?s])" unfolding m by simp
  moreover have "length zero_hash = 32" by (simp add: zero_hash_def)
  ultimately show ?thesis using audit_tamper_evident [OF sample_audit_laws _ r] by blast
qed

theorem audit_reopen_continues_witness:
  "\<exists>st st'. audit_open sample_audit None None [] = Ok st \<and> audit_run sample_audit sample_options [beat zero_hash] st st' \<and>
     (\<exists>st''. audit_open sample_audit (al_path st') (al_rotated st') [] = Ok st'' \<and> al_last_hash st'' = al_last_hash st')"
proof -
  have o: "audit_open sample_audit None None [] = Ok (sample_log [])"
    by (simp add: audit_open_def recover_last_hash_def bind_op_def audit_io_def lift_result_def bytes_of_def sample_log_def)
  obtain st' where run: "audit_run sample_audit sample_options [beat zero_hash] (sample_log []) st'"
    using beat_run [of sample_options "sample_log []"] by (auto simp: sample_options_def sample_log_def)
  from audit_reopen_continues [OF sample_audit_laws o _ run] o run show ?thesis by (auto simp: sample_options_def)
qed

lemma flush_no_faults: "al_io st = [] \<Longrightarrow> \<exists>st'. flush_and_rotate opts st = (Ok (), st')"
  by (cases "ao_flush_interval opts \<le> al_events_since_flush st + 1"; cases "al_path st")
    (simp_all add: flush_and_rotate_def rotate_file_def bind_op_def audit_io_def Let_def)

theorem audit_rotation_restarts_chain_witness:
  "\<exists>st'. audit_append sample_audit (sample_options\<lparr>ao_max_file_bytes := 1\<rparr>) (Some 0) no_stamp (AuditHeartbeat 0 0 0)
       ((sample_log [])\<lparr>al_path := Some [32]\<rparr>) = (Ok (beat zero_hash), st') \<and> al_path st' = Some []"
proof -
  let ?opts = "sample_options\<lparr>ao_max_file_bytes := 1\<rparr>" and ?st = "(sample_log [])\<lparr>al_path := Some [32]\<rparr>"
  obtain st1 where q: "append_record sample_audit ?opts (Some 0) no_stamp (AuditHeartbeat 0 0 0) ?st = (Ok (beat zero_hash), st1)"
    using beat_append [of ?st "[]" ?opts no_stamp] by (auto simp: sample_options_def sample_log_def)
  have io: "al_io st1 = []" using append_record_effect [OF q] by (auto simp: sample_log_def)
  obtain st' where "flush_and_rotate ?opts st1 = (Ok (), st')" using flush_no_faults [OF io] by blast
  then have "audit_append sample_audit ?opts (Some 0) no_stamp (AuditHeartbeat 0 0 0) ?st = (Ok (beat zero_hash), st')"
    using q by (simp add: audit_append_def bind_op_def return_op_def)
  moreover from audit_rotation_restarts_chain [OF _ _ _ _ _ this, of "[32]"] have "al_path st' = Some []"
    by (auto simp: sample_log_def sample_options_def)
  ultimately show ?thesis by blast
qed

end
