(* ===== verification/Policy_Compiler.thy ===== *)
theory Policy_Compiler
  imports Common_Types Text_Format
begin

text \<open>
  The policy compiler of \<open>crates/scaling/src/compiler.rs\<close>, which turns telemetry and a policy into
  scaling actions, the agent of \<open>agent.rs\<close> that drives it, and the migration hooks of capsules in
  \<open>crates/common\<close>. Nodes are a list with the position of the mesh state; sums of byte counts wrap as
  in a release build. The floating-point percentages are parameters, floats being bit patterns.
\<close>

section \<open>Types\<close>

datatype node_id = NodeId (node_uuid: bytes)

datatype zone_id = Metro (zone_name: string) | Geo (zone_name: string) | Edge (zone_name: string)

datatype telemetry =
    NewCapsule capsule_id policy "node_id option"
  | HeatSpike capsule_id u64 "node_id option"
  | CapacityThreshold node_id u64 u64 u64
  | NodeDegraded node_id string
  | ViewProjection capsule_id string

datatype network_tier = Standard | Premium | EdgeTier

datatype scaling_strategy = MetroSync nat | AsyncWithBatching duration | NoReplication

datatype evacuation_urgency = Immediate | Gradual

datatype scaling_action =
    Replicate capsule_id scaling_strategy "node_id list"
  | Migrate capsule_id string node_id bool
  | Evacuate node_id string evacuation_urgency
  | Rebalance "node_id list" "node_id list"
  | Federate capsule_id zone_id
  | ShardEC capsule_id nat "zone_id list"

record node_info =
  ni_zone :: zone_id
  ni_available_bytes :: u64
  ni_used_bytes :: u64
  ni_network_tier :: network_tier

record mesh_state =
  ms_nodes :: "(node_id \<times> node_info) list"
  ms_local_zone :: zone_id

text \<open>
  Floats: \<open>((used as f64 / total as f64) * 100.0) as f32\<close>, the normalised threshold, the quotient
  \<open>(used as f32 / total as f32) * 100.0\<close>, and the comparisons of \<open>f32\<close>.
\<close>

record float_ops =
  fl_percent64 :: "u64 \<Rightarrow> u64 \<Rightarrow> u32"
  fl_threshold :: "u64 \<Rightarrow> u32"
  fl_percent32 :: "u64 \<Rightarrow> u64 \<Rightarrow> u32"
  fl_ge :: "u32 \<Rightarrow> u32 \<Rightarrow> bool"
  fl_lt :: "u32 \<Rightarrow> u32 \<Rightarrow> bool"

fun zone_to_string :: "zone_id \<Rightarrow> string" where
  "zone_to_string (Metro name) = ''metro:'' @ name"
| "zone_to_string (Geo name) = ''geo:'' @ name"
| "zone_to_string (Edge name) = ''edge:'' @ name"

section \<open>The state of the mesh\<close>

definition mesh_new :: "(node_id \<times> node_info) list \<Rightarrow> zone_id \<Rightarrow> mesh_state" where
  "mesh_new nodes local_zone = \<lparr>ms_nodes = nodes, ms_local_zone = local_zone\<rparr>"

definition mesh_empty :: "zone_id \<Rightarrow> mesh_state" where
  "mesh_empty local_zone = \<lparr>ms_nodes = [], ms_local_zone = local_zone\<rparr>"

definition available_nodes :: "mesh_state \<Rightarrow> node_id list" where
  "available_nodes ms = map fst (ms_nodes ms)"

definition zone_ids :: "mesh_state \<Rightarrow> zone_id list" where
  "zone_ids ms =
     foldl (\<lambda>zones (_, info). if list_ex (\<lambda>zone. zone = ni_zone info) zones then zones else zones @ [ni_zone info])
       [ms_local_zone ms] (ms_nodes ms)"

text \<open>\<open>self.nodes.iter().find(|(id, _)| *id == node_id)\<close>.\<close>

definition node_lookup :: "mesh_state \<Rightarrow> node_id \<Rightarrow> node_info option" where
  "node_lookup ms nid = map_of (ms_nodes ms) nid"

definition satisfies_sovereignty :: "mesh_state \<Rightarrow> node_id \<Rightarrow> sovereignty_level \<Rightarrow> bool" where
  "satisfies_sovereignty ms nid level =
     (case level of
        GlobalSovereignty \<Rightarrow> True
      | ZoneSovereignty \<Rightarrow> (case node_lookup ms nid of Some info \<Rightarrow> ni_zone info = ms_local_zone ms | None \<Rightarrow> False)
      | LocalSovereignty \<Rightarrow> False)"

definition is_metro_zone :: "mesh_state \<Rightarrow> node_id \<Rightarrow> bool" where
  "is_metro_zone ms nid = (case node_lookup ms nid of Some info \<Rightarrow> is_Metro (ni_zone info) | None \<Rightarrow> False)"

definition is_same_geo_region :: "mesh_state \<Rightarrow> node_id \<Rightarrow> bool" where
  "is_same_geo_region ms nid =
     (case node_lookup ms nid of
        None \<Rightarrow> False
      | Some info \<Rightarrow>
          (case (ms_local_zone ms, ni_zone info) of
             (Metro n1, Metro n2) \<Rightarrow> n1 = n2
           | (Geo n1, Geo n2) \<Rightarrow> n1 = n2
           | _ \<Rightarrow> False))"

definition has_capacity :: "mesh_state \<Rightarrow> node_id \<Rightarrow> u64 \<Rightarrow> bool" where
  "has_capacity ms nid required = (case node_lookup ms nid of Some info \<Rightarrow> required \<le> ni_available_bytes info | None \<Rightarrow> False)"

definition node_utilization :: "node_info \<Rightarrow> u64" where
  "node_utilization info =
     (let total = ni_available_bytes info + ni_used_bytes info
      in if total = 0 then 0 else (ni_used_bytes info * 100) div total)"

definition utilization :: "mesh_state \<Rightarrow> node_id \<Rightarrow> u64" where
  "utilization ms nid = (case node_lookup ms nid of Some info \<Rightarrow> node_utilization info | None \<Rightarrow> 100)"

definition find_underutilized_nodes :: "float_ops \<Rightarrow> mesh_state \<Rightarrow> u32 \<Rightarrow> node_id list" where
  "find_underutilized_nodes F ms threshold =
     map fst (filter (\<lambda>(_, info).
       let total = ni_available_bytes info + ni_used_bytes info
       in total \<noteq> 0 \<and> fl_lt F (fl_percent32 F (ni_used_bytes info) total) threshold) (ms_nodes ms))"

definition requires_transformation :: "mesh_state \<Rightarrow> node_id \<Rightarrow> policy \<Rightarrow> bool" where
  "requires_transformation ms destination pol =
     (if sovereignty pol = ZoneSovereignty
      then (case node_lookup ms destination of Some info \<Rightarrow> ni_zone info \<noteq> ms_local_zone ms | None \<Rightarrow> False)
      else False)"

section \<open>Choosing nodes\<close>

definition select_replication_targets :: "policy \<Rightarrow> mesh_state \<Rightarrow> node_id list" where
  "select_replication_targets pol ms =
     (let candidates = filter (\<lambda>nid. satisfies_sovereignty ms nid (sovereignty pol)) (available_nodes ms);
          candidates =
            (if latency_target pol < from_millis 2 then filter (is_metro_zone ms) candidates
             else if latency_target pol < from_millis 100 then filter (is_same_geo_region ms) candidates
             else candidates)
      in take 2 (filter (\<lambda>nid. has_capacity ms nid 1000000) candidates))"

text \<open>\<open>min_by_key\<close>: the first of the elements with the least key.\<close>

fun min_by_key :: "('a \<Rightarrow> 'k :: linorder) \<Rightarrow> 'a list \<Rightarrow> 'a option" where
  "min_by_key f [] = None"
| "min_by_key f (x # xs) = Some (foldl (\<lambda>best y. if f y < f best then y else best) x xs)"

definition select_migration_target :: "policy \<Rightarrow> mesh_state \<Rightarrow> node_id option" where
  "select_migration_target pol ms =
     (let candidates = filter (\<lambda>nid. satisfies_sovereignty ms nid (sovereignty pol)) (available_nodes ms);
          candidates = (if latency_target pol < from_millis 2 then filter (is_metro_zone ms) candidates else candidates)
      in min_by_key (utilization ms) (filter (\<lambda>nid. has_capacity ms nid 10000000) candidates))"

section \<open>Compiling\<close>

definition replication_strategy_of :: "policy \<Rightarrow> scaling_strategy" where
  "replication_strategy_of pol =
     (if rpo pol = 0 then MetroSync 2
      else if rpo pol < from_secs 60 then AsyncWithBatching (rpo pol)
      else NoReplication)"

definition compile_replication_strategy :: "capsule_id \<Rightarrow> policy \<Rightarrow> mesh_state \<Rightarrow> scaling_action list" where
  "compile_replication_strategy cid pol ms =
     (let strategy = replication_strategy_of pol
      in if strategy = NoReplication then []
         else
           (let targets = select_replication_targets pol ms
            in if targets = [] then [] else [Replicate cid strategy targets]))"

definition compile_migration_for_heat :: "capsule_id \<Rightarrow> u64 \<Rightarrow> policy \<Rightarrow> mesh_state \<Rightarrow> scaling_action list" where
  "compile_migration_for_heat cid accesses pol ms =
     (if accesses \<le> 100 then []
      else if latency_target pol \<ge> from_millis 10 then []
      else
        (case select_migration_target pol ms of
           None \<Rightarrow> []
         | Some destination \<Rightarrow>
             [Migrate cid (''heat_spike_'' @ decimal (unat accesses) @ ''_accesses_per_min'') destination
                (requires_transformation ms destination pol)]))"

text \<open>The literals \<open>80.0\<close> and \<open>50.0\<close>.\<close>

definition compile_rebalancing :: "float_ops \<Rightarrow> node_id \<Rightarrow> u32 \<Rightarrow> mesh_state \<Rightarrow> scaling_action list" where
  "compile_rebalancing F nid used_percent ms =
     (if fl_lt F used_percent 0x42A00000 then []
      else
        (let underutilized = find_underutilized_nodes F ms 0x42480000
         in if underutilized = [] then [] else [Rebalance [nid] underutilized]))"

definition str_contains :: "string \<Rightarrow> string \<Rightarrow> bool" where
  "str_contains s pat \<longleftrightarrow> list_ex (\<lambda>i. take (length pat) (drop i s) = pat) [0..<Suc (length s)]"

definition compile_evacuation :: "node_id \<Rightarrow> string \<Rightarrow> scaling_action list" where
  "compile_evacuation nid reason =
     [Evacuate nid reason (if str_contains reason ''disk_failure'' \<or> str_contains reason ''power'' then Immediate else Gradual)]"

definition action_is_valid :: "scaling_action \<Rightarrow> bool" where
  "action_is_valid action =
     (case action of
        Replicate _ _ targets \<Rightarrow> list_all (\<lambda>_. True) targets
      | Migrate _ _ _ _ \<Rightarrow> True
      | Federate _ _ \<Rightarrow> True
      | ShardEC _ _ _ \<Rightarrow> True
      | Evacuate _ _ _ \<Rightarrow> True
      | Rebalance _ _ \<Rightarrow> True)"

definition validate_sovereignty :: "scaling_action list \<Rightarrow> policy \<Rightarrow> scaling_action list" where
  "validate_sovereignty actions pol =
     (if sovereignty pol = GlobalSovereignty then actions else filter action_is_valid actions)"

text \<open>The default policy of the compiler only takes part in a debug message.\<close>

definition compile_scaling_actions :: "float_ops \<Rightarrow> telemetry \<Rightarrow> policy \<Rightarrow> mesh_state \<Rightarrow> scaling_action list" where
  "compile_scaling_actions F event pol ms =
     (let actions =
        (case event of
           NewCapsule cid _ _ \<Rightarrow> compile_replication_strategy cid pol ms
         | HeatSpike cid accesses _ \<Rightarrow> compile_migration_for_heat cid accesses pol ms
         | CapacityThreshold nid used total_bytes threshold \<Rightarrow>
             (let used_percent = (if 0 < total_bytes then fl_percent64 F used total_bytes else 0)
              in if fl_ge F used_percent (fl_threshold F threshold) then compile_rebalancing F nid used_percent ms else [])
         | ViewProjection cid _ \<Rightarrow>
             (if sovereignty pol \<noteq> LocalSovereignty then [Federate cid (ms_local_zone ms)] else []) @
             (if zone_ids ms \<noteq> [] then [ShardEC cid 2 (zone_ids ms)] else [])
         | NodeDegraded nid reason \<Rightarrow> compile_evacuation nid reason)
      in validate_sovereignty actions pol)"

definition compile_scaling :: "float_ops \<Rightarrow> policy \<Rightarrow> telemetry \<Rightarrow> mesh_state \<Rightarrow> scaling_action list" where
  "compile_scaling F pol event ms = compile_scaling_actions F event pol ms"

section \<open>The agent\<close>

text \<open>The policy an event is compiled under.\<close>

definition event_policy :: "telemetry \<Rightarrow> policy" where
  "event_policy event = (case event of NewCapsule _ pol _ \<Rightarrow> pol | _ \<Rightarrow> metro_sync)"

text \<open>A node of the mesh with its peers and their addresses; the network code is not modelled.\<close>

record node_capabilities =
  nc_has_nvram :: bool
  nc_has_gpu :: bool
  nc_network_tier :: network_tier
  nc_available_bytes :: u64

definition default_capabilities :: node_capabilities where
  "default_capabilities = \<lparr>nc_has_nvram = True, nc_has_gpu = False, nc_network_tier = Standard, nc_available_bytes = 1000000000000\<rparr>"

record mesh_node =
  mn_id :: node_id
  mn_zone :: zone_id
  mn_capabilities :: node_capabilities
  mn_peers :: "(node_id, string) hmap"
  mn_listen_addr :: string

definition mesh_node_new :: "node_id \<Rightarrow> zone_id \<Rightarrow> string \<Rightarrow> mesh_node" where
  "mesh_node_new nid zone addr = \<lparr>mn_id = nid, mn_zone = zone, mn_capabilities = default_capabilities, mn_peers = [], mn_listen_addr = addr\<rparr>"

definition register_peer :: "node_id \<Rightarrow> string \<Rightarrow> mesh_node \<Rightarrow> mesh_node" where
  "register_peer peer addr mn = mn\<lparr>mn_peers := hm_insert peer addr (mn_peers mn)\<rparr>"

definition discover_peers :: "mesh_node \<Rightarrow> node_id list" where
  "discover_peers mn = hm_keys (mn_peers mn)"

definition build_mesh_state :: "mesh_node \<Rightarrow> mesh_state" where
  "build_mesh_state mn =
     mesh_new (map (\<lambda>peer. (peer, \<lparr>ni_zone = mn_zone mn, ni_available_bytes = 1000000000, ni_used_bytes = 100000000,
       ni_network_tier = Premium\<rparr>)) (discover_peers mn)) (mn_zone mn)"

text \<open>\<open>handle_telemetry_event\<close>: the actions carried out; carrying one out only writes to the log in this version.\<close>

definition handle_telemetry_event :: "float_ops \<Rightarrow> mesh_node \<Rightarrow> telemetry \<Rightarrow> scaling_action list" where
  "handle_telemetry_event F mn event =
     compile_scaling_actions F event (event_policy event) (build_mesh_state mn)"

section \<open>Migration of capsules\<close>

definition on_migrate :: "capsule \<Rightarrow> node_id \<Rightarrow> zone_id \<Rightarrow> (unit, error) result" where
  "on_migrate cap destination dest_zone =
     (case sovereignty (cap_policy cap) of
        LocalSovereignty \<Rightarrow> Err (Rejected ''Local sovereignty'')
      | ZoneSovereignty \<Rightarrow> Ok ()
      | GlobalSovereignty \<Rightarrow> Ok ())"

definition requires_transform :: "zone_id \<Rightarrow> zone_id \<Rightarrow> bool" where
  "requires_transform source_zone dest_zone \<longleftrightarrow> source_zone \<noteq> dest_zone"

definition apply_transform :: "capsule \<Rightarrow> bytes \<Rightarrow> policy \<Rightarrow> (bytes, error) result" where
  "apply_transform cap data pol = Ok data"

end
