(* ===== verification/Policy_Properties.thy ===== *)
theory Policy_Properties
  imports Policy_Compiler
begin

text \<open>
  What the policy compiler guarantees: where replicas and migrated capsules may go, which node a hot
  capsule goes to, and where sovereignty is not respected.
\<close>

section \<open>Choosing\<close>

text \<open>
  The nodes that may hold a replica, and those a hot capsule may move to, stated over the entry of the
  node: the sovereignty of the policy, the distance its latency target allows, and room.
\<close>

definition allowed :: "policy \<Rightarrow> mesh_state \<Rightarrow> node_info \<Rightarrow> bool" where
  "allowed pol ms info \<longleftrightarrow>
     sovereignty pol = GlobalSovereignty \<or> (sovereignty pol = ZoneSovereignty \<and> ni_zone info = ms_local_zone ms)"

definition in_metro :: "node_info \<Rightarrow> bool" where
  "in_metro info \<longleftrightarrow> (\<exists>name. ni_zone info = Metro name)"

definition replica_node :: "policy \<Rightarrow> mesh_state \<Rightarrow> node_id \<Rightarrow> bool" where
  "replica_node pol ms nid \<longleftrightarrow> (\<exists>info. map_of (ms_nodes ms) nid = Some info \<and> allowed pol ms info \<and>
     (if latency_target pol < from_millis 2 then in_metro info
      else if latency_target pol < from_millis 100 then ni_zone info = ms_local_zone ms \<and> (\<forall>name. ni_zone info \<noteq> Edge name)
      else True) \<and>
     1000000 \<le> ni_available_bytes info)"

definition migration_node :: "policy \<Rightarrow> mesh_state \<Rightarrow> node_id \<Rightarrow> bool" where
  "migration_node pol ms nid \<longleftrightarrow> (\<exists>info. map_of (ms_nodes ms) nid = Some info \<and> allowed pol ms info \<and>
     (latency_target pol < from_millis 2 \<longrightarrow> in_metro info) \<and> 10000000 \<le> ni_available_bytes info)"

lemma allowed_code: "node_lookup ms nid = Some info \<Longrightarrow> satisfies_sovereignty ms nid (sovereignty pol) \<longleftrightarrow> allowed pol ms info"
  by (auto simp: satisfies_sovereignty_def allowed_def split: sovereignty_level.splits)

lemma metro_code: "node_lookup ms nid = Some info \<Longrightarrow> is_metro_zone ms nid \<longleftrightarrow> in_metro info"
  by (auto simp: is_metro_zone_def in_metro_def is_Metro_def)

lemma region_code: "node_lookup ms nid = Some info \<Longrightarrow>
    is_same_geo_region ms nid \<longleftrightarrow> ni_zone info = ms_local_zone ms \<and> (\<forall>name. ni_zone info \<noteq> Edge name)"
  by (auto simp: is_same_geo_region_def split: zone_id.splits)

lemma capacity_code: "has_capacity ms nid n \<longleftrightarrow> (\<exists>info. node_lookup ms nid = Some info \<and> n \<le> ni_available_bytes info)"
  by (simp add: has_capacity_def split: option.splits)

lemma replica_node_code:
  "replica_node pol ms nid \<longleftrightarrow> satisfies_sovereignty ms nid (sovereignty pol) \<and>
     (latency_target pol < from_millis 2 \<longrightarrow> is_metro_zone ms nid) \<and>
     (from_millis 2 \<le> latency_target pol \<and> latency_target pol < from_millis 100 \<longrightarrow> is_same_geo_region ms nid) \<and>
     has_capacity ms nid 1000000"
  by (cases "node_lookup ms nid")
    (auto simp: replica_node_def allowed_code metro_code region_code capacity_code node_lookup_def not_less)

lemma migration_node_code:
  "migration_node pol ms nid \<longleftrightarrow> satisfies_sovereignty ms nid (sovereignty pol) \<and>
     (latency_target pol < from_millis 2 \<longrightarrow> is_metro_zone ms nid) \<and> has_capacity ms nid 10000000"
  by (cases "node_lookup ms nid") (auto simp: migration_node_def allowed_code metro_code capacity_code node_lookup_def)

lemma replication_targets: "select_replication_targets pol ms = take 2 (filter (replica_node pol ms) (available_nodes ms))"
proof -
  have "from_millis 2 \<le> from_millis 100" by (simp add: from_millis_def)
  then show ?thesis
    by (auto simp: select_replication_targets_def Let_def replica_node_code conj_ac intro!: arg_cong [of _ _ "take 2"] filter_cong)
qed

lemma foldl_min:
  "foldl (\<lambda>best y. if f y < f best then y else best) x xs \<in> set (x # xs) \<and>
    (\<forall>y\<in>set (x # xs). f (foldl (\<lambda>best y. if f y < f best then y else best) x xs) \<le> f y)"
  for f :: "'a \<Rightarrow> 'k :: linorder"
proof (induction xs arbitrary: x)
  case (Cons a xs)
  have "f (if f a < f x then a else x) \<le> f x" "f (if f a < f x then a else x) \<le> f a" by auto
  then show ?case using Cons.IH [of "if f a < f x then a else x"] by (auto split: if_splits intro: order_trans)
qed simp

lemma min_by_key_spec:
  "min_by_key f xs = None \<longleftrightarrow> xs = []" "min_by_key f xs = Some m \<Longrightarrow> m \<in> set xs \<and> (\<forall>y\<in>set xs. f m \<le> f y)"
proof -
  show "min_by_key f xs = None \<longleftrightarrow> xs = []" by (cases xs) simp_all
  show "min_by_key f xs = Some m \<Longrightarrow> m \<in> set xs \<and> (\<forall>y\<in>set xs. f m \<le> f y)"
    using foldl_min [of f "hd xs" "tl xs"] by (cases xs) auto
qed

lemma migration_target:
  "select_migration_target pol ms = min_by_key (utilization ms) (filter (migration_node pol ms) (available_nodes ms))"
  by (auto simp: select_migration_target_def Let_def migration_node_code conj_ac intro!: arg_cong [of _ _ "min_by_key _"] filter_cong)

lemma validate_keeps_all: "validate_sovereignty actions pol = actions"
proof -
  have "action_is_valid a" for a by (cases a) (simp_all add: action_is_valid_def list_all_iff)
  then show ?thesis by (simp add: validate_sovereignty_def)
qed

lemma zone_ids_set: "set (zone_ids ms) = insert (ms_local_zone ms) (ni_zone ` snd ` set (ms_nodes ms))"
proof -
  have loop: "set (foldl (\<lambda>zones (_, info). if list_ex (\<lambda>zone. zone = ni_zone info) zones then zones else zones @ [ni_zone info]) zs nodes) =
      set zs \<union> ni_zone ` snd ` set nodes" for zs and nodes :: "(node_id \<times> node_info) list"
  proof (induction nodes arbitrary: zs)
    case (Cons n nodes)
    have "list_ex (\<lambda>zone. zone = ni_zone (snd n)) zs \<longleftrightarrow> ni_zone (snd n) \<in> set zs" by (auto simp: list_ex_iff)
    then show ?case by (cases n) (auto simp: Cons.IH)
  qed simp
  then show ?thesis by (simp add: zone_ids_def)
qed

section \<open>Properties\<close>

text \<open>C28: Copies of a capsule stay where its policy allows: whatever the event, every node that an action compiled
  under a policy replicates or migrates to is a node of the mesh that satisfies the sovereignty of
  that policy, is near enough for its latency target and has room; there are at most two replicas;
  and under local sovereignty no replication, migration or federation is compiled. That is all sovereignty
  restricts: a federation names the local zone only, whereas the metadata of a capsule is sharded over every zone
  of the mesh whatever the policy, and evacuation and rebalancing name nodes without regard to it.\<close>

theorem compiled_targets_allowed:
  "\<forall>a\<in>set (compile_scaling_actions F event pol ms).
     (\<forall>cid strategy targets. a = Replicate cid strategy targets \<longrightarrow>
        targets \<noteq> [] \<and> length targets \<le> 2 \<and> (\<forall>nid\<in>set targets. nid \<in> fst ` set (ms_nodes ms) \<and> replica_node pol ms nid)) \<and>
     (\<forall>cid reason nid transform. a = Migrate cid reason nid transform \<longrightarrow>
        nid \<in> fst ` set (ms_nodes ms) \<and> migration_node pol ms nid) \<and>
     (sovereignty pol = LocalSovereignty \<longrightarrow>
        (\<forall>cid strategy targets reason nid transform zone.
           a \<noteq> Replicate cid strategy targets \<and> a \<noteq> Migrate cid reason nid transform \<and> a \<noteq> Federate cid zone)) \<and>
     (\<forall>cid zone. a = Federate cid zone \<longrightarrow> zone = ms_local_zone ms) \<and>
     (\<forall>cid n zones. a = ShardEC cid n zones \<longrightarrow> set zones = insert (ms_local_zone ms) (ni_zone ` snd ` set (ms_nodes ms)))"
proof -
  have repl: "\<forall>a\<in>set (compile_replication_strategy cid pol ms). \<exists>strategy. a = Replicate cid strategy (select_replication_targets pol ms) \<and>
      select_replication_targets pol ms \<noteq> []" for cid
    by (simp add: compile_replication_strategy_def Let_def)
  have heat: "\<forall>a\<in>set (compile_migration_for_heat cid n pol ms).
      \<exists>reason nid transform. a = Migrate cid reason nid transform \<and> select_migration_target pol ms = Some nid" for cid n
    by (auto simp: compile_migration_for_heat_def split: option.splits)
  have targets: "nid \<in> fst ` set (ms_nodes ms) \<and> replica_node pol ms nid" if "nid \<in> set (select_replication_targets pol ms)" for nid
    using set_take_subset [of 2 "filter (replica_node pol ms) (available_nodes ms)"] that unfolding replication_targets
    by (auto simp: available_nodes_def)
  have len: "length (select_replication_targets pol ms) \<le> 2" by (simp add: replication_targets)
  have dest: "nid \<in> fst ` set (ms_nodes ms) \<and> migration_node pol ms nid" if "select_migration_target pol ms = Some nid" for nid
    using min_by_key_spec(2) [OF that [unfolded migration_target]] by (auto simp: available_nodes_def)
  have "select_replication_targets pol ms = []" "select_migration_target pol ms = None" if "sovereignty pol = LocalSovereignty"
    using that by (simp_all add: replication_targets replica_node_def migration_target migration_node_def allowed_def)
  note none = this
  show ?thesis
  proof (cases event)
    case (NewCapsule cid p node)
    then show ?thesis using repl [of cid] targets len none(1)
      by (fastforce simp: compile_scaling_actions_def validate_keeps_all)
  next
    case (HeatSpike cid n node)
    then show ?thesis using heat [of cid n] dest none(2)
      by (fastforce simp: compile_scaling_actions_def validate_keeps_all)
  next
    case (ViewProjection cid view)
    then show ?thesis unfolding zone_ids_set [symmetric] by (auto simp: compile_scaling_actions_def validate_keeps_all)
  qed (auto simp: compile_scaling_actions_def validate_keeps_all compile_evacuation_def compile_rebalancing_def Let_def)
qed

text \<open>A hot capsule moves to the least used node: when more than a hundred accesses a minute meet a latency target
  below ten milliseconds and some node may take the capsule, it migrates to one such node, and no
  other such node is used less.\<close>

theorem heat_migrates_to_least_used:
  assumes "100 < accesses" "latency_target pol < from_millis 10" "other \<in> fst ` set (ms_nodes ms)" "migration_node pol ms other"
  shows "\<exists>reason nid transform. compile_scaling_actions F (HeatSpike cid accesses node) pol ms = [Migrate cid reason nid transform] \<and>
    migration_node pol ms nid \<and> utilization ms nid \<le> utilization ms other"
proof -
  have mem: "other \<in> set (filter (migration_node pol ms) (available_nodes ms))" using assms(3,4) by (simp add: available_nodes_def)
  then obtain nid where nid: "select_migration_target pol ms = Some nid"
    using min_by_key_spec(1) unfolding migration_target by (metis empty_iff empty_set not_None_eq)
  note M = min_by_key_spec(2) [OF nid [unfolded migration_target]]
  have "compile_scaling_actions F (HeatSpike cid accesses node) pol ms =
    [Migrate cid (''heat_spike_'' @ decimal (unat accesses) @ ''_accesses_per_min'') nid (requires_transformation ms nid pol)]"
    using assms(1,2) nid
    by (simp add: compile_scaling_actions_def validate_keeps_all compile_migration_for_heat_def not_le)
  then show ?thesis using M mem by auto
qed

text \<open>Sharding metadata ignores sovereignty: for a view of a capsule whose policy keeps it on the local node, the
  compiler emits an action that shards the metadata over every zone of the mesh, and the final
  validation lets it pass.\<close>

theorem sharding_ignores_sovereignty:
  assumes "sovereignty pol = LocalSovereignty" "zone \<in> insert (ms_local_zone ms) (ni_zone ` snd ` set (ms_nodes ms))"
  shows "\<exists>zones. compile_scaling_actions F (ViewProjection cid view) pol ms = [ShardEC cid 2 zones] \<and> zone \<in> set zones"
proof -
  note zones = zone_ids_set [of ms]
  then have "zone_ids ms \<noteq> []" by auto
  then show ?thesis using assms zones by (simp add: compile_scaling_actions_def validate_keeps_all)
qed

text \<open>C29: The agent migrates capsules that must not move: what it compiles for a heat spike does not depend on the
  capsule's policy but on the preset of synchronous replication, so with any registered peer
  the compiled action migrates the capsule (which this version only logs), although the capsule's own hook refuses under local sovereignty.\<close>

theorem agent_ignores_capsule_policy:
  assumes "100 < accesses" "peer \<in> set (discover_peers mn)" "sovereignty (cap_policy cap) = LocalSovereignty"
  shows "\<exists>reason nid transform. nid \<in> set (discover_peers mn) \<and>
    handle_telemetry_event F mn (HeatSpike (cap_id cap) accesses node) = [Migrate (cap_id cap) reason nid transform] \<and>
    \<not> is_ok (on_migrate cap nid (mn_zone mn))"
proof -
  let ?ms = "build_mesh_state mn"
  let ?info = "\<lparr>ni_zone = mn_zone mn, ni_available_bytes = 1000000000, ni_used_bytes = 100000000, ni_network_tier = Premium\<rparr>"
  have look: "node_lookup ?ms p = (if p \<in> set (discover_peers mn) then Some ?info else None)" for p
  proof -
    have "map_of (map (\<lambda>peer. (peer, i)) ps) p = (if p \<in> set ps then Some i else None)" for ps and i :: node_info
      by (induction ps) auto
    then show ?thesis by (simp add: node_lookup_def build_mesh_state_def mesh_new_def)
  qed
  have zone: "ms_local_zone ?ms = mn_zone mn" and nodes: "fst ` set (ms_nodes ?ms) = set (discover_peers mn)"
    by (auto simp: build_mesh_state_def mesh_new_def image_image)
  have can: "migration_node metro_sync ?ms peer"
    using assms(2) by (simp add: migration_node_def look [unfolded node_lookup_def] zone allowed_def in_metro_def metro_sync_def from_millis_def)
  have "latency_target metro_sync < from_millis 10" by (simp add: metro_sync_def from_millis_def)
  from min_by_key_spec(1) [of "utilization ?ms" "filter (migration_node metro_sync ?ms) (available_nodes ?ms)"] can assms(2) nodes
  obtain nid where nid: "select_migration_target metro_sync ?ms = Some nid"
    unfolding migration_target by (cases "min_by_key (utilization ?ms) (filter (migration_node metro_sync ?ms) (available_nodes ?ms))")
      (auto simp: filter_empty_conv available_nodes_def)
  have "nid \<in> set (discover_peers mn)" using min_by_key_spec(2) [OF nid [unfolded migration_target]] nodes by (auto simp: available_nodes_def)
  then show ?thesis
    using nid assms(1,3) \<open>latency_target metro_sync < from_millis 10\<close>
    by (simp add: handle_telemetry_event_def event_policy_def compile_scaling_actions_def validate_keeps_all
        compile_migration_for_heat_def not_le on_migrate_def)
qed

section \<open>Witnesses\<close>

definition sample_mesh :: mesh_state where
  "sample_mesh = mesh_new
     [(NodeId [1], \<lparr>ni_zone = Metro ''a'', ni_available_bytes = 20000000, ni_used_bytes = 20000000, ni_network_tier = Standard\<rparr>),
      (NodeId [2], \<lparr>ni_zone = Metro ''a'', ni_available_bytes = 30000000, ni_used_bytes = 10000000, ni_network_tier = Premium\<rparr>),
      (NodeId [3], \<lparr>ni_zone = Geo ''b'', ni_available_bytes = 40000000, ni_used_bytes = 0, ni_network_tier = EdgeTier\<rparr>)]
     (Metro ''a'')"

definition sample_floats :: float_ops where
  "sample_floats = \<lparr>fl_percent64 = \<lambda>u t. 0, fl_threshold = \<lambda>x. 0, fl_percent32 = \<lambda>u t. 0, fl_ge = \<lambda>a b. b \<le> a, fl_lt = \<lambda>a b. a < b\<rparr>"

lemma sample_lookups:
  "node_lookup sample_mesh (NodeId [1]) = Some \<lparr>ni_zone = Metro ''a'', ni_available_bytes = 20000000, ni_used_bytes = 20000000, ni_network_tier = Standard\<rparr>"
  "node_lookup sample_mesh (NodeId [2]) = Some \<lparr>ni_zone = Metro ''a'', ni_available_bytes = 30000000, ni_used_bytes = 10000000, ni_network_tier = Premium\<rparr>"
  "node_lookup sample_mesh (NodeId [3]) = Some \<lparr>ni_zone = Geo ''b'', ni_available_bytes = 40000000, ni_used_bytes = 0, ni_network_tier = EdgeTier\<rparr>"
  "ms_local_zone sample_mesh = Metro ''a''" "map fst (ms_nodes sample_mesh) = [NodeId [1], NodeId [2], NodeId [3]]"
  by (simp_all add: node_lookup_def sample_mesh_def mesh_new_def)

lemma sample_replicas:
  "replica_node metro_sync sample_mesh (NodeId [1])" "replica_node metro_sync sample_mesh (NodeId [2])"
  "\<not> replica_node metro_sync sample_mesh (NodeId [3])"
  by (simp_all add: replica_node_def allowed_def in_metro_def sample_lookups [unfolded node_lookup_def] metro_sync_def from_millis_def)

lemma metro_rpo: "rpo metro_sync = 0"
  by (simp add: metro_sync_def)

theorem compiled_targets_allowed_witness:
  "compile_scaling_actions sample_floats (NewCapsule (CapsuleId [7]) metro_sync None) metro_sync sample_mesh =
     [Replicate (CapsuleId [7]) (MetroSync 2) [NodeId [1], NodeId [2]]] \<and>
   replica_node metro_sync sample_mesh (NodeId [1])"
proof -
  have "compile_scaling_actions sample_floats (NewCapsule (CapsuleId [7]) metro_sync None) metro_sync sample_mesh =
     [Replicate (CapsuleId [7]) (MetroSync 2) [NodeId [1], NodeId [2]]]"
    unfolding compile_scaling_actions_def
    using sample_replicas
    by (simp add: validate_keeps_all compile_replication_strategy_def replication_strategy_of_def replication_targets available_nodes_def
        sample_lookups metro_rpo Let_def)
  then show ?thesis
    using compiled_targets_allowed [of sample_floats "NewCapsule (CapsuleId [7]) metro_sync None" metro_sync sample_mesh] by simp
qed

theorem heat_migrates_to_least_used_witness:
  "\<exists>reason nid transform. compile_scaling_actions sample_floats (HeatSpike (CapsuleId [7]) 500 None) metro_sync sample_mesh =
     [Migrate (CapsuleId [7]) reason nid transform] \<and> utilization sample_mesh nid \<le> 25"
proof -
  have "migration_node metro_sync sample_mesh (NodeId [2])" "utilization sample_mesh (NodeId [2]) = 25"
    by (simp_all add: migration_node_def allowed_def in_metro_def sample_lookups [unfolded node_lookup_def] sample_lookups metro_sync_def
        from_millis_def utilization_def node_utilization_def)
  moreover have "NodeId [2] \<in> fst ` set (ms_nodes sample_mesh)" by (simp add: sample_mesh_def mesh_new_def)
  moreover have "latency_target metro_sync < from_millis 10" by (simp add: metro_sync_def from_millis_def)
  ultimately show ?thesis
    using heat_migrates_to_least_used [of 500 metro_sync "NodeId [2]" sample_mesh sample_floats "CapsuleId [7]" None] by auto
qed

theorem sharding_ignores_sovereignty_witness:
  "\<exists>zones. compile_scaling_actions sample_floats (ViewProjection (CapsuleId [7]) ''nfs'') default_policy sample_mesh = [ShardEC (CapsuleId [7]) 2 zones] \<and>
     Geo ''b'' \<in> set zones"
  by (rule sharding_ignores_sovereignty) (simp_all add: default_policy_def sample_mesh_def mesh_new_def)

definition sample_node :: mesh_node where
  "sample_node = register_peer (NodeId [1]) ''10.0.0.1:9000'' (mesh_node_new (NodeId [0]) (Metro ''a'') ''10.0.0.0:9000'')"

definition local_capsule :: capsule where
  "local_capsule = \<lparr>cap_id = CapsuleId [7], cap_size = 0, cap_segments = [], cap_created_at = 0, cap_policy = default_policy, cap_deduped_bytes = 0\<rparr>"

theorem agent_ignores_capsule_policy_witness:
  "\<exists>reason transform. handle_telemetry_event sample_floats sample_node (HeatSpike (CapsuleId [7]) 500 None) =
       [Migrate (CapsuleId [7]) reason (NodeId [1]) transform] \<and> \<not> is_ok (on_migrate local_capsule (NodeId [1]) (Metro ''a''))"
proof -
  have n: "discover_peers sample_node = [NodeId [1]]" "mn_zone sample_node = Metro ''a''"
    by (simp_all add: sample_node_def register_peer_def mesh_node_new_def discover_peers_def)
  then show ?thesis
    using agent_ignores_capsule_policy [of 500 "NodeId [1]" sample_node local_capsule sample_floats None]
    by (simp add: local_capsule_def default_policy_def)
qed

end
