(* ===== verification/Bloom_Filter.thy ===== *)
theory Bloom_Filter
  imports Common_Types "HOL-Library.Multiset"
begin

text \<open>
  The counting Bloom filter of \<open>crates/common/src/security/bloom_dedup.rs\<close> and the content lookups of
  the registry that it guards with the feature \<open>advanced-security\<close>. The sizes come from
  floating-point formulas, which are parameters: the number of buckets from the expected number of
  items and the false positive rate, and the number of hashes from the buckets and the items.
\<close>

section \<open>The filter\<close>

record bloom =
  bl_counters :: "u8 list"
  bl_bucket_count :: nat
  bl_num_hashes :: nat
  bl_items :: u64

record bloom_sizing =
  bs_buckets :: "nat \<Rightarrow> u64 \<Rightarrow> nat"
  bs_hashes :: "nat \<Rightarrow> nat \<Rightarrow> nat"

text \<open>\<open>usize\<close> and \<open>u32\<close> casts of floats saturate.\<close>

definition bloom_new :: "bloom_sizing \<Rightarrow> nat \<Rightarrow> u64 \<Rightarrow> bloom" where
  "bloom_new S expected_items rate =
     (let expected = max expected_items 1;
          bucket_count = max (min (bs_buckets S expected rate) (2 ^ 64 - 1)) 1024;
          num_hashes = min (max (bs_hashes S bucket_count expected) 1) (2 ^ 32 - 1)
      in \<lparr>bl_counters = replicate bucket_count 0, bl_bucket_count = bucket_count, bl_num_hashes = num_hashes, bl_items = 0\<rparr>)"

definition hash_pair :: "ext \<Rightarrow> bytes \<Rightarrow> u64 \<times> u64" where
  "hash_pair E data = (let out = ext_blake3_xof E 16 data in (from_le_bytes (take 8 out), from_le_bytes (drop 8 out)))"

definition bloom_indexes :: "ext \<Rightarrow> nat \<Rightarrow> nat \<Rightarrow> bytes \<Rightarrow> nat list" where
  "bloom_indexes E bucket_count num_hashes data =
     (case hash_pair E data of (h1, h2) \<Rightarrow>
        map (\<lambda>i. unat ((h1 + of_nat i * h2) mod of_nat bucket_count)) [0..<num_hashes])"

definition indexes_of :: "ext \<Rightarrow> bloom \<Rightarrow> bytes \<Rightarrow> nat list" where
  "indexes_of E b = bloom_indexes E (bl_bucket_count b) (bl_num_hashes b)"

definition counter_up :: "u8 \<Rightarrow> u8" where
  "counter_up v = (if v = 255 then 255 else v + 1)"

definition counter_down :: "u8 \<Rightarrow> u8" where
  "counter_down v = (if v = 0 then 0 else v - 1)"

text \<open>The loop over the indexes; an index out of range ends it with an error.\<close>

fun adjust :: "(u8 \<Rightarrow> u8) \<Rightarrow> nat list \<Rightarrow> (u8 list, unit, error) op" where
  "adjust f [] counters = (Ok (), counters)"
| "adjust f (i # is) counters =
     (if i < length counters then adjust f is (counters[i := f (counters ! i)])
      else (Err (Rejected ''index out of range''), counters))"

definition bloom_insert :: "ext \<Rightarrow> bytes \<Rightarrow> (bloom, unit, error) op" where
  "bloom_insert E data b =
     (case adjust counter_up (indexes_of E b data) (bl_counters b) of
        (Ok _, counters) \<Rightarrow> (Ok (), b\<lparr>bl_counters := counters, bl_items := bl_items b + 1\<rparr>)
      | (Err e, counters) \<Rightarrow> (Err e, b\<lparr>bl_counters := counters\<rparr>))"

definition bloom_remove :: "ext \<Rightarrow> bytes \<Rightarrow> (bloom, unit, error) op" where
  "bloom_remove E data b =
     (case adjust counter_down (indexes_of E b data) (bl_counters b) of
        (Ok _, counters) \<Rightarrow>
          (Ok (), b\<lparr>bl_counters := counters, bl_items := (if bl_items b = 0 then 0 else bl_items b - 1)\<rparr>)
      | (Err e, counters) \<Rightarrow> (Err e, b\<lparr>bl_counters := counters\<rparr>))"

fun contains_loop :: "nat list \<Rightarrow> u8 list \<Rightarrow> bool" where
  "contains_loop [] counters = True"
| "contains_loop (i # is) counters =
     (if i < length counters then (if counters ! i = 0 then False else contains_loop is counters) else True)"

definition bloom_might_contain :: "ext \<Rightarrow> bytes \<Rightarrow> bloom \<Rightarrow> bool" where
  "bloom_might_contain E data b = contains_loop (indexes_of E b data) (bl_counters b)"

section \<open>The wrapper\<close>

text \<open>\<open>expect\<close> panics on an error.\<close>

definition expect_op :: "('s, unit, error) op \<Rightarrow> ('s, unit, error) op" where
  "expect_op m s = (case m s of (Ok u, s) \<Rightarrow> (Ok u, s) | (Err _, s) \<Rightarrow> (Err Panic, s))"

definition might_contain :: "ext \<Rightarrow> content_hash \<Rightarrow> bloom \<Rightarrow> bool" where
  "might_contain E h b = bloom_might_contain E (as_bytes (as_str h)) b"

definition record_insertion :: "ext \<Rightarrow> content_hash \<Rightarrow> (bloom, unit, error) op" where
  "record_insertion E h = expect_op (bloom_insert E (as_bytes (as_str h)))"

definition record_removal :: "ext \<Rightarrow> content_hash \<Rightarrow> (bloom, unit, error) op" where
  "record_removal E h = expect_op (bloom_remove E (as_bytes (as_str h)))"

definition with_existing :: "ext \<Rightarrow> bloom_sizing \<Rightarrow> nat \<Rightarrow> u64 \<Rightarrow> content_hash list \<Rightarrow> (unit, error) result \<times> bloom" where
  "with_existing E S expected_items rate hashes =
     for_each (record_insertion E) hashes (bloom_new S expected_items rate)"

record bloom_stats =
  bt_buckets :: nat
  bt_num_hashes :: nat
  bt_insertions :: u64

definition filter_stats :: "bloom \<Rightarrow> bloom_stats" where
  "filter_stats b = \<lparr>bt_buckets = bl_bucket_count b, bt_num_hashes = bl_num_hashes b, bt_insertions = bl_items b\<rparr>"

section \<open>Guarded content lookups\<close>

text \<open>The content store of the registry with its filter; saving the registry changes neither.\<close>

record guarded_store =
  gs_content :: "(content_hash, segment_id) hmap"
  gs_filter :: "bloom option"

definition on_filter :: "(bloom, unit, error) op \<Rightarrow> (guarded_store, unit, error) op" where
  "on_filter m g =
     (case gs_filter g of
        None \<Rightarrow> (Ok (), g)
      | Some b \<Rightarrow> (case m b of (r, b) \<Rightarrow> (r, g\<lparr>gs_filter := Some b\<rparr>)))"

definition configure_bloom :: "ext \<Rightarrow> bloom_sizing \<Rightarrow> nat \<Rightarrow> u64 \<Rightarrow> (content_hash, segment_id) hmap \<Rightarrow> (unit, error) result \<times> guarded_store" where
  "configure_bloom E S capacity rate content =
     (case with_existing E S capacity rate (hm_keys content) of
        (r, b) \<Rightarrow> (r, \<lparr>gs_content = content, gs_filter = Some b\<rparr>))"

definition guarded_lookup :: "ext \<Rightarrow> content_hash \<Rightarrow> guarded_store \<Rightarrow> segment_id option" where
  "guarded_lookup E h g =
     (if (case gs_filter g of Some b \<Rightarrow> \<not> might_contain E h b | None \<Rightarrow> False) then None
      else hm_get (gs_content g) h)"

definition guarded_register :: "ext \<Rightarrow> content_hash \<Rightarrow> segment_id \<Rightarrow> (guarded_store, unit, error) op" where
  "guarded_register E h sid g = on_filter (record_insertion E h) (g\<lparr>gs_content := hm_insert h sid (gs_content g)\<rparr>)"

definition guarded_deregister :: "ext \<Rightarrow> content_hash \<Rightarrow> segment_id \<Rightarrow> (guarded_store, bool, error) op" where
  "guarded_deregister E h sid g =
     (if hm_get (gs_content g) h = Some sid
      then bind_op (on_filter (record_removal E h)) (\<lambda>_. return_op True) (g\<lparr>gs_content := hm_remove h (gs_content g)\<rparr>)
      else (Ok False, g))"

section \<open>What the counters count\<close>

text \<open>The number of times the hashes in \<open>M\<close> address a counter.\<close>

definition weight :: "ext \<Rightarrow> nat \<Rightarrow> nat \<Rightarrow> content_hash multiset \<Rightarrow> nat \<Rightarrow> nat" where
  "weight E n k M i = (\<Sum>h\<in>#M. count_list (bloom_indexes E n k (as_bytes (as_str h))) i)"

definition bloom_inv :: "ext \<Rightarrow> content_hash multiset \<Rightarrow> bloom \<Rightarrow> bool" where
  "bloom_inv E M b \<longleftrightarrow> 0 < bl_bucket_count b \<and> bl_bucket_count b < 2 ^ 64 \<and> length (bl_counters b) = bl_bucket_count b \<and>
     (\<forall>i < bl_bucket_count b. unat (bl_counters b ! i) = weight E (bl_bucket_count b) (bl_num_hashes b) M i)"

lemma bloom_index_bound:
  assumes "0 < n" "n < 2 ^ 64" "i \<in> set (bloom_indexes E n k data)"
  shows "i < n"
proof -
  obtain h1 h2 where h: "hash_pair E data = (h1, h2)" by fastforce
  have n: "unat (of_nat n :: u64) = n" using assms(2) by (simp add: unat_of_nat)
  obtain j where "i = unat ((h1 + of_nat j * h2) mod (of_nat n :: u64))"
    using assms(3) h by (auto simp: bloom_indexes_def)
  then have "i = unat (h1 + of_nat j * h2) mod n" by (simp add: unat_mod n)
  then show ?thesis using assms(1) by simp
qed

lemma counter_up_value: "unat (counter_up v) = min 255 (unat v + 1)"
proof (cases "v = 255")
  case False
  then have "unat v \<noteq> unat (255 :: u8)" by (metis unsigned_word_eqI)
  then have "unat v \<noteq> 255" by simp
  moreover have "unat v < 256" using unsigned_less [of v, where 'a = nat] by simp
  moreover have "(255 :: u8) = - 1" by code_simp
  then have "v \<noteq> - 1" using False by metis
  ultimately show ?thesis using False by (simp add: counter_up_def unat_plus_one)
qed (simp add: counter_up_def)

lemma counter_down_value: "unat (counter_down v) = unat v - 1"
  by (auto simp: counter_down_def unat_minus_word_one)

lemma adjust_up:
  "(\<And>i. i \<in> set is \<Longrightarrow> i < length cs) \<Longrightarrow> \<exists>cs'. adjust counter_up is cs = (Ok (), cs') \<and> length cs' = length cs \<and>
    (\<forall>i < length cs. unat (cs' ! i) = min 255 (unat (cs ! i) + count_list is i))"
proof (induction "is" arbitrary: cs)
  case Nil
  have "unat (v :: u8) \<le> 255" for v using unsigned_less [of v, where 'a = nat] by simp
  then show ?case by (simp add: min_absorb2)
next
  case (Cons j js)
  let ?c = "cs[j := counter_up (cs ! j)]"
  have "\<And>i. i \<in> set js \<Longrightarrow> i < length ?c" using Cons.prems by simp
  then obtain cs' where cs': "adjust counter_up js ?c = (Ok (), cs')" "length cs' = length ?c"
    "\<forall>i < length ?c. unat (cs' ! i) = min 255 (unat (?c ! i) + count_list js i)" using Cons.IH by blast
  have "unat (cs' ! i) = min 255 (unat (cs ! i) + count_list (j # js) i)" if "i < length cs" for i
    using cs'(3) that by (cases "i = j") (simp_all add: counter_up_value)
  then show ?case using cs'(1,2) Cons.prems by simp
qed

lemma adjust_down:
  "(\<And>i. i \<in> set is \<Longrightarrow> i < length cs) \<Longrightarrow> \<exists>cs'. adjust counter_down is cs = (Ok (), cs') \<and> length cs' = length cs \<and>
    (\<forall>i < length cs. unat (cs' ! i) = unat (cs ! i) - count_list is i)"
proof (induction "is" arbitrary: cs)
  case (Cons j js)
  let ?c = "cs[j := counter_down (cs ! j)]"
  have "\<And>i. i \<in> set js \<Longrightarrow> i < length ?c" using Cons.prems by simp
  then obtain cs' where cs': "adjust counter_down js ?c = (Ok (), cs')" "length cs' = length ?c"
    "\<forall>i < length ?c. unat (cs' ! i) = unat (?c ! i) - count_list js i" using Cons.IH by blast
  have "unat (cs' ! i) = unat (cs ! i) - count_list (j # js) i" if "i < length cs" for i
    using cs'(3) that by (cases "i = j") (simp_all add: counter_down_value)
  then show ?case using cs'(1,2) Cons.prems by simp
qed simp

end
