(* ===== verification/Bloom_Properties.thy ===== *)
theory Bloom_Properties
  imports Bloom_Filter
begin

text \<open>
  What the counting filter guarantees: as long as no counter overflows, lookups guarded by the filter
  are the plain ones; a counter that has been saturated makes the filter deny what is there.
\<close>

section \<open>Single operations\<close>

lemma weight_add: "weight E n k (add_mset h M) i = count_list (bloom_indexes E n k (as_bytes (as_str h))) i + weight E n k M i"
  by (simp add: weight_def)

lemma weight_empty [simp]: "weight E n k {#} i = 0"
  by (simp add: weight_def)

lemma bloom_new_inv: "bloom_inv E {#} (bloom_new S n r)"
  by (simp add: bloom_inv_def bloom_new_def Let_def max_def min_def)

lemma indexes_bound: "bloom_inv E M b \<Longrightarrow> i \<in> set (indexes_of E b data) \<Longrightarrow> i < length (bl_counters b)"
  using bloom_index_bound by (auto simp: bloom_inv_def indexes_of_def)

lemma insertion_effect:
  assumes inv: "bloom_inv E M b"
  shows "\<exists>b'. record_insertion E h b = (Ok (), b') \<and> bl_bucket_count b' = bl_bucket_count b \<and> bl_num_hashes b' = bl_num_hashes b \<and>
    ((\<forall>i < bl_bucket_count b. weight E (bl_bucket_count b) (bl_num_hashes b) (add_mset h M) i \<le> 255) \<longrightarrow> bloom_inv E (add_mset h M) b')"
proof -
  let ?data = "as_bytes (as_str h)"
  obtain cs where cs: "adjust counter_up (indexes_of E b ?data) (bl_counters b) = (Ok (), cs)" "length cs = length (bl_counters b)"
    "\<forall>i < length (bl_counters b). unat (cs ! i) = min 255 (unat (bl_counters b ! i) + count_list (indexes_of E b ?data) i)"
    using adjust_up indexes_bound [OF inv] by blast
  then show ?thesis
    using inv by (auto simp: record_insertion_def expect_op_def bloom_insert_def bloom_inv_def weight_add indexes_of_def add.commute)
qed

lemma removal_effect:
  assumes inv: "bloom_inv E M b" and mem: "h \<in># M"
  shows "\<exists>b'. record_removal E h b = (Ok (), b') \<and> bl_bucket_count b' = bl_bucket_count b \<and> bl_num_hashes b' = bl_num_hashes b \<and>
    bloom_inv E (M - {#h#}) b'"
proof -
  let ?data = "as_bytes (as_str h)"
  obtain cs where cs: "adjust counter_down (indexes_of E b ?data) (bl_counters b) = (Ok (), cs)" "length cs = length (bl_counters b)"
    "\<forall>i < length (bl_counters b). unat (cs ! i) = unat (bl_counters b ! i) - count_list (indexes_of E b ?data) i"
    using adjust_down indexes_bound [OF inv] by blast
  have M: "M = add_mset h (M - {#h#})" using mem by simp
  have "weight E n k M i - count_list (bloom_indexes E n k ?data) i = weight E n k (M - {#h#}) i" for n k i
    by (subst M, subst weight_add) simp
  then show ?thesis
    using inv cs by (simp add: record_removal_def expect_op_def bloom_remove_def bloom_inv_def indexes_of_def)
qed

lemma contains_loop_nonzero:
  "(\<And>i. i \<in> set is \<Longrightarrow> i < length cs \<and> cs ! i \<noteq> 0) \<Longrightarrow> contains_loop is cs"
  by (induction "is") simp_all

lemma contained_is_found:
  assumes inv: "bloom_inv E M b" and mem: "h \<in># M"
  shows "might_contain E h b"
proof -
  let ?ix = "indexes_of E b (as_bytes (as_str h))"
  have "i < length (bl_counters b) \<and> bl_counters b ! i \<noteq> 0" if i: "i \<in> set ?ix" for i
  proof -
    have b: "i < length (bl_counters b)" by (rule indexes_bound [OF inv i])
    have "0 < count_list ?ix i" using i by (metis count_list_0_iff gr0I)
    moreover have "weight E n k M j = count_list (bloom_indexes E n k (as_bytes (as_str h))) j + weight E n k (M - {#h#}) j" for n k j
      using mem weight_add [of E n k h "M - {#h#}" j] by simp
    ultimately have "0 < unat (bl_counters b ! i)" using inv b by (simp add: bloom_inv_def indexes_of_def)
    then show ?thesis using b by (auto simp: unat_gt_0)
  qed
  then show ?thesis by (simp add: might_contain_def bloom_might_contain_def contains_loop_nonzero)
qed

section \<open>Histories of the guarded store\<close>

text \<open>
  The registrations that were not undone, with multiplicity, and calls on the store; the filter is
  never asked to count above 255.
\<close>

definition room_for :: "ext \<Rightarrow> bloom \<Rightarrow> content_hash multiset \<Rightarrow> bool" where
  "room_for E b M \<longleftrightarrow> (\<forall>i < bl_bucket_count b. weight E (bl_bucket_count b) (bl_num_hashes b) M i \<le> 255)"

inductive guarded_run :: "ext \<Rightarrow> content_hash multiset \<Rightarrow> guarded_store \<Rightarrow> content_hash multiset \<Rightarrow> guarded_store \<Rightarrow> bool" for E where
  gr_refl: "guarded_run E M g M g"
| gr_register: "gs_filter g = Some b \<Longrightarrow> room_for E b (add_mset h M) \<Longrightarrow> guarded_register E h sid g = (r, g') \<Longrightarrow>
    guarded_run E (add_mset h M) g' M'' g'' \<Longrightarrow> guarded_run E M g M'' g''"
| gr_deregister: "guarded_deregister E h sid g = (q, g') \<Longrightarrow>
    guarded_run E (if q = Ok True then M - {#h#} else M) g' M'' g'' \<Longrightarrow> guarded_run E M g M'' g''"

definition guarded_inv :: "ext \<Rightarrow> content_hash multiset \<Rightarrow> guarded_store \<Rightarrow> bool" where
  "guarded_inv E M g \<longleftrightarrow> (\<exists>b. gs_filter g = Some b \<and> bloom_inv E M b) \<and> hm_ok (gs_content g) \<and>
     (\<forall>h. hm_get (gs_content g) h \<noteq> None \<longrightarrow> h \<in># M)"

lemma register_effect:
  assumes inv: "guarded_inv E M g" and room: "gs_filter g = Some b" "room_for E b (add_mset h M)"
  shows "\<exists>g'. guarded_register E h sid g = (Ok (), g') \<and> guarded_inv E (add_mset h M) g' \<and> gs_content g' = hm_insert h sid (gs_content g)"
proof -
  have g: "bloom_inv E M b" "hm_ok (gs_content g)" "\<And>k. hm_get (gs_content g) k \<noteq> None \<Longrightarrow> k \<in># M"
    using inv room(1) by (auto simp: guarded_inv_def)
  obtain b' where "record_insertion E h b = (Ok (), b')" "bloom_inv E (add_mset h M) b'"
    using insertion_effect [OF g(1), of h] room(2) by (auto simp: room_for_def)
  then show ?thesis using room(1) g(2,3) by (auto simp: guarded_register_def on_filter_def guarded_inv_def hm_get_insert)
qed

lemma deregister_effect:
  assumes inv: "guarded_inv E M g"
  shows "\<exists>g'. guarded_deregister E h sid g = (Ok (hm_get (gs_content g) h = Some sid), g') \<and>
    guarded_inv E (if hm_get (gs_content g) h = Some sid then M - {#h#} else M) g' \<and>
    gs_content g' = (if hm_get (gs_content g) h = Some sid then hm_remove h (gs_content g) else gs_content g)"
proof (cases "hm_get (gs_content g) h = Some sid")
  case True
  obtain b where g: "gs_filter g = Some b" "bloom_inv E M b" "hm_ok (gs_content g)" "\<And>k. hm_get (gs_content g) k \<noteq> None \<Longrightarrow> k \<in># M"
    using inv by (auto simp: guarded_inv_def)
  obtain b' where "record_removal E h b = (Ok (), b')" "bloom_inv E (M - {#h#}) b'"
    using removal_effect [OF g(2), of h] g(4) [of h] True by auto
  then show ?thesis using True g
    by (auto simp: guarded_deregister_def on_filter_def bind_op_def return_op_def guarded_inv_def hm_get_remove in_diff_count split: if_splits)
qed (use inv in \<open>simp add: guarded_deregister_def\<close>)

lemma guarded_run_inv: "guarded_run E M g M' g' \<Longrightarrow> guarded_inv E M g \<Longrightarrow> guarded_inv E M' g'"
proof (induction rule: guarded_run.induct)
  case (gr_register g b h M sid r g' M'' g'')
  then show ?case using register_effect [OF gr_register.prems gr_register(1,2), of sid] by simp
next
  case (gr_deregister h sid g q g' M M'' g'')
  then show ?case using deregister_effect [OF gr_deregister.prems, of h sid] by (auto split: if_splits)
qed simp

text \<open>A store whose filter was made from its hashes, as when the registry is opened, is a good start.\<close>

lemma weight_mono: "M \<subseteq># N \<Longrightarrow> weight E n k M i \<le> weight E n k N i"
  by (auto simp: weight_def elim!: subset_mset.le_iff_add [THEN iffD1, elim_format])

lemma record_all:
  "bloom_inv E M b \<Longrightarrow> room_for E b (M + mset hs) \<Longrightarrow>
    \<exists>b'. for_each (record_insertion E) hs b = (Ok (), b') \<and> bloom_inv E (M + mset hs) b'"
proof (induction hs arbitrary: M b)
  case (Cons h hs)
  have "add_mset h M \<subseteq># M + mset (h # hs)" by simp
  then have "weight E n k (add_mset h M) i \<le> weight E n k (M + mset (h # hs)) i" for n k i by (rule weight_mono)
  then have "\<forall>i < bl_bucket_count b. weight E (bl_bucket_count b) (bl_num_hashes b) (add_mset h M) i \<le> 255"
    using Cons.prems(2) by (meson order_trans room_for_def)
  then obtain b1 where b1: "record_insertion E h b = (Ok (), b1)" "bl_bucket_count b1 = bl_bucket_count b"
    "bl_num_hashes b1 = bl_num_hashes b" "bloom_inv E (add_mset h M) b1"
    using insertion_effect [OF Cons.prems(1), of h] by blast
  have "room_for E b1 (add_mset h M + mset hs)" using Cons.prems(2) b1(2,3) by (simp add: room_for_def)
  from Cons.IH [OF b1(4) this] show ?case using b1(1) by simp
qed simp

lemma configure_bloom_inv:
  assumes "hm_ok content" "room_for E (bloom_new S capacity rate) (mset (hm_keys content))"
  shows "\<exists>g. configure_bloom E S capacity rate content = (Ok (), g) \<and> guarded_inv E (mset (hm_keys content)) g \<and> gs_content g = content"
proof -
  obtain b where b: "with_existing E S capacity rate (hm_keys content) = (Ok (), b)" "bloom_inv E (mset (hm_keys content)) b"
    using record_all [OF bloom_new_inv, of E S capacity rate "hm_keys content"] assms(2) by (auto simp: with_existing_def)
  have "h \<in> set (hm_keys content)" if "hm_get content h \<noteq> None" for h
    using that by (metis list.set_map map_of_eq_None_iff)
  then show ?thesis using b assms(1) by (auto simp: configure_bloom_def guarded_inv_def)
qed

text \<open>C30: The filter only saves work: after any history of registrations and removals in which no counter has to
  count above 255, starting from an empty store or one whose hashes were all recorded, a lookup
  guarded by the filter gives what the content store holds.\<close>

theorem bloom_lookup_transparent:
  assumes "guarded_inv E M g" "guarded_run E M g M' g'"
  shows "guarded_lookup E h g' = hm_get (gs_content g') h"
proof -
  obtain b where b: "gs_filter g' = Some b" "bloom_inv E M' b" "hm_get (gs_content g') h \<noteq> None \<longrightarrow> h \<in># M'"
    using guarded_run_inv [OF assms(2,1)] by (auto simp: guarded_inv_def)
  then show ?thesis using contained_is_found [OF b(2), of h] by (auto simp: guarded_lookup_def)
qed

section \<open>Saturation\<close>

fun times :: "nat \<Rightarrow> (bloom, unit, error) op \<Rightarrow> bloom \<Rightarrow> bloom" where
  "times 0 m b = b"
| "times (Suc n) m b = times n m (snd (m b))"

lemma insert_counters:
  assumes "0 < bl_bucket_count b" "bl_bucket_count b < 2 ^ 64" "length (bl_counters b) = bl_bucket_count b"
  shows "\<exists>b'. record_insertion E h b = (Ok (), b') \<and> bl_bucket_count b' = bl_bucket_count b \<and> bl_num_hashes b' = bl_num_hashes b \<and>
      length (bl_counters b') = bl_bucket_count b \<and>
      (\<forall>i < bl_bucket_count b. unat (bl_counters b' ! i) =
        min 255 (unat (bl_counters b ! i) + count_list (indexes_of E b (as_bytes (as_str h))) i))"
    and "\<exists>b'. record_removal E h b = (Ok (), b') \<and> bl_bucket_count b' = bl_bucket_count b \<and> bl_num_hashes b' = bl_num_hashes b \<and>
      length (bl_counters b') = bl_bucket_count b \<and>
      (\<forall>i < bl_bucket_count b. unat (bl_counters b' ! i) =
        unat (bl_counters b ! i) - count_list (indexes_of E b (as_bytes (as_str h))) i)"
proof -
  let ?ix = "indexes_of E b (as_bytes (as_str h))"
  have bound: "i < length (bl_counters b)" if "i \<in> set ?ix" for i
    using bloom_index_bound assms that by (simp add: indexes_of_def)
  from adjust_up [of ?ix "bl_counters b"] bound obtain cs where cs: "adjust counter_up ?ix (bl_counters b) = (Ok (), cs)"
    "length cs = length (bl_counters b)"
    "\<forall>i < length (bl_counters b). unat (cs ! i) = min 255 (unat (bl_counters b ! i) + count_list ?ix i)" by blast
  then show "\<exists>b'. record_insertion E h b = (Ok (), b') \<and> bl_bucket_count b' = bl_bucket_count b \<and> bl_num_hashes b' = bl_num_hashes b \<and>
      length (bl_counters b') = bl_bucket_count b \<and>
      (\<forall>i < bl_bucket_count b. unat (bl_counters b' ! i) = min 255 (unat (bl_counters b ! i) + count_list ?ix i))"
    using assms(3) by (simp add: record_insertion_def expect_op_def bloom_insert_def)
  from adjust_down [of ?ix "bl_counters b"] bound obtain cs where cs: "adjust counter_down ?ix (bl_counters b) = (Ok (), cs)"
    "length cs = length (bl_counters b)"
    "\<forall>i < length (bl_counters b). unat (cs ! i) = unat (bl_counters b ! i) - count_list ?ix i" by blast
  then show "\<exists>b'. record_removal E h b = (Ok (), b') \<and> bl_bucket_count b' = bl_bucket_count b \<and> bl_num_hashes b' = bl_num_hashes b \<and>
      length (bl_counters b') = bl_bucket_count b \<and>
      (\<forall>i < bl_bucket_count b. unat (bl_counters b' ! i) = unat (bl_counters b ! i) - count_list ?ix i)"
    using assms(3) by (simp add: record_removal_def expect_op_def bloom_remove_def)
qed

lemma times_insert:
  fixes n :: nat and E :: ext and h :: content_hash
  assumes "0 < bl_bucket_count b" "bl_bucket_count b < 2 ^ 64" "length (bl_counters b) = bl_bucket_count b"
  defines "b' \<equiv> times n (record_insertion E h) b"
  shows "bl_bucket_count b' = bl_bucket_count b \<and> bl_num_hashes b' = bl_num_hashes b \<and> length (bl_counters b') = bl_bucket_count b \<and>
    (\<forall>i < bl_bucket_count b. unat (bl_counters b' ! i) = min 255 (unat (bl_counters b ! i) + n * count_list (indexes_of E b (as_bytes (as_str h))) i))"
  using assms(1-3) unfolding b'_def
proof (induction n arbitrary: b)
  case 0
  have "unat (v :: u8) \<le> 255" for v using unsigned_less [of v, where 'a = nat] by simp
  then show ?case using 0 by (simp add: min_absorb2)
next
  case (Suc n)
  obtain b1 where b1: "record_insertion E h b = (Ok (), b1)" "bl_bucket_count b1 = bl_bucket_count b" "bl_num_hashes b1 = bl_num_hashes b"
    "length (bl_counters b1) = bl_bucket_count b" "\<forall>i < bl_bucket_count b. unat (bl_counters b1 ! i) =
        min 255 (unat (bl_counters b ! i) + count_list (indexes_of E b (as_bytes (as_str h))) i)"
    using insert_counters(1) [OF Suc.prems, of E h] by blast
  have ix: "indexes_of E b1 = indexes_of E b" using b1(2,3) by (simp add: indexes_of_def fun_eq_iff)
  show ?case using Suc.IH [of b1] b1 Suc.prems ix by (auto simp: min_def)
qed

lemma times_remove:
  fixes n :: nat and E :: ext and h :: content_hash
  assumes "0 < bl_bucket_count b" "bl_bucket_count b < 2 ^ 64" "length (bl_counters b) = bl_bucket_count b"
  defines "b' \<equiv> times n (record_removal E h) b"
  shows "bl_bucket_count b' = bl_bucket_count b \<and> bl_num_hashes b' = bl_num_hashes b \<and> length (bl_counters b') = bl_bucket_count b \<and>
    (\<forall>i < bl_bucket_count b. unat (bl_counters b' ! i) = unat (bl_counters b ! i) - n * count_list (indexes_of E b (as_bytes (as_str h))) i)"
  using assms(1-3) unfolding b'_def
proof (induction n arbitrary: b)
  case (Suc n)
  obtain b1 where b1: "record_removal E h b = (Ok (), b1)" "bl_bucket_count b1 = bl_bucket_count b" "bl_num_hashes b1 = bl_num_hashes b"
    "length (bl_counters b1) = bl_bucket_count b" "\<forall>i < bl_bucket_count b. unat (bl_counters b1 ! i) =
        unat (bl_counters b ! i) - count_list (indexes_of E b (as_bytes (as_str h))) i"
    using insert_counters(2) [OF Suc.prems, of E h] by blast
  have ix: "indexes_of E b1 = indexes_of E b" using b1(2,3) by (simp add: indexes_of_def fun_eq_iff)
  show ?case using Suc.IH [of b1] b1 Suc.prems ix by simp
qed simp

text \<open>A saturated counter forgets: a content hash that is recorded 256 times and removed 255 times in a new
  filter is still recorded once, but the filter denies it, because the counters stopped at 255.\<close>

theorem bloom_saturation_denies:
  "\<not> might_contain E h (times 255 (record_removal E h) (times 256 (record_insertion E h) (bloom_new S n r)))"
proof -
  let ?b = "bloom_new S n r"
  let ?ix = "indexes_of E ?b (as_bytes (as_str h))"
  have b: "0 < bl_bucket_count ?b" "bl_bucket_count ?b < 2 ^ 64" "length (bl_counters ?b) = bl_bucket_count ?b" "0 < bl_num_hashes ?b"
    by (simp_all add: bloom_new_def Let_def max_def min_def)
  let ?b1 = "times 256 (record_insertion E h) ?b"
  note I = times_insert [OF b(1-3), of 256 E h]
  have b1: "0 < bl_bucket_count ?b1" "bl_bucket_count ?b1 < 2 ^ 64" "length (bl_counters ?b1) = bl_bucket_count ?b1"
    using I b by auto
  let ?b2 = "times 255 (record_removal E h) ?b1"
  note R = times_remove [OF b1, of 255 E h]
  have ix1: "indexes_of E ?b1 = indexes_of E ?b" using I by (simp add: indexes_of_def fun_eq_iff)
  have ix2: "indexes_of E ?b2 = indexes_of E ?b" using R ix1 by (simp add: indexes_of_def fun_eq_iff)
  have zero: "i < length (bl_counters ?b2) \<and> bl_counters ?b2 ! i = 0" if i: "i \<in> set ?ix" for i
  proof -
    have lt: "i < bl_bucket_count ?b" using bloom_index_bound b i by (simp add: indexes_of_def)
    obtain c where c: "count_list ?ix i = Suc c" using i by (metis count_list_0_iff not0_implies_Suc)
    have "unat (bl_counters ?b2 ! i) = unat (bl_counters ?b1 ! i) - 255 * Suc c" using R I lt ix1 c by simp
    moreover have "unat (bl_counters ?b1 ! i) \<le> 255" using I lt by simp
    ultimately have "unat (bl_counters ?b2 ! i) = 0" by simp
    then have "bl_counters ?b2 ! i = 0" by (simp only: unsigned_eq_0_iff)
    then show ?thesis using R I lt by simp
  qed
  have "?ix \<noteq> []" using b(4) by (simp add: indexes_of_def bloom_indexes_def split: prod.splits)
  then obtain i "is" where ix: "?ix = i # is" by (cases ?ix) auto
  then show ?thesis using zero [of i] ix2 by (simp add: might_contain_def bloom_might_contain_def)
qed

section \<open>A witness\<close>

theorem bloom_lookup_transparent_witness:
  "\<exists>g'. guarded_run sample_ext {#} \<lparr>gs_content = [], gs_filter = Some \<lparr>bl_counters = [0, 0], bl_bucket_count = 2, bl_num_hashes = 1, bl_items = 0\<rparr>\<rparr>
      {#ContentHash ''a''#} g' \<and> guarded_lookup sample_ext (ContentHash ''a'') g' = Some (SegmentId 4)"
proof -
  let ?b = "\<lparr>bl_counters = [0, 0], bl_bucket_count = 2, bl_num_hashes = 1, bl_items = 0\<rparr>"
  let ?g = "\<lparr>gs_content = [], gs_filter = Some ?b\<rparr>"
  have inv: "guarded_inv sample_ext {#} ?g" by (simp add: guarded_inv_def bloom_inv_def less_2_cases_iff hm_ok_def)
  have "count_list xs i \<le> length xs" for xs and i :: nat by (induction xs) auto
  moreover have "length (bloom_indexes sample_ext 2 1 d) = 1" for d by (simp add: bloom_indexes_def split: prod.splits)
  ultimately have "count_list (bloom_indexes sample_ext 2 1 d) i \<le> 1" for d i by metis
  then have room: "room_for sample_ext ?b {#ContentHash ''a''#}"
    by (auto simp: room_for_def weight_add intro: order_trans [of _ 1])
  obtain g' where g': "guarded_register sample_ext (ContentHash ''a'') (SegmentId 4) ?g = (Ok (), g')"
    "gs_content g' = hm_insert (ContentHash ''a'') (SegmentId 4) []"
    using register_effect [OF inv _ room] by auto
  have run: "guarded_run sample_ext {#} ?g {#ContentHash ''a''#} g'"
    using gr_register [OF _ room g'(1) gr_refl] by simp
  from bloom_lookup_transparent [OF inv run] show ?thesis using run g'(2) by (intro exI [of _ g']) (simp add: hm_get_insert)
qed

end
