(* ===== verification/S3_View.thy ===== *)
theory S3_View
  imports View_Common
begin

text \<open>
  The S3 view of \<open>crates/protocol-s3/src/lib.rs\<close> over the write pipeline: a map in memory from
  \<open>bucket/key\<close> to capsules. \<open>clk\<close> is the clock of the pipeline, \<open>now\<close> that of the view, whose failure
  is an error here.
\<close>

record key_mapping =
  s3_key :: string
  s3_capsule_id :: capsule_id
  s3_size :: u64
  s3_created_at :: u64
  s3_content_type :: string

record s3_view =
  s3_pipeline :: write_pipeline
  s3_key_map :: "(string, key_mapping) hmap"

type_synonym 'a s3_op = "(s3_view, 'a, error) op"

definition s3_new :: "registry \<Rightarrow> nvram_log \<Rightarrow> (key_manager, encryption_error) result \<Rightarrow> s3_view" where
  "s3_new rg lg env = \<lparr>s3_pipeline = wp_new rg lg env, s3_key_map = []\<rparr>"

definition on_s3_pipeline :: "'a wp_op \<Rightarrow> 'a s3_op" where
  "on_s3_pipeline m = zoom s3_pipeline (\<lambda>p v. v\<lparr>s3_pipeline := p\<rparr>) m"

definition full_key :: "string \<Rightarrow> string \<Rightarrow> string" where
  "full_key bucket key = bucket @ ''/'' @ key"

definition ends_with :: "string \<Rightarrow> string \<Rightarrow> bool" where
  "ends_with s suf \<longleftrightarrow> length suf \<le> length s \<and> drop (length s - length suf) s = suf"

definition detect_content_type :: "string \<Rightarrow> string" where
  "detect_content_type key =
     (if ends_with key ''.txt'' then ''text/plain''
      else if ends_with key ''.json'' then ''application/json''
      else if ends_with key ''.html'' then ''text/html''
      else if ends_with key ''.jpg'' \<or> ends_with key ''.jpeg'' then ''image/jpeg''
      else if ends_with key ''.png'' then ''image/png''
      else ''application/octet-stream'')"

definition put_object ::
  "ext \<Rightarrow> u64 option \<Rightarrow> capsule_id \<Rightarrow> u64 option \<Rightarrow> string \<Rightarrow> string \<Rightarrow> bytes \<Rightarrow> capsule_id s3_op" where
  "put_object E clk fresh now bucket key data =
     bind_op (on_s3_pipeline (write_capsule E clk fresh data)) (\<lambda>capsule_id.
     bind_op (lift_result (ok_or now ClockError)) (\<lambda>timestamp v.
       (Ok capsule_id,
        v\<lparr>s3_key_map := hm_insert (full_key bucket key)
            \<lparr>s3_key = full_key bucket key, s3_capsule_id = capsule_id, s3_size = of_nat (length data),
             s3_created_at = timestamp, s3_content_type = detect_content_type key\<rparr> (s3_key_map v)\<rparr>)))"

definition head_object :: "string \<Rightarrow> string \<Rightarrow> s3_view \<Rightarrow> (key_mapping, error) result" where
  "head_object bucket key v = ok_or (hm_get (s3_key_map v) (full_key bucket key)) (ViewError ''Key not found'')"

definition get_object :: "ext \<Rightarrow> string \<Rightarrow> string \<Rightarrow> bytes s3_op" where
  "get_object E bucket key v =
     bind_op (lift_result (ok_or (hm_get (s3_key_map v) (full_key bucket key)) (ViewError ''Key not found''))) (\<lambda>mapping.
       on_s3_pipeline (read_capsule E (s3_capsule_id mapping))) v"

definition list_objects :: "string \<Rightarrow> s3_view \<Rightarrow> key_mapping list" where
  "list_objects bucket v =
     (let pre = bucket @ ''/''
      in map snd (filter (\<lambda>(k, _). take (length pre) k = pre) (s3_key_map v)))"

definition delete_object :: "string \<Rightarrow> string \<Rightarrow> unit s3_op" where
  "delete_object bucket key v =
     (case hm_get (s3_key_map v) (full_key bucket key) of
        None \<Rightarrow> (Err (ViewError ''Key not found''), v)
      | Some mapping \<Rightarrow> (Ok (), v\<lparr>s3_key_map := hm_remove (full_key bucket key) (s3_key_map v)\<rparr>))"

end
