(* ===== verification/S3_Properties.thy ===== *)
theory S3_Properties
  imports S3_View View_Sample
begin

text \<open>
  What the S3 view guarantees: objects are the last data put under their name, whatever fails; which
  names are the same object; and that a superseded capsule stays behind.
\<close>

abbreviation s3_data :: "ext \<Rightarrow> s3_view \<Rightarrow> capsule_id \<Rightarrow> bytes option" where
  "s3_data E v \<equiv> wp_data E (s3_pipeline v)"

text \<open>The capsule of every key, and what a user sees.\<close>

definition key_caps :: "(string, key_mapping) hmap \<Rightarrow> string \<rightharpoonup> capsule_id" where
  "key_caps m k = map_option s3_capsule_id (hm_get m k)"

definition objects_of :: "ext \<Rightarrow> s3_view \<Rightarrow> string \<rightharpoonup> bytes" where
  "objects_of E v = named_data (s3_data E v) (key_caps (s3_key_map v))"

definition s3_good :: "ext \<Rightarrow> s3_view \<Rightarrow> bool" where
  "s3_good E v \<longleftrightarrow> service_inv E (s3_pipeline v) \<and> hm_ok (s3_key_map v) \<and> names_live (s3_data E v) (key_caps (s3_key_map v))"

lemma key_caps_insert: "key_caps (hm_insert k m x) = (key_caps x)(k \<mapsto> s3_capsule_id m)"
  by (auto simp: key_caps_def hm_get_insert fun_eq_iff)

lemma key_caps_remove: "key_caps (hm_remove k x) = (key_caps x)(k := None)"
  by (auto simp: key_caps_def hm_get_remove fun_eq_iff)

lemma on_s3_pipelineD:
  assumes "on_s3_pipeline m v = (r, v')"
  obtains p where "m (s3_pipeline v) = (r, p)" "v' = v\<lparr>s3_pipeline := p\<rparr>"
  using assms by (auto simp: on_s3_pipeline_def zoom_def split: prod.splits)

lemma put_object_effect:
  assumes good: "s3_good E v" and ready: "service_ready E data (s3_pipeline v)"
    and run: "put_object E clk fresh now bucket key data v = (r, v')"
  shows "s3_good E v'" "objects_of E v' = (if is_ok r then (objects_of E v)(full_key bucket key \<mapsto> data) else objects_of E v)"
    and "r = Ok cid \<Longrightarrow> hm_get (s3_key_map v') (full_key bucket key) \<noteq> None"
    and "s3_data E v old \<noteq> None \<Longrightarrow> s3_data E v' old = s3_data E v old"
proof -
  have g: "service_inv E (s3_pipeline v)" "hm_ok (s3_key_map v)" "names_live (s3_data E v) (key_caps (s3_key_map v))"
    using good by (auto simp: s3_good_def)
  obtain q p where q: "write_capsule E clk fresh data (s3_pipeline v) = (q, p)" by fastforce
  note P = wps.put_names [OF g(1) ready q g(3)]
  have keep: "wp_data E p old = s3_data E v old" if "s3_data E v old \<noteq> None" for old
    by (rule wps.put_keeps [OF g(1) ready q that])
  have step: "on_s3_pipeline (write_capsule E clk fresh data) v = (q, v\<lparr>s3_pipeline := p\<rparr>)"
    using q by (simp add: on_s3_pipeline_def zoom_def)
  have all: "s3_good E v' \<and> objects_of E v' = (if is_ok r then (objects_of E v)(full_key bucket key \<mapsto> data) else objects_of E v) \<and>
    (\<forall>cid. r = Ok cid \<longrightarrow> hm_get (s3_key_map v') (full_key bucket key) \<noteq> None) \<and> s3_pipeline v' = p"
  proof (cases "\<exists>x t. q = Ok x \<and> now = Some t")
    case False
    then have "\<not> is_ok r" "v' = v\<lparr>s3_pipeline := p\<rparr>"
      using run step by (auto simp: put_object_def bind_op_def lift_result_def ok_or_def split: result.splits option.splits)
    then show ?thesis using P(1-3) g(2) by (cases r) (simp_all add: s3_good_def objects_of_def)
  next
    case True
    then obtain x t where x: "q = Ok x" "now = Some t" by blast
    note N = P(4) [OF x(1), of "full_key bucket key"]
    have "r = Ok x" "v' = v\<lparr>s3_pipeline := p, s3_key_map := hm_insert (full_key bucket key)
            \<lparr>s3_key = full_key bucket key, s3_capsule_id = x, s3_size = of_nat (length data),
             s3_created_at = t, s3_content_type = detect_content_type key\<rparr> (s3_key_map v)\<rparr>"
      using run step x by (auto simp: put_object_def bind_op_def lift_result_def)
    then show ?thesis using P(1) N g(2) by (simp add: s3_good_def objects_of_def key_caps_insert hm_get_insert)
  qed
  then show "s3_good E v'" "objects_of E v' = (if is_ok r then (objects_of E v)(full_key bucket key \<mapsto> data) else objects_of E v)"
    "r = Ok cid \<Longrightarrow> hm_get (s3_key_map v') (full_key bucket key) \<noteq> None"
    "s3_data E v old \<noteq> None \<Longrightarrow> s3_data E v' old = s3_data E v old" using keep by auto
qed

lemma get_object_effect:
  assumes good: "s3_good E v" and run: "get_object E bucket key v = (r, v')"
  shows "s3_good E v'" "objects_of E v' = objects_of E v"
    and "case objects_of E v (full_key bucket key) of Some d \<Rightarrow> r = Ok d | None \<Rightarrow> \<not> is_ok r"
proof -
  have g: "service_inv E (s3_pipeline v)" "hm_ok (s3_key_map v)" "names_live (s3_data E v) (key_caps (s3_key_map v))"
    using good by (auto simp: s3_good_def)
  have "s3_good E v' \<and> objects_of E v' = objects_of E v \<and>
    (case objects_of E v (full_key bucket key) of Some d \<Rightarrow> r = Ok d | None \<Rightarrow> \<not> is_ok r)"
  proof (cases "hm_get (s3_key_map v) (full_key bucket key)")
    case None
    then show ?thesis using run good
      by (auto simp: get_object_def bind_op_def lift_result_def objects_of_def named_data_def key_caps_def)
  next
    case (Some m)
    obtain p where p: "read_capsule E (s3_capsule_id m) (s3_pipeline v) = (r, p)" "v' = v\<lparr>s3_pipeline := p\<rparr>"
      using run Some by (auto simp: get_object_def bind_op_def lift_result_def elim: on_s3_pipelineD)
    note G = wps.get_law [OF g(1) p(1)]
    then show ?thesis using g Some p(2)
      by (auto simp: s3_good_def objects_of_def named_data_def key_caps_def split: option.splits)
  qed
  then show "s3_good E v'" "objects_of E v' = objects_of E v"
    "case objects_of E v (full_key bucket key) of Some d \<Rightarrow> r = Ok d | None \<Rightarrow> \<not> is_ok r" by blast+
qed

lemma delete_object_effect:
  assumes good: "s3_good E v" and run: "delete_object bucket key v = (r, v')"
  shows "s3_good E v'" "objects_of E v' = (objects_of E v)(full_key bucket key := None)"
    and "is_ok r \<longleftrightarrow> objects_of E v (full_key bucket key) \<noteq> None" "s3_pipeline v' = s3_pipeline v"
proof -
  have g: "hm_ok (s3_key_map v)" "names_live (s3_data E v) (key_caps (s3_key_map v))" using good by (auto simp: s3_good_def)
  have "s3_good E v' \<and> objects_of E v' = (objects_of E v)(full_key bucket key := None) \<and>
    (is_ok r \<longleftrightarrow> objects_of E v (full_key bucket key) \<noteq> None) \<and> s3_pipeline v' = s3_pipeline v"
  proof (cases "hm_get (s3_key_map v) (full_key bucket key)")
    case None
    then have "objects_of E v (full_key bucket key) = None" by (simp add: objects_of_def named_data_def key_caps_def)
    then show ?thesis using run None good by (auto simp: delete_object_def)
  next
    case (Some m)
    have "key_caps (s3_key_map v) (full_key bucket key) = Some (s3_capsule_id m)" using Some by (simp add: key_caps_def)
    then have "objects_of E v (full_key bucket key) \<noteq> None"
      using names_liveD(1) [OF g(2)] by (simp add: objects_of_def named_data_def)
    moreover have "r = Ok ()" "v' = v\<lparr>s3_key_map := hm_remove (full_key bucket key) (s3_key_map v)\<rparr>"
      using run Some by (simp_all add: delete_object_def)
    ultimately show ?thesis using good names_live_restrict [OF g(2) refl, of "full_key bucket key"]
      by (auto simp: s3_good_def objects_of_def key_caps_remove named_data_def fun_eq_iff)
  qed
  then show "s3_good E v'" "objects_of E v' = (objects_of E v)(full_key bucket key := None)"
    "is_ok r \<longleftrightarrow> objects_of E v (full_key bucket key) \<noteq> None" "s3_pipeline v' = s3_pipeline v" by blast+
qed

section \<open>Histories\<close>

text \<open>One call, with its effect on the objects.\<close>

inductive s3_step :: "ext \<Rightarrow> ((string \<rightharpoonup> bytes) \<Rightarrow> string \<rightharpoonup> bytes) \<Rightarrow> s3_view \<Rightarrow> s3_view \<Rightarrow> bool" for E where
  ss_put: "service_ready E data (s3_pipeline v) \<Longrightarrow> put_object E clk fresh now bucket key data v = (Ok cid, v') \<Longrightarrow>
    s3_step E (\<lambda>m. m(bucket @ ''/'' @ key \<mapsto> data)) v v'"
| ss_failed: "service_ready E data (s3_pipeline v) \<Longrightarrow> put_object E clk fresh now bucket key data v = (Err e, v') \<Longrightarrow> s3_step E id v v'"
| ss_get: "get_object E bucket key v = (q, v') \<Longrightarrow> s3_step E id v v'"
| ss_delete: "delete_object bucket key v = (u, v') \<Longrightarrow> s3_step E (\<lambda>m. m(bucket @ ''/'' @ key := None)) v v'"

inductive s3_run :: "ext \<Rightarrow> ((string \<rightharpoonup> bytes) \<Rightarrow> string \<rightharpoonup> bytes) list \<Rightarrow> s3_view \<Rightarrow> s3_view \<Rightarrow> bool" for E where
  sr_nil: "s3_run E [] v v"
| sr_step: "s3_step E f v v' \<Longrightarrow> s3_run E fs v' v'' \<Longrightarrow> s3_run E (f # fs) v v''"

lemma s3_step_effect: "s3_step E f v v' \<Longrightarrow> s3_good E v \<Longrightarrow> s3_good E v' \<and> objects_of E v' = f (objects_of E v)"
proof (induction rule: s3_step.induct)
  case (ss_put data v clk fresh now bucket key cid v')
  then show ?case using put_object_effect(1,2) [OF ss_put(3,1,2)] by (simp add: full_key_def)
next
  case (ss_failed data v clk fresh now bucket key e v')
  then show ?case using put_object_effect(1,2) [OF ss_failed(3,1,2)] by simp
next
  case (ss_get bucket key v q v')
  then show ?case using get_object_effect(1,2) [OF ss_get(2,1)] by simp
next
  case (ss_delete bucket key v u v')
  then show ?case using delete_object_effect(1,2) [OF ss_delete(2,1)] by (simp add: full_key_def)
qed

text \<open>The S3 view is a store of objects: after any history of puts, gets and deletions, failed ones included, a
  get returns exactly the data last put under \<open>bucket/key\<close> and not deleted since, and an error when
  there is none.\<close>

theorem s3_history_exact:
  assumes "s3_good E v" "s3_run E fs v v'"
  shows "case fold (\<lambda>f m. f m) fs (objects_of E v) (bucket @ ''/'' @ key) of
      Some d \<Rightarrow> fst (get_object E bucket key v') = Ok d
    | None \<Rightarrow> \<not> is_ok (fst (get_object E bucket key v'))"
proof -
  have "s3_good E v' \<and> objects_of E v' = fold (\<lambda>f m. f m) fs (objects_of E v)"
    using assms(2,1)
  proof induction
    case (sr_step f v v' fs v'')
    then show ?case using s3_step_effect [OF sr_step(1,4)] by simp
  qed simp
  then show ?thesis using get_object_effect(3) [of E v' bucket key "fst (get_object E bucket key v')" "snd (get_object E bucket key v')"]
    by (simp add: full_key_def)
qed

text \<open>Buckets are not name spaces: a bucket whose name contains a slash shares its objects with the bucket named
  by the part before it, so an object put into one is read, listed and deleted through the other.\<close>

theorem s3_buckets_overlap:
  assumes "s3_good E v" "service_ready E data (s3_pipeline v)"
    and "put_object E clk fresh now (a @ ''/'' @ b) c data v = (Ok cid, v')"
  shows "fst (get_object E a (b @ ''/'' @ c) v') = Ok data \<and> cid \<in> s3_capsule_id ` set (list_objects a v') \<and>
    is_ok (fst (delete_object a (b @ ''/'' @ c) v'))"
proof -
  note P = put_object_effect [OF assms]
  have k: "full_key (a @ ''/'' @ b) c = full_key a (b @ ''/'' @ c)" by (simp add: full_key_def)
  obtain q w where q: "get_object E a (b @ ''/'' @ c) v' = (q, w)" by fastforce
  have get: "fst (get_object E a (b @ ''/'' @ c) v') = Ok data"
    using get_object_effect(3) [OF P(1) q] P(2) k q by simp
  obtain m where m: "hm_get (s3_key_map v') (full_key a (b @ ''/'' @ c)) = Some m" using P(3) k by auto
  have "s3_capsule_id m = cid" using m k assms(3)
    by (auto simp: put_object_def bind_op_def lift_result_def hm_get_insert split: prod.splits result.splits)
  moreover have "m \<in> set (list_objects a v')"
    using map_of_SomeD [OF m] by (force simp: list_objects_def Let_def full_key_def)
  ultimately show ?thesis using get m by (auto simp: delete_object_def)
qed

text \<open>Overwriting an object leaves its old capsule behind: after a successful put over an existing object the old
  capsule can still be read in the pipeline, although no key refers to it any more.\<close>

theorem s3_overwrite_leaks:
  assumes "s3_good E v" "service_ready E data (s3_pipeline v)" "head_object bucket key v = Ok old"
    and "put_object E clk fresh now bucket key data v = (Ok cid, v')"
  shows "is_ok (fst (read_capsule E (s3_capsule_id old) (s3_pipeline v'))) \<and>
    (\<forall>k m. hm_get (s3_key_map v') k = Some m \<longrightarrow> s3_capsule_id m \<noteq> s3_capsule_id old)"
proof -
  let ?k = "full_key bucket key"
  note P = put_object_effect [OF assms(1,2,4)]
  have g: "service_inv E (s3_pipeline v)" "names_live (s3_data E v) (key_caps (s3_key_map v))" using assms(1) by (auto simp: s3_good_def)
  have o: "key_caps (s3_key_map v) ?k = Some (s3_capsule_id old)"
    using assms(3) by (auto simp: head_object_def key_caps_def ok_or_def split: option.splits)
  obtain d where d: "s3_data E v (s3_capsule_id old) = Some d" using names_liveD(1) [OF g(2) o] by auto
  then have "s3_data E v' (s3_capsule_id old) = Some d" using P(4) by simp
  moreover have inv': "service_inv E (s3_pipeline v')" using P(1) by (simp add: s3_good_def)
  obtain q p where q: "read_capsule E (s3_capsule_id old) (s3_pipeline v') = (q, p)" by fastforce
  ultimately have read: "is_ok (fst (read_capsule E (s3_capsule_id old) (s3_pipeline v')))"
    using wps.get_law [OF inv' q] q by simp
  obtain q2 p2 where w: "write_capsule E clk fresh data (s3_pipeline v) = (q2, p2)" by fastforce
  have new: "q2 = Ok cid" "key_caps (s3_key_map v') = (key_caps (s3_key_map v))(?k \<mapsto> cid)"
    using assms(4) w
    by (auto simp: put_object_def bind_op_def lift_result_def on_s3_pipeline_def zoom_def ok_or_def key_caps_insert
        split: result.splits option.splits)
  have "cid \<noteq> s3_capsule_id old" using wps.put_law [OF g(1) assms(2) w] new(1) d by auto
  then have "key_caps (s3_key_map v') k \<noteq> Some (s3_capsule_id old)" for k
    using wps.rebound_unnamed(1) [OF g(2) o, of cid k] new(2) by simp
  then show ?thesis using read by (auto simp: key_caps_def)
qed

section \<open>Witnesses\<close>

definition sample_s3 :: s3_view where
  "sample_s3 = \<lparr>s3_pipeline = volume_pipeline, s3_key_map =
     [(''b/k'', \<lparr>s3_key = ''b/k'', s3_capsule_id = CapsuleId [1], s3_size = 2, s3_created_at = 0,
        s3_content_type = ''application/octet-stream''\<rparr>)]\<rparr>"

lemma sample_key_caps: "key_caps (s3_key_map sample_s3) = [''b/k'' \<mapsto> CapsuleId [1]]"
  by (auto simp: key_caps_def sample_s3_def fun_eq_iff)

lemma sample_s3_good: "s3_good sample_ext sample_s3"
proof -
  have "names_live (s3_data sample_ext sample_s3) [''b/k'' \<mapsto> CapsuleId [1]]"
    by (simp add: names_live_def volume_data sample_s3_def)
  then show ?thesis using volume_service by (simp add: s3_good_def sample_key_caps) (simp add: sample_s3_def hm_ok_def)
qed

lemma sample_objects: "objects_of sample_ext sample_s3 = [''b/k'' \<mapsto> [1, 2]]"
  unfolding objects_of_def sample_key_caps by (auto simp: named_data_def fun_eq_iff volume_data sample_s3_def)

lemma sample_s3_ready: "service_ready sample_ext [1, 9] (s3_pipeline sample_s3)"
  using volume_ready by (simp add: sample_s3_def)

lemma sample_put: "\<exists>v. put_object sample_ext (Some 0) (CapsuleId [2]) (Some 0) bucket key [1, 9] sample_s3 = (Ok (CapsuleId [2]), v)"
proof -
  obtain p where "write_capsule sample_ext (Some 0) (CapsuleId [2]) [1, 9] volume_pipeline = (Ok (CapsuleId [2]), p)"
    using volume_write by blast
  then show ?thesis by (simp add: put_object_def bind_op_def on_s3_pipeline_def zoom_def lift_result_def sample_s3_def)
qed

theorem s3_history_exact_witness:
  "\<exists>v'. s3_run sample_ext [\<lambda>m. m(''x'' @ ''/'' @ ''y'' \<mapsto> [1, 9])] sample_s3 v' \<and> fst (get_object sample_ext ''x'' ''y'' v') = Ok [1, 9]"
proof -
  obtain v' where put: "put_object sample_ext (Some 0) (CapsuleId [2]) (Some 0) ''x'' ''y'' [1, 9] sample_s3 = (Ok (CapsuleId [2]), v')"
    using sample_put by blast
  have run: "s3_run sample_ext [\<lambda>m. m(''x'' @ ''/'' @ ''y'' \<mapsto> [1, 9])] sample_s3 v'"
    by (rule sr_step [OF ss_put [OF sample_s3_ready put] sr_nil])
  from s3_history_exact [OF sample_s3_good run, of "''x''" "''y''"] show ?thesis using run by (intro exI [of _ v']) simp
qed

theorem s3_buckets_overlap_witness:
  "\<exists>v'. put_object sample_ext (Some 0) (CapsuleId [2]) (Some 0) (''x'' @ ''/'' @ ''y'') ''z'' [1, 9] sample_s3 = (Ok (CapsuleId [2]), v') \<and>
     fst (get_object sample_ext ''x'' (''y'' @ ''/'' @ ''z'') v') = Ok [1, 9]"
proof -
  obtain v' where put: "put_object sample_ext (Some 0) (CapsuleId [2]) (Some 0) (''x'' @ ''/'' @ ''y'') ''z'' [1, 9] sample_s3 = (Ok (CapsuleId [2]), v')"
    using sample_put by blast
  from s3_buckets_overlap [OF sample_s3_good sample_s3_ready put] put show ?thesis by blast
qed

theorem s3_overwrite_leaks_witness:
  "\<exists>v'. put_object sample_ext (Some 0) (CapsuleId [2]) (Some 0) ''b'' ''k'' [1, 9] sample_s3 = (Ok (CapsuleId [2]), v') \<and>
     is_ok (fst (read_capsule sample_ext (CapsuleId [1]) (s3_pipeline v')))"
proof -
  obtain v' where put: "put_object sample_ext (Some 0) (CapsuleId [2]) (Some 0) ''b'' ''k'' [1, 9] sample_s3 = (Ok (CapsuleId [2]), v')"
    using sample_put by blast
  have old: "head_object ''b'' ''k'' sample_s3 = Ok \<lparr>s3_key = ''b/k'', s3_capsule_id = CapsuleId [1], s3_size = 2, s3_created_at = 0,
        s3_content_type = ''application/octet-stream''\<rparr>"
    by (simp add: head_object_def full_key_def sample_s3_def)
  from s3_overwrite_leaks [OF sample_s3_good sample_s3_ready old put] put show ?thesis by (intro exI [of _ v']) simp
qed

end
