(* ===== verification/Zero_Trust.thy ===== *)
theory Zero_Trust
  imports S3_View Text_Format
begin

text \<open>
  The zero-trust ingress of \<open>crates/common/src/security/ebpf_gateway.rs\<close> and the HTTP service of the
  S3 view (\<open>crates/protocol-s3/src/handlers.rs\<close>, \<open>server.rs\<close>) behind it, with the feature
  \<open>advanced-security\<close>. Requests arrive routed as the table in \<open>run\<close> says; a header map is what
  looking up a name gives. The checks of header names and values (\<open>http\<close>), the text of identifiers
  (\<open>uuid\<close>), the JSON of the identity service, the loader of eBPF programs and the socket are parameters.
\<close>

section \<open>Requests and responses\<close>

record http_ext =
  hx_header_name :: "string \<Rightarrow> string option"
  hx_to_str :: "bytes \<Rightarrow> string option"
  hx_uuid :: "uuid \<Rightarrow> string"
  hx_identities :: "string \<Rightarrow> string list option"

datatype s3_route =
    PutRoute string string bytes
  | GetRoute string string
  | HeadRoute string string
  | DeleteRoute string string
  | ListRoute string
  | HealthRoute

record request =
  rq_header :: "string \<Rightarrow> bytes option"
  rq_route :: s3_route

record object_metadata =
  om_key :: string
  om_size :: u64
  om_last_modified :: u64
  om_content_type :: string
  om_etag :: string

record list_response =
  lr_name :: string
  lr_prefix :: "string option"
  lr_contents :: "object_metadata list"

datatype response_body =
    NoBody
  | RawBody bytes
  | TextBody string
  | ErrorBody error
  | ListBody list_response
  | HealthBody

record response =
  rs_status :: nat
  rs_headers :: "(string \<times> string) list"
  rs_body :: response_body

section \<open>The gateway\<close>

record zero_trust_config =
  zt_bpf_program :: "string option"
  zt_allowed_spiffe_ids :: "string list"
  zt_spiffe_endpoint :: "string option"
  zt_header_name :: string
  zt_refresh_interval_secs :: u64

definition default_zero_trust :: zero_trust_config where
  "default_zero_trust =
     \<lparr>zt_bpf_program = None, zt_allowed_spiffe_ids = [], zt_spiffe_endpoint = None, zt_header_name = ''x-spiffe-id'',
      zt_refresh_interval_secs = 30\<rparr>"

text \<open>The gateway; the set behind \<open>gw_allowed\<close> is shared with the layers made from it.\<close>

record ebpf_gateway =
  gw_program :: "string option"
  gw_allowed :: "string set"
  gw_header_name :: string
  gw_workload_client :: "string option"
  gw_refresh_interval :: u64

text \<open>A program that cannot be loaded is left out with a warning.\<close>

definition gateway_new :: "(string \<Rightarrow> bool) \<Rightarrow> zero_trust_config \<Rightarrow> (ebpf_gateway, error) result" where
  "gateway_new loads config =
     Ok \<lparr>gw_program = (case zt_bpf_program config of Some path \<Rightarrow> if loads path then Some path else None | None \<Rightarrow> None),
         gw_allowed = set (zt_allowed_spiffe_ids config), gw_header_name = zt_header_name config,
         gw_workload_client = zt_spiffe_endpoint config, gw_refresh_interval = max (zt_refresh_interval_secs config) 5\<rparr>"

definition update_allow_list :: "string list \<Rightarrow> ebpf_gateway \<Rightarrow> ebpf_gateway" where
  "update_allow_list ids gw = gw\<lparr>gw_allowed := set ids\<rparr>"

definition workload_source :: "ebpf_gateway \<Rightarrow> (string \<times> u64) option" where
  "workload_source gw = map_option (\<lambda>client. (client, gw_refresh_interval gw)) (gw_workload_client gw)"

record mtls_rejection =
  rj_status :: nat
  rj_message :: string

definition missing_identity :: mtls_rejection where
  "missing_identity = \<lparr>rj_status = 401, rj_message = ''SPIFFE identity header missing''\<rparr>"

definition invalid_identity :: mtls_rejection where
  "invalid_identity = \<lparr>rj_status = 400, rj_message = ''SPIFFE identity header malformed''\<rparr>"

definition unauthorized :: "string \<Rightarrow> mtls_rejection" where
  "unauthorized identity = \<lparr>rj_status = 403, rj_message = ''SPIFFE identity '' @ identity @ '' not authorized''\<rparr>"

text \<open>The header a layer looks at; an invalid configured name is replaced by the default one.\<close>

definition mtls_header :: "http_ext \<Rightarrow> ebpf_gateway \<Rightarrow> string" where
  "mtls_header H gw = (case hx_header_name H (gw_header_name gw) of Some name \<Rightarrow> name | None \<Rightarrow> ''x-spiffe-id'')"

definition authorize :: "http_ext \<Rightarrow> string \<Rightarrow> string set \<Rightarrow> request \<Rightarrow> (string, mtls_rejection) result" where
  "authorize H header allowed req =
     bind_result (ok_or (rq_header req header) missing_identity) (\<lambda>header_value.
     bind_result (ok_or (hx_to_str H header_value) invalid_identity) (\<lambda>spiffe.
       if allowed \<noteq> {} \<and> spiffe \<notin> allowed then Err (unauthorized spiffe) else Ok spiffe))"

text \<open>\<open>fetch_allowed\<close>: what the messages of the identity service lead to.\<close>

datatype ws_message = WsText string | WsBinary | WsClose | WsError | WsOther

fun fetch_loop :: "http_ext \<Rightarrow> ws_message list \<Rightarrow> (string list, error) result" where
  "fetch_loop H [] = Ok []"
| "fetch_loop H (WsText payload # msgs) = ok_or (hx_identities H payload) ParseError"
| "fetch_loop H (WsBinary # msgs) = fetch_loop H msgs"
| "fetch_loop H (WsClose # msgs) = Ok []"
| "fetch_loop H (WsError # msgs) = Ok []"
| "fetch_loop H (WsOther # msgs) = fetch_loop H msgs"

definition fetch_allowed :: "http_ext \<Rightarrow> ws_message list option \<Rightarrow> (string list, error) result" where
  "fetch_allowed H socket = bind_result (ok_or socket IoError) (fetch_loop H)"

section \<open>Handlers\<close>

definition respond :: "nat \<Rightarrow> (string \<times> string) list \<Rightarrow> response_body \<Rightarrow> response" where
  "respond status headers body = \<lparr>rs_status = status, rs_headers = headers, rs_body = body\<rparr>"

definition etag :: "http_ext \<Rightarrow> capsule_id \<Rightarrow> string" where
  "etag H cid = ''\"'' @ hx_uuid H (as_uuid cid) @ ''\"''"

text \<open>\<open>{:?}\<close> of a \<open>SystemTime\<close> on Linux.\<close>

definition format_http_date :: "u64 \<Rightarrow> string" where
  "format_http_date timestamp = ''SystemTime { tv_sec: '' @ decimal (unat timestamp) @ '', tv_nsec: 0 }''"

definition http_put ::
  "ext \<Rightarrow> http_ext \<Rightarrow> u64 option \<Rightarrow> capsule_id \<Rightarrow> u64 option \<Rightarrow> string \<Rightarrow> string \<Rightarrow> bytes \<Rightarrow> s3_view \<Rightarrow> response \<times> s3_view" where
  "http_put E H clk fresh now bucket key body v =
     (case put_object E clk fresh now bucket key body v of
        (Ok capsule_id, v) \<Rightarrow> (respond 200 [(''ETag'', etag H capsule_id)] NoBody, v)
      | (Err e, v) \<Rightarrow> (respond 500 [] (ErrorBody e), v))"

definition http_get :: "ext \<Rightarrow> string \<Rightarrow> string \<Rightarrow> s3_view \<Rightarrow> response \<times> s3_view" where
  "http_get E bucket key v =
     (case get_object E bucket key v of
        (Ok data, v) \<Rightarrow>
          (let content_type = (case head_object bucket key v of Ok m \<Rightarrow> s3_content_type m | Err _ \<Rightarrow> ''application/octet-stream'')
           in (respond 200 [(''Content-Type'', content_type)] (RawBody data), v))
      | (Err e, v) \<Rightarrow> (respond 404 [] (ErrorBody e), v))"

definition http_head :: "http_ext \<Rightarrow> string \<Rightarrow> string \<Rightarrow> s3_view \<Rightarrow> response" where
  "http_head H bucket key v =
     (case head_object bucket key v of
        Ok mapping \<Rightarrow>
          respond 200
            [(''Content-Length'', decimal (unat (s3_size mapping))), (''Content-Type'', s3_content_type mapping),
             (''ETag'', etag H (s3_capsule_id mapping)), (''Last-Modified'', format_http_date (s3_created_at mapping))] NoBody
      | Err e \<Rightarrow> respond 404 [] (ErrorBody e))"

definition http_list :: "http_ext \<Rightarrow> string \<Rightarrow> s3_view \<Rightarrow> response" where
  "http_list H bucket v =
     respond 200 [] (ListBody
       \<lparr>lr_name = bucket, lr_prefix = None,
        lr_contents = map (\<lambda>m. \<lparr>om_key = s3_key m, om_size = s3_size m, om_last_modified = s3_created_at m,
          om_content_type = s3_content_type m, om_etag = etag H (s3_capsule_id m)\<rparr>) (list_objects bucket v)\<rparr>)"

definition http_delete :: "string \<Rightarrow> string \<Rightarrow> s3_view \<Rightarrow> response \<times> s3_view" where
  "http_delete bucket key v =
     (case delete_object bucket key v of
        (Ok _, v) \<Rightarrow> (respond 204 [] NoBody, v)
      | (Err e, v) \<Rightarrow> (respond 404 [] (ErrorBody e), v))"

definition health_check :: response where
  "health_check = respond 200 [] HealthBody"

text \<open>The routes of \<open>run\<close>.\<close>

definition handle :: "ext \<Rightarrow> http_ext \<Rightarrow> u64 option \<Rightarrow> capsule_id \<Rightarrow> u64 option \<Rightarrow> s3_route \<Rightarrow> s3_view \<Rightarrow> response \<times> s3_view" where
  "handle E H clk fresh now route v =
     (case route of
        PutRoute bucket key body \<Rightarrow> http_put E H clk fresh now bucket key body v
      | GetRoute bucket key \<Rightarrow> http_get E bucket key v
      | HeadRoute bucket key \<Rightarrow> (http_head H bucket key v, v)
      | DeleteRoute bucket key \<Rightarrow> http_delete bucket key v
      | ListRoute bucket \<Rightarrow> (http_list H bucket v, v)
      | HealthRoute \<Rightarrow> (health_check, v))"

section \<open>The server\<close>

record s3_server =
  sv_view :: s3_view
  sv_gateway :: "ebpf_gateway option"

text \<open>\<open>init_gateway\<close>, given the environment.\<close>

definition allow_list_of :: "string \<Rightarrow> string list" where
  "allow_list_of s = filter (\<lambda>t. t \<noteq> []) (map trim (split_at CHR '','' s))"

definition gateway_config :: "(string \<Rightarrow> string option) \<Rightarrow> zero_trust_config" where
  "gateway_config env =
     \<lparr>zt_bpf_program = env ''SPACE_BPF_PROGRAM'',
      zt_allowed_spiffe_ids = allow_list_of (case env ''SPACE_ALLOWED_SPIFFE_IDS'' of Some s \<Rightarrow> s | None \<Rightarrow> ''''),
      zt_spiffe_endpoint = env ''SPACE_SPIFFE_ENDPOINT'',
      zt_header_name = (case env ''SPACE_SPIFFE_HEADER'' of Some s \<Rightarrow> s | None \<Rightarrow> ''x-spiffe-id''),
      zt_refresh_interval_secs = (case Option.bind (env ''SPACE_SPIFFE_REFRESH_SECS'') parse_uint of Some n \<Rightarrow> n | None \<Rightarrow> 30)\<rparr>"

definition init_gateway :: "(string \<Rightarrow> bool) \<Rightarrow> (string \<Rightarrow> string option) \<Rightarrow> ebpf_gateway option" where
  "init_gateway loads env = (case gateway_new loads (gateway_config env) of Ok gw \<Rightarrow> Some gw | Err _ \<Rightarrow> None)"

definition server_new :: "(string \<Rightarrow> bool) \<Rightarrow> (string \<Rightarrow> string option) \<Rightarrow> s3_view \<Rightarrow> s3_server" where
  "server_new loads env view = \<lparr>sv_view = view, sv_gateway = init_gateway loads env\<rparr>"

definition on_view :: "(s3_view \<Rightarrow> response \<times> s3_view) \<Rightarrow> s3_server \<Rightarrow> response \<times> s3_server" where
  "on_view m s = (case m (sv_view s) of (resp, v) \<Rightarrow> (resp, s\<lparr>sv_view := v\<rparr>))"

text \<open>\<open>enforce_mtls\<close> around the routes; without a gateway there is no such layer.\<close>

definition enforce_mtls ::
  "http_ext \<Rightarrow> ebpf_gateway \<Rightarrow> (s3_server \<Rightarrow> response \<times> s3_server) \<Rightarrow> request \<Rightarrow> s3_server \<Rightarrow> response \<times> s3_server" where
  "enforce_mtls H gw next_layer req s =
     (case authorize H (mtls_header H gw) (gw_allowed gw) req of
        Ok identity \<Rightarrow> next_layer s
      | Err rejection \<Rightarrow> (respond (rj_status rejection) [] (TextBody (rj_message rejection)), s))"

definition serve :: "ext \<Rightarrow> http_ext \<Rightarrow> u64 option \<Rightarrow> capsule_id \<Rightarrow> u64 option \<Rightarrow> request \<Rightarrow> s3_server \<Rightarrow> response \<times> s3_server" where
  "serve E H clk fresh now req s =
     (let app = on_view (handle E H clk fresh now (rq_route req))
      in case sv_gateway s of
           Some gw \<Rightarrow> enforce_mtls H gw app req s
         | None \<Rightarrow> app s)"

text \<open>One turn of the refresh task: an empty answer or an error keeps the previous list.\<close>

definition refresh :: "http_ext \<Rightarrow> ws_message list option \<Rightarrow> s3_server \<Rightarrow> s3_server" where
  "refresh H socket s =
     (case sv_gateway s of
        None \<Rightarrow> s
      | Some gw \<Rightarrow>
          (if workload_source gw = None then s
           else
             (case fetch_allowed H socket of
                Ok ids \<Rightarrow> if ids \<noteq> [] then s\<lparr>sv_gateway := Some (update_allow_list ids gw)\<rparr> else s
              | Err _ \<Rightarrow> s)))"

end
