(* ===== verification/Zero_Trust_Properties.thy ===== *)
theory Zero_Trust_Properties
  imports Zero_Trust S3_Properties
begin

text \<open>
  What the HTTP service guarantees: the allow list in force, when there is one, decides which identities reach
  the objects, the answers tell a client the truth about them, and nobody is kept out while no list is
  configured and none was fetched.
\<close>

section \<open>Histories\<close>

datatype ingress_event = Served request response s3_view s3_view | Listed "string list"

text \<open>
  Requests and turns of the refresh task in any order; \<open>R\<close> restricts the requests in the states in
  which they arrive. An answer of the identity service that is an error counts as an empty list.
\<close>

definition fetched :: "http_ext \<Rightarrow> ws_message list option \<Rightarrow> string list" where
  "fetched H socket = (case fetch_allowed H socket of Ok ids \<Rightarrow> ids | Err _ \<Rightarrow> [])"

inductive ingress_run ::
  "(request \<Rightarrow> s3_view \<Rightarrow> bool) \<Rightarrow> ext \<Rightarrow> http_ext \<Rightarrow> ingress_event list \<Rightarrow> s3_server \<Rightarrow> s3_server \<Rightarrow> bool" for R E H where
  ir_nil: "ingress_run R E H [] s s"
| ir_serve: "R req (sv_view s) \<Longrightarrow> serve E H clk fresh now req s = (resp, s') \<Longrightarrow> ingress_run R E H es s' s'' \<Longrightarrow>
    ingress_run R E H (Served req resp (sv_view s) (sv_view s') # es) s s''"
| ir_refresh: "ingress_run R E H es (refresh H socket s) s'' \<Longrightarrow> ingress_run R E H (Listed (fetched H socket) # es) s s''"

inductive_cases ingress_run_NilE: "ingress_run R E H [] s s'"
inductive_cases ingress_run_ServedE: "ingress_run R E H (Served req resp v v' # es) s s''"
inductive_cases ingress_run_ListedE: "ingress_run R E H (Listed ids # es) s s''"

text \<open>The allow list after a history: the last list fetched that is not empty, or the configured one.\<close>

fun list_in_force :: "ebpf_gateway \<Rightarrow> string set \<Rightarrow> ingress_event list \<Rightarrow> string set" where
  "list_in_force gw A [] = A"
| "list_in_force gw A (Listed ids # es) =
     list_in_force gw (if ids \<noteq> [] \<and> gw_workload_client gw \<noteq> None then set ids else A) es"
| "list_in_force gw A (Served req resp v v' # es) = list_in_force gw A es"

definition refused :: "response \<Rightarrow> bool" where
  "refused resp \<longleftrightarrow> rs_status resp = 400 \<or> rs_status resp = 401 \<or> rs_status resp = 403"

text \<open>What the answer of a request says about the objects.\<close>

fun answer_effect :: "ingress_event \<Rightarrow> (string \<rightharpoonup> bytes) \<Rightarrow> string \<rightharpoonup> bytes" where
  "answer_effect (Listed ids) m = m"
| "answer_effect (Served req resp v v') m =
     (case rq_route req of
        PutRoute bucket key data \<Rightarrow> if rs_status resp = 200 then m(bucket @ ''/'' @ key \<mapsto> data) else m
      | DeleteRoute bucket key \<Rightarrow> if rs_status resp = 204 then m(bucket @ ''/'' @ key := None) else m
      | _ \<Rightarrow> m)"

section \<open>Single turns\<close>

lemma rejection_refused: "authorize H header allowed req = Err rej \<Longrightarrow> refused (respond (rj_status rej) hs body)"
  by (auto simp: authorize_def refused_def respond_def missing_identity_def invalid_identity_def unauthorized_def ok_or_def
      split: option.splits if_splits)

lemma authorize_ok: "authorize H header allowed req = Ok identity \<longleftrightarrow>
    (\<exists>value. rq_header req header = Some value \<and> hx_to_str H value = Some identity) \<and> (allowed = {} \<or> identity \<in> allowed)"
  by (auto simp: authorize_def ok_or_def split: option.splits)

lemma serve_cases:
  assumes "serve E H clk fresh now req s = (resp, s')" "sv_gateway s = Some gw"
  shows "(\<exists>identity. authorize H (mtls_header H gw) (gw_allowed gw) req = Ok identity \<and>
      handle E H clk fresh now (rq_route req) (sv_view s) = (resp, sv_view s') \<and> sv_gateway s' = Some gw) \<or>
    (refused resp \<and> s' = s \<and> \<not> is_ok (authorize H (mtls_header H gw) (gw_allowed gw) req))"
  using assms rejection_refused
  by (fastforce simp: serve_def Let_def enforce_mtls_def on_view_def split: result.splits prod.splits)

lemma serve_handles:
  assumes "serve E H clk fresh now req s = (resp, s')"
  shows "handle E H clk fresh now (rq_route req) (sv_view s) = (resp, sv_view s') \<or> (refused resp \<and> s' = s)"
proof (cases "sv_gateway s")
  case None
  then show ?thesis using assms by (auto simp: serve_def Let_def on_view_def split: prod.splits)
next
  case (Some gw)
  then show ?thesis using serve_cases [OF assms Some] by blast
qed

lemma refresh_gateway:
  assumes "sv_gateway s = Some gw"
  shows "sv_gateway (refresh H socket s) =
      Some (if fetched H socket \<noteq> [] \<and> gw_workload_client gw \<noteq> None then update_allow_list (fetched H socket) gw else gw)"
    and "sv_view (refresh H socket s) = sv_view s"
  using assms by (auto simp: refresh_def fetched_def workload_source_def split: result.splits)

text \<open>A handler changes the objects as its status says, and a get answers with the object.\<close>

definition put_ready :: "ext \<Rightarrow> request \<Rightarrow> s3_view \<Rightarrow> bool" where
  "put_ready E req v \<longleftrightarrow>
     (case rq_route req of PutRoute bucket key data \<Rightarrow> service_ready E data (s3_pipeline v) | _ \<Rightarrow> True)"

lemma handle_effect:
  assumes good: "s3_good E v" and ready: "put_ready E req v" and run: "handle E H clk fresh now (rq_route req) v = (resp, v')"
  shows "s3_good E v' \<and> objects_of E v' = answer_effect (Served req resp u u') (objects_of E v) \<and> \<not> refused resp"
proof (cases "rq_route req")
  case (PutRoute bucket key data)
  obtain r w where p: "put_object E clk fresh now bucket key data v = (r, w)" by fastforce
  from put_object_effect(1,2) [OF good _ p] ready PutRoute
  have "s3_good E w" "objects_of E w = (if is_ok r then (objects_of E v)(full_key bucket key \<mapsto> data) else objects_of E v)"
    by (auto simp: put_ready_def)
  then show ?thesis using run PutRoute p
    by (cases r) (auto simp: handle_def http_put_def respond_def refused_def full_key_def)
next
  case (GetRoute bucket key)
  obtain r w where p: "get_object E bucket key v = (r, w)" by fastforce
  show ?thesis using get_object_effect(1,2) [OF good p] run GetRoute p
    by (cases r) (auto simp: handle_def http_get_def respond_def refused_def)
next
  case (DeleteRoute bucket key)
  obtain r w where p: "delete_object bucket key v = (r, w)" by fastforce
  have "w = v" if "\<not> is_ok r" using p that by (auto simp: delete_object_def split: option.splits)
  then show ?thesis using delete_object_effect(1,2) [OF good p] run DeleteRoute p good
    by (cases r) (auto simp: handle_def http_delete_def respond_def refused_def full_key_def)
next
  case (HeadRoute bucket key)
  then show ?thesis using good run
    by (auto simp: handle_def http_head_def respond_def refused_def split: result.splits)
qed (use good run in \<open>auto simp: handle_def http_list_def health_check_def respond_def refused_def\<close>)

lemma ingress_effect:
  "ingress_run (put_ready E) E H es s s' \<Longrightarrow> s3_good E (sv_view s) \<Longrightarrow>
    s3_good E (sv_view s') \<and> objects_of E (sv_view s') = fold answer_effect es (objects_of E (sv_view s))"
proof (induction rule: ingress_run.induct)
  case (ir_serve req s clk fresh now resp s' es s'')
  have "s3_good E (sv_view s') \<and> objects_of E (sv_view s') = answer_effect (Served req resp (sv_view s) (sv_view s')) (objects_of E (sv_view s))"
  proof (cases "refused resp \<and> s' = s")
    case True
    then have "rs_status resp \<noteq> 200" "rs_status resp \<noteq> 204" by (auto simp: refused_def)
    then show ?thesis using True ir_serve.prems by (auto split: s3_route.splits)
  next
    case False
    then show ?thesis
      using serve_handles [OF ir_serve.hyps(2)] handle_effect [OF ir_serve.prems ir_serve.hyps(1)] by blast
  qed
  then show ?case using ir_serve.IH by simp
next
  case (ir_refresh es socket s s'')
  have "sv_view (refresh H socket s) = sv_view s" by (auto simp: refresh_def split: option.splits result.splits)
  then show ?case using ir_refresh by simp
qed simp

lemma gateway_in_force:
  "ingress_run R E H es s s' \<Longrightarrow> sv_gateway s = Some gw \<Longrightarrow>
    \<exists>gw'. sv_gateway s' = Some gw' \<and> gw_allowed gw' = list_in_force gw (gw_allowed gw) es \<and>
      mtls_header H gw' = mtls_header H gw"
proof (induction arbitrary: gw rule: ingress_run.induct)
  case (ir_serve req s clk fresh now resp s' es s'')
  have "sv_gateway s' = Some gw" using serve_cases [OF ir_serve.hyps(2) ir_serve.prems(1)] ir_serve.prems(1) by auto
  from ir_serve.IH [OF this] show ?case by simp
next
  case (ir_refresh es socket s s'')
  let ?ids = "fetched H socket"
  show ?case
  proof (cases "?ids \<noteq> [] \<and> gw_workload_client gw \<noteq> None")
    case True
    have same: "list_in_force (update_allow_list ?ids gw) A es = list_in_force gw A es" for A es
      by (induction gw A es rule: list_in_force.induct) (simp_all add: update_allow_list_def)
    have "sv_gateway (refresh H socket s) = Some (update_allow_list ?ids gw)"
      using refresh_gateway(1) [OF ir_refresh.prems(1)] True by simp
    from ir_refresh.IH [OF this] show ?thesis using True same by (auto simp: update_allow_list_def mtls_header_def)
  next
    case False
    then have "sv_gateway (refresh H socket s) = Some gw" using refresh_gateway(1) [OF ir_refresh.prems(1), of H socket] by auto
    from ir_refresh.IH [OF this] show ?thesis using False by auto
  qed
qed auto

lemma no_gateway: "ingress_run R E H es s s' \<Longrightarrow> sv_gateway s = None \<Longrightarrow> sv_gateway s' = None"
  by (induction rule: ingress_run.induct)
    (auto simp: refresh_def serve_def Let_def on_view_def split: prod.splits)

lemma run_append: "ingress_run R E H (es @ fs) s s'' \<longleftrightarrow> (\<exists>s'. ingress_run R E H es s s' \<and> ingress_run R E H fs s' s'')"
proof (induction es arbitrary: s)
  case Nil
  show ?case by (auto intro: ir_nil elim: ingress_run_NilE)
next
  case (Cons e es)
  show ?case
  proof (cases e)
    case (Served req resp v v')
    then show ?thesis using Cons by (fastforce elim!: ingress_run_ServedE intro: ir_serve)
  next
    case (Listed ids)
    then show ?thesis using Cons by (fastforce elim!: ingress_run_ListedE intro: ir_refresh)
  qed
qed

section \<open>Properties\<close>

text \<open>C33: The gateway decides by the list in force and by nothing else: over any history of requests and list
  refreshes, failed ones included, a request is handled exactly when the server has no gateway, or its
  identity header is readable and the list in force is empty or has the identity; any other request is refused
  and changes nothing. The list in force is the last non-empty list fetched, or else the configured one; so a
  server that starts with a list never admits an identity that is not on a list it was given, and one that
  starts without admits every readable header until a list is fetched.\<close>

theorem ingress_decides_by_list:
  assumes "ingress_run R E H (es @ Served req resp v v' # fs) s s'"
  shows "if (case sv_gateway s of None \<Rightarrow> True | Some gw \<Rightarrow>
           \<exists>value identity. rq_header req (mtls_header H gw) = Some value \<and> hx_to_str H value = Some identity \<and>
             (list_in_force gw (gw_allowed gw) es = {} \<or> identity \<in> list_in_force gw (gw_allowed gw) es))
         then \<exists>clk fresh now. handle E H clk fresh now (rq_route req) v = (resp, v')
         else refused resp \<and> v' = v"
proof -
  obtain t where t: "ingress_run R E H es s t" "ingress_run R E H (Served req resp v v' # fs) t s'"
    using assms by (auto simp: run_append)
  obtain clk fresh now t' where t': "serve E H clk fresh now req t = (resp, t')" "v = sv_view t" "v' = sv_view t'"
    using t(2) by (auto elim: ingress_run_ServedE)
  show ?thesis
  proof (cases "sv_gateway s")
    case None
    from no_gateway [OF t(1) this] have "handle E H clk fresh now (rq_route req) v = (resp, v')"
      using t' by (auto simp: serve_def Let_def on_view_def split: prod.splits)
    then show ?thesis using None by auto
  next
    case (Some gw)
    obtain gw' where gw': "sv_gateway t = Some gw'" "gw_allowed gw' = list_in_force gw (gw_allowed gw) es"
      "mtls_header H gw' = mtls_header H gw"
      using gateway_in_force [OF t(1) Some] by blast
    have "is_ok r \<longleftrightarrow> (\<exists>x. r = Ok x)" for r :: "(string, mtls_rejection) result" by (cases r) simp_all
    then have "is_ok (authorize H (mtls_header H gw') (gw_allowed gw') req) \<longleftrightarrow>
        (\<exists>value identity. rq_header req (mtls_header H gw) = Some value \<and> hx_to_str H value = Some identity \<and>
        (list_in_force gw (gw_allowed gw) es = {} \<or> identity \<in> list_in_force gw (gw_allowed gw) es))"
      using gw' by (auto simp: authorize_ok)
    then show ?thesis using serve_cases [OF t'(1) gw'(1)] t'(2,3) Some by auto
  qed
qed

text \<open>C34: The answers of the service are truthful: after any history of requests by anyone, refused and failed
  ones included, a get that is let in answers with exactly the data of the last put answered 200 and
  not followed by a deletion answered 204, and with 404 when there is none. Puts are of data the store has
  room for and can read back (\<open>put_ready\<close>).\<close>

theorem http_answers_truthful:
  assumes "s3_good E (sv_view s)" "ingress_run (put_ready E) E H es s s'"
    and "serve E H clk fresh now req s' = (resp, s'')" "rq_route req = GetRoute bucket key"
  shows "refused resp \<or>
    (case fold answer_effect es (objects_of E (sv_view s)) (bucket @ ''/'' @ key) of
       Some d \<Rightarrow> rs_status resp = 200 \<and> rs_body resp = RawBody d
     | None \<Rightarrow> rs_status resp = 404)"
proof -
  have good: "s3_good E (sv_view s')" and objs: "objects_of E (sv_view s') = fold answer_effect es (objects_of E (sv_view s))"
    using ingress_effect [OF assms(2,1)] by simp_all
  obtain r w where g: "get_object E bucket key (sv_view s') = (r, w)" by fastforce
  note G = get_object_effect(3) [OF good g]
  show ?thesis
  proof (cases "refused resp")
    case False
    then have "http_get E bucket key (sv_view s') = (resp, sv_view s'')"
      using serve_handles [OF assms(3)] assms(4) by (simp add: handle_def)
    then show ?thesis using G g objs
      by (cases r) (auto simp: http_get_def respond_def full_key_def split: option.splits)
  qed simp
qed

text \<open>Without a list the gateway lets everybody in: when the environment names no identity, or only separators
  and spaces, a request is handled whatever readable value it puts into the identity header, also when
  the eBPF program that is configured cannot be loaded.\<close>

theorem ingress_open_without_list:
  assumes "allow_list_of (case env ''SPACE_ALLOWED_SPIFFE_IDS'' of Some s \<Rightarrow> s | None \<Rightarrow> []) = []"
    and "init_gateway loads env = Some gw" "rq_header req (mtls_header H gw) = Some value" "hx_to_str H value = Some identity"
  shows "serve E H clk fresh now req (server_new loads env view) =
    on_view (handle E H clk fresh now (rq_route req)) (server_new loads env view)"
proof -
  have "gw_allowed gw = {}" using assms(1,2) by (auto simp: init_gateway_def gateway_new_def gateway_config_def)
  then have "authorize H (mtls_header H gw) (gw_allowed gw) req = Ok identity" using assms(3,4) by (simp add: authorize_ok)
  then show ?thesis using assms(2) by (simp add: serve_def Let_def enforce_mtls_def server_new_def)
qed

section \<open>Witnesses\<close>

definition sample_http :: http_ext where
  "sample_http = \<lparr>hx_header_name = Some, hx_to_str = (\<lambda>bs. Some (map (\<lambda>b. char_of (unat b)) bs)), hx_uuid = (\<lambda>u. ''id''),
     hx_identities = (\<lambda>s. Some [s])\<rparr>"

definition sample_gateway :: ebpf_gateway where
  "sample_gateway = \<lparr>gw_program = None, gw_allowed = {''A''}, gw_header_name = ''x-spiffe-id'', gw_workload_client = Some ''ws'',
     gw_refresh_interval = 30\<rparr>"

definition sample_server :: s3_server where
  "sample_server = \<lparr>sv_view = sample_s3, sv_gateway = Some sample_gateway\<rparr>"

definition request_by :: "bytes \<Rightarrow> s3_route \<Rightarrow> request" where
  "request_by value route = \<lparr>rq_header = (\<lambda>name. if name = ''x-spiffe-id'' then Some value else None), rq_route = route\<rparr>"

abbreviation get_by :: "bytes \<Rightarrow> request" where
  "get_by value \<equiv> request_by value (GetRoute ''b'' ''k'')"

lemma sample_to_str: "hx_to_str sample_http [65] = Some ''A''" "hx_to_str sample_http [66] = Some ''B''"
  by code_simp+

lemma sample_header: "mtls_header sample_http sample_gateway = ''x-spiffe-id''"
  by (simp add: mtls_header_def sample_http_def sample_gateway_def)

text \<open>The identity service replaces \<open>A\<close> by \<open>B\<close>; then \<open>A\<close>, whose header is the byte 65, is refused.\<close>

theorem ingress_decides_by_list_witness:
  "\<exists>resp s'. ingress_run (\<lambda>_ _. True) sample_ext sample_http
      [Listed [''B''], Served (get_by [65]) resp sample_s3 sample_s3] sample_server s' \<and> refused resp"
proof -
  define s1 where "s1 = refresh sample_http (Some [WsBinary, WsText ''B'']) sample_server"
  have ids: "fetched sample_http (Some [WsBinary, WsText ''B'']) = [''B'']"
    by (simp add: fetched_def fetch_allowed_def sample_http_def)
  obtain resp s2 where s2: "serve sample_ext sample_http None (CapsuleId [2]) None (get_by [65]) s1 = (resp, s2)" by fastforce
  have v1: "sv_view s1 = sample_s3"
    unfolding s1_def by (subst refresh_gateway(2) [of _ sample_gateway]) (simp_all add: sample_server_def)
  have serve: "ingress_run (\<lambda>_ _. True) sample_ext sample_http [Served (get_by [65]) resp (sv_view s1) (sv_view s2)] s1 s2"
    by (rule ir_serve [OF TrueI s2 ir_nil])
  have run: "ingress_run (\<lambda>_ _. True) sample_ext sample_http ([Listed [''B'']] @ Served (get_by [65]) resp (sv_view s1) (sv_view s2) # []) sample_server s2"
    using ir_refresh [OF serve [unfolded s1_def]] unfolding ids s1_def by simp
  have "list_in_force sample_gateway (gw_allowed sample_gateway) [Listed [''B'']] = {''B''}"
    by (simp add: sample_gateway_def)
  moreover note sample_to_str(1)
  ultimately have "refused resp \<and> sv_view s2 = sv_view s1"
    using ingress_decides_by_list [OF run]
    by (simp add: sample_server_def request_by_def sample_header)
  then show ?thesis using run v1 by auto
qed

lemma sample_admitted: "authorize sample_http (mtls_header sample_http sample_gateway) (gw_allowed sample_gateway) (request_by [65] route) = Ok ''A''"
  using sample_to_str(1) by (simp add: authorize_ok sample_header request_by_def) (simp add: sample_gateway_def)

lemma sample_kept_out: "\<not> is_ok (authorize sample_http (mtls_header sample_http sample_gateway) (gw_allowed sample_gateway) (request_by [66] route))"
  using sample_to_str(2)
  by (simp add: authorize_def sample_header request_by_def ok_or_def) (simp add: sample_gateway_def)

text \<open>\<open>A\<close> overwrites the object, \<open>B\<close> is kept from deleting it, and \<open>A\<close> gets what was put.\<close>

theorem http_answers_truthful_witness:
  "\<exists>put denied s1 resp s2.
     ingress_run (put_ready sample_ext) sample_ext sample_http
       [Served (request_by [65] (PutRoute ''b'' ''k'' [1, 9])) put sample_s3 (sv_view s1),
        Served (request_by [66] (DeleteRoute ''b'' ''k'')) denied (sv_view s1) (sv_view s1)] sample_server s1 \<and>
     rs_status put = 200 \<and> refused denied \<and>
     serve sample_ext sample_http None (CapsuleId [3]) None (request_by [65] (GetRoute ''b'' ''k'')) s1 = (resp, s2) \<and>
     rs_status resp = 200 \<and> rs_body resp = RawBody [1, 9]"
proof -
  let ?put = "request_by [65] (PutRoute ''b'' ''k'' [1, 9])"
  let ?del = "request_by [66] (DeleteRoute ''b'' ''k'')"
  let ?get = "request_by [65] (GetRoute ''b'' ''k'')"
  have gw: "sv_gateway sample_server = Some sample_gateway" "sv_view sample_server = sample_s3" by (simp_all add: sample_server_def)
  have good: "s3_good sample_ext (sv_view sample_server)" using sample_s3_good gw(2) by simp
  obtain put s1 where put: "serve sample_ext sample_http (Some 0) (CapsuleId [2]) (Some 0) ?put sample_server = (put, s1)" by fastforce
  have h: "handle sample_ext sample_http (Some 0) (CapsuleId [2]) (Some 0) (rq_route ?put) sample_s3 = (put, sv_view s1)"
    "sv_gateway s1 = Some sample_gateway"
    using serve_cases [OF put gw(1)] sample_admitted gw(2) by auto
  obtain w where "put_object sample_ext (Some 0) (CapsuleId [2]) (Some 0) ''b'' ''k'' [1, 9] sample_s3 = (Ok (CapsuleId [2]), w)"
    using sample_put by blast
  then have st: "rs_status put = 200" using h(1) by (auto simp: request_by_def handle_def http_put_def respond_def)
  obtain den t where del: "serve sample_ext sample_http None (CapsuleId [3]) None ?del s1 = (den, t)" by fastforce
  have den: "refused den" "t = s1" using serve_cases [OF del h(2)] sample_kept_out [of "DeleteRoute ''b'' ''k''"] by auto
  have ready: "put_ready sample_ext ?put (sv_view sample_server)" "put_ready sample_ext ?del (sv_view s1)"
    using sample_s3_ready gw(2) by (simp_all add: put_ready_def request_by_def)
  have "ingress_run (put_ready sample_ext) sample_ext sample_http [Served ?del den (sv_view s1) (sv_view s1)] s1 s1"
    using ir_serve [where R = "put_ready sample_ext", OF ready(2) del ir_nil] den(2) by simp
  from ir_serve [where R = "put_ready sample_ext", OF ready(1) put this]
  have run: "ingress_run (put_ready sample_ext) sample_ext sample_http
      [Served ?put put (sv_view sample_server) (sv_view s1), Served ?del den (sv_view s1) (sv_view s1)] sample_server s1" .
  obtain resp s2 where get: "serve sample_ext sample_http None (CapsuleId [3]) None ?get s1 = (resp, s2)" by fastforce
  have "s3_good sample_ext (sv_view s1)" using ingress_effect [OF run good] by simp
  moreover have "handle sample_ext sample_http None (CapsuleId [3]) None (rq_route ?get) (sv_view s1) = (resp, sv_view s2)"
    using serve_cases [OF get h(2)] sample_admitted by auto
  moreover have "put_ready sample_ext ?get (sv_view s1)" by (simp add: put_ready_def request_by_def)
  ultimately have "\<not> refused resp" using handle_effect by blast
  with http_answers_truthful [OF good run get, of "''b''" "''k''"] st den(1)
  have "rs_status resp = 200 \<and> rs_body resp = RawBody [1, 9]"
    by (auto simp: request_by_def refused_def)
  then show ?thesis using run [unfolded gw(2)] st den(1) get by blast
qed

theorem ingress_open_without_list_witness:
  "serve sample_ext sample_http None (CapsuleId [2]) None (get_by [66])
     (server_new (\<lambda>_. False) (\<lambda>name. if name = ''SPACE_BPF_PROGRAM'' then Some ''p.o'' else None) sample_s3) =
   on_view (handle sample_ext sample_http None (CapsuleId [2]) None (GetRoute ''b'' ''k''))
     (server_new (\<lambda>_. False) (\<lambda>name. if name = ''SPACE_BPF_PROGRAM'' then Some ''p.o'' else None) sample_s3)"
proof -
  let ?env = "\<lambda>name. if name = ''SPACE_BPF_PROGRAM'' then Some ''p.o'' else None"
  have "allow_list_of [] = []" by code_simp
  moreover obtain gw where gw: "init_gateway (\<lambda>_. False) ?env = Some gw" "gw_header_name gw = ''x-spiffe-id''"
    by (simp add: init_gateway_def gateway_new_def gateway_config_def)
  ultimately show ?thesis
    using ingress_open_without_list [of ?env "\<lambda>_. False" gw "get_by [66]" sample_http "[66]" "''B''" sample_ext None "CapsuleId [2]" None sample_s3]
    by (simp add: request_by_def mtls_header_def sample_to_str) (simp add: sample_http_def)
qed

end
