(* ===== verification/Mesh_Replication.thy ===== *)
theory Mesh_Replication
  imports Policy_Compiler Async_Pipeline
begin

text \<open>
  What a pipeline with the feature \<open>podms\<close> does after an asynchronous write: mirroring the segments to
  peers (\<open>perform_metro_sync_replication\<close> in \<open>crates/capsule-registry/src/pipeline.rs\<close> and
  \<open>mirror_segment\<close> in \<open>crates/scaling/src/lib.rs\<close>) and telling the scaling agent. The network is the
  outcomes of the next system calls and the bytes delivered so far to each address.
\<close>

section \<open>The transport\<close>

record network =
  nw_io :: "io_outcome list"
  nw_delivered :: "(string \<times> bytes) list"

type_synonym 'a net_op = "(network, 'a, error) op"

definition net_io :: "io_outcome net_op" where
  "net_io nw = (case io_next (nw_io nw) of (out, io) \<Rightarrow> (Ok out, nw\<lparr>nw_io := io\<rparr>))"

definition tcp_connect :: "unit net_op" where
  "tcp_connect = bind_op net_io (\<lambda>out. if out = IoOk then return_op () else fail_op IoError)"

text \<open>\<open>write_all\<close>: a failure after some bytes leaves those with the receiver.\<close>

definition tcp_write_all :: "string \<Rightarrow> bytes \<Rightarrow> unit net_op" where
  "tcp_write_all addr data =
     bind_op net_io (\<lambda>out nw.
       case out of
         IoOk \<Rightarrow> (Ok (), nw\<lparr>nw_delivered := nw_delivered nw @ [(addr, data)]\<rparr>)
       | IoFail k \<Rightarrow> (Err IoError, nw\<lparr>nw_delivered := nw_delivered nw @ [(addr, take k data)]\<rparr>))"

definition tcp_shutdown :: "unit net_op" where
  "tcp_shutdown = bind_op net_io (\<lambda>out. if out = IoOk then return_op () else fail_op IoError)"

definition mirror_segment :: "mesh_node \<Rightarrow> bytes \<Rightarrow> node_id \<Rightarrow> unit net_op" where
  "mirror_segment mn segment_data target =
     bind_op (lift_result (ok_or (hm_get (mn_peers mn) target) (Rejected ''target node not found in peer registry''))) (\<lambda>target_addr.
     bind_op tcp_connect (\<lambda>_.
     bind_op (tcp_write_all target_addr segment_data) (\<lambda>_. tcp_shutdown)))"

section \<open>Replication\<close>

text \<open>The inner loop over the targets; a failure is counted as no replica and the loop goes on.\<close>

fun mirror_to :: "mesh_node \<Rightarrow> bytes \<Rightarrow> node_id list \<Rightarrow> nat \<Rightarrow> network \<Rightarrow> nat \<times> network" where
  "mirror_to mn segment_data [] replicated nw = (replicated, nw)"
| "mirror_to mn segment_data (target # targets) replicated nw =
     (case mirror_segment mn segment_data target nw of
        (Ok _, nw) \<Rightarrow> mirror_to mn segment_data targets (replicated + 1) nw
      | (Err _, nw) \<Rightarrow> mirror_to mn segment_data targets replicated nw)"

fun mirror_segments :: "mesh_node \<Rightarrow> nvram_log \<Rightarrow> node_id list \<Rightarrow> segment_id list \<Rightarrow> nat \<Rightarrow> nat net_op" where
  "mirror_segments mn lg targets [] replicated nw = (Ok replicated, nw)"
| "mirror_segments mn lg targets (sid # seg_ids) replicated nw =
     bind_op (lift_result (nv_read sid lg)) (\<lambda>segment_data.
     bind_op (lift_result (nv_get_segment_metadata sid lg)) (\<lambda>segment_meta nw.
       case mirror_to mn segment_data targets replicated nw of
         (replicated, nw) \<Rightarrow> mirror_segments mn lg targets seg_ids replicated nw)) nw"

definition perform_metro_sync_replication :: "mesh_node \<Rightarrow> nvram_log \<Rightarrow> segment_id list \<Rightarrow> nat net_op" where
  "perform_metro_sync_replication mn lg segment_ids =
     (let peers = discover_peers mn
      in if peers = [] then return_op 0
         else mirror_segments mn lg (take (min 2 (length peers)) peers) segment_ids 0)"

section \<open>The write\<close>

text \<open>
  A pipeline with its mesh node and the receiving end of its telemetry channel, both optional; a
  channel that is closed is \<open>Some None\<close>.
\<close>

record podms_pipeline =
  pp_pipeline :: write_pipeline
  pp_mesh_node :: "mesh_node option"
  pp_telemetry :: "telemetry list option option"
  pp_network :: network

definition with_mesh_node :: "mesh_node \<Rightarrow> podms_pipeline \<Rightarrow> podms_pipeline" where
  "with_mesh_node mn p = p\<lparr>pp_mesh_node := Some mn\<rparr>"

definition with_telemetry_channel :: "telemetry list option \<Rightarrow> podms_pipeline \<Rightarrow> podms_pipeline" where
  "with_telemetry_channel tx p = p\<lparr>pp_telemetry := Some tx\<rparr>"

text \<open>The segments of the capsule the write has just registered.\<close>

definition written_segments :: "capsule_id \<Rightarrow> write_pipeline \<Rightarrow> segment_id list" where
  "written_segments cid p = (case reg_lookup cid (st_registry (wp_store p)) of Ok cap \<Rightarrow> cap_segments cap | Err _ \<Rightarrow> [])"

text \<open>Success and failure of the replication are only logged.\<close>

definition replicate_written :: "policy \<Rightarrow> segment_id list \<Rightarrow> podms_pipeline \<Rightarrow> podms_pipeline" where
  "replicate_written pol segment_ids p =
     (if rpo pol = 0 then
        (case pp_mesh_node p of
           Some mesh_node \<Rightarrow>
             (case perform_metro_sync_replication mesh_node (st_nvram (wp_store (pp_pipeline p))) segment_ids (pp_network p) of
                (_, nw) \<Rightarrow> p\<lparr>pp_network := nw\<rparr>)
         | None \<Rightarrow> p)
      else p)"

definition emit_telemetry :: "capsule_id \<Rightarrow> policy \<Rightarrow> podms_pipeline \<Rightarrow> podms_pipeline" where
  "emit_telemetry cid pol p =
     (case pp_telemetry p of
        Some (Some sent) \<Rightarrow> p\<lparr>pp_telemetry := Some (Some (sent @ [NewCapsule cid pol None]))\<rparr>
      | _ \<Rightarrow> p)"

text \<open>An empty capsule returns before either.\<close>

definition write_capsule_podms ::
  "ext \<Rightarrow> u64 option \<Rightarrow> capsule_id \<Rightarrow> bytes \<Rightarrow> policy \<Rightarrow> nat \<Rightarrow> nat list \<Rightarrow> nat list \<Rightarrow>
   podms_pipeline \<Rightarrow> (capsule_id, error) result \<times> podms_pipeline" where
  "write_capsule_podms E now cid data pol memory_limit sched arrivals p =
     (case write_capsule_async E now cid data pol memory_limit sched arrivals (pp_pipeline p) of
        (Err e, wp) \<Rightarrow> (Err e, p\<lparr>pp_pipeline := wp\<rparr>)
      | (Ok capsule_id, wp) \<Rightarrow>
          (let p = p\<lparr>pp_pipeline := wp\<rparr>
           in if data = [] then (Ok capsule_id, p)
              else (Ok capsule_id, emit_telemetry capsule_id pol (replicate_written pol (written_segments capsule_id wp) p))))"

section \<open>The agent's loop\<close>

text \<open>\<open>ScalingAgent::run\<close> over the events of a channel that is then closed: what it carries out.\<close>

fun run_agent :: "float_ops \<Rightarrow> mesh_node \<Rightarrow> telemetry list \<Rightarrow> scaling_action list" where
  "run_agent F mn [] = []"
| "run_agent F mn (event # events) = handle_telemetry_event F mn event @ run_agent F mn events"

end
