(* ===== verification/Federation.thy ===== *)
theory Federation
  imports Policy_Compiler Registry
begin

text \<open>
  The projected views of the feature \<open>phase4\<close>: \<open>protocol-csi\<close>, \<open>protocol-fuse\<close>, \<open>protocol-nvme\<close> and
  \<open>protocol-nfs/src/phase4.rs\<close>, with the federation of \<open>crates/scaling/src/lib.rs\<close> and the stand-ins for
  Raft, SPDK, FUSE, NFS and CSI under \<open>vendor\<close>. What the Raft stand-in is asked to do is kept as a list
  of calls. The text and the JSON of identifiers and capsules (\<open>uuid\<close>, \<open>serde_json\<close>) are parameters.
\<close>

section \<open>The Raft stand-in\<close>

datatype raft_call = RaftReplicate string string string | RaftStore string u64 bytes

record raft_cluster =
  rc_name :: string
  rc_zone_hint :: "string option"

definition raft_cluster_new :: raft_cluster where
  "raft_cluster_new = \<lparr>rc_name = ''space-phase4'', rc_zone_hint = None\<rparr>"

definition raft_for_zone :: "string \<Rightarrow> raft_cluster" where
  "raft_for_zone zone = \<lparr>rc_name = ''space-phase4-zone-'' @ zone, rc_zone_hint = Some zone\<rparr>"

type_synonym 'a raft_op = "(raft_call list, 'a, error) op"

definition raft_replicate :: "raft_cluster \<Rightarrow> string \<Rightarrow> string \<Rightarrow> unit raft_op" where
  "raft_replicate cluster cap zone calls = (Ok (), calls @ [RaftReplicate (rc_name cluster) cap zone])"

definition raft_store_shard :: "raft_cluster \<Rightarrow> u64 \<Rightarrow> bytes \<Rightarrow> unit raft_op" where
  "raft_store_shard cluster shard payload calls = (Ok (), calls @ [RaftStore (rc_name cluster) shard payload])"

section \<open>Federation\<close>

record view_ext =
  vx_uuid :: "uuid \<Rightarrow> string"
  vx_parse_uuid :: "string \<Rightarrow> uuid option"
  vx_capsule_json :: "capsule \<Rightarrow> bytes"

record metadata_shard =
  sh_shard_id :: u64
  sh_owner :: node_id
  sh_zone :: zone_id

definition federate_capsule :: "view_ext \<Rightarrow> capsule_id \<Rightarrow> zone_id \<Rightarrow> unit raft_op" where
  "federate_capsule V cid zone = raft_replicate raft_cluster_new (vx_uuid V (as_uuid cid)) (zone_to_string zone)"

definition shard_metadata :: "metadata_shard list \<Rightarrow> bytes \<Rightarrow> unit raft_op" where
  "shard_metadata shards payload =
     for_each (\<lambda>shard. raft_store_shard (raft_for_zone (zone_to_string (sh_zone shard))) (sh_shard_id shard) payload) shards"

definition resolve_federated :: "mesh_node \<Rightarrow> node_id" where
  "resolve_federated mn = (case discover_peers mn of peer # _ \<Rightarrow> peer | [] \<Rightarrow> mn_id mn)"

definition serialize_capsule :: "view_ext \<Rightarrow> capsule_id \<Rightarrow> registry \<Rightarrow> (bytes, error) result" where
  "serialize_capsule V cid rg = bind_result (reg_lookup cid rg) (\<lambda>cap. Ok (vx_capsule_json V cap))"

definition shards_for :: "mesh_node \<Rightarrow> capsule_id \<Rightarrow> zone_id list \<Rightarrow> metadata_shard list" where
  "shards_for mn cid zones =
     map (\<lambda>(zone, shard_id). \<lparr>sh_shard_id = shard_id, sh_owner = mn_id mn, sh_zone = zone\<rparr>)
       (zip zones (shard_keys cid (length zones)))"

text \<open>The loop over the actions, the same in every view; actions of other kinds are skipped.\<close>

definition project_action :: "view_ext \<Rightarrow> mesh_node \<Rightarrow> registry \<Rightarrow> scaling_action \<Rightarrow> unit raft_op" where
  "project_action V mn rg action =
     (case action of
        Federate cid zone \<Rightarrow> federate_capsule V cid zone
      | ShardEC cid parity zones \<Rightarrow>
          if zones = [] then return_op ()
          else bind_op (lift_result (serialize_capsule V cid rg)) (\<lambda>payload. shard_metadata (shards_for mn cid zones) payload)
      | _ \<Rightarrow> return_op ())"

definition project_actions ::
  "float_ops \<Rightarrow> view_ext \<Rightarrow> mesh_node \<Rightarrow> registry \<Rightarrow> policy \<Rightarrow> capsule_id \<Rightarrow> string \<Rightarrow> unit raft_op" where
  "project_actions F V mn rg pol cid view =
     for_each (project_action V mn rg) (compile_scaling F pol (ViewProjection cid view) (mesh_empty (mn_zone mn)))"

section \<open>Views\<close>

record fuse_mount =
  fm_mountpoint :: string
  fm_mounted_data :: bytes

record nvme_view =
  nvv_capsule_id :: capsule_id
  nvv_namespaces :: "bytes list"

definition export_nfs_view ::
  "float_ops \<Rightarrow> view_ext \<Rightarrow> mesh_node \<Rightarrow> registry \<Rightarrow> policy \<Rightarrow> capsule_id \<Rightarrow> (string \<times> string) list raft_op" where
  "export_nfs_view F V mn rg pol cid =
     bind_op (lift_result (reg_lookup cid rg)) (\<lambda>_.
     bind_op (project_actions F V mn rg pol cid ''nfs'') (\<lambda>_.
       return_op [(vx_uuid V (as_uuid cid), ''/capsules/'' @ vx_uuid V (as_uuid cid))]))"

definition csi_provision_capsule ::
  "float_ops \<Rightarrow> view_ext \<Rightarrow> mesh_node \<Rightarrow> registry \<Rightarrow> policy \<Rightarrow> string \<Rightarrow> string raft_op" where
  "csi_provision_capsule F V mn rg pol request_id =
     bind_op (lift_result (ok_or (vx_parse_uuid V request_id) ParseError)) (\<lambda>uuid.
     let cid = CapsuleId uuid
     in bind_op (lift_result (reg_lookup cid rg)) (\<lambda>_.
        bind_op (project_actions F V mn rg pol cid ''csi'') (\<lambda>_.
          return_op (vx_uuid V (as_uuid cid)))))"

definition mount_fuse_view ::
  "float_ops \<Rightarrow> view_ext \<Rightarrow> mesh_node \<Rightarrow> registry \<Rightarrow> policy \<Rightarrow> capsule_id \<Rightarrow> string \<Rightarrow> fuse_mount raft_op" where
  "mount_fuse_view F V mn rg pol cid mountpoint =
     bind_op (lift_result (reg_lookup cid rg)) (\<lambda>cap.
     bind_op (lift_result (apply_transform cap [] pol)) (\<lambda>transformed.
     bind_op (project_actions F V mn rg pol cid ''fuse'') (\<lambda>_.
       return_op \<lparr>fm_mountpoint = mountpoint, fm_mounted_data = transformed\<rparr>)))"

definition project_nvme_view ::
  "float_ops \<Rightarrow> view_ext \<Rightarrow> mesh_node \<Rightarrow> registry \<Rightarrow> policy \<Rightarrow> capsule_id \<Rightarrow> nvme_view raft_op" where
  "project_nvme_view F V mn rg pol cid =
     bind_op (lift_result (reg_lookup cid rg)) (\<lambda>cap.
     bind_op (lift_result (apply_transform cap [] pol)) (\<lambda>transformed.
     bind_op (project_actions F V mn rg pol cid ''nvme'') (\<lambda>_.
       return_op \<lparr>nvv_capsule_id = cid, nvv_namespaces = [transformed]\<rparr>)))"

end
