(* ===== verification/Mesh_Properties.thy ===== *)
theory Mesh_Properties
  imports Mesh_Replication Federation Policy_Properties Async_Properties "HOL-Library.Sublist"
begin

text \<open>
  What mirroring and telemetry do after a write, under any failures of the network, where the agent's
  decision differs, and what projected views expose and store in the mesh.
\<close>

section \<open>Mirroring\<close>

text \<open>The deliveries a replication aims at: every segment to every target, in this order.\<close>

definition attempts :: "string list \<Rightarrow> bytes list \<Rightarrow> (string \<times> bytes) list" where
  "attempts addrs pieces = concat (map (\<lambda>piece. map (\<lambda>addr. (addr, piece)) addrs) pieces)"

text \<open>
  \<open>mirrored ts n ds\<close>: of the attempts \<open>ts\<close> some were made, each delivering a prefix, and \<open>n\<close> of them
  went through as a whole.
\<close>

definition mirrored :: "(string \<times> bytes) list \<Rightarrow> nat \<Rightarrow> (string \<times> bytes) list \<Rightarrow> bool" where
  "mirrored ts n ds \<longleftrightarrow>
     (\<exists>full. length full = n \<and> subseq full ts \<and> subseq full ds) \<and>
     (\<exists>made. subseq made ts \<and> list_all2 (\<lambda>(a, d) (a', d'). a = a' \<and> prefix d d') ds made)"

lemma mirrored_append:
  assumes "mirrored ts n ds" "mirrored ts' n' ds'"
  shows "mirrored (ts @ ts') (n + n') (ds @ ds')"
proof -
  obtain full made full' made' where
    "length full = n" "subseq full ts" "subseq full ds" "subseq made ts" "list_all2 (\<lambda>(a, d) (a', d'). a = a' \<and> prefix d d') ds made"
    "length full' = n'" "subseq full' ts'" "subseq full' ds'" "subseq made' ts'"
    "list_all2 (\<lambda>(a, d) (a', d'). a = a' \<and> prefix d d') ds' made'"
    using assms unfolding mirrored_def by blast
  then show ?thesis unfolding mirrored_def
    by (intro conjI exI [of _ "full @ full'"] exI [of _ "made @ made'"]) (auto intro: list_emb_append_mono list_all2_appendI)
qed

lemma mirror_segment_effect:
  assumes "hm_get (mn_peers mn) target = Some addr"
  shows "\<exists>ds. mirror_segment mn data target nw = (r, nw') \<longrightarrow>
    nw_delivered nw' = nw_delivered nw @ ds \<and> mirrored [(addr, data)] (if is_ok r then 1 else 0) ds \<and>
    (nw_io nw = [] \<longrightarrow> is_ok r \<and> nw_io nw' = [] \<and> ds = [(addr, data)])"
proof -
  obtain o1 io1 where o1: "io_next (nw_io nw) = (o1, io1)" by fastforce
  obtain o2 io2 where o2: "io_next io1 = (o2, io2)" by fastforce
  obtain o3 io3 where o3: "io_next io2 = (o3, io3)" by fastforce
  have none: "mirrored [(addr, data)] 0 []" by (simp add: mirrored_def)
  have whole: "mirrored [(addr, data)] (if b then 1 else 0) [(addr, data)]" for b
    unfolding mirrored_def by (intro conjI exI [of _ "if b then [(addr, data)] else []"] exI [of _ "[(addr, data)]"]) simp_all
  have part: "mirrored [(addr, data)] 0 [(addr, take k data)]" for k
    unfolding mirrored_def by (intro conjI exI [of _ "[]"] exI [of _ "[(addr, data)]"]) (simp_all add: take_is_prefix)
  note defs = mirror_segment_def bind_op_def lift_result_def tcp_connect_def tcp_write_all_def tcp_shutdown_def net_io_def
    return_op_def fail_op_def
  show ?thesis
  proof (cases o1)
    case (IoFail k)
    then show ?thesis using assms o1 none by (intro exI [of _ "[]"]) (auto simp: defs)
  next
    case IoOk
    show ?thesis
    proof (cases o2)
      case (IoFail k)
      then show ?thesis using assms o1 o2 IoOk part by (intro exI [of _ "[(addr, take k data)]"]) (auto simp: defs)
    next
      case (IoOk)
      then show ?thesis using assms o1 o2 o3 \<open>o1 = IoOk\<close> whole [of True] whole [of False]
        by (intro exI [of _ "[(addr, data)]"]) (auto simp: defs)
    qed
  qed
qed

lemma mirror_to_effect:
  assumes "list_all2 (\<lambda>t a. hm_get (mn_peers mn) t = Some a) targets addrs" "mirror_to mn data targets n nw = (n', nw')"
  shows "\<exists>k ds. n' = n + k \<and> nw_delivered nw' = nw_delivered nw @ ds \<and> mirrored (attempts addrs [data]) k ds \<and>
    (nw_io nw = [] \<longrightarrow> nw_io nw' = [] \<and> ds = attempts addrs [data] \<and> k = length addrs)"
  using assms
proof (induction targets addrs arbitrary: n nw rule: list_all2_induct)
  case Nil
  have "mirrored [] 0 []" by (simp add: mirrored_def)
  then show ?case using Nil by (auto simp: attempts_def intro!: exI [of _ 0] exI [of _ "[]"])
next
  case (Cons target targets addr addrs)
  obtain r w where w: "mirror_segment mn data target nw = (r, w)" by fastforce
  obtain ds where ds: "nw_delivered w = nw_delivered nw @ ds" "mirrored [(addr, data)] (if is_ok r then 1 else 0) ds"
    "nw_io nw = [] \<longrightarrow> is_ok r \<and> nw_io w = [] \<and> ds = [(addr, data)]"
    using mirror_segment_effect [OF Cons.hyps(1), of data nw r w] w by blast
  have "mirror_to mn data targets (n + (if is_ok r then 1 else 0)) w = (n', nw')" using Cons.prems w by (cases r) simp_all
  from Cons.IH [OF this] obtain k ds' where k: "n' = n + (if is_ok r then 1 else 0) + k" "nw_delivered nw' = nw_delivered w @ ds'"
    "mirrored (attempts addrs [data]) k ds'"
    "nw_io w = [] \<longrightarrow> nw_io nw' = [] \<and> ds' = attempts addrs [data] \<and> k = length addrs" by blast
  have "attempts (addr # addrs) [data] = [(addr, data)] @ attempts addrs [data]" by (simp add: attempts_def)
  then show ?case
    using mirrored_append [OF ds(2) k(3)] ds(1,3) k(1,2,4)
    by (intro exI [of _ "(if is_ok r then 1 else 0) + k"] exI [of _ "ds @ ds'"]) auto
qed

lemma mirror_segments_effect:
  assumes "list_all2 (\<lambda>t a. hm_get (mn_peers mn) t = Some a) targets addrs"
    and "list_all2 (\<lambda>sid piece. nv_read sid lg = Ok piece) sids pieces"
    and "mirror_segments mn lg targets sids n nw = (r, nw')"
  shows "\<exists>k ds. r = Ok (n + k) \<and> nw_delivered nw' = nw_delivered nw @ ds \<and> mirrored (attempts addrs pieces) k ds \<and>
    (nw_io nw = [] \<longrightarrow> nw_io nw' = [] \<and> ds = attempts addrs pieces \<and> k = length pieces * length addrs)"
  using assms(2,3)
proof (induction sids pieces arbitrary: n nw rule: list_all2_induct)
  case Nil
  have "mirrored [] 0 []" by (simp add: mirrored_def)
  then show ?case using Nil by (auto simp: attempts_def intro!: exI [of _ 0] exI [of _ "[]"])
next
  case (Cons sid sids piece pieces)
  obtain m w where w: "mirror_to mn piece targets n nw = (m, w)" by fastforce
  obtain k ds where k: "m = n + k" "nw_delivered w = nw_delivered nw @ ds" "mirrored (attempts addrs [piece]) k ds"
    "nw_io nw = [] \<longrightarrow> nw_io w = [] \<and> ds = attempts addrs [piece] \<and> k = length addrs"
    using mirror_to_effect [OF assms(1) w] by blast
  obtain seg where "nv_get_segment_metadata sid lg = Ok seg"
    using Cons.hyps(1) by (auto simp: nv_read_def nv_get_segment_metadata_def split: option.splits)
  then have "mirror_segments mn lg targets sids m w = (r, nw')"
    using Cons.prems Cons.hyps(1) w by (simp add: bind_op_def lift_result_def)
  from Cons.IH [OF this] obtain k' ds' where k': "r = Ok (m + k')" "nw_delivered nw' = nw_delivered w @ ds'"
    "mirrored (attempts addrs pieces) k' ds'"
    "nw_io w = [] \<longrightarrow> nw_io nw' = [] \<and> ds' = attempts addrs pieces \<and> k' = length pieces * length addrs" by blast
  have "attempts addrs (piece # pieces) = attempts addrs [piece] @ attempts addrs pieces" by (simp add: attempts_def)
  then show ?case
    using mirrored_append [OF k(3) k'(3)] k(1,2,4) k'(1,2,4)
    by (intro exI [of _ "k + k'"] exI [of _ "ds @ ds'"]) auto
qed

text \<open>A capsule that can be read has readable segments.\<close>

lemma bind_store:
  assumes "\<And>r q. m p = (r, q) \<Longrightarrow> wp_store q = wp_store p" "\<And>x q. wp_store (snd (f x q)) = wp_store q"
  shows "wp_store (snd (bind_op m f p)) = wp_store p"
  using assms(1) [OF prod.collapse [symmetric]] assms(2)
  by (cases "m p") (auto simp: bind_op_def split: result.splits)

lemma lift_store: "wp_store (snd (lift_result r p)) = wp_store p"
  by (simp add: lift_result_def)

lemma get_key_store: "wp_get_key E v p = (r, q) \<Longrightarrow> wp_store q = wp_store p"
  by (auto simp: wp_get_key_def split: option.splits prod.splits)

lemma read_decrypt_store: "read_decrypt E seg raw p = (r, p') \<Longrightarrow> wp_store p' = wp_store p"
proof -
  have "wp_store (snd (read_decrypt E seg raw p)) = wp_store p"
    unfolding read_decrypt_def Let_def
    by (auto intro!: bind_store lift_store dest: get_key_store simp: lift_result_def)
  then show "read_decrypt E seg raw p = (r, p') \<Longrightarrow> wp_store p' = wp_store p" by simp
qed

lemma read_loop_readable:
  "is_ok (fst (read_loop E pol sids acc p)) \<Longrightarrow> \<exists>pieces. list_all2 (\<lambda>sid piece. nv_read sid (st_nvram (wp_store p)) = Ok piece) sids pieces"
proof (induction sids arbitrary: acc p)
  case (Cons sid sids)
  obtain raw where raw: "nv_read sid (st_nvram (wp_store p)) = Ok raw"
    using Cons.prems by (cases "nv_read sid (st_nvram (wp_store p))") (simp_all add: bind_op_def lift_result_def)
  obtain seg where seg: "nv_get_segment_metadata sid (st_nvram (wp_store p)) = Ok seg"
    using Cons.prems raw by (cases "nv_get_segment_metadata sid (st_nvram (wp_store p))") (simp_all add: bind_op_def lift_result_def)
  obtain r q where q: "read_decrypt E seg raw p = (r, q)" by fastforce
  have "wp_store q = wp_store p" by (rule read_decrypt_store [OF q])
  moreover
  have "\<exists>acc'. is_ok (fst (read_loop E pol sids acc' q))"
  proof (cases r)
    case (Ok d)
    then have "read_loop E pol (sid # sids) acc p = read_loop E pol sids (acc @ decompress_by_policy E pol d) q"
      using raw seg q by (simp add: bind_op_def lift_result_def)
    then have "is_ok (fst (read_loop E pol sids (acc @ decompress_by_policy E pol d) q))" using Cons.prems by simp
    then show ?thesis by (rule exI)
  next
    case (Err e)
    then show ?thesis using Cons.prems raw seg q by (simp add: bind_op_def lift_result_def)
  qed
  then obtain acc' where "is_ok (fst (read_loop E pol sids acc' q))" by blast
  from Cons.IH [OF this] obtain pieces where "list_all2 (\<lambda>sid piece. nv_read sid (st_nvram (wp_store q)) = Ok piece) sids pieces" by blast
  ultimately show ?case using raw by (intro exI [of _ "raw # pieces"]) simp
qed (intro exI [of _ "[]"], simp)

lemma read_capsule_readable:
  assumes "is_ok (fst (read_capsule E cid p))"
  shows "\<exists>pieces. list_all2 (\<lambda>sid piece. nv_read sid (st_nvram (wp_store p)) = Ok piece) (written_segments cid p) pieces"
proof (cases "reg_lookup cid (st_registry (wp_store p))")
  case (Ok cap)
  then have "is_ok (fst (read_loop E (compression (cap_policy cap)) (cap_segments cap) [] p))"
    using assms by (simp add: read_capsule_def bind_op_def lift_result_def)
  from read_loop_readable [OF this] show ?thesis using Ok by (simp add: written_segments_def)
qed (use assms in \<open>simp add: read_capsule_def bind_op_def lift_result_def\<close>)

lemma read_no_segments: "fst (read_capsule E cid p) = Ok data \<Longrightarrow> written_segments cid p = [] \<Longrightarrow> data = []"
  by (cases "reg_lookup cid (st_registry (wp_store p))")
    (auto simp: read_capsule_def written_segments_def bind_op_def lift_result_def split: if_splits)

lemma first_peers:
  assumes "hm_ok (mn_peers mn)"
  shows "list_all2 (\<lambda>t a. hm_get (mn_peers mn) t = Some a) (take 2 (hm_keys (mn_peers mn))) (take 2 (hm_values (mn_peers mn)))"
proof -
  have "list_all2 (\<lambda>t a. hm_get (mn_peers mn) t = Some a) (hm_keys (mn_peers mn)) (hm_values (mn_peers mn))"
    using assms by (simp add: list_all2_conv_all_nth hm_ok_def)
  then show ?thesis by (rule list_all2_takeI)
qed

lemma replicate_effect:
  assumes ok: "hm_ok (mn_peers mn)" and pieces: "list_all2 (\<lambda>sid piece. nv_read sid lg = Ok piece) sids pieces"
    and run: "perform_metro_sync_replication mn lg sids nw = (r, nw')"
  shows "\<exists>k ds. r = Ok k \<and> nw_delivered nw' = nw_delivered nw @ ds \<and>
    mirrored (attempts (take 2 (hm_values (mn_peers mn))) pieces) k ds \<and>
    (nw_io nw = [] \<longrightarrow> ds = attempts (take 2 (hm_values (mn_peers mn))) pieces)"
proof (cases "mn_peers mn = []")
  case True
  have "mirrored (attempts [] pieces) 0 []" by (simp add: mirrored_def attempts_def)
  moreover have "attempts [] pieces = []" by (induction pieces) (simp_all add: attempts_def)
  ultimately show ?thesis using run True by (auto simp: perform_metro_sync_replication_def discover_peers_def return_op_def)
next
  case False
  have two: "take (min 2 (length xs)) xs = take 2 xs" for xs :: "node_id list" by (simp add: min_def)
  have "mirror_segments mn lg (take 2 (hm_keys (mn_peers mn))) sids 0 nw = (r, nw')"
    using run False by (simp add: perform_metro_sync_replication_def discover_peers_def two [of "hm_keys (mn_peers mn)", simplified])
  from mirror_segments_effect [OF first_peers [OF ok] pieces this] show ?thesis by auto
qed

text \<open>A network that refuses every connection.\<close>

lemma refused_mirror:
  assumes "nw_io nw = replicate (Suc m) (IoFail 0)"
  shows "\<exists>e nw' m'. mirror_segment mn data target nw = (Err e, nw') \<and> nw_delivered nw' = nw_delivered nw \<and>
    nw_io nw' = replicate m' (IoFail 0) \<and> m \<le> m'"
proof (cases "hm_get (mn_peers mn) target")
  case None
  then show ?thesis using assms by (intro exI [of _ "Rejected ''target node not found in peer registry''"] exI [of _ nw] exI [of _ "Suc m"])
      (simp add: mirror_segment_def bind_op_def lift_result_def)
next
  case (Some addr)
  then have "mirror_segment mn data target nw = (Err IoError, nw\<lparr>nw_io := replicate m (IoFail 0)\<rparr>)"
    using assms by (simp add: mirror_segment_def bind_op_def lift_result_def tcp_connect_def net_io_def fail_op_def)
  then show ?thesis by auto
qed

lemma refused_mirror_to:
  "nw_io nw = replicate (length targets + m) (IoFail 0) \<Longrightarrow> mirror_to mn data targets n nw = (n', nw') \<Longrightarrow>
    nw_delivered nw' = nw_delivered nw \<and> (\<exists>m'\<ge>m. nw_io nw' = replicate m' (IoFail 0))"
proof (induction targets arbitrary: n nw m)
  case (Cons target targets)
  obtain e w m' where w: "mirror_segment mn data target nw = (Err e, w)" "nw_delivered w = nw_delivered nw"
    "nw_io w = replicate m' (IoFail 0)" "length targets + m \<le> m'"
    using refused_mirror [of nw "length targets + m" mn data target] Cons.prems(1) by auto
  then obtain d where d: "m' = length targets + (m + d)" by (metis add.assoc le_Suc_ex)
  have "mirror_to mn data targets n w = (n', nw')" using Cons.prems(2) w(1) by simp
  from Cons.IH [OF w(3) [unfolded d] this] w(2) show ?case by (auto intro: order_trans [of m "m + d"])
qed auto

lemma refused_mirror_segments:
  "nw_io nw = replicate (length sids * length targets + m) (IoFail 0) \<Longrightarrow> mirror_segments mn lg targets sids n nw = (r, nw') \<Longrightarrow>
    nw_delivered nw' = nw_delivered nw"
proof (induction sids arbitrary: n nw m)
  case (Cons sid sids)
  show ?case
  proof (cases "nv_read sid lg")
    case (Ok piece)
    then obtain seg where seg: "nv_get_segment_metadata sid lg = Ok seg"
      by (auto simp: nv_read_def nv_get_segment_metadata_def split: option.splits)
    obtain k w where w: "mirror_to mn piece targets n nw = (k, w)" by fastforce
    have "nw_io nw = replicate (length targets + (length sids * length targets + m)) (IoFail 0)"
      using Cons.prems(1) by (simp add: add.assoc)
    from refused_mirror_to [OF this w] obtain m' where m': "nw_delivered w = nw_delivered nw"
      "nw_io w = replicate m' (IoFail 0)" "length sids * length targets + m \<le> m'" by blast
    then obtain d where d: "m' = length sids * length targets + (m + d)" by (metis add.assoc le_Suc_ex)
    have "mirror_segments mn lg targets sids k w = (r, nw')"
      using Cons.prems(2) Ok seg w by (simp add: bind_op_def lift_result_def)
    from Cons.IH [OF m'(2) [unfolded d] this] m'(1) show ?thesis by simp
  qed (use Cons.prems in \<open>simp add: bind_op_def lift_result_def\<close>)
qed simp

section \<open>Properties\<close>

lemma podms_Ok:
  assumes "write_capsule_podms E now cid data pol limit sched arrivals p = (Ok cid', p')"
  obtains wp where "write_capsule_async E now cid data pol limit sched arrivals (pp_pipeline p) = (Ok cid', wp)"
    "p' = (if data = [] then p\<lparr>pp_pipeline := wp\<rparr>
           else emit_telemetry cid' pol (replicate_written pol (written_segments cid' wp) (p\<lparr>pp_pipeline := wp\<rparr>)))"
  using assms by (auto simp: write_capsule_podms_def Let_def split: prod.splits result.splits if_splits)

lemma emit_keeps: "pp_pipeline (emit_telemetry cid pol p) = pp_pipeline p" "pp_network (emit_telemetry cid pol p) = pp_network p"
  by (auto simp: emit_telemetry_def split: option.splits)

lemma replicate_keeps: "pp_pipeline (replicate_written pol sids p) = pp_pipeline p" "pp_telemetry (replicate_written pol sids p) = pp_telemetry p"
  by (auto simp: replicate_written_def split: option.splits prod.splits)

lemma podms_mirrors:
  assumes "write_capsule_podms E now cid data pol limit sched arrivals p = (Ok cid', p')" "data \<noteq> []" "rpo pol = 0"
    and "pp_mesh_node p = Some mn" "hm_ok (mn_peers mn)" "is_ok (fst (read_capsule E cid' (pp_pipeline p')))"
  shows "\<exists>pieces n ds.
    map Ok pieces = map (\<lambda>sid. nv_read sid (st_nvram (wp_store (pp_pipeline p')))) (written_segments cid' (pp_pipeline p')) \<and>
    nw_delivered (pp_network p') = nw_delivered (pp_network p) @ ds \<and>
    mirrored (attempts (take 2 (hm_values (mn_peers mn))) pieces) n ds \<and>
    (nw_io (pp_network p) = [] \<longrightarrow> ds = attempts (take 2 (hm_values (mn_peers mn))) pieces)"
proof -
  obtain wp where wp: "p' = emit_telemetry cid' pol (replicate_written pol (written_segments cid' wp) (p\<lparr>pp_pipeline := wp\<rparr>))"
    using podms_Ok [OF assms(1)] assms(2) by auto
  then have same: "pp_pipeline p' = wp" by (simp add: emit_keeps replicate_keeps)
  obtain pieces where pieces: "list_all2 (\<lambda>sid piece. nv_read sid (st_nvram (wp_store wp)) = Ok piece) (written_segments cid' wp) pieces"
    using read_capsule_readable assms(6) same by blast
  obtain r nw where nw: "perform_metro_sync_replication mn (st_nvram (wp_store wp)) (written_segments cid' wp) (pp_network p) = (r, nw)"
    by fastforce
  have "pp_network p' = nw" using wp nw assms(3,4) by (simp add: emit_keeps replicate_written_def)
  moreover have "map Ok pieces = map (\<lambda>sid. nv_read sid (st_nvram (wp_store wp))) (written_segments cid' wp)"
    using pieces by (simp add: list_eq_iff_nth_eq list_all2_conv_all_nth)
  ultimately show ?thesis using replicate_effect [OF assms(5) pieces nw] same by blast
qed

text \<open>C35: Mirroring sends every segment: after a write under a policy without tolerated loss, whose capsule can be
  read locally, the network has delivered to the first two peers, in order, nothing but prefixes of
  the stored bytes of the capsule's segments, whatever failed; and exactly all of them when nothing failed.\<close>

theorem metro_write_mirrors:
  assumes "write_capsule_podms E now cid data pol limit sched arrivals p = (Ok cid', p')" "data \<noteq> []" "rpo pol = 0"
    and "pp_mesh_node p = Some mn" "hm_ok (mn_peers mn)" "is_ok (fst (read_capsule E cid' (pp_pipeline p')))"
  shows "\<exists>pieces n ds.
    map Ok pieces = map (\<lambda>sid. nv_read sid (st_nvram (wp_store (pp_pipeline p')))) (written_segments cid' (pp_pipeline p')) \<and>
    nw_delivered (pp_network p') = nw_delivered (pp_network p) @ ds \<and>
    mirrored (attempts (take 2 (hm_values (mn_peers mn))) pieces) n ds \<and>
    (nw_io (pp_network p) = [] \<longrightarrow> ds = attempts (take 2 (hm_values (mn_peers mn))) pieces)"
  by (rule podms_mirrors [OF assms])

text \<open>No tolerated loss, no replica, still acknowledged: whatever the policy, there is a network under which a
  write that succeeds locally is acknowledged although not a byte reached any peer.\<close>

theorem write_acknowledged_without_replica:
  assumes "write_capsule_async E now cid data pol limit sched arrivals (pp_pipeline p) = (Ok cid', wp)"
  shows "\<exists>nw p'. write_capsule_podms E now cid data pol limit sched arrivals (p\<lparr>pp_network := nw\<rparr>) = (Ok cid', p') \<and>
    pp_pipeline p' = wp \<and> nw_delivered (pp_network p') = []"
proof -
  define nw where "nw = \<lparr>nw_io = replicate (length (written_segments cid' wp) * 2) (IoFail 0), nw_delivered = []\<rparr>"
  have none: "nw_delivered (snd (perform_metro_sync_replication mn lg (written_segments cid' wp) nw)) = []" for mn lg
  proof (cases "discover_peers mn = []")
    case False
    let ?targets = "take (min 2 (length (discover_peers mn))) (discover_peers mn)"
    have "length ?targets \<le> 2" by simp
    then have le: "length (written_segments cid' wp) * length ?targets \<le> length (written_segments cid' wp) * 2" by simp
    then obtain m where "length (written_segments cid' wp) * 2 = length (written_segments cid' wp) * length ?targets + m"
      using le_Suc_ex by blast
    then have "nw_io nw = replicate (length (written_segments cid' wp) * length ?targets + m) (IoFail 0)" by (simp add: nw_def)
    from refused_mirror_segments [OF this prod.collapse [symmetric]] show ?thesis
      using False by (simp add: perform_metro_sync_replication_def Let_def nw_def)
  qed (simp add: perform_metro_sync_replication_def return_op_def nw_def)
  have "nw_delivered (pp_network (replicate_written pol (written_segments cid' wp) (p\<lparr>pp_network := nw, pp_pipeline := wp\<rparr>))) = []"
    using none by (auto simp: replicate_written_def nw_def split: option.splits prod.splits) (metis snd_conv)
  then show ?thesis
    using assms
    by (intro exI [of _ nw]) (auto simp: write_capsule_podms_def Let_def emit_keeps replicate_keeps nw_def)
qed

text \<open>What the agent of a node in a metro zone compiles for a new capsule without tolerated loss.\<close>

lemma agent_on_new_capsule:
  assumes "rpo pol = 0" "mn_zone mn = Metro name" "mn_peers mn \<noteq> []"
  shows "run_agent F mn [NewCapsule cid pol None] =
    (if sovereignty pol = LocalSovereignty then [] else [Replicate cid (MetroSync 2) (take 2 (discover_peers mn))])"
proof -
  let ?ms = "build_mesh_state mn"
  let ?info = "\<lparr>ni_zone = mn_zone mn, ni_available_bytes = 1000000000, ni_used_bytes = 100000000, ni_network_tier = Premium\<rparr>"
  have look: "map_of (ms_nodes ?ms) t = Some ?info" if "t \<in> set (discover_peers mn)" for t
  proof -
    have "map_of (map (\<lambda>peer. (peer, i)) ps) t = (if t \<in> set ps then Some i else None)" for ps and i :: node_info
      by (induction ps) auto
    then show ?thesis using that by (simp add: build_mesh_state_def mesh_new_def)
  qed
  have "replica_node pol ?ms t \<longleftrightarrow> sovereignty pol \<noteq> LocalSovereignty" if "t \<in> set (discover_peers mn)" for t
    using look [OF that] assms(2)
    by (cases "sovereignty pol") (auto simp: replica_node_def allowed_def in_metro_def build_mesh_state_def mesh_new_def)
  then have "filter (replica_node pol ?ms) (discover_peers mn) =
      (if sovereignty pol = LocalSovereignty then [] else discover_peers mn)"
    by (simp add: filter_id_conv filter_empty_conv)
  moreover have "available_nodes ?ms = discover_peers mn" by (simp add: available_nodes_def build_mesh_state_def mesh_new_def comp_def)
  ultimately have "select_replication_targets pol ?ms = (if sovereignty pol = LocalSovereignty then [] else take 2 (discover_peers mn))"
    by (simp add: replication_targets)
  moreover have "take 2 (discover_peers mn) \<noteq> []" using assms(3) by (simp add: discover_peers_def)
  ultimately show ?thesis using assms(1)
    by (simp add: handle_telemetry_event_def event_policy_def compile_scaling_actions_def validate_keeps_all
        compile_replication_strategy_def replication_strategy_of_def)
qed

lemma list_all2_member: "list_all2 P xs ys \<Longrightarrow> x \<in> set xs \<Longrightarrow> \<exists>y\<in>set ys. P x y"
  by (induction rule: list_all2_induct) auto

lemma set_attempts: "set (attempts addrs pieces) = set addrs \<times> set pieces"
  by (auto simp: attempts_def)

text \<open>C36: Capsules that must stay on the node are sent away: the pipeline mirrors every segment of a capsule without
  tolerated loss to the first two peers whatever the sovereignty of its policy, whereas the agent of the
  same node, from the event of the same write, compiles no replication under local sovereignty and the replication to
  exactly these two peers under any other. Here the network does not fail, the node is in a metro zone and
  has a peer, and the capsule can be read locally.\<close>

theorem mirroring_ignores_sovereignty:
  assumes "write_capsule_podms E now cid data pol limit sched arrivals p = (Ok cid', p')" "data \<noteq> []" "rpo pol = 0"
    and "pp_mesh_node p = Some mn" "hm_ok (mn_peers mn)" "is_ok (fst (read_capsule E cid' (pp_pipeline p')))"
    and "mn_zone mn = Metro name" "mn_peers mn \<noteq> []" "pp_telemetry p = Some (Some sent)" "nw_io (pp_network p) = []"
  shows "\<exists>events ds. pp_telemetry p' = Some (Some (sent @ events)) \<and>
    run_agent F mn events =
      (if sovereignty pol = LocalSovereignty then [] else [Replicate cid' (MetroSync 2) (take 2 (discover_peers mn))]) \<and>
    nw_delivered (pp_network p') = nw_delivered (pp_network p) @ ds \<and>
    (\<forall>nid\<in>set (take 2 (discover_peers mn)). \<forall>sid\<in>set (written_segments cid' (pp_pipeline p')). \<exists>addr piece.
       hm_get (mn_peers mn) nid = Some addr \<and> nv_read sid (st_nvram (wp_store (pp_pipeline p'))) = Ok piece \<and> (addr, piece) \<in> set ds)"
proof -
  let ?read = "\<lambda>sid. nv_read sid (st_nvram (wp_store (pp_pipeline p')))"
  let ?sids = "written_segments cid' (pp_pipeline p')"
  obtain wp where wp: "p' = emit_telemetry cid' pol (replicate_written pol (written_segments cid' wp) (p\<lparr>pp_pipeline := wp\<rparr>))"
    using podms_Ok [OF assms(1)] assms(2) by auto
  have sent: "pp_telemetry p' = Some (Some (sent @ [NewCapsule cid' pol None]))"
    using wp assms(9) by (simp add: emit_telemetry_def replicate_keeps)
  obtain pieces ds where pieces: "map Ok pieces = map ?read ?sids" "nw_delivered (pp_network p') = nw_delivered (pp_network p) @ ds"
    "ds = attempts (take 2 (hm_values (mn_peers mn))) pieces"
    using podms_mirrors [OF assms(1-6)] assms(10) by blast
  have "\<exists>addr piece. hm_get (mn_peers mn) nid = Some addr \<and> ?read sid = Ok piece \<and> (addr, piece) \<in> set ds"
    if "nid \<in> set (take 2 (discover_peers mn))" "sid \<in> set ?sids" for nid sid
  proof -
    note nid = that(1)
    obtain addr where "hm_get (mn_peers mn) nid = Some addr" "addr \<in> set (take 2 (hm_values (mn_peers mn)))"
      using list_all2_member [OF first_peers [OF assms(5)]] nid unfolding discover_peers_def by blast
    moreover have "?read sid \<in> Ok ` set pieces" using that(2) arg_cong [OF pieces(1), of set] by auto
    ultimately show ?thesis unfolding pieces(3) set_attempts by auto
  qed
  then show ?thesis using sent pieces(2) agent_on_new_capsule [OF assms(3,7,8)] by blast
qed

section \<open>Projected views\<close>

lemma project_actions_effect:
  assumes "reg_lookup cid rg = Ok cap"
  shows "project_actions F V mn rg pol cid view calls =
    (Ok (), calls @
      (if sovereignty pol = LocalSovereignty then []
       else [RaftReplicate ''space-phase4'' (vx_uuid V (as_uuid cid)) (zone_to_string (mn_zone mn))]) @
      [RaftStore (''space-phase4-zone-'' @ zone_to_string (mn_zone mn)) (from_le_bytes (take 8 (as_uuid cid))) (vx_capsule_json V cap)])"
proof -
  have zones: "zone_ids (mesh_empty (mn_zone mn)) = [mn_zone mn]" "ms_local_zone (mesh_empty (mn_zone mn)) = mn_zone mn"
    by (simp_all add: zone_ids_def mesh_empty_def)
  have shards: "shards_for mn cid [mn_zone mn] = [\<lparr>sh_shard_id = from_le_bytes (take 8 (as_uuid cid)), sh_owner = mn_id mn, sh_zone = mn_zone mn\<rparr>]"
    by (simp add: shards_for_def shard_keys_def)
  show ?thesis using assms zones
    by (simp add: project_actions_def compile_scaling_def compile_scaling_actions_def validate_keeps_all project_action_def
        federate_capsule_def raft_replicate_def raft_cluster_new_def serialize_capsule_def shard_metadata_def shards
        raft_store_shard_def raft_for_zone_def bind_op_def lift_result_def)
qed

text \<open>A projection stays in its own zone: exporting a capsule over NFS or CSI asks the mesh for exactly one
  metadata shard, in the zone of this node and with the first shard key, and for one replication, to
  the zone of this node; the sovereignty of the policy only suppresses the latter, and peers play no part.\<close>

theorem projection_stays_in_zone:
  assumes "reg_lookup cid rg = Ok cap"
    and "export_nfs_view F V mn rg pol cid calls = (r, calls')"
    and "vx_parse_uuid V request = Some (as_uuid cid)" "csi_provision_capsule F V mn rg pol request calls = (q, calls'')"
  shows "is_ok r \<and> q = Ok (vx_uuid V (as_uuid cid)) \<and> calls' = calls'' \<and>
    calls' = calls @
      (if sovereignty pol = LocalSovereignty then []
       else [RaftReplicate ''space-phase4'' (vx_uuid V (as_uuid cid)) (zone_to_string (mn_zone mn))]) @
      [RaftStore (''space-phase4-zone-'' @ zone_to_string (mn_zone mn)) (from_le_bytes (take 8 (as_uuid cid))) (vx_capsule_json V cap)]"
  using assms by (auto simp: export_nfs_view_def csi_provision_capsule_def Let_def bind_op_def lift_result_def return_op_def project_actions_effect)

text \<open>Mounted views are empty: mounting any capsule over FUSE and projecting it over NVMe succeeds and shows no
  data at all, because the code transforms an empty buffer instead of the contents of the capsule; the only error is
  a capsule that does not exist.\<close>

theorem projected_views_empty:
  "fst (mount_fuse_view F V mn rg pol cid mountpoint calls) =
     bind_result (reg_lookup cid rg) (\<lambda>_. Ok \<lparr>fm_mountpoint = mountpoint, fm_mounted_data = []\<rparr>) \<and>
   fst (project_nvme_view F V mn rg pol cid calls) =
     bind_result (reg_lookup cid rg) (\<lambda>_. Ok \<lparr>nvv_capsule_id = cid, nvv_namespaces = [[]]\<rparr>)"
  by (cases "reg_lookup cid rg")
    (simp_all add: mount_fuse_view_def project_nvme_view_def bind_op_def lift_result_def return_op_def apply_transform_def project_actions_effect)

section \<open>Witnesses\<close>

definition mesh_of_two :: mesh_node where
  "mesh_of_two = register_peer (NodeId [2]) ''10.0.0.2:9000'' sample_node"

definition podms_sample :: podms_pipeline where
  "podms_sample = \<lparr>pp_pipeline = sample_pipeline None, pp_mesh_node = Some mesh_of_two, pp_telemetry = Some (Some []),
     pp_network = \<lparr>nw_io = [IoFail 0], nw_delivered = []\<rparr>\<rparr>"

lemma sample_async:
  assumes pol: "compression pol = LZ4 1"
  obtains wp where "write_capsule_async sample_ext (Some 0) (CapsuleId [1]) sample_data pol SEGMENT_SIZE [0] [0] (sample_pipeline None) =
      (Ok (CapsuleId [1]), wp)" "fst (read_capsule sample_ext (CapsuleId [1]) wp) = Ok sample_data"
proof -
  have o: "order_of (length (chunks SEGMENT_SIZE sample_data)) [0]" by (auto simp: sample_chunks order_of_def)
  have io: "io_free (wp_store (sample_pipeline None))" by (simp add: io_free_def sample_pipeline_def empty_registry_def)
  obtain r pa s ps where w:
    "write_capsule_async sample_ext (Some 0) (CapsuleId [1]) sample_data pol SEGMENT_SIZE [0] [0] (sample_pipeline None) = (r, pa)"
    "write_capsule_with_policy sample_ext (Some 0) (CapsuleId [1]) sample_data pol (sample_pipeline None) = (s, ps)"
    by (metis prod.collapse)
  have out: "write_outcome sample_ext (Some 0) (CapsuleId [1]) pol sample_data (sample_pipeline None) s ps"
    by (rule write_capsule_effect [OF sample_inv(1) sample_xts_laws sample_data_fits w(2)])
  note parts = out [unfolded write_outcome_def]
  have s: "s = Ok (CapsuleId [1])" using parts sample_writable [OF pol] by blast
  have inv: "wp_inv sample_ext ps" by (rule conjunct1 [OF parts])
  have "is_ok s" by (simp add: s)
  then have "wp_contents sample_ext ps (CapsuleId [1]) = Ok sample_data" using parts sample_readable [OF pol] by blast
  with fst_read [OF wp_inv_km [OF inv]] have synced: "fst (read_capsule sample_ext (CapsuleId [1]) ps) = Ok sample_data"
    by (rule trans)
  note R = async_refines_sequential [OF sample_inv(1) sample_xts_laws io sample_data_fits order_refl o o w]
  have "is_ok r" using R s by simp
  note R = mp [OF conjunct2 [OF R] this]
  have "fst (read_capsule sample_ext (CapsuleId [1]) pa) = fst (read_capsule sample_ext (CapsuleId [1]) ps)"
    by (rule spec [OF conjunct2 [OF conjunct2 [OF conjunct2 [OF R]]]])
  from this synced have "fst (read_capsule sample_ext (CapsuleId [1]) pa) = Ok sample_data" by (rule trans)
  then show ?thesis by (rule that [OF w(1) [unfolded conjunct1 [OF R] s]])
qed

lemma sample_podms:
  assumes pol: "compression pol = LZ4 1" and p: "pp_pipeline p = sample_pipeline None"
  obtains p' where "write_capsule_podms sample_ext (Some 0) (CapsuleId [1]) sample_data pol SEGMENT_SIZE [0] [0] p =
      (Ok (CapsuleId [1]), p')" "fst (read_capsule sample_ext (CapsuleId [1]) (pp_pipeline p')) = Ok sample_data"
proof -
  obtain wp where wp: "write_capsule_async sample_ext (Some 0) (CapsuleId [1]) sample_data pol SEGMENT_SIZE [0] [0] (sample_pipeline None) =
      (Ok (CapsuleId [1]), wp)" "fst (read_capsule sample_ext (CapsuleId [1]) wp) = Ok sample_data"
    by (rule sample_async [OF pol])
  let ?p = "emit_telemetry (CapsuleId [1]) pol (replicate_written pol (written_segments (CapsuleId [1]) wp) (p\<lparr>pp_pipeline := wp\<rparr>))"
  have "write_capsule_podms sample_ext (Some 0) (CapsuleId [1]) sample_data pol SEGMENT_SIZE [0] [0] p = (Ok (CapsuleId [1]), ?p)"
    using wp(1) sample_data_facts(1) p by (simp add: write_capsule_podms_def Let_def)
  then show ?thesis using that wp(2) by (simp add: emit_keeps replicate_keeps)
qed

lemma podms_sample_pipeline: "pp_pipeline podms_sample = sample_pipeline None" "pp_pipeline (podms_sample\<lparr>pp_network := nw\<rparr>) = sample_pipeline None"
  by (simp_all add: podms_sample_def)

lemma mesh_of_two_peers: "mn_peers mesh_of_two = [(NodeId [1], ''10.0.0.1:9000''), (NodeId [2], ''10.0.0.2:9000'')]" "mn_zone mesh_of_two = Metro ''a''"
  by (simp_all add: mesh_of_two_def sample_node_def register_peer_def mesh_node_new_def)

text \<open>The first connection is refused.\<close>

theorem metro_write_mirrors_witness:
  "\<exists>p' pieces n ds. write_capsule_podms sample_ext (Some 0) (CapsuleId [1]) sample_data metro_sync SEGMENT_SIZE [0] [0] podms_sample =
     (Ok (CapsuleId [1]), p') \<and> nw_delivered (pp_network p') = ds \<and>
     mirrored (attempts [''10.0.0.1:9000'', ''10.0.0.2:9000''] pieces) n ds"
proof -
  obtain p' where p': "write_capsule_podms sample_ext (Some 0) (CapsuleId [1]) sample_data metro_sync SEGMENT_SIZE [0] [0] podms_sample =
      (Ok (CapsuleId [1]), p')" "fst (read_capsule sample_ext (CapsuleId [1]) (pp_pipeline p')) = Ok sample_data"
    by (rule sample_podms [OF sample_compression(1) podms_sample_pipeline(1)])
  have "hm_ok (mn_peers mesh_of_two)" by (simp add: mesh_of_two_peers hm_ok_def)
  from metro_write_mirrors [OF p'(1) sample_data_facts(1) metro_rpo _ this] p'(2)
  obtain pieces n ds where "nw_delivered (pp_network p') = nw_delivered (pp_network podms_sample) @ ds"
    "mirrored (attempts (take 2 (hm_values (mn_peers mesh_of_two))) pieces) n ds"
    by (auto simp: podms_sample_def)
  then have "nw_delivered (pp_network p') = ds" "mirrored (attempts [''10.0.0.1:9000'', ''10.0.0.2:9000''] pieces) n ds"
    by (simp_all add: mesh_of_two_peers podms_sample_def)
  then show ?thesis using p'(1) by blast
qed

theorem write_acknowledged_without_replica_witness:
  "\<exists>nw p'. write_capsule_podms sample_ext (Some 0) (CapsuleId [1]) sample_data metro_sync SEGMENT_SIZE [0] [0] (podms_sample\<lparr>pp_network := nw\<rparr>) =
     (Ok (CapsuleId [1]), p') \<and> nw_delivered (pp_network p') = []"
proof -
  obtain wp where "write_capsule_async sample_ext (Some 0) (CapsuleId [1]) sample_data metro_sync SEGMENT_SIZE [0] [0] (pp_pipeline podms_sample) =
      (Ok (CapsuleId [1]), wp)"
    using sample_async [OF sample_compression(1)] by (auto simp: podms_sample_def)
  from write_acknowledged_without_replica [OF this] show ?thesis by blast
qed

text \<open>A capsule that no replica is compiled for, mirrored to both peers.\<close>

theorem mirroring_ignores_sovereignty_witness:
  "\<exists>p' events. write_capsule_podms sample_ext (Some 0) (CapsuleId [1]) sample_data (metro_sync\<lparr>sovereignty := LocalSovereignty\<rparr>)
       SEGMENT_SIZE [0] [0] (podms_sample\<lparr>pp_network := \<lparr>nw_io = [], nw_delivered = []\<rparr>\<rparr>) = (Ok (CapsuleId [1]), p') \<and>
     pp_telemetry p' = Some (Some events) \<and> run_agent sample_floats mesh_of_two events = [] \<and>
     written_segments (CapsuleId [1]) (pp_pipeline p') \<noteq> [] \<and>
     (\<forall>sid\<in>set (written_segments (CapsuleId [1]) (pp_pipeline p')). \<exists>piece.
        nv_read sid (st_nvram (wp_store (pp_pipeline p'))) = Ok piece \<and> (''10.0.0.2:9000'', piece) \<in> set (nw_delivered (pp_network p')))"
proof -
  let ?pol = "metro_sync\<lparr>sovereignty := LocalSovereignty\<rparr>"
  let ?p = "podms_sample\<lparr>pp_network := \<lparr>nw_io = [], nw_delivered = []\<rparr>\<rparr>"
  have pol: "compression ?pol = LZ4 1" "rpo ?pol = 0" using sample_compression(1) metro_rpo by simp_all
  obtain p' where p': "write_capsule_podms sample_ext (Some 0) (CapsuleId [1]) sample_data ?pol SEGMENT_SIZE [0] [0] ?p = (Ok (CapsuleId [1]), p')"
    "fst (read_capsule sample_ext (CapsuleId [1]) (pp_pipeline p')) = Ok sample_data"
    by (rule sample_podms [OF pol(1) podms_sample_pipeline(2)])
  have node: "pp_mesh_node ?p = Some mesh_of_two" "hm_ok (mn_peers mesh_of_two)" "mn_peers mesh_of_two \<noteq> []"
    "pp_telemetry ?p = Some (Some [])" "nw_io (pp_network ?p) = []"
    by (simp_all add: podms_sample_def mesh_of_two_peers hm_ok_def)
  have "is_ok (fst (read_capsule sample_ext (CapsuleId [1]) (pp_pipeline p')))" using p'(2) by simp
  from mirroring_ignores_sovereignty [OF p'(1) sample_data_facts(1) pol(2) node(1,2) this mesh_of_two_peers(2) node(3-5), of sample_floats]
  obtain events where "pp_telemetry p' = Some (Some events)" "run_agent sample_floats mesh_of_two events = []"
    "\<forall>sid\<in>set (written_segments (CapsuleId [1]) (pp_pipeline p')). \<exists>piece.
       nv_read sid (st_nvram (wp_store (pp_pipeline p'))) = Ok piece \<and> (''10.0.0.2:9000'', piece) \<in> set (nw_delivered (pp_network p'))"
    by (fastforce simp: podms_sample_def discover_peers_def mesh_of_two_peers)
  then show ?thesis using p'(1) read_no_segments [of sample_ext "CapsuleId [1]" "pp_pipeline p'"] p'(2) sample_data_facts(1) by auto
qed

definition sample_view_ext :: view_ext where
  "sample_view_ext = \<lparr>vx_uuid = map (\<lambda>b. char_of (unat b)), vx_parse_uuid = (\<lambda>s. Some (map (\<lambda>c. of_nat (of_char c)) s)), vx_capsule_json = (\<lambda>c. [])\<rparr>"

theorem projection_stays_in_zone_witness:
  "\<exists>calls. snd (export_nfs_view sample_floats sample_view_ext mesh_of_two (empty_registry\<lparr>reg_capsules := [(CapsuleId [65], local_capsule)]\<rparr>)
      default_policy (CapsuleId [65]) []) = calls \<and> length calls = 1"
proof -
  let ?rg = "empty_registry\<lparr>reg_capsules := [(CapsuleId [65], local_capsule)]\<rparr>"
  have look: "reg_lookup (CapsuleId [65]) ?rg = Ok local_capsule" by (simp add: reg_lookup_def)
  have parse: "vx_parse_uuid sample_view_ext ''A'' = Some (as_uuid (CapsuleId [65]))" by code_simp
  obtain r calls q calls' where run:
    "export_nfs_view sample_floats sample_view_ext mesh_of_two ?rg default_policy (CapsuleId [65]) [] = (r, calls)"
    "csi_provision_capsule sample_floats sample_view_ext mesh_of_two ?rg default_policy ''A'' [] = (q, calls')" by fastforce
  have "sovereignty default_policy = LocalSovereignty" by (simp add: default_policy_def)
  with conjunct2 [OF conjunct2 [OF conjunct2 [OF projection_stays_in_zone [OF look run(1) parse run(2)]]]]
  show ?thesis using run(1) by simp
qed

end
