(* ===== verification/Crypto_Profiles.thy ===== *)
theory Crypto_Profiles
  imports Encryption
begin

text \<open>
  The post-quantum key wrapping of \<open>crates/common/src/security/crypto_profiles.rs\<close>: a node keeps one
  ML-KEM key pair in a JSON file and derives a fresh XTS key for every segment from an encapsulated
  secret. The KEM (\<open>pqcrypto\<close>), hexadecimal decoding and the randomness are parameters.
\<close>

section \<open>The key encapsulation\<close>

text \<open>Keys and ciphertexts are bytes; \<open>from_bytes\<close> refuses those of a wrong length.\<close>

record kem_ext =
  kx_keypair :: "bytes \<Rightarrow> bytes \<times> bytes"
  kx_encapsulate :: "bytes \<Rightarrow> bytes \<Rightarrow> bytes \<times> bytes"
  kx_decapsulate :: "bytes \<Rightarrow> bytes \<Rightarrow> bytes"
  kx_public_ok :: "bytes \<Rightarrow> bool"
  kx_secret_ok :: "bytes \<Rightarrow> bool"
  kx_ciphertext_ok :: "bytes \<Rightarrow> bool"
  kx_hex_decode :: "string \<Rightarrow> bytes option"

text \<open>Decapsulation with the secret key recovers the secret; hexadecimal decoding inverts encoding.\<close>

definition key_pair_of :: "kem_ext \<Rightarrow> bytes \<Rightarrow> bytes \<Rightarrow> bool" where
  "key_pair_of K pk sk \<longleftrightarrow> kx_public_ok K pk \<and> kx_secret_ok K sk \<and>
     (\<forall>rnd ss ct. kx_encapsulate K pk rnd = (ss, ct) \<longrightarrow> kx_ciphertext_ok K ct \<and> kx_decapsulate K ct sk = ss)"

definition kem_laws :: "ext \<Rightarrow> kem_ext \<Rightarrow> bool" where
  "kem_laws E K \<longleftrightarrow> (\<forall>rnd. key_pair_of K (fst (kx_keypair K rnd)) (snd (kx_keypair K rnd))) \<and>
     (\<forall>bs. kx_hex_decode K (ext_hex E bs) = Some bs)"

section \<open>Key material\<close>

definition u64_to_le_bytes :: "u64 \<Rightarrow> bytes" where
  "u64_to_le_bytes v = map (\<lambda>i. ucast (drop_bit (8 * i) v)) [0..<8]"

record mlkem_state =
  mk_public :: bytes
  mk_secret :: bytes

record hybrid_material =
  hm_wrapped_key :: bytes
  hm_nonce :: bytes
  hm_ciphertext :: bytes

definition mix_with :: "ext \<Rightarrow> bytes \<Rightarrow> bytes \<Rightarrow> bytes" where
  "mix_with E nonce base = ext_blake3_xof E 16 (base @ nonce)"

definition derive_material :: "ext \<Rightarrow> bytes \<Rightarrow> capsule_id \<Rightarrow> segment_id \<Rightarrow> content_hash \<Rightarrow> bytes \<Rightarrow> bytes \<Rightarrow> hybrid_material" where
  "derive_material E base_key cap seg h shared ciphertext =
     (let stream = ext_blake3_xof E 80
            (base_key @ shared @ as_uuid cap @ u64_to_le_bytes (seg_num seg) @ as_bytes (as_str h) @ ciphertext)
      in \<lparr>hm_wrapped_key = take 64 stream, hm_nonce = take 16 (drop 64 stream), hm_ciphertext = ciphertext\<rparr>)"

definition collect_base_material :: "xts_key_pair \<Rightarrow> bytes" where
  "collect_base_material pair = key1 pair @ key2 pair"

definition serialize_ciphertext :: "ext \<Rightarrow> bytes \<Rightarrow> string" where
  "serialize_ciphertext E bs = ext_hex E bs"

definition wrap_xts_key ::
  "ext \<Rightarrow> kem_ext \<Rightarrow> bytes \<Rightarrow> mlkem_state \<Rightarrow> crypto_profile \<Rightarrow> bytes \<Rightarrow> capsule_id \<Rightarrow> segment_id \<Rightarrow> content_hash \<Rightarrow>
   (hybrid_material option, error) result" where
  "wrap_xts_key E K rnd mgr profile base_key cap seg h =
     (if profile \<noteq> HybridKyber then Ok None
      else
        (case kx_encapsulate K (mk_public mgr) rnd of
           (shared, ciphertext) \<Rightarrow> Ok (Some (derive_material E base_key cap seg h shared ciphertext))))"

definition unwrap_xts_key ::
  "ext \<Rightarrow> kem_ext \<Rightarrow> mlkem_state \<Rightarrow> crypto_profile \<Rightarrow> bytes \<Rightarrow> capsule_id \<Rightarrow> segment_id \<Rightarrow> content_hash \<Rightarrow> string \<Rightarrow>
   (hybrid_material option, error) result" where
  "unwrap_xts_key E K mgr profile base_key cap seg h ciphertext_hex =
     (if profile \<noteq> HybridKyber then Ok None
      else
        bind_result (ok_or (kx_hex_decode K ciphertext_hex) ParseError) (\<lambda>cipher.
          if \<not> kx_ciphertext_ok K cipher then Err ParseError
          else Ok (Some (derive_material E base_key cap seg h (kx_decapsulate K cipher (mk_secret mgr)) cipher))))"

section \<open>The key file\<close>

record stored_mlkem_key =
  sm_public :: string
  sm_secret :: string

record key_store =
  ks_file :: "stored_mlkem_key persisted"
  ks_io :: "io_outcome list"

type_synonym 'a ks_op = "(key_store, 'a, error) op"

definition ks_next :: "io_outcome ks_op" where
  "ks_next ks = (case io_next (ks_io ks) of (out, io) \<Rightarrow> (Ok out, ks\<lparr>ks_io := io\<rparr>))"

definition load_keys :: "kem_ext \<Rightarrow> mlkem_state ks_op" where
  "load_keys K =
     bind_op ks_next (\<lambda>out ks.
       (if out \<noteq> IoOk then Err IoError
        else
          (case ks_file ks of
             Absent \<Rightarrow> Err IoError
           | Torn \<Rightarrow> Err ParseError
           | Stored disk \<Rightarrow>
               bind_result (ok_or (kx_hex_decode K (sm_public disk)) ParseError) (\<lambda>pk.
                 if \<not> kx_public_ok K pk then Err ParseError
                 else
                   bind_result (ok_or (kx_hex_decode K (sm_secret disk)) ParseError) (\<lambda>sk.
                     if \<not> kx_secret_ok K sk then Err ParseError
                     else Ok \<lparr>mk_public = pk, mk_secret = sk\<rparr>))), ks))"

text \<open>\<open>File::create\<close> empties the file before anything is written.\<close>

definition store_keys :: "ext \<Rightarrow> bytes \<Rightarrow> bytes \<Rightarrow> unit ks_op" where
  "store_keys E pk sk =
     bind_op ks_next (\<lambda>created.
       if created \<noteq> IoOk then fail_op IoError
       else
         bind_op (\<lambda>ks. (Ok (), ks\<lparr>ks_file := Torn\<rparr>)) (\<lambda>_.
         bind_op ks_next (\<lambda>written ks.
           if written \<noteq> IoOk then (Err IoError, ks)
           else (Ok (), ks\<lparr>ks_file := Stored \<lparr>sm_public = ext_hex E pk, sm_secret = ext_hex E sk\<rparr>\<rparr>))))"

definition load_or_generate :: "ext \<Rightarrow> kem_ext \<Rightarrow> bytes \<Rightarrow> mlkem_state ks_op" where
  "load_or_generate E K rnd ks =
     (if ks_file ks \<noteq> Absent then load_keys K ks
      else
        (case kx_keypair K rnd of
           (pk, sk) \<Rightarrow> bind_op (store_keys E pk sk) (\<lambda>_. return_op \<lparr>mk_public = pk, mk_secret = sk\<rparr>) ks))"

section \<open>Properties\<close>

lemma wrap_effect:
  assumes "key_pair_of K (mk_public mgr) (mk_secret mgr)" "\<And>bs. kx_hex_decode K (ext_hex E bs) = Some bs"
    and "wrap_xts_key E K rnd mgr profile base cap seg h = Ok (Some m)"
  shows "unwrap_xts_key E K mgr profile base cap seg h (serialize_ciphertext E (hm_ciphertext m)) = Ok (Some m)"
  using assms by (auto simp: wrap_xts_key_def unwrap_xts_key_def serialize_ciphertext_def derive_material_def key_pair_of_def Let_def
      split: if_splits prod.splits)

text \<open>A key file as this code writes it.\<close>

definition key_file_ok :: "ext \<Rightarrow> kem_ext \<Rightarrow> key_store \<Rightarrow> bool" where
  "key_file_ok E K ks \<longleftrightarrow>
     (case ks_file ks of
        Absent \<Rightarrow> True
      | Torn \<Rightarrow> True
      | Stored disk \<Rightarrow> \<exists>pk sk. key_pair_of K pk sk \<and> disk = \<lparr>sm_public = ext_hex E pk, sm_secret = ext_hex E sk\<rparr>)"

lemma load_or_generate_effect:
  assumes laws: "kem_laws E K" and ok: "key_file_ok E K ks" and run: "load_or_generate E K rnd ks = (r, ks')"
  shows "key_file_ok E K ks'"
    and "r = Ok mgr \<Longrightarrow> key_pair_of K (mk_public mgr) (mk_secret mgr) \<and>
      ks_file ks' = Stored \<lparr>sm_public = ext_hex E (mk_public mgr), sm_secret = ext_hex E (mk_secret mgr)\<rparr>"
    and "ks_file ks \<noteq> Absent \<Longrightarrow> ks_file ks' = ks_file ks"
proof -
  obtain o1 io1 where o1: "io_next (ks_io ks) = (o1, io1)" by fastforce
  obtain o2 io2 where o2: "io_next io1 = (o2, io2)" by fastforce
  have hex: "kx_hex_decode K (ext_hex E bs) = Some bs" and pair: "key_pair_of K (fst (kx_keypair K x)) (snd (kx_keypair K x))" for bs x
    using laws by (auto simp: kem_laws_def)
  have same: "key_file_ok E K ks'" if "ks_file ks' = ks_file ks" using ok that by (simp add: key_file_ok_def)
  have all: "key_file_ok E K ks' \<and> (\<forall>mgr. r = Ok mgr \<longrightarrow> key_pair_of K (mk_public mgr) (mk_secret mgr) \<and>
      ks_file ks' = Stored \<lparr>sm_public = ext_hex E (mk_public mgr), sm_secret = ext_hex E (mk_secret mgr)\<rparr>) \<and>
      (ks_file ks \<noteq> Absent \<longrightarrow> ks_file ks' = ks_file ks)"
  proof (cases "ks_file ks")
    case Absent
    obtain pk sk where k: "kx_keypair K rnd = (pk, sk)" by fastforce
    then have kp: "key_pair_of K pk sk" using pair [of rnd] by simp
    then have "key_file_ok E K (x\<lparr>ks_file := Stored \<lparr>sm_public = ext_hex E pk, sm_secret = ext_hex E sk\<rparr>\<rparr>)" for x
      by (auto simp: key_file_ok_def)
    then show ?thesis using run Absent k o1 o2 kp
      by (auto simp: load_or_generate_def store_keys_def ks_next_def bind_op_def fail_op_def return_op_def split: if_splits)
        (auto simp: key_file_ok_def)
  next
    case Torn
    then show ?thesis using run ok o1
      by (auto simp: load_or_generate_def load_keys_def ks_next_def bind_op_def key_file_ok_def split: if_splits)
  next
    case (Stored disk)
    then obtain pk sk where k: "key_pair_of K pk sk" "disk = \<lparr>sm_public = ext_hex E pk, sm_secret = ext_hex E sk\<rparr>"
      using ok by (auto simp: key_file_ok_def)
    then have "kx_public_ok K pk" "kx_secret_ok K sk" by (simp_all add: key_pair_of_def)
    then have "ks_file ks' = ks_file ks \<and> (\<forall>mgr. r = Ok mgr \<longrightarrow> mgr = \<lparr>mk_public = pk, mk_secret = sk\<rparr>)"
      using run Stored o1 hex k(2) by (auto simp: load_or_generate_def load_keys_def ks_next_def bind_op_def split: if_splits)
    then show ?thesis using same k Stored by auto
  qed
  then show "key_file_ok E K ks'" "ks_file ks \<noteq> Absent \<Longrightarrow> ks_file ks' = ks_file ks" by auto
  from all show "r = Ok mgr \<Longrightarrow> key_pair_of K (mk_public mgr) (mk_secret mgr) \<and>
      ks_file ks' = Stored \<lparr>sm_public = ext_hex E (mk_public mgr), sm_secret = ext_hex E (mk_secret mgr)\<rparr>" by auto
qed

text \<open>C38: A wrapped key survives a restart: what a node wraps after it has loaded or generated its keys is
  unwrapped to the same key and nonce, for the same capsule, segment and hash, by a node that starts
  again from the key file, whatever its randomness, and starting again only fails when reading does.\<close>

theorem wrapped_key_survives_restart:
  assumes "kem_laws E K" "key_file_ok E K ks" "load_or_generate E K rnd ks = (Ok mgr, ks1)"
    and "wrap_xts_key E K rnd' mgr profile base cap seg h = Ok (Some m)"
    and "load_or_generate E K rnd'' (ks1\<lparr>ks_io := io\<rparr>) = (r, ks2)"
  shows "(is_ok r \<longleftrightarrow> fst (io_next io) = IoOk) \<and>
    (\<forall>mgr'. r = Ok mgr' \<longrightarrow>
       unwrap_xts_key E K mgr' profile base cap seg h (serialize_ciphertext E (hm_ciphertext m)) = Ok (Some m))"
proof -
  have hex: "kx_hex_decode K (ext_hex E bs) = Some bs" for bs using assms(1) by (simp add: kem_laws_def)
  have L: "key_pair_of K (mk_public mgr) (mk_secret mgr)"
    "ks_file ks1 = Stored \<lparr>sm_public = ext_hex E (mk_public mgr), sm_secret = ext_hex E (mk_secret mgr)\<rparr>"
    using load_or_generate_effect(2) [OF assms(1,2,3)] by simp_all
  obtain out rest where out: "io_next io = (out, rest)" by fastforce
  have "r = (if out = IoOk then Ok mgr else Err IoError)"
    using assms(5) L out hex
    by (auto simp: load_or_generate_def load_keys_def ks_next_def bind_op_def key_pair_of_def split: if_splits)
  then show ?thesis using wrap_effect [OF L(1) hex assms(4)] out by auto
qed

text \<open>A torn key file is never repaired: when the first start fails while writing the file it has created, no
  later start succeeds, under any randomness and any outcomes.\<close>

theorem torn_key_file_blocks_start:
  assumes "ks_file ks = Absent" "ks_io ks = IoOk # IoFail n # io" "load_or_generate E K rnd ks = (r, ks1)"
  shows "\<not> is_ok r \<and> (\<forall>rnd' io'. \<not> is_ok (fst (load_or_generate E K rnd' (ks1\<lparr>ks_io := io'\<rparr>))))"
proof -
  have "\<not> is_ok r" "ks_file ks1 = Torn"
    using assms by (auto simp: load_or_generate_def store_keys_def ks_next_def bind_op_def split: prod.splits)
  then show ?thesis
    by (auto simp: load_or_generate_def load_keys_def ks_next_def bind_op_def split: prod.splits)
qed

section \<open>Witnesses\<close>

text \<open>A toy encapsulation: the secret is the public key with the randomness, and the ciphertext is the randomness.\<close>

definition sample_kem :: kem_ext where
  "sample_kem = \<lparr>kx_keypair = (\<lambda>rnd. (rnd, rnd)), kx_encapsulate = (\<lambda>pk rnd. (pk @ rnd, rnd)), kx_decapsulate = (\<lambda>ct sk. sk @ ct),
     kx_public_ok = (\<lambda>_. True), kx_secret_ok = (\<lambda>_. True), kx_ciphertext_ok = (\<lambda>_. True), kx_hex_decode = sample_unhex\<rparr>"

lemma sample_kem_laws: "kem_laws sample_ext sample_kem"
  by (simp add: kem_laws_def key_pair_of_def sample_kem_def sample_ext_def sample_unhex_hex)

theorem wrapped_key_survives_restart_witness:
  "\<exists>mgr ks1 m mgr' ks2. load_or_generate sample_ext sample_kem [1] \<lparr>ks_file = Absent, ks_io = []\<rparr> = (Ok mgr, ks1) \<and>
     wrap_xts_key sample_ext sample_kem [5] mgr HybridKyber [7] (CapsuleId [1]) (SegmentId 0) (ContentHash ''ab'') = Ok (Some m) \<and>
     load_or_generate sample_ext sample_kem [2] (ks1\<lparr>ks_io := []\<rparr>) = (Ok mgr', ks2) \<and>
     unwrap_xts_key sample_ext sample_kem mgr' HybridKyber [7] (CapsuleId [1]) (SegmentId 0) (ContentHash ''ab'')
       (serialize_ciphertext sample_ext (hm_ciphertext m)) = Ok (Some m)"
proof -
  have kf: "key_file_ok sample_ext sample_kem \<lparr>ks_file = Absent, ks_io = []\<rparr>" by (simp add: key_file_ok_def)
  obtain r ks1 where run: "load_or_generate sample_ext sample_kem [1] \<lparr>ks_file = Absent, ks_io = []\<rparr> = (r, ks1)" by fastforce
  have "r = Ok \<lparr>mk_public = [1], mk_secret = [1]\<rparr>" using run
    by (auto simp: load_or_generate_def store_keys_def ks_next_def bind_op_def return_op_def sample_kem_def)
  note run = run [unfolded this]
  obtain m where m: "wrap_xts_key sample_ext sample_kem [5] \<lparr>mk_public = [1], mk_secret = [1]\<rparr> HybridKyber [7] (CapsuleId [1])
      (SegmentId 0) (ContentHash ''ab'') = Ok (Some m)"
    by (cases "kx_encapsulate sample_kem [1] [5]") (auto simp: wrap_xts_key_def)
  obtain q ks2 where again: "load_or_generate sample_ext sample_kem [2] (ks1\<lparr>ks_io := []\<rparr>) = (q, ks2)" by fastforce
  note W = wrapped_key_survives_restart [OF sample_kem_laws kf run m again]
  then obtain mgr' where "q = Ok mgr'" by (cases q) auto
  then show ?thesis using W run m again by blast
qed

theorem torn_key_file_blocks_start_witness:
  "\<exists>ks1. load_or_generate sample_ext sample_kem [1] \<lparr>ks_file = Absent, ks_io = [IoOk, IoFail 3]\<rparr> = (Err IoError, ks1) \<and>
     \<not> is_ok (fst (load_or_generate sample_ext sample_kem [2] (ks1\<lparr>ks_io := []\<rparr>)))"
proof -
  obtain r ks1 where run: "load_or_generate sample_ext sample_kem [1] \<lparr>ks_file = Absent, ks_io = [IoOk, IoFail 3]\<rparr> = (r, ks1)" by fastforce
  moreover have "r = Err IoError" using run
    by (auto simp: load_or_generate_def store_keys_def ks_next_def bind_op_def sample_kem_def)
  ultimately show ?thesis using torn_key_file_blocks_start [OF _ _ run] by auto
qed

end
