(* ===== verification/Hybrid_Pipeline.thy ===== *)
theory Hybrid_Pipeline
  imports Crypto_Profiles Write_Pipeline
begin

text \<open>
  The write pipeline of \<open>crates/capsule-registry/src/pipeline.rs\<close> with the feature
  \<open>advanced-security\<close>: under the profile \<open>HybridKyber\<close> every segment is encrypted with a key of its
  own, derived from the node's key, an encapsulated secret, the capsule and the position of the
  segment. The audit log hangs on to these operations without a result and is left out; the
  randomness of the encapsulations is a list.
\<close>

record hybrid_pipeline =
  hp_pipeline :: write_pipeline
  hp_mlkem_manager :: "mlkem_state option"
  hp_random :: "bytes list"

type_synonym 'a hp_op = "(hybrid_pipeline, 'a, error) op"

definition on_pipeline :: "'a wp_op \<Rightarrow> 'a hp_op" where
  "on_pipeline m = zoom hp_pipeline (\<lambda>p hp. hp\<lparr>hp_pipeline := p\<rparr>) m"

section \<open>Writing\<close>

text \<open>
  The key material of a segment, when the policy asks for it and the node has a key pair; otherwise a
  warning is logged and the node's own key is used.
\<close>

definition wrap_for_segment ::
  "ext \<Rightarrow> kem_ext \<Rightarrow> policy \<Rightarrow> xts_key_pair \<Rightarrow> capsule_id \<Rightarrow> nat \<Rightarrow> content_hash \<Rightarrow> hybrid_material option hp_op" where
  "wrap_for_segment E K pol key_pair cid index h hp =
     (if crypto_profile pol = HybridKyber then
        (case hp_mlkem_manager hp of
           None \<Rightarrow> (Ok None, hp)
         | Some manager \<Rightarrow>
             (let rnd = (case hp_random hp of r # _ \<Rightarrow> r | [] \<Rightarrow> []);
                  hp = hp\<lparr>hp_random := tl (hp_random hp)\<rparr>
              in (case wrap_xts_key E K rnd manager (crypto_profile pol) (collect_base_material key_pair) cid
                         (SegmentId (of_nat index)) h of
                    Ok material \<Rightarrow> (Ok material, hp)
                  | Err _ \<Rightarrow> (Ok None, hp))))
      else (Ok None, hp))"

definition pair_for_use :: "hybrid_material option \<Rightarrow> xts_key_pair \<Rightarrow> xts_key_pair" where
  "pair_for_use material key_pair = (case material of Some m \<Rightarrow> key_pair_from_bytes (hm_wrapped_key m) | None \<Rightarrow> key_pair)"

definition hybrid_tweak :: "ext \<Rightarrow> hybrid_material option \<Rightarrow> content_hash \<Rightarrow> bytes" where
  "hybrid_tweak E material h =
     (let tweak = derive_tweak_from_hash (as_bytes (as_str h))
      in case material of Some m \<Rightarrow> mix_with E (hm_nonce m) tweak | None \<Rightarrow> tweak)"

definition hybrid_encrypt_chunk ::
  "ext \<Rightarrow> kem_ext \<Rightarrow> policy \<Rightarrow> bool \<Rightarrow> capsule_id \<Rightarrow> nat \<Rightarrow> bytes \<Rightarrow> content_hash \<Rightarrow>
   (bytes \<times> encryption_metadata option \<times> hybrid_material option) hp_op" where
  "hybrid_encrypt_chunk E K pol encryption_enabled cid index data h hp =
     (if encryption_enabled then
        (case wp_key_manager (hp_pipeline hp) of
           None \<Rightarrow> (Err Panic, hp)
         | Some km \<Rightarrow>
             (let key_version = km_current_version km
              in bind_op (on_pipeline (wp_get_key E key_version)) (\<lambda>key_pair.
                 bind_op (wrap_for_segment E K pol key_pair cid index h) (\<lambda>material.
                 let pair = pair_for_use material key_pair
                 in bind_op (lift_result (map_result_err EncryptionFailed
                        (encrypt_segment E data pair key_version (hybrid_tweak E material h)))) (\<lambda>(ciphertext, enc_meta).
                      let mac_tag = compute_mac E ciphertext enc_meta (key1 pair) (key2 pair)
                      in return_op (ciphertext, Some (set_integrity_tag mac_tag enc_meta), material)))) hp))
      else (Ok (data, None, None), hp))"

definition apply_material :: "ext \<Rightarrow> hybrid_material option \<Rightarrow> segment \<Rightarrow> segment" where
  "apply_material E material seg =
     (case material of
        Some m \<Rightarrow> seg\<lparr>seg_pq_ciphertext := Some (serialize_ciphertext E (hm_ciphertext m)), seg_pq_nonce := Some (hm_nonce m)\<rparr>
      | None \<Rightarrow> seg)"

text \<open>A new segment, with its content hash when the policy deduplicates.\<close>

definition hybrid_segment ::
  "ext \<Rightarrow> content_hash option \<Rightarrow> compression_result \<Rightarrow> encryption_metadata option \<Rightarrow> hybrid_material option \<Rightarrow> segment \<Rightarrow> segment" where
  "hybrid_segment E h comp_result enc_meta material segment =
     (let segment = segment\<lparr>seg_compressed := cr_compressed comp_result, seg_compression_algo := cr_algorithm comp_result\<rparr>;
          segment = (case h of Some h \<Rightarrow> segment\<lparr>seg_content_hash := Some h\<rparr> | None \<Rightarrow> segment);
          segment = segment\<lparr>seg_ref_count := 1, seg_deduplicated := False\<rparr>
      in apply_material E material (apply_enc_meta enc_meta segment))"

definition hybrid_write_new ::
  "ext \<Rightarrow> content_hash option \<Rightarrow> bytes \<Rightarrow> compression_result \<Rightarrow> encryption_metadata option \<Rightarrow> hybrid_material option \<Rightarrow>
   dedup_stats \<Rightarrow> (segment_id \<times> dedup_stats) store_op" where
  "hybrid_write_new E h final_data comp_result enc_meta material stats st =
     (let new_seg_id = fst (alloc_segment (st_registry st));
          st = st\<lparr>st_registry := snd (alloc_segment (st_registry st))\<rparr>
      in bind_op (map_err_op (map_nvram_error ''append'') (on_nvram (nv_append new_seg_id final_data))) (\<lambda>segment.
         bind_op (map_err_op (map_nvram_error ''update_segment_metadata'')
           (on_nvram (nv_update_segment_metadata new_seg_id (hybrid_segment E h comp_result enc_meta material segment)))) (\<lambda>_.
         bind_op (case h of
             Some h \<Rightarrow> map_err_op (map_registry_error ''register_content'') (on_registry (reg_register_content h new_seg_id))
           | None \<Rightarrow> return_op ()) (\<lambda>_.
         return_op (new_seg_id, add_segment_stats (of_nat (length final_data)) False stats)))) st)"

definition hybrid_store_chunk ::
  "ext \<Rightarrow> bool \<Rightarrow> content_hash \<Rightarrow> bytes \<Rightarrow> compression_result \<Rightarrow> encryption_metadata option \<Rightarrow> hybrid_material option \<Rightarrow>
   dedup_stats \<Rightarrow> (segment_id \<times> dedup_stats) store_op" where
  "hybrid_store_chunk E dedupe_on h final_data comp_result enc_meta material stats st =
     (if dedupe_on then
        (case reg_lookup_content h (st_registry st) of
           Some existing_seg_id \<Rightarrow>
             bind_op (map_err_op (map_nvram_error ''increment_refcount'')
                 (on_nvram (nv_increment_refcount existing_seg_id))) (\<lambda>updated.
               return_op (existing_seg_id, add_segment_stats (ucast (seg_len updated)) True stats)) st
         | None \<Rightarrow> hybrid_write_new E (Some h) final_data comp_result enc_meta material stats st)
      else hybrid_write_new E None final_data comp_result enc_meta material stats st)"

definition hybrid_write_chunk ::
  "ext \<Rightarrow> kem_ext \<Rightarrow> policy \<Rightarrow> bool \<Rightarrow> capsule_id \<Rightarrow> nat \<Rightarrow> bytes \<Rightarrow> dedup_stats \<Rightarrow> (segment_id \<times> dedup_stats) hp_op" where
  "hybrid_write_chunk E K pol encryption_enabled cid index chunk stats =
     bind_op (lift_result (map_result_err (map_compression_error index)
         (compress_segment E chunk (compression pol)))) (\<lambda>(compressed_data, comp_result).
       let h = hash_content E compressed_data
       in bind_op (hybrid_encrypt_chunk E K pol encryption_enabled cid index compressed_data h) (\<lambda>(final_data, enc_meta, material).
            on_pipeline (on_store (hybrid_store_chunk E (dedupe pol) h final_data comp_result enc_meta material stats))))"

fun hybrid_write_loop ::
  "ext \<Rightarrow> kem_ext \<Rightarrow> policy \<Rightarrow> bool \<Rightarrow> capsule_id \<Rightarrow> (nat \<times> bytes) list \<Rightarrow> segment_id list \<Rightarrow> dedup_stats \<Rightarrow>
   (segment_id list \<times> dedup_stats) hp_op" where
  "hybrid_write_loop E K pol enc cid [] ids stats hp = (Ok (ids, stats), hp)"
| "hybrid_write_loop E K pol enc cid ((index, chunk) # rest) ids stats hp =
     (case hybrid_write_chunk E K pol enc cid index chunk stats hp of
        (Ok (sid, stats), hp) \<Rightarrow> hybrid_write_loop E K pol enc cid rest (ids @ [sid]) stats hp
      | (Err e, hp) \<Rightarrow> (Err e, hp))"

definition hybrid_write_capsule ::
  "ext \<Rightarrow> kem_ext \<Rightarrow> u64 option \<Rightarrow> capsule_id \<Rightarrow> bytes \<Rightarrow> policy \<Rightarrow> capsule_id hp_op" where
  "hybrid_write_capsule E K now cid data pol hp =
     (let encryption_enabled = is_enabled (encryption pol) \<and> wp_key_manager (hp_pipeline hp) \<noteq> None
      in bind_op (hybrid_write_loop E K pol encryption_enabled cid (enumerate 0 (chunks SEGMENT_SIZE data)) [] new_stats)
           (\<lambda>(segment_ids, stats).
              on_pipeline (\<lambda>p.
                let p = (if bytes_saved stats > 0
                         then p\<lparr>wp_store := (wp_store p)\<lparr>st_registry :=
                                add_deduped_bytes cid (bytes_saved stats) (st_registry (wp_store p))\<rparr>\<rparr>
                         else p)
                in bind_op (map_err_op (map_registry_error ''create_capsule_with_segments'')
                     (on_store (on_registry (create_capsule_with_segments now cid (of_nat (length data)) segment_ids pol))))
                     (\<lambda>_. return_op cid) p)) hp)"

section \<open>Reading\<close>

text \<open>
  The key material of a stored segment: it takes the encapsulated secret and the content hash out of
  the metadata. Without one of them, or when unwrapping fails, the node's own key is used.
\<close>

definition unwrap_for_segment ::
  "ext \<Rightarrow> kem_ext \<Rightarrow> mlkem_state option \<Rightarrow> capsule \<Rightarrow> xts_key_pair \<Rightarrow> nat \<Rightarrow> segment \<Rightarrow> hybrid_material option" where
  "unwrap_for_segment E K manager cap key_pair seg_index seg =
     (if crypto_profile (cap_policy cap) = HybridKyber then
        (case (manager, seg_pq_ciphertext seg, seg_content_hash seg) of
           (Some manager, Some cipher_hex, Some h) \<Rightarrow>
             (case unwrap_xts_key E K manager (crypto_profile (cap_policy cap)) (collect_base_material key_pair) (cap_id cap)
                     (SegmentId (of_nat seg_index)) h cipher_hex of
                Ok material \<Rightarrow> material
              | Err _ \<Rightarrow> None)
         | _ \<Rightarrow> None)
      else None)"

definition hybrid_read_decrypt :: "ext \<Rightarrow> kem_ext \<Rightarrow> capsule \<Rightarrow> nat \<Rightarrow> segment \<Rightarrow> bytes \<Rightarrow> bytes hp_op" where
  "hybrid_read_decrypt E K cap seg_index seg raw hp =
     (if seg_encrypted seg then
        bind_op (lift_result (ok_or (wp_key_manager (hp_pipeline hp)) KeyManagerMissing)) (\<lambda>_.
        bind_op (lift_result (ok_or (seg_key_version seg) MissingKeyVersion)) (\<lambda>key_version.
        bind_op (on_pipeline (wp_get_key E key_version)) (\<lambda>key_pair hp.
          (let pair = pair_for_use (unwrap_for_segment E K (hp_mlkem_manager hp) cap key_pair seg_index seg) key_pair;
               enc_meta = segment_enc_meta seg (length raw)
           in bind_op (lift_result (map_result_err EncryptionFailed (verify_mac E raw enc_meta (key1 pair) (key2 pair)))) (\<lambda>_.
                lift_result (map_result_err EncryptionFailed (decrypt_segment E raw pair enc_meta)))) hp))) hp
      else (Ok raw, hp))"

fun hybrid_read_loop :: "ext \<Rightarrow> kem_ext \<Rightarrow> capsule \<Rightarrow> (nat \<times> segment_id) list \<Rightarrow> bytes \<Rightarrow> bytes hp_op" where
  "hybrid_read_loop E K cap [] acc hp = (Ok acc, hp)"
| "hybrid_read_loop E K cap ((seg_index, sid) # sids) acc hp =
     bind_op (lift_result (nv_read sid (st_nvram (wp_store (hp_pipeline hp))))) (\<lambda>raw.
     bind_op (lift_result (nv_get_segment_metadata sid (st_nvram (wp_store (hp_pipeline hp))))) (\<lambda>seg.
     bind_op (hybrid_read_decrypt E K cap seg_index seg raw) (\<lambda>d.
       hybrid_read_loop E K cap sids (acc @ decompress_by_policy E (compression (cap_policy cap)) d)))) hp"

definition hybrid_read_capsule :: "ext \<Rightarrow> kem_ext \<Rightarrow> capsule_id \<Rightarrow> bytes hp_op" where
  "hybrid_read_capsule E K cid hp =
     bind_op (lift_result (reg_lookup cid (st_registry (wp_store (hp_pipeline hp))))) (\<lambda>cap.
       hybrid_read_loop E K cap (enumerate 0 (cap_segments cap)) []) hp"

end
