(* ===== verification/Hybrid_Properties.thy ===== *)
theory Hybrid_Properties
  imports Hybrid_Pipeline Pipeline_Properties
begin

text \<open>
  Correctness of the pipeline with post-quantum key wrapping: reading is a function of the store and
  the keys; a deduplicating write whose contents are new reads back; and under policies that do not
  deduplicate, or when contents are shared, what is written under the hybrid profile is lost.
\<close>

section \<open>Reading is a function of the store\<close>

definition hybrid_decrypt ::
  "ext \<Rightarrow> kem_ext \<Rightarrow> keys \<Rightarrow> mlkem_state option \<Rightarrow> capsule \<Rightarrow> nat \<Rightarrow> segment \<Rightarrow> bytes \<Rightarrow> (bytes, error) result" where
  "hybrid_decrypt E K kf manager cap i seg raw =
     (if seg_encrypted seg then
        bind_result (ok_or kf KeyManagerMissing) (\<lambda>f.
        bind_result (ok_or (seg_key_version seg) MissingKeyVersion) (\<lambda>v.
        bind_result (map_result_err EncryptionFailed (f v)) (\<lambda>kp.
          let pair = pair_for_use (unwrap_for_segment E K manager cap kp i seg) kp;
              enc_meta = segment_enc_meta seg (length raw)
          in bind_result (map_result_err EncryptionFailed (verify_mac E raw enc_meta (key1 pair) (key2 pair))) (\<lambda>_.
               map_result_err EncryptionFailed (decrypt_segment E raw pair enc_meta)))))
      else Ok raw)"

definition hybrid_plain ::
  "ext \<Rightarrow> kem_ext \<Rightarrow> keys \<Rightarrow> mlkem_state option \<Rightarrow> nvram_log \<Rightarrow> capsule \<Rightarrow> nat \<Rightarrow> segment_id \<Rightarrow> (bytes, error) result" where
  "hybrid_plain E K kf manager lg cap i sid =
     bind_result (nv_read sid lg) (\<lambda>raw.
     bind_result (nv_get_segment_metadata sid lg) (\<lambda>seg. hybrid_decrypt E K kf manager cap i seg raw))"

fun hybrid_pure ::
  "ext \<Rightarrow> kem_ext \<Rightarrow> keys \<Rightarrow> mlkem_state option \<Rightarrow> nvram_log \<Rightarrow> capsule \<Rightarrow> (nat \<times> segment_id) list \<Rightarrow> (bytes, error) result" where
  "hybrid_pure E K kf manager lg cap [] = Ok []"
| "hybrid_pure E K kf manager lg cap ((i, sid) # sids) =
     bind_result (hybrid_plain E K kf manager lg cap i sid) (\<lambda>d.
     bind_result (hybrid_pure E K kf manager lg cap sids) (\<lambda>rest.
       Ok (decompress_by_policy E (compression (cap_policy cap)) d @ rest)))"

lemma on_pipeline_eq:
  "on_pipeline m hp = (r, hp') \<longleftrightarrow> (\<exists>p. m (hp_pipeline hp) = (r, p) \<and> hp' = hp\<lparr>hp_pipeline := p\<rparr>)"
  by (auto simp: on_pipeline_def zoom_def split: prod.splits)

text \<open>A step that leaves the store and the key encapsulation alone and keeps the keys.\<close>

definition only_hybrid_keys :: "ext \<Rightarrow> hybrid_pipeline \<Rightarrow> hybrid_pipeline \<Rightarrow> bool" where
  "only_hybrid_keys E hp hp' \<longleftrightarrow> only_keys E (hp_pipeline hp) (hp_pipeline hp') \<and> hp_mlkem_manager hp' = hp_mlkem_manager hp"

lemma only_hybrid_keys_refl: "wp_km_ok E (hp_pipeline hp) \<Longrightarrow> only_hybrid_keys E hp hp"
  by (simp add: only_hybrid_keys_def only_keys_refl)

lemma only_hybrid_keys_trans: "only_hybrid_keys E a b \<Longrightarrow> only_hybrid_keys E b c \<Longrightarrow> only_hybrid_keys E a c"
  by (auto simp: only_hybrid_keys_def intro: only_keys_trans)

lemma hybrid_read_decrypt_effect:
  assumes "wp_km_ok E (hp_pipeline hp)" "hybrid_read_decrypt E K cap i seg raw hp = (r, hp')"
  shows "only_hybrid_keys E hp hp'" "r = hybrid_decrypt E K (wp_keys E (hp_pipeline hp)) (hp_mlkem_manager hp) cap i seg raw"
proof -
  let ?p = "hp_pipeline hp"
  have "only_hybrid_keys E hp hp' \<and> r = hybrid_decrypt E K (wp_keys E ?p) (hp_mlkem_manager hp) cap i seg raw"
  proof (cases "seg_encrypted seg \<and> wp_key_manager ?p \<noteq> None \<and> seg_key_version seg \<noteq> None")
    case False
    then show ?thesis
      using assms only_hybrid_keys_refl
      by (cases "seg_encrypted seg"; cases "wp_key_manager ?p"; cases "seg_key_version seg")
        (auto simp: hybrid_read_decrypt_def hybrid_decrypt_def op_simps wp_keys_def)
  next
    case True
    then obtain v km where v: "seg_key_version seg = Some v" and km: "wp_key_manager ?p = Some km" by auto
    obtain q p1 where g: "wp_get_key E v ?p = (q, p1)" by fastforce
    note G = wp_get_key_effect [OF assms(1) g]
    have g': "on_pipeline (wp_get_key E v) hp = (q, hp\<lparr>hp_pipeline := p1\<rparr>)" using g by (auto simp: on_pipeline_eq)
    have "hp' = hp\<lparr>hp_pipeline := p1\<rparr>"
      "r = bind_result q (\<lambda>kp.
          let pair = pair_for_use (unwrap_for_segment E K (hp_mlkem_manager hp) cap kp i seg) kp;
              enc_meta = segment_enc_meta seg (length raw)
          in bind_result (map_result_err EncryptionFailed (verify_mac E raw enc_meta (key1 pair) (key2 pair))) (\<lambda>_.
               map_result_err EncryptionFailed (decrypt_segment E raw pair enc_meta)))"
      using assms(2) True v km g'
      by (auto simp: hybrid_read_decrypt_def op_simps Let_def split: result.splits prod.splits)
    then show ?thesis using G True v km by (simp add: hybrid_decrypt_def wp_keys_def only_hybrid_keys_def)
  qed
  then show "only_hybrid_keys E hp hp'"
    "r = hybrid_decrypt E K (wp_keys E (hp_pipeline hp)) (hp_mlkem_manager hp) cap i seg raw" by auto
qed

lemma hybrid_read_loop_effect:
  assumes "wp_km_ok E (hp_pipeline hp)" "hybrid_read_loop E K cap sids acc hp = (r, hp')"
  shows "r = bind_result (hybrid_pure E K (wp_keys E (hp_pipeline hp)) (hp_mlkem_manager hp)
      (st_nvram (wp_store (hp_pipeline hp))) cap sids) (\<lambda>d. Ok (acc @ d))"
  using assms
proof (induction sids arbitrary: acc hp)
  case (Cons item sids)
  obtain i sid where item: "item = (i, sid)" by (cases item)
  let ?lg = "st_nvram (wp_store (hp_pipeline hp))"
  show ?case
  proof (cases "nv_read sid ?lg")
    case (Err e)
    then have "r = Err e" using Cons.prems(2) by (auto simp: op_simps item)
    then show ?thesis using Err by (simp add: item hybrid_plain_def)
  next
    case (Ok raw)
    then obtain seg where g: "nv_get_segment_metadata sid ?lg = Ok seg"
      by (auto simp: nv_read_def nv_get_segment_metadata_def split: option.splits)
    obtain q hp1 where d: "hybrid_read_decrypt E K cap i seg raw hp = (q, hp1)" by fastforce
    note D = hybrid_read_decrypt_effect [OF Cons.prems(1) d]
    have pl: "hybrid_plain E K (wp_keys E (hp_pipeline hp)) (hp_mlkem_manager hp) ?lg cap i sid = q"
      using Ok g D(2) by (simp add: hybrid_plain_def)
    show ?thesis
    proof (cases q)
      case e: (Err e)
      then have "r = Err e" using Cons.prems(2) Ok g d by (auto simp: op_simps item)
      then show ?thesis using pl e by (simp add: item)
    next
      case x: (Ok x)
      have run: "hybrid_read_loop E K cap sids (acc @ decompress_by_policy E (compression (cap_policy cap)) x) hp1 = (r, hp')"
        using Cons.prems(2) Ok g d x by (simp add: op_simps item)
      have km: "wp_km_ok E (hp_pipeline hp1)" using D(1) by (simp add: only_hybrid_keys_def only_keys_def)
      have same: "wp_keys E (hp_pipeline hp1) = wp_keys E (hp_pipeline hp)" "wp_store (hp_pipeline hp1) = wp_store (hp_pipeline hp)"
        "hp_mlkem_manager hp1 = hp_mlkem_manager hp"
        using D(1) by (simp_all add: only_hybrid_keys_def only_keys_def)
      show ?thesis
        using Cons.IH [OF km run] pl x same
        by (cases "hybrid_pure E K (wp_keys E (hp_pipeline hp)) (hp_mlkem_manager hp) ?lg cap sids") (simp_all add: item)
    qed
  qed
qed auto

lemma hybrid_read_capsule_effect:
  assumes "wp_km_ok E (hp_pipeline hp)" "reg_lookup cid (st_registry (wp_store (hp_pipeline hp))) = Ok cap"
  shows "fst (hybrid_read_capsule E K cid hp) =
    hybrid_pure E K (wp_keys E (hp_pipeline hp)) (hp_mlkem_manager hp) (st_nvram (wp_store (hp_pipeline hp))) cap
      (enumerate 0 (cap_segments cap))"
proof -
  obtain r hp' where run: "hybrid_read_loop E K cap (enumerate 0 (cap_segments cap)) [] hp = (r, hp')" by fastforce
  then have "hybrid_read_capsule E K cid hp = (r, hp')" using assms(2) by (simp add: hybrid_read_capsule_def op_simps)
  moreover have "bind_result x (\<lambda>d. Ok ([] @ d)) = x" for x :: "(bytes, error) result" by (cases x) simp_all
  ultimately show ?thesis using hybrid_read_loop_effect [OF assms(1) run] by simp
qed

section \<open>Encrypting a chunk\<close>

text \<open>A stored segment with this hash decrypts to the chunk when it is read as part \<open>i\<close> of the capsule.\<close>

definition hybrid_decrypts ::
  "ext \<Rightarrow> kem_ext \<Rightarrow> keys \<Rightarrow> mlkem_state option \<Rightarrow> capsule \<Rightarrow> nat \<Rightarrow> content_hash \<Rightarrow> hybrid_material option \<Rightarrow>
   encryption_metadata option \<Rightarrow> bytes \<Rightarrow> bytes \<Rightarrow> bool" where
  "hybrid_decrypts E K kf manager cap i h material em fd d \<longleftrightarrow>
     (\<forall>seg. seg_content_hash seg = Some h \<and> \<not> seg_encrypted seg \<and> seg_pq_ciphertext seg = None \<longrightarrow>
        hybrid_decrypt E K kf manager cap i (apply_material E material (apply_enc_meta em seg)) fd = Ok d)"

definition manager_ok :: "ext \<Rightarrow> kem_ext \<Rightarrow> mlkem_state option \<Rightarrow> bool" where
  "manager_ok E K manager \<longleftrightarrow> (\<forall>mgr. manager = Some mgr \<longrightarrow> key_pair_of K (mk_public mgr) (mk_secret mgr)) \<and>
     (\<forall>bs. kx_hex_decode K (ext_hex E bs) = Some bs)"

lemma apply_material_fields [simp]:
  "seg_encrypted (apply_material E material seg) = seg_encrypted seg" "seg_key_version (apply_material E material seg) = seg_key_version seg"
  "segment_enc_meta (apply_material E material seg) n = segment_enc_meta seg n"
  "seg_content_hash (apply_material E material seg) = seg_content_hash seg"
  "seg_pq_ciphertext (apply_material E material seg) = (case material of None \<Rightarrow> seg_pq_ciphertext seg
     | Some m \<Rightarrow> Some (serialize_ciphertext E (hm_ciphertext m)))"
  "seg_content_hash (apply_enc_meta em seg) = seg_content_hash seg" "seg_pq_ciphertext (apply_enc_meta em seg) = seg_pq_ciphertext seg"
  by (auto simp: apply_material_def apply_enc_meta_def segment_enc_meta_def split: option.splits)

text \<open>The material of a segment is unwrapped again from its metadata.\<close>

lemma wrap_for_segment_effect:
  assumes "wrap_for_segment E K pol kp (cap_id cap) i h hp = (r, hp')" "manager_ok E K (hp_mlkem_manager hp)" "cap_policy cap = pol"
  obtains material where "r = Ok material" "hp_pipeline hp' = hp_pipeline hp" "hp_mlkem_manager hp' = hp_mlkem_manager hp"
    "\<forall>seg. seg_content_hash seg = Some h \<and> seg_pq_ciphertext seg = (case material of None \<Rightarrow> None
       | Some m \<Rightarrow> Some (serialize_ciphertext E (hm_ciphertext m))) \<longrightarrow>
     unwrap_for_segment E K (hp_mlkem_manager hp) cap kp i seg = material"
proof (cases "crypto_profile pol = HybridKyber \<and> hp_mlkem_manager hp \<noteq> None")
  case False
  show thesis
    by (rule that [of None]) (use assms False in \<open>auto simp: wrap_for_segment_def unwrap_for_segment_def split: option.splits if_splits\<close>)
next
  case True
  then obtain mgr where mgr: "hp_mlkem_manager hp = Some mgr" by auto
  define rnd where "rnd = (case hp_random hp of r # _ \<Rightarrow> r | [] \<Rightarrow> [])"
  obtain m where w: "wrap_xts_key E K rnd mgr (crypto_profile pol) (collect_base_material kp) (cap_id cap) (SegmentId (of_nat i)) h = Ok (Some m)"
    using True by (cases "kx_encapsulate K (mk_public mgr) rnd") (auto simp: wrap_xts_key_def)
  have u: "unwrap_xts_key E K mgr (crypto_profile pol) (collect_base_material kp) (cap_id cap) (SegmentId (of_nat i)) h
      (serialize_ciphertext E (hm_ciphertext m)) = Ok (Some m)"
    using assms(2) mgr by (intro wrap_effect [OF _ _ w]) (auto simp: manager_ok_def)
  show thesis
  proof (rule that [of "Some m"])
    show "r = Ok (Some m)" "hp_pipeline hp' = hp_pipeline hp" "hp_mlkem_manager hp' = hp_mlkem_manager hp"
      using assms(1) True mgr w by (auto simp: wrap_for_segment_def Let_def rnd_def [symmetric])
  qed (use True mgr u assms(3) in \<open>simp add: unwrap_for_segment_def\<close>)
qed

lemma hybrid_encrypt_effect:
  assumes km: "wp_km_ok E (hp_pipeline hp)" and laws: "xts_laws E" "manager_ok E K (hp_mlkem_manager hp)" and len: "length d < 2 ^ 32"
    and cap: "cap_policy cap = pol"
    and run: "hybrid_encrypt_chunk E K pol enc (cap_id cap) i d h hp = (Ok (fd, em, material), hp')"
  shows "only_hybrid_keys E hp hp'" "length fd = length d"
    and "hybrid_decrypts E K (wp_keys E (hp_pipeline hp)) (hp_mlkem_manager hp) cap i h material em fd d"
    and "em = Some meta \<Longrightarrow> segment_enc_meta (apply_enc_meta em seg) (length fd) = meta \<and> em_key_version meta \<noteq> None \<and> em_integrity_tag meta \<noteq> None"
proof -
  let ?p = "hp_pipeline hp"
  have "only_hybrid_keys E hp hp' \<and> length fd = length d \<and>
    hybrid_decrypts E K (wp_keys E ?p) (hp_mlkem_manager hp) cap i h material em fd d \<and>
    (em = Some meta \<longrightarrow> segment_enc_meta (apply_enc_meta em seg) (length fd) = meta \<and> em_key_version meta \<noteq> None \<and> em_integrity_tag meta \<noteq> None)"
  proof (cases enc)
    case False
    then show ?thesis using run only_hybrid_keys_refl [OF km]
      by (auto simp: hybrid_encrypt_chunk_def hybrid_decrypts_def hybrid_decrypt_def apply_material_def apply_enc_meta_def)
  next
    case True
    obtain km1 where k: "wp_key_manager ?p = Some km1" using run True by (auto simp: hybrid_encrypt_chunk_def split: option.splits)
    let ?v = "km_current_version km1"
    obtain q p1 where g: "wp_get_key E ?v ?p = (q, p1)" by fastforce
    note G = wp_get_key_effect [OF km g]
    let ?hp1 = "hp\<lparr>hp_pipeline := p1\<rparr>"
    have g': "on_pipeline (wp_get_key E ?v) hp = (q, ?hp1)" using g by (auto simp: on_pipeline_eq)
    have kf: "wp_keys E ?p = Some (derive_key E km1)" by (simp add: wp_keys_def k)
    have q: "q = map_result_err EncryptionFailed (derive_key E km1 ?v)" using G(2) kf by simp
    obtain kp where kp: "derive_key E km1 ?v = Ok kp"
      using run True k g' q by (cases "derive_key E km1 ?v") (auto simp: hybrid_encrypt_chunk_def op_simps Let_def)
    obtain w hp2 where w: "wrap_for_segment E K pol kp (cap_id cap) i h ?hp1 = (w, hp2)" by fastforce
    have mok: "manager_ok E K (hp_mlkem_manager ?hp1)" using laws(2) by simp
    obtain mat where M: "w = Ok mat" "hp_pipeline hp2 = p1" "hp_mlkem_manager hp2 = hp_mlkem_manager hp"
      "\<forall>seg. seg_content_hash seg = Some h \<and> seg_pq_ciphertext seg = (case mat of None \<Rightarrow> None
         | Some m \<Rightarrow> Some (serialize_ciphertext E (hm_ciphertext m))) \<longrightarrow>
         unwrap_for_segment E K (hp_mlkem_manager hp) cap kp i seg = mat"
      using wrap_for_segment_effect [OF w mok cap] by (metis hybrid_pipeline.select_convs(1,2) hybrid_pipeline.update_convs(1) hybrid_pipeline.surjective)
    let ?pair = "pair_for_use mat kp"
    obtain c m where c: "encrypt_segment E d ?pair ?v (hybrid_tweak E mat h) = Ok (c, m)"
      using run True k g' q kp w M(1)
      by (cases "encrypt_segment E d ?pair ?v (hybrid_tweak E mat h)") (auto simp: hybrid_encrypt_chunk_def op_simps Let_def)
    have r: "fd = c" "material = mat" "em = Some (set_integrity_tag (compute_mac E c m (key1 ?pair) (key2 ?pair)) m)" "hp' = hp2"
      using run True k g' q kp w M(1) c by (auto simp: hybrid_encrypt_chunk_def op_simps Let_def)
    note S = encrypt_segment_effect [OF laws(1) c len]
    let ?m = "set_integrity_tag (compute_mac E c m (key1 ?pair) (key2 ?pair)) m"
    have meta: "segment_enc_meta (apply_enc_meta (Some ?m) seg) (length c) = ?m" for seg
      by (simp add: segment_enc_meta_def apply_enc_meta_def set_integrity_tag_def S(1,2) new_xts_def)
    have kv: "seg_key_version (apply_enc_meta (Some ?m) seg) = Some ?v" "seg_encrypted (apply_enc_meta (Some ?m) seg)" for seg
      by (simp_all add: apply_enc_meta_def set_integrity_tag_def S(2) new_xts_def)
    have "hybrid_decrypts E K (wp_keys E ?p) (hp_mlkem_manager hp) cap i h material em fd d"
      unfolding hybrid_decrypts_def
    proof (intro allI impI)
      fix seg :: segment assume "seg_content_hash seg = Some h \<and> \<not> seg_encrypted seg \<and> seg_pq_ciphertext seg = None"
      then have "unwrap_for_segment E K (hp_mlkem_manager hp) cap kp i (apply_material E mat (apply_enc_meta (Some ?m) seg)) = mat"
        by (intro M(4) [rule_format]) (simp split: option.split)
      then show "hybrid_decrypt E K (wp_keys E ?p) (hp_mlkem_manager hp) cap i (apply_material E material (apply_enc_meta em seg)) fd = Ok d"
        by (simp add: hybrid_decrypt_def r kv meta kf kp Let_def verify_own_mac S(3))
    qed
    moreover have "em_key_version ?m \<noteq> None" "em_integrity_tag ?m \<noteq> None"
      by (simp_all add: set_integrity_tag_def S(2) new_xts_def)
    ultimately show ?thesis using G(1) M(2,3) S(1) r meta by (auto simp: only_hybrid_keys_def)
  qed
  then show "em = Some meta \<Longrightarrow> segment_enc_meta (apply_enc_meta em seg) (length fd) = meta \<and> em_key_version meta \<noteq> None \<and> em_integrity_tag meta \<noteq> None"
    "only_hybrid_keys E hp hp'" "length fd = length d"
    "hybrid_decrypts E K (wp_keys E (hp_pipeline hp)) (hp_mlkem_manager hp) cap i h material em fd d" by auto
qed

section \<open>Storing a chunk\<close>

text \<open>What is stored stays: segments keep their metadata and bytes, and capsules are as before.\<close>

definition keeps_stored :: "store \<Rightarrow> store \<Rightarrow> bool" where
  "keeps_stored st st' \<longleftrightarrow> reg_capsules (st_registry st') = reg_capsules (st_registry st) \<and>
     (\<forall>k. hm_get (nv_segment_map (st_nvram st)) k \<noteq> None \<longrightarrow>
        hm_get (nv_segment_map (st_nvram st')) k = hm_get (nv_segment_map (st_nvram st)) k \<and>
        seg_data (st_nvram st') k = seg_data (st_nvram st) k)"

lemma keeps_stored_trans: "keeps_stored a b \<Longrightarrow> keeps_stored b c \<Longrightarrow> keeps_stored a c"
  by (auto simp: keeps_stored_def)

lemma hybrid_plain_kept:
  assumes "keeps_stored st st'" "hybrid_plain E K kf manager (st_nvram st) cap i sid = Ok d"
  shows "hybrid_plain E K kf manager (st_nvram st') cap i sid = Ok d"
proof -
  obtain raw where raw: "nv_read sid (st_nvram st) = Ok raw"
    using assms(2) by (auto simp: hybrid_plain_def bind_result_Ok_iff)
  then have "hm_get (nv_segment_map (st_nvram st)) sid \<noteq> None" by (auto simp: nv_read_eq split: option.splits)
  then have "hm_get (nv_segment_map (st_nvram st')) sid = hm_get (nv_segment_map (st_nvram st)) sid" "nv_read sid (st_nvram st') = Ok raw"
    using assms(1) raw by (auto simp: keeps_stored_def nv_read_Ok_iff)
  then show ?thesis using assms(2) raw by (simp add: hybrid_plain_def nv_get_segment_metadata_def)
qed

definition store_ok :: "store \<Rightarrow> bool" where
  "store_ok st \<longleftrightarrow> log_ok (st_nvram st) \<and> ids_below (reg_next_segment_id (st_registry st)) (st_nvram st)"

text \<open>A new segment holds the stored bytes under the metadata of the write.\<close>

lemma hybrid_write_new_effect:
  assumes ok: "store_ok st" and cap: "capacity (Suc n) (length fd + b) st" and len: "length fd < 2 ^ 32"
    and run: "hybrid_write_new E h fd cr em material stats st = (Ok (sid, stats'), st')"
  shows "store_ok st'" "capacity n b st'" "keeps_stored st st'"
    and "hm_get (nv_segment_map (st_nvram st')) sid =
      Some (hybrid_segment E h cr em material (fresh_segment sid (nv_next_offset (st_nvram st)) fd))"
    and "seg_data (st_nvram st') sid = Some fd"
    and "reg_content_store (st_registry st') =
      (case h of None \<Rightarrow> reg_content_store (st_registry st) | Some h \<Rightarrow> hm_insert h sid (reg_content_store (st_registry st)))"
proof -
  let ?sid = "next_sid st" and ?lg = "st_nvram st" and ?rg = "snd (alloc_segment (st_registry st))"
  let ?fresh = "fresh_segment ?sid (nv_next_offset ?lg) fd"
  let ?seg = "hybrid_segment E h cr em material ?fresh"
  have sid: "fst (alloc_segment (st_registry st)) = ?sid" by (simp add: alloc_segment_def next_sid_def)
  obtain r1 l1 where a: "nv_append ?sid fd ?lg = (r1, l1)" by fastforce
  obtain seg1 where r1: "r1 = Ok seg1"
    using run a sid by (cases r1) (auto simp: hybrid_write_new_def Let_def op_simps on_nvram_def zoom_def)
  have rm: "room (length fd) ?lg" using cap by (simp add: capacity_def room_def)
  have lok: "log_ok ?lg" using ok by (simp add: store_ok_def)
  have A: "log_ok l1" "seg1 = ?fresh" "nv_segment_map l1 = hm_insert ?sid ?fresh (nv_segment_map ?lg)" "seg_data l1 ?sid = Some fd"
    "unat (nv_next_offset l1) \<le> unat (nv_next_offset ?lg) + length fd" "\<forall>k. k \<noteq> ?sid \<longrightarrow> seg_data l1 k = seg_data ?lg k"
    using nv_append_effect [OF a lok rm len] r1 by auto
  obtain r2 l2 where u: "nv_update_segment_metadata ?sid ?seg l1 = (r2, l2)" by fastforce
  obtain x2 where r2: "r2 = Ok x2"
    using run a sid r1 A(2) u by (cases r2) (auto simp: hybrid_write_new_def Let_def op_simps on_nvram_def zoom_def)
  note U = save_effect [OF u [unfolded nv_update_segment_metadata_def]]
  have place: "same_place ?fresh ?seg"
    by (auto simp: same_place_def hybrid_segment_def apply_material_def apply_enc_meta_def Let_def split: option.splits)
  have pres: "hm_get (nv_segment_map l1) ?sid = Some ?fresh" using A(3) by simp
  note N = nv_put_effect [OF A(1) pres place]
  have map2: "nv_segment_map l2 = hm_insert ?sid ?seg (nv_segment_map l1)" using U(1) by (simp add: nv_put_def)
  have data2: "seg_data l2 = seg_data l1" using seg_data_cong [OF U(1,3)] N(2) by simp
  have lok2: "log_ok l2" using log_ok_cong [OF U(1,2) _ N(1)] U(3) by simp
  have next2: "nv_next_offset l2 = nv_next_offset l1" using U(2) by (simp add: nv_put_def)
  define rg where "rg = st_registry st'"
  have "sid = ?sid \<and> st_nvram st' = l2 \<and> reg_capsules rg = reg_capsules (st_registry st) \<and>
    reg_next_segment_id rg = reg_next_segment_id (st_registry st) + 1 \<and>
    reg_content_store rg = (case h of None \<Rightarrow> reg_content_store (st_registry st) | Some h \<Rightarrow> hm_insert h ?sid (reg_content_store (st_registry st)))"
  proof (cases h)
    case None
    then show ?thesis
      using run a sid r1 A(2) u r2 by (auto simp: hybrid_write_new_def Let_def op_simps on_nvram_def zoom_def rg_def alloc_segment_def)
  next
    case (Some h')
    obtain r3 g3 where g: "reg_register_content h' ?sid ?rg = (r3, g3)" by fastforce
    have "sid = ?sid" "st_nvram st' = l2" "rg = g3"
      using run a sid r1 A(2) u r2 Some g
      by (cases r3; auto simp: hybrid_write_new_def Let_def op_simps on_nvram_def on_registry_def zoom_def rg_def)+
    then show ?thesis using reg_register_effect [OF g] Some by (simp add: alloc_segment_def)
  qed
  then have fin: "sid = ?sid" "st_nvram st' = l2" "reg_capsules rg = reg_capsules (st_registry st)"
    "reg_next_segment_id rg = reg_next_segment_id (st_registry st) + 1"
    "reg_content_store rg = (case h of None \<Rightarrow> reg_content_store (st_registry st) | Some h \<Rightarrow> hm_insert h ?sid (reg_content_store (st_registry st)))"
    by blast+
  have absent: "hm_get (nv_segment_map ?lg) ?sid = None"
    using ok by (cases "hm_get (nv_segment_map ?lg) ?sid") (auto simp: store_ok_def ids_below_def next_sid_def)
  have num: "unat (reg_next_segment_id rg) = unat (reg_next_segment_id (st_registry st)) + 1"
    using unat_next_id [of n st] cap fin(4) by (simp add: capacity_def)
  show "hm_get (nv_segment_map (st_nvram st')) sid = Some (hybrid_segment E h cr em material (fresh_segment sid (nv_next_offset ?lg) fd))"
    "seg_data (st_nvram st') sid = Some fd"
    "reg_content_store (st_registry st') =
      (case h of None \<Rightarrow> reg_content_store (st_registry st) | Some h \<Rightarrow> hm_insert h sid (reg_content_store (st_registry st)))"
    using fin map2 data2 A(4) by (simp_all add: rg_def split: option.split)
  show "store_ok st'"
    using ok lok2 fin(2) num map2 A(3) by (auto simp: store_ok_def ids_below_def rg_def next_sid_def split: if_splits)
  show "capacity n b st'"
    using cap num next2 fin(2) A(5) by (simp add: capacity_def ids_room_def room_def rg_def)
  show "keeps_stored st st'"
    using fin map2 data2 A(3,6) absent by (auto simp: keeps_stored_def rg_def)
qed

text \<open>One chunk: the hash of its compressed form is not registered yet, so a new segment is written.\<close>

definition view_hash :: "ext \<Rightarrow> policy \<Rightarrow> bytes \<Rightarrow> content_hash" where
  "view_hash E pol c = (case compress_segment E c (compression pol) of Ok (v, _) \<Rightarrow> hash_content E v | Err _ \<Rightarrow> hash_content E [])"

definition new_contents :: "ext \<Rightarrow> policy \<Rightarrow> registry \<Rightarrow> bytes list \<Rightarrow> bool" where
  "new_contents E pol rg cs \<longleftrightarrow>
     distinct (map (view_hash E pol) cs) \<and> (\<forall>c\<in>set cs. reg_lookup_content (view_hash E pol c) rg = None)"

definition hybrid_ok :: "ext \<Rightarrow> kem_ext \<Rightarrow> hybrid_pipeline \<Rightarrow> bool" where
  "hybrid_ok E K hp \<longleftrightarrow> wp_km_ok E (hp_pipeline hp) \<and> store_ok (wp_store (hp_pipeline hp)) \<and> manager_ok E K (hp_mlkem_manager hp)"

definition hybrid_keeps :: "ext \<Rightarrow> hybrid_pipeline \<Rightarrow> hybrid_pipeline \<Rightarrow> bool" where
  "hybrid_keeps E hp hp' \<longleftrightarrow> wp_keys E (hp_pipeline hp') = wp_keys E (hp_pipeline hp) \<and> hp_mlkem_manager hp' = hp_mlkem_manager hp \<and>
     keeps_stored (wp_store (hp_pipeline hp)) (wp_store (hp_pipeline hp'))"

definition hybrid_holds :: "ext \<Rightarrow> kem_ext \<Rightarrow> capsule \<Rightarrow> hybrid_pipeline \<Rightarrow> nat \<Rightarrow> bytes \<Rightarrow> segment_id \<Rightarrow> bool" where
  "hybrid_holds E K cap hp i c sid \<longleftrightarrow> (\<exists>v res. compress_segment E c (compression (cap_policy cap)) = Ok (v, res) \<and>
     hybrid_plain E K (wp_keys E (hp_pipeline hp)) (hp_mlkem_manager hp) (st_nvram (wp_store (hp_pipeline hp))) cap i sid = Ok v)"

lemma hybrid_holds_kept: "hybrid_holds E K cap hp i c sid \<Longrightarrow> hybrid_keeps E hp hp' \<Longrightarrow> hybrid_holds E K cap hp' i c sid"
  by (auto simp: hybrid_holds_def hybrid_keeps_def intro: hybrid_plain_kept)

lemma hybrid_write_chunk_run:
  assumes ok: "hybrid_ok E K hp" and xts: "xts_laws E" and len: "length c < 2 ^ 32" and cap: "cap_policy cap = pol"
    and run: "hybrid_write_chunk E K pol enc (cap_id cap) i c stats hp = (Ok (sid, stats'), hp')"
  obtains v res fd em mat hp1 st' where "compress_segment E c (compression pol) = Ok (v, res)" "length fd \<le> length c"
    "hybrid_encrypt_chunk E K pol enc (cap_id cap) i v (hash_content E v) hp = (Ok (fd, em, mat), hp1)"
    "hybrid_store_chunk E (dedupe pol) (hash_content E v) fd res em mat stats (wp_store (hp_pipeline hp)) = (Ok (sid, stats'), st')"
    "wp_store (hp_pipeline hp') = st'" "wp_keys E (hp_pipeline hp') = wp_keys E (hp_pipeline hp)" "wp_km_ok E (hp_pipeline hp')"
    "hp_mlkem_manager hp' = hp_mlkem_manager hp"
    "hybrid_decrypts E K (wp_keys E (hp_pipeline hp)) (hp_mlkem_manager hp) cap i (hash_content E v) mat em fd v"
proof -
  obtain v res where v: "compress_segment E c (compression pol) = Ok (v, res)"
    using run by (cases "compress_segment E c (compression pol)") (auto simp: hybrid_write_chunk_def op_simps)
  let ?h = "hash_content E v"
  obtain q hp1 where e: "hybrid_encrypt_chunk E K pol enc (cap_id cap) i v ?h hp = (q, hp1)" by fastforce
  obtain fd em mat where q: "q = Ok (fd, em, mat)"
    using run v e by (cases q) (auto simp: hybrid_write_chunk_def op_simps Let_def)
  have lv: "length v \<le> length c" using compress_length [OF v] .
  then have lv2: "length v < 2 ^ 32" using len by simp
  have oks: "wp_km_ok E (hp_pipeline hp)" "manager_ok E K (hp_mlkem_manager hp)" using ok by (simp_all add: hybrid_ok_def)
  note X = hybrid_encrypt_effect [OF oks(1) xts oks(2) lv2 cap e [unfolded q]]
  have same: "wp_store (hp_pipeline hp1) = wp_store (hp_pipeline hp)" "wp_keys E (hp_pipeline hp1) = wp_keys E (hp_pipeline hp)"
    "wp_km_ok E (hp_pipeline hp1)" "hp_mlkem_manager hp1 = hp_mlkem_manager hp"
    using X(1) by (simp_all add: only_hybrid_keys_def only_keys_def)
  obtain st' where w: "hybrid_store_chunk E (dedupe pol) ?h fd res em mat stats (wp_store (hp_pipeline hp1)) = (Ok (sid, stats'), st')"
    and hp': "hp' = hp1\<lparr>hp_pipeline := (hp_pipeline hp1)\<lparr>wp_store := st'\<rparr>\<rparr>"
    using run v e q by (auto simp: hybrid_write_chunk_def op_simps Let_def on_pipeline_eq on_store_def zoom_def split: prod.splits)
  show thesis
  proof (rule that [of v res fd em mat hp1 st'])
    show "wp_keys E (hp_pipeline hp') = wp_keys E (hp_pipeline hp)" "wp_km_ok E (hp_pipeline hp')"
      using same hp' by (simp_all add: wp_keys_def wp_km_ok_def)
  qed (use v X(2,3) lv e q w same hp' in simp_all)
qed

definition writes_new :: "ext \<Rightarrow> policy \<Rightarrow> hybrid_pipeline \<Rightarrow> bytes list \<Rightarrow> bool" where
  "writes_new E pol hp cs \<longleftrightarrow> (dedupe pol \<longrightarrow> new_contents E pol (st_registry (wp_store (hp_pipeline hp))) cs)"

text \<open>The segment a chunk becomes.\<close>

definition became :: "ext \<Rightarrow> kem_ext \<Rightarrow> policy \<Rightarrow> bool \<Rightarrow> capsule_id \<Rightarrow> hybrid_pipeline \<Rightarrow> nat \<Rightarrow> bytes \<Rightarrow> nvram_log \<Rightarrow> segment_id \<Rightarrow> bool" where
  "became E K pol enc cid hp i c lg sid \<longleftrightarrow> (\<exists>v res fd em mat hp1 off. compress_segment E c (compression pol) = Ok (v, res) \<and>
     hybrid_encrypt_chunk E K pol enc cid i v (hash_content E v) hp = (Ok (fd, em, mat), hp1) \<and>
     hm_get (nv_segment_map lg) sid =
       Some (hybrid_segment E (if dedupe pol then Some (hash_content E v) else None) res em mat (fresh_segment sid off fd)) \<and>
     seg_data lg sid = Some fd)"

lemma hybrid_write_chunk_effect:
  assumes ok: "hybrid_ok E K hp" and xts: "xts_laws E" and cp: "capacity (Suc n) (length c + b) (wp_store (hp_pipeline hp))"
    and len: "length c < 2 ^ 32" and cap: "cap_policy cap = pol" and new: "writes_new E pol hp (c # cs)"
    and run: "hybrid_write_chunk E K pol enc (cap_id cap) i c stats hp = (Ok (sid, stats'), hp')"
  shows "hybrid_ok E K hp'" "capacity n b (wp_store (hp_pipeline hp'))" "hybrid_keeps E hp hp'" "writes_new E pol hp' cs"
    and "became E K pol enc (cap_id cap) hp i c (st_nvram (wp_store (hp_pipeline hp'))) sid"
    and "dedupe pol \<Longrightarrow> hybrid_holds E K cap hp' i c sid"
proof -
  obtain v res fd em mat hp1 st' where R: "compress_segment E c (compression pol) = Ok (v, res)" "length fd \<le> length c"
    "hybrid_encrypt_chunk E K pol enc (cap_id cap) i v (hash_content E v) hp = (Ok (fd, em, mat), hp1)"
    "hybrid_store_chunk E (dedupe pol) (hash_content E v) fd res em mat stats (wp_store (hp_pipeline hp)) = (Ok (sid, stats'), st')"
    "wp_store (hp_pipeline hp') = st'" "wp_keys E (hp_pipeline hp') = wp_keys E (hp_pipeline hp)" "wp_km_ok E (hp_pipeline hp')"
    "hp_mlkem_manager hp' = hp_mlkem_manager hp"
    "hybrid_decrypts E K (wp_keys E (hp_pipeline hp)) (hp_mlkem_manager hp) cap i (hash_content E v) mat em fd v"
    by (rule hybrid_write_chunk_run [OF ok xts len cap run])
  let ?h = "hash_content E v" and ?st = "wp_store (hp_pipeline hp)"
  let ?ho = "if dedupe pol then Some ?h else None"
  have vh: "view_hash E pol c = ?h" using R(1) by (simp add: view_hash_def)
  have w: "hybrid_write_new E ?ho fd res em mat stats ?st = (Ok (sid, stats'), st')"
    using R(4) new by (simp add: hybrid_store_chunk_def writes_new_def new_contents_def vh split: if_splits)
  have "capacity (Suc n) (length fd + b) ?st" "length fd < 2 ^ 32" "store_ok ?st"
    using cp R(2) len ok by (auto simp: capacity_def room_def hybrid_ok_def)
  note W = hybrid_write_new_effect [OF this(3,1,2) w]
  show "hybrid_ok E K hp'" using ok R(5,7,8) W(1) by (simp add: hybrid_ok_def)
  show "capacity n b (wp_store (hp_pipeline hp'))" using R(5) W(2) by simp
  show "hybrid_keeps E hp hp'" using R(5,6,8) W(3) by (simp add: hybrid_keeps_def)
  show "became E K pol enc (cap_id cap) hp i c (st_nvram (wp_store (hp_pipeline hp'))) sid"
    unfolding became_def using R(1,3,5) W(4,5) by blast
  show "writes_new E pol hp' cs"
  proof (cases "dedupe pol")
    case True
    then have "\<forall>h. h \<noteq> ?h \<longrightarrow> reg_lookup_content h (st_registry st') = reg_lookup_content h (st_registry ?st)"
      using W(6) by (simp add: reg_lookup_content_def)
    then show ?thesis using new True R(5) by (simp add: writes_new_def new_contents_def vh) (metis imageI)
  qed (simp add: writes_new_def)
  assume d: "dedupe pol"
  let ?seg = "hybrid_segment E (Some ?h) res em mat (fresh_segment sid (nv_next_offset (st_nvram ?st)) fd)"
  have "hybrid_decrypt E K (wp_keys E (hp_pipeline hp)) (hp_mlkem_manager hp) cap i ?seg fd = Ok v"
    using R(9) by (simp add: hybrid_decrypts_def hybrid_segment_def fresh_segment_def)
  then show "hybrid_holds E K cap hp' i c sid"
    using R(1,5,6,8) W(4,5) cap d
    by (simp add: hybrid_holds_def hybrid_plain_def nv_read_Ok_iff [THEN iffD2] nv_get_segment_metadata_def)
qed

lemma hybrid_write_loop_effect:
  assumes "hybrid_ok E K hp" "xts_laws E" "capacity (length items) (sum_list (map (length \<circ> snd) items)) (wp_store (hp_pipeline hp))"
    and "\<forall>(i, c)\<in>set items. length c < 2 ^ 32" "cap_policy cap = pol" "writes_new E pol hp (map snd items)"
    and "hybrid_write_loop E K pol enc (cap_id cap) items ids stats hp = (Ok (ids', stats'), hp')"
  shows "hybrid_keeps E hp hp' \<and> wp_km_ok E (hp_pipeline hp') \<and>
    (\<exists>new. ids' = ids @ new \<and> (dedupe pol \<longrightarrow> list_all2 (\<lambda>(i, c) sid. hybrid_holds E K cap hp' i c sid) items new))"
  using assms
proof (induction items arbitrary: ids stats hp)
  case Nil
  then show ?case by (auto simp: hybrid_keeps_def keeps_stored_def hybrid_ok_def)
next
  case (Cons item items)
  obtain i c where item: "item = (i, c)" by (cases item)
  obtain sid stats1 hp1 where w: "hybrid_write_chunk E K pol enc (cap_id cap) i c stats hp = (Ok (sid, stats1), hp1)"
    and rest: "hybrid_write_loop E K pol enc (cap_id cap) items (ids @ [sid]) stats1 hp1 = (Ok (ids', stats'), hp')"
    using Cons.prems(7) item by (auto split: prod.splits result.splits)
  have pre: "capacity (Suc (length items)) (length c + sum_list (map (length \<circ> snd) items)) (wp_store (hp_pipeline hp))"
    "length c < 2 ^ 32" "writes_new E pol hp (c # map snd items)"
    using Cons.prems(3,4,6) unfolding item by (simp_all only: list.map list.size sum_list.Cons comp_def snd_conv list.set) auto
  note W = hybrid_write_chunk_effect [OF Cons.prems(1,2) pre(1,2) Cons.prems(5) pre(3) w]
  have "\<forall>(i, c)\<in>set items. length c < 2 ^ 32" using Cons.prems(4) by simp
  note IH = Cons.IH [OF W(1) Cons.prems(2) W(2) this Cons.prems(5) W(4) rest]
  then obtain new where new: "ids' = (ids @ [sid]) @ new"
    "dedupe pol \<longrightarrow> list_all2 (\<lambda>(i, c) sid. hybrid_holds E K cap hp' i c sid) items new"
    by blast
  have "dedupe pol \<longrightarrow> hybrid_holds E K cap hp' i c sid" using hybrid_holds_kept [OF W(6)] IH by blast
  moreover have "hybrid_keeps E hp hp'" using W(3) IH by (auto simp: hybrid_keeps_def intro: keeps_stored_trans)
  ultimately show ?case using IH new item by (intro conjI exI [of _ "sid # new"]) simp_all
qed

lemma hybrid_pure_holds:
  assumes "list_all2 (\<lambda>(i, c) sid. hybrid_holds E K cap hp i c sid) items sids"
    and "\<forall>(i, c)\<in>set items. raw_rejected E (compression (cap_policy cap)) c"
  shows "hybrid_pure E K (wp_keys E (hp_pipeline hp)) (hp_mlkem_manager hp) (st_nvram (wp_store (hp_pipeline hp))) cap
      (zip (map fst items) sids) = Ok (concat (map snd items))"
  using assms
  by (induction items sids rule: list_all2_induct) (auto simp: hybrid_holds_def decompress_view split: prod.splits)

section \<open>Whole capsules\<close>

definition hybrid_fits :: "bytes \<Rightarrow> hybrid_pipeline \<Rightarrow> bool" where
  "hybrid_fits data hp \<longleftrightarrow> capacity (length (chunks SEGMENT_SIZE data)) (length data) (wp_store (hp_pipeline hp))"

lemma hybrid_write_capsule_run:
  assumes "hybrid_write_capsule E K now cid data pol hp = (Ok cid', hp')"
  obtains ids stats hp1 t where
    "hybrid_write_loop E K pol (is_enabled (encryption pol) \<and> wp_key_manager (hp_pipeline hp) \<noteq> None) cid
       (enumerate 0 (chunks SEGMENT_SIZE data)) [] new_stats hp = (Ok (ids, stats), hp1)"
    "cid' = cid" "hp_mlkem_manager hp' = hp_mlkem_manager hp1" "wp_key_manager (hp_pipeline hp') = wp_key_manager (hp_pipeline hp1)"
    "st_nvram (wp_store (hp_pipeline hp')) = st_nvram (wp_store (hp_pipeline hp1))"
    "reg_lookup cid (st_registry (wp_store (hp_pipeline hp'))) = Ok \<lparr>cap_id = cid, cap_size = of_nat (length data), cap_segments = ids,
       cap_created_at = t, cap_policy = pol, cap_deduped_bytes = 0\<rparr>"
proof -
  obtain q hp1 where l: "hybrid_write_loop E K pol (is_enabled (encryption pol) \<and> wp_key_manager (hp_pipeline hp) \<noteq> None) cid
       (enumerate 0 (chunks SEGMENT_SIZE data)) [] new_stats hp = (q, hp1)" by fastforce
  obtain ids stats where q: "q = Ok (ids, stats)"
    using assms l by (cases q) (auto simp: hybrid_write_capsule_def bind_op_def Let_def)
  define st2 where "st2 = (if bytes_saved stats > 0
        then (wp_store (hp_pipeline hp1))\<lparr>st_registry := add_deduped_bytes cid (bytes_saved stats) (st_registry (wp_store (hp_pipeline hp1)))\<rparr>
        else wp_store (hp_pipeline hp1))"
  obtain x rg where c: "create_capsule_with_segments now cid (of_nat (length data)) ids pol (st_registry st2) = (x, rg)" by fastforce
  have r: "x = Ok ()" "cid' = cid" "hp' = hp1\<lparr>hp_pipeline := (hp_pipeline hp1)\<lparr>wp_store := st2\<lparr>st_registry := rg\<rparr>\<rparr>\<rparr>"
    using assms l q c
    by (cases x; auto simp: hybrid_write_capsule_def op_simps Let_def on_pipeline_def on_store_def on_registry_def zoom_def st2_def split: if_splits)+
  have "hm_get (reg_capsules (st_registry st2)) cid = None"
    using create_effect(3) [OF c] r(1) by (cases "hm_get (reg_capsules (st_registry st2)) cid") auto
  moreover from this have "now \<noteq> None" using create_effect(4) [OF c] r(1) by (cases now) auto
  ultimately obtain t where "reg_lookup cid rg = Ok \<lparr>cap_id = cid, cap_size = of_nat (length data), cap_segments = ids,
      cap_created_at = t, cap_policy = pol, cap_deduped_bytes = 0\<rparr>"
    using create_effect(5) [OF c] by (auto simp: reg_lookup_def)
  then show thesis using that [of ids stats hp1 t] l q r by (simp add: st2_def)
qed

lemma hybrid_items:
  "\<forall>(i, c)\<in>set (enumerate 0 (chunks SEGMENT_SIZE data)). length c < 2 ^ 32"
  "map fst (enumerate 0 xs) = [0..<length xs]"
proof -
  show "\<forall>(i, c)\<in>set (enumerate 0 (chunks SEGMENT_SIZE data)). length c < 2 ^ 32"
  proof clarify
    fix i c assume "(i, c) \<in> set (enumerate 0 (chunks SEGMENT_SIZE data))"
    then have "c \<in> set (chunks SEGMENT_SIZE data)" by (rule snd_enumerate)
    then show "length c < 2 ^ 32" using chunks_bounds [of c SEGMENT_SIZE data] SEGMENT_SIZE_bounds(2) by linarith
  qed
qed (simp add: enumerate_eq_zip)

text \<open>C39: What a node writes under its hybrid keys it reads back: after a successful write under a policy that
  deduplicates, of data whose chunks are new to the content store and differ from each other, reading
  the capsule gives the data, whether the profile wraps keys or not and whatever failed underneath, provided the
  decoder rejects the chunks that were stored uncompressed.\<close>

theorem hybrid_write_read:
  assumes "xts_laws E" "hybrid_ok E K hp" "hybrid_fits data hp" "dedupe pol"
    and "new_contents E pol (st_registry (wp_store (hp_pipeline hp))) (chunks SEGMENT_SIZE data)"
    and "\<forall>c\<in>set (chunks SEGMENT_SIZE data). raw_rejected E (compression pol) c"
    and "hybrid_write_capsule E K now cid data pol hp = (Ok cid', hp')"
  shows "fst (hybrid_read_capsule E K cid' hp') = Ok data"
proof -
  let ?items = "enumerate 0 (chunks SEGMENT_SIZE data)"
  obtain ids stats hp1 t where R:
    "hybrid_write_loop E K pol (is_enabled (encryption pol) \<and> wp_key_manager (hp_pipeline hp) \<noteq> None) cid ?items [] new_stats hp =
       (Ok (ids, stats), hp1)"
    "cid' = cid" "hp_mlkem_manager hp' = hp_mlkem_manager hp1" "wp_key_manager (hp_pipeline hp') = wp_key_manager (hp_pipeline hp1)"
    "st_nvram (wp_store (hp_pipeline hp')) = st_nvram (wp_store (hp_pipeline hp1))"
    "reg_lookup cid (st_registry (wp_store (hp_pipeline hp'))) = Ok \<lparr>cap_id = cid, cap_size = of_nat (length data), cap_segments = ids,
       cap_created_at = t, cap_policy = pol, cap_deduped_bytes = 0\<rparr>"
    by (rule hybrid_write_capsule_run [OF assms(7)])
  define cap where "cap = \<lparr>cap_id = cid, cap_size = of_nat (length data), cap_segments = ids,
       cap_created_at = t, cap_policy = pol, cap_deduped_bytes = 0\<rparr>"
  have cap: "cap_id cap = cid" "cap_policy cap = pol" "cap_segments cap = ids" by (simp_all add: cap_def)
  have room: "capacity (length ?items) (sum_list (map (length \<circ> snd) ?items)) (wp_store (hp_pipeline hp))"
    using assms(3) by (simp only: hybrid_fits_def enumerate_items chunks_total)
  have new: "writes_new E pol hp (map snd ?items)" using assms(5) by (simp only: writes_new_def enumerate_items simp_thms)
  note L = hybrid_write_loop_effect [OF assms(2,1) room hybrid_items(1) cap(2) new R(1) [folded cap(1)]]
  have holds: "list_all2 (\<lambda>(i, c) sid. hybrid_holds E K cap hp1 i c sid) ?items ids" using L assms(4) by auto
  then have "length ids = length (chunks SEGMENT_SIZE data)" using list_all2_lengthD by fastforce
  then have zip: "zip (map fst ?items) ids = enumerate 0 (cap_segments cap)" by (simp add: hybrid_items(2) enumerate_eq_zip cap(3))
  have "\<forall>(i, c)\<in>set ?items. raw_rejected E (compression (cap_policy cap)) c" using assms(6) cap(2) by (auto dest: snd_enumerate)
  note P = hybrid_pure_holds [OF holds this, unfolded zip enumerate_items(1) concat_chunks [OF SEGMENT_SIZE_bounds(1)]]
  have km: "wp_km_ok E (hp_pipeline hp')" "wp_keys E (hp_pipeline hp') = wp_keys E (hp_pipeline hp1)"
    using L R(4) by (auto simp: wp_km_ok_def wp_keys_def)
  show ?thesis using hybrid_read_capsule_effect [OF km(1) R(6) [folded cap_def]] P R(2,3,5) km(2) by simp
qed

text \<open>The tag that the wrapped key gives the first chunk of a capsule is not the one the node's own key would give it.\<close>

definition wrapped_tag_differs :: "ext \<Rightarrow> kem_ext \<Rightarrow> policy \<Rightarrow> capsule_id \<Rightarrow> bytes \<Rightarrow> hybrid_pipeline \<Rightarrow> bool" where
  "wrapped_tag_differs E K pol cid c hp =
     (case compress_segment E c (compression pol) of
        Ok (v, _) \<Rightarrow>
          (case fst (hybrid_encrypt_chunk E K pol True cid 0 v (hash_content E v) hp) of
             Ok (fd, Some meta, Some _) \<Rightarrow>
               (case fst (wp_get_key E (the (em_key_version meta)) (hp_pipeline hp)) of
                  Ok kp \<Rightarrow> em_integrity_tag meta \<noteq> Some (compute_mac E fd meta (key1 kp) (key2 kp))
                | Err _ \<Rightarrow> False)
           | _ \<Rightarrow> False)
      | Err _ \<Rightarrow> False)"

lemma became_unreadable:
  assumes b: "became E K pol True cid hp 0 c lg sid" and t: "wrapped_tag_differs E K pol cid c hp" and "\<not> dedupe pol"
    and ok: "hybrid_ok E K hp" "xts_laws E" "length c < 2 ^ 32" and cap: "cap_policy cap = pol" "cap_id cap = cid"
  shows "hybrid_plain E K (wp_keys E (hp_pipeline hp)) (hp_mlkem_manager hp) lg cap i sid = Err (EncryptionFailed IntegrityFailure)"
proof -
  obtain v res fd em mat hp1 off where B: "compress_segment E c (compression pol) = Ok (v, res)"
    "hybrid_encrypt_chunk E K pol True cid 0 v (hash_content E v) hp = (Ok (fd, em, mat), hp1)"
    "hm_get (nv_segment_map lg) sid = Some (hybrid_segment E None res em mat (fresh_segment sid off fd))" "seg_data lg sid = Some fd"
    using b assms(3) by (auto simp: became_def)
  obtain meta kp where M: "em = Some meta" "fst (wp_get_key E (the (em_key_version meta)) (hp_pipeline hp)) = Ok kp"
    "em_integrity_tag meta \<noteq> Some (compute_mac E fd meta (key1 kp) (key2 kp))"
    using t B(1,2) by (auto simp: wrapped_tag_differs_def split: option.splits result.splits)
  have oks: "wp_km_ok E (hp_pipeline hp)" "manager_ok E K (hp_mlkem_manager hp)" using ok(1) by (simp_all add: hybrid_ok_def)
  have lv: "length v < 2 ^ 32" using compress_length [OF B(1)] ok(3) by simp
  let ?s = "fresh_segment sid off fd\<lparr>seg_compressed := cr_compressed res, seg_compression_algo := cr_algorithm res, seg_ref_count := 1, seg_deduplicated := False\<rparr>"
  let ?seg = "hybrid_segment E None res em mat (fresh_segment sid off fd)"
  have seg: "?seg = apply_material E mat (apply_enc_meta em ?s)" by (simp add: hybrid_segment_def)
  have X: "segment_enc_meta ?seg (length fd) = meta" "em_key_version meta \<noteq> None" "em_integrity_tag meta \<noteq> None"
    using hybrid_encrypt_effect(4) [OF oks(1) ok(2) oks(2) lv cap(1) B(2) [folded cap(2)] M(1), of ?s] by (simp_all add: seg)
  obtain kv where kv: "em_key_version meta = Some kv" using X(2) by auto
  obtain q p1 where g: "wp_get_key E kv (hp_pipeline hp) = (q, p1)" by fastforce
  then obtain f where f: "wp_keys E (hp_pipeline hp) = Some f" "map_result_err EncryptionFailed (f kv) = Ok kp"
    using wp_get_key_effect(2) [OF oks(1) g] M(2) kv by (cases "wp_keys E (hp_pipeline hp)") auto
  have "verify_mac E fd meta (key1 kp) (key2 kp) = Err IntegrityFailure"
    using M(3) X(3) by (auto simp: verify_mac_def require_integrity_tag_def compute_mac_def ok_or_def split: option.splits)
  moreover have "seg_encrypted ?seg" "seg_key_version ?seg = Some kv" "seg_content_hash ?seg = None"
    unfolding seg by (simp_all add: apply_enc_meta_def M(1) kv) (simp add: fresh_segment_def)
  ultimately have "hybrid_decrypt E K (wp_keys E (hp_pipeline hp)) (hp_mlkem_manager hp) cap i ?seg fd = Err (EncryptionFailed IntegrityFailure)"
    using f X(1) by (simp add: hybrid_decrypt_def unwrap_for_segment_def Let_def split: option.split)
      (auto simp: pair_for_use_def split: option.splits)
  then show ?thesis using B(3,4) by (simp add: hybrid_plain_def nv_read_Ok_iff [THEN iffD2] nv_get_segment_metadata_def)
qed

text \<open>C40: Under a hybrid policy that does not deduplicate, everything written is lost: the write succeeds, but
  the metadata keep no content hash, without which the wrapped key is not derived again, so reading uses
  the node's own key and reports an integrity failure.\<close>

theorem hybrid_without_dedupe_unreadable:
  assumes "xts_laws E" "hybrid_ok E K hp" "hybrid_fits data hp" "data \<noteq> []" "\<not> dedupe pol"
    and "is_enabled (encryption pol)" "wp_key_manager (hp_pipeline hp) \<noteq> None"
    and "wrapped_tag_differs E K pol cid (take SEGMENT_SIZE data) hp"
    and "hybrid_write_capsule E K now cid data pol hp = (Ok cid', hp')"
  shows "fst (hybrid_read_capsule E K cid' hp') = Err (EncryptionFailed IntegrityFailure)"
proof -
  let ?c = "take SEGMENT_SIZE data" and ?cs = "chunks SEGMENT_SIZE (drop SEGMENT_SIZE data)"
  let ?items = "enumerate 0 (chunks SEGMENT_SIZE data)"
  have cs: "chunks SEGMENT_SIZE data = ?c # ?cs" using chunks_step [OF SEGMENT_SIZE_bounds(1) assms(4)] .
  obtain ids stats hp1 t where R:
    "hybrid_write_loop E K pol (is_enabled (encryption pol) \<and> wp_key_manager (hp_pipeline hp) \<noteq> None) cid ?items [] new_stats hp =
       (Ok (ids, stats), hp1)"
    "cid' = cid" "hp_mlkem_manager hp' = hp_mlkem_manager hp1" "wp_key_manager (hp_pipeline hp') = wp_key_manager (hp_pipeline hp1)"
    "st_nvram (wp_store (hp_pipeline hp')) = st_nvram (wp_store (hp_pipeline hp1))"
    "reg_lookup cid (st_registry (wp_store (hp_pipeline hp'))) = Ok \<lparr>cap_id = cid, cap_size = of_nat (length data), cap_segments = ids,
       cap_created_at = t, cap_policy = pol, cap_deduped_bytes = 0\<rparr>"
    by (rule hybrid_write_capsule_run [OF assms(9)])
  define cap where "cap = \<lparr>cap_id = cid, cap_size = of_nat (length data), cap_segments = ids,
       cap_created_at = t, cap_policy = pol, cap_deduped_bytes = 0\<rparr>"
  have cap: "cap_id cap = cid" "cap_policy cap = pol" "cap_segments cap = ids" by (simp_all add: cap_def)
  obtain sid stats1 hp2 where w: "hybrid_write_chunk E K pol True cid 0 ?c new_stats hp = (Ok (sid, stats1), hp2)"
    and rest: "hybrid_write_loop E K pol True cid (enumerate 1 ?cs) [sid] stats1 hp2 = (Ok (ids, stats), hp1)"
    using R(1) assms(6,7) cs by (auto split: prod.splits result.splits)
  have cp: "capacity (Suc (length ?cs)) (length ?c + length (drop SEGMENT_SIZE data)) (wp_store (hp_pipeline hp))"
  proof -
    have "length ?c + length (drop SEGMENT_SIZE data) = length data" by (metis append_take_drop_id length_append)
    then show ?thesis using assms(3) cs by (simp add: hybrid_fits_def)
  qed
  have len: "length ?c < 2 ^ 32" using SEGMENT_SIZE_bounds(2) by simp
  have new: "writes_new E pol hp' xs" for hp' xs using assms(5) by (simp add: writes_new_def)
  note W = hybrid_write_chunk_effect [OF assms(2,1) cp len cap(2) new w [folded cap(1)]]
  have room: "capacity (length (enumerate 1 ?cs)) (sum_list (map (length \<circ> snd) (enumerate 1 ?cs))) (wp_store (hp_pipeline hp2))"
    using W(2) by (simp only: enumerate_items chunks_total)
  have lens: "\<forall>(i, c)\<in>set (enumerate 1 ?cs). length c < 2 ^ 32"
    using hybrid_items(1) [of data] cs by simp
  note L = hybrid_write_loop_effect [OF W(1) assms(1) room lens cap(2) new rest [folded cap(1)]]
  obtain more where ids: "ids = sid # more" using L by auto
  have keep: "hybrid_keeps E hp hp1" "hybrid_keeps E hp2 hp1" using W(3) L by (auto simp: hybrid_keeps_def intro: keeps_stored_trans)
  have "became E K pol True cid hp 0 ?c (st_nvram (wp_store (hp_pipeline hp1))) sid"
    using W(5) keep(2) cap(1) by (fastforce simp: became_def hybrid_keeps_def keeps_stored_def)
  note U = became_unreadable [OF this assms(8,5,2,1) len cap(2,1)]
  have km: "wp_km_ok E (hp_pipeline hp')" "wp_keys E (hp_pipeline hp') = wp_keys E (hp_pipeline hp)" "hp_mlkem_manager hp' = hp_mlkem_manager hp"
    using L R(3,4) keep(1) by (auto simp: wp_km_ok_def wp_keys_def hybrid_keeps_def)
  show ?thesis using hybrid_read_capsule_effect [OF km(1) R(6) [folded cap_def]] U R(2,5) km(2,3) ids cap(3) by simp
qed

section \<open>Witnesses\<close>

text \<open>Without faults a capsule of one chunk is written.\<close>

lemma hybrid_write_new_total:
  assumes "io_free st"
  obtains sid stats' st' where "hybrid_write_new E h fd cr em material stats st = (Ok (sid, stats'), st')" "io_free st'"
    "reg_capsules (st_registry st') = reg_capsules (st_registry st)"
proof -
  let ?sid = "fst (alloc_segment (st_registry st))"
  have io: "nv_io (st_nvram st) = []" "reg_io (snd (alloc_segment (st_registry st))) = []"
    using assms by (simp_all add: io_free_def alloc_segment_def)
  obtain l1 where a: "nv_append ?sid fd (st_nvram st) = (Ok (fresh_segment ?sid (nv_next_offset (st_nvram st)) fd), l1)" "nv_io l1 = []"
    by (rule nv_append_total [OF io(1)])
  let ?seg = "hybrid_segment E h cr em material (fresh_segment ?sid (nv_next_offset (st_nvram st)) fd)"
  obtain r2 l2 where u: "nv_update_segment_metadata ?sid ?seg l1 = (r2, l2)" by fastforce
  have u2: "r2 = Ok ()" "nv_io l2 = []"
    using save_effect(5) [OF u [unfolded nv_update_segment_metadata_def]] a(2) by (simp_all add: nv_put_def)
  show thesis
  proof (cases h)
    case None
    show thesis
      by (rule that [of ?sid "add_segment_stats (of_nat (length fd)) False stats"
            "st\<lparr>st_registry := snd (alloc_segment (st_registry st)), st_nvram := l2\<rparr>"])
        (use None a u u2 io in \<open>simp_all add: hybrid_write_new_def Let_def op_simps on_nvram_def zoom_def io_free_def alloc_segment_def\<close>)
  next
    case (Some h')
    obtain r3 g3 where g: "reg_register_content h' ?sid (snd (alloc_segment (st_registry st))) = (r3, g3)" by fastforce
    note G = reg_register_effect [OF g]
    show thesis
      by (rule that [of ?sid "add_segment_stats (of_nat (length fd)) False stats" "st\<lparr>st_registry := g3, st_nvram := l2\<rparr>"])
        (use Some a u u2 io g G in \<open>simp_all add: hybrid_write_new_def Let_def op_simps on_nvram_def on_registry_def zoom_def io_free_def alloc_segment_def\<close>)
  qed
qed

lemma hybrid_write_one:
  assumes "data \<noteq> []" "length data \<le> SEGMENT_SIZE" "io_free (wp_store (hp_pipeline hp))" "wp_km_ok E (hp_pipeline hp)"
    and "compress_segment E data (compression pol) = Ok (v, res)" "is_enabled (encryption pol)" "wp_key_manager (hp_pipeline hp) \<noteq> None"
    and "hybrid_encrypt_chunk E K pol True cid 0 v (hash_content E v) hp = (Ok (fd, em, mat), hp1)"
    and "wp_store (hp_pipeline hp1) = wp_store (hp_pipeline hp)" "reg_lookup_content (hash_content E v) (st_registry (wp_store (hp_pipeline hp))) = None"
    and "hm_get (reg_capsules (st_registry (wp_store (hp_pipeline hp)))) cid = None"
  obtains hp' where "hybrid_write_capsule E K (Some t) cid data pol hp = (Ok cid, hp')"
proof -
  let ?ho = "if dedupe pol then Some (hash_content E v) else None"
  obtain sid stats' st' where w: "hybrid_write_new E ?ho fd res em mat new_stats (wp_store (hp_pipeline hp)) = (Ok (sid, stats'), st')"
    "io_free st'" "reg_capsules (st_registry st') = reg_capsules (st_registry (wp_store (hp_pipeline hp)))"
    by (rule hybrid_write_new_total [OF assms(3)])
  then have s: "hybrid_store_chunk E (dedupe pol) (hash_content E v) fd res em mat new_stats (wp_store (hp_pipeline hp1)) = (Ok (sid, stats'), st')"
    using assms(9,10) by (simp add: hybrid_store_chunk_def split: if_splits)
  let ?hp2 = "hp1\<lparr>hp_pipeline := (hp_pipeline hp1)\<lparr>wp_store := st'\<rparr>\<rparr>"
  have "hybrid_write_chunk E K pol True cid 0 data new_stats hp = (Ok (sid, stats'), ?hp2)"
    using assms(5,8) s by (simp add: hybrid_write_chunk_def op_simps Let_def on_pipeline_def on_store_def zoom_def)
  then have l: "hybrid_write_loop E K pol True cid (enumerate 0 (chunks SEGMENT_SIZE data)) [] new_stats hp = (Ok ([sid], stats'), ?hp2)"
    by (simp add: one_chunk [OF assms(1,2)])
  define st2 where "st2 = (if bytes_saved stats' > 0 then st'\<lparr>st_registry := add_deduped_bytes cid (bytes_saved stats') (st_registry st')\<rparr> else st')"
  have st2: "hm_get (reg_capsules (st_registry st2)) cid = None" "reg_io (st_registry st2) = []"
    using w(2,3) assms(11) by (simp_all add: st2_def add_deduped_bytes_def io_free_def)
  obtain x rg where c: "create_capsule_with_segments (Some t) cid (of_nat (length data)) [sid] pol (st_registry st2) = (x, rg)" by fastforce
  have "x = Ok ()" using create_effect(5) [OF c st2(1) refl] st2(2) by simp
  then have "hybrid_write_capsule E K (Some t) cid data pol hp = (Ok cid, ?hp2\<lparr>hp_pipeline := (hp_pipeline ?hp2)\<lparr>wp_store := st2\<lparr>st_registry := rg\<rparr>\<rparr>\<rparr>)"
    using l c assms(6,7)
    by (simp add: hybrid_write_capsule_def op_simps Let_def on_pipeline_def on_store_def on_registry_def zoom_def st2_def split: if_splits)
  then show thesis by (rule that)
qed

definition hybrid_ext :: ext where
  "hybrid_ext = sample_ext\<lparr>ext_blake3_xof := (\<lambda>n d. replicate n 1), ext_blake3 := (\<lambda>d. take 32 (rev d @ replicate 32 0)),
     ext_blake3_keyed := (\<lambda>k d. take 32 (k @ replicate 32 0))\<rparr>"

definition hybrid_sample :: hybrid_pipeline where
  "hybrid_sample = \<lparr>hp_pipeline = sample_pipeline (Some (key_manager_new hybrid_ext (replicate 32 7))),
     hp_mlkem_manager = Some \<lparr>mk_public = [1], mk_secret = [1]\<rparr>, hp_random = [[9]]\<rparr>"

definition hybrid_policy :: "bool \<Rightarrow> policy" where
  "hybrid_policy dd = metro_sync\<lparr>crypto_profile := HybridKyber, dedupe := dd\<rparr>"

lemma hybrid_sample_facts:
  "xts_laws hybrid_ext" "hybrid_ok hybrid_ext sample_kem hybrid_sample" "hybrid_fits sample_data hybrid_sample"
  "is_enabled (encryption (hybrid_policy dd))" "wp_key_manager (hp_pipeline hybrid_sample) \<noteq> None"
proof -
  show "xts_laws hybrid_ext" using sample_xts_laws by (simp add: hybrid_ext_def xts_laws_def)
  have "wp_km_ok hybrid_ext (hp_pipeline hybrid_sample)" by (simp add: hybrid_sample_def sample_pipeline_def wp_km_ok_def km_ok_new)
  moreover have "manager_ok hybrid_ext sample_kem (hp_mlkem_manager hybrid_sample)"
    using sample_kem_laws by (auto simp: manager_ok_def kem_laws_def hybrid_sample_def hybrid_ext_def sample_kem_def key_pair_of_def)
  moreover have "store_ok (wp_store (hp_pipeline hybrid_sample))"
    using sample_inv(1) by (simp add: hybrid_sample_def sample_pipeline_def wp_inv_def store_inv_def store_ok_def)
  ultimately show "hybrid_ok hybrid_ext sample_kem hybrid_sample" by (simp add: hybrid_ok_def)
  show "hybrid_fits sample_data hybrid_sample"
    using sample_data_fits by (simp add: fits_def hybrid_fits_def hybrid_sample_def sample_pipeline_def)
  show "is_enabled (encryption (hybrid_policy dd))" by (simp add: hybrid_policy_def metro_sync_def)
qed (simp add: hybrid_sample_def sample_pipeline_def)

lemma hybrid_sample_key:
  "case fst (wp_get_key hybrid_ext 1 (hp_pipeline hybrid_sample)) of
     Ok kp \<Rightarrow> take 16 (take 32 (rev (key1 kp @ key2 kp) @ replicate 32 0)) \<noteq> replicate 16 1 \<and> length (key2 kp) = 32 | Err _ \<Rightarrow> False"
  by code_simp

lemma hybrid_sample_compress:
  obtains res where "compress_segment hybrid_ext sample_data (compression (hybrid_policy dd)) = Ok (sample_data, res)"
proof -
  have "case compress_segment hybrid_ext sample_data (LZ4 1) of Ok (v, _) \<Rightarrow> v = sample_data | Err _ \<Rightarrow> False" by code_simp
  then show thesis by (cases "compress_segment hybrid_ext sample_data (LZ4 1)") (auto simp: hybrid_policy_def metro_sync_def intro: that)
qed

lemma hybrid_sample_encrypt:
  obtains fd meta m hp1 kp where
    "hybrid_encrypt_chunk hybrid_ext sample_kem (hybrid_policy dd) True cid 0 sample_data h hybrid_sample = (Ok (fd, Some meta, Some m), hp1)"
    "wp_store (hp_pipeline hp1) = wp_store (hp_pipeline hybrid_sample)" "em_key_version meta = Some 1"
    "fst (wp_get_key hybrid_ext 1 (hp_pipeline hybrid_sample)) = Ok kp"
    "em_integrity_tag meta \<noteq> Some (compute_mac hybrid_ext fd meta (key1 kp) (key2 kp))"
proof -
  let ?km = "key_manager_new hybrid_ext (replicate 32 7)"
  have k: "wp_key_manager (hp_pipeline hybrid_sample) = Some ?km" by (simp add: hybrid_sample_def sample_pipeline_def)
  have v: "km_current_version ?km = 1" by (simp add: key_manager_new_def prederive_def split: result.split)
  obtain q p1 where g: "wp_get_key hybrid_ext 1 (hp_pipeline hybrid_sample) = (q, p1)" by fastforce
  have km: "wp_km_ok hybrid_ext (hp_pipeline hybrid_sample)" using hybrid_sample_facts(2) by (simp add: hybrid_ok_def)
  note G = wp_get_key_effect(1) [OF km g]
  obtain kp where kp: "q = Ok kp" "length (key2 kp) = 32"
    "take 16 (take 32 (rev (key1 kp @ key2 kp) @ replicate 32 0)) \<noteq> replicate 16 1"
    using hybrid_sample_key g by (cases q) auto
  define hp0 where "hp0 = hybrid_sample\<lparr>hp_pipeline := p1\<rparr>"
  have g': "on_pipeline (wp_get_key hybrid_ext 1) hybrid_sample = (Ok kp, hp0)"
    using g kp(1) by (auto simp: on_pipeline_eq hp0_def)
  define m where "m = \<lparr>hm_wrapped_key = replicate 64 1, hm_nonce = replicate 16 1, hm_ciphertext = [9]\<rparr>"
  define hp1 where "hp1 = hp0\<lparr>hp_random := []\<rparr>"
  have w: "wrap_for_segment hybrid_ext sample_kem (hybrid_policy dd) kp cid 0 h hp0 = (Ok (Some m), hp1)"
    by (simp add: wrap_for_segment_def hybrid_policy_def hp0_def hp1_def hybrid_sample_def wrap_xts_key_def sample_kem_def
        derive_material_def hybrid_ext_def m_def Let_def)
  define pair where "pair = pair_for_use (Some m) kp"
  have pair: "pair = \<lparr>key1 = replicate 32 1, key2 = replicate 32 1\<rparr>"
    by (simp add: pair_def pair_for_use_def m_def key_pair_from_bytes_def)
  have "16 \<le> length sample_data" using sample_data_facts(2) by simp
  then obtain c meta where e: "encrypt_segment hybrid_ext sample_data pair 1 (hybrid_tweak hybrid_ext (Some m) h) = (Ok (c, meta))"
    by (rule encrypt_segment_total)
  define meta' where "meta' = set_integrity_tag (compute_mac hybrid_ext c meta (key1 pair) (key2 pair)) meta"
  have run: "hybrid_encrypt_chunk hybrid_ext sample_kem (hybrid_policy dd) True cid 0 sample_data h hybrid_sample = (Ok (c, Some meta', Some m), hp1)"
    using e by (simp add: hybrid_encrypt_chunk_def k v bind_op_def g' w Let_def lift_result_def return_op_def pair_def meta'_def)
  have mac: "compute_mac hybrid_ext c x k1 k2 = take 16 (rev k2)" if "length k2 = 32" for x k1 k2
    using that by (simp add: compute_mac_def derive_mac_key_def hybrid_ext_def)
  have "take 16 (rev (key2 kp)) \<noteq> replicate 16 1" using kp(2,3) by simp
  moreover have "em_integrity_tag meta' = Some (replicate 16 1)" by (simp add: meta'_def set_integrity_tag_def mac pair)
  moreover have "em_key_version meta' = Some 1"
    using e by (auto simp: meta'_def set_integrity_tag_def new_xts_def encrypt_segment_def bind_result_Ok_iff split: if_splits)
  moreover have "wp_store (hp_pipeline hp1) = wp_store (hp_pipeline hybrid_sample)"
    using G by (simp add: hp1_def hp0_def only_keys_def)
  ultimately show thesis using that [OF run] g kp(1,2) by (simp add: mac)
qed

lemma hybrid_sample_write:
  obtains hp' where "hybrid_write_capsule hybrid_ext sample_kem (Some 0) (CapsuleId [1]) sample_data (hybrid_policy dd) hybrid_sample =
    (Ok (CapsuleId [1]), hp')"
proof -
  obtain res where c: "compress_segment hybrid_ext sample_data (compression (hybrid_policy dd)) = Ok (sample_data, res)"
    by (rule hybrid_sample_compress)
  obtain fd meta m hp1 kp where e:
    "hybrid_encrypt_chunk hybrid_ext sample_kem (hybrid_policy dd) True (CapsuleId [1]) 0 sample_data (hash_content hybrid_ext sample_data) hybrid_sample =
       (Ok (fd, Some meta, Some m), hp1)" "wp_store (hp_pipeline hp1) = wp_store (hp_pipeline hybrid_sample)"
    by (rule hybrid_sample_encrypt)
  have km: "wp_km_ok hybrid_ext (hp_pipeline hybrid_sample)" using hybrid_sample_facts(2) by (simp add: hybrid_ok_def)
  have st: "io_free (wp_store (hp_pipeline hybrid_sample))" "hm_get (reg_capsules (st_registry (wp_store (hp_pipeline hybrid_sample)))) cid = None"
    "reg_lookup_content h (st_registry (wp_store (hp_pipeline hybrid_sample))) = None" for cid h
    by (simp_all add: hybrid_sample_def sample_pipeline_def io_free_def empty_registry_def reg_lookup_content_def)
  show thesis
    by (rule hybrid_write_one [OF sample_data_facts(1,3) st(1) km c hybrid_sample_facts(4,5) e st(3,2)]) (rule that)
qed

theorem hybrid_write_read_witness:
  "\<exists>hp'. hybrid_write_capsule hybrid_ext sample_kem (Some 0) (CapsuleId [1]) sample_data (hybrid_policy True) hybrid_sample =
      (Ok (CapsuleId [1]), hp') \<and> fst (hybrid_read_capsule hybrid_ext sample_kem (CapsuleId [1]) hp') = Ok sample_data"
proof -
  obtain hp' where w: "hybrid_write_capsule hybrid_ext sample_kem (Some 0) (CapsuleId [1]) sample_data (hybrid_policy True) hybrid_sample =
    (Ok (CapsuleId [1]), hp')" by (rule hybrid_sample_write)
  have dd: "dedupe (hybrid_policy True)" by (simp add: hybrid_policy_def)
  have new: "new_contents hybrid_ext (hybrid_policy True) (st_registry (wp_store (hp_pipeline hybrid_sample))) (chunks SEGMENT_SIZE sample_data)"
    by (simp add: one_chunk [OF sample_data_facts(1,3)] new_contents_def hybrid_sample_def sample_pipeline_def empty_registry_def reg_lookup_content_def)
  have "\<not> is_ok (decode_as hybrid_ext (LZ4 1) sample_data)" by code_simp
  then have raw: "\<forall>c\<in>set (chunks SEGMENT_SIZE sample_data). raw_rejected hybrid_ext (compression (hybrid_policy True)) c"
    by (simp add: one_chunk [OF sample_data_facts(1,3)] raw_rejected_def hybrid_policy_def metro_sync_def)
  show ?thesis using hybrid_write_read [OF hybrid_sample_facts(1-3) dd new raw w] w by blast
qed

theorem hybrid_without_dedupe_unreadable_witness:
  "\<exists>hp'. hybrid_write_capsule hybrid_ext sample_kem (Some 0) (CapsuleId [1]) sample_data (hybrid_policy False) hybrid_sample =
      (Ok (CapsuleId [1]), hp') \<and>
    fst (hybrid_read_capsule hybrid_ext sample_kem (CapsuleId [1]) hp') = Err (EncryptionFailed IntegrityFailure)"
proof -
  obtain hp' where w: "hybrid_write_capsule hybrid_ext sample_kem (Some 0) (CapsuleId [1]) sample_data (hybrid_policy False) hybrid_sample =
    (Ok (CapsuleId [1]), hp')" by (rule hybrid_sample_write)
  have dd: "\<not> dedupe (hybrid_policy False)" by (simp add: hybrid_policy_def)
  obtain res where c: "compress_segment hybrid_ext sample_data (compression (hybrid_policy False)) = Ok (sample_data, res)"
    by (rule hybrid_sample_compress)
  obtain fd meta m hp1 kp where e:
    "hybrid_encrypt_chunk hybrid_ext sample_kem (hybrid_policy False) True (CapsuleId [1]) 0 sample_data (hash_content hybrid_ext sample_data) hybrid_sample =
       (Ok (fd, Some meta, Some m), hp1)" "em_key_version meta = Some 1"
    "fst (wp_get_key hybrid_ext 1 (hp_pipeline hybrid_sample)) = Ok kp"
    "em_integrity_tag meta \<noteq> Some (compute_mac hybrid_ext fd meta (key1 kp) (key2 kp))"
    by (rule hybrid_sample_encrypt)
  have t: "wrapped_tag_differs hybrid_ext sample_kem (hybrid_policy False) (CapsuleId [1]) (take SEGMENT_SIZE sample_data) hybrid_sample"
    using c e sample_data_facts(3) by (simp add: wrapped_tag_differs_def)
  show ?thesis
    using hybrid_without_dedupe_unreadable [OF hybrid_sample_facts(1-3) sample_data_facts(1) dd hybrid_sample_facts(4,5) t w] w by blast
qed

end
