(* ===== verification/Durability.thy ===== *)
theory Durability
  imports Capsule_Service
begin

text \<open>
  What survives the process. The registry and the log of a pipeline each have a file; the state is in
  step with its files when loading them again gives the same capsules, contents and segments. Every
  operation of the pipeline keeps the state in step as long as no system call fails, and a pipeline that
  is started from the files serves what the one before it served.
\<close>

section \<open>In step with the files\<close>

definition saved_registry :: "registry \<Rightarrow> registry_state option" where
  "saved_registry rg =
     (case reg_saved rg of
        Absent \<Rightarrow> Some \<lparr>rs_capsules = [], rs_next_segment_id = 0, rs_content_store = []\<rparr>
      | Stored s \<Rightarrow> Some s
      | Torn \<Rightarrow> None)"

definition log_synced :: "nvram_log \<Rightarrow> bool" where
  "log_synced lg \<longleftrightarrow> nv_io lg = [] \<and> length (nv_file lg) = unat (nv_next_offset lg) \<and>
     (nv_saved lg = Stored (nv_segment_map lg) \<or> nv_saved lg = Absent \<and> nv_segment_map lg = [])"

text \<open>The allocator of the file is above every segment of the log, although allocating alone saves nothing.\<close>

definition registry_synced :: "registry \<Rightarrow> nvram_log \<Rightarrow> bool" where
  "registry_synced rg lg \<longleftrightarrow> reg_io rg = [] \<and>
     (\<exists>s. saved_registry rg = Some s \<and> rs_capsules s = reg_capsules rg \<and> rs_content_store s = reg_content_store rg \<and>
        ids_below (rs_next_segment_id s) lg \<and> rs_next_segment_id s \<le> reg_next_segment_id rg)"

definition synced :: "store \<Rightarrow> bool" where
  "synced st \<longleftrightarrow> log_synced (st_nvram st) \<and> registry_synced (st_registry st) (st_nvram st)"

lemma synced_io_free: "synced st \<Longrightarrow> io_free st"
  by (simp add: synced_def log_synced_def registry_synced_def io_free_def)

lemma ids_below_mono: "ids_below n lg \<Longrightarrow> n \<le> m \<Longrightarrow> ids_below m lg"
  unfolding ids_below_def by (meson less_le_trans word_le_nat_alt)

lemma ids_below_subset:
  "ids_below n lg \<Longrightarrow> (\<And>sid. hm_get (nv_segment_map lg) sid = None \<Longrightarrow> hm_get (nv_segment_map lg') sid = None) \<Longrightarrow> ids_below n lg'"
  unfolding ids_below_def by (metis option.exhaust option.distinct(1))

abbreviation keeps :: "('s \<Rightarrow> bool) \<Rightarrow> ('s, 'a, 'e) op \<Rightarrow> bool" where
  "keeps P m \<equiv> holds P m (\<lambda>_. P) P"

lemma keeps_iff: "keeps P m \<longleftrightarrow> (\<forall>s r t. P s \<longrightarrow> m s = (r, t) \<longrightarrow> P t)"
  unfolding holds_def by (auto split: op_splits) (metis result.exhaust)+

lemma keepsI: "(\<And>s r t. P s \<Longrightarrow> m s = (r, t) \<Longrightarrow> P t) \<Longrightarrow> keeps P m"
  by (simp add: keeps_iff)

lemma keepsD: "keeps P m \<Longrightarrow> P s \<Longrightarrow> m s = (r, t) \<Longrightarrow> P t"
  unfolding keeps_iff by blast

lemma keeps_bind: "keeps P m \<Longrightarrow> (\<And>x. keeps P (f x)) \<Longrightarrow> keeps P (bind_op m f)"
  by (rule holds_bind)

lemma keeps_basic: "keeps P (return_op x)" "keeps P (fail_op e)" "keeps P (lift_result r)" "keeps P (map_err_op g m) = keeps P m"
  by (auto simp: keeps_iff op_simps split: prod.splits)

lemma keeps_for_each: "(\<And>x. x \<in> set xs \<Longrightarrow> keeps P (f x)) \<Longrightarrow> keeps P (for_each f xs)"
proof (induction xs)
  case Nil
  then show ?case by (simp add: keeps_iff)
next
  case (Cons x xs)
  then have "keeps P (f x)" "keeps P (for_each f xs)" by simp_all
  show ?case
  proof (rule keepsI)
    fix s r t assume p: "P s" and run: "for_each f (x # xs) s = (r, t)"
    obtain q u where q: "f x s = (q, u)" by fastforce
    have "P u" using keepsD [OF \<open>keeps P (f x)\<close> p q] .
    then show "P t" using run q keepsD [OF \<open>keeps P (for_each f xs)\<close>] by (cases q) auto
  qed
qed

section \<open>Operations on the log\<close>

lemma save_log_synced:
  assumes "nv_io lg = []" "length (nv_file lg) = unat (nv_next_offset lg)" "save_segment_map lg = (r, lg')"
  shows "r = Ok ()" "log_synced lg'" "nv_segment_map lg' = nv_segment_map lg"
  using save_effect [OF assms(3)] assms(1,2) by (auto simp: log_synced_def)

lemma synced_log_step:
  assumes "synced st" "log_synced lg'" "\<And>sid. hm_get (nv_segment_map (st_nvram st)) sid = None \<Longrightarrow> hm_get (nv_segment_map lg') sid = None"
  shows "synced (st\<lparr>st_nvram := lg'\<rparr>)"
  using assms ids_below_subset [OF _ assms(3)] by (auto simp: synced_def registry_synced_def)

lemma nv_put_synced:
  assumes "synced st" "hm_get (nv_segment_map (st_nvram st)) sid \<noteq> None" "save_segment_map (nv_put sid seg (st_nvram st)) = (r, lg')"
  shows "synced (st\<lparr>st_nvram := lg'\<rparr>)"
proof -
  have S: "log_synced lg'" "nv_segment_map lg' = nv_segment_map (nv_put sid seg (st_nvram st))"
    using save_log_synced [OF _ _ assms(3)] assms(1) by (simp_all add: synced_def log_synced_def nv_put_def)
  show ?thesis
    by (rule synced_log_step [OF assms(1) S(1)]) (use assms(2) S(2) in \<open>auto simp: nv_put_def\<close>)
qed

lemma keeps_increment: "keeps synced (on_nvram (nv_increment_refcount sid))"
proof (rule keepsI)
  fix st r st' assume s: "synced st" and run: "on_nvram (nv_increment_refcount sid) st = (r, st')"
  show "synced st'"
  proof (cases "hm_get (nv_segment_map (st_nvram st)) sid")
    case None
    then show ?thesis using run s by (auto simp: on_nvram_eq nv_increment_refcount_def nv_lookup_def op_simps)
  next
    case (Some seg)
    then obtain seg' q lg' where sv: "save_segment_map (nv_put sid seg' (st_nvram st)) = (q, lg')" "st' = st\<lparr>st_nvram := lg'\<rparr>"
      using run by (auto simp: on_nvram_eq nv_increment_refcount_def nv_lookup_def op_simps Let_def split: prod.splits result.splits)
    show ?thesis using nv_put_synced [OF s _ sv(1)] sv(2) Some by simp
  qed
qed

lemma keeps_decrement: "keeps synced (on_nvram (nv_decrement_refcount sid))"
proof (rule keepsI)
  fix st r st' assume s: "synced st" and run: "on_nvram (nv_decrement_refcount sid) st = (r, st')"
  show "synced st'"
  proof (cases "\<exists>seg. hm_get (nv_segment_map (st_nvram st)) sid = Some seg \<and> seg_ref_count seg \<noteq> 0")
    case False
    then have "st' = st" using run
      by (auto simp: on_nvram_eq nv_decrement_refcount_def nv_lookup_def op_simps Let_def ok_or_def split: option.splits)
    then show ?thesis using s by simp
  next
    case True
    then obtain seg' q lg' where sv: "save_segment_map (nv_put sid seg' (st_nvram st)) = (q, lg')" "st' = st\<lparr>st_nvram := lg'\<rparr>"
      using run by (auto simp: on_nvram_eq nv_decrement_refcount_def nv_lookup_def op_simps Let_def split: prod.splits result.splits if_splits)
    show ?thesis using nv_put_synced [OF s _ sv(1)] sv(2) True by auto
  qed
qed

lemma keeps_remove: "keeps synced (on_nvram (nv_remove_segment sid))"
proof (rule keepsI)
  fix st r st' assume s: "synced st" and run: "on_nvram (nv_remove_segment sid) st = (r, st')"
  let ?lg = "(st_nvram st)\<lparr>nv_segment_map := hm_remove sid (nv_segment_map (st_nvram st))\<rparr>"
  show "synced st'"
  proof (cases "hm_get (nv_segment_map (st_nvram st)) sid")
    case None
    then have "hm_remove sid (nv_segment_map (st_nvram st)) = nv_segment_map (st_nvram st)"
      by (simp add: delete_idem map_of_eq_None_iff)
    then have "st' = st" using run None by (auto simp: on_nvram_eq nv_remove_segment_def Let_def)
    then show ?thesis using s by simp
  next
    case (Some seg)
    obtain q lg' where sv: "save_segment_map ?lg = (q, lg')" by fastforce
    have st': "st' = st\<lparr>st_nvram := lg'\<rparr>"
      using run Some sv by (auto simp: on_nvram_eq nv_remove_segment_def Let_def op_simps split: prod.splits result.splits)
    have "log_synced lg'" "nv_segment_map lg' = hm_remove sid (nv_segment_map (st_nvram st))"
      using save_log_synced [OF _ _ sv] s by (simp_all add: synced_def log_synced_def)
    then show ?thesis unfolding st' by (intro synced_log_step [OF s]) auto
  qed
qed

section \<open>Operations on the registry\<close>

text \<open>Saving after any change of the two maps.\<close>

lemma reg_save_synced:
  assumes "registry_synced rg lg" "reg_save (rg\<lparr>reg_capsules := caps, reg_content_store := content\<rparr>) = (r, rg')"
  shows "r = Ok ()" "registry_synced rg' lg"
proof -
  obtain s where s: "saved_registry rg = Some s" "ids_below (rs_next_segment_id s) lg" "rs_next_segment_id s \<le> reg_next_segment_id rg"
    "reg_io rg = []" using assms(1) by (auto simp: registry_synced_def)
  note S = reg_save_effect [OF assms(2)]
  have io: "r = Ok ()" "reg_io rg' = []" using S(6) s(4) by simp_all
  show "r = Ok ()" by (rule io(1))
  have "saved_registry rg' = Some \<lparr>rs_capsules = caps, rs_next_segment_id = reg_next_segment_id rg, rs_content_store = content\<rparr>"
    using S(5) io(1) by (simp add: saved_registry_def reg_snapshot_def)
  then show "registry_synced rg' lg"
    using S(1-3) io(2) ids_below_mono [OF s(2,3)] by (simp add: registry_synced_def)
qed

lemma registry_update_id:
  "rg\<lparr>reg_capsules := caps, reg_content_store := reg_content_store rg\<rparr> = rg\<lparr>reg_capsules := caps\<rparr>"
  "rg\<lparr>reg_capsules := reg_capsules rg, reg_content_store := content\<rparr> = rg\<lparr>reg_content_store := content\<rparr>"
  by simp_all

lemma save_capsules_synced:
  assumes "registry_synced rg lg" "reg_save (rg\<lparr>reg_capsules := caps\<rparr>) = (r, rg')"
  shows "registry_synced rg' lg"
  using reg_save_synced(2) [OF assms(1), where caps = caps and content = "reg_content_store rg"] assms(2) by (simp only: registry_update_id)

lemma save_content_synced:
  assumes "registry_synced rg lg" "reg_save (rg\<lparr>reg_content_store := content\<rparr>) = (r, rg')"
  shows "registry_synced rg' lg"
  using reg_save_synced(2) [OF assms(1), where caps = "reg_capsules rg" and content = content] assms(2) by (simp only: registry_update_id)

lemma keeps_registry:
  assumes "\<And>rg r rg' lg. registry_synced rg lg \<Longrightarrow> m rg = (r, rg') \<Longrightarrow> registry_synced rg' lg"
  shows "keeps synced (on_registry m)"
  by (rule keepsI) (use assms in \<open>auto simp: on_registry_eq synced_def\<close>)

lemma keeps_deregister: "keeps synced (on_registry (reg_deregister_content h sid))"
proof (rule keeps_registry)
  fix rg r rg' lg assume s: "registry_synced rg lg" and run: "reg_deregister_content h sid rg = (r, rg')"
  show "registry_synced rg' lg"
  proof (cases "hm_get (reg_content_store rg) h = Some sid")
    case True
    obtain q rg1 where sv: "reg_save (rg\<lparr>reg_content_store := hm_remove h (reg_content_store rg)\<rparr>) = (q, rg1)" by fastforce
    then have "rg' = rg1" using run True
      by (auto simp: reg_deregister_content_def op_simps split: result.splits)
    then show ?thesis using save_content_synced [OF s sv] by simp
  next
    case False
    then have "rg' = rg" using run by (auto simp: reg_deregister_content_def split: option.splits if_splits)
    then show ?thesis using s by simp
  qed
qed

lemma keeps_delete_record: "keeps synced (on_registry (reg_delete_capsule cid))"
proof (rule keeps_registry)
  fix rg r rg' lg assume s: "registry_synced rg lg" and run: "reg_delete_capsule cid rg = (r, rg')"
  show "registry_synced rg' lg"
  proof (cases "hm_get (reg_capsules rg) cid")
    case None
    then have "rg' = rg" using run by (auto simp: reg_delete_capsule_def)
    then show ?thesis using s by simp
  next
    case (Some c)
    obtain q rg1 where sv: "reg_save (rg\<lparr>reg_capsules := hm_remove cid (reg_capsules rg)\<rparr>) = (q, rg1)" by fastforce
    then have "rg' = rg1" using run Some by (auto simp: reg_delete_capsule_def op_simps split: result.splits)
    then show ?thesis using save_capsules_synced [OF s sv] by simp
  qed
qed

lemma keeps_create_record: "keeps synced (on_registry (create_capsule_with_segments now cid sz segs pol))"
proof (rule keeps_registry)
  fix rg r rg' lg assume s: "registry_synced rg lg" and run: "create_capsule_with_segments now cid sz segs pol rg = (r, rg')"
  show "registry_synced rg' lg"
  proof (cases "hm_get (reg_capsules rg) cid = None \<and> now \<noteq> None")
    case True
    then obtain t where "now = Some t" by auto
    then show ?thesis using run True save_capsules_synced [OF s] by (auto simp: create_capsule_with_segments_def)
  next
    case False
    then have "rg' = rg" using run by (cases now) (auto simp: create_capsule_with_segments_def split: if_splits)
    then show ?thesis using s by simp
  qed
qed

section \<open>Writing a chunk\<close>

text \<open>Between allocating and registering, the file of the registry is behind; without faults the steps complete.\<close>

lemma write_new_dedup_synced:
  assumes s: "synced st" and cap: "capacity (Suc n) (length fd + b) st" and run: "write_new_dedup h fd cr em stats st = (r, st')"
  shows "synced st'"
proof -
  let ?rg = "snd (alloc_segment (st_registry st))" and ?sid = "fst (alloc_segment (st_registry st))" and ?lg = "st_nvram st"
  have lg: "nv_io ?lg = []" "length (nv_file ?lg) = unat (nv_next_offset ?lg)" using s by (simp_all add: synced_def log_synced_def)
  obtain l1 where a: "nv_append ?sid fd ?lg = (Ok (fresh_segment ?sid (nv_next_offset ?lg) fd), l1)" "nv_io l1 = []"
    by (rule nv_append_total [OF lg(1)])
  have A: "nv_segment_map l1 = hm_insert ?sid (fresh_segment ?sid (nv_next_offset ?lg) fd) (nv_segment_map ?lg)"
    "length (nv_file l1) = unat (nv_next_offset l1)"
  proof -
    show "nv_segment_map l1 = hm_insert ?sid (fresh_segment ?sid (nv_next_offset ?lg) fd) (nv_segment_map ?lg)"
      by (cases rule: nv_append_outcome [of ?sid fd ?lg]) (use a in auto)
    have "room (length fd) ?lg" using cap by (simp add: capacity_def room_def)
    then show "length (nv_file l1) = unat (nv_next_offset l1)"
      by (cases rule: nv_append_outcome [of ?sid fd ?lg]) (use a lg(2) in \<open>auto simp: length_write_at room_def word_arith\<close>)
  qed
  let ?seg = "apply_enc_meta em ((fresh_segment ?sid (nv_next_offset ?lg) fd)\<lparr>seg_compressed := cr_compressed cr,
                 seg_compression_algo := cr_algorithm cr, seg_content_hash := Some h, seg_ref_count := 1, seg_deduplicated := False\<rparr>)"
  obtain q l2 where u: "save_segment_map (nv_put ?sid ?seg l1) = (q, l2)" by fastforce
  have U: "q = Ok ()" "log_synced l2" "nv_segment_map l2 = hm_insert ?sid ?seg (nv_segment_map l1)"
    using save_log_synced [OF _ _ u] a(2) A(2) by (simp_all add: nv_put_def)
  obtain q3 g3 where g: "reg_register_content h ?sid ?rg = (q3, g3)" by fastforce
  have st': "st' = \<lparr>st_registry = g3, st_nvram = l2\<rparr>"
    using run a(1) u U(1) g
    by (cases q3; cases st) (simp_all add: write_new_dedup_def Let_def op_simps on_nvram_def on_registry_def nv_update_segment_metadata_def)
  obtain sv where sv: "saved_registry (st_registry st) = Some sv" "ids_below (rs_next_segment_id sv) ?lg"
    "rs_next_segment_id sv \<le> reg_next_segment_id (st_registry st)" "reg_io (st_registry st) = []"
    using s by (auto simp: synced_def registry_synced_def)
  have num: "unat (reg_next_segment_id (st_registry st) + 1) = Suc (unat (reg_next_segment_id (st_registry st)))"
    using cap unat_next_id [of n st] by (simp add: capacity_def)
  have below: "ids_below (reg_next_segment_id (st_registry st) + 1) l2"
    using ids_below_mono [OF sv(2,3)] num
    by (auto simp: ids_below_def U(3) A(1) alloc_segment_def intro: less_SucI)
  have sv3: "reg_save (?rg\<lparr>reg_content_store := hm_insert h ?sid (reg_content_store ?rg)\<rparr>) = (q3, g3)"
    using g by (simp add: reg_register_content_def)
  note G = reg_save_effect [OF sv3]
  have io: "q3 = Ok ()" "reg_io g3 = []" using G(6) sv(4) by (simp_all add: alloc_segment_def)
  have "saved_registry g3 = Some (reg_snapshot (?rg\<lparr>reg_content_store := hm_insert h ?sid (reg_content_store ?rg)\<rparr>))"
    using G(5) io(1) by (simp add: saved_registry_def)
  then have "registry_synced g3 l2"
    using G(1-3) io(2) below by (simp add: registry_synced_def reg_snapshot_def alloc_segment_def)
  then show ?thesis using U(2) by (simp add: st' synced_def)
qed

lemma store_chunk_synced:
  assumes "synced st" "capacity (Suc n) (length fd + b) st" "store_chunk True h fd cr em stats st = (r, st')"
  shows "synced st'"
proof (cases "reg_lookup_content h (st_registry st)")
  case None
  then show ?thesis using write_new_dedup_synced [OF assms(1,2)] assms(3) by (simp add: store_chunk_def)
next
  case (Some sid)
  have "keeps synced (bind_op (map_err_op (map_nvram_error ''increment_refcount'') (on_nvram (nv_increment_refcount sid)))
      (\<lambda>updated. return_op (sid, add_segment_stats (ucast (seg_len updated)) True stats)))"
    by (intro keeps_bind) (simp_all add: keeps_basic keeps_increment)
  then show ?thesis using assms Some by (auto simp: store_chunk_def dest: keepsD)
qed

lemma write_loop_synced:
  assumes "wp_km_ok E p" "xts_laws E" "store_inv E (wp_keys E p) ids (wp_store p)" "synced (wp_store p)" "dedupe pol"
    and "capacity (length items) (sum_list (map (length \<circ> snd) items)) (wp_store p)"
    and "\<forall>(i, c)\<in>set items. length c < 2 ^ 32" "refs_room (length items) ids (wp_store p)"
    and "write_loop E pol enc items ids stats p = (r, p')"
  shows "synced (wp_store p')"
  using assms
proof (induction items arbitrary: ids stats p)
  case (Cons it items)
  obtain i c where it: "it = (i, c)" by (cases it)
  let ?kf = "wp_keys E p" and ?b = "sum_list (map (length \<circ> snd) items)"
  obtain q p1 where w: "write_chunk E pol enc i c stats p = (q, p1)" by fastforce
  have cap: "capacity (Suc (length items)) (length c + ?b) (wp_store p)" using Cons.prems(6) by (simp add: it comp_def)
  have len: "length c < 2 ^ 32" and rr: "refs_room 1 ids (wp_store p)"
    using Cons.prems(7,8) by (auto simp: it refs_room_def)
  note W = write_chunk_effect [OF Cons.prems(1,2,3) cap len rr w]
  have s1: "synced (wp_store p1)"
  proof (cases "compress_segment E c (compression pol)")
    case (Err e)
    then show ?thesis using w Cons.prems(4) by (auto simp: write_chunk_def op_simps)
  next
    case (Ok vr)
    obtain v res where vr: "vr = (v, res)" by (cases vr)
    obtain x p2 where e: "encrypt_chunk E enc v (hash_content E v) p = (x, p2)" by fastforce
    have lv: "length v \<le> length c" by (rule compress_length [OF Ok [unfolded vr]])
    have lv32: "length v < 2 ^ 32" using lv len by simp
    have p2: "wp_store p2 = wp_store p" using encrypt_chunk_effect(1) [OF Cons.prems(1) e] by (simp add: only_keys_def)
    show ?thesis
    proof (cases x)
      case er: (Err y)
      then show ?thesis using w Ok vr e p2 Cons.prems(4) by (auto simp: write_chunk_def op_simps Let_def)
    next
      case fe: (Ok y)
      obtain fd em where fem: "y = (fd, em)" by (cases y)
      have lfd: "length fd = length v" using encrypt_chunk_effect(2) [OF Cons.prems(1) e Cons.prems(2) lv32] fe fem by auto
      obtain q2 st' where s: "store_chunk True (hash_content E v) fd res em stats (wp_store p) = (q2, st')" by fastforce
      have "p1 = p2\<lparr>wp_store := st'\<rparr>"
        using w Ok vr e fe fem s p2 Cons.prems(5) by (auto simp: write_chunk_def op_simps on_store_def Let_def)
      moreover have "capacity (Suc (length items)) (length fd + ?b) (wp_store p)"
        by (rule capacity_mono [OF cap]) (use lfd lv in simp)
      ultimately show ?thesis using store_chunk_synced [OF Cons.prems(4) _ s] by simp
    qed
  qed
  show ?case
  proof (cases q)
    case (Err e)
    then show ?thesis using Cons.prems(9) w s1 by (auto simp: it)
  next
    case (Ok st)
    obtain sid stats1 where st: "st = (sid, stats1)" by (cases st)
    have run: "write_loop E pol enc items (ids @ [sid]) stats1 p1 = (r, p')"
      using Cons.prems(9) w Ok by (simp add: it st)
    obtain d where cr: "chunk_result E ?kf ids (wp_store p) d q (wp_store p1)" using W by auto
    have R: "store_inv E ?kf (sid # ids) (wp_store p1)" "grows E ?kf (wp_store p) (wp_store p1)"
      using cr Ok st by (auto simp: chunk_result_def)
    have keys: "wp_keys E p1 = ?kf" "wp_km_ok E p1" using W by auto
    have inv1: "store_inv E (wp_keys E p1) (ids @ [sid]) (wp_store p1)"
      unfolding keys by (rule store_inv_less_extra [OF R(1)]) simp
    have cap1: "capacity (length items) ?b (wp_store p1)" using W Ok by simp
    have rr1: "refs_room (length items) (ids @ [sid]) (wp_store p1)"
      using Cons.prems(8) R(2) by (simp add: refs_room_def grows_def)
    show ?thesis by (rule Cons.IH [OF keys(2) Cons.prems(2) inv1 s1 Cons.prems(5) cap1 _ rr1 run]) (use Cons.prems(7) in auto)
  qed
qed simp

lemma write_capsule_synced:
  assumes "wp_inv E p" "xts_laws E" "fits data p" "synced (wp_store p)" "\<not> has_capsule p cid"
    and "write_capsule E now cid data p = (r, p')"
  shows "synced (wp_store p')"
proof -
  let ?items = "enumerate 0 (chunks SEGMENT_SIZE data)"
  have km: "wp_km_ok E p" and si: "store_inv E (wp_keys E p) [] (wp_store p)" using assms(1) by (auto simp: wp_inv_def)
  have cap: "capacity (length ?items) (sum_list (map (length \<circ> snd) ?items)) (wp_store p)"
    using assms(3) by (simp only: fits_def enumerate_items chunks_total)
  have rr: "refs_room (length ?items) [] (wp_store p)" using assms(3) by (simp add: fits_def)
  have len: "\<forall>(i, c)\<in>set ?items. length c < 2 ^ 32"
  proof clarify
    fix i c assume "(i, c) \<in> set ?items"
    then have "c \<in> set (chunks SEGMENT_SIZE data)" by (rule snd_enumerate)
    then show "length c < 2 ^ 32" using chunks_bounds [of c SEGMENT_SIZE data] SEGMENT_SIZE_bounds(2) by linarith
  qed
  have dd: "dedupe default_policy" by (simp add: default_policy_def)
  note L = write_loop_synced [OF km assms(2) si assms(4) dd cap len rr]
  from assms(6) [unfolded write_capsule_def] show ?thesis
  proof (cases rule: write_capsule_cases)
    case (loop_failed e)
    then show ?thesis using L by blast
  next
    case (created ids stats p1 st2 q st3)
    have s1: "synced (wp_store p1)" using L [OF created(1)] .
    have "reg_capsules (st_registry (wp_store p1)) = reg_capsules (st_registry (wp_store p))"
      using write_loop_facts(3) [OF assms(1-3) created(1)] by (simp add: grows_def)
    then have "st2 = wp_store p1"
      using created(2) assms(5) by (auto simp: add_deduped_bytes_def has_capsule_def)
    then show ?thesis using keepsD [OF keeps_create_record _ created(3)] s1 created(4) by simp
  qed
qed

lemma delete_capsule_synced: "keeps (\<lambda>p. synced (wp_store p)) (delete_capsule cid)"
proof -
  have rel: "keeps synced (release_segment sid)" for sid
    unfolding release_segment_def
    by (auto intro!: keeps_bind keeps_decrement keeps_remove keeps_deregister simp: keeps_basic split: option.split)
  have "keeps synced (bind_op (on_registry (reg_delete_capsule cid)) (\<lambda>c. for_each release_segment (cap_segments c)))"
    by (intro keeps_bind keeps_delete_record keeps_for_each rel)
  then show ?thesis
    unfolding delete_capsule_def on_store_def zoom_def
    by (auto simp: keeps_iff split: prod.splits)
qed

section \<open>Reconciliation\<close>

lemma keeps_sweep: "keeps synced (sweep_loop segs n)"
proof (induction segs arbitrary: n)
  case (Cons seg segs)
  have "keeps synced (reclaim_segment seg)"
    unfolding reclaim_segment_def
    by (auto intro!: keeps_bind keeps_remove keeps_deregister simp: keeps_basic split: option.split)
  then have "keeps synced (bind_op (reclaim_segment seg) (\<lambda>_. sweep_loop segs (n + 1)))" by (intro keeps_bind Cons.IH)
  then show ?case using Cons.IH [of n]
    by (cases "seg_ref_count seg = 0") (simp_all add: holds_def)
qed (simp add: holds_def)

lemma reconcile_synced:
  assumes "synced st" "log_ok (st_nvram st)" "reconcile_refcounts st = (r, st')"
  shows "synced st'"
proof -
  let ?segs = "nv_list_segments (st_nvram st)" and ?counts = "count_refs (st_registry st)"
  define P where "P = (\<lambda>s. synced s \<and> (\<forall>seg\<in>set ?segs. hm_get (nv_segment_map (st_nvram s)) (seg_id seg) \<noteq> None))"
  have fixed: "keeps P (fix_refcount ?counts seg)" if "seg \<in> set ?segs" for seg
  proof (rule keepsI)
    fix s r t assume p: "P s" and run: "fix_refcount ?counts seg s = (r, t)"
    have pres: "synced s" "hm_get (nv_segment_map (st_nvram s)) (seg_id seg) \<noteq> None" using p that by (auto simp: P_def)
    show "P t"
    proof (cases "t = s")
      case False
      then obtain seg' lg' where u: "save_segment_map (nv_put (seg_id seg) seg' (st_nvram s)) = (r, lg')" "t = s\<lparr>st_nvram := lg'\<rparr>"
        using run by (auto simp: fix_refcount_def Let_def on_nvram_eq nv_update_segment_metadata_def op_simps split: if_splits)
      have "synced t" using nv_put_synced [OF pres u(1)] u(2) by simp
      moreover have "nv_segment_map lg' = hm_insert (seg_id seg) seg' (nv_segment_map (st_nvram s))"
        using save_effect(1) [OF u(1)] by (simp add: nv_put_def)
      ultimately show ?thesis using p u(2) by (auto simp: P_def)
    qed (use p in simp)
  qed
  have init: "P st"
    using assms(1) listed_segments [OF assms(2)] by (auto simp: P_def)
  obtain r1 s1 where f: "for_each (fix_refcount ?counts) ?segs st = (r1, s1)" by fastforce
  have "P s1" by (rule keepsD [OF keeps_for_each [OF fixed] init f])
  then have "synced s1" by (simp add: P_def)
  moreover obtain r2 s2 where g: "gc_sweep s1 = (r2, s2)" by fastforce
  ultimately have "synced s2" using keepsD [OF keeps_sweep] by (simp add: gc_sweep_def)
  then show ?thesis
    using assms(3) f g \<open>synced s1\<close> by (cases r1; cases r2) (auto simp: reconcile_refcounts_def Let_def op_simps)
qed

section \<open>Restarting\<close>

record store_disk =
  dk_registry :: "registry_state persisted"
  dk_file :: "bytes option"
  dk_segments :: "(segment_id, segment) hmap persisted"

text \<open>
  \<open>open_registry_and_nvram\<close> of \<open>crates/spacectl/src/main.rs\<close>: \<open>CapsuleRegistry::new\<close> panics when its file cannot
  be loaded, and opening the log creates its data file first.
\<close>

definition open_registry_and_nvram ::
  "io_outcome list \<Rightarrow> io_outcome list \<Rightarrow> ('a store_disk_scheme, registry \<times> nvram_log, error) op" where
  "open_registry_and_nvram rio lio d =
     (case reg_open (dk_registry d) rio of
        Err _ \<Rightarrow> (Err Panic, d)
      | Ok rg \<Rightarrow>
          (let d = d\<lparr>dk_file := Some (case dk_file d of None \<Rightarrow> [] | Some f \<Rightarrow> f)\<rparr>
           in case nv_open (dk_file d) (dk_segments d) lio of
                Err e \<Rightarrow> (Err e, d)
              | Ok lg \<Rightarrow> (Ok (rg, lg), d)))"

text \<open>What a process leaves in the files when it ends.\<close>

definition left_behind :: "store \<Rightarrow> 'a store_disk_scheme \<Rightarrow> 'a store_disk_scheme" where
  "left_behind st d = d\<lparr>dk_registry := reg_saved (st_registry st), dk_file := Some (nv_file (st_nvram st)),
     dk_segments := nv_saved (st_nvram st)\<rparr>"

text \<open>The files hold a store in step, and the capsules in it are as a service would serve them.\<close>

definition holds_store :: "'a store_disk_scheme \<Rightarrow> store \<Rightarrow> bool" where
  "holds_store d st \<longleftrightarrow> dk_registry d = reg_saved (st_registry st) \<and> dk_segments d = nv_saved (st_nvram st) \<and>
     (case dk_file d of None \<Rightarrow> [] | Some f \<Rightarrow> f) = nv_file (st_nvram st)"

lemma left_behind_holds: "holds_store (left_behind st d) st"
  by (simp add: holds_store_def left_behind_def)

lemma store_inv_base: "store_inv E kf [] st \<Longrightarrow> store_base E kf st"
  unfolding store_inv_def store_base_def by (metis leD rc_of_def option.simps(4) not_gr_zero order.strict_trans2)

lemma reopen_store:
  assumes h: "holds_store d st" and s: "synced st" and inv: "store_inv E kf [] st"
  obtains rg lg where "open_registry_and_nvram [] [] d = (Ok (rg, lg), d\<lparr>dk_file := Some (nv_file (st_nvram st))\<rparr>)" "reg_open (dk_registry d) [] = Ok rg" "synced \<lparr>st_registry = rg, st_nvram = lg\<rparr>"
    "store_base E kf \<lparr>st_registry = rg, st_nvram = lg\<rparr>" "reg_capsules rg = reg_capsules (st_registry st)"
    "\<And>cid. contents E kf \<lparr>st_registry = rg, st_nvram = lg\<rparr> cid = contents E kf st cid"
proof -
  let ?reg = "st_registry st" and ?log = "st_nvram st"
  obtain sv where sv: "saved_registry ?reg = Some sv" "rs_capsules sv = reg_capsules ?reg" "rs_content_store sv = reg_content_store ?reg"
    "ids_below (rs_next_segment_id sv) ?log"
    using s by (auto simp: synced_def registry_synced_def)
  let ?rg = "\<lparr>reg_capsules = reg_capsules ?reg, reg_next_segment_id = rs_next_segment_id sv,
    reg_content_store = reg_content_store ?reg, reg_saved = reg_saved ?reg, reg_io = []\<rparr>"
  let ?lg = "\<lparr>nv_file = nv_file ?log, nv_segment_map = nv_segment_map ?log, nv_next_offset = nv_next_offset ?log,
    nv_saved = nv_saved ?log, nv_io = []\<rparr>"
  have rg: "reg_open (dk_registry d) [] = Ok ?rg"
    using h sv by (auto simp: holds_store_def reg_open_def saved_registry_def split: persisted.splits)
  have ls: "log_synced ?log" using s by (simp add: synced_def)
  have off: "of_nat (length (nv_file ?log)) = nv_next_offset ?log" using ls by (simp add: log_synced_def)
  have f: "(case dk_file d of None \<Rightarrow> [] | Some f \<Rightarrow> f) = nv_file ?log" "dk_segments d = nv_saved ?log"
    using h by (simp_all add: holds_store_def)
  have lg: "nv_open (Some (nv_file ?log)) (dk_segments d) [] = Ok ?lg"
    using f(2) ls off by (auto simp: nv_open_def log_synced_def Let_def)
  let ?st = "\<lparr>st_registry = ?rg, st_nvram = ?lg\<rparr>"
  have plain: "seg_plain E kf ?lg k = seg_plain E kf ?log k" for k
    by (simp add: seg_plain_def nv_read_def nv_get_segment_metadata_def cong: option.case_cong)
  have below: "ids_below (rs_next_segment_id sv) ?lg" using sv(4) by (simp add: ids_below_def)
  have "synced ?st"
    using s sv below by (auto simp: synced_def log_synced_def registry_synced_def saved_registry_def)
  moreover have "store_base E kf ?st"
  proof -
    have b: "store_base E kf st" by (rule store_inv_base [OF inv])
    have "log_ok ?lg" by (rule log_ok_cong [of _ ?log]) (use b in \<open>simp_all add: store_base_def\<close>)
    moreover have "content_ok E kf (reg_content_store ?reg) ?lg"
      using b plain by (simp add: store_base_def content_ok_def)
    ultimately show ?thesis using b below by (simp add: store_base_def)
  qed
  moreover have "contents E kf ?st cid = contents E kf st cid" for cid
    by (rule contents_cong) (simp_all add: plain)
  ultimately show thesis using that [of ?rg ?lg] rg lg f(1) by (simp add: open_registry_and_nvram_def Let_def)
qed

section \<open>A pipeline started from the files\<close>

definition env_ok :: "ext \<Rightarrow> (key_manager, encryption_error) result \<Rightarrow> bool" where
  "env_ok E env \<longleftrightarrow> xts_laws E \<and> (\<forall>km. env = Ok km \<longrightarrow> km_ok E km)"

definition env_keys :: "ext \<Rightarrow> (key_manager, encryption_error) result \<Rightarrow> keys" where
  "env_keys E env = (case env of Ok km \<Rightarrow> Some (derive_key E km) | Err _ \<Rightarrow> None)"

text \<open>A pipeline of this environment that keeps its invariant and is in step with its files.\<close>

definition running :: "ext \<Rightarrow> (key_manager, encryption_error) result \<Rightarrow> write_pipeline \<Rightarrow> bool" where
  "running E env p \<longleftrightarrow> service_inv E p \<and> wp_keys E p = env_keys E env \<and> synced (wp_store p)"

text \<open>The files are those of such a pipeline, with this data in its capsules.\<close>

definition stored :: "ext \<Rightarrow> (key_manager, encryption_error) result \<Rightarrow> 'a store_disk_scheme \<Rightarrow> (capsule_id \<rightharpoonup> bytes) \<Rightarrow> bool" where
  "stored E env d ct \<longleftrightarrow> (\<exists>p. running E env p \<and> holds_store d (wp_store p) \<and> wp_data E p = ct)"

text \<open>The references of the capsules in the file can be counted in 32 bits.\<close>

definition few_refs :: "'a store_disk_scheme \<Rightarrow> bool" where
  "few_refs d \<longleftrightarrow> (case dk_registry d of Stored s \<Rightarrow> length (capsule_refs (rs_capsules s)) < 2 ^ 32 | _ \<Rightarrow> True)"

lemma stored_opens:
  assumes "stored E env d ct" "few_refs d" "env_ok E env"
  obtains rg lg f where "open_registry_and_nvram [] [] d = (Ok (rg, lg), d\<lparr>dk_file := Some f\<rparr>)" "reg_open (dk_registry d) [] = Ok rg"
    "running E env (wp_new rg lg env)" "wp_data E (wp_new rg lg env) = ct" "reg_capsules rg = reg_capsules (st_registry (wp_store (wp_new rg lg env)))"
proof -
  obtain p where p: "running E env p" "holds_store d (wp_store p)" "wp_data E p = ct"
    using assms(1) by (auto simp: stored_def)
  have few: "length (capsule_refs (reg_capsules (st_registry (wp_store p)))) < 2 ^ 32"
  proof -
    obtain s where "saved_registry (st_registry (wp_store p)) = Some s" "rs_capsules s = reg_capsules (st_registry (wp_store p))"
      using p(1) by (auto simp: running_def synced_def registry_synced_def)
    then show ?thesis using p(2) assms(2)
      by (auto simp: saved_registry_def holds_store_def few_refs_def capsule_refs_def split: persisted.splits)
  qed
  have inv: "store_inv E (env_keys E env) [] (wp_store p)" "synced (wp_store p)" "sizes_ok E p" "xts_laws E"
    "wp_keys E p = env_keys E env"
    using p(1) by (auto simp: running_def service_inv_def wp_inv_def)
  obtain rg lg where R0: "open_registry_and_nvram [] [] d = (Ok (rg, lg), d\<lparr>dk_file := Some (nv_file (st_nvram (wp_store p)))\<rparr>)"
      "reg_open (dk_registry d) [] = Ok rg" and R: "dk_registry d = dk_registry d" "synced \<lparr>st_registry = rg, st_nvram = lg\<rparr>"
    "store_base E (env_keys E env) \<lparr>st_registry = rg, st_nvram = lg\<rparr>" "reg_capsules rg = reg_capsules (st_registry (wp_store p))"
    "\<And>cid. contents E (env_keys E env) \<lparr>st_registry = rg, st_nvram = lg\<rparr> cid = contents E (env_keys E env) (wp_store p) cid"
    by (rule reopen_store [OF p(2) inv(2,1)]) blast
  let ?st = "\<lparr>st_registry = rg, st_nvram = lg\<rparr>" and ?q = "wp_new rg lg env"
  obtain r st' where c: "reconcile_refcounts ?st = (r, st')" by fastforce
  have bound: "length (capsule_refs (reg_capsules (st_registry ?st))) < 2 ^ 32" using few R(4) by simp
  note C = reconcile_effect [OF R(3) bound c]
  have q: "wp_store ?q = st'" "wp_keys E ?q = env_keys E env" "wp_km_ok E ?q"
    using c assms(3) by (auto simp: wp_new_def wp_keys_def env_keys_def wp_km_ok_def env_ok_def split: result.splits)
  have "is_ok r" using C(4) synced_io_free [OF R(2)] by simp
  then have "store_inv E (env_keys E env) [] st'" using C(3) by simp
  then have wi: "wp_inv E ?q" using q by (simp add: wp_inv_def)
  have s: "synced st'" using reconcile_synced [OF R(2) _ c] R(3) by (simp add: store_base_def)
  have same: "contents E (env_keys E env) st' cid = contents E (env_keys E env) (wp_store p) cid" for cid
    using C(1) R(5) by simp
  have caps: "reg_capsules (st_registry st') = reg_capsules (st_registry (wp_store p))" using C(2) R(4) by simp
  have "sizes_ok E ?q" using inv(3,5) q(1,2) same caps by (simp add: sizes_ok_def)
  then have "running E env ?q" using wi s q inv(4) by (simp add: running_def service_inv_def)
  moreover have "wp_data E ?q = ct" using same q inv(5) p(3) by (auto simp: wp_data_def fun_eq_iff)
  moreover have "reg_capsules rg = reg_capsules (st_registry (wp_store ?q))"
    using caps R(4) q(1) by simp
  ultimately show thesis using that R0 by blast
qed

lemma running_stored:
  assumes "running E env p"
  shows "stored E env (left_behind (wp_store p) d) (wp_data E p)"
  using assms left_behind_holds unfolding stored_def by blast

text \<open>The operations of a running pipeline.\<close>

lemma running_put:
  assumes "running E env p" "service_ready E data p" "\<not> has_capsule p cid" "write_capsule E now cid data p = (r, p')"
  shows "running E env p'" "(\<forall>k. k \<noteq> cid \<longrightarrow> wp_data E p' k = wp_data E p k)" "r = Ok x \<Longrightarrow> x = cid \<and> wp_data E p' cid = Some data"
proof -
  have a: "service_inv E p" "wp_inv E p" "xts_laws E" "fits data p" "synced (wp_store p)"
    using assms(1,2) by (auto simp: running_def service_inv_def service_ready_def)
  note P = put_service [OF a(1) assms(2,4)]
  have W: "write_outcome E now cid default_policy data p r p'"
    by (rule write_capsule_effect [OF a(2,3,4) assms(4) [unfolded write_capsule_def]])
  then have "wp_keys E p' = wp_keys E p" by (simp add: write_outcome_def)
  then show "running E env p'"
    using P write_capsule_synced [OF a(2,3,4,5) assms(3,4)] assms(1) by (simp add: running_def)
  show "(\<forall>k. k \<noteq> cid \<longrightarrow> wp_data E p' k = wp_data E p k)" "r = Ok x \<Longrightarrow> x = cid \<and> wp_data E p' cid = Some data"
    using P by auto
qed

lemma running_only_keys:
  assumes "running E env p" "only_keys E p p'"
  shows "running E env p'" "wp_data E p' = wp_data E p"
proof -
  have a: "service_inv E p" using assms(1) by (simp add: running_def)
  have k: "wp_store p' = wp_store p" "wp_keys E p' = wp_keys E p" "wp_km_ok E p'" using assms(2) by (simp_all add: only_keys_def)
  then show "wp_data E p' = wp_data E p" by (auto simp: wp_data_def fun_eq_iff)
  show "running E env p'" using a assms(1) k by (simp add: running_def service_inv_def wp_inv_def sizes_ok_def)
qed

lemma running_get:
  assumes "running E env p" "read_capsule E cid p = (r, p')"
  shows "running E env p'" "wp_data E p' = wp_data E p"
    and "case wp_data E p cid of Some d \<Rightarrow> r = Ok d | None \<Rightarrow> \<not> is_ok r"
proof -
  have a: "service_inv E p" "wp_km_ok E p" using assms(1) by (auto simp: running_def service_inv_def wp_inv_def)
  note R = running_only_keys [OF assms(1) read_capsule_effect(1) [OF a(2) assms(2)]]
  show "running E env p'" "wp_data E p' = wp_data E p" by (rule R)+
  show "case wp_data E p cid of Some d \<Rightarrow> r = Ok d | None \<Rightarrow> \<not> is_ok r"
    using get_service [OF a(1) assms(2)] by blast
qed

lemma running_discard:
  assumes "running E env p" "delete_capsule cid p = (r, p')"
  shows "running E env p'" "wp_data E p' = (wp_data E p)(cid := None)"
proof -
  have a: "service_inv E p" "wp_inv E p" using assms(1) by (auto simp: running_def service_inv_def)
  have "wp_keys E p' = wp_keys E p" using delete_capsule_effect [OF a(2) assms(2)] by (simp add: delete_outcome_def)
  then show "running E env p'"
    using discard_service [OF a(1) assms(2)] keepsD [OF delete_capsule_synced _ assms(2)] assms(1) by (simp add: running_def)
  show "wp_data E p' = (wp_data E p)(cid := None)" using discard_service [OF a(1) assms(2)] by blast
qed

end
