(* ===== verification/Spacectl.thy ===== *)
theory Spacectl
  imports Block_View Nfs_View Zero_Trust Federation Durability
begin

text \<open>
  The command line of \<open>crates/spacectl/src/main.rs\<close>. Every command is a process of its own: it opens the
  registry and the log from their files, builds a pipeline or a view over them, runs one operation, prints,
  and leaves the files as they are when it ends. A command is an operation on the disk whose value is what
  it prints. The parsing of arguments and the formatting of the output are those of libraries; the flags of
  the optional features \<open>modular_pipeline\<close> and \<open>pipeline_async\<close> are off.
\<close>

section \<open>Disk and process\<close>

text \<open>The files of the working directory: \<open>space.nvram\<close> with its registry and segments, \<open>space.nfs.json\<close> and \<open>space.block.json\<close>.\<close>

record disk = store_disk +
  dk_namespace :: "nodes persisted"
  dk_volumes :: "(string, block_volume) hmap persisted"

text \<open>
  What a process finds: the files \<open>fs::read\<close> can read, the keys of its environment, the clocks of the pipeline
  and of the view, the identifier a write draws, and the outcomes of its system calls on each file.
\<close>

record process =
  pr_files :: "string \<Rightarrow> bytes option"
  pr_keys :: "(key_manager, encryption_error) result"
  pr_clock :: "u64 option"
  pr_now :: "u64 option"
  pr_fresh :: capsule_id
  pr_registry_io :: "io_outcome list"
  pr_log_io :: "io_outcome list"
  pr_view_io :: "io_outcome list"

type_synonym 'a disk_op = "(disk, 'a, error) op"

definition fs_read :: "process \<Rightarrow> string \<Rightarrow> (bytes, error) result" where
  "fs_read P path = ok_or (pr_files P path) IoError"

definition open_store :: "process \<Rightarrow> (registry \<times> nvram_log) disk_op" where
  "open_store P = open_registry_and_nvram (pr_registry_io P) (pr_log_io P)"

section \<open>Commands\<close>

datatype nfs_command =
    NfsMkdir string
  | NfsWrite string string
  | NfsRead string
  | NfsList string
  | NfsDelete string
  | NfsMetadata string

datatype block_command =
    BlockCreate string u64 "u64 option"
  | BlockDelete string
  | BlockList
  | BlockInfo string
  | BlockRead string u64 nat
  | BlockWrite string u64 string

text \<open>What the commands print, before formatting.\<close>

record capsule_row =
  cr_capsule :: capsule_id
  cr_size :: u64
  cr_segments :: nat

datatype printed =
    CapsuleCreated capsule_id nat
  | RawBytes bytes
  | CapsuleTable "(capsule_row, capsule_id \<times> error) result list"
  | NoCapsules
  | CreatedDirectory string
  | WroteFile string capsule_id string
  | EntryTable "nfs_entry list"
  | EmptyDirectory
  | DeletedPath string
  | EntryDetails nfs_entry
  | CreatedVolume block_volume
  | DeletedVolume string
  | VolumeTable "block_volume list"
  | NoVolumes
  | VolumeDetails block_volume
  | WroteBytes nat string string

section \<open>Capsules\<close>

text \<open>A pipeline over the opened store; the process ends with the pipeline's files on the disk.\<close>

definition with_pipeline :: "process \<Rightarrow> 'a wp_op \<Rightarrow> 'a disk_op" where
  "with_pipeline P m =
     bind_op (open_store P) (\<lambda>(rg, lg) d.
       case m (wp_new rg lg (pr_keys P)) of (r, p) \<Rightarrow> (r, left_behind (wp_store p) d))"

text \<open>The arms of \<open>main\<close>.\<close>

definition create_command :: "ext \<Rightarrow> process \<Rightarrow> string \<Rightarrow> printed disk_op" where
  "create_command E P path =
     bind_op (lift_result (fs_read P path)) (\<lambda>data.
     bind_op (with_pipeline P (write_capsule E (pr_clock P) (pr_fresh P) data)) (\<lambda>cid.
       return_op (CapsuleCreated cid (length data))))"

definition read_command :: "ext \<Rightarrow> view_ext \<Rightarrow> process \<Rightarrow> string \<Rightarrow> printed disk_op" where
  "read_command E V P text =
     bind_op (lift_result (ok_or (vx_parse_uuid V text) ParseError)) (\<lambda>uuid.
     bind_op (with_pipeline P (read_capsule E (CapsuleId uuid))) (\<lambda>data.
       return_op (RawBytes data)))"

definition capsule_row_of :: "registry \<Rightarrow> capsule_id \<Rightarrow> (capsule_row, capsule_id \<times> error) result" where
  "capsule_row_of rg cid =
     (case reg_lookup cid rg of
        Ok cap \<Rightarrow> Ok \<lparr>cr_capsule = cap_id cap, cr_size = cap_size cap, cr_segments = length (cap_segments cap)\<rparr>
      | Err err \<Rightarrow> Err (cid, err))"

text \<open>Listing opens the registry alone.\<close>

definition list_command :: "process \<Rightarrow> printed disk_op" where
  "list_command P d =
     (case reg_open (dk_registry d) (pr_registry_io P) of
        Err _ \<Rightarrow> (Err Panic, d)
      | Ok rg \<Rightarrow>
          (let capsule_ids = list_capsules rg
           in if capsule_ids = [] then (Ok NoCapsules, d)
              else (Ok (CapsuleTable (map (capsule_row_of rg) capsule_ids)), d)))"

section \<open>Files\<close>

definition nfs_action :: "ext \<Rightarrow> process \<Rightarrow> nfs_command \<Rightarrow> printed nfs_op" where
  "nfs_action E P cmd =
     (case cmd of
        NfsMkdir path \<Rightarrow> bind_op (nfs_mkdir (pr_now P) path) (\<lambda>_. return_op (CreatedDirectory path))
      | NfsWrite path src \<Rightarrow>
          bind_op (lift_result (fs_read P src)) (\<lambda>data.
          bind_op (write_file E (pr_clock P) (pr_fresh P) (pr_now P) path data) (\<lambda>capsule.
            return_op (WroteFile path capsule src)))
      | NfsRead path \<Rightarrow> bind_op (read_file E path) (\<lambda>data. return_op (RawBytes data))
      | NfsList path \<Rightarrow> (\<lambda>v.
          bind_op (lift_result (list_directory path v)) (\<lambda>entries.
            return_op (if entries = [] then EmptyDirectory else EntryTable entries)) v)
      | NfsDelete path \<Rightarrow> bind_op (nfs_delete (pr_now P) path) (\<lambda>_. return_op (DeletedPath path))
      | NfsMetadata path \<Rightarrow> (\<lambda>v.
          bind_op (lift_result (nfs_metadata path v)) (\<lambda>entry. return_op (EntryDetails entry)) v))"

text \<open>\<open>NfsView::open\<close> builds the pipeline before it reads its own file.\<close>

definition run_nfs_command :: "ext \<Rightarrow> process \<Rightarrow> nfs_command \<Rightarrow> printed disk_op" where
  "run_nfs_command E P cmd =
     bind_op (open_store P) (\<lambda>(rg, lg) d.
       case nfs_open rg lg (pr_keys P) (pr_now P) (dk_namespace d) (pr_view_io P) of
         Err e \<Rightarrow> (Err e, left_behind (wp_store (wp_new rg lg (pr_keys P))) d)
       | Ok v \<Rightarrow>
           (case nfs_action E P cmd v of
              (r, v) \<Rightarrow> (r, (left_behind (wp_store (nfs_pipeline v)) d)
                 \<lparr>dk_namespace := (case nfs_namespace v of Some f \<Rightarrow> f | None \<Rightarrow> dk_namespace d)\<rparr>)))"

section \<open>Volumes\<close>

definition block_action :: "ext \<Rightarrow> process \<Rightarrow> block_command \<Rightarrow> printed bv_op" where
  "block_action E P cmd =
     (case cmd of
        BlockCreate name sz block_size \<Rightarrow>
          bind_op
            (case block_size of
               Some bs \<Rightarrow> create_volume_with_block_size E (pr_clock P) (pr_fresh P) (pr_now P) name sz bs
             | None \<Rightarrow> create_volume E (pr_clock P) (pr_fresh P) (pr_now P) name sz) (\<lambda>volume.
            return_op (CreatedVolume volume))
      | BlockDelete name \<Rightarrow> bind_op (delete_volume name) (\<lambda>_. return_op (DeletedVolume name))
      | BlockList \<Rightarrow> (\<lambda>v.
          (Ok (if list_volumes v = [] then NoVolumes else VolumeTable (list_volumes v)), v))
      | BlockInfo name \<Rightarrow> (\<lambda>v.
          bind_op (lift_result (bv_volume name v)) (\<lambda>volume. return_op (VolumeDetails volume)) v)
      | BlockRead name off len \<Rightarrow> bind_op (bv_read E name off len) (\<lambda>data. return_op (RawBytes data))
      | BlockWrite name off src \<Rightarrow>
          bind_op (lift_result (fs_read P src)) (\<lambda>data.
          bind_op (bv_write E (pr_clock P) (pr_fresh P) (pr_now P) name off data) (\<lambda>_.
            return_op (WroteBytes (length data) name src))))"

definition run_block_command :: "ext \<Rightarrow> process \<Rightarrow> block_command \<Rightarrow> printed disk_op" where
  "run_block_command E P cmd =
     bind_op (open_store P) (\<lambda>(rg, lg) d.
       case bv_open rg lg (pr_keys P) (dk_volumes d) (pr_view_io P) of
         Err e \<Rightarrow> (Err e, left_behind (wp_store (wp_new rg lg (pr_keys P))) d)
       | Ok v \<Rightarrow>
           (case block_action E P cmd v of
              (r, v) \<Rightarrow> (r, (left_behind (wp_store (bv_pipeline v)) d)
                 \<lparr>dk_volumes := (case bv_metadata v of Some f \<Rightarrow> f | None \<Rightarrow> dk_volumes d)\<rparr>)))"

section \<open>Dispatch\<close>

text \<open>The commands that end; \<open>ServeS3\<close> and \<open>Project\<close> follow.\<close>

datatype cli_command =
    Create string
  | Read string
  | List
  | Nfs nfs_command
  | Block block_command

definition run_command :: "ext \<Rightarrow> view_ext \<Rightarrow> process \<Rightarrow> cli_command \<Rightarrow> printed disk_op" where
  "run_command E V P cmd =
     (case cmd of
        Create path \<Rightarrow> create_command E P path
      | Read text \<Rightarrow> read_command E V P text
      | List \<Rightarrow> list_command P
      | Nfs nfs_cmd \<Rightarrow> run_nfs_command E P nfs_cmd
      | Block block_cmd \<Rightarrow> run_block_command E P block_cmd)"

section \<open>The S3 server\<close>

text \<open>\<open>ServeS3\<close>: the server started over the store, and the files once the process is ended.\<close>

definition start_server :: "(string \<Rightarrow> bool) \<Rightarrow> (string \<Rightarrow> string option) \<Rightarrow> process \<Rightarrow> s3_server disk_op" where
  "start_server loads env P =
     bind_op (open_store P) (\<lambda>(rg, lg). return_op (server_new loads env (s3_new rg lg (pr_keys P))))"

definition server_ended :: "s3_server \<Rightarrow> disk \<Rightarrow> disk" where
  "server_ended s d = left_behind (wp_store (s3_pipeline (sv_view s))) d"

section \<open>Projections\<close>

datatype phase4_view = Nvme | NfsExport | Fuse | Csi

record project_args =
  pa_view :: phase4_view
  pa_id :: string
  pa_policy_file :: string

text \<open>\<open>load_policy_file\<close>; \<open>yaml\<close> is the parser of policies.\<close>

definition load_policy_file :: "(bytes \<Rightarrow> policy option) \<Rightarrow> process \<Rightarrow> string \<Rightarrow> (policy, error) result" where
  "load_policy_file yaml P path = bind_result (fs_read P path) (\<lambda>text. ok_or (yaml text) ParseError)"

text \<open>The node of the process: zone \<open>local\<close>, loopback address, no peers. Only the calls to the cluster remain.\<close>

definition handle_project_command ::
  "float_ops \<Rightarrow> view_ext \<Rightarrow> (bytes \<Rightarrow> policy option) \<Rightarrow> node_id \<Rightarrow> process \<Rightarrow> disk \<Rightarrow> project_args \<Rightarrow> unit raft_op" where
  "handle_project_command F V yaml nid P d args =
     bind_op (lift_result (ok_or (vx_parse_uuid V (pa_id args)) ParseError)) (\<lambda>uuid.
     bind_op (lift_result (load_policy_file yaml P (pa_policy_file args))) (\<lambda>pol.
     bind_op (lift_result (case reg_open (dk_registry d) (pr_registry_io P) of Ok rg \<Rightarrow> Ok rg | Err _ \<Rightarrow> Err Panic)) (\<lambda>rg.
     let mesh = mesh_node_new nid (Metro ''local'') ''127.0.0.1:0''; cid = CapsuleId uuid
     in case pa_view args of
          Nvme \<Rightarrow> bind_op (project_nvme_view F V mesh rg pol cid) (\<lambda>_. return_op ())
        | NfsExport \<Rightarrow> bind_op (export_nfs_view F V mesh rg pol cid) (\<lambda>_. return_op ())
        | Fuse \<Rightarrow> bind_op (mount_fuse_view F V mesh rg pol cid ''/tmp/space'') (\<lambda>_. return_op ())
        | Csi \<Rightarrow> bind_op (csi_provision_capsule F V mesh rg pol (vx_uuid V (as_uuid cid))) (\<lambda>_. return_op ()))))"

end
