(* ===== verification/Spacectl_Correct.thy ===== *)
theory Spacectl_Correct
  imports Spacectl Nfs_Operations Block_Correct
begin

text \<open>
  What the processes of the command line keep and do: which capsules belong to files and to volumes, the
  state a user sees on the disk (capsules, files, volumes), and that every command changes it as its
  specification says.
\<close>

section \<open>The capsules a namespace refers to\<close>

definition node_caps :: "nodes \<Rightarrow> capsule_id set" where
  "node_caps nodes = {cid. \<exists>k node. hm_get nodes k = Some node \<and> capsule_of_node node = Some cid}"

lemma node_capsI: "hm_get nodes k = Some node \<Longrightarrow> capsule_of_node node = Some cid \<Longrightarrow> cid \<in> node_caps nodes"
  by (auto simp: node_caps_def)

lemma node_caps_insert: "node_caps (hm_insert k node nodes) \<subseteq> node_caps nodes \<union> set_option (capsule_of_node node)"
  by (auto simp: node_caps_def split: if_splits)

lemma node_caps_remove: "node_caps (hm_remove k nodes) \<subseteq> node_caps nodes"
  by (auto simp: node_caps_def split: if_splits)

lemma node_caps_touch: "node_caps (touch_node k t nodes) \<subseteq> node_caps nodes"
proof (cases "hm_get nodes k")
  case (Some node)
  then have "set_option (capsule_of_node (node\<lparr>nn_modified_at := t\<rparr>)) \<subseteq> node_caps nodes"
    by (auto simp: capsule_of_node_def dest: node_capsI split: nfs_node_kind.splits)
  then show ?thesis using node_caps_insert [of k "node\<lparr>nn_modified_at := t\<rparr>" nodes] Some by (auto simp: touch_node_def)
qed (simp add: touch_node_def)

lemma node_caps_directory: "node_caps (hm_insert k (directory_node path name t) nodes) \<subseteq> node_caps nodes"
  using node_caps_insert [of k "directory_node path name t" nodes] by (simp add: directory_node_def capsule_of_node_def)

lemma node_caps_root: "node_caps (ensure_root_node t nodes) \<subseteq> node_caps nodes"
  using node_caps_touch node_caps_directory by (auto simp: ensure_root_node_def)

lemma node_caps_ensure_loop: "ensure_loop t current parts nodes = (r, nodes') \<Longrightarrow> node_caps nodes' \<subseteq> node_caps nodes"
proof (induction parts arbitrary: current nodes)
  case (Cons part parts)
  let ?path = "''/'' @ join_slash (current @ [part])"
  show ?case
  proof (cases "hm_get nodes ?path")
    case None
    then have "ensure_loop t (current @ [part]) parts (hm_insert ?path (directory_node ?path part t) nodes) = (r, nodes')"
      using Cons.prems by (simp add: Let_def)
    then show ?thesis using Cons.IH node_caps_directory by blast
  next
    case (Some node)
    show ?thesis
    proof (cases "node_is_directory node")
      case True
      then have "ensure_loop t (current @ [part]) parts (touch_node ?path t nodes) = (r, nodes')"
        using Cons.prems Some by (simp add: Let_def)
      then show ?thesis using Cons.IH node_caps_touch by blast
    qed (use Cons.prems Some in \<open>simp add: Let_def\<close>)
  qed
qed simp

lemma node_caps_ensure: "ensure_directory info t nodes = (r, nodes') \<Longrightarrow> node_caps nodes' \<subseteq> node_caps nodes"
  using node_caps_ensure_loop node_caps_root unfolding ensure_directory_def by blast

lemma node_caps_file_insert:
  assumes "file_insert info parent cid sz t nodes = (r, nodes')"
  shows "node_caps nodes' \<subseteq> insert cid (node_caps nodes)" "r = Ok (Some old) \<Longrightarrow> old \<in> node_caps nodes"
    and "\<not> is_ok r \<Longrightarrow> node_caps nodes' \<subseteq> node_caps nodes"
proof -
  obtain q n1 where e: "ensure_directory parent t nodes = (q, n1)" by fastforce
  note C = node_caps_ensure [OF e]
  have "node_caps nodes' \<subseteq> insert cid (node_caps nodes) \<and> (\<forall>old. r = Ok (Some old) \<longrightarrow> old \<in> node_caps nodes) \<and>
    (\<not> is_ok r \<longrightarrow> node_caps nodes' \<subseteq> node_caps nodes)"
  proof (cases "is_ok q \<and> np_name info \<noteq> None")
    case True
    then obtain u name where u: "q = Ok u" "np_name info = Some name" by (cases q) auto
    let ?node = "file_node (np_full info) name cid sz t"
    have r: "r = Ok (Option.bind (hm_get n1 (np_full info)) capsule_of_node)"
      "nodes' = touch_node (np_full parent) t (hm_insert (np_full info) ?node n1)"
      using assms e u by (simp_all add: file_insert_def bind_op_def Let_def)
    have "capsule_of_node ?node = Some cid" by (simp add: file_node_def capsule_of_node_def)
    then have "node_caps nodes' \<subseteq> insert cid (node_caps nodes)"
      using node_caps_touch node_caps_insert [of "np_full info" ?node n1] C unfolding r(2) by fastforce
    moreover have "old \<in> node_caps nodes" if "r = Ok (Some old)" for old
      using that C node_capsI [of n1] unfolding r(1) by (auto simp: bind_eq_Some_conv)
    ultimately show ?thesis using r(1) by simp
  next
    case False
    then have "nodes' = n1 \<and> \<not> is_ok r"
      using assms e by (cases q; cases "np_name info") (auto simp: file_insert_def bind_op_def Let_def)
    then show ?thesis using C by (cases r) auto
  qed
  then show "node_caps nodes' \<subseteq> insert cid (node_caps nodes)" "r = Ok (Some old) \<Longrightarrow> old \<in> node_caps nodes"
    "\<not> is_ok r \<Longrightarrow> node_caps nodes' \<subseteq> node_caps nodes" by blast+
qed

lemma node_caps_node_remove:
  assumes "node_remove info t nodes = (r, nodes')"
  shows "node_caps nodes' \<subseteq> node_caps nodes" "r = Ok (Some old) \<Longrightarrow> old \<in> node_caps nodes" "\<not> is_ok r \<Longrightarrow> nodes' = nodes"
proof -
  have "node_caps nodes' \<subseteq> node_caps nodes \<and> (\<forall>old. r = Ok (Some old) \<longrightarrow> old \<in> node_caps nodes) \<and> (\<not> is_ok r \<longrightarrow> nodes' = nodes)"
  proof (cases "hm_get nodes (np_full info)")
    case None
    then show ?thesis using assms by (auto simp: node_remove_def bind_op_def lift_result_def ok_or_def)
  next
    case (Some node)
    show ?thesis
    proof (cases "node_is_directory node \<and> list_ex (\<lambda>k. starts_with k (np_full info @ ''/'')) (hm_keys nodes)")
      case True
      then show ?thesis using assms Some by (auto simp: node_remove_def bind_op_def lift_result_def ok_or_def)
    next
      case False
      let ?m = "hm_remove (np_full info) nodes"
      have r: "r = Ok (capsule_of_node node)"
        "nodes' = (case np_parent_path info of Some p \<Rightarrow> touch_node p t ?m | None \<Rightarrow> ?m)"
        using assms Some False by (auto simp: node_remove_def bind_op_def lift_result_def ok_or_def Let_def)
      have "node_caps nodes' \<subseteq> node_caps ?m" using node_caps_touch r(2) by (cases "np_parent_path info") auto
      then show ?thesis using node_caps_remove node_capsI [OF Some] r(1) by fastforce
    qed
  qed
  then show "node_caps nodes' \<subseteq> node_caps nodes" "r = Ok (Some old) \<Longrightarrow> old \<in> node_caps nodes"
    "\<not> is_ok r \<Longrightarrow> nodes' = nodes" by blast+
qed

lemma file_caps_node_caps: "file_caps (kind_of nodes) cs = Some cid \<Longrightarrow> cid \<in> node_caps nodes"
  by (auto simp: file_caps_def kind_of_def tree_of_def bind_eq_Some_conv capsule_of_node_kind [symmetric] dest: node_capsI
      split: if_splits)

section \<open>The parts of a process on files\<close>

text \<open>A running view whose saved namespace is \<open>f\<close>, with the data \<open>ct\<close> outside the capsules in \<open>own\<close>.\<close>

definition nfs_kept ::
  "ext \<Rightarrow> (key_manager, encryption_error) result \<Rightarrow> (capsule_id \<rightharpoonup> bytes) \<Rightarrow> nodes persisted \<Rightarrow> capsule_id set \<Rightarrow> nfs_view \<Rightarrow> bool" where
  "nfs_kept E env ct f own v \<longleftrightarrow> running E env (nfs_pipeline v) \<and> nfs_io v = [] \<and> nfs_namespace v = Some f \<and>
     (\<forall>k. k \<notin> own \<longrightarrow> nfs_data E v k = ct k)"

lemma nfs_kept_mono: "nfs_kept E env ct f own v \<Longrightarrow> own \<subseteq> own' \<Longrightarrow> nfs_kept E env ct f own' v"
  by (auto simp: nfs_kept_def)

lemma nfs_kept_put:
  assumes "nfs_kept E env ct f {} v" "service_ready E data (nfs_pipeline v)" "\<not> has_capsule (nfs_pipeline v) fresh"
    and "on_nfs_pipeline (write_capsule E clk fresh data) v = (r, v')"
  shows "nfs_kept E env ct f {fresh} v'" "nfs_nodes v' = nfs_nodes v" "r = Ok x \<Longrightarrow> x = fresh"
proof -
  obtain p where p: "write_capsule E clk fresh data (nfs_pipeline v) = (r, p)" "v' = v\<lparr>nfs_pipeline := p\<rparr>"
    using assms(4) by (rule on_nfs_pipelineD)
  have run: "running E env (nfs_pipeline v)" using assms(1) by (simp add: nfs_kept_def)
  note R = running_put [OF run assms(2,3) p(1)]
  show "nfs_kept E env ct f {fresh} v'" using R(1,2) assms(1) by (simp add: nfs_kept_def p(2))
  show "nfs_nodes v' = nfs_nodes v" by (simp add: p(2))
  show "x = fresh" if "r = Ok x" using R(3) that by blast
qed

lemma nfs_kept_drop:
  assumes "nfs_kept E env ct f own v" "\<And>c. old = Some c \<Longrightarrow> c \<in> own" "drop_capsule old v = (r, v')"
  shows "nfs_kept E env ct f own v'" "nfs_nodes v' = nfs_nodes v" "is_ok r"
proof -
  have "nfs_kept E env ct f own v' \<and> nfs_nodes v' = nfs_nodes v \<and> is_ok r"
  proof (cases old)
    case None
    then show ?thesis using assms by (auto simp: drop_capsule_def return_op_def)
  next
    case (Some c)
    obtain q p where p: "delete_capsule c (nfs_pipeline v) = (q, p)" by fastforce
    have v': "v' = v\<lparr>nfs_pipeline := p\<rparr>" "is_ok r"
      using assms(3) Some p by (auto simp: drop_capsule_def ignore_op_def on_nfs_pipeline_def zoom_def)
    have "running E env (nfs_pipeline v)" using assms(1) by (simp add: nfs_kept_def)
    note D = running_discard [OF this p]
    show ?thesis using D assms(1) assms(2) [OF Some] v' by (auto simp: nfs_kept_def)
  qed
  then show "nfs_kept E env ct f own v'" "nfs_nodes v' = nfs_nodes v" "is_ok r" by blast+
qed

lemma nfs_kept_persist:
  assumes "nfs_kept E env ct f own v" "nfs_persist v = (r, v')"
  shows "nfs_kept E env ct (Stored (nfs_nodes v)) own v'" "nfs_nodes v' = nfs_nodes v" "is_ok r"
  using assms by (auto simp: nfs_kept_def nfs_persist_def zoom_def save_json_def split: prod.splits)

text \<open>The end of a process: the namespace is saved if the command succeeded, and only then.\<close>

definition nfs_ended ::
  "ext \<Rightarrow> (key_manager, encryption_error) result \<Rightarrow> (capsule_id \<rightharpoonup> bytes) \<Rightarrow> nodes persisted \<Rightarrow> nodes \<Rightarrow> capsule_id set \<Rightarrow> bool \<Rightarrow> nfs_view \<Rightarrow> bool" where
  "nfs_ended E env ct f nodes new changed v \<longleftrightarrow>
     (if changed
      then nfs_kept E env ct (Stored (nfs_nodes v)) (new \<union> node_caps nodes) v \<and> node_caps (nfs_nodes v) \<subseteq> new \<union> node_caps nodes
      else nfs_kept E env ct f new v)"

lemma drop_persist_ended:
  assumes "nfs_kept E env ct f (new \<union> node_caps nodes) v" "\<And>c. old = Some c \<Longrightarrow> c \<in> node_caps nodes"
    and "node_caps (nfs_nodes v) \<subseteq> new \<union> node_caps nodes"
    and "bind_op (drop_capsule old) (\<lambda>_. bind_op nfs_persist (\<lambda>_. return_op x)) v = (r, v')"
  shows "nfs_ended E env ct f nodes new (is_ok r) v'"
proof -
  obtain q v1 where d: "drop_capsule old v = (q, v1)" by fastforce
  have D: "nfs_kept E env ct f (new \<union> node_caps nodes) v1" "nfs_nodes v1 = nfs_nodes v" "is_ok q"
    using nfs_kept_drop [OF assms(1) _ d] assms(2) by blast+
  obtain q2 v2 where p: "nfs_persist v1 = (q2, v2)" by fastforce
  note P = nfs_kept_persist [OF D(1) p]
  have "v' = v2" "is_ok r" using assms(4) d p D(3) P(3) by (cases q; cases q2; auto simp: op_simps)+
  then show ?thesis using P(1,2) D(2) assms(3) by (simp add: nfs_ended_def)
qed

lemma write_file_ended:
  assumes kept: "nfs_kept E env ct f {} v" and ready: "service_ready E data (nfs_pipeline v)" "\<not> has_capsule (nfs_pipeline v) fresh"
    and run: "write_file E clk fresh now path data v = (r, v')"
  shows "nfs_ended E env ct f (nfs_nodes v) {fresh} (is_ok r) v'"
proof (cases "np_is_root (normalize_path path) \<or> np_parent_path (normalize_path path) = None \<or>
    (case hm_get (nfs_nodes v) (np_full (normalize_path path)) of Some node \<Rightarrow> node_is_directory node | None \<Rightarrow> False)")
  case True
  then have "\<not> is_ok r \<and> v' = v"
    using run by (cases "np_is_root (normalize_path path)"; cases "np_parent_path (normalize_path path)")
      (auto simp: write_file_def Let_def bind_op_def lift_result_def ok_or_def)
  then show ?thesis using nfs_kept_mono [OF kept] by (simp add: nfs_ended_def)
next
  case False
  then obtain parent where par: "np_parent_path (normalize_path path) = Some parent" by auto
  obtain q v1 where put: "on_nfs_pipeline (write_capsule E clk fresh data) v = (q, v1)" by fastforce
  note P = nfs_kept_put [OF kept ready put]
  define ins where "ins = on_nodes (file_insert (normalize_path path) (normalize_path parent) fresh (of_nat (length data)) (unix_timestamp now))"
  have run': "bind_op (on_nfs_pipeline (write_capsule E clk fresh data)) (\<lambda>capsule_id.
      bind_op (on_nodes (file_insert (normalize_path path) (normalize_path parent) capsule_id (of_nat (length data)) (unix_timestamp now))) (\<lambda>old.
      bind_op (drop_capsule old) (\<lambda>_. bind_op nfs_persist (\<lambda>_. return_op capsule_id)))) v = (r, v')"
    using run False par by (simp add: write_file_def Let_def bind_op_def [of "lift_result _"] lift_result_def ok_or_def)
  show ?thesis
  proof (cases q)
    case (Err e)
    then have "\<not> is_ok r" "v' = v1" using run' put by (auto simp: bind_op_def)
    then show ?thesis using P(1) by (simp add: nfs_ended_def)
  next
    case (Ok y)
    then have y: "y = fresh" by (rule P(3))
    obtain q2 n where i: "file_insert (normalize_path path) (normalize_path parent) fresh (of_nat (length data)) (unix_timestamp now) (nfs_nodes v1) = (q2, n)"
      by fastforce
    then have ins: "ins v1 = (q2, v1\<lparr>nfs_nodes := n\<rparr>)" by (simp add: ins_def on_nodes_def zoom_def)
    note C = node_caps_file_insert [OF i, unfolded P(2)]
    have k2: "nfs_kept E env ct f {fresh} (v1\<lparr>nfs_nodes := n\<rparr>)" using P(1) by (simp add: nfs_kept_def)
    show ?thesis
    proof (cases q2)
      case (Err e)
      then have "\<not> is_ok r" "v' = v1\<lparr>nfs_nodes := n\<rparr>"
        using run' put Ok y ins [unfolded ins_def] by (auto simp: bind_op_def)
      then show ?thesis using k2 by (simp add: nfs_ended_def)
    next
      case (Ok old)
      have "bind_op (drop_capsule old) (\<lambda>_. bind_op nfs_persist (\<lambda>_. return_op fresh)) (v1\<lparr>nfs_nodes := n\<rparr>) = (r, v')"
        using run' put \<open>q = Ok y\<close> y ins [unfolded ins_def] Ok by (simp add: bind_op_def)
      then show ?thesis
        by (rule drop_persist_ended [rotated -1]) (use nfs_kept_mono [OF k2] C Ok in auto)
    qed
  qed
qed

lemma mkdir_ended:
  assumes "nfs_kept E env ct f {} v" "nfs_mkdir now path v = (r, v')"
  shows "nfs_ended E env ct f (nfs_nodes v) new (is_ok r) v'"
proof -
  obtain q n where e: "ensure_directory (normalize_path path) (unix_timestamp now) (nfs_nodes v) = (q, n)" by fastforce
  let ?v1 = "v\<lparr>nfs_nodes := n\<rparr>"
  have k: "nfs_kept E env ct f own ?v1" for own using assms(1) by (simp add: nfs_kept_def)
  obtain q2 v2 where p: "nfs_persist ?v1 = (q2, v2)" by fastforce
  note P = nfs_kept_persist [OF k p]
  have "if is_ok q then v' = v2 \<and> is_ok r else v' = ?v1 \<and> \<not> is_ok r"
    using assms(2) e p P(3) by (cases q) (auto simp: nfs_mkdir_def on_nodes_def zoom_def bind_op_def)
  then show ?thesis using k P(1,2) node_caps_ensure [OF e] by (auto simp: nfs_ended_def split: if_splits)
qed

lemma delete_ended:
  assumes "nfs_kept E env ct f {} v" "nfs_delete now path v = (r, v')"
  shows "nfs_ended E env ct f (nfs_nodes v) new (is_ok r) v' \<and> (is_ok r \<or> v' = v)"
proof (cases "np_is_root (normalize_path path)")
  case True
  then have "\<not> is_ok r \<and> v' = v" using assms(2) by (auto simp: nfs_delete_def fail_op_def Let_def)
  then show ?thesis using nfs_kept_mono [OF assms(1)] by (simp add: nfs_ended_def)
next
  case False
  obtain q n where e: "node_remove (normalize_path path) (unix_timestamp now) (nfs_nodes v) = (q, n)" by fastforce
  let ?v1 = "v\<lparr>nfs_nodes := n\<rparr>"
  have k: "nfs_kept E env ct f own ?v1" for own using assms(1) by (simp add: nfs_kept_def)
  note C = node_caps_node_remove [OF e]
  show ?thesis
  proof (cases q)
    case (Err err)
    then have "\<not> is_ok r" "v' = ?v1"
      using assms(2) False e by (auto simp: nfs_delete_def on_nodes_def zoom_def bind_op_def Let_def)
    then show ?thesis using k C(3) Err by (simp add: nfs_ended_def)
  next
    case (Ok old)
    have run: "bind_op (drop_capsule old) (\<lambda>_. nfs_persist) ?v1 = (r, v')"
      using assms(2) False e Ok by (simp add: nfs_delete_def on_nodes_def zoom_def bind_op_def Let_def)
    then have "bind_op (drop_capsule old) (\<lambda>_. bind_op nfs_persist (\<lambda>_. return_op ())) ?v1 = (r, v')"
      by (auto simp: bind_op_def return_op_def split: op_splits)
    note D = drop_persist_ended [OF k _ _ this]
    have "nfs_ended E env ct f (nfs_nodes v) new (is_ok r) v'" by (rule D) (use C Ok in auto)
    moreover have "is_ok r"
    proof -
      obtain q2 v2 where d: "drop_capsule old ?v1 = (q2, v2)" by fastforce
      have k2: "nfs_kept E env ct f (node_caps (nfs_nodes v)) v2" "is_ok q2"
        using nfs_kept_drop [OF k _ d] C(2) Ok by blast+
      obtain q3 v3 where p: "nfs_persist v2 = (q3, v3)" by fastforce
      show ?thesis using run d k2(2) p nfs_kept_persist(3) [OF k2(1) p] by (cases q2) (auto simp: bind_op_def)
    qed
    ultimately show ?thesis by blast
  qed
qed

lemma nfs_kept_read:
  assumes "nfs_kept E env ct f {} v" "read_file E path v = (r, v')"
  shows "nfs_kept E env ct f own v'" "nfs_nodes v' = nfs_nodes v"
proof -
  have "nfs_kept E env ct f {} v' \<and> nfs_nodes v' = nfs_nodes v"
  proof (cases "\<exists>node cid sz. find_node path v = Ok node \<and> nn_kind node = File cid sz")
    case True
    then obtain node cid sz where n: "find_node path v = Ok node" "nn_kind node = File cid sz" by blast
    have "on_nfs_pipeline (read_capsule E cid) v = (r, v')" using assms(2) n by (simp add: read_file_def op_simps)
    then obtain p where p: "read_capsule E cid (nfs_pipeline v) = (r, p)" "v' = v\<lparr>nfs_pipeline := p\<rparr>" by (rule on_nfs_pipelineD)
    have "running E env (nfs_pipeline v)" using assms(1) by (simp add: nfs_kept_def)
    then show ?thesis using running_get(1,2) [OF _ p(1)] assms(1) by (simp add: nfs_kept_def p(2))
  next
    case False
    then have "v' = v"
      using assms(2) by (auto simp: read_file_def op_simps split: result.splits nfs_node_kind.splits)
    then show ?thesis using assms(1) by simp
  qed
  then show "nfs_kept E env ct f own v'" "nfs_nodes v' = nfs_nodes v" using nfs_kept_mono by blast+
qed

section \<open>What a command on files means\<close>

fun nfs_saves :: "nfs_command \<Rightarrow> bool" where
  "nfs_saves (NfsMkdir path) = True"
| "nfs_saves (NfsWrite path src) = True"
| "nfs_saves (NfsDelete path) = True"
| "nfs_saves _ = False"

fun nfs_path :: "nfs_command \<Rightarrow> string" where
  "nfs_path (NfsMkdir path) = path"
| "nfs_path (NfsWrite path src) = path"
| "nfs_path (NfsRead path) = path"
| "nfs_path (NfsList path) = path"
| "nfs_path (NfsDelete path) = path"
| "nfs_path (NfsMetadata path) = path"

text \<open>The tree after a command that succeeded.\<close>

fun files_after :: "process \<Rightarrow> nfs_command \<Rightarrow> (string list \<rightharpoonup> fs_object) \<Rightarrow> string list \<rightharpoonup> fs_object" where
  "files_after P (NfsMkdir path) F = add_dirs Dir (comps path) F"
| "files_after P (NfsWrite path src) F = (case pr_files P src of Some data \<Rightarrow> fs_write_file (comps path) data F | None \<Rightarrow> F)"
| "files_after P (NfsDelete path) F = F(comps path := None)"
| "files_after P _ F = F"

text \<open>What the result of a command says of the tree it was run on.\<close>

definition listing_of :: "(string list \<rightharpoonup> fs_object) \<Rightarrow> string list \<Rightarrow> nfs_entry list \<Rightarrow> bool" where
  "listing_of F cs es \<longleftrightarrow> sorted (map ne_path es) \<and> distinct (map ne_name es) \<and>
     (\<forall>name. name \<in> set (map ne_name es) \<longleftrightarrow> F (cs @ [name]) \<noteq> None) \<and>
     (\<forall>e\<in>set es. F (cs @ [ne_name e]) = Some Dir \<and> ne_kind e = DirectoryEntry \<or>
        (\<exists>d. F (cs @ [ne_name e]) = Some (Data d) \<and> ne_kind e = FileEntry \<and> ne_size e = of_nat (length d)))"

fun nfs_truthful :: "nfs_command \<Rightarrow> (string list \<rightharpoonup> fs_object) \<Rightarrow> (printed, error) result \<Rightarrow> bool" where
  "nfs_truthful (NfsRead path) F r = (case F (comps path) of Some (Data d) \<Rightarrow> r = Ok (RawBytes d) | _ \<Rightarrow> \<not> is_ok r)"
| "nfs_truthful (NfsList path) F r =
     (if F (comps path) = Some Dir
      then \<exists>es. listing_of F (comps path) es \<and> r = Ok (if es = [] then EmptyDirectory else EntryTable es)
      else \<not> is_ok r)"
| "nfs_truthful (NfsMetadata path) F r = (is_ok r = (F (comps path) \<noteq> None))"
| "nfs_truthful (NfsDelete path) F r = (is_ok r = (comps path \<noteq> [] \<and> F (comps path) \<noteq> None \<and> (\<forall>es. es \<noteq> [] \<longrightarrow> F (comps path @ es) = None)))"
| "nfs_truthful (NfsWrite path src) F r = (is_ok r \<longrightarrow> comps path \<noteq> [] \<and> F (comps path) \<noteq> Some Dir)"
| "nfs_truthful (NfsMkdir path) F r = True"

text \<open>The bytes a command puts into a new capsule, if it comes to that.\<close>

fun nfs_puts :: "process \<Rightarrow> nfs_command \<Rightarrow> bytes option" where
  "nfs_puts P (NfsWrite path src) = pr_files P src"
| "nfs_puts P _ = None"

definition nfs_fresh :: "process \<Rightarrow> nfs_command \<Rightarrow> capsule_id set" where
  "nfs_fresh P cmd = (if nfs_puts P cmd = None then {} else {pr_fresh P})"

lemma nfs_unchanged: "nfs_kept E env ct f {} v \<Longrightarrow> nfs_ended E env ct f nodes new False v"
  by (auto simp: nfs_ended_def nfs_kept_def)

lemma nfs_action_effect:
  assumes good: "nfs_good E v" and kept: "nfs_kept E env ct f {} v" and path: "no_backslash (nfs_path cmd)"
    and ready: "\<And>data. nfs_puts P cmd = Some data \<Longrightarrow> service_ready E data (nfs_pipeline v) \<and> \<not> has_capsule (nfs_pipeline v) (pr_fresh P)"
    and run: "nfs_action E P cmd v = (r, v')"
  shows "nfs_ended E env ct f (nfs_nodes v) (nfs_fresh P cmd) (nfs_saves cmd \<and> is_ok r) v' \<and>
    (nfs_saves cmd \<and> is_ok r \<longrightarrow> nfs_good E v' \<and> fs_of E v' = files_after P cmd (fs_of E v)) \<and>
    nfs_truthful cmd (fs_of E v) r"
proof (cases cmd)
  case (NfsMkdir path)
  obtain q where q: "nfs_mkdir (pr_now P) path v = (q, v')" "is_ok r = is_ok q"
    using run NfsMkdir by (auto simp: nfs_action_def bind_op_def return_op_def split: op_splits)
  then show ?thesis
    using mkdir_ended [OF kept q(1)] mkdir_effect [OF good _ q(1)] path NfsMkdir by (auto simp: nfs_fresh_def)
next
  case (NfsWrite path src)
  show ?thesis
  proof (cases "pr_files P src")
    case None
    then have "v' = v \<and> \<not> is_ok r" using run NfsWrite by (auto simp: nfs_action_def op_simps fs_read_def ok_or_def)
    then show ?thesis using nfs_unchanged [OF kept] NfsWrite by simp
  next
    case (Some data)
    obtain q where q: "write_file E (pr_clock P) (pr_fresh P) (pr_now P) path data v = (q, v')" "is_ok r = is_ok q"
      using run NfsWrite Some
      by (auto simp: nfs_action_def bind_op_def return_op_def lift_result_def fs_read_def ok_or_def split: op_splits)
    have rd: "service_ready E data (nfs_pipeline v)" "\<not> has_capsule (nfs_pipeline v) (pr_fresh P)"
      using ready [of data] NfsWrite Some by simp_all
    have pth: "no_backslash path" using path NfsWrite by simp
    note W = write_file_effect [OF good normalize_path_eq [OF pth] normalize_canonical(1) [OF pth] rd(1) q(1)]
    then show ?thesis
      using write_file_ended [OF kept rd q(1)] q(2) NfsWrite Some by (cases q) (auto simp: nfs_fresh_def)
  qed
next
  case (NfsRead path)
  obtain q where q: "read_file E path v = (q, v')" "r = (case q of Ok d \<Rightarrow> Ok (RawBytes d) | Err e \<Rightarrow> Err e)"
    using run NfsRead by (auto simp: nfs_action_def bind_op_def return_op_def split: op_splits)
  have "no_backslash path" using path NfsRead by simp
  from read_file_effect(3) [OF good this q(1)] show ?thesis
    using nfs_kept_read [OF kept q(1)] NfsRead q(2)
    by (auto simp: nfs_ended_def split: option.splits fs_object.splits result.splits)
next
  case (NfsList path)
  have p: "no_backslash path" using path NfsList by simp
  have "v' = v" "r = (case list_directory path v of Ok es \<Rightarrow> Ok (if es = [] then EmptyDirectory else EntryTable es) | Err e \<Rightarrow> Err e)"
    using run NfsList by (auto simp: nfs_action_def op_simps split: result.splits)
  then show ?thesis
    using nfs_unchanged [OF kept] list_directory_effect [OF good p] NfsList
    by (cases "list_directory path v") (auto simp: listing_of_def)
next
  case (NfsDelete path)
  obtain q where q: "nfs_delete (pr_now P) path v = (q, v')" "is_ok r = is_ok q"
    using run NfsDelete by (auto simp: nfs_action_def bind_op_def return_op_def split: op_splits)
  have p: "no_backslash path" using path NfsDelete by simp
  note D = nfs_delete_effect [OF good p q(1)] delete_ended [OF kept q(1), of "{}"]
  have "fs_of E v (comps path) \<noteq> None \<Longrightarrow> (fs_of E v)(comps path := None) \<noteq> fs_of E v"
    by (metis fun_upd_same)
  then show ?thesis using D q(2) NfsDelete by (cases "is_ok q") (auto simp: nfs_fresh_def)
next
  case (NfsMetadata path)
  have p: "no_backslash path" using path NfsMetadata by simp
  have "files_ok (nfs_data E v) (kind_of (nfs_nodes v))" using good by (simp add: nfs_good_def)
  then have "fs_of E v (comps path) = None \<longleftrightarrow> hm_get (nfs_nodes v) (np_full (normalize_path path)) = None"
    using fs_view_None hm_get_kind [OF normalize_canonical(1) [OF p], of "nfs_nodes v"] normalize_canonical(2) [OF p]
    by (metis fs_of_def option.map_disc_iff)
  moreover have "v' = v" "is_ok r = (hm_get (nfs_nodes v) (np_full (normalize_path path)) \<noteq> None)"
    using run NfsMetadata by (auto simp: nfs_action_def op_simps nfs_metadata_def ok_or_def split: option.splits)
  ultimately show ?thesis using nfs_unchanged [OF kept] NfsMetadata by simp
qed

end
