(* ===== verification/Spacectl_Volumes.thy ===== *)
theory Spacectl_Volumes
  imports Spacectl Block_Correct
begin

text \<open>
  The commands on block volumes, each run by a process of its own: what a command does to the volumes,
  when the file of volumes is saved, and which capsules it leaves alone.
\<close>

section \<open>Tables of volumes\<close>

lemma vols_ok_bind:
  assumes ok: "vols_ok ct m" and new: "c \<notin> ran (vol_caps m)" "ct c = Some d" and vol: "vol_capsule_id vol = c" "length d = unat (vol_size vol)"
  shows "vols_ok ct (hm_insert n vol m)"
    and "named_data ct (vol_caps (hm_insert n vol m)) = (named_data ct (vol_caps m))(n \<mapsto> d)"
    and "vol_caps m n = Some old \<Longrightarrow> old \<notin> ran (vol_caps (hm_insert n vol m))"
proof -
  have live: "names_live ct (vol_caps m)" using ok by (simp add: vols_ok_def)
  have "names_live ct (vol_caps (hm_insert n vol m))"
    using names_live_extend [OF live, of c] new vol(1) by (auto simp: ran_def)
  moreover have "vol_sized ct vol" using new(2) vol by (simp add: vol_sized_def)
  ultimately show "vols_ok ct (hm_insert n vol m)" using ok by (simp add: vols_ok_def)
  show "named_data ct (vol_caps (hm_insert n vol m)) = (named_data ct (vol_caps m))(n \<mapsto> d)"
    using new(2) vol(1) by simp
  show "old \<notin> ran (vol_caps (hm_insert n vol m))" if "vol_caps m n = Some old"
    using that live new(1) vol(1) by (auto simp: ran_def names_live_def)
qed

lemma vols_ok_unbind:
  assumes "vols_ok ct m"
  shows "vols_ok ct (hm_remove n m)" "named_data ct (vol_caps (hm_remove n m)) = (named_data ct (vol_caps m))(n := None)"
    and "vol_caps m n = Some old \<Longrightarrow> old \<notin> ran (vol_caps (hm_remove n m))"
proof -
  have live: "names_live ct (vol_caps m)" using assms by (simp add: vols_ok_def)
  have "names_live ct (vol_caps (hm_remove n m))" using names_live_restrict [OF live] by simp
  then show "vols_ok ct (hm_remove n m)" using assms by (simp add: vols_ok_def)
  show "named_data ct (vol_caps (hm_remove n m)) = (named_data ct (vol_caps m))(n := None)" by simp
  show "old \<notin> ran (vol_caps (hm_remove n m))" if "vol_caps m n = Some old"
    using that live by (auto simp: ran_def names_live_def)
qed

section \<open>The parts of a process on volumes\<close>

definition bv_kept ::
  "ext \<Rightarrow> (key_manager, encryption_error) result \<Rightarrow> (capsule_id \<rightharpoonup> bytes) \<Rightarrow> (string, block_volume) hmap persisted \<Rightarrow>
   capsule_id set \<Rightarrow> block_view \<Rightarrow> bool" where
  "bv_kept E env ct f own v \<longleftrightarrow> running E env (bv_pipeline v) \<and> bv_io v = [] \<and> bv_metadata v = Some f \<and>
     (\<forall>k. k \<notin> own \<longrightarrow> bv_data E v k = ct k)"

lemma bv_kept_mono: "bv_kept E env ct f own v \<Longrightarrow> own \<subseteq> own' \<Longrightarrow> bv_kept E env ct f own' v"
  by (auto simp: bv_kept_def)

lemma bv_kept_put:
  assumes "bv_kept E env ct f {} v" "service_ready E data (bv_pipeline v)" "\<not> has_capsule (bv_pipeline v) fresh"
    and "on_bv_pipeline (write_capsule E clk fresh data) v = (r, v')"
  shows "bv_kept E env ct f {fresh} v'" "bv_volumes v' = bv_volumes v" "r = Ok x \<Longrightarrow> x = fresh \<and> bv_data E v' fresh = Some data"
proof -
  obtain p where p: "write_capsule E clk fresh data (bv_pipeline v) = (r, p)" "v' = v\<lparr>bv_pipeline := p\<rparr>"
    using assms(4) by (rule on_bv_pipelineD)
  have run: "running E env (bv_pipeline v)" using assms(1) by (simp add: bv_kept_def)
  note R = running_put [OF run assms(2,3) p(1)]
  show "bv_kept E env ct f {fresh} v'" using R(1,2) assms(1) by (simp add: bv_kept_def p(2))
  show "bv_volumes v' = bv_volumes v" by (simp add: p(2))
  show "x = fresh \<and> bv_data E v' fresh = Some data" if "r = Ok x" using R(3) that by (simp add: p(2))
qed

lemma bv_kept_discard:
  assumes "bv_kept E env ct f own v" "on_bv_pipeline (delete_capsule c) v = (r, v')"
  shows "bv_kept E env ct f (insert c own) v'" "bv_volumes v' = bv_volumes v" "bv_data E v' = (bv_data E v)(c := None)"
proof -
  obtain p where p: "delete_capsule c (bv_pipeline v) = (r, p)" "v' = v\<lparr>bv_pipeline := p\<rparr>"
    using assms(2) by (rule on_bv_pipelineD)
  have run: "running E env (bv_pipeline v)" using assms(1) by (simp add: bv_kept_def)
  note D = running_discard [OF run p(1)]
  show "bv_kept E env ct f (insert c own) v'" using D assms(1) by (simp add: bv_kept_def p(2))
  show "bv_volumes v' = bv_volumes v" by (simp add: p(2))
  show "bv_data E v' = (bv_data E v)(c := None)" using D(2) by (simp add: p(2))
qed

lemma bv_kept_persist:
  assumes "bv_kept E env ct f own v" "bv_persist v = (r, v')"
  shows "bv_kept E env ct (Stored (bv_volumes v)) own v'" "bv_volumes v' = bv_volumes v" "is_ok r" "bv_pipeline v' = bv_pipeline v"
  using assms by (auto simp: bv_kept_def bv_persist_def zoom_def save_json_def split: prod.splits)

text \<open>A command either ends with a saved table of volumes \<open>W\<close> that are in order, or leaves the table as it was.\<close>

definition bv_saved ::
  "ext \<Rightarrow> (key_manager, encryption_error) result \<Rightarrow> (capsule_id \<rightharpoonup> bytes) \<Rightarrow> (string, block_volume) hmap \<Rightarrow> capsule_id set \<Rightarrow>
   (string \<rightharpoonup> bytes) \<Rightarrow> block_view \<Rightarrow> bool" where
  "bv_saved E env ct vols new W v \<longleftrightarrow>
     bv_kept E env ct (Stored (bv_volumes v)) (new \<union> ran (vol_caps vols)) v \<and>
     ran (vol_caps (bv_volumes v)) \<subseteq> new \<union> ran (vol_caps vols) \<and>
     vols_ok (bv_data E v) (bv_volumes v) \<and> volumes_of E v = W"

text \<open>Saving, and discarding a capsule no volume refers to any more.\<close>

lemma persist_discard_saved:
  assumes kept: "bv_kept E env ct f own v" and own: "own \<subseteq> new \<union> ran (vol_caps vols)"
    and vols: "vols_ok (bv_data E v) (bv_volumes v)" "ran (vol_caps (bv_volumes v)) \<subseteq> new \<union> ran (vol_caps vols)"
    and old: "old \<in> ran (vol_caps vols)" "old \<notin> ran (vol_caps (bv_volumes v))"
    and run: "bind_op bv_persist (\<lambda>_. ignore_op (on_bv_pipeline (delete_capsule old))) v = (r, v')"
  shows "bv_saved E env ct vols new (volumes_of E v) v'" "is_ok r"
proof -
  obtain q v1 where p: "bv_persist v = (q, v1)" by fastforce
  note P = bv_kept_persist [OF kept p]
  obtain q2 v2 where d: "on_bv_pipeline (delete_capsule old) v1 = (q2, v2)" by fastforce
  have v': "v' = v2" "is_ok r" using run p d P(3) by (cases q; auto simp: op_simps)+
  note D = bv_kept_discard [OF P(1) d]
  have data: "bv_data E v2 = (bv_data E v)(old := None)" using D(3) P(4) by simp
  note C = vols_ok_cong [OF vols(1), of "bv_data E v2"]
  have same: "bv_data E v2 c = bv_data E v c" if "c \<in> ran (vol_caps (bv_volumes v))" for c
    using data old(2) that by auto
  show "bv_saved E env ct vols new (volumes_of E v) v'"
    using bv_kept_mono [OF D(1)] own old(1) vols(2) C same D(2) P(2)
    by (auto simp: bv_saved_def v' volumes_of_def)
  show "is_ok r" by (rule v'(2))
qed

lemma create_saved:
  assumes kept: "bv_kept E env ct f {} v" and vols: "vols_ok (bv_data E v) (bv_volumes v)"
    and ready: "service_ready E (replicate (unat sz) 0) (bv_pipeline v)" "\<not> has_capsule (bv_pipeline v) fresh"
    and run: "create_volume_with_block_size E clk fresh now name sz bs v = (r, v')"
  shows "if is_ok r then volumes_of E v name = None \<and> bv_saved E env ct (bv_volumes v) {fresh} ((volumes_of E v)(name \<mapsto> replicate (unat sz) 0)) v'
    else bv_kept E env ct f {fresh} v'"
proof (cases "create_checks name sz bs v")
  case (Err e)
  then have "v' = v" "\<not> is_ok r" using run by (auto simp: create_volume_with_block_size_def op_simps)
  then show ?thesis using bv_kept_mono [OF kept] by simp
next
  case (Ok u)
  then have new: "hm_get (bv_volumes v) name = None"
    by (auto simp: create_checks_def bind_result_Ok_iff split: if_splits)
  obtain q v1 where put: "on_bv_pipeline (write_capsule E clk fresh (replicate (unat sz) 0)) v = (q, v1)" by fastforce
  note P = bv_kept_put [OF kept ready put]
  show ?thesis
  proof (cases q)
    case (Err e)
    then have "v' = v1" "\<not> is_ok r" using run Ok put by (auto simp: create_volume_with_block_size_def op_simps)
    then show ?thesis using P(1) by simp
  next
    case q: (Ok x)
    then have x: "x = fresh" "bv_data E v1 fresh = Some (replicate (unat sz) 0)" using P(3) by auto
    let ?vol = "\<lparr>vol_name = name, vol_size = sz, vol_block_size = bs, vol_capsule_id = fresh,
                    vol_created_at = unix_timestamp now, vol_updated_at = unix_timestamp now, vol_version = 1\<rparr>"
    let ?v2 = "v1\<lparr>bv_volumes := hm_insert name ?vol (bv_volumes v1)\<rparr>"
    have fin: "bind_op bv_persist (\<lambda>_. return_op ?vol) ?v2 = (r, v')"
      using run Ok put q x(1) new P(2) by (simp add: create_volume_with_block_size_def bind_op_def lift_result_def create_insert_def Let_def)
    obtain q3 v3 where p: "bv_persist ?v2 = (q3, v3)" by fastforce
    have "bv_kept E env ct f {fresh} ?v2" using P(1) by (simp add: bv_kept_def)
    note S = bv_kept_persist [OF this p]
    have v': "v' = v3" "is_ok r" using fin p S(3) by (cases q3; auto simp: op_simps)+
    have free: "fresh \<notin> ran (vol_caps (bv_volumes v))"
      using vols ready(2) wp_data_has [of E "bv_pipeline v" fresh] by (auto simp: vols_ok_def names_live_def ran_def)
    have same: "bv_data E v1 c = bv_data E v c" if "c \<in> ran (vol_caps (bv_volumes v))" for c
      using P(1) kept that free by (auto simp: bv_kept_def)
    have C: "vols_ok (bv_data E v1) (bv_volumes v)"
      "named_data (bv_data E v1) (vol_caps (bv_volumes v)) = named_data (bv_data E v) (vol_caps (bv_volumes v))"
      using vols_ok_cong [OF vols, of "bv_data E v1"] same by blast+
    have b: "vol_capsule_id ?vol = fresh" "length (replicate (unat sz) (0 :: u8)) = unat (vol_size ?vol)" by simp_all
    note B = vols_ok_bind [OF C(1) free x(2) b, of name]
    have "ran (vol_caps (hm_insert name ?vol (bv_volumes v))) \<subseteq> {fresh} \<union> ran (vol_caps (bv_volumes v))"
      by (auto simp: ran_def)
    then have "bv_saved E env ct (bv_volumes v) {fresh} ((volumes_of E v)(name \<mapsto> replicate (unat sz) 0)) v3"
      using bv_kept_mono [OF S(1), of "{fresh} \<union> ran (vol_caps (bv_volumes v))"] B C(2) P(2) S(2,4)
      by (simp add: bv_saved_def volumes_of_def)
    moreover have "volumes_of E v name = None" using new by (simp add: volumes_of_def named_data_def vol_caps_def)
    ultimately show ?thesis using v' by simp
  qed
qed

lemma delete_saved:
  assumes kept: "bv_kept E env ct f {} v" and vols: "vols_ok (bv_data E v) (bv_volumes v)" and run: "delete_volume name v = (r, v')"
  shows "if is_ok r then volumes_of E v name \<noteq> None \<and> bv_saved E env ct (bv_volumes v) new ((volumes_of E v)(name := None)) v'
    else volumes_of E v name = None \<and> v' = v"
proof (cases "hm_get (bv_volumes v) name")
  case None
  then have "v' = v" "\<not> is_ok r" "volumes_of E v name = None"
    using run by (auto simp: delete_volume_def volume_remove_def bv_volume_def ok_or_def op_simps volumes_of_def named_data_def vol_caps_def)
  then show ?thesis by simp
next
  case (Some vol)
  let ?v1 = "v\<lparr>bv_volumes := hm_remove name (bv_volumes v)\<rparr>"
  note U = vols_ok_unbind [OF vols, of name]
  have caps: "vol_caps (bv_volumes v) name = Some (vol_capsule_id vol)" using Some by (simp add: vol_caps_def)
  have fin: "bind_op bv_persist (\<lambda>_. ignore_op (on_bv_pipeline (delete_capsule (vol_capsule_id vol)))) ?v1 = (r, v')"
    using run Some by (simp add: delete_volume_def volume_remove_def bv_volume_def ok_or_def bind_op_def lift_result_def)
  have k: "bv_kept E env ct f {} ?v1" using kept by (simp add: bv_kept_def)
  have r1: "ran (vol_caps (bv_volumes ?v1)) \<subseteq> new \<union> ran (vol_caps (bv_volumes v))" by (auto simp: ran_def)
  have "bv_saved E env ct (bv_volumes v) new (volumes_of E ?v1) v'" "is_ok r"
    using persist_discard_saved [OF k _ _ r1 _ _ fin] U(1) U(3) [OF caps] ranI [of "vol_caps (bv_volumes v)", OF caps] by simp_all
  moreover have "volumes_of E ?v1 = (volumes_of E v)(name := None)" by (simp add: volumes_of_def)
  moreover have "volumes_of E v name \<noteq> None"
    using vols caps by (auto simp: vols_ok_def names_live_def volumes_of_def named_data_def)
  ultimately show ?thesis by simp
qed

lemma bv_kept_read:
  assumes "bv_kept E env ct f {} v" "on_bv_pipeline (read_capsule E c) v = (r, v')"
  shows "bv_kept E env ct f {} v'" "bv_volumes v' = bv_volumes v" "bv_data E v' = bv_data E v"
    and "case bv_data E v c of Some d \<Rightarrow> r = Ok d | None \<Rightarrow> \<not> is_ok r"
    and "service_ready E d (bv_pipeline v') = service_ready E d (bv_pipeline v)" "has_capsule (bv_pipeline v') k = has_capsule (bv_pipeline v) k"
proof -
  obtain p where p: "read_capsule E c (bv_pipeline v) = (r, p)" "v' = v\<lparr>bv_pipeline := p\<rparr>"
    using assms(2) by (rule on_bv_pipelineD)
  have run: "running E env (bv_pipeline v)" "service_inv E (bv_pipeline v)" "wp_km_ok E (bv_pipeline v)"
    using assms(1) by (auto simp: bv_kept_def running_def service_inv_def wp_inv_def)
  note G = running_get [OF run(1) p(1)]
  show "bv_kept E env ct f {} v'" "bv_volumes v' = bv_volumes v" "bv_data E v' = bv_data E v"
    using G(1,2) assms(1) by (simp_all add: bv_kept_def p(2))
  show "case bv_data E v c of Some d \<Rightarrow> r = Ok d | None \<Rightarrow> \<not> is_ok r" by (rule G(3))
  have k: "only_keys E (bv_pipeline v) p" by (rule read_capsule_effect(1) [OF run(3) p(1)])
  show "service_ready E d (bv_pipeline v') = service_ready E d (bv_pipeline v)"
    using only_keys_service(3) [OF k run(2)] by (simp add: p(2))
  show "has_capsule (bv_pipeline v') k = has_capsule (bv_pipeline v) k"
    using k by (simp add: p(2) has_capsule_def only_keys_def)
qed

lemma write_saved:
  assumes kept: "bv_kept E env ct f {} v" and vols: "vols_ok (bv_data E v) (bv_volumes v)" and len: "length data < 2 ^ 64" "data \<noteq> []"
    and ready: "\<And>d b. volumes_of E v name = Some d \<Longrightarrow> splice off data d = Ok b \<Longrightarrow>
      service_ready E b (bv_pipeline v) \<and> \<not> has_capsule (bv_pipeline v) fresh"
    and run: "bv_write E clk fresh now name off data v = (r, v')"
  defines "new \<equiv> if \<exists>d b. volumes_of E v name = Some d \<and> splice off data d = Ok b then {fresh} else {}"
  shows "if is_ok r then \<exists>d. volumes_of E v name = Some d \<and> unat off + length data \<le> length d \<and>
      bv_saved E env ct (bv_volumes v) new ((volumes_of E v)(name \<mapsto> overwrite (unat off) data d)) v'
    else bv_kept E env ct f new v'"
proof (cases "write_snapshot name off data v")
  case (Err e)
  then have "v' = v" "\<not> is_ok r" using run len(2) by (auto simp: bv_write_def op_simps)
  then show ?thesis using bv_kept_mono [OF kept] by simp
next
  case (Ok snap)
  then obtain cid version where snap: "write_snapshot name off data v = Ok (cid, version)" by (cases snap) auto
  then obtain vol where vol: "hm_get (bv_volumes v) name = Some vol" "vol_capsule_id vol = cid" "vol_version vol = version"
    by (auto simp: write_snapshot_def bv_volume_def ok_or_def split: option.splits if_splits)
  have caps: "vol_caps (bv_volumes v) name = Some cid" using vol by (simp add: vol_caps_def)
  obtain d where d: "bv_data E v cid = Some d" "length d = unat (vol_size vol)"
    using vols vol by (auto simp: vols_ok_def vol_sized_def)
  have cur: "volumes_of E v name = Some d" using caps d by (simp add: volumes_of_def named_data_def)
  obtain q v1 where rd: "on_bv_pipeline (read_capsule E cid) v = (q, v1)" by fastforce
  note R = bv_kept_read [OF kept rd]
  have q: "q = Ok d" using R(4) d(1) by simp
  show ?thesis
  proof (cases "splice off data d")
    case (Err e)
    then have "v' = v1" "\<not> is_ok r" using run len(2) snap rd q by (auto simp: bv_write_def op_simps)
    then show ?thesis using bv_kept_mono [OF R(1)] by simp
  next
    case (Ok b)
    note O = splice_overwrite [OF Ok len(1)]
    have new: "new = {fresh}" using cur Ok by (auto simp: new_def)
    have rdy: "service_ready E b (bv_pipeline v1)" "\<not> has_capsule (bv_pipeline v1) fresh" "\<not> has_capsule (bv_pipeline v) fresh"
      using ready [OF cur Ok] R(5,6) by simp_all
    obtain q2 v2 where put: "on_bv_pipeline (write_capsule E clk fresh b) v1 = (q2, v2)" by fastforce
    note P = bv_kept_put [OF R(1) rdy(1,2) put]
    show ?thesis
    proof (cases q2)
      case (Err e)
      then have "v' = v2" "\<not> is_ok r" using run len(2) snap rd q Ok put by (auto simp: bv_write_def op_simps)
      then show ?thesis using P(1) new by simp
    next
      case q2: (Ok x)
      then have x: "x = fresh" "bv_data E v2 fresh = Some b" using P(3) by auto
      let ?vol = "vol\<lparr>vol_capsule_id := fresh, vol_updated_at := unix_timestamp now, vol_version := saturating_inc version\<rparr>"
      let ?v3 = "v2\<lparr>bv_volumes := hm_insert name ?vol (bv_volumes v)\<rparr>"
      have same: "bv_volumes v2 = bv_volumes v" using P(2) R(2) by simp
      have sw: "write_swap (unix_timestamp now) name cid version fresh v2 = (Swapped, ?v3)"
        using vol same by (simp add: write_swap_def)
      have fin: "bind_op bv_persist (\<lambda>_. ignore_op (on_bv_pipeline (delete_capsule cid))) ?v3 = (r, v')"
        using run len(2) snap rd q Ok put q2 x(1) sw by (simp add: bv_write_def bind_op_def lift_result_def)
      have k: "bv_kept E env ct f {fresh} ?v3" using P(1) by (simp add: bv_kept_def)
      have free: "fresh \<notin> ran (vol_caps (bv_volumes v))"
        using vols rdy(3) wp_data_has [of E "bv_pipeline v" fresh] by (auto simp: vols_ok_def names_live_def ran_def)
      have eq: "bv_data E v2 c = bv_data E v c" if "c \<in> ran (vol_caps (bv_volumes v))" for c
        using P(1) kept that free by (auto simp: bv_kept_def)
      have C: "vols_ok (bv_data E v2) (bv_volumes v)"
        "named_data (bv_data E v2) (vol_caps (bv_volumes v)) = named_data (bv_data E v) (vol_caps (bv_volumes v))"
        using vols_ok_cong [OF vols, of "bv_data E v2"] eq by blast+
      have b: "vol_capsule_id ?vol = fresh" "length b = unat (vol_size ?vol)" using O(2) d(2) by simp_all
      note B = vols_ok_bind [OF C(1) free x(2) b, of name]
      have sub: "ran (vol_caps (bv_volumes ?v3)) \<subseteq> {fresh} \<union> ran (vol_caps (bv_volumes v))" by (auto simp: ran_def)
      have ok: "vols_ok (bv_data E ?v3) (bv_volumes ?v3)" "cid \<notin> ran (vol_caps (bv_volumes ?v3))"
        using B(1) B(3) [OF caps] by simp_all
      have all: "volumes_of E ?v3 = (volumes_of E v)(name \<mapsto> overwrite (unat off) data d)"
        using B(2) C(2) O(1) by (simp add: volumes_of_def)
      have mem: "cid \<in> ran (vol_caps (bv_volumes v))" using caps by (rule ranI)
      have "bv_saved E env ct (bv_volumes v) {fresh} (volumes_of E ?v3) v'" "is_ok r"
        by (rule persist_discard_saved [OF k _ ok(1) sub mem ok(2) fin], simp)+
      then show ?thesis using cur O(3) unfolding all new by simp
    qed
  qed
qed

section \<open>What a command on volumes means\<close>

text \<open>The volumes after a command that succeeded.\<close>

fun volumes_after :: "process \<Rightarrow> block_command \<Rightarrow> (string \<rightharpoonup> bytes) \<Rightarrow> string \<rightharpoonup> bytes" where
  "volumes_after P (BlockCreate name sz bs) W = W(name \<mapsto> replicate (unat sz) 0)"
| "volumes_after P (BlockDelete name) W = W(name := None)"
| "volumes_after P (BlockWrite name off src) W =
     (case pr_files P src of Some data \<Rightarrow> W(name := map_option (overwrite (unat off) data) (W name)) | None \<Rightarrow> W)"
| "volumes_after P _ W = W"

text \<open>What the result of a command says of the volumes it was run on.\<close>

fun block_truthful :: "process \<Rightarrow> block_command \<Rightarrow> (string \<rightharpoonup> bytes) \<Rightarrow> (printed, error) result \<Rightarrow> bool" where
  "block_truthful P (BlockCreate name sz bs) W r = (is_ok r \<longrightarrow> W name = None)"
| "block_truthful P (BlockDelete name) W r = (is_ok r = (W name \<noteq> None))"
| "block_truthful P BlockList W r = (is_ok r \<and> (r = Ok NoVolumes) = (W = Map.empty))"
| "block_truthful P (BlockInfo name) W r = (is_ok r = (W name \<noteq> None))"
| "block_truthful P (BlockRead name off len) W r =
     (case W name of
        Some d \<Rightarrow> if unat off + len \<le> length d then r = Ok (RawBytes (take len (drop (unat off) d))) else \<not> is_ok r
      | None \<Rightarrow> \<not> is_ok r)"
| "block_truthful P (BlockWrite name off src) W r =
     (is_ok r \<longrightarrow> (\<exists>data. pr_files P src = Some data \<and>
        (data = [] \<or> (\<exists>d. W name = Some d \<and> unat off + length data \<le> length d))))"

text \<open>The bytes a command may put into a new capsule, and the lengths it names.\<close>

fun block_puts :: "process \<Rightarrow> block_command \<Rightarrow> (string \<rightharpoonup> bytes) \<Rightarrow> bytes \<Rightarrow> bool" where
  "block_puts P (BlockCreate name sz bs) W b = (b = replicate (unat sz) 0)"
| "block_puts P (BlockWrite name off src) W b = (\<exists>data d. pr_files P src = Some data \<and> W name = Some d \<and> splice off data d = Ok b)"
| "block_puts P _ W b = False"

fun block_sizes :: "process \<Rightarrow> block_command \<Rightarrow> bool" where
  "block_sizes P (BlockRead name off len) = (len < 2 ^ 64)"
| "block_sizes P (BlockWrite name off src) = (\<forall>data. pr_files P src = Some data \<longrightarrow> length data < 2 ^ 64)"
| "block_sizes P _ = True"

lemma volumes_of_None:
  assumes "vols_ok (bv_data E v) (bv_volumes v)"
  shows "volumes_of E v name = None \<longleftrightarrow> hm_get (bv_volumes v) name = None"
proof (cases "hm_get (bv_volumes v) name")
  case (Some vol)
  then have "bv_data E v (vol_capsule_id vol) \<noteq> None" using assms by (auto simp: vols_ok_def vol_sized_def)
  then show ?thesis using Some by (simp add: volumes_of_def named_data_def vol_caps_def)
qed (simp add: volumes_of_def named_data_def vol_caps_def)

definition block_fresh :: "process \<Rightarrow> block_command \<Rightarrow> (string \<rightharpoonup> bytes) \<Rightarrow> capsule_id set" where
  "block_fresh P cmd W = (if \<exists>b. block_puts P cmd W b then {pr_fresh P} else {})"

lemma block_action_effect:
  assumes vols: "vols_ok (bv_data E v) (bv_volumes v)" and kept: "bv_kept E env ct f {} v"
    and lens: "block_sizes P cmd"
    and ready: "\<And>data. block_puts P cmd (volumes_of E v) data \<Longrightarrow>
      service_ready E data (bv_pipeline v) \<and> \<not> has_capsule (bv_pipeline v) (pr_fresh P)"
    and run: "block_action E P cmd v = (r, v')"
  shows "(is_ok r \<and> bv_saved E env ct (bv_volumes v) (block_fresh P cmd (volumes_of E v)) (volumes_after P cmd (volumes_of E v)) v' \<or>
      bv_kept E env ct f (block_fresh P cmd (volumes_of E v)) v' \<and> (is_ok r \<longrightarrow> volumes_after P cmd (volumes_of E v) = volumes_of E v)) \<and>
    block_truthful P cmd (volumes_of E v) r"
proof -
  have stay: "bv_kept E env ct f X v" for X by (rule bv_kept_mono [OF kept]) simp
  show ?thesis
proof (cases cmd)
  case (BlockCreate name sz bs)
  let ?bs = "case bs of Some b \<Rightarrow> b | None \<Rightarrow> DEFAULT_BLOCK_SIZE"
  obtain q where q: "create_volume_with_block_size E (pr_clock P) (pr_fresh P) (pr_now P) name sz ?bs v = (q, v')" "is_ok r = is_ok q"
    using run BlockCreate by (cases bs) (auto simp: block_action_def create_volume_def bind_op_def return_op_def split: op_splits)
  have "service_ready E (replicate (unat sz) 0) (bv_pipeline v)" "\<not> has_capsule (bv_pipeline v) (pr_fresh P)"
    using ready BlockCreate by simp_all
  from create_saved [OF kept vols this q(1)] show ?thesis using q(2) BlockCreate by (cases "is_ok q") (auto simp: block_fresh_def)
next
  case (BlockDelete name)
  obtain q where q: "delete_volume name v = (q, v')" "is_ok r = is_ok q"
    using run BlockDelete by (auto simp: block_action_def bind_op_def return_op_def split: op_splits)
  then show ?thesis
    using delete_saved [OF kept vols q(1), of "{}"] stay BlockDelete q(2)
    by (cases "is_ok q") (auto simp: block_fresh_def)
next
  case BlockList
  have "list_volumes v = [] \<longleftrightarrow> bv_volumes v = []" by (simp add: list_volumes_def btree_entries_def length_0_conv [symmetric] del: length_0_conv)
  moreover have "volumes_of E v = Map.empty \<longleftrightarrow> bv_volumes v = []"
    using volumes_of_None [OF vols] by (auto simp: fun_eq_iff map_of_eq_None_iff)
  moreover have "v' = v" "r = Ok (if list_volumes v = [] then NoVolumes else VolumeTable (list_volumes v))"
    using run BlockList by (auto simp: block_action_def)
  ultimately show ?thesis using stay BlockList by auto
next
  case (BlockInfo name)
  have "v' = v" "is_ok r = (hm_get (bv_volumes v) name \<noteq> None)"
    using run BlockInfo by (auto simp: block_action_def op_simps bv_volume_def ok_or_def split: option.splits)
  then show ?thesis using stay volumes_of_None [OF vols] BlockInfo by auto
next
  case (BlockRead name off len)
  obtain q where q: "bv_read E name off len v = (q, v')" "r = (case q of Ok d \<Rightarrow> Ok (RawBytes d) | Err e \<Rightarrow> Err e)"
    using run BlockRead by (auto simp: block_action_def bind_op_def return_op_def split: op_splits)
  have len: "len < 2 ^ 64" using lens BlockRead by simp
  have inv: "service_inv E (bv_pipeline v)" and go: "running E env (bv_pipeline v)"
    using kept by (auto simp: bv_kept_def running_def)
  have "v' = v \<or> (\<exists>c p q. read_range E c off len (bv_pipeline v) = (q, p) \<and> v' = v\<lparr>bv_pipeline := p\<rparr>)"
    using q(1) by (auto simp: bv_read_def bv_volume_def ok_or_def op_simps on_bv_pipeline_def split: op_splits if_splits)
  then have "bv_kept E env ct f {} v'"
  proof (elim disjE exE conjE)
    fix c p q assume p: "read_range E c off len (bv_pipeline v) = (q, p)" "v' = v\<lparr>bv_pipeline := p\<rparr>"
    have "wp_km_ok E (bv_pipeline v)" using inv by (simp add: service_inv_def wp_inv_def)
    from running_only_keys [OF go read_range_only_keys [OF this p(1)]] show ?thesis
      using kept by (simp add: bv_kept_def p(2))
  qed (use kept in simp)
  then have "bv_kept E env ct f X v'" for X by (rule bv_kept_mono) simp
  then show ?thesis using bv_read_slice(1) [OF inv vols len q(1)] q(2) BlockRead
    by (auto split: option.splits result.splits if_splits)
next
  case (BlockWrite name off src)
  show ?thesis
  proof (cases "pr_files P src")
    case None
    then have "v' = v" "\<not> is_ok r" using run BlockWrite by (auto simp: block_action_def op_simps fs_read_def ok_or_def)
    then show ?thesis using stay BlockWrite by simp
  next
    case (Some data)
    obtain q where q: "bv_write E (pr_clock P) (pr_fresh P) (pr_now P) name off data v = (q, v')" "is_ok r = is_ok q"
      using run BlockWrite Some
      by (auto simp: block_action_def bind_op_def return_op_def lift_result_def fs_read_def ok_or_def split: op_splits)
    show ?thesis
    proof (cases "data = []")
      case True
      then have "v' = v" using q(1) by (simp add: bv_write_def)
      moreover have "(volumes_of E v)(name := map_option (overwrite (unat off) []) (volumes_of E v name)) = volumes_of E v"
        by (cases "volumes_of E v name") (simp_all add: overwrite_def fun_upd_idem)
      ultimately show ?thesis using stay BlockWrite Some True by simp
    next
      case False
      have rdy: "service_ready E b (bv_pipeline v) \<and> \<not> has_capsule (bv_pipeline v) (pr_fresh P)"
        if "volumes_of E v name = Some d" "splice off data d = Ok b" for d b
        using ready [of b] that Some BlockWrite by auto
      have len: "length data < 2 ^ 64" using lens Some BlockWrite by simp
      have fresh: "block_fresh P cmd (volumes_of E v) =
          (if \<exists>d b. volumes_of E v name = Some d \<and> splice off data d = Ok b then {pr_fresh P} else {})"
        using BlockWrite Some by (auto simp: block_fresh_def)
      have W: "if is_ok q then \<exists>d. volumes_of E v name = Some d \<and> unat off + length data \<le> length d \<and>
          bv_saved E env ct (bv_volumes v) (block_fresh P cmd (volumes_of E v)) ((volumes_of E v)(name \<mapsto> overwrite (unat off) data d)) v'
        else bv_kept E env ct f (block_fresh P cmd (volumes_of E v)) v'"
        unfolding fresh by (rule write_saved [OF kept vols len False _ q(1)]) (rule rdy)
      show ?thesis
      proof (cases "is_ok q")
        case True
        then obtain d where "volumes_of E v name = Some d" "unat off + length data \<le> length d"
          "bv_saved E env ct (bv_volumes v) (block_fresh P cmd (volumes_of E v)) ((volumes_of E v)(name \<mapsto> overwrite (unat off) data d)) v'"
          using W by auto
        then show ?thesis using BlockWrite Some q(2) True by simp
      qed (use W BlockWrite q(2) in simp)
    qed
  qed
qed
qed

end
