(* ===== verification/Spacectl_Sessions.thy ===== *)
theory Spacectl_Sessions
  imports Spacectl_Correct Spacectl_Volumes
begin

text \<open>
  Sessions of commands: what a user sees of a disk, the specification of every command on it, and the
  simulation: a process on a disk that represents a state ends on a disk that represents the next one.
\<close>

section \<open>What a user sees\<close>

text \<open>The capsules created by name of their identifier, the tree of files, and the volumes.\<close>

record user_state =
  us_capsules :: "capsule_id \<rightharpoonup> bytes"
  us_files :: "string list \<rightharpoonup> fs_object"
  us_volumes :: "string \<rightharpoonup> bytes"

text \<open>
  The data \<open>ct\<close> of a store lays out a state over a tree of files and a table of volumes: files, volumes and
  capsules of the user's own do not share capsules.
\<close>

definition laid_out ::
  "(capsule_id \<rightharpoonup> bytes) \<Rightarrow> (string list \<rightharpoonup> nfs_node_kind) \<Rightarrow> (string, block_volume) hmap \<Rightarrow> user_state \<Rightarrow> bool" where
  "laid_out ct K vols s \<longleftrightarrow>
     files_ok ct K \<and> vols_ok ct vols \<and> ran (file_caps K) \<inter> ran (vol_caps vols) = {} \<and>
     us_files s = fs_view ct K \<and> us_volumes s = named_data ct (vol_caps vols) \<and>
     us_capsules s \<subseteq>\<^sub>m ct \<and> dom (us_capsules s) \<inter> (ran (file_caps K) \<union> ran (vol_caps vols)) = {}"

lemma laid_outD:
  assumes "laid_out ct K vols s"
  shows "files_ok ct K" "vols_ok ct vols" "k \<in> ran (file_caps K) \<Longrightarrow> k \<notin> ran (vol_caps vols)"
    and "us_files s = fs_view ct K" "us_volumes s = named_data ct (vol_caps vols)"
    and "us_capsules s k = Some d \<Longrightarrow> ct k = Some d \<and> k \<notin> ran (file_caps K) \<and> k \<notin> ran (vol_caps vols)"
    and "k \<in> ran (file_caps K) \<Longrightarrow> ct k \<noteq> None" "k \<in> ran (vol_caps vols) \<Longrightarrow> ct k \<noteq> None"
proof -
  show "files_ok ct K" "vols_ok ct vols" "us_files s = fs_view ct K" "us_volumes s = named_data ct (vol_caps vols)"
    using assms by (simp_all add: laid_out_def)
  show "k \<in> ran (file_caps K) \<Longrightarrow> k \<notin> ran (vol_caps vols)" using assms by (auto simp: laid_out_def)
  show "us_capsules s k = Some d \<Longrightarrow> ct k = Some d \<and> k \<notin> ran (file_caps K) \<and> k \<notin> ran (vol_caps vols)"
    using assms unfolding laid_out_def map_le_def by (metis IntI Un_iff domI empty_iff)
  show "k \<in> ran (file_caps K) \<Longrightarrow> ct k \<noteq> None" "k \<in> ran (vol_caps vols) \<Longrightarrow> ct k \<noteq> None"
    using assms by (auto simp: laid_out_def files_ok_def vols_ok_def names_live_def ran_def)
qed

lemma laid_outI:
  assumes "files_ok ct K" "vols_ok ct vols" "\<And>k. k \<in> ran (file_caps K) \<Longrightarrow> k \<notin> ran (vol_caps vols)"
    and "us_files s = fs_view ct K" "us_volumes s = named_data ct (vol_caps vols)"
    and "\<And>k d. us_capsules s k = Some d \<Longrightarrow> ct k = Some d \<and> k \<notin> ran (file_caps K) \<and> k \<notin> ran (vol_caps vols)"
  shows "laid_out ct K vols s"
  using assms unfolding laid_out_def map_le_def by auto

lemma laid_out_more:
  assumes "laid_out ct K vols s" "\<And>k. ct k \<noteq> None \<Longrightarrow> ct' k = ct k"
  shows "laid_out ct' K vols s"
proof -
  note L = laid_outD [OF assms(1)]
  have f: "ct' k = ct k" if "file_caps K cs = Some k" for cs k using L(7) [of k] assms(2) that by (auto simp: ran_def)
  have v: "ct' k = ct k" if "k \<in> ran (vol_caps vols)" for k using L(8) [OF that] assms(2) by blast
  note F = files_ok_cong [OF L(1), of ct'] and V = vols_ok_cong [OF L(2), of ct']
  show ?thesis
  proof (rule laid_outI)
    show "files_ok ct' K" "us_files s = fs_view ct' K" using F f L(4) by auto
    show "vols_ok ct' vols" "us_volumes s = named_data ct' (vol_caps vols)" using V v L(5) by auto
    show "ct' k = Some d \<and> k \<notin> ran (file_caps K) \<and> k \<notin> ran (vol_caps vols)" if "us_capsules s k = Some d" for k d
      using L(6) [OF that] assms(2) [of k] by auto
  qed (rule L(3))
qed

text \<open>A capsule of the user's own is added; the files change; the volumes change.\<close>

lemma laid_out_create:
  assumes "laid_out ct K vols s" "ct k = None" "ct' = ct(k \<mapsto> d)"
  shows "laid_out ct' K vols (s\<lparr>us_capsules := (us_capsules s)(k \<mapsto> d)\<rparr>)" "us_capsules s k = None"
proof -
  have l: "laid_out ct' K vols s" by (rule laid_out_more [OF assms(1)]) (use assms(2,3) in auto)
  note L = laid_outD [OF l] and M = laid_outD [OF assms(1)]
  show "laid_out ct' K vols (s\<lparr>us_capsules := (us_capsules s)(k \<mapsto> d)\<rparr>)"
  proof (rule laid_outI)
    show "ct' j = Some e \<and> j \<notin> ran (file_caps K) \<and> j \<notin> ran (vol_caps vols)"
      if "us_capsules (s\<lparr>us_capsules := (us_capsules s)(k \<mapsto> d)\<rparr>) j = Some e" for j e
    proof (cases "j = k")
      case True
      then show ?thesis using that M(7,8) [of k] assms(2,3) by auto
    qed (use that L(6) [of j e] in simp)
  qed (use L(1-5) in auto)
  show "us_capsules s k = None" using M(6) [of k] assms(2) by (cases "us_capsules s k") auto
qed

lemma laid_out_files:
  assumes "laid_out ct K vols s" "\<And>k. k \<in> new \<Longrightarrow> ct k = None" and K': "files_ok ct' K'" "ran (file_caps K') \<subseteq> new \<union> ran (file_caps K)"
    and ct': "\<And>k. k \<notin> new \<union> ran (file_caps K) \<Longrightarrow> ct' k = ct k"
  shows "laid_out ct' K' vols (s\<lparr>us_files := fs_view ct' K'\<rparr>)"
proof -
  note L = laid_outD [OF assms(1)]
  have new: "k \<in> new \<Longrightarrow> k \<notin> ran (vol_caps vols)" "k \<in> new \<Longrightarrow> us_capsules s k = None" for k
    using L(8) [of k] L(6) [of k] assms(2) [of k] by (cases "us_capsules s k"; auto)+
  have v: "ct' k = ct k" if "k \<in> ran (vol_caps vols)" for k
    using ct' [of k] L(3) [of k] that new(1) [of k] by auto
  have c: "ct' k = Some d \<and> k \<notin> ran (file_caps K') \<and> k \<notin> ran (vol_caps vols)" if "us_capsules s k = Some d" for k d
  proof -
    have "k \<notin> new \<union> ran (file_caps K)" using L(6) [OF that] that new(2) [of k] by auto
    then show ?thesis using L(6) [OF that] ct' [of k] K'(2) by auto
  qed
  note V = vols_ok_cong [OF L(2), of ct']
  show ?thesis
  proof (rule laid_outI)
    show "vols_ok ct' vols" "us_volumes (s\<lparr>us_files := fs_view ct' K'\<rparr>) = named_data ct' (vol_caps vols)"
      using V v L(5) by auto
    show "k \<notin> ran (vol_caps vols)" if "k \<in> ran (file_caps K')" for k using that K'(2) L(3) [of k] new(1) [of k] by auto
  qed (use K'(1) c in auto)
qed

lemma laid_out_volumes:
  assumes "laid_out ct K vols s" "\<And>k. k \<in> new \<Longrightarrow> ct k = None" and m: "vols_ok ct' m" "ran (vol_caps m) \<subseteq> new \<union> ran (vol_caps vols)"
    and ct': "\<And>k. k \<notin> new \<union> ran (vol_caps vols) \<Longrightarrow> ct' k = ct k"
  shows "laid_out ct' K m (s\<lparr>us_volumes := named_data ct' (vol_caps m)\<rparr>)"
proof -
  note L = laid_outD [OF assms(1)]
  have new: "k \<in> new \<Longrightarrow> k \<notin> ran (file_caps K)" "k \<in> new \<Longrightarrow> us_capsules s k = None" for k
    using L(7) [of k] L(6) [of k] assms(2) [of k] by (cases "us_capsules s k"; auto)+
  have f: "ct' k = ct k" if "file_caps K cs = Some k" for cs k
    using ct' [of k] L(3) [of k] ranI [of "file_caps K", OF that] new(1) [of k] by auto
  have c: "ct' k = Some d \<and> k \<notin> ran (file_caps K) \<and> k \<notin> ran (vol_caps m)" if "us_capsules s k = Some d" for k d
  proof -
    have "k \<notin> new \<union> ran (vol_caps vols)" using L(6) [OF that] that new(2) [of k] by auto
    then show ?thesis using L(6) [OF that] ct' [of k] m(2) by auto
  qed
  note F = files_ok_cong [OF L(1), of ct']
  show ?thesis
  proof (rule laid_outI)
    show "files_ok ct' K" "us_files (s\<lparr>us_volumes := named_data ct' (vol_caps m)\<rparr>) = fs_view ct' K" using F f L(4) by auto
    show "k \<notin> ran (vol_caps m)" if "k \<in> ran (file_caps K)" for k using that m(2) L(3) [of k] new(1) [of k] by auto
  qed (use m(1) c in auto)
qed

section \<open>Disks\<close>

definition disk_nodes :: "u64 \<Rightarrow> disk \<Rightarrow> nodes" where
  "disk_nodes t d = ensure_root_node t (case dk_namespace d of Stored m \<Rightarrow> m | _ \<Rightarrow> [])"

definition disk_volumes :: "disk \<Rightarrow> (string, block_volume) hmap" where
  "disk_volumes d = (case dk_volumes d of Stored m \<Rightarrow> m | _ \<Rightarrow> [])"

definition names_saved :: "disk \<Rightarrow> bool" where
  "names_saved d \<longleftrightarrow> dk_volumes d \<noteq> Torn \<and> (dk_namespace d = Absent \<or> (\<exists>m. dk_namespace d = Stored m \<and> nodes_ok m))"

definition represents :: "ext \<Rightarrow> (key_manager, encryption_error) result \<Rightarrow> disk \<Rightarrow> user_state \<Rightarrow> bool" where
  "represents E env d s \<longleftrightarrow> (\<exists>ct. stored E env d ct \<and> names_saved d \<and> laid_out ct (kind_of (disk_nodes 0 d)) (disk_volumes d) s)"

lemma disk_nodes_tree:
  assumes "names_saved d"
  shows "nodes_ok (disk_nodes t d)" "kind_of (disk_nodes t d) = kind_of (disk_nodes 0 d)"
  using assms new_root root_same by (auto simp: names_saved_def disk_nodes_def)

lemma disk_nodes_saved: "nodes_ok m \<Longrightarrow> dk_namespace d = Stored m \<Longrightarrow> kind_of (disk_nodes 0 d) = kind_of m"
  by (simp add: disk_nodes_def root_same)

lemma node_caps_tree: "nodes_ok nodes \<Longrightarrow> node_caps nodes = ran (file_caps (kind_of nodes))"
proof (rule antisym)
  assume ok: "nodes_ok nodes"
  show "node_caps nodes \<subseteq> ran (file_caps (kind_of nodes))"
  proof
    fix cid assume "cid \<in> node_caps nodes"
    then obtain k node where n: "hm_get nodes k = Some node" "capsule_of_node node = Some cid" by (auto simp: node_caps_def)
    obtain cs where cs: "canonical cs" "k = full_path cs" using nodes_okD(2) [OF ok n(1)] by blast
    then have "file_caps (kind_of nodes) cs = Some cid" using hm_get_capsule [OF cs(1), of nodes] n by simp
    then show "cid \<in> ran (file_caps (kind_of nodes))" by (rule ranI)
  qed
qed (auto simp: ran_def dest: file_caps_node_caps)

lemma stored_names: "stored E env (d\<lparr>dk_namespace := f\<rparr>) ct = stored E env d ct" "stored E env (d\<lparr>dk_volumes := g\<rparr>) ct = stored E env d ct"
  for d :: disk
  by (simp_all add: stored_def holds_store_def)

text \<open>The pipeline a process finds, and a process whose system calls all succeed.\<close>

definition opened :: "(key_manager, encryption_error) result \<Rightarrow> disk \<Rightarrow> write_pipeline option" where
  "opened env d = (case open_registry_and_nvram [] [] d of (Ok (rg, lg), _) \<Rightarrow> Some (wp_new rg lg env) | _ \<Rightarrow> None)"

definition settled :: "(key_manager, encryption_error) result \<Rightarrow> process \<Rightarrow> bool" where
  "settled env P \<longleftrightarrow> pr_keys P = env \<and> pr_registry_io P = [] \<and> pr_log_io P = [] \<and> pr_view_io P = []"

definition write_ready :: "ext \<Rightarrow> process \<Rightarrow> bytes \<Rightarrow> write_pipeline \<Rightarrow> bool" where
  "write_ready E P data p \<longleftrightarrow> service_ready E data p \<and> \<not> has_capsule p (pr_fresh P)"

section \<open>The specification of the commands\<close>

text \<open>An event: the process, its command and what it printed.\<close>

type_synonym event = "process \<times> cli_command \<times> (printed, error) result"

definition next_state :: "event \<Rightarrow> user_state \<Rightarrow> user_state" where
  "next_state e s =
     (case e of (P, cmd, r) \<Rightarrow>
        if \<not> is_ok r then s
        else (case cmd of
            Create path \<Rightarrow>
              (case pr_files P path of Some data \<Rightarrow> s\<lparr>us_capsules := (us_capsules s)(pr_fresh P \<mapsto> data)\<rparr> | None \<Rightarrow> s)
          | Nfs c \<Rightarrow> s\<lparr>us_files := files_after P c (us_files s)\<rparr>
          | Block c \<Rightarrow> s\<lparr>us_volumes := volumes_after P c (us_volumes s)\<rparr>
          | _ \<Rightarrow> s))"

definition listed_capsule :: "capsule_id \<Rightarrow> bytes \<Rightarrow> (printed, error) result \<Rightarrow> bool" where
  "listed_capsule cid data r \<longleftrightarrow> (\<exists>rows n. r = Ok (CapsuleTable rows) \<and>
     Ok \<lparr>cr_capsule = cid, cr_size = of_nat (length data), cr_segments = n\<rparr> \<in> set rows)"

definition truthful :: "view_ext \<Rightarrow> event \<Rightarrow> user_state \<Rightarrow> bool" where
  "truthful V e s =
     (case e of (P, cmd, r) \<Rightarrow>
        (case cmd of
            Create path \<Rightarrow> is_ok r \<longrightarrow> us_capsules s (pr_fresh P) = None \<and>
              (\<exists>data. pr_files P path = Some data \<and> r = Ok (CapsuleCreated (pr_fresh P) (length data)))
          | Read name \<Rightarrow> (\<forall>uuid data. vx_parse_uuid V name = Some uuid \<longrightarrow> us_capsules s (CapsuleId uuid) = Some data \<longrightarrow> r = Ok (RawBytes data))
          | List \<Rightarrow> (\<forall>cid data. us_capsules s cid = Some data \<longrightarrow> listed_capsule cid data r)
          | Nfs c \<Rightarrow> nfs_truthful c (us_files s) r
          | Block c \<Rightarrow> block_truthful P c (us_volumes s) r))"

fun truthful_all :: "view_ext \<Rightarrow> event list \<Rightarrow> user_state \<Rightarrow> bool" where
  "truthful_all V [] s = True"
| "truthful_all V (e # es) s = (truthful V e s \<and> truthful_all V es (next_state e s))"

section \<open>The runs of the program\<close>

text \<open>
  A process without failing system calls; its paths have no backslash, the lengths it names fit, and what
  it puts into a capsule can be stored and read back by the pipeline it opens, under a fresh identifier.
\<close>

fun command_sane :: "process \<Rightarrow> cli_command \<Rightarrow> bool" where
  "command_sane P (Nfs c) = no_backslash (nfs_path c)"
| "command_sane P (Block c) = block_sizes P c"
| "command_sane P _ = True"

fun command_puts :: "process \<Rightarrow> cli_command \<Rightarrow> (string \<rightharpoonup> bytes) \<Rightarrow> bytes \<Rightarrow> bool" where
  "command_puts P (Create path) W data = (pr_files P path = Some data)"
| "command_puts P (Nfs c) W data = (nfs_puts P c = Some data)"
| "command_puts P (Block c) W data = block_puts P c W data"
| "command_puts P _ W data = False"

inductive command_run :: "ext \<Rightarrow> view_ext \<Rightarrow> (key_manager, encryption_error) result \<Rightarrow> event \<Rightarrow> disk \<Rightarrow> disk \<Rightarrow> bool" for E V env where
  command_run: "settled env P \<Longrightarrow> command_sane P cmd \<Longrightarrow> few_refs d \<Longrightarrow>
    (\<And>p data. opened env d = Some p \<Longrightarrow> command_puts P cmd (named_data (wp_data E p) (vol_caps (disk_volumes d))) data \<Longrightarrow>
       write_ready E P data p) \<Longrightarrow>
    run_command E V P cmd d = (r, d') \<Longrightarrow> command_run E V env (P, cmd, r) d d'"

inductive session :: "ext \<Rightarrow> view_ext \<Rightarrow> (key_manager, encryption_error) result \<Rightarrow> event list \<Rightarrow> disk \<Rightarrow> disk \<Rightarrow> bool" for E V env where
  ses_nil: "session E V env [] d d"
| ses_step: "command_run E V env e d d' \<Longrightarrow> session E V env es d' d'' \<Longrightarrow> session E V env (e # es) d d''"

inductive_cases command_runE: "command_run E V env (P, cmd, r) d d'"
inductive_cases session_consE: "session E V env (e # es) d d'"

section \<open>The simulation\<close>

lemma disk_same [simp]:
  "disk_nodes t (left_behind st d) = disk_nodes t d" "disk_nodes t (d\<lparr>dk_file := x\<rparr>) = disk_nodes t d"
  "disk_volumes (left_behind st d) = disk_volumes d" "disk_volumes (d\<lparr>dk_file := x\<rparr>) = disk_volumes d"
  "names_saved (left_behind st d) = names_saved d" "names_saved (d\<lparr>dk_file := x\<rparr>) = names_saved d"
  "disk_nodes t (d\<lparr>dk_volumes := g\<rparr>) = disk_nodes t d" "disk_volumes (d\<lparr>dk_namespace := f\<rparr>) = disk_volumes d"
  for d :: disk
  by (simp_all add: disk_nodes_def disk_volumes_def names_saved_def left_behind_def)

lemma left_behind_represents:
  assumes "running E env p" "names_saved d" "laid_out (wp_data E p) (kind_of (disk_nodes 0 d)) (disk_volumes d) s"
  shows "represents E env (left_behind (wp_store p) d) s"
  unfolding represents_def using running_stored [OF assms(1), of d] assms(2,3) by (intro exI [of _ "wp_data E p"]) simp

text \<open>Opening a disk that represents a state.\<close>

lemma represents_opens:
  assumes "represents E env d s" "few_refs d" "env_ok E env" "settled env P"
  obtains rg lg f where "open_store P d = (Ok (rg, lg), d\<lparr>dk_file := Some f\<rparr>)" "opened env d = Some (wp_new rg lg env)"
    "reg_open (dk_registry d) [] = Ok rg" "reg_capsules rg = reg_capsules (st_registry (wp_store (wp_new rg lg env)))"
    "running E env (wp_new rg lg env)" "names_saved d" "pr_keys P = env" "pr_view_io P = []" "pr_registry_io P = []"
    "laid_out (wp_data E (wp_new rg lg env)) (kind_of (disk_nodes 0 d)) (disk_volumes d) s"
proof -
  obtain ct where ct: "stored E env d ct" "names_saved d" "laid_out ct (kind_of (disk_nodes 0 d)) (disk_volumes d) s"
    using assms(1) by (auto simp: represents_def)
  obtain rg lg f where o: "open_registry_and_nvram [] [] d = (Ok (rg, lg), d\<lparr>dk_file := Some f\<rparr>)" "reg_open (dk_registry d) [] = Ok rg"
    "running E env (wp_new rg lg env)" "wp_data E (wp_new rg lg env) = ct" "reg_capsules rg = reg_capsules (st_registry (wp_store (wp_new rg lg env)))"
    by (rule stored_opens [OF ct(1) assms(2,3)])
  then show thesis
    using that [of rg lg f] ct(2,3) assms(4) by (simp add: settled_def open_store_def opened_def)
qed

lemma with_pipeline_run:
  assumes "open_store P d = (Ok (rg, lg), d\<lparr>dk_file := Some f\<rparr>)" "m (wp_new rg lg (pr_keys P)) = (r, p)"
  shows "with_pipeline P m d = (r, left_behind (wp_store p) (d\<lparr>dk_file := Some f\<rparr>))"
  using assms by (simp add: with_pipeline_def bind_op_def)

text \<open>Data that is only added to: the state stays.\<close>

lemma added_same:
  assumes "wp_data E p k = None" "\<And>j. j \<noteq> k \<Longrightarrow> wp_data E p' j = wp_data E p j"
  shows "wp_data E p j \<noteq> None \<Longrightarrow> wp_data E p' j = wp_data E p j"
  using assms by (cases "j = k") auto

lemma fresh_None: "\<not> has_capsule p k \<Longrightarrow> wp_data E p k = None"
  using wp_data_has [of E p k] by (cases "wp_data E p k") simp_all

lemma create_simulates:
  assumes rep: "represents E env d s" "few_refs d" "env_ok E env" "settled env P"
    and ready: "\<And>p data. opened env d = Some p \<Longrightarrow> pr_files P path = Some data \<Longrightarrow> write_ready E P data p"
    and run: "create_command E P path d = (r, d')"
  shows "represents E env d' (next_state (P, Create path, r) s) \<and> truthful V (P, Create path, r) s"
proof (cases "pr_files P path")
  case None
  then have "d' = d" "\<not> is_ok r" using run by (auto simp: create_command_def op_simps fs_read_def ok_or_def)
  then show ?thesis using rep(1) by (simp add: next_state_def truthful_def)
next
  case (Some data)
  obtain rg lg f where o: "open_store P d = (Ok (rg, lg), d\<lparr>dk_file := Some f\<rparr>)" "opened env d = Some (wp_new rg lg env)"
    "running E env (wp_new rg lg env)" "names_saved d" "pr_keys P = env"
    "laid_out (wp_data E (wp_new rg lg env)) (kind_of (disk_nodes 0 d)) (disk_volumes d) s"
    by (rule represents_opens [OF rep])
  let ?p = "wp_new rg lg env"
  have rd: "service_ready E data ?p" "\<not> has_capsule ?p (pr_fresh P)" using ready [OF o(2) Some] by (simp_all add: write_ready_def)
  obtain q p where w: "write_capsule E (pr_clock P) (pr_fresh P) data ?p = (q, p)" by fastforce
  note R = running_put [OF o(3) rd w]
  have d': "d' = left_behind (wp_store p) (d\<lparr>dk_file := Some f\<rparr>)"
    "r = (case q of Ok cid \<Rightarrow> Ok (CapsuleCreated cid (length data)) | Err e \<Rightarrow> Err e)"
    using run Some with_pipeline_run [OF o(1), of "write_capsule E (pr_clock P) (pr_fresh P) data"] w o(5)
    by (auto simp: create_command_def bind_op_def lift_result_def fs_read_def ok_or_def return_op_def split: result.splits)
  note new = fresh_None [OF rd(2), of E]
  have same: "wp_data E p k = wp_data E ?p k" if "k \<noteq> pr_fresh P" for k using R(2) that by blast
  have lay: "laid_out (wp_data E p) (kind_of (disk_nodes 0 d)) (disk_volumes d) s"
    by (rule laid_out_more [OF o(6)]) (rule added_same [OF new same])
  show ?thesis
  proof (cases q)
    case (Err e)
    then show ?thesis
      using left_behind_represents [OF R(1), of "d\<lparr>dk_file := Some f\<rparr>"] lay o(4) d' by (simp add: next_state_def truthful_def)
  next
    case (Ok x)
    then have x: "x = pr_fresh P" "wp_data E p (pr_fresh P) = Some data" using R(3) by auto
    have "wp_data E p = (wp_data E ?p)(pr_fresh P \<mapsto> data)" using x(2) same by (auto simp: fun_eq_iff)
    note C = laid_out_create [OF o(6) new this]
    show ?thesis
      using left_behind_represents [OF R(1), of "d\<lparr>dk_file := Some f\<rparr>"] C o(4) d' Ok x(1) Some
      by (simp add: next_state_def truthful_def)
  qed
qed

lemma read_simulates:
  assumes rep: "represents E env d s" "few_refs d" "env_ok E env" "settled env P"
    and run: "read_command E V P name d = (r, d')"
  shows "represents E env d' s \<and> truthful V (P, Read name, r) s"
proof (cases "vx_parse_uuid V name")
  case None
  then have "d' = d" using run by (auto simp: read_command_def op_simps ok_or_def)
  then show ?thesis using rep(1) None by (simp add: truthful_def)
next
  case (Some uuid)
  obtain rg lg f where o: "open_store P d = (Ok (rg, lg), d\<lparr>dk_file := Some f\<rparr>)" "running E env (wp_new rg lg env)" "names_saved d"
    "pr_keys P = env" "laid_out (wp_data E (wp_new rg lg env)) (kind_of (disk_nodes 0 d)) (disk_volumes d) s"
    by (rule represents_opens [OF rep])
  obtain q p where w: "read_capsule E (CapsuleId uuid) (wp_new rg lg env) = (q, p)" by fastforce
  note R = running_get [OF o(2) w]
  have d': "d' = left_behind (wp_store p) (d\<lparr>dk_file := Some f\<rparr>)" "r = (case q of Ok data \<Rightarrow> Ok (RawBytes data) | Err e \<Rightarrow> Err e)"
    using run Some with_pipeline_run [OF o(1), of "read_capsule E (CapsuleId uuid)"] w o(4)
    by (auto simp: read_command_def bind_op_def lift_result_def ok_or_def return_op_def split: result.splits)
  have "r = Ok (RawBytes data)" if "us_capsules s (CapsuleId uuid) = Some data" for data
    using laid_outD(6) [OF o(5) that] R(3) d'(2) by simp
  then show ?thesis
    using left_behind_represents [OF R(1), of "d\<lparr>dk_file := Some f\<rparr>"] o(3,5) R(2) d'(1) Some by (simp add: truthful_def)
qed

lemma list_simulates:
  assumes rep: "represents E env d s" "few_refs d" "env_ok E env" "settled env P" and run: "list_command P d = (r, d')"
  shows "represents E env d' s \<and> truthful V (P, List, r) s"
proof -
  obtain rg lg f where o: "reg_open (dk_registry d) [] = Ok rg" "reg_capsules rg = reg_capsules (st_registry (wp_store (wp_new rg lg env)))"
    "running E env (wp_new rg lg env)" "pr_registry_io P = []"
    "laid_out (wp_data E (wp_new rg lg env)) (kind_of (disk_nodes 0 d)) (disk_volumes d) s"
    by (rule represents_opens [OF rep])
  let ?p = "wp_new rg lg env"
  have r: "d' = d" "r = Ok (if list_capsules rg = [] then NoCapsules else CapsuleTable (map (capsule_row_of rg) (list_capsules rg)))"
    using run o(1,4) by (auto simp: list_command_def Let_def split: if_splits)
  have "listed_capsule cid data r" if u: "us_capsules s cid = Some data" for cid data
  proof -
    have data: "wp_data E ?p cid = Some data" using laid_outD(6) [OF o(5) u] by blast
    then obtain c where c: "hm_get (reg_capsules rg) cid = Some c"
      using wp_data_has [of E ?p cid] o(2) by (auto simp: has_capsule_def)
    have "wp_contents E ?p cid = Ok data" using data by (simp add: wp_data_def split: result.splits)
    then have sz: "cap_size c = of_nat (length data)" "cap_id c = cid"
      using o(2,3) c by (auto simp: running_def service_inv_def sizes_ok_def wp_inv_def store_inv_def caps_ok_def)
    have mem: "cid \<in> set (list_capsules rg)" unfolding list_capsules_def using c by (force dest: map_of_SomeD)
    have row: "capsule_row_of rg cid = Ok \<lparr>cr_capsule = cid, cr_size = of_nat (length data), cr_segments = length (cap_segments c)\<rparr>"
      using c sz by (simp add: capsule_row_of_def reg_lookup_def)
    have "capsule_row_of rg cid \<in> set (map (capsule_row_of rg) (list_capsules rg))" using mem by simp
    moreover have "list_capsules rg \<noteq> []" using mem by auto
    ultimately show ?thesis using r(2) unfolding listed_capsule_def row by auto
  qed
  then show ?thesis using rep(1) r(1) by (simp add: truthful_def)
qed

lemma nfs_simulates:
  assumes rep: "represents E env d s" "few_refs d" "env_ok E env" "settled env P" and path: "no_backslash (nfs_path cmd)"
    and ready: "\<And>p data. opened env d = Some p \<Longrightarrow> nfs_puts P cmd = Some data \<Longrightarrow> write_ready E P data p"
    and run: "run_nfs_command E P cmd d = (r, d')"
  shows "represents E env d' (next_state (P, Nfs cmd, r) s) \<and> truthful V (P, Nfs cmd, r) s"
proof -
  obtain rg lg f where o: "open_store P d = (Ok (rg, lg), d\<lparr>dk_file := Some f\<rparr>)" "opened env d = Some (wp_new rg lg env)"
    "running E env (wp_new rg lg env)" "names_saved d" "pr_keys P = env" "pr_view_io P = []"
    "laid_out (wp_data E (wp_new rg lg env)) (kind_of (disk_nodes 0 d)) (disk_volumes d) s"
    by (rule represents_opens [OF rep])
  let ?p = "wp_new rg lg env" and ?f = "dk_namespace d" and ?t = "unix_timestamp (pr_now P)" and ?k = "kind_of (disk_nodes 0 d)"
  let ?v = "\<lparr>nfs_pipeline = ?p, nfs_nodes = disk_nodes ?t d, nfs_namespace = Some ?f, nfs_io = []\<rparr>"
  have opn: "nfs_open rg lg (pr_keys P) (pr_now P) ?f (pr_view_io P) = Ok ?v"
    using o(4,5,6) by (auto simp: nfs_open_def load_json_def names_saved_def disk_nodes_def)
  note T = disk_nodes_tree [OF o(4), of ?t] and L = laid_outD [OF o(7)]
  have good: "nfs_good E ?v" using o(3) T L(1) by (simp add: nfs_good_def running_def)
  have kept: "nfs_kept E env (wp_data E ?p) ?f {} ?v" using o(3) by (simp add: nfs_kept_def)
  have files: "fs_of E ?v = us_files s" using T(2) L(4) by (simp add: fs_of_def)
  have caps: "node_caps (disk_nodes ?t d) = ran (file_caps ?k)" using node_caps_tree [OF T(1)] T(2) by simp
  have rd: "service_ready E data (nfs_pipeline ?v) \<and> \<not> has_capsule (nfs_pipeline ?v) (pr_fresh P)" if "nfs_puts P cmd = Some data" for data
    using ready [OF o(2) that] by (simp add: write_ready_def)
  obtain v' where a: "nfs_action E P cmd ?v = (r, v')"
    and d': "d' = (left_behind (wp_store (nfs_pipeline v')) (d\<lparr>dk_file := Some f\<rparr>))
      \<lparr>dk_namespace := (case nfs_namespace v' of Some g \<Rightarrow> g | None \<Rightarrow> ?f)\<rparr>"
    using run o(1) opn by (cases "nfs_action E P cmd ?v") (auto simp: run_nfs_command_def bind_op_def cong: option.case_cong)
  note A = nfs_action_effect [OF good kept path rd a, unfolded files]
  have new: "wp_data E ?p j = None" if "j \<in> nfs_fresh P cmd" for j
    using that rd fresh_None by (auto simp: nfs_fresh_def split: if_splits)
  show ?thesis
  proof (cases "nfs_saves cmd \<and> is_ok r")
    case True
    then have k: "nfs_kept E env (wp_data E ?p) (Stored (nfs_nodes v')) (nfs_fresh P cmd \<union> ran (file_caps ?k)) v'"
      "node_caps (nfs_nodes v') \<subseteq> nfs_fresh P cmd \<union> ran (file_caps ?k)"
      using A by (auto simp: nfs_ended_def caps)
    have g: "nfs_good E v'" "fs_of E v' = files_after P cmd (us_files s)" "nodes_ok (nfs_nodes v')" "files_ok (nfs_data E v') (kind_of (nfs_nodes v'))"
      using A True by (auto simp: nfs_good_def)
    have sub: "ran (file_caps (kind_of (nfs_nodes v'))) \<subseteq> nfs_fresh P cmd \<union> ran (file_caps ?k)"
      using k(2) node_caps_tree [OF g(3)] by simp
    have same: "nfs_data E v' j = wp_data E ?p j" if "j \<notin> nfs_fresh P cmd \<union> ran (file_caps ?k)" for j
      using k(1) that by (simp add: nfs_kept_def)
    note N = laid_out_files [OF o(7) new g(4) sub same]
    have "represents E env (left_behind (wp_store (nfs_pipeline v')) (d\<lparr>dk_file := Some f, dk_namespace := Stored (nfs_nodes v')\<rparr>))
      (s\<lparr>us_files := fs_view (nfs_data E v') (kind_of (nfs_nodes v'))\<rparr>)"
      by (rule left_behind_represents) (use k(1) N g(3) o(4) in \<open>auto simp: nfs_kept_def names_saved_def disk_nodes_saved\<close>)
    moreover have "d' = left_behind (wp_store (nfs_pipeline v')) (d\<lparr>dk_file := Some f, dk_namespace := Stored (nfs_nodes v')\<rparr>)"
      using k(1) by (simp add: d' nfs_kept_def left_behind_def)
    ultimately show ?thesis
      using A True g(2) by (simp add: next_state_def truthful_def fs_of_def)
  next
    case False
    then have k: "nfs_kept E env (wp_data E ?p) ?f (nfs_fresh P cmd) v'" using A by (simp add: nfs_ended_def)
    have lay: "laid_out (nfs_data E v') ?k (disk_volumes d) s"
    proof (rule laid_out_more [OF o(7)])
      show "nfs_data E v' j = wp_data E ?p j" if "wp_data E ?p j \<noteq> None" for j
        using k new [of j] that by (auto simp: nfs_kept_def)
    qed
    have "represents E env (left_behind (wp_store (nfs_pipeline v')) (d\<lparr>dk_file := Some f\<rparr>)) s"
      by (rule left_behind_represents) (use k lay o(4) in \<open>simp_all add: nfs_kept_def\<close>)
    moreover have "d' = left_behind (wp_store (nfs_pipeline v')) (d\<lparr>dk_file := Some f\<rparr>)"
      using k by (simp add: d' nfs_kept_def left_behind_def)
    moreover have "files_after P cmd (us_files s) = us_files s" if "is_ok r" using False that by (cases cmd) simp_all
    ultimately show ?thesis using A by (simp add: next_state_def truthful_def)
  qed
qed

lemma block_simulates:
  assumes rep: "represents E env d s" "few_refs d" "env_ok E env" "settled env P" and lens: "block_sizes P cmd"
    and ready: "\<And>p data. opened env d = Some p \<Longrightarrow> block_puts P cmd (named_data (wp_data E p) (vol_caps (disk_volumes d))) data \<Longrightarrow>
      write_ready E P data p"
    and run: "run_block_command E P cmd d = (r, d')"
  shows "represents E env d' (next_state (P, Block cmd, r) s) \<and> truthful V (P, Block cmd, r) s"
proof -
  obtain rg lg f where o: "open_store P d = (Ok (rg, lg), d\<lparr>dk_file := Some f\<rparr>)" "opened env d = Some (wp_new rg lg env)"
    "running E env (wp_new rg lg env)" "names_saved d" "pr_keys P = env" "pr_view_io P = []"
    "laid_out (wp_data E (wp_new rg lg env)) (kind_of (disk_nodes 0 d)) (disk_volumes d) s"
    by (rule represents_opens [OF rep])
  let ?p = "wp_new rg lg env" and ?f = "dk_volumes d" and ?k = "kind_of (disk_nodes 0 d)" and ?m = "disk_volumes d"
  let ?v = "\<lparr>bv_pipeline = ?p, bv_volumes = ?m, bv_metadata = Some ?f, bv_io = []\<rparr>"
  have opn: "bv_open rg lg (pr_keys P) ?f (pr_view_io P) = Ok ?v"
    using o(4,5,6) by (cases ?f) (auto simp: bv_open_def load_json_def names_saved_def disk_volumes_def)
  note L = laid_outD [OF o(7)]
  have vols: "vols_ok (bv_data E ?v) (bv_volumes ?v)" using L(2) by simp
  have kept: "bv_kept E env (wp_data E ?p) ?f {} ?v" using o(3) by (simp add: bv_kept_def)
  have W: "volumes_of E ?v = us_volumes s" using L(5) by (simp add: volumes_of_def)
  have rd: "service_ready E data (bv_pipeline ?v) \<and> \<not> has_capsule (bv_pipeline ?v) (pr_fresh P)"
    if "block_puts P cmd (volumes_of E ?v) data" for data
    using ready [OF o(2)] that by (simp add: write_ready_def volumes_of_def)
  obtain v' where a: "block_action E P cmd ?v = (r, v')"
    and d': "d' = (left_behind (wp_store (bv_pipeline v')) (d\<lparr>dk_file := Some f\<rparr>))
      \<lparr>dk_volumes := (case bv_metadata v' of Some g \<Rightarrow> g | None \<Rightarrow> ?f)\<rparr>"
    using run o(1) opn by (cases "block_action E P cmd ?v") (auto simp: run_block_command_def bind_op_def cong: option.case_cong)
  note A = block_action_effect [OF vols kept lens rd a, unfolded W]
  define new where "new = block_fresh P cmd (us_volumes s)"
  have fresh: "wp_data E ?p j = None" if "j \<in> new" for j
    using that rd [unfolded W] fresh_None by (auto simp: new_def block_fresh_def split: if_splits)
  consider (saved) "is_ok r" "bv_saved E env (wp_data E ?p) ?m new (volumes_after P cmd (us_volumes s)) v'"
    | (kept) "bv_kept E env (wp_data E ?p) ?f new v'" "is_ok r \<Longrightarrow> volumes_after P cmd (us_volumes s) = us_volumes s"
    using A by (auto simp: new_def)
  then show ?thesis
  proof cases
    case saved
    then have k: "bv_kept E env (wp_data E ?p) (Stored (bv_volumes v')) (new \<union> ran (vol_caps ?m)) v'"
      "ran (vol_caps (bv_volumes v')) \<subseteq> new \<union> ran (vol_caps ?m)" "vols_ok (bv_data E v') (bv_volumes v')"
      "volumes_of E v' = volumes_after P cmd (us_volumes s)"
      by (simp_all add: bv_saved_def)
    have same: "bv_data E v' j = wp_data E ?p j" if "j \<notin> new \<union> ran (vol_caps ?m)" for j
      using k(1) that by (simp add: bv_kept_def)
    note N = laid_out_volumes [OF o(7) fresh k(3,2) same]
    have "represents E env (left_behind (wp_store (bv_pipeline v')) (d\<lparr>dk_file := Some f, dk_volumes := Stored (bv_volumes v')\<rparr>))
      (s\<lparr>us_volumes := named_data (bv_data E v') (vol_caps (bv_volumes v'))\<rparr>)"
      by (rule left_behind_represents) (use k(1) N o(4) in \<open>auto simp: bv_kept_def names_saved_def disk_volumes_def\<close>)
    moreover have "d' = left_behind (wp_store (bv_pipeline v')) (d\<lparr>dk_file := Some f, dk_volumes := Stored (bv_volumes v')\<rparr>)"
      using k(1) by (simp add: d' bv_kept_def left_behind_def)
    ultimately show ?thesis using A saved(1) k(4) by (simp add: next_state_def truthful_def volumes_of_def)
  next
    case kept
    have lay: "laid_out (bv_data E v') ?k ?m s"
    proof (rule laid_out_more [OF o(7)])
      show "bv_data E v' j = wp_data E ?p j" if "wp_data E ?p j \<noteq> None" for j
        using kept(1) fresh [of j] that by (auto simp: bv_kept_def)
    qed
    have "represents E env (left_behind (wp_store (bv_pipeline v')) (d\<lparr>dk_file := Some f\<rparr>)) s"
      by (rule left_behind_represents) (use kept lay o(4) in \<open>simp_all add: bv_kept_def\<close>)
    moreover have "d' = left_behind (wp_store (bv_pipeline v')) (d\<lparr>dk_file := Some f\<rparr>)"
      using kept by (simp add: d' bv_kept_def left_behind_def)
    ultimately show ?thesis using A kept(2) by (simp add: next_state_def truthful_def)
  qed
qed

lemma command_simulates:
  assumes "command_run E V env e d d'" "represents E env d s" "env_ok E env"
  shows "represents E env d' (next_state e s) \<and> truthful V e s"
  using assms(1)
proof cases
  case (command_run P cmd r)
  note c = command_run
  show ?thesis
  proof (cases cmd)
    case (Create path)
    then show ?thesis using create_simulates [OF assms(2) c(4) assms(3) c(2), of path r d'] c(5,6) by (simp add: c(1) run_command_def)
  next
    case (Read name)
    then show ?thesis using read_simulates [OF assms(2) c(4) assms(3) c(2), of V name r d'] c(6) by (simp add: c(1) run_command_def next_state_def)
  next
    case List
    then show ?thesis using list_simulates [OF assms(2) c(4) assms(3) c(2), of r d' V] c(6) by (simp add: c(1) run_command_def next_state_def)
  next
    case (Nfs cmd')
    then show ?thesis using nfs_simulates [OF assms(2) c(4) assms(3) c(2), of cmd' r d' V] c(3,5,6) by (simp add: c(1) run_command_def)
  next
    case (Block cmd')
    then show ?thesis using block_simulates [OF assms(2) c(4) assms(3) c(2), of cmd' r d' V] c(3,5,6) by (simp add: c(1) run_command_def)
  qed
qed

lemma session_simulates:
  assumes "session E V env es d d'" "represents E env d s" "env_ok E env"
  shows "truthful_all V es s \<and> represents E env d' (fold next_state es s)"
  using assms
proof (induction arbitrary: s rule: session.induct)
  case (ses_step e d d' es d'')
  note C = command_simulates [OF ses_step.hyps(1) ses_step.prems]
  then show ?case using ses_step.IH [of "next_state e s"] ses_step.prems(2) by simp
qed simp

text \<open>A capsule a user has created stays: no command removes it, and no later one has its identifier.\<close>

lemma capsules_kept: "truthful_all V es s \<Longrightarrow> us_capsules s cid = Some data \<Longrightarrow> us_capsules (fold next_state es s) cid = Some data"
proof (induction es arbitrary: s)
  case (Cons e es)
  have "us_capsules (next_state e s) cid = Some data"
    using Cons.prems by (auto simp: next_state_def truthful_def split: cli_command.splits option.splits)
  then show ?case using Cons by simp
qed simp

end
