(* ===== verification/Spacectl_Properties.thy ===== *)
theory Spacectl_Properties
  imports Spacectl_Sessions Zero_Trust_Properties
begin

text \<open>
  The properties of the command line: sessions of processes on one disk behave as their specification, a
  created capsule is read back by every later process, and what the S3 server loses when it is restarted.
\<close>

section \<open>Sessions\<close>

text \<open>C3: The commands of the program refine their specification: whatever sequence of processes creates, reads and lists
  capsules, works on files and works on volumes on a disk, each started anew from the files the one before
  it left, with the same keys and with system calls that succeed, every process prints what the specification says of the state so far (a file, a capsule or a
  range of a volume is printed byte by byte as it was last written, listings are complete, deletions
  succeed exactly where they may), a command that fails changes nothing a user sees, and capsules, files
  and volumes do not disturb each other although they share one store. The sessions are those of \<open>command_run\<close>:
  paths without backslashes, sizes that fit, fresh identifiers, and data the store has room for and can read back.\<close>

theorem spacectl_refines:
  assumes "env_ok E env" "represents E env d s" "session E V env es d d'"
  shows "truthful_all V es s \<and> represents E env d' (fold next_state es s)"
  by (rule session_simulates [OF assms(3,2,1)])

text \<open>C31: A capsule outlives the process: the identifier printed by \<open>create\<close> makes \<open>read\<close> print the bytes of the file in
  any later process, whatever commands of a session (under the conditions of \<open>command_run\<close>) ran in between.\<close>

theorem created_capsule_readable:
  assumes "env_ok E env" "represents E env d s"
    and "command_run E V env (P, Create path, Ok (CapsuleCreated cid n)) d d1" "session E V env es d1 d2"
    and "command_run E V env (P', Read name, r) d2 d3" "vx_parse_uuid V name = Some (as_uuid cid)"
  shows "\<exists>data. pr_files P path = Some data \<and> n = length data \<and> r = Ok (RawBytes data)"
proof -
  let ?e = "(P, Create path, Ok (CapsuleCreated cid n))"
  note C = command_simulates [OF assms(3,2,1)]
  note S = session_simulates [OF assms(4) conjunct1 [OF C] assms(1)]
  note R = command_simulates [OF assms(5) conjunct2 [OF S] assms(1)]
  obtain data where data: "pr_files P path = Some data" "cid = pr_fresh P" "n = length data"
    using C by (auto simp: truthful_def)
  have "us_capsules (next_state ?e s) cid = Some data" using data by (simp add: next_state_def)
  then have "us_capsules (fold next_state es (next_state ?e s)) cid = Some data"
    using capsules_kept S by blast
  moreover have "CapsuleId (as_uuid cid) = cid" by (cases cid) simp
  ultimately show ?thesis using R assms(6) data by (auto simp: truthful_def)
qed

section \<open>The S3 server\<close>

lemma start_server_opens:
  assumes "env_ok E env" "represents E env d s" "few_refs d" "settled env P"
  obtains rg lg f where "start_server loads vars P d = (Ok (server_new loads vars (s3_new rg lg env)), d\<lparr>dk_file := Some f\<rparr>)"
    "running E env (wp_new rg lg env)" "opened env d = Some (wp_new rg lg env)"
proof -
  obtain rg lg f where o: "open_store P d = (Ok (rg, lg), d\<lparr>dk_file := Some f\<rparr>)" "opened env d = Some (wp_new rg lg env)"
    "running E env (wp_new rg lg env)" "pr_keys P = env"
    by (rule represents_opens [OF assms(2,3,1,4)])
  then show thesis using that [of rg lg f] by (simp add: start_server_def bind_op_def return_op_def)
qed

lemma serve_put_running:
  assumes run: "running E env (s3_pipeline (sv_view sv))" and rd: "service_ready E body (s3_pipeline (sv_view sv))"
    "\<not> has_capsule (s3_pipeline (sv_view sv)) fresh"
    and req: "rq_route req = PutRoute bucket key body" "serve E H clk fresh now req sv = (resp, sv')" "rs_status resp = 200"
  shows "running E env (s3_pipeline (sv_view sv'))" "wp_data E (s3_pipeline (sv_view sv')) fresh = Some body"
proof -
  let ?v = "sv_view sv"
  obtain q v where p: "put_object E clk fresh now bucket key body ?v = (q, v)" by fastforce
  have "handle E H clk fresh now (rq_route req) ?v = (resp, sv_view sv')"
    using serve_handles [OF req(2)] req(3) by (auto simp: refused_def)
  then have h: "sv_view sv' = v" "is_ok q"
    using p req(1,3) by (cases q; auto simp: handle_def http_put_def respond_def)+
  obtain q2 p2 where w: "write_capsule E clk fresh body (s3_pipeline ?v) = (q2, p2)" by fastforce
  note R = running_put [OF run rd w]
  have o: "on_s3_pipeline (write_capsule E clk fresh body) ?v = (q2, ?v\<lparr>s3_pipeline := p2\<rparr>)"
    using w by (simp add: on_s3_pipeline_def zoom_def)
  have q2: "q2 = Ok fresh \<and> s3_pipeline v = p2"
  proof (cases q2)
    case (Err e)
    then show ?thesis using p o h(2) by (auto simp: put_object_def bind_op_def)
  next
    case (Ok x)
    then show ?thesis using p o h(2) R(3) [OF Ok] by (cases now) (auto simp: put_object_def bind_op_def lift_result_def ok_or_def)
  qed
  show "running E env (s3_pipeline (sv_view sv'))" "wp_data E (s3_pipeline (sv_view sv')) fresh = Some body"
    using h(1) R(1) R(3) [of fresh] q2 by simp_all
qed

text \<open>C32: The names of the objects live in the memory of the server alone: a server that is started again over the files of
  one that has stored an object answers no request for any key with success, and lists nothing, although
  the bytes of the object are still there, in a capsule nothing refers to any more.\<close>

theorem s3_restart_forgets:
  assumes "env_ok E env" "represents E env d s" "few_refs d" "settled env P"
    and "start_server loads vars P d = (Ok sv, d1)"
    and "service_ready E body (s3_pipeline (sv_view sv))" "\<not> has_capsule (s3_pipeline (sv_view sv)) fresh"
    and "rq_route req = PutRoute bucket key body" "serve E H clk fresh now req sv = (resp, sv')" "rs_status resp = 200"
    and "few_refs (server_ended sv' d1)" "settled env P'"
  shows "\<exists>sv2 d2. start_server loads' vars' P' (server_ended sv' d1) = (Ok sv2, d2) \<and>
    fst (read_capsule E fresh (s3_pipeline (sv_view sv2))) = Ok body \<and>
    (\<forall>b k. rs_status (fst (http_get E b k (sv_view sv2))) = 404 \<and> list_objects b (sv_view sv2) = [])"
proof -
  obtain rg lg f where o: "sv = server_new loads vars (s3_new rg lg env)" "running E env (wp_new rg lg env)"
    using start_server_opens [OF assms(1-4), of loads vars] assms(5) by (metis Pair_inject result.inject(1))
  have pl: "s3_pipeline (sv_view sv) = wp_new rg lg env" by (simp add: o(1) server_new_def s3_new_def)
  have "running E env (s3_pipeline (sv_view sv))" using o(2) pl by simp
  note R = serve_put_running [OF this assms(6-10)]
  have st: "stored E env (server_ended sv' d1) (wp_data E (s3_pipeline (sv_view sv')))"
    unfolding server_ended_def by (rule running_stored [OF R(1)])
  obtain rg2 lg2 f2 where n: "open_registry_and_nvram [] [] (server_ended sv' d1) = (Ok (rg2, lg2), (server_ended sv' d1)\<lparr>dk_file := Some f2\<rparr>)"
    "running E env (wp_new rg2 lg2 env)" "wp_data E (wp_new rg2 lg2 env) = wp_data E (s3_pipeline (sv_view sv'))"
    by (rule stored_opens [OF st assms(11,1)])
  let ?sv2 = "server_new loads' vars' (s3_new rg2 lg2 env)"
  have "start_server loads' vars' P' (server_ended sv' d1) = (Ok ?sv2, (server_ended sv' d1)\<lparr>dk_file := Some f2\<rparr>)"
    using n(1) assms(12) by (simp add: start_server_def open_store_def settled_def bind_op_def return_op_def)
  moreover have "fst (read_capsule E fresh (s3_pipeline (sv_view ?sv2))) = Ok body"
    using running_get(3) [OF n(2), of fresh] n(3) R(2)
    by (cases "read_capsule E fresh (wp_new rg2 lg2 env)") (simp add: server_new_def s3_new_def)
  moreover have "rs_status (fst (http_get E b k (sv_view ?sv2))) = 404 \<and> list_objects b (sv_view ?sv2) = []" for b k
    by (simp add: http_get_def get_object_def bind_op_def lift_result_def ok_or_def server_new_def s3_new_def respond_def
        list_objects_def btree_entries_def)
  ultimately show ?thesis by blast
qed

section \<open>A session on an empty directory\<close>

definition blank_disk :: disk where
  "blank_disk = \<lparr>dk_registry = Absent, dk_file = None, dk_segments = Absent, dk_namespace = Absent, dk_volumes = Absent\<rparr>"

definition blank_state :: user_state where
  "blank_state = \<lparr>us_capsules = Map.empty, us_files = [[] \<mapsto> Dir], us_volumes = Map.empty\<rparr>"

definition no_keys :: "(key_manager, encryption_error) result" where
  "no_keys = Err KeyDerivationFailed"

definition sample_process :: process where
  "sample_process = \<lparr>pr_files = [''in'' \<mapsto> sample_data], pr_keys = no_keys, pr_clock = Some 0, pr_now = Some 0,
     pr_fresh = CapsuleId [1], pr_registry_io = [], pr_log_io = [], pr_view_io = []\<rparr>"

definition sample_views :: view_ext where
  "sample_views = \<lparr>vx_uuid = (\<lambda>u. ''id''), vx_parse_uuid = (\<lambda>s. Some [1]), vx_capsule_json = (\<lambda>c. [])\<rparr>"

lemma sample_env: "env_ok sample_ext no_keys" "settled no_keys sample_process" "few_refs blank_disk"
  by (simp_all add: env_ok_def sample_xts_laws no_keys_def settled_def sample_process_def few_refs_def blank_disk_def)

lemma blank_represents: "represents sample_ext no_keys blank_disk blank_state"
proof -
  let ?p = "sample_pipeline None"
  have "contents sample_ext kf (wp_store ?p) cid = Err CapsuleNotFound" for kf cid
    by (simp add: contents_def reg_lookup_def sample_pipeline_def empty_registry_def)
  then have data: "wp_data sample_ext ?p = Map.empty" by (simp add: wp_data_def fun_eq_iff)
  have "sizes_ok sample_ext ?p" by (simp add: sizes_ok_def sample_pipeline_def empty_registry_def)
  then have "running sample_ext no_keys ?p"
    using sample_inv(1)
    by (simp add: running_def service_inv_def sample_xts_laws wp_keys_def env_keys_def no_keys_def sample_pipeline_def synced_def
        log_synced_def registry_synced_def empty_registry_def saved_registry_def ids_below_def)
  moreover have "holds_store blank_disk (wp_store ?p)"
    by (simp add: holds_store_def blank_disk_def sample_pipeline_def empty_registry_def)
  ultimately have st: "stored sample_ext no_keys blank_disk Map.empty" using data unfolding stored_def by blast
  have k: "kind_of (disk_nodes 0 blank_disk) = [[] \<mapsto> Directory]" by (simp add: disk_nodes_def blank_disk_def new_root)
  have "laid_out Map.empty (kind_of (disk_nodes 0 blank_disk)) (disk_volumes blank_disk) blank_state"
    unfolding k
    by (rule laid_outI) (auto simp: files_ok_def names_live_def file_caps_def vols_ok_def vol_caps_def disk_volumes_def blank_disk_def
        blank_state_def fs_view_def named_data_def fun_eq_iff ran_def split: if_splits)
  then show ?thesis using st unfolding represents_def by (auto simp: names_saved_def blank_disk_def)
qed

lemma blank_reconciled: "reconcile_refcounts (wp_store (sample_pipeline None)) = (Ok (), wp_store (sample_pipeline None))"
  by (simp add: reconcile_refcounts_def op_simps gc_sweep_def nv_list_segments_def sample_pipeline_def)

lemma blank_opened:
  "open_store sample_process blank_disk = (Ok (empty_registry, empty_log []), blank_disk\<lparr>dk_file := Some []\<rparr>)"
  "wp_new empty_registry (empty_log []) no_keys = sample_pipeline None" "opened no_keys blank_disk = Some (sample_pipeline None)"
proof -
  have o: "open_registry_and_nvram [] [] blank_disk = (Ok (empty_registry, empty_log []), blank_disk\<lparr>dk_file := Some []\<rparr>)"
    by (simp add: open_registry_and_nvram_def blank_disk_def reg_open_empty nv_open_def Let_def empty_log_def)
  then show "open_store sample_process blank_disk = (Ok (empty_registry, empty_log []), blank_disk\<lparr>dk_file := Some []\<rparr>)"
    by (simp add: open_store_def sample_process_def)
  show n: "wp_new empty_registry (empty_log []) no_keys = sample_pipeline None"
    using blank_reconciled by (simp add: wp_new_def no_keys_def sample_pipeline_def)
  show "opened no_keys blank_disk = Some (sample_pipeline None)" using o n by (simp add: opened_def)
qed

lemma sample_write_ready: "write_ready sample_ext sample_process sample_data (sample_pipeline None)"
  using sample_data_fits sample_readable [OF sample_compression(2)]
  by (simp add: write_ready_def service_ready_def has_capsule_def sample_pipeline_def empty_registry_def)

lemma sample_created:
  obtains p where "write_capsule sample_ext (Some 0) (CapsuleId [1]) sample_data (sample_pipeline None) = (Ok (CapsuleId [1]), p)"
    "few_refs (left_behind (wp_store p) d)"
proof -
  have "\<exists>p. write_capsule sample_ext (Some 0) (CapsuleId [1]) sample_data (sample_pipeline None) = (Ok (CapsuleId [1]), p) \<and>
      few_refs (left_behind (wp_store p) d)"
    by (simp add: write_capsule_def) (simp add: run_defs few_refs_def left_behind_def reg_snapshot_def capsule_refs_def)
  then show thesis using that by blast
qed

text \<open>Creating a capsule from the file \<open>in\<close>.\<close>

abbreviation sample_create :: event where
  "sample_create \<equiv> (sample_process, Create ''in'', Ok (CapsuleCreated (CapsuleId [1]) 20))"

lemma sample_create_run:
  obtains d1 where "command_run sample_ext V no_keys sample_create blank_disk d1" "few_refs d1"
proof -
  obtain p where p: "write_capsule sample_ext (Some 0) (CapsuleId [1]) sample_data (sample_pipeline None) = (Ok (CapsuleId [1]), p)"
    "few_refs (left_behind (wp_store p) (blank_disk\<lparr>dk_file := Some []\<rparr>))"
    by (rule sample_created)
  let ?d1 = "left_behind (wp_store p) (blank_disk\<lparr>dk_file := Some []\<rparr>)"
  have keys: "pr_keys sample_process = no_keys" by (simp add: sample_process_def)
  have parts: "pr_files sample_process ''in'' = Some sample_data" "pr_clock sample_process = Some 0" "pr_fresh sample_process = CapsuleId [1]"
    by (simp_all add: sample_process_def)
  have w: "with_pipeline sample_process (write_capsule sample_ext (Some 0) (CapsuleId [1]) sample_data) blank_disk = (Ok (CapsuleId [1]), ?d1)"
    by (rule with_pipeline_run [OF blank_opened(1)]) (simp add: keys blank_opened(2) p(1))
  have "run_command sample_ext V sample_process (Create ''in'') blank_disk = (Ok (CapsuleCreated (CapsuleId [1]) 20), ?d1)"
    using w sample_data_facts(2) parts by (simp add: run_command_def create_command_def fs_read_def bind_op_def lift_result_def return_op_def)
  then have "command_run sample_ext V no_keys sample_create blank_disk ?d1"
    by (intro command_run sample_env) (use sample_write_ready blank_opened(3) in \<open>auto simp: sample_process_def\<close>)
  then show thesis using that p(2) by blast
qed

theorem spacectl_refines_witness:
  "\<exists>d'. session sample_ext sample_views no_keys [sample_create] blank_disk d' \<and>
     represents sample_ext no_keys d' (blank_state\<lparr>us_capsules := [CapsuleId [1] \<mapsto> sample_data]\<rparr>)"
proof -
  obtain d1 where c: "command_run sample_ext sample_views no_keys sample_create blank_disk d1" by (rule sample_create_run)
  then have s: "session sample_ext sample_views no_keys [sample_create] blank_disk d1" by (rule ses_step) (rule ses_nil)
  have "next_state sample_create blank_state = blank_state\<lparr>us_capsules := [CapsuleId [1] \<mapsto> sample_data]\<rparr>"
    by (simp add: next_state_def sample_process_def blank_state_def)
  then show ?thesis using spacectl_refines [OF sample_env(1) blank_represents s] s by auto
qed

theorem created_capsule_readable_witness:
  "\<exists>d1 d2. command_run sample_ext sample_views no_keys sample_create blank_disk d1 \<and>
     run_command sample_ext sample_views sample_process (Read ''id'') d1 = (Ok (RawBytes sample_data), d2)"
proof -
  obtain d1 where c: "command_run sample_ext sample_views no_keys sample_create blank_disk d1" "few_refs d1" by (rule sample_create_run)
  obtain r d2 where r: "run_command sample_ext sample_views sample_process (Read ''id'') d1 = (r, d2)" by fastforce
  have "command_run sample_ext sample_views no_keys (sample_process, Read ''id'', r) d1 d2"
    by (rule command_run [OF sample_env(2) _ c(2) _ r]) simp_all
  from created_capsule_readable [OF sample_env(1) blank_represents c(1) ses_nil this]
  have "r = Ok (RawBytes sample_data)" by (simp add: sample_views_def sample_process_def)
  then show ?thesis using c(1) r by blast
qed

text \<open>A server without a gateway stores an object; the server started next has none.\<close>

definition sample_put_request :: request where
  "sample_put_request = \<lparr>rq_header = (\<lambda>name. Some [65]), rq_route = PutRoute ''b'' ''k'' sample_data\<rparr>"

theorem s3_restart_forgets_witness:
  "\<exists>sv d1 sv' sv2 d2.
     start_server (\<lambda>p. True) (\<lambda>n. None) sample_process blank_disk = (Ok sv, d1) \<and>
     rs_status (fst (serve sample_ext sample_http (Some 0) (CapsuleId [1]) (Some 0) sample_put_request sv)) = 200 \<and>
     start_server (\<lambda>p. True) (\<lambda>n. None) sample_process
       (server_ended (snd (serve sample_ext sample_http (Some 0) (CapsuleId [1]) (Some 0) sample_put_request sv)) d1) = (Ok sv2, d2) \<and>
     rs_status (fst (http_get sample_ext ''b'' ''k'' (sv_view sv2))) = 404"
proof -
  let ?sv = "server_new (\<lambda>p. True) (\<lambda>n. None) (s3_new empty_registry (empty_log []) no_keys)"
  let ?put = "serve sample_ext sample_http (Some 0) (CapsuleId [1]) (Some 0) sample_put_request ?sv"
  let ?d1 = "blank_disk\<lparr>dk_file := Some []\<rparr>"
  have st: "start_server (\<lambda>p. True) (\<lambda>n. None) sample_process blank_disk = (Ok ?sv, ?d1)"
    using blank_opened(1) by (simp add: start_server_def bind_op_def return_op_def sample_process_def)
  have pl: "s3_pipeline (sv_view ?sv) = sample_pipeline None" by (simp add: server_new_def s3_new_def blank_opened(2))
  obtain p where p: "write_capsule sample_ext (Some 0) (CapsuleId [1]) sample_data (sample_pipeline None) = (Ok (CapsuleId [1]), p)"
    "few_refs (left_behind (wp_store p) ?d1)"
    by (rule sample_created)
  obtain v where v: "put_object sample_ext (Some 0) (CapsuleId [1]) (Some 0) ''b'' ''k'' sample_data (sv_view ?sv) = (Ok (CapsuleId [1]), v)"
    "s3_pipeline v = p"
    using p(1) pl by (simp add: put_object_def bind_op_def on_s3_pipeline_def zoom_def lift_result_def ok_or_def)
  have h: "handle sample_ext sample_http (Some 0) (CapsuleId [1]) (Some 0) (rq_route sample_put_request) (sv_view ?sv) =
      (respond 200 [(''ETag'', etag sample_http (CapsuleId [1]))] NoBody, v)"
    using v(1) by (simp add: handle_def sample_put_request_def http_put_def)
  have "trim [] = []" by code_simp
  then obtain gw where gw: "sv_gateway ?sv = Some gw" "gw_allowed gw = {}"
    by (simp add: server_new_def init_gateway_def gateway_new_def gateway_config_def allow_list_of_def)
  have "authorize sample_http (mtls_header sample_http gw) (gw_allowed gw) sample_put_request = Ok ''A''"
    using gw(2) sample_to_str(1) by (simp add: authorize_ok sample_put_request_def)
  then have put: "?put = (respond 200 [(''ETag'', etag sample_http (CapsuleId [1]))] NoBody, ?sv\<lparr>sv_view := v\<rparr>)"
    using gw(1) h by (simp add: serve_def enforce_mtls_def on_view_def)
  have few: "few_refs (server_ended (snd ?put) ?d1)" using p(2) v(2) put by (simp add: server_ended_def)
  have rd: "service_ready sample_ext sample_data (s3_pipeline (sv_view ?sv))" "\<not> has_capsule (s3_pipeline (sv_view ?sv)) (CapsuleId [1])"
    using sample_write_ready pl by (simp_all add: write_ready_def sample_process_def)
  have rt: "rq_route sample_put_request = PutRoute ''b'' ''k'' sample_data" by (simp add: sample_put_request_def)
  have ok: "rs_status (fst ?put) = 200" by (simp add: put respond_def)
  from s3_restart_forgets [OF sample_env(1) blank_represents sample_env(3,2) st rd rt prod.collapse [symmetric] ok few sample_env(2)]
  show ?thesis using st ok by blast
qed

end
