(* ===== verification/Scaling_Agent.thy ===== *)
theory Scaling_Agent
  imports Mesh_Replication
begin

text \<open>
  The executors of the scaling agent of \<open>crates/scaling/src/agent.rs\<close>: what carrying out an action does to
  the network of the node and to its log. In this version every executor reports what it would do and
  returns; the log lines are values here.
\<close>

section \<open>Executors\<close>

datatype agent_line =
    ExecutingReplication capsule_id scaling_strategy nat
  | WouldMirror node_id
  | QueuingAsync duration
  | NoReplicationRequired
  | ExecutingMigration capsule_id node_id string bool
  | WouldTransform
  | MigrationQueued
  | FederateNoop capsule_id zone_id
  | ShardNoop capsule_id nat
  | ExecutingEvacuation node_id string evacuation_urgency
  | InitiatingEvacuation evacuation_urgency
  | ExecutingRebalancing nat nat
  | RebalancingQueued

record agent_state =
  as_network :: network
  as_log :: "agent_line list"

type_synonym 'a agent_op = "(agent_state, 'a, error) op"

definition agent_say :: "agent_line \<Rightarrow> unit agent_op" where
  "agent_say line s = (Ok (), s\<lparr>as_log := as_log s @ [line]\<rparr>)"

definition execute_replication :: "capsule_id \<Rightarrow> scaling_strategy \<Rightarrow> node_id list \<Rightarrow> unit agent_op" where
  "execute_replication cid plan targets =
     bind_op (agent_say (ExecutingReplication cid plan (length targets))) (\<lambda>_.
       case plan of
         MetroSync replica_count \<Rightarrow> for_each (\<lambda>target. agent_say (WouldMirror target)) (take replica_count targets)
       | AsyncWithBatching rp \<Rightarrow> agent_say (QueuingAsync rp)
       | NoReplication \<Rightarrow> agent_say NoReplicationRequired)"

definition execute_migration :: "capsule_id \<Rightarrow> string \<Rightarrow> node_id \<Rightarrow> bool \<Rightarrow> unit agent_op" where
  "execute_migration cid reason destination transform =
     bind_op (agent_say (ExecutingMigration cid destination reason transform)) (\<lambda>_.
     bind_op (if transform then agent_say WouldTransform else return_op ()) (\<lambda>_.
       agent_say MigrationQueued))"

definition execute_evacuation :: "node_id \<Rightarrow> string \<Rightarrow> evacuation_urgency \<Rightarrow> unit agent_op" where
  "execute_evacuation source_node reason urgency =
     bind_op (agent_say (ExecutingEvacuation source_node reason urgency)) (\<lambda>_. agent_say (InitiatingEvacuation urgency))"

definition execute_rebalancing :: "node_id list \<Rightarrow> node_id list \<Rightarrow> unit agent_op" where
  "execute_rebalancing overloaded underutilized =
     bind_op (agent_say (ExecutingRebalancing (length overloaded) (length underutilized))) (\<lambda>_. agent_say RebalancingQueued)"

definition execute_action :: "scaling_action \<Rightarrow> unit agent_op" where
  "execute_action action =
     (case action of
        Replicate cid plan targets \<Rightarrow> execute_replication cid plan targets
      | Migrate cid reason destination transform \<Rightarrow> execute_migration cid reason destination transform
      | Federate cid zone \<Rightarrow> agent_say (FederateNoop cid zone)
      | ShardEC cid parity zones \<Rightarrow> agent_say (ShardNoop cid (length zones))
      | Evacuate source_node reason urgency \<Rightarrow> execute_evacuation source_node reason urgency
      | Rebalance overloaded underutilized \<Rightarrow> execute_rebalancing overloaded underutilized)"

text \<open>The loop of \<open>run\<close> over a channel that is then closed; a failing action or event would only be logged.\<close>

definition handle_event :: "float_ops \<Rightarrow> mesh_node \<Rightarrow> telemetry \<Rightarrow> unit agent_op" where
  "handle_event F mn event = for_each (\<lambda>action. ignore_op (execute_action action)) (handle_telemetry_event F mn event)"

definition agent_loop :: "float_ops \<Rightarrow> mesh_node \<Rightarrow> telemetry list \<Rightarrow> unit agent_op" where
  "agent_loop F mn events = for_each (\<lambda>event. ignore_op (handle_event F mn event)) events"

section \<open>What the agent does\<close>

text \<open>The lines of an action.\<close>

fun action_lines :: "scaling_action \<Rightarrow> agent_line list" where
  "action_lines (Replicate cid plan targets) =
     ExecutingReplication cid plan (length targets) #
     (case plan of
        MetroSync n \<Rightarrow> map WouldMirror (take n targets)
      | AsyncWithBatching rp \<Rightarrow> [QueuingAsync rp]
      | NoReplication \<Rightarrow> [NoReplicationRequired])"
| "action_lines (Migrate cid reason destination transform) =
     ExecutingMigration cid destination reason transform # (if transform then [WouldTransform] else []) @ [MigrationQueued]"
| "action_lines (Evacuate source_node reason urgency) = [ExecutingEvacuation source_node reason urgency, InitiatingEvacuation urgency]"
| "action_lines (Rebalance overloaded underutilized) =
     [ExecutingRebalancing (length overloaded) (length underutilized), RebalancingQueued]"
| "action_lines (Federate cid zone) = [FederateNoop cid zone]"
| "action_lines (ShardEC cid parity zones) = [ShardNoop cid (length zones)]"

text \<open>An operation that only appends lines; loops of such operations append the lines of all their turns.\<close>

definition only_says :: "agent_line list \<Rightarrow> unit agent_op \<Rightarrow> bool" where
  "only_says ls m \<longleftrightarrow> (\<forall>s. m s = (Ok (), s\<lparr>as_log := as_log s @ ls\<rparr>))"

lemma only_says_intros:
  "only_says [line] (agent_say line)" "only_says [] (return_op ())"
  "only_says ls m \<Longrightarrow> only_says ls (ignore_op m)"
  "only_says ls m \<Longrightarrow> only_says ls' k \<Longrightarrow> only_says (ls @ ls') (bind_op m (\<lambda>_. k))"
  by (simp_all add: only_says_def agent_say_def op_simps)

lemma only_says_loop:
  "(\<And>x. x \<in> set xs \<Longrightarrow> only_says (f x) (g x)) \<Longrightarrow> only_says (concat (map f xs)) (for_each g xs)"
  by (induction xs) (simp_all add: only_says_def)

lemma execute_action_says: "only_says (action_lines action) (execute_action action)"
proof (cases action)
  case (Replicate cid plan targets)
  have loop: "only_says (map WouldMirror ts) (for_each (\<lambda>t. agent_say (WouldMirror t)) ts)" for ts
    using only_says_loop [of ts "\<lambda>t. [WouldMirror t]"] only_says_intros(1) by simp
  show ?thesis
    using only_says_intros(4) [OF only_says_intros(1)] loop only_says_intros(1) Replicate
    by (cases plan) (auto simp: execute_action_def execute_replication_def)
next
  case (Migrate cid reason destination transform)
  then show ?thesis
    by (cases transform) (simp_all add: execute_action_def execute_migration_def only_says_def agent_say_def op_simps)
next
  case (Evacuate source_node reason urgency)
  then show ?thesis by (simp add: execute_action_def execute_evacuation_def only_says_def agent_say_def op_simps)
next
  case (Rebalance overs unders)
  then show ?thesis by (simp add: execute_action_def execute_rebalancing_def only_says_def agent_say_def op_simps)
qed (simp_all add: execute_action_def only_says_intros)

lemma agent_loop_says: "only_says (concat (map action_lines (run_agent F mn events))) (agent_loop F mn events)"
proof -
  have "only_says (concat (map action_lines (handle_telemetry_event F mn event))) (handle_event F mn event)" for event
    unfolding handle_event_def by (rule only_says_loop) (rule only_says_intros(3) [OF execute_action_says])
  then have "only_says (concat (map (\<lambda>event. concat (map action_lines (handle_telemetry_event F mn event))) events)) (agent_loop F mn events)"
    unfolding agent_loop_def by (intro only_says_loop only_says_intros(3))
  moreover have "concat (map (\<lambda>event. concat (map action_lines (handle_telemetry_event F mn event))) events) =
      concat (map action_lines (run_agent F mn events))"
    by (induction events) simp_all
  ultimately show ?thesis by simp
qed

text \<open>The agent survives every sequence of events and carries none of its decisions out: it returns when the channel is
  closed, nothing is ever sent, connected or written on the network, and the only trace of the actions compiled from
  the events, in their order, is what it logs of each.\<close>

theorem agent_only_logs:
  "agent_loop F mn events s = (Ok (), s\<lparr>as_log := as_log s @ concat (map action_lines (run_agent F mn events))\<rparr>) \<and>
   as_network (snd (agent_loop F mn events s)) = as_network s"
  using agent_loop_says [of F mn events] by (simp add: only_says_def)

end
