(* ===== verification/Simulations.thy ===== *)
theory Simulations
  imports View_Sample Text_Format
begin

text \<open>
  The simulations: \<open>crates/sim-nvram\<close>, which opens a log under another path and which the pipeline turns to
  when \<open>SPACE_SIM_MODE\<close> says so, the decisions of \<open>crates/sim-nvmeof\<close> before it serves, and the placeholder
  \<open>crates/sim-other\<close>.
\<close>

section \<open>Simulated NVRAM\<close>

record nvram_sim_config =
  ns_backing_path :: string
  ns_enable_fault_injection :: bool
  ns_simulated_latency_us :: u64

definition default_nvram_sim :: nvram_sim_config where
  "default_nvram_sim = \<lparr>ns_backing_path = ''sim_nvram.log'', ns_enable_fault_injection = False, ns_simulated_latency_us = 0\<rparr>"

text \<open>The logs of a file system: the data file and the segment metadata beside it.\<close>

type_synonym log_files = "string \<Rightarrow> bytes option \<times> (segment_id, segment) hmap persisted"

definition start_nvram_sim :: "io_outcome list \<Rightarrow> string \<Rightarrow> (log_files, nvram_log, error) op" where
  "start_nvram_sim io path fs =
     (let f = (case fst (fs path) of None \<Rightarrow> [] | Some f \<Rightarrow> f)
      in (nv_open (Some f) (snd (fs path)) io, fs(path := (Some f, snd (fs path)))))"

text \<open>The latency and the fault injection of a configuration are only logged.\<close>

definition start_nvram_sim_with_config :: "io_outcome list \<Rightarrow> nvram_sim_config \<Rightarrow> (log_files, nvram_log, error) op" where
  "start_nvram_sim_with_config io config = start_nvram_sim io (ns_backing_path config)"

definition create_sim_transaction :: "nvram_log \<Rightarrow> (nvram_transaction, error) result" where
  "create_sim_transaction lg = Ok (nv_begin_transaction lg)"

text \<open>The first lines of \<open>WritePipeline::new\<close> and \<open>with_key_manager\<close>: the log the pipeline works on.\<close>

definition pipeline_log :: "string option \<Rightarrow> io_outcome list \<Rightarrow> nvram_log \<Rightarrow> log_files \<Rightarrow> nvram_log \<times> log_files" where
  "pipeline_log sim_mode io nvram fs =
     (if sim_mode = Some ''nvram''
      then (case start_nvram_sim io ''/sim/nvram/sim.log'' fs of
              (Ok sim_log, fs) \<Rightarrow> (sim_log, fs)
            | (Err _, fs) \<Rightarrow> (nvram, fs))
      else (nvram, fs))"

definition wp_new_in ::
  "string option \<Rightarrow> io_outcome list \<Rightarrow> registry \<Rightarrow> nvram_log \<Rightarrow> (key_manager, encryption_error) result \<Rightarrow> log_files \<Rightarrow>
   write_pipeline \<times> log_files" where
  "wp_new_in sim_mode io rg nvram env fs = (case pipeline_log sim_mode io nvram fs of (lg, fs) \<Rightarrow> (wp_new rg lg env, fs))"

definition with_key_manager_in ::
  "string option \<Rightarrow> io_outcome list \<Rightarrow> registry \<Rightarrow> nvram_log \<Rightarrow> key_manager \<Rightarrow> log_files \<Rightarrow> write_pipeline \<times> log_files" where
  "with_key_manager_in sim_mode io rg nvram km fs =
     (case pipeline_log sim_mode io nvram fs of (lg, fs) \<Rightarrow> (with_key_manager rg lg km, fs))"

section \<open>Simulated NVMe over fabrics\<close>

record nvmeof_sim_config =
  nf_node_id :: string
  nf_backing_path :: string
  nf_transport :: string
  nf_listen_addr :: string
  nf_listen_port :: "16 word"
  nf_subsystem_nqn :: string

definition default_nvmeof_sim :: nvmeof_sim_config where
  "default_nvmeof_sim =
     \<lparr>nf_node_id = ''sim-node1'', nf_backing_path = ''sim_nvmeof.img'', nf_transport = ''tcp'', nf_listen_addr = ''127.0.0.1'',
      nf_listen_port = 4420, nf_subsystem_nqn = ''nqn.2024-01.dev.adaptive-storage:space-sim''\<rparr>"

text \<open>\<open>str::lines\<close> and \<open>str::split_whitespace\<close>.\<close>

definition strip_cr :: "string \<Rightarrow> string" where
  "strip_cr l = (if l \<noteq> [] \<and> last l = CHR 0x0D then butlast l else l)"

definition lines_of :: "string \<Rightarrow> string list" where
  "lines_of s = (let ps = split_at CHR 0x0A s in map strip_cr (butlast ps) @ (if last ps = [] then [] else [last ps]))"

fun pieces :: "nat \<Rightarrow> string \<Rightarrow> string \<Rightarrow> string list" where
  "pieces k current [] = [current]"
| "pieces (Suc k) current (c # cs) = pieces k current cs"
| "pieces 0 current (c # cs) =
     (case find (\<lambda>w. take (length w) (c # cs) = w) white_space of
        Some w \<Rightarrow> current # pieces (length w - 1) [] cs
      | None \<Rightarrow> pieces 0 (current @ [c]) cs)"

definition split_whitespace :: "string \<Rightarrow> string list" where
  "split_whitespace s = filter (\<lambda>p. p \<noteq> []) (pieces 0 [] s)"

text \<open>\<open>check_hugepages_available\<close> on Linux, given what \<open>/proc/meminfo\<close> reads as.\<close>

definition hugepages_total :: "string \<Rightarrow> u32" where
  "hugepages_total meminfo =
     (case Option.bind (find (\<lambda>l. take 16 l = ''HugePages_Total:'') (lines_of meminfo)) (\<lambda>l.
           case split_whitespace l of _ # n # _ \<Rightarrow> parse_uint n | _ \<Rightarrow> None) of
        Some n \<Rightarrow> n | None \<Rightarrow> 0)"

definition check_hugepages_available :: "string option \<Rightarrow> (unit, error) result" where
  "check_hugepages_available meminfo =
     (case meminfo of
        None \<Rightarrow> Err IoError
      | Some text \<Rightarrow> if hugepages_total text = 0 then Err (ViewError ''Hugepages not configured'') else Ok ())"

definition is_spdk_available :: "string option \<Rightarrow> bool" where
  "is_spdk_available meminfo \<longleftrightarrow> is_ok (check_hugepages_available meminfo)"

text \<open>
  \<open>ensure_backing_file_exists\<close> over the set of existing files: \<open>truncate\<close> is run when the file is missing;
  \<open>output()\<close> fails only when the program cannot be started, its exit status is not looked at.
\<close>

datatype truncate_run = CannotStart | Exited bool

definition ensure_backing_file_exists :: "truncate_run \<Rightarrow> string \<Rightarrow> (string set, unit, error) op" where
  "ensure_backing_file_exists tr path files =
     (if path \<in> files then (Ok (), files)
      else (case tr of
          CannotStart \<Rightarrow> (Err IoError, files)
        | Exited success \<Rightarrow> (Ok (), if success then insert path files else files)))"

text \<open>The fallback answers every client that sends something; \<open>None\<close> stands for no answer.\<close>

datatype tcp_client = AcceptFailed | ReadFailed | Sent bytes

definition fallback_reply :: "tcp_client \<Rightarrow> string option" where
  "fallback_reply client = (case client of Sent bs \<Rightarrow> if bs = [] then None else Some [CHR ''O'', CHR ''K'', CHR 0x0A] | _ \<Rightarrow> None)"

datatype sim_outcome = Parked | FallbackServed "string option list"

definition run_tcp_fallback_sim :: "bool \<Rightarrow> tcp_client list \<Rightarrow> (sim_outcome, error) result" where
  "run_tcp_fallback_sim can_bind clients = (if can_bind then Ok (FallbackServed (map fallback_reply clients)) else Err IoError)"

text \<open>\<open>/proc/meminfo\<close> is read twice, as \<open>mem1\<close> and as \<open>mem2\<close>.\<close>

definition start_nvmeof_sim_with_config ::
  "string option \<Rightarrow> string option \<Rightarrow> truncate_run \<Rightarrow> bool \<Rightarrow> tcp_client list \<Rightarrow> nvmeof_sim_config \<Rightarrow> (string set, sim_outcome, error) op" where
  "start_nvmeof_sim_with_config mem1 mem2 tr can_bind clients config =
     bind_op (lift_result (check_hugepages_available mem1)) (\<lambda>_.
     bind_op (ensure_backing_file_exists tr (nf_backing_path config)) (\<lambda>_.
       if \<not> is_spdk_available mem2 then lift_result (run_tcp_fallback_sim can_bind clients) else return_op Parked))"

definition start_nvmeof_sim ::
  "string option \<Rightarrow> string option \<Rightarrow> truncate_run \<Rightarrow> bool \<Rightarrow> tcp_client list \<Rightarrow> string \<Rightarrow> string \<Rightarrow> (string set, sim_outcome, error) op" where
  "start_nvmeof_sim mem1 mem2 tr can_bind clients nid path =
     start_nvmeof_sim_with_config mem1 mem2 tr can_bind clients (default_nvmeof_sim\<lparr>nf_node_id := nid, nf_backing_path := path\<rparr>)"

text \<open>The binary of the simulation takes its configuration from the environment; a port that does not parse is the default one.\<close>

definition nvmeof_config_from_env :: "(string \<Rightarrow> string option) \<Rightarrow> nvmeof_sim_config" where
  "nvmeof_config_from_env env =
     (let var = (\<lambda>name default. case env name of Some v \<Rightarrow> v | None \<Rightarrow> default)
      in \<lparr>nf_node_id = var ''NODE_ID'' ''sim-node1'', nf_backing_path = var ''BACKING_PATH'' ''/sim/nvmeof/backing.img'',
          nf_transport = var ''TRANSPORT'' ''tcp'', nf_listen_addr = var ''LISTEN_ADDR'' ''0.0.0.0'',
          nf_listen_port = (case parse_uint (var ''LISTEN_PORT'' ''4420'') of Some p \<Rightarrow> p | None \<Rightarrow> 4420),
          nf_subsystem_nqn = var ''SUBSYSTEM_NQN'' ''nqn.2024-01.dev.adaptive-storage:space-sim''\<rparr>)"

definition nvmeof_main ::
  "(string \<Rightarrow> string option) \<Rightarrow> string option \<Rightarrow> string option \<Rightarrow> truncate_run \<Rightarrow> bool \<Rightarrow> tcp_client list \<Rightarrow> (string set, sim_outcome, error) op" where
  "nvmeof_main env mem1 mem2 tr can_bind clients =
     start_nvmeof_sim_with_config mem1 mem2 tr can_bind clients (nvmeof_config_from_env env)"

definition start_other_sim :: "(unit, error) result" where
  "start_other_sim = Ok ()"

section \<open>Properties\<close>

lemma meminfo_example: "split_whitespace ''HugePages_Total:  12'' = [''HugePages_Total:'', ''12'']" "lines_of ''ab'' = [''ab'']"
  by (simp_all add: split_whitespace_def white_space_def lines_of_def)

text \<open>The simulation of NVMe over fabrics never falls back to TCP: as long as \<open>/proc/meminfo\<close> reads the same twice, a
  machine without huge pages is refused before the fallback that is meant for it is considered, so the only
  way to serve is the path with SPDK.\<close>

theorem nvmeof_fallback_unreachable:
  "fst (start_nvmeof_sim mem mem tr can_bind clients nid path files) \<noteq> Ok (FallbackServed replies) \<and>
   (fst (start_nvmeof_sim mem mem tr can_bind clients nid path files) = Ok Parked \<longleftrightarrow>
     is_ok (check_hugepages_available mem) \<and> (path \<in> files \<or> tr \<noteq> CannotStart))"
  by (cases tr; cases "check_hugepages_available mem")
    (simp_all add: start_nvmeof_sim_def start_nvmeof_sim_with_config_def is_spdk_available_def op_simps ensure_backing_file_exists_def)

text \<open>Simulation mode changes the log but not the registry: a pipeline started with \<open>SPACE_SIM_MODE=nvram\<close> on a simulation
  log that does not exist yet cannot read any capsule of the registry that has data.\<close>

theorem sim_mode_hides_capsules:
  assumes "fs ''/sim/nvram/sim.log'' = (None, Absent)" "hm_get (reg_capsules rg) cid = Some c" "cap_segments c \<noteq> []"
  shows "\<not> is_ok (fst (read_capsule E cid (fst (wp_new_in (Some ''nvram'') io rg nvram env fs))))"
proof -
  let ?lg = "\<lparr>nv_file = [], nv_segment_map = [], nv_next_offset = 0, nv_saved = Absent, nv_io = io\<rparr>"
  have p: "fst (wp_new_in (Some ''nvram'') io rg nvram env fs) = wp_new rg ?lg env"
    using assms(1) by (simp add: wp_new_in_def pipeline_log_def start_nvram_sim_def nv_open_def Let_def)
  have "reconcile_refcounts \<lparr>st_registry = rg, st_nvram = ?lg\<rparr> = (Ok (), \<lparr>st_registry = rg, st_nvram = ?lg\<rparr>)"
    by (simp add: reconcile_refcounts_def op_simps gc_sweep_def nv_list_segments_def)
  then have st: "wp_store (wp_new rg ?lg env) = \<lparr>st_registry = rg, st_nvram = ?lg\<rparr>" by (simp add: wp_new_def)
  obtain sid sids where c: "cap_segments c = sid # sids" using assms(3) by (cases "cap_segments c") auto
  show ?thesis
    unfolding p using st assms(2) c
    by (simp add: read_capsule_def op_simps reg_lookup_def on_store_def on_nvram_def nv_read_def nv_get_segment_metadata_def)
qed

theorem sim_mode_hides_capsules_witness:
  "fst (read_capsule sample_ext (CapsuleId [1]) volume_pipeline) = Ok [1, 2] \<and>
   \<not> is_ok (fst (read_capsule sample_ext (CapsuleId [1]) (fst (wp_new_in (Some ''nvram'') [] (st_registry (wp_store volume_pipeline))
     (st_nvram (wp_store volume_pipeline)) (Err KeyDerivationFailed) (\<lambda>p. (None, Absent))))))"
  using volume_read
    sim_mode_hides_capsules [of "\<lambda>p. (None, Absent)" "st_registry (wp_store volume_pipeline)" "CapsuleId [1]" _ sample_ext "[]"
      "st_nvram (wp_store volume_pipeline)" "Err KeyDerivationFailed"]
  by (simp add: volume_pipeline_def empty_registry_def)

end
