(* ===== verification/Modular_Delegation.thy ===== *)
theory Modular_Delegation
  imports Spacectl Modular_Properties Pipeline_Properties
begin

text \<open>
  The feature \<open>modular_pipeline\<close>. With it the write pipeline of \<open>capsule-registry\<close> delegates its calls to a modular
  pipeline over the same registry and log, and \<open>spacectl --modular\<close> works on one directly. The handles share the registry and the log they were
  cloned from, so there is one store; the key manager, deduper and statistics of a handle are its own.
\<close>

section \<open>Handles over the shared store\<close>

fun handle_store :: "registry_pipeline_handle \<Rightarrow> store" where
  "handle_store (Encrypted p) = \<lparr>st_registry = pl_catalog p, st_nvram = pl_storage p\<rparr>"
| "handle_store (Plain p) = \<lparr>st_registry = pl_catalog p, st_nvram = pl_storage p\<rparr>"

fun handle_over :: "store \<Rightarrow> registry_pipeline_handle \<Rightarrow> registry_pipeline_handle" where
  "handle_over st (Encrypted p) = Encrypted (p\<lparr>pl_storage := st_nvram st, pl_catalog := st_registry st\<rparr>)"
| "handle_over st (Plain p) = Plain (p\<lparr>pl_storage := st_nvram st, pl_catalog := st_registry st\<rparr>)"

lemma handle_over_store [simp]: "handle_store (handle_over st h) = st"
  by (cases h) simp_all

section \<open>Delegation by the write pipeline\<close>

text \<open>The fields \<open>modular\<close> and \<open>runtime\<close> are set together.\<close>

record delegating_pipeline =
  dp_base :: write_pipeline
  dp_modular :: "registry_pipeline_handle option"

type_synonym 'a dp_op = "(delegating_pipeline, 'a, error) op"

text \<open>\<open>enabled\<close>: \<open>SPACE_DISABLE_MODULAR_PIPELINE\<close> is not set; \<open>runtime\<close>: a Tokio runtime could be created.\<close>

definition modular_part ::
  "bool \<Rightarrow> bool \<Rightarrow> registry \<Rightarrow> nvram_log \<Rightarrow> (key_manager, encryption_error) result \<Rightarrow> registry_pipeline_handle option" where
  "modular_part enabled runtime rg lg env =
     (if enabled \<and> runtime then Some (registry_pipeline_from_backend lg rg env) else None)"

definition dp_new ::
  "bool \<Rightarrow> bool \<Rightarrow> registry \<Rightarrow> nvram_log \<Rightarrow> (key_manager, encryption_error) result \<Rightarrow> delegating_pipeline" where
  "dp_new enabled runtime rg lg env = \<lparr>dp_base = wp_new rg lg env, dp_modular = modular_part enabled runtime rg lg env\<rparr>"

definition delegate :: "(registry_pipeline_handle, 'a, error) op \<Rightarrow> 'a wp_op \<Rightarrow> 'a dp_op" where
  "delegate m base dp =
     (case dp_modular dp of
        Some h \<Rightarrow>
          (case m (handle_over (wp_store (dp_base dp)) h) of
             (r, h) \<Rightarrow> (r, dp\<lparr>dp_base := (dp_base dp)\<lparr>wp_store := handle_store h\<rparr>, dp_modular := Some h\<rparr>))
      | None \<Rightarrow> (case base (dp_base dp) of (r, p) \<Rightarrow> (r, dp\<lparr>dp_base := p\<rparr>)))"

definition dp_write_capsule_with_policy ::
  "ext \<Rightarrow> u64 option \<Rightarrow> capsule_id \<Rightarrow> bytes \<Rightarrow> policy \<Rightarrow> capsule_id dp_op" where
  "dp_write_capsule_with_policy E now cid data pol =
     delegate (handle_write_capsule E now cid data pol) (write_capsule_with_policy E now cid data pol)"

definition dp_write_capsule :: "ext \<Rightarrow> u64 option \<Rightarrow> capsule_id \<Rightarrow> bytes \<Rightarrow> capsule_id dp_op" where
  "dp_write_capsule E now cid data = dp_write_capsule_with_policy E now cid data default_policy"

definition dp_read_capsule :: "ext \<Rightarrow> capsule_id \<Rightarrow> bytes dp_op" where
  "dp_read_capsule E cid = delegate (\<lambda>h. (handle_read_capsule E cid h, h)) (read_capsule E cid)"

definition dp_delete_capsule :: "ext \<Rightarrow> capsule_id \<Rightarrow> unit dp_op" where
  "dp_delete_capsule E cid = delegate (handle_delete_capsule E cid) (delete_capsule cid)"

definition dp_garbage_collect :: "ext \<Rightarrow> nat dp_op" where
  "dp_garbage_collect E = delegate (handle_garbage_collect E) garbage_collect"

section \<open>The flag of the command line\<close>

text \<open>\<open>build_modular_pipeline_handle\<close> opens the log after the registry, as the other commands do.\<close>

definition with_handle :: "process \<Rightarrow> (registry_pipeline_handle, 'a, error) op \<Rightarrow> 'a disk_op" where
  "with_handle P m =
     bind_op (open_store P) (\<lambda>(rg, lg) d.
       case m (registry_pipeline_from_backend lg rg (pr_keys P)) of (r, h) \<Rightarrow> (r, left_behind (handle_store h) d))"

definition modular_write_capsule :: "ext \<Rightarrow> process \<Rightarrow> bytes \<Rightarrow> capsule_id disk_op" where
  "modular_write_capsule E P data = with_handle P (handle_write_capsule E (pr_clock P) (pr_fresh P) data default_policy)"

definition modular_read_capsule :: "ext \<Rightarrow> process \<Rightarrow> capsule_id \<Rightarrow> bytes disk_op" where
  "modular_read_capsule E P cid = with_handle P (\<lambda>h. (handle_read_capsule E cid h, h))"

definition create_modular :: "ext \<Rightarrow> process \<Rightarrow> string \<Rightarrow> printed disk_op" where
  "create_modular E P path =
     bind_op (lift_result (fs_read P path)) (\<lambda>data.
     bind_op (modular_write_capsule E P data) (\<lambda>cid. return_op (CapsuleCreated cid (length data))))"

definition read_modular :: "ext \<Rightarrow> view_ext \<Rightarrow> process \<Rightarrow> string \<Rightarrow> printed disk_op" where
  "read_modular E V P name =
     bind_op (lift_result (ok_or (vx_parse_uuid V name) ParseError)) (\<lambda>uuid.
     bind_op (modular_read_capsule E P (CapsuleId uuid)) (\<lambda>data. return_op (RawBytes data)))"

section \<open>The S3 view over a handle\<close>

text \<open>\<open>serve-s3 --modular\<close>: the view keeps its key map and calls the handle instead of a write pipeline.\<close>

record modular_s3 =
  ms_handle :: registry_pipeline_handle
  ms_key_map :: "(string, key_mapping) hmap"

definition new_modular :: "registry_pipeline_handle \<Rightarrow> modular_s3" where
  "new_modular h = \<lparr>ms_handle = h, ms_key_map = []\<rparr>"

definition on_ms_handle :: "(registry_pipeline_handle, 'a, error) op \<Rightarrow> (modular_s3, 'a, error) op" where
  "on_ms_handle m = zoom ms_handle (\<lambda>h v. v\<lparr>ms_handle := h\<rparr>) m"

definition modular_put_object ::
  "ext \<Rightarrow> u64 option \<Rightarrow> capsule_id \<Rightarrow> u64 option \<Rightarrow> string \<Rightarrow> string \<Rightarrow> bytes \<Rightarrow> (modular_s3, capsule_id, error) op" where
  "modular_put_object E clk fresh now bucket key data =
     bind_op (on_ms_handle (handle_write_capsule E clk fresh data default_policy)) (\<lambda>capsule_id.
     bind_op (lift_result (ok_or now ClockError)) (\<lambda>timestamp v.
       (Ok capsule_id,
        v\<lparr>ms_key_map := hm_insert (full_key bucket key)
            \<lparr>s3_key = full_key bucket key, s3_capsule_id = capsule_id, s3_size = of_nat (length data),
             s3_created_at = timestamp, s3_content_type = detect_content_type key\<rparr> (ms_key_map v)\<rparr>)))"

definition modular_get_object :: "ext \<Rightarrow> string \<Rightarrow> string \<Rightarrow> modular_s3 \<Rightarrow> (bytes, error) result" where
  "modular_get_object E bucket key v =
     bind_result (ok_or (hm_get (ms_key_map v) (full_key bucket key)) (ViewError ''Key not found'')) (\<lambda>mapping.
       handle_read_capsule E (s3_capsule_id mapping) (ms_handle v))"

definition start_modular_view :: "process \<Rightarrow> modular_s3 disk_op" where
  "start_modular_view P =
     bind_op (open_store P) (\<lambda>(rg, lg). return_op (new_modular (registry_pipeline_from_backend lg rg (pr_keys P))))"

section \<open>Every write goes to the start of the log\<close>

text \<open>The pipelines of a handle: the NVRAM log and the registry, with either encryptor.\<close>

definition over_log :: "('k, nvram_log, nvram_storage_transaction, registry) pipeline_ops \<Rightarrow> bool" where
  "over_log P \<longleftrightarrow> pi_storage P = nvram_ops \<and> pi_catalog P = registry_catalog"

lemma over_log_parts [simp]: "over_log registry_plain_pipeline" "over_log (registry_encrypted_pipeline E)"
  by (simp_all add: over_log_def registry_plain_pipeline_def registry_encrypted_pipeline_def)

lemma registry_catalog_parts:
  "cat_allocate_segment registry_catalog rg = (Ok (SegmentId (reg_next_segment_id rg)), rg\<lparr>reg_next_segment_id := reg_next_segment_id rg + 1\<rparr>)"
  "cat_lookup_capsule registry_catalog = reg_lookup" "cat_create_capsule registry_catalog = registry_create_capsule"
  "cat_lookup_content registry_catalog = reg_lookup_content" "cat_register_content registry_catalog = reg_register_content"
  by (simp_all add: registry_catalog_def alloc_segment_def)

text \<open>Staging a new segment and its metadata succeeds; what the session does with the log is what its commit does.\<close>

lemma stage_new_segment:
  assumes "sto_begin_txn nvram_ops lg = Ok t" "seg_id m = j"
  shows "\<exists>lg1 t1. for_each (stage nvram_ops) [StageAppend j d, StageMetadata j m] (lg, t) = (Ok (), (lg1, t1))"
  using assms
  by (auto simp: nvram_ops_def nst_append_def on_inner_def op_simps tx_append_segment_def ensure_active_def
      tx_set_segment_metadata_def tx_with_segment_mut_def tx_pending_segment_def nv_begin_transaction_def
      fresh_segment_def Let_def)

lemma store_segment_run:
  assumes "over_log P" "\<not> is_enabled ep"
    and "sid = SegmentId (reg_next_segment_id (pl_catalog p))"
    and "m = new_metadata sid view summary h (new_encryption_summary ''none'') ep"
    and "p1 = p\<lparr>pl_catalog := (pl_catalog p)\<lparr>reg_next_segment_id := reg_next_segment_id (pl_catalog p) + 1\<rparr>\<rparr>"
    and "t = \<lparr>nst_inner = nv_begin_transaction (pl_storage p), nst_deleted = []\<rparr>"
    and "for_each (stage nvram_ops) [StageAppend sid view, StageMetadata sid m] (pl_storage p, t) = (Ok (), (lg, t1))"
  shows "store_segment P ep cid view summary h p =
    (case txn_commit nvram_ops (lg, t1) of
       (Err e, lg) \<Rightarrow> (Err e, p1\<lparr>pl_storage := lg\<rparr>)
     | (Ok _, lg) \<Rightarrow>
         (case reg_register_content h sid (pl_catalog p1) of
            (Err e, rg) \<Rightarrow> (Err e, p1\<lparr>pl_storage := lg, pl_catalog := rg\<rparr>)
          | (Ok _, rg) \<Rightarrow> (Ok sid, count_segment summary False
              (p1\<lparr>pl_storage := lg, pl_catalog := rg, pl_deduper := bd_register_content h sid (pl_deduper p1)\<rparr>))))"
proof -
  obtain s1 where a: "txn_append nvram_ops sid view (pl_storage p, t) = (Ok (), s1)"
    "txn_set_segment_metadata nvram_ops sid m s1 = (Ok (), (lg, t1))"
    using assms(7) by (auto split: prod.splits result.splits)
  have b: "sto_begin_txn nvram_ops (pl_storage p) = Ok t" using assms(6) nvram_parts(1) by simp
  show ?thesis
    using assms(1,2) a b
    by (cases s1) (auto simp: store_segment_def over_log_def txn_session_def on_txn_def beside_txn_def on_catalog_def op_simps
        encrypt_payload_def registry_catalog_parts Let_def assms(3-5) split: prod.splits result.splits)
qed

lemma store_segment_at_start:
  assumes "over_log P" "\<not> is_enabled ep" "store_segment P ep cid view summary h p = (Ok sid, p')"
  shows "sid = SegmentId (reg_next_segment_id (pl_catalog p))"
    and "nv_file (pl_storage p') = write_at 0 view (nv_file (pl_storage p))"
    and "nv_segment_map (pl_storage p') =
      hm_insert sid (new_metadata sid view summary h (new_encryption_summary ''none'') ep) (nv_segment_map (pl_storage p))"
    and "reg_capsules (pl_catalog p') = reg_capsules (pl_catalog p)"
    and "reg_next_segment_id (pl_catalog p') = reg_next_segment_id (pl_catalog p) + 1"
proof -
  let ?sid = "SegmentId (reg_next_segment_id (pl_catalog p))"
  let ?m = "new_metadata ?sid view summary h (new_encryption_summary ''none'') ep"
  let ?t = "\<lparr>nst_inner = nv_begin_transaction (pl_storage p), nst_deleted = []\<rparr>"
  have m: "seg_id ?m = ?sid" "seg_offset ?m = 0" by (simp_all add: new_metadata_def)
  obtain lg1 t1 where st: "for_each (stage nvram_ops) [StageAppend ?sid view, StageMetadata ?sid ?m] (pl_storage p, ?t) = (Ok (), (lg1, t1))"
    using stage_new_segment [OF nvram_parts(1) m(1)] by blast
  obtain lg2 where c: "txn_commit nvram_ops (lg1, t1) = (Ok (), lg2)" and
    w: "sid = ?sid" "pl_storage p' = lg2"
      "\<exists>rg. reg_register_content h ?sid ((pl_catalog p)\<lparr>reg_next_segment_id := reg_next_segment_id (pl_catalog p) + 1\<rparr>) = (Ok (), rg) \<and> pl_catalog p' = rg"
    using assms(3) store_segment_run [OF assms(1,2) refl refl refl refl st, of cid]
    by (auto simp: count_segment_def split: prod.splits result.splits)
  show "sid = ?sid" by (rule w(1))
  show "nv_file (pl_storage p') = write_at 0 view (nv_file (pl_storage p))"
    "nv_segment_map (pl_storage p') = hm_insert sid (new_metadata sid view summary h (new_encryption_summary ''none'') ep) (nv_segment_map (pl_storage p))"
    using nvram_session_at_zero [OF nvram_parts(1) m(2,1) st c] w(1,2) by simp_all
  show "reg_capsules (pl_catalog p') = reg_capsules (pl_catalog p)"
    "reg_next_segment_id (pl_catalog p') = reg_next_segment_id (pl_catalog p) + 1"
    using w(3) reg_register_effect(1,2) by fastforce+
qed

text \<open>A write of one chunk that succeeds has put the stored form of the data at the start of the log.\<close>

lemma write_one_chunk:
  assumes "over_log P" "strategy (layout pol) = Fixed n" "encryption pol = Disabled" "data \<noteq> []" "length data \<le> n" "n < 2 ^ 64"
    and "pipeline_write_capsule E P now cid data pol p = (Ok x, p')"
  shows "x = cid \<and> (\<exists>view summary sid m c. lzc_compress E data (compression pol) = Ok (view, summary) \<and>
    sid = SegmentId (reg_next_segment_id (pl_catalog p)) \<and> reg_next_segment_id (pl_catalog p') = reg_next_segment_id (pl_catalog p) + 1 \<and>
    nv_file (pl_storage p') = write_at 0 view (nv_file (pl_storage p)) \<and>
    nv_segment_map (pl_storage p') = hm_insert sid m (nv_segment_map (pl_storage p)) \<and>
    seg_offset m = 0 \<and> seg_len m = of_nat (length view) \<and> \<not> seg_encrypted m \<and> seg_compressed m = cs_compressed summary \<and>
    seg_compression_algo m = cs_algorithm summary \<and>
    reg_capsules (pl_catalog p') = hm_insert cid c (reg_capsules (pl_catalog p)) \<and> cap_segments c = [sid])"
proof -
  have "0 < length data" using assms(4) by simp
  then have n: "0 < n" using assms(5) by linarith
  have cs: "chunks n data = [data]" using assms(4,5) n by (simp add: chunks.simps)
  have off: "\<not> is_enabled (encryption pol)" by (simp add: assms(3))
  have len: "unat (of_nat (length data) :: u64) = length data" using assms(5,6) by (simp add: unat_of_nat_small)
  let ?seg = "segment_at E cid 0 data"
  obtain ids st p1 where run: "write_planned E P (compression pol) (encryption pol) cid data ?seg new_stats p = (Ok (ids, st), p1)"
    "bind_op (on_catalog (cat_create_capsule (pi_catalog P) now cid (of_nat (length data)) pol [ids] st)) (\<lambda>_. return_op cid) p1 = (Ok x, p')"
    using assms(7) by (auto simp: write_fixed [OF assms(2) n] cs split: prod.splits result.splits)
  have pc: "pi_catalog P = registry_catalog" "pi_storage P = nvram_ops" using assms(1) by (simp_all add: over_log_def)
  obtain view summary where c: "lzc_compress E data (compression pol) = Ok (view, summary)"
    using run(1) len assms(5,6)
    by (cases "lzc_compress E data (compression pol)") (auto simp: write_planned_def segment_at_def op_simps Let_def split: if_splits)
  have shared: "share_segment P j z q \<noteq> (Ok y, q')" for j z q y q'
    using modular_nvram_sharing_fails [OF pc(2), of j z q] by auto
  have s: "store_segment P (encryption pol) cid view summary (hash_content E view) p = (Ok ids, p1)"
    using run(1) len assms(5,6) c shared
    by (auto simp: write_planned_def segment_at_def op_simps Let_def split: if_splits result.splits option.splits prod.splits)
  have k: "registry_create_capsule now cid (of_nat (length data)) pol [ids] st (pl_catalog p1) = (Ok (), pl_catalog p')" "x = cid"
    "pl_storage p' = pl_storage p1"
    using run(2) by (auto simp: on_catalog_def pc registry_catalog_parts op_simps split: prod.splits result.splits)
  note S = store_segment_at_start [OF assms(1) off s] and K = registry_create_effect [OF k(1)]
  let ?m = "new_metadata ids view summary (hash_content E view) (new_encryption_summary ''none'') (encryption pol)"
  have m: "seg_offset ?m = 0" "seg_len ?m = of_nat (length view)" "\<not> seg_encrypted ?m" "seg_compressed ?m = cs_compressed summary"
    "seg_compression_algo ?m = cs_algorithm summary"
    using off by (simp_all add: new_metadata_def)
  show ?thesis
    using K S m k(2,3) c by (intro conjI exI [of _ view] exI [of _ summary] exI [of _ ids] exI [of _ ?m]) auto
qed

lemma read_one_raw:
  assumes "over_log P" "hm_get (reg_capsules (pl_catalog p)) cid = Some c" "cap_segments c = [sid]"
    and "hm_get (nv_segment_map (pl_storage p)) sid = Some m" "\<not> seg_encrypted m" "\<not> seg_compressed m" "seg_offset m = 0"
    and "seg_len m = of_nat k" "k < 2 ^ 32" "read_at 0 k (nv_file (pl_storage p)) = Some bs"
  shows "pipeline_read_capsule E P cid p = Ok bs"
proof -
  have "unat (of_nat k :: u32) = k" using assms(9) by (simp add: unat_of_nat_small)
  then show ?thesis
    using assms
    by (simp add: over_log_def pipeline_read_capsule_def pipeline_read_segment_def registry_catalog_parts reg_lookup_def
        nvram_parts nv_get_segment_metadata_def nv_read_def)
qed

lemma read_at_start:
  "read_at 0 (length d) (write_at 0 view (write_at 0 d f)) = Some (take (length d) (view @ drop (length view) d))"
  by (auto simp: read_at_def write_at_def min_def)

lemma two_writes:
  assumes "over_log P" "data1 \<noteq> []" "length data1 \<le> 4 * 1024 * 1024" "data2 \<noteq> []" "length data2 \<le> 4 * 1024 * 1024" "cid1 \<noteq> cid2"
    and "lzc_compress E data1 default_compression = Ok (data1, s1)" "\<not> cs_compressed s1"
    and "lzc_compress E data2 default_compression = Ok (view2, s2)"
    and "pipeline_write_capsule E P now1 cid1 data1 default_policy p = (Ok x1, p1)"
    and "pipeline_write_capsule E P now2 cid2 data2 default_policy p1 = (Ok x2, p2)"
  shows "pipeline_read_capsule E P cid1 p1 = Ok data1"
    and "pipeline_read_capsule E P cid1 p2 = Ok (take (length data1) (view2 @ drop (length view2) data1))"
proof -
  have pol: "strategy (layout default_policy) = Fixed (4 * 1024 * 1024)" "encryption default_policy = Disabled"
    "compression default_policy = default_compression" "4 * 1024 * 1024 < (2 :: nat) ^ 64"
    by (simp_all add: default_policy_def default_layout_def)
  note W1 = write_one_chunk [OF assms(1) pol(1,2) assms(2,3) pol(4) assms(10)]
    and W2 = write_one_chunk [OF assms(1) pol(1,2) assms(4,5) pol(4) assms(11)]
  let ?sid = "SegmentId (reg_next_segment_id (pl_catalog p))"
  obtain m c where m: "seg_offset m = 0" "seg_len m = of_nat (length data1)" "\<not> seg_encrypted m" "\<not> seg_compressed m"
    "nv_segment_map (pl_storage p1) = hm_insert ?sid m (nv_segment_map (pl_storage p))"
    "nv_file (pl_storage p1) = write_at 0 data1 (nv_file (pl_storage p))"
    "reg_capsules (pl_catalog p1) = hm_insert cid1 c (reg_capsules (pl_catalog p))" "cap_segments c = [?sid]"
    "reg_next_segment_id (pl_catalog p1) = reg_next_segment_id (pl_catalog p) + 1"
    using W1 assms(7,8) pol(3) by auto
  obtain m2 c2 where "nv_file (pl_storage p2) = write_at 0 view2 (nv_file (pl_storage p1))"
    "nv_segment_map (pl_storage p2) = hm_insert (SegmentId (reg_next_segment_id (pl_catalog p) + 1)) m2 (nv_segment_map (pl_storage p1))"
    "reg_capsules (pl_catalog p2) = hm_insert cid2 c2 (reg_capsules (pl_catalog p1))"
    using W2 assms(9) pol(3) m(9) by auto
  then have log: "nv_file (pl_storage p2) = write_at 0 view2 (nv_file (pl_storage p1))"
    and same: "hm_get (nv_segment_map (pl_storage p2)) ?sid = Some m" "hm_get (reg_capsules (pl_catalog p2)) cid1 = Some c"
    using assms(6) m(5,7) by simp_all
  have len: "length data1 < 2 ^ 32" using assms(3) by simp
  show "pipeline_read_capsule E P cid1 p1 = Ok data1"
    by (rule read_one_raw [OF assms(1) _ m(8) _ m(3,4,1,2) len]) (simp_all add: m(5-7) read_write_same)
  show "pipeline_read_capsule E P cid1 p2 = Ok (take (length data1) (view2 @ drop (length view2) data1))"
    by (rule read_one_raw [OF assms(1) same(2) m(8) same(1) m(3,4,1,2) len]) (simp add: log m(6) read_at_start)
qed

lemma handle_over_self: "handle_over (handle_store h) h = h"
  by (cases h) simp_all

section \<open>Properties\<close>

text \<open>C37: With delegation a pipeline keeps one object: for data of one chunk that compression leaves as it is, under the default
  policy, a write that succeeds is read back until the next write succeeds, which
  lays its stored form over the start of the log, where the first one lies. Whatever the state of the
  store and the keys, the first capsule then reads, without an error, as a mixture of both.\<close>

theorem delegated_write_clobbers:
  assumes "dp_modular dp \<noteq> None" "data1 \<noteq> []" "length data1 \<le> 4 * 1024 * 1024" "data2 \<noteq> []" "length data2 \<le> 4 * 1024 * 1024"
    and "cid1 \<noteq> cid2" "lzc_compress E data1 default_compression = Ok (data1, s1)" "\<not> cs_compressed s1"
    and "lzc_compress E data2 default_compression = Ok (view2, s2)"
    and "dp_write_capsule E now1 cid1 data1 dp = (Ok x1, dp1)" "dp_write_capsule E now2 cid2 data2 dp1 = (Ok x2, dp2)"
  shows "fst (dp_read_capsule E cid1 dp1) = Ok data1 \<and>
    fst (dp_read_capsule E cid1 dp2) = Ok (take (length data1) (view2 @ drop (length view2) data1))"
proof -
  obtain h where h: "dp_modular dp = Some h" using assms(1) by blast
  let ?h = "handle_over (wp_store (dp_base dp)) h"
  obtain h1 where h1: "handle_write_capsule E now1 cid1 data1 default_policy ?h = (Ok x1, h1)"
    "wp_store (dp_base dp1) = handle_store h1" "dp_modular dp1 = Some h1"
    using assms(10) h by (auto simp: dp_write_capsule_def dp_write_capsule_with_policy_def delegate_def split: prod.splits)
  obtain h2 where h2: "handle_write_capsule E now2 cid2 data2 default_policy h1 = (Ok x2, h2)"
    "wp_store (dp_base dp2) = handle_store h2" "dp_modular dp2 = Some h2"
    using assms(11) h1(2,3)
    by (auto simp: dp_write_capsule_def dp_write_capsule_with_policy_def delegate_def handle_over_self split: prod.splits)
  have read: "fst (dp_read_capsule E cid1 dp1) = handle_read_capsule E cid1 h1" "fst (dp_read_capsule E cid1 dp2) = handle_read_capsule E cid1 h2"
    using h1(2,3) h2(2,3) by (simp_all add: dp_read_capsule_def delegate_def handle_over_self)
  note two = two_writes [OF _ assms(2-9)]
  have "handle_read_capsule E cid1 h1 = Ok data1 \<and>
    handle_read_capsule E cid1 h2 = Ok (take (length data1) (view2 @ drop (length view2) data1))"
  proof (cases ?h)
    case (Encrypted p)
    obtain p1 where p1: "pipeline_write_capsule E (registry_encrypted_pipeline E) now1 cid1 data1 default_policy p = (Ok x1, p1)" "h1 = Encrypted p1"
      using h1(1) Encrypted by (auto simp: handle_write_capsule_def split: prod.splits)
    obtain p2 where p2: "pipeline_write_capsule E (registry_encrypted_pipeline E) now2 cid2 data2 default_policy p1 = (Ok x2, p2)" "h2 = Encrypted p2"
      using h2(1) p1(2) by (auto simp: handle_write_capsule_def split: prod.splits)
    show ?thesis using two [OF over_log_parts(2) p1(1) p2(1)] p1(2) p2(2) by simp
  next
    case (Plain p)
    obtain p1 where p1: "pipeline_write_capsule E registry_plain_pipeline now1 cid1 data1 default_policy p = (Ok x1, p1)" "h1 = Plain p1"
      using h1(1) Plain by (auto simp: handle_write_capsule_def split: prod.splits)
    obtain p2 where p2: "pipeline_write_capsule E registry_plain_pipeline now2 cid2 data2 default_policy p1 = (Ok x2, p2)" "h2 = Plain p2"
      using h2(1) p1(2) by (auto simp: handle_write_capsule_def split: prod.splits)
    show ?thesis using two [OF over_log_parts(1) p1(1) p2(1)] p1(2) p2(2) by simp
  qed
  then show ?thesis using read by simp
qed

text \<open>Four bytes, then two others, by a pipeline with delegation over an empty store.\<close>

definition sample_delegating :: delegating_pipeline where
  "sample_delegating = dp_new True True empty_registry (empty_log []) (Err (KeyNotFound 1))"

definition raw_summary :: "nat \<Rightarrow> compression_summary" where
  "raw_summary n = \<lparr>cs_original_size = n, cs_output_size = n, cs_algorithm = ''identity'', cs_compressed = False,
     cs_reused_input = True, cs_reason = Some IneffectiveReason\<rparr>"

lemma sample_raw:
  "lzc_compress sample_ext [1, 2, 3, 4] default_compression = Ok ([1, 2, 3, 4], raw_summary 4)"
  "lzc_compress sample_ext [9, 9] default_compression = Ok ([9, 9], raw_summary 2)"
  by code_simp+

lemma sample_delegating_eq:
  "sample_delegating = \<lparr>dp_base = sample_pipeline None, dp_modular = Some (Plain (pipeline_new () (empty_log []) False empty_registry))\<rparr>"
  by (simp add: sample_delegating_def dp_new_def modular_part_def registry_pipeline_from_backend_def wp_new_def
      reconcile_refcounts_def op_simps gc_sweep_def nv_list_segments_def sample_pipeline_def)

lemma default_facts: "strategy (layout default_policy) = Fixed 4194304" "encryption default_policy = Disabled"
  "compression default_policy = default_compression" "chunks 4194304 [1, 2, 3, 4 :: u8] = [[1, 2, 3, 4]]" "chunks 4194304 [9, 9 :: u8] = [[9, 9]]"
  by (simp_all add: default_policy_def default_layout_def chunks.simps)

lemma plain_parts: "pi_storage registry_plain_pipeline = nvram_ops" "pi_catalog registry_plain_pipeline = registry_catalog"
  by (simp_all add: registry_plain_pipeline_def)

lemma sample_delegated_writes:
  "\<exists>dp1 dp2. dp_write_capsule sample_ext (Some 0) (CapsuleId [1]) [1, 2, 3, 4] sample_delegating = (Ok (CapsuleId [1]), dp1) \<and>
     dp_write_capsule sample_ext (Some 0) (CapsuleId [2]) [9, 9] dp1 = (Ok (CapsuleId [2]), dp2)"
proof -
  have "content_hash_from_bytes sample_ext (ext_blake3 sample_ext [1, 2, 3, 4]) \<noteq>
      content_hash_from_bytes sample_ext (ext_blake3 sample_ext [9, 9])" by code_simp
  then show ?thesis
    by (simp add: dp_write_capsule_def dp_write_capsule_with_policy_def delegate_def sample_delegating_eq handle_write_capsule_def
        modular_run_defs nvram_run_defs default_facts plain_parts sample_raw registry_catalog_parts reg_lookup_content_def
        reg_register_content_def registry_create_capsule_def create_capsule_with_segments_def reg_save_def empty_registry_def
        sample_pipeline_def raw_summary_def)
qed

theorem delegated_write_clobbers_witness:
  "\<exists>dp1 dp2. dp_write_capsule sample_ext (Some 0) (CapsuleId [1]) [1, 2, 3, 4] sample_delegating = (Ok (CapsuleId [1]), dp1) \<and>
     dp_write_capsule sample_ext (Some 0) (CapsuleId [2]) [9, 9] dp1 = (Ok (CapsuleId [2]), dp2) \<and>
     fst (dp_read_capsule sample_ext (CapsuleId [1]) dp1) = Ok [1, 2, 3, 4] \<and>
     fst (dp_read_capsule sample_ext (CapsuleId [1]) dp2) = Ok [9, 9, 3, 4]"
proof -
  obtain dp1 dp2 where w: "dp_write_capsule sample_ext (Some 0) (CapsuleId [1]) [1, 2, 3, 4] sample_delegating = (Ok (CapsuleId [1]), dp1)"
    "dp_write_capsule sample_ext (Some 0) (CapsuleId [2]) [9, 9] dp1 = (Ok (CapsuleId [2]), dp2)"
    using sample_delegated_writes by blast
  have "dp_modular sample_delegating \<noteq> None" "\<not> cs_compressed (raw_summary 4)"
    by (simp_all add: sample_delegating_eq raw_summary_def)
  from delegated_write_clobbers [OF this(1) _ _ _ _ _ sample_raw(1) this(2) sample_raw(2) w] w show ?thesis by simp
qed

end
