(* ===== verification/Federated_Write.thy ===== *)
theory Federated_Write
  imports Mesh_Replication Federation
begin

text \<open>
  The asynchronous write with the features \<open>podms\<close> and \<open>phase4\<close> together: after replication and telemetry
  the node asks the cluster to federate the new capsule, unless the policy keeps it local.
\<close>

record federated_pipeline = podms_pipeline +
  fp_cluster :: "raft_call list"

definition federate_written :: "view_ext \<Rightarrow> capsule_id \<Rightarrow> policy \<Rightarrow> (federated_pipeline, unit, error) op" where
  "federate_written V cid pol p =
     (case pp_mesh_node p of
        Some mesh_node \<Rightarrow>
          if sovereignty pol \<noteq> LocalSovereignty
          then zoom fp_cluster (\<lambda>c p. p\<lparr>fp_cluster := c\<rparr>) (federate_capsule V cid (mn_zone mesh_node)) p
          else (Ok (), p)
      | None \<Rightarrow> (Ok (), p))"

text \<open>The write of a chunk-less capsule returns before all of it.\<close>

definition write_capsule_federated ::
  "ext \<Rightarrow> view_ext \<Rightarrow> u64 option \<Rightarrow> capsule_id \<Rightarrow> bytes \<Rightarrow> policy \<Rightarrow> nat \<Rightarrow> nat list \<Rightarrow> nat list \<Rightarrow>
   (federated_pipeline, capsule_id, error) op" where
  "write_capsule_federated E V now cid data pol memory_limit sched arrivals p =
     (case write_capsule_podms E now cid data pol memory_limit sched arrivals (podms_pipeline.truncate p) of
        (Err e, q) \<Rightarrow> (Err e, podms_pipeline.extend q (podms_pipeline.more p))
      | (Ok capsule_id, q) \<Rightarrow>
          (let p = podms_pipeline.extend q (podms_pipeline.more p)
           in if data = [] then (Ok capsule_id, p)
              else bind_op (federate_written V capsule_id pol) (\<lambda>_. return_op capsule_id) p))"

text \<open>Federation never turns a successful write into a failed one, does nothing to pipeline, network and
  telemetry, and asks for the zone of the node itself, so that no other zone learns of the capsule.\<close>

theorem write_federates_own_zone:
  "case write_capsule_podms E now cid data pol memory_limit sched arrivals (podms_pipeline.truncate p) of
     (r, q) \<Rightarrow> write_capsule_federated E V now cid data pol memory_limit sched arrivals p =
       (r, podms_pipeline.extend q \<lparr>fp_cluster = fp_cluster p @
          (case r of Err _ \<Rightarrow> [] | Ok capsule_id \<Rightarrow>
             if data = [] \<or> pp_mesh_node q = None \<or> sovereignty pol = LocalSovereignty then []
             else [RaftReplicate ''space-phase4'' (vx_uuid V (as_uuid capsule_id)) (zone_to_string (mn_zone (the (pp_mesh_node q))))])\<rparr>)"
  by (cases p) (auto simp: write_capsule_federated_def federate_written_def federate_capsule_def raft_replicate_def raft_cluster_new_def
      podms_pipeline.defs op_simps Let_def split: prod.splits result.splits option.splits)

end
