(* ===== verification/Workspace_Tasks.thy ===== *)
theory Workspace_Tasks
  imports View_Common
begin

text \<open>
  The developer tasks of \<open>xtask/src/main.rs\<close>: the audit, which runs cargo step by step and checks the
  features of the workspace against an allow list, the dependency graph, and the drift report. What
  \<open>cargo_metadata\<close>, \<open>toml\<close>, \<open>serde_json\<close> and \<open>semver\<close> parse is an argument; a child process is an
  outcome in a list; output to the terminal is left out, warnings apart.
\<close>

section \<open>What the tasks read\<close>

text \<open>The variants of \<open>toml::Value\<close> and \<open>serde_json::Value\<close> that the code tells apart.\<close>

datatype toml = TomlString string | TomlArray "toml list" | TomlTable "(string \<times> toml) list" | TomlOther

datatype json = JsonBool bool | JsonUint u64 | JsonString string | JsonArray "json list" | JsonObject "(string \<times> json) list" | JsonOther

fun toml_get :: "string \<Rightarrow> toml \<Rightarrow> toml option" where
  "toml_get k (TomlTable t) = map_of t k"
| "toml_get k _ = None"

fun json_get :: "string \<Rightarrow> json \<Rightarrow> json option" where
  "json_get k (JsonObject t) = map_of t k"
| "json_get k _ = None"

record cargo_package =
  cg_id :: string
  cg_name :: string
  cg_version :: string

record cargo_node =
  cn_id :: string
  cn_features :: "string list"

record cargo_metadata =
  cm_packages :: "cargo_package list"
  cm_resolve :: "cargo_node list option"
  cm_workspace_members :: "string list"

text \<open>\<open>semver\<close>: parsing of versions and requirements, and matching.\<close>

record ('v, 'q) semver =
  sv_version :: "string \<Rightarrow> 'v option"
  sv_requirement :: "string \<Rightarrow> 'q option"
  sv_matches :: "'q \<Rightarrow> 'v \<Rightarrow> bool"

section \<open>Processes and files\<close>

datatype command_result = CannotSpawn | Finished bool bytes

record workspace =
  wk_manifest :: "(toml, error) result"
  wk_metadata :: "(cargo_metadata, error) result"
  wk_results :: "command_result list"
  wk_ran :: "string list list"
  wk_io :: "io_outcome list"
  wk_files :: "(string, bytes) hmap"

type_synonym 'a task = "(workspace, 'a, error) op"

text \<open>Starting cargo with arguments; a process whose outcome is not listed succeeds without output.\<close>

definition spawn :: "string list \<Rightarrow> workspace \<Rightarrow> command_result \<times> workspace" where
  "spawn args w =
     (case wk_results w of
        [] \<Rightarrow> (Finished True [], w\<lparr>wk_ran := wk_ran w @ [args]\<rparr>)
      | r # rs \<Rightarrow> (r, w\<lparr>wk_results := rs, wk_ran := wk_ran w @ [args]\<rparr>))"

definition run_capture :: "string list \<Rightarrow> bytes task" where
  "run_capture args w =
     (case spawn args w of
        (CannotSpawn, w) \<Rightarrow> (Err IoError, w)
      | (Finished success out, w) \<Rightarrow> (if success then Ok out else Err (ViewError ''command exited''), w))"

definition run_cargo :: "string list \<Rightarrow> unit task" where
  "run_cargo args = bind_op (run_capture args) (\<lambda>_. return_op ())"

definition create_dir :: "unit task" where
  "create_dir w = (case io_next (wk_io w) of (out, io) \<Rightarrow> (if out = IoOk then Ok () else Err IoError, w\<lparr>wk_io := io\<rparr>))"

definition put_file :: "string \<Rightarrow> bytes \<Rightarrow> unit task" where
  "put_file path d w =
     (case io_next (wk_io w) of
        (IoOk, io) \<Rightarrow> (Ok (), w\<lparr>wk_io := io, wk_files := hm_insert path d (wk_files w)\<rparr>)
      | (IoFail n, io) \<Rightarrow> (Err IoError, w\<lparr>wk_io := io, wk_files := hm_insert path (take n d) (wk_files w)\<rparr>))"

section \<open>The allow list of features\<close>

fun features_of :: "toml list \<Rightarrow> (string set, error) result" where
  "features_of [] = Ok {}"
| "features_of (TomlString f # items) = bind_result (features_of items) (\<lambda>fs. Ok (insert f fs))"
| "features_of (_ # items) = Err ParseError"

fun allowlist_entries :: "(string \<times> toml) list \<Rightarrow> ((string \<times> string set) list, error) result" where
  "allowlist_entries [] = Ok []"
| "allowlist_entries ((pkg, v) # table) =
     bind_result (case v of TomlArray items \<Rightarrow> features_of items | _ \<Rightarrow> Err ParseError) (\<lambda>fs.
     bind_result (allowlist_entries table) (\<lambda>rest. Ok ((pkg, fs) # rest)))"

definition load_feature_allowlist :: "workspace \<Rightarrow> ((string, string set) hmap, error) result" where
  "load_feature_allowlist w =
     bind_result (wk_manifest w) (\<lambda>doc.
       case Option.bind (Option.bind (Option.bind (toml_get ''workspace'' doc) (toml_get ''metadata'')) (toml_get ''space''))
              (toml_get ''allowed-features'') of
         Some (TomlTable table) \<Rightarrow> allowlist_entries table
       | _ \<Rightarrow> Ok [])"

definition starts_dep :: "string \<Rightarrow> bool" where
  "starts_dep feature \<longleftrightarrow> take 4 feature = ''dep:''"

definition unexpected_features :: "string set \<Rightarrow> cargo_node \<Rightarrow> string list" where
  "unexpected_features allowed node = filter (\<lambda>f. f \<noteq> ''default'' \<and> \<not> starts_dep f \<and> f \<notin> allowed) (cn_features node)"

text \<open>Collecting packages into a map by identifier keeps the last one.\<close>

definition package_named :: "cargo_package list \<Rightarrow> string \<Rightarrow> cargo_package option" where
  "package_named packages i = map_of (rev (map (\<lambda>p. (cg_id p, p)) packages)) i"

fun violations :: "(string, string set) hmap \<Rightarrow> cargo_package list \<Rightarrow> cargo_node list \<Rightarrow> (string \<times> string list) list" where
  "violations allowlist packages [] = []"
| "violations allowlist packages (node # nodes) =
     (case package_named packages (cn_id node) of
        None \<Rightarrow> violations allowlist packages nodes
      | Some pkg \<Rightarrow>
          (case hm_get allowlist (cg_name pkg) of
             None \<Rightarrow> violations allowlist packages nodes
           | Some allowed \<Rightarrow>
               (if unexpected_features allowed node = [] then violations allowlist packages nodes
                else (cg_name pkg, unexpected_features allowed node) # violations allowlist packages nodes)))"

definition validate_feature_allowlist :: "workspace \<Rightarrow> (unit, error) result" where
  "validate_feature_allowlist w =
     bind_result (load_feature_allowlist w) (\<lambda>allowlist.
       if allowlist = [] then Ok ()
       else
         bind_result (wk_metadata w) (\<lambda>metadata.
         bind_result (ok_or (cm_resolve metadata) NotFound) (\<lambda>nodes.
           if violations allowlist (cm_packages metadata) nodes = [] then Ok ()
           else Err (ViewError ''feature allowlist violations''))))"

section \<open>Audit and graph\<close>

definition tree_args :: "string list" where
  "tree_args = [''tree'', ''--workspace'', ''--edges'', ''normal,build,dev'', ''--locked'']"

definition capture_tree_report :: "unit task" where
  "capture_tree_report =
     bind_op (run_capture tree_args) (\<lambda>out.
     bind_op create_dir (\<lambda>_. put_file ''target/xtask/cargo-tree.txt'' out))"

definition audit :: "bool \<Rightarrow> unit task" where
  "audit no_tests =
     bind_op (run_cargo [''fmt'', ''--all'', ''--'', ''--check'']) (\<lambda>_.
     bind_op (run_cargo [''check'', ''--workspace'', ''--all-targets'']) (\<lambda>_.
     bind_op (if no_tests then return_op () else run_cargo [''test'', ''--workspace'', ''--all-targets'']) (\<lambda>_.
     bind_op (\<lambda>w. (validate_feature_allowlist w, w)) (\<lambda>_.
     bind_op capture_tree_report (\<lambda>_.
     bind_op (run_cargo [''audit'', ''--deny'', ''warnings'']) (\<lambda>_.
     bind_op (run_cargo [''deny'', ''check'', ''bans'', ''licenses'', ''sources'']) (\<lambda>_.
       run_cargo [''bloat'', ''-p'', ''spacectl'', ''--crates'', ''--release''])))))))"

text \<open>\<open>cargo deps\<close> may be missing or fail; only writing its output can make the task fail.\<close>

definition graph :: "unit task" where
  "graph =
     bind_op create_dir (\<lambda>_.
     bind_op (run_capture [''tree'', ''--workspace'', ''--all-targets'', ''--all-features'', ''--edges'', ''normal,build,dev'', ''--locked''])
       (\<lambda>tree_bytes.
     bind_op (put_file ''target/xtask/cargo-tree.txt'' tree_bytes) (\<lambda>_ w.
       case spawn [''deps'', ''--all-deps'', ''--include-tests''] w of
         (Finished True out, w) \<Rightarrow> put_file ''target/xtask/cargo-deps.txt'' out w
       | (_, w) \<Rightarrow> (Ok (), w))))"

section \<open>Drift\<close>

record pin_mismatch =
  pm_name :: string
  pm_expected_spec :: string
  pm_resolved :: "string list"

record advisory_summary =
  as_found :: bool
  as_count :: nat
  as_severities :: "(string, nat) hmap"

record drift_summary =
  ds_timestamp :: string
  ds_advisories :: advisory_summary
  ds_transitive_count :: nat
  ds_transitive_limit :: nat
  ds_pin_mismatches :: "pin_mismatch list"

definition TRANSITIVE_LIMIT :: nat where
  "TRANSITIVE_LIMIT = 50"

fun pinned :: "toml \<Rightarrow> string option" where
  "pinned (TomlString v) = Some v"
| "pinned (TomlTable table) = (case map_of table ''version'' of Some (TomlString v) \<Rightarrow> Some v | _ \<Rightarrow> None)"
| "pinned _ = None"

definition load_version_pins :: "workspace \<Rightarrow> ((string, string) hmap, error) result" where
  "load_version_pins w =
     bind_result (wk_manifest w) (\<lambda>doc.
       case Option.bind (toml_get ''workspace'' doc) (toml_get ''dependencies'') of
         Some (TomlTable deps) \<Rightarrow>
           Ok (fold (\<lambda>(name, v) m. case pinned v of Some version \<Rightarrow> hm_insert name version m | None \<Rightarrow> m) deps [])
       | _ \<Rightarrow> Err NotFound)"

text \<open>A \<open>BTreeSet\<close> of the versions a package is resolved to.\<close>

definition resolved_versions :: "cargo_metadata \<Rightarrow> string \<Rightarrow> string list" where
  "resolved_versions metadata name =
     sort (remdups (map cg_version (filter (\<lambda>p. cg_name p = name) (cm_packages metadata))))"

definition sanitized :: "string \<Rightarrow> string" where
  "sanitized spec = dropWhile (\<lambda>c. c = CHR ''='' \<or> c = CHR ''^'') spec"

definition requirement_of :: "('v, 'q) semver \<Rightarrow> string \<Rightarrow> 'q option" where
  "requirement_of S spec = (case sv_requirement S spec of Some req \<Rightarrow> Some req | None \<Rightarrow> sv_requirement S (''='' @ sanitized spec))"

definition mismatched :: "('v, 'q) semver \<Rightarrow> string list \<Rightarrow> string \<Rightarrow> bool" where
  "mismatched S resolved spec =
     (let parsed = List.map_filter (sv_version S) resolved
      in resolved \<noteq> [] \<and> parsed \<noteq> [] \<and>
         (case requirement_of S spec of None \<Rightarrow> True | Some req \<Rightarrow> \<not> list_ex (sv_matches S req) parsed))"

fun mismatches_of :: "('v, 'q) semver \<Rightarrow> cargo_metadata \<Rightarrow> (string \<times> string) list \<Rightarrow> pin_mismatch list" where
  "mismatches_of S metadata [] = []"
| "mismatches_of S metadata ((name, spec) # pins) =
     (if mismatched S (resolved_versions metadata name) spec
      then \<lparr>pm_name = name, pm_expected_spec = spec, pm_resolved = resolved_versions metadata name\<rparr> # mismatches_of S metadata pins
      else mismatches_of S metadata pins)"

definition find_pin_mismatches :: "('v, 'q) semver \<Rightarrow> cargo_metadata \<Rightarrow> (string, string) hmap \<Rightarrow> pin_mismatch list" where
  "find_pin_mismatches S metadata pins = mismatches_of S metadata (btree_entries pins)"

definition count_transitive :: "cargo_metadata \<Rightarrow> nat" where
  "count_transitive metadata =
     (case cm_resolve metadata of
        None \<Rightarrow> 0
      | Some nodes \<Rightarrow> length (remdups (filter (\<lambda>i. i \<notin> set (cm_workspace_members metadata)) (map cn_id nodes))))"

text \<open>The report of \<open>cargo audit --json\<close>; what is missing or of another type counts as nothing found.\<close>

definition severity_of :: "json \<Rightarrow> string" where
  "severity_of advisory = (case json_get ''severity'' advisory of Some (JsonString s) \<Rightarrow> s | _ \<Rightarrow> ''unknown'')"

definition count_severity :: "json \<Rightarrow> (string, nat) hmap \<Rightarrow> (string, nat) hmap" where
  "count_severity item m =
     (case json_get ''advisory'' item of
        None \<Rightarrow> m
      | Some advisory \<Rightarrow>
          hm_insert (severity_of advisory) ((case hm_get m (severity_of advisory) of Some n \<Rightarrow> n | None \<Rightarrow> 0) + 1) m)"

definition summarize_audit :: "json \<Rightarrow> advisory_summary" where
  "summarize_audit v =
     (let vulnerabilities = (case json_get ''vulnerabilities'' v of Some (JsonObject t) \<Rightarrow> JsonObject t | _ \<Rightarrow> JsonObject [])
      in \<lparr>as_found = (case json_get ''found'' vulnerabilities of Some (JsonBool b) \<Rightarrow> b | _ \<Rightarrow> False),
          as_count = (case json_get ''count'' vulnerabilities of Some (JsonUint n) \<Rightarrow> unat n | _ \<Rightarrow> 0),
          as_severities = (case json_get ''list'' vulnerabilities of Some (JsonArray items) \<Rightarrow> fold count_severity items [] | _ \<Rightarrow> [])\<rparr>)"

definition collect_audit_summary :: "(bytes \<Rightarrow> json option) \<Rightarrow> advisory_summary task" where
  "collect_audit_summary parse w =
     (case spawn [''audit'', ''--json''] w of
        (CannotSpawn, w) \<Rightarrow> (Err IoError, w)
      | (Finished success out, w) \<Rightarrow> bind_op (lift_result (ok_or (parse out) ParseError)) (\<lambda>v. return_op (summarize_audit v)) w)"

datatype drift_warning = TooManyTransitive nat | AdvisoriesDetected nat | PinsMismatched

definition drift_warnings :: "drift_summary \<Rightarrow> drift_warning list" where
  "drift_warnings s =
     (if TRANSITIVE_LIMIT < ds_transitive_count s then [TooManyTransitive (ds_transitive_count s)] else []) @
     (if as_found (ds_advisories s) then [AdvisoriesDetected (as_count (ds_advisories s))] else []) @
     (if ds_pin_mismatches s \<noteq> [] then [PinsMismatched] else [])"

text \<open>Its value is the warnings printed at the end; \<open>Path::parent\<close> is \<open>None\<close> for a root and for the empty path.\<close>

definition drift ::
  "('v, 'q) semver \<Rightarrow> (bytes \<Rightarrow> json option) \<Rightarrow> (drift_summary \<Rightarrow> bytes) \<Rightarrow> string option \<Rightarrow> string option \<Rightarrow> drift_warning list task" where
  "drift S parse to_json timestamp out_path w =
     bind_op (lift_result (wk_metadata w)) (\<lambda>metadata.
     bind_op (lift_result (load_version_pins w)) (\<lambda>pins.
     bind_op (collect_audit_summary parse) (\<lambda>advisories.
     bind_op (lift_result (ok_or timestamp ClockError)) (\<lambda>now.
       let summary = \<lparr>ds_timestamp = now, ds_advisories = advisories, ds_transitive_count = count_transitive metadata,
             ds_transitive_limit = TRANSITIVE_LIMIT, ds_pin_mismatches = find_pin_mismatches S metadata pins\<rparr>;
           path = (case out_path of Some p \<Rightarrow> p | None \<Rightarrow> ''target/xtask/drift-report.json'')
       in bind_op (if list_all (\<lambda>c. c = CHR ''/'') path then return_op () else create_dir) (\<lambda>_.
          bind_op (put_file path (to_json summary)) (\<lambda>_. return_op (drift_warnings summary))))))) w"

section \<open>Properties\<close>

text \<open>The check of the allow list is exact: with a list and metadata that can be read it succeeds exactly when every
  resolved package that is on the list only has features that are listed for it, the default
  feature and features that stand for optional dependencies apart.\<close>

definition features_allowed :: "(string, string set) hmap \<Rightarrow> cargo_package list \<Rightarrow> cargo_node \<Rightarrow> bool" where
  "features_allowed allowlist packages node \<longleftrightarrow>
     (\<forall>pkg allowed f. package_named packages (cn_id node) = Some pkg \<longrightarrow> hm_get allowlist (cg_name pkg) = Some allowed \<longrightarrow>
        f \<in> set (cn_features node) \<longrightarrow> f = ''default'' \<or> starts_dep f \<or> f \<in> allowed)"

lemma violations_none: "violations allowlist packages nodes = [] \<longleftrightarrow> list_all (features_allowed allowlist packages) nodes"
  by (induction nodes) (auto simp: features_allowed_def unexpected_features_def filter_empty_conv split: option.splits)

theorem feature_allowlist_exact:
  assumes "load_feature_allowlist w = Ok allowlist" "wk_metadata w = Ok metadata" "cm_resolve metadata = Some nodes"
  shows "is_ok (validate_feature_allowlist w) \<longleftrightarrow>
    allowlist = [] \<or> (\<forall>node\<in>set nodes. features_allowed allowlist (cm_packages metadata) node)"
  using assms by (auto simp: validate_feature_allowlist_def violations_none list_all_iff ok_or_def)

text \<open>The audit stops at the first step that fails: it succeeds only after every cargo command of it has been run, in
  order and successfully, and never with a feature off the list.\<close>

definition audit_steps :: "bool \<Rightarrow> string list list" where
  "audit_steps no_tests =
     [[''fmt'', ''--all'', ''--'', ''--check''], [''check'', ''--workspace'', ''--all-targets'']] @
     (if no_tests then [] else [[''test'', ''--workspace'', ''--all-targets'']]) @
     [tree_args, [''audit'', ''--deny'', ''warnings''], [''deny'', ''check'', ''bans'', ''licenses'', ''sources''],
      [''bloat'', ''-p'', ''spacectl'', ''--crates'', ''--release'']]"

definition succeeded :: "command_result \<Rightarrow> bool" where
  "succeeded r \<longleftrightarrow> (\<exists>out. r = Finished True out)"

text \<open>A stretch of a run in which the given commands succeeded one after the other.\<close>

definition ran :: "string list list \<Rightarrow> workspace \<Rightarrow> workspace \<Rightarrow> bool" where
  "ran steps w w' \<longleftrightarrow> wk_ran w' = wk_ran w @ steps \<and> wk_manifest w' = wk_manifest w \<and> wk_metadata w' = wk_metadata w \<and>
     wk_results w' = drop (length steps) (wk_results w) \<and> list_all succeeded (take (length steps) (wk_results w))"

lemma ran_Nil [simp]: "ran [] w w"
  by (simp add: ran_def)

lemma ran_trans: "ran xs w w' \<Longrightarrow> ran ys w' w'' \<Longrightarrow> ran (xs @ ys) w w''"
  by (simp add: ran_def take_add add.commute)

lemma ran_validate: "ran steps w w' \<Longrightarrow> validate_feature_allowlist w' = validate_feature_allowlist w"
  by (simp add: ran_def validate_feature_allowlist_def load_feature_allowlist_def cong: if_cong)

text \<open>A task that, when it succeeds, has run the given commands, and has validated the features if \<open>checked\<close>.\<close>

definition runs :: "string list list \<Rightarrow> bool \<Rightarrow> 'a task \<Rightarrow> bool" where
  "runs steps checked m \<longleftrightarrow> (\<forall>w x w'. m w = (Ok x, w') \<longrightarrow> ran steps w w' \<and> (checked \<longrightarrow> is_ok (validate_feature_allowlist w)))"

lemma runs_bind:
  assumes "runs xs a m" "\<And>x. runs ys b (f x)"
  shows "runs (xs @ ys) (a \<or> b) (bind_op m f)"
  unfolding runs_def
proof (intro allI impI)
  fix w x w'
  assume "bind_op m f w = (Ok x, w')"
  then obtain y v where r: "m w = (Ok y, v)" "f y v = (Ok x, w')" by (auto simp: bind_op_def split: prod.splits result.splits)
  have "ran xs w v" "a \<longrightarrow> is_ok (validate_feature_allowlist w)" using assms(1) r(1) unfolding runs_def by blast+
  moreover have "ran ys v w'" "b \<longrightarrow> is_ok (validate_feature_allowlist v)" using assms(2) r(2) unfolding runs_def by blast+
  ultimately show "ran (xs @ ys) w w' \<and> (a \<or> b \<longrightarrow> is_ok (validate_feature_allowlist w))"
    using ran_trans ran_validate by metis
qed

lemma runs_basic: "runs [] False (return_op x)" "runs [] True (\<lambda>w. (validate_feature_allowlist w, w))"
  "runs [] False create_dir" "runs [] False (put_file path d)"
  by (auto simp: runs_def op_simps create_dir_def put_file_def ran_def split: prod.splits io_outcome.splits if_splits)

lemma runs_capture: "runs [args] False (run_capture args)"
  by (auto simp: runs_def run_capture_def spawn_def ran_def succeeded_def split: list.splits command_result.splits if_splits)

lemma runs_cargo: "runs [args] False (run_cargo args)"
  using runs_bind [OF runs_capture runs_basic(1)] by (simp add: run_cargo_def)

lemma runs_tree_report: "runs [tree_args] False capture_tree_report"
  using runs_bind [OF runs_capture runs_bind [OF runs_basic(3,4)]] by (simp add: capture_tree_report_def)

theorem audit_all_or_error:
  assumes "audit no_tests w = (Ok (), w')"
  shows "wk_ran w' = wk_ran w @ audit_steps no_tests \<and> list_all succeeded (take (length (audit_steps no_tests)) (wk_results w)) \<and>
    is_ok (validate_feature_allowlist w)"
proof -
  have tests: "runs (if no_tests then [] else [[''test'', ''--workspace'', ''--all-targets'']]) False
      (if no_tests then return_op () else run_cargo [''test'', ''--workspace'', ''--all-targets''])"
    by (simp add: runs_basic(1) runs_cargo)
  note last = runs_bind [OF runs_tree_report runs_bind [OF runs_cargo runs_bind [OF runs_cargo runs_cargo]]]
  note all = runs_bind [OF runs_cargo runs_bind [OF runs_cargo runs_bind [OF tests runs_bind [OF runs_basic(2) last]]]]
  have "runs (audit_steps no_tests) True (audit no_tests)"
    unfolding audit_def audit_steps_def using all by simp
  then show ?thesis using assms by (auto simp: runs_def ran_def)
qed

text \<open>A feature that is not on the list, in a workspace where every command succeeds.\<close>

definition sample_workspace :: workspace where
  "sample_workspace =
     \<lparr>wk_manifest = Ok (TomlTable [(''workspace'', TomlTable [(''metadata'', TomlTable [(''space'', TomlTable
        [(''allowed-features'', TomlTable [(''spacectl'', TomlArray [TomlString ''pipeline_async''])])])])])]),
      wk_metadata = Ok \<lparr>cm_packages = [\<lparr>cg_id = ''i'', cg_name = ''spacectl'', cg_version = ''0.1.0''\<rparr>],
        cm_resolve = Some [\<lparr>cn_id = ''i'', cn_features = [''default'', ''phase4'']\<rparr>], cm_workspace_members = [''i'']\<rparr>,
      wk_results = [], wk_ran = [], wk_io = [], wk_files = []\<rparr>"

theorem feature_allowlist_exact_witness: "\<not> is_ok (validate_feature_allowlist sample_workspace)"
proof -
  have "load_feature_allowlist sample_workspace = Ok [(''spacectl'', {''pipeline_async''})]"
    by (simp add: sample_workspace_def load_feature_allowlist_def)
  from feature_allowlist_exact [OF this, of "\<lparr>cm_packages = [\<lparr>cg_id = ''i'', cg_name = ''spacectl'', cg_version = ''0.1.0''\<rparr>],
        cm_resolve = Some [\<lparr>cn_id = ''i'', cn_features = [''default'', ''phase4'']\<rparr>], cm_workspace_members = [''i'']\<rparr>"]
  show ?thesis by (simp add: sample_workspace_def features_allowed_def package_named_def starts_dep_def)
qed

theorem audit_all_or_error_witness:
  "\<exists>w'. audit True (sample_workspace\<lparr>wk_manifest := Ok (TomlTable [])\<rparr>) = (Ok (), w') \<and> wk_ran w' = audit_steps True"
proof -
  let ?w = "sample_workspace\<lparr>wk_manifest := Ok (TomlTable [])\<rparr>"
  obtain r w' where run: "audit True ?w = (r, w')" by fastforce
  moreover have "fst (audit True ?w) = Ok ()"
    by (simp add: audit_def op_simps run_cargo_def run_capture_def spawn_def sample_workspace_def validate_feature_allowlist_def
        load_feature_allowlist_def capture_tree_report_def create_dir_def put_file_def)
  ultimately have run: "audit True ?w = (Ok (), w')" by simp
  from audit_all_or_error [OF run] run show ?thesis by (simp add: sample_workspace_def)
qed

end
