(* ===== verification/Spec2Isabelle.thy ===== *)
theory Spec2Isabelle
  imports Space_Prelude Common_Types Nvram_Log Compression Encryption Registry Store
    Garbage_Collector Write_Pipeline Pipeline_Invariant Pipeline_Correct Pipeline_Properties Async_Pipeline Async_Schedule Async_Refinement Async_Properties
    Storage_Backends Layout_Engine Modular_Pipeline Modular_Correct Modular_Properties
    Capsule_Service View_Common View_Sample Block_View Block_Correct Block_Properties
    Nfs_View Nfs_Paths Nfs_Correct Nfs_Operations Nfs_Properties Audit_Log Audit_Properties
    Text_Format Policy_Compiler Policy_Properties Bloom_Filter Bloom_Properties S3_View S3_Properties
    Zero_Trust Zero_Trust_Properties Mesh_Replication Federation Mesh_Properties Crypto_Profiles Hybrid_Pipeline Hybrid_Properties
    Durability Spacectl Spacectl_Correct Spacectl_Volumes Spacectl_Sessions Spacectl_Properties Scaling_Agent Simulations
    Modular_Delegation Federated_Write Workspace_Tasks
begin

text \<open>
  \<^bold>\<open>SPACE: the storage core, its protocol views, its control plane and its command line.\<close>

  SPACE stores data in \<^emph>\<open>capsules\<close>. A capsule is a list of segments of at most four megabytes; a write
  cuts the data into segments, compresses each, encrypts it, shares it with an equal one that is
  already stored, and appends it to a log that stands for non-volatile memory; a registry keeps
  capsules, the content store for deduplication and the allocator of segment identifiers, and is
  saved as a JSON file. Block volumes, an NFS namespace and S3 objects are views: tables of names
  over capsules, and the command line runs one operation per process over the files of a directory. A
  policy compiler turns telemetry into replication and migration. This development
  translates the Rust code under \<^verbatim>\<open>src/crates\<close> and proves what makes each part correct, alone and in
  composition, with every write, sync and save of a file free to fail; only reading back the bytes of a
  segment fails for no other reason than that they lie beyond the end of the file.

  \<^bold>\<open>Parts and theories.\<close>

  \<^descr> \<^verbatim>\<open>Space_Prelude\<close>: words, results, operations (functions from a state to a result and the next
    state), hash maps as association lists, byte files and the outcomes of system calls.
  \<^descr> \<^verbatim>\<open>Common_Types\<close>: \<^verbatim>\<open>common/src/lib.rs\<close>, \<^verbatim>\<open>policy.rs\<close>, \<^verbatim>\<open>traits.rs\<close>: identifiers, capsules, segments,
    policies with every preset, errors; the record \<open>ext\<close> of third-party functions and its laws.
  \<^descr> \<^verbatim>\<open>Nvram_Log\<close>: \<^verbatim>\<open>nvram-sim/src/lib.rs\<close>: the log over a byte file, its segment map, transactions.
  \<^descr> \<^verbatim>\<open>Compression\<close>: \<^verbatim>\<open>compression/src/lib.rs\<close>: adaptive compression around LZ4 and Zstandard.
  \<^descr> \<^verbatim>\<open>Encryption\<close>: \<^verbatim>\<open>encryption/src\<close>: HKDF, the key manager and rotation, XTS segments, integrity tags.
  \<^descr> \<^verbatim>\<open>Registry\<close>, \<^verbatim>\<open>Store\<close>, \<^verbatim>\<open>Garbage_Collector\<close>: \<^verbatim>\<open>capsule-registry/src/lib.rs\<close> and \<^verbatim>\<open>gc.rs\<close>: the registry,
    the state that pipelines and collector share with its invariant, and the sweep.
  \<^descr> \<^verbatim>\<open>Write_Pipeline\<close>: \<^verbatim>\<open>capsule-registry/src/pipeline.rs\<close>: write, read, range read, deletion,
    collection, reconciliation at startup; proofs in \<^verbatim>\<open>Pipeline_Invariant\<close>, \<^verbatim>\<open>Pipeline_Correct\<close> and
    \<^verbatim>\<open>Pipeline_Properties\<close>.
  \<^descr> \<^verbatim>\<open>Async_Pipeline\<close>: the same file with the feature \<^verbatim>\<open>pipeline_async\<close>; proofs in \<^verbatim>\<open>Async_Schedule\<close>,
    \<^verbatim>\<open>Async_Refinement\<close> and \<^verbatim>\<open>Async_Properties\<close>.
  \<^descr> \<^verbatim>\<open>Layout_Engine\<close>: \<^verbatim>\<open>layout-engine/src\<close>: the choice of an offload and the plan of the CPU offloads.
  \<^descr> \<^verbatim>\<open>Storage_Backends\<close>: \<^verbatim>\<open>storage/src/lib.rs\<close>: the backends in memory and over the log.
  \<^descr> \<^verbatim>\<open>Modular_Pipeline\<close>: \<^verbatim>\<open>pipeline/src/lib.rs\<close> and \<^verbatim>\<open>dedup/src/lib.rs\<close>: the pipeline over any backend,
    catalog and encryptor; proofs in \<^verbatim>\<open>Modular_Correct\<close> and \<^verbatim>\<open>Modular_Properties\<close>.
  \<^descr> \<^verbatim>\<open>Capsule_Service\<close>, \<^verbatim>\<open>View_Common\<close>, \<^verbatim>\<open>View_Sample\<close>: what the views rely on, as a contract that the
    write pipeline is shown to meet, and what they have in common.
  \<^descr> \<^verbatim>\<open>Block_View\<close>: \<^verbatim>\<open>protocol-block/src/lib.rs\<close>; proofs in \<^verbatim>\<open>Block_Correct\<close> and \<^verbatim>\<open>Block_Properties\<close>.
  \<^descr> \<^verbatim>\<open>Nfs_View\<close>: \<^verbatim>\<open>protocol-nfs/src/lib.rs\<close>; proofs in \<^verbatim>\<open>Nfs_Paths\<close>, \<^verbatim>\<open>Nfs_Correct\<close>, \<^verbatim>\<open>Nfs_Operations\<close>
    and \<^verbatim>\<open>Nfs_Properties\<close>.
  \<^descr> \<^verbatim>\<open>S3_View\<close>: \<^verbatim>\<open>protocol-s3/src/lib.rs\<close>; proofs in \<^verbatim>\<open>S3_Properties\<close>.
  \<^descr> \<^verbatim>\<open>Audit_Log\<close>: \<^verbatim>\<open>common/src/security/audit_log.rs\<close>; proofs in \<^verbatim>\<open>Audit_Properties\<close>.
  \<^descr> \<^verbatim>\<open>Bloom_Filter\<close>: \<^verbatim>\<open>common/src/security/bloom_dedup.rs\<close> and its use in the registry; proofs in
    \<^verbatim>\<open>Bloom_Properties\<close>.
  \<^descr> \<^verbatim>\<open>Policy_Compiler\<close>, \<^verbatim>\<open>Scaling_Agent\<close>: \<^verbatim>\<open>scaling/src\<close>: the compiler, the peer table of the mesh node, and
    the agent with its executors; proofs in \<^verbatim>\<open>Policy_Properties\<close>.
  \<^descr> \<^verbatim>\<open>Text_Format\<close>: decimal numbers, lines and words, as the modules below parse and print them.
  \<^descr> \<^verbatim>\<open>Zero_Trust\<close>: \<^verbatim>\<open>common/src/security/ebpf_gateway.rs\<close> and \<^verbatim>\<open>protocol-s3/src/handlers.rs\<close>, \<^verbatim>\<open>server.rs\<close>: the
    allow list, the admission of requests and the HTTP handlers; proofs in \<^verbatim>\<open>Zero_Trust_Properties\<close>.
  \<^descr> \<^verbatim>\<open>Mesh_Replication\<close>: the branch \<^verbatim>\<open>podms\<close> of the asynchronous write and the mirroring of segments in
    \<^verbatim>\<open>scaling/src/lib.rs\<close>; proofs in \<^verbatim>\<open>Mesh_Properties\<close>.
  \<^descr> \<^verbatim>\<open>Federation\<close>: the feature \<^verbatim>\<open>phase4\<close>: \<^verbatim>\<open>protocol-csi\<close>, \<^verbatim>\<open>protocol-fuse\<close>, \<^verbatim>\<open>protocol-nvme\<close> and
    \<^verbatim>\<open>protocol-nfs/src/phase4.rs\<close> over the cluster of \<^verbatim>\<open>vendor/raft-rs\<close>.
  \<^descr> \<^verbatim>\<open>Crypto_Profiles\<close>, \<^verbatim>\<open>Hybrid_Pipeline\<close>: \<^verbatim>\<open>common/src/security/crypto_profiles.rs\<close> and the write pipeline that
    wraps its keys with ML-KEM; proofs in \<^verbatim>\<open>Crypto_Profiles\<close> and \<^verbatim>\<open>Hybrid_Properties\<close>.
  \<^descr> \<^verbatim>\<open>Durability\<close>: what the files of a store hold when the process that used it has ended, and that opening
    them again gives the same capsules.
  \<^descr> \<^verbatim>\<open>Spacectl\<close>: \<^verbatim>\<open>spacectl/src/main.rs\<close>: every command as a process over a disk; proofs in \<^verbatim>\<open>Spacectl_Correct\<close>
    (files), \<^verbatim>\<open>Spacectl_Volumes\<close> (volumes), \<^verbatim>\<open>Spacectl_Sessions\<close> (the simulation) and \<^verbatim>\<open>Spacectl_Properties\<close>.
  \<^descr> \<^verbatim>\<open>Modular_Delegation\<close>: the feature \<^verbatim>\<open>modular_pipeline\<close>: the write pipeline, \<^verbatim>\<open>spacectl --modular\<close> and the S3 view
    over a modular pipeline that shares their store. \<^verbatim>\<open>Federated_Write\<close>: the features \<^verbatim>\<open>podms\<close> and \<^verbatim>\<open>phase4\<close> together.
  \<^descr> \<^verbatim>\<open>Workspace_Tasks\<close>: \<^verbatim>\<open>xtask/src/main.rs\<close>: audit, graph and drift report.
  \<^descr> \<^verbatim>\<open>Simulations\<close>: \<^verbatim>\<open>sim-nvram\<close>, \<^verbatim>\<open>sim-nvmeof\<close>, \<^verbatim>\<open>sim-other\<close> and the simulation mode of the pipeline.

  \<^bold>\<open>How the model corresponds to the code.\<close> A struct is a record, an enum a datatype, a method a
  definition with the method's name where HOL allows it. \<open>Result\<close> is the datatype \<open>result\<close> and \<open>?\<close> is
  \<open>bind_op\<close>, which keeps the state an error leaves behind; so every early return is a branch. An
  integer is a word of its width. A \<open>HashMap\<close> is a list without duplicate keys in an arbitrary order,
  so what iterates over one is proved for every order. Every file has a list of the outcomes of its
  next system calls that change it (and, where the code opens a file, of the opening), and the theorems about failures quantify over that list. Fresh identifiers,
  clocks and schedules are arguments. Logging is left out; a lock that protects one call is
  the atomicity of that call. Where several clients interleave between two locks (\<^verbatim>\<open>Block_Correct\<close>) or
  tasks run in any order (\<^verbatim>\<open>Async_Schedule\<close>), the interleavings are step relations and arguments.

  \<^bold>\<open>What the theorems show.\<close> The write pipeline: what is written is read back, also after any history of
  other calls and failures, deletion and collection free exactly what nothing refers to, and the
  reference counts can be recomputed at startup. The asynchronous write refines the sequential one under every
  schedule. The modular pipeline has the same properties over memory. The views: block
  writes are atomic under interleaving, the namespace stays a tree whose files
  read back, S3 objects are the last data put. The audit log: one unbroken chain whose last hash seals every record.
  The Bloom filter: lookups are unchanged while counters do not saturate. The policy compiler: targets satisfy the
  policy they are compiled under. The ingress: the list in force decides who gets in, and what is answered is what was
  put. Replication: the peers receive the stored bytes in order. The hybrid pipeline: what a node writes under
  wrapped keys it reads back, also after a restart of the key manager. The command line: a session of processes simulates a user's
  state of capsules, files and volumes. Several theorems state flaws of the code instead: for
  example that a rotated audit log starts a second chain, or that the agent migrates capsules that
  must stay local, that a hybrid write without deduplication cannot be read, or that a restarted S3
  server has lost every name, or that capsules that must stay local are mirrored to peers.

  \<^bold>\<open>Interfaces.\<close> \<open>capsule_catalog\<close>, \<open>storage_backend\<close> and \<open>storage_atomic\<close>, \<open>encryptor\<close>, \<open>compressor\<close> and
  \<open>capsule_service\<close> are locales with the operations of the traits and the laws their clients use;
  each is interpreted on the code's own implementations. The NVRAM backend satisfies \<open>storage_backend\<close> but
  not the atomicity the modular pipeline needs, since its transactions do not know stored segments.

  \<^bold>\<open>Hypotheses and bounds.\<close> Third-party code is a parameter: BLAKE3, HMAC-SHA256, AES-XTS, LZ4,
  Zstandard, ML-KEM, hexadecimal, the JSON of the audit log and of the key file, HTTP header values, floating-point comparisons. The laws used are
  the length of a hash, that XTS decryption inverts encryption from sixteen bytes on, that the
  contents actually stored do not collide under BLAKE3, and that a decoder returns what its encoder
  was given, that decapsulation inverts encapsulation; each has a concrete instance in \<open>sample_ext\<close> on which every theorem is applied. Every loop is structural
  except the inner one of the layout planner, which runs forever when the segment size is zero: it is a
  partial function, and the theorem \<open>build_plan_terminates\<close> says exactly when it returns. No fuel is used.
  Segment identifiers are assumed not to wrap within one history, by a hypothesis on the allocator.

  \<^bold>\<open>Not modelled.\<close> The stub crates under \<^verbatim>\<open>vendor\<close> other than \<^verbatim>\<open>raft-rs\<close>; the older crates \<^verbatim>\<open>capsule-registry\<close> and
  \<^verbatim>\<open>common\<close> at the top level, which the workspace does not build. Sockets, the HTTP framework, argument parsing, formatting of
  output and logging are libraries or output. In the layout engine the offloads to zoned devices and learned models end in
  panics or need data outside the repository. The builder of the modular pipeline only fills in default parts. \<open>Debug\<close> and \<open>Display\<close> output, the floating-point
  ratios of statistics and serialisation attributes are left out.
\<close>

end
